(* ===== verification/Bt_Prelude.thy ===== *)
theory Bt_Prelude
  imports Main "HOL-Library.Word" "HOL-Library.Monad_Syntax"
begin

text \<open>
  Shared vocabulary of the development: the fixed-width integers of the C sources,
  byte strings, the negative error codes as a datatype, memory writes into a byte
  array, and the list lemmas every component uses.

  C integers are words of their own width (\<open>uint8_t\<close> is \<open>u8\<close>, \<open>uint16_t\<close> is \<open>u16\<close>,
  \<open>uint32_t\<close> and \<open>unsigned int\<close> are \<open>u32\<close>, \<open>uint64_t\<close> is \<open>u64\<close>); lengths, offsets and
  array indices (\<open>size_t\<close>) are natural numbers.  A pointer into a byte array is either
  the list of bytes it points to (read-only uses) or an offset into the array's bytes
  (uses that write).  A C function that returns zero or a negative error code and
  writes through an output pointer is a function into \<open>errno + 'a\<close>.
\<close>

unbundle bit_operations_syntax

section \<open>Types\<close>

type_synonym u8 = "8 word"
type_synonym u16 = "16 word"
type_synonym u32 = "32 word"
type_synonym u64 = "64 word"
type_synonym bytes = "u8 list"

datatype errno =
    EINVAL | EIO | ENOMEM | ENOENT | EBADMSG | EAGAIN | ENOBUFS | EALREADY | EBUSY | ENOTSUP | EMSGSIZE | ETIMEDOUT | ECANCELED | ETRUE | EADDRNOTAVAIL | ENOTCONN

section \<open>Proof automation\<close>

named_theorems byte_defs \<open>definitions of the byte-order helpers\<close>
named_theorems codec_simps \<open>reading back what a byte-order helper wrote\<close>

section \<open>Writing into a byte array\<close>

text \<open>\<open>mem_write off bs mem\<close> is \<open>memcpy(mem + off, bs, length bs)\<close>.\<close>

definition mem_write :: "nat \<Rightarrow> 'a list \<Rightarrow> 'a list \<Rightarrow> 'a list" where
  "mem_write off bs mem = take off mem @ bs @ drop (off + length bs) mem"

lemma length_mem_write [simp]:
  "off + length bs \<le> length mem \<Longrightarrow> length (mem_write off bs mem) = length mem"
  by (simp add: mem_write_def)

lemma mem_write_Nil [simp]: "mem_write off [] mem = mem"
  by (simp add: mem_write_def)

lemma mem_write_read:
  assumes "off + length bs \<le> length mem"
  shows "take (length bs) (drop off (mem_write off bs mem)) = bs"
  using assms by (simp add: mem_write_def)

lemma mem_write_before:
  "off \<le> length mem \<Longrightarrow> take off (mem_write off bs mem) = take off mem"
  by (simp add: mem_write_def)

lemma mem_write_after:
  "off \<le> length mem \<Longrightarrow>
    drop (off + length bs) (mem_write off bs mem) = drop (off + length bs) mem"
  by (simp add: mem_write_def)

lemma mem_write_nth:
  assumes "off + length bs \<le> length mem" "i < length mem"
  shows "mem_write off bs mem ! i =
    (if off \<le> i \<and> i < off + length bs then bs ! (i - off) else mem ! i)"
  using assms by (auto simp: mem_write_def nth_append)

lemma mem_write_append_read:
  assumes "p + n + length bs \<le> length mem"
  shows "take (n + length bs) (drop p (mem_write (p + n) bs mem)) = take n (drop p mem) @ bs"
  by (rule nth_equalityI) (use assms in \<open>auto simp: mem_write_nth nth_append\<close>)

lemma mem_write_prepend_read:
  assumes "length bs \<le> p" "p + n \<le> length mem"
  shows "take (n + length bs) (drop (p - length bs) (mem_write (p - length bs) bs mem)) =
    bs @ take n (drop p mem)"
  by (rule nth_equalityI) (use assms in \<open>auto simp: mem_write_nth nth_append\<close>)

lemma mem_write_split:
  assumes "off + length bs \<le> length m"
  shows "take (off + length bs) (mem_write off bs m) = take off m @ bs"
    and "drop (off + length bs) (mem_write off bs m) = drop (off + length bs) m"
  using assms by (simp_all add: mem_write_def)

section \<open>Pointwise exclusive or\<close>

lemma xor_word_eq_0_iff: "(x :: 'a :: len word) XOR y = 0 \<longleftrightarrow> x = y"
  by (metis xor.assoc xor.right_neutral xor_self_eq xor.left_neutral)

lemma or_word_eq_0_iff: "(x :: 'a :: len word) OR y = 0 \<longleftrightarrow> x = 0 \<and> y = 0"
  by (metis bit_eq_iff bit_or_iff bit_0_eq bot_apply bot_bool_def)

definition xor_bytes :: "bytes \<Rightarrow> bytes \<Rightarrow> bytes" where
  "xor_bytes a b = map2 (XOR) a b"

lemma length_xor_bytes [simp]: "length (xor_bytes a b) = min (length a) (length b)"
  by (simp add: xor_bytes_def)

lemma nth_xor_bytes [simp]:
  "i < length a \<Longrightarrow> i < length b \<Longrightarrow> xor_bytes a b ! i = a ! i XOR b ! i"
  by (simp add: xor_bytes_def)

lemma xor_bytes_Nil [simp]: "xor_bytes [] b = []" "xor_bytes a [] = []"
  by (simp_all add: xor_bytes_def)

lemma xor_bytes_Cons [simp]: "xor_bytes (x # a) (y # b) = (x XOR y) # xor_bytes a b"
  by (simp add: xor_bytes_def)

lemma xor_bytes_comm: "xor_bytes a b = xor_bytes b a"
  by (rule nth_equalityI) (auto simp: xor.commute)

lemma xor_bytes_cancel:
  assumes "length a \<le> length k"
  shows "xor_bytes (xor_bytes a k) k = a"
  by (rule nth_equalityI) (use assms in \<open>auto simp: xor.assoc\<close>)

lemma xor_bytes_inject:
  assumes "length a \<le> length k" "length b \<le> length k" "xor_bytes a k = xor_bytes b k"
  shows "a = b"
  using assms xor_bytes_cancel by metis

lemma take_xor_bytes: "take n (xor_bytes a b) = xor_bytes (take n a) (take n b)"
  by (simp add: xor_bytes_def take_map take_zip)

lemma xor_bytes_take_left: "xor_bytes (take n a) b = take n (xor_bytes a b)"
  by (rule nth_equalityI) auto

lemma xor_bytes_take_right: "xor_bytes a (take n b) = take n (xor_bytes a b)"
  by (rule nth_equalityI) auto

lemma xor_bytes_append: "length a = length c \<Longrightarrow> xor_bytes (a @ b) (c @ d) = xor_bytes a c @ xor_bytes b d"
  by (simp add: xor_bytes_def)

lemma drop_xor_bytes: "drop n (xor_bytes a b) = xor_bytes (drop n a) (drop n b)"
  by (simp add: xor_bytes_def drop_map drop_zip)

section \<open>Cutting a byte string into sixteen-byte blocks\<close>

lemma take_add_drop: "take (n + m) xs = take n xs @ take m (drop n xs)"
  by (rule take_add)

lemma drop_take_block:
  "i + n \<le> m \<Longrightarrow> take n (drop i (take m xs)) = take n (drop i xs)"
  by (simp add: drop_take min_def)

lemma list_cases16:
  assumes "length (xs :: 'a list) = 16"
  obtains a0 a1 a2 a3 a4 a5 a6 a7 a8 a9 a10 a11 a12 a13 a14 a15
  where "xs = [a0, a1, a2, a3, a4, a5, a6, a7, a8, a9, a10, a11, a12, a13, a14, a15]"
  using assms by (auto simp: numeral_eq_Suc length_Suc_conv)

section \<open>The first element with a property\<close>

fun find_index :: "('a \<Rightarrow> bool) \<Rightarrow> 'a list \<Rightarrow> nat option" where
  "find_index P [] = None"
| "find_index P (x # xs) = (if P x then Some 0 else map_option Suc (find_index P xs))"

lemma find_index_Some: "find_index P xs = Some i \<Longrightarrow> i < length xs \<and> P (xs ! i) \<and> (\<forall>k < i. \<not> P (xs ! k))"
proof (induction xs arbitrary: i)
  case (Cons x xs)
  then show ?case by (auto simp: less_Suc_eq_0_disj split: if_splits)
qed simp

lemma find_index_None: "find_index P xs = None \<longleftrightarrow> (\<forall>x \<in> set xs. \<not> P x)"
  by (induction xs) auto

section \<open>Error results\<close>

definition ok :: "'e + 'a \<Rightarrow> bool" where
  "ok r = (case r of Inl _ \<Rightarrow> False | Inr _ \<Rightarrow> True)"

lemma ok_simps [simp]: "\<not> ok (Inl e)" "ok (Inr x)"
  by (simp_all add: ok_def)

text \<open>Early return on an error: \<open>err = f(...); if (err) return err;\<close> and then the rest.\<close>

definition err_bind :: "'e + 'a \<Rightarrow> ('a \<Rightarrow> 'e + 'b) \<Rightarrow> 'e + 'b" where
  "err_bind r f = (case r of Inl e \<Rightarrow> Inl e | Inr x \<Rightarrow> f x)"

lemma err_bind_simps [simp]: "err_bind (Inl e) f = Inl e" "err_bind (Inr x) f = f x"
  by (simp_all add: err_bind_def)

lemma err_bind_Inr_iff: "err_bind r f = Inr y \<longleftrightarrow> (\<exists>x. r = Inr x \<and> f x = Inr y)"
  by (cases r) simp_all

lemma ok_iff: "ok r \<longleftrightarrow> (\<exists>x. r = Inr x)"
  by (cases r) simp_all

section \<open>Words and their values\<close>

lemma unat_u8: "unat (x :: u8) < 256"
  using unsigned_less [of x] by simp

lemma word_le_or: "(x :: 'a :: len word) \<le> x OR y"
  using le_word_or1 [of x y] by (simp add: or.commute)

lemma unat_word_small: "n < 256 \<Longrightarrow> unat (word_of_nat n :: u8) = n"
  by (simp add: unat_of_nat)

lemma drop_mem_write: "off + length bs \<le> n \<Longrightarrow> off \<le> length m \<Longrightarrow> drop n (mem_write off bs m) = drop n m"
  by (simp add: mem_write_def)

lemma unat_u32: "unat (x :: u32) < 4294967296"
  using unsigned_less [of x] by simp

end
