(* ===== verification/Mesh_Types.thy ===== *)
theory Mesh_Types
  imports Bt_Prelude
begin

text \<open>
  Types the mesh components share: addresses (\<open>core/include/bluetooth/mesh/access.h\<close>),
  message contexts (\<open>core/include/bluetooth/mesh/msg.h\<close>), the decoding context of a
  received network PDU (\<open>core/src/mesh/net.h\<close>), and the pending storage actions
  (\<open>core/src/mesh/settings.h\<close>).  Bit fields keep their width.
\<close>

section \<open>Addresses and key indices\<close>

definition BT_MESH_ADDR_UNASSIGNED :: u16 where [simp]: "BT_MESH_ADDR_UNASSIGNED = 0x0000"
definition BT_MESH_ADDR_ALL_NODES :: u16 where [simp]: "BT_MESH_ADDR_ALL_NODES = 0xffff"
definition BT_MESH_ADDR_PROXIES :: u16 where [simp]: "BT_MESH_ADDR_PROXIES = 0xfffc"
definition BT_MESH_ADDR_FRIENDS :: u16 where [simp]: "BT_MESH_ADDR_FRIENDS = 0xfffd"
definition BT_MESH_ADDR_RELAYS :: u16 where [simp]: "BT_MESH_ADDR_RELAYS = 0xfffe"

definition BT_MESH_KEY_UNUSED :: u16 where [simp]: "BT_MESH_KEY_UNUSED = 0xffff"
definition BT_MESH_KEY_ANY :: u16 where [simp]: "BT_MESH_KEY_ANY = 0xffff"
definition BT_MESH_TTL_DEFAULT :: u8 where [simp]: "BT_MESH_TTL_DEFAULT = 0xff"

definition BT_MESH_ADDR_IS_UNICAST :: "u16 \<Rightarrow> bool" where
  "BT_MESH_ADDR_IS_UNICAST addr \<longleftrightarrow> addr \<noteq> 0 \<and> addr < 0x8000"

definition BT_MESH_ADDR_IS_GROUP :: "u16 \<Rightarrow> bool" where
  "BT_MESH_ADDR_IS_GROUP addr \<longleftrightarrow> 0xc000 \<le> addr \<and> addr \<le> 0xff00"

definition BT_MESH_ADDR_IS_VIRTUAL :: "u16 \<Rightarrow> bool" where
  "BT_MESH_ADDR_IS_VIRTUAL addr \<longleftrightarrow> 0x8000 \<le> addr \<and> addr < 0xc000"

definition BT_MESH_ADDR_IS_RFU :: "u16 \<Rightarrow> bool" where
  "BT_MESH_ADDR_IS_RFU addr \<longleftrightarrow> 0xff00 \<le> addr \<and> addr \<le> 0xfffb"

section \<open>Message contexts\<close>

record bt_mesh_msg_ctx =
  ctx_net_idx :: u16
  ctx_app_idx :: u16
  ctx_addr :: u16
  ctx_recv_dst :: u16
  ctx_recv_rssi :: u8
  ctx_recv_ttl :: u8
  ctx_send_rel :: bool
  ctx_send_ttl :: u8

datatype bt_mesh_net_if =
    BT_MESH_NET_IF_ADV | BT_MESH_NET_IF_LOCAL | BT_MESH_NET_IF_PROXY | BT_MESH_NET_IF_PROXY_CFG

text \<open>\<open>rx_sub\<close> is the index of the subnet the pointer \<open>sub\<close> refers to.\<close>

record bt_mesh_net_rx =
  rx_sub :: nat
  rx_ctx :: bt_mesh_msg_ctx
  rx_seq :: u32
  rx_old_iv :: bool
  rx_new_key :: bool
  rx_friend_cred :: bool
  rx_ctl :: bool
  rx_net_if :: bt_mesh_net_if
  rx_local_match :: bool
  rx_friend_match :: bool
  rx_msg_cache_idx :: u16

abbreviation rx_addr :: "bt_mesh_net_rx \<Rightarrow> u16" where
  "rx_addr rx \<equiv> ctx_addr (rx_ctx rx)"

section \<open>Pending storage actions\<close>

datatype bt_mesh_settings_flag =
    BT_MESH_SETTINGS_RPL_PENDING | BT_MESH_SETTINGS_NET_KEYS_PENDING | BT_MESH_SETTINGS_APP_KEYS_PENDING
  | BT_MESH_SETTINGS_NET_PENDING | BT_MESH_SETTINGS_IV_PENDING | BT_MESH_SETTINGS_SEQ_PENDING
  | BT_MESH_SETTINGS_HB_PUB_PENDING | BT_MESH_SETTINGS_CFG_PENDING | BT_MESH_SETTINGS_MOD_PENDING
  | BT_MESH_SETTINGS_VA_PENDING | BT_MESH_SETTINGS_CDB_PENDING

section \<open>Build options\<close>

record mesh_cfg =
  cfg_settings :: bool
  cfg_rpl_timeout :: bool
  cfg_ivu_test :: bool
  cfg_friend :: bool
  cfg_gatt_proxy :: bool
  cfg_cdb :: bool
  cfg_ivu_divider :: nat
  cfg_seq_limit :: u32
  cfg_seq_store_rate :: nat

section \<open>Settings paths\<close>

text \<open>\<open>snprintf\<close> of a path with \<open>%x\<close>, and \<open>strtol\<close> with base 16 on what follows the subtree.\<close>

definition hex_digit :: "nat \<Rightarrow> char" where
  "hex_digit d = ''0123456789abcdef'' ! d"

fun hex_string :: "nat \<Rightarrow> string" where
  "hex_string n = (if n < 16 then [hex_digit n] else hex_string (n div 16) @ [hex_digit (n mod 16)])"

declare hex_string.simps [simp del]

definition hex_value :: "char \<Rightarrow> nat option" where
  "hex_value c =
     (let n = of_char c :: nat in
      if 48 \<le> n \<and> n \<le> 57 then Some (n - 48)
      else if 97 \<le> n \<and> n \<le> 102 then Some (n - 87)
      else if 65 \<le> n \<and> n \<le> 70 then Some (n - 55)
      else None)"

fun strtol16 :: "nat \<Rightarrow> string \<Rightarrow> nat" where
  "strtol16 acc [] = acc"
| "strtol16 acc (c # cs) = (case hex_value c of None \<Rightarrow> acc | Some d \<Rightarrow> strtol16 (16 * acc + d) cs)"

lemma hex_value_digit: "d < 16 \<Longrightarrow> hex_value (hex_digit d) = Some d"
proof -
  have "\<forall>d \<in> set [0..<16]. hex_value (hex_digit d) = Some d" by code_simp
  then show "d < 16 \<Longrightarrow> ?thesis" by (simp only: set_upt atLeastLessThan_iff) simp
qed

lemma strtol16_append_digit:
  "d < 16 \<Longrightarrow> \<forall>c \<in> set s. hex_value c \<noteq> None \<Longrightarrow> strtol16 acc (s @ [hex_digit d]) = 16 * strtol16 acc s + d"
  by (induction s arbitrary: acc) (auto simp: hex_value_digit)

lemma strtol16_hex: "(\<forall>c \<in> set (hex_string n). hex_value c \<noteq> None) \<and> strtol16 0 (hex_string n) = n"
proof (induction n rule: hex_string.induct)
  case (1 n)
  show ?case
  proof (cases "n < 16")
    case True
    then show ?thesis by (simp add: hex_string.simps [of n] hex_value_digit)
  next
    case False
    note IH = "1.IH" [OF False]
    have m: "n mod 16 < 16" by simp
    have "hex_string n = hex_string (n div 16) @ [hex_digit (n mod 16)]"
      using False by (subst hex_string.simps) simp
    then show ?thesis using IH strtol16_append_digit [OF m] hex_value_digit [OF m] by auto
  qed
qed

section \<open>Address classes\<close>

text \<open>The address classes are disjoint and cover every address but the unassigned one.\<close>

lemma addr_classes:
  "a = 0 \<or> BT_MESH_ADDR_IS_UNICAST a \<or> BT_MESH_ADDR_IS_VIRTUAL a \<or> BT_MESH_ADDR_IS_GROUP a \<or>
   BT_MESH_ADDR_IS_RFU a \<or> a \<in> {BT_MESH_ADDR_PROXIES, BT_MESH_ADDR_FRIENDS, BT_MESH_ADDR_RELAYS, BT_MESH_ADDR_ALL_NODES}"
proof -
  have "unat a < 65536" using unsigned_less [of a] by simp
  then consider "unat a < 0xfffc" | "unat a = 0xfffc" | "unat a = 0xfffd" | "unat a = 0xfffe" | "unat a = 0xffff"
    by linarith
  then show ?thesis
    by cases (auto simp: BT_MESH_ADDR_IS_UNICAST_def BT_MESH_ADDR_IS_VIRTUAL_def BT_MESH_ADDR_IS_GROUP_def
        BT_MESH_ADDR_IS_RFU_def word_less_nat_alt word_le_nat_alt word_unat_eq_iff)
qed

lemma unicast_not_special:
  "BT_MESH_ADDR_IS_UNICAST a \<Longrightarrow> a \<noteq> 0 \<and> \<not> BT_MESH_ADDR_IS_GROUP a \<and> \<not> BT_MESH_ADDR_IS_VIRTUAL a \<and> a \<noteq> 0xffff"
  by (auto simp: BT_MESH_ADDR_IS_UNICAST_def BT_MESH_ADDR_IS_GROUP_def BT_MESH_ADDR_IS_VIRTUAL_def
      word_less_nat_alt word_le_nat_alt)

end
