(* ===== verification/Mesh_Rpl.thy ===== *)
theory Mesh_Rpl
  imports Mesh_Types
begin

text \<open>
  The replay protection list of the mesh network layer, \<open>core/src/mesh/rpl.c\<close> and
  \<open>core/src/mesh/rpl.h\<close>: a fixed array of slots, one per source address, that keeps the IV
  index age and sequence number of the last message accepted from it.

  The state is the array (\<open>replay_list\<close>), the bit array \<open>store\<close> of slots to be written, and
  the calls made to the settings subsystem, newest last.  \<open>cfg\<close> is
  \<open>CONFIG_BT_SETTINGS\<close>, \<open>timeout\<close> is whether \<open>CONFIG_BT_MESH_RPL_STORE_TIMEOUT\<close> is
  non-negative.  A pointer to a slot is its index; a zero source marks an empty slot.

  The specification is a map from sources to the last accepted message.  The list
  implements it as long as no empty slot lies in front of a used one (\<open>rpl_ok\<close>).
\<close>

section \<open>State\<close>

record bt_mesh_rpl =
  rp_src :: "15 word"
  rp_old_iv :: bool
  rp_seq :: "24 word"
  rp_seg :: "24 word"

record rpl_val =
  rv_seq :: "24 word"
  rv_old_iv :: bool

datatype settings_call =
    Settings_delete string
  | Settings_save string rpl_val
  | Store_schedule bt_mesh_settings_flag
  | Store_cancel bt_mesh_settings_flag

record rpl_state =
  replay_list :: "bt_mesh_rpl list"
  rpl_store :: "bool list"
  rpl_calls :: "settings_call list"

definition empty_rpl :: bt_mesh_rpl where
  "empty_rpl = \<lparr>rp_src = 0, rp_old_iv = False, rp_seq = 0, rp_seg = 0\<rparr>"

definition rpl_call :: "settings_call \<Rightarrow> rpl_state \<Rightarrow> rpl_state" where
  "rpl_call c st = st\<lparr>rpl_calls := rpl_calls st @ [c]\<rparr>"

definition rpl_path :: "15 word \<Rightarrow> string" where
  "rpl_path src = ''bt/mesh/RPL/'' @ hex_string (unat src)"

section \<open>Operations\<close>

definition clear_rpl :: "nat \<Rightarrow> rpl_state \<Rightarrow> rpl_state" where
  "clear_rpl i st =
     (let rpl = replay_list st ! i in
      if rp_src rpl = 0 then st
      else
        (let st = rpl_call (Settings_delete (rpl_path (rp_src rpl))) st
         in st\<lparr>replay_list := (replay_list st)[i := empty_rpl], rpl_store := (rpl_store st)[i := False]\<rparr>))"

definition schedule_rpl_store :: "bool \<Rightarrow> nat \<Rightarrow> bool \<Rightarrow> rpl_state \<Rightarrow> rpl_state" where
  "schedule_rpl_store timeout i force st =
     (let st = st\<lparr>rpl_store := (rpl_store st)[i := True]\<rparr>
      in if force \<or> timeout then rpl_call (Store_schedule BT_MESH_SETTINGS_RPL_PENDING) st else st)"

definition schedule_rpl_clear :: "rpl_state \<Rightarrow> rpl_state" where
  "schedule_rpl_clear st = rpl_call (Store_schedule BT_MESH_SETTINGS_RPL_PENDING) st"

definition bt_mesh_rpl_update :: "bool \<Rightarrow> bool \<Rightarrow> nat \<Rightarrow> bt_mesh_net_rx \<Rightarrow> rpl_state \<Rightarrow> rpl_state" where
  "bt_mesh_rpl_update cfg timeout i rx st =
     (let rpl = replay_list st ! i;
          rpl = (if rp_old_iv rpl \<and> \<not> rx_old_iv rx then rpl\<lparr>rp_seg := 0\<rparr> else rpl);
          rpl = rpl\<lparr>rp_src := ucast (rx_addr rx), rp_seq := ucast (rx_seq rx), rp_old_iv := rx_old_iv rx\<rparr>;
          st = st\<lparr>replay_list := (replay_list st)[i := rpl]\<rparr>
      in if cfg then schedule_rpl_store timeout i False st else st)"

text \<open>
  The scan of \<open>bt_mesh_rpl_check\<close>: a message is rejected as a replay, accepted with the slot
  that is to record it, or meets a full list.
\<close>

datatype rpl_verdict = Rpl_replay | Rpl_slot nat | Rpl_full

fun rpl_scan :: "bt_mesh_net_rx \<Rightarrow> nat \<Rightarrow> bt_mesh_rpl list \<Rightarrow> rpl_verdict" where
  "rpl_scan rx i [] = Rpl_full"
| "rpl_scan rx i (rpl # rpls) =
     (if rp_src rpl = 0 then Rpl_slot i
      else if unat (rp_src rpl) = unat (rx_addr rx)
      then
        (if rx_old_iv rx \<and> \<not> rp_old_iv rpl then Rpl_replay
         else if (\<not> rx_old_iv rx \<and> rp_old_iv rpl) \<or> unat (rp_seq rpl) < unat (rx_seq rx) then Rpl_slot i
         else Rpl_replay)
      else rpl_scan rx (Suc i) rpls)"

text \<open>The result says whether the message is a replay, the slot stored through \<open>match\<close>.\<close>

definition bt_mesh_rpl_check ::
  "bool \<Rightarrow> bool \<Rightarrow> bt_mesh_net_rx \<Rightarrow> bool \<Rightarrow> rpl_state \<Rightarrow> bool \<times> nat option \<times> rpl_state" where
  "bt_mesh_rpl_check cfg timeout rx match st =
     (if rx_net_if rx = BT_MESH_NET_IF_LOCAL then (False, None, st)
      else if \<not> rx_local_match rx then (False, None, st)
      else
        (case rpl_scan rx 0 (replay_list st) of
           Rpl_slot i \<Rightarrow>
             if match then (False, Some i, st)
             else (False, None, bt_mesh_rpl_update cfg timeout i rx st)
         | Rpl_replay \<Rightarrow> (True, None, st)
         | Rpl_full \<Rightarrow> (True, None, st)))"

definition bt_mesh_rpl_clear :: "bool \<Rightarrow> rpl_state \<Rightarrow> rpl_state" where
  "bt_mesh_rpl_clear cfg st =
     (if cfg then schedule_rpl_clear st
      else st\<lparr>replay_list := map (\<lambda>_. empty_rpl) (replay_list st)\<rparr>)"


definition bt_mesh_rpl_find :: "u16 \<Rightarrow> rpl_state \<Rightarrow> nat option" where
  "bt_mesh_rpl_find src st = find_index (\<lambda>r. unat (rp_src r) = unat src) (replay_list st)"

definition bt_mesh_rpl_alloc :: "u16 \<Rightarrow> rpl_state \<Rightarrow> (nat \<times> rpl_state) option" where
  "bt_mesh_rpl_alloc src st =
     (case find_index (\<lambda>r. rp_src r = 0) (replay_list st) of None \<Rightarrow> None
      | Some i \<Rightarrow> Some (i, st\<lparr>replay_list := (replay_list st)[i := (replay_list st ! i)\<lparr>rp_src := ucast src\<rparr>]\<rparr>))"

definition rpl_reset_slot :: "bool \<Rightarrow> bool \<Rightarrow> rpl_state \<Rightarrow> nat \<Rightarrow> rpl_state" where
  "rpl_reset_slot cfg timeout st i =
     (let rpl = replay_list st ! i in
      if rp_src rpl \<noteq> 0
      then
        (if rp_old_iv rpl
         then (if cfg then clear_rpl i st else st\<lparr>replay_list := (replay_list st)[i := empty_rpl]\<rparr>)
         else
           (let st = st\<lparr>replay_list := (replay_list st)[i := rpl\<lparr>rp_old_iv := True\<rparr>]\<rparr>
            in if cfg then schedule_rpl_store timeout i True st else st))
      else st)"

definition bt_mesh_rpl_reset :: "bool \<Rightarrow> bool \<Rightarrow> rpl_state \<Rightarrow> rpl_state" where
  "bt_mesh_rpl_reset cfg timeout st =
     foldl (rpl_reset_slot cfg timeout) st [0..<length (replay_list st)]"

text \<open>
  Loading an entry: \<open>name\<close> is the part of the path after the subtree, \<open>len_rd\<close> the length of
  the stored value and \<open>rd\<close> what reading it yields.
\<close>

definition rpl_set :: "string option \<Rightarrow> nat \<Rightarrow> errno + rpl_val \<Rightarrow> rpl_state \<Rightarrow> errno option \<times> rpl_state" where
  "rpl_set name len_rd rd st =
     (case name of None \<Rightarrow> (Some ENOENT, st)
      | Some nm \<Rightarrow>
         (let src = word_of_nat (strtol16 0 nm) :: u16; entry = bt_mesh_rpl_find src st in
          if len_rd = 0
          then (case entry of None \<Rightarrow> (None, st)
                | Some i \<Rightarrow> (None, st\<lparr>replay_list := (replay_list st)[i := empty_rpl]\<rparr>))
          else
            (case (case entry of Some i \<Rightarrow> Some (i, st) | None \<Rightarrow> bt_mesh_rpl_alloc src st) of
               None \<Rightarrow> (Some ENOMEM, st)
             | Some (i, st) \<Rightarrow>
                 (case rd of Inl e \<Rightarrow> (Some e, st)
                  | Inr v \<Rightarrow> (None, st\<lparr>replay_list := (replay_list st)[i :=
                      (replay_list st ! i)\<lparr>rp_seq := rv_seq v, rp_old_iv := rv_old_iv v\<rparr>]\<rparr>)))))"

definition store_rpl :: "nat \<Rightarrow> rpl_state \<Rightarrow> rpl_state" where
  "store_rpl i st =
     (let entry = replay_list st ! i in
      if rp_src entry = 0 then st
      else rpl_call (Settings_save (rpl_path (rp_src entry))
             \<lparr>rv_seq = rp_seq entry, rv_old_iv = rp_old_iv entry\<rparr>) st)"

definition store_pending_rpl :: "nat \<Rightarrow> rpl_state \<Rightarrow> rpl_state" where
  "store_pending_rpl i st =
     (if rpl_store st ! i
      then store_rpl i (st\<lparr>rpl_store := (rpl_store st)[i := False]\<rparr>) else st)"

primrec rpl_pending_loop :: "u16 \<Rightarrow> bool \<Rightarrow> nat list \<Rightarrow> rpl_state \<Rightarrow> rpl_state" where
  "rpl_pending_loop addr valid [] st = st"
| "rpl_pending_loop addr valid (i # is) st =
     (if addr \<noteq> BT_MESH_ADDR_ALL_NODES \<and> unat addr \<noteq> unat (rp_src (replay_list st ! i))
      then rpl_pending_loop addr valid is st
      else
        (let st = (if valid then store_pending_rpl i st else clear_rpl i st)
         in if addr \<noteq> BT_MESH_ADDR_ALL_NODES then st else rpl_pending_loop addr valid is st))"

definition bt_mesh_rpl_pending_store :: "bool \<Rightarrow> bool \<Rightarrow> u16 \<Rightarrow> rpl_state \<Rightarrow> rpl_state" where
  "bt_mesh_rpl_pending_store cfg valid addr st =
     (if \<not> cfg \<or> (\<not> BT_MESH_ADDR_IS_UNICAST addr \<and> addr \<noteq> BT_MESH_ADDR_ALL_NODES) then st
      else
        (let st = (if addr = BT_MESH_ADDR_ALL_NODES
                   then rpl_call (Store_cancel BT_MESH_SETTINGS_RPL_PENDING) st else st)
         in rpl_pending_loop addr valid [0..<length (replay_list st)] st))"

section \<open>The order on messages of one source\<close>

type_synonym rpl_stamp = "bool \<times> nat"

definition newer :: "rpl_stamp \<Rightarrow> rpl_stamp \<Rightarrow> bool" where
  "newer m l \<longleftrightarrow> (\<not> fst m \<and> fst l) \<or> (fst m = fst l \<and> snd l < snd m)"

lemma newer_trans: "newer a b \<Longrightarrow> newer b c \<Longrightarrow> newer a c"
  by (auto simp: newer_def)

lemma newer_irrefl: "\<not> newer a a"
  by (auto simp: newer_def)

section \<open>The contract of a replay guard\<close>

text \<open>
  \<open>lst s\<close> maps a source to the stamp of the last message accepted from it.  A guard accepts
  a message only if it is newer, and then records it.
\<close>

primrec guard_run :: "('m \<Rightarrow> 's \<Rightarrow> bool \<times> 's) \<Rightarrow> 'm list \<Rightarrow> 's \<Rightarrow> 'm list \<times> 's" where
  "guard_run step [] s = ([], s)"
| "guard_run step (m # ms) s =
     (let (acc, s') = step m s; (rest, s'') = guard_run step ms s' in (if acc then m # rest else rest, s''))"

locale replay_guard =
  fixes ok :: "'s \<Rightarrow> bool" and lst :: "'s \<Rightarrow> nat \<Rightarrow> rpl_stamp option"
    and step :: "'m \<Rightarrow> 's \<Rightarrow> bool \<times> 's"
    and relevant :: "'m \<Rightarrow> bool" and src :: "'m \<Rightarrow> nat" and stamp :: "'m \<Rightarrow> rpl_stamp"
  assumes step_ok: "ok s \<Longrightarrow> relevant m \<Longrightarrow> ok (snd (step m s))"
    and step_newer: "ok s \<Longrightarrow> relevant m \<Longrightarrow> fst (step m s) \<Longrightarrow> lst s (src m) = Some l \<Longrightarrow> newer (stamp m) l"
    and step_records: "ok s \<Longrightarrow> relevant m \<Longrightarrow> fst (step m s) \<Longrightarrow> lst (snd (step m s)) = (lst s)(src m \<mapsto> stamp m)"
    and step_rejects: "ok s \<Longrightarrow> relevant m \<Longrightarrow> \<not> fst (step m s) \<Longrightarrow> lst (snd (step m s)) = lst s"
begin

lemma run_ok: "ok s \<Longrightarrow> \<forall>m \<in> set ms. relevant m \<Longrightarrow> ok (snd (guard_run step ms s))"
  by (induction ms arbitrary: s) (auto simp: Let_def split_def step_ok)

lemma accepted_newer_than_last:
  "ok s \<Longrightarrow> \<forall>m \<in> set ms. relevant m \<Longrightarrow> a \<in> set (fst (guard_run step ms s)) \<Longrightarrow> lst s (src a) = Some l \<Longrightarrow>
    newer (stamp a) l"
proof (induction ms arbitrary: s l)
  case Nil
  then show ?case by simp
next
  case (Cons m ms)
  let ?s = "snd (step m s)"
  have ok: "ok ?s" "relevant m" using Cons.prems step_ok by auto
  show ?case
  proof (cases "fst (step m s)")
    case True
    note rec = step_records [OF Cons.prems(1) ok(2) True]
    consider "a = m" | "a \<in> set (fst (guard_run step ms ?s))"
      using Cons.prems(3) True by (auto simp: Let_def split_def)
    then show ?thesis
    proof cases
      case 1
      then show ?thesis using step_newer [OF Cons.prems(1) ok(2) True] Cons.prems(4) by blast
    next
      case 2
      show ?thesis
      proof (cases "src a = src m")
        case eq: True
        then have "newer (stamp a) (stamp m)"
          using Cons.IH [OF ok(1) _ 2] Cons.prems(2) rec by simp
        moreover have "newer (stamp m) l"
          using step_newer [OF Cons.prems(1) ok(2) True] Cons.prems(4) eq by simp
        ultimately show ?thesis by (rule newer_trans)
      next
        case False
        then show ?thesis using Cons.IH [OF ok(1) _ 2] Cons.prems(2,4) rec by simp
      qed
    qed
  next
    case False
    with Cons.prems Cons.IH [OF ok(1)] step_rejects [OF Cons.prems(1) ok(2) False] show ?thesis
      by (auto simp: Let_def split_def)
  qed
qed

lemma run_newer:
  assumes "ok s" "\<forall>m \<in> set ms. relevant m"
  shows "sorted_wrt (\<lambda>a b. src a = src b \<longrightarrow> newer (stamp b) (stamp a)) (fst (guard_run step ms s))"
  using assms
proof (induction ms arbitrary: s)
  case Nil
  then show ?case by simp
next
  case (Cons m ms)
  let ?s = "snd (step m s)"
  have ok: "ok ?s" "relevant m" using Cons.prems step_ok by auto
  from Cons.IH [OF ok(1)] Cons.prems(2)
  have IH: "sorted_wrt (\<lambda>a b. src a = src b \<longrightarrow> newer (stamp b) (stamp a)) (fst (guard_run step ms ?s))" by simp
  have "newer (stamp b) (stamp m)" if "fst (step m s)" "b \<in> set (fst (guard_run step ms ?s))" "src m = src b" for b
    using accepted_newer_than_last [OF ok(1) _ that(2)] Cons.prems(2) step_records [OF Cons.prems(1) ok(2) that(1)] that(3)
    by simp
  with IH show ?case by (auto simp: Let_def split_def)
qed

end

section \<open>The list as a map\<close>

fun rpl_ok :: "bt_mesh_rpl list \<Rightarrow> bool" where
  "rpl_ok [] = True"
| "rpl_ok (r # rs) =
     (if rp_src r = 0 then \<forall>x \<in> set rs. rp_src x = 0 else rp_src r \<notin> rp_src ` set rs \<and> rpl_ok rs)"

definition rp_stamp :: "bt_mesh_rpl \<Rightarrow> rpl_stamp" where
  "rp_stamp r = (rp_old_iv r, unat (rp_seq r))"

fun rpl_map :: "bt_mesh_rpl list \<Rightarrow> nat \<Rightarrow> rpl_stamp option" where
  "rpl_map [] a = None"
| "rpl_map (r # rs) a = (if rp_src r \<noteq> 0 \<and> unat (rp_src r) = a then Some (rp_stamp r) else rpl_map rs a)"

definition rx_stamp :: "bt_mesh_net_rx \<Rightarrow> rpl_stamp" where
  "rx_stamp rx = (rx_old_iv rx, unat (rx_seq rx))"

lemma rpl_map_all_empty: "\<forall>x \<in> set rs. rp_src x = 0 \<Longrightarrow> rpl_map rs = (\<lambda>_. None)"
  by (induction rs) auto

lemma rpl_map_notin: "s \<notin> rp_src ` set rs \<Longrightarrow> rpl_map rs (unat s) = None"
  by (induction rs) (auto simp: word_unat_eq_iff)

text \<open>A slot a source may be recorded in: its own entry, or the first empty one if it has none.\<close>

definition slot_for :: "bt_mesh_rpl list \<Rightarrow> nat \<Rightarrow> nat \<Rightarrow> bool" where
  "slot_for rs a j \<longleftrightarrow> j < length rs \<and>
     (unat (rp_src (rs ! j)) = a \<or>
      rp_src (rs ! j) = 0 \<and> rpl_map rs a = None \<and> (\<forall>k < j. rp_src (rs ! k) \<noteq> 0))"

lemma src_notin:
  assumes "rp_src r \<notin> rp_src ` set rs" "j < length rs"
  shows "unat (rp_src (rs ! j)) \<noteq> unat (rp_src r)"
proof
  assume "unat (rp_src (rs ! j)) = unat (rp_src r)"
  then have "rp_src (rs ! j) = rp_src r" by (simp add: word_unat_eq_iff)
  with assms show False by (metis image_eqI nth_mem)
qed

lemma slot_for_Cons:
  "slot_for (r # rs) a (Suc j) \<Longrightarrow> rpl_ok (r # rs) \<Longrightarrow> a \<noteq> 0 \<Longrightarrow>
     rp_src r \<noteq> 0 \<and> unat (rp_src r) \<noteq> a \<and> slot_for rs a j"
  using src_notin [of r rs j] by (auto simp: slot_for_def split: if_splits dest: nth_mem)

lemma slot_for_ConsI:
  "slot_for rs a j \<Longrightarrow> rp_src r \<noteq> 0 \<Longrightarrow> unat (rp_src r) \<noteq> a \<Longrightarrow> slot_for (r # rs) a (Suc j)"
  by (auto simp: slot_for_def nth_Cons' less_Suc_eq_0_disj)

lemma rpl_scan_slot:
  assumes "rpl_scan rx i rs = Rpl_slot j" "rpl_ok rs" "rx_addr rx \<noteq> 0"
  shows "i \<le> j \<and> slot_for rs (unat (rx_addr rx)) (j - i) \<and>
    (\<forall>l. rpl_map rs (unat (rx_addr rx)) = Some l \<longrightarrow> newer (rx_stamp rx) l)"
  using assms
proof (induction rx i rs rule: rpl_scan.induct)
  case (2 rx i r rs)
  consider (empty) "rp_src r = 0" | (same) "rp_src r \<noteq> 0" "unat (rp_src r) = unat (rx_addr rx)"
    | (other) "rp_src r \<noteq> 0" "unat (rp_src r) \<noteq> unat (rx_addr rx)" by blast
  then show ?case
  proof cases
    case other
    with 2 have "rpl_scan rx (Suc i) rs = Rpl_slot j" "rpl_ok rs" by auto
    from "2.IH" [OF other this "2.prems"(3)] other slot_for_ConsI [OF _ other, of rs "j - Suc i"] show ?thesis
      by (auto simp: Suc_diff_Suc Suc_le_eq)
  qed (use 2 in \<open>auto simp: slot_for_def rpl_map_all_empty newer_def rx_stamp_def rp_stamp_def split: if_splits\<close>)
qed simp

lemma rpl_put:
  assumes "rpl_ok rs" "slot_for rs a j" "a \<noteq> 0" "unat (rp_src r) = a"
  shows "rpl_ok (rs[j := r]) \<and> rpl_map (rs[j := r]) = (rpl_map rs)(a \<mapsto> rp_stamp r)"
  using assms
proof (induction rs arbitrary: j)
  case Nil
  then show ?case by (simp add: slot_for_def)
next
  case (Cons x rs)
  have r: "rp_src r \<noteq> 0" using Cons.prems(3,4) by auto
  show ?case
  proof (cases j)
    case 0
    have "rpl_map rs a = None \<and> rp_src r \<notin> rp_src ` set rs \<and> rpl_ok rs"
    proof (cases "rp_src x = 0")
      case True
      then have "\<forall>y \<in> set rs. rp_src y = 0" using Cons.prems(1) by simp
      moreover from this have "rpl_ok rs" by (induction rs) auto
      ultimately show ?thesis using r by (auto simp: rpl_map_all_empty)
    next
      case False
      with Cons.prems 0 have "rp_src x = rp_src r" by (auto simp: slot_for_def word_unat_eq_iff)
      with False Cons.prems show ?thesis using rpl_map_notin [of "rp_src r" rs] by auto
    qed
    with 0 r Cons.prems(4) show ?thesis
      using Cons.prems(1,2) by (auto simp: slot_for_def fun_eq_iff)
  next
    case (Suc k)
    from slot_for_Cons [OF Cons.prems(2) [unfolded Suc] Cons.prems(1,3)]
    have x: "rp_src x \<noteq> 0" "unat (rp_src x) \<noteq> a" "slot_for rs a k" by auto
    then have "rpl_ok rs" "rp_src x \<notin> rp_src ` set rs" using Cons.prems(1) by auto
    with Cons.IH [OF this(1) x(3) Cons.prems(3,4)] x Suc Cons.prems(4) show ?thesis
      by (auto simp: fun_eq_iff dest!: set_update_subset_insert [THEN subsetD])
  qed
qed

section \<open>The check implements the guard\<close>

definition rx_relevant :: "bt_mesh_net_rx \<Rightarrow> bool" where
  "rx_relevant rx \<longleftrightarrow> BT_MESH_ADDR_IS_UNICAST (rx_addr rx) \<and> unat (rx_seq rx) < 2 ^ 24 \<and>
     rx_net_if rx \<noteq> BT_MESH_NET_IF_LOCAL \<and> rx_local_match rx"

text \<open>Checking and recording a message at once, as for unsegmented messages.\<close>

definition rpl_accept :: "bool \<Rightarrow> bool \<Rightarrow> bt_mesh_net_rx \<Rightarrow> rpl_state \<Rightarrow> bool \<times> rpl_state" where
  "rpl_accept cfg timeout rx st =
     (case bt_mesh_rpl_check cfg timeout rx False st of (replay, _, st') \<Rightarrow> (\<not> replay, st'))"

lemma unicast_cast:
  "BT_MESH_ADDR_IS_UNICAST a \<Longrightarrow> unat (ucast a :: 15 word) = unat a \<and> unat a \<noteq> 0"
  by (auto simp: BT_MESH_ADDR_IS_UNICAST_def unsigned_ucast_eq take_bit_nat_eq_self word_less_nat_alt unat_eq_0)

lemma seq_cast: "unat (w :: u32) < 2 ^ 24 \<Longrightarrow> unat (ucast w :: 24 word) = unat w"
  by (simp add: unsigned_ucast_eq take_bit_nat_eq_self)

lemma update_list:
  assumes "rx_relevant rx"
  shows "\<exists>r. replay_list (bt_mesh_rpl_update cfg timeout i rx st) = (replay_list st)[i := r] \<and>
    unat (rp_src r) = unat (rx_addr rx) \<and> rp_stamp r = rx_stamp rx"
  using assms unicast_cast [of "rx_addr rx"] seq_cast [of "rx_seq rx"]
  by (auto simp: bt_mesh_rpl_update_def Let_def schedule_rpl_store_def rpl_call_def rx_relevant_def
      rp_stamp_def rx_stamp_def)

lemma accept_cases:
  assumes "rx_relevant rx" "rpl_ok (replay_list st)"
  shows "fst (rpl_accept cfg timeout rx st) \<and> rpl_ok (replay_list (snd (rpl_accept cfg timeout rx st))) \<and>
      rpl_map (replay_list (snd (rpl_accept cfg timeout rx st))) =
        (rpl_map (replay_list st))(unat (rx_addr rx) \<mapsto> rx_stamp rx) \<and>
      (\<forall>l. rpl_map (replay_list st) (unat (rx_addr rx)) = Some l \<longrightarrow> newer (rx_stamp rx) l) \<or>
    rpl_accept cfg timeout rx st = (False, st)"
proof (cases "rpl_scan rx 0 (replay_list st)")
  case (Rpl_slot j)
  have a: "rx_addr rx \<noteq> 0" "unat (rx_addr rx) \<noteq> 0"
    using assms(1) unicast_cast [of "rx_addr rx"] by (auto simp: rx_relevant_def)
  from rpl_scan_slot [OF Rpl_slot assms(2) a(1)]
  have slot: "slot_for (replay_list st) (unat (rx_addr rx)) j"
    "\<forall>l. rpl_map (replay_list st) (unat (rx_addr rx)) = Some l \<longrightarrow> newer (rx_stamp rx) l" by auto
  obtain r where r: "replay_list (bt_mesh_rpl_update cfg timeout j rx st) = (replay_list st)[j := r]"
    "unat (rp_src r) = unat (rx_addr rx)" "rp_stamp r = rx_stamp rx"
    using update_list [OF assms(1)] by blast
  have "rpl_accept cfg timeout rx st = (True, bt_mesh_rpl_update cfg timeout j rx st)"
    using Rpl_slot assms(1) by (simp add: rpl_accept_def bt_mesh_rpl_check_def rx_relevant_def)
  with rpl_put [OF assms(2) slot(1) a(2) r(2)] r slot(2) show ?thesis by simp
qed (use assms in \<open>simp_all add: rpl_accept_def bt_mesh_rpl_check_def rx_relevant_def\<close>)

interpretation rpl: replay_guard "\<lambda>st. rpl_ok (replay_list st)" "\<lambda>st. rpl_map (replay_list st)"
  "rpl_accept cfg timeout" rx_relevant "\<lambda>rx. unat (rx_addr rx)" rx_stamp for cfg timeout
proof (unfold_locales, goal_cases)
  case (1 s m) then show ?case using accept_cases [of m s cfg timeout] by auto
next
  case (2 s m l) then show ?case using accept_cases [of m s cfg timeout] by auto
next
  case (3 s m) then show ?case using accept_cases [of m s cfg timeout] by auto
next
  case (4 s m) then show ?case using accept_cases [of m s cfg timeout] by auto
qed

lemma rpl_scan_replay:
  "rpl_scan rx i rs = Rpl_replay \<Longrightarrow> rpl_ok rs \<Longrightarrow>
      \<exists>l. rpl_map rs (unat (rx_addr rx)) = Some l \<and> \<not> newer (rx_stamp rx) l"
proof (induction rs arbitrary: i)
  case (Cons r rs)
  show ?case
  proof (cases "unat (rp_src r) = unat (rx_addr rx)")
    case True
    with Cons.prems show ?thesis by (auto simp: newer_def rx_stamp_def rp_stamp_def split: if_splits)
  next
    case False
    with Cons.prems have "rpl_scan rx (Suc i) rs = Rpl_replay" "rpl_ok rs" by (simp_all split: if_splits)
    with Cons.IH False show ?thesis by auto
  qed
qed simp

lemma rpl_scan_full:
  "rpl_scan rx i rs = Rpl_full \<Longrightarrow> rpl_map rs (unat (rx_addr rx)) = None \<and> (\<forall>r \<in> set rs. rp_src r \<noteq> 0)"
proof (induction rs arbitrary: i)
  case (Cons r rs)
  then have "rpl_scan rx (Suc i) rs = Rpl_full" "unat (rp_src r) \<noteq> unat (rx_addr rx)" "rp_src r \<noteq> 0"
    by (simp_all split: if_splits)
  with Cons.IH show ?case by auto
qed simp

lemma rpl_map_used: "j < length rs \<Longrightarrow> unat (rp_src (rs ! j)) = a \<Longrightarrow> a \<noteq> 0 \<Longrightarrow> rpl_map rs a \<noteq> None"
proof (induction rs arbitrary: j)
  case (Cons r rs)
  then show ?case by (cases j) auto
qed simp

lemma accept_iff:
  assumes "rx_relevant rx" "rpl_ok (replay_list st)"
  shows "fst (rpl_accept cfg timeout rx st) \<longleftrightarrow>
    (case rpl_map (replay_list st) (unat (rx_addr rx)) of
       Some l \<Rightarrow> newer (rx_stamp rx) l | None \<Rightarrow> \<exists>r \<in> set (replay_list st). rp_src r = 0)"
proof -
  have a: "rx_addr rx \<noteq> 0" using assms(1) unicast_cast [of "rx_addr rx"] by (auto simp: rx_relevant_def)
  have acc: "fst (rpl_accept cfg timeout rx st) \<longleftrightarrow> (\<exists>j. rpl_scan rx 0 (replay_list st) = Rpl_slot j)"
    using assms(1) by (auto simp: rpl_accept_def bt_mesh_rpl_check_def rx_relevant_def split: rpl_verdict.splits)
  show ?thesis
  proof (cases "rpl_scan rx 0 (replay_list st)")
    case (Rpl_slot j)
    have "unat (rx_addr rx) \<noteq> 0" using a by (simp add: unat_eq_0)
    with rpl_scan_slot [OF Rpl_slot assms(2) a] Rpl_slot rpl_map_used [of j "replay_list st" "unat (rx_addr rx)"]
    show ?thesis by (auto simp: acc slot_for_def split: option.splits dest: nth_mem)
  next
    case Rpl_replay
    with rpl_scan_replay [OF Rpl_replay assms(2)] show ?thesis by (auto simp: acc)
  next
    case Rpl_full
    with rpl_scan_full [OF Rpl_full] show ?thesis by (auto simp: acc)
  qed
qed

section \<open>Reset on an IV index update\<close>

definition reset_entry :: "bt_mesh_rpl \<Rightarrow> bt_mesh_rpl" where
  "reset_entry r = (if rp_src r = 0 then r else if rp_old_iv r then empty_rpl else r\<lparr>rp_old_iv := True\<rparr>)"

lemma reset_slot_list:
  assumes "i < length (replay_list st)"
  shows "replay_list (rpl_reset_slot cfg timeout st i) = (replay_list st)[i := reset_entry (replay_list st ! i)]"
  using assms list_update_id [of "replay_list st" i]
  by (simp add: rpl_reset_slot_def reset_entry_def clear_rpl_def schedule_rpl_store_def rpl_call_def Let_def)

lemma reset_slots_list:
  assumes "n \<le> length (replay_list st)"
  shows "replay_list (foldl (rpl_reset_slot cfg timeout) st [0..<n]) =
    map reset_entry (take n (replay_list st)) @ drop n (replay_list st)"
  using assms
proof (induction n)
  case 0
  then show ?case by simp
next
  case (Suc n)
  let ?s = "foldl (rpl_reset_slot cfg timeout) st [0..<n]"
  have s: "replay_list ?s = map reset_entry (take n (replay_list st)) @ drop n (replay_list st)"
    using Suc by simp
  then have "n < length (replay_list ?s)" using Suc.prems by simp
  from reset_slot_list [OF this, of cfg timeout] s Suc.prems show ?case
    by (simp add: nth_append list_update_append take_Suc_conv_app_nth Cons_nth_drop_Suc [symmetric])
qed

lemma reset_list: "replay_list (bt_mesh_rpl_reset cfg timeout st) = map reset_entry (replay_list st)"
  using reset_slots_list [of "length (replay_list st)" st cfg timeout] by (simp add: bt_mesh_rpl_reset_def)

text \<open>No discarded slot lies in front of a kept one.\<close>

definition reset_leaves_no_hole :: "bt_mesh_rpl list \<Rightarrow> bool" where
  "reset_leaves_no_hole rs \<longleftrightarrow>
     (\<forall>i j. i < j \<longrightarrow> j < length rs \<longrightarrow> rp_src (rs ! i) \<noteq> 0 \<longrightarrow> rp_old_iv (rs ! i) \<longrightarrow>
        rp_src (rs ! j) \<noteq> 0 \<longrightarrow> rp_old_iv (rs ! j))"

lemma no_hole_Cons:
  "reset_leaves_no_hole (r # rs) \<longleftrightarrow>
     (rp_src r \<noteq> 0 \<longrightarrow> rp_old_iv r \<longrightarrow> (\<forall>x \<in> set rs. rp_src x \<noteq> 0 \<longrightarrow> rp_old_iv x)) \<and> reset_leaves_no_hole rs"
  (is "?L \<longleftrightarrow> ?R")
proof
  assume L: ?L
  have "rp_old_iv (rs ! k)" if "k < length rs" "rp_src r \<noteq> 0" "rp_old_iv r" "rp_src (rs ! k) \<noteq> 0" for k
    using L [unfolded reset_leaves_no_hole_def, rule_format, of 0 "Suc k"] that by simp
  moreover have "rp_old_iv (rs ! j)" if "i < j" "j < length rs" "rp_src (rs ! i) \<noteq> 0" "rp_old_iv (rs ! i)"
      "rp_src (rs ! j) \<noteq> 0" for i j
    using L [unfolded reset_leaves_no_hole_def, rule_format, of "Suc i" "Suc j"] that by simp
  ultimately show ?R by (auto simp: reset_leaves_no_hole_def in_set_conv_nth)
next
  assume R: ?R
  show ?L
    unfolding reset_leaves_no_hole_def
  proof (intro allI impI)
    fix i j assume ij: "i < j" "j < length (r # rs)" "rp_src ((r # rs) ! i) \<noteq> 0" "rp_old_iv ((r # rs) ! i)"
      "rp_src ((r # rs) ! j) \<noteq> 0"
    then obtain j' where j': "j = Suc j'" by (cases j) auto
    show "rp_old_iv ((r # rs) ! j)"
    proof (cases i)
      case 0
      have "rs ! j' \<in> set rs" using ij(2) j' by simp
      moreover have "\<forall>x \<in> set rs. rp_src x \<noteq> 0 \<longrightarrow> rp_old_iv x" using R ij(3,4) 0 by simp
      ultimately show ?thesis using ij(5) j' by simp
    next
      case (Suc i')
      have "reset_leaves_no_hole rs" using R by simp
      from this [unfolded reset_leaves_no_hole_def, rule_format, of i' j'] ij j' Suc show ?thesis by simp
    qed
  qed
qed

lemma reset_entry_src: "rp_src (reset_entry r) = (if rp_old_iv r then 0 else rp_src r)"
  by (simp add: reset_entry_def empty_rpl_def)

lemma reset_ok_iff: "rpl_ok rs \<Longrightarrow> rpl_ok (map reset_entry rs) \<longleftrightarrow> reset_leaves_no_hole rs"
proof (induction rs)
  case Nil
  then show ?case by (simp add: reset_leaves_no_hole_def)
next
  case (Cons r rs)
  show ?case
  proof (cases "rp_src r = 0")
    case True
    with Cons.prems have "\<forall>x \<in> set rs. rp_src x = 0" by simp
    then have "reset_leaves_no_hole rs" by (auto simp: reset_leaves_no_hole_def)
    with True \<open>\<forall>x \<in> set rs. rp_src x = 0\<close> show ?thesis by (auto simp: no_hole_Cons reset_entry_src)
  next
    case False
    with Cons.prems have r: "rp_src r \<notin> rp_src ` set rs" "rpl_ok rs" by auto
    have "\<forall>x \<in> set rs. rp_src x \<noteq> 0 \<longrightarrow> rp_old_iv x \<Longrightarrow> reset_leaves_no_hole rs"
      by (auto simp: reset_leaves_no_hole_def)
    with False r Cons.IH show ?thesis
      by (auto simp: no_hole_Cons reset_entry_src image_image split: if_splits)
  qed
qed

section \<open>Persistence\<close>

lemma rpl_map_find_None: "find_index (\<lambda>r. unat (rp_src r) = a) rs = None \<Longrightarrow> rpl_map rs a = None"
  by (induction rs) (auto split: if_splits)

text \<open>Loading the stored value of a source records it, if it is known or there is room.\<close>

lemma rpl_set_records:
  fixes s :: "15 word"
  assumes ok: "rpl_ok (replay_list st)" and s: "s \<noteq> 0" and n: "0 < n"
    and room: "rpl_map (replay_list st) (unat s) = None \<Longrightarrow> \<exists>r \<in> set (replay_list st). rp_src r = 0"
  shows "\<exists>st'. rpl_set (Some (hex_string (unat s))) n (Inr v) st = (None, st') \<and> rpl_ok (replay_list st') \<and>
    rpl_map (replay_list st') = (rpl_map (replay_list st))(unat s \<mapsto> (rv_old_iv v, unat (rv_seq v))) \<and>
    length (replay_list st') = length (replay_list st)"
proof -
  let ?rs = "replay_list st" and ?src = "word_of_nat (strtol16 0 (hex_string (unat s))) :: u16"
  have lt: "unat s < 2 ^ 15" using unsigned_less [of s] by simp
  then have src: "unat ?src = unat s" using strtol16_hex [of "unat s"] by (simp add: unsigned_ucast_eq take_bit_nat_eq_self)
  then have csrc: "ucast ?src = s" using lt by (simp add: word_unat_eq_iff unsigned_ucast_eq take_bit_nat_eq_self)
  have us: "unat s \<noteq> 0" using s by (simp add: unat_eq_0)
  define upd where "upd = (\<lambda>r :: bt_mesh_rpl. r\<lparr>rp_seq := rv_seq v, rp_old_iv := rv_old_iv v\<rparr>)"
  show ?thesis
  proof (cases "find_index (\<lambda>r. unat (rp_src r) = unat s) ?rs")
    case (Some i)
    from find_index_Some [OF this] have i: "i < length ?rs" "unat (rp_src (?rs ! i)) = unat s" by auto
    then have slot: "slot_for ?rs (unat s) i" by (simp add: slot_for_def)
    have "unat (rp_src (upd (?rs ! i))) = unat s" using i by (simp add: upd_def)
    from rpl_put [OF ok slot us this] show ?thesis
      using n Some by (simp add: rpl_set_def bt_mesh_rpl_find_def src upd_def rp_stamp_def Let_def)
  next
    case None
    then have m: "rpl_map ?rs (unat s) = None" by (rule rpl_map_find_None)
    with room obtain i where i: "find_index (\<lambda>r. rp_src r = 0) ?rs = Some i"
      using find_index_None [of "\<lambda>r. rp_src r = 0" ?rs] by (cases "find_index (\<lambda>r. rp_src r = 0) ?rs") auto
    from find_index_Some [OF i] m have slot: "slot_for ?rs (unat s) i" and il: "i < length ?rs"
      by (auto simp: slot_for_def)
    have "unat (rp_src (upd ((?rs ! i)\<lparr>rp_src := s\<rparr>))) = unat s" by (simp add: upd_def)
    from rpl_put [OF ok slot us this] show ?thesis
      using n None i il by (simp add: rpl_set_def bt_mesh_rpl_find_def bt_mesh_rpl_alloc_def src csrc upd_def rp_stamp_def Let_def)
  qed
qed

lemma store_pending_list: "replay_list (store_pending_rpl i st) = replay_list st"
  by (simp add: store_pending_rpl_def store_rpl_def rpl_call_def Let_def)

lemma pending_loop_valid: "replay_list (rpl_pending_loop a True is st) = replay_list st"
  by (induction "is" arbitrary: st) (auto simp: store_pending_list Let_def)

section \<open>Properties\<close>

text \<open>
  C2: whatever messages for the local node arrive between two IV index updates, the list
  accepts from each source only messages that are newer than every message accepted from
  it before, in IV index age and sequence number; so no message is accepted twice.
\<close>

theorem rpl_accepts_no_replay:
  assumes "rpl_ok (replay_list st)" "\<forall>rx \<in> set rxs. rx_relevant rx"
  shows "sorted_wrt (\<lambda>a b. unat (rx_addr a) = unat (rx_addr b) \<longrightarrow> newer (rx_stamp b) (rx_stamp a))
      (fst (guard_run (rpl_accept cfg timeout) rxs st)) \<and>
    rpl_ok (replay_list (snd (guard_run (rpl_accept cfg timeout) rxs st)))"
  using rpl.run_newer [OF assms] rpl.run_ok [OF assms] by blast

definition rx_example :: "u16 \<Rightarrow> bool \<Rightarrow> u32 \<Rightarrow> bt_mesh_net_rx" where
  "rx_example src old seq = \<lparr>rx_sub = 0,
     rx_ctx = \<lparr>ctx_net_idx = 0, ctx_app_idx = 0, ctx_addr = src, ctx_recv_dst = 1, ctx_recv_rssi = 0, ctx_recv_ttl = 2,
       ctx_send_rel = False, ctx_send_ttl = 0\<rparr>,
     rx_seq = seq, rx_old_iv = old, rx_new_key = False, rx_friend_cred = False, rx_ctl = False,
     rx_net_if = BT_MESH_NET_IF_ADV, rx_local_match = True, rx_friend_match = False, rx_msg_cache_idx = 0\<rparr>"

definition rpl_example :: rpl_state where
  "rpl_example = \<lparr>replay_list = replicate 2 empty_rpl, rpl_store = replicate 2 False, rpl_calls = []\<rparr>"

lemma rpl_example_ok: "rpl_ok (replay_list rpl_example)"
  by (simp add: rpl_example_def empty_rpl_def numeral_2_eq_2)

lemma rx_example_relevant: "rx_relevant (rx_example 5 False 7)" "rx_relevant (rx_example 5 False 6)"
  by (simp_all add: rx_relevant_def rx_example_def BT_MESH_ADDR_IS_UNICAST_def)

theorem rpl_accepts_no_replay_witness:
  "rpl_ok (replay_list rpl_example) \<and>
   sorted_wrt (\<lambda>a b. unat (rx_addr a) = unat (rx_addr b) \<longrightarrow> newer (rx_stamp b) (rx_stamp a))
      (fst (guard_run (rpl_accept True False) [rx_example 5 False 7, rx_example 5 False 6] rpl_example))"
  using rpl_accepts_no_replay [of rpl_example "[rx_example 5 False 7, rx_example 5 False 6]" True False]
    rpl_example_ok rx_example_relevant
  by simp

text \<open>
  A message for the local node is accepted exactly when its source has an entry that it
  is newer than, or has no entry and there is an empty slot.
\<close>

theorem rpl_check_iff:
  assumes "rx_relevant rx" "rpl_ok (replay_list st)"
  shows "fst (bt_mesh_rpl_check cfg timeout rx match st) \<longleftrightarrow>
    \<not> (case rpl_map (replay_list st) (unat (rx_addr rx)) of
         Some l \<Rightarrow> newer (rx_stamp rx) l | None \<Rightarrow> \<exists>r \<in> set (replay_list st). rp_src r = 0)"
proof -
  have "fst (bt_mesh_rpl_check cfg timeout rx match st) \<longleftrightarrow> \<not> fst (rpl_accept cfg timeout rx st)"
    by (auto simp: rpl_accept_def bt_mesh_rpl_check_def split: rpl_verdict.splits)
  then show ?thesis by (simp add: accept_iff [OF assms])
qed

theorem rpl_check_iff_witness:
  "fst (bt_mesh_rpl_check True False (rx_example 5 False 7) True rpl_example) \<longleftrightarrow>
    \<not> (case rpl_map (replay_list rpl_example) (unat (rx_addr (rx_example 5 False 7))) of
         Some l \<Rightarrow> newer (rx_stamp (rx_example 5 False 7)) l
       | None \<Rightarrow> \<exists>r \<in> set (replay_list rpl_example). rp_src r = 0)"
  by (rule rpl_check_iff [OF rx_example_relevant(1) rpl_example_ok])

text \<open>
  An IV index update discards exactly the entries that were old and flags the others old,
  and it keeps the list free of holes exactly when no discarded entry lies in front of a
  kept one.
\<close>

theorem rpl_reset_effect:
  assumes "rpl_ok (replay_list st)"
  shows "replay_list (bt_mesh_rpl_reset cfg timeout st) = map reset_entry (replay_list st) \<and>
    (rpl_ok (replay_list (bt_mesh_rpl_reset cfg timeout st)) \<longleftrightarrow> reset_leaves_no_hole (replay_list st))"
  using reset_ok_iff [OF assms] by (simp add: reset_list)

theorem rpl_reset_effect_witness:
  "replay_list (bt_mesh_rpl_reset True False rpl_example) = map reset_entry (replay_list rpl_example) \<and>
    (rpl_ok (replay_list (bt_mesh_rpl_reset True False rpl_example)) \<longleftrightarrow> reset_leaves_no_hole (replay_list rpl_example))"
  by (rule rpl_reset_effect [OF rpl_example_ok])

text \<open>
  After an IV index update, a replay can pass.  The source 5 sent its message number 7
  under the index that is now the old one, and its entry lies behind a slot the update has
  cleared; a copy of the message finds the cleared slot first and is accepted.
\<close>

definition replay_scenario :: "bool \<Rightarrow> bool \<times> bool \<times> bool" where
  "replay_scenario cfg =
     (let (acc1, st) = rpl_accept cfg True (rx_example 3 True 1) rpl_example;
          (acc2, st) = rpl_accept cfg True (rx_example 5 False 7) st;
          st = bt_mesh_rpl_reset cfg True st;
          (acc3, st) = rpl_accept cfg True (rx_example 5 True 7) st
      in (acc1, acc2, acc3))"

theorem rpl_reset_admits_replay: "replay_scenario True = (True, True, True) \<and> replay_scenario False = (True, True, True)"
  by code_simp

text \<open>
  With persistent settings, clearing the list on a provisioned node has no effect on it:
  the clear is only scheduled, and when the pending store runs it writes the entries
  instead of removing them.
\<close>

theorem rpl_clear_keeps_entries:
  "replay_list (bt_mesh_rpl_pending_store True True BT_MESH_ADDR_ALL_NODES (bt_mesh_rpl_clear True st)) = replay_list st"
  by (simp add: bt_mesh_rpl_pending_store_def bt_mesh_rpl_clear_def schedule_rpl_clear_def pending_loop_valid Let_def)
    (simp add: rpl_call_def)

text \<open>
  What storing a slot writes for its source, loading it back records: the same source,
  IV index age and sequence number, in any list without holes that knows the source or has
  an empty slot.
\<close>

theorem rpl_store_load:
  assumes "rp_src (replay_list st ! i) \<noteq> 0" "rpl_ok (replay_list st2)" "0 < n"
    and "rpl_map (replay_list st2) (unat (rp_src (replay_list st ! i))) = None \<Longrightarrow>
      \<exists>r \<in> set (replay_list st2). rp_src r = 0"
  shows "\<exists>name v st'. rpl_calls (store_rpl i st) = rpl_calls st @ [Settings_save (''bt/mesh/RPL/'' @ name) v] \<and>
    rpl_set (Some name) n (Inr v) st2 = (None, st') \<and> rpl_ok (replay_list st') \<and>
    rpl_map (replay_list st') = (rpl_map (replay_list st2))(unat (rp_src (replay_list st ! i)) \<mapsto> rp_stamp (replay_list st ! i))"
proof -
  let ?e = "replay_list st ! i"
  let ?v = "\<lparr>rv_seq = rp_seq ?e, rv_old_iv = rp_old_iv ?e\<rparr>"
  have "rpl_calls (store_rpl i st) = rpl_calls st @ [Settings_save (''bt/mesh/RPL/'' @ hex_string (unat (rp_src ?e))) ?v]"
    using assms(1) by (simp add: store_rpl_def rpl_call_def rpl_path_def Let_def)
  moreover have "\<exists>st'. rpl_set (Some (hex_string (unat (rp_src ?e)))) n (Inr ?v) st2 = (None, st') \<and> rpl_ok (replay_list st') \<and>
      rpl_map (replay_list st') = (rpl_map (replay_list st2))(unat (rp_src ?e) \<mapsto> rp_stamp ?e)"
    using rpl_set_records [OF assms(2,1,3,4), of ?v] by (auto simp: rp_stamp_def)
  ultimately show ?thesis by blast
qed

definition rpl_stored_example :: rpl_state where
  "rpl_stored_example = rpl_example\<lparr>replay_list := [\<lparr>rp_src = 0x1b, rp_old_iv = True, rp_seq = 9, rp_seg = 0\<rparr>, empty_rpl]\<rparr>"

theorem rpl_store_load_witness:
  "\<exists>name v st'. rpl_calls (store_rpl 0 rpl_stored_example) =
      rpl_calls rpl_stored_example @ [Settings_save (''bt/mesh/RPL/'' @ name) v] \<and>
    rpl_set (Some name) 4 (Inr v) rpl_example = (None, st') \<and> rpl_ok (replay_list st') \<and>
    rpl_map (replay_list st') = (rpl_map (replay_list rpl_example))
      (unat (rp_src (replay_list rpl_stored_example ! 0)) \<mapsto> rp_stamp (replay_list rpl_stored_example ! 0))"
  by (rule rpl_store_load) (simp_all add: rpl_example_ok, simp_all add: rpl_stored_example_def rpl_example_def empty_rpl_def)

end
