(* ===== verification/Byte_Order.thy ===== *)
theory Byte_Order
  imports Bt_Prelude
begin

text \<open>
  The byte-order helpers of \<open>core/include/sys/byteorder.h\<close>: \<open>sys_put_*\<close> and \<open>sys_get_*\<close>
  for 16, 24, 32, 48 and 64 bits in both byte orders, the \<open>__bswap_*\<close> macros with the
  \<open>sys_*_to_cpu\<close> conversions built from them, \<open>sys_memcpy_swap\<close> and \<open>sys_mem_swap\<close>.

  A \<open>put\<close> helper is the byte string it stores; a \<open>get\<close> helper reads from the list of
  bytes its pointer points to.  The locale \<open>byte_codec\<close> states what a pair of helpers
  promises, and every pair of the header is an interpretation of it.  A load through
  \<open>UNALIGNED_GET\<close> depends on the byte order of the host, which is a parameter
  (\<open>True\<close> for a big-endian host) of \<open>host_load\<close> and of the conversions.
\<close>

section \<open>Storing\<close>

definition sys_put_be16 :: "u16 \<Rightarrow> bytes" where [byte_defs]:
  "sys_put_be16 val = [ucast (drop_bit 8 val), ucast val]"

definition sys_put_be24 :: "u32 \<Rightarrow> bytes" where [byte_defs]:
  "sys_put_be24 val = ucast (drop_bit 16 val) # sys_put_be16 (ucast val)"

definition sys_put_be32 :: "u32 \<Rightarrow> bytes" where [byte_defs]:
  "sys_put_be32 val = sys_put_be16 (ucast (drop_bit 16 val)) @ sys_put_be16 (ucast val)"

definition sys_put_be48 :: "u64 \<Rightarrow> bytes" where [byte_defs]:
  "sys_put_be48 val = sys_put_be16 (ucast (drop_bit 32 val)) @ sys_put_be32 (ucast val)"

definition sys_put_be64 :: "u64 \<Rightarrow> bytes" where [byte_defs]:
  "sys_put_be64 val = sys_put_be32 (ucast (drop_bit 32 val)) @ sys_put_be32 (ucast val)"

definition sys_put_le16 :: "u16 \<Rightarrow> bytes" where [byte_defs]:
  "sys_put_le16 val = [ucast val, ucast (drop_bit 8 val)]"

definition sys_put_le24 :: "u32 \<Rightarrow> bytes" where [byte_defs]:
  "sys_put_le24 val = sys_put_le16 (ucast val) @ [ucast (drop_bit 16 val)]"

definition sys_put_le32 :: "u32 \<Rightarrow> bytes" where [byte_defs]:
  "sys_put_le32 val = sys_put_le16 (ucast val) @ sys_put_le16 (ucast (drop_bit 16 val))"

definition sys_put_le48 :: "u64 \<Rightarrow> bytes" where [byte_defs]:
  "sys_put_le48 val = sys_put_le32 (ucast val) @ sys_put_le16 (ucast (drop_bit 32 val))"

definition sys_put_le64 :: "u64 \<Rightarrow> bytes" where [byte_defs]:
  "sys_put_le64 val = sys_put_le32 (ucast val) @ sys_put_le32 (ucast (drop_bit 32 val))"

section \<open>Loading\<close>

definition sys_get_be16 :: "bytes \<Rightarrow> u16" where [byte_defs]:
  "sys_get_be16 src = push_bit 8 (ucast (src ! 0)) OR ucast (src ! 1)"

definition sys_get_be24 :: "bytes \<Rightarrow> u32" where [byte_defs]:
  "sys_get_be24 src = push_bit 16 (ucast (src ! 0)) OR ucast (sys_get_be16 (drop 1 src))"

definition sys_get_be32 :: "bytes \<Rightarrow> u32" where [byte_defs]:
  "sys_get_be32 src = push_bit 16 (ucast (sys_get_be16 src)) OR ucast (sys_get_be16 (drop 2 src))"

definition sys_get_be48 :: "bytes \<Rightarrow> u64" where [byte_defs]:
  "sys_get_be48 src = push_bit 16 (ucast (sys_get_be32 src)) OR ucast (sys_get_be16 (drop 4 src))"

definition sys_get_be64 :: "bytes \<Rightarrow> u64" where [byte_defs]:
  "sys_get_be64 src = push_bit 32 (ucast (sys_get_be32 src)) OR ucast (sys_get_be32 (drop 4 src))"

definition sys_get_le16 :: "bytes \<Rightarrow> u16" where [byte_defs]:
  "sys_get_le16 src = push_bit 8 (ucast (src ! 1)) OR ucast (src ! 0)"

definition sys_get_le24 :: "bytes \<Rightarrow> u32" where [byte_defs]:
  "sys_get_le24 src = push_bit 16 (ucast (src ! 2)) OR ucast (sys_get_le16 src)"

definition sys_get_le32 :: "bytes \<Rightarrow> u32" where [byte_defs]:
  "sys_get_le32 src = push_bit 16 (ucast (sys_get_le16 (drop 2 src))) OR ucast (sys_get_le16 src)"

definition sys_get_le48 :: "bytes \<Rightarrow> u64" where [byte_defs]:
  "sys_get_le48 src = push_bit 16 (ucast (sys_get_le32 (drop 2 src))) OR ucast (sys_get_le16 src)"

definition sys_get_le64 :: "bytes \<Rightarrow> u64" where [byte_defs]:
  "sys_get_le64 src = push_bit 32 (ucast (sys_get_le32 (drop 4 src))) OR ucast (sys_get_le32 src)"

section \<open>Byte swapping and host order\<close>

definition bswap_16 :: "u16 \<Rightarrow> u16" where [byte_defs]:
  "bswap_16 x = (drop_bit 8 x AND 0xff) OR push_bit 8 (x AND 0xff)"

definition bswap_24 :: "u32 \<Rightarrow> u32" where [byte_defs]:
  "bswap_24 x = (drop_bit 16 x AND 0xff) OR (x AND 0xff00) OR push_bit 16 (x AND 0xff)"

definition bswap_32 :: "u32 \<Rightarrow> u32" where [byte_defs]:
  "bswap_32 x = (drop_bit 24 x AND 0xff) OR (drop_bit 8 x AND 0xff00) OR
     push_bit 8 (x AND 0xff00) OR push_bit 24 (x AND 0xff)"

definition bswap_48 :: "u64 \<Rightarrow> u64" where [byte_defs]:
  "bswap_48 x = (drop_bit 40 x AND 0xff) OR (drop_bit 24 x AND 0xff00) OR
     (drop_bit 8 x AND 0xff0000) OR push_bit 8 (x AND 0xff0000) OR
     push_bit 24 (x AND 0xff00) OR push_bit 40 (x AND 0xff)"

definition bswap_64 :: "u64 \<Rightarrow> u64" where [byte_defs]:
  "bswap_64 x = (drop_bit 56 x AND 0xff) OR (drop_bit 40 x AND 0xff00) OR
     (drop_bit 24 x AND 0xff0000) OR (drop_bit 8 x AND 0xff000000) OR
     push_bit 8 (x AND 0xff000000) OR push_bit 24 (x AND 0xff0000) OR
     push_bit 40 (x AND 0xff00) OR push_bit 56 (x AND 0xff)"

text \<open>
  \<open>sys_le16_to_cpu\<close> and its kin: on a big-endian host the little-endian conversions
  swap and the big-endian ones do nothing, and the other way round on a little-endian
  host.
\<close>

definition sys_le_to_cpu :: "bool \<Rightarrow> ('a \<Rightarrow> 'a) \<Rightarrow> 'a \<Rightarrow> 'a" where
  "sys_le_to_cpu big swap val = (if big then swap val else val)"

definition sys_be_to_cpu :: "bool \<Rightarrow> ('a \<Rightarrow> 'a) \<Rightarrow> 'a \<Rightarrow> 'a" where
  "sys_be_to_cpu big swap val = (if big then val else swap val)"

section \<open>Copying in reverse\<close>

text \<open>
  \<open>sys_memcpy_swap\<close> walks the source backwards; \<open>sys_mem_swap\<close> exchanges the bytes at
  \<open>i\<close> and \<open>length - 1 - i\<close> for \<open>i\<close> below half the length.
\<close>

fun memcpy_swap_loop :: "bytes \<Rightarrow> nat \<Rightarrow> bytes \<Rightarrow> bytes" where
  "memcpy_swap_loop src 0 dst = dst"
| "memcpy_swap_loop src (Suc k) dst = memcpy_swap_loop src k (dst @ [src ! k])"

definition sys_memcpy_swap :: "bytes \<Rightarrow> nat \<Rightarrow> bytes" where
  "sys_memcpy_swap src n = memcpy_swap_loop src n []"

fun mem_swap_loop :: "nat \<Rightarrow> nat \<Rightarrow> bytes \<Rightarrow> bytes" where
  "mem_swap_loop n 0 buf = buf"
| "mem_swap_loop n (Suc i) buf =
     (let b = mem_swap_loop n i buf; tmp = b ! i
      in (b[i := b ! (n - 1 - i)])[n - 1 - i := tmp])"

definition sys_mem_swap :: "bytes \<Rightarrow> nat \<Rightarrow> bytes" where
  "sys_mem_swap buf n = mem_swap_loop n (n div 2) buf"

section \<open>The contract of a pair of helpers\<close>

text \<open>
  \<open>fits v\<close> says that a value has no bits beyond the \<open>n\<close> bytes stored: it is \<open>True\<close> for the
  16, 32 and 64 bit helpers, and bounds the argument of the 24 and 48 bit ones, which
  take a wider C type and drop its upper bits.
\<close>

locale byte_codec =
  fixes put :: "'v \<Rightarrow> bytes" and get :: "bytes \<Rightarrow> 'v" and n :: nat and fits :: "'v \<Rightarrow> bool"
  assumes length_put: "length (put v) = n"
    and get_put: "fits v \<Longrightarrow> get (put v @ rest) = v"
    and put_get: "length bs = n \<Longrightarrow> put (get bs) = bs"
    and fits_get: "length bs = n \<Longrightarrow> fits (get bs)"
    and get_append: "length bs = n \<Longrightarrow> get (bs @ rest) = get bs"
begin

lemma get_put_id: "fits v \<Longrightarrow> get (put v) = v"
  using get_put [of v "[]"] by simp

lemma put_inject: "fits v \<Longrightarrow> fits w \<Longrightarrow> put v = put w \<longleftrightarrow> v = w"
  using get_put_id by metis

lemma get_inject: "length bs = n \<Longrightarrow> length cs = n \<Longrightarrow> get bs = get cs \<longleftrightarrow> bs = cs"
  using put_get by metis

lemma get_take: "n \<le> length bs \<Longrightarrow> get bs = get (take n bs)"
  using get_append [of "take n bs" "drop n bs"] by simp

lemma get_mem_write:
  assumes "fits v" "off + n \<le> length mem"
  shows "get (drop off (mem_write off (put v) mem)) = v"
  using assms get_put [of v "drop (off + n) mem"] by (simp add: mem_write_def length_put)

end

text \<open>The helpers meet the contract, one interpretation for each pair of the header.\<close>

text \<open>
  Two codecs, one after the other, are a codec for values that split into a part for
  each: this is how the header builds its wider helpers from the narrower ones.
\<close>

lemma byte_codec_append:
  assumes A: "byte_codec putA getA n fitsA" and B: "byte_codec putB getB m fitsB"
    and put: "\<And>v. put v = putA (p v) @ putB (q v)"
    and get: "\<And>s. n + m \<le> length s \<Longrightarrow> get s = join (getA s) (getB (drop n s))"
    and split: "\<And>v. fits v \<Longrightarrow> fitsA (p v) \<and> fitsB (q v) \<and> join (p v) (q v) = v"
    and join: "\<And>a b. fitsA a \<Longrightarrow> fitsB b \<Longrightarrow> p (join a b) = a \<and> q (join a b) = b \<and> fits (join a b)"
    and k: "k = n + m"
  shows "byte_codec put get k fits"
  unfolding k
proof
  fix v rest
  show len: "length (put v) = n + m"
    by (simp add: put byte_codec.length_put [OF A] byte_codec.length_put [OF B])
  show "get (put v @ rest) = v" if "fits v"
    using split [OF that] byte_codec.length_put [OF A, of "p v"] len
    by (simp add: get put byte_codec.get_put [OF A] byte_codec.get_put [OF B])
next
  fix bs rest :: bytes
  assume len: "length bs = n + m"
  then have a: "length (take n bs) = n" and b: "length (drop n bs) = m" by simp_all
  have "get (bs @ rest) = join (getA (take n bs)) (getB (drop n bs))" for rest
    using len b byte_codec.get_take [OF A, of "bs @ rest"] byte_codec.get_append [OF B b, of rest]
    by (simp add: get)
  from this [of rest] this [of "[]"]
  have g: "get bs = join (getA (take n bs)) (getB (drop n bs))" "get (bs @ rest) = get bs"
    by simp_all
  note j = join [OF byte_codec.fits_get [OF A a] byte_codec.fits_get [OF B b]]
  show "put (get bs) = bs"
    using j byte_codec.put_get [OF A a] byte_codec.put_get [OF B b] by (simp add: g(1) put)
  show "fits (get bs)"
    using j by (simp add: g(1))
  show "get (bs @ rest) = get bs"
    by (rule g(2))
qed

lemma word_join_hi:
  "ucast (drop_bit 8 (push_bit 8 (ucast (h :: u8)) OR ucast (l :: u8) :: u16)) = h"
  "ucast (drop_bit 16 (push_bit 16 (ucast (h16 :: u16)) OR ucast (l16 :: u16) :: u32)) = h16"
  "ucast (drop_bit 16 (push_bit 16 (ucast h) OR ucast l16 :: u32)) = h"
  "ucast (drop_bit 32 (push_bit 32 (ucast (h32 :: u32)) OR ucast (l32 :: u32) :: u64)) = h32"
  by (rule bit_word_eqI; auto simp: bit_simps dest: bit_imp_le_length)+

lemma word_join_lo:
  "ucast (push_bit 8 (ucast (h :: u8)) OR ucast (l :: u8) :: u16) = l"
  "ucast (push_bit 16 (ucast (h16 :: u16)) OR ucast (l16 :: u16) :: u32) = l16"
  "ucast (push_bit 16 (ucast h) OR ucast l16 :: u32) = l16"
  "ucast (push_bit 32 (ucast (h32 :: u32)) OR ucast (l32 :: u32) :: u64) = l32"
  "ucast (push_bit 16 (ucast h32) OR ucast l16 :: u64) = l16"
  by (rule bit_word_eqI; auto simp: bit_simps)+

lemma word_split_join:
  "push_bit 8 (ucast (ucast (drop_bit 8 (v16 :: u16)) :: u8)) OR ucast (ucast v16 :: u8) = v16"
  "push_bit 16 (ucast (ucast (drop_bit 16 (v32 :: u32)) :: u16)) OR ucast (ucast v32 :: u16) = v32"
  "push_bit 32 (ucast (ucast (drop_bit 32 (v64 :: u64)) :: u32)) OR ucast (ucast v64 :: u32) = v64"
  by (rule bit_word_eqI; auto simp: bit_simps)+

lemma bit_take_bit_self:
  "take_bit m (v :: 'a :: len word) = v \<Longrightarrow> bit v k \<Longrightarrow> k < m"
  by (metis bit_take_bit_iff)

lemma word_split_join24:
  fixes v :: u32
  assumes "take_bit 24 v = v"
  shows "push_bit 16 (ucast (ucast (drop_bit 16 v) :: u8)) OR ucast (ucast v :: u16) = v"
  by (rule bit_word_eqI) (auto simp: bit_simps dest: bit_take_bit_self [OF assms])

lemma word_split_join48:
  fixes v :: u64
  assumes "take_bit 48 v = v"
  shows "push_bit 32 (ucast (ucast (drop_bit 32 v) :: u16)) OR ucast (ucast v :: u32) = v"
  by (rule bit_word_eqI) (auto simp: bit_simps dest: bit_take_bit_self [OF assms])

lemma word_join48:
  "ucast (drop_bit 32 (push_bit 32 (ucast (h :: u16)) OR ucast (l :: u32) :: u64)) = h"
  "ucast (push_bit 32 (ucast (h :: u16)) OR ucast (l :: u32) :: u64) = l"
  by (rule bit_word_eqI; auto simp: bit_simps dest: bit_imp_le_length)+

text \<open>The 48-bit readers of the header split the other way than the writers do.\<close>

lemma word_regroup48:
  "push_bit 16 (ucast (push_bit 16 (ucast (a :: u16)) OR ucast (b :: u16) :: u32)) OR ucast (c :: u16) =
   (push_bit 32 (ucast a) OR ucast (push_bit 16 (ucast b) OR ucast c :: u32) :: u64)"
  by (rule bit_word_eqI) (auto simp: bit_simps dest: bit_imp_le_length)

lemma take_bit_join:
  "take_bit 24 (push_bit 16 (ucast (h :: u8)) OR ucast (l16 :: u16) :: u32) = push_bit 16 (ucast h) OR ucast l16"
  "take_bit 48 (push_bit 32 (ucast (h16 :: u16)) OR ucast (l :: u32) :: u64) = push_bit 32 (ucast h16) OR ucast l"
  by (rule bit_word_eqI; auto simp: bit_simps dest: bit_imp_le_length)+

lemmas word_joins = word_join_hi word_join_lo word_join48 take_bit_join

lemma byte_codec_u8: "byte_codec (\<lambda>v. [v]) (\<lambda>s. s ! 0) 1 (\<lambda>_ :: u8. True)"
  by unfold_locales (auto simp: length_Suc_conv)

text \<open>The value of a codec's 24-bit argument must not exceed 24 bits, and so for 48.\<close>

abbreviation fits24 :: "u32 \<Rightarrow> bool" where
  "fits24 v \<equiv> take_bit 24 v = v"

abbreviation fits48 :: "u64 \<Rightarrow> bool" where
  "fits48 v \<equiv> take_bit 48 v = v"

interpretation be16: byte_codec sys_put_be16 sys_get_be16 2 "\<lambda>_. True"
  by (rule byte_codec_append [OF byte_codec_u8 byte_codec_u8, where p = "\<lambda>v. ucast (drop_bit 8 v)" and q = "ucast" and join = "\<lambda>a b. push_bit 8 (ucast a) OR ucast b"])
    (simp_all only: word_joins word_split_join, simp_all add: sys_put_be16_def sys_get_be16_def)

interpretation be24: byte_codec sys_put_be24 sys_get_be24 3 "fits24"
  by (rule byte_codec_append [OF byte_codec_u8 be16.byte_codec_axioms, where p = "\<lambda>v. ucast (drop_bit 16 v)" and q = "ucast" and join = "\<lambda>a b. push_bit 16 (ucast a) OR ucast b"])
    (simp_all only: word_joins word_split_join24, simp_all add: sys_put_be24_def sys_get_be24_def)

interpretation be32: byte_codec sys_put_be32 sys_get_be32 4 "\<lambda>_. True"
  by (rule byte_codec_append [OF be16.byte_codec_axioms be16.byte_codec_axioms, where p = "\<lambda>v. ucast (drop_bit 16 v)" and q = "ucast" and join = "\<lambda>a b. push_bit 16 (ucast a) OR ucast b"])
    (simp_all only: word_joins word_split_join, simp_all add: sys_put_be32_def sys_get_be32_def)

interpretation be48: byte_codec sys_put_be48 sys_get_be48 6 "fits48"
  by (rule byte_codec_append [OF be16.byte_codec_axioms be32.byte_codec_axioms, where p = "\<lambda>v. ucast (drop_bit 32 v)" and q = "ucast" and join = "\<lambda>a b. push_bit 32 (ucast a) OR ucast b"])
    (simp_all only: word_joins word_split_join48, simp_all add: sys_put_be48_def sys_get_be48_def sys_get_be32_def word_regroup48)

interpretation be64: byte_codec sys_put_be64 sys_get_be64 8 "\<lambda>_. True"
  by (rule byte_codec_append [OF be32.byte_codec_axioms be32.byte_codec_axioms, where p = "\<lambda>v. ucast (drop_bit 32 v)" and q = "ucast" and join = "\<lambda>a b. push_bit 32 (ucast a) OR ucast b"])
    (simp_all only: word_joins word_split_join, simp_all add: sys_put_be64_def sys_get_be64_def)

interpretation le16: byte_codec sys_put_le16 sys_get_le16 2 "\<lambda>_. True"
  by (rule byte_codec_append [OF byte_codec_u8 byte_codec_u8, where p = "ucast" and q = "\<lambda>v. ucast (drop_bit 8 v)" and join = "\<lambda>a b. push_bit 8 (ucast b) OR ucast a"])
    (simp_all only: word_joins word_split_join, simp_all add: sys_put_le16_def sys_get_le16_def)

interpretation le24: byte_codec sys_put_le24 sys_get_le24 3 "fits24"
  by (rule byte_codec_append [OF le16.byte_codec_axioms byte_codec_u8, where p = "ucast" and q = "\<lambda>v. ucast (drop_bit 16 v)" and join = "\<lambda>a b. push_bit 16 (ucast b) OR ucast a"])
    (simp_all only: word_joins word_split_join24, simp_all add: sys_put_le24_def sys_get_le24_def)

interpretation le32: byte_codec sys_put_le32 sys_get_le32 4 "\<lambda>_. True"
  by (rule byte_codec_append [OF le16.byte_codec_axioms le16.byte_codec_axioms, where p = "ucast" and q = "\<lambda>v. ucast (drop_bit 16 v)" and join = "\<lambda>a b. push_bit 16 (ucast b) OR ucast a"])
    (simp_all only: word_joins word_split_join, simp_all add: sys_put_le32_def sys_get_le32_def)

interpretation le48: byte_codec sys_put_le48 sys_get_le48 6 "fits48"
  by (rule byte_codec_append [OF le32.byte_codec_axioms le16.byte_codec_axioms, where p = "ucast" and q = "\<lambda>v. ucast (drop_bit 32 v)" and join = "\<lambda>a b. push_bit 32 (ucast b) OR ucast a"])
    (simp_all only: word_joins word_split_join48, simp_all add: sys_put_le48_def sys_get_le48_def sys_get_le32_def word_regroup48)

interpretation le64: byte_codec sys_put_le64 sys_get_le64 8 "\<lambda>_. True"
  by (rule byte_codec_append [OF le32.byte_codec_axioms le32.byte_codec_axioms, where p = "ucast" and q = "\<lambda>v. ucast (drop_bit 32 v)" and join = "\<lambda>a b. push_bit 32 (ucast b) OR ucast a"])
    (simp_all only: word_joins word_split_join, simp_all add: sys_put_le64_def sys_get_le64_def)

lemmas length_put [simp] =
  be16.length_put be24.length_put be32.length_put be48.length_put be64.length_put
  le16.length_put le24.length_put le32.length_put le48.length_put le64.length_put

lemmas get_put_codec [codec_simps] =
  be16.get_put be24.get_put be32.get_put be48.get_put be64.get_put
  le16.get_put le24.get_put le32.get_put le48.get_put le64.get_put
  be16.get_put_id be24.get_put_id be32.get_put_id be48.get_put_id be64.get_put_id
  le16.get_put_id le24.get_put_id le32.get_put_id le48.get_put_id le64.get_put_id

section \<open>Host-order loads\<close>

text \<open>
  \<open>UNALIGNED_GET\<close> of an unsigned integer, or of a packed bit field of 24 or 48 bits,
  reads the bytes in the byte order of the host.
\<close>

definition host_load :: "bool \<Rightarrow> (bytes \<Rightarrow> 'v) \<Rightarrow> (bytes \<Rightarrow> 'v) \<Rightarrow> bytes \<Rightarrow> 'v" where
  "host_load big get_be get_le src = (if big then get_be src else get_le src)"

lemma byte_masks:
  "(0xff :: 'a :: len word) = mask 8" "(0xff00 :: 'a word) = push_bit 8 (mask 8)"
  "(0xff0000 :: 'a word) = push_bit 16 (mask 8)" "(0xff000000 :: 'a word) = push_bit 24 (mask 8)"
  by (simp_all add: mask_eq_exp_minus_1 push_bit_eq_mult)

text \<open>The byte of \<open>x\<close> that starts at bit \<open>m\<close>, and masking and joining in terms of it.\<close>

definition byte_at :: "nat \<Rightarrow> 'a :: len word \<Rightarrow> u8" where
  "byte_at m x = ucast (drop_bit m x)"

lemma mask_byte:
  fixes x :: "'a :: len word"
  shows "x AND mask 8 = ucast (byte_at 0 x)"
    and "x AND push_bit s (mask 8) = push_bit s (ucast (byte_at s x))"
    and "drop_bit m x AND mask 8 = ucast (byte_at m x)"
    and "drop_bit m x AND push_bit s (mask 8) = push_bit s (ucast (byte_at (m + s) x))"
  by (rule bit_word_eqI; auto simp: byte_at_def bit_simps ac_simps)+

lemma byte_at_simps:
  fixes x :: "'a :: len word"
  shows "ucast x = byte_at 0 x"
    and "ucast (drop_bit m x) = byte_at m x"
    and "m + 8 \<le> LENGTH('b) \<Longrightarrow> byte_at m (ucast x :: 'b :: len word) = byte_at m x"
    and "byte_at m (drop_bit k x) = byte_at (k + m) x"
  by (rule bit_word_eqI; auto simp: byte_at_def bit_simps ac_simps)+

lemma ucast_flat:
  assumes "LENGTH('b :: len) \<le> LENGTH('a :: len)"
  shows "ucast (x OR y :: 'b word) = (ucast x OR ucast y :: 'a word)"
    and "LENGTH('c) + k \<le> LENGTH('b) \<Longrightarrow>
      ucast (push_bit k (ucast (z :: 'c :: len word)) :: 'b word) = (push_bit k (ucast z) :: 'a word)"
    and "LENGTH('c) \<le> LENGTH('b) \<Longrightarrow>
      ucast (ucast (z :: 'c :: len word) :: 'b word) = (ucast z :: 'a word)"
  using assms by (intro bit_word_eqI; auto simp: bit_simps dest: bit_imp_le_length)+

lemma put_le_bytes:
  "sys_put_le16 v16 = [byte_at 0 v16, byte_at 8 v16]"
  "sys_put_le24 v32 = [byte_at 0 v32, byte_at 8 v32, byte_at 16 v32]"
  "sys_put_le32 v32 = [byte_at 0 v32, byte_at 8 v32, byte_at 16 v32, byte_at 24 v32]"
  "sys_put_le48 v64 = map (\<lambda>k. byte_at k v64) [0, 8, 16, 24, 32, 40]"
  "sys_put_le64 v64 = map (\<lambda>k. byte_at k v64) [0, 8, 16, 24, 32, 40, 48, 56]"
  by (simp_all add: byte_defs byte_at_simps)

lemma get_be_flat:
  "sys_get_be16 [a, b] = push_bit 8 (ucast a) OR ucast b"
  "sys_get_be24 [a, b, c] = push_bit 16 (ucast a) OR push_bit 8 (ucast b) OR ucast c"
  "sys_get_be32 [a, b, c, d] =
     push_bit 24 (ucast a) OR push_bit 16 (ucast b) OR push_bit 8 (ucast c) OR ucast d"
  "sys_get_be48 [a, b, c, d, e, f] =
     push_bit 40 (ucast a) OR push_bit 32 (ucast b) OR push_bit 24 (ucast c) OR
     push_bit 16 (ucast d) OR push_bit 8 (ucast e) OR ucast f"
  "sys_get_be64 [a, b, c, d, e, f, g, h] =
     push_bit 56 (ucast a) OR push_bit 48 (ucast b) OR push_bit 40 (ucast c) OR
     push_bit 32 (ucast d) OR push_bit 24 (ucast e) OR push_bit 16 (ucast f) OR
     push_bit 8 (ucast g) OR ucast h"
  by (simp_all add: byte_defs ucast_flat push_bit_or or.assoc del: push_bit_numeral)

text \<open>Swapping is storing in one order and loading in the other.\<close>

lemma bswap_get_put:
  "bswap_16 v16 = sys_get_be16 (sys_put_le16 v16)"
  "bswap_24 v32 = sys_get_be24 (sys_put_le24 v32)"
  "bswap_32 v32 = sys_get_be32 (sys_put_le32 v32)"
  "bswap_48 v64 = sys_get_be48 (sys_put_le48 v64)"
  "bswap_64 v64 = sys_get_be64 (sys_put_le64 v64)"
  unfolding put_le_bytes list.map get_be_flat bswap_16_def bswap_24_def bswap_32_def bswap_48_def
    bswap_64_def byte_masks mask_byte push_bit_push_bit
  by (simp_all add: byte_at_simps(4) or.assoc or.commute or.left_commute)

text \<open>Reversing the stored bytes exchanges the two orders.\<close>

lemma put_be_rev:
  "sys_put_be16 v16 = rev (sys_put_le16 v16)"
  "sys_put_be24 v32 = rev (sys_put_le24 v32)"
  "sys_put_be32 v32 = rev (sys_put_le32 v32)"
  "sys_put_be48 v64 = rev (sys_put_le48 v64)"
  "sys_put_be64 v64 = rev (sys_put_le64 v64)"
  by (simp_all add: byte_defs)

text \<open>
  What the two orders of one width and their swap promise together, and what follows:
  a host-order load followed by the conversion macro is the portable read, whatever the
  byte order of the host is.
\<close>

locale host_order =
  be: byte_codec put_be get_be n fits + le: byte_codec put_le get_le n fits
  for put_be :: "'v \<Rightarrow> bytes" and get_be and put_le and get_le and n and fits +
  fixes swap :: "'v \<Rightarrow> 'v"
  assumes put_rev: "put_be v = rev (put_le v)"
    and swap_eq: "swap v = get_be (put_le v)"
begin

lemma put_le_get_be: "length s = n \<Longrightarrow> put_le (get_be s) = rev s"
  using be.put_get [of s] by (metis put_rev rev_rev_ident)

lemma get_be_rev: "length s = n \<Longrightarrow> get_be (rev s) = get_le s"
  using be.get_put_id [of "get_le s"] le.put_get [of s] le.fits_get [of s] by (simp add: put_rev)

lemma swap_le: "length s = n \<Longrightarrow> swap (get_le s) = get_be s"
  by (simp add: swap_eq le.put_get)

lemma swap_be: "length s = n \<Longrightarrow> swap (get_be s) = get_le s"
  by (simp add: swap_eq put_le_get_be get_be_rev)

lemma le_load: "length s = n \<Longrightarrow> sys_le_to_cpu big swap (host_load big get_be get_le s) = get_le s"
  by (simp add: sys_le_to_cpu_def host_load_def swap_be)

lemma be_load: "length s = n \<Longrightarrow> sys_be_to_cpu big swap (host_load big get_be get_le s) = get_be s"
  by (simp add: sys_be_to_cpu_def host_load_def swap_le)

end

interpretation h16: host_order sys_put_be16 sys_get_be16 sys_put_le16 sys_get_le16 2 "\<lambda>_. True" bswap_16
  by unfold_locales (simp_all only: put_be_rev bswap_get_put)

interpretation h24: host_order sys_put_be24 sys_get_be24 sys_put_le24 sys_get_le24 3 fits24 bswap_24
  by unfold_locales (simp_all only: put_be_rev bswap_get_put)

interpretation h32: host_order sys_put_be32 sys_get_be32 sys_put_le32 sys_get_le32 4 "\<lambda>_. True" bswap_32
  by unfold_locales (simp_all only: put_be_rev bswap_get_put)

interpretation h48: host_order sys_put_be48 sys_get_be48 sys_put_le48 sys_get_le48 6 fits48 bswap_48
  by unfold_locales (simp_all only: put_be_rev bswap_get_put)

interpretation h64: host_order sys_put_be64 sys_get_be64 sys_put_le64 sys_get_le64 8 "\<lambda>_. True" bswap_64
  by unfold_locales (simp_all only: put_be_rev bswap_get_put)

section \<open>Reversing copies\<close>

lemma memcpy_swap_loop_eq:
  "k \<le> length src \<Longrightarrow> memcpy_swap_loop src k dst = dst @ rev (take k src)"
proof (induction k arbitrary: dst)
  case 0
  then show ?case by simp
next
  case (Suc k)
  then show ?case by (simp add: take_Suc_conv_app_nth)
qed

lemma sys_memcpy_swap_rev: "length src = n \<Longrightarrow> sys_memcpy_swap src n = rev src"
  by (simp add: sys_memcpy_swap_def memcpy_swap_loop_eq)

lemma mem_swap_loop_nth:
  assumes "2 * i \<le> n" "length buf = n" "j < n"
  shows "length (mem_swap_loop n i buf) = n \<and>
    mem_swap_loop n i buf ! j = (if j < i \<or> n - 1 - j < i then buf ! (n - 1 - j) else buf ! j)"
  using assms
proof (induction i arbitrary: j)
  case 0
  then show ?case by simp
next
  case (Suc i)
  let ?b = "mem_swap_loop n i buf"
  have IH: "length ?b = n" "\<And>k. k < n \<Longrightarrow>
      ?b ! k = (if k < i \<or> n - 1 - k < i then buf ! (n - 1 - k) else buf ! k)"
    using Suc by auto
  show ?case
    using Suc.prems IH by (auto simp: Let_def nth_list_update less_Suc_eq)
qed

lemma sys_mem_swap_rev: "length buf = n \<Longrightarrow> sys_mem_swap buf n = rev buf"
proof (rule nth_equalityI)
  assume len: "length buf = n"
  show "length (sys_mem_swap buf n) = length (rev buf)"
    using len mem_swap_loop_nth [of "n div 2" n buf 0]
    by (cases "n = 0") (auto simp: sys_mem_swap_def)
  fix j assume "j < length (sys_mem_swap buf n)"
  with len have "j < n"
    using mem_swap_loop_nth [of "n div 2" n buf 0] by (cases "n = 0") (auto simp: sys_mem_swap_def)
  then have j: "sys_mem_swap buf n ! j =
      (if j < n div 2 \<or> n - 1 - j < n div 2 then buf ! (n - 1 - j) else buf ! j)"
    using len mem_swap_loop_nth [of "n div 2" n buf j] by (simp add: sys_mem_swap_def)
  have "n - 1 - j = j" if "\<not> j < n div 2" "\<not> n - 1 - j < n div 2"
    using that \<open>j < n\<close> by arith
  with j \<open>j < n\<close> len show "sys_mem_swap buf n ! j = rev buf ! j"
    by (auto simp: rev_nth)
qed

end
