(* ===== verification/Mesh_Iv.thy ===== *)
theory Mesh_Iv
  imports Mesh_Rpl Byte_Order
begin

text \<open>
  IV index and sequence numbers of the mesh network layer (the first and last parts of
  \<open>core/src/mesh/net.c\<close>): the IV Update procedure, the allocation of sequence numbers, the
  duration timer, and storing and loading the three of them.

  The state is the part of \<open>struct bt_mesh_net\<close> these functions use, the replay list they
  reset, whether the delayed work \<open>ivu_timer\<close> is scheduled, and the calls made to other
  modules, newest last.  Build options are a \<open>mesh_cfg\<close>; what the code asks other modules
  (transmissions in progress, the proxy state, whether the primary subnet exists) is an
  \<open>iv_env\<close> given to each call.

  The theorems say that no nonce is used twice: the pairs of IV index and sequence number
  handed out for transmission increase along every run.
\<close>

section \<open>State\<close>

record iv_env =
  env_tx_in_progress :: bool
  env_gatt_proxy_enabled :: bool
  env_primary_subnet :: bool

record iv_val =
  iv_index_val :: u32
  iv_update_val :: bool
  iv_duration_val :: "7 word"

record net_val =
  nv_primary_addr :: u16
  nv_dev_key :: bytes

datatype net_call =
    Schedule bt_mesh_settings_flag
  | Beacon_ivu_initiator bool
  | Friend_sec_update u16
  | Subnet_foreach_beacon_update
  | Proxy_beacon_send
  | Cdb_iv_update u32 bool
  | Subnet_store u16
  | Comp_provision u16
  | Comp_unprovision
  | Save_iv iv_val
  | Save_seq bytes
  | Save_net net_val
  | Delete_path string

record bt_mesh_net =
  bm_iv_index :: u32
  bm_seq :: u32
  bm_valid :: bool
  bm_ivu_in_progress :: bool
  bm_ivu_initiator :: bool
  bm_ivu_test :: bool
  bm_ivu_pending :: bool
  bm_ivu_duration :: u8
  bm_ivu_timer :: bool
  bm_dev_key :: bytes
  bm_rpl :: rpl_state
  bm_calls :: "net_call list"

definition net_call :: "net_call \<Rightarrow> bt_mesh_net \<Rightarrow> bt_mesh_net" where
  "net_call c st = st\<lparr>bm_calls := bm_calls st @ [c]\<rparr>"

definition BT_MESH_IVU_MIN_HOURS :: nat where "BT_MESH_IVU_MIN_HOURS = 96"

definition BT_MESH_IVU_HOURS :: "mesh_cfg \<Rightarrow> nat" where
  "BT_MESH_IVU_HOURS cfg = BT_MESH_IVU_MIN_HOURS div cfg_ivu_divider cfg"

definition BT_MESH_IV_UPDATE :: "u8 \<Rightarrow> bool" where
  "BT_MESH_IV_UPDATE flags \<longleftrightarrow> drop_bit 1 flags AND 0x01 \<noteq> 0"

definition BT_MESH_KEY_REFRESH :: "u8 \<Rightarrow> bool" where
  "BT_MESH_KEY_REFRESH flags \<longleftrightarrow> flags AND 0x01 \<noteq> 0"

definition BT_MESH_NET_IVI_TX :: "bt_mesh_net \<Rightarrow> u32" where
  "BT_MESH_NET_IVI_TX st = bm_iv_index st - (if bm_ivu_in_progress st then 1 else 0)"

section \<open>Operations\<close>

definition store_iv :: "bool \<Rightarrow> bt_mesh_net \<Rightarrow> bt_mesh_net" where
  "store_iv only_duration st =
     (let st = net_call (Schedule BT_MESH_SETTINGS_IV_PENDING) st
      in if \<not> only_duration then net_call (Schedule BT_MESH_SETTINGS_SEQ_PENDING) st else st)"

definition store_seq :: "mesh_cfg \<Rightarrow> bt_mesh_net \<Rightarrow> bt_mesh_net" where
  "store_seq cfg st =
     (if 1 < cfg_seq_store_rate cfg \<and> unat (bm_seq st) mod cfg_seq_store_rate cfg \<noteq> 0 then st
      else net_call (Schedule BT_MESH_SETTINGS_SEQ_PENDING) st)"

text \<open>
  Creating the network at provisioning; \<open>err\<close> is the result of \<open>bt_mesh_subnet_set\<close>.  The
  message cache that is cleared here belongs to the network message cache.
\<close>

definition bt_mesh_net_create ::
  "mesh_cfg \<Rightarrow> errno option \<Rightarrow> u16 \<Rightarrow> u8 \<Rightarrow> u32 \<Rightarrow> bt_mesh_net \<Rightarrow> errno option \<times> bt_mesh_net" where
  "bt_mesh_net_create cfg err idx flags iv_index st =
     (case err of Some e \<Rightarrow> (Some e, st)
      | None \<Rightarrow>
         (let st = st\<lparr>bm_iv_index := iv_index, bm_ivu_in_progress := BT_MESH_IV_UPDATE flags\<rparr>;
              st = (if BT_MESH_IV_UPDATE flags
                    then st\<lparr>bm_ivu_duration := word_of_nat BT_MESH_IVU_MIN_HOURS\<rparr> else st);
              st = (if cfg_settings cfg then store_iv False (net_call (Subnet_store idx) st) else st)
          in (None, st)))"

definition bt_mesh_iv_update_test :: "bool \<Rightarrow> bt_mesh_net \<Rightarrow> bt_mesh_net" where
  "bt_mesh_iv_update_test enable st = st\<lparr>bm_ivu_test := enable, bm_ivu_duration := 0\<rparr>"

text \<open>The part of \<open>bt_mesh_net_iv_update\<close> from the label \<open>do_update\<close> on.\<close>

definition iv_do_update :: "mesh_cfg \<Rightarrow> iv_env \<Rightarrow> u32 \<Rightarrow> bool \<Rightarrow> bt_mesh_net \<Rightarrow> bt_mesh_net" where
  "iv_do_update cfg env iv_index iv_update st =
     (let st = st\<lparr>bm_ivu_in_progress := iv_update, bm_ivu_duration := 0\<rparr>;
          st = (if iv_update
                then st\<lparr>bm_iv_index := iv_index,
                        bm_rpl := bt_mesh_rpl_reset (cfg_settings cfg) (cfg_rpl_timeout cfg) (bm_rpl st)\<rparr>
                else st\<lparr>bm_seq := 0\<rparr>);
          st = st\<lparr>bm_ivu_timer := True\<rparr>;
          st = (if cfg_friend cfg then net_call (Friend_sec_update BT_MESH_KEY_ANY) st else st);
          st = net_call Subnet_foreach_beacon_update st;
          st = (if cfg_gatt_proxy cfg \<and> env_gatt_proxy_enabled env then net_call Proxy_beacon_send st else st);
          st = (if cfg_cdb cfg then net_call (Cdb_iv_update iv_index iv_update) st else st)
      in if cfg_settings cfg then store_iv False st else st)"

text \<open>The checks between the index checks and \<open>do_update\<close>.\<close>

definition iv_checked_update :: "mesh_cfg \<Rightarrow> iv_env \<Rightarrow> u32 \<Rightarrow> bool \<Rightarrow> bt_mesh_net \<Rightarrow> bool \<times> bt_mesh_net" where
  "iv_checked_update cfg env iv_index iv_update st =
     (if \<not> (cfg_ivu_test cfg \<and> bm_ivu_test st) \<and> unat (bm_ivu_duration st) < BT_MESH_IVU_MIN_HOURS
      then (False, st)
      else if \<not> iv_update \<and> env_tx_in_progress env then (False, st\<lparr>bm_ivu_pending := True\<rparr>)
      else (True, iv_do_update cfg env iv_index iv_update st))"

definition bt_mesh_net_iv_update :: "mesh_cfg \<Rightarrow> iv_env \<Rightarrow> u32 \<Rightarrow> bool \<Rightarrow> bt_mesh_net \<Rightarrow> bool \<times> bt_mesh_net" where
  "bt_mesh_net_iv_update cfg env iv_index iv_update st =
     (if bm_ivu_in_progress st
      then
        (if iv_index \<noteq> bm_iv_index st then (False, st)
         else if iv_update then (False, st)
         else iv_checked_update cfg env iv_index iv_update st)
      else
        (if iv_index = bm_iv_index st then (False, st)
         else if iv_index < bm_iv_index st \<or> bm_iv_index st + 42 < iv_index then (False, st)
         else if bm_iv_index st + 1 < iv_index
         then
           (let st = st\<lparr>bm_rpl := bt_mesh_rpl_clear (cfg_settings cfg) (bm_rpl st)\<rparr>;
                st = st\<lparr>bm_iv_index := iv_index, bm_seq := 0\<rparr>
            in (True, iv_do_update cfg env iv_index iv_update st))
         else if iv_index = bm_iv_index st + 1 \<and> \<not> iv_update then (False, st)
         else if \<not> iv_update then (False, st)
         else iv_checked_update cfg env iv_index iv_update st))"

definition bt_mesh_iv_update :: "mesh_cfg \<Rightarrow> iv_env \<Rightarrow> bt_mesh_net \<Rightarrow> bool \<times> bt_mesh_net" where
  "bt_mesh_iv_update cfg env st =
     (if \<not> bm_valid st then (False, st)
      else
        (let st = (if bm_ivu_in_progress st
                   then snd (bt_mesh_net_iv_update cfg env (bm_iv_index st) False st)
                   else snd (bt_mesh_net_iv_update cfg env (bm_iv_index st + 1) True st))
         in (bm_ivu_in_progress st, st)))"

definition bt_mesh_beacon_ivu_initiator :: "bool \<Rightarrow> bt_mesh_net \<Rightarrow> bt_mesh_net" where
  "bt_mesh_beacon_ivu_initiator enable st =
     net_call (Beacon_ivu_initiator enable) (st\<lparr>bm_ivu_initiator := enable\<rparr>)"

definition bt_mesh_next_seq :: "mesh_cfg \<Rightarrow> iv_env \<Rightarrow> bt_mesh_net \<Rightarrow> u32 \<times> bt_mesh_net" where
  "bt_mesh_next_seq cfg env st =
     (let seq = bm_seq st;
          st = st\<lparr>bm_seq := bm_seq st + 1\<rparr>;
          st = (if cfg_settings cfg then store_seq cfg st else st);
          st = (if \<not> bm_ivu_in_progress st \<and> cfg_seq_limit cfg < bm_seq st \<and> env_primary_subnet env
                then
                  (let st = bt_mesh_beacon_ivu_initiator True st
                   in snd (bt_mesh_net_iv_update cfg env (bm_iv_index st + 1) True st))
                else st)
      in (seq, st))"

text \<open>The work handler; running it takes the work off the timer.\<close>

definition ivu_refresh :: "mesh_cfg \<Rightarrow> iv_env \<Rightarrow> bt_mesh_net \<Rightarrow> bt_mesh_net" where
  "ivu_refresh cfg env st =
     (let st = st\<lparr>bm_ivu_timer := False\<rparr> in
      if \<not> bm_valid st then st
      else
        (let st = st\<lparr>bm_ivu_duration := word_of_nat (min 255 (unat (bm_ivu_duration st) + BT_MESH_IVU_HOURS cfg))\<rparr> in
         if unat (bm_ivu_duration st) < BT_MESH_IVU_MIN_HOURS
         then (let st = (if cfg_settings cfg then store_iv True st else st) in st\<lparr>bm_ivu_timer := True\<rparr>)
         else if bm_ivu_in_progress st
         then snd (bt_mesh_net_iv_update cfg env (bm_iv_index st) False (bt_mesh_beacon_ivu_initiator True st))
         else if cfg_settings cfg then store_iv True st else st))"

text \<open>Finishing the last segmented transmission proceeds with a deferred update.\<close>

definition iv_update_deferred :: "mesh_cfg \<Rightarrow> iv_env \<Rightarrow> bt_mesh_net \<Rightarrow> bt_mesh_net" where
  "iv_update_deferred cfg env st =
     (if bm_ivu_pending st
      then snd (bt_mesh_net_iv_update cfg env (bm_iv_index st) False (st\<lparr>bm_ivu_pending := False\<rparr>))
      else st)"

section \<open>Storing and loading\<close>

definition net_set :: "nat \<Rightarrow> errno + net_val \<Rightarrow> bt_mesh_net \<Rightarrow> errno option \<times> bt_mesh_net" where
  "net_set len_rd rd st =
     (if len_rd = 0 then (None, (net_call Comp_unprovision st)\<lparr>bm_dev_key := replicate 16 0\<rparr>)
      else
        (case rd of Inl e \<Rightarrow> (Some e, st)
         | Inr net \<Rightarrow> (None, net_call (Comp_provision (nv_primary_addr net)) (st\<lparr>bm_dev_key := nv_dev_key net\<rparr>))))"

definition iv_set :: "nat \<Rightarrow> errno + iv_val \<Rightarrow> bt_mesh_net \<Rightarrow> errno option \<times> bt_mesh_net" where
  "iv_set len_rd rd st =
     (if len_rd = 0 then (None, st\<lparr>bm_iv_index := 0, bm_ivu_in_progress := False\<rparr>)
      else
        (case rd of Inl e \<Rightarrow> (Some e, st)
         | Inr iv \<Rightarrow> (None, st\<lparr>bm_iv_index := iv_index_val iv, bm_ivu_in_progress := iv_update_val iv,
                                bm_ivu_duration := ucast (iv_duration_val iv)\<rparr>)))"

text \<open>The arithmetic is that of \<open>uint32_t\<close> and \<open>int\<close>; a store rate of zero keeps the number.\<close>

definition seq_set :: "mesh_cfg \<Rightarrow> nat \<Rightarrow> errno + bytes \<Rightarrow> bt_mesh_net \<Rightarrow> errno option \<times> bt_mesh_net" where
  "seq_set cfg len_rd rd st =
     (if len_rd = 0 then (None, st\<lparr>bm_seq := 0\<rparr>)
      else
        (case rd of Inl e \<Rightarrow> (Some e, st)
         | Inr val \<Rightarrow>
            (let seq = sys_get_le24 val;
                 rate = word_of_nat (cfg_seq_store_rate cfg) :: u32;
                 seq = (if 0 < cfg_seq_store_rate cfg then seq + (rate - seq mod rate) - 1 else seq)
             in (None, st\<lparr>bm_seq := seq\<rparr>))))"

definition clear_iv :: "bt_mesh_net \<Rightarrow> bt_mesh_net" where
  "clear_iv st = net_call (Delete_path ''bt/mesh/IV'') st"

definition store_pending_iv :: "bt_mesh_net \<Rightarrow> bt_mesh_net" where
  "store_pending_iv st =
     net_call (Save_iv \<lparr>iv_index_val = bm_iv_index st, iv_update_val = bm_ivu_in_progress st,
       iv_duration_val = ucast (bm_ivu_duration st)\<rparr>) st"

definition bt_mesh_net_pending_iv_store :: "bt_mesh_net \<Rightarrow> bt_mesh_net" where
  "bt_mesh_net_pending_iv_store st = (if bm_valid st then store_pending_iv st else clear_iv st)"

definition clear_net :: "bt_mesh_net \<Rightarrow> bt_mesh_net" where
  "clear_net st = net_call (Delete_path ''bt/mesh/Net'') st"

definition store_pending_net :: "u16 \<Rightarrow> bt_mesh_net \<Rightarrow> bt_mesh_net" where
  "store_pending_net primary_addr st =
     net_call (Save_net \<lparr>nv_primary_addr = primary_addr, nv_dev_key = bm_dev_key st\<rparr>) st"

definition bt_mesh_net_pending_net_store :: "u16 \<Rightarrow> bt_mesh_net \<Rightarrow> bt_mesh_net" where
  "bt_mesh_net_pending_net_store primary_addr st =
     (if bm_valid st then store_pending_net primary_addr st else clear_net st)"

definition bt_mesh_net_pending_seq_store :: "bt_mesh_net \<Rightarrow> bt_mesh_net" where
  "bt_mesh_net_pending_seq_store st =
     (if bm_valid st then net_call (Save_seq (sys_put_le24 (bm_seq st))) st
      else net_call (Delete_path ''bt/mesh/Seq'') st)"

definition bt_mesh_net_clear :: "bt_mesh_net \<Rightarrow> bt_mesh_net" where
  "bt_mesh_net_clear st =
     net_call (Schedule BT_MESH_SETTINGS_SEQ_PENDING) (net_call (Schedule BT_MESH_SETTINGS_CFG_PENDING)
       (net_call (Schedule BT_MESH_SETTINGS_IV_PENDING) (net_call (Schedule BT_MESH_SETTINGS_NET_PENDING) st)))"

definition bt_mesh_net_settings_commit :: "bt_mesh_net \<Rightarrow> bt_mesh_net" where
  "bt_mesh_net_settings_commit st =
     (if unat (bm_ivu_duration st) < BT_MESH_IVU_MIN_HOURS then st\<lparr>bm_ivu_timer := True\<rparr> else st)"

section \<open>The effect of an update\<close>

lemma net_call_fields [simp]:
  "bm_iv_index (net_call c st) = bm_iv_index st" "bm_seq (net_call c st) = bm_seq st"
  "bm_valid (net_call c st) = bm_valid st" "bm_ivu_in_progress (net_call c st) = bm_ivu_in_progress st"
  "bm_ivu_test (net_call c st) = bm_ivu_test st" "bm_ivu_pending (net_call c st) = bm_ivu_pending st"
  "bm_ivu_duration (net_call c st) = bm_ivu_duration st" "bm_ivu_timer (net_call c st) = bm_ivu_timer st"
  "bm_rpl (net_call c st) = bm_rpl st" "bm_dev_key (net_call c st) = bm_dev_key st"
  by (simp_all add: net_call_def)

lemma store_fields [simp]:
  "bm_iv_index (store_iv d st) = bm_iv_index st" "bm_seq (store_iv d st) = bm_seq st"
  "bm_ivu_in_progress (store_iv d st) = bm_ivu_in_progress st" "bm_ivu_test (store_iv d st) = bm_ivu_test st"
  "bm_ivu_duration (store_iv d st) = bm_ivu_duration st" "bm_ivu_timer (store_iv d st) = bm_ivu_timer st"
  "bm_iv_index (store_seq cfg st) = bm_iv_index st" "bm_seq (store_seq cfg st) = bm_seq st"
  "bm_ivu_in_progress (store_seq cfg st) = bm_ivu_in_progress st" "bm_ivu_test (store_seq cfg st) = bm_ivu_test st"
  "bm_ivu_duration (store_seq cfg st) = bm_ivu_duration st" "bm_ivu_timer (store_seq cfg st) = bm_ivu_timer st"
  "bm_rpl (store_seq cfg st) = bm_rpl st"
  by (simp_all add: store_iv_def store_seq_def Let_def)

lemma initiator_fields [simp]:
  "bm_iv_index (bt_mesh_beacon_ivu_initiator e st) = bm_iv_index st"
  "bm_seq (bt_mesh_beacon_ivu_initiator e st) = bm_seq st"
  "bm_ivu_in_progress (bt_mesh_beacon_ivu_initiator e st) = bm_ivu_in_progress st"
  "bm_ivu_test (bt_mesh_beacon_ivu_initiator e st) = bm_ivu_test st"
  "bm_ivu_duration (bt_mesh_beacon_ivu_initiator e st) = bm_ivu_duration st"
  "bm_ivu_timer (bt_mesh_beacon_ivu_initiator e st) = bm_ivu_timer st"
  by (simp_all add: bt_mesh_beacon_ivu_initiator_def)

lemma do_update_fields [simp]:
  "bm_iv_index (iv_do_update cfg env iv u st) = (if u then iv else bm_iv_index st)"
  "bm_seq (iv_do_update cfg env iv u st) = (if u then bm_seq st else 0)"
  "bm_ivu_in_progress (iv_do_update cfg env iv u st) = u"
  "bm_ivu_test (iv_do_update cfg env iv u st) = bm_ivu_test st"
  "bm_ivu_duration (iv_do_update cfg env iv u st) = 0"
  "bm_ivu_timer (iv_do_update cfg env iv u st)"
  by (simp_all add: iv_do_update_def Let_def)

text \<open>The four outcomes of an update request.\<close>

inductive iv_outcome :: "bt_mesh_net \<Rightarrow> u32 \<Rightarrow> bool \<Rightarrow> bool \<times> bt_mesh_net \<Rightarrow> bool" where
  Ignored: "iv_outcome st iv u (False, st)"
| Deferred: "bm_ivu_in_progress st \<Longrightarrow> iv_outcome st iv False (False, st\<lparr>bm_ivu_pending := True\<rparr>)"
| Entered: "\<not> bm_ivu_in_progress st \<Longrightarrow> bm_iv_index st \<noteq> - 1 \<Longrightarrow> iv = bm_iv_index st + 1 \<Longrightarrow>
    iv_outcome st iv True (True, iv_do_update cfg env iv True st)"
| Left: "bm_ivu_in_progress st \<Longrightarrow> iv = bm_iv_index st \<Longrightarrow>
    iv_outcome st iv False (True, iv_do_update cfg env iv False st)"
| Recovered: "\<not> bm_ivu_in_progress st \<Longrightarrow> unat (bm_iv_index st) + 1 < unat iv \<Longrightarrow>
    iv_outcome st iv u (True, iv_do_update cfg env iv u
      (st\<lparr>bm_rpl := bt_mesh_rpl_clear (cfg_settings cfg) (bm_rpl st), bm_iv_index := iv, bm_seq := 0\<rparr>))"

inductive_cases iv_outcomeE: "iv_outcome st iv u r"

lemma word_succ_less:
  assumes "\<not> iv < i" "iv \<noteq> (i :: u32)"
  shows "i \<noteq> - 1" "i + 1 < iv \<longleftrightarrow> unat i + 1 < unat iv" "unat (i + 1) = unat i + 1"
proof -
  have lt: "unat i < unat iv" using assms by (simp add: word_less_nat_alt word_unat_eq_iff)
  then have "unat i + 1 < 4294967296" using unat_u32 [of iv] by linarith
  then show u: "unat (i + 1) = unat i + 1" by (simp add: unat_word_ariths)
  then show "i + 1 < iv \<longleftrightarrow> unat i + 1 < unat iv" by (simp add: word_less_nat_alt)
  show "i \<noteq> - 1" using u by auto
qed

lemma iv_update_outcome: "iv_outcome st iv u (bt_mesh_net_iv_update cfg env iv u st)"
proof (cases "bm_ivu_in_progress st")
  case True
  then show ?thesis
    by (auto simp: bt_mesh_net_iv_update_def iv_checked_update_def intro: iv_outcome.intros)
next
  case False
  consider "iv = bm_iv_index st" | "iv < bm_iv_index st \<or> bm_iv_index st + 42 < iv"
    | (fwd) "iv \<noteq> bm_iv_index st" "\<not> iv < bm_iv_index st" "\<not> bm_iv_index st + 42 < iv" by blast
  then show ?thesis
  proof cases
    case fwd
    note s = word_succ_less [OF fwd(2,1)]
    show ?thesis
    proof (cases "bm_iv_index st + 1 < iv")
      case True
      then show ?thesis
        using False fwd s Recovered [of st iv u cfg env] by (simp add: bt_mesh_net_iv_update_def Let_def)
    next
      case small: False
      then have "unat iv = unat (bm_iv_index st) + 1"
        using s(2) fwd(1,2) by (simp add: word_less_nat_alt word_unat_eq_iff)
      then have "iv = bm_iv_index st + 1" using s(3) by (simp add: word_unat_eq_iff)
      with small False fwd s(1) show ?thesis
        by (auto simp: bt_mesh_net_iv_update_def iv_checked_update_def intro: iv_outcome.intros)
    qed
  qed (use False in \<open>auto simp: bt_mesh_net_iv_update_def intro: iv_outcome.intros\<close>)
qed


section \<open>Runs and the nonces they use\<close>

text \<open>
  The steps of a provisioned node: update requests (from beacons and other modules), the
  allocation of a sequence number for transmission, the timer, the test interface, and
  proceeding with a deferred update.  A step that allocates a sequence number is labelled
  with it and the IV index it is transmitted under.
\<close>

type_synonym nonce = "u32 \<times> u32"

inductive net_step :: "mesh_cfg \<Rightarrow> bt_mesh_net \<Rightarrow> nonce option \<Rightarrow> bt_mesh_net \<Rightarrow> bool" for cfg where
  Update: "net_step cfg st None (snd (bt_mesh_net_iv_update cfg env iv u st))"
| Next_seq: "bt_mesh_next_seq cfg env st = (seq, st') \<Longrightarrow> net_step cfg st (Some (BT_MESH_NET_IVI_TX st', seq)) st'"
| Timer: "bm_ivu_timer st \<Longrightarrow> net_step cfg st None (ivu_refresh cfg env st)"
| Test_mode: "cfg_ivu_test cfg \<Longrightarrow> net_step cfg st None (bt_mesh_iv_update_test e st)"
| Test_update: "cfg_ivu_test cfg \<Longrightarrow> net_step cfg st None (snd (bt_mesh_iv_update cfg env st))"
| Proceed: "net_step cfg st None (iv_update_deferred cfg env st)"

inductive net_run :: "mesh_cfg \<Rightarrow> bt_mesh_net \<Rightarrow> nonce list \<Rightarrow> bt_mesh_net \<Rightarrow> bool" for cfg where
  Done: "net_run cfg st [] st"
| Step: "net_step cfg st l st1 \<Longrightarrow> net_run cfg st1 ns st2 \<Longrightarrow>
    net_run cfg st (case l of None \<Rightarrow> ns | Some n \<Rightarrow> n # ns) st2"

inductive_cases net_stepE: "net_step cfg st l st'"

definition nonce_less :: "nonce \<Rightarrow> nonce \<Rightarrow> bool" where
  "nonce_less a b \<longleftrightarrow> unat (fst a) < unat (fst b) \<or> (fst a = fst b \<and> unat (snd a) < unat (snd b))"

definition next_nonce :: "bt_mesh_net \<Rightarrow> nonce" where
  "next_nonce st = (BT_MESH_NET_IVI_TX st, bm_seq st)"

definition nonce_le :: "nonce \<Rightarrow> nonce \<Rightarrow> bool" where
  "nonce_le a b \<longleftrightarrow> a = b \<or> nonce_less a b"

lemma nonce_le_refl [simp]: "nonce_le a a"
  by (simp add: nonce_le_def)

lemma nonce_order:
  "nonce_le a b \<Longrightarrow> nonce_le b c \<Longrightarrow> nonce_le a c"
  "nonce_less a b \<Longrightarrow> nonce_le b c \<Longrightarrow> nonce_less a c"
  "\<not> nonce_less a a"
  by (auto simp: nonce_le_def nonce_less_def)

text \<open>While an update is in progress the index is that of the new period, never zero.\<close>

definition iv_inv :: "bt_mesh_net \<Rightarrow> bool" where
  "iv_inv st \<longleftrightarrow> (bm_ivu_in_progress st \<longrightarrow> bm_iv_index st \<noteq> 0)"

lemma unat_pred: "(i :: u32) \<noteq> 0 \<Longrightarrow> unat (i - 1) = unat i - 1"
  by (simp add: unat_minus_one)

lemma plus1_nonzero: "(i :: u32) \<noteq> - 1 \<Longrightarrow> i + 1 \<noteq> 0"
  by (metis add_eq_0_iff2)

lemma outcome_inv:
  assumes "iv_outcome st iv u r" "iv_inv st"
  shows "iv_inv (snd r) \<and> nonce_le (next_nonce st) (next_nonce (snd r))"
  using assms(1)
proof cases
  case (Entered cfg env)
  then show ?thesis by (simp add: iv_inv_def plus1_nonzero next_nonce_def BT_MESH_NET_IVI_TX_def)
next
  case (Left cfg env)
  then show ?thesis
    using assms(2) unat_pred [of "bm_iv_index st"] unat_eq_0 [of "bm_iv_index st"]
    by (auto simp: iv_inv_def next_nonce_def BT_MESH_NET_IVI_TX_def nonce_le_def nonce_less_def)
next
  case (Recovered cfg env)
  then have "iv \<noteq> 0" by auto
  then show ?thesis
    using Recovered unat_pred [of iv]
    by (auto simp: iv_inv_def next_nonce_def BT_MESH_NET_IVI_TX_def nonce_le_def nonce_less_def)
qed (use assms(2) in \<open>simp_all add: iv_inv_def next_nonce_def BT_MESH_NET_IVI_TX_def\<close>)

lemmas iv_update_inv = outcome_inv [OF iv_update_outcome]

text \<open>Allocating a sequence number uses the next nonce and moves past it.\<close>

lemma next_seq_nonce:
  assumes "bt_mesh_next_seq cfg env st = (seq, st')" "iv_inv st" "unat seq < 2 ^ 24"
  shows "(BT_MESH_NET_IVI_TX st', seq) = next_nonce st \<and> iv_inv st' \<and> nonce_less (next_nonce st) (next_nonce st')"
proof -
  have seq: "seq = bm_seq st" using assms(1) by (simp add: bt_mesh_next_seq_def Let_def)
  let ?st1 = "(if cfg_settings cfg then store_seq cfg else id) (st\<lparr>bm_seq := bm_seq st + 1\<rparr>)"
  let ?st2 = "bt_mesh_beacon_ivu_initiator True ?st1"
  have cases: "st' = ?st1 \<or> st' = snd (bt_mesh_net_iv_update cfg env (bm_iv_index st + 1) True ?st2) \<and> \<not> bm_ivu_in_progress st"
    using assms(1) by (auto simp: bt_mesh_next_seq_def Let_def split: if_splits)
  have "unat (bm_seq st + 1) = unat (bm_seq st) + 1"
    using assms(3) seq by (simp add: unat_word_ariths)
  moreover have "BT_MESH_NET_IVI_TX st' = BT_MESH_NET_IVI_TX st \<and> bm_seq st' = bm_seq st + 1 \<and> iv_inv st'"
    using cases
  proof
    assume "st' = ?st1"
    then show ?thesis using assms(2) by (auto simp: BT_MESH_NET_IVI_TX_def iv_inv_def)
  next
    assume u: "st' = snd (bt_mesh_net_iv_update cfg env (bm_iv_index st + 1) True ?st2) \<and> \<not> bm_ivu_in_progress st"
    define st2 where "st2 = ?st2"
    have nip: "\<not> bm_ivu_in_progress st" using u by simp
    have f: "bm_iv_index st2 = bm_iv_index st" "bm_seq st2 = bm_seq st + 1" "\<not> bm_ivu_in_progress st2"
      using u by (auto simp: st2_def)
    have st': "st' = snd (bt_mesh_net_iv_update cfg env (bm_iv_index st + 1) True st2)" using u by (simp add: st2_def)
    have "iv_outcome st2 (bm_iv_index st + 1) True (bt_mesh_net_iv_update cfg env (bm_iv_index st + 1) True st2)"
      by (rule iv_update_outcome)
    then show ?thesis
    proof cases
      case Ignored
      then have "st' = st2" using st' by simp
      then show ?thesis using f nip by (simp add: BT_MESH_NET_IVI_TX_def iv_inv_def)
    next
      case (Entered cfg' env')
      then have e: "st' = iv_do_update cfg' env' (bm_iv_index st + 1) True st2" using st' by simp
      have "bm_iv_index st \<noteq> - 1" using Entered f(1) by metis
      then have "bm_iv_index st + 1 \<noteq> 0" by (rule plus1_nonzero)
      then show ?thesis using f nip unfolding e by (simp add: BT_MESH_NET_IVI_TX_def iv_inv_def)
    next
      case (Recovered cfg env)
      have "unat (bm_iv_index st + 1) \<le> unat (bm_iv_index st) + 1" by (simp add: unat_word_ariths)
      with Recovered(3) f(1) show ?thesis by simp
    qed simp_all
  qed
  ultimately show ?thesis by (simp add: next_nonce_def nonce_less_def seq)
qed


lemma refresh_inv:
  assumes "iv_inv st"
  shows "iv_inv (ivu_refresh cfg env st) \<and> nonce_le (next_nonce st) (next_nonce (ivu_refresh cfg env st))"
proof -
  define st1 where "st1 = st\<lparr>bm_ivu_timer := False,
    bm_ivu_duration := word_of_nat (min 255 (unat (bm_ivu_duration st) + BT_MESH_IVU_HOURS cfg))\<rparr>"
  have same: "iv_inv st' \<and> next_nonce st' = next_nonce st"
    if "bm_iv_index st' = bm_iv_index st" "bm_seq st' = bm_seq st" "bm_ivu_in_progress st' = bm_ivu_in_progress st" for st'
    using assms that by (simp add: iv_inv_def next_nonce_def BT_MESH_NET_IVI_TX_def)
  have st1: "bm_iv_index st1 = bm_iv_index st" "bm_seq st1 = bm_seq st" "bm_ivu_in_progress st1 = bm_ivu_in_progress st"
    by (simp_all add: st1_def)
  let ?st2 = "bt_mesh_beacon_ivu_initiator True st1"
  have "iv_inv ?st2 \<and> next_nonce ?st2 = next_nonce st" by (rule same) (simp_all add: st1)
  then have upd: "iv_inv (snd (bt_mesh_net_iv_update cfg env (bm_iv_index st1) False ?st2)) \<and>
      nonce_le (next_nonce st) (next_nonce (snd (bt_mesh_net_iv_update cfg env (bm_iv_index st1) False ?st2)))"
    using iv_update_inv by metis
  have r: "ivu_refresh cfg env st =
      (if \<not> bm_valid st then st\<lparr>bm_ivu_timer := False\<rparr>
       else if unat (bm_ivu_duration st1) < BT_MESH_IVU_MIN_HOURS
       then (if cfg_settings cfg then store_iv True st1 else st1)\<lparr>bm_ivu_timer := True\<rparr>
       else if bm_ivu_in_progress st1 then snd (bt_mesh_net_iv_update cfg env (bm_iv_index st1) False ?st2)
       else if cfg_settings cfg then store_iv True st1 else st1)"
    by (simp add: ivu_refresh_def st1_def Let_def)
  show ?thesis
  proof (cases "bm_valid st \<and> \<not> unat (bm_ivu_duration st1) < BT_MESH_IVU_MIN_HOURS \<and> bm_ivu_in_progress st1")
    case True
    then have "ivu_refresh cfg env st = snd (bt_mesh_net_iv_update cfg env (bm_iv_index st1) False ?st2)"
      unfolding r by simp
    with upd show ?thesis by metis
  next
    case False
    then have "bm_iv_index (ivu_refresh cfg env st) = bm_iv_index st" "bm_seq (ivu_refresh cfg env st) = bm_seq st"
      "bm_ivu_in_progress (ivu_refresh cfg env st) = bm_ivu_in_progress st"
      unfolding r using st1 by auto
    from same [OF this] show ?thesis by simp
  qed
qed

lemma step_inv:
  assumes "net_step cfg st l st'" "iv_inv st"
  shows "(l = None \<longrightarrow> iv_inv st' \<and> nonce_le (next_nonce st) (next_nonce st')) \<and>
    (\<forall>n. l = Some n \<longrightarrow> unat (snd n) < 2 ^ 24 \<longrightarrow>
      n = next_nonce st \<and> iv_inv st' \<and> nonce_less (next_nonce st) (next_nonce st'))"
  using assms(1)
proof cases
  case (Update env iv u)
  then show ?thesis using iv_update_inv [OF assms(2)] by simp
next
  case (Next_seq env seq)
  then show ?thesis using next_seq_nonce [OF Next_seq(2) assms(2)] by simp
next
  case (Timer env)
  then show ?thesis using refresh_inv [OF assms(2)] by simp
next
  case (Test_mode e)
  then show ?thesis using assms(2)
    by (simp add: bt_mesh_iv_update_test_def iv_inv_def next_nonce_def BT_MESH_NET_IVI_TX_def)
next
  case (Test_update env)
  then show ?thesis using iv_update_inv [OF assms(2)] assms(2) by (simp add: bt_mesh_iv_update_def Let_def)
next
  case (Proceed env)
  have "iv_inv (st\<lparr>bm_ivu_pending := False\<rparr>) \<and> next_nonce (st\<lparr>bm_ivu_pending := False\<rparr>) = next_nonce st"
    using assms(2) by (simp add: iv_inv_def next_nonce_def BT_MESH_NET_IVI_TX_def)
  then show ?thesis using Proceed iv_update_inv assms(2) by (simp add: iv_update_deferred_def) metis
qed

lemma run_nonces:
  assumes "net_run cfg st ns st'" "iv_inv st" "\<forall>n \<in> set ns. unat (snd n) < 2 ^ 24"
  shows "sorted_wrt nonce_less ns \<and> (\<forall>n \<in> set ns. nonce_le (next_nonce st) n \<and> nonce_less n (next_nonce st')) \<and>
    iv_inv st' \<and> nonce_le (next_nonce st) (next_nonce st')"
  using assms
proof induction
  case (Done st)
  then show ?case by simp
next
  case (Step st l st1 ns st2)
  show ?case
  proof (cases l)
    case None
    with step_inv [OF Step.hyps(1) Step.prems(1)] have s: "iv_inv st1" "nonce_le (next_nonce st) (next_nonce st1)" by auto
    with Step None show ?thesis by (auto intro: nonce_order(1))
  next
    case (Some n)
    with step_inv [OF Step.hyps(1) Step.prems(1)] Step.prems(2)
    have s: "n = next_nonce st" "iv_inv st1" "nonce_less (next_nonce st) (next_nonce st1)" by auto
    have le: "nonce_le (next_nonce st) (next_nonce st1)" using s(3) by (simp add: nonce_le_def)
    from Step.IH [OF s(2)] Step.prems(2) Some have IH: "sorted_wrt nonce_less ns"
      "\<forall>n \<in> set ns. nonce_le (next_nonce st1) n \<and> nonce_less n (next_nonce st2)" "iv_inv st2"
      "nonce_le (next_nonce st1) (next_nonce st2)" by auto
    have "nonce_less n m" if "m \<in> set ns" for m
      using nonce_order(2) s(1,3) IH(2) that by blast
    moreover have "nonce_less n (next_nonce st2)" using nonce_order(2) s(1,3) IH(4) by blast
    moreover have "nonce_le (next_nonce st) m" if "m \<in> set ns" for m
      using nonce_order(1) le IH(2) that by blast
    ultimately show ?thesis
      using IH s le Some nonce_order(1) by auto
  qed
qed


section \<open>The time spent in a period\<close>

definition dur_inv :: "mesh_cfg \<Rightarrow> bt_mesh_net \<Rightarrow> bool" where
  "dur_inv cfg st \<longleftrightarrow> unat (bm_ivu_duration st) < 128 \<and>
     (bm_ivu_timer st \<longrightarrow> unat (bm_ivu_duration st) < 96 \<and> BT_MESH_IVU_HOURS cfg dvd unat (bm_ivu_duration st))"

lemma outcome_dur:
  assumes "iv_outcome st iv u r" "dur_inv cfg st"
  shows "dur_inv cfg (snd r)"
  using assms by cases (simp_all add: dur_inv_def)

text \<open>A whole number of timer periods below 96 hours, and one more, stays below 128 hours.\<close>

lemma hours_bound:
  assumes "BT_MESH_IVU_HOURS cfg dvd n" "n < 96"
  shows "n + BT_MESH_IVU_HOURS cfg < 128"
proof (cases "BT_MESH_IVU_HOURS cfg \<le> 32")
  case False
  let ?H = "BT_MESH_IVU_HOURS cfg" and ?d = "cfg_ivu_divider cfg"
  have H: "?H = 96 div ?d" by (simp add: BT_MESH_IVU_HOURS_def BT_MESH_IVU_MIN_HOURS_def)
  have "?d < 3"
  proof (rule ccontr)
    assume "\<not> ?d < 3"
    then have "96 div ?d \<le> 96 div 3" by (intro div_le_mono2) auto
    with False H show False by simp
  qed
  moreover have "?d \<noteq> 0" using False H by (cases "?d = 0") auto
  ultimately have "?d = 1 \<or> ?d = 2" by linarith
  then have H2: "?H = 96 \<or> ?H = 48" using H by auto
  obtain k where k: "n = ?H * k" using assms(1) by (auto elim: dvdE)
  show ?thesis
    using H2
  proof
    assume h: "?H = 96"
    with k assms(2) have "n = 0" by simp
    with h show ?thesis by simp
  next
    assume h: "?H = 48"
    with k assms(2) have "k \<le> 1" by simp
    with h k show ?thesis by simp
  qed
qed (use assms(2) in simp)

lemma refresh_dur:
  assumes "dur_inv cfg st" "bm_ivu_timer st"
  shows "dur_inv cfg (ivu_refresh cfg env st)"
proof -
  let ?n = "unat (bm_ivu_duration st)" and ?H = "BT_MESH_IVU_HOURS cfg"
  define st1 where "st1 = st\<lparr>bm_ivu_timer := False, bm_ivu_duration := word_of_nat (min 255 (?n + ?H))\<rparr>"
  have n: "?n < 96" "?H dvd ?n" using assms by (simp_all add: dur_inv_def)
  have lt: "?n + ?H < 128" by (rule hours_bound [OF n(2,1)])
  then have d: "unat (bm_ivu_duration st1) = ?n + ?H" 
    using unat_word_small [of "?n + ?H"] by (simp add: st1_def min_def del: of_nat_add)
  have inv1: "dur_inv cfg st1" using lt d by (simp add: dur_inv_def, simp add: st1_def)
  let ?st2 = "bt_mesh_beacon_ivu_initiator True st1"
  have "dur_inv cfg ?st2" using inv1 by (simp add: dur_inv_def)
  from outcome_dur [OF iv_update_outcome this]
  have upd: "dur_inv cfg (snd (bt_mesh_net_iv_update cfg env (bm_iv_index st1) False ?st2))" .
  have hd: "?H dvd ?n + ?H" using n by simp
  have r: "ivu_refresh cfg env st =
      (if \<not> bm_valid st then st\<lparr>bm_ivu_timer := False\<rparr>
       else if unat (bm_ivu_duration st1) < BT_MESH_IVU_MIN_HOURS
       then (if cfg_settings cfg then store_iv True st1 else st1)\<lparr>bm_ivu_timer := True\<rparr>
       else if bm_ivu_in_progress st1 then snd (bt_mesh_net_iv_update cfg env (bm_iv_index st1) False ?st2)
       else if cfg_settings cfg then store_iv True st1 else st1)"
    by (simp add: ivu_refresh_def st1_def Let_def)
  have t: "\<not> bm_ivu_timer st1" by (simp add: st1_def)
  consider "\<not> bm_valid st" | "bm_valid st" "?n + ?H < 96" | "bm_valid st" "\<not> ?n + ?H < 96" by blast
  then show ?thesis
  proof cases
    case 3
    then show ?thesis using upd inv1 t lt unfolding r d
      by (cases "bm_ivu_in_progress st1") (simp_all add: BT_MESH_IVU_MIN_HOURS_def dur_inv_def d)
  qed (use n hd t lt in \<open>simp_all add: r d BT_MESH_IVU_MIN_HOURS_def dur_inv_def\<close>)
qed

lemma step_dur:
  assumes "net_step cfg st l st'" "dur_inv cfg st"
  shows "dur_inv cfg st'"
  using assms(1)
proof cases
  case (Update env iv u)
  then show ?thesis using outcome_dur [OF iv_update_outcome assms(2)] by simp
next
  case (Next_seq env seq)
  have base: "dur_inv cfg (st1 :: bt_mesh_net)"
    if "bm_ivu_duration st1 = bm_ivu_duration st" "bm_ivu_timer st1 = bm_ivu_timer st" for st1
    using assms(2) that by (simp add: dur_inv_def)
  have "st' = snd (bt_mesh_next_seq cfg env st)" using Next_seq by simp
  then show ?thesis
    by (auto simp: bt_mesh_next_seq_def Let_def intro!: outcome_dur [OF iv_update_outcome] base)
next
  case (Timer env)
  then show ?thesis using refresh_dur [OF assms(2)] by simp
next
  case (Test_mode e)
  then show ?thesis using assms(2) by (simp add: bt_mesh_iv_update_test_def dur_inv_def)
next
  case (Test_update env)
  then show ?thesis
    using outcome_dur [OF iv_update_outcome assms(2)] assms(2) by (simp add: bt_mesh_iv_update_def Let_def)
next
  case (Proceed env)
  have "dur_inv cfg (st\<lparr>bm_ivu_pending := False\<rparr>)" using assms(2) by (simp add: dur_inv_def)
  from outcome_dur [OF iv_update_outcome this] Proceed assms(2) show ?thesis by (simp add: iv_update_deferred_def)
qed

lemma run_dur: "net_run cfg st ns st' \<Longrightarrow> dur_inv cfg st \<Longrightarrow> dur_inv cfg st'"
  by (induction rule: net_run.induct) (auto dest: step_dur)


section \<open>Sequence numbers across a restart\<close>

definition seq_stores :: "bt_mesh_net \<Rightarrow> nat" where
  "seq_stores st = length (filter (\<lambda>c. c = Schedule BT_MESH_SETTINGS_SEQ_PENDING) (bm_calls st))"

lemma seq_stores_call:
  "seq_stores (net_call c st) = seq_stores st + (if c = Schedule BT_MESH_SETTINGS_SEQ_PENDING then 1 else 0)"
  by (simp add: seq_stores_def net_call_def)

lemma do_update_stores: "seq_stores st + (if cfg_settings cfg then 1 else 0) = seq_stores (iv_do_update cfg env iv u st)"
  unfolding iv_do_update_def Let_def store_iv_def
  by (simp add: seq_stores_call) (simp add: seq_stores_def)

text \<open>An update request that schedules no store of the sequence number does not change it.\<close>

lemma iv_update_stores:
  assumes "cfg_settings cfg"
  shows "seq_stores st \<le> seq_stores (snd (bt_mesh_net_iv_update cfg env iv u st))"
    and "seq_stores (snd (bt_mesh_net_iv_update cfg env iv u st)) = seq_stores st \<Longrightarrow>
      bm_seq (snd (bt_mesh_net_iv_update cfg env iv u st)) = bm_seq st"
proof -
  define st1 where "st1 = st\<lparr>bm_rpl := bt_mesh_rpl_clear (cfg_settings cfg) (bm_rpl st), bm_iv_index := iv, bm_seq := 0\<rparr>"
  have c: "snd (bt_mesh_net_iv_update cfg env iv u st) \<in>
      {st, st\<lparr>bm_ivu_pending := True\<rparr>, iv_do_update cfg env iv u st, iv_do_update cfg env iv u st1}"
    by (simp add: bt_mesh_net_iv_update_def iv_checked_update_def Let_def st1_def)
  have e: "seq_stores (st\<lparr>bm_ivu_pending := True\<rparr>) = seq_stores st" "seq_stores st1 = seq_stores st"
    by (simp_all add: seq_stores_def st1_def)
  have d: "seq_stores (iv_do_update cfg env iv u st) = seq_stores st + 1" "seq_stores (iv_do_update cfg env iv u st1) = seq_stores st + 1"
    using assms do_update_stores [of st cfg env iv u] do_update_stores [of st1 cfg env iv u] e by simp_all
  show "seq_stores st \<le> seq_stores (snd (bt_mesh_net_iv_update cfg env iv u st))" using c d e by auto
  assume "seq_stores (snd (bt_mesh_net_iv_update cfg env iv u st)) = seq_stores st"
  then show "bm_seq (snd (bt_mesh_net_iv_update cfg env iv u st)) = bm_seq st" using c d e by auto
qed

lemma seq_stores_upd [simp]:
  "seq_stores (st\<lparr>bm_seq := q\<rparr>) = seq_stores st" "seq_stores (st\<lparr>bm_ivu_timer := t\<rparr>) = seq_stores st"
  "seq_stores (st\<lparr>bm_ivu_pending := t\<rparr>) = seq_stores st" "seq_stores (st\<lparr>bm_ivu_duration := d\<rparr>) = seq_stores st"
  "seq_stores (st\<lparr>bm_ivu_test := t\<rparr>) = seq_stores st" "seq_stores (st\<lparr>bm_ivu_initiator := t\<rparr>) = seq_stores st"
  "seq_stores (bt_mesh_beacon_ivu_initiator t st) = seq_stores st"
  by (simp_all add: seq_stores_def bt_mesh_beacon_ivu_initiator_def net_call_def)

text \<open>What a step may do to the sequence number without scheduling a store of it.\<close>

definition seq_kept :: "mesh_cfg \<Rightarrow> bt_mesh_net \<Rightarrow> bt_mesh_net \<Rightarrow> bool" where
  "seq_kept cfg st st' \<longleftrightarrow> bm_seq st' = bm_seq st \<or>
     bm_seq st' = bm_seq st + 1 \<and> 1 < cfg_seq_store_rate cfg \<and> unat (bm_seq st + 1) mod cfg_seq_store_rate cfg \<noteq> 0"

definition seq_tracked :: "mesh_cfg \<Rightarrow> bt_mesh_net \<Rightarrow> bt_mesh_net \<Rightarrow> bool" where
  "seq_tracked cfg st st' \<longleftrightarrow> seq_stores st < seq_stores st' \<or> seq_stores st' = seq_stores st \<and> seq_kept cfg st st'"

lemma seq_tracked_eqI: "seq_stores st' = seq_stores st \<Longrightarrow> bm_seq st' = bm_seq st \<Longrightarrow> seq_tracked cfg st st'"
  by (simp add: seq_tracked_def seq_kept_def)

lemma iv_update_tracked:
  assumes "cfg_settings cfg" "seq_tracked cfg st0 st"
  shows "seq_tracked cfg st0 (snd (bt_mesh_net_iv_update cfg env iv u st))"
  using iv_update_stores [OF assms(1), where st = st and env = env and iv = iv and u = u] assms(2)
  by (fastforce simp: seq_tracked_def seq_kept_def)

lemma next_seq_tracked:
  assumes "cfg_settings cfg"
  shows "seq_tracked cfg st (snd (bt_mesh_next_seq cfg env st))"
proof -
  define st1 where "st1 = store_seq cfg (st\<lparr>bm_seq := bm_seq st + 1\<rparr>)"
  have t: "seq_tracked cfg st st1"
    by (auto simp: seq_tracked_def seq_kept_def st1_def store_seq_def seq_stores_call)
  then have "seq_tracked cfg st (bt_mesh_beacon_ivu_initiator True st1)" by (simp add: seq_tracked_def seq_kept_def)
  with t show ?thesis using assms iv_update_tracked [OF assms] by (simp add: bt_mesh_next_seq_def st1_def Let_def)
qed

lemma step_tracked:
  assumes "net_step cfg st l st'" "cfg_settings cfg"
  shows "seq_tracked cfg st st'"
  using assms(1)
proof cases
  case (Timer env)
  then show ?thesis
    using assms(2)
    by (auto simp: ivu_refresh_def store_iv_def seq_stores_call Let_def intro!: iv_update_tracked intro: seq_tracked_eqI)
next
  case (Proceed env)
  then show ?thesis
    using assms(2) by (auto simp: iv_update_deferred_def intro!: iv_update_tracked intro: seq_tracked_eqI)
next
  case (Test_update env)
  then show ?thesis
    using assms(2) by (auto simp: bt_mesh_iv_update_def Let_def intro!: iv_update_tracked intro: seq_tracked_eqI)
qed (use assms(2) next_seq_tracked [OF assms(2), where st = st] in
      \<open>auto simp: bt_mesh_iv_update_test_def intro!: iv_update_tracked intro: seq_tracked_eqI, metis snd_conv\<close>)

lemma seq_restored:
  assumes "unat s < 2 ^ 24" "0 < cfg_seq_store_rate cfg" "cfg_seq_store_rate cfg < 2 ^ 24" "0 < len"
  shows "\<exists>st'. seq_set cfg len (Inr (sys_put_le24 s)) st = (None, st') \<and>
    unat (bm_seq st') = unat s + (cfg_seq_store_rate cfg - unat s mod cfg_seq_store_rate cfg) - 1"
proof -
  let ?r = "cfg_seq_store_rate cfg"
  let ?w = "word_of_nat ?r :: u32"
  have fits: "fits24 s" using assms(1) by (simp add: word_unat_eq_iff unsigned_take_bit_eq take_bit_nat_eq_self)
  have r: "unat ?w = ?r" using assms(3) by (simp add: unat_of_nat)
  have m: "unat (s mod ?w) = unat s mod ?r" using r by (simp add: unat_mod)
  have lt: "unat s mod ?r < ?r" using assms(2) by simp
  have le: "s mod ?w \<le> ?w" using m r lt by (simp add: word_le_nat_alt)
  have d: "unat (?w - s mod ?w) = ?r - unat s mod ?r" using le m r by (simp add: unat_sub)
  have sum: "unat (s + (?w - s mod ?w)) = unat s + (?r - unat s mod ?r)"
    using d assms(1,3) by (simp add: unat_word_ariths)
  then have "s + (?w - s mod ?w) \<noteq> 0" using lt by (metis add_is_0 diff_is_0_eq not_le unat_0)
  then have "unat (s + (?w - s mod ?w) - 1) = unat s + (?r - unat s mod ?r) - 1"
    using sum unat_pred [of "s + (?w - s mod ?w)"] by simp
  then show ?thesis
    using assms(2,4) fits by (simp add: seq_set_def le24.get_put_id Let_def)
qed

text \<open>
  The life of a node's sequence number over power cycles: \<open>v\<close> is the value in persistent
  storage and \<open>p\<close> says that a store of the number was scheduled and has not run yet.  The node
  is provisioned, takes the steps above, runs the scheduled store, and is restarted at any
  moment, with any other state \<open>st1\<close>.  The number stays within its 24 bits.
\<close>

inductive seq_run :: "mesh_cfg \<Rightarrow> bytes option \<Rightarrow> bool \<Rightarrow> bt_mesh_net \<Rightarrow> bool" for cfg where
  Provisioned: "bt_mesh_net_create cfg None idx flags iv st0 = (None, st) \<Longrightarrow> unat (bm_seq st) < 2 ^ 24 \<Longrightarrow>
    seq_run cfg None (seq_stores st0 < seq_stores st) st"
| Moved: "seq_run cfg v p st \<Longrightarrow> net_step cfg st l st' \<Longrightarrow> unat (bm_seq st') < 2 ^ 24 \<Longrightarrow>
    seq_run cfg v (p \<or> seq_stores st < seq_stores st') st'"
| Stored: "seq_run cfg v True st \<Longrightarrow> bm_valid st \<Longrightarrow> bt_mesh_net_pending_seq_store st = st' \<Longrightarrow>
    bm_calls st' = bm_calls st @ [Save_seq w] \<Longrightarrow> seq_run cfg (Some w) False st'"
| Restarted: "seq_run cfg (Some v) p st \<Longrightarrow> 0 < len \<Longrightarrow> seq_set cfg len (Inr v) st1 = (None, st') \<Longrightarrow>
    unat (bm_seq st') < 2 ^ 24 \<Longrightarrow> seq_run cfg (Some v) False st'"

text \<open>
  Numbers of the same block of the store rate are loaded as the last of the block; the number
  in use is in the block of the stored one unless a store is scheduled.
\<close>

definition seq_block :: "mesh_cfg \<Rightarrow> u32 \<Rightarrow> nat" where
  "seq_block cfg s = (if cfg_seq_store_rate cfg = 0 then unat s else unat s div cfg_seq_store_rate cfg)"

definition seq_covered :: "mesh_cfg \<Rightarrow> bytes option \<Rightarrow> bool \<Rightarrow> bt_mesh_net \<Rightarrow> bool" where
  "seq_covered cfg v p st \<longleftrightarrow> unat (bm_seq st) < 2 ^ 24 \<and>
     (v \<noteq> None \<longrightarrow> (\<exists>s. v = Some (sys_put_le24 s) \<and> unat s < 2 ^ 24)) \<and>
     (\<not> p \<longrightarrow> (\<exists>s. v = Some (sys_put_le24 s) \<and> unat s < 2 ^ 24 \<and> seq_block cfg s = seq_block cfg (bm_seq st)))"

lemma seq_loaded:
  assumes "unat s < 2 ^ 24" "cfg_seq_store_rate cfg < 2 ^ 24" "0 < len"
  shows "\<exists>st'. seq_set cfg len (Inr (sys_put_le24 s)) st = (None, st') \<and> seq_block cfg (bm_seq st') = seq_block cfg s \<and>
    (\<forall>q. seq_block cfg q = seq_block cfg s \<longrightarrow> q \<le> bm_seq st')"
proof (cases "cfg_seq_store_rate cfg = 0")
  case True
  have fits: "fits24 s" using assms(1) by (simp add: word_unat_eq_iff unsigned_take_bit_eq take_bit_nat_eq_self)
  then show ?thesis using True assms(3)
    by (simp add: seq_set_def le24.get_put_id Let_def seq_block_def word_le_nat_alt)
next
  case False
  let ?r = "cfg_seq_store_rate cfg"
  obtain st' where st': "seq_set cfg len (Inr (sys_put_le24 s)) st = (None, st')"
      "unat (bm_seq st') = unat s + (?r - unat s mod ?r) - 1"
    using seq_restored [OF assms(1) _ assms(2,3), of st] False by auto
  have e: "unat (bm_seq st') = unat s div ?r * ?r + (?r - 1)"
    using st'(2) False mod_less_divisor [of ?r "unat s"] div_mult_mod_eq [of "unat s" ?r] by linarith
  have "unat (bm_seq st') div ?r = unat s div ?r"
    by (rule div_nat_eqI) (use e False in \<open>simp_all add: mult.commute\<close>)
  moreover have "unat q \<le> unat (bm_seq st')" if "unat q div ?r = unat s div ?r" for q :: u32
    using e False div_mult_mod_eq [of "unat q" ?r] mod_less_divisor [of ?r "unat q"] unfolding that by linarith
  ultimately show ?thesis using st'(1) False by (auto simp: seq_block_def word_le_nat_alt)
qed

lemma seq_kept_block:
  assumes "seq_kept cfg st st'" "unat (bm_seq st) < 2 ^ 24"
  shows "seq_block cfg (bm_seq st') = seq_block cfg (bm_seq st)"
proof -
  have "unat (bm_seq st + 1) = unat (bm_seq st) + 1" using assms(2) by (simp add: unat_word_ariths)
  with assms(1) show ?thesis by (auto simp: seq_kept_def seq_block_def div_Suc)
qed

lemma seq_run_covered:
  assumes "seq_run cfg v p st" "cfg_settings cfg" "cfg_seq_store_rate cfg < 2 ^ 24"
  shows "seq_covered cfg v p st"
  using assms(1)
proof induction
  case (Provisioned idx flags iv st0 st)
  then have "seq_stores st0 < seq_stores st"
    using assms(2) by (auto simp: bt_mesh_net_create_def store_iv_def Let_def seq_stores_call) (simp_all add: seq_stores_def)
  with Provisioned show ?case by (simp add: seq_covered_def)
next
  case (Moved v p st l st')
  have "seq_tracked cfg st st'" by (rule step_tracked [OF Moved(2) assms(2)])
  then show ?case
    using Moved(3,4) seq_kept_block [of cfg st st'] by (auto simp: seq_covered_def seq_tracked_def)
next
  case (Stored v st st' w)
  then have "w = sys_put_le24 (bm_seq st)" "bm_seq st' = bm_seq st"
    by (auto simp: bt_mesh_net_pending_seq_store_def net_call_def)
  with Stored(5) show ?case by (auto simp: seq_covered_def)
next
  case (Restarted v p st len st1 st')
  then obtain s where s: "v = sys_put_le24 s" "unat s < 2 ^ 24" by (auto simp: seq_covered_def)
  obtain st2 where "seq_set cfg len (Inr v) st1 = (None, st2)" "seq_block cfg (bm_seq st2) = seq_block cfg s"
    using seq_loaded [OF s(2) assms(3) Restarted(2), of st1] s(1) by blast
  with Restarted(3,4) s show ?case by (auto simp: seq_covered_def)
qed

section \<open>A node whose timer was never started\<close>

definition ivu_stuck :: "bt_mesh_net \<Rightarrow> bool" where
  "ivu_stuck st \<longleftrightarrow> \<not> bm_ivu_timer st \<and> \<not> bm_ivu_in_progress st \<and> bm_ivu_duration st = 0"

lemma stuck_update:
  assumes "ivu_stuck st" "\<not> cfg_ivu_test cfg"
  shows "bt_mesh_net_iv_update cfg env iv u st = (False, st) \<or>
    unat (bm_iv_index st) + 1 < unat (bm_iv_index (snd (bt_mesh_net_iv_update cfg env iv u st)))"
proof -
  have "iv_outcome st iv u (bt_mesh_net_iv_update cfg env iv u st)" by (rule iv_update_outcome)
  then show ?thesis
  proof cases
    case (Entered cfg' env')
    have "\<not> bm_iv_index st + 1 < iv" using Entered by simp
    with assms have "fst (bt_mesh_net_iv_update cfg env iv u st) = False"
      by (auto simp: ivu_stuck_def bt_mesh_net_iv_update_def iv_checked_update_def BT_MESH_IVU_MIN_HOURS_def)
    with Entered show ?thesis by simp
  qed (use assms(1) in \<open>auto simp: ivu_stuck_def\<close>)
qed

lemma stuck_step:
  assumes "net_step cfg st l st'" "ivu_stuck st" "\<not> cfg_ivu_test cfg"
  shows "ivu_stuck st' \<and> bm_iv_index st' = bm_iv_index st \<or> unat (bm_iv_index st) + 1 < unat (bm_iv_index st')"
  using assms(1)
proof cases
  case (Update env iv u)
  then show ?thesis using stuck_update [OF assms(2,3), of env iv u] assms(2) by auto
next
  case (Next_seq env seq)
  define st1 where "st1 = (if cfg_settings cfg then store_seq cfg else id) (st\<lparr>bm_seq := bm_seq st + 1\<rparr>)"
  define st2 where "st2 = bt_mesh_beacon_ivu_initiator True st1"
  have s: "ivu_stuck st1" "ivu_stuck st2" "bm_iv_index st1 = bm_iv_index st" "bm_iv_index st2 = bm_iv_index st"
    using assms(2) by (auto simp: st1_def st2_def ivu_stuck_def)
  have "st' = st1 \<or> st' = snd (bt_mesh_net_iv_update cfg env (bm_iv_index st + 1) True st2)"
    using Next_seq by (auto simp: bt_mesh_next_seq_def st1_def st2_def Let_def split: if_splits)
  then show ?thesis
    using stuck_update [OF s(2) assms(3), of env "bm_iv_index st + 1" True] s by auto
next
  case (Timer env)
  then show ?thesis using assms(2) by (simp add: ivu_stuck_def)
next
  case (Proceed env)
  have s: "ivu_stuck (st\<lparr>bm_ivu_pending := False\<rparr>)" using assms(2) by (simp add: ivu_stuck_def)
  show ?thesis
    using Proceed stuck_update [OF s assms(3), of env "bm_iv_index st" False] assms(2) s
    by (auto simp: iv_update_deferred_def)
qed (use assms(3) in simp_all)

lemma stuck_run:
  "net_run cfg st ns st' \<Longrightarrow> ivu_stuck st \<Longrightarrow> \<not> cfg_ivu_test cfg \<Longrightarrow>
    ivu_stuck st' \<and> bm_iv_index st' = bm_iv_index st \<or>
    (\<exists>st1 ns1 ns2 l st2. net_run cfg st ns1 st1 \<and> bm_iv_index st1 = bm_iv_index st \<and> net_step cfg st1 l st2 \<and>
      unat (bm_iv_index st) + 1 < unat (bm_iv_index st2) \<and> net_run cfg st2 ns2 st')"
proof (induction rule: net_run.induct)
  case (Step st l st1 ns st2)
  from stuck_step [OF Step.hyps(1) Step.prems] show ?case
  proof
    assume s: "ivu_stuck st1 \<and> bm_iv_index st1 = bm_iv_index st"
    with Step.IH Step.prems(2) consider "ivu_stuck st2 \<and> bm_iv_index st2 = bm_iv_index st1"
      | stx ns1 ns2 l' sty where "net_run cfg st1 ns1 stx" "bm_iv_index stx = bm_iv_index st1" "net_step cfg stx l' sty"
        "unat (bm_iv_index st1) + 1 < unat (bm_iv_index sty)" "net_run cfg sty ns2 st2" by blast
    then show ?case
    proof cases
      case 2
      from net_run.Step [OF Step.hyps(1) 2(1)] 2 s show ?thesis by metis
    qed (use s in simp)
  next
    assume "unat (bm_iv_index st) + 1 < unat (bm_iv_index st1)"
    with net_run.Done [of cfg st] Step.hyps show ?case by blast
  qed
qed simp


section \<open>Properties\<close>

text \<open>
  C1: along every run of update requests, sequence number allocations, timer events, test
  commands and deferred updates, the pairs of IV index and sequence number used for
  transmission strictly increase, as long as the numbers stay within 24 bits: no nonce is
  used twice.
\<close>

theorem net_nonces_increase:
  assumes "net_run cfg st ns st'" "iv_inv st" "\<forall>n \<in> set ns. unat (snd n) < 2 ^ 24"
  shows "sorted_wrt nonce_less ns \<and> distinct ns"
proof -
  have s: "sorted_wrt nonce_less ns" using run_nonces [OF assms] by simp
  then have "distinct ns" using nonce_order(3) by (induction ns) auto
  with s show ?thesis by simp
qed

definition cfg_example :: mesh_cfg where
  "cfg_example = \<lparr>cfg_settings = True, cfg_rpl_timeout = True, cfg_ivu_test = False, cfg_friend = True,
     cfg_gatt_proxy = True, cfg_cdb = False, cfg_ivu_divider = 4, cfg_seq_limit = 0x800000, cfg_seq_store_rate = 128\<rparr>"

definition env_example :: iv_env where
  "env_example = \<lparr>env_tx_in_progress = False, env_gatt_proxy_enabled = True, env_primary_subnet = True\<rparr>"

definition node_example :: bt_mesh_net where
  "node_example = \<lparr>bm_iv_index = 5, bm_seq = 9, bm_valid = True, bm_ivu_in_progress = False, bm_ivu_initiator = False,
     bm_ivu_test = False, bm_ivu_pending = False, bm_ivu_duration = 0, bm_ivu_timer = False, bm_dev_key = replicate 16 0,
     bm_rpl = rpl_example, bm_calls = []\<rparr>"

lemma run_example:
  "net_run cfg_example node_example [(5, 9)] (snd (bt_mesh_next_seq cfg_example env_example node_example))"
proof -
  let ?st = "snd (bt_mesh_next_seq cfg_example env_example node_example)"
  have n: "bt_mesh_next_seq cfg_example env_example node_example = (9, ?st)" "BT_MESH_NET_IVI_TX ?st = 5"
    by (simp_all add: bt_mesh_next_seq_def cfg_example_def node_example_def BT_MESH_NET_IVI_TX_def Let_def)
  have "net_step cfg_example node_example (Some (5, 9)) ?st" using net_step.Next_seq [OF n(1)] n(2) by simp
  from net_run.Step [OF this net_run.Done] show ?thesis by simp
qed

theorem net_nonces_increase_witness:
  "iv_inv node_example \<and> (\<exists>st'. net_run cfg_example node_example [(5, 9)] st') \<and>
   sorted_wrt nonce_less [(5, 9)] \<and> distinct [(5 :: u32, 9 :: u32)]"
proof -
  have i: "iv_inv node_example" by (simp add: iv_inv_def node_example_def)
  have "sorted_wrt nonce_less [(5, 9)] \<and> distinct [(5 :: u32, 9 :: u32)]"
    by (rule net_nonces_increase [OF run_example i]) simp
  with i run_example show ?thesis by blast
qed

text \<open>
  C9: an update request succeeds exactly in three cases: leaving the update state with the
  current index after the minimum time and with no transmission pending, entering it with
  the next index after the minimum time, and recovering to an index at least two and at
  most 42 ahead; the index and the sequence number change accordingly.
\<close>

theorem iv_update_accepts_iff:
  defines "late \<equiv> \<lambda>cfg st. cfg_ivu_test cfg \<and> bm_ivu_test st \<or> 96 \<le> unat (bm_ivu_duration st)"
  shows "(fst (bt_mesh_net_iv_update cfg env iv u st) \<longleftrightarrow>
      (if bm_ivu_in_progress st then iv = bm_iv_index st \<and> \<not> u \<and> late cfg st \<and> \<not> env_tx_in_progress env
       else unat (bm_iv_index st) + 1 < unat iv \<and> iv \<le> bm_iv_index st + 42 \<or>
         iv = bm_iv_index st + 1 \<and> unat (bm_iv_index st) < unat iv \<and> iv \<le> bm_iv_index st + 42 \<and> u \<and> late cfg st)) \<and>
    (fst (bt_mesh_net_iv_update cfg env iv u st) \<longrightarrow>
      (let st' = snd (bt_mesh_net_iv_update cfg env iv u st) in
       bm_iv_index st' = iv \<and> bm_ivu_in_progress st' = u \<and> bm_ivu_duration st' = 0 \<and>
       bm_seq st' = (if \<not> bm_ivu_in_progress st \<and> iv = bm_iv_index st + 1 then bm_seq st else 0)))"
proof (cases "bm_ivu_in_progress st")
  case True
  then show ?thesis
    by (auto simp: bt_mesh_net_iv_update_def iv_checked_update_def late_def BT_MESH_IVU_MIN_HOURS_def Let_def)
next
  case False
  consider (same) "iv = bm_iv_index st" | (backward) "iv \<noteq> bm_iv_index st" "iv < bm_iv_index st"
    | (too_far) "iv \<noteq> bm_iv_index st" "\<not> iv < bm_iv_index st" "bm_iv_index st + 42 < iv"
    | (fwd) "iv \<noteq> bm_iv_index st" "\<not> iv < bm_iv_index st" "\<not> bm_iv_index st + 42 < iv" by blast
  then show ?thesis
  proof cases
    case backward
    then have "unat iv < unat (bm_iv_index st)" by (simp add: word_less_nat_alt)
    with backward False show ?thesis by (auto simp: bt_mesh_net_iv_update_def)
  next
    case fwd
    note w = word_succ_less [OF fwd(2,1)]
    have lt: "unat (bm_iv_index st) < unat iv" using fwd by (simp add: word_less_nat_alt word_unat_eq_iff)
    have s: "iv = bm_iv_index st + 1 \<longleftrightarrow> \<not> unat (bm_iv_index st) + 1 < unat iv"
      using w(3) lt by (auto simp: word_unat_eq_iff)
    show ?thesis
      using False fwd s w(2) lt
      by (auto simp: bt_mesh_net_iv_update_def iv_checked_update_def late_def BT_MESH_IVU_MIN_HOURS_def Let_def not_less)
  qed (use False in \<open>auto simp: bt_mesh_net_iv_update_def\<close>)
qed

theorem iv_update_accepts_iff_witness:
  "fst (bt_mesh_net_iv_update cfg_example env_example 7 False node_example) \<and>
   (let st' = snd (bt_mesh_net_iv_update cfg_example env_example 7 False node_example) in
    bm_iv_index st' = 7 \<and> \<not> bm_ivu_in_progress st' \<and> bm_seq st' = 0)"
  using iv_update_accepts_iff [of cfg_example env_example 7 False node_example]
  by (simp add: node_example_def Let_def)

text \<open>
  The IV index, the update flag and the time spent in the period, stored in any reachable
  state and loaded again, are what they were: the time always fits the seven bits stored.
\<close>

theorem iv_store_load:
  assumes "net_run cfg st ns st'" "dur_inv cfg st" "bm_valid st'" "0 < len"
  shows "\<exists>v st3. bm_calls (bt_mesh_net_pending_iv_store st') = bm_calls st' @ [Save_iv v] \<and>
    iv_set len (Inr v) st2 = (None, st3) \<and> bm_iv_index st3 = bm_iv_index st' \<and>
    bm_ivu_in_progress st3 = bm_ivu_in_progress st' \<and> bm_ivu_duration st3 = bm_ivu_duration st'"
proof -
  have "unat (bm_ivu_duration st') < 2 ^ 7" using run_dur [OF assms(1,2)] by (simp add: dur_inv_def)
  then have "(ucast (ucast (bm_ivu_duration st') :: 7 word) :: u8) = bm_ivu_duration st'"
    by (simp add: word_unat_eq_iff unsigned_ucast_eq unsigned_take_bit_eq take_bit_nat_eq_self)
  with assms(3,4) show ?thesis
    by (auto simp: bt_mesh_net_pending_iv_store_def store_pending_iv_def iv_set_def net_call_def)
qed

theorem iv_store_load_witness:
  "\<exists>v st3. bm_calls (bt_mesh_net_pending_iv_store node_example) = bm_calls node_example @ [Save_iv v] \<and>
    iv_set 5 (Inr v) (node_example\<lparr>bm_iv_index := 0\<rparr>) = (None, st3) \<and> bm_iv_index st3 = bm_iv_index node_example \<and>
    bm_ivu_in_progress st3 = bm_ivu_in_progress node_example \<and> bm_ivu_duration st3 = bm_ivu_duration node_example"
  by (rule iv_store_load [OF net_run.Done [of cfg_example]]) (simp_all add: dur_inv_def node_example_def)

text \<open>A node provisioned with sequence number 255 whose number was stored.\<close>

definition seq_stored_example :: bt_mesh_net where
  "seq_stored_example = bt_mesh_net_pending_seq_store (snd (bt_mesh_net_create cfg_example None 0 0 5 (node_example\<lparr>bm_seq := 255\<rparr>)))"

lemma seq_run_example: "seq_run cfg_example (Some [255, 0, 0]) False seq_stored_example"
proof -
  let ?st0 = "node_example\<lparr>bm_seq := 255\<rparr>"
  let ?st1 = "snd (bt_mesh_net_create cfg_example None 0 0 5 ?st0)"
  have c: "bt_mesh_net_create cfg_example None 0 0 5 ?st0 = (None, ?st1)" "bm_seq ?st1 = 255" "bm_valid ?st1"
    and p: "seq_stores ?st0 < seq_stores ?st1"
    by (simp_all add: bt_mesh_net_create_def node_example_def cfg_example_def store_iv_def net_call_def
        Let_def seq_stores_def)
  have r: "seq_run cfg_example None True ?st1" using seq_run.Provisioned [OF c(1)] c(2) p by simp
  have "bm_calls seq_stored_example = bm_calls ?st1 @ [Save_seq [255, 0, 0]]"
    unfolding seq_stored_example_def using c(2,3)
    by (simp add: bt_mesh_net_pending_seq_store_def net_call_def sys_put_le24_def sys_put_le16_def)
  from seq_run.Stored [OF r c(3) _ this] show ?thesis by (simp add: seq_stored_example_def)
qed

text \<open>
  C40: over every history of provisioning, node steps, executed stores and restarts in which the
  sequence number stays within its 24 bits, and for every store rate below $2^{24}$, zero
  included: whenever no store of the number is waiting to run, a value is in storage, and loading
  it yields a number that is not below the next one to use, so no number used since the last
  start is used again.  Between the moment a store is scheduled and the moment it runs there is
  no such guarantee, as \<open>seq_reused_before_store\<close> shows.
\<close>

theorem seq_store_load_fresh:
  assumes "seq_run cfg v False st" "cfg_settings cfg" "cfg_seq_store_rate cfg < 2 ^ 24" "0 < len"
  shows "\<exists>w st3. v = Some w \<and> seq_set cfg len (Inr w) st2 = (None, st3) \<and> bm_seq st \<le> bm_seq st3"
proof -
  obtain s where s: "v = Some (sys_put_le24 s)" "unat s < 2 ^ 24" "seq_block cfg s = seq_block cfg (bm_seq st)"
    using seq_run_covered [OF assms(1-3)] by (auto simp: seq_covered_def)
  then show ?thesis using seq_loaded [OF s(2) assms(3,4), of st2] by metis
qed

theorem seq_store_load_fresh_witness:
  "seq_run cfg_example (Some [255, 0, 0]) False seq_stored_example \<and>
   (\<exists>w st3. Some [255, 0, 0] = Some w \<and> seq_set cfg_example 3 (Inr w) node_example = (None, st3) \<and>
     bm_seq seq_stored_example \<le> bm_seq st3)"
  using seq_run_example seq_store_load_fresh [OF seq_run_example, of 3 node_example] by (simp add: cfg_example_def)

text \<open>
  The store itself is delayed.  A node that is restarted after the number was used and before
  the scheduled store ran uses the number again: here 255, with the default rate of 128.
\<close>

lemma seq_reused_before_store:
  defines "st1 \<equiv> snd (bt_mesh_next_seq cfg_example env_example seq_stored_example)"
  defines "st2 \<equiv> snd (seq_set cfg_example 3 (Inr [255, 0, 0]) node_example)"
  shows "fst (bt_mesh_next_seq cfg_example env_example seq_stored_example) = 255 \<and>
    seq_run cfg_example (Some [255, 0, 0]) True st1 \<and> seq_run cfg_example (Some [255, 0, 0]) False st2 \<and>
    fst (bt_mesh_next_seq cfg_example env_example st2) = 255"
proof -
  note defs = seq_stored_example_def bt_mesh_net_create_def node_example_def cfg_example_def store_iv_def net_call_def
    bt_mesh_net_pending_seq_store_def bt_mesh_next_seq_def store_seq_def Let_def seq_stores_def BT_MESH_IV_UPDATE_def
  have n: "bt_mesh_next_seq cfg_example env_example seq_stored_example = (255, st1)" "bm_seq st1 = 256"
      "seq_stores seq_stored_example < seq_stores st1"
    by (simp_all add: st1_def defs)
  have r1: "seq_run cfg_example (Some [255, 0, 0]) True st1"
    using seq_run.Moved [OF seq_run_example net_step.Next_seq [OF n(1)]] n(2,3) by simp
  have l: "seq_set cfg_example 3 (Inr [255, 0, 0]) node_example = (None, st2)" "bm_seq st2 = 255"
    by (simp_all add: st2_def seq_set_def sys_get_le24_def sys_get_le16_def cfg_example_def Let_def)
  from seq_run.Restarted [OF r1 _ l(1)] l(2) have "seq_run cfg_example (Some [255, 0, 0]) False st2" by simp
  with n(1) r1 l(2) show ?thesis by (simp add: bt_mesh_next_seq_def Let_def)
qed
text \<open>
  Provisioning does not start the duration timer.  A freshly provisioned node in normal
  operation, without the test mode, therefore never enters the IV Update state by itself
  or on request: until a recovery moves the index by at least two, the index stays.
\<close>

theorem provisioned_node_ignores_iv_update:
  assumes "\<not> bm_ivu_timer st0" "bm_ivu_duration st0 = 0" "\<not> BT_MESH_IV_UPDATE flags" "\<not> cfg_ivu_test cfg"
    and "bt_mesh_net_create cfg None idx flags iv st0 = (None, st)" "net_run cfg st ns st'"
  shows "bm_iv_index st = iv \<and>
    (bm_iv_index st' = iv \<and> \<not> bm_ivu_in_progress st' \<and> \<not> bm_ivu_timer st' \<or>
     (\<exists>st1 ns1 ns2 l st2. net_run cfg st ns1 st1 \<and> bm_iv_index st1 = iv \<and> net_step cfg st1 l st2 \<and>
       unat iv + 1 < unat (bm_iv_index st2) \<and> net_run cfg st2 ns2 st'))"
proof -
  have s: "ivu_stuck st" "bm_iv_index st = iv"
    using assms(1,2,3,5) by (auto simp: bt_mesh_net_create_def ivu_stuck_def Let_def split: if_splits)
  with stuck_run [OF assms(6) s(1) assms(4)] show ?thesis by (auto simp: ivu_stuck_def)
qed

theorem provisioned_node_ignores_iv_update_witness:
  "\<exists>st st'. bt_mesh_net_create cfg_example None 0 0 7 node_example = (None, st) \<and> bm_iv_index st = 7 \<and>
    (bm_iv_index st' = 7 \<and> \<not> bm_ivu_in_progress st' \<and> \<not> bm_ivu_timer st' \<or>
     (\<exists>st1 ns1 ns2 l st2. net_run cfg_example st ns1 st1 \<and> bm_iv_index st1 = 7 \<and> net_step cfg_example st1 l st2 \<and>
       unat (7 :: u32) + 1 < unat (bm_iv_index st2) \<and> net_run cfg_example st2 ns2 st'))"
proof -
  obtain st where c: "bt_mesh_net_create cfg_example None 0 0 7 node_example = (None, st)"
    by (simp add: bt_mesh_net_create_def Let_def)
  have "bm_iv_index st = 7 \<and>
    (bm_iv_index st = 7 \<and> \<not> bm_ivu_in_progress st \<and> \<not> bm_ivu_timer st \<or>
     (\<exists>st1 ns1 ns2 l st2. net_run cfg_example st ns1 st1 \<and> bm_iv_index st1 = 7 \<and> net_step cfg_example st1 l st2 \<and>
       unat (7 :: u32) + 1 < unat (bm_iv_index st2) \<and> net_run cfg_example st2 ns2 st))"
    by (rule provisioned_node_ignores_iv_update [OF _ _ _ _ c net_run.Done])
      (simp_all add: node_example_def cfg_example_def BT_MESH_IV_UPDATE_def)
  with c show ?thesis by blast
qed

end
