(* ===== verification/Mesh_Key_Store.thy ===== *)
theory Mesh_Key_Store
  imports Mesh_Types
begin

text \<open>
  What the tables of network and application keys (\<open>core/src/mesh/subnet.c\<close> and
  \<open>core/src/mesh/app_keys.c\<close>) share: the search for a slot, and the array of pending storage
  actions (\<open>net_key_updates\<close>, \<open>app_key_updates\<close>), which is separate from the tables because
  a deleted key still has to be removed from storage.

  The locale \<open>tracked_store\<close> is the contract between a key table and its storage: what the
  two modules' \<open>update_..._settings\<close> and \<open>..._pending_store\<close> promise.  Proved once from it:
  after any sequence of tracked changes, running the pending actions leaves in storage
  exactly what the table holds.
\<close>

section \<open>Slots\<close>

text \<open>
  \<open>subnet_alloc\<close> and \<open>app_key_alloc\<close>: the first slot with the index, otherwise the first unused
  one; \<open>idx_of\<close> reads a slot's index.
\<close>

fun alloc_loop :: "('a \<Rightarrow> u16) \<Rightarrow> u16 \<Rightarrow> nat \<Rightarrow> nat option \<Rightarrow> 'a list \<Rightarrow> nat option" where
  "alloc_loop idx_of k i found [] = found"
| "alloc_loop idx_of k i found (x # xs) =
     (if idx_of x = k then Some i
      else alloc_loop idx_of k (Suc i)
        (if found = None \<and> idx_of x = BT_MESH_KEY_UNUSED then Some i else found) xs)"

text \<open>The loop of \<open>bt_mesh_subnets_get\<close> and \<open>bt_mesh_app_keys_get\<close> over the listed indices.\<close>

fun get_loop :: "nat \<Rightarrow> nat \<Rightarrow> u16 list \<Rightarrow> u16 list \<Rightarrow> errno + u16 list" where
  "get_loop max_n skip acc [] = Inr acc"
| "get_loop max_n skip acc (k # ks) =
     (if skip \<noteq> 0 then get_loop max_n (skip - 1) acc ks
      else if max_n \<le> length acc then Inl ENOMEM
      else get_loop max_n 0 (acc @ [k]) ks)"

lemma plus_0_ident: "(+) (0 :: nat) = (\<lambda>x. x)"
  by (simp add: fun_eq_iff)

lemma alloc_loop_spec:
  "alloc_loop f k i found xs =
     (case find_index (\<lambda>x. f x = k) xs of
        Some j \<Rightarrow> Some (i + j)
      | None \<Rightarrow> (case found of Some j \<Rightarrow> Some j
                 | None \<Rightarrow> map_option ((+) i) (find_index (\<lambda>x. f x = BT_MESH_KEY_UNUSED) xs)))"
proof (induction xs arbitrary: i found)
  case Nil
  then show ?case by (cases found) simp_all
next
  case (Cons x xs)
  show ?case
    by (cases "f x = k"; cases found; cases "f x = BT_MESH_KEY_UNUSED")
      (simp_all add: Cons.IH option.map_comp comp_def del: add_Suc split: option.split,
        simp_all cong: option.map_cong)
qed

lemma alloc_loop_0:
  "alloc_loop f k 0 None xs =
     (case find_index (\<lambda>x. f x = k) xs of Some j \<Rightarrow> Some j | None \<Rightarrow> find_index (\<lambda>x. f x = BT_MESH_KEY_UNUSED) xs)"
  by (simp add: alloc_loop_spec option.map_id [unfolded id_def] plus_0_ident split: option.split)

lemma get_loop_spec:
  "get_loop m s acc ks =
     (if length acc + (length ks - s) \<le> m \<or> length ks \<le> s then Inr (acc @ drop s ks) else Inl ENOMEM)"
  by (induction ks arbitrary: s acc) (auto simp: drop_Cons' Suc_diff_le split: nat_diff_split)

section \<open>Pending storage actions\<close>

record key_update =
  ku_key_idx :: "12 word"
  ku_valid :: bool
  ku_clear :: bool

abbreviation ku_idx :: "key_update \<Rightarrow> u16" where
  "ku_idx u \<equiv> ucast (ku_key_idx u)"

text \<open>The last valid entry with the index, and the last invalid entry.\<close>

fun key_update_find :: "u16 \<Rightarrow> nat \<Rightarrow> nat option \<Rightarrow> nat option \<Rightarrow> key_update list \<Rightarrow> nat option \<times> nat option" where
  "key_update_find k i match free_slot [] = (match, free_slot)"
| "key_update_find k i match free_slot (u # us) =
     (if \<not> ku_valid u then key_update_find k (Suc i) match (Some i) us
      else key_update_find k (Suc i) (if ku_idx u = k then Some i else match) free_slot us)"

text \<open>
  Recording an action: \<open>None\<close> when there is neither an entry for the index nor a free one, and
  the caller has to act at once.
\<close>

definition track_update :: "u16 \<Rightarrow> bool \<Rightarrow> key_update list \<Rightarrow> key_update list option" where
  "track_update k store us =
     (case key_update_find k 0 None None us of
        (Some i, _) \<Rightarrow> Some (us[i := (us ! i)\<lparr>ku_clear := \<not> store\<rparr>])
      | (None, Some i) \<Rightarrow> Some (us[i := \<lparr>ku_key_idx = ucast k, ku_valid = True, ku_clear = \<not> store\<rparr>])
      | (None, None) \<Rightarrow> None)"

text \<open>
  The relation between a table and its storage: every pending entry says what is to be done
  for its index, and an index without an entry is stored as it is in the table.
\<close>

definition pending_for :: "key_update list \<Rightarrow> u16 \<Rightarrow> bool" where
  "pending_for us k \<longleftrightarrow> (\<exists>u \<in> set us. ku_valid u \<and> ku_idx u = k)"

definition durable :: "key_update list \<Rightarrow> (u16 \<Rightarrow> 'v option) \<Rightarrow> (u16 \<Rightarrow> 'v option) \<Rightarrow> bool" where
  "durable us tab mem \<longleftrightarrow>
     (\<forall>i < length us. \<forall>j < length us. i \<noteq> j \<longrightarrow> ku_valid (us ! i) \<longrightarrow> ku_valid (us ! j) \<longrightarrow>
        ku_key_idx (us ! i) \<noteq> ku_key_idx (us ! j)) \<and>
     (\<forall>u \<in> set us. ku_valid u \<longrightarrow> (ku_clear u \<longleftrightarrow> tab (ku_idx u) = None)) \<and>
     (\<forall>k. k < 0x1000 \<longrightarrow> \<not> pending_for us k \<longrightarrow> mem k = tab k)"

lemma key_update_find_snoc:
  "key_update_find k i m f (us @ [u]) =
     (case key_update_find k i m f us of (m', f') \<Rightarrow>
        if \<not> ku_valid u then (m', Some (i + length us))
        else (if ku_idx u = k then Some (i + length us) else m', f'))"
  by (induction us arbitrary: i m f) (simp_all split: prod.split)

lemma key_update_find_match:
  "case fst (key_update_find k 0 None None us) of
     None \<Rightarrow> \<not> pending_for us k
   | Some j \<Rightarrow> j < length us \<and> ku_valid (us ! j) \<and> ku_idx (us ! j) = k"
  by (induction us rule: rev_induct)
    (auto simp: key_update_find_snoc pending_for_def nth_append split: option.splits prod.splits)

lemma key_update_find_free:
  "case snd (key_update_find k 0 None None us) of
     None \<Rightarrow> \<forall>u \<in> set us. ku_valid u
   | Some j \<Rightarrow> j < length us \<and> \<not> ku_valid (us ! j)"
  by (induction us rule: rev_induct)
    (auto simp: key_update_find_snoc nth_append split: option.splits prod.splits)

lemma ku_idx_inject: "ku_idx u = ku_idx v \<longleftrightarrow> ku_key_idx u = ku_key_idx v"
  by (simp add: word_unat_eq_iff unsigned_ucast_eq take_bit_nat_eq_self unsigned_less [THEN order_less_le_trans])

lemma ucast_ucast_12: "k < 0x1000 \<Longrightarrow> ucast (ucast k :: 12 word) = (k :: u16)"
  by (simp add: word_unat_eq_iff word_less_nat_alt unsigned_ucast_eq take_bit_nat_eq_self unsigned_take_bit_eq)

lemma pending_for_nth: "pending_for us k \<longleftrightarrow> (\<exists>i < length us. ku_valid (us ! i) \<and> ku_idx (us ! i) = k)"
  unfolding pending_for_def by (metis in_set_conv_nth)

lemma all_set_nth: "(\<forall>u \<in> set us. P u) \<longleftrightarrow> (\<forall>i < length us. P (us ! i))"
  by (rule all_set_conv_all_nth)

lemma track_update_cases:
  assumes "track_update k b us = Some us'"
  obtains i where "i < length us" "ku_valid (us ! i)" "ku_idx (us ! i) = k" "us' = us[i := (us ! i)\<lparr>ku_clear := \<not> b\<rparr>]"
  | i where "i < length us" "\<not> ku_valid (us ! i)" "\<not> pending_for us k"
      "us' = us[i := \<lparr>ku_key_idx = ucast k, ku_valid = True, ku_clear = \<not> b\<rparr>]"
  using assms key_update_find_match [of us k] key_update_find_free [of us k]
  by (cases "key_update_find k 0 None None us") (auto simp: track_update_def split: option.splits)

lemma track_update_None: "track_update k b us = None \<Longrightarrow> \<not> pending_for us k"
  using key_update_find_match [of us k]
  by (cases "key_update_find k 0 None None us") (auto simp: track_update_def split: option.splits)

lemma durable_direct:
  assumes "durable us t m" "track_update k b us = None"
  shows "durable us (t(k := v)) (m(k := v))"
  using assms(1) track_update_None [OF assms(2)] by (auto simp: durable_def pending_for_def)

lemma durable_track:
  assumes d: "durable us t m" and k: "k < 0x1000" and tr: "track_update k b us = Some us'" and b: "b \<longleftrightarrow> v \<noteq> None"
  shows "durable us' (t(k := v)) m"
  using tr
proof (cases rule: track_update_cases)
  case (1 i)
  have key: "ku_key_idx (us' ! j) = ku_key_idx (us ! j)" "ku_valid (us' ! j) = ku_valid (us ! j)" if "j < length us" for j
    using 1 that by (auto simp: nth_list_update)
  have other: "ku_idx (us ! j) \<noteq> k" if "j < length us" "j \<noteq> i" "ku_valid (us ! j)" for j
    using d 1 that unfolding durable_def by (metis ku_idx_inject)
  have clr: "ku_valid (us' ! j) \<longrightarrow> (ku_clear (us' ! j) \<longleftrightarrow> (t(k := v)) (ku_idx (us' ! j)) = None)" if "j < length us" for j
    using d 1 that b other [OF that] unfolding durable_def all_set_nth by (cases "j = i") auto
  have pend: "pending_for us' j \<longleftrightarrow> pending_for us j" for j
    using key 1(4) unfolding pending_for_nth by auto
  have "pending_for us k" using 1 by (auto simp: pending_for_nth)
  then show ?thesis using d key clr pend 1(4) unfolding durable_def all_set_nth by auto
next
  case (2 i)
  have key: "j \<noteq> i \<Longrightarrow> us' ! j = us ! j" "us' ! i = \<lparr>ku_key_idx = ucast k, ku_valid = True, ku_clear = \<not> b\<rparr>" for j
    using 2 by simp_all
  have other: "ku_idx (us ! j) \<noteq> k" "ku_key_idx (us ! j) \<noteq> ucast k" if "j < length us" "ku_valid (us ! j)" for j
    using 2(3) that ucast_ucast_12 [OF k] unfolding pending_for_nth by auto
  have dist: "ku_key_idx (us' ! p) \<noteq> ku_key_idx (us' ! q)"
    if "p < length us" "q < length us" "p \<noteq> q" "ku_valid (us' ! p)" "ku_valid (us' ! q)" for p q
  proof (cases "p = i \<or> q = i")
    case True
    then show ?thesis using that key other(2) [of p] other(2) [of q] by auto
  next
    case False
    then show ?thesis using that key d unfolding durable_def by auto
  qed
  have clr: "ku_valid (us' ! j) \<longrightarrow> (ku_clear (us' ! j) \<longleftrightarrow> (t(k := v)) (ku_idx (us' ! j)) = None)" if "j < length us" for j
    using d that b other [OF that] key k unfolding durable_def all_set_nth by (cases "j = i") (auto simp: ucast_ucast_12)
  have pend: "pending_for us' j \<longleftrightarrow> j = k \<or> pending_for us j" for j
  proof -
    have "(\<exists>p < length us. ku_valid (us' ! p) \<and> ku_idx (us' ! p) = j) \<longleftrightarrow>
      j = k \<or> (\<exists>p < length us. ku_valid (us ! p) \<and> ku_idx (us ! p) = j)"
      using key 2(1,2) ucast_ucast_12 [OF k] by (metis (no_types, lifting) key_update.select_convs(1,2))
    then show ?thesis using 2(4) by (simp add: pending_for_nth)
  qed
  have len: "length us' = length us" using 2(4) by simp
  show ?thesis using d dist clr pend unfolding durable_def all_set_nth len by auto
qed

lemma durable_step:
  assumes d: "durable us t m" and i: "i < length us" "ku_valid (us ! i)"
  shows "durable (us[i := (us ! i)\<lparr>ku_valid := False\<rparr>]) t (m(ku_idx (us ! i) := t (ku_idx (us ! i))))"
proof -
  let ?us = "us[i := (us ! i)\<lparr>ku_valid := False\<rparr>]"
  have v: "ku_valid (?us ! j) \<longleftrightarrow> j \<noteq> i \<and> ku_valid (us ! j)" "j \<noteq> i \<Longrightarrow> ?us ! j = us ! j" if "j < length us" for j
    using that i by (auto simp: nth_list_update)
  have p: "pending_for us j \<Longrightarrow> pending_for ?us j \<or> j = ku_idx (us ! i)" for j
    using v unfolding pending_for_nth length_list_update by metis
  have "\<forall>a < length us. \<forall>b < length us. a \<noteq> b \<longrightarrow> ku_valid (?us ! a) \<longrightarrow> ku_valid (?us ! b) \<longrightarrow>
      ku_key_idx (?us ! a) \<noteq> ku_key_idx (?us ! b)"
    using d v unfolding durable_def by auto
  moreover have "\<forall>a < length us. ku_valid (?us ! a) \<longrightarrow> (ku_clear (?us ! a) \<longleftrightarrow> t (ku_idx (?us ! a)) = None)"
    using d v unfolding durable_def all_set_nth by auto
  moreover have "\<forall>k < 0x1000. \<not> pending_for ?us k \<longrightarrow> (m(ku_idx (us ! i) := t (ku_idx (us ! i)))) k = t k"
    using d p unfolding durable_def fun_upd_def by metis
  ultimately show ?thesis unfolding durable_def all_set_nth length_list_update by blast
qed

lemma ku_idx_small: "ku_idx u < 0x1000"
proof -
  have "unat (ku_key_idx u) < 4096" using unsigned_less [of "ku_key_idx u"] by simp
  then show ?thesis by (simp add: word_less_nat_alt unsigned_ucast_eq take_bit_nat_eq_self)
qed

lemma durable_cong:
  assumes "durable us t mm" "\<And>k. k < 0x1000 \<Longrightarrow> t' k = t k"
  shows "durable us t' mm"
  using assms ku_idx_small unfolding durable_def by simp

section \<open>The contract of a tracked table\<close>

locale tracked_store =
  fixes upd :: "'st \<Rightarrow> key_update list"
    and tab :: "'st \<Rightarrow> u16 \<Rightarrow> 'v option"
    and mem :: "'st \<Rightarrow> u16 \<Rightarrow> 'v option"
    and store :: "u16 \<Rightarrow> 'st \<Rightarrow> 'st"
    and clear :: "u16 \<Rightarrow> 'st \<Rightarrow> 'st"
    and update_settings :: "u16 \<Rightarrow> bool \<Rightarrow> 'st \<Rightarrow> 'st"
    and pending_step :: "nat \<Rightarrow> 'st \<Rightarrow> 'st"
  assumes mem_store: "mem (store k st) = (case tab st k of None \<Rightarrow> mem st | Some v \<Rightarrow> (mem st)(k := Some v))"
    and mem_clear: "mem (clear k st) = (mem st)(k := None)"
    and update_tab: "tab (update_settings k b st) = tab st"
    and update_upd: "upd (update_settings k b st) = (case track_update k b (upd st) of None \<Rightarrow> upd st | Some us \<Rightarrow> us)"
    and update_mem: "mem (update_settings k b st) =
      (if track_update k b (upd st) = None then mem (if b then store k st else clear k st) else mem st)"
    and step_tab: "tab (pending_step i st) = tab st"
    and step_upd: "upd (pending_step i st) =
      (if ku_valid (upd st ! i) then (upd st)[i := (upd st ! i)\<lparr>ku_valid := False\<rparr>] else upd st)"
    and step_mem: "mem (pending_step i st) =
      (if \<not> ku_valid (upd st ! i) then mem st
       else mem (if ku_clear (upd st ! i) then clear (ku_idx (upd st ! i)) st else store (ku_idx (upd st ! i)) st))"
begin

text \<open>A tracked change keeps storage and table related, whatever the table's new value is.\<close>

lemma update_durable:
  assumes "durable (upd st) t (mem st)" "k < 0x1000" "b \<Longrightarrow> tab st k \<noteq> None"
  shows "durable (upd (update_settings k b st)) (t(k := if b then tab st k else None)) (mem (update_settings k b st))"
proof (cases "track_update k b (upd st)")
  case None
  have "mem (update_settings k b st) = (mem st)(k := if b then tab st k else None)"
    using None assms(3) by (auto simp: update_mem mem_store mem_clear)
  then show ?thesis using durable_direct [OF assms(1) None] None by (simp add: update_upd)
next
  case (Some us)
  then show ?thesis using durable_track [OF assms(1,2) Some] assms(3) by (auto simp: update_upd update_mem)
qed

text \<open>Storing an index after a change of its entry, and forgetting it before its removal.\<close>

lemma store_after_change:
  assumes "durable (upd st) (tab st) (mem st)" "k < 0x1000" "tab st1 k \<noteq> None"
    and "upd st1 = upd st" "mem st1 = mem st" "\<And>j. j < 0x1000 \<Longrightarrow> j \<noteq> k \<Longrightarrow> tab st1 j = tab st j"
  shows "durable (upd (update_settings k True st1)) (tab st1) (mem (update_settings k True st1))"
proof (rule durable_cong)
  show "durable (upd (update_settings k True st1)) ((tab st)(k := tab st1 k)) (mem (update_settings k True st1))"
    using update_durable [of st1 "tab st" k True] assms by simp
qed (use assms(6) in simp)

lemma clear_before_removal:
  assumes "durable (upd st) (tab st) (mem st)" "k < 0x1000" "tab st1 k = None"
    and "upd st1 = upd (update_settings k False st)" "mem st1 = mem (update_settings k False st)"
    and "\<And>j. j < 0x1000 \<Longrightarrow> j \<noteq> k \<Longrightarrow> tab st1 j = tab st j"
  shows "durable (upd st1) (tab st1) (mem st1)"
proof (rule durable_cong)
  show "durable (upd st1) ((tab st)(k := None)) (mem st1)"
    using update_durable [of st "tab st" k False] assms by simp
qed (use assms(3,6) in simp)

lemma step_durable:
  assumes "durable (upd st) (tab st) (mem st)" "i < length (upd st)"
  shows "durable (upd (pending_step i st)) (tab (pending_step i st)) (mem (pending_step i st))"
proof (cases "ku_valid (upd st ! i)")
  case True
  have "mem (pending_step i st) = (mem st)(ku_idx (upd st ! i) := tab st (ku_idx (upd st ! i)))"
    using assms True unfolding durable_def all_set_nth by (auto simp: step_mem mem_store mem_clear)
  then show ?thesis using durable_step [OF assms True] True by (simp add: step_tab step_upd)
qed (use assms in \<open>simp add: step_tab step_upd step_mem\<close>)

lemma steps_durable:
  assumes "durable (upd st) (tab st) (mem st)" "n \<le> length (upd st)"
  defines "st' \<equiv> fold pending_step [0..<n] st"
  shows "durable (upd st') (tab st') (mem st') \<and> tab st' = tab st \<and> length (upd st') = length (upd st) \<and>
    (\<forall>i < n. \<not> ku_valid (upd st' ! i))"
  using assms(2) unfolding st'_def
proof (induction n)
  case (Suc n)
  let ?s = "fold pending_step [0..<n] st"
  have IH: "durable (upd ?s) (tab ?s) (mem ?s)" "tab ?s = tab st" "length (upd ?s) = length (upd st)"
    "\<forall>i < n. \<not> ku_valid (upd ?s ! i)"
    using Suc by auto
  have "durable (upd (pending_step n ?s)) (tab (pending_step n ?s)) (mem (pending_step n ?s))"
    using step_durable [OF IH(1)] IH(3) Suc.prems by simp
  then show ?case using IH Suc.prems by (auto simp: step_tab step_upd less_Suc_eq nth_list_update)
qed (use assms(1) in simp)

text \<open>Running the pending actions leaves in storage exactly what the table holds.\<close>

lemma pending_store_exact:
  assumes "durable (upd st) (tab st) (mem st)" "k < 0x1000"
  shows "mem (fold pending_step [0..<length (upd st)] st) k = tab st k"
  using steps_durable [OF assms(1) order_refl] assms(2) unfolding durable_def pending_for_nth by auto

end

end
