(* ===== verification/Net_Buf.thy ===== *)
theory Net_Buf
  imports Byte_Order
begin

text \<open>
  The simple network buffers of \<open>core/src/utils/buf.c\<close> and \<open>core/include/net/buf.h\<close>: a
  storage array, a data offset into it and a length, with operations that add and remove
  bytes at both ends.  Protocol layers push headers in front of a payload and pull them
  off again on reception.

  \<open>struct net_buf_simple\<close> is the record below; the pointer \<open>data\<close> is the offset
  \<open>nb_data\<close> into the storage \<open>nb_buf\<close> that \<open>__buf\<close> points to.  An operation whose
  \<open>__ASSERT_NO_MSG\<close> fails has no result (\<open>None\<close>); one that returns a pointer returns the
  offset.  The theorems relate the operations to a byte string with free space on both
  sides (\<open>abs_buf\<close>): every sequence of operations fails exactly when the abstract one does
  and computes the same contents otherwise.
\<close>

section \<open>The buffer and its raw operations\<close>

record net_buf_simple =
  nb_data :: nat
  nb_len :: nat
  nb_size :: nat
  nb_buf :: bytes

definition net_buf_simple_init_with_data :: "bytes \<Rightarrow> nat \<Rightarrow> net_buf_simple" where
  "net_buf_simple_init_with_data dat sz =
     \<lparr>nb_data = 0, nb_len = sz, nb_size = sz, nb_buf = dat\<rparr>"

definition net_buf_simple_init :: "nat \<Rightarrow> net_buf_simple \<Rightarrow> net_buf_simple" where
  "net_buf_simple_init reserve_head buf = buf\<lparr>nb_data := reserve_head, nb_len := 0\<rparr>"

definition net_buf_simple_reset :: "net_buf_simple \<Rightarrow> net_buf_simple" where
  "net_buf_simple_reset buf = buf\<lparr>nb_len := 0, nb_data := 0\<rparr>"

definition net_buf_simple_reserve :: "nat \<Rightarrow> net_buf_simple \<Rightarrow> net_buf_simple option" where
  "net_buf_simple_reserve reserve buf =
     (if nb_len buf = 0 then Some (buf\<lparr>nb_data := reserve\<rparr>) else None)"

definition net_buf_simple_clone :: "net_buf_simple \<Rightarrow> net_buf_simple" where
  "net_buf_simple_clone original = original"

definition net_buf_simple_tail :: "net_buf_simple \<Rightarrow> nat" where
  "net_buf_simple_tail buf = nb_data buf + nb_len buf"

definition net_buf_simple_headroom :: "net_buf_simple \<Rightarrow> nat" where
  "net_buf_simple_headroom buf = nb_data buf"

definition net_buf_simple_tailroom :: "net_buf_simple \<Rightarrow> nat" where
  "net_buf_simple_tailroom buf = nb_size buf - net_buf_simple_headroom buf - nb_len buf"

definition net_buf_simple_max_len :: "net_buf_simple \<Rightarrow> nat" where
  "net_buf_simple_max_len buf = nb_size buf - net_buf_simple_headroom buf"

text \<open>A write through a pointer into the storage, and a read of \<open>n\<close> bytes at one.\<close>

definition nb_write :: "nat \<Rightarrow> bytes \<Rightarrow> net_buf_simple \<Rightarrow> net_buf_simple" where
  "nb_write p bs buf = buf\<lparr>nb_buf := mem_write p bs (nb_buf buf)\<rparr>"

definition nb_read :: "nat \<Rightarrow> nat \<Rightarrow> net_buf_simple \<Rightarrow> bytes" where
  "nb_read p n buf = take n (drop p (nb_buf buf))"

definition net_buf_simple_add :: "nat \<Rightarrow> net_buf_simple \<Rightarrow> (nat \<times> net_buf_simple) option" where
  "net_buf_simple_add len buf =
     (let tail = net_buf_simple_tail buf in
      if len \<le> net_buf_simple_tailroom buf
      then Some (tail, buf\<lparr>nb_len := nb_len buf + len\<rparr>) else None)"

definition net_buf_simple_remove_mem :: "nat \<Rightarrow> net_buf_simple \<Rightarrow> (nat \<times> net_buf_simple) option" where
  "net_buf_simple_remove_mem len buf =
     (if len \<le> nb_len buf
      then Some (nb_data buf + (nb_len buf - len), buf\<lparr>nb_len := nb_len buf - len\<rparr>) else None)"

definition net_buf_simple_push :: "nat \<Rightarrow> net_buf_simple \<Rightarrow> (nat \<times> net_buf_simple) option" where
  "net_buf_simple_push len buf =
     (if len \<le> net_buf_simple_headroom buf
      then Some (nb_data buf - len, buf\<lparr>nb_data := nb_data buf - len, nb_len := nb_len buf + len\<rparr>)
      else None)"

definition net_buf_simple_pull :: "nat \<Rightarrow> net_buf_simple \<Rightarrow> (nat \<times> net_buf_simple) option" where
  "net_buf_simple_pull len buf =
     (if len \<le> nb_len buf
      then Some (nb_data buf + len, buf\<lparr>nb_len := nb_len buf - len, nb_data := nb_data buf + len\<rparr>)
      else None)"

definition net_buf_simple_pull_mem :: "nat \<Rightarrow> net_buf_simple \<Rightarrow> (nat \<times> net_buf_simple) option" where
  "net_buf_simple_pull_mem len buf =
     (let dat = nb_data buf in
      if len \<le> nb_len buf
      then Some (dat, buf\<lparr>nb_len := nb_len buf - len, nb_data := nb_data buf + len\<rparr>) else None)"

section \<open>Adding, pushing, pulling and removing values\<close>

definition net_buf_simple_add_mem :: "bytes \<Rightarrow> net_buf_simple \<Rightarrow> net_buf_simple option" where
  "net_buf_simple_add_mem mem buf =
     do { (p, b) \<leftarrow> net_buf_simple_add (length mem) buf; Some (nb_write p mem b) }"

definition net_buf_simple_add_u8 :: "u8 \<Rightarrow> net_buf_simple \<Rightarrow> net_buf_simple option" where
  "net_buf_simple_add_u8 val buf =
     do { (p, b) \<leftarrow> net_buf_simple_add 1 buf; Some (nb_write p [val] b) }"

definition net_buf_simple_push_mem :: "bytes \<Rightarrow> net_buf_simple \<Rightarrow> net_buf_simple option" where
  "net_buf_simple_push_mem mem buf =
     do { (p, b) \<leftarrow> net_buf_simple_push (length mem) buf; Some (nb_write p mem b) }"

definition net_buf_simple_push_u8 :: "u8 \<Rightarrow> net_buf_simple \<Rightarrow> net_buf_simple option" where
  "net_buf_simple_push_u8 val buf =
     do { (p, b) \<leftarrow> net_buf_simple_push 1 buf; Some (nb_write p [val] b) }"

definition net_buf_simple_pull_u8 :: "net_buf_simple \<Rightarrow> (u8 \<times> net_buf_simple) option" where
  "net_buf_simple_pull_u8 buf =
     do { (_, b) \<leftarrow> net_buf_simple_pull 1 buf; Some (nb_buf buf ! nb_data buf, b) }"

definition net_buf_simple_remove_u8 :: "net_buf_simple \<Rightarrow> (u8 \<times> net_buf_simple) option" where
  "net_buf_simple_remove_u8 buf =
     do { (p, b) \<leftarrow> net_buf_simple_remove_mem 1 buf; Some (nb_buf b ! p, b) }"

definition net_buf_simple_add_le16 :: "u16 \<Rightarrow> net_buf_simple \<Rightarrow> net_buf_simple option" where
  "net_buf_simple_add_le16 val buf =
     do { (p, b) \<leftarrow> net_buf_simple_add 2 buf; Some (nb_write p (sys_put_le16 val) b) }"

definition net_buf_simple_add_be16 :: "u16 \<Rightarrow> net_buf_simple \<Rightarrow> net_buf_simple option" where
  "net_buf_simple_add_be16 val buf =
     do { (p, b) \<leftarrow> net_buf_simple_add 2 buf; Some (nb_write p (sys_put_be16 val) b) }"

definition net_buf_simple_add_le24 :: "u32 \<Rightarrow> net_buf_simple \<Rightarrow> net_buf_simple option" where
  "net_buf_simple_add_le24 val buf =
     do { (p, b) \<leftarrow> net_buf_simple_add 3 buf; Some (nb_write p (sys_put_le24 val) b) }"

definition net_buf_simple_add_be24 :: "u32 \<Rightarrow> net_buf_simple \<Rightarrow> net_buf_simple option" where
  "net_buf_simple_add_be24 val buf =
     do { (p, b) \<leftarrow> net_buf_simple_add 3 buf; Some (nb_write p (sys_put_be24 val) b) }"

definition net_buf_simple_add_le32 :: "u32 \<Rightarrow> net_buf_simple \<Rightarrow> net_buf_simple option" where
  "net_buf_simple_add_le32 val buf =
     do { (p, b) \<leftarrow> net_buf_simple_add 4 buf; Some (nb_write p (sys_put_le32 val) b) }"

definition net_buf_simple_add_be32 :: "u32 \<Rightarrow> net_buf_simple \<Rightarrow> net_buf_simple option" where
  "net_buf_simple_add_be32 val buf =
     do { (p, b) \<leftarrow> net_buf_simple_add 4 buf; Some (nb_write p (sys_put_be32 val) b) }"

definition net_buf_simple_add_le48 :: "u64 \<Rightarrow> net_buf_simple \<Rightarrow> net_buf_simple option" where
  "net_buf_simple_add_le48 val buf =
     do { (p, b) \<leftarrow> net_buf_simple_add 6 buf; Some (nb_write p (sys_put_le48 val) b) }"

definition net_buf_simple_add_be48 :: "u64 \<Rightarrow> net_buf_simple \<Rightarrow> net_buf_simple option" where
  "net_buf_simple_add_be48 val buf =
     do { (p, b) \<leftarrow> net_buf_simple_add 6 buf; Some (nb_write p (sys_put_be48 val) b) }"

definition net_buf_simple_add_le64 :: "u64 \<Rightarrow> net_buf_simple \<Rightarrow> net_buf_simple option" where
  "net_buf_simple_add_le64 val buf =
     do { (p, b) \<leftarrow> net_buf_simple_add 8 buf; Some (nb_write p (sys_put_le64 val) b) }"

definition net_buf_simple_add_be64 :: "u64 \<Rightarrow> net_buf_simple \<Rightarrow> net_buf_simple option" where
  "net_buf_simple_add_be64 val buf =
     do { (p, b) \<leftarrow> net_buf_simple_add 8 buf; Some (nb_write p (sys_put_be64 val) b) }"

definition net_buf_simple_push_le16 :: "u16 \<Rightarrow> net_buf_simple \<Rightarrow> net_buf_simple option" where
  "net_buf_simple_push_le16 val buf =
     do { (p, b) \<leftarrow> net_buf_simple_push 2 buf; Some (nb_write p (sys_put_le16 val) b) }"

definition net_buf_simple_push_be16 :: "u16 \<Rightarrow> net_buf_simple \<Rightarrow> net_buf_simple option" where
  "net_buf_simple_push_be16 val buf =
     do { (p, b) \<leftarrow> net_buf_simple_push 2 buf; Some (nb_write p (sys_put_be16 val) b) }"

definition net_buf_simple_push_le24 :: "u32 \<Rightarrow> net_buf_simple \<Rightarrow> net_buf_simple option" where
  "net_buf_simple_push_le24 val buf =
     do { (p, b) \<leftarrow> net_buf_simple_push 3 buf; Some (nb_write p (sys_put_le24 val) b) }"

definition net_buf_simple_push_be24 :: "u32 \<Rightarrow> net_buf_simple \<Rightarrow> net_buf_simple option" where
  "net_buf_simple_push_be24 val buf =
     do { (p, b) \<leftarrow> net_buf_simple_push 3 buf; Some (nb_write p (sys_put_be24 val) b) }"

definition net_buf_simple_push_le32 :: "u32 \<Rightarrow> net_buf_simple \<Rightarrow> net_buf_simple option" where
  "net_buf_simple_push_le32 val buf =
     do { (p, b) \<leftarrow> net_buf_simple_push 4 buf; Some (nb_write p (sys_put_le32 val) b) }"

definition net_buf_simple_push_be32 :: "u32 \<Rightarrow> net_buf_simple \<Rightarrow> net_buf_simple option" where
  "net_buf_simple_push_be32 val buf =
     do { (p, b) \<leftarrow> net_buf_simple_push 4 buf; Some (nb_write p (sys_put_be32 val) b) }"

definition net_buf_simple_push_le48 :: "u64 \<Rightarrow> net_buf_simple \<Rightarrow> net_buf_simple option" where
  "net_buf_simple_push_le48 val buf =
     do { (p, b) \<leftarrow> net_buf_simple_push 6 buf; Some (nb_write p (sys_put_le48 val) b) }"

definition net_buf_simple_push_be48 :: "u64 \<Rightarrow> net_buf_simple \<Rightarrow> net_buf_simple option" where
  "net_buf_simple_push_be48 val buf =
     do { (p, b) \<leftarrow> net_buf_simple_push 6 buf; Some (nb_write p (sys_put_be48 val) b) }"

definition net_buf_simple_push_le64 :: "u64 \<Rightarrow> net_buf_simple \<Rightarrow> net_buf_simple option" where
  "net_buf_simple_push_le64 val buf =
     do { (p, b) \<leftarrow> net_buf_simple_push 8 buf; Some (nb_write p (sys_put_le64 val) b) }"

definition net_buf_simple_push_be64 :: "u64 \<Rightarrow> net_buf_simple \<Rightarrow> net_buf_simple option" where
  "net_buf_simple_push_be64 val buf =
     do { (p, b) \<leftarrow> net_buf_simple_push 8 buf; Some (nb_write p (sys_put_be64 val) b) }"

text \<open>
  The readers load in host order (\<open>big\<close> is the byte order of the host) and convert.  A pull
  loads at the data pointer before it moves it.
\<close>

definition net_buf_simple_remove_le16 :: "bool \<Rightarrow> net_buf_simple \<Rightarrow> (u16 \<times> net_buf_simple) option" where
  "net_buf_simple_remove_le16 big buf =
     do { (p, b) \<leftarrow> net_buf_simple_remove_mem 2 buf;
          let val = host_load big sys_get_be16 sys_get_le16 (nb_read p 2 b);
          Some (sys_le_to_cpu big bswap_16 val, b) }"

definition net_buf_simple_remove_be16 :: "bool \<Rightarrow> net_buf_simple \<Rightarrow> (u16 \<times> net_buf_simple) option" where
  "net_buf_simple_remove_be16 big buf =
     do { (p, b) \<leftarrow> net_buf_simple_remove_mem 2 buf;
          let val = host_load big sys_get_be16 sys_get_le16 (nb_read p 2 b);
          Some (sys_be_to_cpu big bswap_16 val, b) }"

definition net_buf_simple_remove_le24 :: "bool \<Rightarrow> net_buf_simple \<Rightarrow> (u32 \<times> net_buf_simple) option" where
  "net_buf_simple_remove_le24 big buf =
     do { (p, b) \<leftarrow> net_buf_simple_remove_mem 3 buf;
          let val = host_load big sys_get_be24 sys_get_le24 (nb_read p 3 b);
          Some (sys_le_to_cpu big bswap_24 val, b) }"

definition net_buf_simple_remove_be24 :: "bool \<Rightarrow> net_buf_simple \<Rightarrow> (u32 \<times> net_buf_simple) option" where
  "net_buf_simple_remove_be24 big buf =
     do { (p, b) \<leftarrow> net_buf_simple_remove_mem 3 buf;
          let val = host_load big sys_get_be24 sys_get_le24 (nb_read p 3 b);
          Some (sys_be_to_cpu big bswap_24 val, b) }"

definition net_buf_simple_remove_le32 :: "bool \<Rightarrow> net_buf_simple \<Rightarrow> (u32 \<times> net_buf_simple) option" where
  "net_buf_simple_remove_le32 big buf =
     do { (p, b) \<leftarrow> net_buf_simple_remove_mem 4 buf;
          let val = host_load big sys_get_be32 sys_get_le32 (nb_read p 4 b);
          Some (sys_le_to_cpu big bswap_32 val, b) }"

definition net_buf_simple_remove_be32 :: "bool \<Rightarrow> net_buf_simple \<Rightarrow> (u32 \<times> net_buf_simple) option" where
  "net_buf_simple_remove_be32 big buf =
     do { (p, b) \<leftarrow> net_buf_simple_remove_mem 4 buf;
          let val = host_load big sys_get_be32 sys_get_le32 (nb_read p 4 b);
          Some (sys_be_to_cpu big bswap_32 val, b) }"

definition net_buf_simple_remove_le48 :: "bool \<Rightarrow> net_buf_simple \<Rightarrow> (u64 \<times> net_buf_simple) option" where
  "net_buf_simple_remove_le48 big buf =
     do { (p, b) \<leftarrow> net_buf_simple_remove_mem 6 buf;
          let val = host_load big sys_get_be48 sys_get_le48 (nb_read p 6 b);
          Some (sys_le_to_cpu big bswap_48 val, b) }"

definition net_buf_simple_remove_be48 :: "bool \<Rightarrow> net_buf_simple \<Rightarrow> (u64 \<times> net_buf_simple) option" where
  "net_buf_simple_remove_be48 big buf =
     do { (p, b) \<leftarrow> net_buf_simple_remove_mem 6 buf;
          let val = host_load big sys_get_be48 sys_get_le48 (nb_read p 6 b);
          Some (sys_be_to_cpu big bswap_48 val, b) }"

definition net_buf_simple_remove_le64 :: "bool \<Rightarrow> net_buf_simple \<Rightarrow> (u64 \<times> net_buf_simple) option" where
  "net_buf_simple_remove_le64 big buf =
     do { (p, b) \<leftarrow> net_buf_simple_remove_mem 8 buf;
          let val = host_load big sys_get_be64 sys_get_le64 (nb_read p 8 b);
          Some (sys_le_to_cpu big bswap_64 val, b) }"

definition net_buf_simple_remove_be64 :: "bool \<Rightarrow> net_buf_simple \<Rightarrow> (u64 \<times> net_buf_simple) option" where
  "net_buf_simple_remove_be64 big buf =
     do { (p, b) \<leftarrow> net_buf_simple_remove_mem 8 buf;
          let val = host_load big sys_get_be64 sys_get_le64 (nb_read p 8 b);
          Some (sys_be_to_cpu big bswap_64 val, b) }"

definition net_buf_simple_pull_le16 :: "bool \<Rightarrow> net_buf_simple \<Rightarrow> (u16 \<times> net_buf_simple) option" where
  "net_buf_simple_pull_le16 big buf =
     do { let val = host_load big sys_get_be16 sys_get_le16 (nb_read (nb_data buf) 2 buf);
          (_, b) \<leftarrow> net_buf_simple_pull 2 buf;
          Some (sys_le_to_cpu big bswap_16 val, b) }"

definition net_buf_simple_pull_be16 :: "bool \<Rightarrow> net_buf_simple \<Rightarrow> (u16 \<times> net_buf_simple) option" where
  "net_buf_simple_pull_be16 big buf =
     do { let val = host_load big sys_get_be16 sys_get_le16 (nb_read (nb_data buf) 2 buf);
          (_, b) \<leftarrow> net_buf_simple_pull 2 buf;
          Some (sys_be_to_cpu big bswap_16 val, b) }"

definition net_buf_simple_pull_le24 :: "bool \<Rightarrow> net_buf_simple \<Rightarrow> (u32 \<times> net_buf_simple) option" where
  "net_buf_simple_pull_le24 big buf =
     do { let val = host_load big sys_get_be24 sys_get_le24 (nb_read (nb_data buf) 3 buf);
          (_, b) \<leftarrow> net_buf_simple_pull 3 buf;
          Some (sys_le_to_cpu big bswap_24 val, b) }"

definition net_buf_simple_pull_be24 :: "bool \<Rightarrow> net_buf_simple \<Rightarrow> (u32 \<times> net_buf_simple) option" where
  "net_buf_simple_pull_be24 big buf =
     do { let val = host_load big sys_get_be24 sys_get_le24 (nb_read (nb_data buf) 3 buf);
          (_, b) \<leftarrow> net_buf_simple_pull 3 buf;
          Some (sys_be_to_cpu big bswap_24 val, b) }"

definition net_buf_simple_pull_le32 :: "bool \<Rightarrow> net_buf_simple \<Rightarrow> (u32 \<times> net_buf_simple) option" where
  "net_buf_simple_pull_le32 big buf =
     do { let val = host_load big sys_get_be32 sys_get_le32 (nb_read (nb_data buf) 4 buf);
          (_, b) \<leftarrow> net_buf_simple_pull 4 buf;
          Some (sys_le_to_cpu big bswap_32 val, b) }"

definition net_buf_simple_pull_be32 :: "bool \<Rightarrow> net_buf_simple \<Rightarrow> (u32 \<times> net_buf_simple) option" where
  "net_buf_simple_pull_be32 big buf =
     do { let val = host_load big sys_get_be32 sys_get_le32 (nb_read (nb_data buf) 4 buf);
          (_, b) \<leftarrow> net_buf_simple_pull 4 buf;
          Some (sys_be_to_cpu big bswap_32 val, b) }"

definition net_buf_simple_pull_le48 :: "bool \<Rightarrow> net_buf_simple \<Rightarrow> (u64 \<times> net_buf_simple) option" where
  "net_buf_simple_pull_le48 big buf =
     do { let val = host_load big sys_get_be48 sys_get_le48 (nb_read (nb_data buf) 6 buf);
          (_, b) \<leftarrow> net_buf_simple_pull 6 buf;
          Some (sys_le_to_cpu big bswap_48 val, b) }"

definition net_buf_simple_pull_be48 :: "bool \<Rightarrow> net_buf_simple \<Rightarrow> (u64 \<times> net_buf_simple) option" where
  "net_buf_simple_pull_be48 big buf =
     do { let val = host_load big sys_get_be48 sys_get_le48 (nb_read (nb_data buf) 6 buf);
          (_, b) \<leftarrow> net_buf_simple_pull 6 buf;
          Some (sys_be_to_cpu big bswap_48 val, b) }"

definition net_buf_simple_pull_le64 :: "bool \<Rightarrow> net_buf_simple \<Rightarrow> (u64 \<times> net_buf_simple) option" where
  "net_buf_simple_pull_le64 big buf =
     do { let val = host_load big sys_get_be64 sys_get_le64 (nb_read (nb_data buf) 8 buf);
          (_, b) \<leftarrow> net_buf_simple_pull 8 buf;
          Some (sys_le_to_cpu big bswap_64 val, b) }"

definition net_buf_simple_pull_be64 :: "bool \<Rightarrow> net_buf_simple \<Rightarrow> (u64 \<times> net_buf_simple) option" where
  "net_buf_simple_pull_be64 big buf =
     do { let val = host_load big sys_get_be64 sys_get_le64 (nb_read (nb_data buf) 8 buf);
          (_, b) \<leftarrow> net_buf_simple_pull 8 buf;
          Some (sys_be_to_cpu big bswap_64 val, b) }"

section \<open>Saving and restoring the parsing state\<close>

record net_buf_simple_state =
  st_offset :: nat
  st_len :: nat

definition net_buf_simple_save :: "net_buf_simple \<Rightarrow> net_buf_simple_state" where
  "net_buf_simple_save buf = \<lparr>st_offset = net_buf_simple_headroom buf, st_len = nb_len buf\<rparr>"

definition net_buf_simple_restore :: "net_buf_simple_state \<Rightarrow> net_buf_simple \<Rightarrow> net_buf_simple" where
  "net_buf_simple_restore state buf = buf\<lparr>nb_data := st_offset state, nb_len := st_len state\<rparr>"

section \<open>Well-formed buffers and their contents\<close>

definition wf_buf :: "net_buf_simple \<Rightarrow> bool" where
  "wf_buf b \<longleftrightarrow> nb_data b + nb_len b \<le> nb_size b \<and> nb_size b \<le> length (nb_buf b) \<and> nb_size b < 2 ^ 16"

definition nb_bytes :: "net_buf_simple \<Rightarrow> bytes" where
  "nb_bytes b = nb_read (nb_data b) (nb_len b) b"

text \<open>What a client sees of an operation that hands out a pointer: the bytes at it.\<close>

definition nb_pull :: "nat \<Rightarrow> net_buf_simple \<Rightarrow> (bytes \<times> net_buf_simple) option" where
  "nb_pull n buf = do { (p, b) \<leftarrow> net_buf_simple_pull_mem n buf; Some (nb_read p n b, b) }"

definition nb_remove :: "nat \<Rightarrow> net_buf_simple \<Rightarrow> (bytes \<times> net_buf_simple) option" where
  "nb_remove n buf = do { (p, b) \<leftarrow> net_buf_simple_remove_mem n buf; Some (nb_read p n b, b) }"

section \<open>The abstract buffer\<close>

text \<open>
  Free bytes in front, the contents, free bytes behind.  A program that works on a buffer
  is a list of operations; \<open>buf_run\<close> runs it over any implementation of them.
\<close>

type_synonym abs_buf = "nat \<times> bytes \<times> nat"

datatype buf_op = Add bytes | Push bytes | Pull nat | Remove nat

fun abs_add :: "bytes \<Rightarrow> abs_buf \<Rightarrow> abs_buf option" where
  "abs_add bs (h, c, t) = (if length bs \<le> t then Some (h, c @ bs, t - length bs) else None)"

fun abs_push :: "bytes \<Rightarrow> abs_buf \<Rightarrow> abs_buf option" where
  "abs_push bs (h, c, t) = (if length bs \<le> h then Some (h - length bs, bs @ c, t) else None)"

fun abs_pull :: "nat \<Rightarrow> abs_buf \<Rightarrow> (bytes \<times> abs_buf) option" where
  "abs_pull n (h, c, t) = (if n \<le> length c then Some (take n c, h + n, drop n c, t) else None)"

fun abs_remove :: "nat \<Rightarrow> abs_buf \<Rightarrow> (bytes \<times> abs_buf) option" where
  "abs_remove n (h, c, t) =
     (if n \<le> length c then Some (drop (length c - n) c, h, take (length c - n) c, t + n) else None)"

fun buf_run ::
  "(bytes \<Rightarrow> 'b \<Rightarrow> 'b option) \<Rightarrow> (bytes \<Rightarrow> 'b \<Rightarrow> 'b option) \<Rightarrow> (nat \<Rightarrow> 'b \<Rightarrow> (bytes \<times> 'b) option) \<Rightarrow>
   (nat \<Rightarrow> 'b \<Rightarrow> (bytes \<times> 'b) option) \<Rightarrow> buf_op list \<Rightarrow> 'b \<Rightarrow> (bytes list \<times> 'b) option" where
  "buf_run add push pull remove [] b = Some ([], b)"
| "buf_run add push pull remove (Add bs # ops) b =
     do { b' \<leftarrow> add bs b; buf_run add push pull remove ops b' }"
| "buf_run add push pull remove (Push bs # ops) b =
     do { b' \<leftarrow> push bs b; buf_run add push pull remove ops b' }"
| "buf_run add push pull remove (Pull n # ops) b =
     do { (out, b') \<leftarrow> pull n b; (outs, b'') \<leftarrow> buf_run add push pull remove ops b'; Some (out # outs, b'') }"
| "buf_run add push pull remove (Remove n # ops) b =
     do { (out, b') \<leftarrow> remove n b; (outs, b'') \<leftarrow> buf_run add push pull remove ops b'; Some (out # outs, b'') }"

lemma map_bind_prefix:
  "map_option (apsnd v) r = r' \<Longrightarrow>
   map_option (apsnd v) (r \<bind> (\<lambda>(outs, b). Some (a # outs, b))) =
   r' \<bind> (\<lambda>(outs, b). Some (a # outs, b))"
  by (cases r) auto

section \<open>The contract of a packet buffer\<close>

locale packet_buffer =
  fixes wf :: "'b \<Rightarrow> bool" and view :: "'b \<Rightarrow> abs_buf"
    and add :: "bytes \<Rightarrow> 'b \<Rightarrow> 'b option" and push :: "bytes \<Rightarrow> 'b \<Rightarrow> 'b option"
    and pull :: "nat \<Rightarrow> 'b \<Rightarrow> (bytes \<times> 'b) option" and remove :: "nat \<Rightarrow> 'b \<Rightarrow> (bytes \<times> 'b) option"
  assumes view_add: "wf b \<Longrightarrow> map_option view (add bs b) = abs_add bs (view b)"
    and view_push: "wf b \<Longrightarrow> map_option view (push bs b) = abs_push bs (view b)"
    and view_pull: "wf b \<Longrightarrow> map_option (apsnd view) (pull n b) = abs_pull n (view b)"
    and view_remove: "wf b \<Longrightarrow> map_option (apsnd view) (remove n b) = abs_remove n (view b)"
    and wf_add: "wf b \<Longrightarrow> add bs b = Some b' \<Longrightarrow> wf b'"
    and wf_push: "wf b \<Longrightarrow> push bs b = Some b' \<Longrightarrow> wf b'"
    and wf_pull: "wf b \<Longrightarrow> pull n b = Some (out, b') \<Longrightarrow> wf b'"
    and wf_remove: "wf b \<Longrightarrow> remove n b = Some (out, b') \<Longrightarrow> wf b'"
begin

lemma run_refines:
  "wf b \<Longrightarrow> map_option (apsnd view) (buf_run add push pull remove ops b) =
     buf_run abs_add abs_push abs_pull abs_remove ops (view b)"
proof (induction ops arbitrary: b)
  case Nil
  then show ?case by simp
next
  case (Cons op ops)
  show ?case
  proof (cases op)
    case (Add bs)
    with Cons.prems view_add [of b bs, symmetric] show ?thesis
      by (auto simp: Cons.IH dest: wf_add split: bind_splits)
  next
    case (Push bs)
    with Cons.prems view_push [of b bs, symmetric] show ?thesis
      by (auto simp: Cons.IH dest: wf_push split: bind_splits)
  next
    case (Pull n)
    show ?thesis
    proof (cases "pull n b")
      case None
      with Pull view_pull [OF Cons.prems, of n, symmetric] show ?thesis by simp
    next
      case (Some r)
      then obtain out b' where r: "pull n b = Some (out, b')" by (cases r) auto
      from wf_pull [OF Cons.prems r] have IH: "map_option (apsnd view) (buf_run add push pull remove ops b') =
        buf_run abs_add abs_push abs_pull abs_remove ops (view b')" by (rule Cons.IH)
      from view_pull [OF Cons.prems, of n] r have "abs_pull n (view b) = Some (out, view b')" by simp
      with Pull r map_bind_prefix [OF IH] show ?thesis by simp
    qed
  next
    case (Remove n)
    show ?thesis
    proof (cases "remove n b")
      case None
      with Remove view_remove [OF Cons.prems, of n, symmetric] show ?thesis by simp
    next
      case (Some r)
      then obtain out b' where r: "remove n b = Some (out, b')" by (cases r) auto
      from wf_remove [OF Cons.prems r] have IH: "map_option (apsnd view) (buf_run add push pull remove ops b') =
        buf_run abs_add abs_push abs_pull abs_remove ops (view b')" by (rule Cons.IH)
      from view_remove [OF Cons.prems, of n] r have "abs_remove n (view b) = Some (out, view b')" by simp
      with Remove r map_bind_prefix [OF IH] show ?thesis by simp
    qed
  qed
qed

lemma push_pull:
  assumes "wf b" "push bs b = Some b1"
  shows "\<exists>b2. pull (length bs) b1 = Some (bs, b2) \<and> wf b2 \<and> view b2 = view b"
proof -
  obtain h c t where v: "view b = (h, c, t)" by (cases "view b") auto
  have b1: "wf b1" "view b1 = (h - length bs, bs @ c, t)" "length bs \<le> h"
    using wf_push [OF assms] view_push [OF assms(1), of bs] assms(2) v by (auto split: if_splits)
  from view_pull [OF b1(1), of "length bs"] b1(2)
  obtain b2 where b2: "pull (length bs) b1 = Some (bs, b2)" "view b2 = (h - length bs + length bs, c, t)"
    by (auto simp: apsnd_def)
  with b1 v wf_pull [OF b1(1) b2(1)] show ?thesis by simp
qed

lemma add_remove:
  assumes "wf b" "add bs b = Some b1"
  shows "\<exists>b2. remove (length bs) b1 = Some (bs, b2) \<and> wf b2 \<and> view b2 = view b"
proof -
  obtain h c t where v: "view b = (h, c, t)" by (cases "view b") auto
  have b1: "wf b1" "view b1 = (h, c @ bs, t - length bs)" "length bs \<le> t"
    using wf_add [OF assms] view_add [OF assms(1), of bs] assms(2) v by (auto split: if_splits)
  from view_remove [OF b1(1), of "length bs"] b1(2)
  obtain b2 where b2: "remove (length bs) b1 = Some (bs, b2)" "view b2 = (h, c, t - length bs + length bs)"
    by (auto simp: apsnd_def)
  with b1 v wf_remove [OF b1(1) b2(1)] show ?thesis by simp
qed

end

section \<open>The simple buffers meet the contract\<close>

definition abs_of :: "net_buf_simple \<Rightarrow> abs_buf" where
  "abs_of b = (net_buf_simple_headroom b, nb_bytes b, net_buf_simple_tailroom b)"

lemmas nb_defs = net_buf_simple_add_mem_def net_buf_simple_add_def net_buf_simple_push_mem_def
  net_buf_simple_push_def net_buf_simple_pull_mem_def net_buf_simple_pull_def
  net_buf_simple_remove_mem_def net_buf_simple_tail_def net_buf_simple_headroom_def
  net_buf_simple_tailroom_def nb_write_def nb_read_def nb_pull_def nb_remove_def

lemma length_nb_bytes [simp]: "wf_buf b \<Longrightarrow> length (nb_bytes b) = nb_len b"
  by (auto simp: wf_buf_def nb_bytes_def nb_read_def)

lemma nb_bytes_add:
  assumes "wf_buf b" "length bs \<le> net_buf_simple_tailroom b"
  shows "take (nb_len b + length bs) (drop (nb_data b) (mem_write (nb_data b + nb_len b) bs (nb_buf b))) =
    nb_bytes b @ bs"
  unfolding nb_bytes_def nb_read_def
  by (rule mem_write_append_read) (use assms in \<open>auto simp: wf_buf_def nb_defs\<close>)

lemma nb_bytes_push:
  assumes "wf_buf b" "length bs \<le> nb_data b"
  shows "take (nb_len b + length bs) (drop (nb_data b - length bs)
      (mem_write (nb_data b - length bs) bs (nb_buf b))) = bs @ nb_bytes b"
  unfolding nb_bytes_def nb_read_def
  by (rule mem_write_prepend_read) (use assms in \<open>auto simp: wf_buf_def\<close>)

interpretation nb: packet_buffer wf_buf abs_of net_buf_simple_add_mem net_buf_simple_push_mem nb_pull nb_remove
proof (unfold_locales, goal_cases)
  case (1 b bs) then show ?case
    using nb_bytes_add [of b bs] by (auto simp: abs_of_def nb_bytes_def nb_defs Let_def)
next
  case (2 b bs) then show ?case
    using nb_bytes_push [of b bs] by (auto simp: abs_of_def nb_bytes_def nb_defs Let_def)
next
  case (3 b n) then show ?case
    by (auto simp: abs_of_def nb_bytes_def nb_defs Let_def wf_buf_def drop_take min_absorb1 add.commute)
next
  case (4 b n) then show ?case
    by (auto simp: abs_of_def nb_bytes_def nb_defs Let_def wf_buf_def drop_take min_absorb1 add.commute)
qed (auto simp: nb_defs wf_buf_def Let_def split: if_splits)

section \<open>The typed operations\<close>

text \<open>Adding or pushing a value adds or pushes the bytes of its encoding.\<close>

lemma add_value:
  "net_buf_simple_add_u8 v8 b = net_buf_simple_add_mem [v8] b"
  "net_buf_simple_add_le16 v16 b = net_buf_simple_add_mem (sys_put_le16 v16) b"
  "net_buf_simple_add_be16 v16 b = net_buf_simple_add_mem (sys_put_be16 v16) b"
  "net_buf_simple_add_le24 v32 b = net_buf_simple_add_mem (sys_put_le24 v32) b"
  "net_buf_simple_add_be24 v32 b = net_buf_simple_add_mem (sys_put_be24 v32) b"
  "net_buf_simple_add_le32 v32 b = net_buf_simple_add_mem (sys_put_le32 v32) b"
  "net_buf_simple_add_be32 v32 b = net_buf_simple_add_mem (sys_put_be32 v32) b"
  "net_buf_simple_add_le48 v64 b = net_buf_simple_add_mem (sys_put_le48 v64) b"
  "net_buf_simple_add_be48 v64 b = net_buf_simple_add_mem (sys_put_be48 v64) b"
  "net_buf_simple_add_le64 v64 b = net_buf_simple_add_mem (sys_put_le64 v64) b"
  "net_buf_simple_add_be64 v64 b = net_buf_simple_add_mem (sys_put_be64 v64) b"
  by (simp_all add: net_buf_simple_add_mem_def net_buf_simple_add_u8_def
    net_buf_simple_add_le16_def net_buf_simple_add_be16_def
    net_buf_simple_add_le24_def net_buf_simple_add_be24_def
    net_buf_simple_add_le32_def net_buf_simple_add_be32_def
    net_buf_simple_add_le48_def net_buf_simple_add_be48_def
    net_buf_simple_add_le64_def net_buf_simple_add_be64_def)

lemma push_value:
  "net_buf_simple_push_u8 v8 b = net_buf_simple_push_mem [v8] b"
  "net_buf_simple_push_le16 v16 b = net_buf_simple_push_mem (sys_put_le16 v16) b"
  "net_buf_simple_push_be16 v16 b = net_buf_simple_push_mem (sys_put_be16 v16) b"
  "net_buf_simple_push_le24 v32 b = net_buf_simple_push_mem (sys_put_le24 v32) b"
  "net_buf_simple_push_be24 v32 b = net_buf_simple_push_mem (sys_put_be24 v32) b"
  "net_buf_simple_push_le32 v32 b = net_buf_simple_push_mem (sys_put_le32 v32) b"
  "net_buf_simple_push_be32 v32 b = net_buf_simple_push_mem (sys_put_be32 v32) b"
  "net_buf_simple_push_le48 v64 b = net_buf_simple_push_mem (sys_put_le48 v64) b"
  "net_buf_simple_push_be48 v64 b = net_buf_simple_push_mem (sys_put_be48 v64) b"
  "net_buf_simple_push_le64 v64 b = net_buf_simple_push_mem (sys_put_le64 v64) b"
  "net_buf_simple_push_be64 v64 b = net_buf_simple_push_mem (sys_put_be64 v64) b"
  by (simp_all add: net_buf_simple_push_mem_def net_buf_simple_push_u8_def
    net_buf_simple_push_le16_def net_buf_simple_push_be16_def
    net_buf_simple_push_le24_def net_buf_simple_push_be24_def
    net_buf_simple_push_le32_def net_buf_simple_push_be32_def
    net_buf_simple_push_le48_def net_buf_simple_push_be48_def
    net_buf_simple_push_le64_def net_buf_simple_push_be64_def)

text \<open>Pulling or removing a value decodes the bytes that come off, on a host of either order.\<close>

lemma length_nb_read:
  "p + n \<le> length (nb_buf b) \<Longrightarrow> length (nb_read p n b) = n"
  by (simp add: nb_read_def)

lemma pull_value_aux:
  assumes "wf_buf b" and "\<And>s. length s = n \<Longrightarrow> conv (load s) = get s"
  shows "do { let val = load (nb_read (nb_data b) n b); (_, b') \<leftarrow> net_buf_simple_pull n b; Some (conv val, b') } =
    map_option (apfst get) (nb_pull n b)"
  using assms by (auto simp: nb_defs wf_buf_def Let_def)

lemma remove_value_aux:
  assumes "wf_buf b" and "\<And>s. length s = n \<Longrightarrow> conv (load s) = get s"
  shows "do { (p, b') \<leftarrow> net_buf_simple_remove_mem n b; let val = load (nb_read p n b'); Some (conv val, b') } =
    map_option (apfst get) (nb_remove n b)"
  using assms by (auto simp: nb_defs wf_buf_def Let_def)

lemma pull_value:
  assumes wf: "wf_buf b"
  shows
    "net_buf_simple_pull_le16 big b = map_option (apfst sys_get_le16) (nb_pull 2 b)"
    "net_buf_simple_pull_be16 big b = map_option (apfst sys_get_be16) (nb_pull 2 b)"
    "net_buf_simple_pull_le24 big b = map_option (apfst sys_get_le24) (nb_pull 3 b)"
    "net_buf_simple_pull_be24 big b = map_option (apfst sys_get_be24) (nb_pull 3 b)"
    "net_buf_simple_pull_le32 big b = map_option (apfst sys_get_le32) (nb_pull 4 b)"
    "net_buf_simple_pull_be32 big b = map_option (apfst sys_get_be32) (nb_pull 4 b)"
    "net_buf_simple_pull_le48 big b = map_option (apfst sys_get_le48) (nb_pull 6 b)"
    "net_buf_simple_pull_be48 big b = map_option (apfst sys_get_be48) (nb_pull 6 b)"
    "net_buf_simple_pull_le64 big b = map_option (apfst sys_get_le64) (nb_pull 8 b)"
    "net_buf_simple_pull_be64 big b = map_option (apfst sys_get_be64) (nb_pull 8 b)"
  unfolding net_buf_simple_pull_le16_def net_buf_simple_pull_be16_def net_buf_simple_pull_le24_def
    net_buf_simple_pull_be24_def net_buf_simple_pull_le32_def net_buf_simple_pull_be32_def
    net_buf_simple_pull_le48_def net_buf_simple_pull_be48_def net_buf_simple_pull_le64_def
    net_buf_simple_pull_be64_def
  by (rule pull_value_aux [OF wf];
      erule h16.le_load h16.be_load h24.le_load h24.be_load h32.le_load h32.be_load
        h48.le_load h48.be_load h64.le_load h64.be_load)+

lemma remove_value:
  assumes wf: "wf_buf b"
  shows
    "net_buf_simple_remove_le16 big b = map_option (apfst sys_get_le16) (nb_remove 2 b)"
    "net_buf_simple_remove_be16 big b = map_option (apfst sys_get_be16) (nb_remove 2 b)"
    "net_buf_simple_remove_le24 big b = map_option (apfst sys_get_le24) (nb_remove 3 b)"
    "net_buf_simple_remove_be24 big b = map_option (apfst sys_get_be24) (nb_remove 3 b)"
    "net_buf_simple_remove_le32 big b = map_option (apfst sys_get_le32) (nb_remove 4 b)"
    "net_buf_simple_remove_be32 big b = map_option (apfst sys_get_be32) (nb_remove 4 b)"
    "net_buf_simple_remove_le48 big b = map_option (apfst sys_get_le48) (nb_remove 6 b)"
    "net_buf_simple_remove_be48 big b = map_option (apfst sys_get_be48) (nb_remove 6 b)"
    "net_buf_simple_remove_le64 big b = map_option (apfst sys_get_le64) (nb_remove 8 b)"
    "net_buf_simple_remove_be64 big b = map_option (apfst sys_get_be64) (nb_remove 8 b)"
  unfolding net_buf_simple_remove_le16_def net_buf_simple_remove_be16_def net_buf_simple_remove_le24_def
    net_buf_simple_remove_be24_def net_buf_simple_remove_le32_def net_buf_simple_remove_be32_def
    net_buf_simple_remove_le48_def net_buf_simple_remove_be48_def net_buf_simple_remove_le64_def
    net_buf_simple_remove_be64_def
  by (rule remove_value_aux [OF wf];
      erule h16.le_load h16.be_load h24.le_load h24.be_load h32.le_load h32.be_load
        h48.le_load h48.be_load h64.le_load h64.be_load)+

text \<open>Pulling, in terms of the bytes a buffer holds.\<close>

lemma nb_pull_bytes:
  assumes "wf_buf buf" "n \<le> nb_len buf"
  shows "nb_pull n buf = Some (take n (nb_bytes buf), buf\<lparr>nb_data := nb_data buf + n, nb_len := nb_len buf - n\<rparr>)"
    "wf_buf (buf\<lparr>nb_data := nb_data buf + n, nb_len := nb_len buf - n\<rparr>)"
    "nb_bytes (buf\<lparr>nb_data := nb_data buf + n, nb_len := nb_len buf - n\<rparr>) = drop n (nb_bytes buf)"
  using assms by (simp_all add: nb_defs wf_buf_def nb_bytes_def drop_take min_def add.commute)

lemma pull_bytes:
  assumes "wf_buf buf" "n \<le> nb_len buf"
  shows "\<exists>b. nb_pull n buf = Some (take n (nb_bytes buf), b) \<and> wf_buf b \<and> nb_bytes b = drop n (nb_bytes buf) \<and> nb_len b = nb_len buf - n"
  using nb_pull_bytes [OF assms] by auto

lemma pull_u8_value: "wf_buf b \<Longrightarrow> net_buf_simple_pull_u8 b = map_option (apfst hd) (nb_pull 1 b)"
  by (auto simp: net_buf_simple_pull_u8_def net_buf_simple_pull_def net_buf_simple_pull_mem_def nb_pull_def nb_read_def wf_buf_def hd_drop_conv_nth)

lemma pull_mem_bytes: "nb_pull n buf = Some (x, b) \<Longrightarrow> \<exists>p. net_buf_simple_pull_mem n buf = Some (p, b) \<and> nb_read p n b = x"
  by (auto simp: nb_pull_def split: Option.bind_splits)

lemma add_mem_append:
  assumes "wf_buf b"
  shows "do { b \<leftarrow> net_buf_simple_add_mem xs b; net_buf_simple_add_mem ys b } = net_buf_simple_add_mem (xs @ ys) b"
proof -
  have l: "nb_data b + nb_len b + length xs \<le> length (nb_buf b)" if "length xs \<le> net_buf_simple_tailroom b"
    using that assms by (auto simp: wf_buf_def nb_defs)
  have "mem_write (p + length xs) ys (mem_write p xs m) = mem_write p (xs @ ys) m" if "p + length xs \<le> length m" for p m
    using that by (simp add: mem_write_def drop_drop ac_simps)
  from this [of "nb_data b + nb_len b" "nb_buf b"] show ?thesis using l
    by (auto simp: net_buf_simple_add_mem_def net_buf_simple_add_def net_buf_simple_tail_def net_buf_simple_tailroom_def net_buf_simple_headroom_def nb_write_def Let_def add.assoc)
qed

lemma push_pull_codec:
  assumes "byte_codec put get n fits" "wf_buf b" "fits v" "net_buf_simple_push_mem (put v) b = Some b1"
  shows "wf_buf b1 \<and> (\<exists>b2. map_option (apfst get) (nb_pull n b1) = Some (v, b2) \<and> wf_buf b2 \<and> abs_of b2 = abs_of b)"
  using nb.push_pull [OF assms(2,4)] nb.wf_push [OF assms(2,4)]
    byte_codec.length_put [OF assms(1), of v] byte_codec.get_put_id [OF assms(1,3)]
  by auto

lemma add_remove_codec:
  assumes "byte_codec put get n fits" "wf_buf b" "fits v" "net_buf_simple_add_mem (put v) b = Some b1"
  shows "wf_buf b1 \<and> (\<exists>b2. map_option (apfst get) (nb_remove n b1) = Some (v, b2) \<and> wf_buf b2 \<and> abs_of b2 = abs_of b)"
  using nb.add_remove [OF assms(2,4)] nb.wf_add [OF assms(2,4)]
    byte_codec.length_put [OF assms(1), of v] byte_codec.get_put_id [OF assms(1,3)]
  by auto

lemmas codec_axioms =
  be16.byte_codec_axioms be24.byte_codec_axioms be32.byte_codec_axioms be48.byte_codec_axioms
  be64.byte_codec_axioms le16.byte_codec_axioms le24.byte_codec_axioms le32.byte_codec_axioms
  le48.byte_codec_axioms le64.byte_codec_axioms

text \<open>A writer and a reader of values that undo each other on every well-formed buffer.\<close>

definition value_roundtrip ::
  "('v \<Rightarrow> net_buf_simple \<Rightarrow> net_buf_simple option) \<Rightarrow>
   (net_buf_simple \<Rightarrow> ('v \<times> net_buf_simple) option) \<Rightarrow> ('v \<Rightarrow> bool) \<Rightarrow> bool" where
  "value_roundtrip write read fits \<longleftrightarrow>
     (\<forall>b v b1. wf_buf b \<longrightarrow> fits v \<longrightarrow> write v b = Some b1 \<longrightarrow>
       (\<exists>b2. read b1 = Some (v, b2) \<and> wf_buf b2 \<and> abs_of b2 = abs_of b))"

lemma push_pull_roundtrip:
  assumes "byte_codec put get n fits" "\<And>v b. write v b = net_buf_simple_push_mem (put v) b"
    and "\<And>b. wf_buf b \<Longrightarrow> read b = map_option (apfst get) (nb_pull n b)"
  shows "value_roundtrip write read fits"
  unfolding value_roundtrip_def using push_pull_codec [OF assms(1)] assms(2,3) by metis

lemma add_remove_roundtrip:
  assumes "byte_codec put get n fits" "\<And>v b. write v b = net_buf_simple_add_mem (put v) b"
    and "\<And>b. wf_buf b \<Longrightarrow> read b = map_option (apfst get) (nb_remove n b)"
  shows "value_roundtrip write read fits"
  unfolding value_roundtrip_def using add_remove_codec [OF assms(1)] assms(2,3) by metis

section \<open>Properties\<close>

text \<open>
  C3: every program of adds, pushes, pulls and removes on a well-formed simple buffer does
  what it does on the abstract buffer (free space in front, contents, free space behind):
  it violates an assertion exactly when the abstract program lacks room or bytes, and
  otherwise hands out the same bytes and leaves the same contents and room.
\<close>

theorem net_buf_simple_refines:
  assumes "wf_buf b"
  shows "map_option (apsnd abs_of)
      (buf_run net_buf_simple_add_mem net_buf_simple_push_mem nb_pull nb_remove ops b) =
    buf_run abs_add abs_push abs_pull abs_remove ops (abs_of b)"
  using assms by (rule nb.run_refines)

definition buf_example :: net_buf_simple where
  "buf_example = \<lparr>nb_data = 2, nb_len = 1, nb_size = 5, nb_buf = [0, 0, 7, 0, 0]\<rparr>"

theorem net_buf_simple_refines_witness:
  "wf_buf buf_example \<and>
   map_option (apsnd abs_of)
     (buf_run net_buf_simple_add_mem net_buf_simple_push_mem nb_pull nb_remove
       [Push [1, 2], Add [9], Pull 3, Push [4], Remove 2] buf_example) =
   Some ([[1, 2, 7], [4, 9]], (2, [], 3))"
proof -
  have wf: "wf_buf buf_example" by (simp add: wf_buf_def buf_example_def)
  show ?thesis
    using wf unfolding net_buf_simple_refines [OF wf]
    by (simp add: abs_of_def nb_bytes_def nb_defs buf_example_def)
qed

text \<open>
  A value of 16, 24, 32, 48 or 64 bits pushed in either byte order is pulled back
  unchanged, on a big-endian and on a little-endian host, and the buffer is as before.
\<close>

theorem net_buf_simple_push_pull_values:
  "value_roundtrip net_buf_simple_push_le16 (net_buf_simple_pull_le16 big) (\<lambda>_. True) \<and>
   value_roundtrip net_buf_simple_push_be16 (net_buf_simple_pull_be16 big) (\<lambda>_. True) \<and>
   value_roundtrip net_buf_simple_push_le24 (net_buf_simple_pull_le24 big) fits24 \<and>
   value_roundtrip net_buf_simple_push_be24 (net_buf_simple_pull_be24 big) fits24 \<and>
   value_roundtrip net_buf_simple_push_le32 (net_buf_simple_pull_le32 big) (\<lambda>_. True) \<and>
   value_roundtrip net_buf_simple_push_be32 (net_buf_simple_pull_be32 big) (\<lambda>_. True) \<and>
   value_roundtrip net_buf_simple_push_le48 (net_buf_simple_pull_le48 big) fits48 \<and>
   value_roundtrip net_buf_simple_push_be48 (net_buf_simple_pull_be48 big) fits48 \<and>
   value_roundtrip net_buf_simple_push_le64 (net_buf_simple_pull_le64 big) (\<lambda>_. True) \<and>
   value_roundtrip net_buf_simple_push_be64 (net_buf_simple_pull_be64 big) (\<lambda>_. True)"
  by (intro conjI; rule push_pull_roundtrip; (rule codec_axioms | rule push_value | erule pull_value))

text \<open>
  A value added at the end in either byte order is removed from the end unchanged, on
  hosts of both byte orders, and the buffer is as before.
\<close>

theorem net_buf_simple_add_remove_values:
  "value_roundtrip net_buf_simple_add_le16 (net_buf_simple_remove_le16 big) (\<lambda>_. True) \<and>
   value_roundtrip net_buf_simple_add_be16 (net_buf_simple_remove_be16 big) (\<lambda>_. True) \<and>
   value_roundtrip net_buf_simple_add_le24 (net_buf_simple_remove_le24 big) fits24 \<and>
   value_roundtrip net_buf_simple_add_be24 (net_buf_simple_remove_be24 big) fits24 \<and>
   value_roundtrip net_buf_simple_add_le32 (net_buf_simple_remove_le32 big) (\<lambda>_. True) \<and>
   value_roundtrip net_buf_simple_add_be32 (net_buf_simple_remove_be32 big) (\<lambda>_. True) \<and>
   value_roundtrip net_buf_simple_add_le48 (net_buf_simple_remove_le48 big) fits48 \<and>
   value_roundtrip net_buf_simple_add_be48 (net_buf_simple_remove_be48 big) fits48 \<and>
   value_roundtrip net_buf_simple_add_le64 (net_buf_simple_remove_le64 big) (\<lambda>_. True) \<and>
   value_roundtrip net_buf_simple_add_be64 (net_buf_simple_remove_be64 big) (\<lambda>_. True)"
  by (intro conjI; rule add_remove_roundtrip; (rule codec_axioms | rule add_value | erule remove_value))

lemma take_off_keeps_storage:
  "nb_pull n b = Some (out, b1) \<Longrightarrow> nb_buf b1 = nb_buf b \<and> nb_size b1 = nb_size b"
  "nb_remove n b = Some (out, b1) \<Longrightarrow> nb_buf b1 = nb_buf b \<and> nb_size b1 = nb_size b"
  by (auto simp: nb_pull_def nb_remove_def net_buf_simple_pull_mem_def net_buf_simple_remove_mem_def
      Let_def split: if_splits)

lemma consume_keeps_storage:
  assumes "\<forall>op \<in> set ops. \<exists>n. op = Pull n \<or> op = Remove n"
    and "buf_run add push nb_pull nb_remove ops b = Some (outs, b')"
  shows "nb_buf b' = nb_buf b \<and> nb_size b' = nb_size b"
  using assms
proof (induction ops arbitrary: b outs)
  case Nil
  then show ?case by simp
next
  case (Cons op ops)
  from Cons.prems(1) obtain n where "op = Pull n \<or> op = Remove n" by auto
  with Cons.prems(2) obtain out b1 outs1 where
    b1: "nb_pull n b = Some (out, b1) \<or> nb_remove n b = Some (out, b1)"
    and rest: "buf_run add push nb_pull nb_remove ops b1 = Some (outs1, b')"
    by (auto split: bind_splits) blast+
  from Cons.IH [OF _ rest] Cons.prems(1) b1 show ?case
    by (auto dest: take_off_keeps_storage)
qed

text \<open>
  After a parser has pulled and removed any bytes, restoring the saved state gives back
  the buffer as it was.
\<close>

theorem net_buf_simple_restore_after_parse:
  assumes "\<forall>op \<in> set ops. \<exists>n. op = Pull n \<or> op = Remove n"
    and "buf_run net_buf_simple_add_mem net_buf_simple_push_mem nb_pull nb_remove ops b = Some (outs, b')"
  shows "net_buf_simple_restore (net_buf_simple_save b) b' = b"
  using consume_keeps_storage [OF assms]
  by (simp add: net_buf_simple_restore_def net_buf_simple_save_def net_buf_simple_headroom_def)

theorem net_buf_simple_restore_after_parse_witness:
  "\<exists>outs b'. buf_run net_buf_simple_add_mem net_buf_simple_push_mem nb_pull nb_remove [Pull 1] buf_example =
      Some (outs, b') \<and> net_buf_simple_restore (net_buf_simple_save buf_example) b' = buf_example"
proof -
  have "\<exists>outs b'. buf_run net_buf_simple_add_mem net_buf_simple_push_mem nb_pull nb_remove [Pull 1] buf_example =
      Some (outs, b')"
    by (simp add: buf_example_def nb_defs)
  then obtain outs b' where run:
    "buf_run net_buf_simple_add_mem net_buf_simple_push_mem nb_pull nb_remove [Pull 1] buf_example = Some (outs, b')"
    by blast
  have "net_buf_simple_restore (net_buf_simple_save buf_example) b' = buf_example"
    by (rule net_buf_simple_restore_after_parse [OF _ run]) simp
  with run show ?thesis by blast
qed

end
