(* ===== verification/Tc_Aes.thy ===== *)
theory Tc_Aes
  imports Bt_Prelude
begin

text \<open>
  The AES-128 block cipher the stack is built with: \<open>aes_encrypt.c\<close>, \<open>aes_decrypt.c\<close> and the
  byte helpers of \<open>utils.c\<close> under \<open>core/src/tinycrypt/source\<close>.  A block is a list of
  sixteen bytes, the key schedule a list of forty-four 32-bit words.  A pointer argument
  that the code compares with the null pointer is an option; the result pointers are the
  function's result, \<open>None\<close> for \<open>TC_CRYPTO_FAIL\<close>.

  The theorem of this theory is that decryption inverts encryption, for every key and
  block, through the table inversion of the S-box, the row shift and the column mixing
  over GF(2^8).
\<close>

section \<open>Byte helpers\<close>

definition tc_copy :: "'a list \<Rightarrow> nat \<Rightarrow> 'a list \<Rightarrow> nat \<Rightarrow> 'a list option" where
  "tc_copy to to_len from from_len =
     (if from_len \<le> to_len then Some (mem_write 0 (take from_len from) to) else None)"

definition double_byte :: "u8 \<Rightarrow> u8" where
  "double_byte a = push_bit 1 a XOR (drop_bit 7 a * 0x1b)"

fun compare_loop :: "bytes \<Rightarrow> bytes \<Rightarrow> nat \<Rightarrow> u8 \<Rightarrow> u8" where
  "compare_loop a b 0 result = result"
| "compare_loop a b (Suc i) result = compare_loop a b i result OR (a ! i XOR b ! i)"

definition tc_compare :: "bytes \<Rightarrow> bytes \<Rightarrow> nat \<Rightarrow> u8" where
  "tc_compare a b n = compare_loop a b n 0"

section \<open>Encryption\<close>

definition sbox :: bytes where
  "sbox =
  [0x63, 0x7c, 0x77, 0x7b, 0xf2, 0x6b, 0x6f, 0xc5, 0x30, 0x01, 0x67, 0x2b, 0xfe, 0xd7, 0xab, 0x76,
   0xca, 0x82, 0xc9, 0x7d, 0xfa, 0x59, 0x47, 0xf0, 0xad, 0xd4, 0xa2, 0xaf, 0x9c, 0xa4, 0x72, 0xc0,
   0xb7, 0xfd, 0x93, 0x26, 0x36, 0x3f, 0xf7, 0xcc, 0x34, 0xa5, 0xe5, 0xf1, 0x71, 0xd8, 0x31, 0x15,
   0x04, 0xc7, 0x23, 0xc3, 0x18, 0x96, 0x05, 0x9a, 0x07, 0x12, 0x80, 0xe2, 0xeb, 0x27, 0xb2, 0x75,
   0x09, 0x83, 0x2c, 0x1a, 0x1b, 0x6e, 0x5a, 0xa0, 0x52, 0x3b, 0xd6, 0xb3, 0x29, 0xe3, 0x2f, 0x84,
   0x53, 0xd1, 0x00, 0xed, 0x20, 0xfc, 0xb1, 0x5b, 0x6a, 0xcb, 0xbe, 0x39, 0x4a, 0x4c, 0x58, 0xcf,
   0xd0, 0xef, 0xaa, 0xfb, 0x43, 0x4d, 0x33, 0x85, 0x45, 0xf9, 0x02, 0x7f, 0x50, 0x3c, 0x9f, 0xa8,
   0x51, 0xa3, 0x40, 0x8f, 0x92, 0x9d, 0x38, 0xf5, 0xbc, 0xb6, 0xda, 0x21, 0x10, 0xff, 0xf3, 0xd2,
   0xcd, 0x0c, 0x13, 0xec, 0x5f, 0x97, 0x44, 0x17, 0xc4, 0xa7, 0x7e, 0x3d, 0x64, 0x5d, 0x19, 0x73,
   0x60, 0x81, 0x4f, 0xdc, 0x22, 0x2a, 0x90, 0x88, 0x46, 0xee, 0xb8, 0x14, 0xde, 0x5e, 0x0b, 0xdb,
   0xe0, 0x32, 0x3a, 0x0a, 0x49, 0x06, 0x24, 0x5c, 0xc2, 0xd3, 0xac, 0x62, 0x91, 0x95, 0xe4, 0x79,
   0xe7, 0xc8, 0x37, 0x6d, 0x8d, 0xd5, 0x4e, 0xa9, 0x6c, 0x56, 0xf4, 0xea, 0x65, 0x7a, 0xae, 0x08,
   0xba, 0x78, 0x25, 0x2e, 0x1c, 0xa6, 0xb4, 0xc6, 0xe8, 0xdd, 0x74, 0x1f, 0x4b, 0xbd, 0x8b, 0x8a,
   0x70, 0x3e, 0xb5, 0x66, 0x48, 0x03, 0xf6, 0x0e, 0x61, 0x35, 0x57, 0xb9, 0x86, 0xc1, 0x1d, 0x9e,
   0xe1, 0xf8, 0x98, 0x11, 0x69, 0xd9, 0x8e, 0x94, 0x9b, 0x1e, 0x87, 0xe9, 0xce, 0x55, 0x28, 0xdf,
   0x8c, 0xa1, 0x89, 0x0d, 0xbf, 0xe6, 0x42, 0x68, 0x41, 0x99, 0x2d, 0x0f, 0xb0, 0x54, 0xbb, 0x16]"

definition rotword :: "u32 \<Rightarrow> u32" where
  "rotword a = drop_bit 24 a OR push_bit 8 a"

definition subbyte :: "u32 \<Rightarrow> nat \<Rightarrow> u32" where
  "subbyte a n = push_bit n (ucast (sbox ! unat (drop_bit n a AND 0xff)))"

definition subword :: "u32 \<Rightarrow> u32" where
  "subword a = subbyte a 24 OR subbyte a 16 OR subbyte a 8 OR subbyte a 0"

definition rconst :: "u32 list" where
  "rconst = [0x00000000, 0x01000000, 0x02000000, 0x04000000, 0x08000000, 0x10000000,
     0x20000000, 0x40000000, 0x80000000, 0x1b000000, 0x36000000]"

definition key_word :: "bytes \<Rightarrow> nat \<Rightarrow> u32" where
  "key_word k i = push_bit 24 (ucast (k ! (4 * i))) OR push_bit 16 (ucast (k ! (4 * i + 1))) OR
     push_bit 8 (ucast (k ! (4 * i + 2))) OR ucast (k ! (4 * i + 3))"

text \<open>One turn of the schedule's second loop: word \<open>i\<close> from the words before it.\<close>

definition key_step :: "u32 list \<Rightarrow> nat \<Rightarrow> u32 list" where
  "key_step words i =
     (let t = words ! (i - 1);
          t' = (if i mod 4 = 0 then subword (rotword t) XOR rconst ! (i div 4) else t)
      in words @ [words ! (i - 4) XOR t'])"

definition tc_aes128_set_encrypt_key :: "bytes option \<Rightarrow> u32 list option" where
  "tc_aes128_set_encrypt_key key =
     (case key of None \<Rightarrow> None
      | Some k \<Rightarrow> Some (foldl key_step (map (key_word k) [0..<4]) [4..<44]))"

definition add_round_key :: "bytes \<Rightarrow> u32 list \<Rightarrow> bytes" where
  "add_round_key s k =
     [s ! 0 XOR ucast (drop_bit 24 (k ! 0)), s ! 1 XOR ucast (drop_bit 16 (k ! 0)), s ! 2 XOR ucast (drop_bit 8 (k ! 0)), s ! 3 XOR ucast (k ! 0),
      s ! 4 XOR ucast (drop_bit 24 (k ! 1)), s ! 5 XOR ucast (drop_bit 16 (k ! 1)), s ! 6 XOR ucast (drop_bit 8 (k ! 1)), s ! 7 XOR ucast (k ! 1),
      s ! 8 XOR ucast (drop_bit 24 (k ! 2)), s ! 9 XOR ucast (drop_bit 16 (k ! 2)), s ! 10 XOR ucast (drop_bit 8 (k ! 2)), s ! 11 XOR ucast (k ! 2),
      s ! 12 XOR ucast (drop_bit 24 (k ! 3)), s ! 13 XOR ucast (drop_bit 16 (k ! 3)), s ! 14 XOR ucast (drop_bit 8 (k ! 3)), s ! 15 XOR ucast (k ! 3)]"

definition sub_bytes :: "bytes \<Rightarrow> bytes" where
  "sub_bytes s = map (\<lambda>i. sbox ! unat (s ! i)) [0..<16]"

abbreviation triple :: "u8 \<Rightarrow> u8" where
  "triple a \<equiv> double_byte a XOR a"

definition mult_row_column :: "bytes \<Rightarrow> bytes" where
  "mult_row_column s =
     [double_byte (s ! 0) XOR triple (s ! 1) XOR s ! 2 XOR s ! 3,
      s ! 0 XOR double_byte (s ! 1) XOR triple (s ! 2) XOR s ! 3,
      s ! 0 XOR s ! 1 XOR double_byte (s ! 2) XOR triple (s ! 3),
      triple (s ! 0) XOR s ! 1 XOR s ! 2 XOR double_byte (s ! 3)]"

definition mix_columns :: "bytes \<Rightarrow> bytes" where
  "mix_columns s = mult_row_column s @ mult_row_column (drop 4 s) @
     mult_row_column (drop 8 s) @ mult_row_column (drop 12 s)"

definition shift_rows :: "bytes \<Rightarrow> bytes" where
  "shift_rows s =
     [s ! 0, s ! 5, s ! 10, s ! 15, s ! 4, s ! 9, s ! 14, s ! 3, s ! 8, s ! 13, s ! 2, s ! 7, s ! 12, s ! 1, s ! 6, s ! 11]"

definition enc_round :: "u32 list \<Rightarrow> bytes \<Rightarrow> nat \<Rightarrow> bytes" where
  "enc_round words s i = add_round_key (mix_columns (shift_rows (sub_bytes s))) (drop (4 * (i + 1)) words)"

definition tc_aes_encrypt :: "bytes option \<Rightarrow> u32 list option \<Rightarrow> bytes option" where
  "tc_aes_encrypt in_ptr sched =
     (case in_ptr of None \<Rightarrow> None
      | Some inp \<Rightarrow> (case sched of None \<Rightarrow> None
      | Some words \<Rightarrow>
          (let state = add_round_key (take 16 inp) words;
               state = foldl (enc_round words) state [0..<9];
               state = shift_rows (sub_bytes state)
           in Some (add_round_key state (drop 40 words)))))"

section \<open>Decryption\<close>

definition inv_sbox :: bytes where
  "inv_sbox =
  [0x52, 0x09, 0x6a, 0xd5, 0x30, 0x36, 0xa5, 0x38, 0xbf, 0x40, 0xa3, 0x9e, 0x81, 0xf3, 0xd7, 0xfb,
   0x7c, 0xe3, 0x39, 0x82, 0x9b, 0x2f, 0xff, 0x87, 0x34, 0x8e, 0x43, 0x44, 0xc4, 0xde, 0xe9, 0xcb,
   0x54, 0x7b, 0x94, 0x32, 0xa6, 0xc2, 0x23, 0x3d, 0xee, 0x4c, 0x95, 0x0b, 0x42, 0xfa, 0xc3, 0x4e,
   0x08, 0x2e, 0xa1, 0x66, 0x28, 0xd9, 0x24, 0xb2, 0x76, 0x5b, 0xa2, 0x49, 0x6d, 0x8b, 0xd1, 0x25,
   0x72, 0xf8, 0xf6, 0x64, 0x86, 0x68, 0x98, 0x16, 0xd4, 0xa4, 0x5c, 0xcc, 0x5d, 0x65, 0xb6, 0x92,
   0x6c, 0x70, 0x48, 0x50, 0xfd, 0xed, 0xb9, 0xda, 0x5e, 0x15, 0x46, 0x57, 0xa7, 0x8d, 0x9d, 0x84,
   0x90, 0xd8, 0xab, 0x00, 0x8c, 0xbc, 0xd3, 0x0a, 0xf7, 0xe4, 0x58, 0x05, 0xb8, 0xb3, 0x45, 0x06,
   0xd0, 0x2c, 0x1e, 0x8f, 0xca, 0x3f, 0x0f, 0x02, 0xc1, 0xaf, 0xbd, 0x03, 0x01, 0x13, 0x8a, 0x6b,
   0x3a, 0x91, 0x11, 0x41, 0x4f, 0x67, 0xdc, 0xea, 0x97, 0xf2, 0xcf, 0xce, 0xf0, 0xb4, 0xe6, 0x73,
   0x96, 0xac, 0x74, 0x22, 0xe7, 0xad, 0x35, 0x85, 0xe2, 0xf9, 0x37, 0xe8, 0x1c, 0x75, 0xdf, 0x6e,
   0x47, 0xf1, 0x1a, 0x71, 0x1d, 0x29, 0xc5, 0x89, 0x6f, 0xb7, 0x62, 0x0e, 0xaa, 0x18, 0xbe, 0x1b,
   0xfc, 0x56, 0x3e, 0x4b, 0xc6, 0xd2, 0x79, 0x20, 0x9a, 0xdb, 0xc0, 0xfe, 0x78, 0xcd, 0x5a, 0xf4,
   0x1f, 0xdd, 0xa8, 0x33, 0x88, 0x07, 0xc7, 0x31, 0xb1, 0x12, 0x10, 0x59, 0x27, 0x80, 0xec, 0x5f,
   0x60, 0x51, 0x7f, 0xa9, 0x19, 0xb5, 0x4a, 0x0d, 0x2d, 0xe5, 0x7a, 0x9f, 0x93, 0xc9, 0x9c, 0xef,
   0xa0, 0xe0, 0x3b, 0x4d, 0xae, 0x2a, 0xf5, 0xb0, 0xc8, 0xeb, 0xbb, 0x3c, 0x83, 0x53, 0x99, 0x61,
   0x17, 0x2b, 0x04, 0x7e, 0xba, 0x77, 0xd6, 0x26, 0xe1, 0x69, 0x14, 0x63, 0x55, 0x21, 0x0c, 0x7d]"

definition tc_aes128_set_decrypt_key :: "bytes option \<Rightarrow> u32 list option" where
  "tc_aes128_set_decrypt_key key = tc_aes128_set_encrypt_key key"

definition mult8 :: "u8 \<Rightarrow> u8" where
  "mult8 a = double_byte (double_byte (double_byte a))"

definition mult9 :: "u8 \<Rightarrow> u8" where
  "mult9 a = mult8 a XOR a"

definition multb :: "u8 \<Rightarrow> u8" where
  "multb a = mult8 a XOR double_byte a XOR a"

definition multd :: "u8 \<Rightarrow> u8" where
  "multd a = mult8 a XOR double_byte (double_byte a) XOR a"

definition multe :: "u8 \<Rightarrow> u8" where
  "multe a = mult8 a XOR double_byte (double_byte a) XOR double_byte a"

definition inv_mult_row_column :: "bytes \<Rightarrow> bytes" where
  "inv_mult_row_column s =
     [multe (s ! 0) XOR multb (s ! 1) XOR multd (s ! 2) XOR mult9 (s ! 3),
      mult9 (s ! 0) XOR multe (s ! 1) XOR multb (s ! 2) XOR multd (s ! 3),
      multd (s ! 0) XOR mult9 (s ! 1) XOR multe (s ! 2) XOR multb (s ! 3),
      multb (s ! 0) XOR multd (s ! 1) XOR mult9 (s ! 2) XOR multe (s ! 3)]"

definition inv_mix_columns :: "bytes \<Rightarrow> bytes" where
  "inv_mix_columns s = inv_mult_row_column s @ inv_mult_row_column (drop 4 s) @
     inv_mult_row_column (drop 8 s) @ inv_mult_row_column (drop 12 s)"

definition inv_sub_bytes :: "bytes \<Rightarrow> bytes" where
  "inv_sub_bytes s = map (\<lambda>i. inv_sbox ! unat (s ! i)) [0..<16]"

definition inv_shift_rows :: "bytes \<Rightarrow> bytes" where
  "inv_shift_rows s =
     [s ! 0, s ! 13, s ! 10, s ! 7, s ! 4, s ! 1, s ! 14, s ! 11, s ! 8, s ! 5, s ! 2, s ! 15, s ! 12, s ! 9, s ! 6, s ! 3]"

definition dec_round :: "u32 list \<Rightarrow> bytes \<Rightarrow> nat \<Rightarrow> bytes" where
  "dec_round words s i =
     inv_mix_columns (add_round_key (inv_sub_bytes (inv_shift_rows s)) (drop (4 * i) words))"

definition tc_aes_decrypt :: "bytes option \<Rightarrow> u32 list option \<Rightarrow> bytes option" where
  "tc_aes_decrypt in_ptr sched =
     (case in_ptr of None \<Rightarrow> None
      | Some inp \<Rightarrow> (case sched of None \<Rightarrow> None
      | Some words \<Rightarrow>
          (let state = add_round_key (take 16 inp) (drop 40 words);
               state = foldl (dec_round words) state (rev [1..<10]);
               state = inv_sub_bytes (inv_shift_rows state)
           in Some (add_round_key state words))))"

section \<open>Each step and its inverse\<close>

lemma drop_bit_7: "drop_bit 7 (x :: u8) = (if bit x 7 then 1 else 0)"
proof (rule bit_word_eqI)
  fix n
  have "bit x (7 + n) \<longleftrightarrow> n = 0 \<and> bit x 7"
    using bit_imp_le_length [of x "7 + n"] by (cases n) auto
  then show "bit (drop_bit 7 x) n = bit (if bit x 7 then 1 else 0 :: u8) n"
    by (auto simp: bit_simps)
qed

lemma double_byte_xor: "double_byte (a XOR b) = double_byte a XOR double_byte b"
  unfolding double_byte_def drop_bit_7 by (simp add: bit_xor_iff ac_simps)

lemma length_mult_row_column [simp]: "length (mult_row_column s) = 4"
  by (simp add: mult_row_column_def)

lemma inv_mult_row_column_inverse:
  "inv_mult_row_column (mult_row_column (a # b # c # d # r) @ t) = [a, b, c, d]"
  by (simp add: mult_row_column_def inv_mult_row_column_def mult9_def multb_def multd_def multe_def
      mult8_def double_byte_xor) (simp add: ac_simps)

lemmas inv_mult_row_column_inverse0 = inv_mult_row_column_inverse [where t = "[]", simplified]

lemma inv_mix_columns_inverse:
  assumes "length s = 16"
  shows "inv_mix_columns (mix_columns s) = s"
proof -
  obtain a0 a1 a2 a3 a4 a5 a6 a7 a8 a9 a10 a11 a12 a13 a14 a15
    where s: "s = [a0, a1, a2, a3, a4, a5, a6, a7, a8, a9, a10, a11, a12, a13, a14, a15]"
    using assms by (rule list_cases16)
  show ?thesis
    by (simp add: s mix_columns_def inv_mix_columns_def inv_mult_row_column_inverse inv_mult_row_column_inverse0)
qed

lemma length_round [simp]:
  "length (add_round_key s k) = 16" "length (sub_bytes s) = 16" "length (shift_rows s) = 16"
  "length (mix_columns s) = 16" "length (inv_sub_bytes s) = 16" "length (inv_shift_rows s) = 16"
  by (simp_all add: add_round_key_def sub_bytes_def shift_rows_def mix_columns_def inv_sub_bytes_def
      inv_shift_rows_def)

lemma inv_shift_rows_inverse:
  assumes "length s = 16"
  shows "inv_shift_rows (shift_rows s) = s"
  using assms by (rule list_cases16) (simp add: shift_rows_def inv_shift_rows_def)

lemma add_round_key_inverse:
  assumes "length s = 16"
  shows "add_round_key (add_round_key s k) k = s"
  using assms by (rule list_cases16) (simp add: add_round_key_def xor.assoc)

lemma inv_sbox_table: "map (\<lambda>b. inv_sbox ! unat b) sbox = map word_of_nat [0..<256]"
  by code_simp

lemma length_sbox: "length sbox = 256"
  by (simp add: sbox_def)

lemma inv_sbox_sbox: "inv_sbox ! unat (sbox ! unat (b :: u8)) = b"
proof -
  have lt: "unat b < 256" using unsigned_less [of b] by simp
  then have "map (\<lambda>b. inv_sbox ! unat b) sbox ! unat b = word_of_nat (unat b)"
    unfolding inv_sbox_table by simp
  with lt show ?thesis by (simp add: length_sbox)
qed

lemma inv_sub_bytes_inverse:
  assumes "length s = 16"
  shows "inv_sub_bytes (sub_bytes s) = s"
  by (rule nth_equalityI) (use assms in \<open>simp_all add: sub_bytes_def inv_sub_bytes_def inv_sbox_sbox\<close>)

lemma length_enc_round [simp]: "length (enc_round w s i) = 16"
  by (simp add: enc_round_def)

lemma dec_enc_round:
  assumes "length s = 16"
  shows "dec_round w (shift_rows (sub_bytes (enc_round w s i))) (Suc i) = shift_rows (sub_bytes s)"
  unfolding dec_round_def
  by (simp add: inv_shift_rows_inverse inv_sub_bytes_inverse)
    (simp add: enc_round_def add_round_key_inverse inv_mix_columns_inverse)

lemma length_foldl_enc [simp]: "length s = 16 \<Longrightarrow> length (foldl (enc_round w) s xs) = 16"
  by (induction xs arbitrary: s) auto

lemma dec_enc_rounds:
  assumes "length s = 16"
  shows "foldl (dec_round w) (shift_rows (sub_bytes (foldl (enc_round w) s [0..<n]))) (rev [1..<Suc n]) =
    shift_rows (sub_bytes s)"
proof (induction n)
  case 0
  then show ?case by simp
next
  case (Suc n)
  have "dec_round w (shift_rows (sub_bytes (foldl (enc_round w) s [0..<Suc n]))) (Suc n) =
      shift_rows (sub_bytes (foldl (enc_round w) s [0..<n]))"
    using dec_enc_round [OF length_foldl_enc [OF assms], of w w "[0..<n]" n] by simp
  with Suc show ?case by simp
qed

lemma length_tc_aes_encrypt:
  "tc_aes_encrypt (Some blk) (Some w) = Some c \<Longrightarrow> length c = 16"
  by (auto simp: tc_aes_encrypt_def Let_def)

lemma tc_aes_encrypt_Some: "\<exists>c. tc_aes_encrypt (Some blk) (Some w) = Some c"
  by (simp add: tc_aes_encrypt_def Let_def)

lemma set_encrypt_key_Some: "\<exists>w. tc_aes128_set_encrypt_key (Some k) = Some w"
  by (simp add: tc_aes128_set_encrypt_key_def)

lemma decrypt_encrypt_schedule:
  assumes "length blk = 16" "tc_aes_encrypt (Some blk) (Some w) = Some c"
  shows "tc_aes_decrypt (Some c) (Some w) = Some blk"
  using assms dec_enc_rounds [of "add_round_key blk w" w 9]
  by (auto simp: tc_aes_encrypt_def tc_aes_decrypt_def Let_def add_round_key_inverse
      inv_shift_rows_inverse inv_sub_bytes_inverse)

text \<open>
  \<open>_compare\<close> is zero exactly when the two arrays agree.
\<close>

lemma compare_loop_zero:
  "compare_loop a b n 0 = 0 \<longleftrightarrow> (\<forall>i < n. a ! i = b ! i)"
proof (induction n)
  case 0
  then show ?case by simp
next
  case (Suc n)
  then show ?case by (auto simp: less_Suc_eq xor_word_eq_0_iff or_word_eq_0_iff)
qed

section \<open>Properties\<close>

text \<open>
  C8: for every key and every sixteen-byte block, setting up the decryption key and
  decrypting what was encrypted under the same key returns the block.
\<close>

theorem tc_aes_decrypt_encrypt:
  assumes "length blk = 16"
  shows "do { w \<leftarrow> tc_aes128_set_encrypt_key (Some k);
       c \<leftarrow> tc_aes_encrypt (Some blk) (Some w);
       w' \<leftarrow> tc_aes128_set_decrypt_key (Some k);
       tc_aes_decrypt (Some c) (Some w') } = Some blk"
proof -
  obtain w c where w: "tc_aes128_set_encrypt_key (Some k) = Some w"
    and c: "tc_aes_encrypt (Some blk) (Some w) = Some c"
    using set_encrypt_key_Some tc_aes_encrypt_Some by blast
  from decrypt_encrypt_schedule [OF assms c] w c show ?thesis
    by (simp add: tc_aes128_set_decrypt_key_def)
qed

theorem tc_aes_decrypt_encrypt_witness:
  "length (replicate 16 (7 :: u8)) = 16 \<and>
   do { w \<leftarrow> tc_aes128_set_encrypt_key (Some (replicate 16 1));
        c \<leftarrow> tc_aes_encrypt (Some (replicate 16 7)) (Some w);
        w' \<leftarrow> tc_aes128_set_decrypt_key (Some (replicate 16 1));
        tc_aes_decrypt (Some c) (Some w') } = Some (replicate 16 7)"
  using tc_aes_decrypt_encrypt [of "replicate 16 7" "replicate 16 1"] by simp

end
