(* ===== verification/Tc_Cmac.thy ===== *)
theory Tc_Cmac
  imports Tc_Aes
begin

text \<open>
  AES-CMAC as the stack computes it, \<open>core/src/tinycrypt/source/cmac_mode.c\<close>: subkey
  generation by doubling in GF(2^128), incremental updates that keep an unprocessed tail
  of at most one block, and finalisation.

  \<open>struct tc_cmac_struct\<close> is the record \<open>cmac_state\<close>; the functions return the new state
  or \<open>None\<close> for \<open>TC_CRYPTO_FAIL\<close>.  The specification \<open>cmac_spec\<close> is the one-pass
  definition of CMAC over the whole message.  The theorems say for which ways of cutting
  a message into updates the incremental computation meets it, and what it computes for
  the other ones.
\<close>

section \<open>State and operations\<close>

record cmac_state =
  cm_iv :: bytes
  cm_K1 :: bytes
  cm_K2 :: bytes
  cm_leftover :: bytes
  cm_sched :: "u32 list"
  cm_leftover_offset :: nat
  cm_countdown :: nat

abbreviation MAX_CALLS :: nat where
  "MAX_CALLS \<equiv> 2 ^ 48"

text \<open>
  \<open>tc_aes_encrypt(out, in, sched)\<close> with its status ignored: \<open>out\<close> keeps its contents
  when the call fails.
\<close>

definition aes_into :: "bytes \<Rightarrow> bytes \<Rightarrow> u32 list \<Rightarrow> bytes" where
  "aes_into out inp sched =
     (case tc_aes_encrypt (Some inp) (Some sched) of None \<Rightarrow> out | Some c \<Rightarrow> c)"

fun gf_double_loop :: "bytes \<Rightarrow> nat \<Rightarrow> u8 \<Rightarrow> bytes \<Rightarrow> bytes" where
  "gf_double_loop inp 0 carry out = (push_bit 1 (inp ! 0) XOR carry) # out"
| "gf_double_loop inp (Suc x) carry out =
     gf_double_loop inp x (drop_bit 7 (inp ! Suc x)) ((push_bit 1 (inp ! Suc x) XOR carry) # out)"

definition gf_double :: "bytes \<Rightarrow> bytes" where
  "gf_double inp = gf_double_loop inp 15 (if drop_bit 7 (inp ! 0) \<noteq> 0 then 0x87 else 0) []"

definition tc_cmac_init :: "cmac_state \<Rightarrow> cmac_state" where
  "tc_cmac_init s = s\<lparr>cm_iv := replicate 16 0, cm_leftover := replicate 16 0,
     cm_leftover_offset := 0, cm_countdown := MAX_CALLS\<rparr>"

definition tc_cmac_erase :: "cmac_state \<Rightarrow> cmac_state" where
  "tc_cmac_erase s = \<lparr>cm_iv = replicate 16 0, cm_K1 = replicate 16 0, cm_K2 = replicate 16 0,
     cm_leftover = replicate 16 0, cm_sched = [], cm_leftover_offset = 0, cm_countdown = 0\<rparr>"

definition tc_cmac_setup :: "bytes option \<Rightarrow> cmac_state option" where
  "tc_cmac_setup key =
     (case key of None \<Rightarrow> None
      | Some _ \<Rightarrow>
         (let sched = (case tc_aes128_set_encrypt_key key of None \<Rightarrow> [] | Some w \<Rightarrow> w);
              iv = aes_into (replicate 16 0) (replicate 16 0) sched;
              k1 = gf_double iv;
              k2 = gf_double k1
          in Some (tc_cmac_init \<lparr>cm_iv = iv, cm_K1 = k1, cm_K2 = k2, cm_leftover = replicate 16 0,
               cm_sched = sched, cm_leftover_offset = 0, cm_countdown = 0\<rparr>)))"

text \<open>The loop over all data blocks except the last: the chaining value and the rest.\<close>

function cmac_blocks :: "u32 list \<Rightarrow> bytes \<Rightarrow> bytes \<Rightarrow> bytes \<times> bytes" where
  "cmac_blocks sched iv dat =
     (if 16 < length dat
      then cmac_blocks sched (let x = xor_bytes iv (take 16 dat) in aes_into x x sched) (drop 16 dat)
      else (iv, dat))"
  by pat_completeness auto
termination
  by (relation "measure (\<lambda>(sched, iv, dat). length dat)") auto

declare cmac_blocks.simps [simp del]

definition tc_cmac_update :: "cmac_state \<Rightarrow> bytes option \<Rightarrow> nat \<Rightarrow> cmac_state option" where
  "tc_cmac_update s dat len =
     (if len = 0 then Some s
      else case dat of None \<Rightarrow> None
      | Some d \<Rightarrow>
         if cm_countdown s = 0 then None
         else
           (let s = s\<lparr>cm_countdown := cm_countdown s - 1\<rparr>;
                d = take len d;
                off = cm_leftover_offset s;
                remaining_space = 16 - off
            in if 0 < off \<and> length d < remaining_space
               then Some (s\<lparr>cm_leftover := mem_write off d (cm_leftover s),
                            cm_leftover_offset := off + length d\<rparr>)
               else
                 (let (s, d) =
                    (if 0 < off then
                       (let lo = mem_write off (take remaining_space d) (cm_leftover s);
                            x = xor_bytes (cm_iv s) lo
                        in (s\<lparr>cm_leftover := lo, cm_leftover_offset := 0,
                              cm_iv := aes_into x x (cm_sched s)\<rparr>, drop remaining_space d))
                     else (s, d));
                      (iv, d) = cmac_blocks (cm_sched s) (cm_iv s) d;
                      s = s\<lparr>cm_iv := iv\<rparr>
                  in if 0 < length d
                     then Some (s\<lparr>cm_leftover := mem_write 0 d (cm_leftover s),
                                  cm_leftover_offset := length d\<rparr>)
                     else Some s)))"

definition tc_cmac_final :: "cmac_state \<Rightarrow> bytes \<times> cmac_state" where
  "tc_cmac_final s =
     (let off = cm_leftover_offset s;
          (lo, k) =
            (if off = 16 then (cm_leftover s, cm_K1 s)
             else ((mem_write off (replicate (16 - off) 0) (cm_leftover s))[off := 0x80], cm_K2 s));
          iv = xor_bytes (cm_iv s) (xor_bytes lo k);
          tag = aes_into (replicate 16 0) iv (cm_sched s)
      in (tag, tc_cmac_erase s))"

section \<open>Specification\<close>

text \<open>
  The message's blocks except the last are chained; the last, possibly short or empty,
  block is masked with a subkey.
\<close>

definition cmac_last :: "u32 list \<Rightarrow> bytes \<Rightarrow> bytes \<Rightarrow> bytes \<Rightarrow> bytes \<Rightarrow> bytes" where
  "cmac_last sched k1 k2 iv lo =
     (let m = (if length lo = 16 then xor_bytes lo k1
               else xor_bytes (lo @ 0x80 # replicate (15 - length lo) 0) k2)
      in aes_into (replicate 16 0) (xor_bytes iv m) sched)"

definition cmac_spec :: "u32 list \<Rightarrow> bytes \<Rightarrow> bytes \<Rightarrow> bytes \<Rightarrow> bytes" where
  "cmac_spec sched k1 k2 msg =
     (let (iv, lo) = cmac_blocks sched (replicate 16 0) msg in cmac_last sched k1 k2 iv lo)"

section \<open>Lengths and the chaining loop\<close>

lemma length_aes_into [simp]: "length (aes_into out inp sched) = 16"
  using tc_aes_encrypt_Some [of inp sched] length_tc_aes_encrypt [of inp sched]
  by (auto simp: aes_into_def)

lemma cmac_blocks_short: "length d \<le> 16 \<Longrightarrow> cmac_blocks w iv d = (iv, d)"
  by (simp add: cmac_blocks.simps)

lemma cmac_blocks_long:
  "16 < length d \<Longrightarrow> cmac_blocks w iv d =
     cmac_blocks w (aes_into (xor_bytes iv (take 16 d)) (xor_bytes iv (take 16 d)) w) (drop 16 d)"
  by (subst cmac_blocks.simps) (simp add: Let_def)

lemma cmac_blocks_rest:
  "cmac_blocks w iv d = (iv', lo) \<Longrightarrow> length lo \<le> 16 \<and> (lo = [] \<longleftrightarrow> d = []) \<and>
     (length iv = 16 \<longrightarrow> length iv' = 16) \<and> length lo mod 16 = length d mod 16"
proof (induction w iv d rule: cmac_blocks.induct)
  case (1 w iv d)
  show ?case
  proof (cases "16 < length d")
    case True
    with "1.prems" have "cmac_blocks w (aes_into (xor_bytes iv (take 16 d)) (xor_bytes iv (take 16 d)) w)
        (drop 16 d) = (iv', lo)"
      by (simp add: cmac_blocks_long)
    with "1.IH" True show ?thesis
      by (auto simp: Let_def le_mod_geq)
  qed (use "1.prems" in \<open>simp add: cmac_blocks_short\<close>)
qed

lemma cmac_blocks_append:
  "cmac_blocks w iv m = (iv', lo) \<Longrightarrow> cmac_blocks w iv (m @ d) = cmac_blocks w iv' (lo @ d)"
proof (induction w iv m rule: cmac_blocks.induct)
  case (1 w iv m)
  show ?case
  proof (cases "16 < length m")
    case True
    with "1.prems" have "cmac_blocks w (aes_into (xor_bytes iv (take 16 m)) (xor_bytes iv (take 16 m)) w)
        (drop 16 m) = (iv', lo)"
      by (simp add: cmac_blocks_long)
    with "1.IH" True show ?thesis
      by (simp add: cmac_blocks_long Let_def)
  qed (use "1.prems" in \<open>simp add: cmac_blocks_short\<close>)
qed

section \<open>What an update leaves behind\<close>

text \<open>
  \<open>holds s m\<close>: the state has absorbed \<open>m\<close> and keeps its last block in the leftover
  buffer.  \<open>holds_full s m\<close>: it has absorbed \<open>m\<close>, a positive number of whole blocks, and
  has already encrypted the last of them, which happens when an update fills a partial
  leftover block exactly.
\<close>

definition cmac_wf :: "cmac_state \<Rightarrow> bool" where
  "cmac_wf s \<longleftrightarrow> length (cm_iv s) = 16 \<and> length (cm_leftover s) = 16 \<and> cm_leftover_offset s \<le> 16"

definition holds :: "cmac_state \<Rightarrow> bytes \<Rightarrow> bool" where
  "holds s m \<longleftrightarrow> cmac_wf s \<and>
     cmac_blocks (cm_sched s) (replicate 16 0) m = (cm_iv s, take (cm_leftover_offset s) (cm_leftover s))"

definition holds_full :: "cmac_state \<Rightarrow> bytes \<Rightarrow> bool" where
  "holds_full s m \<longleftrightarrow> cmac_wf s \<and> cm_leftover_offset s = 0 \<and>
     (\<exists>iv lo. cmac_blocks (cm_sched s) (replicate 16 0) m = (iv, lo) \<and> length lo = 16 \<and>
       cm_iv s = aes_into (xor_bytes iv lo) (xor_bytes iv lo) (cm_sched s))"

lemma take_mem_write_off:
  "off + length d \<le> length m \<Longrightarrow> take (off + length d) (mem_write off d m) = take off m @ d"
  using mem_write_append_read [of 0 off d m] by simp

text \<open>The part of an update after the leftover block has been dealt with.\<close>

definition absorb :: "cmac_state \<Rightarrow> bytes \<Rightarrow> cmac_state" where
  "absorb s d =
     (let (iv, d) = cmac_blocks (cm_sched s) (cm_iv s) d; s = s\<lparr>cm_iv := iv\<rparr>
      in if 0 < length d
         then s\<lparr>cm_leftover := mem_write 0 d (cm_leftover s), cm_leftover_offset := length d\<rparr> else s)"

lemma absorb_holds:
  assumes "cmac_wf s" "d \<noteq> []" "cmac_blocks (cm_sched s) (replicate 16 0) m = cmac_blocks (cm_sched s) (cm_iv s) d"
  shows "holds (absorb s d) m"
proof -
  obtain iv lo where b: "cmac_blocks (cm_sched s) (cm_iv s) d = (iv, lo)"
    by (cases "cmac_blocks (cm_sched s) (cm_iv s) d") auto
  from cmac_blocks_rest [OF b] assms have "lo \<noteq> []" "length lo \<le> 16" "length iv = 16"
    by (auto simp: cmac_wf_def)
  with b assms show ?thesis
    using mem_write_read [of 0 lo "cm_leftover s"]
    by (simp add: absorb_def holds_def cmac_wf_def)
qed

text \<open>One update in terms of the length of the leftover block.\<close>

lemma update_cases:
  assumes "d \<noteq> []" "0 < cm_countdown s" "cmac_wf s"
  defines "s1 \<equiv> s\<lparr>cm_countdown := cm_countdown s - 1\<rparr>" and "off \<equiv> cm_leftover_offset s"
  defines "lo \<equiv> mem_write off (take (16 - off) d) (cm_leftover s)"
  shows "tc_cmac_update s (Some d) (length d) =
    Some (if 0 < off \<and> length d < 16 - off
          then s1\<lparr>cm_leftover := mem_write off d (cm_leftover s), cm_leftover_offset := off + length d\<rparr>
          else if 0 < off
          then absorb (s1\<lparr>cm_leftover := lo, cm_leftover_offset := 0,
                 cm_iv := aes_into (xor_bytes (cm_iv s) lo) (xor_bytes (cm_iv s) lo) (cm_sched s)\<rparr>)
                 (drop (16 - off) d)
          else absorb s1 d)"
  using assms(1,2)
  by (simp add: tc_cmac_update_def absorb_def Let_def s1_def off_def lo_def split_def)


definition same_keys :: "cmac_state \<Rightarrow> cmac_state \<Rightarrow> bool" where
  "same_keys s s' \<longleftrightarrow> cm_sched s' = cm_sched s \<and> cm_K1 s' = cm_K1 s \<and> cm_K2 s' = cm_K2 s \<and>
     cm_countdown s' = cm_countdown s - 1"

lemma absorb_same_keys:
  "cm_sched (absorb s d) = cm_sched s" "cm_K1 (absorb s d) = cm_K1 s" "cm_K2 (absorb s d) = cm_K2 s"
  "cm_countdown (absorb s d) = cm_countdown s"
  by (simp_all add: absorb_def Let_def split_def)

lemma update_same_keys:
  assumes "d \<noteq> []" "0 < cm_countdown s" "cmac_wf s" "tc_cmac_update s (Some d) (length d) = Some s'"
  shows "same_keys s s'"
  using assms update_cases [OF assms(1-3)]
  by (auto simp: same_keys_def absorb_same_keys)

lemma update_holds:
  assumes h: "holds s m" and d: "d \<noteq> []" "0 < cm_countdown s"
  shows "\<exists>s'. tc_cmac_update s (Some d) (length d) = Some s' \<and> same_keys s s' \<and>
    (if 0 < cm_leftover_offset s \<and> length d = 16 - cm_leftover_offset s
     then holds_full s' (m @ d) else holds s' (m @ d))"
proof -
  let ?off = "cm_leftover_offset s" and ?w = "cm_sched s"
  have wf: "cmac_wf s" using h by (simp add: holds_def)
  then have off: "?off \<le> 16" "length (cm_iv s) = 16" "length (cm_leftover s) = 16"
    by (simp_all add: cmac_wf_def)
  define lo where "lo = take ?off (cm_leftover s)"
  have b: "cmac_blocks ?w (replicate 16 0) m = (cm_iv s, lo)"
    using h by (simp add: holds_def lo_def)
  have bd: "cmac_blocks ?w (replicate 16 0) (m @ d) = cmac_blocks ?w (cm_iv s) (lo @ d)"
    using b by (rule cmac_blocks_append)
  have lenlo: "length lo = ?off" using off by (simp add: lo_def)
  obtain s' where s': "tc_cmac_update s (Some d) (length d) = Some s'"
    using update_cases [OF d wf] by simp
  note u = update_cases [OF d wf, unfolded s' option.inject]
  let ?blk = "mem_write ?off (take (16 - ?off) d) (cm_leftover s)"
  let ?iv = "aes_into (xor_bytes (cm_iv s) ?blk) (xor_bytes (cm_iv s) ?blk) ?w"
  consider (short) "0 < ?off" "length d < 16 - ?off" | (fill) "0 < ?off" "16 - ?off \<le> length d"
    | (fresh) "?off = 0" by linarith
  then have "if 0 < ?off \<and> length d = 16 - ?off then holds_full s' (m @ d) else holds s' (m @ d)"
  proof cases
    case short
    then show ?thesis
      using u bd off lenlo
      by (auto simp: holds_def cmac_wf_def cmac_blocks_short take_mem_write_off lo_def)
  next
    case fill
    have blk: "?blk = lo @ take (16 - ?off) d"
      using fill off lenlo take_mem_write_off [of ?off "take (16 - ?off) d" "cm_leftover s"]
      by (simp add: lo_def)
    let ?s1 = "s\<lparr>cm_countdown := cm_countdown s - 1, cm_leftover := ?blk, cm_leftover_offset := 0, cm_iv := ?iv\<rparr>"
    have s'eq: "s' = absorb ?s1 (drop (16 - ?off) d)"
      using u fill by simp
    have wf1: "cmac_wf ?s1" using off lenlo fill by (simp add: cmac_wf_def blk)
    show ?thesis
    proof (cases "length d = 16 - ?off")
      case True
      have "cmac_blocks ?w (replicate 16 0) (m @ d) = (cm_iv s, lo @ d)"
        using bd lenlo off fill True by (simp add: cmac_blocks_short)
      moreover have "s' = ?s1"
        using s'eq True by (simp add: absorb_def cmac_blocks_short)
      moreover have "?blk = lo @ d" using blk True by simp
      ultimately show ?thesis
        using True fill wf1 lenlo off by (simp only: holds_full_def) simp
    next
      case False
      with fill have "16 < length (lo @ d)" using lenlo off by simp
      then have "cmac_blocks ?w (cm_iv s) (lo @ d) = cmac_blocks ?w ?iv (drop (16 - ?off) d)"
        using lenlo off by (simp add: cmac_blocks_long blk)
      with bd have "holds s' (m @ d)"
        unfolding s'eq using wf1 fill False by (intro absorb_holds) auto
      with False show ?thesis by simp
    qed
  next
    case fresh
    then have "m = []" using cmac_blocks_rest [OF b] lenlo by simp
    then show ?thesis
      using u fresh bd lenlo wf d
      by (auto intro!: absorb_holds simp: cmac_wf_def)
  qed
  with s' update_same_keys [OF d wf s'] show ?thesis by blast
qed

lemma update_holds_full:
  assumes h: "holds_full s m" and d: "d \<noteq> []" "0 < cm_countdown s"
  shows "\<exists>s'. tc_cmac_update s (Some d) (length d) = Some s' \<and> same_keys s s' \<and> holds s' (m @ d)"
proof -
  have wf: "cmac_wf s" and off: "cm_leftover_offset s = 0" using h by (simp_all add: holds_full_def)
  obtain iv lo where b: "cmac_blocks (cm_sched s) (replicate 16 0) m = (iv, lo)" "length lo = 16"
    and iv: "cm_iv s = aes_into (xor_bytes iv lo) (xor_bytes iv lo) (cm_sched s)"
    using h by (auto simp: holds_full_def)
  obtain s' where s': "tc_cmac_update s (Some d) (length d) = Some s'"
    using update_cases [OF d wf] by simp
  have s'eq: "s' = absorb (s\<lparr>cm_countdown := cm_countdown s - 1\<rparr>) d"
    using update_cases [OF d wf] s' off by simp
  have "cmac_blocks (cm_sched s) (replicate 16 0) (m @ d) = cmac_blocks (cm_sched s) (cm_iv s) d"
    using cmac_blocks_append [OF b(1), of d] b(2) d iv by (simp add: cmac_blocks_long)
  then have "holds s' (m @ d)"
    unfolding s'eq using wf d by (intro absorb_holds) (auto simp: cmac_wf_def)
  with s' update_same_keys [OF d wf s'] show ?thesis by blast
qed


section \<open>A whole message, cut into updates\<close>

primrec cmac_run :: "cmac_state \<Rightarrow> bytes list \<Rightarrow> cmac_state option" where
  "cmac_run s [] = Some s"
| "cmac_run s (d # ds) = do { s' \<leftarrow> tc_cmac_update s (Some d) (length d); cmac_run s' ds }"

text \<open>
  The last non-empty update completes the last block from a partial one: the message is a
  positive number of whole blocks and that update is shorter than a block.
\<close>

definition exact_fill :: "bytes \<Rightarrow> nat \<Rightarrow> bool" where
  "exact_fill m l \<longleftrightarrow> m \<noteq> [] \<and> 16 dvd length m \<and> l < 16"

primrec last_update :: "nat \<Rightarrow> bytes list \<Rightarrow> nat" where
  "last_update l [] = l"
| "last_update l (d # ds) = last_update (if d = [] then l else length d) ds"

definition absorbed :: "cmac_state \<Rightarrow> bytes \<Rightarrow> nat \<Rightarrow> bool" where
  "absorbed s m l \<longleftrightarrow> (if exact_fill m l then holds_full s m else holds s m)"

lemma fill_iff:
  assumes "off \<le> 16" "off mod 16 = n mod 16" "off = 0 \<longleftrightarrow> n = 0" "0 < (k :: nat)"
  shows "0 < off \<and> k = 16 - off \<longleftrightarrow> 16 dvd n + k \<and> k < 16"
proof -
  have "(n + k) mod 16 = (off + k) mod 16"
    using assms(2) by (metis mod_add_left_eq)
  then have dvd: "16 dvd n + k \<longleftrightarrow> 16 dvd off + k"
    by (simp add: dvd_eq_mod_eq_0)
  have "off + k = 16" if "16 dvd off + k" "k < 16"
  proof -
    from that(1) obtain q where "off + k = 16 * q" by (auto elim: dvdE)
    with assms(1,4) that(2) show ?thesis by (cases q) auto
  qed
  with dvd assms show ?thesis by auto
qed

lemma update_absorbed:
  assumes a: "absorbed s m l" and d: "d \<noteq> []" "0 < cm_countdown s"
  shows "\<exists>s'. tc_cmac_update s (Some d) (length d) = Some s' \<and> same_keys s s' \<and>
    absorbed s' (m @ d) (length d)"
proof (cases "exact_fill m l")
  case True
  then have "\<not> exact_fill (m @ d) (length d)"
    using d by (auto simp: exact_fill_def dvd_add_right_iff dest: dvd_imp_le)
  moreover have "holds_full s m" using a True by (simp add: absorbed_def)
  ultimately show ?thesis
    using update_holds_full [OF _ d] by (auto simp: absorbed_def)
next
  case False
  then have h: "holds s m" using a by (simp add: absorbed_def)
  let ?off = "cm_leftover_offset s"
  have "?off \<le> 16" "length (take ?off (cm_leftover s)) = ?off"
    using h by (auto simp: holds_def cmac_wf_def)
  moreover from this h have "?off mod 16 = length m mod 16" "?off = 0 \<longleftrightarrow> length m = 0"
    using cmac_blocks_rest [of "cm_sched s" "replicate 16 0" m "cm_iv s" "take ?off (cm_leftover s)"]
    by (auto simp: holds_def)
  ultimately have "0 < ?off \<and> length d = 16 - ?off \<longleftrightarrow> exact_fill (m @ d) (length d)"
    using fill_iff [of ?off "length m" "length d"] d by (simp add: exact_fill_def)
  with update_holds [OF h d] show ?thesis
    by (auto simp: absorbed_def)
qed

lemma run_absorbed:
  assumes "absorbed s m l" "length ds \<le> cm_countdown s"
  shows "\<exists>s'. cmac_run s ds = Some s' \<and> cm_sched s' = cm_sched s \<and> cm_K1 s' = cm_K1 s \<and>
    cm_K2 s' = cm_K2 s \<and> absorbed s' (m @ concat ds) (last_update l ds)"
  using assms
proof (induction ds arbitrary: s m l)
  case Nil
  then show ?case by simp
next
  case (Cons d ds)
  show ?case
  proof (cases "d = []")
    case True
    with Cons.prems Cons.IH [of s m l] show ?thesis by (simp add: tc_cmac_update_def)
  next
    case False
    from update_absorbed [OF Cons.prems(1) False] Cons.prems(2) obtain s1
      where s1: "tc_cmac_update s (Some d) (length d) = Some s1" "same_keys s s1"
        "absorbed s1 (m @ d) (length d)" by auto
    with Cons.prems(2) have "length ds \<le> cm_countdown s1" by (simp add: same_keys_def)
    from Cons.IH [OF s1(3) this] s1 False show ?thesis
      by (simp add: same_keys_def)
  qed
qed

lemma final_holds:
  assumes "holds s m"
  shows "fst (tc_cmac_final s) = cmac_spec (cm_sched s) (cm_K1 s) (cm_K2 s) m"
proof -
  let ?off = "cm_leftover_offset s"
  have wf: "?off \<le> 16" "length (cm_leftover s) = 16"
    and b: "cmac_blocks (cm_sched s) (replicate 16 0) m = (cm_iv s, take ?off (cm_leftover s))"
    using assms by (auto simp: holds_def cmac_wf_def)
  have "(mem_write ?off (replicate (16 - ?off) 0) (cm_leftover s))[?off := 0x80] =
      take ?off (cm_leftover s) @ 0x80 # replicate (15 - ?off) 0" if "?off < 16"
    using that wf by (auto simp: mem_write_def list_update_append Suc_diff_Suc [symmetric] numeral_eq_Suc)
  with b wf show ?thesis
    by (auto simp: tc_cmac_final_def cmac_spec_def cmac_last_def Let_def min_def)
qed


lemma final_holds_full:
  assumes "holds_full s m"
  shows "fst (tc_cmac_final s) =
    (let (iv, lo) = cmac_blocks (cm_sched s) (replicate 16 0) m; x = xor_bytes iv lo
     in cmac_last (cm_sched s) (cm_K1 s) (cm_K2 s) (aes_into x x (cm_sched s)) [])"
proof -
  have off: "cm_leftover_offset s = 0" "length (cm_leftover s) = 16"
    using assms by (auto simp: holds_full_def cmac_wf_def)
  obtain iv lo where b: "cmac_blocks (cm_sched s) (replicate 16 0) m = (iv, lo)"
    and iv: "cm_iv s = aes_into (xor_bytes iv lo) (xor_bytes iv lo) (cm_sched s)"
    using assms by (auto simp: holds_full_def)
  have "(mem_write 0 (replicate 16 0) (cm_leftover s))[0 := 0x80] = 0x80 # replicate 15 0"
    using off by (simp add: mem_write_def numeral_eq_Suc)
  with off show ?thesis
    by (simp add: tc_cmac_final_def cmac_last_def Let_def b iv)
qed

text \<open>The subkeys of a key, and CMAC under it.\<close>

definition cmac_schedule :: "bytes \<Rightarrow> u32 list" where
  "cmac_schedule k = (case tc_aes128_set_encrypt_key (Some k) of None \<Rightarrow> [] | Some w \<Rightarrow> w)"

definition cmac_subkeys :: "u32 list \<Rightarrow> bytes \<times> bytes" where
  "cmac_subkeys w =
     (let l = aes_into (replicate 16 0) (replicate 16 0) w in (gf_double l, gf_double (gf_double l)))"

definition aes_cmac_spec :: "bytes \<Rightarrow> bytes \<Rightarrow> bytes" where
  "aes_cmac_spec k msg =
     (let w = cmac_schedule k; (k1, k2) = cmac_subkeys w in cmac_spec w k1 k2 msg)"

lemma setup_absorbed:
  "\<exists>s. tc_cmac_setup (Some k) = Some s \<and> absorbed s [] 0 \<and> cm_countdown s = MAX_CALLS \<and>
     cm_sched s = cmac_schedule k \<and> (cm_K1 s, cm_K2 s) = cmac_subkeys (cmac_schedule k)"
  by (simp add: tc_cmac_setup_def tc_cmac_init_def absorbed_def exact_fill_def holds_def cmac_wf_def
      cmac_blocks_short cmac_schedule_def cmac_subkeys_def Let_def)

lemma length_cmac_last [simp]: "length (cmac_last w k1 k2 iv lo) = 16"
  by (simp add: cmac_last_def Let_def)

lemma length_aes_cmac_spec [simp]: "length (aes_cmac_spec k msg) = 16"
  by (simp add: aes_cmac_spec_def cmac_spec_def Let_def split_def)

section \<open>Doubling in GF(2^128)\<close>

definition gf_word :: "bytes \<Rightarrow> 128 word" where
  "gf_word bs = foldl (\<lambda>acc b. push_bit 8 acc OR ucast b) 0 bs"

lemma bit_gf_foldl:
  "n < 128 \<Longrightarrow> bit (foldl (\<lambda>acc b. push_bit 8 acc OR ucast (b :: u8)) (0 :: 128 word) bs) n \<longleftrightarrow>
     n < 8 * length bs \<and> bit (bs ! (length bs - 1 - n div 8)) (n mod 8)"
proof (induction bs arbitrary: n rule: rev_induct)
  case Nil
  then show ?case by simp
next
  case (snoc b bs)
  show ?case
  proof (cases "n < 8")
    case True
    then show ?thesis by (auto simp: bit_simps nth_append)
  next
    case False
    then have d: "(n - 8) div 8 = n div 8 - 1" "(n - 8) mod 8 = n mod 8" "1 \<le> n div 8"
      by (simp_all add: le_mod_geq [symmetric] div_le_mono [of 8 n 8, simplified] le_div_geq)
    have lt: "n - 8 < 8 * length bs \<longleftrightarrow> n < 8 + 8 * length bs" using False by linarith
    have "\<not> bit (ucast b :: 128 word) n"
      using False bit_imp_le_length [of b n] by (auto simp: bit_simps)
    with False snoc.IH [of "n - 8"] snoc.prems d lt show ?thesis
      by (auto simp: bit_simps nth_append not_less)
  qed
qed

lemma gf_double_loop_map:
  "gf_double_loop inp x c out =
     map (\<lambda>i. push_bit 1 (inp ! i) XOR (if i = x then c else drop_bit 7 (inp ! Suc i))) [0..<Suc x] @ out"
proof (induction x arbitrary: c out)
  case 0
  then show ?case by simp
next
  case (Suc x)
  have "map (\<lambda>i. push_bit 1 (inp ! i) XOR (if i = x then drop_bit 7 (inp ! Suc x) else drop_bit 7 (inp ! Suc i))) [0..<Suc x] =
    map (\<lambda>i. push_bit 1 (inp ! i) XOR (if i = Suc x then c else drop_bit 7 (inp ! Suc i))) [0..<Suc x]"
    by (rule map_cong) auto
  then show ?case by (simp add: Suc.IH)
qed

lemma gf_double_nth:
  "i < 16 \<Longrightarrow> gf_double inp ! i = push_bit 1 (inp ! i) XOR
     (if i = 15 then (if bit (inp ! 0) 7 then 0x87 else 0) else drop_bit 7 (inp ! Suc i))"
  unfolding gf_double_def gf_double_loop_map by (simp add: drop_bit_7 nth_append del: upt_Suc)

lemma length_gf_double [simp]: "length (gf_double inp) = 16"
  unfolding gf_double_def gf_double_loop_map by simp

lemma bit_gf_word:
  "length bs = 16 \<Longrightarrow> n < 128 \<Longrightarrow> bit (gf_word bs) n \<longleftrightarrow> bit (bs ! (15 - n div 8)) (n mod 8)"
  unfolding gf_word_def using bit_gf_foldl [of n bs] by simp

lemma bit_wrap: "bit (0x87 :: 128 word) n \<longleftrightarrow> n < 8 \<and> bit (0x87 :: u8) n"
proof -
  have "(0x87 :: 128 word) = ucast (0x87 :: u8)" by simp
  then show ?thesis by (simp only: bit_simps) (auto dest: bit_imp_le_length)
qed

lemma bit_times_2: "bit ((x :: 'a :: len word) * 2) k \<longleftrightarrow> 0 < k \<and> k < LENGTH('a) \<and> bit x (k - 1)"
  using bit_push_bit_iff [of 1 x k] by (auto simp: push_bit_eq_mult bit_imp_le_length)

lemma gf_double_word:
  assumes "length inp = 16"
  shows "gf_word (gf_double inp) = push_bit 1 (gf_word inp) XOR (if bit (gf_word inp) 127 then 0x87 else 0)"
proof (rule bit_word_eqI)
  fix n assume "n < LENGTH(128)"
  then have n: "n < 128" by simp
  let ?i = "15 - n div 8"
  have msb: "bit (gf_word inp) 127 \<longleftrightarrow> bit (inp ! 0) 7"
    using assms by (simp add: bit_gf_word)
  have l: "bit (gf_word (gf_double inp)) n \<longleftrightarrow> bit (push_bit 1 (inp ! ?i) XOR
     (if ?i = 15 then (if bit (inp ! 0) 7 then 0x87 else 0) else drop_bit 7 (inp ! Suc ?i))) (n mod 8)"
    using n by (simp add: bit_gf_word gf_double_nth)
  show "bit (gf_word (gf_double inp)) n =
      bit (push_bit 1 (gf_word inp) XOR (if bit (gf_word inp) 127 then 0x87 else 0)) n"
  proof (cases "n mod 8")
    case 0
    show ?thesis
    proof (cases "n = 0")
      case True
      then show ?thesis unfolding l msb by (simp add: bit_0 even_xor_iff)
    next
      case False
      with 0 obtain q where q: "n = 8 * Suc q"
        by (metis dvd_eq_mod_eq_0 dvdE gr0_implies_Suc mult_0_right neq0_conv)
      then have "n - 1 = 8 * q + 7" by simp
      then have p: "(n - 1) div 8 = q" "(n - 1) mod 8 = 7" by simp_all
      have w: "\<not> bit (0x87 :: 128 word) n" using q by (subst bit_wrap) simp
      from q n have "q < 15" "15 - q = Suc ?i" by auto
      then show ?thesis
        unfolding l msb using w q p n assms 0 by (auto simp: bit_simps bit_times_2 bit_gf_word)
    qed
  next
    case (Suc r)
    then have r: "Suc r < 8" by (metis mod_less_divisor zero_less_numeral)
    have "n = 8 * (n div 8) + Suc r" using Suc by (metis div_mult_mod_eq mult.commute)
    then have "n - 1 = 8 * (n div 8) + r" by simp
    then have p: "(n - 1) div 8 = n div 8" "(n - 1) mod 8 = r" "0 < n" using r Suc by auto
    have "\<not> bit (drop_bit 7 (inp ! Suc ?i)) (Suc r)"
      using bit_imp_le_length [of "inp ! Suc ?i" "7 + Suc r"] by (auto simp: bit_simps)
    then show ?thesis
      unfolding l msb Suc using bit_wrap [of n] Suc p r n assms
      by (cases "n < 8") (auto simp: bit_simps bit_times_2 bit_gf_word)
  qed
qed

section \<open>Properties\<close>

lemma cmac_run_from_setup:
  assumes "length ds \<le> MAX_CALLS"
  shows "\<exists>s0 s. tc_cmac_setup (Some k) = Some s0 \<and> cmac_run s0 ds = Some s \<and>
    cm_sched s = cmac_schedule k \<and> (cm_K1 s, cm_K2 s) = cmac_subkeys (cmac_schedule k) \<and>
    absorbed s (concat ds) (last_update 0 ds)"
proof -
  obtain s0 where s0: "tc_cmac_setup (Some k) = Some s0" "absorbed s0 [] 0"
    "cm_countdown s0 = MAX_CALLS" "cm_sched s0 = cmac_schedule k"
    "(cm_K1 s0, cm_K2 s0) = cmac_subkeys (cmac_schedule k)"
    using setup_absorbed [of k] by blast
  from run_absorbed [OF s0(2), of ds] s0(3) assms obtain s where
    "cmac_run s0 ds = Some s" "cm_sched s = cm_sched s0" "cm_K1 s = cm_K1 s0" "cm_K2 s = cm_K2 s0"
    "absorbed s ([] @ concat ds) (last_update 0 ds)"
    by auto
  with s0 show ?thesis by auto
qed

lemma cmac_run_correct:
  assumes "length ds \<le> MAX_CALLS" "\<not> exact_fill (concat ds) (last_update 0 ds)"
  shows "\<exists>s0 s. tc_cmac_setup (Some k) = Some s0 \<and> cmac_run s0 ds = Some s \<and>
    fst (tc_cmac_final s) = aes_cmac_spec k (concat ds)"
proof -
  from cmac_run_from_setup [OF assms(1), of k] obtain s0 s where s:
    "tc_cmac_setup (Some k) = Some s0" "cmac_run s0 ds = Some s"
    "cm_sched s = cmac_schedule k" "(cm_K1 s, cm_K2 s) = cmac_subkeys (cmac_schedule k)"
    "absorbed s (concat ds) (last_update 0 ds)" by blast
  with assms(2) have "holds s (concat ds)" by (simp add: absorbed_def)
  from final_holds [OF this] s have "fst (tc_cmac_final s) = aes_cmac_spec k (concat ds)"
    by (simp add: aes_cmac_spec_def Let_def s(4) [symmetric])
  with s show ?thesis by blast
qed

text \<open>
  C7: however a message is cut into at most \<open>MAX_CALLS\<close> updates, setting up the key,
  feeding the updates and finalising succeeds and yields the CMAC of the whole message,
  provided the last non-empty update does not complete the last block from a partial one.
\<close>

theorem tc_cmac_incremental:
  assumes "length ds \<le> MAX_CALLS" "\<not> exact_fill (concat ds) (last_update 0 ds)"
  shows "\<exists>s0 s. tc_cmac_setup (Some k) = Some s0 \<and> cmac_run s0 ds = Some s \<and>
    fst (tc_cmac_final s) = aes_cmac_spec k (concat ds)"
  using assms by (rule cmac_run_correct)

theorem tc_cmac_incremental_witness:
  "length [[1 :: u8], [], [2, 3]] \<le> MAX_CALLS \<and> \<not> exact_fill (concat [[1], [], [2, 3]]) (last_update 0 [[1], [], [2, 3]]) \<and>
   (\<exists>s0 s. tc_cmac_setup (Some (replicate 16 0)) = Some s0 \<and> cmac_run s0 [[1], [], [2, 3]] = Some s \<and>
     fst (tc_cmac_final s) = aes_cmac_spec (replicate 16 0) [1, 2, 3])"
proof -
  have "\<not> (16 :: nat) dvd 3" by presburger
  then have "\<not> exact_fill (concat [[1 :: u8], [], [2, 3]]) (last_update 0 [[1], [], [2, 3]])"
    by (simp add: exact_fill_def eval_nat_numeral)
  with tc_cmac_incremental [of "[[1], [], [2, 3]]" "replicate 16 0"] show ?thesis by simp
qed

text \<open>
  When the last non-empty update completes the last block from a partial one, the
  computation does not stop at that block: the message's last block is chained without a
  subkey and a further block of padding is masked with the second subkey, so the tag is not
  computed by the CMAC algorithm.
\<close>

theorem tc_cmac_exact_fill_extra_block:
  assumes "length ds \<le> MAX_CALLS" "exact_fill (concat ds) (last_update 0 ds)"
  shows "\<exists>s0 s. tc_cmac_setup (Some k) = Some s0 \<and> cmac_run s0 ds = Some s \<and>
    fst (tc_cmac_final s) =
      (let w = cmac_schedule k; (k1, k2) = cmac_subkeys w;
           (iv, lo) = cmac_blocks w (replicate 16 0) (concat ds); x = xor_bytes iv lo
       in cmac_last w k1 k2 (aes_into x x w) [])"
proof -
  from cmac_run_from_setup [OF assms(1), of k] obtain s0 s where s:
    "tc_cmac_setup (Some k) = Some s0" "cmac_run s0 ds = Some s"
    "cm_sched s = cmac_schedule k" "(cm_K1 s, cm_K2 s) = cmac_subkeys (cmac_schedule k)"
    "absorbed s (concat ds) (last_update 0 ds)" by blast
  with assms(2) have "holds_full s (concat ds)" by (simp add: absorbed_def)
  from final_holds_full [OF this] s show ?thesis
    by (auto simp: Let_def s(4) [symmetric])
qed

theorem tc_cmac_exact_fill_extra_block_witness:
  "\<exists>s0 s. tc_cmac_setup (Some (replicate 16 0)) = Some s0 \<and>
    cmac_run s0 [replicate 8 1, replicate 8 2] = Some s \<and>
    fst (tc_cmac_final s) =
      (let w = cmac_schedule (replicate 16 0); (k1, k2) = cmac_subkeys w;
           (iv, lo) = cmac_blocks w (replicate 16 0) (concat [replicate 8 1, replicate 8 2]); x = xor_bytes iv lo
       in cmac_last w k1 k2 (aes_into x x w) [])"
  by (rule tc_cmac_exact_fill_extra_block) (simp_all add: exact_fill_def)

text \<open>
  The byte-wise doubling that derives the subkeys is multiplication by \<open>X\<close> in GF(2^128)
  with the reduction polynomial of CMAC, on the sixteen bytes read as a big-endian word.
\<close>

theorem gf_double_is_doubling:
  assumes "length inp = 16"
  shows "length (gf_double inp) = 16 \<and>
    gf_word (gf_double inp) = push_bit 1 (gf_word inp) XOR (if bit (gf_word inp) 127 then 0x87 else 0)"
  using gf_double_word [OF assms] by simp

theorem gf_double_is_doubling_witness:
  "length (replicate 16 (0x80 :: u8)) = 16 \<and>
   gf_word (gf_double (replicate 16 0x80)) = push_bit 1 (gf_word (replicate 16 0x80)) XOR
     (if bit (gf_word (replicate 16 0x80)) 127 then 0x87 else 0)"
  using gf_double_is_doubling [of "replicate 16 0x80"] by simp

end
