(* ===== verification/Bt_Crypto.thy ===== *)
theory Bt_Crypto
  imports Net_Buf Tc_Cmac
begin

text \<open>
  The host's crypto toolbox: block encryption in both byte orders (\<open>core/src/host/crypto.c\<close>)
  and AES-CCM (\<open>core/src/host/aes_ccm.c\<close>).

  \<open>bt_encrypt_le\<close> and \<open>bt_encrypt_be\<close> return the block or the error code.  The CCM
  functions work through pointers into packet buffers, often in place: an output pointer
  is the bytes it points to before the call, and the result holds the bytes after the
  call, next to the status (\<open>None\<close> for zero).  Where the code ignores a status, the
  destination keeps what it held; an uninitialised array on the stack is all zeros, which
  is never observed since block encryption does not fail (\<open>bt_encrypt_be_aes128\<close>).

  The specification is CCM with a two-byte length field over a list of blocks: a counter
  mode key stream and a CBC-MAC.
\<close>

section \<open>Block encryption\<close>

definition bt_encrypt_le :: "bytes \<Rightarrow> bytes \<Rightarrow> errno + bytes" where
  "bt_encrypt_le key plaintext =
     (let tmp = sys_memcpy_swap key 16 in
      case tc_aes128_set_encrypt_key (Some tmp) of None \<Rightarrow> Inl EINVAL
      | Some s \<Rightarrow>
         (let tmp = sys_memcpy_swap plaintext 16 in
          case tc_aes_encrypt (Some tmp) (Some s) of None \<Rightarrow> Inl EINVAL
          | Some enc_data \<Rightarrow> Inr (sys_mem_swap enc_data 16)))"

definition bt_encrypt_be :: "bytes \<Rightarrow> bytes \<Rightarrow> errno + bytes" where
  "bt_encrypt_be key plaintext =
     (case tc_aes128_set_encrypt_key (Some key) of None \<Rightarrow> Inl EINVAL
      | Some s \<Rightarrow>
         (case tc_aes_encrypt (Some plaintext) (Some s) of None \<Rightarrow> Inl EINVAL
          | Some enc_data \<Rightarrow> Inr enc_data))"

section \<open>CCM\<close>

definition xor16 :: "bytes \<Rightarrow> bytes \<Rightarrow> bytes" where
  "xor16 a b =
     [a ! 0 XOR b ! 0, a ! 1 XOR b ! 1, a ! 2 XOR b ! 2, a ! 3 XOR b ! 3, a ! 4 XOR b ! 4, a ! 5 XOR b ! 5,
      a ! 6 XOR b ! 6, a ! 7 XOR b ! 7, a ! 8 XOR b ! 8, a ! 9 XOR b ! 9, a ! 10 XOR b ! 10,
      a ! 11 XOR b ! 11, a ! 12 XOR b ! 12, a ! 13 XOR b ! 13, a ! 14 XOR b ! 14, a ! 15 XOR b ! 15]"

text \<open>
  The flags byte; \<open>size_t\<close> arithmetic is modulo \<open>2 ^ 64\<close>, so a \<open>mic_size\<close> below two wraps.
\<close>

definition ccm_flags :: "nat \<Rightarrow> u8 \<Rightarrow> u8" where
  "ccm_flags mic_size aad_len =
     ucast (push_bit 3 ((word_of_nat mic_size - 2 :: u64) div 2)) OR
     push_bit 6 (if aad_len \<noteq> 0 then 1 else 0) OR 0x01"

text \<open>
  The loop over whole blocks of additional data: \<open>i\<close> is the position in the block (2 in
  the first turn, after the length), \<open>j\<close> the position in the data, and the remaining length
  is a \<open>uint8_t\<close>.
\<close>

function ccm_aad_loop ::
  "bytes \<Rightarrow> bytes \<Rightarrow> u8 \<Rightarrow> nat \<Rightarrow> nat \<Rightarrow> bytes \<Rightarrow> bytes \<Rightarrow> errno + u8 \<times> nat \<times> nat \<times> bytes \<times> bytes" where
  "ccm_aad_loop key aad aad_len i j b X0 =
     (if 16 < aad_len
      then (let b = mem_write i (xor_bytes (drop i X0) (take (16 - i) (drop j aad))) b
            in err_bind (bt_encrypt_be key b)
                 (\<lambda>X0. ccm_aad_loop key aad (aad_len - 16) 0 (j + (16 - i)) b X0))
      else Inr (aad_len, i, j, b, X0))"
  by pat_completeness auto
termination
proof (relation "measure (\<lambda>(key, aad, aad_len, i, j, b, X0). unat aad_len)", goal_cases)
  case (2 key aad aad_len)
  then show ?case by (simp add: unat_sub word_less_nat_alt word_le_nat_alt)
qed simp

declare ccm_aad_loop.simps [simp del]

definition ccm_calculate_X0 ::
  "bytes \<Rightarrow> bytes \<Rightarrow> u8 \<Rightarrow> nat \<Rightarrow> u8 \<Rightarrow> bytes \<Rightarrow> errno + bytes \<times> bytes" where
  "ccm_calculate_X0 key aad aad_len mic_size msg_len b =
     (let b = b[0 := ccm_flags mic_size aad_len];
          b = mem_write 14 (sys_put_be16 (ucast msg_len)) b
      in err_bind (bt_encrypt_be key b) (\<lambda>X0.
         if aad_len = 0 then Inr (b, X0)
         else
           (let b = mem_write 0 (sys_put_be16 (ucast aad_len)) b;
                b = mem_write 0 (xor_bytes (take 2 X0) (take 2 b)) b
            in err_bind (ccm_aad_loop key aad (aad_len + 2) 2 0 b X0) (\<lambda>(aad_len, i, j, b, X0).
               (let n = unat aad_len;
                    b = mem_write i (xor_bytes (take (n - i) (drop i X0)) (take (n - i) (drop j aad))) b;
                    b = mem_write n (drop n X0) b
                in err_bind (bt_encrypt_be key b) (\<lambda>X0. Inr (b, X0)))))))"

text \<open>Block counts are \<open>uint16_t\<close>.\<close>

definition blk_counts :: "nat \<Rightarrow> nat \<times> nat" where
  "blk_counts msg_len =
     (let last_blk = msg_len mod 16; blk_cnt = (msg_len + 15) div 16 mod 2 ^ 16
      in (blk_cnt, if last_blk = 0 then 16 else last_blk))"

primrec ccm_auth_loop ::
  "bytes \<Rightarrow> bytes \<Rightarrow> nat \<Rightarrow> nat \<Rightarrow> nat list \<Rightarrow> bytes \<Rightarrow> bytes \<Rightarrow> errno + bytes" where
  "ccm_auth_loop key msg blk_cnt last_blk [] b Xn = Inr Xn"
| "ccm_auth_loop key msg blk_cnt last_blk (j # js) b Xn =
     (let b = (if j + 1 = blk_cnt
               then mem_write last_blk (drop last_blk Xn)
                      (mem_write 0 (xor_bytes (take last_blk Xn) (take last_blk (drop (j * 16) msg))) b)
               else xor16 Xn (drop (j * 16) msg))
      in err_bind (bt_encrypt_be key b) (\<lambda>Xn. ccm_auth_loop key msg blk_cnt last_blk js b Xn))"

definition ccm_auth ::
  "bytes \<Rightarrow> bytes \<Rightarrow> bytes \<Rightarrow> nat \<Rightarrow> bytes \<Rightarrow> nat \<Rightarrow> bytes \<Rightarrow> nat \<Rightarrow> errno option \<times> bytes" where
  "ccm_auth key nonce cleartext_msg msg_len aad aad_len mic mic_size =
     (let (blk_cnt, last_blk) = blk_counts msg_len;
          b = mem_write 14 (sys_put_be16 0) (mem_write 1 (take 13 nonce) ((replicate 16 0)[0 := 0x01]))
      in case bt_encrypt_be key b of Inl e \<Rightarrow> (Some e, mic)
      | Inr s0 \<Rightarrow>
         (let (b, Xn) = (case ccm_calculate_X0 key aad (word_of_nat aad_len) mic_size (word_of_nat msg_len) b of
                           Inl _ \<Rightarrow> (b, replicate 16 0) | Inr r \<Rightarrow> r)
          in case ccm_auth_loop key cleartext_msg blk_cnt last_blk [0..<blk_cnt] b Xn of
               Inl e \<Rightarrow> (Some e, mic)
             | Inr Xn \<Rightarrow> (None, mem_write 0 (xor_bytes (take mic_size s0) (take mic_size Xn)) mic)))"

primrec ccm_crypt_loop ::
  "bytes \<Rightarrow> bytes \<Rightarrow> bytes \<Rightarrow> nat \<Rightarrow> nat \<Rightarrow> nat list \<Rightarrow> bytes \<Rightarrow> errno option \<times> bytes" where
  "ccm_crypt_loop key a_i in_msg blk_cnt last_blk [] out_msg = (None, out_msg)"
| "ccm_crypt_loop key a_i in_msg blk_cnt last_blk (j # js) out_msg =
     (let a_i = mem_write 14 (sys_put_be16 (word_of_nat (j + 1))) a_i
      in case bt_encrypt_be key a_i of Inl e \<Rightarrow> (Some e, out_msg)
      | Inr s_i \<Rightarrow>
          ccm_crypt_loop key a_i in_msg blk_cnt last_blk js
            (if j < blk_cnt - 1
             then mem_write (j * 16) (xor16 s_i (drop (j * 16) in_msg)) out_msg
             else mem_write (j * 16) (xor_bytes (take last_blk (drop (j * 16) in_msg)) (take last_blk s_i)) out_msg))"

definition ccm_crypt :: "bytes \<Rightarrow> bytes \<Rightarrow> bytes \<Rightarrow> bytes \<Rightarrow> nat \<Rightarrow> errno option \<times> bytes" where
  "ccm_crypt key nonce in_msg out_msg msg_len =
     (let (blk_cnt, last_blk) = blk_counts msg_len;
          a_i = mem_write 1 (take 13 nonce) ((replicate 16 0)[0 := 0x01])
      in ccm_crypt_loop key a_i in_msg blk_cnt last_blk [0..<blk_cnt] out_msg)"

definition bt_ccm_decrypt ::
  "bytes \<Rightarrow> bytes \<Rightarrow> bytes \<Rightarrow> nat \<Rightarrow> bytes \<Rightarrow> nat \<Rightarrow> bytes \<Rightarrow> nat \<Rightarrow> errno option \<times> bytes" where
  "bt_ccm_decrypt key nonce enc_data len aad aad_len plaintext mic_size =
     (if 0xff00 \<le> aad_len \<or> 16 < mic_size then (Some EINVAL, plaintext)
      else
        (let plaintext = snd (ccm_crypt key nonce enc_data plaintext len);
             mic = snd (ccm_auth key nonce plaintext len aad aad_len (replicate 16 0) mic_size)
         in if take mic_size mic \<noteq> take mic_size (drop len enc_data)
            then (Some EBADMSG, plaintext) else (None, plaintext)))"

definition bt_ccm_encrypt ::
  "bytes \<Rightarrow> bytes \<Rightarrow> bytes \<Rightarrow> nat \<Rightarrow> bytes \<Rightarrow> nat \<Rightarrow> bytes \<Rightarrow> nat \<Rightarrow> errno option \<times> bytes" where
  "bt_ccm_encrypt key nonce plaintext len aad aad_len enc_data mic_size =
     (if 0xff00 \<le> aad_len \<or> 16 < mic_size then (Some EINVAL, enc_data)
      else
        (let mic = snd (ccm_auth key nonce plaintext len aad aad_len (drop len enc_data) mic_size);
             enc_data = mem_write len mic enc_data;
             enc_data = snd (ccm_crypt key nonce plaintext enc_data len)
         in (None, enc_data)))"

section \<open>Specification\<close>

definition aes128 :: "bytes \<Rightarrow> bytes \<Rightarrow> bytes" where
  "aes128 k b = (case bt_encrypt_be k b of Inl _ \<Rightarrow> [] | Inr c \<Rightarrow> c)"

text \<open>Sixteen-byte blocks, the last one padded with zeros.\<close>

function blocks16 :: "bytes \<Rightarrow> bytes list" where
  "blocks16 xs =
     (if xs = [] then []
      else if length xs \<le> 16 then [xs @ replicate (16 - length xs) 0]
      else take 16 xs # blocks16 (drop 16 xs))"
  by pat_completeness auto
termination by (relation "measure length") auto

declare blocks16.simps [simp del]

definition cbc_mac :: "(bytes \<Rightarrow> bytes) \<Rightarrow> bytes \<Rightarrow> bytes list \<Rightarrow> bytes" where
  "cbc_mac E x bs = foldl (\<lambda>x b. E (xor_bytes x b)) x bs"

definition ccm_aad :: "bytes \<Rightarrow> bytes list" where
  "ccm_aad aad = (if aad = [] then [] else blocks16 (sys_put_be16 (word_of_nat (length aad)) @ aad))"

definition ccm_ctr :: "(bytes \<Rightarrow> bytes) \<Rightarrow> bytes \<Rightarrow> nat \<Rightarrow> bytes" where
  "ccm_ctr E nonce i = E (0x01 # nonce @ sys_put_be16 (word_of_nat i))"

definition ccm_stream :: "(bytes \<Rightarrow> bytes) \<Rightarrow> bytes \<Rightarrow> nat \<Rightarrow> bytes" where
  "ccm_stream E nonce n = concat (map (\<lambda>j. ccm_ctr E nonce (j + 1)) [0..<n])"

text \<open>
  The authentication value: \<open>adata\<close> says whether there are additional data blocks and
  \<open>l\<close> is the length field of the first block.
\<close>

definition ccm_mac :: "(bytes \<Rightarrow> bytes) \<Rightarrow> bytes \<Rightarrow> u8 \<Rightarrow> u16 \<Rightarrow> bytes list \<Rightarrow> nat \<Rightarrow> bytes \<Rightarrow> bytes" where
  "ccm_mac E nonce flags l adata mic_size msg =
     take mic_size (xor_bytes (ccm_ctr E nonce 0)
       (cbc_mac E (E (flags # nonce @ sys_put_be16 l)) (adata @ blocks16 msg)))"

definition ccm_cipher :: "(bytes \<Rightarrow> bytes) \<Rightarrow> bytes \<Rightarrow> bytes \<Rightarrow> bytes" where
  "ccm_cipher E nonce msg = xor_bytes msg (ccm_stream E nonce ((length msg + 15) div 16))"

section \<open>Block encryption\<close>

lemma bt_encrypt_be_total: "\<exists>c. bt_encrypt_be k b = Inr c \<and> length c = 16"
proof -
  obtain w where w: "tc_aes128_set_encrypt_key (Some k) = Some w" using set_encrypt_key_Some by blast
  obtain c where c: "tc_aes_encrypt (Some b) (Some w) = Some c" using tc_aes_encrypt_Some by blast
  from w c length_tc_aes_encrypt [OF c] show ?thesis by (simp add: bt_encrypt_be_def)
qed

lemma bt_encrypt_be_aes128 [simp]: "bt_encrypt_be k b = Inr (aes128 k b)"
  using bt_encrypt_be_total [of k b] by (auto simp: aes128_def)

lemma length_aes128 [simp]: "length (aes128 k b) = 16"
  using bt_encrypt_be_total [of k b] by (auto simp: aes128_def simp del: bt_encrypt_be_aes128)

lemma length_xor16 [simp]: "length (xor16 a b) = 16"
  by (simp add: xor16_def)

lemma xor16_xor_bytes:
  assumes "16 \<le> length a" "16 \<le> length b"
  shows "xor16 a b = xor_bytes (take 16 a) (take 16 b)"
proof -
  have "xor16 a b = map (\<lambda>i. a ! i XOR b ! i) [0..<16]"
    by (simp add: xor16_def upt_rec numeral_eq_Suc)
  then show ?thesis
    using assms by (auto intro!: nth_equalityI)
qed

section \<open>Key stream\<close>

lemma length_ccm_ctr [simp]: "length (ccm_ctr (aes128 k) nonce i) = 16"
  by (simp add: ccm_ctr_def)

lemma length_ccm_stream [simp]: "length (ccm_stream (aes128 k) nonce n) = 16 * n"
  by (induction n) (auto simp: ccm_stream_def)

lemma ccm_stream_nth_block:
  "j < n \<Longrightarrow> take 16 (drop (16 * j) (ccm_stream (aes128 k) nonce n)) = ccm_ctr (aes128 k) nonce (j + 1)"
proof (induction n)
  case 0
  then show ?case by simp
next
  case (Suc n)
  have "ccm_stream (aes128 k) nonce (Suc n) = ccm_stream (aes128 k) nonce n @ ccm_ctr (aes128 k) nonce (n + 1)"
    by (simp add: ccm_stream_def)
  moreover have "16 * j + 16 \<le> 16 * n" if "j < n" using that by simp
  ultimately show ?case using Suc by (cases "j = n") (auto simp: less_Suc_eq)
qed

text \<open>The block \<open>01 || nonce || counter\<close>.\<close>

lemma ctr_block:
  assumes "length nonce = 13"
  shows "mem_write 14 (sys_put_be16 v) (mem_write 1 (take 13 nonce) ((replicate 16 0)[0 := c])) =
    c # nonce @ sys_put_be16 v"
  using assms by (simp add: mem_write_def numeral_eq_Suc)

lemma ctr_block_again:
  assumes "length nonce = 13"
  shows "mem_write 14 (sys_put_be16 w) (c # nonce @ sys_put_be16 v) = c # nonce @ sys_put_be16 w"
  using assms by (simp add: mem_write_def numeral_eq_Suc)


lemma length_ccm_cipher [simp]: "length (ccm_cipher (aes128 k) nonce m) = length m"
  by (simp add: ccm_cipher_def)

lemma ccm_cipher_block:
  assumes "16 * j < length m"
  shows "take 16 (drop (16 * j) (ccm_cipher (aes128 k) nonce m)) =
    xor_bytes (take 16 (drop (16 * j) m)) (ccm_ctr (aes128 k) nonce (j + 1))"
proof -
  have "j < (length m + 15) div 16" using assms by linarith
  from ccm_stream_nth_block [OF this, of k nonce] show ?thesis
    by (simp add: ccm_cipher_def drop_xor_bytes take_xor_bytes)
qed

lemma last_block:
  assumes "Suc j = (len + 15) div 16"
  shows "16 * j + (if len mod 16 = 0 then 16 else len mod 16) = len"
proof -
  have "16 * Suc j \<le> len + 15" "len + 15 < 16 * Suc j + 16"
    unfolding assms using mult_div_mod_eq [of 16 "len + 15"] mod_less_divisor [of 16 "len + 15"] by linarith+
  then have b: "16 * j + 1 \<le> len" "len \<le> 16 * j + 16" by simp_all
  define r where "r = len - 16 * j"
  with b have r: "len = 16 * j + r" "1 \<le> r" "r \<le> 16" by simp_all
  show ?thesis
  proof (cases "r = 16")
    case True
    then have "len = 16 * Suc j" using r by simp
    then have "len mod 16 = 0" by (metis mod_mult_self1_is_0)
    with r True show ?thesis by simp
  qed (use r in simp)
qed

lemma crypt_loop:
  fixes msg out :: bytes
  assumes "n = (len + 15) div 16" "lblk = (if len mod 16 = 0 then 16 else len mod 16)"
    and "len \<le> length msg" "len \<le> length out" "j \<le> n"
    and "\<And>v. mem_write 14 (sys_put_be16 v) a = 0x01 # nonce @ sys_put_be16 v" "length nonce = 13"
  shows "ccm_crypt_loop key a msg n lblk [j..<n] out =
    (None, if j = n then out else take (16 * j) out @ drop (16 * j) (ccm_cipher (aes128 key) nonce (take len msg)) @ drop len out)"
  using assms
proof (induction "n - j" arbitrary: j out a)
  case 0
  then show ?case by simp
next
  case (Suc d)
  then have jn: "j < n" by simp
  let ?E = "aes128 key" and ?c = "ccm_cipher (aes128 key) nonce (take len msg)"
  let ?s = "ccm_ctr ?E nonce (j + 1)"
  let ?a = "0x01 # nonce @ sys_put_be16 (word_of_nat (j + 1))"
  have up: "[j..<n] = j # [Suc j..<n]" using jn by (simp add: upt_conv_Cons)
  have j16: "16 * j < len" using jn Suc.prems(1) by linarith
  have blk: "take 16 (drop (16 * j) ?c) = xor_bytes (take 16 (drop (16 * j) (take len msg))) ?s"
    by (rule ccm_cipher_block) (use j16 Suc.prems in simp)
  show ?case
  proof (cases "Suc j = n")
    case True
    have lb: "16 * j + lblk = len"
      unfolding Suc.prems(2) by (rule last_block) (use True Suc.prems(1) in simp)
    have "drop (16 * j) ?c = xor_bytes (take lblk (drop (16 * j) msg)) (take lblk ?s)"
    proof -
      have "lblk \<le> 16" using Suc.prems(2) by auto
      have "length (drop (16 * j) ?c) = lblk" using lb Suc.prems by simp
      then have "drop (16 * j) ?c = take 16 (drop (16 * j) ?c)" using \<open>lblk \<le> 16\<close> by simp
      also have "\<dots> = xor_bytes (take lblk (drop (16 * j) msg)) ?s"
        unfolding blk using lb \<open>lblk \<le> 16\<close> by (auto simp: drop_take min_def)
      finally show ?thesis
        by (simp add: xor_bytes_take_left xor_bytes_take_right)
    qed
    moreover have "mem_write (16 * j) (drop (16 * j) ?c) out = take (16 * j) out @ drop (16 * j) ?c @ drop len out"
      using lb Suc.prems(3,4) by (simp add: mem_write_def)
    ultimately show ?thesis
      using True Suc.prems(6) up by (auto simp: ccm_ctr_def mult.commute)
  next
    case False
    then have lt: "Suc j < n" using jn by simp
    then have j17: "16 * j + 16 < len" using Suc.prems(1) by linarith
    let ?out = "mem_write (j * 16) (xor16 ?s (drop (j * 16) msg)) out"
    have x: "xor16 ?s (drop (j * 16) msg) = take 16 (drop (16 * j) ?c)"
      unfolding blk using j17 Suc.prems by (simp add: xor16_xor_bytes drop_take min_def mult.commute xor_bytes_comm)
    have dd: "take 16 (drop (16 * j) ?c) @ drop (16 + 16 * j) ?c @ zs = drop (16 * j) ?c @ zs" for zs
      using append_take_drop_id [of 16 "drop (16 * j) ?c"] by (simp add: add.commute flip: append_assoc)
    have "ccm_crypt_loop key ?a msg n lblk [Suc j..<n] ?out =
      (None, if Suc j = n then ?out else take (16 * Suc j) ?out @ drop (16 * Suc j) ?c @ drop len ?out)"
      using Suc.hyps(2) Suc.prems j17 lt by (intro Suc.hyps(1)) (auto simp: ctr_block_again)
    moreover have "take (16 * Suc j) ?out = take (16 * j) out @ take 16 (drop (16 * j) ?c)"
      unfolding x using j17 Suc.prems mem_write_split(1) [of "16 * j" "take 16 (drop (16 * j) ?c)" out]
      by (simp add: mult.commute add.commute)
    moreover have "drop len ?out = drop len out"
      using j17 Suc.prems by (simp add: mem_write_def mult.commute)
    ultimately show ?thesis
      using lt jn up Suc.prems(6) by (simp add: ccm_ctr_def Let_def dd)
  qed
qed


lemma blk_counts_small:
  "len \<le> 16 * 65535 \<Longrightarrow>
    blk_counts len = ((len + 15) div 16, if len mod 16 = 0 then 16 else len mod 16)"
proof -
  assume "len \<le> 16 * 65535"
  then have "(len + 15) div 16 < 2 ^ 16" by (simp add: less_mult_imp_div_less)
  then show ?thesis by (simp add: blk_counts_def Let_def)
qed

lemma ccm_crypt_spec:
  assumes "len \<le> length msg" "len \<le> length out" "length nonce = 13" "len \<le> 16 * 65535"
  shows "ccm_crypt key nonce msg out len =
    (None, ccm_cipher (aes128 key) nonce (take len msg) @ drop len out)"
proof (cases "len = 0")
  case True
  then show ?thesis by (simp add: ccm_crypt_def blk_counts_def ccm_cipher_def Let_def)
next
  case False
  then have "(len + 15) div 16 \<noteq> 0" by simp
  moreover note crypt_loop [OF refl refl assms(1,2) le0 ctr_block [OF assms(3)] assms(3)]
  ultimately show ?thesis
    by (simp add: ccm_crypt_def blk_counts_small [OF assms(4)] del: take_all)
qed

section \<open>CBC-MAC\<close>

lemma cbc_mac_simps [simp]:
  "cbc_mac E x [] = x" "cbc_mac E x (b # bs) = cbc_mac E (E (xor_bytes x b)) bs"
  "cbc_mac E x (bs @ cs) = cbc_mac E (cbc_mac E x bs) cs"
  by (simp_all add: cbc_mac_def)

lemma blocks16_Nil [simp]: "blocks16 [] = []"
  by (simp add: blocks16.simps)

lemma blocks16_last: "xs \<noteq> [] \<Longrightarrow> length xs \<le> 16 \<Longrightarrow> blocks16 xs = [xs @ replicate (16 - length xs) 0]"
  by (simp add: blocks16.simps)

lemma blocks16_step: "16 < length xs \<Longrightarrow> blocks16 xs = take 16 xs # blocks16 (drop 16 xs)"
  by (subst blocks16.simps) auto

text \<open>A short block exclusive-ored into the chaining value leaves the value's tail alone.\<close>

lemma xor_bytes_padded:
  assumes "length x = 16" "length d = n" "n \<le> 16"
  shows "xor_bytes x (d @ replicate (16 - n) 0) = xor_bytes (take n x) d @ drop n x"
  by (rule nth_equalityI) (use assms in \<open>auto simp: nth_append\<close>)

lemma auth_loop:
  fixes msg :: bytes
  assumes "n = (len + 15) div 16" "lblk = (if len mod 16 = 0 then 16 else len mod 16)"
    and "len \<le> length msg" "j \<le> n" "length b = 16" "length x = 16"
  shows "ccm_auth_loop key msg n lblk [j..<n] b x =
    Inr (cbc_mac (aes128 key) x (blocks16 (drop (16 * j) (take len msg))))"
  using assms
proof (induction "n - j" arbitrary: j b x)
  case 0
  have "len \<le> 16 * n" using 0 by linarith
  with 0 show ?case by simp
next
  case (Suc d)
  then have jn: "j < n" by simp
  let ?m = "drop (16 * j) (take len msg)"
  have up: "[j..<n] = j # [Suc j..<n]" using jn by (simp add: upt_conv_Cons)
  have j16: "16 * j < len" using jn Suc.prems(1) by linarith
  show ?case
  proof (cases "Suc j = n")
    case True
    have lb: "16 * j + lblk = len"
      unfolding Suc.prems(2) by (rule last_block) (use True Suc.prems(1) in simp)
    have l16: "lblk \<le> 16" using Suc.prems(2) by auto
    have m: "?m = take lblk (drop (16 * j) msg)" "length ?m = lblk" "?m \<noteq> []"
      using lb j16 Suc.prems(3) by (auto simp: drop_take)
    have "mem_write lblk (drop lblk x) (mem_write 0 (xor_bytes (take lblk x) ?m) b) =
        xor_bytes x (?m @ replicate (16 - lblk) 0)"
      using Suc.prems(5,6) m(2) l16 by (simp add: xor_bytes_padded mem_write_def)
    then show ?thesis
      using True up m l16 by (simp add: blocks16_last mult.commute)
  next
    case False
    then have lt: "Suc j < n" using jn by simp
    then have j17: "16 * j + 16 < len" using Suc.prems(1) by linarith
    then have m: "blocks16 ?m = take 16 (drop (16 * j) msg) # blocks16 (drop (16 * Suc j) (take len msg))"
      using Suc.prems(3) by (simp add: blocks16_step drop_take_block add.commute)
    have x: "xor16 x (drop (j * 16) msg) = xor_bytes x (take 16 (drop (16 * j) msg))"
      using j17 Suc.prems by (simp add: xor16_xor_bytes mult.commute)
    show ?thesis
      using lt up Suc.hyps(1) [of "Suc j"] Suc.hyps(2) Suc.prems x
      by (simp add: m)
  qed
qed

lemma ccm_aad_loop_short: "\<not> 16 < n \<Longrightarrow> ccm_aad_loop key aad n i j b x = Inr (n, i, j, b, x)"
  by (simp add: ccm_aad_loop.simps)

lemma ccm_aad_loop_long:
  "16 < n \<Longrightarrow> ccm_aad_loop key aad n i j b x =
    (let b = mem_write i (xor_bytes (drop i x) (take (16 - i) (drop j aad))) b
     in ccm_aad_loop key aad (n - 16) 0 (j + (16 - i)) b (aes128 key b))"
  by (subst ccm_aad_loop.simps) (simp add: Let_def)

text \<open>What follows the loop: the last, padded block.\<close>

definition aad_finish :: "bytes \<Rightarrow> bytes \<Rightarrow> u8 \<times> nat \<times> nat \<times> bytes \<times> bytes \<Rightarrow> bytes \<times> bytes" where
  "aad_finish key aad = (\<lambda>(aad_len, i, j, b, X0).
     (let n = unat aad_len;
          b = mem_write i (xor_bytes (take (n - i) (drop i X0)) (take (n - i) (drop j aad))) b;
          b = mem_write n (drop n X0) b
      in (b, aes128 key b)))"

lemma aad_loop:
  assumes "length b = 16" "length x = 16" "length pre = i" "i \<le> 16" "take i b = xor_bytes (take i x) pre"
    and "unat n = i + length (drop j aad)" "i < unat n \<or> i = 0" "0 < unat n"
  shows "\<exists>r b'. ccm_aad_loop key aad n i j b x = Inr r \<and> length b' = 16 \<and>
    aad_finish key aad r = (b', cbc_mac (aes128 key) x (blocks16 (pre @ drop j aad)))"
  using assms
proof (induction key aad n i j b x arbitrary: pre rule: ccm_aad_loop.induct)
  case (1 key aad n i j b x)
  show ?case
  proof (cases "16 < n")
    case True
    then have n: "16 < unat n" "unat (n - 16) = unat n - 16"
      by (simp_all add: word_less_nat_alt unat_sub word_le_nat_alt)
    let ?d = "take (16 - i) (drop j aad)"
    let ?b = "mem_write i (xor_bytes (drop i x) ?d) b"
    have len: "length ?d = 16 - i" using "1.prems" n by simp
    have b: "?b = xor_bytes x (pre @ ?d)"
    proof -
      have "?b = take i b @ xor_bytes (drop i x) ?d"
        using "1.prems" len by (simp add: mem_write_def)
      also have "\<dots> = xor_bytes (take i x @ drop i x) (pre @ ?d)"
        using "1.prems" by (subst xor_bytes_append) auto
      finally show ?thesis by simp
    qed
    have blk: "blocks16 (pre @ drop j aad) = (pre @ ?d) # blocks16 (drop (j + (16 - i)) aad)"
      using "1.prems" n by (simp add: blocks16_step add.commute)
    have "\<exists>r b'. ccm_aad_loop key aad (n - 16) 0 (j + (16 - i)) ?b (aes128 key ?b) = Inr r \<and> length b' = 16 \<and>
        aad_finish key aad r = (b', cbc_mac (aes128 key) (aes128 key ?b) (blocks16 ([] @ drop (j + (16 - i)) aad)))"
      by (rule "1.IH" [OF True refl]) (use "1.prems" n len b in auto)
    then show ?thesis
      using True b by (simp add: ccm_aad_loop_long Let_def blk)
  next
    case False
    then have n: "unat n \<le> 16" by (simp add: word_less_nat_alt)
    let ?n = "unat n" and ?d = "drop j aad"
    have "mem_write ?n (drop ?n x) (mem_write i (xor_bytes (take (?n - i) (drop i x)) (take (?n - i) ?d)) b) =
      xor_bytes x ((pre @ ?d) @ replicate (16 - ?n) 0)"
    proof -
      have l: "length (xor_bytes (take (?n - i) (drop i x)) (take (?n - i) ?d)) = ?n - i"
        using "1.prems" n by simp
      have "mem_write ?n (drop ?n x) (mem_write i (xor_bytes (take (?n - i) (drop i x)) (take (?n - i) ?d)) b) =
        (take i b @ xor_bytes (take (?n - i) (drop i x)) ?d) @ drop ?n x"
        using "1.prems" n l by (simp add: mem_write_def)
      also have "take i b @ xor_bytes (take (?n - i) (drop i x)) ?d = xor_bytes (take ?n x) (pre @ ?d)"
      proof -
        have "take ?n x = take i x @ take (?n - i) (drop i x)"
          using "1.prems" take_add [of i "?n - i" x] by simp
        then show ?thesis using "1.prems" by (simp add: xor_bytes_append)
      qed
      finally show ?thesis
        using xor_bytes_padded [of x "pre @ ?d" ?n] "1.prems" n by simp
    qed
    moreover have "blocks16 (pre @ ?d) = [(pre @ ?d) @ replicate (16 - ?n) 0]"
      using "1.prems" n by (subst blocks16_last) auto
    ultimately show ?thesis
      using False "1.prems" n by (auto simp: ccm_aad_loop_short aad_finish_def Let_def)
  qed
qed


text \<open>Additional data of 254 or 255 bytes: the length wraps and no data are read.\<close>

lemma aad_wrapped:
  assumes "length b = 16" "length x = 16" "unat n < 2"
  shows "\<exists>b'. ccm_aad_loop key aad n 2 0 b x = Inr (n, 2, 0, b, x) \<and>
    aad_finish key aad (n, 2, 0, b, x) = (b', aes128 key b') \<and> b' = take (unat n) b @ drop (unat n) x"
proof -
  have "\<not> 16 < n" using assms(3) by (simp add: word_less_nat_alt)
  then show ?thesis
    using assms by (simp add: ccm_aad_loop_short aad_finish_def mem_write_def Let_def)
qed

definition ccm_adata :: "bytes \<Rightarrow> bytes list" where
  "ccm_adata aad = (if 254 \<le> length aad then [replicate 16 0] else ccm_aad aad)"

lemma X0_alt:
  "ccm_calculate_X0 key aad al M l b =
     (let b = b[0 := ccm_flags M al];
          b = mem_write 14 (sys_put_be16 (ucast l)) b;
          X0 = aes128 key b
      in if al = 0 then Inr (b, X0)
         else
           (let b = mem_write 0 (sys_put_be16 (ucast al)) b;
                b = mem_write 0 (xor_bytes (take 2 X0) (take 2 b)) b
            in err_bind (ccm_aad_loop key aad (al + 2) 2 0 b X0) (\<lambda>r. Inr (aad_finish key aad r))))"
  by (simp add: ccm_calculate_X0_def aad_finish_def Let_def split_def)

lemma be16_high_zero: "sys_put_be16 (ucast (v :: u8)) ! 0 = 0"
  unfolding byte_defs
  by (simp, rule bit_word_eqI) (auto simp: bit_simps dest: bit_imp_le_length)

lemma X0_spec:
  assumes "length nonce = 13" "length aad < 256"
  defines "al \<equiv> word_of_nat (length aad) :: u8"
  shows "\<exists>b'. ccm_calculate_X0 key aad al M l (c # nonce @ sys_put_be16 v) =
      Inr (b', cbc_mac (aes128 key) (aes128 key (ccm_flags M al # nonce @ sys_put_be16 (ucast l))) (ccm_adata aad)) \<and>
    length b' = 16"
proof -
  let ?b = "ccm_flags M al # nonce @ sys_put_be16 (ucast l)"
  let ?X0 = "aes128 key ?b"
  have b: "mem_write 14 (sys_put_be16 (ucast l)) ((c # nonce @ sys_put_be16 v)[0 := ccm_flags M al]) = ?b"
    using assms(1) by (simp add: ctr_block_again)
  have al: "unat al = length aad" using assms(2) by (simp add: al_def unat_of_nat)
  then have al0: "al = 0 \<longleftrightarrow> aad = []" by (simp add: unat_eq_0 [symmetric])
  let ?pre = "sys_put_be16 (ucast al)"
  let ?b1 = "mem_write 0 (xor_bytes (take 2 ?X0) (take 2 (mem_write 0 ?pre ?b))) (mem_write 0 ?pre ?b)"
  have pre: "take 2 (mem_write 0 ?pre ?b) = ?pre" by (simp add: mem_write_def)
  have b1: "length ?b1 = 16" "take 2 ?b1 = xor_bytes (take 2 ?X0) ?pre"
    using assms(1) unfolding pre by (auto simp: mem_write_def)
  show ?thesis
  proof (cases "aad = []")
    case True
    then show ?thesis using b al0 assms(1) by (simp add: X0_alt Let_def ccm_adata_def ccm_aad_def)
  next
    case False
    have "\<exists>r b'. ccm_aad_loop key aad (al + 2) 2 0 ?b1 ?X0 = Inr r \<and> length b' = 16 \<and>
      aad_finish key aad r = (b', cbc_mac (aes128 key) ?X0 (ccm_adata aad))"
    proof (cases "254 \<le> length aad")
      case True
      then have "unat (al + 2) = length aad - 254"
        using al assms(2) by (simp add: unat_word_ariths mod_if)
      then have "unat (al + 2) < 2" using assms(2) by simp
      moreover have "take (unat (al + 2)) ?b1 @ drop (unat (al + 2)) ?X0 = ?X0"
        if "unat (al + 2) < 2"
      proof -
        have "take 1 (take 2 ?b1) = take 1 ?X0"
          unfolding b1(2) by (rule nth_equalityI) (auto simp: be16_high_zero)
        then have "take 1 ?b1 = take 1 ?X0" by simp
        with that show ?thesis by (cases "unat (al + 2)") (auto simp: less_Suc_eq)
      qed
      moreover have "xor_bytes ?X0 (replicate 16 0) = ?X0"
        by (rule nth_equalityI) auto
      ultimately show ?thesis
        using aad_wrapped [of ?b1 ?X0 "al + 2" key aad] b1 True by (auto simp: ccm_adata_def)
    next
      case small: False
      then have "unat (al + 2) = 2 + length (drop 0 aad)"
        using al by (simp add: unat_word_ariths)
      moreover have "(ucast al :: u16) = word_of_nat (length aad)"
        using assms(2) by (simp add: al_def unsigned_of_nat take_bit_nat_eq_self)
      ultimately show ?thesis
        using aad_loop [of ?b1 ?X0 ?pre 2 "al + 2" 0 aad key] b1 False small
        by (simp add: ccm_adata_def ccm_aad_def)
    qed
    then show ?thesis using b al0 False by (auto simp: X0_alt Let_def)
  qed
qed


lemma ccm_auth_spec:
  assumes "length nonce = 13" "length aad < 256" "len \<le> length msg" "len \<le> 16 * 65535" "M \<le> 16"
  shows "ccm_auth key nonce msg len aad (length aad) mic M =
    (None, mem_write 0 (ccm_mac (aes128 key) nonce (ccm_flags M (word_of_nat (length aad)))
      (ucast (word_of_nat len :: u8)) (ccm_adata aad) M (take len msg)) mic)"
proof -
  obtain b' where X0: "ccm_calculate_X0 key aad (word_of_nat (length aad)) M (word_of_nat len) (0x01 # nonce @ sys_put_be16 0) =
      Inr (b', cbc_mac (aes128 key) (aes128 key (ccm_flags M (word_of_nat (length aad)) # nonce @
        sys_put_be16 (ucast (word_of_nat len :: u8)))) (ccm_adata aad))" "length b' = 16"
    using X0_spec [OF assms(1,2)] by blast
  have len16: "length (cbc_mac (aes128 key) x bs) = 16" if "length x = 16" for x bs
    using that by (induction bs arbitrary: x) auto
  show ?thesis
    using X0(1) auth_loop [OF refl refl assms(3) le0 X0(2), of _ key]
    unfolding ccm_auth_def ctr_block [OF assms(1)] blk_counts_small [OF assms(4)] Let_def prod.case
    by (simp add: len16 ccm_mac_def ccm_ctr_def take_xor_bytes split del: if_split)
qed

section \<open>Sealing and opening\<close>

text \<open>What the CCM functions compute: the cipher text followed by the authentication value.\<close>

definition ccm_tag :: "bytes \<Rightarrow> bytes \<Rightarrow> bytes \<Rightarrow> nat \<Rightarrow> bytes \<Rightarrow> bytes" where
  "ccm_tag key nonce aad M msg =
     ccm_mac (aes128 key) nonce (ccm_flags M (word_of_nat (length aad)))
       (ucast (word_of_nat (length msg) :: u8)) (ccm_adata aad) M msg"

definition ccm_seal :: "bytes \<Rightarrow> bytes \<Rightarrow> bytes \<Rightarrow> nat \<Rightarrow> bytes \<Rightarrow> bytes" where
  "ccm_seal key nonce aad M msg = ccm_cipher (aes128 key) nonce msg @ ccm_tag key nonce aad M msg"

definition ccm_args :: "bytes \<Rightarrow> bytes \<Rightarrow> nat \<Rightarrow> bytes \<Rightarrow> bool" where
  "ccm_args nonce aad M msg \<longleftrightarrow> length nonce = 13 \<and> length aad < 256 \<and> M \<le> 16 \<and> length msg \<le> 16 * 65535"

lemma length_cbc_mac: "length x = 16 \<Longrightarrow> length (cbc_mac (aes128 key) x bs) = 16"
  by (induction bs arbitrary: x) auto

lemma length_ccm_mac [simp]: "M \<le> 16 \<Longrightarrow> length (ccm_mac (aes128 key) nonce flags l ad M msg) = M"
  by (simp add: ccm_mac_def length_cbc_mac)

lemma length_ccm_tag [simp]: "M \<le> 16 \<Longrightarrow> length (ccm_tag key nonce aad M msg) = M"
  by (simp add: ccm_tag_def)

lemma length_ccm_seal [simp]: "M \<le> 16 \<Longrightarrow> length (ccm_seal key nonce aad M msg) = length msg + M"
  by (simp add: ccm_seal_def)

lemma ccm_cipher_involution: "ccm_cipher (aes128 key) nonce (ccm_cipher (aes128 key) nonce msg) = msg"
  by (simp add: ccm_cipher_def [of _ _ "ccm_cipher _ _ _"]) (simp add: ccm_cipher_def xor_bytes_cancel)

text \<open>
  Both functions on a buffer that holds the message and has room for the tag: in place
  (the output pointer is the input pointer) or into another buffer.
\<close>

lemma bt_ccm_encrypt_seal:
  assumes "ccm_args nonce aad M msg" "take (length msg) src = msg" "length msg + M \<le> length dst"
  shows "bt_ccm_encrypt key nonce src (length msg) aad (length aad) dst M =
    (None, ccm_seal key nonce aad M msg @ drop (length msg + M) dst)"
proof -
  have len: "length msg \<le> length src" using assms(2) by (metis length_take min.cobounded1 min.absorb_iff2)
  show ?thesis
    using assms len
    by (simp add: bt_ccm_encrypt_def ccm_args_def ccm_auth_spec ccm_crypt_spec ccm_seal_def ccm_tag_def mem_write_def
        add.commute)
qed

lemma bt_ccm_decrypt_open:
  assumes "ccm_args nonce aad M c" "take (length c) src = c" "length c + M \<le> length src" "length c \<le> length dst"
  shows "bt_ccm_decrypt key nonce src (length c) aad (length aad) dst M =
    (let p = ccm_cipher (aes128 key) nonce c in
     (if ccm_seal key nonce aad M p = take (length c + M) src then None else Some EBADMSG, p @ drop (length c) dst))"
proof -
  let ?p = "ccm_cipher (aes128 key) nonce c"
  have src: "take (length c + M) src = c @ take M (drop (length c) src)"
    using assms(2) by (simp add: take_add)
  have "ccm_seal key nonce aad M ?p = take (length c + M) src \<longleftrightarrow>
      ccm_tag key nonce aad M ?p = take M (drop (length c) src)"
    unfolding src by (simp add: ccm_seal_def ccm_cipher_involution)
  moreover have "take M (mem_write 0 (ccm_tag key nonce aad M ?p) (replicate 16 0)) = ccm_tag key nonce aad M ?p"
    using assms(1) by (simp add: ccm_args_def mem_write_def)
  ultimately show ?thesis
    using assms by (auto simp: bt_ccm_decrypt_def ccm_args_def ccm_auth_spec ccm_crypt_spec ccm_tag_def Let_def)
qed


section \<open>The contract of authenticated encryption\<close>

text \<open>
  \<open>seal\<close> is the sealed message as a function, \<open>cipher\<close> its encrypted part; \<open>enc\<close> and \<open>dec\<close>
  are the operations on buffers.  \<open>args\<close> are the nonces, additional data, tag sizes and
  messages they support.
\<close>

type_synonym ccm_op = "bytes \<Rightarrow> bytes \<Rightarrow> bytes \<Rightarrow> nat \<Rightarrow> bytes \<Rightarrow> nat \<Rightarrow> bytes \<Rightarrow> nat \<Rightarrow> errno option \<times> bytes"

locale aead =
  fixes args :: "bytes \<Rightarrow> bytes \<Rightarrow> nat \<Rightarrow> bytes \<Rightarrow> bool"
    and seal :: "bytes \<Rightarrow> bytes \<Rightarrow> bytes \<Rightarrow> nat \<Rightarrow> bytes \<Rightarrow> bytes"
    and cipher :: "bytes \<Rightarrow> bytes \<Rightarrow> bytes \<Rightarrow> bytes"
    and enc :: ccm_op and dec :: ccm_op
  assumes args_length: "length m = length m' \<Longrightarrow> args n a M m \<Longrightarrow> args n a M m'"
    and seal_length: "args n a M m \<Longrightarrow> length (seal k n a M m) = length m + M"
    and cipher_length: "length (cipher k n m) = length m"
    and cipher_inverse: "cipher k n (cipher k n m) = m"
    and seal_cipher: "take (length m) (seal k n a M m) = cipher k n m"
    and enc_seal: "args n a M m \<Longrightarrow> take (length m) src = m \<Longrightarrow> length m + M \<le> length dst \<Longrightarrow>
      enc k n src (length m) a (length a) dst M = (None, seal k n a M m @ drop (length m + M) dst)"
    and dec_open: "args n a M c \<Longrightarrow> take (length c) src = c \<Longrightarrow> length c + M \<le> length src \<Longrightarrow>
      length c \<le> length dst \<Longrightarrow> dec k n src (length c) a (length a) dst M =
        (let p = cipher k n c in
         (if seal k n a M p = take (length c + M) src then None else Some EBADMSG, p @ drop (length c) dst))"
begin

lemma dec_seal:
  assumes "args n a M m" "take (length m + M) src = seal k n a M m" "length m + M \<le> length src" "length m \<le> length dst"
  shows "dec k n src (length m) a (length a) dst M = (None, m @ drop (length m) dst)"
proof -
  let ?c = "cipher k n m"
  have c: "take (length ?c) src = ?c"
    using assms(2) seal_cipher [of m k n a M] cipher_length [of k n m]
    by (metis min.absorb1 le_add1 take_take)
  have "args n a M ?c" using assms(1) cipher_length args_length by metis
  from dec_open [OF this c] assms show ?thesis
    by (simp add: cipher_length cipher_inverse)
qed

lemma dec_accepts_iff:
  assumes "args n a M m0" "length m0 = len" "len + M \<le> length src" "len \<le> length dst"
  shows "fst (dec k n src len a (length a) dst M) = None \<longleftrightarrow>
    (\<exists>m. length m = len \<and> take (len + M) src = seal k n a M m)"
    and "fst (dec k n src len a (length a) dst M) \<in> {None, Some EBADMSG}"
proof -
  let ?c = "take len src"
  have len: "length ?c = len" using assms(3) by simp
  have args: "args n a M ?c" using assms(1) by (rule args_length [rotated]) (use assms len in simp)
  have d: "dec k n src len a (length a) dst M = (let p = cipher k n ?c in
      (if seal k n a M p = take (len + M) src then None else Some EBADMSG, p @ drop len dst))"
    using dec_open [OF args, of src dst k] assms(3,4) unfolding len by simp
  show "fst (dec k n src len a (length a) dst M) \<in> {None, Some EBADMSG}"
    using d by (simp add: Let_def)
  have A: "fst (dec k n src len a (length a) dst M) = None" if "length m = len" "take (len + M) src = seal k n a M m" for m
  proof -
    have "args n a M m" using assms(1) by (rule args_length [rotated]) (use assms that in simp)
    from dec_seal [OF this, of src k dst] that assms show ?thesis by simp
  qed
  have B: "\<exists>m. length m = len \<and> take (len + M) src = seal k n a M m"
    if "fst (dec k n src len a (length a) dst M) = None"
  proof (intro exI conjI)
    show "length (cipher k n ?c) = len" using len cipher_length by simp
    show "take (len + M) src = seal k n a M (cipher k n ?c)"
      using that d by (simp add: Let_def split: if_splits)
  qed
  show "fst (dec k n src len a (length a) dst M) = None \<longleftrightarrow>
    (\<exists>m. length m = len \<and> take (len + M) src = seal k n a M m)"
    by (rule iffI, erule B, elim exE conjE, rule A)
qed

end

interpretation ccm: aead ccm_args ccm_seal "\<lambda>k. ccm_cipher (aes128 k)" bt_ccm_encrypt bt_ccm_decrypt
proof (unfold_locales, goal_cases)
  case (6 n a M m src dst k)
  then show ?case by (rule bt_ccm_encrypt_seal)
next
  case (7 n a M c src dst k)
  then show ?case by (rule bt_ccm_decrypt_open)
qed (auto simp: ccm_args_def ccm_cipher_involution ccm_seal_def)

section \<open>CCM as the standard has it\<close>

definition ccm_std_flags :: "nat \<Rightarrow> bytes \<Rightarrow> u8" where
  "ccm_std_flags M aad = word_of_nat (8 * ((M - 2) div 2) + (if aad = [] then 0 else 64) + 1)"

definition ccm_standard :: "bytes \<Rightarrow> bytes \<Rightarrow> bytes \<Rightarrow> nat \<Rightarrow> bytes \<Rightarrow> bytes" where
  "ccm_standard key nonce aad M msg = ccm_cipher (aes128 key) nonce msg @
     ccm_mac (aes128 key) nonce (ccm_std_flags M aad) (word_of_nat (length msg)) (ccm_aad aad) M msg"

lemma ccm_flags_table:
  "\<forall>M \<in> set [2..<17]. \<forall>al \<in> {0 :: u8, 1}.
     ccm_flags M al = word_of_nat (8 * ((M - 2) div 2) + (if al = 0 then 0 else 64) + 1)"
  unfolding ccm_flags_def by code_simp

lemma ccm_flags_std:
  assumes "2 \<le> M" "M \<le> 16" "length aad < 256"
  shows "ccm_flags M (word_of_nat (length aad)) = ccm_std_flags M aad"
proof -
  let ?al = "if aad = [] then 0 else 1 :: u8"
  have M: "M \<in> set [2..<17]" using assms by (simp only: set_upt atLeastLessThan_iff) simp
  have "?al \<in> {0, 1}" by simp
  from ccm_flags_table [rule_format, OF M this]
  have "ccm_flags M ?al = ccm_std_flags M aad" by (simp add: ccm_std_flags_def del: upt_rec_numeral)
  moreover have "(word_of_nat (length aad) :: u8) = 0 \<longleftrightarrow> aad = []"
    using assms(3) by (simp add: word_of_nat_eq_0_iff) (auto dest: dvd_imp_le)
  ultimately show ?thesis by (simp add: ccm_flags_def split: if_splits)
qed

lemma word_len_cast: "n < 256 \<Longrightarrow> (ucast (word_of_nat n :: u8) :: u16) = word_of_nat n"
  by (simp add: unsigned_of_nat take_bit_nat_eq_self)

lemma ccm_seal_standard:
  assumes "2 \<le> M" "M \<le> 16" "length aad \<le> 253" "length msg \<le> 255"
  shows "ccm_seal key nonce aad M msg = ccm_standard key nonce aad M msg"
  using assms by (simp add: ccm_seal_def ccm_standard_def ccm_tag_def ccm_flags_std ccm_adata_def word_len_cast)


lemma ccm_seal_adata:
  "254 \<le> length aad \<Longrightarrow> length aad' = length aad \<Longrightarrow> ccm_seal key nonce aad' M msg = ccm_seal key nonce aad M msg"
  by (simp add: ccm_seal_def ccm_tag_def ccm_adata_def)

section \<open>Properties\<close>

text \<open>
  Block encryption on little-endian byte strings is AES on the reversed strings, with
  the result reversed again; neither order fails.
\<close>

theorem bt_encrypt_le_rev:
  assumes "length key = 16" "length plaintext = 16"
  shows "\<exists>c. bt_encrypt_be (rev key) (rev plaintext) = Inr c \<and> bt_encrypt_le key plaintext = Inr (rev c)"
proof -
  obtain w where w: "tc_aes128_set_encrypt_key (Some (rev key)) = Some w" using set_encrypt_key_Some by blast
  obtain c where c: "tc_aes_encrypt (Some (rev plaintext)) (Some w) = Some c" using tc_aes_encrypt_Some by blast
  have "bt_encrypt_be (rev key) (rev plaintext) = Inr c" using w c by (simp add: bt_encrypt_be_def del: bt_encrypt_be_aes128)
  moreover have "bt_encrypt_le key plaintext = Inr (rev c)"
    using w c assms length_tc_aes_encrypt [OF c]
    by (simp add: bt_encrypt_le_def Let_def sys_memcpy_swap_rev sys_mem_swap_rev)
  ultimately show ?thesis by blast
qed

theorem bt_encrypt_le_rev_witness:
  "\<exists>c. bt_encrypt_be (rev (map word_of_nat [0..<16])) (rev (replicate 16 7)) = Inr c \<and>
     bt_encrypt_le (map word_of_nat [0..<16]) (replicate 16 7) = Inr (rev c)"
  by (rule bt_encrypt_le_rev) simp_all

text \<open>
  C6: for messages of at most 255 bytes and additional data of at most 253 bytes, encryption
  in place or into another buffer succeeds and writes CCM's cipher text and
  authentication value, leaving the rest of the buffer alone.
\<close>

theorem bt_ccm_encrypt_standard:
  assumes "length nonce = 13" "2 \<le> M" "M \<le> 16" "length aad \<le> 253" "length msg \<le> 255"
    and "take (length msg) src = msg" "length msg + M \<le> length dst"
  shows "bt_ccm_encrypt key nonce src (length msg) aad (length aad) dst M =
    (None, ccm_standard key nonce aad M msg @ drop (length msg + M) dst)"
  using bt_ccm_encrypt_seal [of nonce aad M msg src dst key] ccm_seal_standard [of M aad msg key nonce] assms
  by (simp add: ccm_args_def)

theorem bt_ccm_encrypt_standard_witness:
  "bt_ccm_encrypt (replicate 16 3) (replicate 13 5) ([1, 2, 3] @ replicate 4 0) (length [1, 2, 3 :: u8]) [9] (length [9 :: u8])
     ([1, 2, 3] @ replicate 4 0) 4 =
   (None, ccm_standard (replicate 16 3) (replicate 13 5) [9] 4 [1, 2, 3] @ drop (length [1, 2, 3 :: u8] + 4) ([1, 2, 3] @ replicate 4 0))"
  by (rule bt_ccm_encrypt_standard) simp_all

text \<open>
  C4: decrypting what was encrypted under the same key, nonce and additional data succeeds
  and returns the message, into the same or another buffer.
\<close>

theorem bt_ccm_roundtrip:
  assumes "length nonce = 13" "length aad < 256" "M \<le> 16" "length msg \<le> 16 * 65535"
    and "take (length msg) src = msg" "length msg + M \<le> length dst" "length msg \<le> length out"
  shows "\<exists>dst'. bt_ccm_encrypt key nonce src (length msg) aad (length aad) dst M = (None, dst') \<and>
    bt_ccm_decrypt key nonce dst' (length msg) aad (length aad) out M = (None, msg @ drop (length msg) out)"
  using assms ccm.enc_seal [of nonce aad M msg src dst key]
    ccm.dec_seal [of nonce aad M msg "ccm_seal key nonce aad M msg @ drop (length msg + M) dst" key out]
  by (simp add: ccm_args_def)

theorem bt_ccm_roundtrip_witness:
  "\<exists>dst'. bt_ccm_encrypt (replicate 16 3) (replicate 13 5) ([1, 2, 3] @ replicate 4 0) (length [1, 2, 3 :: u8]) [] (length ([] :: bytes))
       ([1, 2, 3] @ replicate 4 0) 4 = (None, dst') \<and>
     bt_ccm_decrypt (replicate 16 3) (replicate 13 5) dst' (length [1, 2, 3 :: u8]) [] (length ([] :: bytes)) [0, 0, 0] 4 =
       (None, [1, 2, 3] @ drop (length [1, 2, 3 :: u8]) [0, 0, 0])"
  by (rule bt_ccm_roundtrip) simp_all

text \<open>
  C5: decryption reports success exactly on the byte strings that sealing some message of
  that length under the same key, nonce and additional data produces; every other string
  is rejected with \<open>EBADMSG\<close>.
\<close>

theorem bt_ccm_decrypt_accepts_iff:
  assumes "length nonce = 13" "length aad < 256" "M \<le> 16" "len \<le> 16 * 65535"
    and "len + M \<le> length src" "len \<le> length dst"
  shows "fst (bt_ccm_decrypt key nonce src len aad (length aad) dst M) =
    (if \<exists>m. length m = len \<and> take (len + M) src = ccm_seal key nonce aad M m then None else Some EBADMSG)"
proof -
  have args: "ccm_args nonce aad M (replicate len 0)" using assms by (simp add: ccm_args_def)
  from ccm.dec_accepts_iff [OF args _ assms(5,6), of key] show ?thesis by auto
qed

theorem bt_ccm_decrypt_accepts_iff_witness:
  "fst (bt_ccm_decrypt (replicate 16 3) (replicate 13 5) (replicate 7 1) 3 [] (length ([] :: bytes)) (replicate 3 0) 4) =
    (if \<exists>m. length m = 3 \<and> take (3 + 4) (replicate 7 1) = ccm_seal (replicate 16 3) (replicate 13 5) [] 4 m
     then None else Some EBADMSG)"
  by (rule bt_ccm_decrypt_accepts_iff) simp_all

text \<open>
  Additional data of 254 or 255 bytes are not authenticated: the length is kept in eight
  bits, adding the two bytes of its encoding wraps to zero or one, and the data are never
  read.  A message sealed under one such string is accepted under every other of its length.
\<close>

theorem bt_ccm_long_aad_not_authenticated:
  assumes "length nonce = 13" "M \<le> 16" "length msg \<le> 16 * 65535"
    and "length aad = 254 \<or> length aad = 255" "length aad' = length aad"
    and "take (length msg) src = msg" "length msg + M \<le> length dst" "length msg \<le> length out"
  shows "\<exists>dst'. bt_ccm_encrypt key nonce src (length msg) aad (length aad) dst M = (None, dst') \<and>
    bt_ccm_decrypt key nonce dst' (length msg) aad' (length aad') out M = (None, msg @ drop (length msg) out)"
proof -
  have "ccm_seal key nonce aad' M msg = ccm_seal key nonce aad M msg"
    using assms(4,5) by (intro ccm_seal_adata) auto
  with assms ccm.enc_seal [of nonce aad M msg src dst key]
    ccm.dec_seal [of nonce aad' M msg "ccm_seal key nonce aad M msg @ drop (length msg + M) dst" key out]
  show ?thesis by (auto simp: ccm_args_def)
qed

theorem bt_ccm_long_aad_not_authenticated_witness:
  "\<exists>dst'. bt_ccm_encrypt (replicate 16 3) (replicate 13 5) ([1, 2, 3] @ replicate 4 0) (length [1, 2, 3 :: u8])
       (replicate 254 0) (length (replicate 254 (0 :: u8))) ([1, 2, 3] @ replicate 4 0) 4 = (None, dst') \<and>
     bt_ccm_decrypt (replicate 16 3) (replicate 13 5) dst' (length [1, 2, 3 :: u8])
       (replicate 254 1) (length (replicate 254 (1 :: u8))) [0, 0, 0] 4 = (None, [1, 2, 3] @ drop (length [1, 2, 3 :: u8]) [0, 0, 0])"
  by (rule bt_ccm_long_aad_not_authenticated) simp_all

text \<open>
  The length field of the first authenticated block is the message length modulo 256,
  since the length is passed as a \<open>uint8_t\<close>; for messages of 256 bytes and more, which
  upper transport messages reach, the authentication value is not CCM's.
\<close>

theorem bt_ccm_encrypt_length_field:
  assumes "length nonce = 13" "2 \<le> M" "M \<le> 16" "length aad \<le> 253" "length msg \<le> 16 * 65535"
    and "take (length msg) src = msg" "length msg + M \<le> length dst"
  shows "bt_ccm_encrypt key nonce src (length msg) aad (length aad) dst M =
    (None, ccm_cipher (aes128 key) nonce msg @
       ccm_mac (aes128 key) nonce (ccm_std_flags M aad) (word_of_nat (length msg mod 256)) (ccm_aad aad) M msg @
       drop (length msg + M) dst)"
proof -
  have "(ucast (word_of_nat (length msg) :: u8) :: u16) = word_of_nat (length msg mod 256)"
    by (simp add: unsigned_of_nat take_bit_eq_mod)
  then show ?thesis
    using bt_ccm_encrypt_seal [of nonce aad M msg src dst key] assms
    by (simp add: ccm_args_def ccm_seal_def ccm_tag_def ccm_flags_std ccm_adata_def)
qed

theorem bt_ccm_encrypt_length_field_witness:
  "bt_ccm_encrypt (replicate 16 3) (replicate 13 5) (replicate 300 7) (length (replicate 256 (7 :: u8))) [] (length ([] :: bytes))
     (replicate 300 7) 4 =
   (None, ccm_cipher (aes128 (replicate 16 3)) (replicate 13 5) (replicate 256 7) @
       ccm_mac (aes128 (replicate 16 3)) (replicate 13 5) (ccm_std_flags 4 [])
         (word_of_nat (length (replicate 256 (7 :: u8)) mod 256)) (ccm_aad []) 4 (replicate 256 7) @
       drop (length (replicate 256 (7 :: u8)) + 4) (replicate 300 7))"
  by (rule bt_ccm_encrypt_length_field) simp_all

end
