(* ===== verification/Mesh_Crypto.thy ===== *)
theory Mesh_Crypto
  imports Bt_Crypto
begin

text \<open>
  The mesh profile's crypto toolbox, \<open>core/src/mesh/crypto.c\<close> and \<open>core/src/mesh/crypto.h\<close>:
  the key derivation functions over AES-CMAC, the nonces, obfuscation and encryption of
  network and application PDUs in place in a packet buffer, the provisioning functions and
  the frame check sequence of the provisioning bearer.

  Results that the code writes through output pointers are the \<open>Inr\<close> values.  The functions
  on packet buffers return the status and the buffer, and \<open>None\<close> when an assertion of the
  buffer fails or when a length, decreased below zero, would wrap and reach outside of the
  storage.  \<open>CONFIG_BT_MESH_PROXY\<close> is the parameter \<open>cfg_proxy\<close>.
\<close>

section \<open>CMAC over scatter lists\<close>

record bt_mesh_sg =
  sg_data :: "bytes option"
  sg_len :: nat

primrec cmac_sg :: "cmac_state \<Rightarrow> bt_mesh_sg list \<Rightarrow> cmac_state option" where
  "cmac_sg state [] = Some state"
| "cmac_sg state (sg # sgs) =
     do { state' \<leftarrow> tc_cmac_update state (sg_data sg) (sg_len sg); cmac_sg state' sgs }"

definition bt_mesh_aes_cmac :: "bytes \<Rightarrow> bt_mesh_sg list \<Rightarrow> errno + bytes" where
  "bt_mesh_aes_cmac key sg =
     (case tc_cmac_setup (Some key) of None \<Rightarrow> Inl EIO
      | Some state \<Rightarrow>
         (case cmac_sg state sg of None \<Rightarrow> Inl EIO
          | Some state \<Rightarrow> Inr (fst (tc_cmac_final state))))"

definition bt_mesh_aes_cmac_one :: "bytes \<Rightarrow> bytes \<Rightarrow> errno + bytes" where
  "bt_mesh_aes_cmac_one key m = bt_mesh_aes_cmac key [\<lparr>sg_data = Some m, sg_len = length m\<rparr>]"

text \<open>A C string without its terminating zero.\<close>

definition str_bytes :: "string \<Rightarrow> bytes" where
  "str_bytes s = map (\<lambda>c. word_of_nat (of_char c)) s"

text \<open>\<open>bt_mesh_s1\<close> returns a \<open>bool\<close>, so an error reaches its callers as one.\<close>

definition bt_mesh_s1 :: "string \<Rightarrow> errno + bytes" where
  "bt_mesh_s1 m =
     (case bt_mesh_aes_cmac_one (replicate 16 0) (str_bytes m) of Inl _ \<Rightarrow> Inl ETRUE | Inr salt \<Rightarrow> Inr salt)"

section \<open>Key derivation\<close>

definition bt_mesh_k1 :: "bytes \<Rightarrow> bytes \<Rightarrow> bytes \<Rightarrow> errno + bytes" where
  "bt_mesh_k1 ikm salt info =
     err_bind (bt_mesh_aes_cmac_one salt ikm) (\<lambda>okm. bt_mesh_aes_cmac_one okm info)"

definition bt_mesh_k2 :: "bytes \<Rightarrow> bytes \<Rightarrow> errno + u8 \<times> bytes \<times> bytes" where
  "bt_mesh_k2 n p =
     err_bind (bt_mesh_s1 ''smk2'') (\<lambda>salt.
     err_bind (bt_mesh_aes_cmac_one salt n) (\<lambda>t.
     (let sg0 = \<lparr>sg_data = None, sg_len = 0\<rparr>;
          sg1 = \<lparr>sg_data = Some p, sg_len = length p\<rparr>;
          pad = (\<lambda>b :: u8. \<lparr>sg_data = Some [b], sg_len = 1\<rparr>)
      in err_bind (bt_mesh_aes_cmac t [sg0, sg1, pad 0x01]) (\<lambda>out.
         (let net_id = out ! 15 AND 0x7f
          in err_bind (bt_mesh_aes_cmac t [\<lparr>sg_data = Some out, sg_len = 16\<rparr>, sg1, pad 0x02]) (\<lambda>out.
             (let enc_key = out
              in err_bind (bt_mesh_aes_cmac t [\<lparr>sg_data = Some out, sg_len = 16\<rparr>, sg1, pad 0x03]) (\<lambda>out.
                 Inr (net_id, enc_key, out)))))))))"

definition bt_mesh_k3 :: "bytes \<Rightarrow> errno + bytes" where
  "bt_mesh_k3 n =
     err_bind (bt_mesh_s1 ''smk3'') (\<lambda>tmp.
     err_bind (bt_mesh_aes_cmac_one tmp n) (\<lambda>t.
     err_bind (bt_mesh_aes_cmac_one t (str_bytes ''id64'' @ [0x01])) (\<lambda>tmp.
     Inr (take 8 (drop 8 tmp)))))"

definition bt_mesh_k4 :: "bytes \<Rightarrow> errno + u8" where
  "bt_mesh_k4 n =
     err_bind (bt_mesh_s1 ''smk4'') (\<lambda>tmp.
     err_bind (bt_mesh_aes_cmac_one tmp n) (\<lambda>t.
     err_bind (bt_mesh_aes_cmac_one t (str_bytes ''id6'' @ [0x01])) (\<lambda>tmp.
     Inr (tmp ! 15 AND 0x3f))))"

definition bt_mesh_id128 :: "bytes \<Rightarrow> string \<Rightarrow> errno + bytes" where
  "bt_mesh_id128 n s =
     err_bind (bt_mesh_s1 s) (\<lambda>salt. bt_mesh_k1 n salt (str_bytes ''id128'' @ [0x01]))"

text \<open>The salt array of \<open>bt_mesh_k1_str\<close> is initialised from a string and zero beyond it.\<close>

definition bt_mesh_k1_str :: "bytes \<Rightarrow> string \<Rightarrow> string \<Rightarrow> errno + bytes" where
  "bt_mesh_k1_str ikm salt_str info =
     bt_mesh_k1 ikm (str_bytes salt_str @ replicate (16 - length salt_str) 0) (str_bytes info)"

definition bt_mesh_id_resolving_key :: "bytes \<Rightarrow> errno + bytes" where
  "bt_mesh_id_resolving_key net_key = bt_mesh_k1_str net_key ''smbt'' ''smbi''"

definition bt_mesh_identity_key :: "bytes \<Rightarrow> errno + bytes" where
  "bt_mesh_identity_key net_key = bt_mesh_id128 net_key ''nkik''"

definition bt_mesh_beacon_key :: "bytes \<Rightarrow> errno + bytes" where
  "bt_mesh_beacon_key net_key = bt_mesh_id128 net_key ''nkbk''"

definition bt_mesh_app_id :: "bytes \<Rightarrow> errno + u8" where
  "bt_mesh_app_id app_key = bt_mesh_k4 app_key"

definition bt_mesh_session_key :: "bytes \<Rightarrow> bytes \<Rightarrow> errno + bytes" where
  "bt_mesh_session_key dhkey prov_salt = bt_mesh_k1 dhkey prov_salt (str_bytes ''prsk'')"

definition bt_mesh_prov_nonce :: "bytes \<Rightarrow> bytes \<Rightarrow> errno + bytes" where
  "bt_mesh_prov_nonce dhkey prov_salt =
     err_bind (bt_mesh_k1 dhkey prov_salt (str_bytes ''prsn'')) (\<lambda>tmp. Inr (take 13 (drop 3 tmp)))"

definition bt_mesh_dev_key :: "bytes \<Rightarrow> bytes \<Rightarrow> errno + bytes" where
  "bt_mesh_dev_key dhkey prov_salt = bt_mesh_k1 dhkey prov_salt (str_bytes ''prdk'')"

definition bt_mesh_prov_salt :: "bytes \<Rightarrow> bytes \<Rightarrow> bytes \<Rightarrow> errno + bytes" where
  "bt_mesh_prov_salt conf_salt prov_rand dev_rand =
     bt_mesh_aes_cmac (replicate 16 0)
       [\<lparr>sg_data = Some conf_salt, sg_len = 16\<rparr>, \<lparr>sg_data = Some prov_rand, sg_len = 16\<rparr>,
        \<lparr>sg_data = Some dev_rand, sg_len = 16\<rparr>]"

section \<open>Nonces and obfuscation\<close>

definition create_proxy_nonce :: "bytes \<Rightarrow> u32 \<Rightarrow> bytes" where
  "create_proxy_nonce pdu iv_index =
     [0x03, 0x00, pdu ! 2, pdu ! 3, pdu ! 4, pdu ! 5, pdu ! 6, 0, 0] @ sys_put_be32 iv_index"

definition create_net_nonce :: "bytes \<Rightarrow> u32 \<Rightarrow> bytes" where
  "create_net_nonce pdu iv_index =
     [0x00, pdu ! 1, pdu ! 2, pdu ! 3, pdu ! 4, pdu ! 5, pdu ! 6, 0, 0] @ sys_put_be32 iv_index"

definition bt_mesh_net_obfuscate :: "bytes \<Rightarrow> u32 \<Rightarrow> bytes \<Rightarrow> errno option \<times> bytes" where
  "bt_mesh_net_obfuscate pdu iv_index privacy_key =
     (let priv_rand = replicate 5 0 @ sys_put_be32 iv_index @ take 7 (drop 7 pdu)
      in case bt_encrypt_be privacy_key priv_rand of Inl e \<Rightarrow> (Some e, pdu)
         | Inr tmp \<Rightarrow> (None, mem_write 1 (xor_bytes (take 6 (drop 1 pdu)) (take 6 tmp)) pdu))"

section \<open>Network PDUs\<close>

definition NET_MIC_LEN :: "bytes \<Rightarrow> nat" where
  "NET_MIC_LEN pdu = (if pdu ! 1 AND 0x80 \<noteq> 0 then 8 else 4)"

definition net_nonce :: "bool \<Rightarrow> bool \<Rightarrow> bytes \<Rightarrow> u32 \<Rightarrow> bytes" where
  "net_nonce cfg_proxy proxy pdu iv_index =
     (if cfg_proxy \<and> proxy then create_proxy_nonce pdu iv_index else create_net_nonce pdu iv_index)"

text \<open>The memory from an offset of the data pointer on, and writing it back.\<close>

definition nb_from :: "nat \<Rightarrow> net_buf_simple \<Rightarrow> bytes" where
  "nb_from off buf = drop (nb_data buf + off) (nb_buf buf)"

definition nb_set_from :: "nat \<Rightarrow> bytes \<Rightarrow> net_buf_simple \<Rightarrow> net_buf_simple" where
  "nb_set_from off m buf = buf\<lparr>nb_buf := take (nb_data buf + off) (nb_buf buf) @ m\<rparr>"

definition bt_mesh_net_encrypt ::
  "bool \<Rightarrow> bytes \<Rightarrow> net_buf_simple \<Rightarrow> u32 \<Rightarrow> bool \<Rightarrow> (errno option \<times> net_buf_simple) option" where
  "bt_mesh_net_encrypt cfg_proxy key buf iv_index proxy =
     (let pdu = nb_from 0 buf;
          mic_len = NET_MIC_LEN pdu;
          nonce = net_nonce cfg_proxy proxy pdu iv_index
      in if nb_len buf < 7 then None
         else
           (let (err, m) = bt_ccm_encrypt key nonce (nb_from 7 buf) (nb_len buf - 7) [] 0 (nb_from 7 buf) mic_len;
                buf = nb_set_from 7 m buf
            in if err = None
               then do { (_, buf) \<leftarrow> net_buf_simple_add mic_len buf; Some (err, buf) }
               else Some (err, buf)))"

definition bt_mesh_net_decrypt ::
  "bool \<Rightarrow> bytes \<Rightarrow> net_buf_simple \<Rightarrow> u32 \<Rightarrow> bool \<Rightarrow> (errno option \<times> net_buf_simple) option" where
  "bt_mesh_net_decrypt cfg_proxy key buf iv_index proxy =
     (let pdu = nb_from 0 buf;
          mic_len = NET_MIC_LEN pdu;
          nonce = net_nonce cfg_proxy proxy pdu iv_index
      in if nb_len buf < 7 + mic_len then None
         else
           (let buf = buf\<lparr>nb_len := nb_len buf - mic_len\<rparr>;
                (err, m) = bt_ccm_decrypt key nonce (nb_from 7 buf) (nb_len buf - 7) [] 0 (nb_from 7 buf) mic_len
            in Some (err, nb_set_from 7 m buf)))"

section \<open>Application PDUs\<close>

record bt_mesh_app_crypto_ctx =
  ac_dev_key :: bool
  ac_aszmic :: u8
  ac_src :: u16
  ac_dst :: u16
  ac_seq_num :: u32
  ac_iv_index :: u32
  ac_ad :: "bytes option"

definition APP_MIC_LEN :: "u8 \<Rightarrow> nat" where
  "APP_MIC_LEN aszmic = (if aszmic \<noteq> 0 then 8 else 4)"

definition create_app_nonce :: "bt_mesh_app_crypto_ctx \<Rightarrow> bytes" where
  "create_app_nonce ctx =
     [if ac_dev_key ctx then 0x02 else 0x01] @
     sys_put_be32 (ac_seq_num ctx OR push_bit 31 (ucast (ac_aszmic ctx))) @
     sys_put_be16 (ac_src ctx) @ sys_put_be16 (ac_dst ctx) @ sys_put_be32 (ac_iv_index ctx)"

definition app_ad :: "bt_mesh_app_crypto_ctx \<Rightarrow> bytes \<times> nat" where
  "app_ad ctx = (case ac_ad ctx of None \<Rightarrow> ([], 0) | Some ad \<Rightarrow> (ad, 16))"

definition bt_mesh_app_encrypt ::
  "bytes \<Rightarrow> bt_mesh_app_crypto_ctx \<Rightarrow> net_buf_simple \<Rightarrow> (errno option \<times> net_buf_simple) option" where
  "bt_mesh_app_encrypt key ctx buf =
     (let nonce = create_app_nonce ctx;
          (ad, ad_len) = app_ad ctx;
          (err, m) = bt_ccm_encrypt key nonce (nb_from 0 buf) (nb_len buf) ad ad_len (nb_from 0 buf)
                       (APP_MIC_LEN (ac_aszmic ctx));
          buf = nb_set_from 0 m buf
      in if err = None
         then do { (_, buf) \<leftarrow> net_buf_simple_add (APP_MIC_LEN (ac_aszmic ctx)) buf; Some (err, buf) }
         else Some (err, buf))"

definition bt_mesh_app_decrypt ::
  "bytes \<Rightarrow> bt_mesh_app_crypto_ctx \<Rightarrow> net_buf_simple \<Rightarrow> net_buf_simple \<Rightarrow>
   (errno option \<times> net_buf_simple) option" where
  "bt_mesh_app_decrypt key ctx buf out =
     (let nonce = create_app_nonce ctx;
          (ad, ad_len) = app_ad ctx;
          (err, m) = bt_ccm_decrypt key nonce (nb_from 0 buf) (nb_len buf) ad ad_len (nb_from 0 out)
                       (APP_MIC_LEN (ac_aszmic ctx));
          out = nb_set_from 0 m out
      in if err = None
         then do { (_, out) \<leftarrow> net_buf_simple_add (nb_len buf) out; Some (err, out) }
         else Some (err, out))"

section \<open>Frame check sequence\<close>

definition crc_table :: bytes where
  "crc_table =
  [0x00, 0x91, 0xe3, 0x72, 0x07, 0x96, 0xe4, 0x75, 0x0e, 0x9f, 0xed, 0x7c, 0x09, 0x98, 0xea, 0x7b,
   0x1c, 0x8d, 0xff, 0x6e, 0x1b, 0x8a, 0xf8, 0x69, 0x12, 0x83, 0xf1, 0x60, 0x15, 0x84, 0xf6, 0x67,
   0x38, 0xa9, 0xdb, 0x4a, 0x3f, 0xae, 0xdc, 0x4d, 0x36, 0xa7, 0xd5, 0x44, 0x31, 0xa0, 0xd2, 0x43,
   0x24, 0xb5, 0xc7, 0x56, 0x23, 0xb2, 0xc0, 0x51, 0x2a, 0xbb, 0xc9, 0x58, 0x2d, 0xbc, 0xce, 0x5f,
   0x70, 0xe1, 0x93, 0x02, 0x77, 0xe6, 0x94, 0x05, 0x7e, 0xef, 0x9d, 0x0c, 0x79, 0xe8, 0x9a, 0x0b,
   0x6c, 0xfd, 0x8f, 0x1e, 0x6b, 0xfa, 0x88, 0x19, 0x62, 0xf3, 0x81, 0x10, 0x65, 0xf4, 0x86, 0x17,
   0x48, 0xd9, 0xab, 0x3a, 0x4f, 0xde, 0xac, 0x3d, 0x46, 0xd7, 0xa5, 0x34, 0x41, 0xd0, 0xa2, 0x33,
   0x54, 0xc5, 0xb7, 0x26, 0x53, 0xc2, 0xb0, 0x21, 0x5a, 0xcb, 0xb9, 0x28, 0x5d, 0xcc, 0xbe, 0x2f,
   0xe0, 0x71, 0x03, 0x92, 0xe7, 0x76, 0x04, 0x95, 0xee, 0x7f, 0x0d, 0x9c, 0xe9, 0x78, 0x0a, 0x9b,
   0xfc, 0x6d, 0x1f, 0x8e, 0xfb, 0x6a, 0x18, 0x89, 0xf2, 0x63, 0x11, 0x80, 0xf5, 0x64, 0x16, 0x87,
   0xd8, 0x49, 0x3b, 0xaa, 0xdf, 0x4e, 0x3c, 0xad, 0xd6, 0x47, 0x35, 0xa4, 0xd1, 0x40, 0x32, 0xa3,
   0xc4, 0x55, 0x27, 0xb6, 0xc3, 0x52, 0x20, 0xb1, 0xca, 0x5b, 0x29, 0xb8, 0xcd, 0x5c, 0x2e, 0xbf,
   0x90, 0x01, 0x73, 0xe2, 0x97, 0x06, 0x74, 0xe5, 0x9e, 0x0f, 0x7d, 0xec, 0x99, 0x08, 0x7a, 0xeb,
   0x8c, 0x1d, 0x6f, 0xfe, 0x8b, 0x1a, 0x68, 0xf9, 0x82, 0x13, 0x61, 0xf0, 0x85, 0x14, 0x66, 0xf7,
   0xa8, 0x39, 0x4b, 0xda, 0xaf, 0x3e, 0x4c, 0xdd, 0xa6, 0x37, 0x45, 0xd4, 0xa1, 0x30, 0x42, 0xd3,
   0xb4, 0x25, 0x57, 0xc6, 0xb3, 0x22, 0x50, 0xc1, 0xba, 0x2b, 0x59, 0xc8, 0xbd, 0x2c, 0x5e, 0xcf]"

primrec fcs_loop :: "u8 \<Rightarrow> bytes \<Rightarrow> u8" where
  "fcs_loop fcs [] = fcs"
| "fcs_loop fcs (d # ds) = fcs_loop (crc_table ! unat (fcs XOR d)) ds"

definition bt_mesh_fcs_calc :: "bytes \<Rightarrow> u8 \<Rightarrow> u8" where
  "bt_mesh_fcs_calc dat data_len = 0xff - fcs_loop 0xff (take (unat data_len) dat)"

definition bt_mesh_fcs_check :: "net_buf_simple \<Rightarrow> u8 \<Rightarrow> bool" where
  "bt_mesh_fcs_check buf received_fcs =
     (let fcs = fcs_loop 0xff (nb_read (nb_data buf) (nb_len buf) buf)
      in crc_table ! unat (fcs XOR received_fcs) = 0xcf)"

section \<open>Addresses, provisioning and beacons\<close>

definition bt_mesh_virtual_addr :: "bytes \<Rightarrow> errno + u16" where
  "bt_mesh_virtual_addr virtual_label =
     err_bind (bt_mesh_s1 ''vtad'') (\<lambda>salt.
     err_bind (bt_mesh_aes_cmac_one salt (take 16 virtual_label)) (\<lambda>tmp.
     Inr ((sys_get_be16 (drop 14 tmp) AND 0x3fff) OR 0x8000)))"

definition bt_mesh_prov_conf_salt :: "bytes \<Rightarrow> errno + bytes" where
  "bt_mesh_prov_conf_salt conf_inputs = bt_mesh_aes_cmac_one (replicate 16 0) (take 145 conf_inputs)"

definition bt_mesh_prov_conf_key :: "bytes \<Rightarrow> bytes \<Rightarrow> errno + bytes" where
  "bt_mesh_prov_conf_key dhkey conf_salt = bt_mesh_k1 (take 32 dhkey) conf_salt (str_bytes ''prck'')"

definition bt_mesh_prov_conf :: "bytes \<Rightarrow> bytes \<Rightarrow> bytes \<Rightarrow> errno + bytes" where
  "bt_mesh_prov_conf conf_key rand auth =
     bt_mesh_aes_cmac conf_key [\<lparr>sg_data = Some rand, sg_len = 16\<rparr>, \<lparr>sg_data = Some auth, sg_len = 16\<rparr>]"

definition bt_mesh_prov_decrypt :: "bytes \<Rightarrow> bytes \<Rightarrow> bytes \<Rightarrow> bytes \<Rightarrow> errno option \<times> bytes" where
  "bt_mesh_prov_decrypt key nonce dat out = bt_ccm_decrypt key nonce dat 25 [] 0 out 8"

definition bt_mesh_prov_encrypt :: "bytes \<Rightarrow> bytes \<Rightarrow> bytes \<Rightarrow> bytes \<Rightarrow> errno option \<times> bytes" where
  "bt_mesh_prov_encrypt key nonce dat out = bt_ccm_encrypt key nonce dat 25 [] 0 out 8"

definition bt_mesh_beacon_auth :: "bytes \<Rightarrow> u8 \<Rightarrow> bytes \<Rightarrow> u32 \<Rightarrow> errno + bytes" where
  "bt_mesh_beacon_auth beacon_key flags net_id iv_index =
     (let msg = [flags] @ take 8 net_id @ sys_put_be32 iv_index
      in err_bind (bt_mesh_aes_cmac_one beacon_key msg) (\<lambda>tmp. Inr (take 8 tmp)))"

section \<open>What the CMAC functions compute\<close>

abbreviation cmac_sg_of :: "bytes \<Rightarrow> bt_mesh_sg" where
  "cmac_sg_of d \<equiv> \<lparr>sg_data = Some d, sg_len = length d\<rparr>"

lemma cmac_sg_run: "cmac_sg s (map cmac_sg_of ds) = cmac_run s ds"
  by (induction ds arbitrary: s) auto

lemma bt_mesh_aes_cmac_spec:
  assumes "length ds \<le> MAX_CALLS" "\<not> exact_fill (concat ds) (last_update 0 ds)"
  shows "bt_mesh_aes_cmac key (map cmac_sg_of ds) = Inr (aes_cmac_spec key (concat ds))"
proof -
  from cmac_run_correct [OF assms, of key] obtain s0 s where
    "tc_cmac_setup (Some key) = Some s0" "cmac_run s0 ds = Some s" "fst (tc_cmac_final s) = aes_cmac_spec key (concat ds)"
    by blast
  then show ?thesis by (simp add: bt_mesh_aes_cmac_def cmac_sg_run)
qed

lemma bt_mesh_aes_cmac_null:
  "bt_mesh_aes_cmac key (\<lparr>sg_data = None, sg_len = 0\<rparr> # sgs) = bt_mesh_aes_cmac key sgs"
  by (simp add: bt_mesh_aes_cmac_def tc_cmac_update_def split: option.split)

lemma exact_fill_one: "\<not> exact_fill m (length m)"
  by (auto simp: exact_fill_def dest: dvd_imp_le)

lemma bt_mesh_aes_cmac_one_spec [simp]: "bt_mesh_aes_cmac_one key m = Inr (aes_cmac_spec key m)"
proof -
  have "\<not> exact_fill (concat [m]) (last_update 0 [m])"
    using exact_fill_one [of m] by (auto simp: exact_fill_def)
  from bt_mesh_aes_cmac_spec [OF _ this, of key] show ?thesis by (simp add: bt_mesh_aes_cmac_one_def)
qed

definition s1_spec :: "string \<Rightarrow> bytes" where
  "s1_spec m = aes_cmac_spec (replicate 16 0) (str_bytes m)"

lemma bt_mesh_s1_spec [simp]: "bt_mesh_s1 m = Inr (s1_spec m)"
  by (simp add: bt_mesh_s1_def s1_spec_def)

lemma k1_spec [simp]: "bt_mesh_k1 ikm salt info = Inr (aes_cmac_spec (aes_cmac_spec salt ikm) info)"
  by (simp add: bt_mesh_k1_def)

lemma cmac_last_byte:
  assumes "\<not> 16 dvd length m + 1" "16 dvd length (concat pre)" "length pre \<le> 1"
  shows "bt_mesh_aes_cmac key (map cmac_sg_of pre @ [cmac_sg_of m, cmac_sg_of [b]]) =
    Inr (aes_cmac_spec key (concat pre @ m @ [b]))"
proof -
  have "length (concat (pre @ [m, [b]])) = length (concat pre) + (length m + 1)" by simp
  then have "\<not> exact_fill (concat (pre @ [m, [b]])) (last_update 0 (pre @ [m, [b]]))"
    using assms by (metis exact_fill_def dvd_add_right_iff)
  from bt_mesh_aes_cmac_spec [OF _ this, of key] assms(3) show ?thesis by simp
qed

lemma k2_spec:
  assumes "\<not> 16 dvd length p + 1"
  shows "bt_mesh_k2 n p =
    (let t = aes_cmac_spec (s1_spec ''smk2'') n;
         t1 = aes_cmac_spec t (p @ [0x01]);
         t2 = aes_cmac_spec t (t1 @ p @ [0x02]);
         t3 = aes_cmac_spec t (t2 @ p @ [0x03])
     in Inr (t1 ! 15 AND 0x7f, t2, t3))"
proof -
  have "bt_mesh_aes_cmac t [\<lparr>sg_data = Some p, sg_len = length p\<rparr>, \<lparr>sg_data = Some [b], sg_len = 1\<rparr>] =
      Inr (aes_cmac_spec t (p @ [b]))" for t b
    using cmac_last_byte [OF assms, of "[]" t b] by simp
  moreover have "bt_mesh_aes_cmac t [\<lparr>sg_data = Some d, sg_len = 16\<rparr>, \<lparr>sg_data = Some p, sg_len = length p\<rparr>, \<lparr>sg_data = Some [b], sg_len = 1\<rparr>] =
      Inr (aes_cmac_spec t (d @ p @ [b]))" if "length d = 16" for t b d
    using cmac_last_byte [OF assms, of "[d]" t b] that by auto
  ultimately show ?thesis
    by (simp add: bt_mesh_k2_def bt_mesh_aes_cmac_null Let_def)
qed

section \<open>Obfuscation\<close>

lemma obfuscate_alt:
  "bt_mesh_net_obfuscate pdu iv key =
    (None, mem_write 1 (xor_bytes (take 6 (drop 1 pdu))
       (take 6 (aes128 key (replicate 5 0 @ sys_put_be32 iv @ take 7 (drop 7 pdu))))) pdu)"
  by (simp add: bt_mesh_net_obfuscate_def Let_def)

lemma obfuscate_twice:
  assumes "7 \<le> length pdu" "bt_mesh_net_obfuscate pdu iv key = (r, pdu')"
  shows "bt_mesh_net_obfuscate pdu' iv key = (None, pdu) \<and> length pdu' = length pdu \<and>
    drop 7 pdu' = drop 7 pdu \<and> take 1 pdu' = take 1 pdu"
proof -
  let ?k = "take 6 (aes128 key (replicate 5 0 @ sys_put_be32 iv @ take 7 (drop 7 pdu)))"
  let ?x = "xor_bytes (take 6 (drop 1 pdu)) ?k"
  have pdu': "pdu' = mem_write 1 ?x pdu" using assms(2) by (simp add: obfuscate_alt)
  have len: "length ?x = 6" using assms(1) by simp
  have d: "drop 7 pdu' = drop 7 pdu" unfolding pdu' by (rule drop_mem_write) (use assms len in auto)
  have t: "take 1 pdu' = take 1 pdu" "length pdu' = length pdu"
    unfolding pdu' using assms(1) len by (simp_all add: mem_write_before)
  have "take 6 (drop 1 pdu') = ?x"
    using mem_write_read [of 1 ?x pdu] assms(1) len unfolding pdu' by simp
  then have "bt_mesh_net_obfuscate pdu' iv key = (None, mem_write 1 (xor_bytes ?x ?k) pdu')"
    by (simp add: obfuscate_alt d)
  also have "xor_bytes ?x ?k = take 6 (drop 1 pdu)"
    by (rule xor_bytes_cancel) simp
  also have "mem_write 1 (take 6 (drop 1 pdu)) pdu' = take 1 pdu @ take 6 (drop 1 pdu) @ drop 7 pdu"
    using assms(1) t(1) d by (simp add: mem_write_def)
  also have "\<dots> = pdu" using append_take_drop_id [of 6 "drop 1 pdu"] by simp
  finally show ?thesis using d t by simp
qed


section \<open>Encryption in a packet buffer\<close>

lemma header_bytes:
  assumes "take 7 p = take 7 q"
  shows "NET_MIC_LEN p = NET_MIC_LEN q" "net_nonce c x p iv = net_nonce c x q iv"
proof -
  have "p ! i = q ! i" if "i < 7" for i using assms that by (metis nth_take)
  then show "NET_MIC_LEN p = NET_MIC_LEN q" "net_nonce c x p iv = net_nonce c x q iv"
    by (simp_all add: NET_MIC_LEN_def net_nonce_def create_proxy_nonce_def create_net_nonce_def)
qed

lemma length_nonces [simp]:
  "length (net_nonce c x pdu iv) = 13" "length (create_app_nonce ctx) = 13"
  by (simp_all add: net_nonce_def create_proxy_nonce_def create_net_nonce_def create_app_nonce_def)

lemma mic_lengths [simp]: "NET_MIC_LEN pdu \<le> 16" "APP_MIC_LEN a \<le> 16"
  by (simp_all add: NET_MIC_LEN_def APP_MIC_LEN_def)

lemma nb_from_set:
  assumes "nb_data buf + off \<le> length (nb_buf buf)"
  shows "nb_from off (nb_set_from off m buf) = m"
    and "take off (nb_from 0 (nb_set_from off m buf)) = take off (nb_from 0 buf)"
  using assms by (simp_all add: nb_from_def nb_set_from_def drop_take)

lemma nb_set_from_fields [simp]:
  "nb_data (nb_set_from off m buf) = nb_data buf" "nb_len (nb_set_from off m buf) = nb_len buf"
  "nb_size (nb_set_from off m buf) = nb_size buf"
  by (simp_all add: nb_set_from_def)

lemma nb_from_len [simp]: "nb_from off (buf\<lparr>nb_len := l\<rparr>) = nb_from off buf"
  by (simp add: nb_from_def)

lemma nb_bytes_from: "nb_bytes buf = take (nb_len buf) (nb_from 0 buf)"
  by (simp add: nb_bytes_def nb_read_def nb_from_def)

text \<open>Everything from an offset on replaced by bytes that begin with the old ones.\<close>

lemma nb_bytes_set:
  assumes "wf_buf buf" "off \<le> nb_len buf" "take (nb_len buf - off) m = take (nb_len buf - off) (nb_from off buf)"
  shows "nb_bytes (nb_set_from off m buf) = nb_bytes buf"
proof -
  have l: "nb_data buf + nb_len buf \<le> length (nb_buf buf)" using assms(1) by (simp add: wf_buf_def)
  have "nb_from 0 (nb_set_from off m buf) = take off (nb_from 0 buf) @ m"
    using l assms(2) by (simp add: nb_from_def nb_set_from_def drop_take)
  then have "nb_bytes (nb_set_from off m buf) = take off (nb_from 0 buf) @ take (nb_len buf - off) (nb_from off buf)"
    using l assms(2,3) by (simp add: nb_bytes_from nb_from_def)
  also have "\<dots> = nb_bytes buf"
    using assms(2) take_add [of off "nb_len buf - off" "nb_from 0 buf"] by (simp add: nb_bytes_from nb_from_def add.commute)
  finally show ?thesis .
qed

lemma net_encrypt_alt:
  fixes cfg proxy :: bool and iv :: u32 and key :: bytes
  assumes wf: "wf_buf buf" and len: "7 \<le> nb_len buf" "NET_MIC_LEN (nb_from 0 buf) \<le> net_buf_simple_tailroom buf"
  defines "msg \<equiv> take (nb_len buf - 7) (nb_from 7 buf)" and "M \<equiv> NET_MIC_LEN (nb_from 0 buf)"
    and "nonce \<equiv> net_nonce cfg proxy (nb_from 0 buf) iv"
  shows "bt_mesh_net_encrypt cfg key buf iv proxy =
    Some (None, (nb_set_from 7 (ccm_seal key nonce [] M msg @ drop (nb_len buf - 7 + M) (nb_from 7 buf)) buf)
      \<lparr>nb_len := nb_len buf + M\<rparr>)"
proof -
  have l: "nb_data buf + nb_len buf + M \<le> length (nb_buf buf)" "nb_len buf < 2 ^ 16"
    using wf len by (auto simp: wf_buf_def nb_defs M_def)
  have lmsg: "length msg = nb_len buf - 7" using l len by (simp add: msg_def nb_from_def)
  have "ccm_args nonce [] M msg" using lmsg l by (simp add: ccm_args_def nonce_def M_def)
  moreover have "take (length msg) (nb_from 7 buf) = msg" using lmsg by (simp add: msg_def)
  moreover have "length msg + M \<le> length (nb_from 7 buf)" using l len lmsg by (simp add: nb_from_def)
  ultimately have "bt_ccm_encrypt key nonce (nb_from 7 buf) (nb_len buf - 7) [] 0 (nb_from 7 buf) M =
      (None, ccm_seal key nonce [] M msg @ drop (nb_len buf - 7 + M) (nb_from 7 buf))"
    using ccm.enc_seal [of nonce "[]" M msg "nb_from 7 buf" "nb_from 7 buf" key] lmsg by simp
  then show ?thesis
    using len wf unfolding bt_mesh_net_encrypt_def Let_def M_def [symmetric] nonce_def [symmetric]
    by (simp add: net_buf_simple_add_def net_buf_simple_tailroom_def net_buf_simple_headroom_def Let_def)
qed

lemma net_roundtrip:
  assumes wf: "wf_buf buf" and len: "7 \<le> nb_len buf" "NET_MIC_LEN (nb_from 0 buf) \<le> net_buf_simple_tailroom buf"
  shows "\<exists>buf1 buf2. bt_mesh_net_encrypt cfg key buf iv proxy = Some (None, buf1) \<and>
    nb_len buf1 = nb_len buf + NET_MIC_LEN (nb_from 0 buf) \<and> nb_data buf1 = nb_data buf \<and> wf_buf buf1 \<and>
    take 7 (nb_bytes buf1) = take 7 (nb_bytes buf) \<and>
    bt_mesh_net_decrypt cfg key buf1 iv proxy = Some (None, buf2) \<and> nb_bytes buf2 = nb_bytes buf \<and>
    nb_data buf2 = nb_data buf \<and> wf_buf buf2"
proof -
  define M where "M = NET_MIC_LEN (nb_from 0 buf)"
  define nonce where "nonce = net_nonce cfg proxy (nb_from 0 buf) iv"
  define msg where "msg = take (nb_len buf - 7) (nb_from 7 buf)"
  define m where "m = ccm_seal key nonce [] M msg @ drop (nb_len buf - 7 + M) (nb_from 7 buf)"
  define buf1 where "buf1 = (nb_set_from 7 m buf)\<lparr>nb_len := nb_len buf + M\<rparr>"
  have l: "nb_data buf + nb_len buf + M \<le> length (nb_buf buf)" "nb_len buf < 2 ^ 16" "M \<le> 16"
    using wf len by (auto simp: wf_buf_def nb_defs M_def)
  have lmsg: "length msg = nb_len buf - 7" using l len by (simp add: msg_def nb_from_def)
  have lm: "length m = length (nb_from 7 buf)"
    using l len lmsg by (simp add: m_def nb_from_def)
  have enc: "bt_mesh_net_encrypt cfg key buf iv proxy = Some (None, buf1)"
    using net_encrypt_alt [OF assms, of cfg key iv proxy]
    unfolding M_def [symmetric] nonce_def [symmetric] msg_def [symmetric] m_def [symmetric] buf1_def [symmetric] .
  have from7: "nb_from 7 buf1 = m" "take 7 (nb_from 0 buf1) = take 7 (nb_from 0 buf)"
    using nb_from_set [of buf 7 m] l len by (simp_all add: buf1_def)
  have hdr: "NET_MIC_LEN (nb_from 0 buf1) = M" "net_nonce cfg proxy (nb_from 0 buf1) iv = nonce"
    using header_bytes [OF from7(2)] by (simp_all add: M_def nonce_def)
  have args: "ccm_args nonce [] M msg" using lmsg l by (simp add: ccm_args_def nonce_def)
  have "bt_ccm_decrypt key nonce m (nb_len buf - 7) [] 0 m M = (None, msg @ drop (nb_len buf - 7) m)"
    using ccm.dec_seal [OF args, of m key m] lmsg l len lm by (simp add: m_def nb_from_def)
  then have dec: "bt_mesh_net_decrypt cfg key buf1 iv proxy =
      Some (None, nb_set_from 7 (msg @ drop (nb_len buf - 7) m) (buf1\<lparr>nb_len := nb_len buf\<rparr>))"
    using len from7 by (simp add: bt_mesh_net_decrypt_def hdr Let_def, simp add: buf1_def)
  have wf1: "wf_buf buf1" "wf_buf (nb_set_from 7 (msg @ drop (nb_len buf - 7) m) (buf1\<lparr>nb_len := nb_len buf\<rparr>))"
    using wf len l lm lmsg by (auto simp: wf_buf_def buf1_def nb_set_from_def nb_from_def nb_defs M_def)
  have "nb_bytes (nb_set_from 7 (msg @ drop (nb_len buf - 7) m) (buf1\<lparr>nb_len := nb_len buf\<rparr>)) =
      nb_bytes (nb_set_from 7 (msg @ drop (nb_len buf - 7) m) buf)"
    using l len by (simp add: nb_bytes_def nb_read_def nb_set_from_def buf1_def)
  also have "\<dots> = nb_bytes buf"
    by (rule nb_bytes_set [OF wf len(1)]) (simp add: lmsg, simp add: msg_def)
  finally show ?thesis
    using enc dec wf1 from7(2) len by (simp add: buf1_def M_def nb_bytes_from min_def)
qed


definition ctx_ok :: "bt_mesh_app_crypto_ctx \<Rightarrow> bool" where
  "ctx_ok ctx \<longleftrightarrow> (case ac_ad ctx of None \<Rightarrow> True | Some ad \<Rightarrow> length ad = 16)"

lemma app_ad_ok: "ctx_ok ctx \<Longrightarrow> \<exists>ad. app_ad ctx = (ad, length ad) \<and> length ad \<le> 16"
  by (auto simp: ctx_ok_def app_ad_def split: option.splits)

lemma app_roundtrip:
  assumes wf: "wf_buf buf" "wf_buf out" and ctx: "ctx_ok ctx"
    and room: "APP_MIC_LEN (ac_aszmic ctx) \<le> net_buf_simple_tailroom buf" "nb_len out = 0"
      "nb_len buf \<le> net_buf_simple_tailroom out"
  shows "\<exists>buf1 out1. bt_mesh_app_encrypt key ctx buf = Some (None, buf1) \<and>
    nb_len buf1 = nb_len buf + APP_MIC_LEN (ac_aszmic ctx) \<and>
    bt_mesh_app_decrypt key ctx (buf1\<lparr>nb_len := nb_len buf\<rparr>) out = Some (None, out1) \<and>
    nb_bytes out1 = nb_bytes buf"
proof -
  define M where "M = APP_MIC_LEN (ac_aszmic ctx)"
  define nonce where "nonce = create_app_nonce ctx"
  define msg where "msg = nb_bytes buf"
  obtain ad where ad: "app_ad ctx = (ad, length ad)" "length ad \<le> 16" using app_ad_ok [OF ctx] by blast
  define m where "m = ccm_seal key nonce ad M msg @ drop (nb_len buf + M) (nb_from 0 buf)"
  define buf1 where "buf1 = (nb_set_from 0 m buf)\<lparr>nb_len := nb_len buf + M\<rparr>"
  have l: "nb_data buf + nb_len buf + M \<le> length (nb_buf buf)" "nb_len buf < 2 ^ 16" "M \<le> 16"
      "nb_data out + nb_len buf \<le> length (nb_buf out)"
    using wf room by (auto simp: wf_buf_def nb_defs M_def)
  have lmsg: "length msg = nb_len buf" using wf by (simp add: msg_def)
  have args: "ccm_args nonce ad M msg" using lmsg l ad by (simp add: ccm_args_def nonce_def)
  have lm: "length m = length (nb_from 0 buf)" using l lmsg by (simp add: m_def nb_from_def)
  have "bt_ccm_encrypt key nonce (nb_from 0 buf) (nb_len buf) ad (length ad) (nb_from 0 buf) M = (None, m)"
    using ccm.enc_seal [OF args, of "nb_from 0 buf" "nb_from 0 buf" key] lmsg l
    by (simp add: m_def msg_def nb_bytes_from) (simp add: nb_from_def)
  then have enc: "bt_mesh_app_encrypt key ctx buf = Some (None, buf1)"
    using room(1) by (simp add: bt_mesh_app_encrypt_def ad nonce_def [symmetric] M_def [symmetric] buf1_def
        net_buf_simple_add_def net_buf_simple_tailroom_def net_buf_simple_headroom_def)
  have from0: "nb_from 0 buf1 = m" using nb_from_set(1) [of buf 0 m] l by (simp add: buf1_def)
  have "bt_ccm_decrypt key nonce m (nb_len buf) ad (length ad) (nb_from 0 out) M =
      (None, msg @ drop (nb_len buf) (nb_from 0 out))"
    using ccm.dec_seal [OF args, of m key "nb_from 0 out"] lmsg l lm by (simp add: m_def nb_from_def)
  then have dec: "bt_mesh_app_decrypt key ctx (buf1\<lparr>nb_len := nb_len buf\<rparr>) out =
      Some (None, (nb_set_from 0 (msg @ drop (nb_len buf) (nb_from 0 out)) out)\<lparr>nb_len := nb_len buf\<rparr>)"
    using room(2,3) by (simp add: bt_mesh_app_decrypt_def ad nonce_def [symmetric] M_def [symmetric] from0
        net_buf_simple_add_def net_buf_simple_tailroom_def net_buf_simple_headroom_def)
  have "nb_bytes ((nb_set_from 0 (msg @ drop (nb_len buf) (nb_from 0 out)) out)\<lparr>nb_len := nb_len buf\<rparr>) = msg"
    using lmsg nb_from_set(1) [of out 0] l by (simp add: nb_bytes_from)
  with enc dec show ?thesis by (simp add: msg_def M_def buf1_def)
qed

section \<open>The frame check sequence\<close>

text \<open>The table is a permutation of the bytes, with this inverse.\<close>

definition crc_inverse :: bytes where
  "crc_inverse =
  [0x00, 0xc1, 0x43, 0x82, 0x86, 0x47, 0xc5, 0x04, 0xcd, 0x0c, 0x8e, 0x4f, 0x4b, 0x8a, 0x08, 0xc9,
   0x5b, 0x9a, 0x18, 0xd9, 0xdd, 0x1c, 0x9e, 0x5f, 0x96, 0x57, 0xd5, 0x14, 0x10, 0xd1, 0x53, 0x92,
   0xb6, 0x77, 0xf5, 0x34, 0x30, 0xf1, 0x73, 0xb2, 0x7b, 0xba, 0x38, 0xf9, 0xfd, 0x3c, 0xbe, 0x7f,
   0xed, 0x2c, 0xae, 0x6f, 0x6b, 0xaa, 0x28, 0xe9, 0x20, 0xe1, 0x63, 0xa2, 0xa6, 0x67, 0xe5, 0x24,
   0xad, 0x6c, 0xee, 0x2f, 0x2b, 0xea, 0x68, 0xa9, 0x60, 0xa1, 0x23, 0xe2, 0xe6, 0x27, 0xa5, 0x64,
   0xf6, 0x37, 0xb5, 0x74, 0x70, 0xb1, 0x33, 0xf2, 0x3b, 0xfa, 0x78, 0xb9, 0xbd, 0x7c, 0xfe, 0x3f,
   0x1b, 0xda, 0x58, 0x99, 0x9d, 0x5c, 0xde, 0x1f, 0xd6, 0x17, 0x95, 0x54, 0x50, 0x91, 0x13, 0xd2,
   0x40, 0x81, 0x03, 0xc2, 0xc6, 0x07, 0x85, 0x44, 0x8d, 0x4c, 0xce, 0x0f, 0x0b, 0xca, 0x48, 0x89,
   0x9b, 0x5a, 0xd8, 0x19, 0x1d, 0xdc, 0x5e, 0x9f, 0x56, 0x97, 0x15, 0xd4, 0xd0, 0x11, 0x93, 0x52,
   0xc0, 0x01, 0x83, 0x42, 0x46, 0x87, 0x05, 0xc4, 0x0d, 0xcc, 0x4e, 0x8f, 0x8b, 0x4a, 0xc8, 0x09,
   0x2d, 0xec, 0x6e, 0xaf, 0xab, 0x6a, 0xe8, 0x29, 0xe0, 0x21, 0xa3, 0x62, 0x66, 0xa7, 0x25, 0xe4,
   0x76, 0xb7, 0x35, 0xf4, 0xf0, 0x31, 0xb3, 0x72, 0xbb, 0x7a, 0xf8, 0x39, 0x3d, 0xfc, 0x7e, 0xbf,
   0x36, 0xf7, 0x75, 0xb4, 0xb0, 0x71, 0xf3, 0x32, 0xfb, 0x3a, 0xb8, 0x79, 0x7d, 0xbc, 0x3e, 0xff,
   0x6d, 0xac, 0x2e, 0xef, 0xeb, 0x2a, 0xa8, 0x69, 0xa0, 0x61, 0xe3, 0x22, 0x26, 0xe7, 0x65, 0xa4,
   0x80, 0x41, 0xc3, 0x02, 0x06, 0xc7, 0x45, 0x84, 0x4d, 0x8c, 0x0e, 0xcf, 0xcb, 0x0a, 0x88, 0x49,
   0xdb, 0x1a, 0x98, 0x59, 0x5d, 0x9c, 0x1e, 0xdf, 0x16, 0xd7, 0x55, 0x94, 0x90, 0x51, 0xd3, 0x12]"

lemma crc_inverse_table: "map (\<lambda>b. crc_inverse ! unat b) crc_table = map word_of_nat [0..<256]"
  by code_simp

lemma length_crc_table: "length crc_table = 256"
  by (simp add: crc_table_def)

lemma crc_inverse_nth: "crc_inverse ! unat (crc_table ! unat (x :: u8)) = x"
proof -
  have "map (\<lambda>b. crc_inverse ! unat b) crc_table ! unat x = word_of_nat (unat x)"
    unfolding crc_inverse_table using unat_u8 [of x] by (simp del: upt_rec_numeral)
  then show ?thesis using unat_u8 [of x] by (simp add: length_crc_table)
qed

lemma crc_table_inj: "crc_table ! unat (x :: u8) = crc_table ! unat y \<longleftrightarrow> x = y"
  by (metis crc_inverse_nth)

lemma crc_table_last: "crc_table ! unat (0xff :: u8) = 0xcf"
  by code_simp

lemma xor_left_eq: "(x :: u8) XOR y = x XOR z \<longleftrightarrow> y = z"
  by (metis xor.assoc xor_self_eq xor.left_neutral)

lemma xor_right_eq: "(y :: u8) XOR x = z XOR x \<longleftrightarrow> y = z"
  using xor_left_eq by (simp add: xor.commute)

lemma fcs_loop_inj: "fcs_loop f ds = fcs_loop g ds \<longleftrightarrow> f = g"
  by (induction ds arbitrary: f g) (simp_all add: crc_table_inj xor_right_eq)

lemma fcs_loop_append: "fcs_loop f (xs @ ys) = fcs_loop (fcs_loop f xs) ys"
  by (induction xs arbitrary: f) simp_all

lemma fcs_complement: "(f :: u8) XOR r = 0xff \<longleftrightarrow> r = 0xff - f"
proof -
  have m: "(0xff :: u8) = - 1" by simp
  have "0xff - f = NOT f" unfolding m by (simp add: not_eq_complement)
  moreover have "f XOR r = - 1 \<longleftrightarrow> r = NOT f"
  proof -
    have "f XOR NOT f = - 1" by (simp add: bit.xor_compl_right)
    then show ?thesis using xor_left_eq [of f r "NOT f"] by simp
  qed
  ultimately show ?thesis unfolding m by simp
qed


lemma and_3f_less: "(b :: u8) AND 0x3f < 64"
proof -
  have "b AND mask 6 < 2 ^ 6" by (rule and_mask_less_size) (simp add: word_size)
  moreover have "mask 6 = (0x3f :: u8)" by code_simp
  ultimately show ?thesis by simp
qed

lemma virtual_range:
  "0x8000 \<le> (w AND 0x3fff) OR (0x8000 :: u16)" "(w AND 0x3fff) OR (0x8000 :: u16) \<le> 0xbfff"
proof -
  show "0x8000 \<le> (w AND 0x3fff) OR (0x8000 :: u16)" by (rule le_word_or1)
  have "((w AND 0x3fff) OR 0x8000) OR 0x3fff = (0x8000 :: u16) OR ((w AND 0x3fff) OR 0x3fff)"
    by (simp only: ac_simps)
  also have "(w AND 0x3fff) OR 0x3fff = (0x3fff :: u16)" by (rule bit_word_eqI) (auto simp: bit_simps)
  finally have "((w AND 0x3fff) OR 0x8000) OR 0x3fff = (0xbfff :: u16)" by simp
  then show "(w AND 0x3fff) OR (0x8000 :: u16) \<le> 0xbfff" by (metis word_le_or)
qed

lemma fcs_check_iff:
  assumes "nb_len buf < 256" "wf_buf buf"
  shows "bt_mesh_fcs_check buf fcs \<longleftrightarrow> fcs = bt_mesh_fcs_calc (nb_bytes buf) (word_of_nat (nb_len buf))"
proof -
  let ?f = "fcs_loop 0xff (nb_bytes buf)"
  have "unat (word_of_nat (nb_len buf) :: u8) = nb_len buf" using assms(1) by (simp add: unat_of_nat)
  then have "bt_mesh_fcs_calc (nb_bytes buf) (word_of_nat (nb_len buf)) = 0xff - ?f"
    using assms(2) by (simp add: bt_mesh_fcs_calc_def)
  moreover have "bt_mesh_fcs_check buf fcs \<longleftrightarrow> ?f XOR fcs = 0xff"
    unfolding bt_mesh_fcs_check_def Let_def nb_bytes_def [symmetric] crc_table_last [symmetric] by (rule crc_table_inj)
  ultimately show ?thesis by (simp add: fcs_complement)
qed

section \<open>Properties\<close>

text \<open>
  On a well-formed buffer that holds at least the seven bytes of the network header and
  has room for the integrity check, encrypting a network PDU succeeds, keeps the header,
  and decrypting the result with the same key, IV index and mode restores the PDU.
\<close>

theorem bt_mesh_net_encrypt_decrypt:
  assumes "wf_buf buf" "7 \<le> nb_len buf" "NET_MIC_LEN (nb_from 0 buf) \<le> net_buf_simple_tailroom buf"
  shows "\<exists>buf1 buf2. bt_mesh_net_encrypt cfg key buf iv proxy = Some (None, buf1) \<and>
    nb_len buf1 = nb_len buf + NET_MIC_LEN (nb_from 0 buf) \<and> take 7 (nb_bytes buf1) = take 7 (nb_bytes buf) \<and>
    bt_mesh_net_decrypt cfg key buf1 iv proxy = Some (None, buf2) \<and> nb_bytes buf2 = nb_bytes buf"
  using net_roundtrip [OF assms, of cfg key iv proxy] by blast

definition net_example :: net_buf_simple where
  "net_example = \<lparr>nb_data = 1, nb_len = 10, nb_size = 20, nb_buf = map word_of_nat [0..<20]\<rparr>"

theorem bt_mesh_net_encrypt_decrypt_witness:
  "wf_buf net_example \<and> 7 \<le> nb_len net_example \<and>
   NET_MIC_LEN (nb_from 0 net_example) \<le> net_buf_simple_tailroom net_example \<and>
   (\<exists>buf1 buf2. bt_mesh_net_encrypt True (replicate 16 1) net_example 5 False = Some (None, buf1) \<and>
    nb_len buf1 = nb_len net_example + NET_MIC_LEN (nb_from 0 net_example) \<and>
    take 7 (nb_bytes buf1) = take 7 (nb_bytes net_example) \<and>
    bt_mesh_net_decrypt True (replicate 16 1) buf1 5 False = Some (None, buf2) \<and> nb_bytes buf2 = nb_bytes net_example)"
proof -
  have "wf_buf net_example" "7 \<le> nb_len net_example"
    "NET_MIC_LEN (nb_from 0 net_example) \<le> net_buf_simple_tailroom net_example"
    by (simp_all add: wf_buf_def net_example_def NET_MIC_LEN_def nb_from_def nb_defs)
  with bt_mesh_net_encrypt_decrypt [OF this] show ?thesis by blast
qed

text \<open>
  Obfuscating a network PDU twice with the same IV index and privacy key restores it,
  and obfuscation changes only the six bytes after the first.
\<close>

theorem bt_mesh_net_obfuscate_involution:
  assumes "7 \<le> length pdu"
  shows "\<exists>pdu'. bt_mesh_net_obfuscate pdu iv key = (None, pdu') \<and> bt_mesh_net_obfuscate pdu' iv key = (None, pdu) \<and>
    take 1 pdu' = take 1 pdu \<and> drop 7 pdu' = drop 7 pdu"
proof -
  obtain pdu' where p: "bt_mesh_net_obfuscate pdu iv key = (None, pdu')" by (simp add: obfuscate_alt)
  with obfuscate_twice [OF assms p] show ?thesis by blast
qed

theorem bt_mesh_net_obfuscate_involution_witness:
  "\<exists>pdu'. bt_mesh_net_obfuscate (replicate 14 9) 1 (replicate 16 2) = (None, pdu') \<and>
    bt_mesh_net_obfuscate pdu' 1 (replicate 16 2) = (None, replicate 14 9) \<and>
    take 1 pdu' = take 1 (replicate 14 9) \<and> drop 7 pdu' = drop 7 (replicate 14 9)"
  by (rule bt_mesh_net_obfuscate_involution) simp

text \<open>
  Encrypting an application PDU in a buffer with room for the integrity check succeeds,
  and decrypting it with the check cut off, under the same context (nonce fields and label),
  adds the clear text to the output buffer.
\<close>

theorem bt_mesh_app_encrypt_decrypt:
  assumes "wf_buf buf" "wf_buf out" "ctx_ok ctx"
    and "APP_MIC_LEN (ac_aszmic ctx) \<le> net_buf_simple_tailroom buf" "nb_len out = 0"
      "nb_len buf \<le> net_buf_simple_tailroom out"
  shows "\<exists>buf1 out1. bt_mesh_app_encrypt key ctx buf = Some (None, buf1) \<and>
    nb_len buf1 = nb_len buf + APP_MIC_LEN (ac_aszmic ctx) \<and>
    bt_mesh_app_decrypt key ctx (buf1\<lparr>nb_len := nb_len buf\<rparr>) out = Some (None, out1) \<and>
    nb_bytes out1 = nb_bytes buf"
  using assms by (rule app_roundtrip)

definition app_example :: bt_mesh_app_crypto_ctx where
  "app_example = \<lparr>ac_dev_key = False, ac_aszmic = 1, ac_src = 2, ac_dst = 3, ac_seq_num = 4, ac_iv_index = 5,
     ac_ad = Some (replicate 16 6)\<rparr>"

theorem bt_mesh_app_encrypt_decrypt_witness:
  "\<exists>buf1 out1. bt_mesh_app_encrypt (replicate 16 1) app_example net_example = Some (None, buf1) \<and>
    nb_len buf1 = nb_len net_example + APP_MIC_LEN (ac_aszmic app_example) \<and>
    bt_mesh_app_decrypt (replicate 16 1) app_example (buf1\<lparr>nb_len := nb_len net_example\<rparr>) (net_example\<lparr>nb_len := 0\<rparr>) =
      Some (None, out1) \<and> nb_bytes out1 = nb_bytes net_example"
  by (rule bt_mesh_app_encrypt_decrypt)
    (simp_all add: wf_buf_def net_example_def app_example_def ctx_ok_def APP_MIC_LEN_def nb_defs)

text \<open>
  The network key derivation returns the NID and the encryption and privacy keys of the
  mesh profile's k2 function, unless the last of its three chained inputs would complete a
  CMAC block by itself (an input \<open>p\<close> of 15 bytes modulo 16; the profile uses 1 and 9).
\<close>

theorem bt_mesh_k2_chain:
  assumes "\<not> 16 dvd length p + 1"
  shows "bt_mesh_k2 n p =
    (let t = aes_cmac_spec (s1_spec ''smk2'') n;
         t1 = aes_cmac_spec t (p @ [0x01]);
         t2 = aes_cmac_spec t (t1 @ p @ [0x02]);
         t3 = aes_cmac_spec t (t2 @ p @ [0x03])
     in Inr (t1 ! 15 AND 0x7f, t2, t3))"
  using assms by (rule k2_spec)

theorem bt_mesh_k2_chain_witness:
  "\<not> 16 dvd length [0 :: u8] + 1 \<and> bt_mesh_k2 (replicate 16 1) [0] =
    (let t = aes_cmac_spec (s1_spec ''smk2'') (replicate 16 1);
         t1 = aes_cmac_spec t ([0] @ [0x01]);
         t2 = aes_cmac_spec t (t1 @ [0] @ [0x02]);
         t3 = aes_cmac_spec t (t2 @ [0] @ [0x03])
     in Inr (t1 ! 15 AND 0x7f, t2, t3))"
proof -
  have "length [0 :: u8] + 1 = 2" by simp
  then have ndvd: "\<not> 16 dvd length [0 :: u8] + 1" by presburger
  show ?thesis by (rule conjI [OF ndvd bt_mesh_k2_chain [OF ndvd]])
qed

text \<open>
  The single-input key derivation functions never fail and are the profile's k1, k3, k4
  and id128 over CMAC; application key identifiers are below 64 and virtual addresses lie
  in their reserved range.
\<close>

theorem bt_mesh_key_functions:
  "bt_mesh_k1 ikm salt info = Inr (aes_cmac_spec (aes_cmac_spec salt ikm) info) \<and>
   bt_mesh_k3 n = Inr (drop 8 (aes_cmac_spec (aes_cmac_spec (s1_spec ''smk3'') n) (str_bytes ''id64'' @ [1]))) \<and>
   bt_mesh_id128 n str = Inr (aes_cmac_spec (aes_cmac_spec (s1_spec str) n) (str_bytes ''id128'' @ [1])) \<and>
   (\<exists>aid. bt_mesh_k4 n = Inr aid \<and> aid < 64 \<and>
     aid = aes_cmac_spec (aes_cmac_spec (s1_spec ''smk4'') n) (str_bytes ''id6'' @ [1]) ! 15 AND 0x3f) \<and>
   (\<exists>addr. bt_mesh_virtual_addr label = Inr addr \<and> 0x8000 \<le> addr \<and> addr \<le> 0xbfff)"
  using and_3f_less virtual_range
  by (simp add: bt_mesh_k3_def bt_mesh_k4_def bt_mesh_id128_def bt_mesh_virtual_addr_def)

text \<open>
  The receiver's frame check accepts a frame exactly when the received check byte is the
  one the sender computes over it.
\<close>

theorem bt_mesh_fcs_check_calc:
  assumes "nb_len buf < 256" "wf_buf buf"
  shows "bt_mesh_fcs_check buf fcs \<longleftrightarrow> fcs = bt_mesh_fcs_calc (nb_bytes buf) (word_of_nat (nb_len buf))"
  using assms by (rule fcs_check_iff)

theorem bt_mesh_fcs_check_calc_witness:
  "nb_len net_example < 256 \<and> wf_buf net_example \<and>
   (bt_mesh_fcs_check net_example 7 \<longleftrightarrow> 7 = bt_mesh_fcs_calc (nb_bytes net_example) (word_of_nat (nb_len net_example)))"
proof -
  have "nb_len net_example < 256" "wf_buf net_example" by (simp_all add: net_example_def wf_buf_def)
  with bt_mesh_fcs_check_calc [OF this] show ?thesis by blast
qed

text \<open>
  A frame with one byte changed never passes the frame check of the original frame.
\<close>

theorem bt_mesh_fcs_detects_byte:
  assumes "length (xs @ x # ys) < 256" "x \<noteq> y"
  shows "bt_mesh_fcs_calc (xs @ x # ys) (word_of_nat (length (xs @ x # ys))) \<noteq>
    bt_mesh_fcs_calc (xs @ y # ys) (word_of_nat (length (xs @ y # ys)))"
proof -
  have "unat (word_of_nat (length (xs @ z # ys)) :: u8) = length (xs @ z # ys)" for z
    by (rule unat_word_small) (use assms(1) in simp)
  then have "bt_mesh_fcs_calc (xs @ z # ys) (word_of_nat (length (xs @ z # ys))) = 0xff - fcs_loop 0xff (xs @ z # ys)" for z
    by (simp only: bt_mesh_fcs_calc_def take_all_iff order_refl) simp
  then show ?thesis
    using assms(2) by (simp only: fcs_loop_append) (simp add: fcs_loop_inj crc_table_inj xor_left_eq)
qed

theorem bt_mesh_fcs_detects_byte_witness:
  "bt_mesh_fcs_calc ([1] @ 2 # [3]) (word_of_nat (length ([1 :: u8] @ 2 # [3]))) \<noteq>
    bt_mesh_fcs_calc ([1] @ 5 # [3]) (word_of_nat (length ([1 :: u8] @ 5 # [3])))"
  by (rule bt_mesh_fcs_detects_byte) simp_all

end
