(* ===== verification/Mesh_App_Keys.thy ===== *)
theory Mesh_App_Keys
  imports Mesh_Key_Store Mesh_Crypto
begin

text \<open>
  The application keys of a node, \<open>core/src/mesh/app_keys.c\<close>, and the state they share with
  the network keys of \<open>core/src/mesh/subnet.c\<close>.

  \<open>keys_state\<close> holds the two key tables, the pending storage actions of both, and the calls
  made to other modules, newest last.  A pointer into a table is an index.  A table's length
  is its configured size.  The fields of \<open>struct bt_mesh_subnet\<close> that belong to the beacon
  module (\<open>beacon_sent\<close>, \<open>beacons_last\<close>, \<open>beacons_cur\<close>, \<open>beacon_cache\<close>, \<open>auth\<close>) are not part
  of it, nor is the start time of the node identity, which the proxy keeps.

  Key events reach the application keys through \<open>app_subnet_evt\<close>, the handler this module
  registers; the handlers of other modules do not touch the tables and are calls.
\<close>

section \<open>State\<close>

record bt_mesh_net_cred =
  cr_nid :: u8
  cr_enc :: bytes
  cr_privacy :: bytes

record bt_mesh_subnet_keys =
  sk_valid :: bool
  sk_net :: bytes
  sk_msg :: bt_mesh_net_cred
  sk_net_id :: bytes
  sk_identity :: bytes
  sk_beacon :: bytes

datatype bt_mesh_feat_state = BT_MESH_FEATURE_DISABLED | BT_MESH_FEATURE_ENABLED | BT_MESH_FEATURE_NOT_SUPPORTED

record bt_mesh_subnet =
  sn_beacon_sent :: u32
  sn_beacons_last :: u8
  sn_beacons_cur :: u8
  sn_beacon_cache :: bytes
  sn_net_idx :: u16
  sn_kr_phase :: u8
  sn_node_id :: bt_mesh_feat_state
  sn_node_id_start :: u32
  sn_auth :: bytes
  sn_keys :: "bt_mesh_subnet_keys list"

record bt_mesh_app_cred =
  ak_id :: u8
  ak_val :: bytes

record app_key =
  ap_net_idx :: u16
  ap_app_idx :: u16
  ap_updated :: bool
  ap_keys :: "bt_mesh_app_cred list"

record net_key_val =
  nk_kr_flag :: bool
  nk_kr_phase :: "7 word"
  nk_val :: "bytes list"

record app_key_val =
  av_net_idx :: u16
  av_updated :: bool
  av_val :: "bytes list"

datatype bt_mesh_key_evt =
    BT_MESH_KEY_ADDED | BT_MESH_KEY_DELETED | BT_MESH_KEY_UPDATED | BT_MESH_KEY_SWAPPED | BT_MESH_KEY_REVOKED

datatype keys_call =
    Keys_schedule bt_mesh_settings_flag
  | Keys_delete string
  | Save_net_key string net_key_val
  | Save_app_key string app_key_val
  | App_key_evt u16 u16 bt_mesh_key_evt
  | Subnet_evt nat bt_mesh_key_evt
  | Net_loopback_clear u16
  | Beacon_update nat
  | Proxy_identity_start nat
  | Proxy_identity_stop nat
  | Adv_update

record keys_state =
  ks_subnets :: "bt_mesh_subnet list"
  ks_net_key_updates :: "key_update list"
  ks_apps :: "app_key list"
  ks_app_key_updates :: "key_update list"
  ks_calls :: "keys_call list"

datatype mesh_status =
    STATUS_SUCCESS | STATUS_INVALID_ADDRESS | STATUS_INVALID_MODEL | STATUS_INVALID_APPKEY | STATUS_INVALID_NETKEY
  | STATUS_INSUFF_RESOURCES | STATUS_IDX_ALREADY_STORED | STATUS_NVAL_PUB_PARAM | STATUS_NOT_SUB_MOD | STATUS_STORAGE_FAIL
  | STATUS_FEAT_NOT_SUPP | STATUS_CANNOT_UPDATE | STATUS_CANNOT_REMOVE | STATUS_CANNOT_BIND | STATUS_TEMP_STATE_CHG_FAIL
  | STATUS_CANNOT_SET | STATUS_UNSPECIFIED | STATUS_INVALID_BINDING

definition BT_MESH_KEY_DEV_LOCAL :: u16 where "BT_MESH_KEY_DEV_LOCAL = 0xfffe"
definition BT_MESH_KEY_DEV_REMOTE :: u16 where "BT_MESH_KEY_DEV_REMOTE = 0xfffd"

definition BT_MESH_IS_DEV_KEY :: "u16 \<Rightarrow> bool" where
  "BT_MESH_IS_DEV_KEY key \<longleftrightarrow> key = BT_MESH_KEY_DEV_LOCAL \<or> key = BT_MESH_KEY_DEV_REMOTE"

definition BT_MESH_KR_NORMAL :: u8 where [simp]: "BT_MESH_KR_NORMAL = 0x00"
definition BT_MESH_KR_PHASE_1 :: u8 where [simp]: "BT_MESH_KR_PHASE_1 = 0x01"
definition BT_MESH_KR_PHASE_2 :: u8 where [simp]: "BT_MESH_KR_PHASE_2 = 0x02"
definition BT_MESH_KR_PHASE_3 :: u8 where [simp]: "BT_MESH_KR_PHASE_3 = 0x03"

definition keys_call :: "keys_call \<Rightarrow> keys_state \<Rightarrow> keys_state" where
  "keys_call c ks = ks\<lparr>ks_calls := ks_calls ks @ [c]\<rparr>"

definition bt_mesh_subnet_get :: "u16 \<Rightarrow> keys_state \<Rightarrow> nat option" where
  "bt_mesh_subnet_get net_idx ks = find_index (\<lambda>sub. sn_net_idx sub = net_idx) (ks_subnets ks)"

section \<open>Storage\<close>

definition app_get :: "u16 \<Rightarrow> keys_state \<Rightarrow> nat option" where
  "app_get app_idx ks = find_index (\<lambda>app. ap_app_idx app = app_idx) (ks_apps ks)"

definition app_key_path :: "u16 \<Rightarrow> string" where
  "app_key_path app_idx = ''bt/mesh/AppKey/'' @ hex_string (unat app_idx)"

definition clear_app_key :: "u16 \<Rightarrow> keys_state \<Rightarrow> keys_state" where
  "clear_app_key app_idx ks = keys_call (Keys_delete (app_key_path app_idx)) ks"

definition app_key_stored :: "app_key \<Rightarrow> app_key_val" where
  "app_key_stored app =
     \<lparr>av_net_idx = ap_net_idx app, av_updated = ap_updated app, av_val = [ak_val (ap_keys app ! 0), ak_val (ap_keys app ! 1)]\<rparr>"

definition store_app_key :: "u16 \<Rightarrow> keys_state \<Rightarrow> keys_state" where
  "store_app_key app_idx ks =
     (case app_get app_idx ks of None \<Rightarrow> ks
      | Some i \<Rightarrow> keys_call (Save_app_key (app_key_path app_idx) (app_key_stored (ks_apps ks ! i))) ks)"

definition update_app_key_settings :: "u16 \<Rightarrow> bool \<Rightarrow> keys_state \<Rightarrow> keys_state" where
  "update_app_key_settings app_idx store ks =
     (case track_update app_idx store (ks_app_key_updates ks) of
        Some us \<Rightarrow> keys_call (Keys_schedule BT_MESH_SETTINGS_APP_KEYS_PENDING) (ks\<lparr>ks_app_key_updates := us\<rparr>)
      | None \<Rightarrow> if store then store_app_key app_idx ks else clear_app_key app_idx ks)"

section \<open>Operations\<close>

definition app_key_evt :: "app_key \<Rightarrow> bt_mesh_key_evt \<Rightarrow> keys_state \<Rightarrow> keys_state" where
  "app_key_evt app evt ks = keys_call (App_key_evt (ap_app_idx app) (ap_net_idx app) evt) ks"

definition app_key_alloc :: "u16 \<Rightarrow> keys_state \<Rightarrow> nat option" where
  "app_key_alloc app_idx ks = alloc_loop ap_app_idx app_idx 0 None (ks_apps ks)"

definition zero_app_cred :: bt_mesh_app_cred where
  "zero_app_cred = \<lparr>ak_id = 0, ak_val = replicate 16 0\<rparr>"

definition app_set :: "nat \<Rightarrow> app_key \<Rightarrow> keys_state \<Rightarrow> keys_state" where
  "app_set i app ks = ks\<lparr>ks_apps := (ks_apps ks)[i := app]\<rparr>"

definition app_key_del :: "mesh_cfg \<Rightarrow> nat \<Rightarrow> keys_state \<Rightarrow> keys_state" where
  "app_key_del cfg i ks =
     (let app = ks_apps ks ! i;
          ks = (if cfg_settings cfg then update_app_key_settings (ap_app_idx app) False ks else ks);
          ks = app_key_evt app BT_MESH_KEY_DELETED ks
      in app_set i (app\<lparr>ap_net_idx := BT_MESH_KEY_UNUSED, ap_app_idx := BT_MESH_KEY_UNUSED,
           ap_keys := [zero_app_cred, zero_app_cred]\<rparr>) ks)"

definition app_key_revoke :: "mesh_cfg \<Rightarrow> nat \<Rightarrow> keys_state \<Rightarrow> keys_state" where
  "app_key_revoke cfg i ks =
     (let app = ks_apps ks ! i in
      if \<not> ap_updated app then ks
      else
        (let app = app\<lparr>ap_keys := [ap_keys app ! 1, zero_app_cred], ap_updated := False\<rparr>;
             ks = app_set i app ks;
             ks = (if cfg_settings cfg then update_app_key_settings (ap_app_idx app) True ks else ks)
         in app_key_evt app BT_MESH_KEY_REVOKED ks))"

definition bt_mesh_app_key_add ::
  "mesh_cfg \<Rightarrow> u16 \<Rightarrow> u16 \<Rightarrow> bytes \<Rightarrow> keys_state \<Rightarrow> mesh_status \<times> keys_state" where
  "bt_mesh_app_key_add cfg app_idx net_idx key ks =
     (if bt_mesh_subnet_get net_idx ks = None then (STATUS_INVALID_NETKEY, ks)
      else
        (case app_key_alloc app_idx ks of None \<Rightarrow> (STATUS_INSUFF_RESOURCES, ks)
         | Some i \<Rightarrow>
            (let app = ks_apps ks ! i in
             if ap_app_idx app = app_idx
             then
               (if ap_net_idx app \<noteq> net_idx then (STATUS_INVALID_NETKEY, ks)
                else if take 16 key \<noteq> take 16 (ak_val (ap_keys app ! 0)) then (STATUS_IDX_ALREADY_STORED, ks)
                else (STATUS_SUCCESS, ks))
             else
               (case bt_mesh_app_id key of Inl _ \<Rightarrow> (STATUS_CANNOT_SET, ks)
                | Inr aid \<Rightarrow>
                   (let app = app\<lparr>ap_net_idx := net_idx, ap_app_idx := app_idx, ap_updated := False,
                          ap_keys := (ap_keys app)[0 := \<lparr>ak_id = aid, ak_val = take 16 key\<rparr>]\<rparr>;
                        ks = app_set i app ks;
                        ks = (if cfg_settings cfg then update_app_key_settings (ap_app_idx app) True ks else ks)
                    in (STATUS_SUCCESS, app_key_evt app BT_MESH_KEY_ADDED ks))))))"

definition bt_mesh_app_key_update ::
  "mesh_cfg \<Rightarrow> u16 \<Rightarrow> u16 \<Rightarrow> bytes \<Rightarrow> keys_state \<Rightarrow> mesh_status \<times> keys_state" where
  "bt_mesh_app_key_update cfg app_idx net_idx key ks =
     (case app_get app_idx ks of None \<Rightarrow> (STATUS_INVALID_APPKEY, ks)
      | Some i \<Rightarrow>
         (let app = ks_apps ks ! i in
          if net_idx \<noteq> BT_MESH_KEY_UNUSED \<and> ap_net_idx app \<noteq> net_idx then (STATUS_INVALID_BINDING, ks)
          else
            (case bt_mesh_subnet_get (ap_net_idx app) ks of None \<Rightarrow> (STATUS_INVALID_NETKEY, ks)
             | Some s \<Rightarrow>
                if sn_kr_phase (ks_subnets ks ! s) \<noteq> BT_MESH_KR_PHASE_1 then (STATUS_CANNOT_UPDATE, ks)
                else if ap_updated app
                then (if take 16 (ak_val (ap_keys app ! 1)) \<noteq> take 16 key then (STATUS_IDX_ALREADY_STORED, ks)
                      else (STATUS_SUCCESS, ks))
                else
                  (case bt_mesh_app_id key of Inl _ \<Rightarrow> (STATUS_CANNOT_UPDATE, ks)
                   | Inr aid \<Rightarrow>
                      (let app = app\<lparr>ap_updated := True, ap_keys := (ap_keys app)[1 := \<lparr>ak_id = aid, ak_val = take 16 key\<rparr>]\<rparr>;
                           ks = app_set i app ks;
                           ks = (if cfg_settings cfg then update_app_key_settings (ap_app_idx app) True ks else ks)
                       in (STATUS_SUCCESS, app_key_evt app BT_MESH_KEY_UPDATED ks))))))"

definition bt_mesh_app_key_del :: "mesh_cfg \<Rightarrow> u16 \<Rightarrow> u16 \<Rightarrow> keys_state \<Rightarrow> mesh_status \<times> keys_state" where
  "bt_mesh_app_key_del cfg app_idx net_idx ks =
     (if net_idx \<noteq> BT_MESH_KEY_UNUSED \<and> bt_mesh_subnet_get net_idx ks = None then (STATUS_INVALID_NETKEY, ks)
      else
        (case app_get app_idx ks of None \<Rightarrow> (STATUS_SUCCESS, ks)
         | Some i \<Rightarrow>
            if net_idx \<noteq> BT_MESH_KEY_UNUSED \<and> net_idx \<noteq> ap_net_idx (ks_apps ks ! i) then (STATUS_INVALID_BINDING, ks)
            else (STATUS_SUCCESS, app_key_del cfg i ks)))"

text \<open>
  Setting a key without events, when it is loaded from storage.  On an error of the key
  derivation the code has already written the key's value into the slot.
\<close>

definition bt_mesh_app_key_set ::
  "u16 \<Rightarrow> u16 \<Rightarrow> bytes \<Rightarrow> bytes option \<Rightarrow> keys_state \<Rightarrow> errno option \<times> keys_state" where
  "bt_mesh_app_key_set app_idx net_idx old_key new_key ks =
     (case app_key_alloc app_idx ks of None \<Rightarrow> (Some ENOMEM, ks)
      | Some i \<Rightarrow>
         (let app = ks_apps ks ! i in
          if ap_app_idx app = app_idx then (None, ks)
          else
            (let app = app\<lparr>ap_keys := (ap_keys app)[0 := (ap_keys app ! 0)\<lparr>ak_val := take 16 old_key\<rparr>]\<rparr> in
             case bt_mesh_app_id old_key of Inl _ \<Rightarrow> (Some EIO, app_set i app ks)
             | Inr aid \<Rightarrow>
                (let app = app\<lparr>ap_keys := (ap_keys app)[0 := (ap_keys app ! 0)\<lparr>ak_id := aid\<rparr>]\<rparr>;
                     done = (\<lambda>app. (None, app_set i (app\<lparr>ap_net_idx := net_idx, ap_app_idx := app_idx,
                              ap_updated := (new_key \<noteq> None)\<rparr>) ks))
                 in case new_key of None \<Rightarrow> done app
                    | Some key \<Rightarrow>
                       (let app = app\<lparr>ap_keys := (ap_keys app)[1 := (ap_keys app ! 1)\<lparr>ak_val := take 16 key\<rparr>]\<rparr> in
                        case bt_mesh_app_id key of Inl _ \<Rightarrow> (Some EIO, app_set i app ks)
                        | Inr aid \<Rightarrow> done (app\<lparr>ap_keys := (ap_keys app)[1 := (ap_keys app ! 1)\<lparr>ak_id := aid\<rparr>]\<rparr>))))))"

definition bt_mesh_app_key_exists :: "u16 \<Rightarrow> keys_state \<Rightarrow> bool" where
  "bt_mesh_app_key_exists app_idx ks \<longleftrightarrow> (\<exists>app \<in> set (ks_apps ks). ap_app_idx app = app_idx)"

definition bt_mesh_app_keys_get :: "u16 \<Rightarrow> nat \<Rightarrow> nat \<Rightarrow> keys_state \<Rightarrow> errno + u16 list" where
  "bt_mesh_app_keys_get net_idx max_n skip ks =
     get_loop max_n skip []
       [ap_app_idx app. app \<leftarrow> ks_apps ks, ap_app_idx app \<noteq> BT_MESH_KEY_UNUSED \<and>
          (net_idx = BT_MESH_KEY_ANY \<or> ap_net_idx app = net_idx)]"

text \<open>
  The key to send with.  \<open>dev_key\<close> is the node's device key, \<open>has_addr\<close> says which addresses
  are its own, \<open>cdb_node\<close> gives the device key the configuration database has for a node.
  The result is the subnet, the key and its identifier.
\<close>

definition bt_mesh_keys_resolve ::
  "mesh_cfg \<Rightarrow> bytes \<Rightarrow> (u16 \<Rightarrow> bool) \<Rightarrow> (u16 \<Rightarrow> bytes option) \<Rightarrow> bt_mesh_msg_ctx \<Rightarrow> keys_state \<Rightarrow>
   errno + nat \<times> bytes \<times> u8" where
  "bt_mesh_keys_resolve cfg dev_key has_addr cdb_node ctx ks =
     (if BT_MESH_IS_DEV_KEY (ctx_app_idx ctx)
      then
        (case bt_mesh_subnet_get (ctx_net_idx ctx) ks of None \<Rightarrow> Inl EINVAL
         | Some s \<Rightarrow>
            if ctx_app_idx ctx = BT_MESH_KEY_DEV_REMOTE \<and> \<not> has_addr (ctx_addr ctx)
            then (if \<not> cfg_cdb cfg then Inl EINVAL
                  else case cdb_node (ctx_addr ctx) of None \<Rightarrow> Inl EINVAL | Some key \<Rightarrow> Inr (s, key, 0))
            else Inr (s, dev_key, 0))
      else
        (case app_get (ctx_app_idx ctx) ks of None \<Rightarrow> Inl EINVAL
         | Some i \<Rightarrow>
            (let app = ks_apps ks ! i in
             case bt_mesh_subnet_get (ap_net_idx app) ks of None \<Rightarrow> Inl EINVAL
             | Some s \<Rightarrow>
                (let cred = ap_keys app ! (if sn_kr_phase (ks_subnets ks ! s) = BT_MESH_KR_PHASE_2 \<and> ap_updated app then 1 else 0)
                 in Inr (s, ak_val cred, ak_id cred)))))"

text \<open>
  The search for a key that decrypts a received message.  The callback tries a key, may change
  the caller's state, and reports success.
\<close>

fun app_find_loop ::
  "u8 \<Rightarrow> u16 \<Rightarrow> bool \<Rightarrow> (bytes \<Rightarrow> 's \<Rightarrow> bool \<times> 's) \<Rightarrow> app_key list \<Rightarrow> 's \<Rightarrow> u16 \<times> 's" where
  "app_find_loop aid net_idx new_key cb [] s = (BT_MESH_KEY_UNUSED, s)"
| "app_find_loop aid net_idx new_key cb (app # apps) s =
     (if ap_app_idx app = BT_MESH_KEY_UNUSED \<or> ap_net_idx app \<noteq> net_idx then app_find_loop aid net_idx new_key cb apps s
      else
        (let cred = ap_keys app ! (if new_key \<and> ap_updated app then 1 else 0) in
         if ak_id cred \<noteq> aid then app_find_loop aid net_idx new_key cb apps s
         else (let (success, s) = cb (ak_val cred) s
               in if success then (ap_app_idx app, s) else app_find_loop aid net_idx new_key cb apps s)))"

definition bt_mesh_app_key_find ::
  "mesh_cfg \<Rightarrow> bytes \<Rightarrow> (u16 \<Rightarrow> bytes option) \<Rightarrow> bool \<Rightarrow> u8 \<Rightarrow> bt_mesh_net_rx \<Rightarrow>
   (bytes \<Rightarrow> 's \<Rightarrow> bool \<times> 's) \<Rightarrow> keys_state \<Rightarrow> 's \<Rightarrow> u16 \<times> 's" where
  "bt_mesh_app_key_find cfg dev_key cdb_node use_dev_key aid rx cb ks s =
     (if use_dev_key
      then
        (let (remote, s) =
           (if cfg_cdb cfg \<and> rx_net_if rx \<noteq> BT_MESH_NET_IF_LOCAL
            then (case cdb_node (rx_addr rx) of None \<Rightarrow> (False, s) | Some key \<Rightarrow> cb key s) else (False, s))
         in if remote then (BT_MESH_KEY_DEV_REMOTE, s)
            else
              (let (local, s) =
                 (if BT_MESH_ADDR_IS_UNICAST (ctx_recv_dst (rx_ctx rx)) then cb dev_key s else (False, s))
               in if local then (BT_MESH_KEY_DEV_LOCAL, s) else (BT_MESH_KEY_UNUSED, s)))
      else app_find_loop aid (sn_net_idx (ks_subnets ks ! rx_sub rx)) (rx_new_key rx) cb (ks_apps ks) s)"

text \<open>The handler of key events of the subnet with index \<open>s\<close>.\<close>

definition app_evt_step :: "mesh_cfg \<Rightarrow> u16 \<Rightarrow> bt_mesh_key_evt \<Rightarrow> nat \<Rightarrow> keys_state \<Rightarrow> keys_state" where
  "app_evt_step cfg net_idx evt i ks =
     (let app = ks_apps ks ! i in
      if ap_app_idx app = BT_MESH_KEY_UNUSED then ks
      else if ap_net_idx app \<noteq> net_idx then ks
      else if evt = BT_MESH_KEY_DELETED then app_key_del cfg i ks
      else if evt = BT_MESH_KEY_REVOKED then app_key_revoke cfg i ks
      else if evt = BT_MESH_KEY_SWAPPED \<and> ap_updated app then app_key_evt app BT_MESH_KEY_SWAPPED ks
      else ks)"

definition app_subnet_evt :: "mesh_cfg \<Rightarrow> nat \<Rightarrow> bt_mesh_key_evt \<Rightarrow> keys_state \<Rightarrow> keys_state" where
  "app_subnet_evt cfg s evt ks =
     (if evt = BT_MESH_KEY_UPDATED \<or> evt = BT_MESH_KEY_ADDED then ks
      else fold (app_evt_step cfg (sn_net_idx (ks_subnets ks ! s)) evt) [0..<length (ks_apps ks)] ks)"

definition bt_mesh_app_keys_reset :: "mesh_cfg \<Rightarrow> keys_state \<Rightarrow> keys_state" where
  "bt_mesh_app_keys_reset cfg ks =
     fold (\<lambda>i ks. if ap_app_idx (ks_apps ks ! i) \<noteq> BT_MESH_KEY_UNUSED then app_key_del cfg i ks else ks)
       [0..<length (ks_apps ks)] ks"

definition app_key_set :: "string option \<Rightarrow> nat \<Rightarrow> errno + app_key_val \<Rightarrow> keys_state \<Rightarrow> errno option \<times> keys_state" where
  "app_key_set name len_rd rd ks =
     (case name of None \<Rightarrow> (Some ENOENT, ks)
      | Some nm \<Rightarrow>
         (let app_idx = word_of_nat (strtol16 0 nm) in
          if len_rd = 0 then (None, ks)
          else
            (case rd of Inl _ \<Rightarrow> (Some EINVAL, ks)
             | Inr key \<Rightarrow> bt_mesh_app_key_set app_idx (av_net_idx key) (av_val key ! 0)
                 (if av_updated key then Some (av_val key ! 1) else None) ks)))"

definition app_pending_step :: "nat \<Rightarrow> keys_state \<Rightarrow> keys_state" where
  "app_pending_step i ks =
     (let update = ks_app_key_updates ks ! i in
      if \<not> ku_valid update then ks
      else
        (let ks = (if ku_clear update then clear_app_key (ku_idx update) ks else store_app_key (ku_idx update) ks)
         in ks\<lparr>ks_app_key_updates := (ks_app_key_updates ks)[i := update\<lparr>ku_valid := False\<rparr>]\<rparr>))"

definition bt_mesh_app_key_pending_store :: "keys_state \<Rightarrow> keys_state" where
  "bt_mesh_app_key_pending_store ks = fold app_pending_step [0..<length (ks_app_key_updates ks)] ks"

end
