(* ===== verification/Mesh_Subnet.thy ===== *)
theory Mesh_Subnet
  imports Mesh_App_Keys
begin

text \<open>
  The network keys of a node, \<open>core/src/mesh/subnet.c\<close>: the table of subnets, the Key Refresh
  procedure, storing and loading the keys, friendship credentials, and the search for
  credentials that decrypt a received PDU.

  The state is \<open>keys_state\<close> of \<open>Mesh_App_Keys\<close>.  \<open>subnet_evt\<close> calls the handlers registered for
  key events: the one of the application keys changes the state, the others (beacon, proxy,
  friend, low power node) do not touch the key tables and are recorded as one call.
\<close>

section \<open>Storage\<close>

definition net_key_path :: "u16 \<Rightarrow> string" where
  "net_key_path net_idx = ''bt/mesh/NetKey/'' @ hex_string (unat net_idx)"

definition clear_net_key :: "u16 \<Rightarrow> keys_state \<Rightarrow> keys_state" where
  "clear_net_key net_idx ks = keys_call (Keys_delete (net_key_path net_idx)) ks"

definition subnet_stored :: "bt_mesh_subnet \<Rightarrow> net_key_val" where
  "subnet_stored sub =
     \<lparr>nk_kr_flag = False, nk_kr_phase = ucast (sn_kr_phase sub), nk_val = [sk_net (sn_keys sub ! 0), sk_net (sn_keys sub ! 1)]\<rparr>"

definition store_subnet :: "u16 \<Rightarrow> keys_state \<Rightarrow> keys_state" where
  "store_subnet net_idx ks =
     (case bt_mesh_subnet_get net_idx ks of None \<Rightarrow> ks
      | Some i \<Rightarrow> keys_call (Save_net_key (net_key_path net_idx) (subnet_stored (ks_subnets ks ! i))) ks)"

definition update_subnet_settings :: "u16 \<Rightarrow> bool \<Rightarrow> keys_state \<Rightarrow> keys_state" where
  "update_subnet_settings net_idx store ks =
     (case track_update net_idx store (ks_net_key_updates ks) of
        Some us \<Rightarrow> keys_call (Keys_schedule BT_MESH_SETTINGS_NET_KEYS_PENDING) (ks\<lparr>ks_net_key_updates := us\<rparr>)
      | None \<Rightarrow> if store then store_subnet net_idx ks else clear_net_key net_idx ks)"

definition bt_mesh_subnet_store :: "u16 \<Rightarrow> keys_state \<Rightarrow> keys_state" where
  "bt_mesh_subnet_store net_idx ks = update_subnet_settings net_idx True ks"

section \<open>Key Refresh\<close>

definition bt_mesh_net_flags :: "bt_mesh_subnet option \<Rightarrow> bool \<Rightarrow> u8" where
  "bt_mesh_net_flags sub ivu =
     (let flags = 0x00;
          flags = (case sub of None \<Rightarrow> flags | Some s \<Rightarrow> if sn_kr_phase s = BT_MESH_KR_PHASE_2 then flags OR 1 else flags)
      in if ivu then flags OR 2 else flags)"

definition subnet_evt :: "mesh_cfg \<Rightarrow> nat \<Rightarrow> bt_mesh_key_evt \<Rightarrow> keys_state \<Rightarrow> keys_state" where
  "subnet_evt cfg i evt ks = app_subnet_evt cfg i evt (keys_call (Subnet_evt i evt) ks)"

definition sub_set :: "nat \<Rightarrow> bt_mesh_subnet \<Rightarrow> keys_state \<Rightarrow> keys_state" where
  "sub_set i sub ks = ks\<lparr>ks_subnets := (ks_subnets ks)[i := sub]\<rparr>"

definition key_refresh :: "mesh_cfg \<Rightarrow> nat \<Rightarrow> u8 \<Rightarrow> keys_state \<Rightarrow> keys_state" where
  "key_refresh cfg i new_phase ks =
     (let sub = ks_subnets ks ! i in
      if new_phase = BT_MESH_KR_PHASE_3 \<and> sn_kr_phase sub = BT_MESH_KR_NORMAL then ks
      else
        (let ks =
           (if new_phase = BT_MESH_KR_PHASE_1
            then subnet_evt cfg i BT_MESH_KEY_UPDATED (sub_set i (sub\<lparr>sn_kr_phase := new_phase\<rparr>) ks)
            else if new_phase = BT_MESH_KR_PHASE_2
            then subnet_evt cfg i BT_MESH_KEY_SWAPPED (sub_set i (sub\<lparr>sn_kr_phase := new_phase\<rparr>) ks)
            else if new_phase = BT_MESH_KR_PHASE_3 \<or> new_phase = BT_MESH_KR_NORMAL
            then subnet_evt cfg i BT_MESH_KEY_REVOKED
              (sub_set i (sub\<lparr>sn_kr_phase := BT_MESH_KR_NORMAL,
                 sn_keys := [sn_keys sub ! 1, (sn_keys sub ! 1)\<lparr>sk_valid := False\<rparr>]\<rparr>) ks)
            else ks)
         in if cfg_settings cfg then bt_mesh_subnet_store (sn_net_idx (ks_subnets ks ! i)) ks else ks))"

definition bt_mesh_kr_update :: "mesh_cfg \<Rightarrow> nat \<Rightarrow> bool \<Rightarrow> bool \<Rightarrow> keys_state \<Rightarrow> keys_state" where
  "bt_mesh_kr_update cfg i kr_flag new_key ks =
     (let sub = ks_subnets ks ! i in
      if \<not> new_key then ks
      else if sn_kr_phase sub = BT_MESH_KR_PHASE_1
      then key_refresh cfg i (if kr_flag then BT_MESH_KR_PHASE_2 else BT_MESH_KR_PHASE_3) ks
      else if sn_kr_phase sub = BT_MESH_KR_PHASE_2 \<and> \<not> kr_flag then key_refresh cfg i BT_MESH_KR_PHASE_3 ks
      else ks)"

section \<open>The table of subnets\<close>

definition subnet_alloc :: "u16 \<Rightarrow> keys_state \<Rightarrow> nat option" where
  "subnet_alloc net_idx ks = alloc_loop sn_net_idx net_idx 0 None (ks_subnets ks)"

definition zero_subnet_keys :: bt_mesh_subnet_keys where
  "zero_subnet_keys = \<lparr>sk_valid = False, sk_net = replicate 16 0,
     sk_msg = \<lparr>cr_nid = 0, cr_enc = replicate 16 0, cr_privacy = replicate 16 0\<rparr>,
     sk_net_id = replicate 8 0, sk_identity = replicate 16 0, sk_beacon = replicate 16 0\<rparr>"

definition unused_subnet :: bt_mesh_subnet where
  "unused_subnet = \<lparr>sn_beacon_sent = 0, sn_beacons_last = 0, sn_beacons_cur = 0, sn_beacon_cache = replicate 21 0,
     sn_net_idx = BT_MESH_KEY_UNUSED, sn_kr_phase = 0, sn_node_id = BT_MESH_FEATURE_DISABLED, sn_node_id_start = 0,
     sn_auth = replicate 8 0, sn_keys = [zero_subnet_keys, zero_subnet_keys]\<rparr>"

definition subnet_del :: "mesh_cfg \<Rightarrow> nat \<Rightarrow> keys_state \<Rightarrow> keys_state" where
  "subnet_del cfg i ks =
     (let net_idx = sn_net_idx (ks_subnets ks ! i);
          ks = (if cfg_settings cfg then update_subnet_settings net_idx False ks else ks);
          ks = keys_call (Net_loopback_clear net_idx) ks;
          ks = subnet_evt cfg i BT_MESH_KEY_DELETED ks
      in sub_set i unused_subnet ks)"

definition msg_cred_create :: "bytes \<Rightarrow> bytes \<Rightarrow> errno + bt_mesh_net_cred" where
  "msg_cred_create p key =
     err_bind (bt_mesh_k2 key p) (\<lambda>(nid, enc, privacy). Inr \<lparr>cr_nid = nid, cr_enc = enc, cr_privacy = privacy\<rparr>)"

definition net_keys_create ::
  "mesh_cfg \<Rightarrow> bytes \<Rightarrow> bt_mesh_subnet_keys \<Rightarrow> errno option \<times> bt_mesh_subnet_keys" where
  "net_keys_create cfg key keys =
     (case msg_cred_create [0] key of Inl e \<Rightarrow> (Some e, keys)
      | Inr cred \<Rightarrow>
         (let keys = keys\<lparr>sk_msg := cred, sk_net := take 16 key\<rparr> in
          case bt_mesh_k3 key of Inl e \<Rightarrow> (Some e, keys)
          | Inr net_id \<Rightarrow>
             (let keys = keys\<lparr>sk_net_id := net_id\<rparr> in
              case (if cfg_gatt_proxy cfg then bt_mesh_identity_key key else Inr (sk_identity keys)) of Inl e \<Rightarrow> (Some e, keys)
              | Inr identity \<Rightarrow>
                 (let keys = keys\<lparr>sk_identity := identity\<rparr> in
                  case bt_mesh_beacon_key key of Inl e \<Rightarrow> (Some e, keys)
                  | Inr beacon \<Rightarrow> (None, keys\<lparr>sk_beacon := beacon, sk_valid := True\<rparr>)))))"

definition node_id_default :: "mesh_cfg \<Rightarrow> bt_mesh_feat_state" where
  "node_id_default cfg = (if cfg_gatt_proxy cfg then BT_MESH_FEATURE_DISABLED else BT_MESH_FEATURE_NOT_SUPPORTED)"

definition bt_mesh_subnet_add :: "mesh_cfg \<Rightarrow> u16 \<Rightarrow> bytes \<Rightarrow> keys_state \<Rightarrow> mesh_status \<times> keys_state" where
  "bt_mesh_subnet_add cfg net_idx key ks =
     (case subnet_alloc net_idx ks of None \<Rightarrow> (STATUS_INSUFF_RESOURCES, ks)
      | Some i \<Rightarrow>
         (let sub = ks_subnets ks ! i in
          if sn_net_idx sub = net_idx
          then (if take 16 key \<noteq> take 16 (sk_net (sn_keys sub ! 0)) then (STATUS_IDX_ALREADY_STORED, ks) else (STATUS_SUCCESS, ks))
          else
            (let (err, k0) = net_keys_create cfg key (sn_keys sub ! 0); sub = sub\<lparr>sn_keys := (sn_keys sub)[0 := k0]\<rparr> in
             if err \<noteq> None then (STATUS_UNSPECIFIED, sub_set i sub ks)
             else
               (let sub = sub\<lparr>sn_net_idx := net_idx, sn_kr_phase := BT_MESH_KR_NORMAL, sn_node_id := node_id_default cfg\<rparr>;
                    ks = subnet_evt cfg i BT_MESH_KEY_ADDED (sub_set i sub ks)
                in (STATUS_SUCCESS, if cfg_settings cfg then bt_mesh_subnet_store net_idx ks else ks)))))"

definition bt_mesh_subnet_exists :: "u16 \<Rightarrow> keys_state \<Rightarrow> bool" where
  "bt_mesh_subnet_exists net_idx ks \<longleftrightarrow> bt_mesh_subnet_get net_idx ks \<noteq> None"

definition bt_mesh_subnet_update :: "mesh_cfg \<Rightarrow> u16 \<Rightarrow> bytes \<Rightarrow> keys_state \<Rightarrow> mesh_status \<times> keys_state" where
  "bt_mesh_subnet_update cfg net_idx key ks =
     (case bt_mesh_subnet_get net_idx ks of None \<Rightarrow> (STATUS_INVALID_NETKEY, ks)
      | Some i \<Rightarrow>
         (let sub = ks_subnets ks ! i; phase = sn_kr_phase sub;
              proceed =
                (let (err, k1) = net_keys_create cfg key (sn_keys sub ! 1);
                     ks = sub_set i (sub\<lparr>sn_keys := (sn_keys sub)[1 := k1]\<rparr>) ks
                 in if err \<noteq> None then (STATUS_CANNOT_UPDATE, ks)
                    else (STATUS_SUCCESS, key_refresh cfg i BT_MESH_KR_PHASE_1 ks))
          in if phase = BT_MESH_KR_NORMAL
             then (if take 16 key = take 16 (sk_net (sn_keys sub ! 0)) then (STATUS_IDX_ALREADY_STORED, ks) else proceed)
             else if phase = BT_MESH_KR_PHASE_1 \<and> take 16 key = take 16 (sk_net (sn_keys sub ! 1)) then (STATUS_SUCCESS, ks)
             else if phase \<in> {BT_MESH_KR_PHASE_1, BT_MESH_KR_PHASE_2, BT_MESH_KR_PHASE_3} then (STATUS_CANNOT_UPDATE, ks)
             else proceed))"

definition bt_mesh_subnet_del :: "mesh_cfg \<Rightarrow> u16 \<Rightarrow> keys_state \<Rightarrow> mesh_status \<times> keys_state" where
  "bt_mesh_subnet_del cfg net_idx ks =
     (case bt_mesh_subnet_get net_idx ks of None \<Rightarrow> (STATUS_INVALID_NETKEY, ks)
      | Some i \<Rightarrow> (STATUS_SUCCESS, subnet_del cfg i ks))"

definition bt_mesh_friend_cred_create :: "u16 \<Rightarrow> u16 \<Rightarrow> u16 \<Rightarrow> u16 \<Rightarrow> bytes \<Rightarrow> errno + bt_mesh_net_cred" where
  "bt_mesh_friend_cred_create lpn_addr frnd_addr lpn_counter frnd_counter key =
     msg_cred_create ([0x01] @ sys_put_be16 lpn_addr @ sys_put_be16 frnd_addr @ sys_put_be16 lpn_counter @
       sys_put_be16 frnd_counter) key"

text \<open>
  The result is the status and the phase stored through the argument.  \<open>BIT(phase)\<close> is a
  32-bit shift, undefined in C for a phase of 32 or more and zero here.
\<close>

definition valid_transitions :: "u32 list" where
  "valid_transitions = [push_bit 3 1, push_bit 2 1 OR push_bit 3 1, push_bit 3 1]"

definition bt_mesh_subnet_kr_phase_set ::
  "mesh_cfg \<Rightarrow> u16 \<Rightarrow> u8 \<Rightarrow> keys_state \<Rightarrow> mesh_status \<times> u8 \<times> keys_state" where
  "bt_mesh_subnet_kr_phase_set cfg net_idx phase ks =
     (case bt_mesh_subnet_get net_idx ks of None \<Rightarrow> (STATUS_INVALID_NETKEY, 0x00, ks)
      | Some i \<Rightarrow>
         (let cur = sn_kr_phase (ks_subnets ks ! i) in
          if phase = cur then (STATUS_SUCCESS, phase, ks)
          else if unat cur < length valid_transitions \<and> valid_transitions ! unat cur AND push_bit (unat phase) 1 \<noteq> 0
          then (let ks = key_refresh cfg i phase ks in (STATUS_SUCCESS, sn_kr_phase (ks_subnets ks ! i), ks))
          else (STATUS_CANNOT_UPDATE, cur, ks)))"

definition bt_mesh_subnet_kr_phase_get :: "u16 \<Rightarrow> keys_state \<Rightarrow> mesh_status \<times> u8" where
  "bt_mesh_subnet_kr_phase_get net_idx ks =
     (case bt_mesh_subnet_get net_idx ks of None \<Rightarrow> (STATUS_INVALID_NETKEY, BT_MESH_KR_NORMAL)
      | Some i \<Rightarrow> (STATUS_SUCCESS, sn_kr_phase (ks_subnets ks ! i)))"

definition bt_mesh_subnet_node_id_set ::
  "mesh_cfg \<Rightarrow> u16 \<Rightarrow> bt_mesh_feat_state \<Rightarrow> keys_state \<Rightarrow> mesh_status \<times> keys_state" where
  "bt_mesh_subnet_node_id_set cfg net_idx node_id ks =
     (if node_id = BT_MESH_FEATURE_NOT_SUPPORTED then (STATUS_CANNOT_SET, ks)
      else
        (case bt_mesh_subnet_get net_idx ks of None \<Rightarrow> (STATUS_INVALID_NETKEY, ks)
         | Some i \<Rightarrow>
            if \<not> cfg_gatt_proxy cfg then (STATUS_FEAT_NOT_SUPP, ks)
            else (STATUS_SUCCESS, keys_call Adv_update
              (keys_call (if node_id \<noteq> BT_MESH_FEATURE_DISABLED then Proxy_identity_start i else Proxy_identity_stop i) ks))))"

definition bt_mesh_subnet_node_id_get :: "u16 \<Rightarrow> keys_state \<Rightarrow> mesh_status \<times> bt_mesh_feat_state" where
  "bt_mesh_subnet_node_id_get net_idx ks =
     (case bt_mesh_subnet_get net_idx ks of None \<Rightarrow> (STATUS_INVALID_NETKEY, BT_MESH_FEATURE_DISABLED)
      | Some i \<Rightarrow> (STATUS_SUCCESS, sn_node_id (ks_subnets ks ! i)))"

definition bt_mesh_subnets_get :: "nat \<Rightarrow> nat \<Rightarrow> keys_state \<Rightarrow> errno + u16 list" where
  "bt_mesh_subnets_get max_n skip ks =
     get_loop max_n skip [] [sn_net_idx sub. sub \<leftarrow> ks_subnets ks, sn_net_idx sub \<noteq> BT_MESH_KEY_UNUSED]"

definition bt_mesh_subnet_set ::
  "mesh_cfg \<Rightarrow> u16 \<Rightarrow> u8 \<Rightarrow> bytes option \<Rightarrow> bytes option \<Rightarrow> keys_state \<Rightarrow> errno option \<times> keys_state" where
  "bt_mesh_subnet_set cfg net_idx kr_phase old_key new_key ks =
     (case subnet_alloc net_idx ks of None \<Rightarrow> (Some ENOMEM, ks)
      | Some i \<Rightarrow>
         (let sub = ks_subnets ks ! i; k0 = sn_keys sub ! 0; k1 = sn_keys sub ! 1 in
          if sn_net_idx sub = net_idx then (Some EALREADY, ks)
          else
            (let (err0, k0) = (case old_key of None \<Rightarrow> (None, k0) | Some key \<Rightarrow> net_keys_create cfg key k0) in
             if err0 \<noteq> None then (Some EIO, sub_set i (sub\<lparr>sn_keys := [k0, k1]\<rparr>) ks)
             else
               (let (err1, k1) = (case new_key of None \<Rightarrow> (None, k1) | Some key \<Rightarrow> net_keys_create cfg key k1) in
                if err1 \<noteq> None then (Some EIO, sub_set i (sub\<lparr>sn_keys := [k0, k1]\<rparr>) ks)
                else (None, keys_call (Beacon_update i)
                  (sub_set i (sub\<lparr>sn_keys := [k0, k1], sn_net_idx := net_idx, sn_kr_phase := kr_phase,
                     sn_node_id := node_id_default cfg\<rparr>) ks))))))"

definition bt_mesh_subnet_find :: "(bt_mesh_subnet \<Rightarrow> bool) option \<Rightarrow> keys_state \<Rightarrow> nat option" where
  "bt_mesh_subnet_find cb ks =
     find_index (\<lambda>sub. sn_net_idx sub \<noteq> BT_MESH_KEY_UNUSED \<and> (case cb of None \<Rightarrow> True | Some f \<Rightarrow> f sub)) (ks_subnets ks)"

definition bt_mesh_subnet_foreach :: "(nat \<Rightarrow> keys_state \<Rightarrow> keys_state) \<Rightarrow> keys_state \<Rightarrow> nat \<times> keys_state" where
  "bt_mesh_subnet_foreach cb ks =
     fold (\<lambda>i (count, ks). if sn_net_idx (ks_subnets ks ! i) = BT_MESH_KEY_UNUSED then (count, ks) else (count + 1, cb i ks))
       [0..<length (ks_subnets ks)] (0, ks)"

text \<open>The next used subnet after \<open>sub\<close>, rolling over; \<open>n\<close> is the number of slots left to look at.\<close>

fun subnet_next_loop :: "bt_mesh_subnet list \<Rightarrow> nat \<Rightarrow> nat \<Rightarrow> nat option" where
  "subnet_next_loop subs 0 j = None"
| "subnet_next_loop subs (Suc n) j =
     (let j = (if j = length subs then 0 else j)
      in if sn_net_idx (subs ! j) \<noteq> BT_MESH_KEY_UNUSED then Some j else subnet_next_loop subs n (j + 1))"

definition bt_mesh_subnet_next :: "nat option \<Rightarrow> keys_state \<Rightarrow> nat option" where
  "bt_mesh_subnet_next sub ks =
     subnet_next_loop (ks_subnets ks) (length (ks_subnets ks)) (case sub of Some i \<Rightarrow> i + 1 | None \<Rightarrow> 0)"

definition bt_mesh_net_keys_reset :: "mesh_cfg \<Rightarrow> keys_state \<Rightarrow> keys_state" where
  "bt_mesh_net_keys_reset cfg ks =
     fold (\<lambda>i ks. if sn_net_idx (ks_subnets ks ! i) \<noteq> BT_MESH_KEY_UNUSED then subnet_del cfg i ks else ks)
       [0..<length (ks_subnets ks)] ks"

section \<open>The search for credentials\<close>

text \<open>Which of a subnet's two keys is used for sending.\<close>

definition SUBNET_KEY_TX_IDX :: "bt_mesh_subnet \<Rightarrow> nat" where
  "SUBNET_KEY_TX_IDX sub = (if sn_kr_phase sub = BT_MESH_KR_PHASE_2 then 1 else 0)"

text \<open>
  The attempts of \<open>bt_mesh_net_cred_find\<close> in order, each with the subnet, the key index, whether
  the credentials are a friendship's, and the credentials.  A low power node that waits for
  an update (\<open>lpn\<close> is its subnet and credentials) tries its friendship only; a friend's
  entries give the subnet, if in use, and the credentials.
\<close>

definition cred_attempts_of ::
  "bt_mesh_subnet list \<Rightarrow> nat \<Rightarrow> bool \<Rightarrow> bt_mesh_net_cred list \<Rightarrow> (nat \<times> nat \<times> bool \<times> bt_mesh_net_cred) list" where
  "cred_attempts_of subs i friend creds =
     [(i, j, friend, creds ! j). j \<leftarrow> [0..<length creds], sk_valid (sn_keys (subs ! i) ! j)]"

definition cred_attempts ::
  "bt_mesh_subnet list \<Rightarrow> (nat \<times> bt_mesh_net_cred list) option \<Rightarrow> (nat option \<times> bt_mesh_net_cred list) list \<Rightarrow>
   (nat \<times> nat \<times> bool \<times> bt_mesh_net_cred) list" where
  "cred_attempts subs lpn friends =
     (case lpn of
        Some (i, creds) \<Rightarrow> cred_attempts_of subs i True creds
      | None \<Rightarrow>
          concat [cred_attempts_of subs i True creds. (Some i, creds) \<leftarrow> friends] @
          concat [cred_attempts_of subs i False (map sk_msg (sn_keys (subs ! i))).
             i \<leftarrow> [0..<length subs], sn_net_idx (subs ! i) \<noteq> BT_MESH_KEY_UNUSED])"

text \<open>
  The callback \<open>cb\<close> tries credentials on a state (the decoding context and the output buffer
  of the network layer), reports success and may stop with an assertion failure; \<open>at_sub\<close>
  sets the subnet before an attempt, \<open>found\<close> records the one that succeeded.
\<close>

fun cred_search ::
  "(nat \<Rightarrow> 's \<Rightarrow> 's) \<Rightarrow> (nat \<Rightarrow> nat \<Rightarrow> bool \<Rightarrow> 's \<Rightarrow> 's) \<Rightarrow> (bt_mesh_net_cred \<Rightarrow> 's \<Rightarrow> (bool \<times> 's) option) \<Rightarrow>
   (nat \<times> nat \<times> bool \<times> bt_mesh_net_cred) list \<Rightarrow> 's \<Rightarrow> (bool \<times> 's) option" where
  "cred_search at_sub found cb [] s = Some (False, s)"
| "cred_search at_sub found cb ((i, j, friend, cred) # as) s =
     do { (success, s) \<leftarrow> cb cred (at_sub i s);
          (if success then Some (True, found i j friend s) else cred_search at_sub found cb as s) }"

section \<open>Loading and storing\<close>

definition net_key_set :: "mesh_cfg \<Rightarrow> string option \<Rightarrow> errno + net_key_val \<Rightarrow> keys_state \<Rightarrow> errno option \<times> keys_state" where
  "net_key_set cfg name rd ks =
     (case name of None \<Rightarrow> (Some ENOENT, ks)
      | Some nm \<Rightarrow>
         (let net_idx = word_of_nat (strtol16 0 nm) in
          case rd of Inl e \<Rightarrow> (Some e, ks)
          | Inr key \<Rightarrow> bt_mesh_subnet_set cfg net_idx (ucast (nk_kr_phase key)) (Some (nk_val key ! 0))
              (if nk_kr_phase key \<noteq> 0 then Some (nk_val key ! 1) else None) ks))"

definition subnet_pending_step :: "nat \<Rightarrow> keys_state \<Rightarrow> keys_state" where
  "subnet_pending_step i ks =
     (let update = ks_net_key_updates ks ! i in
      if \<not> ku_valid update then ks
      else
        (let ks = (if ku_clear update then clear_net_key (ku_idx update) ks else store_subnet (ku_idx update) ks)
         in ks\<lparr>ks_net_key_updates := (ks_net_key_updates ks)[i := update\<lparr>ku_valid := False\<rparr>]\<rparr>))"

definition bt_mesh_subnet_pending_store :: "keys_state \<Rightarrow> keys_state" where
  "bt_mesh_subnet_pending_store ks = fold subnet_pending_step [0..<length (ks_net_key_updates ks)] ks"

end
