(* ===== verification/Mesh_Net.thy ===== *)
theory Mesh_Net
  imports Mesh_Iv Mesh_Subnet
begin

text \<open>
  The mesh network layer, \<open>core/src/mesh/net.c\<close>: the two duplicate caches, encoding and
  decoding of the network header, encryption and obfuscation of outgoing PDUs, the search
  for credentials that decrypt a received PDU (\<open>core/src/mesh/subnet.c\<close>), the loopback
  queue, reception and relaying.

  The state \<open>net_layer\<close> holds the network context of \<open>Mesh_Iv\<close>, the caches with their next
  indices, the loopback queue and the calls that leave the layer, newest last.  A
  \<open>net_env\<close> answers what the layer asks other modules: addresses, feature states, the
  subnets and friendship credentials, available buffers, and the transport layer's
  reaction to a PDU.  Assertion failures of the packet buffers are \<open>None\<close>.
\<close>

section \<open>Header fields\<close>

definition IVI :: "bytes \<Rightarrow> u8" where "IVI pdu = drop_bit 7 (pdu ! 0)"
definition NID :: "bytes \<Rightarrow> u8" where "NID pdu = pdu ! 0 AND 0x7f"
definition CTL :: "bytes \<Rightarrow> u8" where "CTL pdu = drop_bit 7 (pdu ! 1)"
definition TTL :: "bytes \<Rightarrow> u8" where "TTL pdu = pdu ! 1 AND 0x7f"
definition SEQ :: "bytes \<Rightarrow> u32" where "SEQ pdu = sys_get_be24 (drop 2 pdu)"
definition SRC :: "bytes \<Rightarrow> u16" where "SRC pdu = sys_get_be16 (drop 5 pdu)"
definition DST :: "bytes \<Rightarrow> u16" where "DST pdu = sys_get_be16 (drop 7 pdu)"

definition BT_MESH_NET_HDR_LEN :: nat where "BT_MESH_NET_HDR_LEN = 9"
definition BT_MESH_NET_MIN_PDU_LEN :: nat where "BT_MESH_NET_MIN_PDU_LEN = BT_MESH_NET_HDR_LEN + 1 + 8"
definition BT_MESH_NET_MAX_PDU_LEN :: nat where "BT_MESH_NET_MAX_PDU_LEN = BT_MESH_NET_HDR_LEN + 16 + 4"

section \<open>State and environment\<close>

record msg_cache_entry =
  mc_src :: "15 word"
  mc_seq :: "17 word"

record bt_mesh_net_tx =
  tx_sub :: nat
  tx_ctx :: bt_mesh_msg_ctx
  tx_src :: u16
  tx_xmit :: u8
  tx_friend_cred :: bool
  tx_aszmic :: bool
  tx_aid :: "6 word"

datatype net_out =
    Adv_send bytes
  | Proxy_relay bytes u16
  | Proxy_addr_add u16
  | Work_submit
  | Send_cb_finalize
  | Trans_recv bytes bt_mesh_net_rx

record net_layer =
  nl_net :: bt_mesh_net
  nl_msg_cache :: "msg_cache_entry list"
  nl_msg_cache_next :: nat
  nl_dup_cache :: "u32 list"
  nl_dup_cache_next :: nat
  nl_local_queue :: "(nat \<times> bytes) list"
  nl_out :: "net_out list"

record net_env =
  ne_iv :: iv_env
  ne_cfg_proxy :: bool
  ne_has_addr :: "u16 \<Rightarrow> bool"
  ne_fixed_group :: "u16 \<Rightarrow> bool"
  ne_relay_enabled :: bool
  ne_gatt_proxy :: bt_mesh_feat_state
  ne_subnets :: "bt_mesh_subnet list"
  ne_lpn_waiting :: "(nat \<times> bt_mesh_net_cred list) option"
  ne_lpn_frnd :: "bt_mesh_net_cred list option"
  ne_friends :: "(nat option \<times> bt_mesh_net_cred list) list"
  ne_loopback_buf :: bool
  ne_adv_buf :: "net_buf_simple option"
  ne_proxy_relay :: "bytes \<Rightarrow> u16 \<Rightarrow> bool"
  ne_trans_recv :: "bytes \<Rightarrow> bt_mesh_net_rx \<Rightarrow> errno option \<times> bt_mesh_net_rx"

definition net_output :: "net_out \<Rightarrow> net_layer \<Rightarrow> net_layer" where
  "net_output x nl = nl\<lparr>nl_out := nl_out nl @ [x]\<rparr>"

section \<open>Duplicate caches\<close>

definition dup_value :: "net_buf_simple \<Rightarrow> u32" where
  "dup_value dat =
     (let tail = net_buf_simple_tail dat
      in sys_get_be32 (nb_read (tail - 4) 4 dat) XOR sys_get_be32 (nb_read (tail - 8) 4 dat))"

definition dup_cache_put :: "u32 \<Rightarrow> net_layer \<Rightarrow> net_layer" where
  "dup_cache_put val nl =
     nl\<lparr>nl_dup_cache := (nl_dup_cache nl)[nl_dup_cache_next nl := val],
        nl_dup_cache_next := (nl_dup_cache_next nl + 1) mod length (nl_dup_cache nl)\<rparr>"

definition check_dup :: "net_buf_simple \<Rightarrow> net_layer \<Rightarrow> bool \<times> net_layer" where
  "check_dup dat nl =
     (let val = dup_value dat
      in if val \<in> set (nl_dup_cache nl) then (True, nl) else (False, dup_cache_put val nl))"

definition msg_cache_match :: "bytes \<Rightarrow> net_layer \<Rightarrow> bool" where
  "msg_cache_match pdu nl \<longleftrightarrow>
     (\<exists>e \<in> set (nl_msg_cache nl). unat (mc_src e) = unat (SRC pdu) \<and> unat (mc_seq e) = unat (SEQ pdu AND mask 17))"

definition msg_cache_put :: "msg_cache_entry \<Rightarrow> net_layer \<Rightarrow> net_layer" where
  "msg_cache_put e nl =
     nl\<lparr>nl_msg_cache := (nl_msg_cache nl)[nl_msg_cache_next nl := e],
        nl_msg_cache_next := (nl_msg_cache_next nl + 1) mod length (nl_msg_cache nl)\<rparr>"

definition msg_cache_add :: "bt_mesh_net_rx \<Rightarrow> net_layer \<Rightarrow> bt_mesh_net_rx \<times> net_layer" where
  "msg_cache_add rx nl =
     (rx\<lparr>rx_msg_cache_idx := word_of_nat (nl_msg_cache_next nl)\<rparr>,
      msg_cache_put \<lparr>mc_src = ucast (rx_addr rx), mc_seq = ucast (rx_seq rx)\<rparr> nl)"

section \<open>Encoding\<close>

text \<open>The credentials to send with; friendship credentials are given up when there is no friend.\<close>

definition net_tx_cred_get :: "net_env \<Rightarrow> bt_mesh_net_tx \<Rightarrow> bt_mesh_net_cred \<times> bt_mesh_net_tx" where
  "net_tx_cred_get ne tx =
     (let sub = ne_subnets ne ! tx_sub tx in
      case (if tx_friend_cred tx then ne_lpn_frnd ne else None) of
        Some creds \<Rightarrow> (creds ! SUBNET_KEY_TX_IDX sub, tx)
      | None \<Rightarrow> (sk_msg (sn_keys sub ! SUBNET_KEY_TX_IDX sub), tx\<lparr>tx_friend_cred := False\<rparr>))"

definition net_header_encode ::
  "mesh_cfg \<Rightarrow> net_env \<Rightarrow> bt_mesh_net_tx \<Rightarrow> u8 \<Rightarrow> net_buf_simple \<Rightarrow> bt_mesh_net \<Rightarrow>
   (errno option \<times> net_buf_simple \<times> bt_mesh_net) option" where
  "net_header_encode cfg ne tx nid buf st =
     (let ctl = (ctx_app_idx (tx_ctx tx) = BT_MESH_KEY_UNUSED) in
      if ctl \<and> net_buf_simple_tailroom buf < 8 then Some (Some EINVAL, buf, st)
      else if net_buf_simple_tailroom buf < 4 then Some (Some EINVAL, buf, st)
      else do {
        buf \<leftarrow> net_buf_simple_push_be16 (ctx_addr (tx_ctx tx)) buf;
        buf \<leftarrow> net_buf_simple_push_be16 (tx_src tx) buf;
        let (seq, st) = bt_mesh_next_seq cfg (ne_iv ne) st;
        buf \<leftarrow> net_buf_simple_push_be24 seq buf;
        buf \<leftarrow> (if ctl then net_buf_simple_push_u8 (ctx_send_ttl (tx_ctx tx) OR 0x80) buf
                else net_buf_simple_push_u8 (ctx_send_ttl (tx_ctx tx)) buf);
        buf \<leftarrow> net_buf_simple_push_u8 (nid OR push_bit 7 (ucast (BT_MESH_NET_IVI_TX st AND 1))) buf;
        Some (None, buf, st)
      })"

definition net_encrypt ::
  "net_env \<Rightarrow> net_buf_simple \<Rightarrow> bt_mesh_net_cred \<Rightarrow> u32 \<Rightarrow> bool \<Rightarrow> (errno option \<times> net_buf_simple) option" where
  "net_encrypt ne buf cred iv_index proxy =
     do { (err, buf) \<leftarrow> bt_mesh_net_encrypt (ne_cfg_proxy ne) (cr_enc cred) buf iv_index proxy;
          (case err of Some e \<Rightarrow> Some (Some e, buf)
           | None \<Rightarrow> (let (err, pdu) = bt_mesh_net_obfuscate (nb_from 0 buf) iv_index (cr_privacy cred)
                      in Some (err, nb_set_from 0 pdu buf))) }"

definition bt_mesh_net_encode ::
  "mesh_cfg \<Rightarrow> net_env \<Rightarrow> bt_mesh_net_tx \<Rightarrow> net_buf_simple \<Rightarrow> bool \<Rightarrow> bt_mesh_net \<Rightarrow>
   (errno option \<times> net_buf_simple \<times> bt_mesh_net) option" where
  "bt_mesh_net_encode cfg ne tx buf proxy st =
     (let (cred, tx) = net_tx_cred_get ne tx in
      do { (err, buf, st) \<leftarrow> net_header_encode cfg ne tx (cr_nid cred) buf st;
           (case err of Some e \<Rightarrow> Some (Some e, buf, st)
            | None \<Rightarrow> do { (err, buf) \<leftarrow> net_encrypt ne buf cred (BT_MESH_NET_IVI_TX st) proxy;
                            Some (err, buf, st) }) })"

section \<open>Sending\<close>

definition loopback :: "net_env \<Rightarrow> bt_mesh_net_tx \<Rightarrow> bytes \<Rightarrow> net_layer \<Rightarrow> errno option \<times> net_layer" where
  "loopback ne tx dat nl =
     (if \<not> ne_loopback_buf ne then (Some ENOMEM, nl)
      else (None, net_output Work_submit (nl\<lparr>nl_local_queue := nl_local_queue nl @ [(tx_sub tx, dat)]\<rparr>)))"

definition bt_mesh_net_send ::
  "mesh_cfg \<Rightarrow> net_env \<Rightarrow> bt_mesh_net_tx \<Rightarrow> net_buf_simple \<Rightarrow> bool \<Rightarrow> net_layer \<Rightarrow>
   (errno option \<times> net_layer) option" where
  "bt_mesh_net_send cfg ne tx buf has_cb nl =
     (let (cred, tx) = net_tx_cred_get ne tx; dst = ctx_addr (tx_ctx tx) in
      do {
        (err, buf, st) \<leftarrow> net_header_encode cfg ne tx (cr_nid cred) buf (nl_net nl);
        let nl = nl\<lparr>nl_net := st\<rparr>;
        (case err of Some e \<Rightarrow> Some (Some e, nl)
         | None \<Rightarrow>
            (let local = (ne_fixed_group ne dst \<or> ne_has_addr ne dst);
                 (err, nl) = (if local then loopback ne tx (nb_bytes buf) nl else (None, nl))
             in if local \<and> (BT_MESH_ADDR_IS_UNICAST dst \<or> ctx_send_ttl (tx_ctx tx) = 1)
                then Some (err, if err = None \<and> has_cb then net_output Send_cb_finalize nl else nl)
                else if ctx_send_ttl (tx_ctx tx) = 1 then Some (Some EINVAL, nl)
                else do {
                  (err, buf) \<leftarrow> net_encrypt ne buf cred (BT_MESH_NET_IVI_TX (nl_net nl)) False;
                  (case err of Some e \<Rightarrow> Some (Some e, nl)
                   | None \<Rightarrow>
                      (let relayed = cfg_gatt_proxy cfg \<and> ne_proxy_relay ne (nb_bytes buf) dst;
                           nl = (if cfg_gatt_proxy cfg then net_output (Proxy_relay (nb_bytes buf) dst) nl else nl)
                       in if relayed \<and> BT_MESH_ADDR_IS_UNICAST dst then Some (None, nl)
                          else Some (None, net_output (Adv_send (nb_bytes buf)) nl)))
                })) })"

definition bt_mesh_net_loopback_clear :: "net_env \<Rightarrow> u16 \<Rightarrow> net_layer \<Rightarrow> net_layer" where
  "bt_mesh_net_loopback_clear ne idx nl =
     nl\<lparr>nl_local_queue := filter (\<lambda>(sub, _). \<not> (idx = BT_MESH_KEY_ANY \<or> idx = sn_net_idx (ne_subnets ne ! sub)))
          (nl_local_queue nl)\<rparr>"

section \<open>Decoding\<close>

definition BT_MESH_NET_IVI_RX :: "bt_mesh_net \<Rightarrow> bt_mesh_net_rx \<Rightarrow> u32" where
  "BT_MESH_NET_IVI_RX st rx = bm_iv_index st - (if rx_old_iv rx then 1 else 0)"

definition pdu_old_iv :: "bt_mesh_net \<Rightarrow> bytes \<Rightarrow> bool" where
  "pdu_old_iv st pdu \<longleftrightarrow> unat (IVI pdu) \<noteq> unat (bm_iv_index st AND 1)"

definition net_decrypt ::
  "net_env \<Rightarrow> net_layer \<Rightarrow> bt_mesh_net_rx \<Rightarrow> net_buf_simple \<Rightarrow> net_buf_simple \<Rightarrow> bt_mesh_net_cred \<Rightarrow>
   (bool \<times> bt_mesh_net_rx \<times> net_buf_simple) option" where
  "net_decrypt ne nl rx inb out cred =
     (let proxy = (rx_net_if rx = BT_MESH_NET_IF_PROXY_CFG); st = nl_net nl; pdu = nb_from 0 inb in
      if NID pdu \<noteq> cr_nid cred then Some (False, rx, out)
      else
        (let rx = rx\<lparr>rx_old_iv := pdu_old_iv st pdu\<rparr>; out = net_buf_simple_reset out in
         do {
           out \<leftarrow> net_buf_simple_add_mem (nb_bytes inb) out;
           let (err, opdu) = bt_mesh_net_obfuscate (nb_from 0 out) (BT_MESH_NET_IVI_RX st rx) (cr_privacy cred);
           let out = nb_set_from 0 opdu out;
           (if err \<noteq> None then Some (False, rx, out)
            else
              (let rx = rx\<lparr>rx_ctx := (rx_ctx rx)\<lparr>ctx_addr := SRC (nb_from 0 out)\<rparr>\<rparr> in
               if \<not> BT_MESH_ADDR_IS_UNICAST (rx_addr rx) then Some (False, rx, out)
               else if ne_has_addr ne (rx_addr rx) then Some (False, rx, out)
               else if rx_net_if rx = BT_MESH_NET_IF_ADV \<and> msg_cache_match (nb_from 0 out) nl then Some (False, rx, out)
               else do {
                 (err, out) \<leftarrow> bt_mesh_net_decrypt (ne_cfg_proxy ne) (cr_enc cred) out (BT_MESH_NET_IVI_RX st rx) proxy;
                 Some (err = None, rx, out) })) }))"

definition bt_mesh_net_cred_find ::
  "net_env \<Rightarrow> net_layer \<Rightarrow> bt_mesh_net_rx \<Rightarrow> net_buf_simple \<Rightarrow> net_buf_simple \<Rightarrow>
   (bool \<times> bt_mesh_net_rx \<times> net_buf_simple) option" where
  "bt_mesh_net_cred_find ne nl rx inb out =
     cred_search (\<lambda>i (rx, out). (rx\<lparr>rx_sub := i\<rparr>, out))
       (\<lambda>i j friend (rx, out). (rx\<lparr>rx_new_key := (0 < j), rx_friend_cred := friend,
          rx_ctx := (rx_ctx rx)\<lparr>ctx_net_idx := sn_net_idx (ne_subnets ne ! i)\<rparr>\<rparr>, out))
       (\<lambda>cred (rx, out). net_decrypt ne nl rx inb out cred)
       (cred_attempts (ne_subnets ne) (ne_lpn_waiting ne) (ne_friends ne)) (rx, out)"

definition bt_mesh_net_header_parse :: "bt_mesh_net \<Rightarrow> bytes \<Rightarrow> bt_mesh_net_rx \<Rightarrow> bt_mesh_net_rx" where
  "bt_mesh_net_header_parse st pdu rx =
     rx\<lparr>rx_old_iv := pdu_old_iv st pdu, rx_ctl := CTL pdu \<noteq> 0, rx_seq := SEQ pdu,
        rx_ctx := (rx_ctx rx)\<lparr>ctx_recv_ttl := TTL pdu, ctx_addr := SRC pdu, ctx_recv_dst := DST pdu\<rparr>\<rparr>"

definition bt_mesh_net_decode ::
  "net_env \<Rightarrow> net_buf_simple \<Rightarrow> bt_mesh_net_if \<Rightarrow> bt_mesh_net_rx \<Rightarrow> net_buf_simple \<Rightarrow> net_layer \<Rightarrow>
   (errno option \<times> bt_mesh_net_rx \<times> net_buf_simple \<times> net_layer) option" where
  "bt_mesh_net_decode ne inb net_if rx out nl =
     (if nb_len inb < BT_MESH_NET_MIN_PDU_LEN then Some (Some EINVAL, rx, out, nl)
      else if BT_MESH_NET_MAX_PDU_LEN < nb_len inb then Some (Some EINVAL, rx, out, nl)
      else
        (let (dup, nl) = (if net_if = BT_MESH_NET_IF_ADV then check_dup inb nl else (False, nl)) in
         if dup then Some (Some EINVAL, rx, out, nl)
         else do {
           (found, rx, out) \<leftarrow> bt_mesh_net_cred_find ne nl (rx\<lparr>rx_net_if := net_if\<rparr>) inb out;
           (if \<not> found then Some (Some ENOENT, rx, out, nl)
            else
              (let pdu = nb_from 0 out;
                   ctx = (rx_ctx rx)\<lparr>ctx_app_idx := BT_MESH_KEY_UNUSED, ctx_recv_ttl := TTL pdu,
                           ctx_send_ttl := (if TTL pdu = 0 then 0 else BT_MESH_TTL_DEFAULT), ctx_recv_dst := DST pdu\<rparr>;
                   rx = rx\<lparr>rx_ctx := ctx, rx_ctl := CTL pdu \<noteq> 0, rx_seq := SEQ pdu\<rparr>
               in if net_if \<noteq> BT_MESH_NET_IF_PROXY_CFG \<and> ctx_recv_dst ctx = BT_MESH_ADDR_UNASSIGNED
                  then Some (Some EBADMSG, rx, out, nl)
                  else (let (rx, nl) = msg_cache_add rx nl in Some (None, rx, out, nl)))) }))"

section \<open>Relaying and reception\<close>

definition relay_to_adv :: "net_env \<Rightarrow> bt_mesh_net_if \<Rightarrow> bool" where
  "relay_to_adv ne net_if =
     (case net_if of
        BT_MESH_NET_IF_ADV \<Rightarrow> ne_relay_enabled ne
      | BT_MESH_NET_IF_PROXY \<Rightarrow> ne_gatt_proxy ne = BT_MESH_FEATURE_ENABLED
      | _ \<Rightarrow> False)"

definition bt_mesh_net_relay ::
  "mesh_cfg \<Rightarrow> net_env \<Rightarrow> net_buf_simple \<Rightarrow> bt_mesh_net_rx \<Rightarrow> net_layer \<Rightarrow> net_layer option" where
  "bt_mesh_net_relay cfg ne sbuf rx nl =
     (let ttl = ctx_recv_ttl (rx_ctx rx) in
      if ttl \<le> 1 then Some nl
      else if rx_net_if rx = BT_MESH_NET_IF_ADV \<and> \<not> rx_friend_cred rx \<and> \<not> ne_relay_enabled ne \<and>
        ne_gatt_proxy ne \<noteq> BT_MESH_FEATURE_ENABLED then Some nl
      else
        (case ne_adv_buf ne of None \<Rightarrow> Some nl
         | Some buf \<Rightarrow>
            (let sbuf = nb_write (nb_data sbuf + 1) [((nb_from 0 sbuf ! 1) AND 0x80) OR (ttl - 1)] sbuf;
                 sub = ne_subnets ne ! rx_sub rx;
                 cred = sk_msg (sn_keys sub ! SUBNET_KEY_TX_IDX sub)
             in do {
               buf \<leftarrow> net_buf_simple_add_mem (nb_bytes sbuf) buf;
               let buf = (if rx_friend_cred rx
                          then nb_write (nb_data buf) [((nb_from 0 buf ! 0) AND 0x80) OR cr_nid cred] buf else buf);
               (err, buf) \<leftarrow> net_encrypt ne buf cred (BT_MESH_NET_IVI_RX (nl_net nl) rx) False;
               (if err \<noteq> None then Some nl
                else
                  (let nl = (if cfg_gatt_proxy cfg \<and> (rx_friend_cred rx \<or> ne_gatt_proxy ne = BT_MESH_FEATURE_ENABLED)
                             then net_output (Proxy_relay (nb_bytes buf) (ctx_recv_dst (rx_ctx rx))) nl else nl)
                   in if relay_to_adv ne (rx_net_if rx) \<or> rx_friend_cred rx
                      then Some (net_output (Adv_send (nb_bytes buf)) nl) else Some nl)) })))"

text \<open>
  Reception.  \<open>rx0\<close> is the zero-initialised context with the signal strength; \<open>buf\<close> is the
  local buffer of the largest PDU size.
\<close>

definition net_rx_init :: "u8 \<Rightarrow> bt_mesh_net_rx" where
  "net_rx_init rssi = \<lparr>rx_sub = 0,
     rx_ctx = \<lparr>ctx_net_idx = 0, ctx_app_idx = 0, ctx_addr = 0, ctx_recv_dst = 0, ctx_recv_rssi = rssi, ctx_recv_ttl = 0,
       ctx_send_rel = False, ctx_send_ttl = 0\<rparr>,
     rx_seq = 0, rx_old_iv = False, rx_new_key = False, rx_friend_cred = False, rx_ctl = False,
     rx_net_if = BT_MESH_NET_IF_ADV, rx_local_match = False, rx_friend_match = False, rx_msg_cache_idx = 0\<rparr>"

definition net_rx_buf :: net_buf_simple where
  "net_rx_buf = \<lparr>nb_data = 0, nb_len = 0, nb_size = BT_MESH_NET_MAX_PDU_LEN, nb_buf = replicate BT_MESH_NET_MAX_PDU_LEN 0\<rparr>"

definition msg_cache_rewind :: "bt_mesh_net_rx \<Rightarrow> net_layer \<Rightarrow> net_layer" where
  "msg_cache_rewind rx nl =
     (let i = unat (rx_msg_cache_idx rx) in
      nl\<lparr>nl_msg_cache := (nl_msg_cache nl)[i := (nl_msg_cache nl ! i)\<lparr>mc_src := 0\<rparr>], nl_msg_cache_next := i\<rparr>)"

text \<open>The transport layer's turn, and relaying.\<close>

definition net_recv_deliver ::
  "mesh_cfg \<Rightarrow> net_env \<Rightarrow> net_buf_simple \<Rightarrow> bt_mesh_net_rx \<Rightarrow> net_layer \<Rightarrow> net_layer option" where
  "net_recv_deliver cfg ne buf rx nl =
     (let nl = net_output (Trans_recv (nb_bytes buf) rx) nl;
          r = ne_trans_recv ne (nb_bytes buf) rx;
          rx = snd r;
          nl = (if fst r = Some EAGAIN then msg_cache_rewind rx nl else nl)
      in if \<not> BT_MESH_ADDR_IS_UNICAST (ctx_recv_dst (rx_ctx rx)) \<or> (\<not> rx_local_match rx \<and> \<not> rx_friend_match rx)
         then bt_mesh_net_relay cfg ne buf rx nl
         else Some nl)"

definition bt_mesh_net_recv ::
  "mesh_cfg \<Rightarrow> net_env \<Rightarrow> net_buf_simple \<Rightarrow> u8 \<Rightarrow> bt_mesh_net_if \<Rightarrow> net_layer \<Rightarrow> net_layer option" where
  "bt_mesh_net_recv cfg ne dat rssi net_if nl =
     (if \<not> bm_valid (nl_net nl) then Some nl
      else do {
        (err, rx, buf, nl) \<leftarrow> bt_mesh_net_decode ne dat net_if (net_rx_init rssi) net_rx_buf nl;
        (if err \<noteq> None then Some nl
         else
           (let rx = rx\<lparr>rx_local_match := ne_fixed_group ne (ctx_recv_dst (rx_ctx rx)) \<or> ne_has_addr ne (ctx_recv_dst (rx_ctx rx))\<rparr>;
                proxied = (cfg_gatt_proxy cfg \<and> net_if = BT_MESH_NET_IF_PROXY);
                nl = (if proxied then net_output (Proxy_addr_add (rx_addr rx)) nl else nl)
            in if proxied \<and> ne_gatt_proxy ne = BT_MESH_FEATURE_DISABLED \<and> \<not> rx_local_match rx then Some nl
               else net_recv_deliver cfg ne buf rx nl)) })"

text \<open>The work handler of the loopback queue: every queued PDU goes to the transport layer.\<close>

definition net_local_rx :: "net_env \<Rightarrow> bt_mesh_net \<Rightarrow> nat \<times> bytes \<Rightarrow> bt_mesh_net_rx" where
  "net_local_rx ne st e =
     (let sub = ne_subnets ne ! fst e; pdu = snd e in
      \<lparr>rx_sub = fst e,
       rx_ctx = \<lparr>ctx_net_idx = sn_net_idx sub, ctx_app_idx = BT_MESH_KEY_UNUSED, ctx_addr = SRC pdu, ctx_recv_dst = DST pdu,
         ctx_recv_rssi = 0, ctx_recv_ttl = TTL pdu, ctx_send_rel = False, ctx_send_ttl = 1\<rparr>,
       rx_seq = SEQ pdu, rx_old_iv = pdu_old_iv st pdu, rx_new_key = (SUBNET_KEY_TX_IDX sub = 1), rx_friend_cred = False,
       rx_ctl = CTL pdu \<noteq> 0, rx_net_if = BT_MESH_NET_IF_LOCAL, rx_local_match = True, rx_friend_match = False,
       rx_msg_cache_idx = 0\<rparr>)"

definition bt_mesh_net_local :: "net_env \<Rightarrow> net_layer \<Rightarrow> net_layer" where
  "bt_mesh_net_local ne nl =
     foldl (\<lambda>nl e. net_output (Trans_recv (snd e) (net_local_rx ne (nl_net nl) e)) nl)
       (nl\<lparr>nl_local_queue := []\<rparr>) (nl_local_queue nl)"

end
