(* ===== verification/Mesh_Net_Cache.thy ===== *)
theory Mesh_Net_Cache
  imports Mesh_Net
begin

text \<open>
  The duplicate caches of \<open>core/src/mesh/net.c\<close>.  Both are arrays written round robin at a
  next index; the locale \<open>recent_cache\<close> states that much and shows that an entry survives
  fewer further writes than the array has slots.  It is interpreted on the cache of PDU
  hashes and on the cache of source and sequence numbers, and the reception of a PDU is
  shown to write each at most once.
\<close>

section \<open>Arrays written round robin\<close>

locale recent_cache =
  fixes slots :: "'s \<Rightarrow> 'e list" and nxt :: "'s \<Rightarrow> nat" and put :: "'e \<Rightarrow> 's \<Rightarrow> 's"
  assumes slots_put: "slots (put e s) = (slots s)[nxt s := e]"
    and nxt_put: "nxt (put e s) = (nxt s + 1) mod length (slots s)"
begin

definition kept_or_put :: "'s \<Rightarrow> 's \<Rightarrow> bool" where
  "kept_or_put s s' \<longleftrightarrow>
     slots s' = slots s \<and> nxt s' = nxt s \<or>
     (\<exists>e. slots s' = slots (put e s) \<and> nxt s' = nxt (put e s))"

lemma kept_or_put_slots: "kept_or_put s s' \<Longrightarrow> length (slots s') = length (slots s)"
  by (auto simp: kept_or_put_def slots_put)

lemma kept_or_put_nxt: "kept_or_put s s' \<Longrightarrow> nxt s < length (slots s) \<Longrightarrow> nxt s' < length (slots s')"
proof -
  assume step: "kept_or_put s s'" and "nxt s < length (slots s)"
  then have "0 < length (slots s)" "nxt s < length (slots s)" by linarith+
  with step mod_less_divisor [OF this(1), of "nxt s + 1"] show ?thesis by (auto simp: kept_or_put_def slots_put nxt_put)
qed

text \<open>\<open>k\<close> counts the writes since the slot \<open>p\<close> was written.\<close>

lemma slot_survives:
  assumes "p < length (slots s)" "nxt s = (p + 1 + k) mod length (slots s)" "k + 1 < length (slots s)"
    and "kept_or_put s s'"
  shows "slots s' ! p = slots s ! p \<and> (\<exists>k' \<le> k + 1. nxt s' = (p + 1 + k') mod length (slots s'))"
proof -
  have "nxt s \<noteq> p"
  proof (cases "p + 1 + k < length (slots s)")
    case False
    then have "nxt s = p + 1 + k - length (slots s)"
      using assms(1-3) by (simp add: mod_if)
    then show ?thesis using assms(3) False by simp
  qed (use assms(2) in simp)
  moreover have "(nxt s + 1) mod length (slots s) = (p + 1 + (k + 1)) mod length (slots s)"
    using assms(2) by (simp add: mod_Suc_eq)
  ultimately have "slots s' ! p = slots s ! p"
      "nxt s' = (p + 1 + k) mod length (slots s') \<or> nxt s' = (p + 1 + (k + 1)) mod length (slots s')"
    using assms(2,4) unfolding kept_or_put_def by (auto simp: slots_put nxt_put)
  then show ?thesis by (meson le_add1 order_refl)
qed

lemma survives_steps:
  assumes "p < length (slots s)" "nxt s = (p + 1 + k) mod length (slots s)"
    and "k + length ss < length (slots s)" "\<forall>i < length ss. kept_or_put ((s # ss) ! i) (ss ! i)"
  shows "slots (last (s # ss)) ! p = slots s ! p \<and> length (slots (last (s # ss))) = length (slots s)"
  using assms
proof (induction ss arbitrary: s k)
  case (Cons s' ss)
  have step: "kept_or_put s s'" using Cons.prems(4) by force
  obtain k' where k': "k' \<le> k + 1" "nxt s' = (p + 1 + k') mod length (slots s')" "slots s' ! p = slots s ! p"
    using slot_survives [OF Cons.prems(1,2) _ step] Cons.prems(3) by auto
  have rest: "\<forall>i < length ss. kept_or_put ((s' # ss) ! i) (ss ! i)"
    using Cons.prems(4) by (metis Suc_less_eq length_Cons nth_Cons_Suc)
  note len = kept_or_put_slots [OF step]
  have "slots (last (s' # ss)) ! p = slots s' ! p \<and> length (slots (last (s' # ss))) = length (slots s')"
    by (rule Cons.IH [OF _ k'(2) _ rest]) (use Cons.prems(1,3) k'(1) len in auto)
  then show ?case using k'(3) len by simp
qed simp

text \<open>A written entry is still there after fewer steps than there are slots.\<close>

lemma recent:
  assumes "nxt s < length (slots s)" "slots s' = slots (put e s)" "nxt s' = nxt (put e s)"
    and "length ss < length (slots s)" "\<forall>i < length ss. kept_or_put ((s' # ss) ! i) (ss ! i)"
  shows "e \<in> set (slots (last (s' # ss)))"
proof -
  have "slots (last (s' # ss)) ! nxt s = slots s' ! nxt s \<and> length (slots (last (s' # ss))) = length (slots s')"
    by (rule survives_steps [where k = 0]) (use assms in \<open>auto simp: slots_put nxt_put\<close>)
  then show ?thesis
    using assms(1,2) by (metis length_list_update nth_list_update_eq nth_mem slots_put)
qed

end

interpretation dup_cache: recent_cache nl_dup_cache nl_dup_cache_next dup_cache_put
  by unfold_locales (simp_all add: dup_cache_put_def)

interpretation msg_cache: recent_cache nl_msg_cache nl_msg_cache_next msg_cache_put
  by unfold_locales (simp_all add: msg_cache_put_def)

section \<open>What the operations leave alone\<close>

lemma net_output_fields [simp]:
  "nl_net (net_output x nl) = nl_net nl" "nl_dup_cache (net_output x nl) = nl_dup_cache nl"
  "nl_dup_cache_next (net_output x nl) = nl_dup_cache_next nl" "nl_msg_cache (net_output x nl) = nl_msg_cache nl"
  "nl_msg_cache_next (net_output x nl) = nl_msg_cache_next nl" "nl_local_queue (net_output x nl) = nl_local_queue nl"
  "nl_out (net_output x nl) = nl_out nl @ [x]"
  by (simp_all add: net_output_def)

lemma put_fields [simp]:
  "nl_net (dup_cache_put v nl) = nl_net nl" "nl_net (msg_cache_put e nl) = nl_net nl"
  "nl_msg_cache (dup_cache_put v nl) = nl_msg_cache nl" "nl_msg_cache_next (dup_cache_put v nl) = nl_msg_cache_next nl"
  "nl_dup_cache (msg_cache_put e nl) = nl_dup_cache nl" "nl_dup_cache_next (msg_cache_put e nl) = nl_dup_cache_next nl"
  "nl_out (dup_cache_put v nl) = nl_out nl" "nl_out (msg_cache_put e nl) = nl_out nl"
  "nl_local_queue (dup_cache_put v nl) = nl_local_queue nl" "nl_local_queue (msg_cache_put e nl) = nl_local_queue nl"
  by (simp_all add: dup_cache_put_def msg_cache_put_def)

text \<open>Relaying only adds to what is sent.\<close>

definition sent_more :: "net_layer \<Rightarrow> net_layer \<Rightarrow> bool" where
  "sent_more nl nl' \<longleftrightarrow> (\<exists>outs. nl' = nl\<lparr>nl_out := nl_out nl @ outs\<rparr>)"

lemma sent_more_refl: "sent_more nl nl"
  unfolding sent_more_def by (rule exI [of _ "[]"]) simp

lemma sent_more_output: "sent_more nl nl' \<Longrightarrow> sent_more nl (net_output x nl')"
  unfolding sent_more_def net_output_def by auto

lemma sent_more_fields:
  "sent_more nl nl' \<Longrightarrow> nl_net nl' = nl_net nl \<and> nl_dup_cache nl' = nl_dup_cache nl \<and>
    nl_dup_cache_next nl' = nl_dup_cache_next nl \<and> nl_msg_cache nl' = nl_msg_cache nl \<and>
    nl_msg_cache_next nl' = nl_msg_cache_next nl \<and> nl_local_queue nl' = nl_local_queue nl"
  unfolding sent_more_def by auto

lemma relay_sends:
  assumes "bt_mesh_net_relay cfg ne sbuf rx nl = Some nl'"
  shows "sent_more nl nl'"
proof (cases "nl' = nl")
  case False
  with assms have "\<exists>x y. nl' = net_output x nl \<or> nl' = net_output y (net_output x nl)"
    unfolding bt_mesh_net_relay_def Let_def by (auto simp: bind_eq_Some_conv split: if_splits option.splits)
  then show ?thesis using sent_more_refl sent_more_output by metis
qed (simp add: sent_more_refl)

lemma decode_effect:
  assumes "bt_mesh_net_decode ne inb net_if rx out nl = Some (err, rx', out', nl')"
  defines "nl1 \<equiv> (if net_if = BT_MESH_NET_IF_ADV \<and> BT_MESH_NET_MIN_PDU_LEN \<le> nb_len inb \<and>
      nb_len inb \<le> BT_MESH_NET_MAX_PDU_LEN then snd (check_dup inb nl) else nl)"
  shows "nl' = nl1 \<and> err \<noteq> None \<or> (\<exists>e. nl' = msg_cache_put e nl1) \<and> err = None"
  using assms(1) unfolding nl1_def
  by (auto simp: bt_mesh_net_decode_def Let_def bind_eq_Some_conv msg_cache_add_def
      split: if_splits prod.splits)

lemma check_dup_effect: "snd (check_dup dat nl) = nl \<or> snd (check_dup dat nl) = dup_cache_put (dup_value dat) nl"
  by (simp add: check_dup_def Let_def)

lemma deliver_effect:
  assumes "net_recv_deliver cfg ne buf rx nl = Some nl'"
  shows "nl_net nl' = nl_net nl \<and> nl_dup_cache nl' = nl_dup_cache nl \<and> nl_dup_cache_next nl' = nl_dup_cache_next nl"
    and "fst (ne_trans_recv ne (nb_bytes buf) rx) \<noteq> Some EAGAIN \<Longrightarrow>
      nl_msg_cache nl' = nl_msg_cache nl \<and> nl_msg_cache_next nl' = nl_msg_cache_next nl"
  using assms unfolding net_recv_deliver_def Let_def
  by (auto simp: msg_cache_rewind_def Let_def dest!: relay_sends sent_more_fields split: if_splits)

text \<open>What is left of a reception after decoding: nothing, or the delivery of the PDU.\<close>

lemma recv_after_decode:
  assumes "bm_valid (nl_net nl)"
    and "bt_mesh_net_decode ne dat net_if (net_rx_init rssi) net_rx_buf nl = Some (err, rx, buf, nl1)"
  shows "\<exists>nl2 m. sent_more nl1 nl2 \<and> (bt_mesh_net_recv cfg ne dat rssi net_if nl = Some nl2 \<or>
    err = None \<and> bt_mesh_net_recv cfg ne dat rssi net_if nl = net_recv_deliver cfg ne buf (rx\<lparr>rx_local_match := m\<rparr>) nl2)"
proof -
  let ?recv = "bt_mesh_net_recv cfg ne dat rssi net_if nl"
  let ?m = "ne_fixed_group ne (ctx_recv_dst (rx_ctx rx)) \<or> ne_has_addr ne (ctx_recv_dst (rx_ctx rx))"
  define nl2 where "nl2 = (if cfg_gatt_proxy cfg \<and> net_if = BT_MESH_NET_IF_PROXY
      then net_output (Proxy_addr_add (rx_addr rx)) nl1 else nl1)"
  have more: "sent_more nl1 nl2" by (simp add: nl2_def sent_more_refl sent_more_output)
  have "?recv = (if err \<noteq> None then Some nl1
      else if cfg_gatt_proxy cfg \<and> net_if = BT_MESH_NET_IF_PROXY \<and> ne_gatt_proxy ne = BT_MESH_FEATURE_DISABLED \<and> \<not> ?m then Some nl2
      else net_recv_deliver cfg ne buf (rx\<lparr>rx_local_match := ?m\<rparr>) nl2)"
    using assms unfolding bt_mesh_net_recv_def nl2_def Let_def by simp
  then show ?thesis using more sent_more_refl [of nl1] by (metis (full_types))
qed

lemma recv_result:
  assumes "bm_valid (nl_net nl)" "bt_mesh_net_recv cfg ne dat rssi net_if nl = Some nl'"
    and "bt_mesh_net_decode ne dat net_if (net_rx_init rssi) net_rx_buf nl = Some (err, rx, buf, nl1)"
  shows "\<exists>nl2 m. sent_more nl1 nl2 \<and> (nl' = nl2 \<or> net_recv_deliver cfg ne buf (rx\<lparr>rx_local_match := m\<rparr>) nl2 = Some nl')"
  using recv_after_decode [OF assms(1,3), of cfg] assms(2) by (metis option.inject)

lemma recv_effect:
  assumes "bt_mesh_net_recv cfg ne dat rssi net_if nl = Some nl'"
  defines "nl1 \<equiv> (if bm_valid (nl_net nl) \<and> net_if = BT_MESH_NET_IF_ADV \<and> BT_MESH_NET_MIN_PDU_LEN \<le> nb_len dat \<and>
      nb_len dat \<le> BT_MESH_NET_MAX_PDU_LEN then snd (check_dup dat nl) else nl)"
  shows "nl_net nl' = nl_net nl \<and> nl_dup_cache nl' = nl_dup_cache nl1 \<and> nl_dup_cache_next nl' = nl_dup_cache_next nl1"
proof (cases "bm_valid (nl_net nl)")
  case True
  obtain err rx buf nl2 where dec: "bt_mesh_net_decode ne dat net_if (net_rx_init rssi) net_rx_buf nl = Some (err, rx, buf, nl2)"
    using assms(1) True by (auto simp: bt_mesh_net_recv_def bind_eq_Some_conv)
  have same: "nl_net nl2 = nl_net nl1" "nl_dup_cache nl2 = nl_dup_cache nl1" "nl_dup_cache_next nl2 = nl_dup_cache_next nl1"
    using decode_effect [OF dec] True unfolding nl1_def by auto
  from recv_result [OF True assms(1) dec] obtain nl3 m
    where "sent_more nl2 nl3 \<and> (nl' = nl3 \<or> net_recv_deliver cfg ne buf (rx\<lparr>rx_local_match := m\<rparr>) nl3 = Some nl')"
    by (elim exE)
  then have "nl_net nl' = nl_net nl2 \<and> nl_dup_cache nl' = nl_dup_cache nl2 \<and> nl_dup_cache_next nl' = nl_dup_cache_next nl2"
    by (auto dest!: sent_more_fields deliver_effect(1))
  moreover have "nl_net nl1 = nl_net nl" unfolding nl1_def by (auto simp: check_dup_def Let_def)
  ultimately show ?thesis using same by simp
qed (use assms in \<open>simp add: bt_mesh_net_recv_def\<close>)

lemma recv_msg_step:
  assumes "bt_mesh_net_recv cfg ne dat rssi net_if nl = Some nl'" "\<And>p rx. fst (ne_trans_recv ne p rx) \<noteq> Some EAGAIN"
  shows "msg_cache.kept_or_put nl nl'"
proof (cases "bm_valid (nl_net nl)")
  case True
  obtain err rx buf nl2 where dec: "bt_mesh_net_decode ne dat net_if (net_rx_init rssi) net_rx_buf nl = Some (err, rx, buf, nl2)"
    using assms(1) True by (auto simp: bt_mesh_net_recv_def bind_eq_Some_conv)
  have "msg_cache.kept_or_put nl nl2"
    using decode_effect [OF dec] unfolding msg_cache.kept_or_put_def
    by (auto simp: check_dup_def Let_def msg_cache_put_def split: if_splits)
  moreover from recv_result [OF True assms(1) dec] obtain nl3 m
    where "sent_more nl2 nl3 \<and> (nl' = nl3 \<or> net_recv_deliver cfg ne buf (rx\<lparr>rx_local_match := m\<rparr>) nl3 = Some nl')"
    by (elim exE)
  then have "nl_msg_cache nl' = nl_msg_cache nl2 \<and> nl_msg_cache_next nl' = nl_msg_cache_next nl2"
    by (auto dest!: sent_more_fields deliver_effect(2) [OF _ assms(2)])
  ultimately show ?thesis by (simp add: msg_cache.kept_or_put_def)
qed (use assms in \<open>simp add: bt_mesh_net_recv_def msg_cache.kept_or_put_def\<close>)

section \<open>Sequences of receptions\<close>

text \<open>
  A reception: the environment at that time, the received bytes, their signal strength and
  the interface.
\<close>

type_synonym reception = "net_env \<times> net_buf_simple \<times> u8 \<times> bt_mesh_net_if"

fun net_receptions :: "mesh_cfg \<Rightarrow> reception list \<Rightarrow> net_layer \<Rightarrow> net_layer option" where
  "net_receptions cfg [] nl = Some nl"
| "net_receptions cfg ((ne, dat, rssi, net_if) # rs) nl =
     do { nl \<leftarrow> bt_mesh_net_recv cfg ne dat rssi net_if nl; net_receptions cfg rs nl }"

lemma receptions_states:
  assumes "net_receptions cfg rs nl = Some nl'"
    and "\<And>ne dat rssi net_if nl nl'. (ne, dat, rssi, net_if) \<in> set rs \<Longrightarrow>
      bt_mesh_net_recv cfg ne dat rssi net_if nl = Some nl' \<Longrightarrow> R nl nl'"
  shows "\<exists>ss. length ss = length rs \<and> last (nl # ss) = nl' \<and> (\<forall>i < length ss. R ((nl # ss) ! i) (ss ! i))"
  using assms
proof (induction rs arbitrary: nl)
  case (Cons r rs)
  obtain ne dat rssi net_if where r: "r = (ne, dat, rssi, net_if)" by (cases r) auto
  obtain nl1 where nl1: "bt_mesh_net_recv cfg ne dat rssi net_if nl = Some nl1" "net_receptions cfg rs nl1 = Some nl'"
    using Cons.prems(1) unfolding r by (auto simp: bind_eq_Some_conv)
  obtain ss where ss: "length ss = length rs" "last (nl1 # ss) = nl'" "\<forall>i < length ss. R ((nl1 # ss) ! i) (ss ! i)"
    using Cons.IH [OF nl1(2)] Cons.prems(2) by force
  have "R nl nl1" using Cons.prems(2) [OF _ nl1(1)] unfolding r by simp
  then have "\<forall>i < length (nl1 # ss). R ((nl # nl1 # ss) ! i) ((nl1 # ss) ! i)"
    using ss(3) by (auto simp: nth_Cons split: nat.splits)
  then show ?case using ss(1,2) by (intro exI [of _ "nl1 # ss"]) auto
qed auto

lemma receptions_net: "net_receptions cfg rs nl = Some nl' \<Longrightarrow> nl_net nl' = nl_net nl"
  by (induction cfg rs nl rule: net_receptions.induct) (auto simp: bind_eq_Some_conv dest: recv_effect)

lemma recv_dup_step:
  assumes "bt_mesh_net_recv cfg ne dat rssi net_if nl = Some nl'"
  shows "dup_cache.kept_or_put nl nl'"
  using recv_effect [OF assms] unfolding dup_cache.kept_or_put_def
  by (auto simp: check_dup_def Let_def split: if_splits)

text \<open>
  A PDU received on the advertising bearer that was not a duplicate is ignored when it is
  received there again after fewer other receptions than the cache has entries, whatever the
  layers above made of it: nothing is delivered, relayed or changed.
\<close>

theorem recv_duplicate_ignored:
  assumes "bm_valid (nl_net nl)" "nl_dup_cache_next nl < length (nl_dup_cache nl)"
    and "BT_MESH_NET_MIN_PDU_LEN \<le> nb_len dat" "nb_len dat \<le> BT_MESH_NET_MAX_PDU_LEN" "\<not> fst (check_dup dat nl)"
    and "bt_mesh_net_recv cfg ne dat rssi BT_MESH_NET_IF_ADV nl = Some nl1"
    and "net_receptions cfg rs nl1 = Some nl2" "length rs < length (nl_dup_cache nl)"
  shows "bt_mesh_net_recv cfg ne' dat rssi' BT_MESH_NET_IF_ADV nl2 = Some nl2"
proof -
  obtain ss where ss: "length ss = length rs" "last (nl1 # ss) = nl2"
      "\<forall>i < length ss. dup_cache.kept_or_put ((nl1 # ss) ! i) (ss ! i)"
    using receptions_states [where R = dup_cache.kept_or_put, OF assms(7)] recv_dup_step by blast
  have put: "nl_dup_cache nl1 = nl_dup_cache (dup_cache_put (dup_value dat) nl)"
      "nl_dup_cache_next nl1 = nl_dup_cache_next (dup_cache_put (dup_value dat) nl)"
    using recv_effect [OF assms(6)] assms(1-5) by (auto simp: check_dup_def Let_def split: if_splits)
  have "dup_value dat \<in> set (nl_dup_cache nl2)"
    using dup_cache.recent [OF assms(2) put _ ss(3)] ss(1,2) assms(8) by simp
  then have "check_dup dat nl2 = (True, nl2)" by (simp add: check_dup_def)
  moreover have "bm_valid (nl_net nl2)"
    using assms(1) recv_effect [OF assms(6)] receptions_net [OF assms(7)] by simp
  ultimately show ?thesis using assms(3,4) by (simp add: bt_mesh_net_recv_def bt_mesh_net_decode_def)
qed

definition cache_env :: net_env where
  "cache_env = \<lparr>ne_iv = env_example, ne_cfg_proxy = True, ne_has_addr = (\<lambda>a. a = 7), ne_fixed_group = (\<lambda>a. a = 0xffff),
     ne_relay_enabled = True, ne_gatt_proxy = BT_MESH_FEATURE_DISABLED, ne_subnets = [], ne_lpn_waiting = None,
     ne_lpn_frnd = None, ne_friends = [], ne_loopback_buf = True, ne_adv_buf = None,
     ne_proxy_relay = (\<lambda>_ _. False), ne_trans_recv = (\<lambda>_ rx. (Some EAGAIN, rx))\<rparr>"

definition cache_layer :: net_layer where
  "cache_layer = \<lparr>nl_net = node_example, nl_msg_cache = replicate 4 \<lparr>mc_src = 0, mc_seq = 0\<rparr>, nl_msg_cache_next = 0,
     nl_dup_cache = replicate 4 0, nl_dup_cache_next = 0, nl_local_queue = [], nl_out = []\<rparr>"

definition cache_pdu :: "u8 \<Rightarrow> net_buf_simple" where
  "cache_pdu v = \<lparr>nb_data = 0, nb_len = 20, nb_size = 29, nb_buf = replicate 16 0 @ replicate 13 v\<rparr>"

theorem recv_duplicate_ignored_witness:
  "\<exists>nl1 nl2. bm_valid (nl_net cache_layer) \<and> nl_dup_cache_next cache_layer < length (nl_dup_cache cache_layer) \<and>
    BT_MESH_NET_MIN_PDU_LEN \<le> nb_len (cache_pdu 1) \<and> nb_len (cache_pdu 1) \<le> BT_MESH_NET_MAX_PDU_LEN \<and>
    \<not> fst (check_dup (cache_pdu 1) cache_layer) \<and>
    bt_mesh_net_recv cfg_example cache_env (cache_pdu 1) 0 BT_MESH_NET_IF_ADV cache_layer = Some nl1 \<and>
    net_receptions cfg_example [(cache_env, cache_pdu 2, 0, BT_MESH_NET_IF_ADV)] nl1 = Some nl2 \<and>
    bt_mesh_net_recv cfg_example cache_env (cache_pdu 1) 0 BT_MESH_NET_IF_ADV nl2 = Some nl2"
proof -
  have h: "bm_valid (nl_net cache_layer)" "nl_dup_cache_next cache_layer < length (nl_dup_cache cache_layer)"
      "BT_MESH_NET_MIN_PDU_LEN \<le> nb_len (cache_pdu 1)" "nb_len (cache_pdu 1) \<le> BT_MESH_NET_MAX_PDU_LEN"
      "length [(cache_env, cache_pdu 2, 0 :: u8, BT_MESH_NET_IF_ADV)] < length (nl_dup_cache cache_layer)"
    by (simp_all add: cache_layer_def node_example_def cache_pdu_def BT_MESH_NET_MIN_PDU_LEN_def BT_MESH_NET_MAX_PDU_LEN_def
        BT_MESH_NET_HDR_LEN_def)
  have dup: "\<not> fst (check_dup (cache_pdu 1) cache_layer)" by code_simp
  have none: "\<exists>nl'. bt_mesh_net_recv cfg_example cache_env dat 0 net_if nl = Some nl'" for dat net_if nl
    by (auto simp: bt_mesh_net_recv_def bt_mesh_net_decode_def bt_mesh_net_cred_find_def cred_attempts_def cache_env_def
        Let_def split: prod.splits)
  obtain nl1 where nl1: "bt_mesh_net_recv cfg_example cache_env (cache_pdu 1) 0 BT_MESH_NET_IF_ADV cache_layer = Some nl1"
    using none by blast
  obtain nl2 where nl2: "net_receptions cfg_example [(cache_env, cache_pdu 2, 0, BT_MESH_NET_IF_ADV)] nl1 = Some nl2"
    using none [of "cache_pdu 2" BT_MESH_NET_IF_ADV nl1] by auto
  note t = recv_duplicate_ignored [OF h(1-4) dup nl1 nl2 h(5), of cache_env 0]
  show ?thesis using h dup nl1 nl2 t by blast
qed

end
