(* ===== verification/Mesh_Net_Rx.thy ===== *)
theory Mesh_Net_Rx
  imports Mesh_Net_Cache
begin

text \<open>
  Encoding, decoding, reception and relaying in the network layer (\<open>core/src/mesh/net.c\<close>):
  the search for credentials, that reception never fails an assertion, what is accepted at
  most once, and that a PDU encoded by one node is decoded by another.
\<close>

section \<open>The search for credentials\<close>

lemma cred_search_outcome:
  assumes "\<And>i s. I s \<Longrightarrow> I (at_sub i s)"
    and "\<And>cred s hit s'. I s \<Longrightarrow> cb cred s = Some (hit, s') \<Longrightarrow> I s' \<and> (hit \<longrightarrow> Q s')"
    and "cred_search at_sub found cb as s = Some (hit, s')" "I s"
  shows "if hit then \<exists>i j f s1. s' = found i j f s1 \<and> I s1 \<and> Q s1 else I s'"
  using assms(3,4)
proof (induction as arbitrary: s)
  case (Cons a as)
  obtain i j f cred where a: "a = (i, j, f, cred)" by (cases a) auto
  obtain hit1 s1 where cb: "cb cred (at_sub i s) = Some (hit1, s1)"
    using Cons.prems(1) unfolding a by (auto simp: bind_eq_Some_conv)
  have I1: "I s1 \<and> (hit1 \<longrightarrow> Q s1)" using assms(2) [OF assms(1) [OF Cons.prems(2)] cb] .
  show ?case
  proof (cases hit1)
    case True
    then have "hit" "s' = found i j f s1" using Cons.prems(1) cb unfolding a by auto
    then show ?thesis using I1 True by auto
  next
    case False
    then have "cred_search at_sub found cb as s1 = Some (hit, s')" using Cons.prems(1) cb unfolding a by simp
    then show ?thesis using Cons.IH I1 by blast
  qed
qed simp

lemma cred_search_total:
  assumes "\<And>i s. I s \<Longrightarrow> I (at_sub i s)"
    and "\<And>cred s. I s \<Longrightarrow> \<exists>hit s'. cb cred s = Some (hit, s') \<and> I s'"
    and "I s"
  shows "\<exists>hit s'. cred_search at_sub found cb as s = Some (hit, s')"
  using assms(3)
proof (induction as arbitrary: s)
  case (Cons a as)
  obtain i j f cred where a: "a = (i, j, f, cred)" by (cases a) auto
  obtain hit s' where "cb cred (at_sub i s) = Some (hit, s')" "I s'"
    using assms(2) [OF assms(1) [OF Cons.prems]] by blast
  then show ?case using Cons.IH unfolding a by (cases hit) auto
qed auto

text \<open>The buffer a PDU is decrypted into.\<close>

definition out_ok :: "net_buf_simple \<Rightarrow> bool" where
  "out_ok out \<longleftrightarrow> wf_buf out \<and> nb_size out = BT_MESH_NET_MAX_PDU_LEN \<and> length (nb_buf out) = BT_MESH_NET_MAX_PDU_LEN"

lemma out_ok_copy:
  assumes "out_ok out" "length bs \<le> BT_MESH_NET_MAX_PDU_LEN"
  shows "\<exists>out'. net_buf_simple_add_mem bs (net_buf_simple_reset out) = Some out' \<and> out_ok out' \<and>
    nb_data out' = 0 \<and> nb_len out' = length bs \<and> nb_bytes out' = bs"
  using assms
  by (auto simp: out_ok_def nb_defs net_buf_simple_reset_def wf_buf_def nb_bytes_def mem_write_def
      BT_MESH_NET_MAX_PDU_LEN_def BT_MESH_NET_HDR_LEN_def)

lemma header_fields:
  assumes "take 7 p = take 7 q" "7 \<le> length p"
  shows "SRC p = SRC q" "SEQ p = SEQ q" "msg_cache_match p nl = msg_cache_match q nl" "NID p = NID q" "CTL p = CTL q"
    "TTL p = TTL q"
proof -
  have len: "7 \<le> length q" using assms by (metis length_take min.absorb_iff2 min_def nat_le_linear)
  have "take 2 (drop 5 p) = take 2 (drop 5 q)" "take 3 (drop 2 p) = take 3 (drop 2 q)"
    using arg_cong [OF assms(1), of "\<lambda>l. take 2 (drop 5 l)"] arg_cong [OF assms(1), of "\<lambda>l. take 3 (drop 2 l)"]
    by (simp_all add: drop_take min_def)
  then show "SRC p = SRC q" "SEQ p = SEQ q"
    using be16.get_take [of "drop 5 p"] be16.get_take [of "drop 5 q"] be24.get_take [of "drop 2 p"]
      be24.get_take [of "drop 2 q"] assms(2) len
    unfolding SRC_def SEQ_def by simp_all
  then show "msg_cache_match p nl = msg_cache_match q nl" by (simp add: msg_cache_match_def)
  have "p ! i = q ! i" if "i < 7" for i using assms(1) that by (metis nth_take)
  then show "NID p = NID q" "CTL p = CTL q" "TTL p = TTL q" by (simp_all add: NID_def CTL_def TTL_def)
qed

lemma mesh_decrypt_ok:
  assumes "out_ok out" "nb_data out = 0" "7 + NET_MIC_LEN (nb_from 0 out) \<le> nb_len out"
  shows "\<exists>err out'. bt_mesh_net_decrypt cfg key out iv proxy = Some (err, out') \<and> out_ok out' \<and> nb_data out' = 0 \<and>
    nb_len out' = nb_len out - NET_MIC_LEN (nb_from 0 out) \<and> take 7 (nb_from 0 out') = take 7 (nb_from 0 out)"
proof -
  define M where "M = NET_MIC_LEN (nb_from 0 out)"
  define nonce where "nonce = net_nonce cfg proxy (nb_from 0 out) iv"
  define c where "c = take (nb_len out - M - 7) (nb_from 7 out)"
  have l: "7 + M \<le> nb_len out" "nb_len out \<le> length (nb_buf out)" "nb_len out < 2 ^ 16" "M \<le> 16"
    using assms by (auto simp: out_ok_def wf_buf_def M_def BT_MESH_NET_MAX_PDU_LEN_def BT_MESH_NET_HDR_LEN_def)
  have lc: "length c = nb_len out - M - 7" using l assms(2) by (simp add: c_def nb_from_def)
  obtain err p where dec: "bt_ccm_decrypt key nonce (nb_from 7 out) (nb_len out - M - 7) [] 0 (nb_from 7 out) M =
      (err, p @ drop (length c) (nb_from 7 out))" "length p = length c"
    using bt_ccm_decrypt_open [of nonce "[]" M c "nb_from 7 out" "nb_from 7 out" key] lc l assms(2)
    by (simp add: ccm_args_def nonce_def nb_from_def Let_def, simp add: c_def nb_from_def)
  let ?m = "p @ drop (length c) (nb_from 7 out)"
  have "bt_mesh_net_decrypt cfg key out iv proxy = Some (err, nb_set_from 7 ?m (out\<lparr>nb_len := nb_len out - M\<rparr>))"
    using l dec unfolding bt_mesh_net_decrypt_def Let_def M_def [symmetric] nonce_def [symmetric] by simp
  moreover have "out_ok (nb_set_from 7 ?m (out\<lparr>nb_len := nb_len out - M\<rparr>))"
    using assms(1,2) l lc dec(2) by (auto simp: out_ok_def wf_buf_def nb_set_from_def nb_from_def)
  moreover have "take 7 (nb_from 0 (nb_set_from 7 ?m (out\<lparr>nb_len := nb_len out - M\<rparr>))) = take 7 (nb_from 0 out)"
    using nb_from_set(2) [of "out\<lparr>nb_len := nb_len out - M\<rparr>" 7 ?m] l assms(2) by simp
  ultimately show ?thesis using assms(2) by (simp add: M_def)
qed

text \<open>Decryption attempts never stop with an assertion, and what holds of the context after one.\<close>

definition rx_decrypted :: "net_env \<Rightarrow> net_layer \<Rightarrow> net_buf_simple \<Rightarrow> bt_mesh_net_rx \<Rightarrow> net_buf_simple \<Rightarrow> bool" where
  "rx_decrypted ne nl inb rx out \<longleftrightarrow>
     nb_data out = 0 \<and> nb_len out + NET_MIC_LEN (nb_from 0 out) = nb_len inb \<and>
     rx_addr rx = SRC (nb_from 0 out) \<and> BT_MESH_ADDR_IS_UNICAST (rx_addr rx) \<and> \<not> ne_has_addr ne (rx_addr rx) \<and>
     (rx_net_if rx = BT_MESH_NET_IF_ADV \<longrightarrow> \<not> msg_cache_match (nb_from 0 out) nl)"

lemma net_mic_bound: "NET_MIC_LEN p \<le> 8"
  by (simp add: NET_MIC_LEN_def)

lemma net_decrypt_ok:
  assumes "wf_buf inb" "BT_MESH_NET_MIN_PDU_LEN \<le> nb_len inb" "nb_len inb \<le> BT_MESH_NET_MAX_PDU_LEN" "out_ok out"
  shows "\<exists>hit rx' out'. net_decrypt ne nl rx inb out cred = Some (hit, rx', out') \<and> out_ok out' \<and>
    rx_net_if rx' = rx_net_if rx \<and> (hit \<longrightarrow> rx_decrypted ne nl inb rx' out')"
proof (cases "NID (nb_from 0 inb) \<noteq> cr_nid cred")
  case True
  then show ?thesis using assms by (auto simp: net_decrypt_def Let_def)
next
  case False
  have len: "18 \<le> nb_len inb"
    using assms(2) by (simp add: BT_MESH_NET_MIN_PDU_LEN_def BT_MESH_NET_HDR_LEN_def)
  obtain out1 where out1: "net_buf_simple_add_mem (nb_bytes inb) (net_buf_simple_reset out) = Some out1"
      "out_ok out1" "nb_data out1 = 0" "nb_len out1 = nb_len inb"
    using out_ok_copy [OF assms(4), of "nb_bytes inb"] assms(1,3) by auto
  define rx1 where "rx1 = rx\<lparr>rx_old_iv := pdu_old_iv (nl_net nl) (nb_from 0 inb)\<rparr>"
  define iv where "iv = BT_MESH_NET_IVI_RX (nl_net nl) rx1"
  obtain opdu where ob: "bt_mesh_net_obfuscate (nb_from 0 out1) iv (cr_privacy cred) = (None, opdu)"
    by (simp add: obfuscate_alt)
  have l1: "length (nb_from 0 out1) = length (nb_buf out1)" "nb_len inb \<le> length (nb_buf out1)"
    using out1 by (auto simp: nb_from_def out_ok_def wf_buf_def)
  have lo: "length opdu = length (nb_buf out1)"
    using obfuscate_twice [OF _ ob] l1 len by simp
  define out2 where "out2 = nb_set_from 0 opdu out1"
  have out2: "out_ok out2" "nb_data out2 = 0" "nb_len out2 = nb_len inb"
    using out1 lo by (auto simp: out2_def out_ok_def wf_buf_def nb_set_from_def)
  have mic: "7 + NET_MIC_LEN (nb_from 0 out2) \<le> nb_len out2"
    using len out2 net_mic_bound [of "nb_from 0 out2"] by linarith
  have l2: "7 \<le> length (nb_from 0 out2)" using out2 len by (auto simp: nb_from_def out_ok_def wf_buf_def)
  obtain err out3 where out3: "bt_mesh_net_decrypt (ne_cfg_proxy ne) (cr_enc cred) out2 iv
        (rx_net_if rx = BT_MESH_NET_IF_PROXY_CFG) = Some (err, out3)"
      "out_ok out3" "nb_data out3 = 0" "nb_len out3 = nb_len inb - NET_MIC_LEN (nb_from 0 out2)"
      "take 7 (nb_from 0 out3) = take 7 (nb_from 0 out2)"
    using mesh_decrypt_ok [OF out2(1,2) mic] out2(3) by metis
  have l3: "7 \<le> length (nb_from 0 out3)" using out3(2,3) out2 len l2 by (auto simp: nb_from_def out_ok_def)
  note h = header_fields [OF out3(5) l3] header_bytes(1) [OF out3(5)]
  define rx2 where "rx2 = rx1\<lparr>rx_ctx := (rx_ctx rx1)\<lparr>ctx_addr := SRC (nb_from 0 out2)\<rparr>\<rparr>"
  have iff: "rx_net_if rx2 = rx_net_if rx" "rx_net_if rx1 = rx_net_if rx" "rx_addr rx2 = SRC (nb_from 0 out2)"
      "BT_MESH_NET_IVI_RX (nl_net nl) rx2 = iv"
    by (simp_all add: rx2_def rx1_def iv_def BT_MESH_NET_IVI_RX_def)
  have run: "net_decrypt ne nl rx inb out cred =
      (if \<not> BT_MESH_ADDR_IS_UNICAST (rx_addr rx2) \<or> ne_has_addr ne (rx_addr rx2) \<or>
          rx_net_if rx2 = BT_MESH_NET_IF_ADV \<and> msg_cache_match (nb_from 0 out2) nl
       then Some (False, rx2, out2) else Some (err = None, rx2, out3))"
    using False out1(1) ob out3(1) unfolding net_decrypt_def Let_def
    by (simp add: rx1_def [symmetric] iv_def [symmetric] out2_def [symmetric] rx2_def [symmetric] iff)
  show ?thesis
    using run out2 out3 iff h len mic by (auto simp: rx_decrypted_def)
qed

lemma cred_find_ok:
  assumes "wf_buf inb" "BT_MESH_NET_MIN_PDU_LEN \<le> nb_len inb" "nb_len inb \<le> BT_MESH_NET_MAX_PDU_LEN" "out_ok out"
  shows "\<exists>hit rx' out'. bt_mesh_net_cred_find ne nl rx inb out = Some (hit, rx', out') \<and> out_ok out' \<and>
    rx_net_if rx' = rx_net_if rx \<and> (hit \<longrightarrow> rx_decrypted ne nl inb rx' out')"
proof -
  define I where "I = (\<lambda>(r :: bt_mesh_net_rx, b). rx_net_if r = rx_net_if rx \<and> out_ok b)"
  define at_sub :: "nat \<Rightarrow> bt_mesh_net_rx \<times> net_buf_simple \<Rightarrow> bt_mesh_net_rx \<times> net_buf_simple"
    where "at_sub = (\<lambda>i (r, b). (r\<lparr>rx_sub := i\<rparr>, b))"
  define found where "found = (\<lambda>i j fr (r :: bt_mesh_net_rx, b :: net_buf_simple). (r\<lparr>rx_new_key := (0 < (j :: nat)), rx_friend_cred := fr,
      rx_ctx := (rx_ctx r)\<lparr>ctx_net_idx := sn_net_idx (ne_subnets ne ! i)\<rparr>\<rparr>, b))"
  define cb where "cb = (\<lambda>cred (r, b). net_decrypt ne nl r inb b cred)"
  define as where "as = cred_attempts (ne_subnets ne) (ne_lpn_waiting ne) (ne_friends ne)"
  have sub: "I (at_sub i s)" if "I s" for i s using that by (cases s) (simp add: I_def at_sub_def)
  have step: "\<exists>hit s'. cb cred s = Some (hit, s') \<and> I s' \<and> (hit \<longrightarrow> rx_decrypted ne nl inb (fst s') (snd s'))"
    if "I s" for cred s
    using that net_decrypt_ok [OF assms(1-3), of "snd s" ne nl "fst s" cred]
    by (cases s) (auto simp: I_def cb_def)
  have start: "I (rx, out)" using assms(4) by (simp add: I_def)
  obtain hit s' where run: "cred_search at_sub found cb as (rx, out) = Some (hit, s')"
    using cred_search_total [of I at_sub cb, OF sub _ start] step by metis
  have "if hit then \<exists>i j f s1. s' = found i j f s1 \<and> I s1 \<and> rx_decrypted ne nl inb (fst s1) (snd s1) else I s'"
  proof (rule cred_search_outcome [of I at_sub cb, OF sub _ run start])
    show "I s' \<and> (hit \<longrightarrow> rx_decrypted ne nl inb (fst s') (snd s'))"
      if "I s" "cb cred s = Some (hit, s')" for cred s hit s'
      using step [OF that(1), of cred] that(2) by auto
  qed
  moreover have "bt_mesh_net_cred_find ne nl rx inb out = Some (hit, s')"
    using run by (simp add: bt_mesh_net_cred_find_def at_sub_def found_def cb_def as_def)
  moreover have "I (found i j f s1) \<and> rx_decrypted ne nl inb (fst (found i j f s1)) (snd (found i j f s1))"
    if "I s1" "rx_decrypted ne nl inb (fst s1) (snd s1)" for i j f s1
    using that by (cases s1) (auto simp: I_def found_def rx_decrypted_def)
  ultimately have "I s' \<and> (hit \<longrightarrow> rx_decrypted ne nl inb (fst s') (snd s'))" "bt_mesh_net_cred_find ne nl rx inb out = Some (hit, s')"
    by (metis (full_types))+
  then show ?thesis by (cases s') (auto simp: I_def)
qed

definition rx_accepted :: "net_env \<Rightarrow> net_layer \<Rightarrow> net_buf_simple \<Rightarrow> bt_mesh_net_if \<Rightarrow> bt_mesh_net_rx \<Rightarrow> net_buf_simple \<Rightarrow> bool" where
  "rx_accepted ne nl inb net_if rx out \<longleftrightarrow>
     out_ok out \<and> rx_decrypted ne nl inb rx out \<and> rx_net_if rx = net_if \<and> rx_seq rx = SEQ (nb_from 0 out) \<and>
     ctx_recv_ttl (rx_ctx rx) = TTL (nb_from 0 out) \<and> ctx_recv_dst (rx_ctx rx) = DST (nb_from 0 out)"

lemma rx_decrypted_cong:
  "nl_msg_cache nl = nl_msg_cache nl' \<Longrightarrow> rx_addr rx = rx_addr rx' \<Longrightarrow> rx_net_if rx = rx_net_if rx' \<Longrightarrow>
   rx_decrypted ne nl inb rx out \<longleftrightarrow> rx_decrypted ne nl' inb rx' out"
  by (simp add: rx_decrypted_def msg_cache_match_def)

lemma decode_ok:
  assumes "wf_buf inb" "out_ok out"
  shows "\<exists>err rx' out' nl'. bt_mesh_net_decode ne inb net_if rx out nl = Some (err, rx', out', nl') \<and>
    (err = None \<longrightarrow> rx_accepted ne nl inb net_if rx' out' \<and> BT_MESH_NET_MIN_PDU_LEN \<le> nb_len inb \<and>
      nb_len inb \<le> BT_MESH_NET_MAX_PDU_LEN \<and>
      (\<exists>nl1. nl' = msg_cache_put \<lparr>mc_src = ucast (rx_addr rx'), mc_seq = ucast (rx_seq rx')\<rparr> nl1 \<and>
        nl_msg_cache nl1 = nl_msg_cache nl \<and> nl_msg_cache_next nl1 = nl_msg_cache_next nl))"
proof (cases "nb_len inb < BT_MESH_NET_MIN_PDU_LEN \<or> BT_MESH_NET_MAX_PDU_LEN < nb_len inb")
  case True
  then show ?thesis by (auto simp: bt_mesh_net_decode_def)
next
  case False
  obtain dup nl1 where dup: "(if net_if = BT_MESH_NET_IF_ADV then check_dup inb nl else (False, nl)) = (dup, nl1)"
    by (metis surj_pair)
  then have same: "nl_msg_cache nl1 = nl_msg_cache nl" "nl_msg_cache_next nl1 = nl_msg_cache_next nl"
    by (auto simp: check_dup_def Let_def split: if_splits)
  obtain hit rx1 out1 where f: "bt_mesh_net_cred_find ne nl1 (rx\<lparr>rx_net_if := net_if\<rparr>) inb out = Some (hit, rx1, out1)"
      "out_ok out1" "rx_net_if rx1 = net_if" "hit \<longrightarrow> rx_decrypted ne nl1 inb rx1 out1"
    using cred_find_ok [OF assms(1) _ _ assms(2), of ne nl1 "rx\<lparr>rx_net_if := net_if\<rparr>"] False by auto
  show ?thesis
  proof (cases "dup \<or> \<not> hit")
    case True
    then show ?thesis using False dup f by (auto simp: bt_mesh_net_decode_def)
  next
    case no: False
    then have dec: "rx_decrypted ne nl1 inb rx1 out1" using f(4) by simp
    define rx2 where "rx2 = rx1\<lparr>rx_ctx := (rx_ctx rx1)\<lparr>ctx_app_idx := BT_MESH_KEY_UNUSED,
        ctx_recv_ttl := TTL (nb_from 0 out1), ctx_send_ttl := (if TTL (nb_from 0 out1) = 0 then 0 else BT_MESH_TTL_DEFAULT),
        ctx_recv_dst := DST (nb_from 0 out1)\<rparr>, rx_ctl := CTL (nb_from 0 out1) \<noteq> 0, rx_seq := SEQ (nb_from 0 out1)\<rparr>"
    have run: "bt_mesh_net_decode ne inb net_if rx out nl =
      (if net_if \<noteq> BT_MESH_NET_IF_PROXY_CFG \<and> DST (nb_from 0 out1) = BT_MESH_ADDR_UNASSIGNED
       then Some (Some EBADMSG, rx2, out1, nl1)
       else Some (None, rx2\<lparr>rx_msg_cache_idx := word_of_nat (nl_msg_cache_next nl1)\<rparr>, out1,
         msg_cache_put \<lparr>mc_src = ucast (rx_addr rx2), mc_seq = ucast (rx_seq rx2)\<rparr> nl1))"
      using False no dup f(1) unfolding bt_mesh_net_decode_def Let_def
      by (simp add: rx2_def [symmetric] msg_cache_add_def) (simp add: rx2_def)
    have acc: "rx_accepted ne nl inb net_if (rx2\<lparr>rx_msg_cache_idx := w\<rparr>) out1" for w
      using f dec rx_decrypted_cong [OF same(1), of rx1 "rx2\<lparr>rx_msg_cache_idx := w\<rparr>" ne inb out1]
      by (simp add: rx_accepted_def rx2_def)
    show ?thesis
      using False run same acc by (cases "net_if \<noteq> BT_MESH_NET_IF_PROXY_CFG \<and> DST (nb_from 0 out1) = 0") auto
  qed
qed

end
