(* ===== verification/Mesh_Net_Path.thy ===== *)
theory Mesh_Net_Path
  imports Mesh_Net_Rx
begin

text \<open>
  From one node to another: what \<open>bt_mesh_net_encode\<close> writes for a message, and that
  \<open>bt_mesh_net_decode\<close> of a node that holds the same network key reads it back.
\<close>

section \<open>Encryption and obfuscation on byte strings\<close>

definition net_sealed :: "bool \<Rightarrow> bool \<Rightarrow> bytes \<Rightarrow> u32 \<Rightarrow> bytes \<Rightarrow> bytes" where
  "net_sealed cfg_proxy proxy key iv pdu =
     take 7 pdu @ ccm_seal key (net_nonce cfg_proxy proxy pdu iv) [] (NET_MIC_LEN pdu) (drop 7 pdu)"

definition net_obfuscated :: "u32 \<Rightarrow> bytes \<Rightarrow> bytes \<Rightarrow> bytes" where
  "net_obfuscated iv key pdu = snd (bt_mesh_net_obfuscate pdu iv key)"

lemma length_net_sealed [simp]: "7 \<le> length pdu \<Longrightarrow> length (net_sealed c x key iv pdu) = length pdu + NET_MIC_LEN pdu"
  by (simp add: net_sealed_def)

lemma net_sealed_header: "7 \<le> length pdu \<Longrightarrow> take 7 (net_sealed c x key iv pdu) = take 7 pdu"
  by (simp add: net_sealed_def)

lemma encrypt_bytes:
  assumes "wf_buf buf" "7 \<le> nb_len buf" "NET_MIC_LEN (nb_bytes buf) \<le> net_buf_simple_tailroom buf"
  shows "\<exists>buf1. bt_mesh_net_encrypt c key buf iv x = Some (None, buf1) \<and> wf_buf buf1 \<and> nb_data buf1 = nb_data buf \<and>
    nb_bytes buf1 = net_sealed c x key iv (nb_bytes buf)"
proof -
  have t7: "take 7 (nb_from 0 buf) = take 7 (nb_bytes buf)" using assms(2) by (simp add: nb_bytes_from min_def)
  note h = header_bytes [OF t7]
  let ?M = "NET_MIC_LEN (nb_bytes buf)" and ?msg = "take (nb_len buf - 7) (nb_from 7 buf)"
  have l: "nb_data buf + nb_len buf + ?M \<le> length (nb_buf buf)" "nb_data buf + nb_len buf + ?M \<le> nb_size buf"
      "nb_size buf \<le> length (nb_buf buf)" "nb_size buf < 2 ^ 16" "?M \<le> 16"
    using assms by (auto simp: wf_buf_def nb_defs)
  have msg: "?msg = drop 7 (nb_bytes buf)" "length ?msg = nb_len buf - 7"
    using l assms(2) by (simp_all add: nb_bytes_from nb_from_def drop_take add.commute)
  define m where "m = ccm_seal key (net_nonce c x (nb_bytes buf) iv) [] ?M ?msg @ drop (nb_len buf - 7 + ?M) (nb_from 7 buf)"
  have enc: "bt_mesh_net_encrypt c key buf iv x = Some (None, (nb_set_from 7 m buf)\<lparr>nb_len := nb_len buf + ?M\<rparr>)"
    using net_encrypt_alt [OF assms(1,2), of c key iv x] assms(3) h by (simp add: m_def)
  have lm: "length m = length (nb_from 7 buf)" using l msg assms(2) by (simp add: m_def nb_from_def)
  have "nb_bytes ((nb_set_from 7 m buf)\<lparr>nb_len := nb_len buf + ?M\<rparr>) = net_sealed c x key iv (nb_bytes buf)"
    using l assms(1,2) msg t7 length_nb_bytes [OF assms(1)]
    by (simp add: nb_bytes_from [of "(nb_set_from 7 m buf)\<lparr>nb_len := nb_len buf + ?M\<rparr>"] net_sealed_def)
       (simp add: nb_from_def nb_set_from_def m_def drop_take)
  moreover have "wf_buf ((nb_set_from 7 m buf)\<lparr>nb_len := nb_len buf + ?M\<rparr>)"
    using l lm assms(2) by (simp add: wf_buf_def nb_set_from_def nb_from_def)
  ultimately show ?thesis using enc by simp
qed

lemma decrypt_bytes:
  assumes "wf_buf buf" "nb_bytes buf = net_sealed c x key iv pdu" "7 \<le> length pdu"
  shows "\<exists>buf1. bt_mesh_net_decrypt c key buf iv x = Some (None, buf1) \<and> nb_data buf1 = nb_data buf \<and>
    nb_len buf1 = length pdu \<and> nb_bytes buf1 = pdu"
proof -
  define M where "M = NET_MIC_LEN pdu"
  define nonce where "nonce = net_nonce c x pdu iv"
  have len: "nb_len buf = length pdu + M" using assms by (metis M_def length_nb_bytes length_net_sealed)
  have l: "nb_data buf + nb_len buf \<le> length (nb_buf buf)" "nb_len buf < 2 ^ 16" "M \<le> 16"
    using assms(1) by (auto simp: wf_buf_def M_def)
  have t7: "take 7 (nb_from 0 buf) = take 7 pdu"
    using assms(2,3) len net_sealed_header [OF assms(3), of c x key iv]
    by (metis (no_types, lifting) le_add1 le_trans min.absorb_iff1 min.commute nb_bytes_from take_take)
  note h = header_bytes [OF t7]
  have src: "take (length pdu - 7 + M) (nb_from 7 buf) = ccm_seal key nonce [] M (drop 7 pdu)"
  proof -
    have "drop 7 (nb_bytes buf) = take (length pdu + M - 7) (nb_from 7 buf)"
      using len by (simp add: nb_bytes_from nb_from_def drop_take add.commute)
    moreover have "drop 7 (nb_bytes buf) = ccm_seal key nonce [] M (drop 7 pdu)"
      using assms(2,3) by (simp add: net_sealed_def M_def nonce_def)
    ultimately show ?thesis using assms(3) by (simp add: Nat.add_diff_assoc2)
  qed
  have "nb_from 7 buf = ccm_seal key nonce [] M (drop 7 pdu) @ drop (length pdu - 7 + M) (nb_from 7 buf)"
    using append_take_drop_id [of "length pdu - 7 + M" "nb_from 7 buf"] unfolding src by simp
  moreover have "ccm_args nonce [] M (drop 7 pdu)" using l len by (simp add: ccm_args_def nonce_def)
  ultimately have dec: "bt_ccm_decrypt key nonce (nb_from 7 buf) (length pdu - 7) [] 0 (nb_from 7 buf) M =
      (None, drop 7 pdu @ drop (length pdu - 7) (nb_from 7 buf))"
    using ccm.dec_seal [of nonce "[]" M "drop 7 pdu" "nb_from 7 buf" key "nb_from 7 buf"] l len assms(3) src
    by (simp add: nb_from_def)
  let ?buf1 = "nb_set_from 7 (drop 7 pdu @ drop (length pdu - 7) (nb_from 7 buf)) (buf\<lparr>nb_len := length pdu\<rparr>)"
  have "bt_mesh_net_decrypt c key buf iv x = Some (None, ?buf1)"
    using dec len assms(3) h by (simp add: bt_mesh_net_decrypt_def M_def [symmetric] nonce_def [symmetric] Let_def)
  moreover have "nb_bytes ?buf1 = pdu"
    using t7 l len assms(3) by (simp add: nb_bytes_from) (simp add: nb_from_def nb_set_from_def drop_take)
  ultimately show ?thesis by simp
qed

lemma obfuscate_append:
  assumes "14 \<le> length p"
  shows "net_obfuscated iv key (p @ r) = net_obfuscated iv key p @ r"
  using assms by (simp add: net_obfuscated_def obfuscate_alt mem_write_def)

lemma obfuscate_twice_bytes:
  assumes "14 \<le> length p"
  shows "net_obfuscated iv key (net_obfuscated iv key p) = p" "length (net_obfuscated iv key p) = length p"
    "net_obfuscated iv key p ! 0 = p ! 0"
proof -
  obtain q where q: "bt_mesh_net_obfuscate p iv key = (None, q)" by (simp add: obfuscate_alt)
  have "7 \<le> length p" using assms by simp
  note t = obfuscate_twice [OF this q]
  show "net_obfuscated iv key (net_obfuscated iv key p) = p" "length (net_obfuscated iv key p) = length p"
    using t q by (simp_all add: net_obfuscated_def)
  show "net_obfuscated iv key p ! 0 = p ! 0"
    using t q assms by (metis net_obfuscated_def nth_take snd_conv zero_less_one)
qed

lemma obfuscate_buf:
  assumes "wf_buf buf" "14 \<le> nb_len buf"
  shows "\<exists>m. bt_mesh_net_obfuscate (nb_from 0 buf) iv key = (None, m) \<and> wf_buf (nb_set_from 0 m buf) \<and>
    nb_bytes (nb_set_from 0 m buf) = net_obfuscated iv key (nb_bytes buf)"
proof -
  have l: "nb_data buf + nb_len buf \<le> length (nb_buf buf)" using assms by (auto simp: wf_buf_def)
  have split: "nb_from 0 buf = nb_bytes buf @ drop (nb_len buf) (nb_from 0 buf)"
    by (simp add: nb_bytes_from)
  have lb: "length (nb_bytes buf) = nb_len buf" using assms(1) by simp
  have "bt_mesh_net_obfuscate (nb_from 0 buf) iv key = (None, net_obfuscated iv key (nb_from 0 buf))"
    by (simp add: net_obfuscated_def obfuscate_alt)
  moreover have m: "net_obfuscated iv key (nb_from 0 buf) = net_obfuscated iv key (nb_bytes buf) @ drop (nb_len buf) (nb_from 0 buf)"
    using obfuscate_append [of "nb_bytes buf" iv key] assms(2) lb split by metis
  moreover have lo: "length (net_obfuscated iv key (nb_bytes buf)) = nb_len buf"
    using obfuscate_twice_bytes(2) assms(2) lb by simp
  ultimately show ?thesis
    using assms(1) l by (auto simp: nb_bytes_from [of "nb_set_from _ _ _"] wf_buf_def)
       (auto simp: nb_from_def nb_set_from_def)
qed

section \<open>The network header\<close>

definition net_header :: "u8 \<Rightarrow> u32 \<Rightarrow> bool \<Rightarrow> u8 \<Rightarrow> u32 \<Rightarrow> u16 \<Rightarrow> u16 \<Rightarrow> bytes" where
  "net_header nid iv ctl ttl seq src dst =
     [nid OR push_bit 7 (ucast (iv AND 1)), if ctl then ttl OR 0x80 else ttl] @
     sys_put_be24 seq @ sys_put_be16 src @ sys_put_be16 dst"

lemma length_net_header [simp]: "length (net_header nid iv ctl ttl seq src dst) = 9"
  by (simp add: net_header_def be16.length_put be24.length_put)

lemma seven_bits:
  fixes a :: u8
  assumes "a < 0x80"
  shows "a AND 0x7f = a \<and> (a OR 0x80) AND 0x7f = a \<and> drop_bit 7 a = 0 \<and> drop_bit 7 (a OR 0x80) = 1 \<and>
    a AND 0x80 = 0 \<and> (a OR 0x80) AND 0x80 = 0x80"
proof -
  have "\<forall>n \<in> set [0..<128]. (let a = word_of_nat n :: u8 in a AND 0x7f = a \<and> (a OR 0x80) AND 0x7f = a \<and> drop_bit 7 a = 0 \<and>
      drop_bit 7 (a OR 0x80) = 1 \<and> a AND 0x80 = 0 \<and> (a OR 0x80) AND 0x80 = 0x80)"
    by code_simp
  moreover have "unat a \<in> set [0..<128]" using assms by (simp add: word_less_nat_alt)
  ultimately have "let a = word_of_nat (unat a) :: u8 in a AND 0x7f = a \<and> (a OR 0x80) AND 0x7f = a \<and> drop_bit 7 a = 0 \<and>
      drop_bit 7 (a OR 0x80) = 1 \<and> a AND 0x80 = 0 \<and> (a OR 0x80) AND 0x80 = 0x80"
    by (rule bspec)
  then show ?thesis by (simp add: Let_def)
qed

lemma and_one_cases: "(iv :: u32) AND 1 = 0 \<or> iv AND 1 = 1"
  by (simp add: and_one_eq mod2_eq_if)

lemma fits24_less: "v < 2 ^ 24 \<Longrightarrow> fits24 v"
  by (simp add: word_unat_eq_iff word_less_nat_alt unsigned_take_bit_eq take_bit_nat_eq_self)

lemma header_parse:
  fixes iv :: u32 and ctl :: bool and src dst :: u16 and rest :: bytes
  assumes "nid < 0x80" "ttl < 0x80" "seq < 2 ^ 24"
  defines "p \<equiv> net_header nid iv ctl ttl seq src dst @ rest"
  shows "NID p = nid" "unat (IVI p) = unat (iv AND 1)" "CTL p \<noteq> 0 \<longleftrightarrow> ctl" "TTL p = ttl" "SEQ p = seq" "SRC p = src"
    "DST p = dst" "NET_MIC_LEN p = (if ctl then 8 else 4)"
proof -
  have p0: "p ! 0 = nid OR push_bit 7 (ucast (iv AND 1))" and p1: "p ! Suc 0 = (if ctl then ttl OR 0x80 else ttl)"
    by (simp_all add: p_def net_header_def)
  note n = seven_bits [OF assms(1)] and t = seven_bits [OF assms(2)]
  show "NID p = nid" "unat (IVI p) = unat (iv AND 1)"
    using and_one_cases [of iv] n by (auto simp: NID_def IVI_def p0)
  show "CTL p \<noteq> 0 \<longleftrightarrow> ctl" "TTL p = ttl" "NET_MIC_LEN p = (if ctl then 8 else 4)"
    using t by (auto simp: CTL_def TTL_def NET_MIC_LEN_def p1)
  have d2: "drop 2 p = sys_put_be24 seq @ sys_put_be16 src @ sys_put_be16 dst @ rest" by (simp add: p_def net_header_def)
  have d5: "drop 5 p = sys_put_be16 src @ sys_put_be16 dst @ rest"
    using arg_cong [OF d2, of "drop 3"] by (simp add: be24.length_put)
  have d7: "drop 7 p = sys_put_be16 dst @ rest"
    using arg_cong [OF d5, of "drop 2"] by (simp add: be16.length_put)
  show "SEQ p = seq" "SRC p = src" "DST p = dst"
    using be24.get_put [of seq] be16.get_put [of src] be16.get_put [of dst] fits24_less [OF assms(3)]
    by (simp_all add: SEQ_def SRC_def DST_def d2 d5 d7)
qed

lemma push_bytes:
  assumes "wf_buf b" "length bs \<le> nb_data b"
  shows "\<exists>b'. net_buf_simple_push_mem bs b = Some b' \<and> wf_buf b' \<and> nb_bytes b' = bs @ nb_bytes b \<and>
    nb_data b' + length bs = nb_data b \<and> net_buf_simple_tailroom b' = net_buf_simple_tailroom b"
proof -
  have "nb_data b - length bs + length bs \<le> length (nb_buf b)" using assms by (simp add: wf_buf_def)
  then show ?thesis
    using assms nb_bytes_push [OF assms]
    by (simp add: nb_defs wf_buf_def nb_bytes_def add.commute [of "length bs"])
qed

text \<open>What the encoder writes in front of the payload.\<close>

lemma header_encode_bytes:
  assumes "wf_buf buf" "9 \<le> nb_data buf" "(if ctl then 8 else 4) \<le> net_buf_simple_tailroom buf"
    and "ctl \<longleftrightarrow> ctx_app_idx (tx_ctx tx) = BT_MESH_KEY_UNUSED" "bt_mesh_next_seq cfg (ne_iv ne) st = (seq, st')"
  shows "\<exists>buf'. net_header_encode cfg ne tx nid buf st = Some (None, buf', st') \<and> wf_buf buf' \<and>
    nb_bytes buf' = net_header nid (BT_MESH_NET_IVI_TX st') ctl (ctx_send_ttl (tx_ctx tx)) seq (tx_src tx) (ctx_addr (tx_ctx tx)) @ nb_bytes buf \<and>
    net_buf_simple_tailroom buf' = net_buf_simple_tailroom buf"
proof -
  let ?t = "if ctl then ctx_send_ttl (tx_ctx tx) OR 0x80 else ctx_send_ttl (tx_ctx tx)"
  let ?i = "nid OR push_bit 7 (ucast (BT_MESH_NET_IVI_TX st' AND 1))"
  obtain b1 where b1: "net_buf_simple_push_mem (sys_put_be16 (ctx_addr (tx_ctx tx))) buf = Some b1" "wf_buf b1" "nb_bytes b1 = (sys_put_be16 (ctx_addr (tx_ctx tx))) @ nb_bytes buf"
      "7 \<le> nb_data b1" "net_buf_simple_tailroom b1 = net_buf_simple_tailroom buf"
    using push_bytes [OF assms(1), of "(sys_put_be16 (ctx_addr (tx_ctx tx)))"] assms(2) by (auto simp: be16.length_put be24.length_put)
  obtain b2 where b2: "net_buf_simple_push_mem (sys_put_be16 (tx_src tx)) b1 = Some b2" "wf_buf b2" "nb_bytes b2 = (sys_put_be16 (tx_src tx)) @ nb_bytes b1"
      "5 \<le> nb_data b2" "net_buf_simple_tailroom b2 = net_buf_simple_tailroom b1"
    using push_bytes [OF b1(2), of "(sys_put_be16 (tx_src tx))"] b1(4) by (auto simp: be16.length_put be24.length_put)
  obtain b3 where b3: "net_buf_simple_push_mem (sys_put_be24 seq) b2 = Some b3" "wf_buf b3" "nb_bytes b3 = (sys_put_be24 seq) @ nb_bytes b2"
      "2 \<le> nb_data b3" "net_buf_simple_tailroom b3 = net_buf_simple_tailroom b2"
    using push_bytes [OF b2(2), of "(sys_put_be24 seq)"] b2(4) by (auto simp: be16.length_put be24.length_put)
  obtain b4 where b4: "net_buf_simple_push_mem [?t] b3 = Some b4" "wf_buf b4" "nb_bytes b4 = [?t] @ nb_bytes b3"
      "1 \<le> nb_data b4" "net_buf_simple_tailroom b4 = net_buf_simple_tailroom b3"
    using push_bytes [OF b3(2), of "[?t]"] b3(4) by (auto simp: be16.length_put be24.length_put)
  obtain b5 where b5: "net_buf_simple_push_mem [?i] b4 = Some b5" "wf_buf b5" "nb_bytes b5 = [?i] @ nb_bytes b4"
      "0 \<le> nb_data b5" "net_buf_simple_tailroom b5 = net_buf_simple_tailroom b4"
    using push_bytes [OF b4(2), of "[?i]"] b4(4) by (auto simp: be16.length_put be24.length_put)
  have "net_header_encode cfg ne tx nid buf st = Some (None, b5, st')"
    using assms(3,4,5) b1(1) b2(1) b3(1) b4(1) b5(1)
    by (simp add: net_header_encode_def push_value Let_def split: if_splits)
  then show ?thesis using b5(2,3,5) b4(3,5) b3(3,5) b2(3,5) b1(3,5) by (simp add: net_header_def)
qed

section \<open>Encoding at one node, decoding at another\<close>

text \<open>The bytes on the air for a network PDU.\<close>

definition net_wire :: "bool \<Rightarrow> bool \<Rightarrow> bt_mesh_net_cred \<Rightarrow> u32 \<Rightarrow> bytes \<Rightarrow> bytes" where
  "net_wire cfg_proxy proxy cred iv pdu = net_obfuscated iv (cr_privacy cred) (net_sealed cfg_proxy proxy (cr_enc cred) iv pdu)"

lemma net_encrypt_bytes:
  assumes "wf_buf buf" "10 \<le> nb_len buf" "NET_MIC_LEN (nb_bytes buf) \<le> net_buf_simple_tailroom buf"
  shows "\<exists>buf'. net_encrypt ne buf cred iv x = Some (None, buf') \<and> wf_buf buf' \<and>
    nb_bytes buf' = net_wire (ne_cfg_proxy ne) x cred iv (nb_bytes buf)"
proof -
  have mic: "4 \<le> NET_MIC_LEN (nb_bytes buf)" by (simp add: NET_MIC_LEN_def)
  obtain b1 where b1: "bt_mesh_net_encrypt (ne_cfg_proxy ne) (cr_enc cred) buf iv x = Some (None, b1)" "wf_buf b1"
      "nb_bytes b1 = net_sealed (ne_cfg_proxy ne) x (cr_enc cred) iv (nb_bytes buf)"
    using encrypt_bytes [OF assms(1) _ assms(3), of "ne_cfg_proxy ne" "cr_enc cred" iv x] assms(2) by auto
  have "nb_len b1 = nb_len buf + NET_MIC_LEN (nb_bytes buf)"
    using length_nb_bytes [OF b1(2)] b1(3) assms(1,2) by simp
  then obtain m where "bt_mesh_net_obfuscate (nb_from 0 b1) iv (cr_privacy cred) = (None, m)" "wf_buf (nb_set_from 0 m b1)"
      "nb_bytes (nb_set_from 0 m b1) = net_obfuscated iv (cr_privacy cred) (nb_bytes b1)"
    using obfuscate_buf [OF b1(2), of iv "cr_privacy cred"] assms(2) mic by auto
  then show ?thesis using b1 by (simp add: net_encrypt_def net_wire_def)
qed

lemma length_net_wire [simp]:
  "10 \<le> length pdu \<Longrightarrow> length (net_wire c x cred iv pdu) = length pdu + NET_MIC_LEN pdu"
  using obfuscate_twice_bytes(2) [of "net_sealed c x (cr_enc cred) iv pdu"] by (simp add: net_wire_def NET_MIC_LEN_def)

lemma net_wire_first: "10 \<le> length pdu \<Longrightarrow> net_wire c x cred iv pdu ! 0 = pdu ! 0"
proof -
  assume l: "10 \<le> length pdu"
  have "14 \<le> length (net_sealed c x (cr_enc cred) iv pdu)" using l by (simp add: NET_MIC_LEN_def)
  from obfuscate_twice_bytes(3) [OF this, of iv "cr_privacy cred"]
  have "net_wire c x cred iv pdu ! 0 = net_sealed c x (cr_enc cred) iv pdu ! 0" by (simp add: net_wire_def)
  also have "\<dots> = take 7 (net_sealed c x (cr_enc cred) iv pdu) ! 0" by simp
  also have "\<dots> = pdu ! 0" using net_sealed_header [of pdu c x "cr_enc cred" iv] l by simp
  finally show ?thesis .
qed

text \<open>The receiver recovers the IV index of the sender when it is at that index or one ahead.\<close>

lemma recover_iv:
  assumes "unat (IVI pdu) = unat (iv AND 1)" "bm_iv_index st = iv \<or> bm_iv_index st = iv + 1"
  shows "BT_MESH_NET_IVI_RX st (rx\<lparr>rx_old_iv := pdu_old_iv st pdu\<rparr>) = iv" "pdu_old_iv st pdu \<longleftrightarrow> bm_iv_index st \<noteq> iv"
proof -
  have "(iv + 1) AND 1 \<noteq> iv AND 1"
    by (auto simp: and_one_eq mod2_eq_if)
  then have "unat ((iv + 1) AND 1) \<noteq> unat (iv AND 1)" by (metis word_unat_eq_iff)
  then have "pdu_old_iv st pdu \<longleftrightarrow> bm_iv_index st \<noteq> iv"
    using assms by (auto simp: pdu_old_iv_def)
  then show "BT_MESH_NET_IVI_RX st (rx\<lparr>rx_old_iv := pdu_old_iv st pdu\<rparr>) = iv" "pdu_old_iv st pdu \<longleftrightarrow> bm_iv_index st \<noteq> iv"
    using assms(2) by (auto simp: BT_MESH_NET_IVI_RX_def)
qed

lemma net_decrypt_wire:
  assumes pdu: "pdu = net_header (cr_nid cred) iv ctl ttl seq src dst @ payload" "payload \<noteq> []"
    and bits: "cr_nid cred < 0x80" "ttl < 0x80" "seq < 2 ^ 24"
    and inb: "wf_buf inb" "nb_bytes inb = net_wire (ne_cfg_proxy ne) (rx_net_if rx = BT_MESH_NET_IF_PROXY_CFG) cred iv pdu"
    and out: "out_ok out" "nb_len inb \<le> BT_MESH_NET_MAX_PDU_LEN"
    and iv: "bm_iv_index (nl_net nl) = iv \<or> bm_iv_index (nl_net nl) = iv + 1"
    and src: "BT_MESH_ADDR_IS_UNICAST src" "\<not> ne_has_addr ne src"
    and fresh: "rx_net_if rx = BT_MESH_NET_IF_ADV \<Longrightarrow> \<not> msg_cache_match pdu nl"
  shows "\<exists>out'. net_decrypt ne nl rx inb out cred =
      Some (True, rx\<lparr>rx_old_iv := bm_iv_index (nl_net nl) \<noteq> iv, rx_ctx := (rx_ctx rx)\<lparr>ctx_addr := src\<rparr>\<rparr>, out') \<and>
    nb_bytes out' = pdu \<and> nb_data out' = 0"
proof -
  define x where "x = (rx_net_if rx = BT_MESH_NET_IF_PROXY_CFG)"
  define sealed where "sealed = net_sealed (ne_cfg_proxy ne) x (cr_enc cred) iv pdu"
  have lp: "10 \<le> length pdu" using pdu by (cases payload) auto
  note h = header_parse [OF bits, of iv ctl src dst payload, folded pdu(1)]
  have ls: "14 \<le> length sealed" using lp by (simp add: sealed_def NET_MIC_LEN_def)
  have wire: "nb_bytes inb = net_obfuscated iv (cr_privacy cred) sealed"
    using inb(2) by (simp add: net_wire_def sealed_def x_def)
  have len: "nb_len inb = length sealed" using wire length_nb_bytes [OF inb(1)] obfuscate_twice_bytes(2) [OF ls] by simp
  have first: "nb_from 0 inb ! 0 = pdu ! 0"
    using net_wire_first [OF lp] inb(2) len ls by (metis nb_bytes_from nth_take less_le_trans zero_less_numeral)
  then have ids: "NID (nb_from 0 inb) = cr_nid cred" "unat (IVI (nb_from 0 inb)) = unat (iv AND 1)"
    using h(1,2) by (simp_all add: NID_def IVI_def)
  note riv = recover_iv [OF ids(2) iv]
  obtain out1 where out1: "net_buf_simple_add_mem (nb_bytes inb) (net_buf_simple_reset out) = Some out1" "out_ok out1"
      "nb_data out1 = 0" "nb_len out1 = nb_len inb" "nb_bytes out1 = nb_bytes inb"
    using out_ok_copy [OF out(1), of "nb_bytes inb"] inb(1) out(2) by auto
  have wf1: "wf_buf out1" using out1(2) by (simp add: out_ok_def)
  obtain m where m: "bt_mesh_net_obfuscate (nb_from 0 out1) iv (cr_privacy cred) = (None, m)" "wf_buf (nb_set_from 0 m out1)"
      "nb_bytes (nb_set_from 0 m out1) = sealed"
    using obfuscate_buf [OF wf1, of iv "cr_privacy cred"] out1(4,5) wire len ls obfuscate_twice_bytes(1) [OF ls] by auto
  obtain out' where out': "bt_mesh_net_decrypt (ne_cfg_proxy ne) (cr_enc cred) (nb_set_from 0 m out1) iv x = Some (None, out')"
      "nb_data out' = 0" "nb_bytes out' = pdu"
    using decrypt_bytes [OF m(2), of "ne_cfg_proxy ne" x "cr_enc cred" iv pdu] m(3) lp out1(3) by (auto simp: sealed_def)
  have t7: "take 7 (nb_from 0 (nb_set_from 0 m out1)) = take 7 pdu"
  proof -
    have "take 7 (nb_bytes (nb_set_from 0 m out1)) = take 7 pdu"
      using m(3) net_sealed_header [of pdu] lp by (simp add: sealed_def)
    then show ?thesis using len ls out1(4) by (simp add: nb_bytes_from min_def)
  qed
  have l7: "7 \<le> length (nb_from 0 (nb_set_from 0 m out1))"
    using arg_cong [OF t7, of length] lp by simp
  note f = header_fields [OF t7 l7]
  have x: "(rx_net_if rx = BT_MESH_NET_IF_PROXY_CFG) = x" by (simp add: x_def)
  have "BT_MESH_NET_IVI_RX (nl_net nl) (rx\<lparr>rx_old_iv := b, rx_ctx := c\<rparr>) = BT_MESH_NET_IVI_RX (nl_net nl) (rx\<lparr>rx_old_iv := b\<rparr>)" for b c
    by (simp add: BT_MESH_NET_IVI_RX_def)
  then show ?thesis
    using ids out1(1) m(1) out' f(1,3) h(6) src fresh riv
    unfolding net_decrypt_def Let_def by (simp add: x)
qed

lemma cred_search_skip:
  assumes "\<forall>a \<in> set pre. \<forall>s. cb (snd (snd (snd a))) s = Some (False, s)"
  shows "cred_search at_sub found cb (pre @ as) s = cred_search at_sub found cb as (fold (\<lambda>(i, _). at_sub i) pre s)"
  using assms by (induction pre arbitrary: s) auto

lemma fold_at_sub:
  fixes rx :: bt_mesh_net_rx and out :: net_buf_simple
  shows
  "\<exists>k. fold (\<lambda>(i, _) (r, b). (r\<lparr>rx_sub := i\<rparr>, b)) pre (rx, out) = (rx\<lparr>rx_sub := k\<rparr>, out)"
proof (induction pre arbitrary: rx)
  case Nil
  show ?case by (rule exI [of _ "rx_sub rx"]) simp
next
  case (Cons a pre)
  obtain k where "fold (\<lambda>(i, _) (r, b). (r\<lparr>rx_sub := i\<rparr>, b)) pre (rx\<lparr>rx_sub := fst a\<rparr>, out) =
      (rx\<lparr>rx_sub := fst a\<rparr>\<lparr>rx_sub := k\<rparr>, out)"
    using Cons.IH by metis
  then show ?case by (cases a) auto
qed

text \<open>What the receiver's context says of a decoded PDU.\<close>

definition rx_matches :: "bool \<Rightarrow> u8 \<Rightarrow> u32 \<Rightarrow> u16 \<Rightarrow> u16 \<Rightarrow> bt_mesh_net_rx \<Rightarrow> bool" where
  "rx_matches ctl ttl seq src dst rx \<longleftrightarrow>
     rx_ctl rx = ctl \<and> ctx_recv_ttl (rx_ctx rx) = ttl \<and> rx_seq rx = seq \<and> rx_addr rx = src \<and> ctx_recv_dst (rx_ctx rx) = dst"

lemma decode_wire:
  assumes pdu: "pdu = net_header (cr_nid cred) iv ctl ttl seq src dst @ payload" "payload \<noteq> []"
    and bits: "cr_nid cred < 0x80" "ttl < 0x80" "seq < 2 ^ 24"
    and inb: "wf_buf inb" "nb_bytes inb = net_wire (ne_cfg_proxy ne) (net_if = BT_MESH_NET_IF_PROXY_CFG) cred iv pdu"
    and len: "BT_MESH_NET_MIN_PDU_LEN \<le> nb_len inb" "nb_len inb \<le> BT_MESH_NET_MAX_PDU_LEN" and out: "out_ok out"
    and iv: "bm_iv_index (nl_net nl) = iv \<or> bm_iv_index (nl_net nl) = iv + 1"
    and src: "BT_MESH_ADDR_IS_UNICAST src" "\<not> ne_has_addr ne src"
    and dst: "dst \<noteq> 0 \<or> net_if = BT_MESH_NET_IF_PROXY_CFG"
    and fresh: "net_if = BT_MESH_NET_IF_ADV \<Longrightarrow> \<not> fst (check_dup inb nl) \<and> \<not> msg_cache_match pdu nl"
    and keys: "cred_attempts (ne_subnets ne) (ne_lpn_waiting ne) (ne_friends ne) = pre @ (i, j, friend, cred) # post"
      "\<And>i j f c. (i, j, f, c) \<in> set pre \<Longrightarrow> cr_nid c \<noteq> cr_nid cred"
  shows "\<exists>rx' out' nl'. bt_mesh_net_decode ne inb net_if rx out nl = Some (None, rx', out', nl') \<and> nb_bytes out' = pdu \<and>
    rx_matches ctl ttl seq src dst rx' \<and> rx_sub rx' = i \<and> rx_new_key rx' = (0 < j) \<and> rx_friend_cred rx' = friend \<and>
    rx_old_iv rx' = (bm_iv_index (nl_net nl) \<noteq> iv)"
proof -
  obtain dup nl1 where dup: "(if net_if = BT_MESH_NET_IF_ADV then check_dup inb nl else (False, nl)) = (dup, nl1)"
    by (metis surj_pair)
  have nl1: "\<not> dup" "nl_net nl1 = nl_net nl" "msg_cache_match pdu nl1 = msg_cache_match pdu nl"
    using dup fresh by (auto simp: check_dup_def Let_def msg_cache_match_def split: if_splits)
  define rx0 where "rx0 = rx\<lparr>rx_net_if := net_if\<rparr>"
  note h = header_parse [OF bits, of iv ctl src dst payload, folded pdu(1)]
  have p0: "pdu ! 0 = nb_from 0 inb ! 0"
  proof -
    have "10 \<le> length pdu" using pdu by (cases payload) auto
    from net_wire_first [OF this] show ?thesis
      using inb(2) len(1) by (metis nb_bytes_from nth_take BT_MESH_NET_MIN_PDU_LEN_def add_gr_0 less_le_trans zero_less_one)
  qed
  then have nid: "NID (nb_from 0 inb) = cr_nid cred" using h(1) by (simp add: NID_def)
  obtain k where k: "fold (\<lambda>(i, _) (r, b). (r\<lparr>rx_sub := i\<rparr>, b)) pre (rx0, out) = (rx0\<lparr>rx_sub := k\<rparr>, out)"
    using fold_at_sub by blast
  have "net_decrypt ne nl1 (fst s) inb (snd s) (snd (snd (snd a))) = Some (False, s)" if "a \<in> set pre" for a s
    using keys(2) [of "fst a" "fst (snd a)" "fst (snd (snd a))" "snd (snd (snd a))"] that nid
    by (cases s) (simp add: net_decrypt_def Let_def)
  then have skip: "\<forall>a \<in> set pre. \<forall>s. (\<lambda>c (r, b). net_decrypt ne nl1 r inb b c) (snd (snd (snd a))) s = Some (False, s)"
    by (simp add: case_prod_beta')
  define rx1 where "rx1 = rx0\<lparr>rx_sub := i\<rparr>\<lparr>rx_old_iv := bm_iv_index (nl_net nl) \<noteq> iv, rx_ctx := (rx_ctx rx0)\<lparr>ctx_addr := src\<rparr>\<rparr>"
  obtain out' where out': "net_decrypt ne nl1 (rx0\<lparr>rx_sub := i\<rparr>) inb out cred = Some (True, rx1, out')" "nb_bytes out' = pdu"
      "nb_data out' = 0"
    using net_decrypt_wire [OF pdu bits inb(1), of ne "rx0\<lparr>rx_sub := i\<rparr>" out nl1] inb(2) out len(2) iv src fresh nl1
    by (auto simp: rx0_def rx1_def)
  define rx2 where "rx2 = rx1\<lparr>rx_new_key := 0 < j, rx_friend_cred := friend,
      rx_ctx := (rx_ctx rx1)\<lparr>ctx_net_idx := sn_net_idx (ne_subnets ne ! i)\<rparr>\<rparr>"
  have find: "bt_mesh_net_cred_find ne nl1 rx0 inb out = Some (True, rx2, out')"
    unfolding bt_mesh_net_cred_find_def keys(1)
    using out'(1) by (subst cred_search_skip [OF skip]) (simp add: k rx2_def)
  have bytes: "nb_bytes out' = pdu" "take (nb_len out') (nb_from 0 out') = pdu" using out' by (simp_all add: nb_bytes_from)
  then obtain r where r: "nb_from 0 out' = net_header (cr_nid cred) iv ctl ttl seq src dst @ payload @ r"
    using append_take_drop_id [of "nb_len out'" "nb_from 0 out'"] pdu(1) by (metis append.assoc)
  note g = header_parse [OF bits, of iv ctl src dst "payload @ r", folded r]
  show ?thesis
    using len dup nl1(1) find dst bytes(1) g h unfolding bt_mesh_net_decode_def Let_def rx0_def [symmetric]
    by (auto simp: msg_cache_add_def rx_matches_def rx2_def rx1_def)
qed

section \<open>Conditions for a transfer\<close>

text \<open>
  What the sender needs: a buffer with room for the header and the integrity check around a
  payload that makes a PDU of legal length, seven-bit network identifier and time to live,
  and a sequence number of 24 bits.
\<close>

definition tx_ready :: "bt_mesh_net_tx \<Rightarrow> bt_mesh_net_cred \<Rightarrow> u32 \<Rightarrow> net_buf_simple \<Rightarrow> bool" where
  "tx_ready tx cred seq buf \<longleftrightarrow>
     (let mic = (if ctx_app_idx (tx_ctx tx) = BT_MESH_KEY_UNUSED then 8 else 4) in
      wf_buf buf \<and> 9 \<le> nb_data buf \<and> mic \<le> net_buf_simple_tailroom buf \<and> 0 < nb_len buf \<and>
      BT_MESH_NET_MIN_PDU_LEN \<le> 9 + nb_len buf + mic \<and> 9 + nb_len buf + mic \<le> BT_MESH_NET_MAX_PDU_LEN \<and>
      cr_nid cred < 0x80 \<and> ctx_send_ttl (tx_ctx tx) < 0x80 \<and> seq < 2 ^ 24)"

text \<open>
  What the receiver needs: the same or the next IV index, a message that is neither its own
  nor cached, and the credentials \<open>c\<close> of slot \<open>j\<close> of its subnet \<open>i\<close> as the first with that
  identifier that it tries.
\<close>

definition rx_ready ::
  "net_env \<Rightarrow> net_layer \<Rightarrow> bt_mesh_net_if \<Rightarrow> u32 \<Rightarrow> u16 \<Rightarrow> u16 \<Rightarrow> u32 \<Rightarrow> nat \<times> nat \<times> bool \<times> bt_mesh_net_cred \<Rightarrow> bool" where
  "rx_ready ne nl net_if iv src dst seq a \<longleftrightarrow>
     (bm_iv_index (nl_net nl) = iv \<or> bm_iv_index (nl_net nl) = iv + 1) \<and>
     BT_MESH_ADDR_IS_UNICAST src \<and> \<not> ne_has_addr ne src \<and> (dst \<noteq> 0 \<or> net_if = BT_MESH_NET_IF_PROXY_CFG) \<and>
     (\<forall>e \<in> set (nl_msg_cache nl). unat (mc_src e) \<noteq> unat src \<or> unat (mc_seq e) \<noteq> unat (seq AND mask 17)) \<and>
     find (\<lambda>(i, j, f, c). cr_nid c = cr_nid (snd (snd (snd a))))
       (cred_attempts (ne_subnets ne) (ne_lpn_waiting ne) (ne_friends ne)) = Some a"

lemma find_split: "find P xs = Some a \<Longrightarrow> \<exists>pre post. xs = pre @ a # post \<and> (\<forall>x \<in> set pre. \<not> P x)"
proof (induction xs)
  case (Cons x xs)
  show ?case
  proof (cases "P x")
    case True
    then show ?thesis using Cons.prems by (intro exI [of _ "[]"] exI [of _ xs]) auto
  next
    case False
    then obtain pre post where "xs = pre @ a # post \<and> (\<forall>x \<in> set pre. \<not> P x)" using Cons by auto
    then show ?thesis using False by (intro exI [of _ "x # pre"] exI [of _ post]) auto
  qed
qed simp

lemma tx_cred_fields:
  "net_tx_cred_get ne tx = (cred, tx') \<Longrightarrow> tx_ctx tx' = tx_ctx tx \<and> tx_src tx' = tx_src tx"
  by (auto simp: net_tx_cred_get_def Let_def split: option.splits if_splits)

lemma encode_wire:
  assumes "net_tx_cred_get ne tx = (cred, tx')" "bt_mesh_next_seq cfg (ne_iv ne) st = (seq, st')" "tx_ready tx cred seq buf"
  defines "ctl \<equiv> ctx_app_idx (tx_ctx tx) = BT_MESH_KEY_UNUSED"
  defines "pdu \<equiv> net_header (cr_nid cred) (BT_MESH_NET_IVI_TX st') ctl (ctx_send_ttl (tx_ctx tx)) seq (tx_src tx)
      (ctx_addr (tx_ctx tx)) @ nb_bytes buf"
  shows "\<exists>buf'. bt_mesh_net_encode cfg ne tx buf proxy st = Some (None, buf', st') \<and> wf_buf buf' \<and>
    nb_bytes buf' = net_wire (ne_cfg_proxy ne) proxy cred (BT_MESH_NET_IVI_TX st') pdu \<and>
    nb_len buf' = 9 + nb_len buf + (if ctl then 8 else 4)"
proof -
  have r: "wf_buf buf" "9 \<le> nb_data buf" "(if ctl then 8 else 4) \<le> net_buf_simple_tailroom buf" "0 < nb_len buf"
      "cr_nid cred < 0x80" "ctx_send_ttl (tx_ctx tx) < 0x80" "seq < 2 ^ 24"
    using assms(3) by (auto simp: tx_ready_def Let_def ctl_def)
  note h = header_parse [OF r(5-7), of "BT_MESH_NET_IVI_TX st'" ctl "tx_src tx" "ctx_addr (tx_ctx tx)" "nb_bytes buf", folded pdu_def]
  have tx': "tx_ctx tx' = tx_ctx tx" "tx_src tx' = tx_src tx" using tx_cred_fields [OF assms(1)] by simp_all
  obtain b1 where b1: "net_header_encode cfg ne tx' (cr_nid cred) buf st = Some (None, b1, st')" "wf_buf b1" "nb_bytes b1 = pdu"
      "net_buf_simple_tailroom b1 = net_buf_simple_tailroom buf"
    using header_encode_bytes [OF r(1-3), of tx' cfg ne st seq st' "cr_nid cred"] tx' assms(2) by (auto simp: ctl_def pdu_def)
  have len: "nb_len b1 = 9 + nb_len buf" using length_nb_bytes [OF b1(2)] b1(3) r(1) by (simp add: pdu_def)
  obtain b2 where b2: "net_encrypt ne b1 cred (BT_MESH_NET_IVI_TX st') proxy = Some (None, b2)" "wf_buf b2"
      "nb_bytes b2 = net_wire (ne_cfg_proxy ne) proxy cred (BT_MESH_NET_IVI_TX st') pdu"
    using net_encrypt_bytes [OF b1(2), of ne cred "BT_MESH_NET_IVI_TX st'" proxy] b1(3,4) h(8) r(3,4) len by auto
  have "nb_len b2 = 9 + nb_len buf + (if ctl then 8 else 4)"
    using length_nb_bytes [OF b2(2)] length_nb_bytes [OF r(1)] b2(3) h(8) r(4) by (simp add: pdu_def)
  then show ?thesis using assms(1) b1(1) b2 by (simp add: bt_mesh_net_encode_def)
qed

lemma encode_decode:
  assumes "net_tx_cred_get ne tx = (cred, tx')" "bt_mesh_next_seq cfg (ne_iv ne) st = (seq, st')" "tx_ready tx cred seq buf"
    and "rx_ready ne' nl net_if (BT_MESH_NET_IVI_TX st') (tx_src tx) (ctx_addr (tx_ctx tx)) seq (i, j, friend, cred)"
    and "ne_cfg_proxy ne' = ne_cfg_proxy ne" "out_ok out"
  shows "\<exists>buf'. bt_mesh_net_encode cfg ne tx buf (net_if = BT_MESH_NET_IF_PROXY_CFG) st = Some (None, buf', st') \<and> wf_buf buf' \<and>
    (\<forall>inb. wf_buf inb \<and> nb_bytes inb = nb_bytes buf' \<and> (net_if = BT_MESH_NET_IF_ADV \<longrightarrow> \<not> fst (check_dup inb nl)) \<longrightarrow>
      (\<exists>rx' out' nl'. bt_mesh_net_decode ne' inb net_if rx out nl = Some (None, rx', out', nl') \<and>
        drop 9 (nb_bytes out') = nb_bytes buf \<and>
        rx_matches (ctx_app_idx (tx_ctx tx) = BT_MESH_KEY_UNUSED) (ctx_send_ttl (tx_ctx tx)) seq (tx_src tx) (ctx_addr (tx_ctx tx)) rx' \<and>
        rx_sub rx' = i \<and> rx_new_key rx' = (0 < j) \<and> rx_friend_cred rx' = friend \<and>
        rx_old_iv rx' = (bm_iv_index (nl_net nl) \<noteq> BT_MESH_NET_IVI_TX st')))"
proof -
  define ctl where "ctl = (ctx_app_idx (tx_ctx tx) = BT_MESH_KEY_UNUSED)"
  define pdu where "pdu = net_header (cr_nid cred) (BT_MESH_NET_IVI_TX st') ctl (ctx_send_ttl (tx_ctx tx)) seq (tx_src tx)
      (ctx_addr (tx_ctx tx)) @ nb_bytes buf"
  have r: "wf_buf buf" "0 < nb_len buf" "cr_nid cred < 0x80" "ctx_send_ttl (tx_ctx tx) < 0x80" "seq < 2 ^ 24"
      "BT_MESH_NET_MIN_PDU_LEN \<le> 9 + nb_len buf + (if ctl then 8 else 4)"
      "9 + nb_len buf + (if ctl then 8 else 4) \<le> BT_MESH_NET_MAX_PDU_LEN"
    using assms(3) by (auto simp: tx_ready_def Let_def ctl_def)
  obtain buf' where b: "bt_mesh_net_encode cfg ne tx buf (net_if = BT_MESH_NET_IF_PROXY_CFG) st = Some (None, buf', st')" "wf_buf buf'"
      "nb_bytes buf' = net_wire (ne_cfg_proxy ne) (net_if = BT_MESH_NET_IF_PROXY_CFG) cred (BT_MESH_NET_IVI_TX st') pdu"
      "nb_len buf' = 9 + nb_len buf + (if ctl then 8 else 4)"
    using encode_wire [OF assms(1-3), of "net_if = BT_MESH_NET_IF_PROXY_CFG"] by (auto simp: ctl_def pdu_def)
  note h = header_parse [OF r(3-5), of "BT_MESH_NET_IVI_TX st'" ctl "tx_src tx" "ctx_addr (tx_ctx tx)" "nb_bytes buf", folded pdu_def]
  have ready: "bm_iv_index (nl_net nl) = BT_MESH_NET_IVI_TX st' \<or> bm_iv_index (nl_net nl) = BT_MESH_NET_IVI_TX st' + 1"
      "BT_MESH_ADDR_IS_UNICAST (tx_src tx)" "\<not> ne_has_addr ne' (tx_src tx)"
      "ctx_addr (tx_ctx tx) \<noteq> 0 \<or> net_if = BT_MESH_NET_IF_PROXY_CFG" "\<not> msg_cache_match pdu nl"
    using assms(4) h by (auto simp: rx_ready_def msg_cache_match_def)
  obtain pre post where keys: "cred_attempts (ne_subnets ne') (ne_lpn_waiting ne') (ne_friends ne') = pre @ (i, j, friend, cred) # post"
      "\<forall>(i, j, f, c) \<in> set pre. cr_nid c \<noteq> cr_nid cred"
    using assms(4) find_split [of "\<lambda>(i, j, f, c). cr_nid c = cr_nid cred"] by (force simp: rx_ready_def)
  have "\<exists>rx' out' nl'. bt_mesh_net_decode ne' inb net_if rx out nl = Some (None, rx', out', nl') \<and> nb_bytes out' = pdu \<and>
      rx_matches ctl (ctx_send_ttl (tx_ctx tx)) seq (tx_src tx) (ctx_addr (tx_ctx tx)) rx' \<and>
      rx_sub rx' = i \<and> rx_new_key rx' = (0 < j) \<and> rx_friend_cred rx' = friend \<and>
      rx_old_iv rx' = (bm_iv_index (nl_net nl) \<noteq> BT_MESH_NET_IVI_TX st')"
    if inb: "wf_buf inb" "nb_bytes inb = nb_bytes buf'" "net_if = BT_MESH_NET_IF_ADV \<longrightarrow> \<not> fst (check_dup inb nl)" for inb
  proof -
    have "nb_len inb = nb_len buf'" using inb b(2) by (metis length_nb_bytes)
    moreover have "nb_bytes buf \<noteq> []" using length_nb_bytes [OF r(1)] r(2) by auto
    ultimately show ?thesis
      by (intro decode_wire [OF pdu_def _ r(3-5) inb(1) _ _ _ assms(6) ready(1-4) _ keys(1)])
        (use inb b(3,4) assms(5) r(6,7) ready(5) keys(2) in auto)
  qed
  moreover have "drop 9 pdu = nb_bytes buf" by (simp add: pdu_def)
  ultimately show ?thesis using b(1,2) unfolding ctl_def by (intro exI [of _ buf']) metis
qed

section \<open>Relaying\<close>

definition relay_pdu :: "net_env \<Rightarrow> bt_mesh_net_rx \<Rightarrow> bytes \<Rightarrow> bytes" where
  "relay_pdu ne rx pdu =
     (let sub = ne_subnets ne ! rx_sub rx; cred = sk_msg (sn_keys sub ! SUBNET_KEY_TX_IDX sub);
          pdu = pdu[1 := (pdu ! 1 AND 0x80) OR (ctx_recv_ttl (rx_ctx rx) - 1)]
      in if rx_friend_cred rx then pdu[0 := (pdu ! 0 AND 0x80) OR cr_nid cred] else pdu)"

definition relay_dropped :: "net_env \<Rightarrow> bt_mesh_net_rx \<Rightarrow> bool" where
  "relay_dropped ne rx \<longleftrightarrow> ctx_recv_ttl (rx_ctx rx) \<le> 1 \<or>
     rx_net_if rx = BT_MESH_NET_IF_ADV \<and> \<not> rx_friend_cred rx \<and> \<not> ne_relay_enabled ne \<and> ne_gatt_proxy ne \<noteq> BT_MESH_FEATURE_ENABLED \<or>
     ne_adv_buf ne = None"

definition relay_outputs :: "mesh_cfg \<Rightarrow> net_env \<Rightarrow> net_layer \<Rightarrow> bt_mesh_net_rx \<Rightarrow> bytes \<Rightarrow> net_out list" where
  "relay_outputs cfg ne nl rx pdu =
     (let sub = ne_subnets ne ! rx_sub rx; cred = sk_msg (sn_keys sub ! SUBNET_KEY_TX_IDX sub);
          wire = net_wire (ne_cfg_proxy ne) False cred (BT_MESH_NET_IVI_RX (nl_net nl) rx) (relay_pdu ne rx pdu)
      in if relay_dropped ne rx then []
         else (if cfg_gatt_proxy cfg \<and> (rx_friend_cred rx \<or> ne_gatt_proxy ne = BT_MESH_FEATURE_ENABLED)
               then [Proxy_relay wire (ctx_recv_dst (rx_ctx rx))] else []) @
              (if relay_to_adv ne (rx_net_if rx) \<or> rx_friend_cred rx then [Adv_send wire] else []))"

text \<open>An advertising buffer as \<open>bt_mesh_adv_create\<close> returns it.\<close>

definition adv_buf_ok :: "net_buf_simple \<Rightarrow> bool" where
  "adv_buf_ok b \<longleftrightarrow> wf_buf b \<and> nb_len b = 0 \<and> BT_MESH_NET_MAX_PDU_LEN \<le> net_buf_simple_tailroom b"

lemma add_bytes:
  assumes "wf_buf b" "length bs \<le> net_buf_simple_tailroom b"
  shows "\<exists>b'. net_buf_simple_add_mem bs b = Some b' \<and> wf_buf b' \<and> nb_bytes b' = nb_bytes b @ bs \<and>
    net_buf_simple_tailroom b' = net_buf_simple_tailroom b - length bs \<and> nb_len b' = nb_len b + length bs"
  using assms nb_bytes_add [OF assms] by (auto simp: nb_defs wf_buf_def nb_bytes_def)

lemma write_byte:
  assumes "wf_buf b" "i < nb_len b"
  shows "wf_buf (nb_write (nb_data b + i) [v] b)" "nb_bytes (nb_write (nb_data b + i) [v] b) = (nb_bytes b)[i := v]"
    "net_buf_simple_tailroom (nb_write (nb_data b + i) [v] b) = net_buf_simple_tailroom b"
    "nb_len (nb_write (nb_data b + i) [v] b) = nb_len b"
proof -
  have l: "nb_data b + nb_len b \<le> length (nb_buf b)" using assms(1) by (simp add: wf_buf_def)
  have "nb_write (nb_data b + i) [v] b = b\<lparr>nb_buf := (nb_buf b)[nb_data b + i := v]\<rparr>"
    using l assms(2) by (simp add: nb_write_def mem_write_def upd_conv_take_nth_drop)
  then show "wf_buf (nb_write (nb_data b + i) [v] b)" "nb_bytes (nb_write (nb_data b + i) [v] b) = (nb_bytes b)[i := v]"
      "net_buf_simple_tailroom (nb_write (nb_data b + i) [v] b) = net_buf_simple_tailroom b"
      "nb_len (nb_write (nb_data b + i) [v] b) = nb_len b"
    using assms l by (simp_all add: wf_buf_def nb_defs nb_bytes_def drop_update_swap take_update_swap)
qed

lemma from_bytes: "i < nb_len b \<Longrightarrow> nb_from 0 b ! i = nb_bytes b ! i"
  by (simp add: nb_bytes_from)

lemma high_bit: "(b :: u8) AND 0x80 = 0 \<and> drop_bit 7 b = 0 \<or> b AND 0x80 = 0x80 \<and> drop_bit 7 b = 1"
proof -
  have "\<forall>n \<in> set [0..<256]. (let b = word_of_nat n :: u8 in
      b AND 0x80 = 0 \<and> drop_bit 7 b = 0 \<or> b AND 0x80 = 0x80 \<and> drop_bit 7 b = 1)"
    by code_simp
  moreover have "unat b \<in> set [0..<256]" using unsigned_less [of b] by simp
  ultimately have "let b = word_of_nat (unat b) :: u8 in
      b AND 0x80 = 0 \<and> drop_bit 7 b = 0 \<or> b AND 0x80 = 0x80 \<and> drop_bit 7 b = 1"
    by (rule bspec)
  then show ?thesis by (simp add: Let_def)
qed

lemma relay_mic:
  assumes "2 \<le> length pdu" "ctx_recv_ttl (rx_ctx rx) = TTL pdu" "1 < ctx_recv_ttl (rx_ctx rx)"
  shows "NET_MIC_LEN (relay_pdu ne rx pdu) = NET_MIC_LEN pdu" "length (relay_pdu ne rx pdu) = length pdu"
    "TTL (relay_pdu ne rx pdu) = TTL pdu - 1" "CTL (relay_pdu ne rx pdu) = CTL pdu"
proof -
  have ttl: "TTL pdu - 1 < 0x80"
  proof -
    have "unat (TTL pdu) \<le> unat (0x7f :: u8)" unfolding TTL_def by (metis word_and_le1 word_le_nat_alt)
    moreover have "unat (TTL pdu - 1) \<le> unat (TTL pdu)"
      using assms(2,3) by (simp add: word_less_nat_alt unat_sub_if')
    ultimately show ?thesis by (simp add: word_less_nat_alt)
  qed
  have p1: "relay_pdu ne rx pdu ! 1 = (pdu ! 1 AND 0x80) OR (TTL pdu - 1)"
    using assms(1,2) by (simp add: relay_pdu_def Let_def)
  show "length (relay_pdu ne rx pdu) = length pdu" by (simp add: relay_pdu_def Let_def)
  note s = seven_bits [OF ttl]
  note hi = high_bit [of "pdu ! 1"]
  show "NET_MIC_LEN (relay_pdu ne rx pdu) = NET_MIC_LEN pdu" "TTL (relay_pdu ne rx pdu) = TTL pdu - 1"
      "CTL (relay_pdu ne rx pdu) = CTL pdu"
    using hi s p1 unfolding NET_MIC_LEN_def CTL_def TTL_def [of "relay_pdu ne rx pdu"] by (auto simp: or.commute)
qed

lemma relay_exact:
  assumes "wf_buf sbuf" "10 \<le> nb_len sbuf" "nb_len sbuf + NET_MIC_LEN (nb_bytes sbuf) \<le> BT_MESH_NET_MAX_PDU_LEN"
    and "ctx_recv_ttl (rx_ctx rx) = TTL (nb_bytes sbuf)" "\<And>b. ne_adv_buf ne = Some b \<Longrightarrow> adv_buf_ok b"
  shows "bt_mesh_net_relay cfg ne sbuf rx nl =
    Some (nl\<lparr>nl_out := nl_out nl @ relay_outputs cfg ne nl rx (nb_bytes sbuf)\<rparr>)"
proof (cases "relay_dropped ne rx")
  case True
  then show ?thesis
    by (auto simp: relay_dropped_def relay_outputs_def bt_mesh_net_relay_def Let_def split: option.splits)
next
  case False
  then obtain b where b: "ne_adv_buf ne = Some b" and ttl: "1 < ctx_recv_ttl (rx_ctx rx)" by (auto simp: relay_dropped_def)
  have ok: "wf_buf b" "nb_len b = 0" "BT_MESH_NET_MAX_PDU_LEN \<le> net_buf_simple_tailroom b"
    using assms(5) [OF b] by (auto simp: adv_buf_ok_def)
  define cred where "cred = (let sub = ne_subnets ne ! rx_sub rx in sk_msg (sn_keys sub ! SUBNET_KEY_TX_IDX sub))"
  define s1 where "s1 = nb_write (nb_data sbuf + 1) [(nb_from 0 sbuf ! 1 AND 0x80) OR (ctx_recv_ttl (rx_ctx rx) - 1)] sbuf"
  define pdu1 where "pdu1 = (nb_bytes sbuf)[1 := (nb_bytes sbuf ! 1 AND 0x80) OR (ctx_recv_ttl (rx_ctx rx) - 1)]"
  have s1: "nb_bytes s1 = pdu1" using write_byte(2) [OF assms(1), of 1] assms(2) by (simp add: s1_def pdu1_def from_bytes)
  have len: "length pdu1 = nb_len sbuf" using assms(1) by (simp add: pdu1_def)
  obtain b1 where b1: "net_buf_simple_add_mem pdu1 b = Some b1" "wf_buf b1" "nb_bytes b1 = pdu1" "nb_len b1 = nb_len sbuf"
      "net_buf_simple_tailroom b1 = net_buf_simple_tailroom b - nb_len sbuf"
    using add_bytes [OF ok(1), of pdu1] ok len assms(3) by (auto simp: nb_bytes_def nb_read_def)
  define b2 where "b2 = (if rx_friend_cred rx then nb_write (nb_data b1) [(nb_from 0 b1 ! 0 AND 0x80) OR cr_nid cred] b1 else b1)"
  have b2: "wf_buf b2" "nb_bytes b2 = relay_pdu ne rx (nb_bytes sbuf)" "nb_len b2 = nb_len sbuf"
      "net_buf_simple_tailroom b2 = net_buf_simple_tailroom b - nb_len sbuf"
    using write_byte [OF b1(2), of 0] b1 assms(2)
    by (auto simp: b2_def relay_pdu_def from_bytes pdu1_def cred_def Let_def)
  note mic = relay_mic [of "nb_bytes sbuf" rx ne, OF _ assms(4) ttl]
  have "NET_MIC_LEN (nb_bytes b2) \<le> net_buf_simple_tailroom b2"
    using b2(2,4) mic(1) assms(1-3) ok(3) by simp
  then obtain b3 where b3: "net_encrypt ne b2 cred (BT_MESH_NET_IVI_RX (nl_net nl) rx) False = Some (None, b3)"
      "nb_bytes b3 = net_wire (ne_cfg_proxy ne) False cred (BT_MESH_NET_IVI_RX (nl_net nl) rx) (relay_pdu ne rx (nb_bytes sbuf))"
    using net_encrypt_bytes [OF b2(1)] b2(2,3) assms(2) by metis
  have "bt_mesh_net_relay cfg ne sbuf rx nl =
      (let nl1 = (if cfg_gatt_proxy cfg \<and> (rx_friend_cred rx \<or> ne_gatt_proxy ne = BT_MESH_FEATURE_ENABLED)
                  then net_output (Proxy_relay (nb_bytes b3) (ctx_recv_dst (rx_ctx rx))) nl else nl)
       in if relay_to_adv ne (rx_net_if rx) \<or> rx_friend_cred rx then Some (net_output (Adv_send (nb_bytes b3)) nl1) else Some nl1)"
    using False b b1(1) b3(1) [unfolded b2_def]
    unfolding bt_mesh_net_relay_def Let_def relay_dropped_def cred_def [unfolded Let_def, symmetric] s1_def [symmetric]
    by (cases "rx_friend_cred rx") (auto simp: s1)
  then show ?thesis
    using False b3(2) by (simp add: relay_outputs_def net_output_def cred_def Let_def)
qed

lemma recv_total:
  assumes "wf_buf dat" "\<And>b. ne_adv_buf ne = Some b \<Longrightarrow> adv_buf_ok b"
    and "\<And>p rx. ctx_recv_ttl (rx_ctx (snd (ne_trans_recv ne p rx))) = ctx_recv_ttl (rx_ctx rx)"
  shows "\<exists>nl'. bt_mesh_net_recv cfg ne dat rssi net_if nl = Some nl'"
proof (cases "bm_valid (nl_net nl)")
  case True
  have out0: "out_ok net_rx_buf"
    by (simp add: out_ok_def net_rx_buf_def wf_buf_def BT_MESH_NET_MAX_PDU_LEN_def BT_MESH_NET_HDR_LEN_def)
  obtain err rx out nl1 where dec: "bt_mesh_net_decode ne dat net_if (net_rx_init rssi) net_rx_buf nl = Some (err, rx, out, nl1)"
      "err = None \<Longrightarrow> rx_accepted ne nl dat net_if rx out \<and> BT_MESH_NET_MIN_PDU_LEN \<le> nb_len dat \<and> nb_len dat \<le> BT_MESH_NET_MAX_PDU_LEN"
    using decode_ok [OF assms(1) out0, of ne net_if "net_rx_init rssi" nl] by blast
  show ?thesis
  proof (cases err)
    case None
    have acc: "wf_buf out" "nb_data out = 0" "nb_len out + NET_MIC_LEN (nb_from 0 out) = nb_len dat"
        "ctx_recv_ttl (rx_ctx rx) = TTL (nb_from 0 out)" "18 \<le> nb_len dat" "nb_len dat \<le> BT_MESH_NET_MAX_PDU_LEN"
      using dec(2) [OF None]
      by (auto simp: rx_accepted_def out_ok_def rx_decrypted_def BT_MESH_NET_MIN_PDU_LEN_def BT_MESH_NET_HDR_LEN_def)
    have len: "10 \<le> nb_len out" using acc(3,5) net_mic_bound [of "nb_from 0 out"] by linarith
    then have eq: "nb_from 0 out ! 1 = nb_bytes out ! 1" by (simp add: from_bytes)
    have relay: "\<exists>nl'. bt_mesh_net_relay cfg ne out rx' nl2 = Some nl'"
      if "ctx_recv_ttl (rx_ctx rx') = ctx_recv_ttl (rx_ctx rx)" for rx' nl2
      using relay_exact [OF acc(1) len, of rx' ne cfg nl2] assms(2) that acc(3,4,6) eq
      by (auto simp: NET_MIC_LEN_def TTL_def)
    have "\<exists>nl'. net_recv_deliver cfg ne out (rx\<lparr>rx_local_match := m\<rparr>) nl2 = Some nl'" for m nl2
      using relay by (simp add: net_recv_deliver_def Let_def assms(3))
    then show ?thesis using recv_after_decode [OF True dec(1), of cfg] by metis
  qed (use True dec(1) in \<open>auto simp: bt_mesh_net_recv_def\<close>)
qed (simp add: bt_mesh_net_recv_def)

section \<open>Properties\<close>

text \<open>
  Two nodes of one subnet: the first sends, the second receives; both hold the same
  credentials, of which only the network identifier matters for what follows.
\<close>

definition link_cred :: bt_mesh_net_cred where
  "link_cred = \<lparr>cr_nid = 0x68, cr_enc = replicate 16 1, cr_privacy = replicate 16 2\<rparr>"

definition link_subnet :: bt_mesh_subnet where
  "link_subnet = unused_subnet\<lparr>sn_net_idx := 0, sn_keys := [zero_subnet_keys\<lparr>sk_valid := True, sk_msg := link_cred\<rparr>, zero_subnet_keys]\<rparr>"

definition link_env :: net_env where
  "link_env = \<lparr>ne_iv = env_example, ne_cfg_proxy = True, ne_has_addr = (\<lambda>a. a = 7), ne_fixed_group = (\<lambda>a. a = 0xffff),
     ne_relay_enabled = True, ne_gatt_proxy = BT_MESH_FEATURE_DISABLED, ne_subnets = [link_subnet], ne_lpn_waiting = None,
     ne_lpn_frnd = None, ne_friends = [], ne_loopback_buf = True,
     ne_adv_buf = Some \<lparr>nb_data = 0, nb_len = 0, nb_size = 29, nb_buf = replicate 29 0\<rparr>,
     ne_proxy_relay = (\<lambda>_ _. False), ne_trans_recv = (\<lambda>_ rx. (None, rx))\<rparr>"

definition link_layer :: net_layer where
  "link_layer = \<lparr>nl_net = node_example, nl_msg_cache = replicate 4 \<lparr>mc_src = 0, mc_seq = 0\<rparr>, nl_msg_cache_next = 0,
     nl_dup_cache = replicate 4 0, nl_dup_cache_next = 0, nl_local_queue = [], nl_out = []\<rparr>"

definition link_tx :: bt_mesh_net_tx where
  "link_tx = \<lparr>tx_sub = 0, tx_ctx = \<lparr>ctx_net_idx = 0, ctx_app_idx = 0, ctx_addr = 0xc001, ctx_recv_dst = 0, ctx_recv_rssi = 0,
     ctx_recv_ttl = 0, ctx_send_rel = False, ctx_send_ttl = 5\<rparr>, tx_src = 3, tx_xmit = 0, tx_friend_cred = False,
     tx_aszmic = False, tx_aid = 0\<rparr>"

definition link_buf :: net_buf_simple where
  "link_buf = \<lparr>nb_data = 9, nb_len = 6, nb_size = 40, nb_buf = replicate 40 7\<rparr>"

lemma link_sender:
  "net_tx_cred_get link_env link_tx = (link_cred, link_tx)"
  "\<exists>st. bt_mesh_next_seq cfg_example env_example node_example = (9, st) \<and> BT_MESH_NET_IVI_TX st = 5"
  "tx_ready link_tx link_cred 9 link_buf"
  by (simp_all add: net_tx_cred_get_def link_env_def link_tx_def link_subnet_def unused_subnet_def SUBNET_KEY_TX_IDX_def
      bt_mesh_next_seq_def cfg_example_def env_example_def node_example_def store_seq_def net_call_def BT_MESH_NET_IVI_TX_def
      tx_ready_def link_cred_def link_buf_def wf_buf_def nb_defs BT_MESH_NET_MIN_PDU_LEN_def BT_MESH_NET_MAX_PDU_LEN_def
      BT_MESH_NET_HDR_LEN_def)

lemma link_receiver:
  "rx_ready link_env link_layer net_if 5 3 0xc001 9 (0, 0, False, link_cred)"
  by (simp add: rx_ready_def link_env_def link_layer_def node_example_def link_subnet_def unused_subnet_def link_cred_def
      cred_attempts_def cred_attempts_of_def zero_subnet_keys_def BT_MESH_ADDR_IS_UNICAST_def)

text \<open>
  C10: what \<open>bt_mesh_net_encode\<close> writes for a message decodes at every node that is ready for it:
  \<open>bt_mesh_net_decode\<close> accepts the same bytes, recovers the payload, the addresses, the
  sequence number, the time to live and the kind of the message, and names the subnet, the
  key and the IV index it was sent with.
\<close>

theorem net_encode_decode:
  assumes "net_tx_cred_get ne tx = (cred, tx')" "bt_mesh_next_seq cfg (ne_iv ne) st = (seq, st')" "tx_ready tx cred seq buf"
    and "rx_ready ne' nl net_if (BT_MESH_NET_IVI_TX st') (tx_src tx) (ctx_addr (tx_ctx tx)) seq (i, j, friend, cred)"
    and "ne_cfg_proxy ne' = ne_cfg_proxy ne" "out_ok out"
  shows "\<exists>buf'. bt_mesh_net_encode cfg ne tx buf (net_if = BT_MESH_NET_IF_PROXY_CFG) st = Some (None, buf', st') \<and> wf_buf buf' \<and>
    (\<forall>inb. wf_buf inb \<and> nb_bytes inb = nb_bytes buf' \<and> (net_if = BT_MESH_NET_IF_ADV \<longrightarrow> \<not> fst (check_dup inb nl)) \<longrightarrow>
      (\<exists>rx' out' nl'. bt_mesh_net_decode ne' inb net_if rx out nl = Some (None, rx', out', nl') \<and>
        drop 9 (nb_bytes out') = nb_bytes buf \<and>
        rx_matches (ctx_app_idx (tx_ctx tx) = BT_MESH_KEY_UNUSED) (ctx_send_ttl (tx_ctx tx)) seq (tx_src tx) (ctx_addr (tx_ctx tx)) rx' \<and>
        rx_sub rx' = i \<and> rx_new_key rx' = (0 < j) \<and> rx_friend_cred rx' = friend \<and>
        rx_old_iv rx' = (bm_iv_index (nl_net nl) \<noteq> BT_MESH_NET_IVI_TX st')))"
  by (rule encode_decode [OF assms])

lemma out_ok_rx_buf: "out_ok net_rx_buf"
  by (simp add: out_ok_def net_rx_buf_def wf_buf_def BT_MESH_NET_MAX_PDU_LEN_def BT_MESH_NET_HDR_LEN_def)

lemma link_fields:
  "ne_iv link_env = env_example" "tx_src link_tx = 3" "ctx_addr (tx_ctx link_tx) = 0xc001"
  by (simp_all add: link_env_def link_tx_def)

theorem net_encode_decode_witness:
  "\<exists>st' buf'. net_tx_cred_get link_env link_tx = (link_cred, link_tx) \<and>
    bt_mesh_next_seq cfg_example (ne_iv link_env) node_example = (9, st') \<and> tx_ready link_tx link_cred 9 link_buf \<and>
    rx_ready link_env link_layer BT_MESH_NET_IF_PROXY (BT_MESH_NET_IVI_TX st') (tx_src link_tx) (ctx_addr (tx_ctx link_tx)) 9
      (0, 0, False, link_cred) \<and>
    bt_mesh_net_encode cfg_example link_env link_tx link_buf False node_example = Some (None, buf', st') \<and>
    (\<exists>rx' out' nl'. bt_mesh_net_decode link_env buf' BT_MESH_NET_IF_PROXY (net_rx_init 0) net_rx_buf link_layer =
        Some (None, rx', out', nl') \<and> drop 9 (nb_bytes out') = nb_bytes link_buf \<and>
      rx_matches (ctx_app_idx (tx_ctx link_tx) = BT_MESH_KEY_UNUSED) (ctx_send_ttl (tx_ctx link_tx)) 9 3 0xc001 rx')"
proof -
  obtain st' where st': "bt_mesh_next_seq cfg_example (ne_iv link_env) node_example = (9, st')" "BT_MESH_NET_IVI_TX st' = 5"
    using link_sender(2) by (auto simp: link_fields)
  have rx: "rx_ready link_env link_layer BT_MESH_NET_IF_PROXY (BT_MESH_NET_IVI_TX st') (tx_src link_tx)
      (ctx_addr (tx_ctx link_tx)) 9 (0, 0, False, link_cred)"
    using link_receiver by (simp add: st'(2) link_fields)
  note t = net_encode_decode [OF link_sender(1) st'(1) link_sender(3) rx refl out_ok_rx_buf, of "net_rx_init 0"]
  from t obtain buf' where buf': "bt_mesh_net_encode cfg_example link_env link_tx link_buf False node_example = Some (None, buf', st')"
      "wf_buf buf'" "\<exists>rx' out' nl'. bt_mesh_net_decode link_env buf' BT_MESH_NET_IF_PROXY (net_rx_init 0) net_rx_buf link_layer =
        Some (None, rx', out', nl') \<and> drop 9 (nb_bytes out') = nb_bytes link_buf \<and>
      rx_matches (ctx_app_idx (tx_ctx link_tx) = BT_MESH_KEY_UNUSED) (ctx_send_ttl (tx_ctx link_tx)) 9 3 0xc001 rx'"
    unfolding link_fields by (simp only: bt_mesh_net_if.distinct simp_thms) metis
  then show ?thesis using st'(1) rx link_sender(1,3) by blast
qed

text \<open>
  C12: a message is accepted at most once: after \<open>bt_mesh_net_decode\<close> has accepted a PDU and fewer
  other PDUs than the message cache has entries have been received, none of which the
  transport layer asked to see again, no PDU that is accepted from the advertising bearer has
  the same source address and the same low 17 bits of the sequence number.  What comes from a
  GATT proxy client is not looked up in the cache and not covered.
\<close>

theorem net_accepts_once:
  assumes "wf_buf dat1" "out_ok out1" "nl_msg_cache_next nl < length (nl_msg_cache nl)"
    and "bt_mesh_net_decode ne1 dat1 net_if rx0 out1 nl = Some (None, rx1, buf1, nl1)"
    and "net_receptions cfg rs nl1 = Some nl2" "length rs < length (nl_msg_cache nl)"
    and "\<forall>(ne, _) \<in> set rs. \<forall>p rx. fst (ne_trans_recv ne p rx) \<noteq> Some EAGAIN"
  shows "\<nexists>ne2 dat2 rx out2 rx2 buf2 nl3. wf_buf dat2 \<and> out_ok out2 \<and>
    bt_mesh_net_decode ne2 dat2 BT_MESH_NET_IF_ADV rx out2 nl2 = Some (None, rx2, buf2, nl3) \<and>
    rx_addr rx2 = rx_addr rx1 \<and> rx_seq rx2 AND mask 17 = rx_seq rx1 AND mask 17"
proof (intro notI, elim exE conjE)
  fix ne2 dat2 rx out2 rx2 buf2 nl3
  assume second: "wf_buf dat2" "out_ok out2" "bt_mesh_net_decode ne2 dat2 BT_MESH_NET_IF_ADV rx out2 nl2 = Some (None, rx2, buf2, nl3)"
    and same: "rx_addr rx2 = rx_addr rx1" "rx_seq rx2 AND mask 17 = rx_seq rx1 AND mask 17"
  define e where "e = \<lparr>mc_src = ucast (rx_addr rx1), mc_seq = ucast (rx_seq rx1)\<rparr>"
  obtain nl0 where nl0: "nl1 = msg_cache_put e nl0" "nl_msg_cache nl0 = nl_msg_cache nl" "nl_msg_cache_next nl0 = nl_msg_cache_next nl"
      and acc1: "rx_accepted ne1 nl dat1 net_if rx1 buf1"
    using decode_ok [OF assms(1,2), of ne1 net_if rx0 nl] assms(4) by (auto simp: e_def)
  have step: "msg_cache.kept_or_put nl nl'"
    if "(ne, dat, rssi, net_if) \<in> set rs" "bt_mesh_net_recv cfg ne dat rssi net_if nl = Some nl'" for ne dat rssi net_if nl nl'
    using recv_msg_step [OF that(2)] assms(7) that(1) by auto
  obtain ss where ss: "length ss = length rs" "last (nl1 # ss) = nl2"
      "\<forall>i < length ss. msg_cache.kept_or_put ((nl1 # ss) ! i) (ss ! i)"
    using receptions_states [where R = msg_cache.kept_or_put, OF assms(5)] step by blast
  have "e \<in> set (nl_msg_cache nl2)"
    using msg_cache.recent [of nl0 nl1 e ss] ss nl0 assms(3,6) by simp
  moreover have acc2: "rx_accepted ne2 nl2 dat2 BT_MESH_NET_IF_ADV rx2 buf2"
    using decode_ok [OF second(1,2), of ne2 BT_MESH_NET_IF_ADV rx nl2] second(3) by auto
  ultimately have "unat (mc_src e) \<noteq> unat (rx_addr rx2) \<or> unat (mc_seq e) \<noteq> unat (rx_seq rx2 AND mask 17)"
    by (auto simp: rx_accepted_def rx_decrypted_def msg_cache_match_def)
  moreover have "unat (rx_addr rx1) < 2 ^ 15"
    using acc1 by (auto simp: rx_accepted_def rx_decrypted_def BT_MESH_ADDR_IS_UNICAST_def word_less_nat_alt)
  ultimately show False
    using same by (auto simp: e_def unsigned_ucast_eq take_bit_nat_eq_self unsigned_take_bit_eq take_bit_eq_mask [symmetric])
      (metis unsigned_take_bit_eq)
qed

lemma link_accepted:
  "\<exists>buf' rx' out' nl'. wf_buf buf' \<and>
     bt_mesh_net_decode link_env buf' BT_MESH_NET_IF_PROXY (net_rx_init 0) net_rx_buf link_layer = Some (None, rx', out', nl')"
proof -
  obtain st' where st': "bt_mesh_next_seq cfg_example (ne_iv link_env) node_example = (9, st')" "BT_MESH_NET_IVI_TX st' = 5"
    using link_sender(2) by (auto simp: link_fields)
  have rx: "rx_ready link_env link_layer BT_MESH_NET_IF_PROXY (BT_MESH_NET_IVI_TX st') (tx_src link_tx)
      (ctx_addr (tx_ctx link_tx)) 9 (0, 0, False, link_cred)"
    using link_receiver by (simp add: st'(2) link_fields)
  from encode_decode [OF link_sender(1) st'(1) link_sender(3) rx refl out_ok_rx_buf, of "net_rx_init 0"]
  show ?thesis by (simp only: bt_mesh_net_if.distinct simp_thms) metis
qed

theorem net_accepts_once_witness:
  "\<exists>dat1 rx1 buf1 nl1. wf_buf dat1 \<and> out_ok net_rx_buf \<and> nl_msg_cache_next link_layer < length (nl_msg_cache link_layer) \<and>
    bt_mesh_net_decode link_env dat1 BT_MESH_NET_IF_PROXY (net_rx_init 0) net_rx_buf link_layer = Some (None, rx1, buf1, nl1) \<and>
    net_receptions cfg_example [] nl1 = Some nl1 \<and> length ([] :: reception list) < length (nl_msg_cache link_layer) \<and>
    (\<nexists>ne2 dat2 rx out2 rx2 buf2 nl3. wf_buf dat2 \<and> out_ok out2 \<and>
      bt_mesh_net_decode ne2 dat2 BT_MESH_NET_IF_ADV rx out2 nl1 = Some (None, rx2, buf2, nl3) \<and>
      rx_addr rx2 = rx_addr rx1 \<and> rx_seq rx2 AND mask 17 = rx_seq rx1 AND mask 17)"
proof -
  obtain dat1 rx1 buf1 nl1 where first: "wf_buf dat1"
      "bt_mesh_net_decode link_env dat1 BT_MESH_NET_IF_PROXY (net_rx_init 0) net_rx_buf link_layer = Some (None, rx1, buf1, nl1)"
    using link_accepted by blast
  have cache: "nl_msg_cache_next link_layer < length (nl_msg_cache link_layer)"
      "length ([] :: reception list) < length (nl_msg_cache link_layer)"
    by (simp_all add: link_layer_def)
  have run: "net_receptions cfg_example [] nl1 = Some nl1" "\<forall>(ne, _) \<in> set ([] :: reception list). \<forall>p rx. fst (ne_trans_recv ne p rx) \<noteq> Some EAGAIN"
    by simp_all
  note t = net_accepts_once [OF first(1) out_ok_rx_buf cache(1) first(2) run(1) cache(2) run(2)]
  show ?thesis using first cache run(1) out_ok_rx_buf t by blast
qed

text \<open>
  C11: reception never fails an assertion of a packet buffer, whatever bytes arrive on whatever
  interface and whatever keys the node holds: if the received bytes are a well-formed buffer
  and advertising buffers have the size of the largest PDU, \<open>bt_mesh_net_recv\<close> completes.  The
  transport layer is assumed to leave the received time to live alone.
\<close>

theorem bt_mesh_net_recv_completes:
  assumes "wf_buf dat" "\<And>b. ne_adv_buf ne = Some b \<Longrightarrow> adv_buf_ok b"
    and "\<And>p rx. ctx_recv_ttl (rx_ctx (snd (ne_trans_recv ne p rx))) = ctx_recv_ttl (rx_ctx rx)"
  shows "\<exists>nl'. bt_mesh_net_recv cfg ne dat rssi net_if nl = Some nl'"
  by (rule recv_total [OF assms])

lemma link_env_ok:
  "ne_adv_buf link_env = Some b \<Longrightarrow> adv_buf_ok b"
  "ctx_recv_ttl (rx_ctx (snd (ne_trans_recv link_env p rx))) = ctx_recv_ttl (rx_ctx rx)"
  by (auto simp: link_env_def adv_buf_ok_def wf_buf_def nb_defs BT_MESH_NET_MAX_PDU_LEN_def BT_MESH_NET_HDR_LEN_def)

lemma link_env_adv: "ne_adv_buf link_env = Some \<lparr>nb_data = 0, nb_len = 0, nb_size = 29, nb_buf = replicate 29 0\<rparr>"
  by (simp add: link_env_def)

theorem bt_mesh_net_recv_completes_witness:
  "wf_buf net_rx_buf \<and> (\<exists>b. ne_adv_buf link_env = Some b \<and> adv_buf_ok b) \<and>
   (\<exists>nl'. bt_mesh_net_recv cfg_example link_env (net_rx_buf\<lparr>nb_len := 29\<rparr>) 0 BT_MESH_NET_IF_ADV link_layer = Some nl')"
proof -
  have "wf_buf net_rx_buf" "wf_buf (net_rx_buf\<lparr>nb_len := 29\<rparr>)"
    by (simp_all add: net_rx_buf_def wf_buf_def BT_MESH_NET_MAX_PDU_LEN_def BT_MESH_NET_HDR_LEN_def)
  then show ?thesis
    using bt_mesh_net_recv_completes [of "net_rx_buf\<lparr>nb_len := 29\<rparr>" link_env cfg_example 0 BT_MESH_NET_IF_ADV link_layer, OF _ link_env_ok]
      link_env_ok(1) [OF link_env_adv] link_env_adv by blast
qed

text \<open>
  C13: a relayed PDU is the received one with the time to live one lower, sealed with the
  credentials of the subnet's current key and the IV index it was received with, on the
  interfaces the features allow; with a time to live of at most one, a disabled feature or
  no buffer, nothing is sent.  Nothing else changes.
\<close>

theorem bt_mesh_net_relay_exact:
  assumes "wf_buf sbuf" "10 \<le> nb_len sbuf" "nb_len sbuf + NET_MIC_LEN (nb_bytes sbuf) \<le> BT_MESH_NET_MAX_PDU_LEN"
    and "ctx_recv_ttl (rx_ctx rx) = TTL (nb_bytes sbuf)" "\<And>b. ne_adv_buf ne = Some b \<Longrightarrow> adv_buf_ok b"
  shows "bt_mesh_net_relay cfg ne sbuf rx nl = Some (nl\<lparr>nl_out := nl_out nl @ relay_outputs cfg ne nl rx (nb_bytes sbuf)\<rparr>) \<and>
    (\<not> relay_dropped ne rx \<longrightarrow> TTL (relay_pdu ne rx (nb_bytes sbuf)) = TTL (nb_bytes sbuf) - 1 \<and>
      CTL (relay_pdu ne rx (nb_bytes sbuf)) = CTL (nb_bytes sbuf) \<and> drop 2 (relay_pdu ne rx (nb_bytes sbuf)) = drop 2 (nb_bytes sbuf))"
proof (intro conjI [OF relay_exact [OF assms]] impI)
  assume "\<not> relay_dropped ne rx"
  then have "1 < ctx_recv_ttl (rx_ctx rx)" by (auto simp: relay_dropped_def)
  note mic = relay_mic [of "nb_bytes sbuf" rx ne, OF _ assms(4) this]
  have "drop 2 (relay_pdu ne rx (nb_bytes sbuf)) = drop 2 (nb_bytes sbuf)"
    by (simp add: relay_pdu_def Let_def)
  then show "TTL (relay_pdu ne rx (nb_bytes sbuf)) = TTL (nb_bytes sbuf) - 1 \<and>
      CTL (relay_pdu ne rx (nb_bytes sbuf)) = CTL (nb_bytes sbuf) \<and> drop 2 (relay_pdu ne rx (nb_bytes sbuf)) = drop 2 (nb_bytes sbuf)"
    using mic(3,4) assms(1,2) by simp
qed

definition relay_rx :: bt_mesh_net_rx where
  "relay_rx = (net_rx_init 0)\<lparr>rx_ctx := (rx_ctx (net_rx_init 0))\<lparr>ctx_recv_ttl := 7\<rparr>\<rparr>"

definition relay_buf :: net_buf_simple where
  "relay_buf = \<lparr>nb_data = 0, nb_len = 20, nb_size = 29, nb_buf = replicate 29 7\<rparr>"

theorem bt_mesh_net_relay_exact_witness:
  "wf_buf relay_buf \<and> nb_len relay_buf + NET_MIC_LEN (nb_bytes relay_buf) \<le> BT_MESH_NET_MAX_PDU_LEN \<and>
   ctx_recv_ttl (rx_ctx relay_rx) = TTL (nb_bytes relay_buf) \<and> \<not> relay_dropped link_env relay_rx \<and>
   bt_mesh_net_relay cfg_example link_env relay_buf relay_rx link_layer =
     Some (link_layer\<lparr>nl_out := nl_out link_layer @ relay_outputs cfg_example link_env link_layer relay_rx (nb_bytes relay_buf)\<rparr>) \<and>
   TTL (relay_pdu link_env relay_rx (nb_bytes relay_buf)) = TTL (nb_bytes relay_buf) - 1"
proof -
  have h: "wf_buf relay_buf" "10 \<le> nb_len relay_buf" "nb_len relay_buf + NET_MIC_LEN (nb_bytes relay_buf) \<le> BT_MESH_NET_MAX_PDU_LEN"
      "ctx_recv_ttl (rx_ctx relay_rx) = TTL (nb_bytes relay_buf)" "\<not> relay_dropped link_env relay_rx"
    by (simp_all add: relay_buf_def relay_rx_def net_rx_init_def wf_buf_def nb_bytes_def nb_read_def NET_MIC_LEN_def TTL_def
        relay_dropped_def link_env_def BT_MESH_NET_MAX_PDU_LEN_def BT_MESH_NET_HDR_LEN_def word_le_nat_alt)
  note t = bt_mesh_net_relay_exact [of relay_buf relay_rx link_env cfg_example link_layer, OF h(1-4) link_env_ok(1)]
  show ?thesis using h t by blast
qed

end
