(* ===== verification/Mesh_Keys.thy ===== *)
theory Mesh_Keys
  imports Mesh_Subnet
begin

text \<open>
  The two key tables together (\<open>core/src/mesh/subnet.c\<close>, \<open>core/src/mesh/app_keys.c\<close>): the
  invariant every operation keeps, the Key Refresh procedure, deletion, and the relation
  between the tables and persistent storage.

  \<open>keys_step\<close> is one call of the modules' interface with arguments in their documented ranges:
  indices below 4096 (twelve bits) and keys of sixteen bytes.  Loading from storage happens
  before the first such call and is treated on its own.
\<close>

section \<open>The effect of events on the application keys\<close>

lemma fold_update_each:
  assumes "\<And>i ks. i < length (g ks) \<Longrightarrow> g (step i ks) = (g ks)[i := f (g ks ! i)]" "k \<le> length (g ks)"
  shows "g (fold step [0..<k] ks) = map f (take k (g ks)) @ drop k (g ks)"
  using assms(2)
proof (induction k)
  case (Suc k)
  let ?s = "fold step [0..<k] ks"
  have IH: "g ?s = map f (take k (g ks)) @ drop k (g ks)" and k: "k < length (g ks)" using Suc by auto
  have "length (g ?s) = length (g ks)" unfolding IH using k by simp
  then have "g (step k ?s) = (g ?s)[k := f (g ?s ! k)]" using assms(1) k by simp
  also have "\<dots> = map f (take k (g ks)) @ (drop k (g ks))[0 := f (g ks ! k)]"
    unfolding IH using k by (simp add: list_update_append nth_append min_def)
  also have "\<dots> = map f (take (Suc k) (g ks)) @ drop (Suc k) (g ks)"
    using k by (simp add: take_Suc_conv_app_nth Cons_nth_drop_Suc [symmetric])
  finally show ?case by simp
qed simp

lemma keys_call_tables [simp]:
  "ks_subnets (keys_call c ks) = ks_subnets ks" "ks_apps (keys_call c ks) = ks_apps ks"
  "ks_net_key_updates (keys_call c ks) = ks_net_key_updates ks"
  "ks_app_key_updates (keys_call c ks) = ks_app_key_updates ks"
  "ks_calls (keys_call c ks) = ks_calls ks @ [c]"
  by (simp_all add: keys_call_def)

lemma app_storage_tables [simp]:
  "ks_subnets (clear_app_key k ks) = ks_subnets ks" "ks_apps (clear_app_key k ks) = ks_apps ks"
  "ks_subnets (store_app_key k ks) = ks_subnets ks" "ks_apps (store_app_key k ks) = ks_apps ks"
  "ks_subnets (update_app_key_settings k b ks) = ks_subnets ks" "ks_apps (update_app_key_settings k b ks) = ks_apps ks"
  "ks_subnets (app_key_evt a e ks) = ks_subnets ks" "ks_apps (app_key_evt a e ks) = ks_apps ks"
  by (simp_all add: clear_app_key_def store_app_key_def update_app_key_settings_def app_key_evt_def split: option.split)

lemma net_storage_tables [simp]:
  "ks_subnets (clear_net_key k ks) = ks_subnets ks" "ks_apps (clear_net_key k ks) = ks_apps ks"
  "ks_subnets (store_subnet k ks) = ks_subnets ks" "ks_apps (store_subnet k ks) = ks_apps ks"
  "ks_subnets (update_subnet_settings k b ks) = ks_subnets ks" "ks_apps (update_subnet_settings k b ks) = ks_apps ks"
  "ks_subnets (bt_mesh_subnet_store k ks) = ks_subnets ks" "ks_apps (bt_mesh_subnet_store k ks) = ks_apps ks"
  by (simp_all add: clear_net_key_def store_subnet_def update_subnet_settings_def bt_mesh_subnet_store_def split: option.split)

lemma set_tables [simp]:
  "ks_subnets (app_set i a ks) = ks_subnets ks" "ks_apps (app_set i a ks) = (ks_apps ks)[i := a]"
  "ks_subnets (sub_set i s ks) = (ks_subnets ks)[i := s]" "ks_apps (sub_set i s ks) = ks_apps ks"
  by (simp_all add: app_set_def sub_set_def)

text \<open>What an event makes of one application key.\<close>

definition app_deleted :: "app_key \<Rightarrow> app_key" where
  "app_deleted app = app\<lparr>ap_net_idx := BT_MESH_KEY_UNUSED, ap_app_idx := BT_MESH_KEY_UNUSED,
     ap_keys := [zero_app_cred, zero_app_cred]\<rparr>"

definition app_revoked :: "app_key \<Rightarrow> app_key" where
  "app_revoked app = (if ap_updated app then app\<lparr>ap_keys := [ap_keys app ! 1, zero_app_cred], ap_updated := False\<rparr> else app)"

definition app_after :: "bt_mesh_key_evt \<Rightarrow> u16 \<Rightarrow> app_key \<Rightarrow> app_key" where
  "app_after evt net_idx app =
     (if ap_app_idx app = BT_MESH_KEY_UNUSED \<or> ap_net_idx app \<noteq> net_idx then app
      else if evt = BT_MESH_KEY_DELETED then app_deleted app
      else if evt = BT_MESH_KEY_REVOKED then app_revoked app else app)"

lemma app_key_del_tables [simp]:
  "ks_apps (app_key_del cfg i ks) = (ks_apps ks)[i := app_deleted (ks_apps ks ! i)]"
  "ks_subnets (app_key_del cfg i ks) = ks_subnets ks"
  by (simp_all add: app_key_del_def Let_def app_deleted_def)

lemma app_key_revoke_tables [simp]:
  "ks_apps (app_key_revoke cfg i ks) = (ks_apps ks)[i := app_revoked (ks_apps ks ! i)]"
  "ks_subnets (app_key_revoke cfg i ks) = ks_subnets ks"
  by (simp_all add: app_key_revoke_def Let_def app_revoked_def)

lemma app_evt_step_tables:
  "ks_apps (app_evt_step cfg n evt i ks) = (ks_apps ks)[i := app_after evt n (ks_apps ks ! i)]"
  "ks_subnets (app_evt_step cfg n evt i ks) = ks_subnets ks"
  by (simp_all add: app_evt_step_def app_after_def Let_def)

lemma fold_keeps:
  assumes "\<And>i ks. g (step i ks) = g ks"
  shows "g (fold step xs ks) = g ks"
  by (induction xs arbitrary: ks) (simp_all add: assms)

lemma app_subnet_evt_tables:
  "ks_apps (app_subnet_evt cfg s evt ks) = map (app_after evt (sn_net_idx (ks_subnets ks ! s))) (ks_apps ks)"
  "ks_subnets (app_subnet_evt cfg s evt ks) = ks_subnets ks"
proof -
  let ?n = "sn_net_idx (ks_subnets ks ! s)"
  have "evt = BT_MESH_KEY_UPDATED \<or> evt = BT_MESH_KEY_ADDED \<Longrightarrow> map (app_after evt ?n) (ks_apps ks) = ks_apps ks"
    by (rule map_idI) (auto simp: app_after_def)
  then show "ks_apps (app_subnet_evt cfg s evt ks) = map (app_after evt ?n) (ks_apps ks)"
    using fold_update_each [where g = ks_apps and step = "app_evt_step cfg ?n evt" and f = "app_after evt ?n", OF app_evt_step_tables(1) order_refl]
    by (simp add: app_subnet_evt_def)
  show "ks_subnets (app_subnet_evt cfg s evt ks) = ks_subnets ks"
    by (simp add: app_subnet_evt_def fold_keeps [where g = ks_subnets, OF app_evt_step_tables(2)])
qed

lemma subnet_evt_tables [simp]:
  "ks_apps (subnet_evt cfg s evt ks) = map (app_after evt (sn_net_idx (ks_subnets ks ! s))) (ks_apps ks)"
  "ks_subnets (subnet_evt cfg s evt ks) = ks_subnets ks"
  by (simp_all add: subnet_evt_def app_subnet_evt_tables)

section \<open>The effect of the operations on the tables\<close>

definition sub_revoked :: "bt_mesh_subnet \<Rightarrow> bt_mesh_subnet" where
  "sub_revoked sub = sub\<lparr>sn_kr_phase := 0, sn_keys := [sn_keys sub ! 1, (sn_keys sub ! 1)\<lparr>sk_valid := False\<rparr>]\<rparr>"

lemma map_app_after_keep [simp]:
  "map (app_after BT_MESH_KEY_UPDATED n) as = as" "map (app_after BT_MESH_KEY_SWAPPED n) as = as"
  "map (app_after BT_MESH_KEY_ADDED n) as = as"
  by (rule map_idI, simp add: app_after_def)+

lemma key_refresh_tables:
  fixes ks i
  defines "sub \<equiv> ks_subnets ks ! i"
  assumes "i < length (ks_subnets ks)"
  shows "p = 1 \<or> p = 2 \<Longrightarrow> ks_subnets (key_refresh cfg i p ks) = (ks_subnets ks)[i := sub\<lparr>sn_kr_phase := p\<rparr>]"
    and "p = 1 \<or> p = 2 \<Longrightarrow> ks_apps (key_refresh cfg i p ks) = ks_apps ks"
    and "p = 3 \<Longrightarrow> sn_kr_phase sub \<noteq> 0 \<Longrightarrow> ks_subnets (key_refresh cfg i p ks) = (ks_subnets ks)[i := sub_revoked sub]"
    and "p = 3 \<Longrightarrow> sn_kr_phase sub \<noteq> 0 \<Longrightarrow>
      ks_apps (key_refresh cfg i p ks) = map (app_after BT_MESH_KEY_REVOKED (sn_net_idx sub)) (ks_apps ks)"
    and "p = 3 \<Longrightarrow> sn_kr_phase sub = 0 \<Longrightarrow> key_refresh cfg i p ks = ks"
  using assms by (auto simp: key_refresh_def Let_def sub_revoked_def)

lemma subnet_del_tables [simp]:
  "i < length (ks_subnets ks) \<Longrightarrow> ks_subnets (subnet_del cfg i ks) = (ks_subnets ks)[i := unused_subnet]"
  "ks_apps (subnet_del cfg i ks) = map (app_after BT_MESH_KEY_DELETED (sn_net_idx (ks_subnets ks ! i))) (ks_apps ks)"
  by (simp_all add: subnet_del_def Let_def)

section \<open>The invariant\<close>

text \<open>Key material belongs to its key: deriving it again changes nothing.\<close>

definition keys_derived :: "mesh_cfg \<Rightarrow> bt_mesh_subnet_keys \<Rightarrow> bool" where
  "keys_derived cfg k \<longleftrightarrow> length (sk_net k) = 16 \<and> sk_valid k \<and> net_keys_create cfg (sk_net k) k = (None, k)"

definition cred_derived :: "bt_mesh_app_cred \<Rightarrow> bool" where
  "cred_derived c \<longleftrightarrow> length (ak_val c) = 16 \<and> bt_mesh_app_id (ak_val c) = Inr (ak_id c)"

text \<open>
  A subnet in normal operation has one key, in phase 1 two, in phase 2 the new one and, unless
  the node joined during the procedure, the old one.
\<close>

definition sub_ok :: "mesh_cfg \<Rightarrow> bt_mesh_subnet \<Rightarrow> bool" where
  "sub_ok cfg sub \<longleftrightarrow>
     length (sn_keys sub) = 2 \<and>
     (if sn_net_idx sub = BT_MESH_KEY_UNUSED then \<not> sk_valid (sn_keys sub ! 0) \<and> \<not> sk_valid (sn_keys sub ! 1)
      else sn_net_idx sub < 0x1000 \<and>
        (sn_kr_phase sub = 0 \<and> keys_derived cfg (sn_keys sub ! 0) \<and> \<not> sk_valid (sn_keys sub ! 1) \<or>
         sn_kr_phase sub = 1 \<and> keys_derived cfg (sn_keys sub ! 0) \<and> keys_derived cfg (sn_keys sub ! 1) \<or>
         sn_kr_phase sub = 2 \<and> keys_derived cfg (sn_keys sub ! 1) \<and>
           (sk_valid (sn_keys sub ! 0) \<longrightarrow> keys_derived cfg (sn_keys sub ! 0))))"

definition app_ok :: "bt_mesh_subnet list \<Rightarrow> app_key \<Rightarrow> bool" where
  "app_ok subs app \<longleftrightarrow>
     length (ap_keys app) = 2 \<and>
     (ap_app_idx app \<noteq> BT_MESH_KEY_UNUSED \<longrightarrow>
        ap_app_idx app < 0x1000 \<and> ap_net_idx app < 0x1000 \<and> cred_derived (ap_keys app ! 0) \<and>
        (\<exists>sub \<in> set subs. sn_net_idx sub = ap_net_idx app \<and> (ap_updated app \<longrightarrow> sn_kr_phase sub \<noteq> 0)) \<and>
        (ap_updated app \<longrightarrow> cred_derived (ap_keys app ! 1)))"

definition idx_unique :: "('a \<Rightarrow> u16) \<Rightarrow> 'a list \<Rightarrow> bool" where
  "idx_unique f xs \<longleftrightarrow>
     (\<forall>i < length xs. \<forall>j < length xs. f (xs ! i) = f (xs ! j) \<longrightarrow> f (xs ! i) \<noteq> BT_MESH_KEY_UNUSED \<longrightarrow> i = j)"

definition keys_inv :: "mesh_cfg \<Rightarrow> keys_state \<Rightarrow> bool" where
  "keys_inv cfg ks \<longleftrightarrow>
     (\<forall>sub \<in> set (ks_subnets ks). sub_ok cfg sub) \<and> idx_unique sn_net_idx (ks_subnets ks) \<and>
     (\<forall>app \<in> set (ks_apps ks). app_ok (ks_subnets ks) app) \<and> idx_unique ap_app_idx (ks_apps ks)"

lemma derivations_succeed:
  "\<exists>c. msg_cred_create [0] key = Inr c" "\<exists>x. bt_mesh_k3 key = Inr x" "\<exists>x. bt_mesh_id128 key str = Inr x"
  "\<exists>x. bt_mesh_app_id key = Inr x"
proof -
  have "length [0 :: u8] + 1 = 2" by simp
  then have "\<not> 16 dvd length [0 :: u8] + 1" by presburger
  from k2_spec [OF this] show "\<exists>c. msg_cred_create [0] key = Inr c" by (simp add: msg_cred_create_def Let_def)
qed (simp_all add: bt_mesh_k3_def bt_mesh_id128_def bt_mesh_app_id_def bt_mesh_k4_def)

lemma net_keys_create_ok:
  assumes "length key = 16"
  obtains k' where "net_keys_create cfg key k = (None, k')" "keys_derived cfg k'" "sk_net k' = key"
proof -
  obtain c ni id be where "msg_cred_create [0] key = Inr c" "bt_mesh_k3 key = Inr ni" "bt_mesh_identity_key key = Inr id"
    "bt_mesh_beacon_key key = Inr be"
    using derivations_succeed [of key] unfolding bt_mesh_identity_key_def bt_mesh_beacon_key_def by metis
  then show thesis
    using assms that by (cases "cfg_gatt_proxy cfg") (auto simp: net_keys_create_def keys_derived_def Let_def)
qed

lemma idx_unique_update:
  assumes "idx_unique f xs" "\<And>j. j < length xs \<Longrightarrow> j \<noteq> i \<Longrightarrow> f (xs ! j) = f x \<Longrightarrow> f x = BT_MESH_KEY_UNUSED"
  shows "idx_unique f (xs[i := x])"
  unfolding idx_unique_def length_list_update
proof (intro allI impI)
  fix p q assume *: "p < length xs" "q < length xs" "f (xs[i := x] ! p) = f (xs[i := x] ! q)" "f (xs[i := x] ! p) \<noteq> BT_MESH_KEY_UNUSED"
  then show "p = q"
    using assms(1) assms(2) [of p] assms(2) [of q] unfolding idx_unique_def by (cases "p = i"; cases "q = i") auto
qed

lemma idx_unique_keep:
  assumes "idx_unique f xs" "i < length xs" "f x = f (xs ! i) \<or> f x = BT_MESH_KEY_UNUSED"
  shows "idx_unique f (xs[i := x])"
proof (rule idx_unique_update [OF assms(1)])
  fix j assume "j < length xs" "j \<noteq> i" "f (xs ! j) = f x"
  then show "f x = BT_MESH_KEY_UNUSED" using assms unfolding idx_unique_def by metis
qed

lemma idx_unique_map:
  assumes "idx_unique f xs" "\<And>x. x \<in> set xs \<Longrightarrow> f (g x) = f x \<or> f (g x) = BT_MESH_KEY_UNUSED"
  shows "idx_unique f (map g xs)"
  using assms unfolding idx_unique_def by (metis length_map nth_map nth_mem)

lemma idx_unique_eq:
  assumes "idx_unique f xs" "x \<in> set xs" "y \<in> set xs" "f x = f y" "f x \<noteq> BT_MESH_KEY_UNUSED"
  shows "x = y"
  using assms unfolding idx_unique_def by (metis in_set_conv_nth)

lemma find_index_unique:
  assumes "idx_unique f xs" "i < length xs" "f (xs ! i) \<noteq> BT_MESH_KEY_UNUSED"
  shows "find_index (\<lambda>x. f x = f (xs ! i)) xs = Some i"
proof (cases "find_index (\<lambda>x. f x = f (xs ! i)) xs")
  case None
  then show ?thesis using assms(2) by (auto simp: find_index_None)
next
  case (Some j)
  then show ?thesis using find_index_Some [OF Some] assms unfolding idx_unique_def by metis
qed

lemma app_ok_mono:
  assumes "app_ok subs app"
    and "\<And>sub. sub \<in> set subs \<Longrightarrow> sn_net_idx sub = ap_net_idx app \<Longrightarrow>
      \<exists>sub' \<in> set subs'. sn_net_idx sub' = ap_net_idx app \<and> (sn_kr_phase sub \<noteq> 0 \<and> ap_updated app \<longrightarrow> sn_kr_phase sub' \<noteq> 0)"
  shows "app_ok subs' app"
  using assms unfolding app_ok_def by blast

lemma nth_mem_update: "j < length xs \<Longrightarrow> j \<noteq> i \<Longrightarrow> xs ! j \<in> set (xs[i := x])"
  using nth_mem [of j "xs[i := x]"] by simp

lemma inv_sub_replace:
  assumes inv: "keys_inv cfg ks" and i: "i < length (ks_subnets ks)"
    and ok: "sub_ok cfg s" "sn_net_idx s = sn_net_idx (ks_subnets ks ! i)" "sn_kr_phase (ks_subnets ks ! i) \<noteq> 0 \<Longrightarrow> sn_kr_phase s \<noteq> 0"
    and t: "ks_subnets ks' = (ks_subnets ks)[i := s]" "ks_apps ks' = ks_apps ks"
  shows "keys_inv cfg ks'"
proof -
  let ?subs = "ks_subnets ks"
  have mem: "\<exists>s' \<in> set (?subs[i := s]). sn_net_idx s' = sn_net_idx x \<and> (sn_kr_phase x \<noteq> 0 \<longrightarrow> sn_kr_phase s' \<noteq> 0)"
    if "x \<in> set ?subs" for x
  proof -
    from that obtain j where "j < length ?subs" "x = ?subs ! j" by (metis in_set_conv_nth)
    then show ?thesis using i ok by (intro bexI [of _ "?subs[i := s] ! j"]) (auto simp: nth_list_update intro: nth_mem_update set_update_memI)
  qed
  have "\<forall>app \<in> set (ks_apps ks). app_ok (?subs[i := s]) app"
    using inv mem unfolding keys_inv_def by (metis app_ok_mono)
  moreover have "idx_unique sn_net_idx (?subs[i := s])"
    using inv ok(2) by (intro idx_unique_keep [OF _ i]) (auto simp: keys_inv_def)
  ultimately show ?thesis
    using inv ok(1) t unfolding keys_inv_def by (auto dest: set_update_subset_insert [THEN subsetD])
qed

lemma inv_sub_fill:
  assumes inv: "keys_inv cfg ks" and i: "i < length (ks_subnets ks)" "sn_net_idx (ks_subnets ks ! i) = BT_MESH_KEY_UNUSED"
    and ok: "sub_ok cfg s" "bt_mesh_subnet_get (sn_net_idx s) ks = None"
    and t: "ks_subnets ks' = (ks_subnets ks)[i := s]" "ks_apps ks' = ks_apps ks"
  shows "keys_inv cfg ks'"
proof -
  let ?subs = "ks_subnets ks"
  have fresh: "\<forall>x \<in> set ?subs. sn_net_idx x \<noteq> sn_net_idx s"
    using ok(2) by (simp add: bt_mesh_subnet_get_def find_index_None)
  have "app_ok (?subs[i := s]) app" if "app \<in> set (ks_apps ks)" for app
  proof (cases "ap_app_idx app = BT_MESH_KEY_UNUSED")
    case False
    have a: "app_ok ?subs app" using inv that by (simp add: keys_inv_def)
    then have n: "ap_net_idx app \<noteq> BT_MESH_KEY_UNUSED" using False by (auto simp: app_ok_def)
    show ?thesis
    proof (rule app_ok_mono [OF a])
      fix sub assume "sub \<in> set ?subs" and idx: "sn_net_idx sub = ap_net_idx app"
      then obtain j where j: "j < length ?subs" "sub = ?subs ! j" by (metis in_set_conv_nth)
      then have "j \<noteq> i" using n i idx by auto
      then have "sub \<in> set (?subs[i := s])" using nth_mem_update j by auto
      then show "\<exists>sub' \<in> set (?subs[i := s]). sn_net_idx sub' = ap_net_idx app \<and>
          (sn_kr_phase sub \<noteq> 0 \<and> ap_updated app \<longrightarrow> sn_kr_phase sub' \<noteq> 0)"
        using idx by blast
    qed
  qed (use inv that in \<open>auto simp: keys_inv_def app_ok_def\<close>)
  moreover have "idx_unique sn_net_idx (?subs[i := s])"
    using inv fresh unfolding keys_inv_def by (intro idx_unique_update) (auto dest: nth_mem)
  ultimately show ?thesis
    using inv ok(1) t unfolding keys_inv_def by (auto dest: set_update_subset_insert [THEN subsetD])
qed

lemma inv_app_set:
  assumes inv: "keys_inv cfg ks" and ok: "app_ok (ks_subnets ks) a"
    and new: "\<And>j. j < length (ks_apps ks) \<Longrightarrow> j \<noteq> i \<Longrightarrow> ap_app_idx (ks_apps ks ! j) = ap_app_idx a \<Longrightarrow> ap_app_idx a = BT_MESH_KEY_UNUSED"
    and t: "ks_subnets ks' = ks_subnets ks" "ks_apps ks' = (ks_apps ks)[i := a]"
  shows "keys_inv cfg ks'"
  using inv ok t idx_unique_update [of ap_app_idx "ks_apps ks" i a, OF _ new] unfolding keys_inv_def
  by (auto dest: set_update_subset_insert [THEN subsetD])

lemma app_ok_after:
  assumes inv: "keys_inv cfg ks" and i: "i < length (ks_subnets ks)" and a: "app \<in> set (ks_apps ks)"
    and evt: "evt = BT_MESH_KEY_DELETED \<or> evt = BT_MESH_KEY_REVOKED \<and> sn_net_idx s = sn_net_idx (ks_subnets ks ! i)"
  shows "app_ok ((ks_subnets ks)[i := s]) (app_after evt (sn_net_idx (ks_subnets ks ! i)) app)"
proof -
  let ?subs = "ks_subnets ks" and ?n = "sn_net_idx (ks_subnets ks ! i)"
  have ok: "app_ok ?subs app" using inv a by (simp add: keys_inv_def)
  consider "ap_app_idx app = BT_MESH_KEY_UNUSED" | (other) "ap_app_idx app \<noteq> BT_MESH_KEY_UNUSED" "ap_net_idx app \<noteq> ?n"
    | (mine) "ap_app_idx app \<noteq> BT_MESH_KEY_UNUSED" "ap_net_idx app = ?n" by blast
  then show ?thesis
  proof cases
    case other
    have "app_ok (?subs[i := s]) app"
    proof (rule app_ok_mono [OF ok])
      fix sub assume "sub \<in> set ?subs" and idx: "sn_net_idx sub = ap_net_idx app"
      then obtain j where j: "j < length ?subs" "sub = ?subs ! j" by (metis in_set_conv_nth)
      then have "j \<noteq> i" using other(2) idx by auto
      then have "sub \<in> set (?subs[i := s])" using nth_mem_update j by auto
      then show "\<exists>sub' \<in> set (?subs[i := s]). sn_net_idx sub' = ap_net_idx app \<and>
          (sn_kr_phase sub \<noteq> 0 \<and> ap_updated app \<longrightarrow> sn_kr_phase sub' \<noteq> 0)" using idx by blast
    qed
    then show ?thesis using other by (simp add: app_after_def)
  next
    case mine
    have "s \<in> set (?subs[i := s])" using i by (rule set_update_memI)
    then show ?thesis using mine ok evt by (auto simp: app_after_def app_deleted_def app_revoked_def app_ok_def)
  qed (use ok in \<open>auto simp: app_after_def app_ok_def\<close>)
qed

lemma inv_evt:
  assumes inv: "keys_inv cfg ks" and i: "i < length (ks_subnets ks)" and s: "sub_ok cfg s"
    and evt: "evt = BT_MESH_KEY_DELETED \<and> sn_net_idx s = BT_MESH_KEY_UNUSED \<or>
      evt = BT_MESH_KEY_REVOKED \<and> sn_net_idx s = sn_net_idx (ks_subnets ks ! i)"
    and t: "ks_subnets ks' = (ks_subnets ks)[i := s]"
      "ks_apps ks' = map (app_after evt (sn_net_idx (ks_subnets ks ! i))) (ks_apps ks)"
  shows "keys_inv cfg ks'"
proof -
  have "\<forall>app \<in> set (ks_apps ks'). app_ok (ks_subnets ks') app"
    using app_ok_after [OF inv i] evt t by auto
  moreover have "idx_unique sn_net_idx (ks_subnets ks')"
    unfolding t using inv evt by (intro idx_unique_keep [OF _ i]) (auto simp: keys_inv_def)
  moreover have "idx_unique ap_app_idx (ks_apps ks')"
    using inv t unfolding keys_inv_def
    by (auto intro!: idx_unique_map simp: app_after_def app_deleted_def app_revoked_def)
  ultimately show ?thesis
    using inv s t unfolding keys_inv_def by (auto dest: set_update_subset_insert [THEN subsetD])
qed

lemma sub_ok_simps:
  "sub_ok cfg unused_subnet"
  "sub_ok cfg s \<Longrightarrow> sn_net_idx s \<noteq> BT_MESH_KEY_UNUSED \<Longrightarrow> sn_kr_phase s \<noteq> 0 \<Longrightarrow> sub_ok cfg (sub_revoked s)"
  "sub_ok cfg s \<Longrightarrow> sn_net_idx s \<noteq> BT_MESH_KEY_UNUSED \<Longrightarrow> sn_kr_phase s = 1 \<Longrightarrow> sub_ok cfg (s\<lparr>sn_kr_phase := 2\<rparr>)"
  by (auto simp: sub_ok_def unused_subnet_def zero_subnet_keys_def sub_revoked_def)

lemma key_refresh_inv:
  assumes "keys_inv cfg ks" "i < length (ks_subnets ks)" "sn_net_idx (ks_subnets ks ! i) \<noteq> BT_MESH_KEY_UNUSED"
    and "p = 2 \<and> sn_kr_phase (ks_subnets ks ! i) = 1 \<or> p = 3"
  shows "keys_inv cfg (key_refresh cfg i p ks)"
proof -
  let ?s = "ks_subnets ks ! i"
  have ok: "sub_ok cfg ?s" using assms by (simp add: keys_inv_def)
  note t = key_refresh_tables [OF assms(2), where cfg = cfg and p = p]
  consider (two) "p = 2" "sn_kr_phase ?s = 1" | (none) "p = 3" "sn_kr_phase ?s = 0" | (three) "p = 3" "sn_kr_phase ?s \<noteq> 0"
    using assms(4) by blast
  then show ?thesis
  proof cases
    case two
    have "sub_ok cfg (?s\<lparr>sn_kr_phase := 2\<rparr>)" using sub_ok_simps(3) ok assms(3) two by blast
    then show ?thesis using inv_sub_replace [OF assms(1,2) _ _ _ t(1,2)] two by simp
  next
    case three
    have "sub_ok cfg (sub_revoked ?s)" using sub_ok_simps(2) ok assms(3) three by blast
    then show ?thesis
      using inv_evt [OF assms(1,2) _ _ t(3,4)] three by (simp add: sub_revoked_def)
  qed (use t(5) assms in simp)
qed

lemma subnet_get_Some:
  "bt_mesh_subnet_get n ks = Some i \<Longrightarrow> i < length (ks_subnets ks) \<and> sn_net_idx (ks_subnets ks ! i) = n"
  unfolding bt_mesh_subnet_get_def using find_index_Some by blast

lemma app_get_Some: "app_get k ks = Some i \<Longrightarrow> i < length (ks_apps ks) \<and> ap_app_idx (ks_apps ks ! i) = k"
  unfolding app_get_def using find_index_Some by blast

lemma alloc_cases:
  assumes "alloc_loop f k 0 None xs = Some i"
  obtains "i < length xs" "f (xs ! i) = k"
  | "i < length xs" "f (xs ! i) = BT_MESH_KEY_UNUSED" "f (xs ! i) \<noteq> k" "find_index (\<lambda>x. f x = k) xs = None"
proof (cases "find_index (\<lambda>x. f x = k) xs")
  case None
  then have i: "find_index (\<lambda>x. f x = BT_MESH_KEY_UNUSED) xs = Some i" using assms by (simp add: alloc_loop_0)
  have "i < length xs" "f (xs ! i) = BT_MESH_KEY_UNUSED" using find_index_Some [OF i] by auto
  moreover from this have "f (xs ! i) \<noteq> k" using None by (auto simp: find_index_None)
  ultimately show thesis using that(2) None by blast
next
  case (Some j)
  then show thesis using assms that(1) find_index_Some [OF Some] by (simp add: alloc_loop_0)
qed

lemma idx_small: "(n :: u16) < 0x1000 \<Longrightarrow> n \<noteq> 0xffff"
  by auto

section \<open>Runs\<close>

text \<open>The part of \<open>bt_mesh_net_create\<close> that makes the first subnet; \<open>kr\<close> is the key refresh flag.\<close>

definition net_create_subnet :: "mesh_cfg \<Rightarrow> u16 \<Rightarrow> bool \<Rightarrow> bytes \<Rightarrow> keys_state \<Rightarrow> errno option \<times> keys_state" where
  "net_create_subnet cfg idx kr key ks =
     (let (err, ks) =
        (if kr then bt_mesh_subnet_set cfg idx BT_MESH_KR_PHASE_2 None (Some key) ks
         else bt_mesh_subnet_set cfg idx BT_MESH_KR_NORMAL (Some key) None ks)
      in case err of Some e \<Rightarrow> (Some e, ks)
         | None \<Rightarrow> (None, if cfg_settings cfg then bt_mesh_subnet_store idx ks else ks))"

inductive keys_step :: "mesh_cfg \<Rightarrow> keys_state \<Rightarrow> keys_state \<Rightarrow> bool" for cfg where
  Net_create: "n < 0x1000 \<Longrightarrow> length key = 16 \<Longrightarrow> keys_step cfg ks (snd (net_create_subnet cfg n kr key ks))"
| Subnet_add: "n < 0x1000 \<Longrightarrow> length key = 16 \<Longrightarrow> keys_step cfg ks (snd (bt_mesh_subnet_add cfg n key ks))"
| Subnet_update: "n < 0x1000 \<Longrightarrow> length key = 16 \<Longrightarrow> keys_step cfg ks (snd (bt_mesh_subnet_update cfg n key ks))"
| Subnet_del: "n < 0x1000 \<Longrightarrow> keys_step cfg ks (snd (bt_mesh_subnet_del cfg n ks))"
| Kr_phase_set: "n < 0x1000 \<Longrightarrow> keys_step cfg ks (snd (snd (bt_mesh_subnet_kr_phase_set cfg n p ks)))"
| Kr_update: "bt_mesh_subnet_get n ks = Some i \<Longrightarrow> n < 0x1000 \<Longrightarrow> keys_step cfg ks (bt_mesh_kr_update cfg i flag new_key ks)"
| Node_id_set: "keys_step cfg ks (snd (bt_mesh_subnet_node_id_set cfg n node_id ks))"
| Net_keys_reset: "keys_step cfg ks (bt_mesh_net_keys_reset cfg ks)"
| Subnet_pending: "keys_step cfg ks (bt_mesh_subnet_pending_store ks)"
| App_add: "a < 0x1000 \<Longrightarrow> n < 0x1000 \<Longrightarrow> length key = 16 \<Longrightarrow> keys_step cfg ks (snd (bt_mesh_app_key_add cfg a n key ks))"
| App_update: "a < 0x1000 \<Longrightarrow> length key = 16 \<Longrightarrow> keys_step cfg ks (snd (bt_mesh_app_key_update cfg a n key ks))"
| App_del: "a < 0x1000 \<Longrightarrow> keys_step cfg ks (snd (bt_mesh_app_key_del cfg a n ks))"
| App_keys_reset: "keys_step cfg ks (bt_mesh_app_keys_reset cfg ks)"
| App_pending: "keys_step cfg ks (bt_mesh_app_key_pending_store ks)"

inductive_cases keys_stepE: "keys_step cfg ks ks'"

lemma inv_same_tables:
  "keys_inv cfg ks \<Longrightarrow> ks_subnets ks' = ks_subnets ks \<Longrightarrow> ks_apps ks' = ks_apps ks \<Longrightarrow> keys_inv cfg ks'"
  by (simp add: keys_inv_def)

lemma subnet_add_inv:
  assumes inv: "keys_inv cfg ks" and n: "n < 0x1000" "length key = 16"
  shows "keys_inv cfg (snd (bt_mesh_subnet_add cfg n key ks))"
proof (cases "subnet_alloc n ks")
  case (Some i)
  let ?s = "ks_subnets ks ! i"
  from Some [unfolded subnet_alloc_def] show ?thesis
  proof (cases rule: alloc_cases)
    case 2
    obtain k0 where k0: "net_keys_create cfg key (sn_keys ?s ! 0) = (None, k0)" "keys_derived cfg k0"
      using net_keys_create_ok [OF n(2)] by metis
    define s where "s = ?s\<lparr>sn_keys := (sn_keys ?s)[0 := k0], sn_net_idx := n, sn_kr_phase := 0, sn_node_id := node_id_default cfg\<rparr>"
    have "sub_ok cfg ?s" using inv 2(1) by (simp add: keys_inv_def)
    then have ok: "sub_ok cfg s" using k0(2) 2(2) n(1) idx_small [OF n(1)] by (auto simp: sub_ok_def s_def)
    have g: "bt_mesh_subnet_get (sn_net_idx s) ks = None" using 2(4) by (simp add: bt_mesh_subnet_get_def s_def)
    have t: "ks_subnets (snd (bt_mesh_subnet_add cfg n key ks)) = (ks_subnets ks)[i := s]"
      "ks_apps (snd (bt_mesh_subnet_add cfg n key ks)) = ks_apps ks"
      using Some 2 k0(1) by (simp_all add: bt_mesh_subnet_add_def Let_def s_def)
    show ?thesis using inv_sub_fill [OF inv 2(1,2) ok g t] .
  qed (use Some inv in \<open>simp add: bt_mesh_subnet_add_def Let_def\<close>)
qed (use inv in \<open>simp add: bt_mesh_subnet_add_def\<close>)

lemma net_create_inv:
  assumes inv: "keys_inv cfg ks" and n: "n < 0x1000" "length key = 16"
  shows "keys_inv cfg (snd (net_create_subnet cfg n kr key ks))"
proof (cases "subnet_alloc n ks")
  case (Some i)
  let ?s = "ks_subnets ks ! i"
  from Some [unfolded subnet_alloc_def] show ?thesis
  proof (cases rule: alloc_cases)
    case 2
    let ?j = "if kr then 1 else 0 :: nat"
    obtain k where k: "net_keys_create cfg key (sn_keys ?s ! ?j) = (None, k)" "keys_derived cfg k"
      using net_keys_create_ok [OF n(2)] by metis
    define s where "s = ?s\<lparr>sn_keys := (if kr then [sn_keys ?s ! 0, k] else [k, sn_keys ?s ! 1]), sn_net_idx := n,
      sn_kr_phase := (if kr then 2 else 0), sn_node_id := node_id_default cfg\<rparr>"
    have "sub_ok cfg ?s" using inv 2(1) by (simp add: keys_inv_def)
    then have ok: "sub_ok cfg s" using k(2) 2(2) n(1) idx_small [OF n(1)] by (auto simp: sub_ok_def s_def)
    have g: "bt_mesh_subnet_get (sn_net_idx s) ks = None" using 2(4) by (simp add: bt_mesh_subnet_get_def s_def)
    have t: "ks_subnets (snd (net_create_subnet cfg n kr key ks)) = (ks_subnets ks)[i := s]"
      "ks_apps (snd (net_create_subnet cfg n kr key ks)) = ks_apps ks"
      using Some 2 k(1) by (auto simp: net_create_subnet_def bt_mesh_subnet_set_def Let_def s_def)
    show ?thesis using inv_sub_fill [OF inv 2(1,2) ok g t] .
  qed (use Some inv in \<open>simp add: net_create_subnet_def bt_mesh_subnet_set_def Let_def\<close>)
qed (use inv in \<open>simp add: net_create_subnet_def bt_mesh_subnet_set_def\<close>)

lemma subnet_update_inv:
  assumes inv: "keys_inv cfg ks" and n: "n < 0x1000" "length key = 16"
  shows "keys_inv cfg (snd (bt_mesh_subnet_update cfg n key ks))"
proof (cases "bt_mesh_subnet_get n ks")
  case (Some i)
  let ?s = "ks_subnets ks ! i"
  note i = subnet_get_Some [OF Some]
  have ok: "sub_ok cfg ?s" using inv i by (simp add: keys_inv_def)
  obtain k1 where k1: "net_keys_create cfg key (sn_keys ?s ! 1) = (None, k1)" "keys_derived cfg k1"
    using net_keys_create_ok [OF n(2)] by metis
  show ?thesis
  proof (cases "sn_kr_phase ?s = 0 \<and> key \<noteq> take 16 (sk_net (sn_keys ?s ! 0))")
    case True
    define s where "s = ?s\<lparr>sn_keys := (sn_keys ?s)[1 := k1], sn_kr_phase := 1\<rparr>"
    have s: "sub_ok cfg s" using ok True k1(2) i idx_small [OF n(1)] by (auto simp: sub_ok_def s_def)
    have t: "ks_subnets (snd (bt_mesh_subnet_update cfg n key ks)) = (ks_subnets ks)[i := s]"
      "ks_apps (snd (bt_mesh_subnet_update cfg n key ks)) = ks_apps ks"
      using Some True k1(1) i n(2) by (simp_all add: bt_mesh_subnet_update_def Let_def s_def key_refresh_tables)
    show ?thesis using inv_sub_replace [OF inv _ s _ _ t] i True by (simp add: s_def)
  next
    case False
    then have "snd (bt_mesh_subnet_update cfg n key ks) = ks"
      using Some ok i n idx_small [OF n(1)] by (auto simp: bt_mesh_subnet_update_def Let_def sub_ok_def)
    then show ?thesis using inv by simp
  qed
qed (use inv in \<open>simp add: bt_mesh_subnet_update_def\<close>)

lemma subnet_del_inv:
  assumes "keys_inv cfg ks" "i < length (ks_subnets ks)"
  shows "keys_inv cfg (subnet_del cfg i ks)"
  using inv_evt [OF assms sub_ok_simps(1) _ subnet_del_tables(1) [OF assms(2)] subnet_del_tables(2)]
  by (simp add: unused_subnet_def)

text \<open>The table of permitted transitions, read as a condition.\<close>

lemma and_push_bit_1: "(w :: u32) AND push_bit n 1 \<noteq> 0 \<longleftrightarrow> bit w n"
proof
  assume "w AND push_bit n 1 \<noteq> 0"
  then obtain m where "bit (w AND push_bit n 1) m" by (auto simp: bit_eq_iff)
  then show "bit w n" by (auto simp: bit_simps)
next
  assume "bit w n"
  then have "bit (w AND push_bit n 1) n" by (auto simp: bit_simps dest: bit_imp_le_length)
  then show "w AND push_bit n 1 \<noteq> 0" by (auto simp del: bit_and_iff)
qed

lemma kr_transition_iff:
  "unat (cur :: u8) < length valid_transitions \<and> valid_transitions ! unat cur AND push_bit (unat (p :: u8)) 1 \<noteq> 0 \<longleftrightarrow>
   cur = 0 \<and> p = 3 \<or> cur = 1 \<and> (p = 2 \<or> p = 3) \<or> cur = 2 \<and> p = 3"
proof -
  have c: "cur = 0 \<longleftrightarrow> unat cur = 0" "cur = 1 \<longleftrightarrow> unat cur = 1" "cur = 2 \<longleftrightarrow> unat cur = 2"
    "p = 2 \<longleftrightarrow> unat p = 2" "p = 3 \<longleftrightarrow> unat p = 3"
    by (simp_all add: word_unat_eq_iff)
  have b: "bit (push_bit 3 1 :: u32) n \<longleftrightarrow> n = 3" "bit (push_bit 2 1 :: u32) n \<longleftrightarrow> n = 2" for n
    unfolding bit_push_bit_iff bit_1_iff by auto
  have "unat cur < 3 \<longleftrightarrow> unat cur = 0 \<or> unat cur = 1 \<or> unat cur = 2" by auto
  moreover have "valid_transitions ! 0 = push_bit 3 1" "valid_transitions ! 1 = push_bit 2 1 OR push_bit 3 1"
    "valid_transitions ! 2 = push_bit 3 1" "length valid_transitions = 3"
    unfolding valid_transitions_def by simp_all
  ultimately show ?thesis
    unfolding and_push_bit_1 c using b by (metis bit_or_iff numeral_eq_iff semiring_norm(85,88) one_neq_zero
      zero_neq_numeral numeral_eq_one_iff)
qed

lemma kr_phase_set_inv:
  assumes inv: "keys_inv cfg ks" and n: "n < 0x1000"
  shows "keys_inv cfg (snd (snd (bt_mesh_subnet_kr_phase_set cfg n p ks)))"
proof (cases "bt_mesh_subnet_get n ks")
  case (Some i)
  note i = subnet_get_Some [OF Some]
  have "keys_inv cfg (key_refresh cfg i p ks)"
    if "unat (sn_kr_phase (ks_subnets ks ! i)) < length valid_transitions \<and>
      valid_transitions ! unat (sn_kr_phase (ks_subnets ks ! i)) AND push_bit (unat p) 1 \<noteq> 0"
    using key_refresh_inv [OF inv] i idx_small [OF n] that unfolding kr_transition_iff by auto
  then show ?thesis using Some inv by (auto simp: bt_mesh_subnet_kr_phase_set_def Let_def)
qed (use inv in \<open>simp add: bt_mesh_subnet_kr_phase_set_def\<close>)

lemma kr_update_inv:
  assumes inv: "keys_inv cfg ks" and i: "bt_mesh_subnet_get n ks = Some i" "n < 0x1000"
  shows "keys_inv cfg (bt_mesh_kr_update cfg i flag new_key ks)"
  using key_refresh_inv [OF inv, of i] inv subnet_get_Some [OF i(1)] idx_small [OF i(2)]
  by (auto simp: bt_mesh_kr_update_def Let_def)

lemma fold_invariant_upt:
  assumes "P ks" "\<And>i ks. P ks \<Longrightarrow> i < n \<Longrightarrow> P (step i ks)"
  shows "P (fold step [0..<n] ks)"
  using fold_invariant [where Q = "\<lambda>i. i < n" and P = P and xs = "[0..<n]" and s = ks and f = step] assms by auto

lemma net_keys_reset_inv:
  assumes inv: "keys_inv cfg ks"
  shows "keys_inv cfg (bt_mesh_net_keys_reset cfg ks)"
proof -
  let ?n = "length (ks_subnets ks)"
  have "keys_inv cfg (fold (\<lambda>i ks. if sn_net_idx (ks_subnets ks ! i) \<noteq> BT_MESH_KEY_UNUSED then subnet_del cfg i ks else ks)
      [0..<?n] ks) \<and> length (ks_subnets (fold (\<lambda>i ks. if sn_net_idx (ks_subnets ks ! i) \<noteq> BT_MESH_KEY_UNUSED
        then subnet_del cfg i ks else ks) [0..<?n] ks)) = ?n"
    by (rule fold_invariant_upt) (use inv in \<open>auto simp: subnet_del_inv\<close>)
  then show ?thesis by (simp add: bt_mesh_net_keys_reset_def)
qed

lemma pending_tables:
  "ks_subnets (bt_mesh_subnet_pending_store ks) = ks_subnets ks" "ks_apps (bt_mesh_subnet_pending_store ks) = ks_apps ks"
  "ks_subnets (bt_mesh_app_key_pending_store ks) = ks_subnets ks" "ks_apps (bt_mesh_app_key_pending_store ks) = ks_apps ks"
  unfolding bt_mesh_subnet_pending_store_def bt_mesh_app_key_pending_store_def
  by (rule fold_keeps, simp add: subnet_pending_step_def app_pending_step_def Let_def)+

lemma app_key_del_inv:
  assumes inv: "keys_inv cfg ks" and i: "i < length (ks_apps ks)"
  shows "keys_inv cfg (app_key_del cfg i ks)"
proof (rule inv_app_set [OF inv])
  show "app_ok (ks_subnets ks) (app_deleted (ks_apps ks ! i))" by (simp add: app_ok_def app_deleted_def)
qed (simp_all add: app_deleted_def)

lemma app_add_inv:
  assumes inv: "keys_inv cfg ks" and n: "a < 0x1000" "n < 0x1000" "length key = 16"
  shows "keys_inv cfg (snd (bt_mesh_app_key_add cfg a n key ks))"
proof (cases "bt_mesh_subnet_get n ks = None \<or> app_key_alloc a ks = None")
  case False
  then obtain i j where al: "app_key_alloc a ks = Some i" and j: "bt_mesh_subnet_get n ks = Some j" by auto
  let ?a = "ks_apps ks ! i"
  from al [unfolded app_key_alloc_def] show ?thesis
  proof (cases rule: alloc_cases)
    case 2
    obtain aid where aid: "bt_mesh_app_id key = Inr aid" using derivations_succeed(4) by blast
    define app where "app = ?a\<lparr>ap_net_idx := n, ap_app_idx := a, ap_updated := False,
      ap_keys := (ap_keys ?a)[0 := \<lparr>ak_id = aid, ak_val = take 16 key\<rparr>]\<rparr>"
    have "length (ap_keys ?a) = 2" using inv 2(1) nth_mem [OF 2(1)] by (auto simp: keys_inv_def app_ok_def)
    moreover have "ks_subnets ks ! j \<in> set (ks_subnets ks)" "sn_net_idx (ks_subnets ks ! j) = n"
      using subnet_get_Some [OF j] by auto
    ultimately have ok: "app_ok (ks_subnets ks) app"
      using n aid unfolding app_ok_def by (auto simp: app_def cred_derived_def)
    have fresh: "ap_app_idx (ks_apps ks ! k) \<noteq> a" if "k < length (ks_apps ks)" for k
      using 2(4) that by (simp add: find_index_None)
    have t: "ks_subnets (snd (bt_mesh_app_key_add cfg a n key ks)) = ks_subnets ks"
      "ks_apps (snd (bt_mesh_app_key_add cfg a n key ks)) = (ks_apps ks)[i := app]"
      using al j 2(3) aid by (simp_all add: bt_mesh_app_key_add_def Let_def app_def)
    show ?thesis using inv_app_set [OF inv ok _ t] fresh by (simp add: app_def)
  qed (use al j inv in \<open>simp add: bt_mesh_app_key_add_def Let_def\<close>)
qed (use inv in \<open>auto simp: bt_mesh_app_key_add_def split: option.split\<close>)

lemma app_update_inv:
  assumes inv: "keys_inv cfg ks" and a: "a < 0x1000" "length key = 16"
  shows "keys_inv cfg (snd (bt_mesh_app_key_update cfg a n key ks))"
proof (cases "snd (bt_mesh_app_key_update cfg a n key ks) = ks")
  case False
  obtain aid where aid: "bt_mesh_app_id key = Inr aid" using derivations_succeed(4) by blast
  from False obtain i j where i: "app_get a ks = Some i" and j: "bt_mesh_subnet_get (ap_net_idx (ks_apps ks ! i)) ks = Some j"
    and ph: "sn_kr_phase (ks_subnets ks ! j) = 1" and nu: "\<not> ap_updated (ks_apps ks ! i)"
    and nn: "n = BT_MESH_KEY_UNUSED \<or> ap_net_idx (ks_apps ks ! i) = n"
    by (auto simp: bt_mesh_app_key_update_def Let_def split: option.splits if_splits)
  let ?a = "ks_apps ks ! i"
  note i' = app_get_Some [OF i]
  define app where "app = ?a\<lparr>ap_updated := True, ap_keys := (ap_keys ?a)[1 := \<lparr>ak_id = aid, ak_val = take 16 key\<rparr>]\<rparr>"
  have "app_ok (ks_subnets ks) ?a" using inv i' by (simp add: keys_inv_def)
  moreover have "ks_subnets ks ! j \<in> set (ks_subnets ks)" "sn_net_idx (ks_subnets ks ! j) = ap_net_idx ?a"
    using subnet_get_Some [OF j] by auto
  ultimately have ok: "app_ok (ks_subnets ks) app"
    using a aid ph i' idx_small [OF a(1)] unfolding app_ok_def
    by (auto simp: app_def cred_derived_def intro!: bexI [of _ "ks_subnets ks ! j"])
  have t: "ks_subnets (snd (bt_mesh_app_key_update cfg a n key ks)) = ks_subnets ks"
    "ks_apps (snd (bt_mesh_app_key_update cfg a n key ks)) = (ks_apps ks)[i := app]"
    using i j ph nu nn aid by (auto simp: bt_mesh_app_key_update_def Let_def app_def)
  have u: "idx_unique ap_app_idx (ks_apps ks)" using inv by (simp add: keys_inv_def)
  show ?thesis
  proof (rule inv_app_set [OF inv ok _ t])
    fix k assume "k < length (ks_apps ks)" "k \<noteq> i" "ap_app_idx (ks_apps ks ! k) = ap_app_idx app"
    then show "ap_app_idx app = BT_MESH_KEY_UNUSED" using u i' unfolding idx_unique_def by (auto simp: app_def)
  qed
qed (use inv in simp)

lemma app_del_inv:
  assumes "keys_inv cfg ks"
  shows "keys_inv cfg (snd (bt_mesh_app_key_del cfg a n ks))"
  using app_key_del_inv [OF assms] assms app_get_Some by (auto simp: bt_mesh_app_key_del_def split: option.split)

lemma app_keys_reset_inv:
  assumes inv: "keys_inv cfg ks"
  shows "keys_inv cfg (bt_mesh_app_keys_reset cfg ks)"
proof -
  let ?n = "length (ks_apps ks)" and ?f = "\<lambda>i ks. if ap_app_idx (ks_apps ks ! i) \<noteq> BT_MESH_KEY_UNUSED then app_key_del cfg i ks else ks"
  have "keys_inv cfg (fold ?f [0..<?n] ks) \<and> length (ks_apps (fold ?f [0..<?n] ks)) = ?n"
    by (rule fold_invariant_upt) (use inv in \<open>auto simp: app_key_del_inv\<close>)
  then show ?thesis by (simp add: bt_mesh_app_keys_reset_def)
qed

lemma keys_step_inv:
  assumes "keys_step cfg ks ks'" "keys_inv cfg ks"
  shows "keys_inv cfg ks'"
  using assms
proof cases
  case (Subnet_del n)
  then show ?thesis using assms(2) subnet_del_inv subnet_get_Some
    by (auto simp: bt_mesh_subnet_del_def split: option.split)
next
  case (Node_id_set n node_id)
  then show ?thesis
    using inv_same_tables [OF assms(2)] assms(2) by (auto simp: bt_mesh_subnet_node_id_set_def split: option.split)
next
  case Subnet_pending
  then show ?thesis using inv_same_tables [OF assms(2)] by (simp add: pending_tables)
next
  case App_pending
  then show ?thesis using inv_same_tables [OF assms(2)] by (simp add: pending_tables)
qed (use assms(2) in \<open>simp_all add: net_create_inv subnet_add_inv subnet_update_inv kr_phase_set_inv kr_update_inv
    net_keys_reset_inv app_add_inv app_update_inv app_del_inv app_keys_reset_inv\<close>)

section \<open>Properties\<close>

text \<open>The tables after start-up: every slot unused, with room for two keys.\<close>

definition boot_keys :: "keys_state \<Rightarrow> bool" where
  "boot_keys ks \<longleftrightarrow>
     (\<forall>sub \<in> set (ks_subnets ks). sub = unused_subnet) \<and>
     (\<forall>app \<in> set (ks_apps ks). ap_app_idx app = BT_MESH_KEY_UNUSED \<and> length (ap_keys app) = 2) \<and>
     (\<forall>u \<in> set (ks_net_key_updates ks @ ks_app_key_updates ks). \<not> ku_valid u) \<and> ks_calls ks = []"

definition keys_cfg :: mesh_cfg where
  "keys_cfg = \<lparr>cfg_settings = True, cfg_rpl_timeout = True, cfg_ivu_test = False, cfg_friend = True, cfg_gatt_proxy = True,
     cfg_cdb = False, cfg_ivu_divider = 4, cfg_seq_limit = 0x800000, cfg_seq_store_rate = 128\<rparr>"

definition boot_example :: keys_state where
  "boot_example = \<lparr>ks_subnets = [unused_subnet, unused_subnet],
     ks_net_key_updates = [\<lparr>ku_key_idx = 0, ku_valid = False, ku_clear = False\<rparr>],
     ks_apps = [\<lparr>ap_net_idx = 0xffff, ap_app_idx = 0xffff, ap_updated = False, ap_keys = [zero_app_cred, zero_app_cred]\<rparr>],
     ks_app_key_updates = [\<lparr>ku_key_idx = 0, ku_valid = False, ku_clear = False\<rparr>], ks_calls = []\<rparr>"

lemma unused_subnet_fields [simp]:
  "sn_net_idx unused_subnet = 0xffff" "sn_kr_phase unused_subnet = 0" "sn_keys unused_subnet = [zero_subnet_keys, zero_subnet_keys]"
  by (simp_all add: unused_subnet_def)

lemma boot_example_tables [simp]:
  "ks_subnets boot_example = [unused_subnet, unused_subnet]"
  by (simp add: boot_example_def)

lemma boot_keys_inv: "boot_keys ks \<Longrightarrow> keys_inv cfg ks"
proof -
  assume b: "boot_keys ks"
  then have "\<forall>sub \<in> set (ks_subnets ks). sub_ok cfg sub \<and> sn_net_idx sub = BT_MESH_KEY_UNUSED"
    unfolding boot_keys_def by (metis sub_ok_simps(1) unused_subnet_fields(1) BT_MESH_KEY_UNUSED_def)
  moreover from this have "idx_unique sn_net_idx (ks_subnets ks)" unfolding idx_unique_def by (metis nth_mem)
  moreover have "idx_unique ap_app_idx (ks_apps ks)" using b unfolding boot_keys_def idx_unique_def by (metis nth_mem)
  ultimately show ?thesis using b unfolding boot_keys_def keys_inv_def app_ok_def by blast
qed

lemma keys_run_inv: "rtranclp (keys_step cfg) ks ks' \<Longrightarrow> keys_inv cfg ks \<Longrightarrow> keys_inv cfg ks'"
  by (induction rule: rtranclp_induct) (auto intro: keys_step_inv)

lemma inv_tx_key:
  assumes "keys_inv cfg ks" "sub \<in> set (ks_subnets ks)" "sn_net_idx sub \<noteq> BT_MESH_KEY_UNUSED"
  shows "keys_derived cfg (sn_keys sub ! SUBNET_KEY_TX_IDX sub)"
  using assms by (auto simp: keys_inv_def sub_ok_def SUBNET_KEY_TX_IDX_def)

text \<open>
  C14: in every state reached from start-up by calls of the key interface, a subnet's sending
  key is valid and its credentials are those derived from its network key, a second valid
  key exists only during a Key Refresh procedure, every application key is bound to an
  existing subnet, has an updated value only while that subnet refreshes its keys, and no
  two subnets or application keys share an index.
\<close>

theorem keys_reachable_inv:
  assumes "boot_keys ks0" "rtranclp (keys_step cfg) ks0 ks"
  shows "(\<forall>sub \<in> set (ks_subnets ks). sn_net_idx sub \<noteq> BT_MESH_KEY_UNUSED \<longrightarrow>
      keys_derived cfg (sn_keys sub ! SUBNET_KEY_TX_IDX sub) \<and>
      (sn_kr_phase sub = 0 \<longrightarrow> \<not> sk_valid (sn_keys sub ! 1)) \<and> sn_kr_phase sub \<in> {0, 1, 2}) \<and>
    (\<forall>app \<in> set (ks_apps ks). ap_app_idx app \<noteq> BT_MESH_KEY_UNUSED \<longrightarrow> cred_derived (ap_keys app ! 0) \<and>
      (\<exists>sub \<in> set (ks_subnets ks). sn_net_idx sub = ap_net_idx app \<and> (ap_updated app \<longrightarrow> sn_kr_phase sub \<noteq> 0))) \<and>
    idx_unique sn_net_idx (ks_subnets ks) \<and> idx_unique ap_app_idx (ks_apps ks)"
proof -
  have inv: "keys_inv cfg ks" using keys_run_inv [OF assms(2) boot_keys_inv [OF assms(1)]] .
  show ?thesis
  proof (intro conjI)
    show "\<forall>sub \<in> set (ks_subnets ks). sn_net_idx sub \<noteq> BT_MESH_KEY_UNUSED \<longrightarrow>
      keys_derived cfg (sn_keys sub ! SUBNET_KEY_TX_IDX sub) \<and>
      (sn_kr_phase sub = 0 \<longrightarrow> \<not> sk_valid (sn_keys sub ! 1)) \<and> sn_kr_phase sub \<in> {0, 1, 2}"
      using inv_tx_key [OF inv] inv by (auto simp: keys_inv_def sub_ok_def)
  qed (use inv in \<open>auto simp: keys_inv_def app_ok_def\<close>)
qed

theorem keys_reachable_inv_witness:
  "\<exists>ks. rtranclp (keys_step keys_cfg) boot_example ks \<and> ks = snd (bt_mesh_subnet_add keys_cfg 5 (replicate 16 7) boot_example) \<and>
    boot_keys boot_example \<and> idx_unique sn_net_idx (ks_subnets ks)"
proof -
  define ks where "ks = snd (bt_mesh_subnet_add keys_cfg 5 (replicate 16 7) boot_example)"
  have b: "boot_keys boot_example" by (simp add: boot_keys_def boot_example_def)
  have r: "rtranclp (keys_step keys_cfg) boot_example ks"
    unfolding ks_def by (rule r_into_rtranclp, rule Subnet_add) simp_all
  show ?thesis using keys_reachable_inv [OF b r] b r ks_def by blast
qed

text \<open>
  Setting the Key Refresh phase follows the table of the profile: it succeeds for the
  current phase, for phase 2 from phase 1 and for phase 3 from everywhere; the phase
  reported is the subnet's new phase, and the subnet never stays in phase 3.
\<close>

theorem kr_phase_set_table:
  assumes inv: "keys_inv cfg ks" and n: "n < 0x1000" and i: "bt_mesh_subnet_get n ks = Some i"
    and set: "bt_mesh_subnet_kr_phase_set cfg n p ks = (r, q, ks')"
  defines "cur \<equiv> sn_kr_phase (ks_subnets ks ! i)"
  shows "(r = STATUS_SUCCESS \<longleftrightarrow> p = cur \<or> p = 3 \<or> p = 2 \<and> cur = 1) \<and>
    (r = STATUS_SUCCESS \<or> r = STATUS_CANNOT_UPDATE \<and> ks' = ks) \<and>
    q = (if p = 3 then 0 else if p = 2 \<and> cur = 1 then 2 else cur) \<and> sn_kr_phase (ks_subnets ks' ! i) = q"
proof -
  let ?sub = "ks_subnets ks ! i"
  note il = subnet_get_Some [OF i]
  have "sub_ok cfg ?sub" using inv il by (simp add: keys_inv_def)
  then have c: "cur = 0 \<or> cur = 1 \<or> cur = 2" using il idx_small [OF n] by (auto simp: sub_ok_def cur_def)
  have ph: "sn_kr_phase (ks_subnets (key_refresh cfg i p ks) ! i) = (if p = 3 then 0 else 2)" if "p = 3 \<or> p = 2"
    using that il key_refresh_tables(1,3,5) [of i ks p cfg] by (cases "sn_kr_phase ?sub = 0") (auto simp: sub_revoked_def)
  have s: "bt_mesh_subnet_kr_phase_set cfg n p ks =
    (if p = cur then (STATUS_SUCCESS, p, ks)
     else if cur = 0 \<and> p = 3 \<or> cur = 1 \<and> (p = 2 \<or> p = 3) \<or> cur = 2 \<and> p = 3
     then (STATUS_SUCCESS, sn_kr_phase (ks_subnets (key_refresh cfg i p ks) ! i), key_refresh cfg i p ks)
     else (STATUS_CANNOT_UPDATE, cur, ks))"
    using i unfolding bt_mesh_subnet_kr_phase_set_def Let_def cur_def kr_transition_iff by simp
  consider "p = cur" | (two) "cur = 1" "p = 2" | (three) "p = 3" | (no) "p \<noteq> cur" "p \<noteq> 3" "\<not> (p = 2 \<and> cur = 1)" by blast
  then show ?thesis
  proof cases
    case two
    then show ?thesis using s set ph by auto
  next
    case three
    then show ?thesis using s set ph c by auto
  next
    case no
    then show ?thesis using s set c by (auto simp: cur_def)
  qed (use s set c in \<open>auto simp: cur_def\<close>)
qed

text \<open>An example: a subnet is added and its key refreshed.\<close>

definition sub_example :: "mesh_cfg \<Rightarrow> keys_state" where
  "sub_example cfg = snd (bt_mesh_subnet_add cfg 5 (replicate 16 7) boot_example)"

definition refresh_example :: "mesh_cfg \<Rightarrow> keys_state" where
  "refresh_example cfg = snd (bt_mesh_subnet_update cfg 5 (replicate 16 8) (sub_example cfg))"

lemma boot_example: "boot_keys boot_example"
  by (simp add: boot_keys_def boot_example_def)

lemma sub_example:
  "\<exists>k0. ks_subnets (sub_example cfg) =
     [unused_subnet\<lparr>sn_keys := [k0, zero_subnet_keys], sn_net_idx := 5, sn_kr_phase := 0, sn_node_id := node_id_default cfg\<rparr>, unused_subnet] \<and>
     sk_net k0 = replicate 16 7"
  "ks_apps (sub_example cfg) = ks_apps boot_example"
  "keys_inv cfg (sub_example cfg)"
proof -
  obtain k0 where k0: "net_keys_create cfg (replicate 16 7) zero_subnet_keys = (None, k0)" "sk_net k0 = replicate 16 7"
    using net_keys_create_ok [of "replicate 16 7"] by (metis length_replicate)
  have a: "subnet_alloc 5 boot_example = Some 0"
    by (simp add: subnet_alloc_def)
  show "\<exists>k0. ks_subnets (sub_example cfg) =
     [unused_subnet\<lparr>sn_keys := [k0, zero_subnet_keys], sn_net_idx := 5, sn_kr_phase := 0, sn_node_id := node_id_default cfg\<rparr>, unused_subnet] \<and>
     sk_net k0 = replicate 16 7" "ks_apps (sub_example cfg) = ks_apps boot_example"
    using a k0 by (simp_all add: sub_example_def bt_mesh_subnet_add_def Let_def) blast
  show "keys_inv cfg (sub_example cfg)"
    unfolding sub_example_def by (rule subnet_add_inv [OF boot_keys_inv [OF boot_example]]) simp_all
qed

lemma refresh_example:
  "bt_mesh_subnet_get 5 (refresh_example cfg) = Some 0" "sn_kr_phase (ks_subnets (refresh_example cfg) ! 0) = 1"
  "keys_inv cfg (refresh_example cfg)"
proof -
  obtain k0 where s: "ks_subnets (sub_example cfg) =
     [unused_subnet\<lparr>sn_keys := [k0, zero_subnet_keys], sn_net_idx := 5, sn_kr_phase := 0, sn_node_id := node_id_default cfg\<rparr>, unused_subnet]"
    "sk_net k0 = replicate 16 7"
    using sub_example(1) by blast
  obtain k1 where k1: "net_keys_create cfg (replicate 16 8) zero_subnet_keys = (None, k1)"
    using net_keys_create_ok [of "replicate 16 8"] by (metis length_replicate)
  have g: "bt_mesh_subnet_get 5 (sub_example cfg) = Some 0" by (simp add: bt_mesh_subnet_get_def s)
  have ne: "replicate 16 (8 :: u8) \<noteq> replicate 16 7" by (simp add: replicate_eq_replicate)
  have t: "ks_subnets (refresh_example cfg) = (ks_subnets (sub_example cfg))[0 :=
      (ks_subnets (sub_example cfg) ! 0)\<lparr>sn_keys := [k0, k1], sn_kr_phase := 1\<rparr>]"
    using g k1 ne by (simp add: refresh_example_def bt_mesh_subnet_update_def Let_def s key_refresh_tables)
  show "sn_kr_phase (ks_subnets (refresh_example cfg) ! 0) = 1" by (simp add: t s)
  show "bt_mesh_subnet_get 5 (refresh_example cfg) = Some 0"
    unfolding bt_mesh_subnet_get_def t by (simp add: s)
  show "keys_inv cfg (refresh_example cfg)"
    unfolding refresh_example_def by (rule subnet_update_inv [OF sub_example(3)]) simp_all
qed

theorem kr_phase_set_table_witness:
  "\<exists>r q ks'. bt_mesh_subnet_kr_phase_set keys_cfg 5 2 (refresh_example keys_cfg) = (r, q, ks') \<and> r = STATUS_SUCCESS \<and> q = 2"
proof -
  obtain r q ks' where s: "bt_mesh_subnet_kr_phase_set keys_cfg 5 2 (refresh_example keys_cfg) = (r, q, ks')" using prod_cases3 by blast
  from kr_phase_set_table [OF refresh_example(3) _ refresh_example(1) s] refresh_example(2) [of keys_cfg]
  have "r = STATUS_SUCCESS \<and> q = 2" by simp
  with s show ?thesis by blast
qed

text \<open>
  C16: completing a Key Refresh procedure (phase 3 from phase 1 or 2) makes the subnet's new key
  its only key and returns to normal operation; each application key of the subnet that was
  updated continues with its new value, and every other subnet and application key stays.
\<close>

theorem key_refresh_completes:
  assumes inv: "keys_inv cfg ks" and n: "n < 0x1000" and i: "bt_mesh_subnet_get n ks = Some i"
    and ph: "sn_kr_phase (ks_subnets ks ! i) \<noteq> 0"
    and set: "bt_mesh_subnet_kr_phase_set cfg n 3 ks = (r, q, ks')"
  shows "r = STATUS_SUCCESS \<and> q = 0 \<and> sn_keys (ks_subnets ks' ! i) ! 0 = sn_keys (ks_subnets ks ! i) ! 1 \<and>
    \<not> sk_valid (sn_keys (ks_subnets ks' ! i) ! 1) \<and> (\<forall>j. j \<noteq> i \<longrightarrow> ks_subnets ks' ! j = ks_subnets ks ! j) \<and>
    (\<forall>j < length (ks_apps ks). let a = ks_apps ks ! j; a' = ks_apps ks' ! j in
      \<not> (ap_app_idx a \<noteq> BT_MESH_KEY_UNUSED \<and> ap_net_idx a = n \<and> ap_updated a') \<and>
      (if ap_app_idx a \<noteq> BT_MESH_KEY_UNUSED \<and> ap_net_idx a = n \<and> ap_updated a
       then ap_keys a' ! 0 = ap_keys a ! 1 \<and> ap_app_idx a' = ap_app_idx a \<and> ap_net_idx a' = n else a' = a))"
proof -
  note il = subnet_get_Some [OF i]
  have ok: "sub_ok cfg (ks_subnets ks ! i)" using inv il by (simp add: keys_inv_def)
  then have c: "sn_kr_phase (ks_subnets ks ! i) \<in> {1, 2}" using ph il idx_small [OF n] by (auto simp: sub_ok_def)
  have "bt_mesh_subnet_kr_phase_set cfg n 3 ks =
      (STATUS_SUCCESS, sn_kr_phase (ks_subnets (key_refresh cfg i 3 ks) ! i), key_refresh cfg i 3 ks)"
    using i c unfolding bt_mesh_subnet_kr_phase_set_def Let_def kr_transition_iff by auto
  with set have k: "r = STATUS_SUCCESS" "ks' = key_refresh cfg i 3 ks" "q = sn_kr_phase (ks_subnets ks' ! i)" by auto
  have t: "ks_subnets ks' = (ks_subnets ks)[i := sub_revoked (ks_subnets ks ! i)]"
    "ks_apps ks' = map (app_after BT_MESH_KEY_REVOKED n) (ks_apps ks)"
    using key_refresh_tables(3,4) [of i ks 3 cfg] il ph k(2) by auto
  show ?thesis using il k t by (auto simp: sub_revoked_def app_after_def app_revoked_def Let_def)
qed

theorem key_refresh_completes_witness:
  "\<exists>r q ks'. bt_mesh_subnet_kr_phase_set keys_cfg 5 3 (refresh_example keys_cfg) = (r, q, ks') \<and> r = STATUS_SUCCESS \<and> q = 0 \<and>
    sn_keys (ks_subnets ks' ! 0) ! 0 = sn_keys (ks_subnets (refresh_example keys_cfg) ! 0) ! 1"
proof -
  obtain r q ks' where s: "bt_mesh_subnet_kr_phase_set keys_cfg 5 3 (refresh_example keys_cfg) = (r, q, ks')" using prod_cases3 by blast
  have "sn_kr_phase (ks_subnets (refresh_example keys_cfg) ! 0) \<noteq> 0" using refresh_example(2) [of keys_cfg] by simp
  then have "r = STATUS_SUCCESS \<and> q = 0 \<and> sn_keys (ks_subnets ks' ! 0) ! 0 = sn_keys (ks_subnets (refresh_example keys_cfg) ! 0) ! 1"
    using key_refresh_completes [OF refresh_example(3) _ refresh_example(1) _ s] by simp
  with s show ?thesis by blast
qed

text \<open>
  C17: deleting a subnet removes it and exactly the application keys bound to it; nothing else
  in the tables changes.
\<close>

theorem subnet_del_exact:
  assumes inv: "keys_inv cfg ks" and n: "n < 0x1000" and i: "bt_mesh_subnet_get n ks = Some i"
    and del: "bt_mesh_subnet_del cfg n ks = (r, ks')"
  shows "r = STATUS_SUCCESS \<and> bt_mesh_subnet_get n ks' = None \<and> (\<forall>j. j \<noteq> i \<longrightarrow> ks_subnets ks' ! j = ks_subnets ks ! j) \<and>
    (\<forall>app \<in> set (ks_apps ks'). ap_app_idx app \<noteq> BT_MESH_KEY_UNUSED \<longrightarrow> ap_net_idx app \<noteq> n) \<and>
    (\<forall>j < length (ks_apps ks). ap_net_idx (ks_apps ks ! j) \<noteq> n \<longrightarrow> ks_apps ks' ! j = ks_apps ks ! j)"
proof -
  note il = subnet_get_Some [OF i]
  have r: "r = STATUS_SUCCESS" "ks' = subnet_del cfg i ks" using del i by (auto simp: bt_mesh_subnet_del_def)
  have "sn_net_idx (ks_subnets ks ! j) \<noteq> n" if "j < length (ks_subnets ks)" "j \<noteq> i" for j
    using inv il that idx_small [OF n] unfolding keys_inv_def idx_unique_def by (metis BT_MESH_KEY_UNUSED_def)
  then have "\<forall>j < length (ks_subnets ks). sn_net_idx ((ks_subnets ks)[i := unused_subnet] ! j) \<noteq> n"
    using idx_small [OF n] il by (auto simp: nth_list_update)
  then have "bt_mesh_subnet_get n ks' = None"
    using il r unfolding bt_mesh_subnet_get_def find_index_None all_set_nth by simp
  then show ?thesis using r il by (auto simp: app_after_def app_deleted_def)
qed

theorem subnet_del_exact_witness:
  "\<exists>r ks'. bt_mesh_subnet_del keys_cfg 5 (refresh_example keys_cfg) = (r, ks') \<and> r = STATUS_SUCCESS \<and> bt_mesh_subnet_get 5 ks' = None"
proof -
  obtain r ks' where s: "bt_mesh_subnet_del keys_cfg 5 (refresh_example keys_cfg) = (r, ks')" by (metis surj_pair)
  have "r = STATUS_SUCCESS \<and> bt_mesh_subnet_get 5 ks' = None"
    using subnet_del_exact [OF refresh_example(3) _ refresh_example(1) s] by simp
  with s show ?thesis by blast
qed

text \<open>The application key has, for the given key set, the credentials.\<close>

definition app_has :: "u16 \<Rightarrow> bool \<Rightarrow> u8 \<Rightarrow> bytes \<Rightarrow> app_key \<Rightarrow> bool" where
  "app_has net_idx new_key aid key app \<longleftrightarrow>
     ap_app_idx app \<noteq> BT_MESH_KEY_UNUSED \<and> ap_net_idx app = net_idx \<and>
     ap_keys app ! (if new_key \<and> ap_updated app then 1 else 0) = \<lparr>ak_id = aid, ak_val = key\<rparr>"

lemma app_find_loop_accepts:
  assumes "\<exists>app \<in> set apps. app_has n new aid key app"
  shows "\<exists>app \<in> set apps. fst (app_find_loop aid n new (\<lambda>k s. (k = key, s)) apps s) = ap_app_idx app \<and> app_has n new aid key app"
  using assms
proof (induction apps)
  case (Cons a apps)
  show ?case
  proof (cases "app_has n new aid key a")
    case True
    then show ?thesis by (auto simp: app_has_def Let_def)
  next
    case False
    then have "fst (app_find_loop aid n new (\<lambda>k s. (k = key, s)) (a # apps) s) =
        fst (app_find_loop aid n new (\<lambda>k s. (k = key, s)) apps s)"
      by (cases "ap_keys a ! (if new \<and> ap_updated a then 1 else 0)") (auto simp: app_has_def Let_def)
    then show ?thesis using Cons False by (simp del: app_find_loop.simps)
  qed
qed simp

text \<open>
  C18: sender and receiver agree on application keys in every phase.  If the key and identifier
  to send with resolve for an application key, a receiver with the same tables that decoded
  the PDU with the subnet's sending key finds, among the keys with that identifier, one with
  that value, when trying a key succeeds exactly for that value.
\<close>

theorem keys_resolve_find:
  assumes a: "\<not> BT_MESH_IS_DEV_KEY (ctx_app_idx ctx)" "ctx_app_idx ctx \<noteq> BT_MESH_KEY_UNUSED"
    and res: "bt_mesh_keys_resolve cfg dev_key has_addr cdb ctx ks = Inr (s, key, aid)"
    and rx: "rx_sub rx = s" "rx_new_key rx = (SUBNET_KEY_TX_IDX (ks_subnets ks ! s) = 1)"
  shows "\<exists>app \<in> set (ks_apps ks).
    fst (bt_mesh_app_key_find cfg dev_key cdb False aid rx (\<lambda>k st. (k = key, st)) ks st) = ap_app_idx app \<and>
    app_has (sn_net_idx (ks_subnets ks ! s)) (rx_new_key rx) aid key app"
proof -
  from res a obtain i where i: "app_get (ctx_app_idx ctx) ks = Some i" "bt_mesh_subnet_get (ap_net_idx (ks_apps ks ! i)) ks = Some s"
    "key = ak_val (ap_keys (ks_apps ks ! i) ! (if sn_kr_phase (ks_subnets ks ! s) = 2 \<and> ap_updated (ks_apps ks ! i) then 1 else 0))"
    "aid = ak_id (ap_keys (ks_apps ks ! i) ! (if sn_kr_phase (ks_subnets ks ! s) = 2 \<and> ap_updated (ks_apps ks ! i) then 1 else 0))"
    by (auto simp: bt_mesh_keys_resolve_def Let_def split: option.splits)
  let ?a = "ks_apps ks ! i"
  have nk: "rx_new_key rx \<longleftrightarrow> sn_kr_phase (ks_subnets ks ! s) = 2" using rx by (simp add: SUBNET_KEY_TX_IDX_def)
  have "?a \<in> set (ks_apps ks)" "ap_app_idx ?a \<noteq> BT_MESH_KEY_UNUSED" "ap_net_idx ?a = sn_net_idx (ks_subnets ks ! s)"
    using app_get_Some [OF i(1)] subnet_get_Some [OF i(2)] a by auto
  moreover have "ap_keys ?a ! (if rx_new_key rx \<and> ap_updated ?a then 1 else 0) = \<lparr>ak_id = aid, ak_val = key\<rparr>"
    unfolding i(3,4) nk by simp
  ultimately have "\<exists>app \<in> set (ks_apps ks). app_has (sn_net_idx (ks_subnets ks ! s)) (rx_new_key rx) aid key app"
    unfolding app_has_def by blast
  from app_find_loop_accepts [OF this] show ?thesis unfolding bt_mesh_app_key_find_def rx(1) by simp
qed

definition app_example_keys :: keys_state where
  "app_example_keys = boot_example\<lparr>ks_subnets := [unused_subnet\<lparr>sn_net_idx := 5, sn_kr_phase := 2\<rparr>],
     ks_apps := [\<lparr>ap_net_idx = 5, ap_app_idx = 1, ap_updated = True,
       ap_keys = [\<lparr>ak_id = 3, ak_val = replicate 16 1\<rparr>, \<lparr>ak_id = 4, ak_val = replicate 16 2\<rparr>]\<rparr>]\<rparr>"

definition ctx_example :: bt_mesh_msg_ctx where
  "ctx_example = \<lparr>ctx_net_idx = 5, ctx_app_idx = 1, ctx_addr = 9, ctx_recv_dst = 8, ctx_recv_rssi = 0, ctx_recv_ttl = 5,
     ctx_send_rel = False, ctx_send_ttl = 5\<rparr>"

definition rx_example :: bt_mesh_net_rx where
  "rx_example = \<lparr>rx_sub = 0, rx_ctx = ctx_example, rx_seq = 1, rx_old_iv = False, rx_new_key = True, rx_friend_cred = False,
     rx_ctl = False, rx_net_if = BT_MESH_NET_IF_ADV, rx_local_match = True, rx_friend_match = False, rx_msg_cache_idx = 0\<rparr>"

theorem keys_resolve_find_witness:
  "bt_mesh_keys_resolve keys_cfg [] (\<lambda>_. False) (\<lambda>_. None) ctx_example app_example_keys = Inr (0, replicate 16 2, 4) \<and>
    fst (bt_mesh_app_key_find keys_cfg [] (\<lambda>_. None) False 4 rx_example (\<lambda>k st. (k = replicate 16 2, st)) app_example_keys ()) = 1"
proof -
  have dk: "\<not> BT_MESH_IS_DEV_KEY (ctx_app_idx ctx_example)" "ctx_app_idx ctx_example \<noteq> BT_MESH_KEY_UNUSED"
    by (simp_all add: BT_MESH_IS_DEV_KEY_def BT_MESH_KEY_DEV_LOCAL_def BT_MESH_KEY_DEV_REMOTE_def ctx_example_def)
  have res: "bt_mesh_keys_resolve keys_cfg [] (\<lambda>_. False) (\<lambda>_. None) ctx_example app_example_keys = Inr (0, replicate 16 2, 4)"
    using dk(1) by (simp add: bt_mesh_keys_resolve_def app_get_def bt_mesh_subnet_get_def ctx_example_def app_example_keys_def)
  have rx: "rx_sub rx_example = 0" "rx_new_key rx_example = (SUBNET_KEY_TX_IDX (ks_subnets app_example_keys ! 0) = 1)"
    by (simp_all add: rx_example_def app_example_keys_def SUBNET_KEY_TX_IDX_def)
  from keys_resolve_find [OF dk res rx, of "()"] res show ?thesis by (auto simp: app_example_keys_def)
qed

end
