(* ===== verification/Mesh_Keys_Storage.thy ===== *)
theory Mesh_Keys_Storage
  imports Mesh_Keys
begin

text \<open>
  The key tables and persistent storage (\<open>core/src/mesh/subnet.c\<close>, \<open>core/src/mesh/app_keys.c\<close>).

  The settings subsystem is not part of the sources; its documented behaviour is that saving
  a path replaces the value and deleting it removes the value.  \<open>settings_after\<close> gives what
  is stored after a list of calls.  Both modules are interpretations of \<open>tracked_store\<close>.
\<close>

section \<open>What is stored\<close>

datatype setting = Net_setting net_key_val | App_setting app_key_val

definition settings_apply :: "(string \<Rightarrow> setting option) \<Rightarrow> keys_call \<Rightarrow> string \<Rightarrow> setting option" where
  "settings_apply m c =
     (case c of
        Keys_delete p \<Rightarrow> m(p := None)
      | Save_net_key p v \<Rightarrow> m(p := Some (Net_setting v))
      | Save_app_key p v \<Rightarrow> m(p := Some (App_setting v))
      | _ \<Rightarrow> m)"

definition settings_after :: "(string \<Rightarrow> setting option) \<Rightarrow> keys_call list \<Rightarrow> string \<Rightarrow> setting option" where
  "settings_after m calls = foldl settings_apply m calls"

definition net_mem :: "(string \<Rightarrow> setting option) \<Rightarrow> keys_state \<Rightarrow> u16 \<Rightarrow> net_key_val option" where
  "net_mem m ks k =
     (case settings_after m (ks_calls ks) (net_key_path k) of Some (Net_setting v) \<Rightarrow> Some v | _ \<Rightarrow> None)"

definition app_mem :: "(string \<Rightarrow> setting option) \<Rightarrow> keys_state \<Rightarrow> u16 \<Rightarrow> app_key_val option" where
  "app_mem m ks k =
     (case settings_after m (ks_calls ks) (app_key_path k) of Some (App_setting v) \<Rightarrow> Some v | _ \<Rightarrow> None)"

definition net_tab :: "keys_state \<Rightarrow> u16 \<Rightarrow> net_key_val option" where
  "net_tab ks k = map_option (\<lambda>i. subnet_stored (ks_subnets ks ! i)) (bt_mesh_subnet_get k ks)"

definition app_tab :: "keys_state \<Rightarrow> u16 \<Rightarrow> app_key_val option" where
  "app_tab ks k = map_option (\<lambda>i. app_key_stored (ks_apps ks ! i)) (app_get k ks)"

lemma hex_string_inject: "hex_string m = hex_string n \<longleftrightarrow> m = n"
  using strtol16_hex by metis

lemma path_inject [simp]:
  "net_key_path k = net_key_path l \<longleftrightarrow> k = l" "app_key_path k = app_key_path l \<longleftrightarrow> k = l"
  "net_key_path k \<noteq> app_key_path l" "app_key_path k \<noteq> net_key_path l"
  by (simp_all add: net_key_path_def app_key_path_def hex_string_inject word_unat_eq_iff)

lemma settings_after_snoc [simp]: "settings_after m (cs @ [c]) = settings_apply (settings_after m cs) c"
  by (simp add: settings_after_def)

lemma net_mem_call:
  "net_mem m (keys_call c ks) = net_mem m (ks\<lparr>ks_calls := ks_calls ks @ [c]\<rparr>)"
  by (simp add: net_mem_def fun_eq_iff)

lemma mem_simps [simp]:
  "net_mem m (keys_call (Keys_delete (net_key_path k)) ks) = (net_mem m ks)(k := None)"
  "net_mem m (keys_call (Save_net_key (net_key_path k) v) ks) = (net_mem m ks)(k := Some v)"
  "net_mem m (keys_call (Keys_delete (app_key_path k)) ks) = net_mem m ks"
  "net_mem m (keys_call (Save_app_key (app_key_path k) w) ks) = net_mem m ks"
  "app_mem m (keys_call (Keys_delete (app_key_path k)) ks) = (app_mem m ks)(k := None)"
  "app_mem m (keys_call (Save_app_key (app_key_path k) w) ks) = (app_mem m ks)(k := Some w)"
  "app_mem m (keys_call (Keys_delete (net_key_path k)) ks) = app_mem m ks"
  "app_mem m (keys_call (Save_net_key (net_key_path k) v) ks) = app_mem m ks"
  by (auto simp: net_mem_def app_mem_def settings_apply_def fun_eq_iff)

definition quiet_call :: "keys_call \<Rightarrow> bool" where
  "quiet_call c = (case c of Keys_delete _ \<Rightarrow> False | Save_net_key _ _ \<Rightarrow> False | Save_app_key _ _ \<Rightarrow> False | _ \<Rightarrow> True)"

lemma quiet_simps [simp]:
  "quiet_call (Keys_schedule f)" "quiet_call (App_key_evt a n e)" "quiet_call (Subnet_evt i e)" "quiet_call (Net_loopback_clear n)"
  "quiet_call (Beacon_update i)" "quiet_call (Proxy_identity_start i)" "quiet_call (Proxy_identity_stop i)" "quiet_call Adv_update"
  by (simp_all add: quiet_call_def)

lemma mem_quiet [simp]:
  "quiet_call c \<Longrightarrow> net_mem m (keys_call c ks) = net_mem m ks" "quiet_call c \<Longrightarrow> app_mem m (keys_call c ks) = app_mem m ks"
  by (simp_all add: net_mem_def app_mem_def settings_apply_def fun_eq_iff quiet_call_def split: keys_call.splits)

lemma mem_cong: "ks_calls ks' = ks_calls ks \<Longrightarrow> net_mem m ks' = net_mem m ks" "ks_calls ks' = ks_calls ks \<Longrightarrow> app_mem m ks' = app_mem m ks"
  by (simp_all add: net_mem_def app_mem_def fun_eq_iff)

lemma mem_fields [simp]:
  "net_mem m (ks\<lparr>ks_subnets := a\<rparr>) = net_mem m ks" "net_mem m (ks\<lparr>ks_apps := b\<rparr>) = net_mem m ks"
  "net_mem m (ks\<lparr>ks_net_key_updates := c\<rparr>) = net_mem m ks" "net_mem m (ks\<lparr>ks_app_key_updates := d\<rparr>) = net_mem m ks"
  "app_mem m (ks\<lparr>ks_subnets := a\<rparr>) = app_mem m ks" "app_mem m (ks\<lparr>ks_apps := b\<rparr>) = app_mem m ks"
  "app_mem m (ks\<lparr>ks_net_key_updates := c\<rparr>) = app_mem m ks" "app_mem m (ks\<lparr>ks_app_key_updates := d\<rparr>) = app_mem m ks"
  by (rule mem_cong, simp)+

lemma tab_cong:
  "ks_subnets ks' = ks_subnets ks \<Longrightarrow> net_tab ks' = net_tab ks" "ks_apps ks' = ks_apps ks \<Longrightarrow> app_tab ks' = app_tab ks"
  by (simp_all add: net_tab_def app_tab_def bt_mesh_subnet_get_def app_get_def fun_eq_iff)

lemma tab_simps [simp]:
  "net_tab (keys_call c ks) = net_tab ks" "net_tab (ks\<lparr>ks_apps := b\<rparr>) = net_tab ks"
  "net_tab (ks\<lparr>ks_net_key_updates := u\<rparr>) = net_tab ks" "net_tab (ks\<lparr>ks_app_key_updates := u\<rparr>) = net_tab ks"
  "net_tab (clear_net_key k ks) = net_tab ks" "net_tab (store_subnet k ks) = net_tab ks"
  "net_tab (update_subnet_settings k e ks) = net_tab ks" "net_tab (update_app_key_settings k e ks) = net_tab ks"
  "app_tab (keys_call c ks) = app_tab ks" "app_tab (ks\<lparr>ks_subnets := a\<rparr>) = app_tab ks"
  "app_tab (ks\<lparr>ks_net_key_updates := u\<rparr>) = app_tab ks" "app_tab (ks\<lparr>ks_app_key_updates := u\<rparr>) = app_tab ks"
  "app_tab (clear_app_key k ks) = app_tab ks" "app_tab (store_app_key k ks) = app_tab ks"
  "app_tab (update_subnet_settings k e ks) = app_tab ks" "app_tab (update_app_key_settings k e ks) = app_tab ks"
  by (rule tab_cong, simp)+

lemma net_updates [simp]:
  "ks_net_key_updates (clear_net_key k ks) = ks_net_key_updates ks" "ks_net_key_updates (store_subnet k ks) = ks_net_key_updates ks"
  "ks_app_key_updates (clear_net_key k ks) = ks_app_key_updates ks" "ks_app_key_updates (store_subnet k ks) = ks_app_key_updates ks"
  by (simp_all add: clear_net_key_def store_subnet_def split: option.split)

lemma app_updates [simp]:
  "ks_app_key_updates (clear_app_key k ks) = ks_app_key_updates ks" "ks_app_key_updates (store_app_key k ks) = ks_app_key_updates ks"
  "ks_net_key_updates (clear_app_key k ks) = ks_net_key_updates ks" "ks_net_key_updates (store_app_key k ks) = ks_net_key_updates ks"
  by (simp_all add: clear_app_key_def store_app_key_def split: option.split)

interpretation nk: tracked_store ks_net_key_updates net_tab "net_mem m" store_subnet clear_net_key
  update_subnet_settings subnet_pending_step for m
proof
  show mem_store: "net_mem m (store_subnet k st) = (case net_tab st k of None \<Rightarrow> net_mem m st | Some v \<Rightarrow> (net_mem m st)(k := Some v))" for k st
    by (simp add: store_subnet_def net_tab_def split: option.split)
  show "net_mem m (clear_net_key k st) = (net_mem m st)(k := None)" for k st by (simp add: clear_net_key_def)
qed (simp_all add: update_subnet_settings_def subnet_pending_step_def Let_def split: option.split)

interpretation ak: tracked_store ks_app_key_updates app_tab "app_mem m" store_app_key clear_app_key
  update_app_key_settings app_pending_step for m
proof
  show mem_store: "app_mem m (store_app_key k st) = (case app_tab st k of None \<Rightarrow> app_mem m st | Some v \<Rightarrow> (app_mem m st)(k := Some v))" for k st
    by (simp add: store_app_key_def app_tab_def split: option.split)
  show "app_mem m (clear_app_key k st) = (app_mem m st)(k := None)" for k st by (simp add: clear_app_key_def)
qed (simp_all add: update_app_key_settings_def app_pending_step_def Let_def split: option.split)

section \<open>Each module leaves the other's storage alone\<close>

lemma update_frames [simp]:
  "ks_net_key_updates (update_app_key_settings k b ks) = ks_net_key_updates ks"
  "net_mem m (update_app_key_settings k b ks) = net_mem m ks"
  "ks_app_key_updates (update_subnet_settings k b ks) = ks_app_key_updates ks"
  "app_mem m (update_subnet_settings k b ks) = app_mem m ks"
  by (simp_all add: update_app_key_settings_def update_subnet_settings_def store_app_key_def clear_app_key_def
      store_subnet_def clear_net_key_def split: option.split)

lemma set_frames [simp]:
  "ks_net_key_updates (app_set i a ks) = ks_net_key_updates ks" "ks_app_key_updates (app_set i a ks) = ks_app_key_updates ks"
  "net_mem m (app_set i a ks) = net_mem m ks" "app_mem m (app_set i a ks) = app_mem m ks"
  "ks_net_key_updates (sub_set i s ks) = ks_net_key_updates ks" "ks_app_key_updates (sub_set i s ks) = ks_app_key_updates ks"
  "net_mem m (sub_set i s ks) = net_mem m ks" "app_mem m (sub_set i s ks) = app_mem m ks"
  "ks_net_key_updates (app_key_evt a e ks) = ks_net_key_updates ks" "ks_app_key_updates (app_key_evt a e ks) = ks_app_key_updates ks"
  "net_mem m (app_key_evt a e ks) = net_mem m ks" "app_mem m (app_key_evt a e ks) = app_mem m ks"
  by (simp_all add: app_set_def sub_set_def app_key_evt_def)

lemma app_op_frames [simp]:
  "ks_net_key_updates (app_key_del cfg i ks) = ks_net_key_updates ks" "net_mem m (app_key_del cfg i ks) = net_mem m ks"
  "ks_net_key_updates (app_key_revoke cfg i ks) = ks_net_key_updates ks" "net_mem m (app_key_revoke cfg i ks) = net_mem m ks"
  "ks_net_key_updates (app_evt_step cfg n e i ks) = ks_net_key_updates ks" "net_mem m (app_evt_step cfg n e i ks) = net_mem m ks"
  by (simp_all add: app_evt_step_def app_key_del_def app_key_revoke_def Let_def)

lemma subnet_evt_frames [simp]:
  "ks_net_key_updates (subnet_evt cfg i e ks) = ks_net_key_updates ks" "net_mem m (subnet_evt cfg i e ks) = net_mem m ks"
  unfolding subnet_evt_def app_subnet_evt_def
  by (simp_all add: fold_keeps [where g = ks_net_key_updates] fold_keeps [where g = "net_mem m"])

section \<open>Looking up an index\<close>

lemma find_index_find: "map_option ((!) xs) (find_index P xs) = List.find P xs"
  by (induction xs) (auto simp: option.map_comp comp_def)

lemma tab_find:
  "net_tab ks k = map_option subnet_stored (List.find (\<lambda>s. sn_net_idx s = k) (ks_subnets ks))"
  "app_tab ks k = map_option app_key_stored (List.find (\<lambda>a. ap_app_idx a = k) (ks_apps ks))"
  by (simp_all add: net_tab_def app_tab_def bt_mesh_subnet_get_def app_get_def find_index_find [symmetric] option.map_comp comp_def)

lemma idx_uniqueD:
  "idx_unique f xs \<Longrightarrow> i < length xs \<Longrightarrow> j < length xs \<Longrightarrow> f (xs ! i) = f (xs ! j) \<Longrightarrow> f (xs ! i) \<noteq> BT_MESH_KEY_UNUSED \<Longrightarrow> i = j"
  unfolding idx_unique_def by simp

lemma find_unique:
  assumes "idx_unique f xs" "k \<noteq> BT_MESH_KEY_UNUSED"
  shows "List.find (\<lambda>x. f x = k) xs = Some x \<longleftrightarrow> x \<in> set xs \<and> f x = k"
proof -
  have "y \<in> set xs \<and> f y = k" if "List.find (\<lambda>x. f x = k) xs = Some y" for y
    using that by (auto simp: find_Some_iff)
  moreover have "List.find (\<lambda>x. f x = k) xs \<noteq> None" if "x \<in> set xs \<and> f x = k"
    using that by (auto simp: find_None_iff)
  ultimately show ?thesis using idx_unique_eq [OF assms(1)] assms(2) by (metis option.exhaust)
qed

lemma find_update:
  assumes "idx_unique f xs" "idx_unique f (xs[i := x])" "i < length xs" "k \<noteq> BT_MESH_KEY_UNUSED"
  shows "List.find (\<lambda>y. f y = k) (xs[i := x]) =
    (if f x = k then Some x else if f (xs ! i) = k then None else List.find (\<lambda>y. f y = k) xs)"
proof -
  note u = find_unique [OF assms(1,4)] find_unique [OF assms(2,4)]
  have mem: "y \<in> set (xs[i := x]) \<and> f y = k \<longleftrightarrow> y \<in> set xs \<and> f y = k" if "f x \<noteq> k" "f (xs ! i) \<noteq> k" for y
  proof
    assume "y \<in> set xs \<and> f y = k"
    then obtain j where "j < length xs" "y = xs ! j" "f y = k" by (metis in_set_conv_nth)
    moreover from this have "j \<noteq> i" using that by auto
    ultimately show "y \<in> set (xs[i := x]) \<and> f y = k" using nth_mem_update by metis
  qed (use that in \<open>auto dest: set_update_subset_insert [THEN subsetD]\<close>)
  have gone: "\<not> (y \<in> set (xs[i := x]) \<and> f y = k)" if "f x \<noteq> k" "f (xs ! i) = k" for y
  proof
    assume "y \<in> set (xs[i := x]) \<and> f y = k"
    then obtain j where "j < length xs" "y = xs[i := x] ! j" "f y = k" by (metis in_set_conv_nth length_list_update)
    moreover from this have "j \<noteq> i" using that(1) assms(3) by auto
    ultimately have "j < length xs" "j \<noteq> i" "f (xs ! j) = f (xs ! i)" using that(2) by auto
    moreover from this have "j = i" by (intro idx_uniqueD [OF assms(1)]) (use assms(3,4) that(2) in simp_all)
    ultimately show False by simp
  qed
  show ?thesis
  proof (cases "f x = k")
    case True
    then show ?thesis using u(2) set_update_memI [OF assms(3)] by simp
  next
    case False
    then show ?thesis using u mem gone by (cases "f (xs ! i) = k") (metis option.exhaust option.inject)+
  qed
qed

definition net_durable :: "(string \<Rightarrow> setting option) \<Rightarrow> keys_state \<Rightarrow> bool" where
  "net_durable m ks \<longleftrightarrow> durable (ks_net_key_updates ks) (net_tab ks) (net_mem m ks)"

definition app_durable :: "(string \<Rightarrow> setting option) \<Rightarrow> keys_state \<Rightarrow> bool" where
  "app_durable m ks \<longleftrightarrow> durable (ks_app_key_updates ks) (app_tab ks) (app_mem m ks)"

lemmas net_stored = nk.store_after_change [folded net_durable_def]
lemmas net_forgotten = nk.clear_before_removal [folded net_durable_def]
lemmas app_stored = ak.store_after_change [folded app_durable_def]
lemmas app_forgotten = ak.clear_before_removal [folded app_durable_def]

lemma net_tab_update:
  assumes "idx_unique sn_net_idx (ks_subnets ks)" "idx_unique sn_net_idx ((ks_subnets ks)[i := s])" "i < length (ks_subnets ks)"
    and "ks_subnets ks1 = (ks_subnets ks)[i := s]" "k < 0x1000"
  shows "net_tab ks1 k =
    (if sn_net_idx s = k then Some (subnet_stored s) else if sn_net_idx (ks_subnets ks ! i) = k then None else net_tab ks k)"
  using find_update [OF assms(1-3), of k] idx_small [OF assms(5)] unfolding tab_find assms(4) by simp

lemma app_tab_update:
  assumes "idx_unique ap_app_idx (ks_apps ks)" "idx_unique ap_app_idx ((ks_apps ks)[i := a])" "i < length (ks_apps ks)"
    and "ks_apps ks1 = (ks_apps ks)[i := a]" "k < 0x1000"
  shows "app_tab ks1 k =
    (if ap_app_idx a = k then Some (app_key_stored a) else if ap_app_idx (ks_apps ks ! i) = k then None else app_tab ks k)"
  using find_update [OF assms(1-3), of k] idx_small [OF assms(5)] unfolding tab_find assms(4) by simp

text \<open>The two ways in which an application key changes, with its storage.\<close>

definition apps_ok :: "keys_state \<Rightarrow> bool" where
  "apps_ok ks \<longleftrightarrow> idx_unique ap_app_idx (ks_apps ks) \<and>
     (\<forall>a \<in> set (ks_apps ks). ap_app_idx a = BT_MESH_KEY_UNUSED \<or> ap_app_idx a < 0x1000)"

lemma apps_ok_inv: "keys_inv cfg ks \<Longrightarrow> apps_ok ks"
  by (auto simp: keys_inv_def apps_ok_def app_ok_def)

lemma apps_ok_cong: "ks_apps ks' = ks_apps ks \<Longrightarrow> apps_ok ks' = apps_ok ks"
  by (simp add: apps_ok_def)

lemma app_replace:
  assumes d: "app_durable m ks" and ok: "apps_ok ks" and i: "i < length (ks_apps ks)"
    and a: "ap_app_idx a < 0x1000" "ap_app_idx a = ap_app_idx (ks_apps ks ! i) \<or>
      ap_app_idx (ks_apps ks ! i) = BT_MESH_KEY_UNUSED \<and> app_get (ap_app_idx a) ks = None"
  defines "ks1 \<equiv> update_app_key_settings (ap_app_idx a) True (app_set i a ks)"
  shows "app_durable m ks1" "apps_ok ks1"
proof -
  let ?as = "ks_apps ks"
  have u: "idx_unique ap_app_idx ?as" using ok by (simp add: apps_ok_def)
  have u': "idx_unique ap_app_idx (?as[i := a])"
  proof (rule idx_unique_update [OF u])
    fix j assume "j < length ?as" "j \<noteq> i" "ap_app_idx (?as ! j) = ap_app_idx a"
    then show "ap_app_idx a = BT_MESH_KEY_UNUSED"
      using a(2) u i unfolding idx_unique_def app_get_def find_index_None by (metis nth_mem)
  qed
  note t = app_tab_update [OF u u' i, of "app_set i a ks"]
  have "app_durable m (update_app_key_settings (ap_app_idx a) True (app_set i a ks))"
  proof -
    have "app_tab (app_set i a ks) (ap_app_idx a) \<noteq> None" using t [OF _ a(1)] by simp
    moreover have "app_tab (app_set i a ks) j = app_tab ks j" if "j < 0x1000" "j \<noteq> ap_app_idx a" for j
      using t [OF _ that(1)] that a(2) idx_small [OF that(1)] by auto
    ultimately show ?thesis using app_stored [OF d a(1), of "app_set i a ks"] by (simp add: app_durable_def)
  qed
  then show "app_durable m ks1" by (simp add: ks1_def)
  show "apps_ok ks1"
    using ok u' a by (auto simp: apps_ok_def ks1_def dest: set_update_subset_insert [THEN subsetD])
qed

lemma app_remove:
  assumes d: "app_durable m ks" and ok: "apps_ok ks" and i: "i < length (ks_apps ks)"
    and used: "ap_app_idx (ks_apps ks ! i) \<noteq> BT_MESH_KEY_UNUSED" and cfg: "cfg_settings cfg"
  shows "app_durable m (app_key_del cfg i ks)" "apps_ok (app_key_del cfg i ks)"
proof -
  let ?as = "ks_apps ks" and ?k = "ap_app_idx (ks_apps ks ! i)"
  have u: "idx_unique ap_app_idx ?as" and k: "?k < 0x1000" using ok used i nth_mem [OF i] by (auto simp: apps_ok_def)
  have u': "idx_unique ap_app_idx (?as[i := app_deleted (?as ! i)])"
    by (rule idx_unique_keep [OF u i]) (simp add: app_deleted_def)
  have dl: "ap_app_idx (app_deleted (?as ! i)) = BT_MESH_KEY_UNUSED" by (simp add: app_deleted_def)
  have v: "ks_app_key_updates (app_key_del cfg i ks) = ks_app_key_updates (update_app_key_settings ?k False ks)"
    "app_mem m (app_key_del cfg i ks) = app_mem m (update_app_key_settings ?k False ks)"
    using cfg by (simp_all add: app_key_del_def Let_def)
  note t = app_tab_update [OF u u' i app_key_del_tables(1) [of cfg i ks], unfolded dl]
  show "app_durable m (app_key_del cfg i ks)"
    using app_forgotten [OF d k _ v] t k idx_small by auto
  show "apps_ok (app_key_del cfg i ks)"
    using ok u' dl by (auto simp: apps_ok_def dest: set_update_subset_insert [THEN subsetD])
qed

section \<open>Every operation keeps tables and storage related\<close>

lemma tab_frames [simp]:
  "net_tab (app_key_evt a e ks) = net_tab ks" "app_tab (app_key_evt a e ks) = app_tab ks"
  "net_tab (app_set i a ks) = net_tab ks" "app_tab (sub_set i s ks) = app_tab ks"
  "net_tab (app_key_del cfg i ks) = net_tab ks" "net_tab (app_evt_step cfg n e i ks) = net_tab ks"
  "net_tab (subnet_evt cfg i e ks) = net_tab ks"
  by (rule tab_cong, simp add: app_evt_step_tables)+

lemma durable_frames [simp]:
  "app_durable m (sub_set i s ks) = app_durable m ks" "app_durable m (update_subnet_settings k b ks) = app_durable m ks"
  "app_durable m (bt_mesh_subnet_store k ks) = app_durable m ks" "app_durable m (app_key_evt a e ks) = app_durable m ks"
  "quiet_call c \<Longrightarrow> app_durable m (keys_call c ks) = app_durable m ks"
  "net_durable m (app_set i a ks) = net_durable m ks" "net_durable m (update_app_key_settings k b ks) = net_durable m ks"
  "net_durable m (app_key_evt a e ks) = net_durable m ks" "net_durable m (app_key_del cfg i ks) = net_durable m ks"
  "net_durable m (app_evt_step cfg n e i ks) = net_durable m ks" "net_durable m (subnet_evt cfg i e ks) = net_durable m ks"
  "quiet_call c \<Longrightarrow> net_durable m (keys_call c ks) = net_durable m ks"
  by (simp_all add: app_durable_def net_durable_def bt_mesh_subnet_store_def)

lemma app_evt_step_durable:
  assumes "app_durable m ks" "apps_ok ks" "i < length (ks_apps ks)" "cfg_settings cfg"
  shows "app_durable m (app_evt_step cfg n evt i ks) \<and> apps_ok (app_evt_step cfg n evt i ks)"
proof -
  let ?a = "ks_apps ks ! i"
  have r: "app_durable m (app_key_revoke cfg i ks) \<and> apps_ok (app_key_revoke cfg i ks)"
    if "ap_app_idx ?a \<noteq> BT_MESH_KEY_UNUSED"
  proof (cases "ap_updated ?a")
    case True
    let ?r = "?a\<lparr>ap_keys := [ap_keys ?a ! 1, zero_app_cred], ap_updated := False\<rparr>"
    have "ap_app_idx ?r < 0x1000" using assms(2) that nth_mem [OF assms(3)] by (auto simp: apps_ok_def)
    from app_replace [OF assms(1,2,3) this] show ?thesis
      using True assms(4) by (simp add: app_key_revoke_def Let_def apps_ok_def)
  qed (use assms in \<open>simp add: app_key_revoke_def\<close>)
  show ?thesis
    using r app_remove [OF assms(1,2,3) _ assms(4)] assms(1,2) by (simp add: app_evt_step_def Let_def apps_ok_def)
qed

lemma subnet_evt_app_durable:
  assumes "app_durable m ks" "apps_ok ks" "cfg_settings cfg"
  shows "app_durable m (subnet_evt cfg i evt ks)"
proof -
  let ?ks = "keys_call (Subnet_evt i evt) ks"
  define P where "P = (\<lambda>k. app_durable m k \<and> apps_ok k \<and> length (ks_apps k) = length (ks_apps ks))"
  have "P (fold (app_evt_step cfg n evt) [0..<length (ks_apps ks)] ?ks)" for n
  proof (rule fold_invariant_upt)
    show "P ?ks" using assms by (simp add: P_def apps_ok_def)
    show "P (app_evt_step cfg n evt j k)" if "P k" "j < length (ks_apps ks)" for j k
      using that app_evt_step_durable [of m k j cfg n evt] assms(3) by (simp add: P_def app_evt_step_tables)
  qed
  then show ?thesis using assms by (simp add: subnet_evt_def app_subnet_evt_def P_def)
qed

lemma app_key_op_durable:
  assumes d: "app_durable m ks" and inv: "keys_inv cfg ks" and cfg: "cfg_settings cfg"
  shows "a < 0x1000 \<Longrightarrow> app_durable m (snd (bt_mesh_app_key_add cfg a n key ks))"
    and "a < 0x1000 \<Longrightarrow> app_durable m (snd (bt_mesh_app_key_update cfg a n key ks))"
    and "a < 0x1000 \<Longrightarrow> app_durable m (snd (bt_mesh_app_key_del cfg a n ks))"
    and "app_durable m (bt_mesh_app_keys_reset cfg ks)"
proof -
  note ok = apps_ok_inv [OF inv]
  obtain aid where aid: "bt_mesh_app_id key = Inr aid" using derivations_succeed(4) by blast
  { assume a: "a < 0x1000"
    show "app_durable m (snd (bt_mesh_app_key_add cfg a n key ks))"
    proof (cases "snd (bt_mesh_app_key_add cfg a n key ks) = ks")
      case False
      then obtain i where al: "app_key_alloc a ks = Some i" "bt_mesh_subnet_get n ks \<noteq> None" "ap_app_idx (ks_apps ks ! i) \<noteq> a"
        by (auto simp: bt_mesh_app_key_add_def Let_def split: option.splits if_splits)
      have f: "i < length (ks_apps ks)" "ap_app_idx (ks_apps ks ! i) = BT_MESH_KEY_UNUSED" "app_get a ks = None"
        using al(3) alloc_cases [OF al(1) [unfolded app_key_alloc_def]] by (auto simp: app_get_def)
      show ?thesis
        using app_replace(1) [OF d ok f(1), of "(ks_apps ks ! i)\<lparr>ap_net_idx := n, ap_app_idx := a, ap_updated := False,
            ap_keys := (ap_keys (ks_apps ks ! i))[0 := \<lparr>ak_id = aid, ak_val = take 16 key\<rparr>]\<rparr>"] a f(2,3) al aid cfg
        by (auto simp: bt_mesh_app_key_add_def Let_def)
    qed (use d in simp)
    show "app_durable m (snd (bt_mesh_app_key_update cfg a n key ks))"
    proof (cases "snd (bt_mesh_app_key_update cfg a n key ks) = ks")
      case False
      then obtain i j where i: "app_get a ks = Some i" and r: "bt_mesh_subnet_get (ap_net_idx (ks_apps ks ! i)) ks = Some j"
        "n = BT_MESH_KEY_UNUSED \<or> ap_net_idx (ks_apps ks ! i) = n" "sn_kr_phase (ks_subnets ks ! j) = 1" "\<not> ap_updated (ks_apps ks ! i)"
        by (auto simp: bt_mesh_app_key_update_def Let_def split: option.splits if_splits)
      show ?thesis
        using app_replace(1) [OF d ok, of i "(ks_apps ks ! i)\<lparr>ap_updated := True,
            ap_keys := (ap_keys (ks_apps ks ! i))[1 := \<lparr>ak_id = aid, ak_val = take 16 key\<rparr>]\<rparr>"] app_get_Some [OF i] a i r aid cfg by (auto simp: bt_mesh_app_key_update_def Let_def)
    qed (use d in simp)
    show "app_durable m (snd (bt_mesh_app_key_del cfg a n ks))"
      using app_remove(1) [OF d ok _ _ cfg] app_get_Some idx_small [OF a] d
      by (auto simp: bt_mesh_app_key_del_def split: option.split) }
  define P where "P = (\<lambda>k. app_durable m k \<and> apps_ok k \<and> length (ks_apps k) = length (ks_apps ks))"
  have "P (fold (\<lambda>i ks. if ap_app_idx (ks_apps ks ! i) \<noteq> BT_MESH_KEY_UNUSED then app_key_del cfg i ks else ks)
      [0..<length (ks_apps ks)] ks)"
    by (rule fold_invariant_upt) (use d ok app_remove [OF _ _ _ _ cfg] in \<open>auto simp: P_def\<close>)
  then show "app_durable m (bt_mesh_app_keys_reset cfg ks)" by (simp add: bt_mesh_app_keys_reset_def P_def)
qed

lemma net_replace:
  assumes d: "net_durable m ks" and u: "idx_unique sn_net_idx (ks_subnets ks)" and i: "i < length (ks_subnets ks)"
    and s: "sn_net_idx s < 0x1000" "sn_net_idx s = sn_net_idx (ks_subnets ks ! i) \<or>
      sn_net_idx (ks_subnets ks ! i) = BT_MESH_KEY_UNUSED \<and> bt_mesh_subnet_get (sn_net_idx s) ks = None"
    and t: "ks_subnets ks1 = (ks_subnets ks)[i := s]" "ks_net_key_updates ks1 = ks_net_key_updates ks" "net_mem m ks1 = net_mem m ks"
  shows "net_durable m (bt_mesh_subnet_store (sn_net_idx s) ks1)"
proof -
  let ?ss = "ks_subnets ks"
  have u': "idx_unique sn_net_idx (?ss[i := s])"
  proof (rule idx_unique_update [OF u])
    fix j assume "j < length ?ss" "j \<noteq> i" "sn_net_idx (?ss ! j) = sn_net_idx s"
    then show "sn_net_idx s = BT_MESH_KEY_UNUSED"
      using s(2) u i unfolding idx_unique_def bt_mesh_subnet_get_def find_index_None by (metis nth_mem)
  qed
  note tab = net_tab_update [OF u u' i t(1)]
  have "net_tab ks1 (sn_net_idx s) \<noteq> None" using tab [OF s(1)] by simp
  moreover have "net_tab ks1 j = net_tab ks j" if "j < 0x1000" "j \<noteq> sn_net_idx s" for j
    using tab [OF that(1)] that s(2) idx_small [OF that(1)] by auto
  ultimately show ?thesis using net_stored [OF d s(1) _ t(2,3)] by (simp add: net_durable_def bt_mesh_subnet_store_def)
qed

lemma net_remove:
  assumes d: "net_durable m ks" and inv: "keys_inv cfg ks" and i: "i < length (ks_subnets ks)"
    and used: "sn_net_idx (ks_subnets ks ! i) \<noteq> BT_MESH_KEY_UNUSED" and cfg: "cfg_settings cfg"
  shows "net_durable m (subnet_del cfg i ks)"
proof -
  let ?ss = "ks_subnets ks" and ?n = "sn_net_idx (ks_subnets ks ! i)"
  have u: "idx_unique sn_net_idx ?ss" and n: "?n < 0x1000"
    using inv used nth_mem [OF i] by (auto simp: keys_inv_def sub_ok_def)
  have u': "idx_unique sn_net_idx (?ss[i := unused_subnet])" by (rule idx_unique_keep [OF u i]) simp
  have v: "ks_net_key_updates (subnet_del cfg i ks) = ks_net_key_updates (update_subnet_settings ?n False ks)"
    "net_mem m (subnet_del cfg i ks) = net_mem m (update_subnet_settings ?n False ks)"
    using cfg by (simp_all add: subnet_del_def Let_def)
  note t = net_tab_update [OF u u' i subnet_del_tables(1) [OF i, of cfg]]
  show ?thesis using net_forgotten [OF d n _ v] t n idx_small by auto
qed

lemma key_refresh_durable:
  assumes d: "net_durable m ks" and a: "app_durable m ks" and inv: "keys_inv cfg ks" and i: "i < length (ks_subnets ks)"
    and used: "sn_net_idx (ks_subnets ks ! i) \<noteq> BT_MESH_KEY_UNUSED" and cfg: "cfg_settings cfg"
    and p: "p = 1 \<or> p = 2 \<or> p = 3"
    and s: "ks0 = ks \<or> (\<exists>k. ks0 = sub_set i ((ks_subnets ks ! i)\<lparr>sn_keys := k\<rparr>) ks) \<and> p = 1"
  shows "net_durable m (key_refresh cfg i p ks0) \<and> app_durable m (key_refresh cfg i p ks0)"
proof (cases "p = 3 \<and> sn_kr_phase (ks_subnets ks0 ! i) = 0")
  case True
  then show ?thesis using d a s by (auto simp: key_refresh_def)
next
  case False
  let ?n = "sn_net_idx (ks_subnets ks ! i)"
  have u: "idx_unique sn_net_idx (ks_subnets ks)" and n: "?n < 0x1000"
    using inv used nth_mem [OF i] by (auto simp: keys_inv_def sub_ok_def)
  have ok: "apps_ok ks" by (rule apps_ok_inv [OF inv])
  obtain sub e where k: "key_refresh cfg i p ks0 = bt_mesh_subnet_store ?n (subnet_evt cfg i e (sub_set i sub ks))"
    "sn_net_idx sub = ?n"
    using s p False cfg i by (auto simp: key_refresh_def Let_def sub_set_def)
  have "net_durable m (bt_mesh_subnet_store (sn_net_idx sub) (subnet_evt cfg i e (sub_set i sub ks)))"
    by (rule net_replace [OF d u i]) (use n k(2) in simp_all)
  moreover have "app_durable m (subnet_evt cfg i e (sub_set i sub ks))"
    by (rule subnet_evt_app_durable) (use a ok cfg in \<open>simp_all add: apps_ok_def\<close>)
  ultimately show ?thesis using k by simp
qed

lemma subnet_fill_durable:
  assumes d: "net_durable m ks" "app_durable m ks" and inv: "keys_inv cfg ks" and cfg: "cfg_settings cfg"
    and n: "n < 0x1000" "length key = 16"
  shows "net_durable m (snd (bt_mesh_subnet_add cfg n key ks)) \<and> app_durable m (snd (bt_mesh_subnet_add cfg n key ks))"
    and "net_durable m (snd (net_create_subnet cfg n kr key ks)) \<and> app_durable m (snd (net_create_subnet cfg n kr key ks))"
proof -
  have u: "idx_unique sn_net_idx (ks_subnets ks)" using inv by (simp add: keys_inv_def)
  note ok = apps_ok_inv [OF inv]
  have fill: "net_durable m (bt_mesh_subnet_store n ks1)"
    if "i < length (ks_subnets ks)" "sn_net_idx (ks_subnets ks ! i) = BT_MESH_KEY_UNUSED" "bt_mesh_subnet_get n ks = None"
      "sn_net_idx s = n" "ks_subnets ks1 = (ks_subnets ks)[i := s]" "ks_net_key_updates ks1 = ks_net_key_updates ks"
      "net_mem m ks1 = net_mem m ks" for i s ks1
    using net_replace [OF d(1) u that(1) _ _ that(5,6,7)] that n by auto
  show "net_durable m (snd (bt_mesh_subnet_add cfg n key ks)) \<and> app_durable m (snd (bt_mesh_subnet_add cfg n key ks))"
  proof (cases "subnet_alloc n ks")
    case (Some i)
    from Some [unfolded subnet_alloc_def] show ?thesis
    proof (cases rule: alloc_cases)
      case 2
      let ?s = "ks_subnets ks ! i"
      obtain k0 where k0: "net_keys_create cfg key (sn_keys ?s ! 0) = (None, k0)" using net_keys_create_ok [OF n(2)] by metis
      define s where "s = ?s\<lparr>sn_keys := (sn_keys ?s)[0 := k0], sn_net_idx := n, sn_kr_phase := 0, sn_node_id := node_id_default cfg\<rparr>"
      have r: "snd (bt_mesh_subnet_add cfg n key ks) = bt_mesh_subnet_store n (subnet_evt cfg i BT_MESH_KEY_ADDED (sub_set i s ks))"
        using Some 2 k0 cfg by (simp add: bt_mesh_subnet_add_def Let_def s_def)
      have g: "bt_mesh_subnet_get n ks = None" using 2(4) by (simp add: bt_mesh_subnet_get_def)
      have "net_durable m (bt_mesh_subnet_store n (subnet_evt cfg i BT_MESH_KEY_ADDED (sub_set i s ks)))"
        by (rule fill [OF 2(1,2) g, of s]) (simp_all add: s_def)
      moreover have "app_durable m (subnet_evt cfg i BT_MESH_KEY_ADDED (sub_set i s ks))"
        by (rule subnet_evt_app_durable) (use d ok cfg in \<open>simp_all add: apps_ok_def\<close>)
      ultimately show ?thesis unfolding r by simp
    qed (use Some d in \<open>simp add: bt_mesh_subnet_add_def Let_def\<close>)
  qed (use d in \<open>simp add: bt_mesh_subnet_add_def\<close>)
  show "net_durable m (snd (net_create_subnet cfg n kr key ks)) \<and> app_durable m (snd (net_create_subnet cfg n kr key ks))"
  proof (cases "subnet_alloc n ks")
    case (Some i)
    from Some [unfolded subnet_alloc_def] show ?thesis
    proof (cases rule: alloc_cases)
      case 2
      let ?s = "ks_subnets ks ! i"
      obtain k where k: "net_keys_create cfg key (sn_keys ?s ! (if kr then 1 else 0)) = (None, k)"
        using net_keys_create_ok [OF n(2)] by metis
      define s where "s = ?s\<lparr>sn_keys := (if kr then [sn_keys ?s ! 0, k] else [k, sn_keys ?s ! 1]), sn_net_idx := n,
        sn_kr_phase := (if kr then 2 else 0), sn_node_id := node_id_default cfg\<rparr>"
      have r: "snd (net_create_subnet cfg n kr key ks) = bt_mesh_subnet_store n (keys_call (Beacon_update i) (sub_set i s ks))"
        using Some 2 k cfg by (auto simp: net_create_subnet_def bt_mesh_subnet_set_def Let_def s_def)
      have g: "bt_mesh_subnet_get n ks = None" using 2(4) by (simp add: bt_mesh_subnet_get_def)
      have "net_durable m (bt_mesh_subnet_store n (keys_call (Beacon_update i) (sub_set i s ks)))"
        by (rule fill [OF 2(1,2) g, of s]) (simp_all add: s_def)
      then show ?thesis unfolding r using d by simp
    qed (use Some d in \<open>simp add: net_create_subnet_def bt_mesh_subnet_set_def Let_def\<close>)
  qed (use d in \<open>simp add: net_create_subnet_def bt_mesh_subnet_set_def\<close>)
qed

lemma subnet_del_durable:
  assumes "net_durable m ks" "app_durable m ks" "keys_inv cfg ks" "cfg_settings cfg" "i < length (ks_subnets ks)"
    and "sn_net_idx (ks_subnets ks ! i) \<noteq> BT_MESH_KEY_UNUSED"
  shows "net_durable m (subnet_del cfg i ks) \<and> app_durable m (subnet_del cfg i ks)"
proof -
  let ?ks = "keys_call (Net_loopback_clear (sn_net_idx (ks_subnets ks ! i))) (update_subnet_settings (sn_net_idx (ks_subnets ks ! i)) False ks)"
  have "app_durable m (subnet_evt cfg i BT_MESH_KEY_DELETED ?ks)"
    by (rule subnet_evt_app_durable) (use assms apps_ok_inv [OF assms(3)] in \<open>simp_all add: apps_ok_def\<close>)
  then show ?thesis using net_remove [OF assms(1,3,5,6,4)] assms(4) by (simp add: subnet_del_def Let_def)
qed

lemma net_keys_reset_durable:
  assumes "net_durable m ks" "app_durable m ks" "keys_inv cfg ks" "cfg_settings cfg"
  shows "net_durable m (bt_mesh_net_keys_reset cfg ks) \<and> app_durable m (bt_mesh_net_keys_reset cfg ks)"
proof -
  define P where "P = (\<lambda>k. net_durable m k \<and> app_durable m k \<and> keys_inv cfg k \<and> length (ks_subnets k) = length (ks_subnets ks))"
  have "P (fold (\<lambda>i ks. if sn_net_idx (ks_subnets ks ! i) \<noteq> BT_MESH_KEY_UNUSED then subnet_del cfg i ks else ks)
      [0..<length (ks_subnets ks)] ks)"
  proof (rule fold_invariant_upt)
    show "P ks" using assms by (simp add: P_def)
    show "P (if sn_net_idx (ks_subnets k ! i) \<noteq> BT_MESH_KEY_UNUSED then subnet_del cfg i k else k)"
      if "P k" "i < length (ks_subnets ks)" for i k
      using that subnet_del_durable [of m k cfg i] subnet_del_inv [of cfg k i] assms(4) by (simp add: P_def)
  qed
  then show ?thesis by (simp add: bt_mesh_net_keys_reset_def P_def)
qed

lemma pending_durable:
  assumes "net_durable m ks" "app_durable m ks"
  shows "net_durable m (bt_mesh_subnet_pending_store ks) \<and> app_durable m (bt_mesh_subnet_pending_store ks)"
    and "net_durable m (bt_mesh_app_key_pending_store ks) \<and> app_durable m (bt_mesh_app_key_pending_store ks)"
proof -
  have keep: "ks_app_key_updates (subnet_pending_step i k) = ks_app_key_updates k" "app_mem m (subnet_pending_step i k) = app_mem m k"
    "ks_net_key_updates (app_pending_step i k) = ks_net_key_updates k" "net_mem m (app_pending_step i k) = net_mem m k" for i k
    by (simp_all add: subnet_pending_step_def app_pending_step_def Let_def store_subnet_def clear_net_key_def
        store_app_key_def clear_app_key_def split: option.split)
  have a: "app_durable m (bt_mesh_subnet_pending_store ks) = app_durable m ks"
    "net_durable m (bt_mesh_app_key_pending_store ks) = net_durable m ks"
    using tab_cong(2) [OF pending_tables(2)] tab_cong(1) [OF pending_tables(3)]
      fold_keeps [where g = ks_app_key_updates and step = subnet_pending_step, OF keep(1)]
      fold_keeps [where g = "app_mem m" and step = subnet_pending_step, OF keep(2)]
      fold_keeps [where g = ks_net_key_updates and step = app_pending_step, OF keep(3)]
      fold_keeps [where g = "net_mem m" and step = app_pending_step, OF keep(4)]
    unfolding app_durable_def net_durable_def bt_mesh_subnet_pending_store_def bt_mesh_app_key_pending_store_def by simp_all
  show "net_durable m (bt_mesh_subnet_pending_store ks) \<and> app_durable m (bt_mesh_subnet_pending_store ks)"
    using nk.steps_durable [OF _ order_refl, of ks m] assms a unfolding net_durable_def bt_mesh_subnet_pending_store_def by blast
  show "net_durable m (bt_mesh_app_key_pending_store ks) \<and> app_durable m (bt_mesh_app_key_pending_store ks)"
    using ak.steps_durable [OF _ order_refl, of ks m] assms a unfolding app_durable_def bt_mesh_app_key_pending_store_def by blast
qed

lemma subnet_update_durable:
  assumes d: "net_durable m ks" "app_durable m ks" and inv: "keys_inv cfg ks" and cfg: "cfg_settings cfg"
    and n: "n < 0x1000" "length key = 16"
  shows "net_durable m (snd (bt_mesh_subnet_update cfg n key ks)) \<and> app_durable m (snd (bt_mesh_subnet_update cfg n key ks))"
proof (cases "snd (bt_mesh_subnet_update cfg n key ks) = ks")
  case False
  then obtain i where i: "bt_mesh_subnet_get n ks = Some i" by (auto simp: bt_mesh_subnet_update_def split: option.splits)
  note il = subnet_get_Some [OF i]
  obtain k1 where k1: "net_keys_create cfg key (sn_keys (ks_subnets ks ! i) ! 1) = (None, k1)"
    using net_keys_create_ok [OF n(2)] by metis
  let ?ks0 = "sub_set i ((ks_subnets ks ! i)\<lparr>sn_keys := (sn_keys (ks_subnets ks ! i))[1 := k1]\<rparr>) ks"
  have "snd (bt_mesh_subnet_update cfg n key ks) = key_refresh cfg i 1 ?ks0"
    using False i k1 by (auto simp: bt_mesh_subnet_update_def Let_def split: if_splits)
  then show ?thesis
    using key_refresh_durable [OF d inv _ _ cfg, of i 1 ?ks0] il idx_small [OF n(1)] by auto
qed (use d in simp)

lemma kr_durable:
  assumes d: "net_durable m ks" "app_durable m ks" and inv: "keys_inv cfg ks" and cfg: "cfg_settings cfg" and n: "n < 0x1000"
  shows "net_durable m (snd (snd (bt_mesh_subnet_kr_phase_set cfg n p ks))) \<and> app_durable m (snd (snd (bt_mesh_subnet_kr_phase_set cfg n p ks)))"
    and "bt_mesh_subnet_get n ks = Some i \<Longrightarrow>
      net_durable m (bt_mesh_kr_update cfg i f nk ks) \<and> app_durable m (bt_mesh_kr_update cfg i f nk ks)"
proof -
  have kr: "net_durable m (key_refresh cfg j q ks) \<and> app_durable m (key_refresh cfg j q ks)"
    if "bt_mesh_subnet_get n ks = Some j" "q = 2 \<or> q = 3" for j q
    using key_refresh_durable [OF d inv _ _ cfg, of j q ks] subnet_get_Some [OF that(1)] idx_small [OF n] that(2) by auto
  show "net_durable m (snd (snd (bt_mesh_subnet_kr_phase_set cfg n p ks))) \<and> app_durable m (snd (snd (bt_mesh_subnet_kr_phase_set cfg n p ks)))"
  proof (cases "bt_mesh_subnet_get n ks")
    case (Some j)
    then show ?thesis
      using kr [OF Some, of p] d unfolding bt_mesh_subnet_kr_phase_set_def Let_def kr_transition_iff by auto
  qed (use d in \<open>simp add: bt_mesh_subnet_kr_phase_set_def\<close>)
  show "net_durable m (bt_mesh_kr_update cfg i f nk ks) \<and> app_durable m (bt_mesh_kr_update cfg i f nk ks)"
    if "bt_mesh_subnet_get n ks = Some i"
    using kr [OF that] d by (simp add: bt_mesh_kr_update_def Let_def)
qed

lemma app_ops_net_durable:
  assumes "net_durable m ks"
  shows "net_durable m (snd (bt_mesh_app_key_add cfg a n key ks))" "net_durable m (snd (bt_mesh_app_key_update cfg a n key ks))"
    "net_durable m (snd (bt_mesh_app_key_del cfg a n ks))" "net_durable m (bt_mesh_app_keys_reset cfg ks)"
proof -
  have "net_durable m (fold (\<lambda>i ks. if ap_app_idx (ks_apps ks ! i) \<noteq> BT_MESH_KEY_UNUSED then app_key_del cfg i ks else ks) xs ks) =
      net_durable m ks" for xs
    by (rule fold_keeps) simp
  then show "net_durable m (bt_mesh_app_keys_reset cfg ks)" using assms by (simp add: bt_mesh_app_keys_reset_def)
qed (use assms in \<open>auto simp: bt_mesh_app_key_add_def bt_mesh_app_key_update_def bt_mesh_app_key_del_def Let_def
      split: option.split sum.split\<close>)

lemma keys_step_durable:
  assumes "keys_step cfg ks ks'" "net_durable m ks" "app_durable m ks" "keys_inv cfg ks" "cfg_settings cfg"
  shows "net_durable m ks' \<and> app_durable m ks'"
  using assms(1)
proof cases
  case (Subnet_del n)
  then show ?thesis
    using assms subnet_del_durable subnet_get_Some idx_small by (auto simp: bt_mesh_subnet_del_def split: option.split)
next
  case (Node_id_set n i)
  then show ?thesis using assms by (auto simp: bt_mesh_subnet_node_id_set_def split: option.split)
qed (use assms in \<open>simp_all add: subnet_fill_durable subnet_update_durable kr_durable net_keys_reset_durable pending_durable
      app_ops_net_durable app_key_op_durable\<close>)

section \<open>Properties\<close>

definition storage_empty :: "(string \<Rightarrow> setting option) \<Rightarrow> bool" where
  "storage_empty m \<longleftrightarrow> (\<forall>k. m (net_key_path k) = None \<and> m (app_key_path k) = None)"

lemma boot_durable:
  assumes b: "boot_keys ks" and e: "storage_empty m"
  shows "net_durable m ks \<and> app_durable m ks"
proof -
  have "net_tab ks k = None" "app_tab ks k = None" if "k < 0x1000" for k
    using b idx_small [OF that] unfolding tab_find boot_keys_def by (auto simp: find_None_iff)
  moreover have "net_mem m ks k = None" "app_mem m ks k = None" for k
    using b e by (simp_all add: net_mem_def app_mem_def settings_after_def boot_keys_def storage_empty_def)
  moreover have "\<not> ku_valid u" if "u \<in> set (ks_net_key_updates ks) \<or> u \<in> set (ks_app_key_updates ks)" for u
    using b that by (auto simp: boot_keys_def)
  ultimately show ?thesis unfolding net_durable_def app_durable_def durable_def by (auto dest: nth_mem)
qed

text \<open>
  C15: after any calls of the key interface from start-up with empty storage, running the
  pending stores leaves in persistent storage, for every key index, exactly what the two
  tables hold: the current value for every key in use and nothing for the others.
\<close>

theorem storage_matches_tables:
  assumes "boot_keys ks0" "storage_empty m" "cfg_settings cfg" "rtranclp (keys_step cfg) ks0 ks" "k < 0x1000"
  shows "let ks' = bt_mesh_app_key_pending_store (bt_mesh_subnet_pending_store ks) in
    net_mem m ks' k = net_tab ks k \<and> app_mem m ks' k = app_tab ks k"
proof -
  from assms(4) have d: "net_durable m ks \<and> app_durable m ks \<and> keys_inv cfg ks"
  proof induction
    case base
    then show ?case using boot_durable assms boot_keys_inv by blast
  next
    case (step y z)
    then show ?case using keys_step_durable keys_step_inv assms(3) by blast
  qed
  let ?k1 = "bt_mesh_subnet_pending_store ks"
  have d1: "net_durable m ?k1" "app_durable m ?k1" using pending_durable(1) d by blast+
  have "net_mem m (app_pending_step i k) = net_mem m k" for i k
    by (simp add: app_pending_step_def Let_def store_app_key_def clear_app_key_def split: option.split)
  then have "net_mem m (bt_mesh_app_key_pending_store ?k1) = net_mem m ?k1"
    unfolding bt_mesh_app_key_pending_store_def by (rule fold_keeps [where g = "net_mem m" and step = app_pending_step])
  moreover have "net_mem m ?k1 k = net_tab ks k"
    using nk.pending_store_exact [OF _ assms(5)] d unfolding net_durable_def bt_mesh_subnet_pending_store_def by blast
  moreover have "app_mem m (bt_mesh_app_key_pending_store ?k1) k = app_tab ?k1 k"
    using ak.pending_store_exact [OF _ assms(5)] d1 unfolding app_durable_def bt_mesh_app_key_pending_store_def by blast
  moreover have "app_tab ?k1 = app_tab ks" by (rule tab_cong) (rule pending_tables)
  ultimately show ?thesis by (simp add: Let_def)
qed

theorem storage_matches_tables_witness:
  "let ks' = bt_mesh_app_key_pending_store (bt_mesh_subnet_pending_store (sub_example keys_cfg)) in
    net_mem (\<lambda>_. None) ks' 5 = net_tab (sub_example keys_cfg) 5 \<and> app_mem (\<lambda>_. None) ks' 5 = app_tab (sub_example keys_cfg) 5"
proof (rule storage_matches_tables [OF boot_example])
  show "rtranclp (keys_step keys_cfg) boot_example (sub_example keys_cfg)"
    unfolding sub_example_def by (rule r_into_rtranclp, rule Subnet_add) simp_all
qed (simp_all add: storage_empty_def keys_cfg_def)

lemma word_of_hex: "word_of_nat (strtol16 0 (hex_string (unat (k :: u16)))) = k"
  using strtol16_hex by simp

lemma subnet_alloc_fresh:
  assumes "bt_mesh_subnet_get n ks = None" "find_index (\<lambda>s. sn_net_idx s = BT_MESH_KEY_UNUSED) (ks_subnets ks) = Some i"
  shows "subnet_alloc n ks = Some i" "i < length (ks_subnets ks)" "sn_net_idx (ks_subnets ks ! i) = BT_MESH_KEY_UNUSED"
    "sn_net_idx (ks_subnets ks ! i) \<noteq> n"
  using assms find_index_Some [OF assms(2)]
  by (simp_all add: subnet_alloc_def alloc_loop_0 bt_mesh_subnet_get_def) (auto simp: find_index_None)

lemma subnet_get_set:
  assumes "bt_mesh_subnet_get n ks = None" "i < length (ks_subnets ks)" "sn_net_idx s = n" "ks_subnets ks' = (ks_subnets ks)[i := s]"
  shows "bt_mesh_subnet_get n ks' = Some i"
proof (cases "find_index (\<lambda>s. sn_net_idx s = n) ((ks_subnets ks)[i := s])")
  case None
  then show ?thesis using assms set_update_memI [OF assms(2), of s] by (auto simp: find_index_None)
next
  case (Some j)
  have "j = i"
  proof (rule ccontr)
    assume "j \<noteq> i"
    then have "sn_net_idx (ks_subnets ks ! j) = n" "j < length (ks_subnets ks)" using find_index_Some [OF Some] by auto
    then show False using assms(1) by (auto simp: bt_mesh_subnet_get_def find_index_None)
  qed
  then show ?thesis using Some assms(4) by (simp add: bt_mesh_subnet_get_def)
qed

lemma net_key_load:
  assumes "bt_mesh_subnet_get n ks = None" "find_index (\<lambda>s. sn_net_idx s = BT_MESH_KEY_UNUSED) (ks_subnets ks) = Some i"
    and "nk_val v = [v0, v1]" "length v0 = 16" "nk_kr_phase v \<noteq> 0 \<Longrightarrow> length v1 = 16"
  obtains k0 k1 ks' where "net_key_set cfg (Some (hex_string (unat n))) (Inr v) ks = (None, ks')"
    "ks_subnets ks' = (ks_subnets ks)[i := (ks_subnets ks ! i)\<lparr>sn_keys := [k0, k1], sn_net_idx := n,
       sn_kr_phase := ucast (nk_kr_phase v), sn_node_id := node_id_default cfg\<rparr>]"
    "net_keys_create cfg v0 (sn_keys (ks_subnets ks ! i) ! 0) = (None, k0)" "keys_derived cfg k0" "sk_net k0 = v0"
    "if nk_kr_phase v = 0 then k1 = sn_keys (ks_subnets ks ! i) ! 1
     else net_keys_create cfg v1 (sn_keys (ks_subnets ks ! i) ! 1) = (None, k1) \<and> keys_derived cfg k1 \<and> sk_net k1 = v1"
proof -
  note al = subnet_alloc_fresh [OF assms(1,2)]
  let ?s = "ks_subnets ks ! i"
  obtain k0 where k0: "net_keys_create cfg v0 (sn_keys ?s ! 0) = (None, k0)" "keys_derived cfg k0" "sk_net k0 = v0"
    using net_keys_create_ok [OF assms(4)] by metis
  show thesis
  proof (cases "nk_kr_phase v = 0")
    case True
    then show thesis
      using al k0 assms(3) that [of _ k0 "sn_keys ?s ! 1"]
      by (simp add: net_key_set_def word_of_hex bt_mesh_subnet_set_def Let_def)
  next
    case False
    obtain k1 where "net_keys_create cfg v1 (sn_keys ?s ! 1) = (None, k1)" "keys_derived cfg k1" "sk_net k1 = v1"
      using net_keys_create_ok [OF assms(5) [OF False]] by metis
    then show thesis
      using al k0 assms(3) False that [of _ k0 k1]
      by (simp add: net_key_set_def word_of_hex bt_mesh_subnet_set_def Let_def)
  qed
qed

lemma net_keys_create_fields:
  assumes "net_keys_create cfg key k = (None, k')"
  shows "msg_cred_create [0] key = Inr (sk_msg k')" "sk_net k' = take 16 key" "bt_mesh_k3 key = Inr (sk_net_id k')"
    "bt_mesh_beacon_key key = Inr (sk_beacon k')" "sk_valid k'" "cfg_gatt_proxy cfg \<Longrightarrow> bt_mesh_identity_key key = Inr (sk_identity k')"
  using assms unfolding net_keys_create_def Let_def by (auto split: sum.splits if_splits)

definition keys_equal :: "mesh_cfg \<Rightarrow> bt_mesh_subnet_keys \<Rightarrow> bt_mesh_subnet_keys \<Rightarrow> bool" where
  "keys_equal cfg k k' \<longleftrightarrow> sk_valid k' = sk_valid k \<and> sk_net k' = sk_net k \<and> sk_msg k' = sk_msg k \<and> sk_net_id k' = sk_net_id k \<and>
     sk_beacon k' = sk_beacon k \<and> (cfg_gatt_proxy cfg \<longrightarrow> sk_identity k' = sk_identity k)"

lemma keys_derived_create:
  assumes "keys_derived cfg k" "net_keys_create cfg (sk_net k) k' = (None, k'')"
  shows "keys_equal cfg k k''"
proof -
  have "net_keys_create cfg (sk_net k) k = (None, k)" "sk_valid k" using assms(1) by (simp_all add: keys_derived_def)
  then show ?thesis
    using net_keys_create_fields [of cfg "sk_net k" k k] net_keys_create_fields [OF assms(2)] by (auto simp: keys_equal_def)
qed

text \<open>
  A subnet whose first key is valid, stored and loaded again into a table with a free slot
  that does not know its index, comes back with the same index and phase, and each of its
  valid keys with the same network key and derived material.
\<close>

theorem net_key_store_load:
  assumes s: "sub_ok cfg s" "sn_net_idx s \<noteq> BT_MESH_KEY_UNUSED" "sk_valid (sn_keys s ! 0)"
    and g: "bt_mesh_subnet_get (sn_net_idx s) ks = None"
    and f: "find_index (\<lambda>s. sn_net_idx s = BT_MESH_KEY_UNUSED) (ks_subnets ks) = Some i"
    and k: "\<not> sk_valid (sn_keys (ks_subnets ks ! i) ! 1)"
  shows "\<exists>ks' s'. net_key_set cfg (Some (hex_string (unat (sn_net_idx s)))) (Inr (subnet_stored s)) ks = (None, ks') \<and>
    bt_mesh_subnet_get (sn_net_idx s) ks' = Some i \<and> ks_subnets ks' ! i = s' \<and> sn_kr_phase s' = sn_kr_phase s \<and>
    keys_equal cfg (sn_keys s ! 0) (sn_keys s' ! 0) \<and>
    (if sk_valid (sn_keys s ! 1) then keys_equal cfg (sn_keys s ! 1) (sn_keys s' ! 1) else \<not> sk_valid (sn_keys s' ! 1))"
proof -
  let ?v = "subnet_stored s" and ?k0 = "sn_keys s ! 0" and ?k1 = "sn_keys s ! 1"
  have d0: "keys_derived cfg ?k0" using s by (auto simp: sub_ok_def)
  have ph: "sn_kr_phase s = 0 \<or> sn_kr_phase s = 1 \<or> sn_kr_phase s = 2" using s by (auto simp: sub_ok_def)
  have d1: "sn_kr_phase s \<noteq> 0 \<Longrightarrow> keys_derived cfg ?k1" "sk_valid ?k1 \<longleftrightarrow> sn_kr_phase s \<noteq> 0"
    using s by (auto simp: sub_ok_def keys_derived_def)
  have phv: "ucast (nk_kr_phase ?v) = sn_kr_phase s" "nk_kr_phase ?v = 0 \<longleftrightarrow> sn_kr_phase s = 0"
    using ph by (auto simp: subnet_stored_def)
  have v: "nk_val ?v = [sk_net ?k0, sk_net ?k1]" "length (sk_net ?k0) = 16" "nk_kr_phase ?v \<noteq> 0 \<Longrightarrow> length (sk_net ?k1) = 16"
    using d0 d1(1) phv(2) by (auto simp: subnet_stored_def keys_derived_def)
  obtain k0 k1 ks' where l: "net_key_set cfg (Some (hex_string (unat (sn_net_idx s)))) (Inr ?v) ks = (None, ks')"
    "ks_subnets ks' = (ks_subnets ks)[i := (ks_subnets ks ! i)\<lparr>sn_keys := [k0, k1], sn_net_idx := sn_net_idx s,
       sn_kr_phase := ucast (nk_kr_phase ?v), sn_node_id := node_id_default cfg\<rparr>]"
    "net_keys_create cfg (sk_net ?k0) (sn_keys (ks_subnets ks ! i) ! 0) = (None, k0)"
    "if nk_kr_phase ?v = 0 then k1 = sn_keys (ks_subnets ks ! i) ! 1
     else net_keys_create cfg (sk_net ?k1) (sn_keys (ks_subnets ks ! i) ! 1) = (None, k1)"
    by (rule net_key_load [OF g f v, of cfg]) (auto split: if_splits)
  have i: "i < length (ks_subnets ks)" using find_index_Some [OF f] by simp
  have get: "bt_mesh_subnet_get (sn_net_idx s) ks' = Some i" by (rule subnet_get_set [OF g i _ l(2)]) simp
  have e0: "keys_equal cfg ?k0 k0" by (rule keys_derived_create [OF d0 l(3)])
  have e1: "if sk_valid ?k1 then keys_equal cfg ?k1 k1 else \<not> sk_valid k1"
    using l(4) k d1 keys_derived_create [OF d1(1)] phv(2) by (auto split: if_splits)
  show ?thesis using l(1,2) get e0 e1 i phv(1) by auto
qed

theorem net_key_store_load_witness:
  "let s = ks_subnets (sub_example keys_cfg) ! 0 in
   \<exists>ks' s'. net_key_set keys_cfg (Some (hex_string (unat (sn_net_idx s)))) (Inr (subnet_stored s)) boot_example = (None, ks') \<and>
     ks_subnets ks' ! 0 = s' \<and> sn_kr_phase s' = sn_kr_phase s \<and> keys_equal keys_cfg (sn_keys s ! 0) (sn_keys s' ! 0)"
proof -
  obtain k0 where t: "ks_subnets (sub_example keys_cfg) =
     [unused_subnet\<lparr>sn_keys := [k0, zero_subnet_keys], sn_net_idx := 5, sn_kr_phase := 0, sn_node_id := node_id_default keys_cfg\<rparr>, unused_subnet]"
    using sub_example(1) by blast
  let ?s = "ks_subnets (sub_example keys_cfg) ! 0"
  have s: "sub_ok keys_cfg ?s" using sub_example(3) [of keys_cfg] t by (simp add: keys_inv_def)
  have u: "sn_net_idx ?s \<noteq> BT_MESH_KEY_UNUSED" "sn_net_idx ?s = 5" using t by simp_all
  have v: "sk_valid (sn_keys ?s ! 0)" using s t by (simp add: sub_ok_def keys_derived_def)
  have g: "bt_mesh_subnet_get (sn_net_idx ?s) boot_example = None" unfolding u(2) by (simp add: bt_mesh_subnet_get_def)
  have f: "find_index (\<lambda>s. sn_net_idx s = BT_MESH_KEY_UNUSED) (ks_subnets boot_example) = Some 0" by simp
  show ?thesis
    using net_key_store_load [OF s u(1) v g f] unfolding Let_def by (auto simp: zero_subnet_keys_def)
qed

text \<open>
  C19: a node that joins a network in phase 2 of a Key Refresh procedure has no old key, but
  what is stored for it contains one of sixteen zero bytes; after a restart the loaded
  subnet has a valid first key whose network key is all zero, and its credentials are among
  those a received PDU is tried with.
\<close>

theorem zero_key_after_restart:
  assumes b: "boot_keys ks0" "ks_subnets ks0 \<noteq> []" and n: "n < 0x1000" "length key = 16"
    and c: "net_create_subnet cfg n True key ks0 = (err, ks1)"
  shows "err = None \<and> (\<exists>ks2. bt_mesh_subnet_get n ks1 = Some 0 \<and> \<not> sk_valid (sn_keys (ks_subnets ks1 ! 0) ! 0) \<and>
    net_key_set cfg (Some (hex_string (unat n))) (Inr (subnet_stored (ks_subnets ks1 ! 0))) ks0 = (None, ks2) \<and>
    bt_mesh_subnet_get n ks2 = Some 0 \<and> keys_derived cfg (sn_keys (ks_subnets ks2 ! 0) ! 0) \<and>
    sk_net (sn_keys (ks_subnets ks2 ! 0) ! 0) = replicate 16 0 \<and>
    (0, 0, False, sk_msg (sn_keys (ks_subnets ks2 ! 0) ! 0)) \<in> set (cred_attempts (ks_subnets ks2) None []))"
proof -
  have u: "\<forall>s \<in> set (ks_subnets ks0). s = unused_subnet" and l0: "0 < length (ks_subnets ks0)" using b by (auto simp: boot_keys_def)
  then have s0: "ks_subnets ks0 ! 0 = unused_subnet" by simp
  have g: "bt_mesh_subnet_get n ks0 = None"
    using u idx_small [OF n(1)] unfolding bt_mesh_subnet_get_def find_index_None by auto
  have f: "find_index (\<lambda>s. sn_net_idx s = BT_MESH_KEY_UNUSED) (ks_subnets ks0) = Some 0"
    using s0 l0 by (cases "ks_subnets ks0") auto
  note al = subnet_alloc_fresh [OF g f]
  obtain k1 where k1: "net_keys_create cfg key zero_subnet_keys = (None, k1)" "sk_net k1 = key"
    using net_keys_create_ok [OF n(2)] by metis
  define s1 where "s1 = unused_subnet\<lparr>sn_keys := [zero_subnet_keys, k1], sn_net_idx := n, sn_kr_phase := 2, sn_node_id := node_id_default cfg\<rparr>"
  have k: "err = None" "ks_subnets ks1 = (ks_subnets ks0)[0 := s1]"
    using c al k1(1) s0 by (auto simp: net_create_subnet_def bt_mesh_subnet_set_def Let_def s1_def)
  have g1: "bt_mesh_subnet_get n ks1 = Some 0" by (rule subnet_get_set [OF g l0 _ k(2)]) (simp add: s1_def)
  have v: "nk_val (subnet_stored s1) = [replicate 16 0, key]" "nk_kr_phase (subnet_stored s1) \<noteq> 0"
    using k1(2) by (simp_all add: subnet_stored_def s1_def zero_subnet_keys_def)
  obtain z k' ks2 where l: "net_key_set cfg (Some (hex_string (unat n))) (Inr (subnet_stored s1)) ks0 = (None, ks2)"
    "ks_subnets ks2 = (ks_subnets ks0)[0 := unused_subnet\<lparr>sn_keys := [z, k'], sn_net_idx := n,
       sn_kr_phase := ucast (nk_kr_phase (subnet_stored s1)), sn_node_id := node_id_default cfg\<rparr>]"
    "keys_derived cfg z" "sk_net z = replicate 16 0"
    by (rule net_key_load [OF g f v(1), of cfg]) (use n(2) s0 in auto)
  have g2: "bt_mesh_subnet_get n ks2 = Some 0" by (rule subnet_get_set [OF g l0 _ l(2)]) simp
  have "sn_net_idx (ks_subnets ks2 ! 0) \<noteq> BT_MESH_KEY_UNUSED" "0 < length (ks_subnets ks2)" "sn_keys (ks_subnets ks2 ! 0) = [z, k']"
    using l(2) l0 idx_small [OF n(1)] by simp_all
  moreover have "sk_valid z" using l(3) by (simp add: keys_derived_def)
  ultimately have "(0, 0, False, sk_msg z) \<in> set (cred_attempts (ks_subnets ks2) None [])"
    by (auto simp: cred_attempts_def cred_attempts_of_def intro!: bexI [of _ 0])
  then show ?thesis using k g1 l g2 l0 by (simp add: s1_def zero_subnet_keys_def)
qed

theorem zero_key_after_restart_witness:
  "\<exists>ks1 ks2. net_create_subnet keys_cfg 5 True (replicate 16 7) boot_example = (None, ks1) \<and>
    net_key_set keys_cfg (Some (hex_string (unat (5 :: u16)))) (Inr (subnet_stored (ks_subnets ks1 ! 0))) boot_example = (None, ks2) \<and>
    sk_valid (sn_keys (ks_subnets ks2 ! 0) ! 0) \<and> sk_net (sn_keys (ks_subnets ks2 ! 0) ! 0) = replicate 16 0"
proof -
  obtain err ks1 where c: "net_create_subnet keys_cfg 5 True (replicate 16 7) boot_example = (err, ks1)" by (metis surj_pair)
  have h: "ks_subnets boot_example \<noteq> []" "(5 :: u16) < 0x1000" "length (replicate 16 (7 :: u8)) = 16" by simp_all
  obtain ks2 where "err = None"
    "net_key_set keys_cfg (Some (hex_string (unat (5 :: u16)))) (Inr (subnet_stored (ks_subnets ks1 ! 0))) boot_example = (None, ks2)"
    "keys_derived keys_cfg (sn_keys (ks_subnets ks2 ! 0) ! 0)" "sk_net (sn_keys (ks_subnets ks2 ! 0) ! 0) = replicate 16 0"
    using zero_key_after_restart [OF boot_example h c] by blast
  with c show ?thesis unfolding keys_derived_def by blast
qed

end
