(* ===== verification/Mesh_Seg_Tx.thy ===== *)
theory Mesh_Seg_Tx
  imports Mesh_Net
begin

text \<open>
  The sending half of the mesh transport layer, \<open>core/src/mesh/transport.c\<close>: segmentation,
  retransmission, virtual addresses, encryption of access messages and control messages.

  \<open>trans_state\<close> holds the sending and receiving contexts, the labels of virtual addresses,
  the number of free blocks of the slab \<open>segs\<close>, the network layer and the key tables below,
  and the calls that leave the layer, newest last.  The memory block behind an entry of
  \<open>seg\<close> is the bytes copied into it.  A delayable work item is its delay in milliseconds when
  it is scheduled.  A \<open>trans_env\<close> answers what the layer asks others.  An assertion failure
  or an access outside an array is \<open>None\<close>.
\<close>

section \<open>Headers\<close>

definition AID_MASK :: u8 where "AID_MASK = 0x3f"
definition TRANS_SEQ_AUTH_NVAL :: u64 where "TRANS_SEQ_AUTH_NVAL = 0xffffffffffffffff"
definition BT_MESH_SDU_UNSEG_MAX :: nat where "BT_MESH_SDU_UNSEG_MAX = 11"
definition BT_MESH_CTL_SEG_SDU_MAX :: nat where "BT_MESH_CTL_SEG_SDU_MAX = 8"
definition BT_MESH_APP_SEG_SDU_MAX :: nat where "BT_MESH_APP_SEG_SDU_MAX = 12"
definition BT_MESH_MIC_SHORT :: nat where "BT_MESH_MIC_SHORT = 4"
definition BT_MESH_TTL_MAX :: u8 where "BT_MESH_TTL_MAX = 0x7f"
definition TRANS_SEQ_ZERO_MASK :: u64 where "TRANS_SEQ_ZERO_MASK = mask 13"

definition UNSEG_HDR :: "u8 \<Rightarrow> u8 \<Rightarrow> u8" where
  "UNSEG_HDR akf aid = push_bit 6 akf OR (aid AND AID_MASK)"

definition SEG_HDR :: "u8 \<Rightarrow> u8 \<Rightarrow> u8" where
  "SEG_HDR akf aid = UNSEG_HDR akf aid OR 0x80"

definition TRANS_CTL_HDR :: "u8 \<Rightarrow> u8 \<Rightarrow> u8" where
  "TRANS_CTL_HDR op seg = (op AND 0x7f) OR push_bit 7 seg"

definition SEQ_AUTH :: "u32 \<Rightarrow> u32 \<Rightarrow> u64" where
  "SEQ_AUTH iv_index seq = push_bit 24 (ucast iv_index) OR ucast seq"

definition seq_zero_of :: "u64 \<Rightarrow> u16" where
  "seq_zero_of seq_auth = ucast (seq_auth AND TRANS_SEQ_ZERO_MASK)"

definition seg_len :: "bool \<Rightarrow> nat" where
  "seg_len ctl = (if ctl then BT_MESH_CTL_SEG_SDU_MAX else BT_MESH_APP_SEG_SDU_MAX)"

section \<open>State and environment\<close>

record trans_cfg =
  tc_mesh :: mesh_cfg
  tc_low_power :: bool
  tc_tx_seg_max :: nat
  tc_rx_seg_max :: nat
  tc_retrans_count :: u8
  tc_retrans_unicast :: nat
  tc_retrans_group :: nat

definition BT_MESH_TX_SDU_MAX :: "trans_cfg \<Rightarrow> nat" where
  "BT_MESH_TX_SDU_MAX tc = tc_tx_seg_max tc * BT_MESH_APP_SEG_SDU_MAX"

definition BT_MESH_RX_SDU_MAX :: "trans_cfg \<Rightarrow> nat" where
  "BT_MESH_RX_SDU_MAX tc = tc_rx_seg_max tc * BT_MESH_APP_SEG_SDU_MAX"

text \<open>A callback structure with its data; \<open>cb_start\<close> and \<open>cb_end\<close> say which members are set.\<close>

record send_cb =
  cb_id :: nat
  cb_start :: bool
  cb_end :: bool

record virtual_addr =
  va_ref :: "15 word"
  va_changed :: bool
  va_addr :: u16
  va_uuid :: bytes

record seg_tx =
  st_sub :: "nat option"
  st_seg :: "bytes option list"
  st_seq_auth :: u64
  st_src :: u16
  st_dst :: u16
  st_len :: u16
  st_hdr :: u8
  st_xmit :: u8
  st_seg_n :: u8
  st_seg_o :: u8
  st_nack_count :: u8
  st_attempts :: u8
  st_ttl :: u8
  st_seg_pending :: u8
  st_blocked :: bool
  st_ctl :: bool
  st_aszmic :: bool
  st_started :: bool
  st_sending :: bool
  st_friend_cred :: bool
  st_cb :: "send_cb option"
  st_retransmit :: "nat option"

record seg_rx =
  sr_sub :: "nat option"
  sr_seg :: "bytes option list"
  sr_seq_auth :: u64
  sr_src :: u16
  sr_dst :: u16
  sr_len :: u16
  sr_hdr :: u8
  sr_seg_n :: "5 word"
  sr_ctl :: bool
  sr_in_use :: bool
  sr_obo :: bool
  sr_ttl :: u8
  sr_block :: u32
  sr_last :: u32
  sr_ack :: "nat option"

datatype bt_mesh_friend_pdu_type = BT_MESH_FRIEND_PDU_SINGLE | BT_MESH_FRIEND_PDU_PARTIAL | BT_MESH_FRIEND_PDU_COMPLETE

datatype trans_out =
    Cb_start nat u16 "errno option"
  | Cb_end nat "errno option"
  | Friend_enqueue_tx bt_mesh_friend_pdu_type "u64 option" nat bytes
  | Friend_enqueue_rx bt_mesh_friend_pdu_type "u64 option" nat bytes
  | Friend_clear_incomplete "nat option" u16 u16 u64
  | Ctl_handler u8 bytes
  | Model_recv bytes u16
  | Lpn_poll
  | Lpn_msg_received
  | Va_store_schedule
  | Va_save string u16 u16 bytes
  | Va_delete string

record trans_state =
  ts_tx :: "seg_tx list"
  ts_rx :: "seg_rx list"
  ts_va :: "virtual_addr list"
  ts_free :: nat
  ts_layer :: net_layer
  ts_keys :: keys_state
  ts_out :: "trans_out list"

record trans_env =
  te_net :: net_env
  te_adv :: "nat \<Rightarrow> net_buf_simple option"
  te_friend_space :: "u16 \<Rightarrow> u16 \<Rightarrow> u16 \<Rightarrow> u64 option \<Rightarrow> nat \<Rightarrow> bool"
  te_friend_enqueue :: "bt_mesh_friend_pdu_type \<Rightarrow> bytes \<Rightarrow> bool"
  te_friend_match :: "u16 \<Rightarrow> u16 \<Rightarrow> bool"
  te_lpn_established :: bool
  te_lpn_waiting_update :: bool
  te_lpn_frnd :: u16
  te_default_ttl :: u8
  te_transmit :: u8
  te_primary_addr :: u16
  te_uptime :: u32
  te_cdb_node :: "u16 \<Rightarrow> bytes option"
  te_ctl_handler :: "u8 \<Rightarrow> bytes \<Rightarrow> errno option"

definition trans_output :: "trans_out \<Rightarrow> trans_state \<Rightarrow> trans_state" where
  "trans_output x s = s\<lparr>ts_out := ts_out s @ [x]\<rparr>"

definition upd_tx :: "nat \<Rightarrow> (seg_tx \<Rightarrow> seg_tx) \<Rightarrow> trans_state \<Rightarrow> trans_state" where
  "upd_tx i f s = s\<lparr>ts_tx := (ts_tx s)[i := f (ts_tx s ! i)]\<rparr>"

definition upd_rx :: "nat \<Rightarrow> (seg_rx \<Rightarrow> seg_rx) \<Rightarrow> trans_state \<Rightarrow> trans_state" where
  "upd_rx i f s = s\<lparr>ts_rx := (ts_rx s)[i := f (ts_rx s ! i)]\<rparr>"

abbreviation ts_net :: "trans_state \<Rightarrow> bt_mesh_net" where
  "ts_net s \<equiv> nl_net (ts_layer s)"

definition set_net :: "bt_mesh_net \<Rightarrow> trans_state \<Rightarrow> trans_state" where
  "set_net st s = s\<lparr>ts_layer := (ts_layer s)\<lparr>nl_net := st\<rparr>\<rparr>"

section \<open>Sending contexts\<close>

definition bt_mesh_tx_in_progress :: "trans_state \<Rightarrow> bool" where
  "bt_mesh_tx_in_progress s \<longleftrightarrow> (\<exists>tx \<in> set (ts_tx s). st_nack_count tx \<noteq> 0)"

text \<open>What the network layer sees of this layer: whether a segmented message is being sent.\<close>

definition trans_net_env :: "trans_env \<Rightarrow> trans_state \<Rightarrow> net_env" where
  "trans_net_env te s =
     (te_net te)\<lparr>ne_iv := (ne_iv (te_net te))\<lparr>env_tx_in_progress := bt_mesh_tx_in_progress s\<rparr>,
                 ne_subnets := ks_subnets (ts_keys s)\<rparr>"

definition seg_tx_done :: "nat \<Rightarrow> nat \<Rightarrow> trans_state \<Rightarrow> trans_state" where
  "seg_tx_done i k s =
     (upd_tx i (\<lambda>tx. tx\<lparr>st_seg := (st_seg tx)[k := None], st_nack_count := st_nack_count tx - 1\<rparr>) s)
       \<lparr>ts_free := ts_free s + 1\<rparr>"

definition seg_tx_blocks :: "seg_tx \<Rightarrow> u16 \<Rightarrow> u16 \<Rightarrow> bool" where
  "seg_tx_blocks tx src dst \<longleftrightarrow> st_src tx = src \<and> st_dst tx = dst"

fun unblock_scan :: "nat \<Rightarrow> seg_tx list \<Rightarrow> nat list \<Rightarrow> nat option \<Rightarrow> nat option" where
  "unblock_scan i txs [] blocked = blocked"
| "unblock_scan i txs (j # js) blocked =
     unblock_scan i txs js
       (if j \<noteq> i \<and> st_blocked (txs ! j) \<and> seg_tx_blocks (txs ! i) (st_src (txs ! j)) (st_dst (txs ! j)) \<and>
           (case blocked of None \<Rightarrow> True | Some b \<Rightarrow> st_seq_auth (txs ! j) < st_seq_auth (txs ! b))
        then Some j else blocked)"

definition seg_tx_unblock_check :: "nat \<Rightarrow> trans_state \<Rightarrow> trans_state" where
  "seg_tx_unblock_check i s =
     (case unblock_scan i (ts_tx s) [0..<length (ts_tx s)] None of None \<Rightarrow> s
      | Some b \<Rightarrow> upd_tx b (\<lambda>tx. tx\<lparr>st_blocked := False, st_retransmit := Some 0\<rparr>) s)"

fun seg_tx_free_loop :: "nat \<Rightarrow> nat list \<Rightarrow> trans_state \<Rightarrow> trans_state option" where
  "seg_tx_free_loop i [] s = Some s"
| "seg_tx_free_loop i (k # ks) s =
     (if st_nack_count (ts_tx s ! i) = 0 then Some s
      else if length (st_seg (ts_tx s ! i)) \<le> k then None
      else if st_seg (ts_tx s ! i) ! k = None then seg_tx_free_loop i ks s
      else seg_tx_free_loop i ks (seg_tx_done i k s))"

definition seg_tx_reset :: "trans_cfg \<Rightarrow> trans_env \<Rightarrow> nat \<Rightarrow> trans_state \<Rightarrow> trans_state option" where
  "seg_tx_reset tc te i s =
     (let s = upd_tx i (\<lambda>tx. tx\<lparr>st_retransmit := None, st_cb := None, st_seq_auth := 0, st_sub := None,
                st_src := BT_MESH_ADDR_UNASSIGNED, st_dst := BT_MESH_ADDR_UNASSIGNED, st_blocked := False\<rparr>) s in
      do {
        s \<leftarrow> seg_tx_free_loop i [0..<unat (st_seg_n (ts_tx s ! i)) + 1] s;
        let s = upd_tx i (\<lambda>tx. tx\<lparr>st_nack_count := 0\<rparr>) s;
        Some (set_net (iv_update_deferred (tc_mesh tc) (ne_iv (trans_net_env te s)) (ts_net s)) s)
      })"

definition cb_end_call :: "send_cb option \<Rightarrow> errno option \<Rightarrow> trans_state \<Rightarrow> trans_state" where
  "cb_end_call cb err s =
     (case cb of Some c \<Rightarrow> if cb_end c then trans_output (Cb_end (cb_id c) err) s else s | None \<Rightarrow> s)"

definition cb_start_call :: "send_cb option \<Rightarrow> u16 \<Rightarrow> errno option \<Rightarrow> trans_state \<Rightarrow> trans_state" where
  "cb_start_call cb duration err s =
     (case cb of Some c \<Rightarrow> if cb_start c then trans_output (Cb_start (cb_id c) duration err) s else s | None \<Rightarrow> s)"

definition send_cb_finalize :: "send_cb option \<Rightarrow> trans_state \<Rightarrow> trans_state" where
  "send_cb_finalize cb s = cb_end_call cb None (cb_start_call cb 0 None s)"

definition seg_tx_complete :: "trans_cfg \<Rightarrow> trans_env \<Rightarrow> nat \<Rightarrow> errno option \<Rightarrow> trans_state \<Rightarrow> trans_state option" where
  "seg_tx_complete tc te i err s =
     (let cb = st_cb (ts_tx s ! i); s = seg_tx_unblock_check i s in
      do { s \<leftarrow> seg_tx_reset tc te i s; Some (cb_end_call cb err s) })"

definition SEG_RETRANSMIT_TIMEOUT :: "trans_cfg \<Rightarrow> seg_tx \<Rightarrow> nat" where
  "SEG_RETRANSMIT_TIMEOUT tc tx =
     (if BT_MESH_ADDR_IS_UNICAST (st_dst tx) then tc_retrans_unicast tc + 50 * unat (st_ttl tx) else tc_retrans_group tc)"

definition schedule_retransmit :: "trans_cfg \<Rightarrow> nat \<Rightarrow> trans_state \<Rightarrow> trans_state" where
  "schedule_retransmit tc i s =
     (if st_nack_count (ts_tx s ! i) = 0 then s
      else
        (let s = upd_tx i (\<lambda>tx. tx\<lparr>st_seg_pending := st_seg_pending tx - 1\<rparr>) s; tx = ts_tx s ! i in
         if st_seg_pending tx \<noteq> 0 \<or> st_sending tx then s
         else upd_tx i (\<lambda>tx. tx\<lparr>st_retransmit := Some (if st_seg_o tx \<noteq> 0 then 0 else SEG_RETRANSMIT_TIMEOUT tc tx)\<rparr>) s))"

definition seg_send_start :: "trans_cfg \<Rightarrow> nat \<Rightarrow> u16 \<Rightarrow> errno option \<Rightarrow> trans_state \<Rightarrow> trans_state" where
  "seg_send_start tc i duration err s =
     (let tx = ts_tx s ! i;
          s = (case st_cb tx of
                 Some c \<Rightarrow> if \<not> st_started tx \<and> cb_start c
                   then upd_tx i (\<lambda>tx. tx\<lparr>st_started := True\<rparr>) (trans_output (Cb_start (cb_id c) duration err) s) else s
               | None \<Rightarrow> s)
      in if err \<noteq> None then schedule_retransmit tc i s else s)"

definition seg_sent :: "trans_cfg \<Rightarrow> nat \<Rightarrow> trans_state \<Rightarrow> trans_state" where
  "seg_sent tc i s = schedule_retransmit tc i s"

section \<open>Sending segments\<close>

definition seg_tx_buf_build :: "seg_tx \<Rightarrow> nat \<Rightarrow> net_buf_simple \<Rightarrow> net_buf_simple option" where
  "seg_tx_buf_build tx seg_o buf =
     (let seq_zero = seq_zero_of (st_seq_auth tx);
          len = min (seg_len (st_ctl tx)) (unat (st_len tx) - seg_len (st_ctl tx) * seg_o)
      in do {
        dat \<leftarrow> st_seg tx ! seg_o;
        buf \<leftarrow> net_buf_simple_add_u8 (st_hdr tx) buf;
        buf \<leftarrow> net_buf_simple_add_u8 ((if st_aszmic tx then 0x80 else 0) OR ucast (drop_bit 6 seq_zero)) buf;
        buf \<leftarrow> net_buf_simple_add_u8 (ucast (push_bit 2 (seq_zero AND 0x3f)) OR drop_bit 3 (word_of_nat seg_o)) buf;
        buf \<leftarrow> net_buf_simple_add_u8 (push_bit 5 (word_of_nat seg_o AND 0x07) OR st_seg_n tx) buf;
        net_buf_simple_add_mem (take len dat) buf
      })"

definition seg_net_tx :: "seg_tx \<Rightarrow> nat \<Rightarrow> u16 \<Rightarrow> bt_mesh_net_tx" where
  "seg_net_tx tx sub net_idx =
     \<lparr>tx_sub = sub,
      tx_ctx = \<lparr>ctx_net_idx = net_idx, ctx_app_idx = (if st_ctl tx then BT_MESH_KEY_UNUSED else 0), ctx_addr = st_dst tx,
        ctx_recv_dst = 0, ctx_recv_rssi = 0, ctx_recv_ttl = 0, ctx_send_rel = True, ctx_send_ttl = st_ttl tx\<rparr>,
      tx_src = st_src tx, tx_xmit = st_xmit tx, tx_friend_cred = st_friend_cred tx, tx_aszmic = False,
      tx_aid = ucast (st_hdr tx AND AID_MASK)\<rparr>"

text \<open>
  \<open>bt_mesh_net_send\<close> with a callback: delivery to the node itself calls both functions of the
  callback before it returns.
\<close>

definition finalized :: "net_layer \<Rightarrow> net_layer \<Rightarrow> bool" where
  "finalized nl nl' \<longleftrightarrow> Send_cb_finalize \<in> set (drop (length (nl_out nl)) (nl_out nl'))"

definition trans_net_send ::
  "trans_cfg \<Rightarrow> trans_env \<Rightarrow> bt_mesh_net_tx \<Rightarrow> net_buf_simple \<Rightarrow> bool \<Rightarrow> trans_state \<Rightarrow> (errno option \<times> bool \<times> trans_state) option" where
  "trans_net_send tc te tx buf has_cb s =
     do { (err, nl) \<leftarrow> bt_mesh_net_send (tc_mesh tc) (trans_net_env te s) tx buf has_cb (ts_layer s);
          Some (err, finalized (ts_layer s) nl, s\<lparr>ts_layer := nl\<rparr>) }"

fun seg_send_loop :: "trans_cfg \<Rightarrow> trans_env \<Rightarrow> nat \<Rightarrow> bt_mesh_net_tx \<Rightarrow> nat list \<Rightarrow> trans_state \<Rightarrow> (bool \<times> trans_state) option" where
  "seg_send_loop tc te i net_tx [] s = Some (True, s)"
| "seg_send_loop tc te i net_tx (k # ks) s =
     (let s = upd_tx i (\<lambda>tx. tx\<lparr>st_seg_o := word_of_nat k\<rparr>) s in
      if length (st_seg (ts_tx s ! i)) \<le> k then None
      else if st_seg (ts_tx s ! i) ! k = None then seg_send_loop tc te i net_tx ks s
      else
        (case te_adv te k of None \<Rightarrow> Some (False, s)
         | Some seg \<Rightarrow> do {
             seg \<leftarrow> net_buf_simple_reserve BT_MESH_NET_HDR_LEN seg;
             seg \<leftarrow> seg_tx_buf_build (ts_tx s ! i) k seg;
             let s = upd_tx i (\<lambda>tx. tx\<lparr>st_seg_pending := st_seg_pending tx + 1\<rparr>) s;
             (err, fin, s) \<leftarrow> trans_net_send tc te net_tx seg True s;
             let s = (if fin then seg_sent tc i (seg_send_start tc i 0 None s) else s);
             (if err \<noteq> None
              then Some (False, upd_tx i (\<lambda>tx. tx\<lparr>st_seg_pending := st_seg_pending tx - 1\<rparr>) s)
              else seg_send_loop tc te i net_tx ks s)
           }))"

text \<open>What follows the loop; the attempt counts only if all segments were sent.\<close>

definition send_unacked_end :: "trans_cfg \<Rightarrow> nat \<Rightarrow> bool \<Rightarrow> trans_state \<Rightarrow> trans_state" where
  "send_unacked_end tc i all_sent s =
     (let s = (if all_sent then upd_tx i (\<lambda>tx. tx\<lparr>st_seg_o := 0, st_attempts := st_attempts tx - 1\<rparr>) s else s);
          s = (if st_seg_pending (ts_tx s ! i) = 0
               then upd_tx i (\<lambda>tx. tx\<lparr>st_retransmit := Some (SEG_RETRANSMIT_TIMEOUT tc tx)\<rparr>) s else s)
      in upd_tx i (\<lambda>tx. tx\<lparr>st_sending := False\<rparr>) s)"

definition seg_tx_send_unacked :: "trans_cfg \<Rightarrow> trans_env \<Rightarrow> nat \<Rightarrow> trans_state \<Rightarrow> trans_state option" where
  "seg_tx_send_unacked tc te i s =
     (let tx = ts_tx s ! i in
      if st_nack_count tx = 0 then Some s
      else do {
        sub \<leftarrow> st_sub tx;
        let net_tx = seg_net_tx tx sub (sn_net_idx (ks_subnets (ts_keys s) ! sub));
        (if st_attempts tx = 0
         then seg_tx_complete tc te i (if BT_MESH_ADDR_IS_UNICAST (st_dst tx) then Some ETIMEDOUT else None) s
         else do {
           (all_sent, s) \<leftarrow> seg_send_loop tc te i net_tx [unat (st_seg_o tx)..<unat (st_seg_n tx) + 1]
                              (upd_tx i (\<lambda>tx. tx\<lparr>st_sending := True\<rparr>) s);
           Some (send_unacked_end tc i all_sent s)
         })
      })"

text \<open>The work handler; running it takes the work off the timer.\<close>

definition seg_retransmit :: "trans_cfg \<Rightarrow> trans_env \<Rightarrow> nat \<Rightarrow> trans_state \<Rightarrow> trans_state option" where
  "seg_retransmit tc te i s = seg_tx_send_unacked tc te i (upd_tx i (\<lambda>tx. tx\<lparr>st_retransmit := None\<rparr>) s)"

section \<open>Virtual addresses\<close>

definition va_store :: "trans_cfg \<Rightarrow> nat \<Rightarrow> trans_state \<Rightarrow> trans_state" where
  "va_store tc i s =
     (let s = s\<lparr>ts_va := (ts_va s)[i := (ts_va s ! i)\<lparr>va_changed := True\<rparr>]\<rparr>
      in if cfg_settings (tc_mesh tc) then trans_output Va_store_schedule s else s)"

definition va_match :: "bytes \<Rightarrow> virtual_addr \<Rightarrow> bool" where
  "va_match uuid va \<longleftrightarrow> va_ref va \<noteq> 0 \<and> uuid = va_uuid va"

definition bt_mesh_va_add :: "trans_cfg \<Rightarrow> bytes \<Rightarrow> trans_state \<Rightarrow> mesh_status \<times> u16 option \<times> trans_state" where
  "bt_mesh_va_add tc uuid s =
     (case find_index (va_match uuid) (ts_va s) of
        Some i \<Rightarrow>
          (STATUS_SUCCESS, Some (va_addr (ts_va s ! i)),
           va_store tc i (s\<lparr>ts_va := (ts_va s)[i := (ts_va s ! i)\<lparr>va_ref := va_ref (ts_va s ! i) + 1\<rparr>]\<rparr>))
      | None \<Rightarrow>
          (case find_index (\<lambda>va. va_ref va = 0) (ts_va s) of None \<Rightarrow> (STATUS_INSUFF_RESOURCES, None, s)
           | Some i \<Rightarrow>
              (let va = (ts_va s ! i)\<lparr>va_uuid := uuid\<rparr> in
               case bt_mesh_virtual_addr uuid of
                 Inl _ \<Rightarrow> (STATUS_UNSPECIFIED, None, s\<lparr>ts_va := (ts_va s)[i := va\<lparr>va_addr := BT_MESH_ADDR_UNASSIGNED\<rparr>]\<rparr>)
               | Inr addr \<Rightarrow>
                   (STATUS_SUCCESS, Some addr, va_store tc i (s\<lparr>ts_va := (ts_va s)[i := va\<lparr>va_addr := addr, va_ref := 1\<rparr>]\<rparr>)))))"

definition bt_mesh_va_del :: "trans_cfg \<Rightarrow> bytes \<Rightarrow> trans_state \<Rightarrow> mesh_status \<times> u16 option \<times> trans_state" where
  "bt_mesh_va_del tc uuid s =
     (case find_index (va_match uuid) (ts_va s) of None \<Rightarrow> (STATUS_CANNOT_REMOVE, None, s)
      | Some i \<Rightarrow>
          (STATUS_SUCCESS, Some (va_addr (ts_va s ! i)),
           va_store tc i (s\<lparr>ts_va := (ts_va s)[i := (ts_va s ! i)\<lparr>va_ref := va_ref (ts_va s ! i) - 1\<rparr>]\<rparr>)))"

definition bt_mesh_va_label_get :: "u16 \<Rightarrow> trans_state \<Rightarrow> bytes option" where
  "bt_mesh_va_label_get addr s =
     (case find_index (\<lambda>va. va_ref va \<noteq> 0 \<and> va_addr va = addr) (ts_va s) of None \<Rightarrow> None
      | Some i \<Rightarrow> Some (va_uuid (ts_va s ! i)))"

record va_val =
  vv_ref :: u16
  vv_addr :: u16
  vv_uuid :: bytes

definition va_set :: "string option \<Rightarrow> nat \<Rightarrow> errno + va_val \<Rightarrow> trans_state \<Rightarrow> errno option \<times> trans_state" where
  "va_set name len_rd rd s =
     (case name of None \<Rightarrow> (Some ENOENT, s)
      | Some nm \<Rightarrow>
         (let index = strtol16 0 nm mod 2 ^ 16 in
          if len_rd = 0 then (None, s)
          else case rd of Inl e \<Rightarrow> (Some e, s)
          | Inr va \<Rightarrow>
             if vv_ref va = 0 then (None, s)
             else if length (ts_va s) \<le> index then (Some ENOBUFS, s)
             else (None, s\<lparr>ts_va := (ts_va s)[index :=
               (ts_va s ! index)\<lparr>va_uuid := vv_uuid va, va_addr := vv_addr va, va_ref := ucast (vv_ref va)\<rparr>]\<rparr>)))"

definition va_path :: "nat \<Rightarrow> string" where
  "va_path i = ''bt/mesh/Va/'' @ hex_string i"

definition va_pending_step :: "nat \<Rightarrow> trans_state \<Rightarrow> trans_state" where
  "va_pending_step i s =
     (let lab = ts_va s ! i in
      if \<not> va_changed lab then s
      else
        (let s = s\<lparr>ts_va := (ts_va s)[i := lab\<lparr>va_changed := False\<rparr>]\<rparr> in
         if va_ref lab = 0 then trans_output (Va_delete (va_path i)) s
         else trans_output (Va_save (va_path i) (ucast (va_ref lab)) (va_addr lab) (va_uuid lab)) s))"

definition bt_mesh_va_pending_store :: "trans_state \<Rightarrow> trans_state" where
  "bt_mesh_va_pending_store s = fold va_pending_step [0..<length (ts_va s)] s"

section \<open>Unsegmented messages\<close>

definition enqueue_tx :: "trans_env \<Rightarrow> bt_mesh_friend_pdu_type \<Rightarrow> u64 option \<Rightarrow> nat \<Rightarrow> bytes \<Rightarrow> trans_state \<Rightarrow> bool \<times> trans_state" where
  "enqueue_tx te type seq_auth seg_count pdu s =
     (te_friend_enqueue te type pdu, trans_output (Friend_enqueue_tx type seq_auth seg_count pdu) s)"

definition send_unseg ::
  "trans_cfg \<Rightarrow> trans_env \<Rightarrow> bt_mesh_net_tx \<Rightarrow> bytes \<Rightarrow> send_cb option \<Rightarrow> u8 option \<Rightarrow> trans_state \<Rightarrow>
   (errno option \<times> trans_state) option" where
  "send_unseg tc te tx sdu cb ctl_op s =
     (case te_adv te 0 of None \<Rightarrow> Some (Some ENOBUFS, s)
      | Some buf \<Rightarrow> do {
          buf \<leftarrow> net_buf_simple_reserve BT_MESH_NET_HDR_LEN buf;
          buf \<leftarrow> net_buf_simple_add_u8
                  (case ctl_op of Some op \<Rightarrow> TRANS_CTL_HDR op 0
                   | None \<Rightarrow> if BT_MESH_IS_DEV_KEY (ctx_app_idx (tx_ctx tx)) then UNSEG_HDR 0 0 else UNSEG_HDR 1 (ucast (tx_aid tx))) buf;
          buf \<leftarrow> net_buf_simple_add_mem sdu buf;
          let dst = ctx_addr (tx_ctx tx);
          let net_idx = sn_net_idx (ks_subnets (ts_keys s) ! tx_sub tx);
          let space = te_friend_space te net_idx (tx_src tx) dst None 1;
          let (queued, s) = (if cfg_friend (tc_mesh tc) \<and> space
                             then enqueue_tx te BT_MESH_FRIEND_PDU_SINGLE None 1 (nb_bytes buf) s else (False, s));
          (if cfg_friend (tc_mesh tc) \<and> \<not> space \<and> BT_MESH_ADDR_IS_UNICAST dst then Some (Some ENOBUFS, s)
           else if queued \<and> BT_MESH_ADDR_IS_UNICAST dst then Some (None, send_cb_finalize cb s)
           else do {
             (err, fin, s) \<leftarrow> trans_net_send tc te tx buf (cb \<noteq> None) s;
             Some (err, if fin then send_cb_finalize cb s else s)
           })
        })"

section \<open>Segmented messages\<close>

text \<open>The segment \<open>dat\<close> goes into a block of the slab and, if it is for a friend, into the friend queue instead.\<close>

definition seg_fill ::
  "trans_cfg \<Rightarrow> trans_env \<Rightarrow> nat \<Rightarrow> bt_mesh_net_tx \<Rightarrow> u8 option \<Rightarrow> nat \<Rightarrow> bytes \<Rightarrow> trans_state \<Rightarrow> trans_state option" where
  "seg_fill tc te i net_tx ctl_op seg_o dat s =
     (let s = (upd_tx i (\<lambda>tx. tx\<lparr>st_seg := (st_seg tx)[seg_o := Some dat]\<rparr>) s)\<lparr>ts_free := ts_free s - 1\<rparr> in
      if \<not> cfg_friend (tc_mesh tc) then Some s
      else do {
        seg \<leftarrow> seg_tx_buf_build (ts_tx s ! i) seg_o \<lparr>nb_data = 0, nb_len = 0, nb_size = 16, nb_buf = replicate 16 0\<rparr>;
        let tx = ts_tx s ! i;
        let (queued, s) = enqueue_tx te
              (if seg_o = unat (st_seg_n tx) then BT_MESH_FRIEND_PDU_COMPLETE else BT_MESH_FRIEND_PDU_PARTIAL)
              (if ctl_op \<noteq> None then None else Some (st_seq_auth tx)) (unat (st_seg_n tx) + 1) (nb_bytes seg) s;
        Some (if queued \<and> BT_MESH_ADDR_IS_UNICAST (ctx_addr (tx_ctx net_tx))
              then (upd_tx i (\<lambda>tx. tx\<lparr>st_seg := (st_seg tx)[seg_o := None]\<rparr>) s)\<lparr>ts_free := ts_free s + 1\<rparr>
              else s)
      })"

function seg_fill_loop ::
  "trans_cfg \<Rightarrow> trans_env \<Rightarrow> nat \<Rightarrow> bt_mesh_net_tx \<Rightarrow> u8 option \<Rightarrow> nat \<Rightarrow> bytes \<Rightarrow> trans_state \<Rightarrow>
   (errno option \<times> trans_state) option" where
  "seg_fill_loop tc te i net_tx ctl_op seg_o sdu s =
     (if sdu = [] then Some (None, s)
      else if ts_free s = 0 then do { s \<leftarrow> seg_tx_reset tc te i s; Some (Some ENOBUFS, s) }
      else if length (st_seg (ts_tx s ! i)) \<le> seg_o then None
      else
        (let len = min (length sdu) (seg_len (ctl_op \<noteq> None)) in
         do {
           s \<leftarrow> seg_fill tc te i net_tx ctl_op seg_o (take len sdu) s;
           seg_fill_loop tc te i net_tx ctl_op (seg_o + 1) (drop len sdu) s
         }))"
  by pat_completeness auto
termination
  by (relation "measure (\<lambda>(tc, te, i, net_tx, ctl_op, seg_o, sdu, s). length sdu)")
     (auto simp: seg_len_def BT_MESH_CTL_SEG_SDU_MAX_def BT_MESH_APP_SEG_SDU_MAX_def)

declare seg_fill_loop.simps [simp del]

text \<open>The context as it is set up for a new message.\<close>

definition seg_tx_init :: "trans_cfg \<Rightarrow> bt_mesh_net_tx \<Rightarrow> nat \<Rightarrow> send_cb option \<Rightarrow> u8 option \<Rightarrow> bool \<Rightarrow> bt_mesh_net \<Rightarrow> seg_tx \<Rightarrow> seg_tx" where
  "seg_tx_init tc net_tx len cb ctl_op blocked st tx =
     (let ctl = (ctl_op \<noteq> None); seg_n = word_of_nat ((len - 1) div seg_len ctl);
          hdr = (case ctl_op of Some op \<Rightarrow> TRANS_CTL_HDR op 1
                 | None \<Rightarrow> if BT_MESH_IS_DEV_KEY (ctx_app_idx (tx_ctx net_tx)) then SEG_HDR 0 0 else SEG_HDR 1 (ucast (tx_aid net_tx)))
      in tx\<lparr>st_hdr := hdr, st_src := tx_src net_tx, st_dst := ctx_addr (tx_ctx net_tx), st_seg_n := seg_n, st_seg_o := 0,
           st_len := word_of_nat len, st_nack_count := seg_n + 1,
           st_seq_auth := SEQ_AUTH (BT_MESH_NET_IVI_TX st) (bm_seq st), st_sub := Some (tx_sub net_tx),
           st_cb := cb, st_attempts := tc_retrans_count tc, st_seg_pending := 0, st_xmit := tx_xmit net_tx,
           st_aszmic := tx_aszmic net_tx, st_friend_cred := tx_friend_cred net_tx, st_blocked := blocked,
           st_started := False, st_ctl := ctl, st_ttl := ctx_send_ttl (tx_ctx net_tx)\<rparr>)"

definition send_seg_filled ::
  "trans_cfg \<Rightarrow> trans_env \<Rightarrow> nat \<Rightarrow> send_cb option \<Rightarrow> bool \<Rightarrow> trans_state \<Rightarrow> (errno option \<times> trans_state) option" where
  "send_seg_filled tc te i cb blocked s =
     (if cfg_friend (tc_mesh tc) \<and> st_seg (ts_tx s ! i) ! 0 = None
      then do { s \<leftarrow> seg_tx_reset tc te i s; Some (None, send_cb_finalize cb s) }
      else if blocked
      then Some (None, set_net (snd (bt_mesh_next_seq (tc_mesh tc) (ne_iv (trans_net_env te s)) (ts_net s))) s)
      else do {
        s \<leftarrow> seg_tx_send_unacked tc te i s;
        Some (None, if tc_low_power tc \<and> te_lpn_established te then trans_output Lpn_poll s else s)
      })"

definition send_seg ::
  "trans_cfg \<Rightarrow> trans_env \<Rightarrow> bt_mesh_net_tx \<Rightarrow> bytes \<Rightarrow> send_cb option \<Rightarrow> u8 option \<Rightarrow> trans_state \<Rightarrow>
   (errno option \<times> trans_state) option" where
  "send_seg tc te net_tx sdu cb ctl_op s =
     (let dst = ctx_addr (tx_ctx net_tx);
          blocked = (\<exists>tx \<in> set (ts_tx s). st_nack_count tx \<noteq> 0 \<and> seg_tx_blocks tx (tx_src net_tx) dst)
      in case find_index (\<lambda>tx. st_nack_count tx = 0) (ts_tx s) of None \<Rightarrow> Some (Some EBUSY, s)
      | Some i \<Rightarrow>
         (let s = upd_tx i (seg_tx_init tc net_tx (length sdu) cb ctl_op blocked (ts_net s)) s; tx = ts_tx s ! i
          in if cfg_friend (tc_mesh tc) \<and>
                \<not> te_friend_space te (sn_net_idx (ks_subnets (ts_keys s) ! tx_sub net_tx)) (tx_src net_tx) dst
                    (Some (st_seq_auth tx)) (unat (st_seg_n tx) + 1) \<and> BT_MESH_ADDR_IS_UNICAST dst
             then do { s \<leftarrow> seg_tx_reset tc te i s; Some (Some ENOBUFS, s) }
             else do {
               (err, s) \<leftarrow> seg_fill_loop tc te i net_tx ctl_op 0 sdu s;
               (if err \<noteq> None then Some (err, s) else send_seg_filled tc te i cb blocked s)
             }))"

section \<open>Access and control messages\<close>

definition trans_crypto_ctx :: "bt_mesh_net_tx \<Rightarrow> trans_state \<Rightarrow> bt_mesh_app_crypto_ctx" where
  "trans_crypto_ctx tx s =
     \<lparr>ac_dev_key = BT_MESH_IS_DEV_KEY (ctx_app_idx (tx_ctx tx)), ac_aszmic = (if tx_aszmic tx then 1 else 0),
      ac_src = tx_src tx, ac_dst = ctx_addr (tx_ctx tx), ac_seq_num = bm_seq (ts_net s), ac_iv_index = BT_MESH_NET_IVI_TX (ts_net s),
      ac_ad = (if BT_MESH_ADDR_IS_VIRTUAL (ctx_addr (tx_ctx tx)) then bt_mesh_va_label_get (ctx_addr (tx_ctx tx)) s else None)\<rparr>"

definition trans_encrypt ::
  "bt_mesh_net_tx \<Rightarrow> bytes \<Rightarrow> net_buf_simple \<Rightarrow> trans_state \<Rightarrow> (errno option \<times> net_buf_simple) option" where
  "trans_encrypt tx key msg s = bt_mesh_app_encrypt key (trans_crypto_ctx tx s) msg"

text \<open>The message is encrypted with the resolved key and sent; \<open>tx_aszmic\<close> asks for the long check value.\<close>

definition trans_send_keyed ::
  "trans_cfg \<Rightarrow> trans_env \<Rightarrow> bt_mesh_net_tx \<Rightarrow> bytes \<Rightarrow> net_buf_simple \<Rightarrow> send_cb option \<Rightarrow> trans_state \<Rightarrow>
   (errno option \<times> trans_state) option" where
  "trans_send_keyed tc te tx key msg cb s =
     (let tx = tx\<lparr>tx_aszmic := ctx_send_rel (tx_ctx tx) \<and> \<not> net_buf_simple_tailroom msg < 8\<rparr>
      in do {
        (err, msg) \<leftarrow> trans_encrypt tx key msg s;
        (if err \<noteq> None then Some (err, s)
         else if ctx_send_rel (tx_ctx tx) then send_seg tc te tx (nb_bytes msg) cb None s
         else send_unseg tc te tx (nb_bytes msg) cb None s)
      })"

definition bt_mesh_trans_send ::
  "trans_cfg \<Rightarrow> trans_env \<Rightarrow> bt_mesh_net_tx \<Rightarrow> net_buf_simple \<Rightarrow> send_cb option \<Rightarrow> trans_state \<Rightarrow>
   (errno option \<times> trans_state) option" where
  "bt_mesh_trans_send tc te tx msg cb s =
     (let ctx = tx_ctx tx in
      if nb_len msg < 1 then Some (Some EINVAL, s)
      else if BT_MESH_TX_SDU_MAX tc - BT_MESH_MIC_SHORT < nb_len msg then Some (Some EMSGSIZE, s)
      else if net_buf_simple_tailroom msg < BT_MESH_MIC_SHORT then Some (Some EINVAL, s)
      else if ctx_send_ttl ctx \<noteq> BT_MESH_TTL_DEFAULT \<and> BT_MESH_TTL_MAX < ctx_send_ttl ctx then Some (Some EINVAL, s)
      else
        (let ctx = (if ctx_send_ttl ctx = BT_MESH_TTL_DEFAULT then ctx\<lparr>ctx_send_ttl := te_default_ttl te\<rparr> else ctx);
             ctx = (if BT_MESH_SDU_UNSEG_MAX < nb_len msg then ctx\<lparr>ctx_send_rel := True\<rparr> else ctx)
         in if ctx_addr ctx = BT_MESH_ADDR_UNASSIGNED \<or>
               (\<not> BT_MESH_ADDR_IS_UNICAST (ctx_addr ctx) \<and> BT_MESH_IS_DEV_KEY (ctx_app_idx ctx)) then Some (Some EINVAL, s)
            else
              (case bt_mesh_keys_resolve (tc_mesh tc) (bm_dev_key (ts_net s)) (ne_has_addr (te_net te)) (te_cdb_node te) ctx (ts_keys s) of
                 Inl e \<Rightarrow> Some (Some e, s)
               | Inr (sub, key, aid) \<Rightarrow>
                   trans_send_keyed tc te (tx\<lparr>tx_ctx := ctx, tx_sub := sub, tx_xmit := te_transmit te, tx_aid := ucast aid\<rparr>) key msg cb s)))"

definition bt_mesh_ctl_send ::
  "trans_cfg \<Rightarrow> trans_env \<Rightarrow> bt_mesh_net_tx \<Rightarrow> u8 \<Rightarrow> bytes \<Rightarrow> send_cb option \<Rightarrow> trans_state \<Rightarrow> (errno option \<times> trans_state) option" where
  "bt_mesh_ctl_send tc te tx ctl_op dat cb s =
     (let ctx = tx_ctx tx in
      if ctx_send_ttl ctx \<noteq> BT_MESH_TTL_DEFAULT \<and> BT_MESH_TTL_MAX < ctx_send_ttl ctx then Some (Some EINVAL, s)
      else
        (let ctx = (if ctx_send_ttl ctx = BT_MESH_TTL_DEFAULT then ctx\<lparr>ctx_send_ttl := te_default_ttl te\<rparr> else ctx);
             ctx = (if BT_MESH_SDU_UNSEG_MAX < length dat then ctx\<lparr>ctx_send_rel := True\<rparr> else ctx)\<lparr>ctx_app_idx := BT_MESH_KEY_UNUSED\<rparr>
         in if ctx_addr ctx = BT_MESH_ADDR_UNASSIGNED \<or> BT_MESH_ADDR_IS_VIRTUAL (ctx_addr ctx) then Some (Some EINVAL, s)
            else if ctx_send_rel ctx then send_seg tc te (tx\<lparr>tx_ctx := ctx\<rparr>) dat cb (Some ctl_op) s
            else send_unseg tc te (tx\<lparr>tx_ctx := ctx\<rparr>) dat cb (Some ctl_op) s))"

definition TRANS_CTL_OP_ACK :: u8 where "TRANS_CTL_OP_ACK = 0x00"

text \<open>An acknowledgement of what was received from \<open>dst\<close> for \<open>src\<close>.\<close>

definition ack_payload :: "u64 \<Rightarrow> u32 \<Rightarrow> bool \<Rightarrow> bytes" where
  "ack_payload seq_auth block obo =
     sys_put_be16 ((push_bit 2 (seq_zero_of seq_auth) AND 0x7ffc) OR (if obo then 0x8000 else 0)) @ sys_put_be32 block"

definition send_ack ::
  "trans_cfg \<Rightarrow> trans_env \<Rightarrow> nat \<Rightarrow> u16 \<Rightarrow> u16 \<Rightarrow> u8 \<Rightarrow> u64 \<Rightarrow> u32 \<Rightarrow> bool \<Rightarrow> trans_state \<Rightarrow> trans_state option" where
  "send_ack tc te sub src dst ttl seq_auth block obo s =
     (if te_lpn_established te then Some s
      else if \<not> BT_MESH_ADDR_IS_UNICAST src then Some s
      else
        (let tx = \<lparr>tx_sub = sub,
               tx_ctx = \<lparr>ctx_net_idx = sn_net_idx (ks_subnets (ts_keys s) ! sub), ctx_app_idx = BT_MESH_KEY_UNUSED, ctx_addr = dst,
                 ctx_recv_dst = 0, ctx_recv_rssi = 0, ctx_recv_ttl = 0, ctx_send_rel = False, ctx_send_ttl = ttl\<rparr>,
               tx_src = (if obo then te_primary_addr te else src), tx_xmit = te_transmit te, tx_friend_cred = False,
               tx_aszmic = False, tx_aid = 0\<rparr>
         in do { (err, s) \<leftarrow> bt_mesh_ctl_send tc te tx TRANS_CTL_OP_ACK (ack_payload seq_auth block obo) None s; Some s }))"

end
