(* ===== verification/Mesh_Seg_Rx.thy ===== *)
theory Mesh_Seg_Rx
  imports Mesh_Seg_Tx
begin

text \<open>
  The receiving half of the mesh transport layer, \<open>core/src/mesh/transport.c\<close>: reassembly,
  acknowledgements, control messages and the entry point \<open>bt_mesh_trans_recv\<close>.
\<close>

section \<open>Header fields\<close>

definition SEG :: "bytes \<Rightarrow> u8" where "SEG dat = drop_bit 7 (dat ! 0)"
definition AKF :: "u8 \<Rightarrow> u8" where "AKF hdr = drop_bit 6 hdr AND 0x01"
definition AID :: "u8 \<Rightarrow> u8" where "AID hdr = hdr AND AID_MASK"
definition ASZMIC :: "bytes \<Rightarrow> u8" where "ASZMIC dat = drop_bit 7 (dat ! 1) AND 1"
definition TRANS_CTL_OP :: "u8 \<Rightarrow> u8" where "TRANS_CTL_OP hdr = hdr AND 0x7f"

definition BLOCK_COMPLETE :: "nat \<Rightarrow> u32" where
  "BLOCK_COMPLETE seg_n = ucast (push_bit (seg_n + 1) (1 :: u64) - 1)"

section \<open>Reassembly and decryption\<close>

fun seg_rx_add_loop :: "seg_rx \<Rightarrow> nat list \<Rightarrow> net_buf_simple \<Rightarrow> net_buf_simple option" where
  "seg_rx_add_loop rx [] buf = Some buf"
| "seg_rx_add_loop rx (i # is) buf =
     do { dat \<leftarrow> (if i < length (sr_seg rx) then sr_seg rx ! i else None);
          buf \<leftarrow> net_buf_simple_add_mem (take (min (seg_len (sr_ctl rx)) (unat (sr_len rx) - i * seg_len (sr_ctl rx))) dat) buf;
          seg_rx_add_loop rx is buf }"

definition seg_rx_assemble :: "seg_rx \<Rightarrow> net_buf_simple \<Rightarrow> u8 \<Rightarrow> net_buf_simple option" where
  "seg_rx_assemble rx buf aszmic =
     do { buf \<leftarrow> seg_rx_add_loop rx [0..<unat (sr_seg_n rx) + 1] (net_buf_simple_reset buf);
          Some (if sr_ctl rx then buf else buf\<lparr>nb_len := nb_len buf - APP_MIC_LEN aszmic\<rparr>) }"

text \<open>
  A decryption attempt.  A reassembled message is decrypted in place: the output buffer is a
  view of the memory of the assembly buffer, which is filled again for each attempt.
\<close>

definition sdu_try_decrypt ::
  "bt_mesh_app_crypto_ctx \<Rightarrow> seg_rx option \<Rightarrow> bytes \<Rightarrow> (net_buf_simple \<times> net_buf_simple) option \<Rightarrow>
   bool \<times> (net_buf_simple \<times> net_buf_simple) option" where
  "sdu_try_decrypt crypto seg key st =
     (case do {
        (buf, sdu) \<leftarrow> st;
        buf \<leftarrow> (case seg of None \<Rightarrow> Some buf | Some rx \<Rightarrow> seg_rx_assemble rx buf (ac_aszmic crypto));
        let sdu = net_buf_simple_reset sdu;
        let sdu = (if seg = None then sdu else sdu\<lparr>nb_buf := nb_buf buf\<rparr>);
        (err, sdu) \<leftarrow> bt_mesh_app_decrypt key crypto buf sdu;
        Some (err, if seg = None then buf else buf\<lparr>nb_buf := nb_buf sdu\<rparr>, sdu)
      } of None \<Rightarrow> (False, None) | Some (err, buf, sdu) \<Rightarrow> (err = None, Some (buf, sdu)))"

definition sdu_crypto_ctx :: "u8 \<Rightarrow> u8 \<Rightarrow> seg_rx option \<Rightarrow> bt_mesh_net_rx \<Rightarrow> trans_state \<Rightarrow> bt_mesh_app_crypto_ctx" where
  "sdu_crypto_ctx hdr aszmic seg rx s =
     \<lparr>ac_dev_key = (AKF hdr = 0), ac_aszmic = aszmic, ac_src = rx_addr rx, ac_dst = ctx_recv_dst (rx_ctx rx),
      ac_seq_num = (case seg of Some r \<Rightarrow> ucast (sr_seq_auth r AND 0xffffff) | None \<Rightarrow> rx_seq rx),
      ac_iv_index = BT_MESH_NET_IVI_RX (ts_net s) rx,
      ac_ad = (if BT_MESH_ADDR_IS_VIRTUAL (ctx_recv_dst (rx_ctx rx)) then bt_mesh_va_label_get (ctx_recv_dst (rx_ctx rx)) s else None)\<rparr>"

definition sdu_recv ::
  "trans_cfg \<Rightarrow> trans_env \<Rightarrow> bt_mesh_net_rx \<Rightarrow> u8 \<Rightarrow> u8 \<Rightarrow> net_buf_simple \<Rightarrow> net_buf_simple \<Rightarrow> seg_rx option \<Rightarrow> trans_state \<Rightarrow>
   (errno option \<times> bt_mesh_net_rx \<times> trans_state) option" where
  "sdu_recv tc te rx hdr aszmic buf sdu seg s =
     (if cfg_friend (tc_mesh tc) \<and> \<not> rx_local_match rx then Some (None, rx, s)
      else
        (let crypto = sdu_crypto_ctx hdr aszmic seg rx s;
             (app_idx, st) = bt_mesh_app_key_find (tc_mesh tc) (bm_dev_key (ts_net s)) (te_cdb_node te) (ac_dev_key crypto) (AID hdr) rx
               (sdu_try_decrypt crypto seg) (ts_keys s) (Some (buf, sdu));
             rx = rx\<lparr>rx_ctx := (rx_ctx rx)\<lparr>ctx_app_idx := app_idx\<rparr>\<rparr>
         in do {
           (buf, sdu) \<leftarrow> st;
           Some (None, rx, if app_idx = BT_MESH_KEY_UNUSED then s else trans_output (Model_recv (nb_bytes sdu) app_idx) s)
         }))"

section \<open>Acknowledgements\<close>

definition ack_matches :: "u16 \<Rightarrow> bool \<Rightarrow> u16 \<Rightarrow> seg_tx \<Rightarrow> bool" where
  "ack_matches seq_zero obo addr tx \<longleftrightarrow>
     seq_zero_of (st_seq_auth tx) = seq_zero \<and>
     (st_dst tx = addr \<or> obo \<and> unat (st_nack_count tx) = unat (st_seg_n tx) + 1)"

definition seg_tx_lookup :: "u16 \<Rightarrow> bool \<Rightarrow> u16 \<Rightarrow> trans_state \<Rightarrow> (nat \<times> trans_state) option" where
  "seg_tx_lookup seq_zero obo addr s =
     (case find_index (ack_matches seq_zero obo addr) (ts_tx s) of None \<Rightarrow> None
      | Some i \<Rightarrow> Some (i, upd_tx i (\<lambda>tx. tx\<lparr>st_dst := addr\<rparr>) s))"

text \<open>The loop over the acknowledged segments, lowest first; \<open>ack\<close> loses its lowest bit each time.\<close>

fun ack_loop :: "nat \<Rightarrow> u32 \<Rightarrow> nat list \<Rightarrow> trans_state \<Rightarrow> trans_state option" where
  "ack_loop i ack [] s = Some s"
| "ack_loop i ack (k # ks) s =
     (if \<not> bit ack k then ack_loop i ack ks s
      else if length (st_seg (ts_tx s ! i)) \<le> k then None
      else if st_seg (ts_tx s ! i) ! k = None then ack_loop i ack ks s
      else ack_loop i ack ks (seg_tx_done i k s))"

definition trans_ack ::
  "trans_cfg \<Rightarrow> trans_env \<Rightarrow> bt_mesh_net_rx \<Rightarrow> bytes \<Rightarrow> u64 \<Rightarrow> trans_state \<Rightarrow> (errno option \<times> u64 \<times> trans_state) option" where
  "trans_ack tc te rx buf seq_auth s =
     (if length buf < 6 then Some (Some EINVAL, seq_auth, s)
      else
        (let w = sys_get_be16 buf; obo = (drop_bit 15 w \<noteq> 0); seq_zero = drop_bit 2 w AND ucast TRANS_SEQ_ZERO_MASK in
         if cfg_friend (tc_mesh tc) \<and> rx_friend_match rx
         then Some (None, SEQ_AUTH (BT_MESH_NET_IVI_RX (ts_net s) rx) (ucast seq_zero), s)
         else
           (let ack = sys_get_be32 (drop 2 buf) in
            case seg_tx_lookup seq_zero obo (rx_addr rx) s of None \<Rightarrow> Some (Some EINVAL, seq_auth, s)
            | Some (i, s) \<Rightarrow>
               if \<not> BT_MESH_ADDR_IS_UNICAST (st_dst (ts_tx s ! i)) then Some (Some EINVAL, seq_auth, s)
               else
                 (let seq_auth = st_seq_auth (ts_tx s ! i) in
                  if ack = 0 then do { s \<leftarrow> seg_tx_complete tc te i (Some ECANCELED) s; Some (None, seq_auth, s) }
                  else if \<exists>k < 32. bit ack k \<and> unat (st_seg_n (ts_tx s ! i)) < k then Some (Some EINVAL, seq_auth, s)
                  else do {
                    s \<leftarrow> ack_loop i ack [0..<32] s;
                    (if st_nack_count (ts_tx s ! i) \<noteq> 0
                     then Some (None, seq_auth, upd_tx i (\<lambda>tx. tx\<lparr>st_retransmit := Some 0\<rparr>) s)
                     else do { s \<leftarrow> seg_tx_complete tc te i None s; Some (None, seq_auth, s) })
                  }))))"

section \<open>Control messages\<close>

definition TRANS_CTL_OP_HEARTBEAT :: u8 where "TRANS_CTL_OP_HEARTBEAT = 0x0a"
definition TRANS_CTL_OP_FRIEND_UPDATE :: u8 where "TRANS_CTL_OP_FRIEND_UPDATE = 0x02"
definition TRANS_CTL_OP_FRIEND_OFFER :: u8 where "TRANS_CTL_OP_FRIEND_OFFER = 0x04"
definition TRANS_CTL_OP_FRIEND_CLEAR_CFM :: u8 where "TRANS_CTL_OP_FRIEND_CLEAR_CFM = 0x06"
definition TRANS_CTL_OP_FRIEND_SUB_CFM :: u8 where "TRANS_CTL_OP_FRIEND_SUB_CFM = 0x09"

text \<open>The opcodes a friend answers: poll, request, clear, clear confirm, and subscriptions.\<close>

definition friend_ops :: "u8 list" where
  "friend_ops = [0x01, 0x03, 0x05, TRANS_CTL_OP_FRIEND_CLEAR_CFM, 0x07, 0x08]"

definition ctl_handle :: "trans_env \<Rightarrow> u8 \<Rightarrow> bytes \<Rightarrow> trans_state \<Rightarrow> errno option \<times> trans_state" where
  "ctl_handle te op buf s = (te_ctl_handler te op buf, trans_output (Ctl_handler op buf) s)"

definition ctl_recv ::
  "trans_cfg \<Rightarrow> trans_env \<Rightarrow> bt_mesh_net_rx \<Rightarrow> u8 \<Rightarrow> bytes \<Rightarrow> u64 \<Rightarrow> trans_state \<Rightarrow> (errno option \<times> u64 \<times> trans_state) option" where
  "ctl_recv tc te rx hdr buf seq_auth s =
     (let op = TRANS_CTL_OP hdr; handle = (let (err, s) = ctl_handle te op buf s in Some (err, seq_auth, s)) in
      if op = TRANS_CTL_OP_ACK then trans_ack tc te rx buf seq_auth s
      else if op = TRANS_CTL_OP_HEARTBEAT then handle
      else if \<not> rx_local_match rx then Some (None, seq_auth, s)
      else if cfg_friend (tc_mesh tc) \<and> \<not> te_lpn_established te \<and> op \<in> set friend_ops then handle
      else if tc_low_power tc \<and> op = TRANS_CTL_OP_FRIEND_OFFER then handle
      else if tc_low_power tc \<and> rx_addr rx = te_lpn_frnd te \<and> op = TRANS_CTL_OP_FRIEND_CLEAR_CFM then handle
      else if tc_low_power tc \<and> rx_addr rx = te_lpn_frnd te \<and> \<not> rx_friend_cred rx then Some (Some EINVAL, seq_auth, s)
      else if tc_low_power tc \<and> rx_addr rx = te_lpn_frnd te \<and>
        (op = TRANS_CTL_OP_FRIEND_UPDATE \<or> op = TRANS_CTL_OP_FRIEND_SUB_CFM) then handle
      else Some (Some ENOENT, seq_auth, s))"

section \<open>Unsegmented messages\<close>

definition set_rpl :: "rpl_state \<Rightarrow> trans_state \<Rightarrow> trans_state" where
  "set_rpl r s = set_net ((ts_net s)\<lparr>bm_rpl := r\<rparr>) s"

definition trans_rpl_check ::
  "trans_cfg \<Rightarrow> bt_mesh_net_rx \<Rightarrow> bool \<Rightarrow> trans_state \<Rightarrow> bool \<times> nat option \<times> trans_state" where
  "trans_rpl_check tc rx match s =
     (let (replay, slot, r) = bt_mesh_rpl_check (cfg_settings (tc_mesh tc)) (cfg_rpl_timeout (tc_mesh tc)) rx match (bm_rpl (ts_net s))
      in (replay, slot, set_rpl r s))"

definition trans_unseg ::
  "trans_cfg \<Rightarrow> trans_env \<Rightarrow> net_buf_simple \<Rightarrow> bt_mesh_net_rx \<Rightarrow> u64 \<Rightarrow> trans_state \<Rightarrow>
   (errno option \<times> bt_mesh_net_rx \<times> u64 \<times> trans_state) option" where
  "trans_unseg tc te buf rx seq_auth s =
     (if nb_len buf < 1 then Some (Some EINVAL, rx, seq_auth, s)
      else
        (let (replay, _, s) = trans_rpl_check tc rx False s in
         if replay then Some (Some EINVAL, rx, seq_auth, s)
         else do {
           (hdr, buf) \<leftarrow> net_buf_simple_pull_u8 buf;
           (if rx_ctl rx
            then do { (err, seq_auth, s) \<leftarrow> ctl_recv tc te rx hdr (nb_bytes buf) seq_auth s; Some (err, rx, seq_auth, s) }
            else if nb_len buf < 1 + APP_MIC_LEN 0 then Some (Some EINVAL, rx, seq_auth, s)
            else do {
              (err, rx, s) \<leftarrow> sdu_recv tc te rx hdr 0 (buf\<lparr>nb_len := nb_len buf - APP_MIC_LEN 0\<rparr>)
                \<lparr>nb_data = 0, nb_len = 0, nb_size = BT_MESH_SDU_UNSEG_MAX, nb_buf = replicate BT_MESH_SDU_UNSEG_MAX 0\<rparr> None s;
              Some (err, rx, seq_auth, s) })
         }))"

section \<open>Segmented messages\<close>

definition popcount :: "u32 \<Rightarrow> nat" where
  "popcount w = length (filter (bit w) [0..<32])"

definition ack_timeout :: "trans_env \<Rightarrow> seg_rx \<Rightarrow> nat" where
  "ack_timeout te rx =
     (let ttl = (if sr_ttl rx = BT_MESH_TTL_DEFAULT then te_default_ttl te else sr_ttl rx);
          to = 150 + unat ttl * 50 + (unat (sr_seg_n rx) + 1 - popcount (sr_block rx)) * 100
      in max to 400)"

fun seg_rx_free_loop :: "nat \<Rightarrow> nat list \<Rightarrow> trans_state \<Rightarrow> trans_state option" where
  "seg_rx_free_loop i [] s = Some s"
| "seg_rx_free_loop i (k # ks) s =
     (if length (sr_seg (ts_rx s ! i)) \<le> k then None
      else if sr_seg (ts_rx s ! i) ! k = None then seg_rx_free_loop i ks s
      else seg_rx_free_loop i ks ((upd_rx i (\<lambda>rx. rx\<lparr>sr_seg := (sr_seg rx)[k := None]\<rparr>) s)\<lparr>ts_free := ts_free s + 1\<rparr>))"

definition seg_rx_reset :: "trans_cfg \<Rightarrow> nat \<Rightarrow> bool \<Rightarrow> trans_state \<Rightarrow> trans_state option" where
  "seg_rx_reset tc i full_reset s =
     (let rx = ts_rx s ! i;
          s = upd_rx i (\<lambda>rx. rx\<lparr>sr_ack := None\<rparr>) s;
          s = (if cfg_friend (tc_mesh tc) \<and> sr_obo rx \<and> sr_block rx \<noteq> BLOCK_COMPLETE (unat (sr_seg_n rx))
               then trans_output (Friend_clear_incomplete (sr_sub rx) (sr_src rx) (sr_dst rx) (sr_seq_auth rx)) s else s)
      in do {
        s \<leftarrow> seg_rx_free_loop i [0..<unat (sr_seg_n rx) + 1] s;
        let s = upd_rx i (\<lambda>rx. rx\<lparr>sr_in_use := False\<rparr>) s;
        Some (if full_reset
              then upd_rx i (\<lambda>rx. rx\<lparr>sr_seq_auth := 0, sr_sub := None, sr_src := BT_MESH_ADDR_UNASSIGNED,
                     sr_dst := BT_MESH_ADDR_UNASSIGNED\<rparr>) s
              else s)
      })"

text \<open>The work handler of the acknowledgement timer.\<close>

definition seg_ack :: "trans_cfg \<Rightarrow> trans_env \<Rightarrow> nat \<Rightarrow> trans_state \<Rightarrow> trans_state option" where
  "seg_ack tc te i s =
     (let s = upd_rx i (\<lambda>rx. rx\<lparr>sr_ack := None\<rparr>) s; rx = ts_rx s ! i in
      if \<not> sr_in_use rx \<or> sr_block rx = BLOCK_COMPLETE (unat (sr_seg_n rx)) then Some s
      else if 60 * 1000 < te_uptime te - sr_last rx then seg_rx_reset tc i False s
      else do {
        sub \<leftarrow> sr_sub rx;
        s \<leftarrow> send_ack tc te sub (sr_dst rx) (sr_src rx) (sr_ttl rx) (sr_seq_auth rx) (sr_block rx) (sr_obo rx) s;
        Some (upd_rx i (\<lambda>rx. rx\<lparr>sr_ack := Some (ack_timeout te rx)\<rparr>) s)
      })"

definition sdu_len_is_ok :: "trans_cfg \<Rightarrow> nat \<Rightarrow> bool" where
  "sdu_len_is_ok tc seg_n \<longleftrightarrow> seg_n < tc_rx_seg_max tc"

fun seg_rx_find :: "trans_cfg \<Rightarrow> bt_mesh_net_rx \<Rightarrow> u64 \<Rightarrow> nat list \<Rightarrow> trans_state \<Rightarrow> (nat option \<times> trans_state) option" where
  "seg_rx_find tc net_rx seq_auth [] s = Some (None, s)"
| "seg_rx_find tc net_rx seq_auth (i # is) s =
     (let rx = ts_rx s ! i in
      if sr_src rx \<noteq> rx_addr net_rx \<or> sr_dst rx \<noteq> ctx_recv_dst (rx_ctx net_rx) then seg_rx_find tc net_rx seq_auth is s
      else if seq_auth \<le> sr_seq_auth rx then Some (Some i, s)
      else if sr_in_use rx then do { s \<leftarrow> seg_rx_reset tc i True s; Some (None, s) }
      else seg_rx_find tc net_rx seq_auth is s)"

definition seg_rx_is_valid :: "seg_rx \<Rightarrow> bt_mesh_net_rx \<Rightarrow> u8 \<Rightarrow> nat \<Rightarrow> bool" where
  "seg_rx_is_valid rx net_rx hdr seg_n \<longleftrightarrow>
     sr_hdr rx = hdr \<and> unat (sr_seg_n rx) = seg_n \<and> sr_src rx = rx_addr net_rx \<and> sr_dst rx = ctx_recv_dst (rx_ctx net_rx) \<and>
     sr_ctl rx = rx_ctl net_rx"

definition seg_rx_alloc :: "bt_mesh_net_rx \<Rightarrow> u8 \<Rightarrow> u64 \<Rightarrow> nat \<Rightarrow> trans_state \<Rightarrow> nat option \<times> trans_state" where
  "seg_rx_alloc net_rx hdr seq_auth seg_n s =
     (if ts_free s < 1 then (None, s)
      else case find_index (\<lambda>rx. \<not> sr_in_use rx) (ts_rx s) of None \<Rightarrow> (None, s)
      | Some i \<Rightarrow>
         (Some i, upd_rx i (\<lambda>rx. rx\<lparr>sr_in_use := True, sr_sub := Some (rx_sub net_rx), sr_ctl := rx_ctl net_rx, sr_seq_auth := seq_auth,
            sr_seg_n := word_of_nat seg_n, sr_hdr := hdr, sr_ttl := ctx_send_ttl (rx_ctx net_rx), sr_src := rx_addr net_rx,
            sr_dst := ctx_recv_dst (rx_ctx net_rx), sr_block := 0\<rparr>) s))"

text \<open>The parts of a segmented header, and the authenticated sequence number they stand for.\<close>

definition seg_zero :: "bytes \<Rightarrow> u16" where
  "seg_zero hdr = drop_bit 2 (sys_get_be16 (drop 1 hdr)) AND ucast TRANS_SEQ_ZERO_MASK"

definition seg_o_of :: "bytes \<Rightarrow> nat" where
  "seg_o_of hdr = unat (push_bit 3 (ucast (sys_get_be16 (drop 1 hdr) AND 0x03)) OR drop_bit 5 (hdr ! 3))"

definition seg_n_of :: "bytes \<Rightarrow> nat" where
  "seg_n_of hdr = unat (hdr ! 3 AND 0x1f)"

definition seg_seq_auth :: "bt_mesh_net \<Rightarrow> bt_mesh_net_rx \<Rightarrow> u16 \<Rightarrow> u64" where
  "seg_seq_auth st net_rx seq_zero =
     SEQ_AUTH (BT_MESH_NET_IVI_RX st net_rx) (rx_seq net_rx - (((rx_seq net_rx AND mask 14) - ucast seq_zero) AND mask 13))"

definition trans_rpl_done :: "trans_cfg \<Rightarrow> nat \<Rightarrow> bt_mesh_net_rx \<Rightarrow> trans_state \<Rightarrow> trans_state" where
  "trans_rpl_done tc i rx s =
     set_rpl (bt_mesh_rpl_update (cfg_settings (tc_mesh tc)) (cfg_rpl_timeout (tc_mesh tc)) i rx (bm_rpl (ts_net s))) s"

text \<open>Delivery of a complete message, after which the context is reset.\<close>

definition seg_rx_deliver ::
  "trans_cfg \<Rightarrow> trans_env \<Rightarrow> nat \<Rightarrow> bytes \<Rightarrow> bt_mesh_net_rx \<Rightarrow> u64 \<Rightarrow> trans_state \<Rightarrow>
   (errno option \<times> bt_mesh_net_rx \<times> u64 \<times> trans_state) option" where
  "seg_rx_deliver tc te i hdr net_rx seq_auth s =
     (let rx = ts_rx s ! i; aszmic = ASZMIC hdr;
          empty = (\<lambda>n. \<lparr>nb_data = 0, nb_len = 0, nb_size = n, nb_buf = replicate n 0\<rparr>)
      in do {
        (err, net_rx, seq_auth, s) \<leftarrow>
          (if rx_ctl net_rx
           then do { sdu \<leftarrow> seg_rx_assemble rx (empty (tc_rx_seg_max tc * BT_MESH_CTL_SEG_SDU_MAX)) 0;
                     (err, seq_auth, s) \<leftarrow> ctl_recv tc te net_rx (hdr ! 0) (nb_bytes sdu) seq_auth s;
                     Some (err, net_rx, seq_auth, s) }
           else if unat (sr_len rx) < 1 + APP_MIC_LEN aszmic then Some (Some EINVAL, net_rx, seq_auth, s)
           else do { (err, net_rx, s) \<leftarrow> sdu_recv tc te net_rx (hdr ! 0) aszmic (empty (BT_MESH_RX_SDU_MAX tc))
                        ((empty (BT_MESH_RX_SDU_MAX tc))\<lparr>nb_size := unat (sr_len rx) - APP_MIC_LEN aszmic\<rparr>) (Some rx) s;
                     Some (err, net_rx, seq_auth, s) });
        s \<leftarrow> seg_rx_reset tc i False s;
        Some (err, net_rx, seq_auth, s)
      })"

definition trans_send_ack :: "trans_cfg \<Rightarrow> trans_env \<Rightarrow> bt_mesh_net_rx \<Rightarrow> u64 \<Rightarrow> u32 \<Rightarrow> bool \<Rightarrow> trans_state \<Rightarrow> trans_state option" where
  "trans_send_ack tc te net_rx seq_auth block obo s =
     send_ack tc te (rx_sub net_rx) (ctx_recv_dst (rx_ctx net_rx)) (rx_addr net_rx) (ctx_send_ttl (rx_ctx net_rx)) seq_auth block obo s"

text \<open>All segments are there: the replay list is updated, the sender gets its acknowledgement and the message is delivered.\<close>

definition rpl_complete :: "trans_cfg \<Rightarrow> nat option \<Rightarrow> bt_mesh_net_rx \<Rightarrow> u64 \<Rightarrow> trans_state \<Rightarrow> trans_state" where
  "rpl_complete tc rpl net_rx seq_auth s =
     (case rpl of None \<Rightarrow> s
      | Some r \<Rightarrow>
          (let auth_seqnum = ucast (seq_auth AND mask 24) :: 24 word; s = trans_rpl_done tc r net_rx s;
               st = bm_rpl (ts_net s); e = replay_list st ! r
           in set_rpl (st\<lparr>replay_list := (replay_list st)[r := e\<lparr>rp_seg := max (rp_seg e) auth_seqnum\<rparr>]\<rparr>) s))"

definition seg_rx_complete ::
  "trans_cfg \<Rightarrow> trans_env \<Rightarrow> nat \<Rightarrow> bytes \<Rightarrow> nat option \<Rightarrow> bt_mesh_net_rx \<Rightarrow> u64 \<Rightarrow> trans_state \<Rightarrow>
   (errno option \<times> bt_mesh_net_rx \<times> u64 \<times> trans_state) option" where
  "seg_rx_complete tc te i hdr rpl net_rx seq_auth s =
     do {
       let s = rpl_complete tc rpl net_rx seq_auth s;
       let s = upd_rx i (\<lambda>rx. rx\<lparr>sr_ack := None\<rparr>) s;
       s \<leftarrow> trans_send_ack tc te net_rx seq_auth (sr_block (ts_rx s ! i)) (sr_obo (ts_rx s ! i)) s;
       seg_rx_deliver tc te i hdr net_rx seq_auth s
     }"

text \<open>The last segment fixes the length of the message.\<close>

definition seg_rx_len :: "nat \<Rightarrow> bytes \<Rightarrow> bytes \<Rightarrow> trans_state \<Rightarrow> trans_state" where
  "seg_rx_len i hdr dat s =
     (if seg_o_of hdr = seg_n_of hdr
      then upd_rx i (\<lambda>rx. rx\<lparr>sr_len := word_of_nat (seg_n_of hdr * seg_len (sr_ctl (ts_rx s ! i)) + length dat)\<rparr>) s else s)"

definition seg_rx_timers :: "trans_env \<Rightarrow> nat \<Rightarrow> trans_state \<Rightarrow> trans_state" where
  "seg_rx_timers te i s =
     (let s = upd_rx i (\<lambda>rx. rx\<lparr>sr_last := te_uptime te\<rparr>) s
      in if te_lpn_established te \<or> sr_ack (ts_rx s ! i) \<noteq> None then s
         else upd_rx i (\<lambda>rx. rx\<lparr>sr_ack := Some (ack_timeout te rx)\<rparr>) s)"

definition seg_rx_store :: "nat \<Rightarrow> nat \<Rightarrow> bytes \<Rightarrow> trans_state \<Rightarrow> trans_state" where
  "seg_rx_store i seg_o dat s =
     (upd_rx i (\<lambda>rx. rx\<lparr>sr_seg := (sr_seg rx)[seg_o := Some dat], sr_block := set_bit seg_o (sr_block rx)\<rparr>) s)\<lparr>ts_free := ts_free s - 1\<rparr>"

text \<open>
  From the label \<open>found_rx\<close> on: the segment \<open>dat\<close> with the header \<open>hdr\<close> for the context
  \<open>i\<close>.  The kind of PDU and the state are the result.
\<close>

definition trans_seg_found ::
  "trans_cfg \<Rightarrow> trans_env \<Rightarrow> nat \<Rightarrow> bytes \<Rightarrow> bytes \<Rightarrow> nat option \<Rightarrow> bt_mesh_net_rx \<Rightarrow> u64 \<Rightarrow> trans_state \<Rightarrow>
   (errno option \<times> bt_mesh_net_rx \<times> bt_mesh_friend_pdu_type \<times> u64 \<times> trans_state) option" where
  "trans_seg_found tc te i hdr dat rpl net_rx seq_auth s =
     (let seg_o = seg_o_of hdr; seg_n = seg_n_of hdr; rx = ts_rx s ! i; single = BT_MESH_FRIEND_PDU_SINGLE;
          len = seg_n * seg_len (sr_ctl rx) + length dat
      in if bit (sr_block rx) seg_o then Some (Some EALREADY, net_rx, single, seq_auth, s)
         else if seg_o \<noteq> seg_n \<and> length dat \<noteq> seg_len (sr_ctl rx) then Some (Some EINVAL, net_rx, single, seq_auth, s)
         else
           (let s = seg_rx_len i hdr dat s
            in if seg_o = seg_n \<and> BT_MESH_RX_SDU_MAX tc < len
               then do { s \<leftarrow> trans_send_ack tc te net_rx seq_auth 0 (sr_obo rx) s; s \<leftarrow> seg_rx_reset tc i True s;
                         Some (Some EMSGSIZE, net_rx, single, seq_auth, s) }
               else
                 (let s = seg_rx_timers te i s
                  in if ts_free s = 0 then Some (Some ENOBUFS, net_rx, single, seq_auth, s)
                     else if length (sr_seg rx) \<le> seg_o \<or> BT_MESH_APP_SEG_SDU_MAX < length dat then None
                     else
                       (let s = seg_rx_store i seg_o dat s
                        in if sr_block (ts_rx s ! i) \<noteq> BLOCK_COMPLETE seg_n
                           then Some (None, net_rx, BT_MESH_FRIEND_PDU_PARTIAL, seq_auth, s)
                           else do {
                             (err, net_rx, seq_auth, s) \<leftarrow> seg_rx_complete tc te i hdr rpl net_rx seq_auth s;
                             Some (err, net_rx, BT_MESH_FRIEND_PDU_COMPLETE, seq_auth, s)
                           }))))"

text \<open>A segment of a message for which there is a context already, and the first segment of a new one.\<close>

definition trans_seg_old ::
  "trans_cfg \<Rightarrow> trans_env \<Rightarrow> nat \<Rightarrow> bytes \<Rightarrow> bytes \<Rightarrow> nat option \<Rightarrow> bt_mesh_net_rx \<Rightarrow> u64 \<Rightarrow> trans_state \<Rightarrow>
   (errno option \<times> bt_mesh_net_rx \<times> bt_mesh_friend_pdu_type \<times> u64 \<times> trans_state) option" where
  "trans_seg_old tc te i hdr dat rpl net_rx seq_auth s =
     (let rx = ts_rx s ! i; single = BT_MESH_FRIEND_PDU_SINGLE in
      if seq_auth < sr_seq_auth rx then Some (Some EINVAL, net_rx, single, seq_auth, s)
      else if \<not> seg_rx_is_valid rx net_rx (hdr ! 0) (seg_n_of hdr) then Some (Some EINVAL, net_rx, single, seq_auth, s)
      else if sr_in_use rx then trans_seg_found tc te i hdr dat rpl net_rx seq_auth s
      else if sr_block rx = BLOCK_COMPLETE (unat (sr_seg_n rx))
      then do { s \<leftarrow> trans_send_ack tc te net_rx seq_auth (sr_block rx) (sr_obo rx) s;
                Some (Some EALREADY, net_rx, single, seq_auth,
                  case rpl of None \<Rightarrow> s | Some r \<Rightarrow> trans_rpl_done tc r net_rx s) }
      else Some (Some EINVAL, net_rx, single, seq_auth, s))"

definition rpl_seg_old :: "nat option \<Rightarrow> bt_mesh_net_rx \<Rightarrow> u64 \<Rightarrow> trans_state \<Rightarrow> bool" where
  "rpl_seg_old rpl net_rx seq_auth s =
     (case rpl of None \<Rightarrow> False
      | Some r \<Rightarrow> (let e = replay_list (bm_rpl (ts_net s)) ! r
          in rp_src e \<noteq> 0 \<and> unat (seq_auth AND mask 24) \<le> unat (rp_seg e) \<and> (\<not> rp_old_iv e \<or> rx_old_iv net_rx)))"

definition trans_seg_new ::
  "trans_cfg \<Rightarrow> trans_env \<Rightarrow> bytes \<Rightarrow> bytes \<Rightarrow> nat option \<Rightarrow> bt_mesh_net_rx \<Rightarrow> u64 \<Rightarrow> trans_state \<Rightarrow>
   (errno option \<times> bt_mesh_net_rx \<times> bt_mesh_friend_pdu_type \<times> u64 \<times> trans_state) option" where
  "trans_seg_new tc te hdr dat rpl net_rx seq_auth s =
     (let seg_n = seg_n_of hdr; single = BT_MESH_FRIEND_PDU_SINGLE in
      if \<not> sdu_len_is_ok tc seg_n
      then do { s \<leftarrow> trans_send_ack tc te net_rx seq_auth 0 (rx_friend_match net_rx) s; Some (Some EMSGSIZE, net_rx, single, seq_auth, s) }
      else if cfg_friend (tc_mesh tc) \<and> rx_friend_match net_rx \<and> \<not> rx_local_match net_rx \<and>
        \<not> te_friend_space te (sn_net_idx (ks_subnets (ts_keys s) ! rx_sub net_rx)) (rx_addr net_rx)
            (ctx_recv_dst (rx_ctx net_rx)) (Some seq_auth) (seg_n + 1)
      then do { s \<leftarrow> trans_send_ack tc te net_rx seq_auth 0 (rx_friend_match net_rx) s; Some (Some ENOBUFS, net_rx, single, seq_auth, s) }
      else if rpl_seg_old rpl net_rx seq_auth s then Some (Some EALREADY, net_rx, single, seq_auth, s)
      else
        (case seg_rx_alloc net_rx (hdr ! 0) seq_auth seg_n s of
           (None, s) \<Rightarrow> Some (Some ENOMEM, net_rx, single, seq_auth, s)
         | (Some i, s) \<Rightarrow>
             trans_seg_found tc te i hdr dat rpl net_rx seq_auth (upd_rx i (\<lambda>rx. rx\<lparr>sr_obo := rx_friend_match net_rx\<rparr>) s)))"

definition trans_seg ::
  "trans_cfg \<Rightarrow> trans_env \<Rightarrow> net_buf_simple \<Rightarrow> bt_mesh_net_rx \<Rightarrow> trans_state \<Rightarrow>
   (errno option \<times> bt_mesh_net_rx \<times> bt_mesh_friend_pdu_type \<times> u64 \<times> nat \<times> trans_state) option" where
  "trans_seg tc te buf net_rx s =
     (let hdr = nb_bytes buf; single = BT_MESH_FRIEND_PDU_SINGLE; nval = TRANS_SEQ_AUTH_NVAL in
      if nb_len buf < 5 then Some (Some EINVAL, net_rx, single, nval, 0, s)
      else
        (let (replay, rpl, s) = trans_rpl_check tc net_rx True s in
         if replay then Some (Some EINVAL, net_rx, single, nval, 0, s)
         else if seg_n_of hdr < seg_o_of hdr then Some (Some EINVAL, net_rx, single, nval, 0, s)
         else
           (let seq_auth = seg_seq_auth (ts_net s) net_rx (seg_zero hdr); dat = drop 4 hdr in
            do {
              (old, s) \<leftarrow> seg_rx_find tc net_rx seq_auth [0..<length (ts_rx s)] s;
              (err, net_rx, kind, seq_auth, s) \<leftarrow>
                (case old of
                   Some i \<Rightarrow> trans_seg_old tc te i hdr dat rpl net_rx seq_auth s
                 | None \<Rightarrow> trans_seg_new tc te hdr dat rpl net_rx seq_auth s);
              Some (err, net_rx, kind, seq_auth, seg_n_of hdr + 1, s)
            })))"

section \<open>Entry points\<close>

definition enqueue_rx :: "bt_mesh_friend_pdu_type \<Rightarrow> u64 option \<Rightarrow> nat \<Rightarrow> bytes \<Rightarrow> trans_state \<Rightarrow> trans_state" where
  "enqueue_rx type seq_auth seg_count pdu s = trans_output (Friend_enqueue_rx type seq_auth seg_count pdu) s"

definition bt_mesh_trans_recv ::
  "trans_cfg \<Rightarrow> trans_env \<Rightarrow> net_buf_simple \<Rightarrow> bt_mesh_net_rx \<Rightarrow> trans_state \<Rightarrow> (errno option \<times> bt_mesh_net_rx \<times> trans_state) option" where
  "bt_mesh_trans_recv tc te buf rx s =
     (let rx = rx\<lparr>rx_friend_match := cfg_friend (tc_mesh tc) \<and>
            te_friend_match te (sn_net_idx (ks_subnets (ts_keys s) ! rx_sub rx)) (ctx_recv_dst (rx_ctx rx))\<rparr>
      in do {
        (_, buf) \<leftarrow> net_buf_simple_pull BT_MESH_NET_HDR_LEN buf;
        (if tc_low_power tc \<and> te_lpn_established te \<and> rx_net_if rx = BT_MESH_NET_IF_ADV \<and>
            (\<not> te_lpn_waiting_update te \<or> \<not> rx_friend_cred rx)
         then Some (Some EAGAIN, rx, s)
         else if SEG (nb_bytes buf) \<noteq> 0 \<and> \<not> rx_local_match rx \<and> \<not> rx_friend_match rx then Some (None, rx, s)
         else do {
           (err, rx, kind, seq_auth, seg_count, s) \<leftarrow>
             (if SEG (nb_bytes buf) \<noteq> 0 then trans_seg tc te buf rx s
              else do { (err, rx, seq_auth, s) \<leftarrow> trans_unseg tc te buf rx TRANS_SEQ_AUTH_NVAL s;
                        Some (err, rx, BT_MESH_FRIEND_PDU_SINGLE, seq_auth, 1, s) });
           let s = (if tc_low_power tc then trans_output Lpn_msg_received s else s);
           Some (err, rx,
             if cfg_friend (tc_mesh tc) \<and> rx_friend_match rx \<and> err = None
             then enqueue_rx kind (if seq_auth = TRANS_SEQ_AUTH_NVAL then None else Some seq_auth) seg_count (nb_bytes buf) s
             else s)
         })
      })"

fun rx_reset_loop :: "trans_cfg \<Rightarrow> nat list \<Rightarrow> trans_state \<Rightarrow> trans_state option" where
  "rx_reset_loop tc [] s = Some s"
| "rx_reset_loop tc (i # is) s = do { s \<leftarrow> seg_rx_reset tc i True s; rx_reset_loop tc is s }"

definition bt_mesh_rx_reset :: "trans_cfg \<Rightarrow> trans_state \<Rightarrow> trans_state option" where
  "bt_mesh_rx_reset tc s = rx_reset_loop tc [0..<length (ts_rx s)] s"

fun tx_reset_loop :: "trans_cfg \<Rightarrow> trans_env \<Rightarrow> nat list \<Rightarrow> trans_state \<Rightarrow> trans_state option" where
  "tx_reset_loop tc te [] s = Some s"
| "tx_reset_loop tc te (i # is) s = do { s \<leftarrow> seg_tx_reset tc te i s; tx_reset_loop tc te is s }"

definition bt_mesh_trans_reset :: "trans_cfg \<Rightarrow> trans_env \<Rightarrow> trans_state \<Rightarrow> trans_state option" where
  "bt_mesh_trans_reset tc te s =
     do {
       s \<leftarrow> bt_mesh_rx_reset tc s;
       s \<leftarrow> tx_reset_loop tc te [0..<length (ts_tx s)] s;
       let s = s\<lparr>ts_va := map (\<lambda>va. if va_ref va \<noteq> 0 then va\<lparr>va_ref := 0, va_changed := True\<rparr> else va) (ts_va s)\<rparr>;
       let s = set_rpl (bt_mesh_rpl_clear (cfg_settings (tc_mesh tc)) (bm_rpl (ts_net s))) s;
       Some (if cfg_settings (tc_mesh tc) then trans_output Va_store_schedule s else s)
     }"

end
