(* ===== verification/Mesh_Seg_Slab.thy ===== *)
theory Mesh_Seg_Slab
  imports Mesh_Seg_Rx
begin

text \<open>
  The segment buffers of the transport layer are blocks of one slab.  This theory shows that
  no operation loses or duplicates a block, that the bit map of a receiving context names
  exactly the segments it holds, and that an idle context holds none.
\<close>

section \<open>Blocks held by a table of contexts\<close>

definition blocks :: "'a option list \<Rightarrow> nat" where
  "blocks xs = length (filter (\<lambda>x. x \<noteq> None) xs)"

lemma blocks_simps [simp]: "blocks [] = 0" "blocks (x # xs) = (if x = None then 0 else 1) + blocks xs"
  by (simp_all add: blocks_def)

lemma blocks_zero_iff: "blocks xs = 0 \<longleftrightarrow> (\<forall>k < length xs. xs ! k = None)"
  by (simp only: blocks_def length_0_conv filter_empty_conv not_not) (metis in_set_conv_nth nth_mem)

lemma blocks_le: "blocks xs \<le> length xs"
  by (simp add: blocks_def)

lemma blocks_pos: "k < length xs \<Longrightarrow> xs ! k \<noteq> None \<Longrightarrow> 0 < blocks xs"
  by (simp only: neq0_conv [symmetric] blocks_zero_iff) auto

lemma sum_list_nth_update:
  "i < length xs \<Longrightarrow> sum_list (map g (xs[i := x])) + g (xs ! i) = sum_list (map g xs) + (g x :: nat)"
proof (induction xs arbitrary: i)
  case (Cons y ys)
  show ?case
  proof (cases i)
    case (Suc j)
    then show ?thesis using Cons.IH [of j] Cons.prems by simp
  qed simp
qed simp

lemma blocks_sum: "blocks xs = sum_list (map (\<lambda>x. if x = None then 0 else 1) xs)"
  by (induction xs) simp_all

lemma blocks_update:
  "k < length xs \<Longrightarrow> blocks (xs[k := v]) + (if xs ! k = None then 0 else 1) = blocks xs + (if v = None then 0 else 1)"
  unfolding blocks_sum by (rule sum_list_nth_update)

locale seg_table =
  fixes ctxs :: "trans_state \<Rightarrow> 'c list"
    and segs :: "'c \<Rightarrow> bytes option list"
    and upd :: "nat \<Rightarrow> ('c \<Rightarrow> 'c) \<Rightarrow> trans_state \<Rightarrow> trans_state"
  assumes ctxs_upd: "ctxs (upd i f s) = (ctxs s)[i := f (ctxs s ! i)]"
    and free_upd: "ts_free (upd i f s) = ts_free s"
begin

definition owned :: "trans_state \<Rightarrow> nat" where
  "owned s = sum_list (map (\<lambda>c. blocks (segs c)) (ctxs s))"

lemma owned_upd:
  "i < length (ctxs s) \<Longrightarrow> owned (upd i f s) + blocks (segs (ctxs s ! i)) = owned s + blocks (segs (f (ctxs s ! i)))"
  unfolding owned_def ctxs_upd by (rule sum_list_nth_update)

lemma owned_keep: "i < length (ctxs s) \<Longrightarrow> blocks (segs (f (ctxs s ! i))) = blocks (segs (ctxs s ! i)) \<Longrightarrow> owned (upd i f s) = owned s"
  using owned_upd [of i s f] by simp

lemma owned_upd_seg:
  assumes "i < length (ctxs s)" "segs (f (ctxs s ! i)) = (segs (ctxs s ! i))[k := v]" "k < length (segs (ctxs s ! i))"
  shows "owned (upd i f s) + (if segs (ctxs s ! i) ! k = None then 0 else 1) = owned s + (if v = None then 0 else 1)"
  using owned_upd [OF assms(1), of f] blocks_update [OF assms(3), of v] by (simp add: assms(2) split: if_splits)

lemma ctxs_nth: "i < length (ctxs s) \<Longrightarrow> ctxs (upd i f s) ! i = f (ctxs s ! i)"
  by (simp add: ctxs_upd)

lemma ctxs_all:
  "\<forall>c \<in> set (ctxs s). P c \<Longrightarrow> i < length (ctxs s) \<Longrightarrow> P (f (ctxs s ! i)) \<Longrightarrow> \<forall>c \<in> set (ctxs (upd i f s)). P c"
  by (auto simp: ctxs_upd dest: set_update_subset_insert [THEN subsetD])

end

interpretation tx_table: seg_table ts_tx st_seg upd_tx
  by unfold_locales (simp_all add: upd_tx_def)

interpretation rx_table: seg_table ts_rx sr_seg upd_rx
  by unfold_locales (simp_all add: upd_rx_def)

section \<open>The invariant\<close>

definition tx_ok :: "trans_cfg \<Rightarrow> seg_tx \<Rightarrow> bool" where
  "tx_ok tc tx \<longleftrightarrow> length (st_seg tx) = tc_tx_seg_max tc \<and> unat (st_seg_n tx) < tc_tx_seg_max tc \<and>
     (\<forall>k < length (st_seg tx). st_seg tx ! k \<noteq> None \<longrightarrow> k \<le> unat (st_seg_n tx)) \<and> blocks (st_seg tx) \<le> unat (st_nack_count tx)"

text \<open>The sizes of the segments a receiving context holds.\<close>

definition seg_size_ok :: "seg_rx \<Rightarrow> nat \<Rightarrow> bytes \<Rightarrow> bool" where
  "seg_size_ok rx k dat \<longleftrightarrow> length dat \<le> BT_MESH_APP_SEG_SDU_MAX \<and>
     (if k = unat (sr_seg_n rx) then unat (sr_len rx) = k * seg_len (sr_ctl rx) + length dat else length dat = seg_len (sr_ctl rx))"

definition rx_ok :: "trans_cfg \<Rightarrow> seg_rx \<Rightarrow> bool" where
  "rx_ok tc rx \<longleftrightarrow> length (sr_seg rx) = tc_rx_seg_max tc \<and> unat (sr_seg_n rx) < tc_rx_seg_max tc \<and>
     (\<forall>k < length (sr_seg rx). sr_seg rx ! k \<noteq> None \<longleftrightarrow> sr_in_use rx \<and> bit (sr_block rx) k) \<and>
     (sr_in_use rx \<longrightarrow> (\<forall>k. bit (sr_block rx) k \<longrightarrow> k \<le> unat (sr_seg_n rx)) \<and>
        (\<forall>k < length (sr_seg rx). \<forall>dat. sr_seg rx ! k = Some dat \<longrightarrow> seg_size_ok rx k dat))"

definition trans_inv :: "trans_cfg \<Rightarrow> nat \<Rightarrow> nat \<Rightarrow> nat \<Rightarrow> trans_state \<Rightarrow> bool" where
  "trans_inv tc n_tx n_rx n s \<longleftrightarrow> length (ts_tx s) = n_tx \<and> length (ts_rx s) = n_rx \<and>
     (\<forall>tx \<in> set (ts_tx s). tx_ok tc tx) \<and> (\<forall>rx \<in> set (ts_rx s). rx_ok tc rx) \<and>
     ts_free s + tx_table.owned s + rx_table.owned s = n"

definition same_slab :: "trans_state \<Rightarrow> trans_state \<Rightarrow> bool" where
  "same_slab s s' \<longleftrightarrow> ts_tx s' = ts_tx s \<and> ts_rx s' = ts_rx s \<and> ts_free s' = ts_free s"

lemma same_slab_refl [simp]: "same_slab s s"
  by (simp add: same_slab_def)

lemma same_slab_trans: "same_slab s s' \<Longrightarrow> same_slab s' s'' \<Longrightarrow> same_slab s s''"
  by (simp add: same_slab_def)

lemma same_slab_output [simp]: "same_slab s (trans_output x s)"
  by (simp add: same_slab_def trans_output_def)

lemma same_slab_set_net [simp]: "same_slab s (set_net st s)"
  by (simp add: same_slab_def set_net_def)

lemma trans_inv_frame: "trans_inv tc a b n s \<Longrightarrow> same_slab s s' \<Longrightarrow> trans_inv tc a b n s'"
  by (simp add: trans_inv_def same_slab_def tx_table.owned_def rx_table.owned_def)

lemma upd_tx_other [simp]: "ts_rx (upd_tx i f s) = ts_rx s" "ts_free (upd_tx i f s) = ts_free s" "length (ts_tx (upd_tx i f s)) = length (ts_tx s)"
    "rx_table.owned (upd_tx i f s) = rx_table.owned s"
  by (simp_all add: upd_tx_def rx_table.owned_def)

lemma upd_rx_other [simp]: "ts_tx (upd_rx i f s) = ts_tx s" "ts_free (upd_rx i f s) = ts_free s" "length (ts_rx (upd_rx i f s)) = length (ts_rx s)"
    "tx_table.owned (upd_rx i f s) = tx_table.owned s"
  by (simp_all add: upd_rx_def tx_table.owned_def)

lemma free_other [simp]: "tx_table.owned (ts_free_update g s) = tx_table.owned s" "rx_table.owned (ts_free_update g s) = rx_table.owned s"
  by (simp_all add: tx_table.owned_def rx_table.owned_def)

lemma trans_inv_tx: "trans_inv tc a b n s \<Longrightarrow> i < a \<Longrightarrow> tx_ok tc (ts_tx s ! i)"
  by (simp add: trans_inv_def)

lemma trans_inv_rx: "trans_inv tc a b n s \<Longrightarrow> i < b \<Longrightarrow> rx_ok tc (ts_rx s ! i)"
  by (simp add: trans_inv_def)

lemma trans_inv_len: "trans_inv tc a b n s \<Longrightarrow> length (ts_tx s) = a \<and> length (ts_rx s) = b"
  by (simp add: trans_inv_def)

lemma trans_inv_upd_tx:
  assumes "trans_inv tc a b n s" "i < a" "tx_ok tc (f (ts_tx s ! i))"
    and "fr + blocks (st_seg (f (ts_tx s ! i))) = ts_free s + blocks (st_seg (ts_tx s ! i))"
  shows "trans_inv tc a b n ((upd_tx i f s)\<lparr>ts_free := fr\<rparr>)"
  using assms tx_table.owned_upd [of i s f] tx_table.ctxs_all [of s "tx_ok tc" i f]
  by (simp add: trans_inv_def)

lemma trans_inv_upd_rx:
  assumes "trans_inv tc a b n s" "i < b" "rx_ok tc (f (ts_rx s ! i))"
    and "fr + blocks (sr_seg (f (ts_rx s ! i))) = ts_free s + blocks (sr_seg (ts_rx s ! i))"
  shows "trans_inv tc a b n ((upd_rx i f s)\<lparr>ts_free := fr\<rparr>)"
  using assms rx_table.owned_upd [of i s f] rx_table.ctxs_all [of s "rx_ok tc" i f]
  by (simp add: trans_inv_def)

lemma free_self [simp]: "(upd_tx i f s)\<lparr>ts_free := ts_free s\<rparr> = upd_tx i f s" "(upd_rx j g s)\<lparr>ts_free := ts_free s\<rparr> = upd_rx j g s"
  by (simp_all add: upd_tx_def upd_rx_def)

text \<open>Updates that leave the segments alone.\<close>

definition soft_tx :: "(seg_tx \<Rightarrow> seg_tx) \<Rightarrow> bool" where
  "soft_tx f \<longleftrightarrow> (\<forall>tx. st_seg (f tx) = st_seg tx \<and> st_seg_n (f tx) = st_seg_n tx \<and> st_nack_count (f tx) = st_nack_count tx)"

definition soft_rx :: "(seg_rx \<Rightarrow> seg_rx) \<Rightarrow> bool" where
  "soft_rx f \<longleftrightarrow> (\<forall>rx. sr_seg (f rx) = sr_seg rx \<and> sr_seg_n (f rx) = sr_seg_n rx \<and> sr_block (f rx) = sr_block rx \<and>
     sr_len (f rx) = sr_len rx \<and> sr_ctl (f rx) = sr_ctl rx \<and> sr_in_use (f rx) = sr_in_use rx)"

lemma tx_ok_soft: "soft_tx f \<Longrightarrow> tx_ok tc (f tx) = tx_ok tc tx"
  by (simp add: soft_tx_def tx_ok_def)

lemma rx_ok_soft: "soft_rx f \<Longrightarrow> rx_ok tc (f rx) = rx_ok tc rx"
  by (simp add: soft_rx_def rx_ok_def seg_size_ok_def)

lemma trans_inv_soft_tx [intro]:
  assumes "trans_inv tc a b n s" "i < a" "soft_tx f"
  shows "trans_inv tc a b n (upd_tx i f s)"
proof -
  have "trans_inv tc a b n ((upd_tx i f s)\<lparr>ts_free := ts_free s\<rparr>)"
    using assms trans_inv_tx [OF assms(1,2)] by (intro trans_inv_upd_tx) (simp_all add: tx_ok_soft, simp add: soft_tx_def)
  then show ?thesis by (simp only: free_self)
qed

lemma trans_inv_soft_rx [intro]:
  assumes "trans_inv tc a b n s" "i < b" "soft_rx f"
  shows "trans_inv tc a b n (upd_rx i f s)"
proof -
  have "trans_inv tc a b n ((upd_rx i f s)\<lparr>ts_free := ts_free s\<rparr>)"
    using assms trans_inv_rx [OF assms(1,2)] by (intro trans_inv_upd_rx) (simp_all add: rx_ok_soft, simp add: soft_rx_def)
  then show ?thesis by (simp only: free_self)
qed

section \<open>Sending\<close>

lemma tx_ok_done:
  assumes "tx_ok tc tx" "k < length (st_seg tx)" "st_seg tx ! k \<noteq> None"
  shows "tx_ok tc (tx\<lparr>st_seg := (st_seg tx)[k := None], st_nack_count := st_nack_count tx - 1\<rparr>)"
proof -
  have "blocks ((st_seg tx)[k := None]) + 1 = blocks (st_seg tx)" using blocks_update [OF assms(2), of None] assms(3) by simp
  moreover have "0 < blocks (st_seg tx)" using blocks_pos assms by blast
  ultimately show ?thesis using assms(1,2) by (auto simp: tx_ok_def nth_list_update unat_minus_one word_unat_eq_iff split: if_splits)
qed

lemma trans_inv_done:
  assumes "trans_inv tc a b n s" "i < a" "k < length (st_seg (ts_tx s ! i))" "st_seg (ts_tx s ! i) ! k \<noteq> None"
  shows "trans_inv tc a b n (seg_tx_done i k s)"
  unfolding seg_tx_done_def using assms(1,2)
  by (rule trans_inv_upd_tx) (use tx_ok_done [OF trans_inv_tx [OF assms(1,2)] assms(3,4)] blocks_update [OF assms(3), of None] assms(4) in simp_all)

lemma seg_tx_done_nth:
  "i < length (ts_tx s) \<Longrightarrow> ts_tx (seg_tx_done i k s) ! i =
     (ts_tx s ! i)\<lparr>st_seg := (st_seg (ts_tx s ! i))[k := None], st_nack_count := st_nack_count (ts_tx s ! i) - 1\<rparr>"
  by (simp add: seg_tx_done_def tx_table.ctxs_upd)

lemma seg_tx_done_len [simp]: "length (ts_tx (seg_tx_done i k s)) = length (ts_tx s)"
  by (simp add: seg_tx_done_def)

text \<open>After the loop of \<open>seg_tx_reset\<close> the context holds none of the segments visited, or no segment at all.\<close>

lemma seg_tx_free_loop_inv:
  "seg_tx_free_loop i ks s = Some s' \<Longrightarrow> trans_inv tc a b n s \<Longrightarrow> i < a \<Longrightarrow>
   trans_inv tc a b n s' \<and> (st_nack_count (ts_tx s' ! i) = 0 \<or> (\<forall>k \<in> set ks. st_seg (ts_tx s' ! i) ! k = None)) \<and>
   st_seg_n (ts_tx s' ! i) = st_seg_n (ts_tx s ! i) \<and> (\<forall>k. st_seg (ts_tx s ! i) ! k = None \<longrightarrow> k < length (st_seg (ts_tx s ! i)) \<longrightarrow> st_seg (ts_tx s' ! i) ! k = None)"
proof (induction i ks s rule: seg_tx_free_loop.induct)
  case (2 i k ks s)
  note len = trans_inv_len [OF 2(4)]
  consider "st_nack_count (ts_tx s ! i) = 0" | "st_nack_count (ts_tx s ! i) \<noteq> 0" "k < length (st_seg (ts_tx s ! i))" "st_seg (ts_tx s ! i) ! k = None"
    | "st_nack_count (ts_tx s ! i) \<noteq> 0" "k < length (st_seg (ts_tx s ! i))" "st_seg (ts_tx s ! i) ! k \<noteq> None"
    using 2(3) by (fastforce split: if_splits)
  then show ?case
  proof cases
    case 3
    have inv: "trans_inv tc a b n (seg_tx_done i k s)" by (rule trans_inv_done [OF 2(4,5)]) (use 3 in simp_all)
    have "ts_tx (seg_tx_done i k s) ! i = (ts_tx s ! i)\<lparr>st_seg := (st_seg (ts_tx s ! i))[k := None], st_nack_count := st_nack_count (ts_tx s ! i) - 1\<rparr>"
      using len 2(5) by (simp add: seg_tx_done_nth)
    with 2(2) [OF _ _ _ _ inv 2(5)] 2(3) 3 show ?thesis by (auto simp: nth_list_update)
  qed (use 2 in auto)
qed auto

lemma seg_tx_reset_inv:
  assumes "seg_tx_reset tc' te i s = Some s'" "trans_inv tc a b n s" "i < a"
  shows "trans_inv tc a b n s'"
proof -
  define s1 where "s1 = upd_tx i (\<lambda>tx. tx\<lparr>st_retransmit := None, st_cb := None, st_seq_auth := 0, st_sub := None,
                st_src := BT_MESH_ADDR_UNASSIGNED, st_dst := BT_MESH_ADDR_UNASSIGNED, st_blocked := False\<rparr>) s"
  have inv1: "trans_inv tc a b n s1" unfolding s1_def using assms(2,3) by (rule trans_inv_soft_tx) (simp add: soft_tx_def)
  obtain s2 where s2: "seg_tx_free_loop i [0..<unat (st_seg_n (ts_tx s1 ! i)) + 1] s1 = Some s2"
    and s': "s' = set_net (iv_update_deferred (tc_mesh tc') (ne_iv (trans_net_env te (upd_tx i (\<lambda>tx. tx\<lparr>st_nack_count := 0\<rparr>) s2)))
                 (ts_net (upd_tx i (\<lambda>tx. tx\<lparr>st_nack_count := 0\<rparr>) s2))) (upd_tx i (\<lambda>tx. tx\<lparr>st_nack_count := 0\<rparr>) s2)"
    using assms(1) by (auto simp: seg_tx_reset_def s1_def Let_def bind_eq_Some_conv simp del: upt_Suc)
  have loop: "trans_inv tc a b n s2" "st_nack_count (ts_tx s2 ! i) = 0 \<or> (\<forall>k \<le> unat (st_seg_n (ts_tx s2 ! i)). st_seg (ts_tx s2 ! i) ! k = None)"
    using seg_tx_free_loop_inv [OF s2 inv1 assms(3)] by (auto simp: less_Suc_eq_le simp del: upt_Suc)
  note ok2 = trans_inv_tx [OF loop(1) assms(3)]
  have zero: "blocks (st_seg (ts_tx s2 ! i)) = 0"
    using loop(2)
  proof
    assume "st_nack_count (ts_tx s2 ! i) = 0" then show ?thesis using ok2 by (simp add: tx_ok_def)
  next
    assume "\<forall>k \<le> unat (st_seg_n (ts_tx s2 ! i)). st_seg (ts_tx s2 ! i) ! k = None"
    then show ?thesis using ok2 by (fastforce simp: tx_ok_def blocks_zero_iff)
  qed
  have "trans_inv tc a b n ((upd_tx i (\<lambda>tx. tx\<lparr>st_nack_count := 0\<rparr>) s2)\<lparr>ts_free := ts_free s2\<rparr>)"
    using loop(1) assms(3) by (rule trans_inv_upd_tx) (use ok2 zero in \<open>simp_all add: tx_ok_def\<close>)
  then show ?thesis unfolding s' by (simp only: free_self) (erule trans_inv_frame, simp)
qed

lemma cb_end_slab [simp]: "same_slab s (cb_end_call cb err s)"
  by (simp add: cb_end_call_def split: option.split)

lemma cb_start_slab [simp]: "same_slab s (cb_start_call cb d err s)"
  by (simp add: cb_start_call_def split: option.split)

lemma send_cb_finalize_slab [simp]: "same_slab s (send_cb_finalize cb s)"
  unfolding send_cb_finalize_def by (rule same_slab_trans) (rule cb_start_slab, rule cb_end_slab)

lemma unblock_scan_bound: "unblock_scan i txs js r = Some x \<Longrightarrow> r = Some x \<or> x \<in> set js"
  by (induction js arbitrary: r) (auto split: if_splits)

lemma seg_tx_unblock_check_inv: "trans_inv tc a b n s \<Longrightarrow> trans_inv tc a b n (seg_tx_unblock_check i s)"
  unfolding seg_tx_unblock_check_def
  by (auto split: option.split simp: soft_tx_def intro!: trans_inv_soft_tx dest!: unblock_scan_bound simp: trans_inv_len)

lemma seg_tx_complete_inv:
  "seg_tx_complete tc' te i err s = Some s' \<Longrightarrow> trans_inv tc a b n s \<Longrightarrow> i < a \<Longrightarrow> trans_inv tc a b n s'"
  by (auto simp: seg_tx_complete_def bind_eq_Some_conv Let_def
      intro: trans_inv_frame [OF seg_tx_reset_inv [OF _ seg_tx_unblock_check_inv]])

lemma schedule_retransmit_inv: "trans_inv tc a b n s \<Longrightarrow> i < a \<Longrightarrow> trans_inv tc a b n (schedule_retransmit tc' i s)"
  by (auto simp: schedule_retransmit_def Let_def soft_tx_def intro!: trans_inv_soft_tx)

lemma seg_send_start_inv: "trans_inv tc a b n s \<Longrightarrow> i < a \<Longrightarrow> trans_inv tc a b n (seg_send_start tc' i d err s)"
  unfolding seg_send_start_def Let_def
  by (auto split: option.split simp: soft_tx_def intro!: schedule_retransmit_inv trans_inv_soft_tx intro: trans_inv_frame [OF _ same_slab_output])

lemma seg_sent_inv: "trans_inv tc a b n s \<Longrightarrow> i < a \<Longrightarrow> trans_inv tc a b n (seg_sent tc' i s)"
  by (simp add: seg_sent_def schedule_retransmit_inv)

lemma trans_net_send_slab: "trans_net_send tc te tx buf cb s = Some (err, fin, s') \<Longrightarrow> same_slab s s'"
  by (auto simp: trans_net_send_def bind_eq_Some_conv same_slab_def)

lemma send_unseg_slab: "send_unseg tc te tx sdu cb op s = Some (err, s') \<Longrightarrow> same_slab s s'"
  by (auto simp: send_unseg_def bind_eq_Some_conv Let_def enqueue_tx_def split: option.splits if_splits prod.splits
      dest!: trans_net_send_slab intro: same_slab_trans [OF same_slab_output] same_slab_trans [OF _ send_cb_finalize_slab]
        same_slab_trans [OF same_slab_trans [OF same_slab_output]])

lemma seg_send_step_inv:
  assumes "trans_inv tc' a b n s" "i < a" "trans_net_send tc te tx seg True (upd_tx i (\<lambda>tx. tx\<lparr>st_seg_pending := st_seg_pending tx + 1\<rparr>) s) = Some (err, fin, s')"
  shows "trans_inv tc' a b n (if fin then seg_sent tc i (seg_send_start tc i 0 None s') else s')"
proof -
  have "trans_inv tc' a b n (upd_tx i (\<lambda>tx. tx\<lparr>st_seg_pending := st_seg_pending tx + 1\<rparr>) s)"
    using assms(1,2) by (rule trans_inv_soft_tx) (simp add: soft_tx_def)
  then have "trans_inv tc' a b n s'" using trans_net_send_slab [OF assms(3)] by (rule trans_inv_frame)
  then show ?thesis using assms(2) by (auto intro: seg_sent_inv seg_send_start_inv)
qed

lemma seg_send_loop_inv:
  "seg_send_loop tc te i tx ks s = Some (r, s') \<Longrightarrow> trans_inv tc' a b n s \<Longrightarrow> i < a \<Longrightarrow> trans_inv tc' a b n s'"
proof (induction ks arbitrary: s)
  case (Cons k ks)
  let ?s = "upd_tx i (\<lambda>tx. tx\<lparr>st_seg_o := word_of_nat k\<rparr>) s"
  have inv: "trans_inv tc' a b n ?s" using Cons.prems(2,3) by (rule trans_inv_soft_tx) (simp add: soft_tx_def)
  have pending: "trans_inv tc' a b n (upd_tx i (\<lambda>tx. tx\<lparr>st_seg_pending := st_seg_pending tx - 1\<rparr>) u)" if "trans_inv tc' a b n u" for u
    using that Cons.prems(3) by (rule trans_inv_soft_tx) (simp add: soft_tx_def)
  from Cons.prems(1) inv Cons.prems(3) Cons.IH show ?case
    by (auto simp: Let_def bind_eq_Some_conv split: if_splits option.splits dest!: seg_send_step_inv [OF inv] intro: pending)
qed simp

lemma send_unacked_end_inv: "trans_inv tc' a b n s \<Longrightarrow> i < a \<Longrightarrow> trans_inv tc' a b n (send_unacked_end tc i r s)"
  by (simp add: send_unacked_end_def Let_def soft_tx_def trans_inv_soft_tx)

definition unacked_loop :: "trans_cfg \<Rightarrow> trans_env \<Rightarrow> nat \<Rightarrow> trans_state \<Rightarrow> nat \<Rightarrow> (bool \<times> trans_state) option" where
  "unacked_loop tc te i s sub =
     seg_send_loop tc te i (seg_net_tx (ts_tx s ! i) sub (sn_net_idx (ks_subnets (ts_keys s) ! sub)))
       [unat (st_seg_o (ts_tx s ! i))..<unat (st_seg_n (ts_tx s ! i)) + 1] (upd_tx i (\<lambda>tx. tx\<lparr>st_sending := True\<rparr>) s)"

lemma seg_tx_send_unacked_eq:
  "seg_tx_send_unacked tc te i s =
     (if st_nack_count (ts_tx s ! i) = 0 then Some s
      else case st_sub (ts_tx s ! i) of None \<Rightarrow> None
      | Some sub \<Rightarrow>
         if st_attempts (ts_tx s ! i) = 0
         then seg_tx_complete tc te i (if BT_MESH_ADDR_IS_UNICAST (st_dst (ts_tx s ! i)) then Some ETIMEDOUT else None) s
         else map_option (\<lambda>(r, s1). send_unacked_end tc i r s1) (unacked_loop tc te i s sub))"
  by (simp add: seg_tx_send_unacked_def unacked_loop_def Let_def map_conv_bind_option case_prod_unfold comp_def split: option.split del: upt_Suc)

lemma unacked_loop_inv:
  assumes "unacked_loop tc te i s sub = Some (r, s1)" "trans_inv tc' a b n s" "i < a"
  shows "trans_inv tc' a b n (send_unacked_end tc i r s1)"
proof -
  have "trans_inv tc' a b n (upd_tx i (\<lambda>tx. tx\<lparr>st_sending := True\<rparr>) s)" using assms(2,3) by (rule trans_inv_soft_tx) (simp add: soft_tx_def)
  with assms(1) [unfolded unacked_loop_def] have "trans_inv tc' a b n s1" using assms(3) by (rule seg_send_loop_inv)
  then show ?thesis using assms(3) by (rule send_unacked_end_inv)
qed

lemma seg_tx_send_unacked_inv:
  assumes "seg_tx_send_unacked tc te i s = Some s'" "trans_inv tc' a b n s" "i < a"
  shows "trans_inv tc' a b n s'"
proof (cases "st_sub (ts_tx s ! i)")
  case None
  then show ?thesis using assms by (simp add: seg_tx_send_unacked_eq split: if_splits)
next
  case (Some sub)
  show ?thesis
  proof (cases "unacked_loop tc te i s sub")
    case None
    then show ?thesis using assms Some by (simp add: seg_tx_send_unacked_eq seg_tx_complete_inv split: if_splits)
  next
    case (Some r)
    then show ?thesis using assms \<open>st_sub (ts_tx s ! i) = Some sub\<close> unacked_loop_inv [of tc te i s sub "fst r" "snd r" tc' a b n]
      by (simp add: seg_tx_send_unacked_eq case_prod_unfold split: if_splits) (metis seg_tx_complete_inv)+
  qed
qed

lemma seg_retransmit_inv:
  "seg_retransmit tc te i s = Some s' \<Longrightarrow> trans_inv tc' a b n s \<Longrightarrow> i < a \<Longrightarrow> trans_inv tc' a b n s'"
  unfolding seg_retransmit_def by (erule seg_tx_send_unacked_inv) (auto simp: soft_tx_def)

section \<open>Filling a context\<close>

text \<open>What one step of the loop leaves in its slot is the segment or, if the friend queue took it, nothing.\<close>

lemma seg_fill_result:
  assumes "seg_fill tc te i net_tx op k dat s = Some s'" "i < length (ts_tx s)" "ts_free s \<noteq> 0"
  obtains v where "ts_tx s' = (ts_tx s)[i := (ts_tx s ! i)\<lparr>st_seg := (st_seg (ts_tx s ! i))[k := v]\<rparr>]"
    "ts_rx s' = ts_rx s" "ts_free s' = (if v = None then ts_free s else ts_free s - 1)"
    "v = None \<and> cfg_friend (tc_mesh tc) \<or> v = Some dat"
  using assms
  by (cases "cfg_friend (tc_mesh tc)")
     (auto simp: seg_fill_def Let_def enqueue_tx_def bind_eq_Some_conv upd_tx_def trans_output_def split: if_splits)

definition tx_filling :: "trans_cfg \<Rightarrow> nat \<Rightarrow> seg_tx \<Rightarrow> bool" where
  "tx_filling tc k tx \<longleftrightarrow> unat (st_nack_count tx) = unat (st_seg_n tx) + 1 \<and> blocks (st_seg tx) \<le> k \<and>
     (\<forall>j < length (st_seg tx). k \<le> j \<longrightarrow> st_seg tx ! j = None)"

lemma tx_filling_step:
  assumes "tx_filling tc k tx" "k < length (st_seg tx)"
  shows "tx_filling tc (k + 1) (tx\<lparr>st_seg := (st_seg tx)[k := v]\<rparr>)"
  using assms blocks_update [OF assms(2), of v] by (auto simp: tx_filling_def nth_list_update split: if_splits)

lemma tx_ok_fill:
  assumes "tx_ok tc tx" "tx_filling tc k tx" "k \<le> unat (st_seg_n tx)"
  shows "tx_ok tc (tx\<lparr>st_seg := (st_seg tx)[k := v]\<rparr>)"
proof -
  have k: "k < length (st_seg tx)" using assms by (simp add: tx_ok_def)
  show ?thesis using assms blocks_update [OF k, of v] k by (auto simp: tx_ok_def tx_filling_def nth_list_update split: if_splits)
qed

lemma seg_len_pos: "0 < seg_len ctl"
  by (simp add: seg_len_def BT_MESH_CTL_SEG_SDU_MAX_def BT_MESH_APP_SEG_SDU_MAX_def)

lemma seg_fill_inv:
  assumes "seg_fill tc te i net_tx op k dat s = Some s'" "trans_inv tc' a b n s" "i < a" "ts_free s \<noteq> 0"
    and "tx_filling tc' k (ts_tx s ! i)" "k \<le> unat (st_seg_n (ts_tx s ! i))"
  shows "trans_inv tc' a b n s'" "tx_filling tc' (k + 1) (ts_tx s' ! i)" "st_seg_n (ts_tx s' ! i) = st_seg_n (ts_tx s ! i)"
proof -
  have i: "i < length (ts_tx s)" using assms(2,3) trans_inv_len by blast
  note tx = trans_inv_tx [OF assms(2,3)]
  have k: "k < length (st_seg (ts_tx s ! i))" using tx assms(6) by (simp add: tx_ok_def)
  from assms(1) i assms(4) obtain v where v: "ts_tx s' = (ts_tx s)[i := (ts_tx s ! i)\<lparr>st_seg := (st_seg (ts_tx s ! i))[k := v]\<rparr>]"
    "ts_rx s' = ts_rx s" "ts_free s' = (if v = None then ts_free s else ts_free s - 1)"
    by (rule seg_fill_result)
  let ?f = "\<lambda>tx. tx\<lparr>st_seg := (st_seg tx)[k := v]\<rparr>"
  have "trans_inv tc' a b n ((upd_tx i ?f s)\<lparr>ts_free := ts_free s'\<rparr>)"
    using assms(2,3) by (rule trans_inv_upd_tx)
      (use tx_ok_fill [OF tx assms(5,6)] blocks_update [OF k, of v] k assms(4,5) v(3) in \<open>auto simp: tx_filling_def split: if_splits\<close>)
  then show "trans_inv tc' a b n s'" by (rule trans_inv_frame) (simp add: same_slab_def upd_tx_def v)
  show "tx_filling tc' (k + 1) (ts_tx s' ! i)" "st_seg_n (ts_tx s' ! i) = st_seg_n (ts_tx s ! i)"
    using tx_filling_step [OF assms(5) k] i v by simp_all
qed

lemma seg_fill_loop_inv:
  assumes "seg_fill_loop tc te i net_tx op k sdu s = Some (err, s')" "trans_inv tc' a b n s" "i < a"
    and "tx_filling tc' k (ts_tx s ! i)" "length sdu \<le> (unat (st_seg_n (ts_tx s ! i)) + 1 - k) * seg_len (op \<noteq> None)"
  shows "trans_inv tc' a b n s'"
  using assms
proof (induction tc te i net_tx op k sdu s rule: seg_fill_loop.induct)
  case (1 tc te i net_tx op k sdu s)
  let ?len = "min (length sdu) (seg_len (op \<noteq> None))"
  show ?case
  proof (cases "sdu = [] \<or> ts_free s = 0")
    case True
    then show ?thesis using "1.prems" by (auto simp: seg_fill_loop.simps [of _ _ _ _ _ _ sdu] bind_eq_Some_conv split: if_splits intro: seg_tx_reset_inv)
  next
    case False
    then have len: "k < length (st_seg (ts_tx s ! i))" and k: "k \<le> unat (st_seg_n (ts_tx s ! i))"
      using "1.prems" by (auto simp: seg_fill_loop.simps [of _ _ _ _ _ _ sdu] not_le split: if_splits) (rule ccontr, simp)
    from False len "1.prems"(1) obtain s1 where s1: "seg_fill tc te i net_tx op k (take ?len sdu) s = Some s1"
      "seg_fill_loop tc te i net_tx op (k + 1) (drop ?len sdu) s1 = Some (err, s')"
      by (auto simp: seg_fill_loop.simps [of _ _ _ _ _ _ sdu] Let_def bind_eq_Some_conv)
    note step = seg_fill_inv [OF s1(1) "1.prems"(2,3) _ "1.prems"(4) k]
    have "length (drop ?len sdu) \<le> (unat (st_seg_n (ts_tx s ! i)) + 1 - (k + 1)) * seg_len (op \<noteq> None)"
      using "1.prems"(5) k seg_len_pos [of "op \<noteq> None"] by (auto simp: Suc_diff_le min_def)
    then show ?thesis using "1.IH" [OF _ _ _ refl s1 _ "1.prems"(3)] False len step by auto
  qed
qed

lemma seg_tx_init_fields:
  "st_seg (seg_tx_init tc net_tx len cb op bl st tx) = st_seg tx"
  "st_seg_n (seg_tx_init tc net_tx len cb op bl st tx) = word_of_nat ((len - 1) div seg_len (op \<noteq> None))"
  "st_nack_count (seg_tx_init tc net_tx len cb op bl st tx) = word_of_nat ((len - 1) div seg_len (op \<noteq> None)) + 1"
  by (simp_all add: seg_tx_init_def Let_def)

lemma seg_count_small:
  assumes "len \<le> m * seg_len ctl" "0 < m" "m \<le> 32"
  shows "(len - 1) div seg_len ctl < m" "unat (word_of_nat ((len - 1) div seg_len ctl) :: u8) = (len - 1) div seg_len ctl"
    "unat (word_of_nat ((len - 1) div seg_len ctl) + 1 :: u8) = (len - 1) div seg_len ctl + 1"
proof -
  show lt: "(len - 1) div seg_len ctl < m"
    using assms seg_len_pos [of ctl] by (intro less_mult_imp_div_less) (cases len, simp_all)
  then show "unat (word_of_nat ((len - 1) div seg_len ctl) :: u8) = (len - 1) div seg_len ctl" using assms(3) by (simp add: unat_word_small)
  then show "unat (word_of_nat ((len - 1) div seg_len ctl) + 1 :: u8) = (len - 1) div seg_len ctl + 1"
    using lt assms(3) by (simp add: unat_word_ariths)
qed

lemma seg_count_enough: "len \<le> ((len - 1) div seg_len ctl + 1) * seg_len ctl"
proof -
  have "len - 1 < seg_len ctl + seg_len ctl * ((len - 1) div seg_len ctl)"
    using dividend_less_times_div [OF seg_len_pos] by simp
  then show ?thesis by (simp add: algebra_simps)
qed

definition trans_cfg_ok :: "trans_cfg \<Rightarrow> bool" where
  "trans_cfg_ok tc \<longleftrightarrow> 0 < tc_tx_seg_max tc \<and> tc_tx_seg_max tc \<le> 32 \<and> 0 < tc_rx_seg_max tc \<and> tc_rx_seg_max tc \<le> 32"

lemma seg_tx_init_inv:
  assumes inv: "trans_inv tc a b n s" and i: "i < a" "st_nack_count (ts_tx s ! i) = 0"
    and cfg: "trans_cfg_ok tc" and len: "len \<le> tc_tx_seg_max tc * seg_len (op \<noteq> None)"
    and s1_def: "s1 = upd_tx i (seg_tx_init tc net_tx len cb op bl st) s"
  shows "trans_inv tc a b n s1" "tx_filling tc 0 (ts_tx s1 ! i)" "unat (st_seg_n (ts_tx s1 ! i)) = (len - 1) div seg_len (op \<noteq> None)"
proof -
  note ok0 = trans_inv_tx [OF inv i(1)]
  have zero: "blocks (st_seg (ts_tx s ! i)) = 0" using ok0 i(2) by (simp add: tx_ok_def)
  then have none: "st_seg (ts_tx s ! i) ! k = None" if "k < length (st_seg (ts_tx s ! i))" for k using that by (simp add: blocks_zero_iff)
  note sc = seg_count_small [OF len]
  have len_i: "i < length (ts_tx s)" using trans_inv_len [OF inv] i(1) by simp
  have nth: "ts_tx s1 ! i = seg_tx_init tc net_tx len cb op bl st (ts_tx s ! i)" using len_i by (simp add: s1_def tx_table.ctxs_nth)
  have "trans_inv tc a b n ((upd_tx i (seg_tx_init tc net_tx len cb op bl st) s)\<lparr>ts_free := ts_free s\<rparr>)"
    using inv i(1)
    by (rule trans_inv_upd_tx) (use ok0 zero none sc cfg in \<open>simp_all add: tx_ok_def seg_tx_init_fields trans_cfg_ok_def\<close>)
  then show "trans_inv tc a b n s1" by (simp only: s1_def free_self)
  show "tx_filling tc 0 (ts_tx s1 ! i)" "unat (st_seg_n (ts_tx s1 ! i)) = (len - 1) div seg_len (op \<noteq> None)"
    using zero none sc cfg by (simp_all add: nth tx_filling_def seg_tx_init_fields trans_cfg_ok_def)
qed

lemma send_seg_filled_inv:
  assumes "send_seg_filled tc te i cb bl s = Some (err, s')" "trans_inv tc' a b n s" "i < a"
  shows "trans_inv tc' a b n s'"
  using assms
  by (auto simp: send_seg_filled_def bind_eq_Some_conv split: if_splits
      intro: trans_inv_frame [OF seg_tx_reset_inv] trans_inv_frame [OF seg_tx_send_unacked_inv] trans_inv_frame [OF _ same_slab_set_net]
        seg_tx_send_unacked_inv)

lemma send_seg_inv:
  assumes "send_seg tc te net_tx sdu cb op s = Some (err, s')" "trans_inv tc a b n s" "trans_cfg_ok tc"
    and "length sdu \<le> tc_tx_seg_max tc * seg_len (op \<noteq> None)"
  shows "trans_inv tc a b n s'"
proof (cases "find_index (\<lambda>tx. st_nack_count tx = 0) (ts_tx s)")
  case None
  then show ?thesis using assms by (simp add: send_seg_def Let_def)
next
  case (Some i)
  let ?bl = "\<exists>tx \<in> set (ts_tx s). st_nack_count tx \<noteq> 0 \<and> seg_tx_blocks tx (tx_src net_tx) (ctx_addr (tx_ctx net_tx))"
  define s1 where "s1 = upd_tx i (seg_tx_init tc net_tx (length sdu) cb op ?bl (ts_net s)) s"
  have i: "i < a" "st_nack_count (ts_tx s ! i) = 0" using find_index_Some [OF Some] trans_inv_len [OF assms(2)] by simp_all
  note init = seg_tx_init_inv [OF assms(2) i assms(3,4) s1_def]
  have fill: "length sdu \<le> (unat (st_seg_n (ts_tx s1 ! i)) + 1 - 0) * seg_len (op \<noteq> None)"
    using seg_count_enough init(3) by simp
  have eq: "send_seg tc te net_tx sdu cb op s =
    (if cfg_friend (tc_mesh tc) \<and> \<not> te_friend_space te (sn_net_idx (ks_subnets (ts_keys s1) ! tx_sub net_tx)) (tx_src net_tx) (ctx_addr (tx_ctx net_tx))
          (Some (st_seq_auth (ts_tx s1 ! i))) (unat (st_seg_n (ts_tx s1 ! i)) + 1) \<and> BT_MESH_ADDR_IS_UNICAST (ctx_addr (tx_ctx net_tx))
     then map_option (Pair (Some ENOBUFS)) (seg_tx_reset tc te i s1)
     else case seg_fill_loop tc te i net_tx op 0 sdu s1 of None \<Rightarrow> None
     | Some r \<Rightarrow> if fst r \<noteq> None then Some r else send_seg_filled tc te i cb ?bl (snd r))"
    using Some by (simp add: send_seg_def Let_def map_conv_bind_option comp_def case_prod_unfold flip: s1_def split: option.split)
  show ?thesis
  proof (cases "seg_fill_loop tc te i net_tx op 0 sdu s1")
    case None
    then show ?thesis using assms(1) seg_tx_reset_inv [OF _ init(1) i(1)] by (auto simp: eq split: if_splits)
  next
    case (Some r)
    then have "trans_inv tc a b n (snd r)" using seg_fill_loop_inv [OF _ init(1) i(1) init(2) fill] by (metis prod.collapse)
    then show ?thesis using Some assms(1) seg_tx_reset_inv [OF _ init(1) i(1)] send_seg_filled_inv [OF _ _ i(1)] by (auto simp: eq split: if_splits)
  qed
qed

section \<open>Messages that do not fit\<close>

text \<open>A message with more segments than a context has slots is always written past its array.\<close>

lemma seg_tx_free_loop_overflow:
  assumes "i < length (ts_tx s)" "j \<le> length (st_seg (ts_tx s ! i))" "length (st_seg (ts_tx s ! i)) < m"
    and "blocks (st_seg (ts_tx s ! i)) < unat (st_nack_count (ts_tx s ! i))"
  shows "seg_tx_free_loop i [j..<m] s = None"
  using assms
proof (induction "m - j" arbitrary: j s)
  case (Suc d)
  then have upt: "[j..<m] = j # [Suc j..<m]" by (simp add: upt_conv_Cons)
  have nz: "st_nack_count (ts_tx s ! i) \<noteq> 0" using Suc.prems(4) by auto
  show ?case
  proof (cases "j = length (st_seg (ts_tx s ! i))")
    case True
    then have "length (st_seg (ts_tx s ! i)) \<le> j" by simp
    then show ?thesis using nz by (simp only: upt seg_tx_free_loop.simps if_False if_True)
  next
    case False
    then have j: "j < length (st_seg (ts_tx s ! i))" using Suc.prems(2) by simp
    show ?thesis
    proof (cases "st_seg (ts_tx s ! i) ! j = None")
      case True
      then show ?thesis using Suc.hyps(1) [of "Suc j" s] Suc.hyps(2) Suc.prems j nz by (simp add: upt)
    next
      case False
      let ?s = "seg_tx_done i j s"
      have nth: "ts_tx ?s ! i = (ts_tx s ! i)\<lparr>st_seg := (st_seg (ts_tx s ! i))[j := None], st_nack_count := st_nack_count (ts_tx s ! i) - 1\<rparr>"
        using Suc.prems(1) by (rule seg_tx_done_nth)
      have "blocks ((st_seg (ts_tx s ! i))[j := None]) + 1 = blocks (st_seg (ts_tx s ! i))" using blocks_update [OF j, of None] False by simp
      then have "seg_tx_free_loop i [Suc j..<m] ?s = None"
        using Suc.hyps(2) Suc.prems j nz by (intro Suc.hyps(1)) (simp_all add: nth unat_minus_one)
      then show ?thesis using j nz False by (auto simp: upt)
    qed
  qed
qed simp

lemma seg_tx_reset_overflow:
  assumes "i < length (ts_tx s)" "length (st_seg (ts_tx s ! i)) \<le> unat (st_seg_n (ts_tx s ! i))"
    and "blocks (st_seg (ts_tx s ! i)) < unat (st_nack_count (ts_tx s ! i))"
  shows "seg_tx_reset tc te i s = None"
  using assms seg_tx_free_loop_overflow [of i "upd_tx i (\<lambda>tx. tx\<lparr>st_retransmit := None, st_cb := None, st_seq_auth := 0, st_sub := None,
                st_src := BT_MESH_ADDR_UNASSIGNED, st_dst := BT_MESH_ADDR_UNASSIGNED, st_blocked := False\<rparr>) s" 0]
  by (simp add: seg_tx_reset_def Let_def tx_table.ctxs_nth del: upt_Suc)

lemma seg_fill_loop_overflow:
  assumes "i < length (ts_tx s)" "tx_filling tc' k (ts_tx s ! i)" "k \<le> length (st_seg (ts_tx s ! i))"
    and "length (st_seg (ts_tx s ! i)) \<le> unat (st_seg_n (ts_tx s ! i))"
    and "(length (st_seg (ts_tx s ! i)) - k) * seg_len (op \<noteq> None) < length sdu"
  shows "seg_fill_loop tc te i net_tx op k sdu s = None"
  using assms
proof (induction tc te i net_tx op k sdu s rule: seg_fill_loop.induct)
  case (1 tc te i net_tx op k sdu s)
  let ?len = "min (length sdu) (seg_len (op \<noteq> None))"
  have sdu: "sdu \<noteq> []" using "1.prems"(5) by auto
  consider "ts_free s = 0" | "ts_free s \<noteq> 0" "length (st_seg (ts_tx s ! i)) \<le> k" | "ts_free s \<noteq> 0" "k < length (st_seg (ts_tx s ! i))"
    by linarith
  then show ?case
  proof cases
    case 1
    have "seg_tx_reset tc te i s = None" using "1.prems" by (intro seg_tx_reset_overflow) (auto simp: tx_filling_def)
    then show ?thesis using 1 sdu by (simp add: seg_fill_loop.simps [of _ _ _ _ _ _ sdu])
  next
    case 2
    then show ?thesis using sdu by (simp add: seg_fill_loop.simps [of _ _ _ _ _ _ sdu])
  next
    case 3
    have "seg_fill_loop tc te i net_tx op (k + 1) (drop ?len sdu) s1 = None" if s1: "seg_fill tc te i net_tx op k (take ?len sdu) s = Some s1" for s1
    proof -
      from s1 "1.prems"(1) 3(1) obtain v where v: "ts_tx s1 = (ts_tx s)[i := (ts_tx s ! i)\<lparr>st_seg := (st_seg (ts_tx s ! i))[k := v]\<rparr>]"
        by (rule seg_fill_result)
      have "(length (st_seg (ts_tx s ! i)) - (k + 1)) * seg_len (op \<noteq> None) < length (drop ?len sdu)"
        using "1.prems"(5) 3(2) by (auto simp: Suc_diff_Suc [symmetric] min_def)
      then show ?thesis using "1.prems" 3 v tx_filling_step [OF "1.prems"(2) 3(2), of v] sdu
        by (intro "1.IH" [OF _ _ _ refl s1]) simp_all
    qed
    then show ?thesis using 3 sdu by (cases "seg_fill tc te i net_tx op k (take ?len sdu) s") (simp_all add: seg_fill_loop.simps [of _ _ _ _ _ _ sdu] Let_def)
  qed
qed

lemma send_seg_overflow:
  assumes inv: "trans_inv tc a b n s" and cfg: "trans_cfg_ok tc" and len: "tc_tx_seg_max tc * seg_len (op \<noteq> None) < length sdu" "length sdu \<le> 255 * seg_len (op \<noteq> None)"
  shows "send_seg tc te net_tx sdu cb op s =
    (if \<exists>tx \<in> set (ts_tx s). st_nack_count tx = 0 then None else Some (Some EBUSY, s))"
proof (cases "find_index (\<lambda>tx. st_nack_count tx = 0) (ts_tx s)")
  case None
  then have "\<not> (\<exists>tx \<in> set (ts_tx s). st_nack_count tx = 0)" by (simp add: find_index_None)
  then show ?thesis using None by (simp add: send_seg_def Let_def)
next
  case (Some i)
  note fi = find_index_Some [OF Some]
  let ?bl = "\<exists>tx \<in> set (ts_tx s). st_nack_count tx \<noteq> 0 \<and> seg_tx_blocks tx (tx_src net_tx) (ctx_addr (tx_ctx net_tx))"
  define s1 where "s1 = upd_tx i (seg_tx_init tc net_tx (length sdu) cb op ?bl (ts_net s)) s"
  let ?q = "(length sdu - 1) div seg_len (op \<noteq> None)"
  have i: "i < length (ts_tx s1)" "i < a" using fi trans_inv_len [OF inv] by (simp_all add: s1_def)
  note ok0 = trans_inv_tx [OF inv i(2)]
  have zero: "blocks (st_seg (ts_tx s ! i)) = 0" using ok0 fi by (simp add: tx_ok_def)
  then have none: "st_seg (ts_tx s ! i) ! k = None" if "k < length (st_seg (ts_tx s ! i))" for k using that by (simp add: blocks_zero_iff)
  have nth: "ts_tx s1 ! i = seg_tx_init tc net_tx (length sdu) cb op ?bl (ts_net s) (ts_tx s ! i)" using fi by (simp add: s1_def tx_table.ctxs_nth)
  have q: "tc_tx_seg_max tc \<le> ?q" "?q < 255"
    using len seg_len_pos [of "op \<noteq> None"] by (simp add: less_eq_div_iff_mult_less_eq, intro less_mult_imp_div_less, cases sdu, simp_all)
  have unats: "unat (word_of_nat ?q :: u8) = ?q" "unat (word_of_nat ?q + 1 :: u8) = ?q + 1"
    using q by (simp_all add: unat_word_small unat_word_ariths)
  have fill: "tx_filling tc 0 (ts_tx s1 ! i)" using zero none unats by (simp add: nth tx_filling_def seg_tx_init_fields)
  have lens: "length (st_seg (ts_tx s1 ! i)) = tc_tx_seg_max tc" "length (st_seg (ts_tx s1 ! i)) \<le> unat (st_seg_n (ts_tx s1 ! i))"
    using ok0 q unats by (simp_all add: nth seg_tx_init_fields tx_ok_def)
  have "seg_fill_loop tc te i net_tx op 0 sdu s1 = None" using seg_fill_loop_overflow [OF i(1) fill _ lens(2)] len lens by simp
  moreover have "seg_tx_reset tc te i s1 = None" using seg_tx_reset_overflow [OF i(1) lens(2)] fill by (simp add: tx_filling_def)
  moreover have "\<exists>tx \<in> set (ts_tx s). st_nack_count tx = 0" using fi by (meson nth_mem)
  ultimately show ?thesis using Some by (simp add: send_seg_def Let_def flip: s1_def)
qed

section \<open>The sending interface\<close>

lemma bt_mesh_app_encrypt_len: "bt_mesh_app_encrypt key ctx buf = Some (None, buf') \<Longrightarrow> nb_len buf' = nb_len buf + APP_MIC_LEN (ac_aszmic ctx)"
  by (auto simp: bt_mesh_app_encrypt_def Let_def bind_eq_Some_conv nb_defs nb_set_from_def split: prod.splits if_splits)

lemma length_nb_bytes_le: "length (nb_bytes b) \<le> nb_len b"
  by (simp add: nb_bytes_def nb_read_def)

lemma APP_MIC_LEN_le: "APP_MIC_LEN a \<le> 8"
  by (simp add: APP_MIC_LEN_def)

lemma send_seg_any_inv:
  assumes "send_seg tc te net_tx sdu cb op s = Some (err, s')" "trans_inv tc a b n s" "trans_cfg_ok tc" "length sdu \<le> 255 * seg_len (op \<noteq> None)"
  shows "trans_inv tc a b n s'"
proof (cases "length sdu \<le> tc_tx_seg_max tc * seg_len (op \<noteq> None)")
  case True
  show ?thesis by (rule send_seg_inv [OF assms(1-3) True])
next
  case False
  then have "tc_tx_seg_max tc * seg_len (op \<noteq> None) < length sdu" by simp
  from send_seg_overflow [OF assms(2,3) this assms(4)] show ?thesis using assms(1,2) by (simp split: if_splits)
qed

lemma trans_send_keyed_inv:
  assumes "trans_send_keyed tc te tx key msg cb s = Some (err, s')" "trans_inv tc a b n s" "trans_cfg_ok tc" "nb_len msg \<le> BT_MESH_TX_SDU_MAX tc"
  shows "trans_inv tc a b n s'"
proof -
  define tx' where "tx' = tx\<lparr>tx_aszmic := ctx_send_rel (tx_ctx tx) \<and> \<not> net_buf_simple_tailroom msg < 8\<rparr>"
  from assms(1) obtain e m where m: "trans_encrypt tx' key msg s = Some (e, m)"
    and res: "(if e \<noteq> None then Some (e, s) else if ctx_send_rel (tx_ctx tx') then send_seg tc te tx' (nb_bytes m) cb None s
       else send_unseg tc te tx' (nb_bytes m) cb None s) = Some (err, s')"
    by (auto simp: trans_send_keyed_def Let_def bind_eq_Some_conv simp flip: tx'_def)
  show ?thesis
  proof (cases e)
    case None
    then have "nb_len m \<le> nb_len msg + 8" using m APP_MIC_LEN_le by (auto simp: trans_encrypt_def dest!: bt_mesh_app_encrypt_len)
    then have "length (nb_bytes m) \<le> 255 * seg_len (None \<noteq> (None :: u8 option))"
      using length_nb_bytes_le [of m] assms(3,4)
      by (simp add: BT_MESH_TX_SDU_MAX_def BT_MESH_APP_SEG_SDU_MAX_def seg_len_def trans_cfg_ok_def)
    then show ?thesis using res None send_seg_any_inv [OF _ assms(2,3)] trans_inv_frame [OF assms(2) send_unseg_slab]
      by (simp split: if_splits)
  qed (use res assms(2) in simp)
qed

lemma bt_mesh_trans_send_inv:
  assumes "bt_mesh_trans_send tc te tx msg cb s = Some (err, s')" "trans_inv tc a b n s" "trans_cfg_ok tc"
  shows "trans_inv tc a b n s'"
  using assms(1,2) trans_send_keyed_inv [OF _ assms(2,3)]
  unfolding bt_mesh_trans_send_def by (simp add: Let_def split: if_splits sum.splits prod.splits)

lemma bt_mesh_ctl_send_inv:
  assumes "bt_mesh_ctl_send tc te tx op dat cb s = Some (err, s')" "trans_inv tc a b n s" "trans_cfg_ok tc" "length dat \<le> 255 * BT_MESH_CTL_SEG_SDU_MAX"
  shows "trans_inv tc a b n s'"
proof -
  have len: "length dat \<le> 255 * seg_len (Some op \<noteq> None)" using assms(4) by (simp add: seg_len_def)
  show ?thesis using assms(1,2) send_seg_any_inv [OF _ assms(2,3) len] trans_inv_frame [OF assms(2) send_unseg_slab]
    unfolding bt_mesh_ctl_send_def by (simp add: Let_def split: if_splits)
qed

lemma length_ack_payload [simp]: "length (ack_payload seq_auth block obo) = 6"
  by (simp add: ack_payload_def)

lemma send_ack_slab: "send_ack tc te sub src dst ttl seq_auth block obo s = Some s' \<Longrightarrow> same_slab s s'"
  by (auto simp: send_ack_def bt_mesh_ctl_send_def Let_def bind_eq_Some_conv BT_MESH_SDU_UNSEG_MAX_def split: if_splits dest!: send_unseg_slab)

end
