(* ===== verification/Mesh_Seg_Inv.thy ===== *)
theory Mesh_Seg_Inv
  imports Mesh_Seg_Slab Mesh_Net_Path Mesh_Keys
begin

text \<open>
  Reception keeps the segment buffers accounted for as well, and with it every sequence of
  calls and timer events of the transport layer.
\<close>

section \<open>Acknowledgements\<close>

lemma seg_tx_lookup_inv:
  assumes "seg_tx_lookup seq_zero obo addr s = Some (i, s')" "trans_inv tc a b n s"
  shows "trans_inv tc a b n s'" "i < a"
  using assms find_index_Some [of "ack_matches seq_zero obo addr" "ts_tx s" i] trans_inv_len [OF assms(2)]
  by (auto simp: seg_tx_lookup_def soft_tx_def split: option.splits intro!: trans_inv_soft_tx)

lemma ack_loop_inv: "ack_loop i ack ks s = Some s' \<Longrightarrow> trans_inv tc a b n s \<Longrightarrow> i < a \<Longrightarrow> trans_inv tc a b n s'"
proof (induction ks arbitrary: s)
  case (Cons k ks)
  have "trans_inv tc a b n (seg_tx_done i k s)" if "k < length (st_seg (ts_tx s ! i))" "st_seg (ts_tx s ! i) ! k \<noteq> None"
    using Cons.prems(2,3) that by (rule trans_inv_done)
  then show ?case using Cons by (auto split: if_splits)
qed simp

lemma trans_ack_inv:
  assumes "trans_ack tc' te rx buf sa s = Some (err, sa', s')" "trans_inv tc a b n s"
  shows "trans_inv tc a b n s'"
proof (cases "seg_tx_lookup (drop_bit 2 (sys_get_be16 buf) AND ucast TRANS_SEQ_ZERO_MASK) (drop_bit 15 (sys_get_be16 buf) \<noteq> 0) (rx_addr rx) s")
  case None
  then show ?thesis using assms by (simp add: trans_ack_def Let_def split: if_splits)
next
  case (Some r)
  obtain i s1 where r: "r = (i, s1)" by (cases r)
  note look = seg_tx_lookup_inv [OF Some [unfolded r] assms(2)]
  have soft: "trans_inv tc a b n (upd_tx i (\<lambda>tx. tx\<lparr>st_retransmit := Some 0\<rparr>) u)" if "trans_inv tc a b n u" for u
    using that look(2) by (rule trans_inv_soft_tx) (simp add: soft_tx_def)
  show ?thesis
    using assms Some look unfolding trans_ack_def r
    by (simp add: Let_def bind_eq_Some_conv split: if_splits del: upt_Suc)
       (metis soft ack_loop_inv seg_tx_complete_inv)+
qed

section \<open>Delivery\<close>

lemma ctl_handle_slab: "same_slab s (snd (ctl_handle te op buf s))"
  by (simp add: ctl_handle_def)

lemma ctl_recv_inv:
  assumes "ctl_recv tc' te rx hdr buf sa s = Some (err, sa', s')" "trans_inv tc a b n s"
  shows "trans_inv tc a b n s'"
  using assms trans_ack_inv [OF _ assms(2)] trans_inv_frame [OF assms(2) ctl_handle_slab [of s te "TRANS_CTL_OP hdr" buf]]
  by (auto simp: ctl_recv_def Let_def case_prod_unfold split: if_splits)

lemma sdu_recv_slab: "sdu_recv tc te rx hdr aszmic buf sdu seg s = Some (err, rx', s') \<Longrightarrow> same_slab s s'"
  by (auto simp: sdu_recv_def Let_def bind_eq_Some_conv split: if_splits prod.splits)

lemma set_rpl_slab [simp]: "same_slab s (set_rpl r s)"
  by (simp add: set_rpl_def)

lemma trans_rpl_check_slab: "trans_rpl_check tc rx m s = (replay, slot, s') \<Longrightarrow> same_slab s s'"
  by (auto simp: trans_rpl_check_def split: prod.splits)

lemma trans_rpl_done_slab [simp]: "same_slab s (trans_rpl_done tc i rx s)"
  by (simp add: trans_rpl_done_def)

lemma rpl_complete_slab [simp]: "same_slab s (rpl_complete tc rpl rx sa s)"
  by (auto simp: rpl_complete_def Let_def split: option.split intro: same_slab_trans [OF trans_rpl_done_slab set_rpl_slab])

lemma trans_unseg_inv:
  assumes "trans_unseg tc' te buf rx sa s = Some (err, rx', sa', s')" "trans_inv tc a b n s"
  shows "trans_inv tc a b n s'"
proof -
  obtain replay slot s1 where c: "trans_rpl_check tc' rx False s = (replay, slot, s1)" by (cases "trans_rpl_check tc' rx False s")
  have inv: "trans_inv tc a b n s1" using assms(2) trans_rpl_check_slab [OF c] by (rule trans_inv_frame)
  show ?thesis using assms inv unfolding trans_unseg_def c
    by (auto simp: bind_eq_Some_conv split: if_splits intro: ctl_recv_inv trans_inv_frame [OF inv sdu_recv_slab])
qed

section \<open>Receiving contexts\<close>

text \<open>What freeing the segments of a context changes.\<close>

lemma seg_rx_free_loop_result:
  assumes "seg_rx_free_loop i ks s = Some s'" "i < length (ts_rx s)"
  shows "ts_rx s' = (ts_rx s)[i := (ts_rx s ! i)\<lparr>sr_seg := sr_seg (ts_rx s' ! i)\<rparr>] \<and> ts_tx s' = ts_tx s \<and>
    ts_free s' + blocks (sr_seg (ts_rx s' ! i)) = ts_free s + blocks (sr_seg (ts_rx s ! i)) \<and>
    length (sr_seg (ts_rx s' ! i)) = length (sr_seg (ts_rx s ! i)) \<and>
    (\<forall>k < length (sr_seg (ts_rx s ! i)). sr_seg (ts_rx s' ! i) ! k = (if k \<in> set ks then None else sr_seg (ts_rx s ! i) ! k))"
  using assms
proof (induction ks arbitrary: s)
  case (Cons k ks)
  show ?case
  proof (cases "sr_seg (ts_rx s ! i) ! k = None")
    case True
    then show ?thesis using Cons by (auto split: if_splits)
  next
    case False
    define s1 where "s1 = (upd_rx i (\<lambda>rx. rx\<lparr>sr_seg := (sr_seg rx)[k := None]\<rparr>) s)\<lparr>ts_free := ts_free s + 1\<rparr>"
    from Cons.prems False have loop: "seg_rx_free_loop i ks s1 = Some s'" and k: "k < length (sr_seg (ts_rx s ! i))"
      by (auto simp: s1_def split: if_splits)
    have s1: "ts_rx s1 = (ts_rx s)[i := (ts_rx s ! i)\<lparr>sr_seg := (sr_seg (ts_rx s ! i))[k := None]\<rparr>]" "ts_tx s1 = ts_tx s" "ts_free s1 = ts_free s + 1"
      by (simp_all add: s1_def rx_table.ctxs_upd)
    have "blocks ((sr_seg (ts_rx s ! i))[k := None]) + 1 = blocks (sr_seg (ts_rx s ! i))" using blocks_update [OF k, of None] False by auto
    then show ?thesis using Cons.IH [OF loop] Cons.prems(2) k by (auto simp: s1 nth_list_update)
  qed
qed simp

lemma seg_rx_reset_inv:
  assumes "seg_rx_reset tc' i full s = Some s'" "trans_inv tc a b n s" "i < b"
  shows "trans_inv tc a b n s'" "\<not> sr_in_use (ts_rx s' ! i)"
proof -
  define s1 where "s1 = (let s1 = upd_rx i (\<lambda>rx. rx\<lparr>sr_ack := None\<rparr>) s; rx = ts_rx s ! i
    in if cfg_friend (tc_mesh tc') \<and> sr_obo rx \<and> sr_block rx \<noteq> BLOCK_COMPLETE (unat (sr_seg_n rx))
       then trans_output (Friend_clear_incomplete (sr_sub rx) (sr_src rx) (sr_dst rx) (sr_seq_auth rx)) s1 else s1)"
  have i: "i < length (ts_rx s)" using trans_inv_len [OF assms(2)] assms(3) by simp
  have s1: "ts_rx s1 = (ts_rx s)[i := (ts_rx s ! i)\<lparr>sr_ack := None\<rparr>]" "ts_tx s1 = ts_tx s" "ts_free s1 = ts_free s"
    by (simp_all add: s1_def Let_def trans_output_def upd_rx_def)
  note rx = trans_inv_rx [OF assms(2,3)]
  from assms(1) obtain s2 where s2: "seg_rx_free_loop i [0..<unat (sr_seg_n (ts_rx s ! i)) + 1] s1 = Some s2"
    and s': "s' = (let s3 = upd_rx i (\<lambda>rx. rx\<lparr>sr_in_use := False\<rparr>) s2 in if full then upd_rx i (\<lambda>rx. rx\<lparr>sr_seq_auth := 0, sr_sub := None,
        sr_src := BT_MESH_ADDR_UNASSIGNED, sr_dst := BT_MESH_ADDR_UNASSIGNED\<rparr>) s3 else s3)"
    unfolding seg_rx_reset_def Let_def by (auto simp: bind_eq_Some_conv s1_def Let_def simp del: upt_Suc)
  have i1: "i < length (ts_rx s1)" using i s1 by simp
  define segs where "segs = sr_seg (ts_rx s2 ! i)"
  note loop = seg_rx_free_loop_result [OF s2 i1, folded segs_def]
  have zero: "blocks segs = 0"
    using loop rx i unfolding blocks_zero_iff by (auto simp: s1 rx_ok_def less_Suc_eq_le simp del: upt_Suc)
  define rx' where "rx' = (if full then (ts_rx s ! i)\<lparr>sr_ack := None, sr_seg := segs, sr_in_use := False, sr_seq_auth := 0, sr_sub := None,
        sr_src := BT_MESH_ADDR_UNASSIGNED, sr_dst := BT_MESH_ADDR_UNASSIGNED\<rparr> else (ts_rx s ! i)\<lparr>sr_ack := None, sr_seg := segs, sr_in_use := False\<rparr>)"
  have s2rx: "ts_rx s2 = (ts_rx s)[i := (ts_rx s ! i)\<lparr>sr_ack := None, sr_seg := segs\<rparr>]" "ts_tx s2 = ts_tx s" "ts_free s2 = ts_free s + blocks (sr_seg (ts_rx s ! i))"
    using loop i zero by (simp_all add: s1)
  have fin: "ts_rx s' = (ts_rx s)[i := rx']" "ts_tx s' = ts_tx s" "ts_free s' = ts_free s + blocks (sr_seg (ts_rx s ! i))"
    using s2rx i by (simp_all add: rx'_def s' Let_def rx_table.ctxs_upd)
  have rx'_fields: "sr_seg rx' = segs" "\<not> sr_in_use rx'" "sr_seg_n rx' = sr_seg_n (ts_rx s ! i)"
    by (simp_all add: rx'_def)
  have len: "length segs = length (sr_seg (ts_rx s ! i))" using loop i by (simp add: s1)
  have ok': "rx_ok tc rx'" using rx zero len by (auto simp: rx_ok_def rx'_fields blocks_zero_iff)
  have "trans_inv tc a b n ((upd_rx i (\<lambda>_. rx') s)\<lparr>ts_free := ts_free s'\<rparr>)"
    using assms(2,3) by (rule trans_inv_upd_rx) (use ok' zero fin rx'_fields in simp_all)
  then show "trans_inv tc a b n s'" by (rule trans_inv_frame) (simp add: same_slab_def upd_rx_def fin)
  show "\<not> sr_in_use (ts_rx s' ! i)" using rx'_fields i by (simp add: fin)
qed

lemma seg_rx_find_inv:
  "seg_rx_find tc' net_rx sa is s = Some (r, s') \<Longrightarrow> trans_inv tc a b n s \<Longrightarrow> set is \<subseteq> {..<b} \<Longrightarrow>
   trans_inv tc a b n s' \<and> (\<forall>i. r = Some i \<longrightarrow> i < b)"
proof (induction "is" arbitrary: s)
  case (Cons i "is")
  then show ?case using seg_rx_reset_inv(1) [OF _ Cons.prems(2), of tc' i True s'] by (auto simp: Let_def bind_eq_Some_conv split: if_splits)
qed simp

lemma seg_rx_alloc_inv:
  assumes "seg_rx_alloc net_rx hdr sa seg_n s = (r, s')" "trans_inv tc a b n s" "trans_cfg_ok tc" "seg_n < tc_rx_seg_max tc"
  shows "trans_inv tc a b n s' \<and> (\<forall>i. r = Some i \<longrightarrow> i < b \<and> sr_in_use (ts_rx s' ! i) \<and> unat (sr_seg_n (ts_rx s' ! i)) = seg_n \<and> sr_block (ts_rx s' ! i) = 0)"
proof (cases "find_index (\<lambda>rx. \<not> sr_in_use rx) (ts_rx s)")
  case None
  then show ?thesis using assms by (auto simp: seg_rx_alloc_def split: if_splits)
next
  case (Some i)
  note fi = find_index_Some [OF Some]
  have i: "i < b" using fi trans_inv_len [OF assms(2)] by simp
  note rx = trans_inv_rx [OF assms(2) i]
  let ?f = "\<lambda>rx. rx\<lparr>sr_in_use := True, sr_sub := Some (rx_sub net_rx), sr_ctl := rx_ctl net_rx, sr_seq_auth := sa,
            sr_seg_n := word_of_nat seg_n, sr_hdr := hdr, sr_ttl := ctx_send_ttl (rx_ctx net_rx), sr_src := rx_addr net_rx,
            sr_dst := ctx_recv_dst (rx_ctx net_rx), sr_block := 0\<rparr>"
  have n: "unat (word_of_nat seg_n :: 5 word) = seg_n" using assms(3,4) by (simp add: trans_cfg_ok_def unat_of_nat)
  have ok': "rx_ok tc (?f (ts_rx s ! i))" using rx fi assms(4) n by (auto simp: rx_ok_def)
  have "trans_inv tc a b n ((upd_rx i ?f s)\<lparr>ts_free := ts_free s\<rparr>)"
    using assms(2) i by (rule trans_inv_upd_rx) (use ok' in simp_all)
  then have "trans_inv tc a b n (upd_rx i ?f s)" by (simp only: free_self)
  then show ?thesis using assms(1,2) Some i n fi by (auto simp: seg_rx_alloc_def rx_table.ctxs_nth split: if_splits)
qed

section \<open>A received segment\<close>

lemma unat_u5: "unat (x :: 5 word) < 32"
  using unsigned_less [of x, where 'a = nat] by simp

lemma rx_ok_store:
  assumes "rx_ok tc rx" "sr_in_use rx" "k \<le> unat (sr_seg_n rx)" "seg_size_ok rx k dat"
  shows "rx_ok tc (rx\<lparr>sr_seg := (sr_seg rx)[k := Some dat], sr_block := set_bit k (sr_block rx)\<rparr>)"
proof -
  have k: "k < length (sr_seg rx)" "k < 32" using assms(1,3) unat_u5 [of "sr_seg_n rx"] by (simp_all add: rx_ok_def)
  show ?thesis using assms k by (auto simp: rx_ok_def seg_size_ok_def bit_set_bit_iff nth_list_update split: if_splits)
qed

lemma seg_rx_store_inv:
  assumes "trans_inv tc a b n s" "i < b" "ts_free s \<noteq> 0" "sr_in_use (ts_rx s ! i)" "k \<le> unat (sr_seg_n (ts_rx s ! i))"
    and "\<not> bit (sr_block (ts_rx s ! i)) k" "seg_size_ok (ts_rx s ! i) k dat"
  shows "trans_inv tc a b n (seg_rx_store i k dat s)"
proof -
  note rx = trans_inv_rx [OF assms(1,2)]
  have k: "k < length (sr_seg (ts_rx s ! i))" using rx assms(5) by (simp add: rx_ok_def)
  then have "sr_seg (ts_rx s ! i) ! k = None" using rx assms(6) by (auto simp: rx_ok_def)
  then have "blocks ((sr_seg (ts_rx s ! i))[k := Some dat]) = blocks (sr_seg (ts_rx s ! i)) + 1" using blocks_update [OF k, of "Some dat"] by simp
  then show ?thesis unfolding seg_rx_store_def using assms(1,2)
    by (intro trans_inv_upd_rx) (use rx_ok_store [OF rx assms(4,5,7)] assms(3) in simp_all)
qed

lemma seg_rx_len_inv:
  assumes "trans_inv tc a b n s" "i < b" "\<not> bit (sr_block (ts_rx s ! i)) (unat (sr_seg_n (ts_rx s ! i)))"
  shows "trans_inv tc a b n (upd_rx i (\<lambda>rx. rx\<lparr>sr_len := len\<rparr>) s)"
proof -
  note rx = trans_inv_rx [OF assms(1,2)]
  have "seg_size_ok ((ts_rx s ! i)\<lparr>sr_len := len\<rparr>) k dat"
    if "k < length (sr_seg (ts_rx s ! i))" "sr_seg (ts_rx s ! i) ! k = Some dat" for k dat
  proof -
    have "k \<noteq> unat (sr_seg_n (ts_rx s ! i))" "seg_size_ok (ts_rx s ! i) k dat" using that rx assms(3) by (auto simp: rx_ok_def)
    then show ?thesis by (simp add: seg_size_ok_def)
  qed
  then have "rx_ok tc ((ts_rx s ! i)\<lparr>sr_len := len\<rparr>)" using rx by (auto simp: rx_ok_def)
  then have "trans_inv tc a b n ((upd_rx i (\<lambda>rx. rx\<lparr>sr_len := len\<rparr>) s)\<lparr>ts_free := ts_free s\<rparr>)"
    using assms(1,2) by (intro trans_inv_upd_rx) simp_all
  then show ?thesis by (simp only: free_self)
qed

lemma seg_rx_timers_inv:
  assumes "trans_inv tc a b n s" "i < b"
  shows "trans_inv tc a b n (seg_rx_timers te i s)"
  using assms by (simp add: seg_rx_timers_def Let_def soft_rx_def trans_inv_soft_rx)

lemma seg_rx_timers_fields:
  assumes "i < length (ts_rx s)"
  shows "sr_in_use (ts_rx (seg_rx_timers te i s) ! i) = sr_in_use (ts_rx s ! i)" "sr_seg_n (ts_rx (seg_rx_timers te i s) ! i) = sr_seg_n (ts_rx s ! i)"
    "sr_block (ts_rx (seg_rx_timers te i s) ! i) = sr_block (ts_rx s ! i)" "sr_len (ts_rx (seg_rx_timers te i s) ! i) = sr_len (ts_rx s ! i)"
    "sr_ctl (ts_rx (seg_rx_timers te i s) ! i) = sr_ctl (ts_rx s ! i)" "sr_seg (ts_rx (seg_rx_timers te i s) ! i) = sr_seg (ts_rx s ! i)"
    "ts_free (seg_rx_timers te i s) = ts_free s" "length (ts_rx (seg_rx_timers te i s)) = length (ts_rx s)"
    "sr_obo (ts_rx (seg_rx_timers te i s) ! i) = sr_obo (ts_rx s ! i)" "ts_layer (seg_rx_timers te i s) = ts_layer s"
    "ts_keys (seg_rx_timers te i s) = ts_keys s" "ts_out (seg_rx_timers te i s) = ts_out s"
  using assms by (simp_all add: seg_rx_timers_def Let_def rx_table.ctxs_nth) (simp_all add: upd_rx_def)

lemma trans_send_ack_slab: "trans_send_ack tc te net_rx sa block obo s = Some s' \<Longrightarrow> same_slab s s'"
  by (simp add: trans_send_ack_def send_ack_slab)

lemma seg_rx_deliver_inv:
  assumes "seg_rx_deliver tc' te i hdr net_rx sa s = Some (err, net_rx', sa', s')" "trans_inv tc a b n s" "i < b"
  shows "trans_inv tc a b n s'"
proof -
  from assms(1) obtain s1 where s1: "trans_inv tc a b n s1" "seg_rx_reset tc' i False s1 = Some s'"
    unfolding seg_rx_deliver_def Let_def
    by (auto simp: bind_eq_Some_conv split: if_splits intro: assms(2) dest!: ctl_recv_inv [OF _ assms(2)] trans_inv_frame [OF assms(2) sdu_recv_slab])
  then show ?thesis using assms(3) seg_rx_reset_inv(1) by blast
qed

lemma seg_rx_complete_inv:
  assumes "seg_rx_complete tc' te i hdr rpl net_rx sa s = Some (err, net_rx', sa', s')" "trans_inv tc a b n s" "i < b"
  shows "trans_inv tc a b n s'"
proof -
  let ?s = "upd_rx i (\<lambda>rx. rx\<lparr>sr_ack := None\<rparr>) (rpl_complete tc' rpl net_rx sa s)"
  have "trans_inv tc a b n (rpl_complete tc' rpl net_rx sa s)" using assms(2) rpl_complete_slab by (rule trans_inv_frame)
  then have inv: "trans_inv tc a b n ?s" using assms(3) by (rule trans_inv_soft_rx) (simp add: soft_rx_def)
  from assms(1) obtain s1 where s1: "trans_send_ack tc' te net_rx sa (sr_block (ts_rx ?s ! i)) (sr_obo (ts_rx ?s ! i)) ?s = Some s1"
    "seg_rx_deliver tc' te i hdr net_rx sa s1 = Some (err, net_rx', sa', s')"
    by (auto simp: seg_rx_complete_def Let_def bind_eq_Some_conv)
  have "trans_inv tc a b n s1" using inv trans_send_ack_slab [OF s1(1)] by (rule trans_inv_frame)
  with s1(2) show ?thesis using assms(3) by (rule seg_rx_deliver_inv)
qed

text \<open>The segment fits its context, and what it needs to be stored.\<close>

definition seg_for :: "seg_rx \<Rightarrow> bytes \<Rightarrow> bool" where
  "seg_for rx hdr \<longleftrightarrow> sr_in_use rx \<and> seg_n_of hdr = unat (sr_seg_n rx) \<and> seg_o_of hdr \<le> seg_n_of hdr"

lemma seg_rx_len_fields:
  assumes "i < length (ts_rx s)"
  shows "sr_in_use (ts_rx (seg_rx_len i hdr dat s) ! i) = sr_in_use (ts_rx s ! i)" "sr_seg_n (ts_rx (seg_rx_len i hdr dat s) ! i) = sr_seg_n (ts_rx s ! i)"
    "sr_block (ts_rx (seg_rx_len i hdr dat s) ! i) = sr_block (ts_rx s ! i)" "sr_ctl (ts_rx (seg_rx_len i hdr dat s) ! i) = sr_ctl (ts_rx s ! i)"
    "sr_seg (ts_rx (seg_rx_len i hdr dat s) ! i) = sr_seg (ts_rx s ! i)" "sr_obo (ts_rx (seg_rx_len i hdr dat s) ! i) = sr_obo (ts_rx s ! i)"
    "ts_free (seg_rx_len i hdr dat s) = ts_free s" "length (ts_rx (seg_rx_len i hdr dat s)) = length (ts_rx s)"
    "sr_len (ts_rx (seg_rx_len i hdr dat s) ! i) = (if seg_o_of hdr = seg_n_of hdr
       then word_of_nat (seg_n_of hdr * seg_len (sr_ctl (ts_rx s ! i)) + length dat) else sr_len (ts_rx s ! i))"
    "ts_layer (seg_rx_len i hdr dat s) = ts_layer s" "ts_keys (seg_rx_len i hdr dat s) = ts_keys s" "ts_out (seg_rx_len i hdr dat s) = ts_out s"
  using assms by (simp_all add: seg_rx_len_def rx_table.ctxs_nth) (simp_all add: upd_rx_def)

lemma trans_seg_found_eq:
  assumes "i < length (ts_rx s)"
  shows "trans_seg_found tc te i hdr dat rpl net_rx seq_auth s =
     (let seg_o = seg_o_of hdr; seg_n = seg_n_of hdr; rx = ts_rx s ! i; single = BT_MESH_FRIEND_PDU_SINGLE;
          s1 = seg_rx_len i hdr dat s; s2 = seg_rx_timers te i s1; s3 = seg_rx_store i seg_o dat s2
      in if bit (sr_block rx) seg_o then Some (Some EALREADY, net_rx, single, seq_auth, s)
         else if seg_o \<noteq> seg_n \<and> length dat \<noteq> seg_len (sr_ctl rx) then Some (Some EINVAL, net_rx, single, seq_auth, s)
         else if seg_o = seg_n \<and> BT_MESH_RX_SDU_MAX tc < seg_n * seg_len (sr_ctl rx) + length dat
         then do { s \<leftarrow> trans_send_ack tc te net_rx seq_auth 0 (sr_obo rx) s1; s \<leftarrow> seg_rx_reset tc i True s;
                   Some (Some EMSGSIZE, net_rx, single, seq_auth, s) }
         else if ts_free s = 0 then Some (Some ENOBUFS, net_rx, single, seq_auth, s2)
         else if length (sr_seg rx) \<le> seg_o \<or> BT_MESH_APP_SEG_SDU_MAX < length dat then None
         else if set_bit seg_o (sr_block rx) \<noteq> BLOCK_COMPLETE seg_n then Some (None, net_rx, BT_MESH_FRIEND_PDU_PARTIAL, seq_auth, s3)
         else do {
           (err, net_rx, seq_auth, s) \<leftarrow> seg_rx_complete tc te i hdr rpl net_rx seq_auth s3;
           Some (err, net_rx, BT_MESH_FRIEND_PDU_COMPLETE, seq_auth, s)
         })"
proof -
  note lf = seg_rx_len_fields [OF assms]
  have l: "i < length (ts_rx (seg_rx_len i hdr dat s))" using assms by (simp add: lf)
  note tf = seg_rx_timers_fields [OF l]
  have free: "ts_free (seg_rx_timers te i (seg_rx_len i hdr dat s)) = ts_free s" by (simp add: tf lf)
  have block: "sr_block (ts_rx (seg_rx_store i (seg_o_of hdr) dat (seg_rx_timers te i (seg_rx_len i hdr dat s))) ! i) = set_bit (seg_o_of hdr) (sr_block (ts_rx s ! i))"
    using assms by (simp add: seg_rx_store_def rx_table.ctxs_nth tf lf)
  show ?thesis
    unfolding trans_seg_found_def Let_def free block by (rule refl)
qed

lemma seg_rx_len_inv':
  assumes "trans_inv tc a b n s" "i < b" "seg_for (ts_rx s ! i) hdr" "\<not> bit (sr_block (ts_rx s ! i)) (seg_o_of hdr)"
  shows "trans_inv tc a b n (seg_rx_len i hdr dat s)"
  using assms seg_rx_len_inv [OF assms(1,2)] by (auto simp: seg_rx_len_def seg_for_def)

lemma trans_seg_found_store_inv:
  assumes inv: "trans_inv tc a b n s" "i < b" and cfg: "trans_cfg_ok tc" and hdr: "seg_for (ts_rx s ! i) hdr" "\<not> bit (sr_block (ts_rx s ! i)) (seg_o_of hdr)"
    and len: "seg_o_of hdr = seg_n_of hdr \<or> length dat = seg_len (sr_ctl (ts_rx s ! i))"
      "seg_o_of hdr \<noteq> seg_n_of hdr \<or> seg_n_of hdr * seg_len (sr_ctl (ts_rx s ! i)) + length dat \<le> BT_MESH_RX_SDU_MAX tc"
      "length dat \<le> BT_MESH_APP_SEG_SDU_MAX"
    and free: "ts_free s \<noteq> 0"
  shows "trans_inv tc a b n (seg_rx_store i (seg_o_of hdr) dat (seg_rx_timers te i (seg_rx_len i hdr dat s)))"
proof -
  have i: "i < length (ts_rx s)" using trans_inv_len [OF inv(1)] inv(2) by simp
  have inv1: "trans_inv tc a b n (seg_rx_len i hdr dat s)" using inv hdr by (rule seg_rx_len_inv')
  note lf = seg_rx_len_fields [OF i]
  have l: "i < length (ts_rx (seg_rx_len i hdr dat s))" using i by (simp add: lf)
  note tf = seg_rx_timers_fields [OF l]
  have len16: "unat (word_of_nat (seg_n_of hdr * seg_len (sr_ctl (ts_rx s ! i)) + length dat) :: u16) = seg_n_of hdr * seg_len (sr_ctl (ts_rx s ! i)) + length dat"
    if "seg_o_of hdr = seg_n_of hdr"
    using len(2) that cfg by (simp only: unat_of_nat) (simp add: BT_MESH_RX_SDU_MAX_def BT_MESH_APP_SEG_SDU_MAX_def trans_cfg_ok_def)
  have "seg_size_ok (ts_rx (seg_rx_timers te i (seg_rx_len i hdr dat s)) ! i) (seg_o_of hdr) dat"
    using len hdr(1) len16 by (auto simp: seg_size_ok_def tf lf seg_for_def)
  then show ?thesis
    using seg_rx_timers_inv [OF inv1 inv(2)] inv(2) hdr free
    by (intro seg_rx_store_inv) (simp_all add: seg_for_def tf lf)
qed

lemma trans_seg_found_inv:
  assumes "trans_seg_found tc te i hdr dat rpl net_rx sa s = Some (err, net_rx', kind, sa', s')" "trans_inv tc a b n s" "i < b"
    and "trans_cfg_ok tc" "seg_for (ts_rx s ! i) hdr"
  shows "trans_inv tc a b n s'"
proof (cases "bit (sr_block (ts_rx s ! i)) (seg_o_of hdr)")
  case True
  then show ?thesis using assms(1,2) by (simp add: trans_seg_found_def Let_def)
next
  case False
  have i: "i < length (ts_rx s)" using trans_inv_len [OF assms(2)] assms(3) by simp
  define s1 where "s1 = seg_rx_len i hdr dat s"
  have inv1: "trans_inv tc a b n s1" unfolding s1_def using assms(2,3,5) False by (rule seg_rx_len_inv')
  have inv2: "trans_inv tc a b n (seg_rx_timers te i s1)" using inv1 assms(3) by (rule seg_rx_timers_inv)
  define s3 where "s3 = seg_rx_store i (seg_o_of hdr) dat (seg_rx_timers te i s1)"
  have reset: "trans_inv tc a b n u'" if "trans_send_ack tc te net_rx sa 0 (sr_obo (ts_rx s ! i)) s1 = Some u" "seg_rx_reset tc i True u = Some u'" for u u'
    using seg_rx_reset_inv(1) [OF that(2) trans_inv_frame [OF inv1 trans_send_ack_slab [OF that(1)]] assms(3)] .
  consider "seg_o_of hdr \<noteq> seg_n_of hdr \<and> length dat \<noteq> seg_len (sr_ctl (ts_rx s ! i))"
    | "seg_o_of hdr = seg_n_of hdr" "BT_MESH_RX_SDU_MAX tc < seg_n_of hdr * seg_len (sr_ctl (ts_rx s ! i)) + length dat"
    | "ts_free s = 0" "seg_o_of hdr = seg_n_of hdr \<or> length dat = seg_len (sr_ctl (ts_rx s ! i))"
        "seg_o_of hdr \<noteq> seg_n_of hdr \<or> seg_n_of hdr * seg_len (sr_ctl (ts_rx s ! i)) + length dat \<le> BT_MESH_RX_SDU_MAX tc"
    | "ts_free s \<noteq> 0" "seg_o_of hdr = seg_n_of hdr \<or> length dat = seg_len (sr_ctl (ts_rx s ! i))"
        "seg_o_of hdr \<noteq> seg_n_of hdr \<or> seg_n_of hdr * seg_len (sr_ctl (ts_rx s ! i)) + length dat \<le> BT_MESH_RX_SDU_MAX tc"
    by linarith
  then show ?thesis
  proof cases
    case 4
    have dat: "length dat \<le> BT_MESH_APP_SEG_SDU_MAX" "trans_inv tc a b n s3"
      using assms(1) False 4 trans_seg_found_store_inv [OF assms(2-5) False 4(2,3) _ 4(1)]
      by (auto simp: trans_seg_found_eq [OF i] Let_def s3_def s1_def not_le split: if_splits)
    then show ?thesis using assms(1) False 4 seg_rx_complete_inv [OF _ dat(2) assms(3)]
      by (auto simp: trans_seg_found_eq [OF i] Let_def bind_eq_Some_conv simp flip: s1_def s3_def split: if_splits)
  qed (use assms(1,2) False inv2 reset in \<open>auto simp: trans_seg_found_eq [OF i] Let_def bind_eq_Some_conv simp flip: s1_def\<close>)
qed

lemma trans_send_ack_inv: "trans_send_ack tc te net_rx sa bl obo s = Some u \<Longrightarrow> trans_inv tc' a b n s \<Longrightarrow> trans_inv tc' a b n u"
  using trans_inv_frame trans_send_ack_slab by blast

lemma trans_rpl_done_inv: "trans_inv tc' a b n s \<Longrightarrow> trans_inv tc' a b n (trans_rpl_done tc r net_rx s)"
  using trans_inv_frame trans_rpl_done_slab by blast

lemma trans_seg_old_inv:
  assumes "trans_seg_old tc te i hdr dat rpl net_rx sa s = Some (err, net_rx', kind, sa', s')" "trans_inv tc a b n s" "i < b"
    and "trans_cfg_ok tc" "seg_o_of hdr \<le> seg_n_of hdr"
  shows "trans_inv tc a b n s'"
proof -
  let ?rx = "ts_rx s ! i"
  consider "s' = s" | "sr_in_use ?rx" "seg_rx_is_valid ?rx net_rx (hdr ! 0) (seg_n_of hdr)"
      "trans_seg_found tc te i hdr dat rpl net_rx sa s = Some (err, net_rx', kind, sa', s')"
    | u where "trans_send_ack tc te net_rx sa (sr_block ?rx) (sr_obo ?rx) s = Some u" "s' = (case rpl of None \<Rightarrow> u | Some r \<Rightarrow> trans_rpl_done tc r net_rx u)"
    using assms(1) unfolding trans_seg_old_def Let_def by (auto simp: bind_eq_Some_conv split: if_splits)
  then show ?thesis
  proof cases
    case 2
    then show ?thesis using assms(5) by (intro trans_seg_found_inv [OF 2(3) assms(2-4)]) (simp add: seg_for_def seg_rx_is_valid_def)
  next
    case 3
    then show ?thesis using trans_send_ack_inv [OF 3(1) assms(2)] by (cases rpl) (simp_all add: trans_rpl_done_inv)
  qed (use assms(2) in simp)
qed

lemma trans_seg_alloc_inv:
  assumes "seg_rx_alloc net_rx (hdr ! 0) sa (seg_n_of hdr) s = (Some i, s1)" "trans_inv tc a b n s" "trans_cfg_ok tc"
    and "seg_o_of hdr \<le> seg_n_of hdr" "sdu_len_is_ok tc (seg_n_of hdr)"
    and "trans_seg_found tc te i hdr dat rpl net_rx sa (upd_rx i (\<lambda>rx. rx\<lparr>sr_obo := rx_friend_match net_rx\<rparr>) s1) = Some (err, net_rx', kind, sa', s')"
  shows "trans_inv tc a b n s'"
proof -
  have al: "trans_inv tc a b n s1" "i < b" "sr_in_use (ts_rx s1 ! i)" "unat (sr_seg_n (ts_rx s1 ! i)) = seg_n_of hdr"
    using seg_rx_alloc_inv [OF assms(1-3)] assms(5) by (simp_all add: sdu_len_is_ok_def)
  have inv: "trans_inv tc a b n (upd_rx i (\<lambda>rx. rx\<lparr>sr_obo := rx_friend_match net_rx\<rparr>) s1)"
    using al(1,2) by (rule trans_inv_soft_rx) (simp add: soft_rx_def)
  show ?thesis using al assms(4) trans_inv_len [OF al(1)]
    by (intro trans_seg_found_inv [OF assms(6) inv al(2) assms(3)]) (simp add: seg_for_def rx_table.ctxs_nth)
qed

lemma trans_seg_new_inv:
  assumes "trans_seg_new tc te hdr dat rpl net_rx sa s = Some (err, net_rx', kind, sa', s')" "trans_inv tc a b n s"
    and "trans_cfg_ok tc" "seg_o_of hdr \<le> seg_n_of hdr"
  shows "trans_inv tc a b n s'"
proof -
  obtain r s1 where al: "seg_rx_alloc net_rx (hdr ! 0) sa (seg_n_of hdr) s = (r, s1)" by (cases "seg_rx_alloc net_rx (hdr ! 0) sa (seg_n_of hdr) s")
  have s1: "trans_inv tc a b n s1" if "sdu_len_is_ok tc (seg_n_of hdr)"
    using seg_rx_alloc_inv [OF al assms(2,3)] that by (simp add: sdu_len_is_ok_def)
  consider "s' = s" | u bl obo where "trans_send_ack tc te net_rx sa bl obo s = Some u" "s' = u"
    | "r = None" "s' = s1" "sdu_len_is_ok tc (seg_n_of hdr)"
    | i where "r = Some i" "sdu_len_is_ok tc (seg_n_of hdr)"
      "trans_seg_found tc te i hdr dat rpl net_rx sa (upd_rx i (\<lambda>rx. rx\<lparr>sr_obo := rx_friend_match net_rx\<rparr>) s1) = Some (err, net_rx', kind, sa', s')"
    using assms(1) al unfolding trans_seg_new_def Let_def by (cases r) (auto simp: bind_eq_Some_conv split: if_splits)
  then show ?thesis
  proof cases
    case 4
    then show ?thesis using trans_seg_alloc_inv [OF al [unfolded 4(1)] assms(2-4)] by blast
  qed (use assms(2) s1 trans_send_ack_inv in auto)
qed

lemma trans_seg_inv:
  assumes "trans_seg tc te buf net_rx s = Some (err, net_rx', kind, sa, cnt, s')" "trans_inv tc a b n s" "trans_cfg_ok tc"
  shows "trans_inv tc a b n s'"
proof -
  obtain replay rpl s1 where c: "trans_rpl_check tc net_rx True s = (replay, rpl, s1)" by (cases "trans_rpl_check tc net_rx True s")
  have inv: "trans_inv tc a b n s1" using assms(2) trans_rpl_check_slab [OF c] by (rule trans_inv_frame)
  have bound: "set [0..<length (ts_rx s1)] \<subseteq> {..<b}" using trans_inv_len [OF inv] by auto
  have find: "trans_inv tc a b n s2 \<and> (\<forall>i. old = Some i \<longrightarrow> i < b)"
    if "seg_rx_find tc net_rx seq_auth [0..<length (ts_rx s1)] s1 = Some (old, s2)" for seq_auth old s2
    using that inv bound by (rule seg_rx_find_inv)
  consider "s' = s1" | old s2 where "seg_o_of (nb_bytes buf) \<le> seg_n_of (nb_bytes buf)"
      "seg_rx_find tc net_rx (seg_seq_auth (ts_net s1) net_rx (seg_zero (nb_bytes buf))) [0..<length (ts_rx s1)] s1 = Some (old, s2)"
      "(case old of Some i \<Rightarrow> trans_seg_old tc te i (nb_bytes buf) (drop 4 (nb_bytes buf)) rpl net_rx (seg_seq_auth (ts_net s1) net_rx (seg_zero (nb_bytes buf))) s2
        | None \<Rightarrow> trans_seg_new tc te (nb_bytes buf) (drop 4 (nb_bytes buf)) rpl net_rx (seg_seq_auth (ts_net s1) net_rx (seg_zero (nb_bytes buf))) s2) =
       Some (err, net_rx', kind, sa, s')" | "s' = s"
    using assms(1) unfolding trans_seg_def c Let_def by (auto simp: bind_eq_Some_conv not_less split: if_splits)
  then show ?thesis
  proof cases
    case 2
    note f = find [OF 2(2)]
    show ?thesis
    proof (cases old)
      case None
      then show ?thesis using f 2(1,3) assms(3) trans_seg_new_inv by simp
    next
      case (Some i)
      then show ?thesis using f 2(1,3) assms(3) trans_seg_old_inv by simp
    qed
  qed (use assms(2) inv in simp_all)
qed

section \<open>Reception and timers\<close>

lemma bt_mesh_trans_recv_inv:
  assumes "bt_mesh_trans_recv tc te buf rx s = Some (err, rx', s')" "trans_inv tc a b n s" "trans_cfg_ok tc"
  shows "trans_inv tc a b n s'"
proof -
  have out: "trans_inv tc a b n (trans_output x u)" if "trans_inv tc a b n u" for x u
    using that same_slab_output by (rule trans_inv_frame)
  show ?thesis using assms
    by (auto simp: bt_mesh_trans_recv_def Let_def bind_eq_Some_conv enqueue_rx_def split: if_splits
        dest!: trans_seg_inv [OF _ assms(2,3)] trans_unseg_inv [OF _ assms(2)] intro!: out)
qed

lemma seg_ack_inv:
  assumes "seg_ack tc' te i s = Some s'" "trans_inv tc a b n s" "i < b"
  shows "trans_inv tc a b n s'"
proof -
  have soft: "trans_inv tc a b n (upd_rx i f u)" if "trans_inv tc a b n u" "soft_rx f" for f u
    using that assms(3) by blast
  have ack: "trans_inv tc a b n u'" if "send_ack tc' te sub x y ttl sa bl obo u = Some u'" "trans_inv tc a b n u" for sub x y ttl sa bl obo u u'
    using that(2) send_ack_slab [OF that(1)] by (rule trans_inv_frame)
  have inv: "trans_inv tc a b n (upd_rx i (\<lambda>rx. rx\<lparr>sr_ack := None\<rparr>) s)" using assms(2) by (rule soft) (simp add: soft_rx_def)
  show ?thesis using assms(1) inv seg_rx_reset_inv(1) [OF _ inv assms(3)] ack [OF _ inv]
    by (auto simp: seg_ack_def Let_def bind_eq_Some_conv soft_rx_def split: if_splits intro!: soft)
qed

lemma rx_reset_loop_inv: "rx_reset_loop tc' is s = Some s' \<Longrightarrow> trans_inv tc a b n s \<Longrightarrow> set is \<subseteq> {..<b} \<Longrightarrow> trans_inv tc a b n s'"
  by (induction "is" arbitrary: s) (auto simp: bind_eq_Some_conv dest!: seg_rx_reset_inv(1))

lemma tx_reset_loop_inv: "tx_reset_loop tc' te is s = Some s' \<Longrightarrow> trans_inv tc a b n s \<Longrightarrow> set is \<subseteq> {..<a} \<Longrightarrow> trans_inv tc a b n s'"
  by (induction "is" arbitrary: s) (auto simp: bind_eq_Some_conv dest!: seg_tx_reset_inv)

lemma bt_mesh_rx_reset_inv: "bt_mesh_rx_reset tc' s = Some s' \<Longrightarrow> trans_inv tc a b n s \<Longrightarrow> trans_inv tc a b n s'"
  using trans_inv_len [of tc a b n s] by (auto simp: bt_mesh_rx_reset_def intro: rx_reset_loop_inv)

lemma bt_mesh_trans_reset_inv:
  assumes "bt_mesh_trans_reset tc' te s = Some s'" "trans_inv tc a b n s"
  shows "trans_inv tc a b n s'"
proof -
  from assms(1) obtain s1 s2 where s: "bt_mesh_rx_reset tc' s = Some s1" "tx_reset_loop tc' te [0..<length (ts_tx s1)] s1 = Some s2" "same_slab s2 s'"
    by (auto simp: bt_mesh_trans_reset_def bind_eq_Some_conv Let_def same_slab_def set_rpl_def set_net_def trans_output_def)
  have inv1: "trans_inv tc a b n s1" using s(1) assms(2) by (rule bt_mesh_rx_reset_inv)
  have "trans_inv tc a b n s2" by (rule tx_reset_loop_inv [OF s(2) inv1]) (use trans_inv_len [OF inv1] in auto)
  then show ?thesis using s(3) by (rule trans_inv_frame)
qed

section \<open>Runs of the transport layer\<close>

text \<open>
  One call of the layer or one event: sending, reception, the two timers, the callbacks of the
  advertiser, the resets, the operations on virtual addresses, and any change of the network
  layer and the keys between them.  Control messages have at most 2040 bytes (the callers in the
  tree send at most eleven).
\<close>

inductive trans_step :: "trans_cfg \<Rightarrow> trans_state \<Rightarrow> trans_state \<Rightarrow> bool" for tc where
  step_send: "bt_mesh_trans_send tc te tx msg cb s = Some (err, s') \<Longrightarrow> trans_step tc s s'"
| step_ctl: "bt_mesh_ctl_send tc te tx op dat cb s = Some (err, s') \<Longrightarrow> length dat \<le> 255 * BT_MESH_CTL_SEG_SDU_MAX \<Longrightarrow> trans_step tc s s'"
| step_recv: "bt_mesh_trans_recv tc te buf rx s = Some (err, rx', s') \<Longrightarrow> trans_step tc s s'"
| step_retransmit: "i < length (ts_tx s) \<Longrightarrow> seg_retransmit tc te i s = Some s' \<Longrightarrow> trans_step tc s s'"
| step_ack: "i < length (ts_rx s) \<Longrightarrow> seg_ack tc te i s = Some s' \<Longrightarrow> trans_step tc s s'"
| step_start: "i < length (ts_tx s) \<Longrightarrow> trans_step tc s (seg_send_start tc i d err s)"
| step_sent: "i < length (ts_tx s) \<Longrightarrow> trans_step tc s (seg_sent tc i s)"
| step_rx_reset: "bt_mesh_rx_reset tc s = Some s' \<Longrightarrow> trans_step tc s s'"
| step_reset: "bt_mesh_trans_reset tc te s = Some s' \<Longrightarrow> trans_step tc s s'"
| step_va_add: "bt_mesh_va_add tc uuid s = (st, addr, s') \<Longrightarrow> trans_step tc s s'"
| step_va_del: "bt_mesh_va_del tc uuid s = (st, addr, s') \<Longrightarrow> trans_step tc s s'"
| step_va_store: "trans_step tc s (bt_mesh_va_pending_store s)"
| step_va_set: "va_set name len rd s = (err, s') \<Longrightarrow> trans_step tc s s'"
| step_below: "trans_step tc s (s\<lparr>ts_layer := nl, ts_keys := ks\<rparr>)"

definition trans_booted :: "trans_cfg \<Rightarrow> nat \<Rightarrow> trans_state \<Rightarrow> bool" where
  "trans_booted tc n s \<longleftrightarrow> ts_free s = n \<and>
     (\<forall>tx \<in> set (ts_tx s). st_seg tx = replicate (tc_tx_seg_max tc) None \<and> st_seg_n tx = 0 \<and> st_nack_count tx = 0) \<and>
     (\<forall>rx \<in> set (ts_rx s). sr_seg rx = replicate (tc_rx_seg_max tc) None \<and> sr_seg_n rx = 0 \<and> \<not> sr_in_use rx)"

lemma va_store_slab [simp]: "same_slab s (va_store tc i s)"
  by (simp add: va_store_def Let_def same_slab_def trans_output_def)

lemma va_update_slab [simp]: "same_slab s (s\<lparr>ts_va := va\<rparr>)"
  by (simp add: same_slab_def)

lemma bt_mesh_va_add_slab: "bt_mesh_va_add tc uuid s = (st, addr, s') \<Longrightarrow> same_slab s s'"
  by (auto simp: bt_mesh_va_add_def Let_def split: option.splits sum.splits intro: same_slab_trans [OF va_update_slab va_store_slab])

lemma bt_mesh_va_del_slab: "bt_mesh_va_del tc uuid s = (st, addr, s') \<Longrightarrow> same_slab s s'"
  by (auto simp: bt_mesh_va_del_def split: option.splits intro: same_slab_trans [OF va_update_slab va_store_slab])

lemma va_set_slab: "va_set name len rd s = (err, s') \<Longrightarrow> same_slab s s'"
  by (auto simp: va_set_def Let_def split: option.splits sum.splits if_splits)

lemma va_pending_step_slab [simp]: "same_slab s (va_pending_step i s)"
  by (simp add: va_pending_step_def Let_def same_slab_def trans_output_def)

lemma bt_mesh_va_pending_store_slab: "same_slab s (bt_mesh_va_pending_store s)"
proof -
  have "same_slab s (fold va_pending_step ks s)" for ks
    by (induction ks arbitrary: s) (auto intro: same_slab_trans [OF va_pending_step_slab])
  then show ?thesis by (simp add: bt_mesh_va_pending_store_def)
qed

lemma trans_step_inv:
  assumes "trans_step tc s s'" "trans_inv tc a b n s" "trans_cfg_ok tc"
  shows "trans_inv tc a b n s'"
  using assms(1)
proof cases
  case step_retransmit then show ?thesis using seg_retransmit_inv [OF _ assms(2)] trans_inv_len [OF assms(2)] by blast
next
  case step_ack then show ?thesis using seg_ack_inv [OF _ assms(2)] trans_inv_len [OF assms(2)] by blast
next
  case step_start then show ?thesis using seg_send_start_inv [OF assms(2)] trans_inv_len [OF assms(2)] by simp
next
  case step_sent then show ?thesis using seg_sent_inv [OF assms(2)] trans_inv_len [OF assms(2)] by simp
next
  case (step_below nl ks) then show ?thesis using trans_inv_frame [OF assms(2)] by (simp add: same_slab_def)
next
  case step_send show ?thesis by (rule bt_mesh_trans_send_inv [OF step_send assms(2,3)])
next
  case step_ctl show ?thesis by (rule bt_mesh_ctl_send_inv [OF step_ctl(1) assms(2,3) step_ctl(2)])
next
  case step_recv show ?thesis by (rule bt_mesh_trans_recv_inv [OF step_recv assms(2,3)])
next
  case step_rx_reset show ?thesis by (rule bt_mesh_rx_reset_inv [OF step_rx_reset assms(2)])
next
  case step_reset show ?thesis by (rule bt_mesh_trans_reset_inv [OF step_reset assms(2)])
next
  case step_va_add show ?thesis by (rule trans_inv_frame [OF assms(2) bt_mesh_va_add_slab [OF step_va_add]])
next
  case step_va_del show ?thesis by (rule trans_inv_frame [OF assms(2) bt_mesh_va_del_slab [OF step_va_del]])
next
  case step_va_set show ?thesis by (rule trans_inv_frame [OF assms(2) va_set_slab [OF step_va_set]])
next
  case step_va_store then show ?thesis using trans_inv_frame [OF assms(2) bt_mesh_va_pending_store_slab] by simp
qed

lemma blocks_replicate [simp]: "blocks (replicate m None) = 0"
  by (simp add: blocks_def)

lemma trans_booted_inv:
  assumes "trans_booted tc n s" "trans_cfg_ok tc"
  shows "trans_inv tc (length (ts_tx s)) (length (ts_rx s)) n s"
proof -
  have "tx_table.owned s = 0" "rx_table.owned s = 0"
    using assms(1) by (auto simp: tx_table.owned_def rx_table.owned_def trans_booted_def)
  then show ?thesis using assms by (auto simp: trans_inv_def trans_booted_def tx_ok_def rx_ok_def trans_cfg_ok_def)
qed

lemma trans_run_inv:
  assumes "(trans_step tc)\<^sup>*\<^sup>* s s'" "trans_inv tc a b n s" "trans_cfg_ok tc"
  shows "trans_inv tc a b n s'"
  using assms by (induction rule: rtranclp_induct) (blast intro: trans_step_inv)+

text \<open>
  C20: in every state the transport layer reaches, whatever is sent, received or timed out, the
  blocks of the segment slab are all accounted for: the free ones and those held by sending and
  receiving contexts add up to the size of the slab.  A sending context with no unacknowledged
  segment and a receiving context that is not in use hold no block, and the bit map of a
  receiving context in use names exactly the segments it holds.
\<close>

theorem segments_accounted:
  assumes "trans_cfg_ok tc" "trans_booted tc n s" "(trans_step tc)\<^sup>*\<^sup>* s s'"
  shows "ts_free s' + (\<Sum>tx \<leftarrow> ts_tx s'. blocks (st_seg tx)) + (\<Sum>rx \<leftarrow> ts_rx s'. blocks (sr_seg rx)) = n \<and>
    (\<forall>tx \<in> set (ts_tx s'). st_nack_count tx = 0 \<longrightarrow> blocks (st_seg tx) = 0) \<and>
    (\<forall>rx \<in> set (ts_rx s'). if sr_in_use rx then \<forall>k < length (sr_seg rx). sr_seg rx ! k \<noteq> None \<longleftrightarrow> bit (sr_block rx) k
       else blocks (sr_seg rx) = 0)"
proof -
  have inv: "trans_inv tc (length (ts_tx s)) (length (ts_rx s)) n s'"
    using trans_run_inv [OF assms(3) trans_booted_inv [OF assms(2,1)] assms(1)] .
  then have tx: "\<forall>tx \<in> set (ts_tx s'). tx_ok tc tx" and rx: "\<forall>rx \<in> set (ts_rx s'). rx_ok tc rx"
    and sum: "ts_free s' + tx_table.owned s' + rx_table.owned s' = n" by (simp_all add: trans_inv_def)
  show ?thesis
    using tx rx sum by (auto simp: tx_table.owned_def rx_table.owned_def tx_ok_def rx_ok_def blocks_zero_iff)
qed

section \<open>An example\<close>

text \<open>A layer with one context of each kind, three segments per message and four blocks.\<close>

definition seg_cfg :: trans_cfg where
  "seg_cfg = \<lparr>tc_mesh = cfg_example\<lparr>cfg_friend := False\<rparr>, tc_low_power = False, tc_tx_seg_max = 3, tc_rx_seg_max = 3, tc_retrans_count = 4,
     tc_retrans_unicast = 400, tc_retrans_group = 100\<rparr>"

definition idle_tx :: "nat \<Rightarrow> seg_tx" where
  "idle_tx m = \<lparr>st_sub = None, st_seg = replicate m None, st_seq_auth = 0, st_src = 0, st_dst = 0, st_len = 0, st_hdr = 0, st_xmit = 0,
     st_seg_n = 0, st_seg_o = 0, st_nack_count = 0, st_attempts = 0, st_ttl = 0, st_seg_pending = 0, st_blocked = False, st_ctl = False,
     st_aszmic = False, st_started = False, st_sending = False, st_friend_cred = False, st_cb = None, st_retransmit = None\<rparr>"

definition idle_rx :: "nat \<Rightarrow> seg_rx" where
  "idle_rx m = \<lparr>sr_sub = None, sr_seg = replicate m None, sr_seq_auth = 0, sr_src = 0, sr_dst = 0, sr_len = 0, sr_hdr = 0, sr_seg_n = 0,
     sr_ctl = False, sr_in_use = False, sr_obo = False, sr_ttl = 0, sr_block = 0, sr_last = 0, sr_ack = None\<rparr>"

definition seg_state :: trans_state where
  "seg_state = \<lparr>ts_tx = [idle_tx 3], ts_rx = [idle_rx 3], ts_va = [], ts_free = 4, ts_layer = link_layer, ts_keys = app_example_keys, ts_out = []\<rparr>"

definition seg_env :: trans_env where
  "seg_env = \<lparr>te_net = link_env, te_adv = (\<lambda>_. None), te_friend_space = (\<lambda>_ _ _ _ _. True), te_friend_enqueue = (\<lambda>_ _. False),
     te_friend_match = (\<lambda>_ _. False), te_lpn_established = False, te_lpn_waiting_update = False, te_lpn_frnd = 0, te_default_ttl = 7,
     te_transmit = 0, te_primary_addr = 7, te_uptime = 0, te_cdb_node = (\<lambda>_. None), te_ctl_handler = (\<lambda>_ _. None)\<rparr>"

text \<open>A control message of twenty bytes to node 9, for which no advertising buffer is free: its three segments wait in the context.\<close>

definition seg_waiting :: "bytes \<Rightarrow> trans_state" where
  "seg_waiting dat = snd (the (bt_mesh_ctl_send seg_cfg seg_env (link_tx\<lparr>tx_ctx := (tx_ctx link_tx)\<lparr>ctx_addr := 9\<rparr>\<rparr>) 0x0a dat None seg_state))"

lemma seg_waiting_run:
  "bt_mesh_ctl_send seg_cfg seg_env (link_tx\<lparr>tx_ctx := (tx_ctx link_tx)\<lparr>ctx_addr := 9\<rparr>\<rparr>) 0x0a (replicate 20 1) None seg_state =
     Some (None, seg_waiting (replicate 20 1))"
  "ts_free (seg_waiting (replicate 20 1)) = 1"
  "map (\<lambda>tx. (st_nack_count tx, st_seg tx)) (ts_tx (seg_waiting (replicate 20 1))) = [(3, [Some (replicate 8 1), Some (replicate 8 1), Some (replicate 4 1)])]"
  by code_simp+

theorem segments_accounted_witness:
  "ts_free (seg_waiting (replicate 20 1)) + (\<Sum>tx \<leftarrow> ts_tx (seg_waiting (replicate 20 1)). blocks (st_seg tx)) +
     (\<Sum>rx \<leftarrow> ts_rx (seg_waiting (replicate 20 1)). blocks (sr_seg rx)) = 4 \<and> ts_free (seg_waiting (replicate 20 1)) = 1"
proof -
  have cfg: "trans_cfg_ok seg_cfg" "trans_booted seg_cfg 4 seg_state"
    by (simp_all add: trans_cfg_ok_def trans_booted_def seg_cfg_def seg_state_def idle_tx_def idle_rx_def)
  have "trans_step seg_cfg seg_state (seg_waiting (replicate 20 1))"
    using seg_waiting_run(1) by (rule step_ctl) (simp add: BT_MESH_CTL_SEG_SDU_MAX_def)
  then show ?thesis using segments_accounted [OF cfg r_into_rtranclp] seg_waiting_run(2) by blast
qed

end
