(* ===== verification/Mesh_Seg_Wire.thy ===== *)
theory Mesh_Seg_Wire
  imports Mesh_Seg_Inv
begin

text \<open>
  Segments on the air: what a receiver reads from the header of a segment, the sequence number
  it recovers for the whole message, and the reassembly of the segments in any order.
\<close>

section \<open>The segment header\<close>

definition seg_hdr :: "u8 \<Rightarrow> bool \<Rightarrow> u16 \<Rightarrow> u8 \<Rightarrow> u8 \<Rightarrow> bytes" where
  "seg_hdr hdr aszmic z seg_o seg_n =
     [hdr, (if aszmic then 0x80 else 0) OR ucast (drop_bit 6 z), ucast (push_bit 2 (z AND 0x3f)) OR drop_bit 3 seg_o,
      push_bit 5 (seg_o AND 0x07) OR seg_n]"

lemma take_bit_word_self: "unat (w :: 'a :: len word) < 2 ^ n \<Longrightarrow> take_bit n w = w"
  by (simp add: word_unat_eq_iff unsigned_take_bit_eq take_bit_nat_eq_self)

lemma take_bit_diff_word:
  fixes a b :: "'a :: len word"
  assumes "n \<le> LENGTH('a)" "take_bit n a = take_bit n a'" "take_bit n b = take_bit n b'"
  shows "take_bit n (a - b) = take_bit n (a' - b')"
proof -
  have u: "uint (take_bit n (x - y)) = take_bit n (take_bit n (uint x) - take_bit n (uint y))" for x y :: "'a word"
    using assms(1) by (simp add: unsigned_take_bit_eq uint_word_ariths(2) take_bit_diff take_bit_eq_mod [symmetric] take_bit_take_bit min_def)
  have "take_bit n (uint a) = take_bit n (uint a')" "take_bit n (uint b) = take_bit n (uint b')"
    using assms(2,3) by (metis unsigned_take_bit_eq)+
  then show ?thesis using u by (metis word_uint_eq_iff)
qed

lemma bits5: "unat (w :: u8) < 32 \<Longrightarrow> bit w k \<Longrightarrow> k < 5"
proof (rule ccontr)
  assume a: "unat w < 32" "bit w k" "\<not> k < 5"
  have "take_bit 5 w = w" using a(1) by (intro take_bit_word_self) simp
  then show False using a(2,3) by (metis bit_take_bit_iff)
qed

lemma mask_numerals: "(0x3f :: u16) = mask 6" "(0x07 :: u8) = mask 3" "(0x1f :: u8) = mask 5" "(3 :: u16) = mask 2"
  by (simp_all add: mask_eq_exp_minus_1)

lemma bit_0x80: "bit (0x80 :: 'a :: len word) k \<longleftrightarrow> k = 7 \<and> 7 < LENGTH('a)"
proof -
  have "(0x80 :: 'a word) = push_bit 7 1" by simp
  then show ?thesis by (simp only: bit_push_bit_iff bit_1_iff) auto
qed

lemma bit_0x80_nat: "bit (0x80 :: nat) k \<longleftrightarrow> k = 7" "bit (0x80 :: int) k \<longleftrightarrow> k = 7"
proof -
  have "(0x80 :: nat) = push_bit 7 1" "(0x80 :: int) = push_bit 7 1" by simp_all
  then show "bit (0x80 :: nat) k \<longleftrightarrow> k = 7" "bit (0x80 :: int) k \<longleftrightarrow> k = 7" by (simp_all only: bit_push_bit_iff bit_1_iff) auto
qed

lemma seg_hdr_fields:
  assumes "unat seg_o < 32" "unat seg_n < 32" "z AND mask 13 = z"
  shows "seg_zero (seg_hdr hdr aszmic z seg_o seg_n @ dat) = z"
    and "seg_o_of (seg_hdr hdr aszmic z seg_o seg_n @ dat) = unat seg_o"
    and "seg_n_of (seg_hdr hdr aszmic z seg_o seg_n @ dat) = unat seg_n"
    and "ASZMIC (seg_hdr hdr aszmic z seg_o seg_n @ dat) = (if aszmic then 1 else 0)"
proof -
  note o = bits5 [OF assms(1)] and n = bits5 [OF assms(2)]
  have z: "bit z k \<Longrightarrow> k < 13" for k using assms(3) by (metis bit_and_iff bit_mask_iff)
  show "seg_zero (seg_hdr hdr aszmic z seg_o seg_n @ dat) = z"
  proof (rule bit_word_eqI)
    fix k
    assume "k < LENGTH(16)"
    show "bit (seg_zero (seg_hdr hdr aszmic z seg_o seg_n @ dat)) k = bit z k"
    proof (cases "k < 6")
      case False
      then obtain j where "k = 6 + j" using le_Suc_ex not_less by blast
      then show ?thesis unfolding seg_zero_def seg_hdr_def sys_get_be16_def TRANS_SEQ_ZERO_MASK_def
        by (auto simp: bit_simps mask_numerals bit_0x80 bit_0x80_nat dest: z o)
    qed (auto simp: seg_zero_def seg_hdr_def sys_get_be16_def TRANS_SEQ_ZERO_MASK_def bit_simps mask_numerals bit_0x80 bit_0x80_nat dest: o)
  qed
  have "push_bit 3 (ucast (sys_get_be16 (drop 1 (seg_hdr hdr aszmic z seg_o seg_n @ dat)) AND 0x03)) OR drop_bit 5 ((seg_hdr hdr aszmic z seg_o seg_n @ dat) ! 3) = seg_o"
    unfolding seg_hdr_def sys_get_be16_def
    by (rule bit_word_eqI) (auto simp: bit_simps mask_numerals bit_0x80 bit_0x80_nat bit_1_iff dest: z o n)
  then show "seg_o_of (seg_hdr hdr aszmic z seg_o seg_n @ dat) = unat seg_o" by (simp add: seg_o_of_def)
  have "(seg_hdr hdr aszmic z seg_o seg_n @ dat) ! 3 AND 0x1f = seg_n"
    unfolding seg_hdr_def by (rule bit_word_eqI) (auto simp: bit_simps mask_numerals bit_0x80 bit_0x80_nat bit_1_iff dest: n)
  then show "seg_n_of (seg_hdr hdr aszmic z seg_o seg_n @ dat) = unat seg_n" by (simp add: seg_n_of_def)
  show "ASZMIC (seg_hdr hdr aszmic z seg_o seg_n @ dat) = (if aszmic then 1 else 0)"
    unfolding ASZMIC_def seg_hdr_def by (rule bit_word_eqI) (auto simp: bit_simps mask_numerals bit_0x80 bit_0x80_nat bit_1_iff dest: z)
qed

section \<open>The sequence number of a message\<close>

lemma seq_zero_of_SEQ_AUTH: "seq_zero_of (SEQ_AUTH iv seq) = ucast (take_bit 13 seq)"
  unfolding seq_zero_of_def SEQ_AUTH_def TRANS_SEQ_ZERO_MASK_def
  by (rule bit_word_eqI) (auto simp: bit_simps)

lemma seg_seq_auth_recovers:
  assumes "unat seq0 \<le> unat (rx_seq rx)" "unat (rx_seq rx) - unat seq0 < 2 ^ 13"
  shows "seg_seq_auth st rx (seq_zero_of (SEQ_AUTH iv seq0)) = SEQ_AUTH (BT_MESH_NET_IVI_RX st rx) seq0"
proof -
  define d where "d = rx_seq rx - seq0"
  have d: "unat d = unat (rx_seq rx) - unat seq0" using assms(1) by (simp add: d_def unat_sub word_le_nat_alt)
  have z: "(ucast (ucast (take_bit 13 seq0) :: u16) :: u32) = take_bit 13 seq0" by (rule bit_word_eqI) (auto simp: bit_simps)
  have "((rx_seq rx AND mask 14) - take_bit 13 seq0) AND mask 13 = take_bit 13 (take_bit 14 (rx_seq rx) - take_bit 13 seq0)"
    by (simp add: take_bit_eq_mask)
  also have "\<dots> = take_bit 13 d" unfolding d_def
    by (rule take_bit_diff_word) (simp_all add: take_bit_take_bit)
  also have "\<dots> = d" using d assms(2) by (intro take_bit_word_self) simp
  finally show ?thesis unfolding seg_seq_auth_def seq_zero_of_SEQ_AUTH z by (simp add: d_def)
qed

section \<open>Building a segment\<close>

lemma add_mem_ok:
  assumes "wf_buf b" "length bs \<le> net_buf_simple_tailroom b"
  obtains b' where "net_buf_simple_add_mem bs b = Some b'" "wf_buf b'" "nb_bytes b' = nb_bytes b @ bs" "nb_data b' = nb_data b"
    "net_buf_simple_tailroom b' = net_buf_simple_tailroom b - length bs" "nb_size b' = nb_size b" "length (nb_buf b') = length (nb_buf b)"
proof
  let ?b = "b\<lparr>nb_len := nb_len b + length bs, nb_buf := mem_write (nb_data b + nb_len b) bs (nb_buf b)\<rparr>"
  show "net_buf_simple_add_mem bs b = Some ?b" using assms by (simp add: nb_defs)
  show "nb_bytes ?b = nb_bytes b @ bs" using nb_bytes_add [OF assms] by (simp add: nb_bytes_def nb_read_def)
  show "wf_buf ?b" "nb_data ?b = nb_data b" "net_buf_simple_tailroom ?b = net_buf_simple_tailroom b - length bs" "nb_size ?b = nb_size b"
    "length (nb_buf ?b) = length (nb_buf b)"
    using assms by (auto simp: wf_buf_def nb_defs)
qed

definition seg_chunk :: "bool \<Rightarrow> bytes \<Rightarrow> nat \<Rightarrow> bytes" where
  "seg_chunk ctl sdu k = take (seg_len ctl) (drop (k * seg_len ctl) sdu)"

definition last_seg :: "bool \<Rightarrow> bytes \<Rightarrow> nat" where
  "last_seg ctl sdu = (length sdu - 1) div seg_len ctl"

lemma seg_len_le: "seg_len ctl \<le> 12"
  by (simp add: seg_len_def BT_MESH_CTL_SEG_SDU_MAX_def BT_MESH_APP_SEG_SDU_MAX_def)

lemma length_seg_chunk: "length (seg_chunk ctl sdu k) \<le> 12"
  using seg_len_le [of ctl] by (simp add: seg_chunk_def min_def)

lemma take_seg_chunk: "take (min (seg_len ctl) (length sdu - k * seg_len ctl)) (seg_chunk ctl sdu k) = seg_chunk ctl sdu k"
  by (simp add: seg_chunk_def min_def)

text \<open>The bytes of the segment \<open>k\<close> of a message.\<close>

definition seg_pdu :: "seg_tx \<Rightarrow> bytes \<Rightarrow> nat \<Rightarrow> bytes" where
  "seg_pdu tx sdu k = seg_hdr (st_hdr tx) (st_aszmic tx) (seq_zero_of (st_seq_auth tx)) (word_of_nat k) (st_seg_n tx) @ seg_chunk (st_ctl tx) sdu k"

text \<open>A sending context for the message: every segment it holds is a part of the message.\<close>

definition tx_holds :: "bytes \<Rightarrow> seg_tx \<Rightarrow> bool" where
  "tx_holds sdu tx \<longleftrightarrow> unat (st_len tx) = length sdu \<and> unat (st_seg_n tx) = last_seg (st_ctl tx) sdu \<and> last_seg (st_ctl tx) sdu < 32 \<and>
     (\<forall>k < length (st_seg tx). \<forall>dat. st_seg tx ! k = Some dat \<longrightarrow> dat = seg_chunk (st_ctl tx) sdu k)"

lemma seg_tx_buf_build_pdu:
  assumes "tx_holds sdu tx" "k < length (st_seg tx)" "st_seg tx ! k \<noteq> None" "wf_buf buf" "16 \<le> net_buf_simple_tailroom buf"
  shows "\<exists>buf'. seg_tx_buf_build tx k buf = Some buf' \<and> nb_bytes buf' = nb_bytes buf @ seg_pdu tx sdu k \<and> wf_buf buf' \<and> nb_data buf' = nb_data buf"
proof -
  from assms(1-3) have dat: "st_seg tx ! k = Some (seg_chunk (st_ctl tx) sdu k)" by (auto simp: tx_holds_def)
  let ?h = "seg_hdr (st_hdr tx) (st_aszmic tx) (seq_zero_of (st_seq_auth tx)) (word_of_nat k) (st_seg_n tx)"
  let ?dat = "take (min (seg_len (st_ctl tx)) (unat (st_len tx) - seg_len (st_ctl tx) * k)) (seg_chunk (st_ctl tx) sdu k)"
  have chunk: "?dat = seg_chunk (st_ctl tx) sdu k" "length (seg_chunk (st_ctl tx) sdu k) \<le> 12"
    using assms(1) take_seg_chunk length_seg_chunk by (simp_all add: tx_holds_def mult.commute)
  obtain b1 where b1: "net_buf_simple_add_mem [?h ! 0] buf = Some b1" "wf_buf b1" "nb_bytes b1 = nb_bytes buf @ [?h ! 0]" "nb_data b1 = nb_data buf"
    "net_buf_simple_tailroom b1 = net_buf_simple_tailroom buf - length [?h ! 0]" by (rule add_mem_ok [OF assms(4), of "[?h ! 0]"]) (use assms(5) in simp)
  obtain b2 where b2: "net_buf_simple_add_mem [?h ! 1] b1 = Some b2" "wf_buf b2" "nb_bytes b2 = nb_bytes b1 @ [?h ! 1]" "nb_data b2 = nb_data b1"
    "net_buf_simple_tailroom b2 = net_buf_simple_tailroom b1 - length [?h ! 1]" by (rule add_mem_ok [OF b1(2), of "[?h ! 1]"]) (use assms(5) b1 in simp)
  obtain b3 where b3: "net_buf_simple_add_mem [?h ! 2] b2 = Some b3" "wf_buf b3" "nb_bytes b3 = nb_bytes b2 @ [?h ! 2]" "nb_data b3 = nb_data b2"
    "net_buf_simple_tailroom b3 = net_buf_simple_tailroom b2 - length [?h ! 2]" by (rule add_mem_ok [OF b2(2), of "[?h ! 2]"]) (use assms(5) b1 b2 in simp)
  obtain b4 where b4: "net_buf_simple_add_mem [?h ! 3] b3 = Some b4" "wf_buf b4" "nb_bytes b4 = nb_bytes b3 @ [?h ! 3]" "nb_data b4 = nb_data b3"
    "net_buf_simple_tailroom b4 = net_buf_simple_tailroom b3 - length [?h ! 3]" by (rule add_mem_ok [OF b3(2), of "[?h ! 3]"]) (use assms(5) b1 b2 b3 in simp)
  obtain b5 where b5: "net_buf_simple_add_mem (seg_chunk (st_ctl tx) sdu k) b4 = Some b5" "wf_buf b5"
    "nb_bytes b5 = nb_bytes b4 @ seg_chunk (st_ctl tx) sdu k" "nb_data b5 = nb_data b4"
    by (rule add_mem_ok [OF b4(2), of "seg_chunk (st_ctl tx) sdu k"]) (use assms(5) b1 b2 b3 b4 chunk(2) in simp)
  have "seg_tx_buf_build tx k buf = Some b5"
    unfolding seg_tx_buf_build_def Let_def dat add_value using b1(1) b2(1) b3(1) b4(1) b5(1) chunk(1) by (simp add: seg_hdr_def)
  moreover have "nb_bytes b5 = nb_bytes buf @ seg_pdu tx sdu k"
    unfolding seg_pdu_def b5(3) b4(3) b3(3) b2(3) b1(3) by (simp add: seg_hdr_def)
  ultimately show ?thesis using b5(2,4) b4(4) b3(4) b2(4) b1(4) by simp
qed

text \<open>
  A segment as it goes out: built by the code behind the space for the network header, into an
  empty advertising buffer.
\<close>

definition adv_ready :: "net_buf_simple \<Rightarrow> bool" where
  "adv_ready b \<longleftrightarrow> wf_buf b \<and> nb_len b = 0 \<and> BT_MESH_NET_HDR_LEN + 16 \<le> nb_size b"

definition seg_wire :: "net_buf_simple \<Rightarrow> seg_tx \<Rightarrow> nat \<Rightarrow> bytes option" where
  "seg_wire adv tx k =
     do { seg \<leftarrow> net_buf_simple_reserve BT_MESH_NET_HDR_LEN adv; seg \<leftarrow> seg_tx_buf_build tx k seg; Some (nb_bytes seg) }"

lemma seg_wire_pdu:
  assumes "tx_holds sdu tx" "k < length (st_seg tx)" "adv_ready adv"
  shows "seg_wire adv tx k = (if st_seg tx ! k = None then None else Some (seg_pdu tx sdu k))"
proof -
  let ?b = "adv\<lparr>nb_data := BT_MESH_NET_HDR_LEN\<rparr>"
  have b: "net_buf_simple_reserve BT_MESH_NET_HDR_LEN adv = Some ?b" "wf_buf ?b" "nb_bytes ?b = []" "16 \<le> net_buf_simple_tailroom ?b"
    using assms(3) by (auto simp: adv_ready_def net_buf_simple_reserve_def wf_buf_def nb_bytes_def nb_read_def nb_defs)
  show ?thesis
  proof (cases "st_seg tx ! k")
    case None
    then show ?thesis using b(1) by (simp add: seg_wire_def seg_tx_buf_build_def Let_def)
  next
    case (Some dat)
    then show ?thesis using seg_tx_buf_build_pdu [OF assms(1,2) _ b(2,4)] b(1,3) by (auto simp: seg_wire_def)
  qed
qed

lemma seg_pdu_fields:
  assumes "tx_holds sdu tx" "k \<le> last_seg (st_ctl tx) sdu"
  shows "seg_o_of (seg_pdu tx sdu k) = k" "seg_n_of (seg_pdu tx sdu k) = last_seg (st_ctl tx) sdu"
    "seg_zero (seg_pdu tx sdu k) = seq_zero_of (st_seq_auth tx)" "drop 4 (seg_pdu tx sdu k) = seg_chunk (st_ctl tx) sdu k"
    "seg_pdu tx sdu k ! 0 = st_hdr tx" "ASZMIC (seg_pdu tx sdu k) = (if st_aszmic tx then 1 else 0)"
proof -
  have k: "k < 32" "unat (word_of_nat k :: u8) = k" "unat (word_of_nat k :: u8) < 32" "unat (st_seg_n tx) < 32"
    using assms by (simp_all add: tx_holds_def unat_word_small)
  have z: "seq_zero_of (st_seq_auth tx) AND mask 13 = seq_zero_of (st_seq_auth tx)"
    unfolding seq_zero_of_def TRANS_SEQ_ZERO_MASK_def by (rule bit_word_eqI) (auto simp: bit_simps)
  note f = seg_hdr_fields [OF k(3,4) z, of "st_hdr tx" "st_aszmic tx" "seg_chunk (st_ctl tx) sdu k"]
  show "seg_o_of (seg_pdu tx sdu k) = k" "seg_n_of (seg_pdu tx sdu k) = last_seg (st_ctl tx) sdu" "seg_zero (seg_pdu tx sdu k) = seq_zero_of (st_seq_auth tx)"
    "ASZMIC (seg_pdu tx sdu k) = (if st_aszmic tx then 1 else 0)"
    using f k(2) assms(1) by (simp_all add: seg_pdu_def tx_holds_def)
  show "drop 4 (seg_pdu tx sdu k) = seg_chunk (st_ctl tx) sdu k" "seg_pdu tx sdu k ! 0 = st_hdr tx" by (simp_all add: seg_pdu_def seg_hdr_def)
qed

text \<open>The part of \<open>tx_holds\<close> that filling builds up: the segments below \<open>k\<close> are there, or
  went to the friend queue of a node that supports the friend feature.\<close>

definition tx_full :: "trans_cfg \<Rightarrow> nat \<Rightarrow> seg_tx \<Rightarrow> bool" where
  "tx_full tc k tx \<longleftrightarrow> k \<le> length (st_seg tx) \<and> (\<not> cfg_friend (tc_mesh tc) \<longrightarrow> (\<forall>j < k. st_seg tx ! j \<noteq> None))"

definition tx_cut :: "bool \<Rightarrow> bytes \<Rightarrow> nat \<Rightarrow> seg_tx \<Rightarrow> bool" where
  "tx_cut ctl sdu k tx \<longleftrightarrow> st_ctl tx = ctl \<and> unat (st_len tx) = length sdu \<and> unat (st_seg_n tx) = last_seg ctl sdu \<and>
     (\<forall>j < length (st_seg tx). \<forall>dat. st_seg tx ! j = Some dat \<longrightarrow> j < k \<and> dat = seg_chunk ctl sdu j)"

lemma seg_fill_loop_cut:
  assumes "seg_fill_loop tc te i net_tx op k (drop (k * seg_len (op \<noteq> None)) sdu) s = Some (None, s')" "i < length (ts_tx s)"
    and "tx_cut (op \<noteq> None) sdu k (ts_tx s ! i)" "tx_full tc k (ts_tx s ! i)"
  shows "\<exists>k. tx_cut (op \<noteq> None) sdu k (ts_tx s' ! i) \<and> tx_full tc k (ts_tx s' ! i) \<and> length sdu \<le> k * seg_len (op \<noteq> None)"
  using assms
proof (induction "length sdu - k * seg_len (op \<noteq> None)" arbitrary: k s rule: less_induct)
  case less
  let ?L = "seg_len (op \<noteq> None)"
  let ?rest = "drop (k * ?L) sdu"
  show ?case
  proof (cases "?rest = []")
    case True
    then have "s' = s" using less.prems(1) unfolding True by (simp add: seg_fill_loop.simps [of _ _ _ _ _ _ "[]"])
    then show ?thesis using less.prems(3,4) True by auto
  next
    case False
    define rest where "rest = ?rest"
    have ne: "rest \<noteq> []" using False by (simp add: rest_def)
    have loop: "seg_fill_loop tc te i net_tx op k rest s = Some (None, s')" using less.prems(1) by (simp add: rest_def)
    have len: "k < length (st_seg (ts_tx s ! i))" and free: "ts_free s \<noteq> 0"
      using loop ne by (auto simp: seg_fill_loop.simps [of _ _ _ _ _ _ rest] bind_eq_Some_conv split: if_splits)
    have cut: "take (min (length rest) ?L) rest = seg_chunk (op \<noteq> None) sdu k" "drop (min (length rest) ?L) rest = drop ((k + 1) * ?L) sdu"
      by (auto simp: rest_def seg_chunk_def min_def add.commute)
    have "seg_fill_loop tc te i net_tx op k rest s = seg_fill tc te i net_tx op k (take (min (length rest) ?L) rest) s \<bind>
        seg_fill_loop tc te i net_tx op (k + 1) (drop (min (length rest) ?L) rest)"
      using ne len free by (simp add: seg_fill_loop.simps [of _ _ _ _ _ _ rest] Let_def)
    from bind_eq_Some_conv [THEN iffD1, OF this [unfolded loop cut, symmetric]]
    obtain s1 where s1: "seg_fill tc te i net_tx op k (seg_chunk (op \<noteq> None) sdu k) s = Some s1"
      "seg_fill_loop tc te i net_tx op (k + 1) (drop ((k + 1) * ?L) sdu) s1 = Some (None, s')" by (elim exE conjE)
    obtain v where v: "ts_tx s1 = (ts_tx s)[i := (ts_tx s ! i)\<lparr>st_seg := (st_seg (ts_tx s ! i))[k := v]\<rparr>]" "v = None \<and> cfg_friend (tc_mesh tc) \<or> v = Some (seg_chunk (op \<noteq> None) sdu k)"
      using seg_fill_result [OF s1(1) less.prems(2) free] by metis
    have nth: "ts_tx s1 ! i = (ts_tx s ! i)\<lparr>st_seg := (st_seg (ts_tx s ! i))[k := v]\<rparr>" "i < length (ts_tx s1)" using v(1) less.prems(2) by simp_all
    have "tx_cut (op \<noteq> None) sdu (k + 1) (ts_tx s1 ! i)"
      using less.prems(3) v(2) len by (auto simp: tx_cut_def nth nth_list_update split: if_splits)
    moreover have "tx_full tc (k + 1) (ts_tx s1 ! i)"
      using less.prems(4) v(2) len by (auto simp: tx_full_def nth nth_list_update less_Suc_eq)
    moreover have "length sdu - (k + 1) * ?L < length sdu - k * ?L" using False seg_len_pos [of "op \<noteq> None"] by simp
    ultimately show ?thesis using less.hyps s1(2) nth(2) by blast
  qed
qed

lemma seg_filled_holds:
  assumes inv: "trans_inv tc a b n s" "i < a" "st_nack_count (ts_tx s ! i) = 0" "trans_cfg_ok tc" and len: "length sdu \<le> tc_tx_seg_max tc * seg_len (op \<noteq> None)"
    and fill: "seg_fill_loop tc te i net_tx op 0 sdu (upd_tx i (seg_tx_init tc net_tx (length sdu) cb op bl st) s) = Some (None, s')"
  shows "tx_holds sdu (ts_tx s' ! i)" "st_ctl (ts_tx s' ! i) = (op \<noteq> None)"
    "sdu \<noteq> [] \<Longrightarrow> last_seg (op \<noteq> None) sdu < length (st_seg (ts_tx s' ! i))"
    "\<not> cfg_friend (tc_mesh tc) \<Longrightarrow> sdu \<noteq> [] \<Longrightarrow> k \<le> last_seg (op \<noteq> None) sdu \<Longrightarrow> st_seg (ts_tx s' ! i) ! k \<noteq> None"
proof -
  define s1 where "s1 = upd_tx i (seg_tx_init tc net_tx (length sdu) cb op bl st) s"
  note init = seg_tx_init_inv [OF inv len s1_def]
  have i: "i < length (ts_tx s)" "i < length (ts_tx s1)" using trans_inv_len [OF inv(1)] inv(2) by (simp_all add: s1_def)
  have sc: "(length sdu - 1) div seg_len (op \<noteq> None) < 32"
    using seg_count_small(1) [OF len] inv(4) by (simp add: trans_cfg_ok_def)
  have "length sdu \<le> 32 * 12" using len inv(4) seg_len_le [of "op \<noteq> None"] by (meson le_trans mult_le_mono trans_cfg_ok_def)
  then have l16: "unat (word_of_nat (length sdu) :: u16) = length sdu" by (simp add: unat_of_nat)
  have "tx_cut (op \<noteq> None) sdu 0 (ts_tx s1 ! i)"
    using init(2,3) l16 i by (simp add: tx_cut_def tx_filling_def last_seg_def s1_def tx_table.ctxs_nth) (simp add: seg_tx_init_def Let_def)
  then obtain m where m: "tx_cut (op \<noteq> None) sdu m (ts_tx s' ! i)" "tx_full tc m (ts_tx s' ! i)" "length sdu \<le> m * seg_len (op \<noteq> None)"
    using seg_fill_loop_cut [of tc te i net_tx op 0 sdu s1 s'] fill i by (auto simp: s1_def tx_full_def)
  then show "tx_holds sdu (ts_tx s' ! i)" "st_ctl (ts_tx s' ! i) = (op \<noteq> None)" using sc by (auto simp: tx_holds_def tx_cut_def last_seg_def)
  have q: "last_seg (op \<noteq> None) sdu < m" if "sdu \<noteq> []"
  proof -
    have "length sdu - 1 < m * seg_len (op \<noteq> None)" using m(3) that by (cases sdu) auto
    then show ?thesis using seg_len_pos [of "op \<noteq> None"] by (simp add: last_seg_def less_mult_imp_div_less)
  qed
  then show "last_seg (op \<noteq> None) sdu < length (st_seg (ts_tx s' ! i))" if "sdu \<noteq> []" using m(2) that by (auto simp: tx_full_def)
  show "st_seg (ts_tx s' ! i) ! k \<noteq> None" if "\<not> cfg_friend (tc_mesh tc)" "sdu \<noteq> []" "k \<le> last_seg (op \<noteq> None) sdu"
    using m(2) q that by (auto simp: tx_full_def)
qed

section \<open>Reassembly\<close>

text \<open>A receiving context for the message: the segments it has are parts of the message, at their places.\<close>

definition rx_holds :: "bytes \<Rightarrow> seg_rx \<Rightarrow> bool" where
  "rx_holds sdu rx \<longleftrightarrow> unat (sr_seg_n rx) = last_seg (sr_ctl rx) sdu \<and>
     (\<forall>k < length (sr_seg rx). \<forall>dat. sr_seg rx ! k = Some dat \<longrightarrow> dat = seg_chunk (sr_ctl rx) sdu k)"

lemma length_chunk_last:
  assumes "sdu \<noteq> []"
  shows "last_seg ctl sdu * seg_len ctl + length (seg_chunk ctl sdu (last_seg ctl sdu)) = length sdu"
    and "k < last_seg ctl sdu \<Longrightarrow> length (seg_chunk ctl sdu k) = seg_len ctl"
proof -
  let ?L = "seg_len ctl"
  have q: "last_seg ctl sdu * ?L \<le> length sdu - 1" by (simp add: last_seg_def)
  have r: "length sdu \<le> (last_seg ctl sdu + 1) * ?L" using seg_count_enough [of "length sdu" ctl] by (simp add: last_seg_def)
  have ne: "0 < length sdu" using assms by simp
  show "last_seg ctl sdu * ?L + length (seg_chunk ctl sdu (last_seg ctl sdu)) = length sdu"
    using q r ne by (auto simp: seg_chunk_def min_def)
  assume "k < last_seg ctl sdu"
  then have "(k + 1) * ?L \<le> last_seg ctl sdu * ?L" by (intro mult_le_mono1) simp
  then show "length (seg_chunk ctl sdu k) = ?L" using q ne by (auto simp: seg_chunk_def min_def)
qed

lemma rx_holds_len:
  assumes "rx_ok tc rx" "sr_in_use rx" "rx_holds sdu rx" "sdu \<noteq> []" "bit (sr_block rx) (unat (sr_seg_n rx))"
  shows "unat (sr_len rx) = length sdu"
proof -
  from assms(1,2,5) obtain dat where dat: "sr_seg rx ! unat (sr_seg_n rx) = Some dat" "unat (sr_seg_n rx) < length (sr_seg rx)" by (auto simp: rx_ok_def)
  then have "dat = seg_chunk (sr_ctl rx) sdu (last_seg (sr_ctl rx) sdu)" "seg_size_ok rx (unat (sr_seg_n rx)) dat"
    using assms(1-3) by (auto simp: rx_holds_def rx_ok_def)
  then show ?thesis using length_chunk_last(1) [OF assms(4), of "sr_ctl rx"] assms(3) by (simp add: seg_size_ok_def rx_holds_def)
qed

lemma seg_rx_add_loop_ok:
  assumes "\<forall>k \<le> last_seg (sr_ctl rx) sdu. k < length (sr_seg rx) \<and> sr_seg rx ! k = Some (seg_chunk (sr_ctl rx) sdu k)"
    and "unat (sr_len rx) = length sdu" "wf_buf buf" "nb_bytes buf = take (j * seg_len (sr_ctl rx)) sdu" "j \<le> last_seg (sr_ctl rx) sdu + 1"
    and "length sdu - length (nb_bytes buf) \<le> net_buf_simple_tailroom buf"
  shows "\<exists>buf'. seg_rx_add_loop rx [j..<last_seg (sr_ctl rx) sdu + 1] buf = Some buf' \<and> wf_buf buf' \<and>
    nb_bytes buf' = take ((last_seg (sr_ctl rx) sdu + 1) * seg_len (sr_ctl rx)) sdu \<and> nb_data buf' = nb_data buf \<and>
    nb_size buf' = nb_size buf \<and> length (nb_buf buf') = length (nb_buf buf)"
  using assms(3-6)
proof (induction "last_seg (sr_ctl rx) sdu + 1 - j" arbitrary: j buf)
  case 0
  then have "[j..<last_seg (sr_ctl rx) sdu + 1] = []" "j = last_seg (sr_ctl rx) sdu + 1" by simp_all
  then show ?case using 0 by simp
next
  case (Suc d)
  let ?q = "last_seg (sr_ctl rx) sdu" and ?L = "seg_len (sr_ctl rx)"
  have j: "j \<le> ?q" using Suc.hyps(2) by linarith
  then have upt: "[j..<?q + 1] = j # [j + 1..<?q + 1]" by (simp add: upt_conv_Cons)
  let ?c = "seg_chunk (sr_ctl rx) sdu j"
  have c: "take (min ?L (unat (sr_len rx) - j * ?L)) ?c = ?c" using take_seg_chunk by (simp add: assms(2))
  have app: "take (j * ?L) sdu @ ?c = take ((j + 1) * ?L) sdu" by (simp add: seg_chunk_def take_add [symmetric] add.commute)
  have lc: "length ?c \<le> length sdu - length (nb_bytes buf)" using Suc.prems(2) by (simp add: seg_chunk_def min_def)
  obtain b where b: "net_buf_simple_add_mem ?c buf = Some b" "wf_buf b" "nb_bytes b = nb_bytes buf @ ?c" "nb_data b = nb_data buf"
    "net_buf_simple_tailroom b = net_buf_simple_tailroom buf - length ?c" "nb_size b = nb_size buf" "length (nb_buf b) = length (nb_buf buf)"
    by (rule add_mem_ok [OF Suc.prems(1), of ?c]) (use lc Suc.prems(4) in linarith)
  have tail: "length sdu - length (nb_bytes b) \<le> net_buf_simple_tailroom b"
    unfolding b(3,5) length_append using Suc.prems(4) by linarith
  have "\<exists>buf'. seg_rx_add_loop rx [j + 1..<?q + 1] b = Some buf' \<and> wf_buf buf' \<and> nb_bytes buf' = take ((?q + 1) * ?L) sdu \<and> nb_data buf' = nb_data b \<and>
    nb_size buf' = nb_size b \<and> length (nb_buf buf') = length (nb_buf b)"
    by (rule Suc.hyps(1) [OF _ b(2) _ _ tail]) (use Suc.hyps(2) Suc.prems(2) b(3) app j in \<open>simp_all\<close>)
  then show ?case unfolding upt using assms(1) j b c by (auto simp del: upt_Suc)
qed

text \<open>A complete context assembles to the message, whatever buffer of sufficient size is used.\<close>

lemma seg_rx_assemble_ok:
  assumes ok: "rx_ok tc rx" "sr_in_use rx" and h: "rx_holds sdu rx" "sdu \<noteq> []" and all: "\<forall>k \<le> unat (sr_seg_n rx). bit (sr_block rx) k"
    and buf: "wf_buf buf" "length sdu \<le> nb_size buf"
  shows "\<exists>buf'. seg_rx_assemble rx buf aszmic = Some buf' \<and> nb_data buf' = 0 \<and> nb_size buf' = nb_size buf \<and> length (nb_buf buf') = length (nb_buf buf) \<and>
    nb_len buf' = (if sr_ctl rx then length sdu else length sdu - APP_MIC_LEN aszmic) \<and> take (length sdu) (nb_buf buf') = sdu"
proof -
  let ?q = "last_seg (sr_ctl rx) sdu" and ?L = "seg_len (sr_ctl rx)"
  have q: "unat (sr_seg_n rx) = ?q" using h by (simp add: rx_holds_def)
  have segs: "\<forall>k \<le> ?q. k < length (sr_seg rx) \<and> sr_seg rx ! k = Some (seg_chunk (sr_ctl rx) sdu k)"
  proof (intro allI impI)
    fix k
    assume "k \<le> ?q"
    then have k: "k < length (sr_seg rx)" "bit (sr_block rx) k" using ok(1) all q by (auto simp: rx_ok_def)
    then obtain dat where dat: "sr_seg rx ! k = Some dat" using ok by (auto simp: rx_ok_def)
    then show "k < length (sr_seg rx) \<and> sr_seg rx ! k = Some (seg_chunk (sr_ctl rx) sdu k)" using k(1) h(1) by (simp add: rx_holds_def)
  qed
  have len: "unat (sr_len rx) = length sdu" using rx_holds_len [OF ok h] all by simp
  let ?b = "net_buf_simple_reset buf"
  have b: "wf_buf ?b" "nb_bytes ?b = take (0 * ?L) sdu" "length sdu - length (nb_bytes ?b) \<le> net_buf_simple_tailroom ?b"
    using buf by (simp_all add: net_buf_simple_reset_def wf_buf_def nb_bytes_def nb_read_def nb_defs)
  obtain b' where b': "seg_rx_add_loop rx [0..<?q + 1] ?b = Some b'" "wf_buf b'" "nb_bytes b' = take ((?q + 1) * ?L) sdu" "nb_data b' = nb_data ?b"
    "nb_size b' = nb_size ?b" "length (nb_buf b') = length (nb_buf ?b)"
    using seg_rx_add_loop_ok [OF segs len b(1,2) _ b(3)] by auto
  have full: "take ((?q + 1) * ?L) sdu = sdu" using seg_count_enough [of "length sdu" "sr_ctl rx"] by (simp add: last_seg_def)
  have nl: "nb_len b' = length sdu" using b'(2,3) full length_nb_bytes by metis
  have "take (length sdu) (nb_buf b') = sdu" using b'(3,4) full nl by (simp add: nb_bytes_def nb_read_def net_buf_simple_reset_def)
  then show ?thesis using b' nl by (simp add: seg_rx_assemble_def q net_buf_simple_reset_def del: upt_Suc)
qed

section \<open>Receiving the segments of a message\<close>

text \<open>
  Segments that arrive for a context, each with the replay entry and the network information it
  came with; \<open>None\<close> if one of them completes the message or goes wrong.
\<close>

fun seg_receive :: "trans_cfg \<Rightarrow> trans_env \<Rightarrow> nat \<Rightarrow> u64 \<Rightarrow> (nat option \<times> bt_mesh_net_rx \<times> bytes) list \<Rightarrow> trans_state \<Rightarrow> trans_state option" where
  "seg_receive tc te i sa [] s = Some s"
| "seg_receive tc te i sa ((rpl, rx, pdu) # ps) s =
     (case trans_seg_found tc te i pdu (drop 4 pdu) rpl rx sa s of
        Some (err, _, kind, _, s') \<Rightarrow> if kind = BT_MESH_FRIEND_PDU_COMPLETE \<or> err \<notin> {None, Some EALREADY} then None else seg_receive tc te i sa ps s'
      | None \<Rightarrow> None)"

text \<open>The context \<open>i\<close> is receiving the message and has exactly the segments of the set.\<close>

definition receiving :: "trans_cfg \<Rightarrow> bool \<Rightarrow> bytes \<Rightarrow> nat \<Rightarrow> nat set \<Rightarrow> trans_state \<Rightarrow> bool" where
  "receiving tc ctl sdu i K s \<longleftrightarrow> i < length (ts_rx s) \<and> sr_in_use (ts_rx s ! i) \<and> sr_ctl (ts_rx s ! i) = ctl \<and> rx_holds sdu (ts_rx s ! i) \<and>
     (\<forall>k. bit (sr_block (ts_rx s ! i)) k \<longleftrightarrow> k \<in> K) \<and> last_seg ctl sdu < tc_rx_seg_max tc \<and> length sdu \<le> BT_MESH_RX_SDU_MAX tc \<and> sdu \<noteq> [] \<and>
     (\<forall>k \<in> K. k \<le> last_seg ctl sdu)"

lemma BLOCK_COMPLETE_mask: "n < 32 \<Longrightarrow> bit (BLOCK_COMPLETE n) k \<longleftrightarrow> k \<le> n"
  unfolding BLOCK_COMPLETE_def
  by (simp only: push_bit_of_1 mask_eq_exp_minus_1 [symmetric]) (auto simp: bit_simps)

lemma BLOCK_COMPLETE_iff:
  assumes "n < 32" "\<forall>k. bit (w :: u32) k \<longleftrightarrow> k \<in> K"
  shows "w = BLOCK_COMPLETE n \<longleftrightarrow> K = {..n}"
proof
  assume "w = BLOCK_COMPLETE n"
  then show "K = {..n}" using assms(2) BLOCK_COMPLETE_mask [OF assms(1)] by auto
next
  assume "K = {..n}"
  then show "w = BLOCK_COMPLETE n" using assms(2) BLOCK_COMPLETE_mask [OF assms(1)] by (intro bit_word_eqI) simp
qed

lemma rx_holds_store:
  assumes "rx_holds sdu rx" "k < length (sr_seg rx)"
  shows "rx_holds sdu (rx\<lparr>sr_len := l, sr_last := x, sr_ack := y, sr_seg := (sr_seg rx)[k := Some (seg_chunk (sr_ctl rx) sdu k)], sr_block := bl\<rparr>)"
  using assms by (auto simp: rx_holds_def nth_list_update split: if_splits)

text \<open>The state after storing a segment of the message.\<close>

lemma receiving_store:
  assumes inv: "trans_inv tc a b n s" "i < b" "trans_cfg_ok tc" and tx: "tx_holds sdu tx" and r: "receiving tc (st_ctl tx) sdu i K s"
    and k: "k \<le> last_seg (st_ctl tx) sdu" "k \<notin> K" and free: "ts_free s \<noteq> 0"
    and pdu_def: "pdu = seg_pdu tx sdu k"
    and s3_def: "s3 = seg_rx_store i k (drop 4 pdu) (seg_rx_timers te i (seg_rx_len i pdu (drop 4 pdu) s))"
  shows "trans_inv tc a b n s3" "receiving tc (st_ctl tx) sdu i (insert k K) s3" "ts_free s3 = ts_free s - 1"
    "trans_seg_found tc te i pdu (drop 4 pdu) rpl rx sa s =
       (if insert k K \<noteq> {..last_seg (st_ctl tx) sdu} then Some (None, rx, BT_MESH_FRIEND_PDU_PARTIAL, sa, s3)
        else do {
          (err, rx, sa, s) \<leftarrow> seg_rx_complete tc te i pdu rpl rx sa s3;
          Some (err, rx, BT_MESH_FRIEND_PDU_COMPLETE, sa, s)
        })"
proof -
  note f = seg_pdu_fields [OF tx k(1), folded pdu_def]
  have i: "i < length (ts_rx s)" and use: "sr_in_use (ts_rx s ! i)" "sr_ctl (ts_rx s ! i) = st_ctl tx" and h: "rx_holds sdu (ts_rx s ! i)"
    and bl: "\<forall>k. bit (sr_block (ts_rx s ! i)) k \<longleftrightarrow> k \<in> K" and lim: "last_seg (st_ctl tx) sdu < tc_rx_seg_max tc" "length sdu \<le> BT_MESH_RX_SDU_MAX tc" "sdu \<noteq> []"
      "\<forall>k \<in> K. k \<le> last_seg (st_ctl tx) sdu"
    using r by (auto simp: receiving_def)
  have n: "unat (sr_seg_n (ts_rx s ! i)) = last_seg (st_ctl tx) sdu" using h use by (simp add: rx_holds_def)
  have q32: "last_seg (st_ctl tx) sdu < 32" using tx by (simp add: tx_holds_def)
  have rx: "rx_ok tc (ts_rx s ! i)" using trans_inv_rx inv by blast
  have segs: "k < length (sr_seg (ts_rx s ! i))" using rx k(1) n by (simp add: rx_ok_def)
  have for': "seg_for (ts_rx s ! i) pdu" using use n f k by (simp add: seg_for_def)
  have nb: "\<not> bit (sr_block (ts_rx s ! i)) (seg_o_of pdu)" using bl k(2) f by simp
  note cl = length_chunk_last [OF lim(3), where ctl = "st_ctl tx"]
  have size: "k = last_seg (st_ctl tx) sdu \<or> length (seg_chunk (st_ctl tx) sdu k) = seg_len (st_ctl tx)"
    using cl(2) [of k] k(1) by (cases "k = last_seg (st_ctl tx) sdu") simp_all
  have lens: "seg_o_of pdu = seg_n_of pdu \<or> length (drop 4 pdu) = seg_len (sr_ctl (ts_rx s ! i))"
    "seg_o_of pdu \<noteq> seg_n_of pdu \<or> seg_n_of pdu * seg_len (sr_ctl (ts_rx s ! i)) + length (drop 4 pdu) \<le> BT_MESH_RX_SDU_MAX tc"
    "length (drop 4 pdu) \<le> BT_MESH_APP_SEG_SDU_MAX"
    using f use cl(1) lim(2) length_seg_chunk size by (auto simp: BT_MESH_APP_SEG_SDU_MAX_def)
  show "trans_inv tc a b n s3" using trans_seg_found_store_inv [OF inv for' nb lens free, of te] by (simp add: s3_def f)
  note lf = seg_rx_len_fields [OF i, of pdu "drop 4 pdu"]
  have l: "i < length (ts_rx (seg_rx_len i pdu (drop 4 pdu) s))" using i by (simp add: lf)
  note tf = seg_rx_timers_fields [OF l, of te]
  show "ts_free s3 = ts_free s - 1" by (simp add: s3_def seg_rx_store_def tf lf)
  have rx3: "sr_seg (ts_rx s3 ! i) = (sr_seg (ts_rx s ! i))[k := Some (drop 4 pdu)]" "sr_block (ts_rx s3 ! i) = set_bit k (sr_block (ts_rx s ! i))"
    "sr_seg_n (ts_rx s3 ! i) = sr_seg_n (ts_rx s ! i)" "sr_ctl (ts_rx s3 ! i) = sr_ctl (ts_rx s ! i)" "sr_in_use (ts_rx s3 ! i) = sr_in_use (ts_rx s ! i)"
    "length (ts_rx s3) = length (ts_rx s)"
    using i by (simp_all add: s3_def seg_rx_store_def rx_table.ctxs_nth tf lf)
  have "rx_holds sdu (ts_rx s3 ! i)" using h segs use(2) by (auto simp: rx_holds_def rx3 f nth_list_update split: if_splits)
  then show "receiving tc (st_ctl tx) sdu i (insert k K) s3"
    using use bl lim k i q32 by (auto simp: receiving_def rx3 bit_set_bit_iff)
  have complete: "set_bit k (sr_block (ts_rx s ! i)) = BLOCK_COMPLETE (last_seg (st_ctl tx) sdu) \<longleftrightarrow> insert k K = {..last_seg (st_ctl tx) sdu}"
    by (rule BLOCK_COMPLETE_iff [OF q32]) (use bl k q32 in \<open>auto simp: bit_set_bit_iff\<close>)
  show "trans_seg_found tc te i pdu (drop 4 pdu) rpl rx sa s =
       (if insert k K \<noteq> {..last_seg (st_ctl tx) sdu} then Some (None, rx, BT_MESH_FRIEND_PDU_PARTIAL, sa, s3)
        else do {
          (err, rx, sa, s) \<leftarrow> seg_rx_complete tc te i pdu rpl rx sa s3;
          Some (err, rx, BT_MESH_FRIEND_PDU_COMPLETE, sa, s)
        })"
    unfolding trans_seg_found_eq [OF i] Let_def using nb lens free segs complete f(1,2)
    by (auto simp: s3_def not_less)
qed

lemma receiving_duplicate:
  assumes "tx_holds sdu tx" "receiving tc (st_ctl tx) sdu i K s" "k \<in> K" "k \<le> last_seg (st_ctl tx) sdu"
  shows "trans_seg_found tc te i (seg_pdu tx sdu k) (drop 4 (seg_pdu tx sdu k)) rpl rx sa s = Some (Some EALREADY, rx, BT_MESH_FRIEND_PDU_SINGLE, sa, s)"
  using assms seg_pdu_fields(1) [OF assms(1,4)] by (simp add: trans_seg_found_def Let_def receiving_def)

lemma seg_receive_ok:
  assumes "trans_inv tc a b n s" "i < b" "trans_cfg_ok tc" "tx_holds sdu tx" "receiving tc (st_ctl tx) sdu i K s"
    and "set ks \<subseteq> {..last_seg (st_ctl tx) sdu}" "K \<union> set ks \<noteq> {..last_seg (st_ctl tx) sdu}" "map (\<lambda>(rpl, rx, pdu). pdu) ps = map (seg_pdu tx sdu) ks"
    and "card ({..last_seg (st_ctl tx) sdu} - K) \<le> ts_free s"
  shows "\<exists>s1. seg_receive tc te i sa ps s = Some s1 \<and> trans_inv tc a b n s1 \<and> receiving tc (st_ctl tx) sdu i (K \<union> set ks) s1 \<and>
    card ({..last_seg (st_ctl tx) sdu} - (K \<union> set ks)) \<le> ts_free s1"
  using assms(1,5-9)
proof (induction ks arbitrary: ps K s)
  case (Cons k ks)
  let ?q = "last_seg (st_ctl tx) sdu"
  from Cons.prems(5) obtain rpl rx ps' where ps: "ps = (rpl, rx, seg_pdu tx sdu k) # ps'" "map (\<lambda>(rpl, rx, pdu). pdu) ps' = map (seg_pdu tx sdu) ks"
    by (cases ps) auto
  have k: "k \<le> ?q" using Cons.prems(3) by simp
  show ?case
  proof (cases "k \<in> K")
    case True
    from receiving_duplicate [OF assms(4) Cons.prems(2) True k]
    have "seg_receive tc te i sa ps s = seg_receive tc te i sa ps' s" by (simp add: ps(1))
    then show ?thesis using Cons.IH [OF Cons.prems(1,2) _ _ ps(2) Cons.prems(6)] Cons.prems(3,4) True by (simp add: insert_absorb)
  next
    case False
    have sub: "K \<subseteq> {..?q}" using Cons.prems(2) by (auto simp: receiving_def)
    have "k \<in> {..?q} - K" using k False by simp
    then have "0 < card ({..?q} - K)" by (metis card_gt_0_iff empty_iff finite_Diff finite_atMost)
    then have free: "ts_free s \<noteq> 0" using Cons.prems(6) by linarith
    define s3 where "s3 = seg_rx_store i k (drop 4 (seg_pdu tx sdu k)) (seg_rx_timers te i (seg_rx_len i (seg_pdu tx sdu k) (drop 4 (seg_pdu tx sdu k)) s))"
    note st = receiving_store [OF Cons.prems(1) assms(2-4) Cons.prems(2) k False free refl s3_def]
    have ne: "insert k K \<noteq> {..?q}" using Cons.prems(3,4) by auto
    have "seg_receive tc te i sa ps s = seg_receive tc te i sa ps' s3" using st(4) ne by (simp add: ps(1))
    moreover have "card ({..?q} - insert k K) \<le> ts_free s3" using Cons.prems(6) st(3) k False by (simp add: card_Diff_insert)
    ultimately show ?thesis using Cons.IH [OF st(1,2) _ _ ps(2)] Cons.prems(3,4) by simp
  qed
qed simp

text \<open>The message a context assembles to.\<close>

definition assembles :: "seg_rx \<Rightarrow> bytes \<Rightarrow> bool" where
  "assembles rx sdu \<longleftrightarrow> unat (sr_len rx) = length sdu \<and> (\<forall>buf aszmic. wf_buf buf \<and> length sdu \<le> nb_size buf \<longrightarrow>
     (\<exists>buf'. seg_rx_assemble rx buf aszmic = Some buf' \<and> nb_data buf' = 0 \<and> nb_size buf' = nb_size buf \<and> length (nb_buf buf') = length (nb_buf buf) \<and>
        nb_len buf' = (if sr_ctl rx then length sdu else length sdu - APP_MIC_LEN aszmic) \<and> take (length sdu) (nb_buf buf') = sdu))"

lemma reassemble:
  assumes "trans_inv tc n_tx n_rx n s" "i < n_rx" "trans_cfg_ok tc" "tx_holds sdu tx" "receiving tc (st_ctl tx) sdu i {} s"
    and "last_seg (st_ctl tx) sdu < ts_free s" "map (\<lambda>(rpl, rx, pdu). pdu) ps = map (seg_pdu tx sdu) ks"
    and "k \<notin> set ks" "insert k (set ks) = {..last_seg (st_ctl tx) sdu}"
  shows "\<exists>s1 s2. seg_receive tc te i sa ps s = Some s1 \<and>
    trans_seg_found tc te i (seg_pdu tx sdu k) (drop 4 (seg_pdu tx sdu k)) rpl rx sa s1 =
      do { (err, rx, sa, s') \<leftarrow> seg_rx_complete tc te i (seg_pdu tx sdu k) rpl rx sa s2;
           Some (err, rx, BT_MESH_FRIEND_PDU_COMPLETE, sa, s') } \<and>
    assembles (ts_rx s2 ! i) sdu"
proof -
  let ?q = "last_seg (st_ctl tx) sdu"
  have ks: "set ks \<subseteq> {..?q}" "{} \<union> set ks \<noteq> {..?q}" "k \<le> ?q" using assms(8,9) by auto
  have card: "card ({..?q} - {}) \<le> ts_free s" using assms(6) by simp
  from seg_receive_ok [OF assms(1-5) ks(1,2) assms(7) card, of te sa] obtain s1 where s1: "seg_receive tc te i sa ps s = Some s1"
    "trans_inv tc n_tx n_rx n s1" "receiving tc (st_ctl tx) sdu i (set ks) s1" "card ({..?q} - set ks) \<le> ts_free s1" by auto
  have "{..?q} - set ks = {k}" using assms(8,9) by auto
  then have free: "ts_free s1 \<noteq> 0" using s1(4) by auto
  define s3 where "s3 = seg_rx_store i k (drop 4 (seg_pdu tx sdu k)) (seg_rx_timers te i (seg_rx_len i (seg_pdu tx sdu k) (drop 4 (seg_pdu tx sdu k)) s1))"
  note st = receiving_store [OF s1(2) assms(2-4) s1(3) ks(3) assms(8) free refl s3_def]
  have r: "sr_in_use (ts_rx s3 ! i)" "rx_holds sdu (ts_rx s3 ! i)" "sdu \<noteq> []" "\<forall>k \<le> unat (sr_seg_n (ts_rx s3 ! i)). bit (sr_block (ts_rx s3 ! i)) k"
    "sr_ctl (ts_rx s3 ! i) = st_ctl tx"
    using st(2) assms(9) by (auto simp: receiving_def rx_holds_def)
  note ok3 = trans_inv_rx [OF st(1) assms(2)]
  have "assembles (ts_rx s3 ! i) sdu"
    using seg_rx_assemble_ok [OF ok3 r(1-4)] rx_holds_len [OF ok3 r(1-3)] r(4) by (simp add: assembles_def)
  then show ?thesis using s1(1) st(4) assms(9) by auto
qed

text \<open>
  C21: segmentation and reassembly are inverse.  A sending context is filled with a message that
  fits it.  The segments that \<open>seg_tx_buf_build\<close> then writes for it into advertising buffers,
  received in any order and any number of times by a context that is set up for the message, are
  all stored or recognised as duplicates; the one that completes the message leads to its
  delivery from a context that assembles to exactly the message sent, if there are as many free
  blocks as segments.  Without the friend feature every segment can be built; with it some of
  them may have gone to the friend queue instead.
\<close>

theorem segments_reassemble:
  assumes "trans_inv tc0 a0 b0 n0 s0" "j < a0" "st_nack_count (ts_tx s0 ! j) = 0" "trans_cfg_ok tc0" "length sdu \<le> tc_tx_seg_max tc0 * seg_len (op \<noteq> None)"
    and "seg_fill_loop tc0 te0 j net_tx op 0 sdu (upd_tx j (seg_tx_init tc0 net_tx (length sdu) cb op bl st) s0) = Some (None, s0')" "tx = ts_tx s0' ! j"
    and "trans_inv tc a b n s" "i < b" "trans_cfg_ok tc" "receiving tc (op \<noteq> None) sdu i {} s" "last_seg (op \<noteq> None) sdu < ts_free s" "\<forall>k. adv_ready (adv k)"
    and "map (\<lambda>(rpl, rx, pdu). Some pdu) ps = map (\<lambda>k. seg_wire (adv k) tx k) ks" "seg_wire (adv k) tx k = Some pdu"
    and "k \<notin> set ks" "insert k (set ks) = {..last_seg (op \<noteq> None) sdu}"
  shows "\<exists>s1 s2. seg_receive tc te i sa ps s = Some s1 \<and>
    trans_seg_found tc te i pdu (drop 4 pdu) rpl rx sa s1 =
      do { (err, rx, sa, s') \<leftarrow> seg_rx_complete tc te i pdu rpl rx sa s2;
           Some (err, rx, BT_MESH_FRIEND_PDU_COMPLETE, sa, s') } \<and>
    assembles (ts_rx s2 ! i) sdu \<and>
    (\<not> cfg_friend (tc_mesh tc0) \<longrightarrow> (\<forall>k \<le> last_seg (op \<noteq> None) sdu. seg_wire (adv k) tx k \<noteq> None))"
proof -
  let ?q = "last_seg (op \<noteq> None) sdu"
  note tx = seg_filled_holds [OF assms(1-6), folded assms(7)]
  have ne: "sdu \<noteq> []" using assms(11) by (simp add: receiving_def)
  have w: "seg_wire (adv k) tx k = (if st_seg tx ! k = None then None else Some (seg_pdu tx sdu k))" if "k \<le> ?q" for k
    using seg_wire_pdu [OF tx(1)] assms(13) tx(3) [OF ne] that by simp
  have le: "\<forall>k \<in> set ks. k \<le> ?q" "k \<le> ?q" using assms(17) by auto
  have pdu: "pdu = seg_pdu tx sdu k" using w [OF le(2)] assms(15) by (simp split: if_splits)
  have "map (\<lambda>(rpl, rx, pdu). pdu) ps = map (seg_pdu tx sdu) ks"
  proof (rule nth_equalityI)
    show len: "length (map (\<lambda>(rpl, rx, pdu). pdu) ps) = length (map (seg_pdu tx sdu) ks)" using arg_cong [OF assms(14), of length] by simp
    fix m assume "m < length (map (\<lambda>(rpl, rx, pdu). pdu) ps)"
    then have m: "m < length ps" "m < length ks" using len by simp_all
    have "map (\<lambda>(rpl, rx, pdu). Some pdu) ps ! m = map (\<lambda>k. seg_wire (adv k) tx k) ks ! m" using assms(14) by simp
    then have "Some (snd (snd (ps ! m))) = seg_wire (adv (ks ! m)) tx (ks ! m)" using m by (simp add: case_prod_beta)
    then show "map (\<lambda>(rpl, rx, pdu). pdu) ps ! m = map (seg_pdu tx sdu) ks ! m"
      using w [of "ks ! m"] le(1) m by (simp add: case_prod_beta split: if_splits)
  qed
  from reassemble [OF assms(8-10) tx(1) _ _ this assms(16), unfolded tx(2), OF assms(11,12,17)]
  obtain s1 s2 where "seg_receive tc te i sa ps s = Some s1"
    "trans_seg_found tc te i pdu (drop 4 pdu) rpl rx sa s1 =
      do { (err, rx, sa, s') \<leftarrow> seg_rx_complete tc te i pdu rpl rx sa s2; Some (err, rx, BT_MESH_FRIEND_PDU_COMPLETE, sa, s') }"
    "assembles (ts_rx s2 ! i) sdu" unfolding pdu by blast
  moreover have "\<not> cfg_friend (tc_mesh tc0) \<longrightarrow> (\<forall>k \<le> ?q. seg_wire (adv k) tx k \<noteq> None)"
  proof (intro impI allI)
    fix k assume "\<not> cfg_friend (tc_mesh tc0)" "k \<le> ?q"
    then show "seg_wire (adv k) tx k \<noteq> None" using w tx(4) [OF _ ne] by simp
  qed
  ultimately show ?thesis by blast
qed

text \<open>The node of the example, ready to receive the control message of the example.\<close>

definition seg_listening :: trans_state where
  "seg_listening = seg_state\<lparr>ts_rx := [(idle_rx 3)\<lparr>sr_in_use := True, sr_ctl := True, sr_seg_n := 2, sr_hdr := 0x8a\<rparr>]\<rparr>"

lemma seg_listening_inv: "trans_inv seg_cfg 1 1 4 seg_listening"
  by (simp add: trans_inv_def seg_listening_def seg_state_def tx_table.owned_def rx_table.owned_def tx_ok_def rx_ok_def idle_tx_def idle_rx_def seg_cfg_def)

lemma seg_waiting_ctx:
  "ts_tx (seg_waiting (replicate 20 1)) = [(idle_tx 3)\<lparr>st_sub := Some 0, st_seg := [Some (replicate 8 1), Some (replicate 8 1), Some (replicate 4 1)],
     st_seq_auth := SEQ_AUTH 5 9, st_src := 3, st_dst := 9, st_len := 20, st_hdr := 0x8a, st_seg_n := 2, st_nack_count := 3, st_attempts := 4, st_ttl := 5,
     st_ctl := True, st_retransmit := Some 650\<rparr>]"
  by code_simp

lemma seg_listening_receiving:
  "tx_holds (replicate 20 1) (ts_tx (seg_waiting (replicate 20 1)) ! 0)" "receiving seg_cfg True (replicate 20 1) 0 {} seg_listening"
  by (simp_all add: tx_holds_def seg_waiting_ctx idle_tx_def last_seg_def seg_len_def BT_MESH_CTL_SEG_SDU_MAX_def seg_chunk_def less_Suc_eq
      numeral_3_eq_3 receiving_def seg_listening_def seg_state_def idle_rx_def rx_holds_def seg_cfg_def BT_MESH_RX_SDU_MAX_def BT_MESH_APP_SEG_SDU_MAX_def)

text \<open>The sender's context before and after it is filled.\<close>

definition seg_ctl_tx :: bt_mesh_net_tx where
  "seg_ctl_tx = link_tx\<lparr>tx_ctx := (tx_ctx link_tx)\<lparr>ctx_addr := 9, ctx_app_idx := BT_MESH_KEY_UNUSED, ctx_send_rel := True\<rparr>\<rparr>"

definition seg_filled :: "trans_state option" where
  "seg_filled = map_option snd (seg_fill_loop seg_cfg seg_env 0 seg_ctl_tx (Some 0x0a) 0 (replicate 20 1)
     (upd_tx 0 (seg_tx_init seg_cfg seg_ctl_tx 20 None (Some 0x0a) False node_example) seg_state))"

lemma seg_filled_run:
  "seg_fill_loop seg_cfg seg_env 0 seg_ctl_tx (Some 0x0a) 0 (replicate 20 1)
     (upd_tx 0 (seg_tx_init seg_cfg seg_ctl_tx (length (replicate 20 (1 :: u8))) None (Some 0x0a) False node_example) seg_state) = Some (None, the seg_filled)"
  by code_simp

definition seg_adv :: net_buf_simple where
  "seg_adv = \<lparr>nb_data = 0, nb_len = 0, nb_size = 29, nb_buf = replicate 29 0\<rparr>"

definition seg_built :: "nat \<Rightarrow> bytes" where
  "seg_built k = the (seg_wire seg_adv (ts_tx (the seg_filled) ! 0) k)"

lemma seg_built_wire:
  "seg_wire seg_adv (ts_tx (the seg_filled) ! 0) 0 = Some (seg_built 0)" "seg_wire seg_adv (ts_tx (the seg_filled) ! 0) 1 = Some (seg_built 1)"
  "seg_wire seg_adv (ts_tx (the seg_filled) ! 0) 2 = Some (seg_built 2)" "length (st_seg (ts_tx (the seg_filled) ! 0)) = 3"
  by code_simp+

theorem segments_reassemble_witness:
  "\<exists>s1 s2. seg_receive seg_cfg seg_env 0 7 (map (\<lambda>k. (None, rx_example, seg_built k)) [2, 0, 2]) seg_listening = Some s1 \<and>
    trans_seg_found seg_cfg seg_env 0 (seg_built 1) (drop 4 (seg_built 1)) None rx_example 7 s1 =
      do { (err, rx, sa, s') \<leftarrow> seg_rx_complete seg_cfg seg_env 0 (seg_built 1) None rx_example 7 s2;
           Some (err, rx, BT_MESH_FRIEND_PDU_COMPLETE, sa, s') } \<and>
    assembles (ts_rx s2 ! 0) (replicate 20 1)"
proof -
  have cfg: "trans_cfg_ok seg_cfg" "trans_inv seg_cfg 1 1 4 seg_state" "st_nack_count (ts_tx seg_state ! 0) = 0"
    by (simp_all add: trans_inv_def seg_state_def tx_table.owned_def rx_table.owned_def tx_ok_def rx_ok_def idle_tx_def idle_rx_def seg_cfg_def trans_cfg_ok_def)
  have q: "last_seg (Some (0x0a :: u8) \<noteq> None) (replicate 20 (1 :: u8)) = 2" "length (replicate 20 (1 :: u8)) \<le> tc_tx_seg_max seg_cfg * seg_len (Some (0x0a :: u8) \<noteq> None)"
    by (simp_all add: last_seg_def seg_len_def BT_MESH_CTL_SEG_SDU_MAX_def seg_cfg_def)
  have adv: "\<forall>k :: nat. adv_ready seg_adv" by (simp add: adv_ready_def seg_adv_def wf_buf_def BT_MESH_NET_HDR_LEN_def)
  have ps: "map (\<lambda>(rpl, rx, pdu). Some pdu) (map (\<lambda>k. (None, rx_example, seg_built k)) [2, 0, 2]) =
      map (\<lambda>k. seg_wire seg_adv (ts_tx (the seg_filled) ! 0) k) [2, 0, 2]" using seg_built_wire by simp
  have ks: "1 \<notin> set [2, 0, 2 :: nat]" "insert 1 (set [2, 0, 2]) = {..last_seg (Some (0x0a :: u8) \<noteq> None) (replicate 20 (1 :: u8))}"
    unfolding q(1) by auto
  have r: "receiving seg_cfg (Some (0x0a :: u8) \<noteq> None) (replicate 20 1) 0 {} seg_listening"
    "last_seg (Some (0x0a :: u8) \<noteq> None) (replicate 20 (1 :: u8)) < ts_free seg_listening"
    using seg_listening_receiving(2) unfolding q(1) by (simp_all add: seg_listening_def seg_state_def)
  from segments_reassemble [OF cfg(2) zero_less_one cfg(3,1) q(2) seg_filled_run refl seg_listening_inv zero_less_one cfg(1) r adv ps seg_built_wire(2) ks,
      of seg_env 7 None rx_example]
  show ?thesis by (elim exE conjE) (intro exI conjI)
qed

end
