(* ===== verification/Mesh_Seg_Deliver.thy ===== *)
theory Mesh_Seg_Deliver
  imports Mesh_Seg_Wire
begin

text \<open>
  Access messages through the transport layer: what encryption writes, what the attempts to
  decrypt a reassembled message do, and the delivery of the clear text.
\<close>

section \<open>Sealed access messages\<close>

definition app_seal :: "bytes \<Rightarrow> bt_mesh_app_crypto_ctx \<Rightarrow> bytes \<Rightarrow> bytes" where
  "app_seal key ctx msg = ccm_seal key (create_app_nonce ctx) (fst (app_ad ctx)) (APP_MIC_LEN (ac_aszmic ctx)) msg"

lemma length_app_seal [simp]: "length (app_seal key ctx msg) = length msg + APP_MIC_LEN (ac_aszmic ctx)"
  by (simp add: app_seal_def APP_MIC_LEN_def)

lemma app_args: "ctx_ok ctx \<Longrightarrow> length m < 2 ^ 16 \<Longrightarrow> ccm_args (create_app_nonce ctx) (fst (app_ad ctx)) (APP_MIC_LEN (ac_aszmic ctx)) m"
  using app_ad_ok [of ctx] by (auto simp: ccm_args_def APP_MIC_LEN_def)

lemma app_ad_length: "ctx_ok ctx \<Longrightarrow> app_ad ctx = (fst (app_ad ctx), length (fst (app_ad ctx)))"
  using app_ad_ok [of ctx] by auto

lemma app_encrypt_seal:
  assumes "wf_buf buf" "ctx_ok ctx" "APP_MIC_LEN (ac_aszmic ctx) \<le> net_buf_simple_tailroom buf"
  shows "\<exists>buf'. bt_mesh_app_encrypt key ctx buf = Some (None, buf') \<and> nb_bytes buf' = app_seal key ctx (nb_bytes buf)"
proof -
  let ?M = "APP_MIC_LEN (ac_aszmic ctx)"
  have len: "nb_data buf + nb_len buf + ?M \<le> length (nb_buf buf)" "nb_len buf < 2 ^ 16"
    using assms by (auto simp: wf_buf_def nb_defs)
  have lb: "length (nb_bytes buf) = nb_len buf" using assms(1) by simp
  have enc: "bt_ccm_encrypt key (create_app_nonce ctx) (nb_from 0 buf) (nb_len buf) (fst (app_ad ctx)) (length (fst (app_ad ctx))) (nb_from 0 buf) ?M =
      (None, app_seal key ctx (nb_bytes buf) @ drop (nb_len buf + ?M) (nb_from 0 buf))"
    using ccm.enc_seal [OF app_args [OF assms(2)], of "nb_bytes buf" "nb_from 0 buf" "nb_from 0 buf" key] lb len
    by (simp add: app_seal_def nb_bytes_from) (simp add: nb_from_def)
  have add: "?M \<le> net_buf_simple_tailroom (nb_set_from 0 m buf)" for m using assms(3) by (simp add: nb_set_from_def nb_defs)
  show ?thesis unfolding bt_mesh_app_encrypt_def Let_def
    by (subst app_ad_length [OF assms(2)], subst prod.case, subst enc)
       (use add len lb in \<open>simp add: net_buf_simple_add_def Let_def nb_bytes_def nb_read_def nb_set_from_def\<close>)
qed

section \<open>Decryption attempts\<close>

text \<open>
  What an attempt needs: an assembly buffer for the message and an output buffer, a view of the
  same memory, of the size of the clear text.  Attempts keep it.
\<close>

definition decrypt_bufs :: "nat \<Rightarrow> nat \<Rightarrow> net_buf_simple \<times> net_buf_simple \<Rightarrow> bool" where
  "decrypt_bufs cap len st \<longleftrightarrow> wf_buf (fst st) \<and> nb_size (fst st) = cap \<and> nb_size (snd st) = len"

lemma sdu_try_decrypt_open:
  assumes "assembles rx sdu" "\<not> sr_ctl rx" "ctx_ok crypto" "length sdu = len + APP_MIC_LEN (ac_aszmic crypto)"
    and "decrypt_bufs cap len st" "length sdu \<le> cap"
  shows "\<exists>st'. sdu_try_decrypt crypto (Some rx) key (Some st) = ((\<exists>m. length m = len \<and> sdu = app_seal key crypto m), Some st') \<and>
    decrypt_bufs cap len st' \<and> (\<forall>m. length m = len \<longrightarrow> sdu = app_seal key crypto m \<longrightarrow> nb_bytes (snd st') = m)"
proof -
  let ?M = "APP_MIC_LEN (ac_aszmic crypto)"
  obtain buf out where st: "st = (buf, out)" by (cases st)
  from assms(1,5,6) obtain b where b: "seg_rx_assemble rx buf (ac_aszmic crypto) = Some b" "nb_data b = 0" "nb_size b = nb_size buf"
      "length (nb_buf b) = length (nb_buf buf)" "nb_len b = length sdu - ?M" "take (length sdu) (nb_buf b) = sdu"
    using assms(2) by (auto simp: assembles_def decrypt_bufs_def st)
  have size: "nb_size buf = cap" "cap \<le> length (nb_buf buf)" "cap < 2 ^ 16" "nb_size out = len" using assms(5) by (auto simp: decrypt_bufs_def st wf_buf_def)
  define o1 where "o1 = (net_buf_simple_reset out)\<lparr>nb_buf := nb_buf b\<rparr>"
  define r where "r = bt_ccm_decrypt key (create_app_nonce crypto) (nb_buf b) len (fst (app_ad crypto)) (length (fst (app_ad crypto))) (nb_buf b) ?M"
  have args: "ccm_args (create_app_nonce crypto) (fst (app_ad crypto)) ?M (replicate len 0)"
    using assms(4,6) size by (intro app_args [OF assms(3)]) simp
  have big: "len + ?M \<le> length (nb_buf b)" "len \<le> length (nb_buf b)" using assms(4,6) size b(4) by simp_all
  have acc: "fst r = None \<longleftrightarrow> (\<exists>m. length m = len \<and> sdu = app_seal key crypto m)"
    unfolding r_def using ccm.dec_accepts_iff(1) [OF args _ big, of key] b(6) assms(4) by (simp add: app_seal_def eq_commute)
  let ?c = "take len (nb_buf b)"
  have r: "snd r = ccm_cipher (aes128 key) (create_app_nonce crypto) ?c @ drop len (nb_buf b)"
    using ccm.dec_open [of "create_app_nonce crypto" "fst (app_ad crypto)" ?M ?c "nb_buf b" "nb_buf b" key] args big
    by (simp add: r_def Let_def ccm_args_def)
  have lr: "length (snd r) = length (nb_buf b)" using big by (simp add: r ccm.cipher_length)
  have msg: "take len (snd r) = m" if "length m = len" "sdu = app_seal key crypto m" for m
    using ccm.dec_seal [OF app_args [OF assms(3)], of m "nb_buf b" key "nb_buf b"] that big b(6) size assms(4,6) by (simp add: r_def app_seal_def)
  define st' where "st' = (b\<lparr>nb_buf := snd r\<rparr>, if fst r = None then o1\<lparr>nb_buf := snd r, nb_len := len\<rparr> else o1\<lparr>nb_buf := snd r\<rparr>)"
  have lb: "nb_len b = len" using b(5) assms(4) by simp
  have dec: "bt_mesh_app_decrypt key crypto b o1 = Some (fst r, snd st')"
    unfolding bt_mesh_app_decrypt_def Let_def
    by (subst app_ad_length [OF assms(3)], subst prod.case)
       (simp add: nb_from_def b(2) lb o1_def net_buf_simple_reset_def flip: r_def,
        simp add: st'_def case_prod_unfold nb_set_from_def net_buf_simple_add_def Let_def net_buf_simple_tailroom_def net_buf_simple_headroom_def
          size lb o1_def net_buf_simple_reset_def)
  have "sdu_try_decrypt crypto (Some rx) key (Some st) = (fst r = None, Some st')"
    using dec by (simp add: sdu_try_decrypt_def st b(1) o1_def [symmetric] Let_def) (simp add: st'_def)
  moreover have "decrypt_bufs cap len st'"
    using size b lr big assms(4,6) by (simp add: decrypt_bufs_def st'_def wf_buf_def o1_def net_buf_simple_reset_def)
  moreover have "nb_bytes (snd st') = m" if "length m = len" "sdu = app_seal key crypto m" for m
    using msg [OF that] acc that by (auto simp: st'_def nb_bytes_def nb_read_def o1_def net_buf_simple_reset_def)
  ultimately show ?thesis using acc by auto
qed

section \<open>Delivery\<close>

text \<open>
  The search for the key of a reassembled message: wrong keys with the same identifier are
  tried first and rejected, and the attempts leave the message intact for the right one.
\<close>

definition key_opens :: "bytes \<Rightarrow> bt_mesh_app_crypto_ctx \<Rightarrow> bytes \<Rightarrow> bool" where
  "key_opens key crypto sdu \<longleftrightarrow> (\<exists>m. length m + APP_MIC_LEN (ac_aszmic crypto) = length sdu \<and> sdu = app_seal key crypto m)"

lemma app_find_delivers:
  assumes rx: "assembles rx sdu" "\<not> sr_ctl rx" "ctx_ok crypto" "sdu = app_seal key crypto msg" "length sdu \<le> cap"
    and app: "app_has net_idx new aid key app" and pre: "\<forall>a \<in> set pre. \<forall>key'. app_has net_idx new aid key' a \<longrightarrow> \<not> key_opens key' crypto sdu"
    and st: "decrypt_bufs cap (length msg) st"
  shows "\<exists>st'. app_find_loop aid net_idx new (sdu_try_decrypt crypto (Some rx)) (pre @ app # post) (Some st) = (ap_app_idx app, Some st') \<and> nb_bytes (snd st') = msg"
  using pre st
proof (induction pre arbitrary: st)
  case Nil
  have len: "length sdu = length msg + APP_MIC_LEN (ac_aszmic crypto)" using rx(4) by simp
  have opens: "(\<exists>m. length m = length msg \<and> sdu = app_seal key crypto m) = True" using rx(4) by blast
  from sdu_try_decrypt_open [OF rx(1-3) len Nil(2) rx(5), of key, unfolded opens] rx(4) obtain st' where
    "sdu_try_decrypt crypto (Some rx) key (Some st) = (True, Some st')" "nb_bytes (snd st') = msg" by blast
  then show ?case using app by (auto simp: app_has_def Let_def)
next
  case (Cons a pre)
  have len: "length sdu = length msg + APP_MIC_LEN (ac_aszmic crypto)" using rx(4) by simp
  let ?cred = "ap_keys a ! (if new \<and> ap_updated a then 1 else 0)"
  show ?case
  proof (cases "ap_app_idx a = BT_MESH_KEY_UNUSED \<or> ap_net_idx a \<noteq> net_idx \<or> ak_id ?cred \<noteq> aid")
    case True
    then show ?thesis using Cons by (auto simp: Let_def)
  next
    case False
    then have has: "app_has net_idx new aid (ak_val ?cred) a" by (simp add: app_has_def)
    then have no: "\<not> key_opens (ak_val ?cred) crypto sdu" using Cons.prems(1) by auto
    have opens: "(\<exists>m. length m = length msg \<and> sdu = app_seal (ak_val ?cred) crypto m) = False" using no len by (auto simp: key_opens_def)
    from sdu_try_decrypt_open [OF rx(1-3) len Cons.prems(2) rx(5), of "ak_val ?cred", unfolded opens] obtain st' where
      st': "sdu_try_decrypt crypto (Some rx) (ak_val ?cred) (Some st) = (False, Some st')" "decrypt_bufs cap (length msg) st'"
      by blast
    have "app_find_loop aid net_idx new (sdu_try_decrypt crypto (Some rx)) ((a # pre) @ app # post) (Some st) =
        app_find_loop aid net_idx new (sdu_try_decrypt crypto (Some rx)) (pre @ app # post) (Some st')"
      using False st'(1) by (simp add: Let_def)
    then show ?thesis using Cons.IH [OF _ st'(2)] Cons.prems(1) by simp
  qed
qed

lemma sdu_recv_delivers:
  assumes "assembles seg (app_seal key crypto msg)" "\<not> sr_ctl seg" "ctx_ok crypto" "\<not> ac_dev_key crypto" "length (app_seal key crypto msg) \<le> cap" "cap < 2 ^ 16"
    and "sdu_crypto_ctx hdr aszmic (Some seg) rx s = crypto" "cfg_friend (tc_mesh tc) \<longrightarrow> rx_local_match rx"
    and "ks_apps (ts_keys s) = pre @ app # post" "app_has (sn_net_idx (ks_subnets (ts_keys s) ! rx_sub rx)) (rx_new_key rx) (AID hdr) key app"
    and "\<forall>a \<in> set pre. \<forall>key'. app_has (sn_net_idx (ks_subnets (ts_keys s) ! rx_sub rx)) (rx_new_key rx) (AID hdr) key' a \<longrightarrow>
      \<not> key_opens key' crypto (app_seal key crypto msg)"
    and "decrypt_bufs cap (length msg) (buf, out)"
  shows "sdu_recv tc te rx hdr aszmic buf out (Some seg) s =
    Some (None, rx\<lparr>rx_ctx := (rx_ctx rx)\<lparr>ctx_app_idx := ap_app_idx app\<rparr>\<rparr>, trans_output (Model_recv msg (ap_app_idx app)) s)"
proof -
  from app_find_delivers [OF assms(1-3) refl assms(5,10,11,12), of post] obtain st' where
    st': "app_find_loop (AID hdr) (sn_net_idx (ks_subnets (ts_keys s) ! rx_sub rx)) (rx_new_key rx) (sdu_try_decrypt crypto (Some seg)) (ks_apps (ts_keys s))
       (Some (buf, out)) = (ap_app_idx app, Some st')" "nb_bytes (snd st') = msg" unfolding assms(9) by blast
  have idx: "ap_app_idx app \<noteq> BT_MESH_KEY_UNUSED" using assms(10) by (simp add: app_has_def)
  show ?thesis unfolding sdu_recv_def assms(7) bt_mesh_app_key_find_def Let_def
    using assms(4,8) st' idx by (auto simp: case_prod_unfold)
qed

text \<open>
  C22: an access message survives the transport layer.  If a receiving context assembles to what
  \<open>trans_encrypt\<close> made of the message and the receiver derives the sender's nonce fields, the
  complete message is decrypted and handed to the access layer unchanged, with the index of
  the application key, also when other keys with the same identifier are tried first; then the
  context is released.
\<close>

theorem access_message_delivered:
  assumes "wf_buf msg" "0 < nb_len msg" "APP_MIC_LEN (if tx_aszmic tx then 1 else 0) \<le> net_buf_simple_tailroom msg"
    and "ctx_ok (trans_crypto_ctx tx s0)" "\<not> BT_MESH_IS_DEV_KEY (ctx_app_idx (tx_ctx tx))" "trans_encrypt tx key msg s0 = Some (None, sealed)"
    and "assembles (ts_rx s ! i) (nb_bytes sealed)" "\<not> sr_ctl (ts_rx s ! i)" "\<not> rx_ctl rx"
    and "length (nb_bytes sealed) \<le> BT_MESH_RX_SDU_MAX tc" "trans_cfg_ok tc"
    and "sdu_crypto_ctx (hdr ! 0) (ASZMIC hdr) (Some (ts_rx s ! i)) rx s = trans_crypto_ctx tx s0" "cfg_friend (tc_mesh tc) \<longrightarrow> rx_local_match rx"
    and "ks_apps (ts_keys s) = pre @ app # post" "app_has (sn_net_idx (ks_subnets (ts_keys s) ! rx_sub rx)) (rx_new_key rx) (AID (hdr ! 0)) key app"
    and "\<forall>a \<in> set pre. \<forall>key'. app_has (sn_net_idx (ks_subnets (ts_keys s) ! rx_sub rx)) (rx_new_key rx) (AID (hdr ! 0)) key' a \<longrightarrow>
      \<not> key_opens key' (trans_crypto_ctx tx s0) (nb_bytes sealed)"
  shows "seg_rx_deliver tc te i hdr rx sa s =
    map_option (\<lambda>s'. (None, rx\<lparr>rx_ctx := (rx_ctx rx)\<lparr>ctx_app_idx := ap_app_idx app\<rparr>\<rparr>, sa, s'))
      (seg_rx_reset tc i False (trans_output (Model_recv (nb_bytes msg) (ap_app_idx app)) s))"
proof -
  let ?c = "trans_crypto_ctx tx s0" and ?cap = "BT_MESH_RX_SDU_MAX tc"
  have mic: "ac_aszmic ?c = (if tx_aszmic tx then 1 else 0)" "\<not> ac_dev_key ?c" using assms(5) by (simp_all add: trans_crypto_ctx_def)
  have aszmic: "ASZMIC hdr = ac_aszmic ?c" using arg_cong [OF assms(12), of ac_aszmic] by (simp add: sdu_crypto_ctx_def)
  have sealed: "nb_bytes sealed = app_seal key ?c (nb_bytes msg)"
    using app_encrypt_seal [OF assms(1,4), of key] assms(3,6) mic by (auto simp: trans_encrypt_def)
  have len: "unat (sr_len (ts_rx s ! i)) = nb_len msg + APP_MIC_LEN (ASZMIC hdr)"
    using assms(1,7) by (simp add: assembles_def sealed aszmic)
  have cap: "?cap < 2 ^ 16" using assms(11) by (simp add: BT_MESH_RX_SDU_MAX_def BT_MESH_APP_SEG_SDU_MAX_def trans_cfg_ok_def)
  have st: "decrypt_bufs ?cap (length (nb_bytes msg)) (\<lparr>nb_data = 0, nb_len = 0, nb_size = ?cap, nb_buf = replicate ?cap 0\<rparr>,
      \<lparr>nb_data = 0, nb_len = 0, nb_size = nb_len msg, nb_buf = replicate ?cap 0\<rparr>)"
    using assms(1) cap by (simp add: decrypt_bufs_def wf_buf_def [of "\<lparr>nb_data = 0, nb_len = 0, nb_size = ?cap, nb_buf = replicate ?cap 0\<rparr>"])
  note del = sdu_recv_delivers [OF assms(7) [unfolded sealed] assms(8,4) mic(2) assms(10) [unfolded sealed] cap assms(12-15) assms(16) [unfolded sealed] st, of te]
  show ?thesis unfolding seg_rx_deliver_def Let_def using assms(2,9) len del
    by (simp add: map_conv_bind_option comp_def)
qed

text \<open>A message of twenty bytes from node 9 to this node, and the context that holds its two segments.\<close>

definition sdu_tx :: bt_mesh_net_tx where
  "sdu_tx = link_tx\<lparr>tx_src := 9, tx_ctx := (tx_ctx link_tx)\<lparr>ctx_addr := 8, ctx_app_idx := 1\<rparr>\<rparr>"

definition sdu_buf :: "nat \<Rightarrow> net_buf_simple" where
  "sdu_buf len = \<lparr>nb_data = 0, nb_len = len, nb_size = 40, nb_buf = replicate 40 6\<rparr>"

definition sdu_received :: "bytes \<Rightarrow> trans_state" where
  "sdu_received sdu = seg_state\<lparr>ts_rx := [(idle_rx 3)\<lparr>sr_in_use := True, sr_seg_n := 1, sr_seq_auth := 9, sr_block := 3, sr_len := 24,
     sr_seg := [Some (seg_chunk False sdu 0), Some (seg_chunk False sdu 1), None]\<rparr>]\<rparr>"

lemma sdu_received_assembles:
  assumes "length sdu = 24"
  shows "assembles (ts_rx (sdu_received sdu) ! 0) sdu"
proof -
  let ?rx = "ts_rx (sdu_received sdu) ! 0"
  have block: "sr_block ?rx = mask 2" by (simp add: sdu_received_def mask_eq_exp_minus_1)
  have bits: "bit (sr_block ?rx) k \<longleftrightarrow> k < 2" for k unfolding block by (auto simp: bit_mask_iff)
  have rx: "sr_seg ?rx = [Some (seg_chunk False sdu 0), Some (seg_chunk False sdu 1), None]" "sr_seg_n ?rx = 1" "sr_len ?rx = 24" "\<not> sr_ctl ?rx" "sr_in_use ?rx"
    by (simp_all add: sdu_received_def idle_rx_def)
  have "rx_ok seg_cfg ?rx" unfolding rx_ok_def seg_size_ok_def rx bits
    using assms rx(4,5) by (auto simp: seg_cfg_def seg_chunk_def seg_len_def BT_MESH_APP_SEG_SDU_MAX_def less_Suc_eq numeral_3_eq_3)
  moreover have "rx_holds sdu ?rx" unfolding rx_holds_def rx
    using assms rx(4) by (auto simp: last_seg_def seg_len_def BT_MESH_APP_SEG_SDU_MAX_def less_Suc_eq numeral_3_eq_3)
  moreover have "\<forall>k \<le> unat (sr_seg_n ?rx). bit (sr_block ?rx) k" "unat (sr_len ?rx) = length sdu" "sdu \<noteq> []" unfolding rx bits using assms by auto
  ultimately show ?thesis unfolding assembles_def using seg_rx_assemble_ok [of seg_cfg ?rx sdu] rx(5) by blast
qed

theorem access_message_delivered_witness:
  "\<exists>sealed. trans_encrypt sdu_tx (replicate 16 2) (sdu_buf 20) seg_state = Some (None, sealed) \<and>
     seg_rx_deliver seg_cfg seg_env 0 [0xc4, 0, 0, 0] rx_example 7 (sdu_received (nb_bytes sealed)) =
       map_option (\<lambda>s'. (None, rx_example\<lparr>rx_ctx := ctx_example\<lparr>ctx_app_idx := 1\<rparr>\<rparr>, 7, s'))
         (seg_rx_reset seg_cfg 0 False (trans_output (Model_recv (replicate 20 6) 1) (sdu_received (nb_bytes sealed))))"
proof -
  let ?c = "trans_crypto_ctx sdu_tx seg_state"
  have buf: "wf_buf (sdu_buf 20)" "nb_bytes (sdu_buf 20) = replicate 20 6" "net_buf_simple_tailroom (sdu_buf 20) = 20"
    by (simp_all add: sdu_buf_def wf_buf_def nb_bytes_def nb_read_def nb_defs)
  have dk: "\<not> BT_MESH_IS_DEV_KEY (ctx_app_idx (tx_ctx sdu_tx))" by code_simp
  have c: "ctx_ok ?c" "APP_MIC_LEN (ac_aszmic ?c) = 4" by (simp_all add: ctx_ok_def trans_crypto_ctx_def sdu_tx_def link_tx_def APP_MIC_LEN_def BT_MESH_ADDR_IS_VIRTUAL_def)
  from app_encrypt_seal [OF buf(1) c(1), of "replicate 16 2"] obtain sealed where
    sealed: "trans_encrypt sdu_tx (replicate 16 2) (sdu_buf 20) seg_state = Some (None, sealed)"
      "nb_bytes sealed = app_seal (replicate 16 2) ?c (replicate 20 6)" by (auto simp: c(2) buf trans_encrypt_def)
  have len: "length (nb_bytes sealed) = 24" by (simp add: sealed(2) c(2))
  have ctx: "sdu_crypto_ctx 0xc4 (ASZMIC [0xc4, 0, 0, 0]) (Some (ts_rx (sdu_received sdu) ! 0)) rx_example (sdu_received sdu) = ?c" for sdu
    using dk by (simp add: sdu_crypto_ctx_def trans_crypto_ctx_def sdu_received_def seg_state_def rx_example_def ctx_example_def sdu_tx_def link_tx_def
      link_layer_def node_example_def BT_MESH_NET_IVI_RX_def BT_MESH_NET_IVI_TX_def ASZMIC_def AKF_def BT_MESH_ADDR_IS_VIRTUAL_def)
  let ?app = "ks_apps app_example_keys ! 0"
  have app: "ks_apps (ts_keys (sdu_received sdu)) = [] @ ?app # []" "ap_app_idx ?app = 1"
      "app_has (sn_net_idx (ks_subnets (ts_keys (sdu_received sdu)) ! rx_sub rx_example)) (rx_new_key rx_example) (AID ([0xc4, 0, 0, 0] ! 0)) (replicate 16 2) ?app"
      "rx_ctx rx_example = ctx_example" for sdu
    by (simp_all add: sdu_received_def seg_state_def app_example_keys_def rx_example_def app_has_def AID_def AID_MASK_def)
  have d: "seg_rx_deliver seg_cfg seg_env 0 [0xc4, 0, 0, 0] rx_example 7 (sdu_received (nb_bytes sealed)) =
       map_option (\<lambda>s'. (None, rx_example\<lparr>rx_ctx := (rx_ctx rx_example)\<lparr>ctx_app_idx := ap_app_idx ?app\<rparr>\<rparr>, 7, s'))
         (seg_rx_reset seg_cfg 0 False (trans_output (Model_recv (nb_bytes (sdu_buf 20)) (ap_app_idx ?app)) (sdu_received (nb_bytes sealed))))"
    by (rule access_message_delivered [OF buf(1) _ _ c(1) dk sealed(1) sdu_received_assembles [OF len] _ _ _ _ _ _ app(1) app(3)])
       (use ctx in \<open>simp_all add: len sdu_buf_def nb_defs sdu_tx_def link_tx_def APP_MIC_LEN_def sdu_received_def idle_rx_def rx_example_def
          BT_MESH_RX_SDU_MAX_def BT_MESH_APP_SEG_SDU_MAX_def seg_cfg_def trans_cfg_ok_def\<close>)
  show ?thesis using sealed(1) d [unfolded app buf(2)] by blast
qed

section \<open>Messages with a long check value\<close>

text \<open>
  C26: \<open>bt_mesh_trans_send\<close> bounds the message by the largest size less the short check value of
  four bytes, but uses the long one of eight when the message is segmented and its buffer has
  eight spare bytes.  A message within the bound whose size with the long check value exceeds
  the largest one then always makes \<open>send_seg\<close> write past the segment array of its context,
  unless no context is free.
\<close>

theorem trans_send_long_mic_overflow:
  assumes "trans_cfg_ok tc" "trans_inv tc a b n s" "wf_buf msg" "ctx_send_rel (tx_ctx tx) \<or> BT_MESH_SDU_UNSEG_MAX < nb_len msg"
    and "BT_MESH_TX_SDU_MAX tc - 8 < nb_len msg" "nb_len msg \<le> BT_MESH_TX_SDU_MAX tc - BT_MESH_MIC_SHORT" "8 \<le> net_buf_simple_tailroom msg"
    and "ctx_send_ttl (tx_ctx tx) \<le> BT_MESH_TTL_MAX" "ctx_addr (tx_ctx tx) \<noteq> BT_MESH_ADDR_UNASSIGNED" "\<not> BT_MESH_ADDR_IS_VIRTUAL (ctx_addr (tx_ctx tx))"
    and "\<not> BT_MESH_IS_DEV_KEY (ctx_app_idx (tx_ctx tx))" "app_get (ctx_app_idx (tx_ctx tx)) (ts_keys s) = Some k"
      "bt_mesh_subnet_get (ap_net_idx (ks_apps (ts_keys s) ! k)) (ts_keys s) = Some sub"
    and "\<exists>c \<in> set (ts_tx s). st_nack_count c = 0"
  shows "bt_mesh_trans_send tc te tx msg cb s = None"
proof -
  define ctx where "ctx = (if BT_MESH_SDU_UNSEG_MAX < nb_len msg then (tx_ctx tx)\<lparr>ctx_send_rel := True\<rparr> else tx_ctx tx)"
  have ctx: "ctx_send_rel ctx" "ctx_addr ctx = ctx_addr (tx_ctx tx)" "ctx_app_idx ctx = ctx_app_idx (tx_ctx tx)"
    using assms(4) by (auto simp: ctx_def)
  have ttl: "ctx_send_ttl (tx_ctx tx) \<noteq> BT_MESH_TTL_DEFAULT" using assms(8) by (auto simp: BT_MESH_TTL_MAX_def BT_MESH_TTL_DEFAULT_def)
  obtain key aid where res: "bt_mesh_keys_resolve (tc_mesh tc) (bm_dev_key (ts_net s)) (ne_has_addr (te_net te)) (te_cdb_node te) ctx (ts_keys s) = Inr (sub, key, aid)"
    using assms(11-13) ctx by (simp add: bt_mesh_keys_resolve_def Let_def)
  have checks: "bt_mesh_trans_send tc te tx msg cb s =
      trans_send_keyed tc te (tx\<lparr>tx_ctx := ctx, tx_sub := sub, tx_xmit := te_transmit te, tx_aid := ucast aid\<rparr>) key msg cb s"
  proof (cases "BT_MESH_SDU_UNSEG_MAX < nb_len msg")
    case True
    then show ?thesis using assms(5-11) ttl ctx res unfolding bt_mesh_trans_send_def Let_def by (simp add: BT_MESH_MIC_SHORT_def ctx_def leD)
  next
    case False
    then show ?thesis using assms(5-11) ttl ctx res unfolding bt_mesh_trans_send_def Let_def by (simp add: BT_MESH_MIC_SHORT_def ctx_def leD)
  qed
  define tx' where "tx' = tx\<lparr>tx_ctx := ctx, tx_sub := sub, tx_xmit := te_transmit te, tx_aid := ucast aid, tx_aszmic := True\<rparr>"
  have ok': "ctx_ok (trans_crypto_ctx tx' s)" "APP_MIC_LEN (ac_aszmic (trans_crypto_ctx tx' s)) = 8"
    using assms(10) ctx by (simp_all add: ctx_ok_def trans_crypto_ctx_def tx'_def APP_MIC_LEN_def)
  obtain m where m: "trans_encrypt tx' key msg s = Some (None, m)" "nb_bytes m = app_seal key (trans_crypto_ctx tx' s) (nb_bytes msg)"
    using app_encrypt_seal [OF assms(3) ok'(1), of key] assms(7) ok'(2) by (auto simp: trans_encrypt_def)
  have len: "length (nb_bytes m) = nb_len msg + 8" using assms(3) m(2) ok'(2) by simp
  have "send_seg tc te tx' (nb_bytes m) cb None s = None"
    using send_seg_overflow [OF assms(2,1), of None "nb_bytes m" te tx' cb] assms(1,5,6,14) len
    by (auto simp: seg_len_def BT_MESH_TX_SDU_MAX_def BT_MESH_APP_SEG_SDU_MAX_def trans_cfg_ok_def)
  then show ?thesis unfolding checks trans_send_keyed_def Let_def 
    using assms(7) ctx(1) m(1) by (simp add: tx'_def)
qed

theorem trans_send_long_mic_overflow_witness:
  "bt_mesh_trans_send seg_cfg seg_env sdu_tx (sdu_buf 30) None seg_state = None"
proof -
  have buf: "wf_buf (sdu_buf 30)" "net_buf_simple_tailroom (sdu_buf 30) = 10" "nb_len (sdu_buf 30) = 30"
    by (simp_all add: sdu_buf_def wf_buf_def nb_defs)
  have cfg: "trans_cfg_ok seg_cfg" "BT_MESH_TX_SDU_MAX seg_cfg = 36"
    by (simp_all add: trans_cfg_ok_def seg_cfg_def BT_MESH_TX_SDU_MAX_def BT_MESH_APP_SEG_SDU_MAX_def)
  have inv: "trans_inv seg_cfg 1 1 4 seg_state" "\<exists>c \<in> set (ts_tx seg_state). st_nack_count c = 0"
    by (simp_all add: trans_inv_def seg_state_def tx_table.owned_def rx_table.owned_def tx_ok_def rx_ok_def idle_tx_def idle_rx_def seg_cfg_def)
  have ctx: "ctx_send_ttl (tx_ctx sdu_tx) \<le> BT_MESH_TTL_MAX" "ctx_addr (tx_ctx sdu_tx) \<noteq> BT_MESH_ADDR_UNASSIGNED"
      "\<not> BT_MESH_ADDR_IS_VIRTUAL (ctx_addr (tx_ctx sdu_tx))" "\<not> BT_MESH_IS_DEV_KEY (ctx_app_idx (tx_ctx sdu_tx))"
    by code_simp+
  have app: "app_get (ctx_app_idx (tx_ctx sdu_tx)) (ts_keys seg_state) = Some 0"
      "bt_mesh_subnet_get (ap_net_idx (ks_apps (ts_keys seg_state) ! 0)) (ts_keys seg_state) = Some 0"
    by (simp_all add: app_get_def bt_mesh_subnet_get_def seg_state_def app_example_keys_def sdu_tx_def)
  show ?thesis
    by (rule trans_send_long_mic_overflow [OF cfg(1) inv(1) buf(1) _ _ _ _ ctx app inv(2)]) (simp_all add: buf cfg BT_MESH_SDU_UNSEG_MAX_def BT_MESH_MIC_SHORT_def)
qed

end
