(* ===== verification/Mesh_Seg_Ack.thy ===== *)
theory Mesh_Seg_Ack
  imports Mesh_Seg_Wire
begin

text \<open>
  The life of a segmented transmission: what an acknowledgement releases, how a transmission
  completes, and that one that is never acknowledged ends after a bounded number of
  retransmissions.
\<close>

section \<open>Completing a transmission\<close>

lemma seg_tx_free_loop_total:
  "trans_inv tc a b n s \<Longrightarrow> i < a \<Longrightarrow> \<forall>k \<in> set ks. k \<le> unat (st_seg_n (ts_tx s ! i)) \<Longrightarrow> \<exists>s'. seg_tx_free_loop i ks s = Some s'"
proof (induction i ks s rule: seg_tx_free_loop.induct)
  case (2 i k ks s)
  have k: "k < length (st_seg (ts_tx s ! i))" using trans_inv_tx [OF 2(3,4)] 2(5) by (auto simp: tx_ok_def)
  have done_n: "st_seg_n (ts_tx (seg_tx_done i k s) ! i) = st_seg_n (ts_tx s ! i)"
    using trans_inv_len [OF 2(3)] 2(4) by (simp add: seg_tx_done_nth)
  show ?case
  proof (cases "st_nack_count (ts_tx s ! i) = 0 \<or> st_seg (ts_tx s ! i) ! k = None")
    case True
    then show ?thesis using 2(1,3-5) k by auto
  next
    case False
    then have inv: "trans_inv tc a b n (seg_tx_done i k s)" using 2(3,4) k by (intro trans_inv_done) auto
    from 2(2) [OF _ _ _ inv 2(4)] show ?thesis using False k 2(5) done_n by auto
  qed
qed auto

lemma seg_tx_free_loop_out: "seg_tx_free_loop i ks s = Some s' \<Longrightarrow> ts_out s' = ts_out s"
  by (induction i ks s rule: seg_tx_free_loop.induct) (auto simp: seg_tx_done_def upd_tx_def split: if_splits)

lemma blocks_zero_all: "blocks xs = 0 \<Longrightarrow> xs = replicate (length xs) None"
  by (rule replicate_eqI [symmetric, THEN sym]) (auto simp: blocks_zero_iff in_set_conv_nth)

lemma unblock_scan_other: "unblock_scan i txs js r = Some b \<Longrightarrow> r = Some b \<or> b \<noteq> i"
  by (induction js arbitrary: r) (auto split: if_splits)

lemma unblock_check_nth: "ts_tx (seg_tx_unblock_check i s) ! i = ts_tx s ! i" "ts_out (seg_tx_unblock_check i s) = ts_out s"
  by (auto simp: seg_tx_unblock_check_def upd_tx_def split: option.split dest: unblock_scan_other)

definition cb_ends :: "send_cb option \<Rightarrow> errno option \<Rightarrow> trans_out list" where
  "cb_ends cb err = (case cb of Some c \<Rightarrow> if cb_end c then [Cb_end (cb_id c) err] else [] | None \<Rightarrow> [])"

text \<open>A context after its transmission: idle, with no segment and no pending work.\<close>

definition tx_idle :: "trans_cfg \<Rightarrow> seg_tx \<Rightarrow> bool" where
  "tx_idle tc tx \<longleftrightarrow> st_nack_count tx = 0 \<and> st_seg tx = replicate (tc_tx_seg_max tc) None \<and> st_retransmit tx = None \<and>
     st_cb tx = None \<and> \<not> st_blocked tx \<and> st_dst tx = BT_MESH_ADDR_UNASSIGNED"

lemma seg_tx_free_loop_keeps:
  "seg_tx_free_loop i ks s = Some s' \<Longrightarrow> i < length (ts_tx s) \<Longrightarrow>
   \<exists>seg nack. ts_tx s' ! i = (ts_tx s ! i)\<lparr>st_seg := seg, st_nack_count := nack\<rparr>"
proof (induction i ks s rule: seg_tx_free_loop.induct)
  case (1 i s)
  then show ?case by (intro exI [of _ "st_seg (ts_tx s ! i)"] exI [of _ "st_nack_count (ts_tx s ! i)"]) simp
next
  case (2 i k ks s)
  have keep: "\<exists>seg nack. ts_tx s ! i = (ts_tx s ! i)\<lparr>st_seg := seg, st_nack_count := nack\<rparr>"
    by (intro exI [of _ "st_seg (ts_tx s ! i)"] exI [of _ "st_nack_count (ts_tx s ! i)"]) simp
  show ?case using 2 keep by (auto split: if_splits simp: seg_tx_done_nth)
qed

lemma seg_tx_reset_ok:
  assumes "trans_inv tc a b n s" "i < a"
  shows "\<exists>s'. seg_tx_reset tc' te i s = Some s' \<and> trans_inv tc a b n s' \<and> tx_idle tc (ts_tx s' ! i) \<and> ts_out s' = ts_out s"
proof -
  define s1 where "s1 = upd_tx i (\<lambda>tx. tx\<lparr>st_retransmit := None, st_cb := None, st_seq_auth := 0, st_sub := None,
                st_src := BT_MESH_ADDR_UNASSIGNED, st_dst := BT_MESH_ADDR_UNASSIGNED, st_blocked := False\<rparr>) s"
  have inv1: "trans_inv tc a b n s1" unfolding s1_def using assms by (rule trans_inv_soft_tx) (simp add: soft_tx_def)
  have tx1: "ts_tx s1 ! i = (ts_tx s ! i)\<lparr>st_retransmit := None, st_cb := None, st_seq_auth := 0, st_sub := None,
                st_src := BT_MESH_ADDR_UNASSIGNED, st_dst := BT_MESH_ADDR_UNASSIGNED, st_blocked := False\<rparr>"
    using assms trans_inv_len by (simp add: s1_def tx_table.ctxs_upd)
  obtain s2 where s2: "seg_tx_free_loop i [0..<unat (st_seg_n (ts_tx s1 ! i)) + 1] s1 = Some s2"
    using seg_tx_free_loop_total [OF inv1 assms(2), of "[0..<unat (st_seg_n (ts_tx s1 ! i)) + 1]"] by (auto simp: less_Suc_eq_le simp del: upt_Suc)
  obtain seg nack where tx2: "ts_tx s2 ! i = (ts_tx s1 ! i)\<lparr>st_seg := seg, st_nack_count := nack\<rparr>"
    using seg_tx_free_loop_keeps [OF s2] trans_inv_len [OF inv1] assms(2) by auto
  define s3 where "s3 = upd_tx i (\<lambda>tx. tx\<lparr>st_nack_count := 0\<rparr>) s2"
  have run: "seg_tx_reset tc' te i s = Some (set_net (iv_update_deferred (tc_mesh tc') (ne_iv (trans_net_env te s3)) (ts_net s3)) s3)"
    unfolding seg_tx_reset_def Let_def s1_def [symmetric] s3_def using s2 by (simp del: upt_Suc)
  then obtain s' where s': "seg_tx_reset tc' te i s = Some s'" "ts_tx s' = ts_tx s3" "ts_out s' = ts_out s3"
    by (simp add: set_net_def)
  have inv': "trans_inv tc a b n s'" by (rule seg_tx_reset_inv [OF s'(1) assms])
  have len2: "i < length (ts_tx s2)" using seg_tx_free_loop_inv [OF s2 inv1 assms(2)] trans_inv_len assms(2) by auto
  have tx': "ts_tx s' ! i = (ts_tx s1 ! i)\<lparr>st_seg := seg, st_nack_count := 0\<rparr>"
    using s'(2) tx2 len2 by (simp add: s3_def tx_table.ctxs_upd)
  have "blocks seg = 0" "length seg = tc_tx_seg_max tc" using trans_inv_tx [OF inv' assms(2)] by (simp_all add: tx' tx_ok_def)
  then have "tx_idle tc (ts_tx s' ! i)" using blocks_zero_all [of seg] by (simp add: tx' tx_idle_def tx1)
  moreover have "ts_out s' = ts_out s" using s'(3) seg_tx_free_loop_out [OF s2] by (simp add: s3_def s1_def upd_tx_def)
  ultimately show ?thesis using s'(1) inv' by blast
qed

lemma seg_tx_complete_ok:
  assumes "trans_inv tc a b n s" "i < a"
  shows "\<exists>s'. seg_tx_complete tc' te i err s = Some s' \<and> trans_inv tc a b n s' \<and> tx_idle tc (ts_tx s' ! i) \<and>
    ts_out s' = ts_out s @ cb_ends (st_cb (ts_tx s ! i)) err"
proof -
  from seg_tx_reset_ok [OF seg_tx_unblock_check_inv [OF assms(1)] assms(2), of tc' te i] obtain s1 where
    s1: "seg_tx_reset tc' te i (seg_tx_unblock_check i s) = Some s1" "trans_inv tc a b n s1" "tx_idle tc (ts_tx s1 ! i)" "ts_out s1 = ts_out s"
    by (auto simp: unblock_check_nth)
  have "seg_tx_complete tc' te i err s = Some (cb_end_call (st_cb (ts_tx s ! i)) err s1)" using s1(1) by (simp add: seg_tx_complete_def)
  moreover have "ts_tx (cb_end_call cb err s1) = ts_tx s1" for cb using cb_end_slab [of s1 cb err] by (simp add: same_slab_def)
  moreover have "ts_out (cb_end_call cb err s1) = ts_out s1 @ cb_ends cb err" for cb
    by (simp add: cb_end_call_def cb_ends_def trans_output_def split: option.split)
  ultimately show ?thesis using s1 trans_inv_frame [OF s1(2) cb_end_slab] by auto
qed

section \<open>Acknowledgements\<close>

definition acked :: "u32 \<Rightarrow> bytes option list \<Rightarrow> bytes option list" where
  "acked ack xs = map (\<lambda>k. if bit ack k then None else xs ! k) [0..<length xs]"

lemma length_acked [simp]: "length (acked ack xs) = length xs"
  by (simp add: acked_def)

lemma nth_acked: "k < length xs \<Longrightarrow> acked ack xs ! k = (if bit ack k then None else xs ! k)"
  by (simp add: acked_def)

lemma ack_loop_ok:
  "trans_inv tc a b n s \<Longrightarrow> i < a \<Longrightarrow> \<forall>k \<in> set ks. bit ack k \<longrightarrow> k \<le> unat (st_seg_n (ts_tx s ! i)) \<Longrightarrow>
   \<exists>s' seg. ack_loop i ack ks s = Some s' \<and> trans_inv tc a b n s' \<and> ts_out s' = ts_out s \<and> length seg = length (st_seg (ts_tx s ! i)) \<and>
     (\<forall>k < length seg. seg ! k = (if bit ack k \<and> k \<in> set ks then None else st_seg (ts_tx s ! i) ! k)) \<and>
     ts_tx s' = (ts_tx s)[i := (ts_tx s ! i)\<lparr>st_seg := seg,
        st_nack_count := st_nack_count (ts_tx s ! i) - word_of_nat (blocks (st_seg (ts_tx s ! i)) - blocks seg)\<rparr>] \<and>
     blocks seg \<le> blocks (st_seg (ts_tx s ! i)) \<and> ts_free s' = ts_free s + (blocks (st_seg (ts_tx s ! i)) - blocks seg)"
proof (induction ks arbitrary: s)
  case Nil
  then show ?case by (intro exI [of _ s] exI [of _ "st_seg (ts_tx s ! i)"]) simp
next
  case (Cons k ks)
  let ?tx = "ts_tx s ! i"
  note len = trans_inv_len [OF Cons.prems(1)]
  show ?case
  proof (cases "bit ack k \<and> st_seg ?tx ! k \<noteq> None")
    case False
    then have eq: "ack_loop i ack (k # ks) s = ack_loop i ack ks s"
      using trans_inv_tx [OF Cons.prems(1,2)] Cons.prems(3) by (auto simp: tx_ok_def)
    have "\<forall>k \<in> set ks. bit ack k \<longrightarrow> k \<le> unat (st_seg_n ?tx)" using Cons.prems(3) by simp
    note IH = Cons.IH [OF Cons.prems(1,2) this]
    have seg: "\<forall>j < m. seg ! j = (if bit ack j \<and> j \<in> set ks then None else st_seg ?tx ! j) \<Longrightarrow>
        \<forall>j < m. seg ! j = (if bit ack j \<and> j \<in> set (k # ks) then None else st_seg ?tx ! j)" for seg m using False by auto
    show ?thesis unfolding eq using IH seg by blast
  next
    case True
    then have k: "k < length (st_seg ?tx)" using trans_inv_tx [OF Cons.prems(1,2)] Cons.prems(3) by (auto simp: tx_ok_def)
    have eq: "ack_loop i ack (k # ks) s = ack_loop i ack ks (seg_tx_done i k s)" using True k by auto
    have inv: "trans_inv tc a b n (seg_tx_done i k s)" using Cons.prems(1,2) k True by (intro trans_inv_done) auto
    let ?tx1 = "?tx\<lparr>st_seg := (st_seg ?tx)[k := None], st_nack_count := st_nack_count ?tx - 1\<rparr>"
    have tx1: "ts_tx (seg_tx_done i k s) ! i = ?tx1" using len Cons.prems(2) by (simp add: seg_tx_done_nth)
    have s1: "ts_tx (seg_tx_done i k s) = (ts_tx s)[i := ?tx1]" "ts_free (seg_tx_done i k s) = ts_free s + 1" "ts_out (seg_tx_done i k s) = ts_out s"
      by (simp_all add: seg_tx_done_def upd_tx_def)
    have bl: "blocks ((st_seg ?tx)[k := None]) + 1 = blocks (st_seg ?tx)" using blocks_update [OF k, of None] True by simp
    have pre: "\<forall>j \<in> set ks. bit ack j \<longrightarrow> j \<le> unat (st_seg_n (ts_tx (seg_tx_done i k s) ! i))" unfolding tx1 using Cons.prems(3) by simp
    from Cons.IH [OF inv Cons.prems(2) pre, unfolded tx1, unfolded s1] obtain s' seg where IH: "ack_loop i ack ks (seg_tx_done i k s) = Some s'" "trans_inv tc a b n s'"
        "ts_out s' = ts_out s" "length seg = length (st_seg ?tx)"
        "\<forall>j < length seg. seg ! j = (if bit ack j \<and> j \<in> set ks then None else (st_seg ?tx)[k := None] ! j)"
        "ts_tx s' = (ts_tx s)[i := ?tx1\<lparr>st_seg := seg, st_nack_count := st_nack_count ?tx - 1 - word_of_nat (blocks ((st_seg ?tx)[k := None]) - blocks seg)\<rparr>]"
        "blocks seg \<le> blocks ((st_seg ?tx)[k := None])" "ts_free s' = ts_free s + 1 + (blocks ((st_seg ?tx)[k := None]) - blocks seg)"
      by (auto simp del: of_nat_diff)
    have "st_nack_count ?tx - 1 - word_of_nat (blocks ((st_seg ?tx)[k := None]) - blocks seg) = st_nack_count ?tx - word_of_nat (blocks (st_seg ?tx) - blocks seg)"
      using bl IH(7) by (simp add: Suc_diff_le flip: bl)
    with IH(6) have "ts_tx s' = (ts_tx s)[i := ?tx\<lparr>st_seg := seg, st_nack_count := st_nack_count ?tx - word_of_nat (blocks (st_seg ?tx) - blocks seg)\<rparr>]"
      by (simp del: of_nat_diff)
    moreover have "\<forall>j < length seg. seg ! j = (if bit ack j \<and> j \<in> set (k # ks) then None else st_seg ?tx ! j)"
      using IH(4,5) True k by (auto simp: nth_list_update)
    moreover have "blocks seg \<le> blocks (st_seg ?tx)" "ts_free s' = ts_free s + (blocks (st_seg ?tx) - blocks seg)" using IH(7,8) bl by simp_all
    ultimately show ?thesis unfolding eq using IH(1-4) by blast
  qed
qed

definition ack_obo :: "bytes \<Rightarrow> bool" where
  "ack_obo buf \<longleftrightarrow> drop_bit 15 (sys_get_be16 buf) \<noteq> 0"

definition ack_seq_zero :: "bytes \<Rightarrow> u16" where
  "ack_seq_zero buf = drop_bit 2 (sys_get_be16 buf) AND ucast TRANS_SEQ_ZERO_MASK"

definition ack_block :: "bytes \<Rightarrow> u32" where
  "ack_block buf = sys_get_be32 (drop 2 buf)"

definition ack_for :: "trans_cfg \<Rightarrow> bt_mesh_net_rx \<Rightarrow> bytes \<Rightarrow> nat \<Rightarrow> trans_state \<Rightarrow> bool" where
  "ack_for tc rx buf i s \<longleftrightarrow> 6 \<le> length buf \<and> \<not> (cfg_friend (tc_mesh tc) \<and> rx_friend_match rx) \<and> BT_MESH_ADDR_IS_UNICAST (rx_addr rx) \<and>
     find_index (ack_matches (ack_seq_zero buf) (ack_obo buf) (rx_addr rx)) (ts_tx s) = Some i"

lemma trans_ack_eq:
  assumes "ack_for tc rx buf i s" "i < length (ts_tx s)" and s1: "s1 = upd_tx i (\<lambda>tx. tx\<lparr>st_dst := rx_addr rx\<rparr>) s"
  shows "trans_ack tc te rx buf sa s =
    (if ack_block buf = 0 then map_option (\<lambda>s. (None, st_seq_auth (ts_tx s1 ! i), s)) (seg_tx_complete tc te i (Some ECANCELED) s1)
     else if \<exists>k < 32. bit (ack_block buf) k \<and> unat (st_seg_n (ts_tx s1 ! i)) < k then Some (Some EINVAL, st_seq_auth (ts_tx s1 ! i), s1)
     else ack_loop i (ack_block buf) [0..<32] s1 \<bind> (\<lambda>s2.
       if st_nack_count (ts_tx s2 ! i) \<noteq> 0
       then Some (None, st_seq_auth (ts_tx s1 ! i), upd_tx i (\<lambda>tx. tx\<lparr>st_retransmit := Some 0\<rparr>) s2)
       else map_option (\<lambda>s. (None, st_seq_auth (ts_tx s1 ! i), s)) (seg_tx_complete tc te i None s2)))"
proof -
  have lookup: "seg_tx_lookup (ack_seq_zero buf) (ack_obo buf) (rx_addr rx) s = Some (i, s1)"
    using assms(1) by (simp add: ack_for_def seg_tx_lookup_def s1)
  have uni: "BT_MESH_ADDR_IS_UNICAST (st_dst (ts_tx s1 ! i))" using assms(1,2) by (simp add: ack_for_def s1 tx_table.ctxs_upd)
  show ?thesis unfolding trans_ack_def Let_def ack_seq_zero_def [symmetric] ack_obo_def [symmetric] ack_block_def [symmetric] lookup map_conv_bind_option comp_def
    using assms(1) uni by (auto simp: ack_for_def)
qed

text \<open>
  C24: an acknowledgement of a transmission whose unacknowledged segments are all still held
  releases exactly the segments whose bits it carries: if others remain, their number is left
  in the count and they are sent again at once; if none remains the transmission completes
  with success, and its context is idle and holds no memory.
\<close>

theorem ack_releases_segments:
  assumes "trans_inv tc a b n s" "i < a" "ack_for tc rx buf i s" "unat (st_nack_count (ts_tx s ! i)) = blocks (st_seg (ts_tx s ! i))"
    and "ack_block buf \<noteq> 0" "\<forall>k. bit (ack_block buf) k \<longrightarrow> k \<le> unat (st_seg_n (ts_tx s ! i))"
  shows "\<exists>s'. trans_ack tc te rx buf sa s = Some (None, st_seq_auth (ts_tx s ! i), s') \<and>
    (if \<exists>x \<in> set (acked (ack_block buf) (st_seg (ts_tx s ! i))). x \<noteq> None
     then st_seg (ts_tx s' ! i) = acked (ack_block buf) (st_seg (ts_tx s ! i)) \<and> st_retransmit (ts_tx s' ! i) = Some 0 \<and> ts_out s' = ts_out s \<and>
       unat (st_nack_count (ts_tx s' ! i)) = blocks (st_seg (ts_tx s' ! i)) \<and>
       ts_free s' = ts_free s + (blocks (st_seg (ts_tx s ! i)) - blocks (st_seg (ts_tx s' ! i)))
     else tx_idle tc (ts_tx s' ! i) \<and> ts_out s' = ts_out s @ cb_ends (st_cb (ts_tx s ! i)) None)"
proof -
  let ?tx = "ts_tx s ! i" and ?ack = "ack_block buf"
  define s1 where "s1 = upd_tx i (\<lambda>tx. tx\<lparr>st_dst := rx_addr rx\<rparr>) s"
  have i: "i < length (ts_tx s)" using assms(1,2) trans_inv_len by blast
  have inv1: "trans_inv tc a b n s1" unfolding s1_def using assms(1,2) by (rule trans_inv_soft_tx) (simp add: soft_tx_def)
  have tx1: "ts_tx s1 = (ts_tx s)[i := ?tx\<lparr>st_dst := rx_addr rx\<rparr>]" "ts_out s1 = ts_out s" "ts_free s1 = ts_free s" "ts_tx s1 ! i = ?tx\<lparr>st_dst := rx_addr rx\<rparr>"
    using i by (simp_all add: s1_def upd_tx_def)
  have bits: "\<forall>k \<in> set [0..<32]. bit ?ack k \<longrightarrow> k \<le> unat (st_seg_n (ts_tx s1 ! i))" using assms(6) by (simp only: tx1(4)) simp
  from ack_loop_ok [OF inv1 assms(2) bits, unfolded tx1(4)] obtain s2 seg where s2: "ack_loop i ?ack [0..<32] s1 = Some s2" "trans_inv tc a b n s2" "ts_out s2 = ts_out s1"
      "length seg = length (st_seg ?tx)" "\<forall>k < length seg. seg ! k = (if bit ?ack k \<and> k \<in> set [0..<32] then None else st_seg ?tx ! k)"
      "ts_tx s2 = (ts_tx s1)[i := (ts_tx s1 ! i)\<lparr>st_seg := seg, st_nack_count := st_nack_count ?tx - word_of_nat (blocks (st_seg ?tx) - blocks seg)\<rparr>]"
      "blocks seg \<le> blocks (st_seg ?tx)" "ts_free s2 = ts_free s1 + (blocks (st_seg ?tx) - blocks seg)"
    by (auto simp: tx1(4) simp del: of_nat_diff)
  have seg: "seg = acked ?ack (st_seg ?tx)"
    using s2(4,5) by (intro nth_equalityI) (auto simp: nth_acked dest: bit_imp_le_length)
  have tx2: "ts_tx s2 ! i = ?tx\<lparr>st_dst := rx_addr rx, st_seg := seg, st_nack_count := st_nack_count ?tx - word_of_nat (blocks (st_seg ?tx) - blocks seg)\<rparr>"
    using i by (simp add: s2(6) tx1)
  have nack: "unat (st_nack_count (ts_tx s2 ! i)) = blocks seg"
  proof -
    have "st_nack_count ?tx = word_of_nat (blocks (st_seg ?tx))" by (simp flip: assms(4))
    then have "st_nack_count (ts_tx s2 ! i) = word_of_nat (blocks seg)" using s2(7) by (simp add: tx2 of_nat_diff)
    moreover have "blocks seg < 2 ^ 8" using s2(7) unsigned_less [where ?'a = nat, of "st_nack_count ?tx"] by (simp add: assms(4))
    ultimately show ?thesis by (simp add: unat_of_nat)
  qed
  have bounds: "\<not> (\<exists>k < 32. bit ?ack k \<and> unat (st_seg_n (ts_tx s1 ! i)) < k)" unfolding tx1(4) using assms(6) by (auto simp: not_less)
  note eq = trans_ack_eq [OF assms(3) i s1_def, of te sa]
  have left: "(\<exists>x \<in> set seg. x \<noteq> None) \<longleftrightarrow> st_nack_count (ts_tx s2 ! i) \<noteq> 0"
  proof -
    have "(\<exists>x \<in> set seg. x \<noteq> None) \<longleftrightarrow> blocks seg \<noteq> 0" unfolding blocks_zero_iff by (metis in_set_conv_nth)
    then show ?thesis using nack by (simp add: unat_eq_zero [symmetric])
  qed
  have sa: "st_seq_auth (ts_tx s1 ! i) = st_seq_auth ?tx" unfolding tx1(4) by simp
  show ?thesis
  proof (cases "\<exists>x \<in> set seg. x \<noteq> None")
    case True
    define s3 where "s3 = upd_tx i (\<lambda>tx. tx\<lparr>st_retransmit := Some 0\<rparr>) s2"
    have s3: "ts_tx s3 ! i = (ts_tx s2 ! i)\<lparr>st_retransmit := Some 0\<rparr>" "ts_out s3 = ts_out s" "ts_free s3 = ts_free s2"
      using i trans_inv_len [OF s2(2)] assms(2) by (simp_all add: s3_def upd_tx_def s2(3) tx1)
    have "trans_ack tc te rx buf sa s = Some (None, st_seq_auth ?tx, s3)" unfolding eq sa using assms(5) bounds s2(1) left True by (simp add: s3_def)
    then show ?thesis using True nack s3 s2(8) tx1(3) by (auto simp: seg tx2)
  next
    case False
    from seg_tx_complete_ok [OF s2(2) assms(2), of tc te None] obtain s3 where s3: "seg_tx_complete tc te i None s2 = Some s3"
      "tx_idle tc (ts_tx s3 ! i)" "ts_out s3 = ts_out s @ cb_ends (st_cb ?tx) None" by (auto simp: tx2 s2(3) tx1)
    have "trans_ack tc te rx buf sa s = Some (None, st_seq_auth ?tx, s3)" unfolding eq sa using assms(5) bounds s2(1) left False s3(1) by simp
    then show ?thesis using False s3 by (auto simp: seg)
  qed
qed

lemma seg_waiting_inv: "trans_inv seg_cfg 1 1 4 (seg_waiting (replicate 20 1))"
proof -
  have "trans_cfg_ok seg_cfg" "trans_inv seg_cfg 1 1 4 seg_state"
    by (simp_all add: trans_inv_def seg_state_def tx_table.owned_def rx_table.owned_def tx_ok_def rx_ok_def idle_tx_def idle_rx_def seg_cfg_def trans_cfg_ok_def)
  then show ?thesis using bt_mesh_ctl_send_inv seg_waiting_run(1) by (fastforce simp: BT_MESH_CTL_SEG_SDU_MAX_def seg_cfg_def)
qed

text \<open>The first and the last segment are acknowledged.\<close>

theorem ack_releases_segments_witness:
  "\<exists>s'. trans_ack seg_cfg seg_env rx_example [0, 36, 0, 0, 0, 5] 0 (seg_waiting (replicate 20 1)) = Some (None, 0x5000009, s') \<and>
     st_seg (ts_tx s' ! 0) = [None, Some (replicate 8 1), None] \<and> unat (st_nack_count (ts_tx s' ! 0)) = 1 \<and> ts_free s' = 3"
proof -
  let ?s = "seg_waiting (replicate 20 1)" and ?buf = "[0, 36, 0, 0, 0, 5]"
  have for_0: "ack_for seg_cfg rx_example ?buf 0 ?s" by code_simp
  have ack: "ack_block ?buf = 5" by code_simp
  have bits: "\<forall>k. bit (ack_block ?buf) k \<longrightarrow> k \<le> unat (st_seg_n (ts_tx ?s ! 0))"
  proof (intro allI impI)
    fix k
    assume k: "bit (ack_block ?buf) k"
    have "(5 :: u32) = take_bit 3 5" by simp
    then have "bit (take_bit 3 (5 :: u32)) k" using k by (simp only: ack)
    then have "k < 3" by (simp only: bit_take_bit_iff)
    then show "k \<le> unat (st_seg_n (ts_tx ?s ! 0))" by (simp add: seg_waiting_ctx idle_tx_def)
  qed
  have tx: "st_seg (ts_tx ?s ! 0) = [Some (replicate 8 1), Some (replicate 8 1), Some (replicate 4 1)]" "unat (st_nack_count (ts_tx ?s ! 0)) = 3"
      "st_seq_auth (ts_tx ?s ! 0) = 0x5000009"
    by (simp_all add: seg_waiting_ctx idle_tx_def SEQ_AUTH_def)
  have rest: "acked (ack_block ?buf) (st_seg (ts_tx ?s ! 0)) = [None, Some (replicate 8 1), None]"
    unfolding ack tx by code_simp
  have nack: "unat (st_nack_count (ts_tx ?s ! 0)) = blocks (st_seg (ts_tx ?s ! 0))" unfolding tx by (simp add: blocks_def)
  from ack_releases_segments [OF seg_waiting_inv zero_less_one for_0 nack _ bits, of seg_env 0, unfolded rest] obtain s' where
    "trans_ack seg_cfg seg_env rx_example ?buf 0 ?s = Some (None, st_seq_auth (ts_tx ?s ! 0), s')"
    "st_seg (ts_tx s' ! 0) = [None, Some (replicate 8 1), None]" "unat (st_nack_count (ts_tx s' ! 0)) = blocks (st_seg (ts_tx s' ! 0))"
    "ts_free s' = ts_free ?s + (blocks (st_seg (ts_tx ?s ! 0)) - blocks (st_seg (ts_tx s' ! 0)))" by (auto simp: ack)
  then show ?thesis using seg_waiting_run(2) tx by (simp add: blocks_def)
qed

text \<open>
  C25: a transmission to a group is not acknowledged, and an acknowledgement from the address of a
  group is refused.  But the search for the context stores the sender of an acknowledgement
  that claims to come from a friend as the destination of the transmission first: any node can
  cancel a message to a group with such an acknowledgement, which the check that follows lets
  pass.
\<close>

theorem group_message_cancelled:
  assumes "trans_inv tc a b n s" "i < a" "ack_for tc rx buf i s" "\<not> BT_MESH_ADDR_IS_UNICAST (st_dst (ts_tx s ! i))" "ack_block buf = 0"
  shows "\<exists>s'. trans_ack tc te rx buf sa s = Some (None, st_seq_auth (ts_tx s ! i), s') \<and> tx_idle tc (ts_tx s' ! i) \<and>
    ts_out s' = ts_out s @ cb_ends (st_cb (ts_tx s ! i)) (Some ECANCELED)"
proof -
  define s1 where "s1 = upd_tx i (\<lambda>tx. tx\<lparr>st_dst := rx_addr rx\<rparr>) s"
  have i: "i < length (ts_tx s)" using assms(1,2) trans_inv_len by blast
  have inv1: "trans_inv tc a b n s1" unfolding s1_def using assms(1,2) by (rule trans_inv_soft_tx) (simp add: soft_tx_def)
  have s1: "st_seq_auth (ts_tx s1 ! i) = st_seq_auth (ts_tx s ! i)" "st_cb (ts_tx s1 ! i) = st_cb (ts_tx s ! i)" "ts_out s1 = ts_out s"
    using i by (simp_all add: s1_def upd_tx_def)
  show ?thesis using seg_tx_complete_ok [OF inv1 assms(2), of tc te "Some ECANCELED"] trans_ack_eq [OF assms(3) i s1_def, of te sa] assms(5) s1 by auto
qed

text \<open>The transmission goes to the group \<open>0xc001\<close>; node 9 cancels it.\<close>

definition seg_to_group :: trans_state where
  "seg_to_group = (seg_waiting (replicate 20 1))\<lparr>ts_tx := [(ts_tx (seg_waiting (replicate 20 1)) ! 0)\<lparr>st_dst := 0xc001,
     st_cb := Some \<lparr>cb_id = 3, cb_start = True, cb_end = True\<rparr>\<rparr>]\<rparr>"

theorem group_message_cancelled_witness:
  "\<exists>s'. trans_ack seg_cfg seg_env rx_example [0x80, 36, 0, 0, 0, 0] 0 seg_to_group = Some (None, 0x5000009, s') \<and> tx_idle seg_cfg (ts_tx s' ! 0) \<and>
     ts_out s' = ts_out seg_to_group @ [Cb_end 3 (Some ECANCELED)]"
proof -
  have inv: "trans_inv seg_cfg 1 1 4 seg_to_group"
    using seg_waiting_inv seg_waiting_ctx by (simp add: trans_inv_def seg_to_group_def tx_table.owned_def rx_table.owned_def tx_ok_def)
  have dst: "\<not> BT_MESH_ADDR_IS_UNICAST (st_dst (ts_tx seg_to_group ! 0))" "ack_block [0x80, 36, 0, 0, 0, 0] = 0" "ack_for seg_cfg rx_example [0x80, 36, 0, 0, 0, 0] 0 seg_to_group"
    by code_simp+
  have tx: "st_seq_auth (ts_tx seg_to_group ! 0) = 0x5000009" "cb_ends (st_cb (ts_tx seg_to_group ! 0)) (Some ECANCELED) = [Cb_end 3 (Some ECANCELED)]"
    by (simp_all add: seg_to_group_def seg_waiting_ctx cb_ends_def SEQ_AUTH_def)
  show ?thesis using group_message_cancelled [OF inv zero_less_one dst(3,1,2), of seg_env 0] unfolding tx .
qed

section \<open>Retransmissions\<close>

text \<open>What sending, its callbacks and the timer leave of a context that receives no acknowledgement.\<close>

definition tx_same :: "seg_tx \<Rightarrow> seg_tx \<Rightarrow> bool" where
  "tx_same tx tx' \<longleftrightarrow> st_seg tx' = st_seg tx \<and> st_seg_n tx' = st_seg_n tx \<and> st_nack_count tx' = st_nack_count tx \<and> st_sub tx' = st_sub tx \<and>
     st_dst tx' = st_dst tx \<and> st_cb tx' = st_cb tx \<and> st_attempts tx' = st_attempts tx"

lemma tx_same_refl [simp]: "tx_same tx tx"
  by (simp add: tx_same_def)

lemma tx_same_trans: "tx_same a b \<Longrightarrow> tx_same b c \<Longrightarrow> tx_same a c"
  by (simp add: tx_same_def)

definition all_same :: "trans_state \<Rightarrow> trans_state \<Rightarrow> bool" where
  "all_same s s' \<longleftrightarrow> length (ts_tx s') = length (ts_tx s) \<and> (\<forall>j < length (ts_tx s). tx_same (ts_tx s ! j) (ts_tx s' ! j))"

lemma all_same_refl [simp]: "all_same s s"
  by (simp add: all_same_def)

lemma all_same_trans: "all_same s s' \<Longrightarrow> all_same s' s'' \<Longrightarrow> all_same s s''"
  by (auto simp: all_same_def intro: tx_same_trans)

lemma all_same_upd: "(\<And>tx. tx_same tx (f tx)) \<Longrightarrow> all_same s (upd_tx i f s)"
  by (cases "i < length (ts_tx s)") (auto simp: all_same_def upd_tx_def nth_list_update)

lemma all_same_slab: "same_slab s s' \<Longrightarrow> all_same s s'"
  by (simp add: all_same_def same_slab_def)

lemma schedule_same: "all_same s (schedule_retransmit tc i s)"
proof -
  have pending: "all_same s (upd_tx i (\<lambda>tx. tx\<lparr>st_seg_pending := st_seg_pending tx - 1\<rparr>) s)" by (rule all_same_upd) (simp add: tx_same_def)
  have timer: "all_same u (upd_tx i (\<lambda>tx. tx\<lparr>st_retransmit := Some (g tx)\<rparr>) u)" for u g by (rule all_same_upd) (simp add: tx_same_def)
  show ?thesis using pending all_same_trans [OF pending timer] by (simp add: schedule_retransmit_def Let_def)
qed

lemma seg_send_start_same: "all_same s (seg_send_start tc i d err s)"
proof -
  have started: "all_same s (upd_tx i (\<lambda>tx. tx\<lparr>st_started := True\<rparr>) (trans_output x s))" for x
    by (rule all_same_trans [OF all_same_slab [OF same_slab_output]]) (rule all_same_upd, simp add: tx_same_def)
  show ?thesis unfolding seg_send_start_def Let_def
    by (auto split: option.split intro: started schedule_same all_same_trans [OF started schedule_same])
qed

lemma seg_sent_same: "all_same s (seg_sent tc i s)"
  by (simp add: seg_sent_def schedule_same)

lemma seg_send_loop_same: "seg_send_loop tc te i tx ks s = Some (r, s') \<Longrightarrow> all_same s s'"
proof (induction ks arbitrary: s)
  case (Cons k ks)
  let ?s = "upd_tx i (\<lambda>tx. tx\<lparr>st_seg_o := word_of_nat k\<rparr>) s"
  let ?p = "upd_tx i (\<lambda>tx. tx\<lparr>st_seg_pending := st_seg_pending tx + 1\<rparr>) ?s"
  have s1: "all_same s ?s" by (rule all_same_upd) (simp add: tx_same_def)
  have pending: "all_same u (upd_tx i (\<lambda>tx. tx\<lparr>st_seg_pending := st_seg_pending tx - 1\<rparr>) u)" for u by (rule all_same_upd) (simp add: tx_same_def)
  have sent: "all_same s (seg_sent tc i (seg_send_start tc i 0 None u)) \<and> all_same s u" if "trans_net_send tc te tx seg True ?p = Some (err, fin, u)" for err fin u seg
  proof -
    have "all_same s ?p" by (rule all_same_trans [OF s1 all_same_upd]) (simp add: tx_same_def)
    then have "all_same s u" using all_same_slab [OF trans_net_send_slab [OF that]] by (rule all_same_trans)
    then show ?thesis using all_same_trans [OF all_same_trans [OF _ seg_send_start_same] seg_sent_same] by blast
  qed
  from Cons.prems show ?case
    by (auto simp: Let_def bind_eq_Some_conv split: if_splits option.splits intro: s1 all_same_trans pending dest!: Cons.IH sent)
qed simp

lemma seg_retransmit_eq:
  assumes "i < length (ts_tx s)" "st_nack_count (ts_tx s ! i) \<noteq> 0" "st_sub (ts_tx s ! i) = Some sub"
  shows "seg_retransmit tc te i s =
    (let s1 = upd_tx i (\<lambda>tx. tx\<lparr>st_retransmit := None\<rparr>) s in
     if st_attempts (ts_tx s ! i) = 0
     then seg_tx_complete tc te i (if BT_MESH_ADDR_IS_UNICAST (st_dst (ts_tx s ! i)) then Some ETIMEDOUT else None) s1
     else map_option (\<lambda>(r, s2). send_unacked_end tc i r s2) (unacked_loop tc te i s1 sub))"
  using assms by (simp add: seg_retransmit_def seg_tx_send_unacked_eq tx_table.ctxs_upd Let_def)

text \<open>
  The buffers a stretch of network output hands to the advertiser with a callback: each one is
  either queued for advertising or, with the proxy feature, offered to the proxy clients first.
\<close>

definition handed_over :: "mesh_cfg \<Rightarrow> net_out list \<Rightarrow> nat" where
  "handed_over cfg xs = length (filter (\<lambda>x. case x of Adv_send _ \<Rightarrow> \<not> cfg_gatt_proxy cfg | Proxy_relay _ _ \<Rightarrow> cfg_gatt_proxy cfg | _ \<Rightarrow> False) xs)"

definition new_outs :: "trans_state \<Rightarrow> trans_state \<Rightarrow> net_out list" where
  "new_outs u u' = drop (length (nl_out (ts_layer u))) (nl_out (ts_layer u'))"

text \<open>
  A stretch of time without an acknowledgement, in which the work of context \<open>i\<close> ran when it was
  scheduled, and \<open>m\<close> of its runs sent all segments; a run that finds no advertising buffer, or
  whose sending fails, stops and does not count.  \<open>c\<close> segments are with the advertiser, which
  reports each of them once: as sent, or with an error at its start.  Callbacks of other
  contexts and anything that leaves the contexts alone may happen in between.
\<close>

inductive unacked_run :: "trans_cfg \<Rightarrow> nat \<Rightarrow> nat \<Rightarrow> nat \<Rightarrow> trans_state \<Rightarrow> trans_state \<Rightarrow> bool" for tc i where
  run_none: "unacked_run tc i 0 (unat (st_seg_pending (ts_tx s ! i))) s s"
| run_started: "unacked_run tc i m c s u \<Longrightarrow> unacked_run tc i m c s (seg_send_start tc i d None u)"
| run_failed: "unacked_run tc i m (Suc c) s u \<Longrightarrow> unacked_run tc i m c s (seg_send_start tc i d (Some e) u)"
| run_sent: "unacked_run tc i m (Suc c) s u \<Longrightarrow> unacked_run tc i m c s (seg_sent tc i u)"
| run_start_cb: "unacked_run tc i m c s u \<Longrightarrow> j \<noteq> i \<Longrightarrow> j < length (ts_tx u) \<Longrightarrow> unacked_run tc i m c s (seg_send_start tc j d err u)"
| run_sent_cb: "unacked_run tc i m c s u \<Longrightarrow> j \<noteq> i \<Longrightarrow> j < length (ts_tx u) \<Longrightarrow> unacked_run tc i m c s (seg_sent tc j u)"
| run_other: "unacked_run tc i m c s u \<Longrightarrow> same_slab u u' \<Longrightarrow> unacked_run tc i m c s u'"
| run_fire: "unacked_run tc i m c s u \<Longrightarrow> st_retransmit (ts_tx u ! i) \<noteq> None \<Longrightarrow> st_attempts (ts_tx u ! i) \<noteq> 0 \<Longrightarrow>
    st_sub (ts_tx u ! i) = Some sub \<Longrightarrow> unacked_loop tc te i (upd_tx i (\<lambda>tx. tx\<lparr>st_retransmit := None\<rparr>) u) sub = Some (all_sent, v) \<Longrightarrow>
    seg_retransmit tc te i u = Some u' \<Longrightarrow>
    unacked_run tc i (if all_sent then m + 1 else m) (c + handed_over (tc_mesh tc) (new_outs u u')) s u'"

lemma send_unacked_end_same:
  assumes "i < length (ts_tx s)"
  shows "length (ts_tx (send_unacked_end tc i r s)) = length (ts_tx s)"
    "tx_same (if r then (ts_tx s ! i)\<lparr>st_attempts := st_attempts (ts_tx s ! i) - 1\<rparr> else ts_tx s ! i) (ts_tx (send_unacked_end tc i r s) ! i)"
  using assms by (auto simp: send_unacked_end_def Let_def tx_table.ctxs_upd tx_same_def)

text \<open>What is left of context \<open>i\<close> after \<open>m\<close> complete attempts.\<close>

definition attempted :: "trans_cfg \<Rightarrow> nat \<Rightarrow> nat \<Rightarrow> nat \<Rightarrow> nat \<Rightarrow> trans_state \<Rightarrow> nat \<Rightarrow> trans_state \<Rightarrow> bool" where
  "attempted tc a b n i s m s' \<longleftrightarrow> trans_inv tc a b n s' \<and> m \<le> unat (st_attempts (ts_tx s ! i)) \<and>
     tx_same ((ts_tx s ! i)\<lparr>st_attempts := st_attempts (ts_tx s ! i) - word_of_nat m\<rparr>) (ts_tx s' ! i)"

lemma attempted_same:
  assumes "attempted tc a b n i s m u" "trans_inv tc a b n u'" "all_same u u'" "i < a"
  shows "attempted tc a b n i s m u'"
proof -
  have "tx_same (ts_tx u ! i) (ts_tx u' ! i)" using assms trans_inv_len by (auto simp: attempted_def all_same_def)
  then show ?thesis using assms(1,2) tx_same_trans by (auto simp: attempted_def)
qed

lemma attempted_fire:
  assumes "attempted tc' a b n i s m u" "i < a" "st_nack_count (ts_tx s ! i) \<noteq> 0" "st_attempts (ts_tx u ! i) \<noteq> 0" "st_sub (ts_tx u ! i) = Some sub"
    and "unacked_loop tc te i (upd_tx i (\<lambda>tx. tx\<lparr>st_retransmit := None\<rparr>) u) sub = Some (r, v)" "seg_retransmit tc te i u = Some u'"
  shows "attempted tc' a b n i s (if r then m + 1 else m) u'"
proof -
  let ?u = "upd_tx i (\<lambda>tx. tx\<lparr>st_retransmit := None\<rparr>) u" and ?n = "st_attempts (ts_tx s ! i)"
  have u: "trans_inv tc' a b n u" "m \<le> unat ?n" "tx_same ((ts_tx s ! i)\<lparr>st_attempts := ?n - word_of_nat m\<rparr>) (ts_tx u ! i)"
    using assms(1) by (simp_all add: attempted_def)
  have i: "i < length (ts_tx u)" "i < length (ts_tx v)" "all_same u v"
  proof -
    show "i < length (ts_tx u)" using u(1) assms(2) trans_inv_len by blast
    have "all_same u ?u" by (rule all_same_upd) (simp add: tx_same_def)
    moreover have "all_same ?u (upd_tx i (\<lambda>tx. tx\<lparr>st_sending := True\<rparr>) ?u)" by (rule all_same_upd) (simp add: tx_same_def)
    ultimately show "all_same u v" using seg_send_loop_same [OF assms(6) [unfolded unacked_loop_def]] by (meson all_same_trans)
    then show "i < length (ts_tx v)" using \<open>i < length (ts_tx u)\<close> by (simp add: all_same_def)
  qed
  have nack: "st_nack_count (ts_tx u ! i) \<noteq> 0" using u(3) assms(3) by (simp add: tx_same_def)
  have u': "u' = send_unacked_end tc i r v" using assms(4,6,7) seg_retransmit_eq [OF i(1) nack assms(5), of tc te] by simp
  have inv': "trans_inv tc' a b n u'" by (rule seg_retransmit_inv [OF assms(7) u(1) assms(2)])
  have v: "tx_same ((ts_tx s ! i)\<lparr>st_attempts := ?n - word_of_nat m\<rparr>) (ts_tx v ! i)"
    using u(3) i(1,3) tx_same_trans by (auto simp: all_same_def)
  have room: "m < unat ?n"
  proof (rule ccontr)
    assume "\<not> m < unat ?n"
    then have "?n = word_of_nat m" using u(2) by (simp add: word_unat_eq_iff unat_of_nat)
    then show False using assms(4) u(3) by (simp add: tx_same_def)
  qed
  show ?thesis using send_unacked_end_same(2) [OF i(2), of r tc] v inv' room u(2)
    by (auto simp: attempted_def u' tx_same_def diff_diff_eq split: if_splits)
qed


section \<open>Progress\<close>

text \<open>A context whose sending has not come to a standstill: its work is scheduled or one of its segments is with the advertiser.\<close>

definition tx_live :: "nat \<Rightarrow> seg_tx \<Rightarrow> bool" where
  "tx_live c tx \<longleftrightarrow> c = unat (st_seg_pending tx) \<and> \<not> st_sending tx \<and> (c = 0 \<longrightarrow> st_retransmit tx \<noteq> None) \<and>
     (st_retransmit tx \<noteq> None \<longrightarrow> c < 224) \<and> c < 256"

lemma handed_over_append [simp]: "handed_over cfg (xs @ ys) = handed_over cfg xs + handed_over cfg ys"
  by (simp add: handed_over_def)

lemma net_send_reports:
  assumes "bt_mesh_net_send cfg ne tx buf True nl = Some (err, nl')"
  shows "\<exists>xs. nl_out nl' = nl_out nl @ xs \<and>
    handed_over cfg xs = (if err = None \<and> Send_cb_finalize \<notin> set xs then 1 else 0) \<and> (err \<noteq> None \<longrightarrow> Send_cb_finalize \<notin> set xs)"
  using assms
  by (auto simp: bt_mesh_net_send_def loopback_def net_output_def handed_over_def Let_def bind_eq_Some_conv split: prod.splits option.splits if_splits)

lemma trans_net_send_reports:
  assumes "trans_net_send tc te tx buf True s = Some (err, fin, s')"
  shows "\<exists>xs. nl_out (ts_layer s') = nl_out (ts_layer s) @ xs \<and> handed_over (tc_mesh tc) xs = (if err = None \<and> \<not> fin then 1 else 0) \<and>
    (err \<noteq> None \<longrightarrow> \<not> fin) \<and> ts_tx s' = ts_tx s"
proof -
  from assms obtain nl where nl: "bt_mesh_net_send (tc_mesh tc) (trans_net_env te s) tx buf True (ts_layer s) = Some (err, nl)"
      "fin = finalized (ts_layer s) nl" "s' = s\<lparr>ts_layer := nl\<rparr>"
    by (auto simp: trans_net_send_def bind_eq_Some_conv)
  from net_send_reports [OF nl(1)] nl(2,3) show ?thesis by (auto simp: finalized_def)
qed

lemma schedule_ctx:
  assumes "i < length (ts_tx s)" "st_nack_count (ts_tx s ! i) \<noteq> 0" "st_seg_pending (ts_tx s ! i) - 1 = p"
  shows "\<exists>d. ts_tx (schedule_retransmit tc i s) ! i =
    (if p \<noteq> 0 \<or> st_sending (ts_tx s ! i) then (ts_tx s ! i)\<lparr>st_seg_pending := p\<rparr>
     else (ts_tx s ! i)\<lparr>st_seg_pending := p, st_retransmit := Some d\<rparr>)"
  using assms(1,2) by (auto simp: schedule_retransmit_def Let_def tx_table.ctxs_upd simp flip: assms(3))

lemma u8_pred: "unat (p :: u8) = Suc c \<Longrightarrow> unat (p - 1) = c"
  by (subst unat_minus_one) auto

lemma schedule_live:
  assumes "i < length (ts_tx s)" "st_nack_count (ts_tx s ! i) \<noteq> 0" "tx_live (Suc c) (ts_tx s ! i)"
  shows "tx_live c (ts_tx (schedule_retransmit tc i s) ! i)"
proof -
  define p where "p = st_seg_pending (ts_tx s ! i) - 1"
  have p: "unat p = c" using assms(3) u8_pred by (simp add: tx_live_def p_def)
  obtain d where d: "ts_tx (schedule_retransmit tc i s) ! i =
    (if p \<noteq> 0 \<or> st_sending (ts_tx s ! i) then (ts_tx s ! i)\<lparr>st_seg_pending := p\<rparr>
     else (ts_tx s ! i)\<lparr>st_seg_pending := p, st_retransmit := Some d\<rparr>)" using schedule_ctx [OF assms(1,2) p_def [symmetric]] by blast
  show ?thesis using assms(3) p by (cases "p = 0") (auto simp: d tx_live_def unat_eq_0)
qed

lemma upd_tx_nth_other: "j \<noteq> i \<Longrightarrow> ts_tx (upd_tx j f s) ! i = ts_tx s ! i"
  by (simp add: upd_tx_def)

lemma schedule_other: "j \<noteq> i \<Longrightarrow> ts_tx (schedule_retransmit tc j s) ! i = ts_tx s ! i"
  by (simp add: schedule_retransmit_def Let_def upd_tx_nth_other)

lemma seg_send_start_other: "j \<noteq> i \<Longrightarrow> ts_tx (seg_send_start tc j d err s) ! i = ts_tx s ! i"
  by (simp add: seg_send_start_def Let_def upd_tx_nth_other schedule_other trans_output_def split: option.split)

lemma timers_layer [simp]:
  "ts_layer (schedule_retransmit tc i s) = ts_layer s" "ts_layer (seg_send_start tc i d err s) = ts_layer s" "ts_layer (upd_tx i f s) = ts_layer s"
  by (simp_all add: schedule_retransmit_def seg_send_start_def Let_def upd_tx_def trans_output_def split: option.split)

lemma seg_send_start_ctx:
  assumes "i < length (ts_tx s)"
  shows "\<exists>b s1. seg_send_start tc i d err s = (if err \<noteq> None then schedule_retransmit tc i s1 else s1) \<and>
    length (ts_tx s1) = length (ts_tx s) \<and> ts_tx s1 ! i = (ts_tx s ! i)\<lparr>st_started := b\<rparr>"
proof -
  have e: "ts_tx s ! i = (ts_tx s ! i)\<lparr>st_started := st_started (ts_tx s ! i)\<rparr>" by simp
  show ?thesis
  proof (cases "\<exists>c. st_cb (ts_tx s ! i) = Some c \<and> \<not> st_started (ts_tx s ! i) \<and> cb_start c")
    case True
    then obtain c where c: "st_cb (ts_tx s ! i) = Some c" "\<not> st_started (ts_tx s ! i)" "cb_start c" by blast
    show ?thesis using assms c
      by (intro exI [of _ True] exI [of _ "upd_tx i (\<lambda>tx. tx\<lparr>st_started := True\<rparr>) (trans_output (Cb_start (cb_id c) d err) s)"])
         (simp add: seg_send_start_def tx_table.ctxs_upd trans_output_def upd_tx_def)
  next
    case False
    then have "seg_send_start tc i d err s = (if err \<noteq> None then schedule_retransmit tc i s else s)"
      by (auto simp: seg_send_start_def Let_def split: option.split)
    then show ?thesis using e by metis
  qed
qed

lemma start_live:
  assumes "i < length (ts_tx s)" "st_nack_count (ts_tx s ! i) \<noteq> 0"
  shows "tx_live c (ts_tx s ! i) \<Longrightarrow> tx_live c (ts_tx (seg_send_start tc i d None s) ! i)"
    and "tx_live (Suc c) (ts_tx s ! i) \<Longrightarrow> tx_live c (ts_tx (seg_send_start tc i d (Some e) s) ! i)"
proof -
  have l: "tx_live c (tx\<lparr>st_started := b\<rparr>) = tx_live c tx" for c tx b by (simp add: tx_live_def)
  show "tx_live c (ts_tx s ! i) \<Longrightarrow> tx_live c (ts_tx (seg_send_start tc i d None s) ! i)"
    using seg_send_start_ctx [OF assms(1), of tc d None] l by (metis (full_types))
  assume a: "tx_live (Suc c) (ts_tx s ! i)"
  obtain b s1 where s1: "seg_send_start tc i d (Some e) s = schedule_retransmit tc i s1" "length (ts_tx s1) = length (ts_tx s)"
    "ts_tx s1 ! i = (ts_tx s ! i)\<lparr>st_started := b\<rparr>" using seg_send_start_ctx [OF assms(1), of tc d "Some e"] by auto
  then show "tx_live c (ts_tx (seg_send_start tc i d (Some e) s) ! i)"
    using schedule_live [of i s1 c tc] assms a by (simp add: l)
qed

text \<open>While the loop runs, the count of pending segments follows the buffers handed over, and nothing is scheduled.\<close>

definition tx_sending :: "nat \<Rightarrow> seg_tx \<Rightarrow> bool" where
  "tx_sending c tx \<longleftrightarrow> unat (st_seg_pending tx) = c \<and> st_sending tx \<and> st_retransmit tx = None \<and> st_nack_count tx \<noteq> 0"

lemma finalize_sending:
  assumes "i < length (ts_tx s)" "tx_sending (Suc c) (ts_tx s ! i)"
  shows "tx_sending c (ts_tx (seg_sent tc i (seg_send_start tc i 0 None s)) ! i)" "length (ts_tx (seg_sent tc i (seg_send_start tc i 0 None s))) = length (ts_tx s)"
proof -
  obtain b s1 where s1: "seg_send_start tc i 0 None s = s1" "length (ts_tx s1) = length (ts_tx s)" "ts_tx s1 ! i = (ts_tx s ! i)\<lparr>st_started := b\<rparr>"
    using seg_send_start_ctx [OF assms(1), of tc 0 None] by auto
  have t: "tx_sending (Suc c) (ts_tx s1 ! i)" using s1(3) assms(2) by (simp add: tx_sending_def)
  define p where "p = st_seg_pending (ts_tx s1 ! i) - 1"
  have p: "unat p = c" using t u8_pred by (simp add: tx_sending_def p_def)
  show "tx_sending c (ts_tx (seg_sent tc i (seg_send_start tc i 0 None s)) ! i)"
    using schedule_ctx [of i s1 p tc] assms(1) s1(1,2) t p by (auto simp: seg_sent_def p_def [symmetric] tx_sending_def)
  show "length (ts_tx (seg_sent tc i (seg_send_start tc i 0 None s))) = length (ts_tx s)"
    using all_same_trans [OF seg_send_start_same seg_sent_same] by (auto simp: all_same_def)
qed

lemma seg_send_loop_ConsE:
  assumes "seg_send_loop tc te i tx (k # ks) s = Some (r, s')"
  obtains "seg_send_loop tc te i tx ks (upd_tx i (\<lambda>tx. tx\<lparr>st_seg_o := word_of_nat k\<rparr>) s) = Some (r, s')"
  | "s' = upd_tx i (\<lambda>tx. tx\<lparr>st_seg_o := word_of_nat k\<rparr>) s"
  | seg err fin u where "trans_net_send tc te tx seg True
        (upd_tx i (\<lambda>tx. tx\<lparr>st_seg_pending := st_seg_pending tx + 1\<rparr>) (upd_tx i (\<lambda>tx. tx\<lparr>st_seg_o := word_of_nat k\<rparr>) s)) = Some (err, fin, u)"
      "(if err \<noteq> None then Some (False, upd_tx i (\<lambda>tx. tx\<lparr>st_seg_pending := st_seg_pending tx - 1\<rparr>) (if fin then seg_sent tc i (seg_send_start tc i 0 None u) else u))
        else seg_send_loop tc te i tx ks (if fin then seg_sent tc i (seg_send_start tc i 0 None u) else u)) = Some (r, s')"
proof -
  define s0 where "s0 = upd_tx i (\<lambda>tx. tx\<lparr>st_seg_o := word_of_nat k\<rparr>) s"
  note run = assms [unfolded seg_send_loop.simps Let_def, folded s0_def]
  note loop = that [folded s0_def]
  show thesis
  proof (cases "st_seg (ts_tx s0 ! i) ! k = None")
    case True
    then show thesis using run loop(1) by (simp split: if_splits)
  next
    case seg: False
    show thesis
    proof (cases "te_adv te k")
      case None
      then show thesis using run seg loop(2) by (simp split: if_splits)
    next
      case (Some adv)
      have "net_buf_simple_reserve BT_MESH_NET_HDR_LEN adv \<bind> (\<lambda>adv. seg_tx_buf_build (ts_tx s0 ! i) k adv \<bind> (\<lambda>adv.
          trans_net_send tc te tx adv True (upd_tx i (\<lambda>tx. tx\<lparr>st_seg_pending := st_seg_pending tx + 1\<rparr>) s0) \<bind> (\<lambda>(err, fin, u).
          if err \<noteq> None then Some (False, upd_tx i (\<lambda>tx. tx\<lparr>st_seg_pending := st_seg_pending tx - 1\<rparr>) (if fin then seg_sent tc i (seg_send_start tc i 0 None u) else u))
          else seg_send_loop tc te i tx ks (if fin then seg_sent tc i (seg_send_start tc i 0 None u) else u)))) = Some (r, s')"
        using run seg Some by (simp only: option.case option.distinct if_False split: if_split_asm)
      then show thesis unfolding bind_eq_Some_conv
      proof (elim exE conjE)
        fix y ya yb
        assume a: "trans_net_send tc te tx ya True (upd_tx i (\<lambda>tx. tx\<lparr>st_seg_pending := st_seg_pending tx + 1\<rparr>) s0) = Some yb"
          "(case yb of (err, fin, u) \<Rightarrow>
            if err \<noteq> None then Some (False, upd_tx i (\<lambda>tx. tx\<lparr>st_seg_pending := st_seg_pending tx - 1\<rparr>) (if fin then seg_sent tc i (seg_send_start tc i 0 None u) else u))
            else seg_send_loop tc te i tx ks (if fin then seg_sent tc i (seg_send_start tc i 0 None u) else u)) = Some (r, s')"
        obtain err fin u where "yb = (err, fin, u)" by (cases yb)
        with a show thesis using loop(3) by (simp only: prod.case)
      qed
    qed
  qed
qed

lemma seg_send_loop_pending:
  assumes "seg_send_loop tc te i tx ks s = Some (r, s')" "i < length (ts_tx s)" "tx_sending c (ts_tx s ! i)" "c + length ks < 256"
  shows "\<exists>xs. nl_out (ts_layer s') = nl_out (ts_layer s) @ xs \<and> tx_sending (c + handed_over (tc_mesh tc) xs) (ts_tx s' ! i) \<and>
    handed_over (tc_mesh tc) xs \<le> length ks \<and> length (ts_tx s') = length (ts_tx s)"
  using assms
proof (induction ks arbitrary: s c)
  case Nil
  then show ?case by (simp add: handed_over_def)
next
  case (Cons k ks)
  let ?s = "upd_tx i (\<lambda>tx. tx\<lparr>st_seg_o := word_of_nat k\<rparr>) s"
  let ?p = "upd_tx i (\<lambda>tx. tx\<lparr>st_seg_pending := st_seg_pending tx + 1\<rparr>) ?s"
  have s: "i < length (ts_tx ?s)" "length (ts_tx ?s) = length (ts_tx s)" "tx_sending c (ts_tx ?s ! i)"
    using Cons.prems(2,3) by (simp_all add: tx_table.ctxs_upd tx_sending_def)
  have p: "i < length (ts_tx ?p)" "length (ts_tx ?p) = length (ts_tx s)" "tx_sending (Suc c) (ts_tx ?p ! i)"
    using s Cons.prems(4) by (simp_all add: tx_table.ctxs_upd tx_sending_def unat_word_ariths)
  have skip: ?case if "seg_send_loop tc te i tx ks ?s = Some (r, s')"
    using Cons.IH [OF that s(1,3)] Cons.prems(4) s(2) by fastforce
  have stop: ?case if "s' = ?s" using that s by (auto intro!: exI [of _ "[]"] simp: handed_over_def)
  have step: ?case if "trans_net_send tc te tx seg True ?p = Some (err, fin, u)"
      "(if err \<noteq> None then Some (False, upd_tx i (\<lambda>tx. tx\<lparr>st_seg_pending := st_seg_pending tx - 1\<rparr>) v) else seg_send_loop tc te i tx ks v) = Some (r, s')"
      "v = (if fin then seg_sent tc i (seg_send_start tc i 0 None u) else u)" for seg err fin u v
  proof -
    note a = that
    obtain xs where xs: "nl_out (ts_layer u) = nl_out (ts_layer s) @ xs" "handed_over (tc_mesh tc) xs = (if err = None \<and> \<not> fin then 1 else 0)"
        "err \<noteq> None \<longrightarrow> \<not> fin" "ts_tx u = ts_tx ?p" using trans_net_send_reports [OF a(1)] by auto
    have v: "nl_out (ts_layer v) = nl_out (ts_layer s) @ xs" "length (ts_tx v) = length (ts_tx s)" "tx_sending (if fin then c else Suc c) (ts_tx v ! i)"
      using a(3) xs(1,4) p finalize_sending [of i u c tc] by (auto simp: seg_sent_def)
    show ?thesis
    proof (cases "err = None")
      case True
      then have l: "seg_send_loop tc te i tx ks v = Some (r, s')" using a(2) by simp
      from Cons.IH [OF l _ v(3)] obtain ys where "nl_out (ts_layer s') = nl_out (ts_layer v) @ ys"
          "tx_sending ((if fin then c else Suc c) + handed_over (tc_mesh tc) ys) (ts_tx s' ! i)" "handed_over (tc_mesh tc) ys \<le> length ks"
          "length (ts_tx s') = length (ts_tx v)"
        using Cons.prems(2,4) v(2) by (cases fin) auto
      then show ?thesis using v(1,2) xs(2) True by (intro exI [of _ "xs @ ys"]) (auto split: if_splits)
    next
      case False
      then have s': "s' = upd_tx i (\<lambda>tx. tx\<lparr>st_seg_pending := st_seg_pending tx - 1\<rparr>) v" "\<not> fin" using a(2) xs(3) by auto
      have "tx_sending c (ts_tx s' ! i)" using v(2,3) s' Cons.prems(2) u8_pred by (simp add: tx_table.ctxs_upd tx_sending_def)
      then show ?thesis using v(1,2) s' xs(2) False by (intro exI [of _ xs]) (simp add: tx_table.ctxs_upd)
    qed
  qed
  from Cons.prems(1) show ?case
  proof (rule seg_send_loop_ConsE)
    fix seg err fin u
    assume "trans_net_send tc te tx seg True ?p = Some (err, fin, u)"
      "(if err \<noteq> None then Some (False, upd_tx i (\<lambda>tx. tx\<lparr>st_seg_pending := st_seg_pending tx - 1\<rparr>) (if fin then seg_sent tc i (seg_send_start tc i 0 None u) else u))
        else seg_send_loop tc te i tx ks (if fin then seg_sent tc i (seg_send_start tc i 0 None u) else u)) = Some (r, s')"
    then show ?case by (rule step) (rule refl)
  qed (rule skip, assumption, rule stop, assumption)
qed

lemma send_unacked_end_live:
  assumes "i < length (ts_tx s)" "tx_sending c (ts_tx s ! i)"
  shows "tx_live c (ts_tx (send_unacked_end tc i r s) ! i)" "ts_layer (send_unacked_end tc i r s) = ts_layer s"
proof -
  have "c < 256" using assms(2) unat_u8 [of "st_seg_pending (ts_tx s ! i)"] by (auto simp: tx_sending_def)
  then show "tx_live c (ts_tx (send_unacked_end tc i r s) ! i)"
    using assms by (auto simp: send_unacked_end_def Let_def tx_table.ctxs_upd tx_sending_def tx_live_def unat_gt_0)
  show "ts_layer (send_unacked_end tc i r s) = ts_layer s" by (simp add: send_unacked_end_def Let_def)
qed

text \<open>Every run of the work leaves the context live: with segments at the advertiser or with the next run scheduled.\<close>

lemma unacked_loop_live:
  assumes "unacked_loop tc te i (upd_tx i (\<lambda>tx. tx\<lparr>st_retransmit := None\<rparr>) u) sub = Some (r, v)" "i < length (ts_tx u)"
    and "unat (st_seg_pending (ts_tx u ! i)) < 224" "st_nack_count (ts_tx u ! i) \<noteq> 0" "unat (st_seg_n (ts_tx u ! i)) < 32"
  shows "tx_live (unat (st_seg_pending (ts_tx u ! i)) + handed_over (tc_mesh tc) (new_outs u (send_unacked_end tc i r v))) (ts_tx (send_unacked_end tc i r v) ! i)"
proof -
  let ?u = "upd_tx i (\<lambda>tx. tx\<lparr>st_sending := True\<rparr>) (upd_tx i (\<lambda>tx. tx\<lparr>st_retransmit := None\<rparr>) u)"
  have u: "i < length (ts_tx ?u)" "tx_sending (unat (st_seg_pending (ts_tx u ! i))) (ts_tx ?u ! i)"
    using assms(2,4) by (simp_all add: tx_table.ctxs_upd tx_sending_def)
  have len: "unat (st_seg_pending (ts_tx u ! i)) + length [unat (st_seg_o (ts_tx u ! i))..<unat (st_seg_n (ts_tx u ! i)) + 1] < 256"
    using assms(3,5) by (simp del: upt_Suc)
  obtain xs where xs: "nl_out (ts_layer v) = nl_out (ts_layer u) @ xs"
      "tx_sending (unat (st_seg_pending (ts_tx u ! i)) + handed_over (tc_mesh tc) xs) (ts_tx v ! i)" "length (ts_tx v) = length (ts_tx u)"
    using seg_send_loop_pending [OF assms(1) [unfolded unacked_loop_def] u] len assms(2) by (auto simp: tx_table.ctxs_upd simp del: upt_Suc)
  then show ?thesis using send_unacked_end_live [of i v _ tc r] assms(2) by (simp add: new_outs_def)
qed

text \<open>In particular the first transmission of a message, from a context with no pending segment and no scheduled work.\<close>

lemma seg_tx_send_unacked_live:
  assumes "seg_tx_send_unacked tc te i u = Some u'" "i < length (ts_tx u)" "st_nack_count (ts_tx u ! i) \<noteq> 0" "st_attempts (ts_tx u ! i) \<noteq> 0"
    and "st_seg_pending (ts_tx u ! i) = 0" "st_retransmit (ts_tx u ! i) = None" "unat (st_seg_n (ts_tx u ! i)) < 32"
  shows "tx_live (handed_over (tc_mesh tc) (new_outs u u')) (ts_tx u' ! i)"
proof -
  have "(ts_tx u ! i)\<lparr>st_retransmit := None\<rparr> = ts_tx u ! i" using assms(6) by simp
  then have u: "upd_tx i (\<lambda>tx. tx\<lparr>st_retransmit := None\<rparr>) u = u" by (simp add: upd_tx_def)
  from assms(1,3,4) obtain sub r v where "unacked_loop tc te i u sub = Some (r, v)" "u' = send_unacked_end tc i r v"
    by (auto simp: seg_tx_send_unacked_eq split: option.splits)
  then show ?thesis using unacked_loop_live [of tc te i u sub r v] u assms by simp
qed

lemma unacked_run_keeps:
  "unacked_run tc i m c s s' \<Longrightarrow> trans_inv tc' a b n s \<Longrightarrow> trans_cfg_ok tc' \<Longrightarrow> i < a \<Longrightarrow> st_nack_count (ts_tx s ! i) \<noteq> 0 \<Longrightarrow>
    tx_live (unat (st_seg_pending (ts_tx s ! i))) (ts_tx s ! i) \<Longrightarrow> attempted tc' a b n i s m s' \<and> tx_live c (ts_tx s' ! i)"
proof (induction rule: unacked_run.induct)
  case (run_none s)
  then show ?case by (simp add: attempted_def tx_same_def)
next
  case (run_started m c s u d)
  note IH = run_started.IH [OF run_started.prems]
  then have u: "trans_inv tc' a b n u" "i < length (ts_tx u)" "st_nack_count (ts_tx u ! i) \<noteq> 0"
    using run_started.prems trans_inv_len by (auto simp: attempted_def tx_same_def)
  show ?case using attempted_same [OF conjunct1 [OF IH] seg_send_start_inv [OF u(1)] seg_send_start_same] start_live(1) [OF u(2,3)] IH run_started.prems(3) by blast
next
  case (run_failed m c s u d e)
  note IH = run_failed.IH [OF run_failed.prems]
  then have u: "trans_inv tc' a b n u" "i < length (ts_tx u)" "st_nack_count (ts_tx u ! i) \<noteq> 0"
    using run_failed.prems trans_inv_len by (auto simp: attempted_def tx_same_def)
  show ?case using attempted_same [OF conjunct1 [OF IH] seg_send_start_inv [OF u(1)] seg_send_start_same] start_live(2) [OF u(2,3)] IH run_failed.prems(3) by blast
next
  case (run_sent m c s u)
  note IH = run_sent.IH [OF run_sent.prems]
  then have u: "trans_inv tc' a b n u" "i < length (ts_tx u)" "st_nack_count (ts_tx u ! i) \<noteq> 0"
    using run_sent.prems trans_inv_len by (auto simp: attempted_def tx_same_def)
  show ?case using attempted_same [OF conjunct1 [OF IH] seg_sent_inv [OF u(1)] seg_sent_same] schedule_live [OF u(2,3)] IH run_sent.prems(3)
    by (simp add: seg_sent_def)
next
  case (run_start_cb m c s u j d err)
  note IH = run_start_cb.IH [OF run_start_cb.prems]
  then have "trans_inv tc' a b n u" "j < a" using run_start_cb.hyps trans_inv_len by (auto simp: attempted_def)
  then show ?case
    using attempted_same [OF conjunct1 [OF IH] seg_send_start_inv seg_send_start_same] seg_send_start_other [of j i] IH run_start_cb by auto
next
  case (run_sent_cb m c s u j)
  note IH = run_sent_cb.IH [OF run_sent_cb.prems]
  then have "trans_inv tc' a b n u" "j < a" using run_sent_cb.hyps trans_inv_len by (auto simp: attempted_def)
  then show ?case
    using attempted_same [OF conjunct1 [OF IH] seg_sent_inv seg_sent_same] schedule_other [of j i] IH run_sent_cb by (auto simp: seg_sent_def)
next
  case (run_other m c s u u')
  note IH = run_other.IH [OF run_other.prems]
  then have "attempted tc' a b n i s m u'"
    using run_other by (intro attempted_same [OF conjunct1 [OF IH] _ all_same_slab]) (auto simp: attempted_def intro: trans_inv_frame)
  then show ?case using IH run_other.hyps by (simp add: same_slab_def)
next
  case (run_fire m c s u sub te all_sent v u')
  note IH = run_fire.IH [OF run_fire.prems]
  then have u: "trans_inv tc' a b n u" "i < length (ts_tx u)" "st_nack_count (ts_tx u ! i) \<noteq> 0" and c: "c = unat (st_seg_pending (ts_tx u ! i))" "c < 224"
    using run_fire.prems run_fire.hyps trans_inv_len by (auto simp: attempted_def tx_same_def tx_live_def)
  have "unat (st_seg_n (ts_tx u ! i)) < 32"
    using trans_inv_tx [OF u(1) run_fire.prems(3)] run_fire.prems(2) by (simp add: tx_ok_def trans_cfg_ok_def)
  moreover have "u' = send_unacked_end tc i all_sent v"
    using seg_retransmit_eq [OF u(2,3) run_fire.hyps(4), of tc te] run_fire.hyps by simp
  ultimately have "tx_live (c + handed_over (tc_mesh tc) (new_outs u u')) (ts_tx u' ! i)"
    using unacked_loop_live [OF run_fire.hyps(5) u(2) _ u(3)] c by simp
  moreover have "attempted tc' a b n i s (if all_sent then m + 1 else m) u'"
    using attempted_fire [OF conjunct1 [OF IH] run_fire.prems(3,4) run_fire.hyps(3-6)] .
  ultimately show ?case by blast
qed

text \<open>
  C23: a segmented transmission that is not acknowledged ends.  It starts in a state in which its
  work is scheduled or segments of it are with the advertiser, fewer than 224 so that the eight
  bits of the counter hold.  It never comes to a standstill: at every moment the counter is
  the number of segments the advertiser has not reported yet, and if there are none, the work is
  scheduled.  At most as many runs as there are attempts send all segments, and the run
  after those completes the transmission: the callback gets a timeout if the destination is a
  unicast address and success otherwise, and the context is idle and holds no memory.
\<close>

theorem unacked_transmission_ends:
  assumes "trans_inv tc a b n s" "trans_cfg_ok tc" "i < a" "st_nack_count (ts_tx s ! i) \<noteq> 0" "st_sub (ts_tx s ! i) \<noteq> None" "\<not> st_sending (ts_tx s ! i)"
    and "st_retransmit (ts_tx s ! i) \<noteq> None \<or> st_seg_pending (ts_tx s ! i) \<noteq> 0" "unat (st_seg_pending (ts_tx s ! i)) < 224" "unacked_run tc i m c s s'"
  shows "m \<le> unat (st_attempts (ts_tx s ! i)) \<and> unat (st_seg_pending (ts_tx s' ! i)) = c \<and> (c = 0 \<longrightarrow> st_retransmit (ts_tx s' ! i) \<noteq> None) \<and>
    (m = unat (st_attempts (ts_tx s ! i)) \<longrightarrow>
      (\<exists>s''. seg_retransmit tc te i s' = Some s'' \<and> tx_idle tc (ts_tx s'' ! i) \<and>
        ts_out s'' = ts_out s' @ cb_ends (st_cb (ts_tx s ! i)) (if BT_MESH_ADDR_IS_UNICAST (st_dst (ts_tx s ! i)) then Some ETIMEDOUT else None)))"
proof -
  let ?s1 = "upd_tx i (\<lambda>tx. tx\<lparr>st_retransmit := None\<rparr>) s'"
  have start: "tx_live (unat (st_seg_pending (ts_tx s ! i))) (ts_tx s ! i)" using assms(6-8) by (auto simp: tx_live_def unat_eq_0)
  note run = unacked_run_keeps [OF assms(9,1,2,3,4) start]
  then have at: "trans_inv tc a b n s'" "m \<le> unat (st_attempts (ts_tx s ! i))"
      "tx_same ((ts_tx s ! i)\<lparr>st_attempts := st_attempts (ts_tx s ! i) - word_of_nat m\<rparr>) (ts_tx s' ! i)"
    by (simp_all add: attempted_def)
  have live: "unat (st_seg_pending (ts_tx s' ! i)) = c" "c = 0 \<longrightarrow> st_retransmit (ts_tx s' ! i) \<noteq> None" using run by (simp_all add: tx_live_def)
  obtain sub where sub: "st_sub (ts_tx s' ! i) = Some sub" using at(3) assms(5) by (auto simp: tx_same_def)
  have nack: "st_nack_count (ts_tx s' ! i) \<noteq> 0" using at(3) assms(4) by (simp add: tx_same_def)
  have i: "i < length (ts_tx s')" using at(1) assms(3) trans_inv_len by blast
  have inv1: "trans_inv tc a b n ?s1" using at(1) assms(3) by (rule trans_inv_soft_tx) (simp add: soft_tx_def)
  have s1: "st_cb (ts_tx ?s1 ! i) = st_cb (ts_tx s ! i)" "ts_out ?s1 = ts_out s'" using i at(3) by (simp_all add: upd_tx_def tx_same_def)
  have dst: "st_dst (ts_tx s' ! i) = st_dst (ts_tx s ! i)" using at(3) by (simp add: tx_same_def)
  have out: "m = unat (st_attempts (ts_tx s ! i)) \<Longrightarrow> st_attempts (ts_tx s' ! i) = 0" using at(3) by (simp add: tx_same_def)
  show ?thesis using at(2) live out seg_retransmit_eq [OF i nack sub, of tc te] dst s1
      seg_tx_complete_ok [OF inv1 assms(3), of tc te "if BT_MESH_ADDR_IS_UNICAST (st_dst (ts_tx s ! i)) then Some ETIMEDOUT else None"]
    by auto
qed

text \<open>The last segment of a transmission to the node's own address, with one attempt left, and an advertising buffer to send it with.\<close>

definition self_tx :: seg_tx where
  "self_tx = \<lparr>st_sub = Some 0, st_seg = [None, None, Some (replicate 4 1)], st_seq_auth = 0x5000009, st_src = 3, st_dst = 7, st_len = 20, st_hdr = 0x8a,
     st_xmit = 0, st_seg_n = 2, st_seg_o = 0, st_nack_count = 1, st_attempts = 1, st_ttl = 5, st_seg_pending = 0, st_blocked = False, st_ctl = True,
     st_aszmic = False, st_started = False, st_sending = False, st_friend_cred = False,
     st_cb = Some \<lparr>cb_id = 3, cb_start = True, cb_end = True\<rparr>, st_retransmit = None\<rparr>"

definition seg_to_self :: trans_state where
  "seg_to_self = seg_state\<lparr>ts_tx := [self_tx\<lparr>st_retransmit := Some 450\<rparr>], ts_free := 3\<rparr>"

definition self_fired :: trans_state where
  "self_fired = seg_to_self\<lparr>ts_tx := [self_tx]\<rparr>"

definition adv_env :: trans_env where
  "adv_env = seg_env\<lparr>te_adv := (\<lambda>_. Some \<lparr>nb_data = 0, nb_len = 0, nb_size = 29, nb_buf = replicate 29 0\<rparr>)\<rparr>"

definition self_buf :: net_buf_simple where
  "self_buf = \<lparr>nb_data = 9, nb_len = 8, nb_size = 29, nb_buf = replicate 9 0 @ [0x8a, 0, 36, 0x42] @ replicate 4 1 @ replicate 12 0\<rparr>"

definition self_sending :: trans_state where
  "self_sending = seg_to_self\<lparr>ts_tx := [self_tx\<lparr>st_sending := True, st_seg_o := 2, st_seg_pending := 1\<rparr>]\<rparr>"

lemma self_build:
  "seg_tx_buf_build (self_tx\<lparr>st_sending := True, st_seg_o := 2\<rparr>) 2 \<lparr>nb_data = 9, nb_len = 0, nb_size = 29, nb_buf = replicate 29 0\<rparr> = Some self_buf"
  by code_simp

lemma self_send:
  "\<exists>nl. trans_net_send seg_cfg adv_env (seg_net_tx self_tx 0 5) self_buf True self_sending = Some (None, True, self_sending\<lparr>ts_layer := nl\<rparr>) \<and>
    map fst (nl_local_queue nl) = [0]"
proof -
  have "map_option (\<lambda>(err, nl). (err, finalized (ts_layer self_sending) nl, map fst (nl_local_queue nl)))
      (bt_mesh_net_send (tc_mesh seg_cfg) (trans_net_env adv_env self_sending) (seg_net_tx self_tx 0 5) self_buf True (ts_layer self_sending)) = Some (None, True, [0])"
    by code_simp
  then show ?thesis by (auto simp: trans_net_send_def)
qed

lemma self_loop:
  "\<exists>v. unacked_loop seg_cfg adv_env 0 (upd_tx 0 (\<lambda>tx. tx\<lparr>st_retransmit := None\<rparr>) seg_to_self) 0 = Some (True, v) \<and> map fst (nl_local_queue (ts_layer v)) = [0]"
proof -
  let ?buf = "\<lparr>nb_data = 0, nb_len = 0, nb_size = 29, nb_buf = replicate 29 0\<rparr> :: net_buf_simple"
  obtain nl where nl: "trans_net_send seg_cfg adv_env (seg_net_tx self_tx 0 5) self_buf True self_sending = Some (None, True, self_sending\<lparr>ts_layer := nl\<rparr>)"
    "map fst (nl_local_queue nl) = [0]" using self_send by (elim exE conjE)
  have tx: "upd_tx 0 (\<lambda>tx. tx\<lparr>st_retransmit := None\<rparr>) seg_to_self = self_fired" "ts_tx self_fired = [self_tx]"
    "sn_net_idx (ks_subnets (ts_keys self_fired) ! 0) = 5" "st_seg self_tx = [None, None, Some (replicate 4 1)]" "unat (st_seg_o self_tx) = 0" "unat (st_seg_n self_tx) = 2" "st_seg_pending self_tx = 0"
    by (simp_all add: self_fired_def seg_to_self_def self_tx_def upd_tx_def seg_state_def app_example_keys_def)
  have upd: "upd_tx 0 f (seg_to_self\<lparr>ts_tx := [t]\<rparr>) = seg_to_self\<lparr>ts_tx := [f t]\<rparr>" "upd_tx 0 f self_fired = seg_to_self\<lparr>ts_tx := [f self_tx]\<rparr>" for f t
    by (simp_all add: upd_tx_def tx self_fired_def)
  have res: "net_buf_simple_reserve BT_MESH_NET_HDR_LEN ?buf = Some \<lparr>nb_data = 9, nb_len = 0, nb_size = 29, nb_buf = replicate 29 0\<rparr>" by code_simp
  have adv: "te_adv adv_env k = Some ?buf" for k by (simp add: adv_env_def)
  have keep: "ts_layer (seg_sent seg_cfg 0 (seg_send_start seg_cfg 0 0 None u)) = ts_layer u" for u
    by (auto simp: seg_sent_def seg_send_start_def schedule_retransmit_def Let_def upd_tx_def trans_output_def split: option.split)
  have ks: "[0..<3] = [0, 1, 2::nat]" by (simp add: upt_rec)
  show ?thesis unfolding unacked_loop_def tx using nl self_build
    by (simp add: ks upd tx adv res Let_def self_sending_def keep del: upt_Suc)
qed

lemma seg_to_self_run: "\<exists>c s'. unacked_run seg_cfg 0 1 c seg_to_self s' \<and> map fst (nl_local_queue (ts_layer s')) = [0]"
proof -
  obtain v where v: "unacked_loop seg_cfg adv_env 0 (upd_tx 0 (\<lambda>tx. tx\<lparr>st_retransmit := None\<rparr>) seg_to_self) 0 = Some (True, v)"
      "map fst (nl_local_queue (ts_layer v)) = [0]" using self_loop by (elim exE conjE)
  have tx: "st_retransmit (ts_tx seg_to_self ! 0) \<noteq> None" "st_attempts (ts_tx seg_to_self ! 0) \<noteq> 0" "st_sub (ts_tx seg_to_self ! 0) = Some 0"
    "st_nack_count (ts_tx seg_to_self ! 0) \<noteq> 0" "0 < length (ts_tx seg_to_self)"
    by (simp_all add: seg_to_self_def self_tx_def)
  have fire: "seg_retransmit seg_cfg adv_env 0 seg_to_self = Some (send_unacked_end seg_cfg 0 True v)"
    using seg_retransmit_eq [OF tx(5,4,3), of seg_cfg adv_env] v(1) tx(2) by simp
  have "ts_layer (send_unacked_end seg_cfg 0 True v) = ts_layer v" by (simp add: send_unacked_end_def Let_def upd_tx_def)
  then show ?thesis using run_fire [OF run_none tx(1,2,3) v(1) fire] v(2) by (intro exI [of _ "send_unacked_end seg_cfg 0 True v"] exI) simp
qed

theorem unacked_transmission_ends_witness:
  "\<exists>c s' s''. unacked_run seg_cfg 0 1 c seg_to_self s' \<and> map fst (nl_local_queue (ts_layer s')) = [0] \<and> unat (st_seg_pending (ts_tx s' ! 0)) = c \<and>
     seg_retransmit seg_cfg adv_env 0 s' = Some s'' \<and> tx_idle seg_cfg (ts_tx s'' ! 0) \<and> ts_out s'' = ts_out s' @ [Cb_end 3 (Some ETIMEDOUT)]"
proof -
  have inv: "trans_inv seg_cfg 1 1 4 seg_to_self" "trans_cfg_ok seg_cfg"
    by (auto simp: trans_inv_def seg_to_self_def seg_state_def tx_table.owned_def rx_table.owned_def tx_ok_def rx_ok_def self_tx_def idle_rx_def seg_cfg_def
        blocks_def less_Suc_eq numeral_3_eq_3 trans_cfg_ok_def)
  have tx: "st_nack_count (ts_tx seg_to_self ! 0) \<noteq> 0" "st_sub (ts_tx seg_to_self ! 0) \<noteq> None" "\<not> st_sending (ts_tx seg_to_self ! 0)"
      "st_retransmit (ts_tx seg_to_self ! 0) \<noteq> None \<or> st_seg_pending (ts_tx seg_to_self ! 0) \<noteq> 0" "unat (st_seg_pending (ts_tx seg_to_self ! 0)) < 224"
      "unat (st_attempts (ts_tx seg_to_self ! 0)) = 1"
      "BT_MESH_ADDR_IS_UNICAST (st_dst (ts_tx seg_to_self ! 0))" "cb_ends (st_cb (ts_tx seg_to_self ! 0)) (Some ETIMEDOUT) = [Cb_end 3 (Some ETIMEDOUT)]"
    by (simp_all add: seg_to_self_def self_tx_def BT_MESH_ADDR_IS_UNICAST_def cb_ends_def)
  obtain c s' where s': "unacked_run seg_cfg 0 1 c seg_to_self s'" "map fst (nl_local_queue (ts_layer s')) = [0]" using seg_to_self_run by (elim exE conjE)
  show ?thesis using unacked_transmission_ends [OF inv zero_less_one tx(1-5) s'(1), of adv_env] s' tx(6-8) by auto
qed

end
