(* ===== verification/Mesh_Acc.thy ===== *)
theory Mesh_Acc
  imports Mesh_Seg_Tx
begin

text \<open>
  The mesh access layer, \<open>core/src/mesh/access.c\<close> and \<open>core/src/mesh/msg.c\<close>: the composition of a
  node (elements and models), opcodes, the dispatch of received messages, publication, model
  extensions, and the storage of the configuration of models.

  A pointer to a model is an index into \<open>xs_models\<close>; the pointers \<open>models\<close> and \<open>vnd_models\<close> of an
  element are the index of the first model of the array, so that \<open>&elem->models[i]\<close> and
  \<open>mod - elem->models\<close> are a sum and a difference.  Model callbacks and the settings backend
  are calls in the log; what they answer is in the environment.
\<close>

section \<open>Data\<close>

definition BT_MESH_KEY_DEV_ANY :: u16 where [simp]: "BT_MESH_KEY_DEV_ANY = 0xfffc"

definition BT_MESH_MOD_BIND_PENDING :: u16 where "BT_MESH_MOD_BIND_PENDING = 1"
definition BT_MESH_MOD_SUB_PENDING :: u16 where "BT_MESH_MOD_SUB_PENDING = 2"
definition BT_MESH_MOD_PUB_PENDING :: u16 where "BT_MESH_MOD_PUB_PENDING = 4"
definition BT_MESH_MOD_EXTENDED :: u16 where "BT_MESH_MOD_EXTENDED = 8"

record bt_mesh_model_pub =
  pb_mod :: nat
  pb_addr :: u16
  pb_key :: "12 word"
  pb_cred :: bool
  pb_send_rel :: bool
  pb_fast_period :: bool
  pb_ttl :: u8
  pb_retransmit :: u8
  pb_period :: u8
  pb_period_div :: "4 word"
  pb_count :: "4 word"
  pb_period_start :: u32
  pb_msg :: "net_buf_simple option"
  pb_update :: bool
  pb_timer :: "nat option"

text \<open>The list of handlers ends at the first entry without a function, so it is a list.\<close>

record bt_mesh_model_op =
  mo_opcode :: u32
  mo_len :: int
  mo_func :: nat

record bt_mesh_model =
  md_company :: u16
  md_id :: u16
  md_elem_idx :: u8
  md_mod_idx :: u8
  md_flags :: u16
  md_pub :: "bt_mesh_model_pub option"
  md_keys :: "u16 list"
  md_groups :: "u16 list"
  md_op :: "bt_mesh_model_op list"
  md_cb_init :: bool
  md_cb_settings_set :: bool
  md_next :: "nat option"

record bt_mesh_elem =
  el_addr :: u16
  el_loc :: u16
  el_model_count :: u8
  el_vnd_model_count :: u8
  el_models :: nat
  el_vnd_models :: nat

record mod_pub_val =
  pv_addr :: u16
  pv_key :: u16
  pv_ttl :: u8
  pv_retransmit :: u8
  pv_period :: u8
  pv_period_div :: "4 word"
  pv_cred :: bool

datatype access_out =
    Mod_init nat
  | Op_func nat nat bt_mesh_msg_ctx bytes
  | Msg_cb u32 bt_mesh_msg_ctx bytes
  | Pub_update nat
  | Mod_save_u16s string "u16 list"
  | Mod_save_pub string mod_pub_val
  | Mod_save_data string bytes
  | Mod_delete string
  | Mod_settings_set nat "string option" nat
  | Mod_store_schedule
  | Lpn_group_add u16

record access_state =
  xs_elems :: "bt_mesh_elem list"
  xs_models :: "bt_mesh_model list"
  xs_primary :: u16
  xs_msg_cb :: bool
  xs_trans :: trans_state
  xs_out :: "access_out list"

record access_cfg =
  xc_trans :: trans_cfg
  xc_extensions :: bool
  xc_cid_force :: bool
  xc_layer_msg :: bool
  xc_big_endian :: bool
  xc_dir_depth :: nat

text \<open>
  \<open>xe_update\<close> is what the update callback of a model answers and leaves as its message,
  \<open>xe_op_func\<close> what a message handler leaves of the buffer it parses, \<open>xe_name_next\<close> the function
  of the settings subsystem that splits a name.
\<close>

record access_env =
  xe_trans :: trans_env
  xe_uptime :: u32
  xe_suspended :: bool
  xe_init :: "nat \<Rightarrow> errno option"
  xe_update :: "nat \<Rightarrow> net_buf_simple option \<Rightarrow> errno option \<times> net_buf_simple option"
  xe_op_func :: "nat \<Rightarrow> nat \<Rightarrow> bt_mesh_msg_ctx \<Rightarrow> net_buf_simple \<Rightarrow> net_buf_simple"
  xe_name_next :: "string \<Rightarrow> nat \<times> string option"
  xe_settings_set :: "nat \<Rightarrow> string option \<Rightarrow> nat \<Rightarrow> errno option"
  xe_store :: "string \<Rightarrow> errno option"

definition acc_output :: "access_out \<Rightarrow> access_state \<Rightarrow> access_state" where
  "acc_output x s = s\<lparr>xs_out := xs_out s @ [x]\<rparr>"

definition upd_model :: "nat \<Rightarrow> (bt_mesh_model \<Rightarrow> bt_mesh_model) \<Rightarrow> access_state \<Rightarrow> access_state" where
  "upd_model m f s = s\<lparr>xs_models := (xs_models s)[m := f (xs_models s ! m)]\<rparr>"

definition upd_pub :: "nat \<Rightarrow> (bt_mesh_model_pub \<Rightarrow> bt_mesh_model_pub) \<Rightarrow> access_state \<Rightarrow> access_state" where
  "upd_pub m f = upd_model m (\<lambda>md. md\<lparr>md_pub := map_option f (md_pub md)\<rparr>)"

text \<open>\<open>k_work_schedule\<close> leaves a timer that runs alone, \<open>k_work_reschedule\<close> does not.\<close>

definition pub_schedule :: "nat \<Rightarrow> nat \<Rightarrow> access_state \<Rightarrow> access_state" where
  "pub_schedule m ms = upd_pub m (\<lambda>p. p\<lparr>pb_timer := (case pb_timer p of None \<Rightarrow> Some ms | Some t \<Rightarrow> Some t)\<rparr>)"

section \<open>Opcodes\<close>

definition BT_MESH_MODEL_OP_LEN :: "u32 \<Rightarrow> nat" where
  "BT_MESH_MODEL_OP_LEN opcode = (if opcode \<le> 0xff then 1 else if opcode \<le> 0xffff then 2 else 3)"

definition BT_MESH_MODEL_OP_1 :: "u8 \<Rightarrow> u32" where
  "BT_MESH_MODEL_OP_1 b0 = ucast b0"

definition BT_MESH_MODEL_OP_2 :: "u8 \<Rightarrow> u8 \<Rightarrow> u32" where
  "BT_MESH_MODEL_OP_2 b0 b1 = push_bit 8 (ucast b0) OR ucast b1"

definition BT_MESH_MODEL_OP_3 :: "u8 \<Rightarrow> u16 \<Rightarrow> u32" where
  "BT_MESH_MODEL_OP_3 b0 cid = (push_bit 16 (ucast b0) OR 0xc00000) OR ucast cid"

definition bt_mesh_model_msg_init :: "u32 \<Rightarrow> net_buf_simple \<Rightarrow> net_buf_simple option" where
  "bt_mesh_model_msg_init opcode msg =
     (let msg = net_buf_simple_init 0 msg in
      if BT_MESH_MODEL_OP_LEN opcode = 1 then net_buf_simple_add_u8 (ucast opcode) msg
      else if BT_MESH_MODEL_OP_LEN opcode = 2 then net_buf_simple_add_be16 (ucast opcode) msg
      else do {
        msg \<leftarrow> net_buf_simple_add_u8 (ucast (drop_bit 16 opcode AND 0xff)) msg;
        net_buf_simple_add_le16 (ucast (opcode AND 0xffff)) msg
      })"

definition get_opcode :: "bool \<Rightarrow> net_buf_simple \<Rightarrow> ((errno + u32) \<times> net_buf_simple) option" where
  "get_opcode big buf =
     (let b0 = nb_buf buf ! nb_data buf in
      if drop_bit 6 b0 = 0 \<or> drop_bit 6 b0 = 1
      then if b0 = 0x7f then Some (Inl EINVAL, buf)
           else do { (op, buf) \<leftarrow> net_buf_simple_pull_u8 buf; Some (Inr (ucast op), buf) }
      else if drop_bit 6 b0 = 2
      then if nb_len buf < 2 then Some (Inl EINVAL, buf)
           else do { (op, buf) \<leftarrow> net_buf_simple_pull_be16 big buf; Some (Inr (ucast op), buf) }
      else if nb_len buf < 3 then Some (Inl EINVAL, buf)
      else do {
        (hi, buf) \<leftarrow> net_buf_simple_pull_u8 buf;
        (cid, buf) \<leftarrow> net_buf_simple_pull_le16 big buf;
        Some (Inr (push_bit 16 (ucast hi) OR ucast cid), buf)
      })"

section \<open>Acknowledged messages\<close>

record bt_mesh_msg_ack_ctx =
  ak_op :: u32
  ak_dst :: u16
  ak_user_data :: "nat option"

definition bt_mesh_msg_ack_ctx_clear :: "bt_mesh_msg_ack_ctx \<Rightarrow> bt_mesh_msg_ack_ctx" where
  "bt_mesh_msg_ack_ctx_clear ack = ack\<lparr>ak_op := 0, ak_user_data := None, ak_dst := BT_MESH_ADDR_UNASSIGNED\<rparr>"

definition bt_mesh_msg_ack_ctx_prepare ::
  "u32 \<Rightarrow> u16 \<Rightarrow> nat option \<Rightarrow> bt_mesh_msg_ack_ctx \<Rightarrow> errno option \<times> bt_mesh_msg_ack_ctx" where
  "bt_mesh_msg_ack_ctx_prepare op dst user_data ack =
     (if ak_op ack \<noteq> 0 then (Some EBUSY, ack)
      else (None, ack\<lparr>ak_op := op, ak_user_data := user_data, ak_dst := dst\<rparr>))"

text \<open>\<open>taken\<close> is what \<open>k_sem_take\<close> returned.\<close>

definition bt_mesh_msg_ack_ctx_wait :: "errno option \<Rightarrow> bt_mesh_msg_ack_ctx \<Rightarrow> errno option \<times> bt_mesh_msg_ack_ctx" where
  "bt_mesh_msg_ack_ctx_wait taken ack =
     (if taken = Some EAGAIN then Some ETIMEDOUT else taken, bt_mesh_msg_ack_ctx_clear ack)"

definition bt_mesh_msg_ack_ctx_match :: "u32 \<Rightarrow> u16 \<Rightarrow> bt_mesh_msg_ack_ctx \<Rightarrow> nat option option" where
  "bt_mesh_msg_ack_ctx_match op addr ack =
     (if ak_op ack \<noteq> op \<or> (BT_MESH_ADDR_IS_UNICAST (ak_dst ack) \<and> ak_dst ack \<noteq> addr) then None
      else Some (ak_user_data ack))"

section \<open>Composition\<close>

definition elem_models :: "bool \<Rightarrow> bt_mesh_elem \<Rightarrow> nat list" where
  "elem_models vnd e =
     (if vnd then [el_vnd_models e..<el_vnd_models e + unat (el_vnd_model_count e)]
      else [el_models e..<el_models e + unat (el_model_count e)])"

definition bt_mesh_model_foreach ::
  "(nat \<Rightarrow> nat \<Rightarrow> bool \<Rightarrow> bool \<Rightarrow> 's \<Rightarrow> 's) \<Rightarrow> bt_mesh_elem list \<Rightarrow> 's \<Rightarrow> 's" where
  "bt_mesh_model_foreach func elems s =
     fold (\<lambda>i s. fold (\<lambda>m. func m i True (i = 0)) (elem_models True (elems ! i))
                  (fold (\<lambda>m. func m i False (i = 0)) (elem_models False (elems ! i)) s))
       [0..<length elems] s"

definition bt_mesh_model_elem :: "nat \<Rightarrow> access_state \<Rightarrow> bt_mesh_elem" where
  "bt_mesh_model_elem m s = xs_elems s ! unat (md_elem_idx (xs_models s ! m))"

definition bt_mesh_model_get :: "bool \<Rightarrow> u8 \<Rightarrow> u8 \<Rightarrow> access_state \<Rightarrow> nat option" where
  "bt_mesh_model_get vnd elem_idx mod_idx s =
     (if length (xs_elems s) \<le> unat elem_idx then None
      else
        (let e = xs_elems s ! unat elem_idx in
         if vnd then if el_vnd_model_count e \<le> mod_idx then None else Some (el_vnd_models e + unat mod_idx)
         else if el_model_count e \<le> mod_idx then None else Some (el_models e + unat mod_idx)))"

definition bt_mesh_vnd_mod_msg_cid_check :: "bt_mesh_model \<Rightarrow> errno option" where
  "bt_mesh_vnd_mod_msg_cid_check md =
     (if \<exists>op \<in> set (md_op md). ucast (mo_opcode op AND 0xffff) \<noteq> md_company md then Some EINVAL else None)"

definition mod_init ::
  "access_cfg \<Rightarrow> access_env \<Rightarrow> nat \<Rightarrow> nat \<Rightarrow> bool \<Rightarrow> bool \<Rightarrow> errno option \<times> access_state \<Rightarrow> errno option \<times> access_state" where
  "mod_init xc xe m i vnd primary st =
     (let (err, s) = st in
      if err \<noteq> None then st
      else
        (let s = upd_pub m (\<lambda>p. p\<lparr>pb_mod := m, pb_timer := None\<rparr>) s;
             s = upd_model m (\<lambda>md. md\<lparr>md_keys := replicate (length (md_keys md)) BT_MESH_KEY_UNUSED, md_elem_idx := word_of_nat i,
                   md_mod_idx := word_of_nat (m - (if vnd then el_vnd_models (xs_elems s ! i) else el_models (xs_elems s ! i)))\<rparr>) s;
             err = (if vnd \<and> xc_cid_force xc then bt_mesh_vnd_mod_msg_cid_check (xs_models s ! m) else None)
         in if err \<noteq> None then (err, s)
            else if md_cb_init (xs_models s ! m) then (xe_init xe m, acc_output (Mod_init m) s)
            else (None, s)))"

definition bt_mesh_comp_register ::
  "access_cfg \<Rightarrow> access_env \<Rightarrow> bt_mesh_elem list option \<Rightarrow> access_state \<Rightarrow> errno option \<times> access_state" where
  "bt_mesh_comp_register xc xe dev_comp s =
     (case dev_comp of None \<Rightarrow> (Some EINVAL, s)
      | Some elems \<Rightarrow>
          if elems = [] then (Some EINVAL, s)
          else bt_mesh_model_foreach (mod_init xc xe) elems (None, s\<lparr>xs_elems := elems\<rparr>))"

definition bt_mesh_comp_provision :: "u16 \<Rightarrow> access_state \<Rightarrow> access_state" where
  "bt_mesh_comp_provision addr s =
     s\<lparr>xs_primary := addr,
       xs_elems := map (\<lambda>i. (xs_elems s ! i)\<lparr>el_addr := addr + word_of_nat i\<rparr>) [0..<length (xs_elems s)]\<rparr>"

definition bt_mesh_comp_unprovision :: "access_state \<Rightarrow> access_state" where
  "bt_mesh_comp_unprovision s = s\<lparr>xs_primary := BT_MESH_ADDR_UNASSIGNED\<rparr>"

definition bt_mesh_primary_addr :: "access_state \<Rightarrow> u16" where
  "bt_mesh_primary_addr s = xs_primary s"

definition bt_mesh_elem_count :: "access_state \<Rightarrow> u8" where
  "bt_mesh_elem_count s = word_of_nat (length (xs_elems s))"

definition bt_mesh_model_find_vnd :: "bt_mesh_elem \<Rightarrow> u16 \<Rightarrow> u16 \<Rightarrow> access_state \<Rightarrow> nat option" where
  "bt_mesh_model_find_vnd e company mid s =
     find (\<lambda>m. md_company (xs_models s ! m) = company \<and> md_id (xs_models s ! m) = mid) (elem_models True e)"

definition bt_mesh_model_find :: "bt_mesh_elem \<Rightarrow> u16 \<Rightarrow> access_state \<Rightarrow> nat option" where
  "bt_mesh_model_find e mid s = find (\<lambda>m. md_id (xs_models s ! m) = mid) (elem_models False e)"

section \<open>Model extensions\<close>

text \<open>
  The visitor answers whether to stop.  The loop follows the \<open>next\<close> pointers; \<open>fuel\<close> bounds the
  number of its iterations, and \<open>None\<close> means that it was not enough.
\<close>

fun extensions_loop ::
  "nat \<Rightarrow> nat \<Rightarrow> bt_mesh_model list \<Rightarrow> (nat \<Rightarrow> 's \<Rightarrow> bool \<times> 's) \<Rightarrow> nat option \<Rightarrow> 's \<Rightarrow> 's option" where
  "extensions_loop fuel model mods cb None s = Some s"
| "extensions_loop 0 model mods cb (Some m) s = (if md_next (mods ! m) = Some model then Some s else None)"
| "extensions_loop (Suc fuel) model mods cb (Some m) s =
     (if md_next (mods ! m) = Some model then Some s
      else
        (let (stop, s) = cb m s in
         if stop then Some s else extensions_loop fuel model mods cb (md_next (mods ! m)) s))"

definition bt_mesh_model_extensions_walk ::
  "access_cfg \<Rightarrow> nat \<Rightarrow> (nat \<Rightarrow> 's \<Rightarrow> bool \<times> 's) \<Rightarrow> bt_mesh_model list \<Rightarrow> 's \<Rightarrow> 's option" where
  "bt_mesh_model_extensions_walk xc model cb mods s =
     (if \<not> xc_extensions xc \<or> md_next (mods ! model) = None then Some (snd (cb model s))
      else extensions_loop (length mods) model mods cb (Some model) s)"

fun extend_search :: "nat \<Rightarrow> nat \<Rightarrow> nat \<Rightarrow> bt_mesh_model list \<Rightarrow> nat option \<Rightarrow> bool option" where
  "extend_search fuel a b mods None = Some False"
| "extend_search 0 a b mods (Some m) = (if md_next (mods ! m) = Some a then Some False else None)"
| "extend_search (Suc fuel) a b mods (Some m) =
     (if md_next (mods ! m) = Some a then Some False
      else if m = b then Some True
      else extend_search fuel a b mods (md_next (mods ! m)))"

definition bt_mesh_model_extend :: "nat \<Rightarrow> nat \<Rightarrow> bt_mesh_model list \<Rightarrow> bt_mesh_model list option" where
  "bt_mesh_model_extend a b mods =
     (let a_next = md_next (mods ! a); b_next = md_next (mods ! b);
          mods = mods[b := (mods ! b)\<lparr>md_flags := md_flags (mods ! b) OR BT_MESH_MOD_EXTENDED\<rparr>]
      in if a = b then Some mods
         else do {
           found \<leftarrow> extend_search (length mods) a b mods (Some a);
           (if found then Some mods
            else
              (let mods = mods[b := (mods ! b)\<lparr>md_next := (case a_next of Some x \<Rightarrow> Some x | None \<Rightarrow> Some a)\<rparr>]
               in Some (mods[a := (mods ! a)\<lparr>md_next := (case b_next of Some x \<Rightarrow> Some x | None \<Rightarrow> Some b)\<rparr>])))
         })"

definition bt_mesh_model_is_extended :: "nat \<Rightarrow> access_state \<Rightarrow> bool" where
  "bt_mesh_model_is_extended m s \<longleftrightarrow> md_flags (xs_models s ! m) AND BT_MESH_MOD_EXTENDED \<noteq> 0"

section \<open>Subscriptions and keys\<close>

definition model_group_get :: "bt_mesh_model \<Rightarrow> u16 \<Rightarrow> nat option" where
  "model_group_get md addr = find_index (\<lambda>g. g = addr) (md_groups md)"

text \<open>The visitor of \<open>bt_mesh_model_find_group\<close>: \<open>(mod, entry)\<close>, with the element of the model last found.\<close>

definition find_group_mod_visitor ::
  "bt_mesh_model list \<Rightarrow> u16 \<Rightarrow> nat \<Rightarrow> nat \<times> nat option \<Rightarrow> bool \<times> nat \<times> nat option" where
  "find_group_mod_visitor mods addr m ctx =
     (if md_elem_idx (mods ! m) \<noteq> md_elem_idx (mods ! fst ctx) then (False, ctx)
      else case model_group_get (mods ! m) addr of
             Some e \<Rightarrow> (True, m, Some e)
           | None \<Rightarrow> (False, fst ctx, None))"

definition bt_mesh_model_find_group :: "access_cfg \<Rightarrow> nat \<Rightarrow> u16 \<Rightarrow> bt_mesh_model list \<Rightarrow> (nat \<times> nat option) option" where
  "bt_mesh_model_find_group xc m addr mods =
     bt_mesh_model_extensions_walk xc m (find_group_mod_visitor mods addr) mods (m, None)"

definition bt_mesh_elem_find_group :: "bt_mesh_elem \<Rightarrow> u16 \<Rightarrow> bt_mesh_model list \<Rightarrow> nat option" where
  "bt_mesh_elem_find_group e addr mods =
     find (\<lambda>m. model_group_get (mods ! m) addr \<noteq> None) (elem_models False e @ elem_models True e)"

definition bt_mesh_elem_find :: "u16 \<Rightarrow> access_state \<Rightarrow> nat option" where
  "bt_mesh_elem_find addr s =
     (if \<not> BT_MESH_ADDR_IS_UNICAST addr then None
      else
        (let index = unat (addr - el_addr (xs_elems s ! 0)) in
         if length (xs_elems s) \<le> index then None else Some index))"

definition bt_mesh_has_addr :: "access_cfg \<Rightarrow> u16 \<Rightarrow> access_state \<Rightarrow> bool" where
  "bt_mesh_has_addr xc addr s \<longleftrightarrow>
     (if BT_MESH_ADDR_IS_UNICAST addr then bt_mesh_elem_find addr s \<noteq> None
      else xc_layer_msg xc \<and> xs_msg_cb s \<or> (\<exists>e \<in> set (xs_elems s). bt_mesh_elem_find_group e addr (xs_models s) \<noteq> None))"

definition bt_mesh_msg_cb_set :: "bool \<Rightarrow> access_state \<Rightarrow> access_state" where
  "bt_mesh_msg_cb_set cb s = s\<lparr>xs_msg_cb := cb\<rparr>"

definition bt_mesh_model_has_key :: "bt_mesh_model \<Rightarrow> u16 \<Rightarrow> bool" where
  "bt_mesh_model_has_key md key \<longleftrightarrow>
     (\<exists>k \<in> set (md_keys md). k = key \<or> k = BT_MESH_KEY_DEV_ANY \<and> BT_MESH_IS_DEV_KEY key)"

definition model_has_dst :: "access_cfg \<Rightarrow> nat \<Rightarrow> u16 \<Rightarrow> access_state \<Rightarrow> bool option" where
  "model_has_dst xc m dst s =
     (if BT_MESH_ADDR_IS_UNICAST dst then Some (el_addr (bt_mesh_model_elem m s) = dst)
      else if BT_MESH_ADDR_IS_GROUP dst \<or> BT_MESH_ADDR_IS_VIRTUAL dst
      then map_option (\<lambda>(_, entry). entry \<noteq> None) (bt_mesh_model_find_group xc m dst (xs_models s))
      else Some (md_elem_idx (xs_models s ! m) = 0))"

section \<open>Receiving\<close>

definition find_op :: "access_cfg \<Rightarrow> bt_mesh_elem \<Rightarrow> u32 \<Rightarrow> bt_mesh_model list \<Rightarrow> (nat \<times> bt_mesh_model_op) option" where
  "find_op xc e opcode mods =
     (let vnd = \<not> BT_MESH_MODEL_OP_LEN opcode < 3;
          ms = filter (\<lambda>m. \<not> (xc_cid_force xc \<and> vnd \<and> ucast (opcode AND 0xffff) \<noteq> md_company (mods ! m))) (elem_models vnd e)
      in case find (\<lambda>m. \<exists>op \<in> set (md_op (mods ! m)). mo_opcode op = opcode) ms of
           None \<Rightarrow> None
         | Some m \<Rightarrow> map_option (Pair m) (find (\<lambda>op. mo_opcode op = opcode) (md_op (mods ! m))))"

definition op_len_ok :: "bt_mesh_model_op \<Rightarrow> nat \<Rightarrow> bool" where
  "op_len_ok op len \<longleftrightarrow> (if 0 \<le> mo_len op then mo_len op \<le> int len else int len = - mo_len op)"

fun recv_loop ::
  "access_cfg \<Rightarrow> access_env \<Rightarrow> u32 \<Rightarrow> bt_mesh_msg_ctx \<Rightarrow> bt_mesh_elem list \<Rightarrow> net_buf_simple \<Rightarrow> access_state \<Rightarrow>
   (net_buf_simple \<times> access_state) option" where
  "recv_loop xc xe opcode ctx [] buf s = Some (buf, s)"
| "recv_loop xc xe opcode ctx (e # es) buf s =
     (case find_op xc e opcode (xs_models s) of
        None \<Rightarrow> recv_loop xc xe opcode ctx es buf s
      | Some (m, op) \<Rightarrow>
         if \<not> bt_mesh_model_has_key (xs_models s ! m) (ctx_app_idx ctx) then recv_loop xc xe opcode ctx es buf s
         else do {
           has_dst \<leftarrow> model_has_dst xc m (ctx_recv_dst ctx) s;
           (if \<not> has_dst \<or> \<not> op_len_ok op (nb_len buf) then recv_loop xc xe opcode ctx es buf s
            else
              (let state = net_buf_simple_save buf;
                   s = acc_output (Op_func (mo_func op) m ctx (nb_bytes buf)) s;
                   buf = net_buf_simple_restore state (xe_op_func xe (mo_func op) m ctx buf)
               in recv_loop xc xe opcode ctx es buf s))
         })"

definition bt_mesh_model_recv :: "access_cfg \<Rightarrow> access_env \<Rightarrow> bt_mesh_net_rx \<Rightarrow> net_buf_simple \<Rightarrow> access_state \<Rightarrow> access_state option" where
  "bt_mesh_model_recv xc xe rx buf s =
     do {
       (res, buf) \<leftarrow> get_opcode (xc_big_endian xc) buf;
       (case res of Inl e \<Rightarrow> Some s
        | Inr opcode \<Rightarrow> do {
            (buf, s) \<leftarrow> recv_loop xc xe opcode (rx_ctx rx) (xs_elems s) buf s;
            Some (if xc_layer_msg xc \<and> xs_msg_cb s then acc_output (Msg_cb opcode (rx_ctx rx) (nb_bytes buf)) s else s)
          })
     }"

end
