(* ===== verification/Mesh_Acc_Pub.thy ===== *)
theory Mesh_Acc_Pub
  imports Mesh_Acc
begin

text \<open>
  Sending, publication and storage in the mesh access layer (\<open>core/src/mesh/access.c\<close>).  A
  publication is transmitted once and then as often as its retransmission count says; the
  timer of the publication drives both the retransmissions and the next period.
\<close>

section \<open>Publication periods\<close>

definition BT_MESH_PUB_TRANSMIT_COUNT :: "u8 \<Rightarrow> u8" where
  "BT_MESH_PUB_TRANSMIT_COUNT transmit = transmit AND 0x07"

definition BT_MESH_PUB_TRANSMIT_INT :: "u8 \<Rightarrow> nat" where
  "BT_MESH_PUB_TRANSMIT_INT transmit = (unat (drop_bit 3 transmit) + 1) * 50"

text \<open>The period of a publication in milliseconds; the function of the code is zero if the model has none.\<close>

definition pub_period :: "bt_mesh_model_pub \<Rightarrow> u32" where
  "pub_period p =
     (let steps = ucast (pb_period p AND 0x3f) :: u32;
          period = (if drop_bit 6 (pb_period p) = 0 then steps * 100
                    else if drop_bit 6 (pb_period p) = 1 then steps * 1000
                    else if drop_bit 6 (pb_period p) = 2 then steps * 10 * 1000
                    else steps * 600 * 1000)
      in if pb_fast_period p then drop_bit (unat (pb_period_div p)) period else period)"

definition bt_mesh_model_pub_period_get :: "bt_mesh_model \<Rightarrow> u32" where
  "bt_mesh_model_pub_period_get md = (case md_pub md of None \<Rightarrow> 0 | Some p \<Rightarrow> pub_period p)"

definition next_period :: "access_env \<Rightarrow> bt_mesh_model_pub \<Rightarrow> u32" where
  "next_period xe p =
     (let period = pub_period p; elapsed = xe_uptime xe - pb_period_start p in
      if period = 0 then 0 else if period \<le> elapsed then 1 else period - elapsed)"

section \<open>Sending\<close>

definition bt_mesh_msg_send ::
  "access_cfg \<Rightarrow> access_env \<Rightarrow> bt_mesh_msg_ctx \<Rightarrow> net_buf_simple \<Rightarrow> u16 \<Rightarrow> send_cb option \<Rightarrow> access_state \<Rightarrow>
   (errno option \<times> access_state) option" where
  "bt_mesh_msg_send xc xe ctx buf src_addr cb s =
     (if \<not> bm_valid (ts_net (xs_trans s)) then Some (Some EAGAIN, s)
      else do {
        (err, t) \<leftarrow> bt_mesh_trans_send (xc_trans xc) (xe_trans xe)
          \<lparr>tx_sub = 0, tx_ctx = ctx, tx_src = src_addr, tx_xmit = 0, tx_friend_cred = False, tx_aszmic = False, tx_aid = 0\<rparr> buf cb (xs_trans s);
        Some (err, s\<lparr>xs_trans := t\<rparr>)
      })"

definition bt_mesh_model_send ::
  "access_cfg \<Rightarrow> access_env \<Rightarrow> nat \<Rightarrow> bt_mesh_msg_ctx \<Rightarrow> net_buf_simple \<Rightarrow> send_cb option \<Rightarrow> access_state \<Rightarrow>
   (errno option \<times> access_state) option" where
  "bt_mesh_model_send xc xe m ctx msg cb s =
     (if \<not> bt_mesh_model_has_key (xs_models s ! m) (ctx_app_idx ctx) then Some (Some EINVAL, s)
      else bt_mesh_msg_send xc xe ctx msg (el_addr (bt_mesh_model_elem m s)) cb s)"

section \<open>Publishing\<close>

definition publish_sent :: "access_env \<Rightarrow> nat \<Rightarrow> access_state \<Rightarrow> access_state" where
  "publish_sent xe m s =
     (case md_pub (xs_models s ! m) of None \<Rightarrow> s
      | Some p \<Rightarrow>
          (let delay = (if pb_count p \<noteq> 0 then BT_MESH_PUB_TRANSMIT_INT (pb_retransmit p) else unat (next_period xe p))
           in if delay \<noteq> 0 then pub_schedule m delay s else s))"

definition publish_start :: "access_env \<Rightarrow> nat \<Rightarrow> errno option \<Rightarrow> access_state \<Rightarrow> access_state" where
  "publish_start xe m err s =
     (if err \<noteq> None then publish_sent xe m s
      else upd_pub m (\<lambda>p. if ucast (pb_count p) = BT_MESH_PUB_TRANSMIT_COUNT (pb_retransmit p)
                          then p\<lparr>pb_period_start := xe_uptime xe\<rparr> else p) s)"

definition pub_sent_cb :: "nat \<Rightarrow> send_cb" where
  "pub_sent_cb m = \<lparr>cb_id = m, cb_start = True, cb_end = True\<rparr>"

text \<open>The callbacks that the transport layer calls before it returns.\<close>

fun run_pub_cbs :: "access_env \<Rightarrow> nat \<Rightarrow> trans_out list \<Rightarrow> access_state \<Rightarrow> access_state" where
  "run_pub_cbs xe m [] s = s"
| "run_pub_cbs xe m (Cb_start i d err # xs) s = run_pub_cbs xe m xs (publish_start xe m err s)"
| "run_pub_cbs xe m (Cb_end i err # xs) s = run_pub_cbs xe m xs (publish_sent xe m s)"
| "run_pub_cbs xe m (x # xs) s = run_pub_cbs xe m xs s"

definition publish_transmit :: "access_cfg \<Rightarrow> access_env \<Rightarrow> nat \<Rightarrow> access_state \<Rightarrow> (errno option \<times> access_state) option" where
  "publish_transmit xc xe m s =
     do {
       p \<leftarrow> md_pub (xs_models s ! m);
       msg \<leftarrow> pb_msg p;
       let ctx = \<lparr>ctx_net_idx = 0, ctx_app_idx = ucast (pb_key p), ctx_addr = pb_addr p, ctx_recv_dst = 0, ctx_recv_rssi = 0,
                  ctx_recv_ttl = 0, ctx_send_rel = False, ctx_send_ttl = pb_ttl p\<rparr>;
       let sz = BT_MESH_TX_SDU_MAX (xc_trans xc);
       sdu \<leftarrow> net_buf_simple_add_mem (nb_bytes msg) \<lparr>nb_data = 0, nb_len = 0, nb_size = sz, nb_buf = replicate sz 0\<rparr>;
       (err, t) \<leftarrow> bt_mesh_trans_send (xc_trans xc) (xe_trans xe)
         \<lparr>tx_sub = 0, tx_ctx = ctx, tx_src = el_addr (bt_mesh_model_elem m s), tx_xmit = 0, tx_friend_cred = pb_cred p,
          tx_aszmic = False, tx_aid = 0\<rparr> sdu (Some (pub_sent_cb m)) (xs_trans s);
       Some (err, run_pub_cbs xe m (drop (length (ts_out (xs_trans s))) (ts_out t)) (s\<lparr>xs_trans := t\<rparr>))
     }"

definition pub_period_start :: "access_env \<Rightarrow> nat \<Rightarrow> access_state \<Rightarrow> errno option \<times> access_state" where
  "pub_period_start xe m s =
     (let s = upd_pub m (\<lambda>p. p\<lparr>pb_count := ucast (BT_MESH_PUB_TRANSMIT_COUNT (pb_retransmit p))\<rparr>) s in
      case md_pub (xs_models s ! m) of None \<Rightarrow> (None, s)
      | Some p \<Rightarrow>
         if \<not> pb_update p then (None, s)
         else
           (let (err, msg) = xe_update xe m (pb_msg p);
                s = acc_output (Pub_update m) (upd_pub m (\<lambda>p. p\<lparr>pb_msg := msg\<rparr>) s)
            in if err \<noteq> None
               then (err, publish_sent xe m (upd_pub m (\<lambda>p. p\<lparr>pb_count := 0, pb_period_start := xe_uptime xe\<rparr>) s))
               else (None, s)))"

text \<open>The handler of the timer; running it takes it off.\<close>

definition mod_publish :: "access_cfg \<Rightarrow> access_env \<Rightarrow> nat \<Rightarrow> access_state \<Rightarrow> access_state option" where
  "mod_publish xc xe m s =
     (let s = upd_pub m (\<lambda>p. p\<lparr>pb_timer := None\<rparr>) s in
      case md_pub (xs_models s ! m) of None \<Rightarrow> Some s
      | Some p \<Rightarrow>
         if pb_addr p = BT_MESH_ADDR_UNASSIGNED \<or> xe_suspended xe then Some s
         else
           (let (err, s) = (if pb_count p \<noteq> 0 then (None, upd_pub m (\<lambda>p. p\<lparr>pb_count := pb_count p - 1\<rparr>) s)
                            else pub_period_start xe m s)
            in if err \<noteq> None then Some s
               else do {
                 (err, s) \<leftarrow> publish_transmit xc xe m s;
                 Some (if err \<noteq> None
                       then publish_sent xe m
                              (upd_pub m (\<lambda>p. if ucast (pb_count p) = BT_MESH_PUB_TRANSMIT_COUNT (pb_retransmit p)
                                              then p\<lparr>pb_period_start := xe_uptime xe\<rparr> else p) s)
                       else s)
               }))"

definition bt_mesh_model_publish :: "access_cfg \<Rightarrow> nat \<Rightarrow> access_state \<Rightarrow> errno option \<times> access_state" where
  "bt_mesh_model_publish xc m s =
     (case md_pub (xs_models s ! m) of None \<Rightarrow> (Some ENOTSUP, s)
      | Some p \<Rightarrow>
         if pb_addr p = BT_MESH_ADDR_UNASSIGNED then (Some EADDRNOTAVAIL, s)
         else case pb_msg p of None \<Rightarrow> (Some EINVAL, s)
         | Some msg \<Rightarrow>
            if nb_len msg = 0 then (Some EINVAL, s)
            else if BT_MESH_TX_SDU_MAX (xc_trans xc) < nb_len msg + BT_MESH_MIC_SHORT then (Some EMSGSIZE, s)
            else (None, upd_pub m (\<lambda>p. p\<lparr>pb_count := ucast (BT_MESH_PUB_TRANSMIT_COUNT (pb_retransmit p)) + 1, pb_timer := Some 0\<rparr>) s))"

section \<open>Loading the configuration of models\<close>

text \<open>What \<open>read_cb\<close> delivers: an error, or the stored value in the type that is read.\<close>

record mod_read =
  mr_u16s :: "errno + u16 list"
  mr_pub :: "errno + mod_pub_val"

definition mod_set_bind :: "nat \<Rightarrow> nat \<Rightarrow> mod_read \<Rightarrow> access_state \<Rightarrow> errno option \<times> access_state" where
  "mod_set_bind m len_rd rd s =
     (let s = upd_model m (\<lambda>md. md\<lparr>md_keys := replicate (length (md_keys md)) BT_MESH_KEY_UNUSED\<rparr>) s in
      if len_rd = 0 then (None, s)
      else case mr_u16s rd of Inl e \<Rightarrow> (Some e, s)
      | Inr ks \<Rightarrow> (None, upd_model m (\<lambda>md. md\<lparr>md_keys := mem_write 0 (take (length (md_keys md)) ks) (md_keys md)\<rparr>) s))"

definition mod_set_sub :: "nat \<Rightarrow> nat \<Rightarrow> mod_read \<Rightarrow> access_state \<Rightarrow> errno option \<times> access_state" where
  "mod_set_sub m len_rd rd s =
     (let s = upd_model m (\<lambda>md. md\<lparr>md_groups := replicate (length (md_groups md)) 0\<rparr>) s in
      if len_rd = 0 then (None, s)
      else case mr_u16s rd of Inl e \<Rightarrow> (Some e, s)
      | Inr gs \<Rightarrow> (None, upd_model m (\<lambda>md. md\<lparr>md_groups := mem_write 0 (take (length (md_groups md)) gs) (md_groups md)\<rparr>) s))"

definition mod_set_pub :: "access_cfg \<Rightarrow> nat \<Rightarrow> nat \<Rightarrow> mod_read \<Rightarrow> access_state \<Rightarrow> errno option \<times> access_state" where
  "mod_set_pub xc m len_rd rd s =
     (if md_pub (xs_models s ! m) = None then (Some EINVAL, s)
      else if len_rd = 0
      then (None, upd_pub m (\<lambda>p. p\<lparr>pb_addr := BT_MESH_ADDR_UNASSIGNED, pb_key := 0, pb_cred := False, pb_ttl := 0,
                    pb_period := 0, pb_retransmit := 0, pb_count := 0\<rparr>) s)
      else if \<not> cfg_settings (tc_mesh (xc_trans xc)) then (None, s)
      else case mr_pub rd of Inl e \<Rightarrow> (Some e, s)
      | Inr v \<Rightarrow>
         (None, upd_pub m (\<lambda>p. p\<lparr>pb_addr := pv_addr v, pb_key := ucast (pv_key v), pb_cred := pv_cred v, pb_ttl := pv_ttl v,
            pb_period := pv_period v, pb_retransmit := pv_retransmit v, pb_period_div := pv_period_div v, pb_count := 0\<rparr>) s))"

definition mod_data_set :: "access_env \<Rightarrow> nat \<Rightarrow> string \<Rightarrow> nat \<Rightarrow> access_state \<Rightarrow> errno option \<times> access_state" where
  "mod_data_set xe m name len_rd s =
     (let (_, nxt) = xe_name_next xe name in
      if md_cb_settings_set (xs_models s ! m)
      then (xe_settings_set xe m nxt len_rd, acc_output (Mod_settings_set m nxt len_rd) s)
      else (None, s))"

text \<open>\<open>strncmp\<close> finds no difference in the first \<open>n\<close> characters, the end of the strings included.\<close>

definition strncmp_eq :: "string \<Rightarrow> string \<Rightarrow> nat \<Rightarrow> bool" where
  "strncmp_eq a b n \<longleftrightarrow> take n (a @ [CHR 0x00]) = take n (b @ [CHR 0x00])"

definition mod_set ::
  "access_cfg \<Rightarrow> access_env \<Rightarrow> bool \<Rightarrow> string option \<Rightarrow> nat \<Rightarrow> mod_read \<Rightarrow> access_state \<Rightarrow> errno option \<times> access_state" where
  "mod_set xc xe vnd name len_rd rd s =
     (case name of None \<Rightarrow> (Some ENOENT, s)
      | Some nm \<Rightarrow>
         (let mod_key = word_of_nat (strtol16 0 nm) :: u16 in
          case bt_mesh_model_get vnd (ucast (drop_bit 8 mod_key)) (ucast mod_key) s of None \<Rightarrow> (Some ENOENT, s)
          | Some m \<Rightarrow>
             (case xe_name_next xe nm of (len, None) \<Rightarrow> (Some ENOENT, s)
              | (len, Some nxt) \<Rightarrow>
                 if strncmp_eq nxt ''bind'' len then mod_set_bind m len_rd rd s
                 else if strncmp_eq nxt ''sub'' len then mod_set_sub m len_rd rd s
                 else if strncmp_eq nxt ''pub'' len then mod_set_pub xc m len_rd rd s
                 else if strncmp_eq nxt ''data'' len then mod_data_set xe m nxt len_rd s
                 else (Some ENOENT, s))))"

definition sig_mod_set ::
  "access_cfg \<Rightarrow> access_env \<Rightarrow> string option \<Rightarrow> nat \<Rightarrow> mod_read \<Rightarrow> access_state \<Rightarrow> errno option \<times> access_state" where
  "sig_mod_set xc xe name len_rd rd s = mod_set xc xe False name len_rd rd s"

definition vnd_mod_set ::
  "access_cfg \<Rightarrow> access_env \<Rightarrow> string option \<Rightarrow> nat \<Rightarrow> mod_read \<Rightarrow> access_state \<Rightarrow> errno option \<times> access_state" where
  "vnd_mod_set xc xe name len_rd rd s = mod_set xc xe True name len_rd rd s"

section \<open>Storing the configuration of models\<close>

definition encode_mod_path :: "bt_mesh_model \<Rightarrow> bool \<Rightarrow> string \<Rightarrow> string" where
  "encode_mod_path md vnd key =
     (if vnd then ''bt/mesh/v/'' else ''bt/mesh/s/'') @
     hex_string (unat (push_bit 8 (ucast (md_elem_idx md)) OR ucast (md_mod_idx md) :: u16)) @ ''/'' @ key"

definition store_pending_mod_bind :: "nat \<Rightarrow> bool \<Rightarrow> access_state \<Rightarrow> access_state" where
  "store_pending_mod_bind m vnd s =
     (let md = xs_models s ! m; keys = filter (\<lambda>k. k \<noteq> BT_MESH_KEY_UNUSED) (md_keys md); path = encode_mod_path md vnd ''bind''
      in acc_output (if keys \<noteq> [] then Mod_save_u16s path keys else Mod_delete path) s)"

definition store_pending_mod_sub :: "nat \<Rightarrow> bool \<Rightarrow> access_state \<Rightarrow> access_state" where
  "store_pending_mod_sub m vnd s =
     (let md = xs_models s ! m; groups = filter (\<lambda>g. g \<noteq> BT_MESH_ADDR_UNASSIGNED) (md_groups md); path = encode_mod_path md vnd ''sub''
      in acc_output (if groups \<noteq> [] then Mod_save_u16s path groups else Mod_delete path) s)"

definition store_pending_mod_pub :: "nat \<Rightarrow> bool \<Rightarrow> access_state \<Rightarrow> access_state" where
  "store_pending_mod_pub m vnd s =
     (let md = xs_models s ! m; path = encode_mod_path md vnd ''pub'' in
      acc_output
        (case md_pub md of None \<Rightarrow> Mod_delete path
         | Some p \<Rightarrow>
            if pb_addr p = BT_MESH_ADDR_UNASSIGNED then Mod_delete path
            else Mod_save_pub path \<lparr>pv_addr = pb_addr p, pv_key = ucast (pb_key p), pv_ttl = pb_ttl p, pv_retransmit = pb_retransmit p,
                   pv_period = pb_period p, pv_period_div = pb_period_div p, pv_cred = pb_cred p\<rparr>) s)"

text \<open>One step of \<open>store_pending_mod\<close>: a pending flag is cleared and the value stored.\<close>

definition store_flagged :: "u16 \<Rightarrow> (nat \<Rightarrow> bool \<Rightarrow> access_state \<Rightarrow> access_state) \<Rightarrow> nat \<Rightarrow> bool \<Rightarrow> access_state \<Rightarrow> access_state" where
  "store_flagged flag store m vnd s =
     (if md_flags (xs_models s ! m) AND flag \<noteq> 0
      then store m vnd (upd_model m (\<lambda>md. md\<lparr>md_flags := md_flags md AND NOT flag\<rparr>) s) else s)"

definition store_pending_mod :: "nat \<Rightarrow> nat \<Rightarrow> bool \<Rightarrow> bool \<Rightarrow> access_state \<Rightarrow> access_state" where
  "store_pending_mod m i vnd primary s =
     (if md_flags (xs_models s ! m) = 0 then s
      else store_flagged BT_MESH_MOD_PUB_PENDING store_pending_mod_pub m vnd
             (store_flagged BT_MESH_MOD_SUB_PENDING store_pending_mod_sub m vnd
               (store_flagged BT_MESH_MOD_BIND_PENDING store_pending_mod_bind m vnd s)))"

definition bt_mesh_model_pending_store :: "access_state \<Rightarrow> access_state" where
  "bt_mesh_model_pending_store s = bt_mesh_model_foreach store_pending_mod (xs_elems s) s"

definition bt_mesh_model_bind_store :: "nat \<Rightarrow> access_state \<Rightarrow> access_state" where
  "bt_mesh_model_bind_store m s =
     acc_output Mod_store_schedule (upd_model m (\<lambda>md. md\<lparr>md_flags := md_flags md OR BT_MESH_MOD_BIND_PENDING\<rparr>) s)"

definition bt_mesh_model_sub_store :: "nat \<Rightarrow> access_state \<Rightarrow> access_state" where
  "bt_mesh_model_sub_store m s =
     acc_output Mod_store_schedule (upd_model m (\<lambda>md. md\<lparr>md_flags := md_flags md OR BT_MESH_MOD_SUB_PENDING\<rparr>) s)"

definition bt_mesh_model_pub_store :: "nat \<Rightarrow> access_state \<Rightarrow> access_state" where
  "bt_mesh_model_pub_store m s =
     acc_output Mod_store_schedule (upd_model m (\<lambda>md. md\<lparr>md_flags := md_flags md OR BT_MESH_MOD_PUB_PENDING\<rparr>) s)"

definition bt_mesh_model_data_store ::
  "access_cfg \<Rightarrow> access_env \<Rightarrow> nat \<Rightarrow> bool \<Rightarrow> string option \<Rightarrow> bytes \<Rightarrow> access_state \<Rightarrow> errno option \<times> access_state" where
  "bt_mesh_model_data_store xc xe m vnd name dat s =
     (let path = encode_mod_path (xs_models s ! m) vnd ''data'' @
            (case name of None \<Rightarrow> [] | Some nm \<Rightarrow> ''/'' @ take (xc_dir_depth xc) nm)
      in (xe_store xe path, acc_output (if dat \<noteq> [] then Mod_save_data path dat else Mod_delete path) s))"

definition commit_mod :: "access_cfg \<Rightarrow> nat \<Rightarrow> nat \<Rightarrow> bool \<Rightarrow> bool \<Rightarrow> access_state \<Rightarrow> access_state" where
  "commit_mod xc m i vnd primary s =
     (let md = xs_models s ! m;
          s = (case md_pub md of None \<Rightarrow> s
               | Some p \<Rightarrow>
                  if pb_update p \<and> pb_addr p \<noteq> BT_MESH_ADDR_UNASSIGNED \<and> pub_period p \<noteq> 0 then pub_schedule m (unat (pub_period p)) s else s)
      in if \<not> tc_low_power (xc_trans xc) then s
         else fold (\<lambda>g s. if g \<noteq> BT_MESH_ADDR_UNASSIGNED then acc_output (Lpn_group_add g) s else s) (md_groups md) s)"

definition bt_mesh_model_settings_commit :: "access_cfg \<Rightarrow> access_state \<Rightarrow> access_state" where
  "bt_mesh_model_settings_commit xc s = bt_mesh_model_foreach (commit_mod xc) (xs_elems s) s"

end
