(* ===== verification/Mesh_Acc_Ext.thy ===== *)
theory Mesh_Acc_Ext
  imports Mesh_Acc_Pub Mesh_Seg_Inv
begin

text \<open>
  Model extensions in the mesh access layer (\<open>core/src/mesh/access.c\<close>).  The \<open>next\<close> pointers of models
  form rings; \<open>bt_mesh_model_extend\<close> exchanges two of them, which joins two rings or splits one.
\<close>

section \<open>Rings of extended models\<close>

text \<open>A model without a successor is a ring of its own.\<close>

definition nxt :: "bt_mesh_model list \<Rightarrow> nat \<Rightarrow> nat" where
  "nxt mods m = (case md_next (mods ! m) of None \<Rightarrow> m | Some x \<Rightarrow> x)"

definition rings_ok :: "bt_mesh_model list \<Rightarrow> bool" where
  "rings_ok mods \<longleftrightarrow> nxt mods ` {..<length mods} \<subseteq> {..<length mods} \<and> inj_on (nxt mods) {..<length mods}"

lemma funpow_closed: "f ` S \<subseteq> S \<Longrightarrow> x \<in> S \<Longrightarrow> (f ^^ k) x \<in> S"
  by (induction k) auto

lemma funpow_inj: "f ` S \<subseteq> S \<Longrightarrow> inj_on f S \<Longrightarrow> inj_on (f ^^ k) S"
proof (induction k)
  case (Suc k)
  have "inj_on f ((f ^^ k) ` S)" using Suc.prems(2) funpow_closed [OF Suc.prems(1)] by (auto intro: inj_on_subset)
  then show ?case using comp_inj_on [OF Suc.IH [OF Suc.prems]] by (simp add: comp_def)
qed simp

lemma funpow_returns:
  assumes "finite S" "f ` S \<subseteq> S" "inj_on f S" "x \<in> S"
  shows "\<exists>p. 0 < p \<and> p \<le> card S \<and> (f ^^ p) x = x \<and> (\<forall>k. 0 < k \<longrightarrow> k < p \<longrightarrow> (f ^^ k) x \<noteq> x)"
proof -
  have "\<exists>p. 0 < p \<and> p \<le> card S \<and> (f ^^ p) x = x"
  proof -
    have "\<not> inj_on (\<lambda>k. (f ^^ k) x) {..card S}"
    proof
      assume "inj_on (\<lambda>k. (f ^^ k) x) {..card S}"
      then have "card ((\<lambda>k. (f ^^ k) x) ` {..card S}) = card S + 1" by (simp add: card_image)
      moreover have "card ((\<lambda>k. (f ^^ k) x) ` {..card S}) \<le> card S"
        using funpow_closed [OF assms(2,4)] assms(1) by (intro card_mono) auto
      ultimately show False by simp
    qed
    then obtain i j where ij: "i < j" "j \<le> card S" "(f ^^ i) x = (f ^^ j) x"
      by (auto simp: inj_on_def) (metis linorder_neqE_nat)
    have "(f ^^ i) ((f ^^ (j - i)) x) = (f ^^ i) x" using ij by (simp flip: funpow_add [THEN fun_cong, unfolded comp_apply])
    then have "(f ^^ (j - i)) x = x"
      using funpow_inj [OF assms(2,3), of i] funpow_closed [OF assms(2,4)] assms(4) by (auto simp: inj_on_def)
    then show ?thesis using ij by (intro exI [of _ "j - i"]) auto
  qed
  then have ex: "\<exists>p. 0 < p \<and> (f ^^ p) x = x" by blast
  define p where "p = (LEAST p. 0 < p \<and> (f ^^ p) x = x)"
  have p: "0 < p" "(f ^^ p) x = x" using LeastI_ex [OF ex] by (simp_all add: p_def)
  have least: "p \<le> q" if "0 < q" "(f ^^ q) x = x" for q using that by (simp add: p_def Least_le)
  obtain q where q: "0 < q" "q \<le> card S" "(f ^^ q) x = x" using \<open>\<exists>p. 0 < p \<and> p \<le> card S \<and> (f ^^ p) x = x\<close> by blast
  have "p \<le> card S" using least [OF q(1,3)] q(2) by simp
  moreover have "\<forall>k. 0 < k \<longrightarrow> k < p \<longrightarrow> (f ^^ k) x \<noteq> x" using least by (meson not_le)
  ultimately show ?thesis using p by blast
qed

text \<open>The visits of a walk over a list of models.\<close>

fun walk_list :: "(nat \<Rightarrow> 's \<Rightarrow> bool \<times> 's) \<Rightarrow> nat list \<Rightarrow> 's \<Rightarrow> 's" where
  "walk_list cb [] s = s"
| "walk_list cb (m # ms) s = (let (stop, s) = cb m s in if stop then s else walk_list cb ms s)"

lemma ring_next:
  assumes "rings_ok mods" "m < length mods" "md_next (mods ! m) \<noteq> None"
  shows "md_next (mods ! ((nxt mods ^^ k) m)) = Some ((nxt mods ^^ Suc k) m)"
proof (induction k)
  case 0
  then show ?case using assms(3) by (auto simp: nxt_def)
next
  case (Suc k)
  let ?x = "(nxt mods ^^ k) m" and ?y = "(nxt mods ^^ Suc k) m"
  have in_range: "?x < length mods" "?y < length mods"
    using funpow_closed [of "nxt mods" "{..<length mods}" m] assms(1,2) by (auto simp: rings_ok_def lessThan_iff simp del: funpow.simps)
  have "md_next (mods ! ?y) \<noteq> None"
  proof
    assume none: "md_next (mods ! ?y) = None"
    then have "nxt mods ?y = ?y" by (simp add: nxt_def [of mods ?y] del: funpow.simps)
    then have "nxt mods ?y = nxt mods ?x" by simp
    then have "?y = ?x" using assms(1) in_range by (auto simp: rings_ok_def inj_on_def)
    then show False using none Suc by simp
  qed
  then have "md_next (mods ! ?y) = Some (nxt mods ?y)" by (auto simp: nxt_def [of mods ?y] simp del: funpow.simps)
  then show ?case by simp
qed

lemma extensions_loop_ring:
  assumes "rings_ok mods" "m < length mods" "md_next (mods ! m) \<noteq> None" "(nxt mods ^^ p) m = m" "\<forall>k. 0 < k \<longrightarrow> k < p \<longrightarrow> (nxt mods ^^ k) m \<noteq> m"
  shows "k < p \<Longrightarrow> p \<le> fuel + k + 1 \<Longrightarrow>
    extensions_loop fuel m mods cb (Some ((nxt mods ^^ k) m)) s = Some (walk_list cb (map (\<lambda>k. (nxt mods ^^ k) m) [k..<p - 1]) s)"
proof (induction "p - 1 - k" arbitrary: k fuel s)
  case 0
  then have "Suc k = p" by simp
  then have "md_next (mods ! ((nxt mods ^^ k) m)) = Some m" using ring_next [OF assms(1-3), of k] assms(4) by metis
  then show ?case using 0 by (cases fuel) simp_all
next
  case (Suc d)
  then obtain f where f: "fuel = Suc f" by (cases fuel) auto
  have k: "Suc k < p" using Suc by simp
  have next_k: "md_next (mods ! ((nxt mods ^^ k) m)) = Some ((nxt mods ^^ Suc k) m)" by (rule ring_next [OF assms(1-3)])
  have other: "(nxt mods ^^ Suc k) m \<noteq> m" using assms(5) k by blast
  have IH: "extensions_loop f m mods cb (Some ((nxt mods ^^ Suc k) m)) s' = Some (walk_list cb (map (\<lambda>k. (nxt mods ^^ k) m) [Suc k..<p - 1]) s')" for s'
    using Suc k by (intro Suc.hyps(1)) (auto simp: f)
  have "[k..<p - 1] = k # [Suc k..<p - 1]" using k by (simp add: upt_conv_Cons)
  then show ?case unfolding f using next_k other IH by (simp add: case_prod_unfold Let_def del: funpow.simps)
qed

lemma rings_walk:
  assumes "rings_ok mods" "m < length mods" "md_next (mods ! m) \<noteq> None" "xc_extensions xc"
  shows "\<exists>p. 0 < p \<and> p \<le> length mods \<and> (nxt mods ^^ p) m = m \<and> (\<forall>k. 0 < k \<longrightarrow> k < p \<longrightarrow> (nxt mods ^^ k) m \<noteq> m) \<and>
    (\<forall>cb s. bt_mesh_model_extensions_walk xc m cb mods s = Some (walk_list cb (map (\<lambda>k. (nxt mods ^^ k) m) [0..<p - 1]) (s :: 's)))"
proof -
  from funpow_returns [of "{..<length mods}" "nxt mods" m] assms(1,2) obtain p where
    p: "0 < p" "p \<le> length mods" "(nxt mods ^^ p) m = m" "\<forall>k. 0 < k \<longrightarrow> k < p \<longrightarrow> (nxt mods ^^ k) m \<noteq> m"
    by (auto simp: rings_ok_def)
  have "bt_mesh_model_extensions_walk xc m cb mods s = Some (walk_list cb (map (\<lambda>k. (nxt mods ^^ k) m) [0..<p - 1]) (s :: 's))" for cb s
    using extensions_loop_ring [OF assms(1-3) p(3,4), of 0 "length mods" cb s] p(1,2) assms(3,4)
    by (auto simp: bt_mesh_model_extensions_walk_def)
  then show ?thesis using p by blast
qed

lemma rings_walk_total:
  assumes "rings_ok mods" "m < length mods"
  shows "\<exists>s'. bt_mesh_model_extensions_walk xc m cb mods s = Some s'"
proof (cases "xc_extensions xc \<and> md_next (mods ! m) \<noteq> None")
  case True
  then obtain p where "bt_mesh_model_extensions_walk xc m cb mods s = Some (walk_list cb (map (\<lambda>k. (nxt mods ^^ k) m) [0..<p - 1]) s)"
    using rings_walk [OF assms, of xc] by metis
  then show ?thesis by (rule exI)
qed (auto simp: bt_mesh_model_extensions_walk_def)

section \<open>Extending models\<close>

lemma extend_search_ring:
  assumes "rings_ok mods" "a < length mods" "md_next (mods ! a) \<noteq> None" "(nxt mods ^^ p) a = a" "\<forall>k. 0 < k \<longrightarrow> k < p \<longrightarrow> (nxt mods ^^ k) a \<noteq> a"
  shows "k < p \<Longrightarrow> p \<le> fuel + k + 1 \<Longrightarrow>
    extend_search fuel a b mods (Some ((nxt mods ^^ k) a)) = Some (b \<in> (\<lambda>k. (nxt mods ^^ k) a) ` {k..<p - 1})"
proof (induction "p - 1 - k" arbitrary: k fuel)
  case 0
  then have "Suc k = p" by simp
  then have "md_next (mods ! ((nxt mods ^^ k) a)) = Some a" using ring_next [OF assms(1-3), of k] assms(4) by metis
  then show ?case using 0 by (cases fuel) simp_all
next
  case (Suc d)
  then obtain f where f: "fuel = Suc f" by (cases fuel) auto
  have k: "Suc k < p" using Suc by simp
  have next_k: "md_next (mods ! ((nxt mods ^^ k) a)) = Some ((nxt mods ^^ Suc k) a)" by (rule ring_next [OF assms(1-3)])
  have other: "(nxt mods ^^ Suc k) a \<noteq> a" using assms(5) k by blast
  have IH: "extend_search f a b mods (Some ((nxt mods ^^ Suc k) a)) = Some (b \<in> (\<lambda>k. (nxt mods ^^ k) a) ` {Suc k..<p - 1})"
    using Suc k by (intro Suc.hyps(1)) (auto simp: f)
  have "{k..<p - 1} = insert k {Suc k..<p - 1}" using k by auto
  then show ?case unfolding f using next_k other IH by (auto simp del: funpow.simps)
qed

lemma extend_search_total:
  assumes "rings_ok mods" "a < length mods"
  shows "\<exists>r. extend_search (length mods) a b mods (Some a) = Some r"
proof (cases "md_next (mods ! a)")
  case None
  then show ?thesis by (cases "length mods"; cases "length mods - 1") (use assms(2) in auto)
next
  case (Some x)
  from funpow_returns [of "{..<length mods}" "nxt mods" a] assms(1,2) obtain p where
    p: "0 < p" "p \<le> length mods" "(nxt mods ^^ p) a = a" "\<forall>k. 0 < k \<longrightarrow> k < p \<longrightarrow> (nxt mods ^^ k) a \<noteq> a"
    by (auto simp: rings_ok_def)
  show ?thesis using extend_search_ring [OF assms _ p(3,4), of 0 "length mods" b] Some p(1,2) by simp
qed

lemma nxt_upd: "b < length mods \<Longrightarrow> nxt (mods[b := md]) x = (if x = b then (case md_next md of None \<Rightarrow> b | Some y \<Rightarrow> y) else nxt mods x)"
  by (auto simp: nxt_def)

lemma extend_ok:
  assumes "rings_ok mods" "a < length mods" "b < length mods"
  shows "\<exists>mods'. bt_mesh_model_extend a b mods = Some mods' \<and> length mods' = length mods \<and> rings_ok mods'"
proof -
  define m1 where "m1 = mods[b := (mods ! b)\<lparr>md_flags := md_flags (mods ! b) OR BT_MESH_MOD_EXTENDED\<rparr>]"
  have "nxt m1 = nxt mods"
  proof (rule ext)
    show "nxt m1 x = nxt mods x" for x using assms(3) by (simp add: m1_def nxt_upd) (simp add: nxt_def)
  qed
  then have m1: "rings_ok m1" "length m1 = length mods" "nxt m1 = nxt mods" using assms(1) by (simp_all add: rings_ok_def m1_def)
  have next1: "md_next (m1 ! x) = md_next (mods ! x)" for x using assms(3) by (cases "x = b") (simp_all add: m1_def)
  obtain r where r: "extend_search (length m1) a b m1 (Some a) = Some r" using extend_search_total [OF m1(1)] assms(2) m1(2) by auto
  show ?thesis
  proof (cases "a = b \<or> r")
    case True
    then have "bt_mesh_model_extend a b mods = Some m1" using r by (auto simp: bt_mesh_model_extend_def Let_def m1_def)
    then show ?thesis using m1 by simp
  next
    case False
    define m2 where "m2 = m1[b := (m1 ! b)\<lparr>md_next := Some (nxt mods a)\<rparr>]"
    define m3 where "m3 = m2[a := (m2 ! a)\<lparr>md_next := Some (nxt mods b)\<rparr>]"
    have run: "bt_mesh_model_extend a b mods = Some m3" using False r unfolding bt_mesh_model_extend_def Let_def m1_def [symmetric] m2_def m3_def nxt_def
      by (auto split: option.split)
    have n3: "nxt m3 x = (if x = a then nxt mods b else if x = b then nxt mods a else nxt mods x)" for x
      using assms(2,3) m1 by (simp add: m3_def m2_def nxt_upd)
    have len: "length m3 = length mods" by (simp add: m3_def m2_def m1_def)
    have range: "nxt mods x < length mods" if "x < length mods" for x using assms(1) that by (auto simp: rings_ok_def)
    have inj: "nxt mods x = nxt mods y \<longleftrightarrow> x = y" if "x < length mods" "y < length mods" for x y
      using assms(1) that by (auto simp: rings_ok_def inj_on_def)
    have "inj_on (nxt m3) {..<length mods}" using inj assms(2,3) by (intro inj_onI) (auto simp: n3 split: if_splits)
    moreover have "nxt m3 ` {..<length mods} \<subseteq> {..<length mods}" using range assms(2,3) by (auto simp: n3)
    ultimately have "rings_ok m3" by (simp add: rings_ok_def len)
    then show ?thesis using run len by blast
  qed
qed

fun extend_all :: "(nat \<times> nat) list \<Rightarrow> bt_mesh_model list \<Rightarrow> bt_mesh_model list option" where
  "extend_all [] mods = Some mods"
| "extend_all ((a, b) # ps) mods = do { mods \<leftarrow> bt_mesh_model_extend a b mods; extend_all ps mods }"

lemma extend_all_ok:
  "rings_ok mods \<Longrightarrow> \<forall>(a, b) \<in> set ps. a < length mods \<and> b < length mods \<Longrightarrow>
   \<exists>mods'. extend_all ps mods = Some mods' \<and> length mods' = length mods \<and> rings_ok mods'"
proof (induction ps arbitrary: mods)
  case (Cons ab ps)
  obtain a b where ab: "ab = (a, b)" by (cases ab)
  from extend_ok [OF Cons.prems(1), of a b] Cons.prems(2) ab obtain m where
    m: "bt_mesh_model_extend a b mods = Some m" "length m = length mods" "rings_ok m" by auto
  from Cons.IH [OF m(3)] m Cons.prems(2) ab show ?case by simp
qed simp

text \<open>
  C29: however models extend each other, the walk over a model's extensions ends for every visitor.
  The loops of \<open>bt_mesh_model_extend\<close> and \<open>bt_mesh_model_extensions_walk\<close> follow pointers without a
  bound; as many steps as the node has models are always enough.
\<close>

theorem extension_walks_end:
  assumes "\<forall>md \<in> set mods. md_next md = None" "\<forall>(a, b) \<in> set ps. a < length mods \<and> b < length mods" "m < length mods"
  shows "\<exists>mods' s'. extend_all ps mods = Some mods' \<and> bt_mesh_model_extensions_walk xc m cb mods' s = Some s'"
proof -
  have "rings_ok mods" using assms(1) by (auto simp: rings_ok_def nxt_def inj_on_def)
  from extend_all_ok [OF this assms(2)] obtain mods' where m': "extend_all ps mods = Some mods'" "length mods' = length mods" "rings_ok mods'" by blast
  have "\<exists>s'. bt_mesh_model_extensions_walk xc m cb mods' s = Some s'" using rings_walk_total [OF m'(3)] assms(3) m'(2) by simp
  then show ?thesis using m'(1) by blast
qed

text \<open>
  C30: the walk leaves out the last model of the ring.  After a model extends another one, groups of
  the base model are not found from the extending one; and when the call is repeated, the ring
  falls apart into two models that point to themselves, and not even the model's own groups
  are found.
\<close>

theorem extension_groups_lost:
  assumes "a < length mods" "b < length mods" "a \<noteq> b" "md_next (mods ! a) = None" "md_next (mods ! b) = None" "xc_extensions xc"
  shows "\<exists>mods1 mods2. bt_mesh_model_extend a b mods = Some mods1 \<and> bt_mesh_model_extend a b mods1 = Some mods2 \<and>
    bt_mesh_model_find_group xc a addr mods1 = Some (a, model_group_get (mods ! a) addr) \<and>
    bt_mesh_model_find_group xc a addr mods2 = Some (a, None)"
proof -
  let ?B = "(mods ! b)\<lparr>md_flags := md_flags (mods ! b) OR BT_MESH_MOD_EXTENDED\<rparr>"
  define mods1 where "mods1 = mods[b := ?B\<lparr>md_next := Some a\<rparr>, a := (mods ! a)\<lparr>md_next := Some b\<rparr>]"
  define mods2 where "mods2 = mods1[b := ?B\<lparr>md_next := Some b\<rparr>, a := (mods ! a)\<lparr>md_next := Some a\<rparr>]"
  obtain n where n: "length mods = Suc (Suc n)" using assms(1-3) by (cases "length mods"; cases "length mods - 1") auto
  have "bt_mesh_model_extend a b mods = Some mods1"
    using assms n by (simp add: bt_mesh_model_extend_def mods1_def Let_def)
  moreover have "bt_mesh_model_extend a b mods1 = Some mods2"
    using assms n by (simp add: bt_mesh_model_extend_def mods1_def mods2_def Let_def list_update_swap)
  moreover have "bt_mesh_model_find_group xc a addr mods1 = Some (a, model_group_get (mods ! a) addr)"
    using assms n by (simp add: bt_mesh_model_find_group_def bt_mesh_model_extensions_walk_def mods1_def find_group_mod_visitor_def model_group_get_def split: option.split)
  moreover have "bt_mesh_model_find_group xc a addr mods2 = Some (a, None)"
    using assms n by (simp add: bt_mesh_model_find_group_def bt_mesh_model_extensions_walk_def mods1_def mods2_def)
  ultimately show ?thesis by blast
qed

text \<open>Two models of one element; the second has the group \<open>0xc001\<close>.\<close>

definition ext_model :: "u16 list \<Rightarrow> bt_mesh_model" where
  "ext_model gs = \<lparr>md_company = 0, md_id = 0x1000, md_elem_idx = 0, md_mod_idx = 0, md_flags = 0, md_pub = None, md_keys = [1], md_groups = gs,
     md_op = [\<lparr>mo_opcode = 0x8201, mo_len = 0, mo_func = 4\<rparr>], md_cb_init = False, md_cb_settings_set = False, md_next = None\<rparr>"

definition ext_cfg :: access_cfg where
  "ext_cfg = \<lparr>xc_trans = seg_cfg, xc_extensions = True, xc_cid_force = True, xc_layer_msg = False, xc_big_endian = False, xc_dir_depth = 8\<rparr>"

theorem extension_walks_end_witness:
  "\<exists>mods' s'. extend_all [(0, 1), (0, 1)] [ext_model [0], ext_model [0xc001]] = Some mods' \<and>
     bt_mesh_model_extensions_walk ext_cfg 0 (\<lambda>m s. (False, m # s)) mods' [] = Some s'"
  by (rule extension_walks_end) (simp_all add: ext_model_def)

theorem extension_groups_lost_witness:
  "\<exists>mods1 mods2. bt_mesh_model_extend 0 1 [ext_model [0], ext_model [0xc001]] = Some mods1 \<and> bt_mesh_model_extend 0 1 mods1 = Some mods2 \<and>
     bt_mesh_model_find_group ext_cfg 0 0xc001 mods1 = Some (0, None) \<and> bt_mesh_model_find_group ext_cfg 0 0 mods2 = Some (0, None)"
proof -
  let ?mods = "[ext_model [0], ext_model [0xc001]]"
  have pre: "0 < length ?mods" "1 < length ?mods" "(0 :: nat) \<noteq> 1" "md_next (?mods ! 0) = None" "md_next (?mods ! 1) = None" "xc_extensions ext_cfg"
    by (simp_all add: ext_model_def ext_cfg_def)
  have "model_group_get (?mods ! 0) 0xc001 = None" by (simp add: model_group_get_def ext_model_def)
  then show ?thesis using extension_groups_lost [OF pre, of "0xc001"] extension_groups_lost [OF pre, of 0] by auto
qed

end
