(* ===== verification/Mesh_Acc_Recv.thy ===== *)
theory Mesh_Acc_Recv
  imports Mesh_Acc_Ext Mesh_Seg_Wire
begin

text \<open>
  Receiving in the mesh access layer (\<open>core/src/mesh/access.c\<close>, \<open>core/src/mesh/msg.c\<close>): opcodes, and
  which handlers a message reaches.
\<close>

section \<open>Opcodes\<close>

definition op_bytes :: "u32 \<Rightarrow> bytes" where
  "op_bytes opcode =
     (if BT_MESH_MODEL_OP_LEN opcode = 1 then [ucast opcode]
      else if BT_MESH_MODEL_OP_LEN opcode = 2 then sys_put_be16 (ucast opcode)
      else ucast (drop_bit 16 opcode AND 0xff) # sys_put_le16 (ucast (opcode AND 0xffff)))"

definition valid_opcode :: "u32 \<Rightarrow> bool" where
  "valid_opcode opcode \<longleftrightarrow> opcode < 0x7f \<or> 0x8000 \<le> opcode \<and> opcode < 0xc000 \<or> 0xc00000 \<le> opcode \<and> opcode < 0x1000000"

text \<open>The opcode at the front of a string of bytes and its length.\<close>

definition parse_op :: "bytes \<Rightarrow> (u32 \<times> nat) option" where
  "parse_op bs =
     (let b0 = hd bs in
      if b0 < 0x80 then if b0 = 0x7f then None else Some (ucast b0, 1)
      else if b0 < 0xc0 then if length bs < 2 then None else Some (ucast (sys_get_be16 bs), 2)
      else if length bs < 3 then None else Some (push_bit 16 (ucast b0) OR ucast (sys_get_le16 (tl bs)), 3))"

lemma top_bits:
  fixes b :: u8
  shows "drop_bit 6 b = 0 \<or> drop_bit 6 b = 1 \<longleftrightarrow> b < 0x80" "drop_bit 6 b = 2 \<longleftrightarrow> 0x80 \<le> b \<and> b < 0xc0"
proof -
  have d: "unat (drop_bit 6 b) = unat b div 64" by (simp add: drop_bit_eq_div unat_div)
  show "drop_bit 6 b = 0 \<or> drop_bit 6 b = 1 \<longleftrightarrow> b < 0x80" using d by (auto simp: word_unat_eq_iff word_less_nat_alt)
  show "drop_bit 6 b = 2 \<longleftrightarrow> 0x80 \<le> b \<and> b < 0xc0" using d by (auto simp: word_unat_eq_iff word_less_nat_alt word_le_nat_alt)
qed

lemma get_opcode_parse:
  assumes "wf_buf buf" "0 < nb_len buf"
  shows "get_opcode big buf =
    Some (case parse_op (nb_bytes buf) of None \<Rightarrow> (Inl EINVAL, buf)
          | Some (op, n) \<Rightarrow> (Inr op, buf\<lparr>nb_data := nb_data buf + n, nb_len := nb_len buf - n\<rparr>))"
proof -
  have hd: "nb_buf buf ! nb_data buf = hd (nb_bytes buf)" "length (nb_bytes buf) = nb_len buf"
    using assms by (auto simp: nb_bytes_def nb_read_def wf_buf_def hd_conv_nth)
  have u8: "net_buf_simple_pull_u8 buf = Some (hd (nb_bytes buf), buf\<lparr>nb_data := nb_data buf + 1, nb_len := nb_len buf - 1\<rparr>)"
    using assms hd by (simp add: net_buf_simple_pull_u8_def net_buf_simple_pull_def)
  let ?p = "\<lambda>n. buf\<lparr>nb_data := nb_data buf + n, nb_len := nb_len buf - n\<rparr>"
  have be: "2 \<le> nb_len buf \<Longrightarrow> net_buf_simple_pull_be16 big buf = Some (sys_get_be16 (nb_bytes buf), ?p 2)"
    using nb_pull_bytes(1) [OF assms(1), of 2] by (simp add: pull_value(2) [OF assms(1)] sys_get_be16_def)
  have le: "net_buf_simple_pull_le16 big (?p 1) = Some (sys_get_le16 (tl (nb_bytes buf)), ?p 3)" if "3 \<le> nb_len buf"
  proof -
    define q where "q = ?p 1"
    have q: "wf_buf q" "nb_bytes q = tl (nb_bytes buf)" "nb_len q = nb_len buf - 1" "nb_data q = nb_data buf + 1"
      using nb_pull_bytes(2,3) [OF assms(1), of 1] assms(2) by (simp_all add: q_def drop_Suc)
    have "2 \<le> nb_len q" using that q(3) by simp
    moreover have "q\<lparr>nb_data := nb_data q + 2, nb_len := nb_len q - 2\<rparr> = ?p 3" by (simp add: q_def)
    ultimately show ?thesis using nb_pull_bytes(1) [OF q(1), of 2] that q(2)
      by (simp add: pull_value(1) [OF q(1)] sys_get_le16_def del: One_nat_def flip: q_def)
  qed
  let ?b = "hd (nb_bytes buf)"
  consider "?b < 0x80" | "\<not> ?b < 0x80" "?b < 0xc0" | "\<not> ?b < 0x80" "\<not> ?b < 0xc0" by blast
  then show ?thesis unfolding get_opcode_def Let_def hd(1) parse_op_def top_bits hd(2) 
    by cases (use u8 be le in \<open>simp_all add: not_le del: not_less\<close>)
qed

text \<open>The numbers behind two- and three-byte opcodes.\<close>

lemma be16_bytes: "sys_put_be16 v = [b0, b1] \<Longrightarrow> unat v = unat b0 * 256 + unat b1"
proof -
  assume a: "sys_put_be16 v = [b0, b1]"
  have lt: "unat v < 65536" using unsigned_less [of v] by simp
  from a have b: "unat b0 = unat v div 256 mod 256" "unat b1 = unat v mod 256"
    by (auto simp: sys_put_be16_def unsigned_ucast_eq take_bit_nat_def drop_bit_eq_div unat_div)
  have "unat v div 256 mod 256 = unat v div 256" using lt by (intro mod_less) auto
  with b show ?thesis by simp
qed

lemma op3_parts:
  fixes b0 :: u8 and cid :: u16
  defines "opcode \<equiv> push_bit 16 (ucast b0) OR ucast cid :: u32"
  shows "ucast (opcode AND 0xffff) = cid" "ucast (drop_bit 16 opcode AND 0xff) = b0" "unat opcode div 65536 = unat b0"
proof -
  have m: "(0xffff :: u32) = mask 16" "(0xff :: u32) = mask 8" by (simp_all add: mask_eq_exp_minus_1)
  show "ucast (opcode AND 0xffff) = cid" unfolding opcode_def m by (rule bit_word_eqI) (auto simp: bit_simps)
  show "ucast (drop_bit 16 opcode AND 0xff) = b0" unfolding opcode_def m by (rule bit_word_eqI) (auto simp: bit_simps dest: bit_imp_le_length)
  have "drop_bit 16 opcode = ucast b0" unfolding opcode_def by (rule bit_word_eqI) (auto simp: bit_simps dest: bit_imp_le_length)
  moreover have "unat (ucast b0 :: u32) = unat b0" using unat_u8 [of b0] by (simp add: unsigned_ucast_eq take_bit_nat_eq_self)
  ultimately have "unat (drop_bit 16 opcode) = unat b0" by simp
  then show "unat opcode div 65536 = unat b0" by (simp add: drop_bit_eq_div unat_div)
qed

lemma parse_op_valid:
  assumes "parse_op bs = Some (opcode, n)" "bs \<noteq> []"
  shows "valid_opcode opcode \<and> n \<le> length bs \<and> op_bytes opcode = take n bs"
proof -
  obtain b0 r where bs: "bs = b0 # r" using assms(2) by (cases bs) auto
  have small: "b0 < 0x80 \<Longrightarrow> b0 \<noteq> 0x7f \<Longrightarrow> b0 < 0x7f" by (auto simp: word_less_nat_alt word_unat_eq_iff)
  consider "b0 < 0x7f" "opcode = ucast b0" "n = 1"
    | b1 r' where "0x80 \<le> b0" "b0 < 0xc0" "r = b1 # r'" "opcode = ucast (sys_get_be16 bs)" "n = 2"
    | b1 b2 r' where "0xc0 \<le> b0" "r = b1 # b2 # r'" "opcode = push_bit 16 (ucast b0) OR ucast (sys_get_le16 r)" "n = 3"
  proof (cases "b0 < 0x80")
    case True
    then show ?thesis using that(1) small assms(1) by (simp add: parse_op_def bs split: if_splits)
  next
    case ge: False
    show ?thesis
    proof (cases "b0 < 0xc0")
      case True
      have "0x80 \<le> b0" using ge by simp
      then show ?thesis using that(2) [OF _ True] ge True assms(1) by (cases r) (auto simp: parse_op_def bs)
    next
      case False
      then obtain b1 b2 r' where r: "r = b1 # b2 # r'" using ge assms(1) by (cases r; cases "tl r") (auto simp: parse_op_def bs)
      have "0xc0 \<le> b0" using False by simp
      then show ?thesis using that(3) [OF _ r] ge False assms(1) by (simp add: parse_op_def bs r del: not_less)
    qed
  qed
  then show ?thesis
  proof cases
    case 1
    then have "unat opcode = unat b0" "unat b0 < 127" by (simp_all add: unsigned_ucast_eq take_bit_nat_eq_self word_less_nat_alt)
    moreover have "ucast (ucast b0 :: u32) = b0" by (rule bit_word_eqI) (auto simp: bit_simps dest: bit_imp_le_length)
    ultimately show ?thesis using 1 by (simp add: valid_opcode_def op_bytes_def BT_MESH_MODEL_OP_LEN_def word_less_nat_alt word_le_nat_alt bs)
  next
    case 2
    define v where "v = sys_get_be16 [b0, b1]"
    have v: "sys_put_be16 v = [b0, b1]" unfolding v_def by (rule be16.put_get) simp
    have op: "opcode = ucast v" using 2(3,4) by (simp add: v_def bs sys_get_be16_def)
    have n: "unat opcode = unat b0 * 256 + unat b1" using be16_bytes [OF v] unat_u8 [of b0] unat_u8 [of b1] by (simp add: op unsigned_ucast_eq take_bit_nat_eq_self)
    have r: "0x8000 \<le> unat opcode" "unat opcode < 0xc000" using n 2(1,2) unat_u8 [of b1] by (simp_all add: word_less_nat_alt word_le_nat_alt)
    have "ucast (ucast v :: u32) = v" by (rule bit_word_eqI) (auto simp: bit_simps dest: bit_imp_le_length)
    then show ?thesis using r v 2(3,5) by (simp add: valid_opcode_def op_bytes_def BT_MESH_MODEL_OP_LEN_def word_less_nat_alt word_le_nat_alt bs op)
  next
    case 3
    define cid where "cid = sys_get_le16 [b1, b2]"
    have c: "sys_put_le16 cid = [b1, b2]" unfolding cid_def by (rule le16.put_get) simp
    have op: "opcode = push_bit 16 (ucast b0) OR ucast cid" using 3(2,3) by (simp add: cid_def sys_get_le16_def)
    note parts = op3_parts [of b0 cid, folded op]
    have r: "0xc00000 \<le> unat opcode" "unat opcode < 0x1000000" using parts(3) 3(1) unat_u8 [of b0] by (simp_all add: word_le_nat_alt)
    show ?thesis using r c 3(2,4) parts(1,2) by (simp add: valid_opcode_def op_bytes_def BT_MESH_MODEL_OP_LEN_def word_less_nat_alt word_le_nat_alt bs)
  qed
qed


lemma op_bytes_parse: "valid_opcode opcode \<Longrightarrow> parse_op (op_bytes opcode @ rest) = Some (opcode, length (op_bytes opcode))"
proof -
  assume v: "valid_opcode opcode"
  have lt: "unat opcode < 4294967296" by (rule unat_u32)
  consider "unat opcode < 0x7f" | "0x8000 \<le> unat opcode" "unat opcode < 0xc000" | "0xc00000 \<le> unat opcode" "unat opcode < 0x1000000"
    using v by (auto simp: valid_opcode_def word_less_nat_alt word_le_nat_alt)
  then show ?thesis
  proof cases
    case 1
    then have "unat (ucast opcode :: u8) = unat opcode" by (simp add: unsigned_ucast_eq take_bit_nat_eq_self)
    moreover have "(ucast (ucast opcode :: u8) :: u32) = opcode"
      using take_bit_word_self [of opcode 8] 1 by (simp add: word_unat_eq_iff unsigned_ucast_eq)
    ultimately show ?thesis using 1
      by (simp add: op_bytes_def BT_MESH_MODEL_OP_LEN_def parse_op_def word_less_nat_alt word_le_nat_alt word_unat_eq_iff)
  next
    case 2
    define w :: u16 where "w = ucast opcode"
    have w: "unat w = unat opcode" "ucast w = opcode"
      using 2 take_bit_word_self [of opcode 16] by (simp_all add: w_def word_unat_eq_iff unsigned_ucast_eq take_bit_nat_eq_self)
    obtain b0 b1 where b: "sys_put_be16 w = [b0, b1]" by (simp add: sys_put_be16_def)
    have "unat b0 = unat opcode div 256" using be16_bytes [OF b] w(1) unat_u8 [of b1] by simp
    then have "0x80 \<le> unat b0" "unat b0 < 0xc0" using 2 by auto
    moreover have "sys_get_be16 (b0 # b1 # rest) = w" using be16.get_put [of w rest] b by simp
    ultimately show ?thesis using 2 b w
      by (simp add: op_bytes_def BT_MESH_MODEL_OP_LEN_def parse_op_def word_less_nat_alt word_le_nat_alt flip: w_def)
  next
    case 3
    define b0 :: u8 and cid :: u16 where "b0 = ucast (drop_bit 16 opcode AND 0xff)" and "cid = ucast (opcode AND 0xffff)"
    have m: "(0xffff :: u32) = mask 16" "(0xff :: u32) = mask 8" by (simp_all add: mask_eq_exp_minus_1)
    have "take_bit 24 opcode = opcode" using 3(2) by (intro take_bit_word_self) simp
    then have bits: "k < 24" if "bit opcode k" for k using that by (metis bit_take_bit_iff)
    have op: "push_bit 16 (ucast b0) OR ucast cid = opcode" unfolding b0_def cid_def m
      by (rule bit_word_eqI) (auto simp: bit_simps dest: bits)
    have "unat opcode div 65536 = unat b0" using op3_parts(3) [of b0 cid] op by simp
    then have b: "0xc0 \<le> unat b0" using 3 by auto
    have "sys_get_le16 (sys_put_le16 cid @ rest) = cid" by (rule le16.get_put) simp
    then show ?thesis using 3 b op
      by (simp add: op_bytes_def BT_MESH_MODEL_OP_LEN_def parse_op_def word_less_nat_alt word_le_nat_alt le16.length_put flip: b0_def cid_def)
  qed
qed


lemma op_bytes_length: "op_bytes opcode \<noteq> []" "length (op_bytes opcode) \<le> 3"
  by (simp_all add: op_bytes_def sys_put_be16_def sys_put_le16_def)

lemma room_add_bytes:
  assumes "wf_buf msg" "length bs \<le> net_buf_simple_tailroom msg"
  shows "\<exists>m. net_buf_simple_add_mem bs msg = Some m \<and> wf_buf m \<and> nb_bytes m = nb_bytes msg @ bs \<and>
    net_buf_simple_tailroom m = net_buf_simple_tailroom msg - length bs"
  using nb.view_add [OF assms(1), of bs] nb.wf_add [OF assms(1), of bs] assms(2)
  by (cases "net_buf_simple_add_mem bs msg") (auto simp: abs_of_def)

lemma msg_init_bytes:
  assumes "wf_buf msg" "3 \<le> nb_size msg"
  shows "\<exists>m. bt_mesh_model_msg_init opcode msg = Some m \<and> wf_buf m \<and> nb_bytes m = op_bytes opcode"
proof -
  let ?m = "net_buf_simple_init 0 msg"
  have m: "wf_buf ?m" "nb_bytes ?m = []" "net_buf_simple_tailroom ?m = nb_size msg"
    using assms by (simp_all add: net_buf_simple_init_def wf_buf_def nb_defs nb_bytes_def)
  consider "BT_MESH_MODEL_OP_LEN opcode = 1" | "BT_MESH_MODEL_OP_LEN opcode = 2" | "BT_MESH_MODEL_OP_LEN opcode \<noteq> 1" "BT_MESH_MODEL_OP_LEN opcode \<noteq> 2" by blast
  then show ?thesis
  proof cases
    case 1
    then show ?thesis using room_add_bytes [OF m(1), of "[ucast opcode]"] m assms(2)
      by (auto simp: bt_mesh_model_msg_init_def op_bytes_def add_value)
  next
    case 2
    then show ?thesis using room_add_bytes [OF m(1), of "sys_put_be16 (ucast opcode)"] m assms(2)
      by (auto simp: bt_mesh_model_msg_init_def op_bytes_def add_value be16.length_put)
  next
    case 3
    let ?h = "[ucast (drop_bit 16 opcode AND 0xff)] :: bytes" and ?c = "sys_put_le16 (ucast (opcode AND 0xffff))"
    from room_add_bytes [OF m(1), of ?h] m(2,3) assms(2) obtain m1 where m1: "net_buf_simple_add_mem ?h ?m = Some m1" "wf_buf m1" "nb_bytes m1 = ?h"
        "net_buf_simple_tailroom m1 = nb_size msg - 1" by auto
    have "length ?c \<le> net_buf_simple_tailroom m1" using m1(4) assms(2) by (simp add: le16.length_put)
    from room_add_bytes [OF m1(2) this] m1 3 show ?thesis
      by (auto simp: bt_mesh_model_msg_init_def op_bytes_def add_value)
  qed
qed

text \<open>
  C34: \<open>bt_mesh_model_msg_init\<close> and \<open>get_opcode\<close> are inverse.  An opcode is read from a message exactly
  when it is one of the three ranges of the access layer and its encoding is at the front of
  the message, which is then left with the rest; and preparing a message writes that encoding.
\<close>

theorem opcode_codec:
  assumes "wf_buf msg" "3 \<le> nb_size msg" "wf_buf buf" "0 < nb_len buf"
  shows "(\<exists>m. bt_mesh_model_msg_init opcode msg = Some m \<and> nb_bytes m = op_bytes opcode) \<and>
    ((\<exists>buf'. get_opcode big buf = Some (Inr opcode, buf') \<and> nb_bytes buf' = rest) \<longleftrightarrow>
       valid_opcode opcode \<and> nb_bytes buf = op_bytes opcode @ rest)"
proof -
  have len: "length (nb_bytes buf) = nb_len buf" using assms(3) by simp
  then have ne: "nb_bytes buf \<noteq> []" "length (nb_bytes buf) = nb_len buf" using assms(4) by auto
  have "(\<exists>buf'. get_opcode big buf = Some (Inr opcode, buf') \<and> nb_bytes buf' = rest) \<longleftrightarrow>
      (\<exists>n. parse_op (nb_bytes buf) = Some (opcode, n) \<and> drop n (nb_bytes buf) = rest)"
  proof -
    have n: "n \<le> nb_len buf" if "parse_op (nb_bytes buf) = Some (opcode, n)" for n using parse_op_valid [OF that ne(1)] ne(2) by simp
    show ?thesis unfolding get_opcode_parse [OF assms(3,4)] using nb_pull_bytes(3) [OF assms(3) n]
      by (auto split: option.splits)
  qed
  also have "\<dots> \<longleftrightarrow> valid_opcode opcode \<and> nb_bytes buf = op_bytes opcode @ rest"
    using parse_op_valid [OF _ ne(1)] op_bytes_parse [of opcode rest] by (metis append_eq_conv_conj append_take_drop_id)
  finally show ?thesis using msg_init_bytes [OF assms(1,2), of opcode] by blast
qed

text \<open>The two-byte opcode \<open>0x8201\<close> in front of one byte.\<close>

definition op_buf :: net_buf_simple where
  "op_buf = \<lparr>nb_data = 0, nb_len = 3, nb_size = 8, nb_buf = [0x82, 0x01, 7, 0, 0, 0, 0, 0]\<rparr>"

theorem opcode_codec_witness:
  "\<exists>buf'. get_opcode False op_buf = Some (Inr 0x8201, buf') \<and> nb_bytes buf' = [7]"
proof -
  have b: "wf_buf op_buf" "3 \<le> nb_size op_buf" "0 < nb_len op_buf" by (simp_all add: op_buf_def wf_buf_def)
  have "valid_opcode 0x8201 \<and> nb_bytes op_buf = op_bytes 0x8201 @ [7]" by code_simp
  then show ?thesis using opcode_codec [OF b(1,2,1,3), of "0x8201" False "[7]"] by blast
qed

section \<open>Dispatch\<close>







text \<open>What the loop of the code does in one element.\<close>

definition dispatched :: "access_cfg \<Rightarrow> u32 \<Rightarrow> bt_mesh_msg_ctx \<Rightarrow> nat \<Rightarrow> access_state \<Rightarrow> bt_mesh_elem \<Rightarrow> (nat \<times> nat) list" where
  "dispatched xc opcode ctx len s e =
     (case find_op xc e opcode (xs_models s) of None \<Rightarrow> []
      | Some (m, op) \<Rightarrow>
         if bt_mesh_model_has_key (xs_models s ! m) (ctx_app_idx ctx) \<and> model_has_dst xc m (ctx_recv_dst ctx) s = Some True \<and> op_len_ok op len
         then [(mo_func op, m)] else [])"



lemma acc_output_frame: "xs_models (acc_output x s) = xs_models s" "xs_elems (acc_output x s) = xs_elems s" "xs_out (acc_output x s) = xs_out s @ [x]"
    "model_has_dst xc m dst (acc_output x s) = model_has_dst xc m dst s"
  by (simp_all add: acc_output_def model_has_dst_def bt_mesh_model_elem_def)

lemma dispatched_output [simp]: "dispatched xc opcode ctx len (acc_output x s) = dispatched xc opcode ctx len s"
  by (rule ext) (simp only: dispatched_def acc_output_frame)
















end
