(* ===== verification/Mesh_Acc_Store.thy ===== *)
theory Mesh_Acc_Store
  imports Mesh_Acc_Ext
begin

text \<open>
  The configuration of models in storage, \<open>core/src/mesh/access.c\<close>: what \<open>store_pending_mod\<close>
  writes, \<open>mod_set\<close> reads back after a restart.
\<close>

section \<open>Names in storage\<close>

lemma strtol16_stop: "\<forall>c \<in> set a. hex_value c \<noteq> None \<Longrightarrow> hex_value c = None \<Longrightarrow> strtol16 acc (a @ c # b) = strtol16 acc a"
  by (induction a arbitrary: acc) auto

lemma mod_key_parts:
  fixes e j :: u8
  defines "k \<equiv> push_bit 8 (ucast e) OR ucast j :: u16"
  shows "ucast (drop_bit 8 k) = e" "ucast k = j"
  unfolding k_def by (rule bit_word_eqI, auto simp: bit_simps dest: bit_imp_le_length)+

text \<open>What the settings subsystem documents of \<open>settings_name_next\<close>: the length of the first component, and the rest behind the separator.\<close>

definition name_next_law :: "access_env \<Rightarrow> bool" where
  "name_next_law xe \<longleftrightarrow> (\<forall>a b. CHR 0x2F \<notin> set a \<longrightarrow> CHR 0x3D \<notin> set a \<longrightarrow> xe_name_next xe (a @ CHR 0x2F # b) = (length a, Some b))"

lemma hex_string_name: "CHR 0x2F \<notin> set (hex_string n)" "CHR 0x3D \<notin> set (hex_string n)" "hex_string n \<noteq> []"
proof -
  have "hex_value (CHR 0x2F) = None" "hex_value (CHR 0x3D) = None" by code_simp+
  then show "CHR 0x2F \<notin> set (hex_string n)" "CHR 0x3D \<notin> set (hex_string n)" using strtol16_hex [of n] by auto
  show "hex_string n \<noteq> []" by (subst hex_string.simps) simp
qed

section \<open>Storing and loading\<close>

text \<open>Model \<open>m\<close> is where its indices say.\<close>

definition placed :: "bool \<Rightarrow> nat \<Rightarrow> access_state \<Rightarrow> bool" where
  "placed vnd m s \<longleftrightarrow> m < length (xs_models s) \<and> bt_mesh_model_get vnd (md_elem_idx (xs_models s ! m)) (md_mod_idx (xs_models s ! m)) s = Some m"

definition mod_name :: "bt_mesh_model \<Rightarrow> string" where
  "mod_name md = hex_string (unat (push_bit 8 (ucast (md_elem_idx md)) OR ucast (md_mod_idx md) :: u16))"

lemma mod_set_finds:
  assumes "placed vnd m s" "name_next_law xe"
  shows "mod_set xc xe vnd (Some (mod_name (xs_models s ! m) @ CHR 0x2F # ''bind'')) len rd s = mod_set_bind m len rd s"
    "mod_set xc xe vnd (Some (mod_name (xs_models s ! m) @ CHR 0x2F # ''sub'')) len rd s = mod_set_sub m len rd s"
    "mod_set xc xe vnd (Some (mod_name (xs_models s ! m) @ CHR 0x2F # ''pub'')) len rd s = mod_set_pub xc m len rd s"
proof -
  let ?md = "xs_models s ! m"
  let ?k = "push_bit 8 (ucast (md_elem_idx ?md)) OR ucast (md_mod_idx ?md) :: u16"
  have slash: "hex_value (CHR 0x2F) = None" by code_simp
  have key: "(word_of_nat (strtol16 0 (mod_name ?md @ CHR 0x2F # b)) :: u16) = ?k" for b
    using strtol16_stop [OF _ slash, of "hex_string (unat ?k)" 0 b] strtol16_hex [of "unat ?k"] by (simp add: mod_name_def)
  have get: "bt_mesh_model_get vnd (ucast (drop_bit 8 ?k)) (ucast ?k) s = Some m" using assms(1) unfolding mod_key_parts placed_def by simp
  have nx: "xe_name_next xe (mod_name ?md @ CHR 0x2F # b) = (length (mod_name ?md), Some b)" for b
    using assms(2) hex_string_name unfolding name_next_law_def mod_name_def by blast
  obtain n where n: "length (mod_name ?md) = Suc n" using hex_string_name(3) [of "unat ?k"] unfolding mod_name_def by (metis length_0_conv not0_implies_Suc)
  show "mod_set xc xe vnd (Some (mod_name ?md @ CHR 0x2F # ''bind'')) len rd s = mod_set_bind m len rd s"
    "mod_set xc xe vnd (Some (mod_name ?md @ CHR 0x2F # ''sub'')) len rd s = mod_set_sub m len rd s"
    "mod_set xc xe vnd (Some (mod_name ?md @ CHR 0x2F # ''pub'')) len rd s = mod_set_pub xc m len rd s"
    unfolding mod_set_def option.case Let_def key get nx prod.case n by (simp_all add: strncmp_eq_def)
qed

text \<open>What the settings subsystem hands back at start-up for a stored value; the names of models follow \<open>bt/mesh/s/\<close> or \<open>bt/mesh/v/\<close>.\<close>

fun load_out :: "access_cfg \<Rightarrow> access_env \<Rightarrow> bool \<Rightarrow> access_out \<Rightarrow> access_state \<Rightarrow> access_state" where
  "load_out xc xe vnd (Mod_save_u16s path ks) s =
     snd (mod_set xc xe vnd (Some (drop 10 path)) (2 * length ks) \<lparr>mr_u16s = Inr ks, mr_pub = Inl EINVAL\<rparr> s)"
| "load_out xc xe vnd (Mod_save_pub path v) s =
     snd (mod_set xc xe vnd (Some (drop 10 path)) 8 \<lparr>mr_u16s = Inl EINVAL, mr_pub = Inr v\<rparr> s)"
| "load_out xc xe vnd _ s = s"

definition fresh_model :: "bt_mesh_model \<Rightarrow> bt_mesh_model \<Rightarrow> bool" where
  "fresh_model md md0 \<longleftrightarrow> md_keys md0 = replicate (length (md_keys md)) BT_MESH_KEY_UNUSED \<and> md_groups md0 = replicate (length (md_groups md)) 0 \<and>
     md_elem_idx md0 = md_elem_idx md \<and> md_mod_idx md0 = md_mod_idx md \<and>
     (md_pub md0 = None \<longleftrightarrow> md_pub md = None) \<and> (\<forall>p. md_pub md0 = Some p \<longrightarrow> pb_addr p = BT_MESH_ADDR_UNASSIGNED)"

definition same_pub :: "bt_mesh_model_pub \<Rightarrow> bt_mesh_model_pub \<Rightarrow> bool" where
  "same_pub p p' \<longleftrightarrow> pb_addr p' = pb_addr p \<and> (pb_addr p \<noteq> BT_MESH_ADDR_UNASSIGNED \<longrightarrow>
     pb_key p' = pb_key p \<and> pb_cred p' = pb_cred p \<and> pb_ttl p' = pb_ttl p \<and> pb_period p' = pb_period p \<and>
     pb_retransmit p' = pb_retransmit p \<and> pb_period_div p' = pb_period_div p \<and> pb_count p' = 0)"

definition same_config :: "bt_mesh_model \<Rightarrow> bt_mesh_model \<Rightarrow> bool" where
  "same_config md md' \<longleftrightarrow> filter (\<lambda>k. k \<noteq> BT_MESH_KEY_UNUSED) (md_keys md') = filter (\<lambda>k. k \<noteq> BT_MESH_KEY_UNUSED) (md_keys md) \<and>
     filter (\<lambda>g. g \<noteq> BT_MESH_ADDR_UNASSIGNED) (md_groups md') = filter (\<lambda>g. g \<noteq> BT_MESH_ADDR_UNASSIGNED) (md_groups md) \<and>
     rel_option same_pub (md_pub md) (md_pub md')"

text \<open>The three values, each stored and loaded into a model that has the array lengths of the stored one.\<close>

lemma filter_rest: "filter P (mem_write 0 (filter P xs) (replicate (length xs) x)) = filter P xs" if "\<not> P x"
proof -
  have "length (filter P xs) \<le> length xs" by (rule length_filter_le)
  then show ?thesis using that by (simp add: mem_write_def)
qed

lemma path_name: "encode_mod_path md vnd key = (if vnd then ''bt/mesh/v/'' else ''bt/mesh/s/'') @ mod_name md @ CHR 0x2F # key"
  by (simp add: encode_mod_path_def mod_name_def)

lemma drop_path: "drop 10 (encode_mod_path md vnd key) = mod_name md @ CHR 0x2F # key"
  by (simp add: path_name)

lemma model_get_upd: "bt_mesh_model_get vnd e j (upd_model m f s) = bt_mesh_model_get vnd e j s"
  by (simp add: bt_mesh_model_get_def upd_model_def)

lemma upd_model_nth: "m < length (xs_models s) \<Longrightarrow> xs_models (upd_model m f s) ! m = f (xs_models s ! m)"
  by (simp add: upd_model_def)

lemma upd_model_twice: "m < length (xs_models s) \<Longrightarrow> upd_model m g (upd_model m f s) = upd_model m (\<lambda>md. g (f md)) s"
  by (simp add: upd_model_def)

lemma placed_upd: "placed vnd m s \<Longrightarrow> md_elem_idx (f (xs_models s ! m)) = md_elem_idx (xs_models s ! m) \<Longrightarrow>
    md_mod_idx (f (xs_models s ! m)) = md_mod_idx (xs_models s ! m) \<Longrightarrow> placed vnd m (upd_model m f s)"
  by (simp add: placed_def model_get_upd upd_model_nth) (simp add: upd_model_def)

definition bind_out :: "bt_mesh_model \<Rightarrow> bool \<Rightarrow> access_out" where
  "bind_out md vnd = (let keys = filter (\<lambda>k. k \<noteq> BT_MESH_KEY_UNUSED) (md_keys md); path = encode_mod_path md vnd ''bind''
     in if keys \<noteq> [] then Mod_save_u16s path keys else Mod_delete path)"

definition sub_out :: "bt_mesh_model \<Rightarrow> bool \<Rightarrow> access_out" where
  "sub_out md vnd = (let groups = filter (\<lambda>g. g \<noteq> BT_MESH_ADDR_UNASSIGNED) (md_groups md); path = encode_mod_path md vnd ''sub''
     in if groups \<noteq> [] then Mod_save_u16s path groups else Mod_delete path)"

definition pub_val :: "bt_mesh_model_pub \<Rightarrow> mod_pub_val" where
  "pub_val p = \<lparr>pv_addr = pb_addr p, pv_key = ucast (pb_key p), pv_ttl = pb_ttl p, pv_retransmit = pb_retransmit p,
     pv_period = pb_period p, pv_period_div = pb_period_div p, pv_cred = pb_cred p\<rparr>"

definition pub_out :: "bt_mesh_model \<Rightarrow> bool \<Rightarrow> access_out" where
  "pub_out md vnd = (let path = encode_mod_path md vnd ''pub'' in
     case md_pub md of None \<Rightarrow> Mod_delete path
     | Some p \<Rightarrow> if pb_addr p = BT_MESH_ADDR_UNASSIGNED then Mod_delete path else Mod_save_pub path (pub_val p))"

lemma store_eqs:
  "store_pending_mod_bind m vnd s = acc_output (bind_out (xs_models s ! m) vnd) s"
  "store_pending_mod_sub m vnd s = acc_output (sub_out (xs_models s ! m) vnd) s"
  "store_pending_mod_pub m vnd s = acc_output (pub_out (xs_models s ! m) vnd) s"
  unfolding store_pending_mod_bind_def store_pending_mod_sub_def store_pending_mod_pub_def bind_out_def sub_out_def pub_out_def pub_val_def Let_def
  by (rule refl)+

lemma outs_flags [simp]: "bind_out (md\<lparr>md_flags := x\<rparr>) vnd = bind_out md vnd" "sub_out (md\<lparr>md_flags := x\<rparr>) vnd = sub_out md vnd"
    "pub_out (md\<lparr>md_flags := x\<rparr>) vnd = pub_out md vnd"
  by (simp_all add: bind_out_def sub_out_def pub_out_def encode_mod_path_def split: option.split)

lemma store_outs:
  assumes "m < length (xs_models s)" "md_flags (xs_models s ! m) AND 7 = 7"
  shows "xs_out (store_pending_mod m i vnd primary s) = xs_out s @ [bind_out (xs_models s ! m) vnd, sub_out (xs_models s ! m) vnd, pub_out (xs_models s ! m) vnd]"
proof -
  let ?fl = "md_flags (xs_models s ! m)"
  have b: "bit ?fl 0" "bit ?fl 1" "bit ?fl 2"
  proof -
    have "(7 :: u16) = mask 3" by (simp add: mask_eq_exp_minus_1)
    then have "bit (?fl AND mask 3) k \<longleftrightarrow> bit (mask 3 :: u16) k" for k using assms(2) by simp
    from this [of 0] this [of 1] this [of 2] show "bit ?fl 0" "bit ?fl 1" "bit ?fl 2" by (simp_all add: bit_and_iff bit_mask_iff)
  qed
  have nz: "w \<noteq> 0" if "bit (w :: u16) k" for w k using that by auto
  have c: "bit (1 :: u16) 0" "bit (2 :: u16) 1" "bit (4 :: u16) 2" "bit (NOT 1 :: u16) 1" "bit (NOT 1 :: u16) 2" "bit (NOT 2 :: u16) 2" by code_simp+
  have f: "?fl \<noteq> 0" "?fl AND BT_MESH_MOD_BIND_PENDING \<noteq> 0" "(?fl AND NOT BT_MESH_MOD_BIND_PENDING) AND BT_MESH_MOD_SUB_PENDING \<noteq> 0"
      "((?fl AND NOT BT_MESH_MOD_BIND_PENDING) AND NOT BT_MESH_MOD_SUB_PENDING) AND BT_MESH_MOD_PUB_PENDING \<noteq> 0"
    unfolding BT_MESH_MOD_BIND_PENDING_def BT_MESH_MOD_SUB_PENDING_def BT_MESH_MOD_PUB_PENDING_def
    by (rule nz [of _ 0] nz [of _ 1] nz [of _ 2], use b c in \<open>simp only: bit_and_iff simp_thms\<close>)+
  show ?thesis using f assms(1)
    by (simp add: store_pending_mod_def store_flagged_def store_eqs) (simp add: acc_output_def upd_model_def)
qed

lemma load_outs:
  assumes "placed vnd m s" "name_next_law xe" "mod_name (xs_models s ! m) = mod_name md"
  shows "load_out xc xe vnd (bind_out md vnd) s = (let ks = filter (\<lambda>k. k \<noteq> BT_MESH_KEY_UNUSED) (md_keys md) in
      if ks = [] then s else snd (mod_set_bind m (2 * length ks) \<lparr>mr_u16s = Inr ks, mr_pub = Inl EINVAL\<rparr> s))"
    "load_out xc xe vnd (sub_out md vnd) s = (let gs = filter (\<lambda>g. g \<noteq> BT_MESH_ADDR_UNASSIGNED) (md_groups md) in
      if gs = [] then s else snd (mod_set_sub m (2 * length gs) \<lparr>mr_u16s = Inr gs, mr_pub = Inl EINVAL\<rparr> s))"
    "load_out xc xe vnd (pub_out md vnd) s = (case md_pub md of None \<Rightarrow> s
      | Some p \<Rightarrow> if pb_addr p = BT_MESH_ADDR_UNASSIGNED then s else snd (mod_set_pub xc m 8 \<lparr>mr_u16s = Inl EINVAL, mr_pub = Inr (pub_val p)\<rparr> s))"
  using mod_set_finds [OF assms(1,2), unfolded assms(3)]
  by (simp_all add: bind_out_def sub_out_def pub_out_def Let_def drop_path split: option.split)

text \<open>
  C28: the configuration of a model survives a restart.  What \<open>store_pending_mod\<close> writes for a model
  whose bindings, subscriptions and publication are to be stored, loaded under the names it was
  stored with into the freshly registered model, gives the same bound keys, the same groups and
  the same publication back, and changes no other model.
\<close>

theorem model_config_restored:
  assumes "m < length (xs_models s)" "md_flags (xs_models s ! m) AND 7 = 7" "placed vnd m s0" "fresh_model (xs_models s ! m) (xs_models s0 ! m)"
    and "name_next_law xe" "cfg_settings (tc_mesh (xc_trans xc))"
  shows "\<exists>md. xs_models (fold (load_out xc xe vnd) (drop (length (xs_out s)) (xs_out (store_pending_mod m i vnd primary s))) s0) = (xs_models s0)[m := md] \<and>
    same_config (xs_models s ! m) md"
proof -
  let ?md = "xs_models s ! m" and ?U = BT_MESH_KEY_UNUSED
  let ?ks = "filter (\<lambda>k. k \<noteq> ?U) (md_keys ?md)" and ?gs = "filter (\<lambda>g. g \<noteq> BT_MESH_ADDR_UNASSIGNED) (md_groups ?md)"
  let ?fresh = "xs_models s0 ! m"
  have m0: "m < length (xs_models s0)" using assms(3) by (simp add: placed_def)
  define md1 where "md1 = (if ?ks = [] then ?fresh else ?fresh\<lparr>md_keys := mem_write 0 ?ks (replicate (length (md_keys ?md)) ?U)\<rparr>)"
  define md2 where "md2 = (if ?gs = [] then md1 else md1\<lparr>md_groups := mem_write 0 ?gs (replicate (length (md_groups ?md)) 0)\<rparr>)"
  define md3 where "md3 = (case md_pub ?md of None \<Rightarrow> md2 | Some p \<Rightarrow> if pb_addr p = BT_MESH_ADDR_UNASSIGNED then md2 else
      md2\<lparr>md_pub := map_option (\<lambda>p'. p'\<lparr>pb_addr := pb_addr p, pb_key := pb_key p, pb_cred := pb_cred p, pb_ttl := pb_ttl p, pb_period := pb_period p,
        pb_retransmit := pb_retransmit p, pb_period_div := pb_period_div p, pb_count := 0\<rparr>) (md_pub md2)\<rparr>)"
  have fr: "md_keys ?fresh = replicate (length (md_keys ?md)) ?U" "md_groups ?fresh = replicate (length (md_groups ?md)) 0" "mod_name ?fresh = mod_name ?md"
      "md_pub ?fresh = None \<longleftrightarrow> md_pub ?md = None" "\<And>p. md_pub ?fresh = Some p \<Longrightarrow> pb_addr p = 0"
    using assms(4) by (simp_all add: fresh_model_def mod_name_def)
  have same: "md_elem_idx md1 = md_elem_idx ?fresh" "md_mod_idx md1 = md_mod_idx ?fresh" "md_elem_idx md2 = md_elem_idx ?fresh" "md_mod_idx md2 = md_mod_idx ?fresh"
      "md_groups md1 = md_groups ?fresh" "md_pub md2 = md_pub ?fresh" "md_keys md2 = md_keys md1"
    by (simp_all add: md1_def md2_def)
  define st where "st md = s0\<lparr>xs_models := (xs_models s0)[m := md]\<rparr>" for md
  have get: "bt_mesh_model_get v e j (st md) = bt_mesh_model_get v e j s0" for v e j md by (simp add: bt_mesh_model_get_def st_def)
  have nth: "xs_models (st md) ! m = md" "m < length (xs_models (st md))" for md using m0 by (simp_all add: st_def)
  have st: "placed vnd m (st md)" "mod_name (xs_models (st md) ! m) = mod_name ?md"
    if "md_elem_idx md = md_elem_idx ?fresh" "md_mod_idx md = md_mod_idx ?fresh" for md
    using that assms(3) fr(3) by (simp_all add: placed_def get nth mod_name_def)
  have upd: "upd_model m h (st md) = st (h md)" for h md using m0 by (simp add: upd_model_def st_def)
  have s0: "s0 = st ?fresh" by (simp add: st_def)
  have len: "take (length (md_keys ?md)) ?ks = ?ks" "take (length (md_groups ?md)) ?gs = ?gs" by (rule take_all [OF length_filter_le])+
  have key12: "ucast (ucast k :: u16) = k" for k :: "12 word" by (rule bit_word_eqI) (auto simp: bit_simps dest: bit_imp_le_length)
  have l1: "load_out xc xe vnd (bind_out ?md vnd) (st ?fresh) = st md1"
    unfolding load_outs(1) [OF st(1) [OF refl refl] assms(5) st(2) [OF refl refl]] using fr(1) len(1)
    by (auto simp: Let_def mod_set_bind_def upd md1_def)
  have l2: "load_out xc xe vnd (sub_out ?md vnd) (st md1) = st md2"
    unfolding load_outs(2) [OF st(1) [OF same(1,2)] assms(5) st(2) [OF same(1,2)]] using fr(2) len(2) same(5)
    by (auto simp: Let_def mod_set_sub_def upd md2_def)
  have l3: "load_out xc xe vnd (pub_out ?md vnd) (st md2) = st md3"
    unfolding load_outs(3) [OF st(1) [OF same(3,4)] assms(5) st(2) [OF same(3,4)]] using fr(4) same(6) m0 assms(6)
    by (auto simp: mod_set_pub_def upd_pub_def upd_model_def md3_def pub_val_def st_def key12 split: option.split)
  have "fold (load_out xc xe vnd) (drop (length (xs_out s)) (xs_out (store_pending_mod m i vnd primary s))) s0 = st md3"
    unfolding store_outs [OF assms(1,2)] using l1 l2 l3 s0 by simp
  moreover have "same_config ?md md3"
  proof -
    have parts: "md_keys md3 = md_keys md1" "md_groups md3 = md_groups md2" using same(7) by (simp_all add: md3_def split: option.split)
    have "filter (\<lambda>k. k \<noteq> ?U) (md_keys md1) = ?ks" using fr(1) filter_rest [of "\<lambda>k. k \<noteq> ?U" ?U "md_keys ?md"] by (auto simp: md1_def)
    moreover have "filter (\<lambda>g. g \<noteq> 0) (md_groups md2) = filter (\<lambda>g. g \<noteq> 0) (md_groups ?md)"
      using fr(2) same(5) filter_rest [of "\<lambda>g. g \<noteq> 0" 0 "md_groups ?md"] by (auto simp: md2_def)
    moreover have "rel_option same_pub (md_pub ?md) (md_pub md3)"
      using fr(4,5) same(6) by (cases "md_pub ?md"; cases "md_pub ?fresh") (auto simp: md3_def same_pub_def)
    ultimately show ?thesis by (simp add: same_config_def parts)
  qed
  ultimately show ?thesis by (intro exI [of _ md3]) (simp add: st_def)
qed

section \<open>An example\<close>

text \<open>A splitting of names as documented, and a node with one model that publishes to a group, is bound to one key and subscribed to one group.\<close>

definition next_slash :: "string \<Rightarrow> nat \<times> string option" where
  "next_slash xs = (let a = takeWhile (\<lambda>c. c \<noteq> CHR 0x2F \<and> c \<noteq> CHR 0x3D) xs in
     (length a, if length a < length xs \<and> xs ! length a = CHR 0x2F then Some (drop (Suc (length a)) xs) else None))"

definition store_env :: access_env where
  "store_env = \<lparr>xe_trans = seg_env, xe_uptime = 0, xe_suspended = False, xe_init = (\<lambda>_. None), xe_update = (\<lambda>_ m. (None, m)),
     xe_op_func = (\<lambda>_ _ _ b. b), xe_name_next = next_slash, xe_settings_set = (\<lambda>_ _ _. None), xe_store = (\<lambda>_. None)\<rparr>"

lemma store_env_law: "name_next_law store_env"
proof -
  have "takeWhile (\<lambda>c. c \<noteq> CHR 0x2F \<and> c \<noteq> CHR 0x3D) (a @ CHR 0x2F # b) = a" if "CHR 0x2F \<notin> set a" "CHR 0x3D \<notin> set a" for a b
    using that by (induction a) auto
  then show ?thesis by (simp add: name_next_law_def store_env_def next_slash_def Let_def nth_append)
qed

definition store_pub :: "u16 \<Rightarrow> bt_mesh_model_pub" where
  "store_pub a = \<lparr>pb_mod = 0, pb_addr = a, pb_key = 1, pb_cred = False, pb_send_rel = False, pb_fast_period = False, pb_ttl = 5, pb_retransmit = 2,
     pb_period = 0x41, pb_period_div = 0, pb_count = 0, pb_period_start = 0, pb_msg = None, pb_update = False, pb_timer = None\<rparr>"

definition store_model :: "u16 list \<Rightarrow> u16 list \<Rightarrow> u16 \<Rightarrow> bt_mesh_model" where
  "store_model ks gs a = \<lparr>md_company = 0, md_id = 0x1000, md_elem_idx = 0, md_mod_idx = 0, md_flags = 7, md_pub = Some (store_pub a), md_keys = ks,
     md_groups = gs, md_op = [], md_cb_init = False, md_cb_settings_set = False, md_next = None\<rparr>"

definition store_node :: "u16 list \<Rightarrow> u16 list \<Rightarrow> u16 \<Rightarrow> access_state" where
  "store_node ks gs a = \<lparr>xs_elems = [\<lparr>el_addr = 8, el_loc = 0, el_model_count = 1, el_vnd_model_count = 0, el_models = 0, el_vnd_models = 0\<rparr>],
     xs_models = [store_model ks gs a], xs_primary = 8, xs_msg_cb = False, xs_trans = seg_state, xs_out = []\<rparr>"

theorem model_config_restored_witness:
  "\<exists>md. xs_models (fold (load_out ext_cfg store_env False)
      (drop (length (xs_out (store_node [0xffff, 1] [0xc001, 0] 0xc002))) (xs_out (store_pending_mod 0 0 False True (store_node [0xffff, 1] [0xc001, 0] 0xc002))))
      (store_node [0xffff, 0xffff] [0, 0] 0)) = (xs_models (store_node [0xffff, 0xffff] [0, 0] 0))[0 := md] \<and>
    same_config (xs_models (store_node [0xffff, 1] [0xc001, 0] 0xc002) ! 0) md"
proof (rule model_config_restored)
  show "placed False 0 (store_node [0xffff, 0xffff] [0, 0] 0)" by (simp add: placed_def store_node_def store_model_def bt_mesh_model_get_def)
  show "fresh_model (xs_models (store_node [0xffff, 1] [0xc001, 0] 0xc002) ! 0) (xs_models (store_node [0xffff, 0xffff] [0, 0] 0) ! 0)"
    by (simp add: fresh_model_def store_node_def store_model_def store_pub_def)
  show "cfg_settings (tc_mesh (xc_trans ext_cfg))" by code_simp
  show "name_next_law store_env" by (rule store_env_law)
qed (simp_all add: store_node_def store_model_def)

end
