(* ===== verification/Mesh_Bc.thy ===== *)
theory Mesh_Bc
  imports Mesh_Net Mesh_Key_Store
begin

text \<open>
  Mesh beacons, \<open>core/src/mesh/beacon.c\<close>: secure network beacons, which spread the Key Refresh
  flag and the IV index of a subnet, and the beacons of unprovisioned devices.

  The state holds the network layer and the tables of keys, whose operations the reception of a
  beacon calls, and the static variables of the file.  What these operations call back here
  (\<open>bt_mesh_beacon_update\<close> for subnets, the start of the beacon timer) is run from their logs.
\<close>

section \<open>Data\<close>

definition BT_MESH_KEY_PRIMARY :: u16 where [simp]: "BT_MESH_KEY_PRIMARY = 0x000"

definition BEACON_TYPE_UNPROVISIONED :: u8 where [simp]: "BEACON_TYPE_UNPROVISIONED = 0x00"
definition BEACON_TYPE_SECURE :: u8 where [simp]: "BEACON_TYPE_SECURE = 0x01"

definition BT_MESH_PROV_OOB_URI :: u16 where "BT_MESH_PROV_OOB_URI = 2"

definition PROVISIONED_INTERVAL :: nat where "PROVISIONED_INTERVAL = 10000"

datatype beacon_out =
    Beacon_adv_send nat bytes
  | Unprov_adv_send bytes
  | Uri_adv_send bytes
  | Unprovisioned_beacon bytes u16 "u32 option"

record beacon_state =
  bc_net :: net_layer
  bc_keys :: keys_state
  bc_beacon :: bool
  bc_first_half :: bool
  bc_timer :: "nat option"
  bc_out :: "beacon_out list"

record beacon_cfg =
  bo_mesh :: mesh_cfg
  bo_pb_adv :: bool
  bo_unprov_int :: nat
  bo_big_endian :: bool

text \<open>What the provisioning module holds of \<open>bt_mesh_prov\<close>.\<close>

record prov_info =
  pi_uuid :: bytes
  pi_uri :: "string option"
  pi_oob_info :: u16
  pi_unprovisioned_beacon :: bool

record beacon_env =
  be_iv :: iv_env
  be_now :: u32
  be_adv_buf :: "nat \<Rightarrow> net_buf_simple option"
  be_unprov_buf :: "net_buf_simple option"
  be_uri_buf :: "net_buf_simple option"
  be_prov_active :: bool
  be_prov :: prov_info

definition bc_output :: "beacon_out \<Rightarrow> beacon_state \<Rightarrow> beacon_state" where
  "bc_output x s = s\<lparr>bc_out := bc_out s @ [x]\<rparr>"

abbreviation bc_mesh :: "beacon_state \<Rightarrow> bt_mesh_net" where
  "bc_mesh s \<equiv> nl_net (bc_net s)"

abbreviation bc_subs :: "beacon_state \<Rightarrow> bt_mesh_subnet list" where
  "bc_subs s \<equiv> ks_subnets (bc_keys s)"

definition bc_set_mesh :: "bt_mesh_net \<Rightarrow> beacon_state \<Rightarrow> beacon_state" where
  "bc_set_mesh st s = s\<lparr>bc_net := (bc_net s)\<lparr>nl_net := st\<rparr>\<rparr>"

definition bc_upd_sub :: "nat \<Rightarrow> (bt_mesh_subnet \<Rightarrow> bt_mesh_subnet) \<Rightarrow> beacon_state \<Rightarrow> beacon_state" where
  "bc_upd_sub i f s = s\<lparr>bc_keys := (bc_keys s)\<lparr>ks_subnets := (bc_subs s)[i := f (bc_subs s ! i)]\<rparr>\<rparr>"

text \<open>\<open>bt_mesh_subnet_foreach\<close> with a function of this file.\<close>

definition bc_foreach :: "(nat \<Rightarrow> beacon_state \<Rightarrow> beacon_state) \<Rightarrow> beacon_state \<Rightarrow> beacon_state" where
  "bc_foreach f s =
     fold (\<lambda>i s. if sn_net_idx (bc_subs s ! i) = BT_MESH_KEY_UNUSED then s else f i s) [0..<length (bc_subs s)] s"

section \<open>Sending\<close>

definition cache_check :: "bytes \<Rightarrow> bt_mesh_subnet \<Rightarrow> bool" where
  "cache_check beacon_data sub \<longleftrightarrow> take 21 (sn_beacon_cache sub) = take 21 beacon_data"

definition cache_add :: "bytes \<Rightarrow> nat \<Rightarrow> beacon_state \<Rightarrow> beacon_state" where
  "cache_add dat i = bc_upd_sub i (\<lambda>sub. sub\<lparr>sn_beacon_cache := take 21 dat\<rparr>)"

definition beacon_complete :: "beacon_env \<Rightarrow> nat \<Rightarrow> beacon_state \<Rightarrow> beacon_state" where
  "beacon_complete be i = bc_upd_sub i (\<lambda>sub. sub\<lparr>sn_beacon_sent := be_now be\<rparr>)"

definition bt_mesh_beacon_create :: "bt_mesh_subnet \<Rightarrow> bt_mesh_net \<Rightarrow> net_buf_simple \<Rightarrow> net_buf_simple option" where
  "bt_mesh_beacon_create sub st buf =
     (let flags = bt_mesh_net_flags (Some sub) (bm_ivu_in_progress st);
          keys = sn_keys sub ! SUBNET_KEY_TX_IDX sub
      in do {
        buf \<leftarrow> net_buf_simple_add_u8 BEACON_TYPE_SECURE buf;
        buf \<leftarrow> net_buf_simple_add_u8 flags buf;
        buf \<leftarrow> net_buf_simple_add_mem (take 8 (sk_net_id keys)) buf;
        buf \<leftarrow> net_buf_simple_add_be32 (bm_iv_index st) buf;
        net_buf_simple_add_mem (take 8 (sn_auth sub)) buf
      })"

definition BEACON_THRESHOLD :: "bt_mesh_subnet \<Rightarrow> nat" where
  "BEACON_THRESHOLD sub = (10 * (unat (sn_beacons_last sub) + 1)) * 1000 - 5 * 1000"

definition secure_beacon_send :: "beacon_env \<Rightarrow> nat \<Rightarrow> beacon_state \<Rightarrow> (errno option \<times> beacon_state) option" where
  "secure_beacon_send be i s =
     (let sub = bc_subs s ! i; time_diff = unat (be_now be - sn_beacon_sent sub) in
      if time_diff < 600 * 1000 \<and> time_diff < BEACON_THRESHOLD sub then Some (None, s)
      else
        (case be_adv_buf be i of None \<Rightarrow> Some (Some ENOMEM, s)
         | Some buf \<Rightarrow>
            do { buf \<leftarrow> bt_mesh_beacon_create sub (bc_mesh s) buf;
                 Some (None, bc_output (Beacon_adv_send i (nb_bytes buf)) s) }))"

text \<open>\<open>bt_mesh_subnet_find\<close> over \<open>secure_beacon_send\<close>, which stops at an error.\<close>

fun secure_beacons_send :: "beacon_env \<Rightarrow> nat list \<Rightarrow> beacon_state \<Rightarrow> beacon_state option" where
  "secure_beacons_send be [] s = Some s"
| "secure_beacons_send be (i # is) s =
     (if sn_net_idx (bc_subs s ! i) = BT_MESH_KEY_UNUSED then secure_beacons_send be is s
      else do {
        (err, s) \<leftarrow> secure_beacon_send be i s;
        (if err \<noteq> None then Some s else secure_beacons_send be is s)
      })"

definition unprovisioned_uri_send :: "beacon_env \<Rightarrow> string \<Rightarrow> beacon_state \<Rightarrow> (errno option \<times> beacon_state) option" where
  "unprovisioned_uri_send be uri s =
     (case be_uri_buf be of None \<Rightarrow> Some (Some ENOBUFS, s)
      | Some buf \<Rightarrow>
         if net_buf_simple_tailroom buf < length uri then Some (None, s)
         else do { buf \<leftarrow> net_buf_simple_add_mem (str_bytes uri) buf;
                   Some (None, bc_output (Uri_adv_send (nb_bytes buf)) s) })"

definition unprovisioned_beacon_send :: "beacon_env \<Rightarrow> beacon_state \<Rightarrow> (errno option \<times> beacon_state) option" where
  "unprovisioned_beacon_send be s =
     (case be_unprov_buf be of None \<Rightarrow> Some (Some ENOBUFS, s)
      | Some buf \<Rightarrow>
         (let prov = be_prov be;
              (uri_hash, oob_info) =
                (case pi_uri prov of None \<Rightarrow> (replicate 16 0, pi_oob_info prov)
                 | Some uri \<Rightarrow> (case bt_mesh_s1 uri of Inl _ \<Rightarrow> (replicate 16 0, pi_oob_info prov)
                                | Inr hash \<Rightarrow> (hash, pi_oob_info prov OR BT_MESH_PROV_OOB_URI)))
          in do {
            buf \<leftarrow> net_buf_simple_add_u8 BEACON_TYPE_UNPROVISIONED buf;
            buf \<leftarrow> net_buf_simple_add_mem (take 16 (pi_uuid prov)) buf;
            buf \<leftarrow> net_buf_simple_add_be16 oob_info buf;
            buf \<leftarrow> net_buf_simple_add_mem (take 4 uri_hash) buf;
            let s = bc_output (Unprov_adv_send (nb_bytes buf)) s;
            (case pi_uri prov of None \<Rightarrow> Some (None, s) | Some uri \<Rightarrow> unprovisioned_uri_send be uri s)
          }))"

definition sub_update_beacon_observation :: "nat \<Rightarrow> beacon_state \<Rightarrow> beacon_state" where
  "sub_update_beacon_observation i = bc_upd_sub i (\<lambda>sub. sub\<lparr>sn_beacons_last := sn_beacons_cur sub, sn_beacons_cur := 0\<rparr>)"

definition update_beacon_observation :: "beacon_state \<Rightarrow> beacon_state" where
  "update_beacon_observation s =
     (let s = s\<lparr>bc_first_half := \<not> bc_first_half s\<rparr> in
      if bc_first_half s then s else bc_foreach sub_update_beacon_observation s)"

text \<open>\<open>k_work_schedule\<close> leaves a timer that is running alone.\<close>

definition bc_schedule :: "nat \<Rightarrow> beacon_state \<Rightarrow> beacon_state" where
  "bc_schedule ms s = s\<lparr>bc_timer := (case bc_timer s of None \<Rightarrow> Some ms | Some t \<Rightarrow> Some t)\<rparr>"

text \<open>The handler of the timer.\<close>

definition beacon_send :: "beacon_cfg \<Rightarrow> beacon_env \<Rightarrow> beacon_state \<Rightarrow> beacon_state option" where
  "beacon_send bo be s =
     (let s = s\<lparr>bc_timer := None\<rparr> in
      if bm_valid (bc_mesh s)
      then (if \<not> bc_beacon s \<and> \<not> bm_ivu_initiator (bc_mesh s) then Some s
            else do {
              s \<leftarrow> secure_beacons_send be [0..<length (bc_subs s)] (update_beacon_observation s);
              Some (bc_schedule PROVISIONED_INTERVAL s)
            })
      else if bo_pb_adv bo
      then do {
        s \<leftarrow> (if be_prov_active be then Some s else map_option snd (unprovisioned_beacon_send be s));
        Some (bc_schedule (bo_unprov_int bo * 1000) s)
      }
      else Some s)"

section \<open>Updating\<close>

definition bt_mesh_beacon_update :: "nat \<Rightarrow> beacon_state \<Rightarrow> beacon_state" where
  "bt_mesh_beacon_update i s =
     (let sub = bc_subs s ! i; st = bc_mesh s;
          flags = bt_mesh_net_flags (Some sub) (bm_ivu_in_progress st);
          keys = sn_keys sub ! SUBNET_KEY_TX_IDX sub
      in case bt_mesh_beacon_auth (sk_beacon keys) flags (sk_net_id keys) (bm_iv_index st) of
           Inl _ \<Rightarrow> s
         | Inr auth \<Rightarrow> bc_upd_sub i (\<lambda>sub. sub\<lparr>sn_auth := auth\<rparr>) s)"

text \<open>The handler of subnet events of this file.\<close>

definition beacon_subnet_evt :: "nat \<Rightarrow> bt_mesh_key_evt \<Rightarrow> beacon_state \<Rightarrow> beacon_state" where
  "beacon_subnet_evt i evt s = (if evt \<noteq> BT_MESH_KEY_DELETED then bt_mesh_beacon_update i s else s)"

text \<open>The calls of the key tables and of the IV Update procedure that come here, in their order.\<close>

fun run_keys_calls :: "keys_call list \<Rightarrow> beacon_state \<Rightarrow> beacon_state" where
  "run_keys_calls [] s = s"
| "run_keys_calls (Subnet_evt i evt # cs) s = run_keys_calls cs (beacon_subnet_evt i evt s)"
| "run_keys_calls (Beacon_update i # cs) s = run_keys_calls cs (bt_mesh_beacon_update i s)"
| "run_keys_calls (_ # cs) s = run_keys_calls cs s"

fun run_net_calls :: "net_call list \<Rightarrow> beacon_state \<Rightarrow> beacon_state" where
  "run_net_calls [] s = s"
| "run_net_calls (Subnet_foreach_beacon_update # cs) s = run_net_calls cs (bc_foreach bt_mesh_beacon_update s)"
| "run_net_calls (Beacon_ivu_initiator enable # cs) s = run_net_calls cs (bc_schedule 0 s)"
| "run_net_calls (_ # cs) s = run_net_calls cs s"

definition beacon_kr_update :: "beacon_cfg \<Rightarrow> nat \<Rightarrow> bool \<Rightarrow> bool \<Rightarrow> beacon_state \<Rightarrow> beacon_state" where
  "beacon_kr_update bo i kr_flag new_key s =
     (let ks = bt_mesh_kr_update (bo_mesh bo) i kr_flag new_key (bc_keys s)
      in run_keys_calls (drop (length (ks_calls (bc_keys s))) (ks_calls ks)) (s\<lparr>bc_keys := ks\<rparr>))"

definition beacon_iv_update :: "beacon_cfg \<Rightarrow> beacon_env \<Rightarrow> u32 \<Rightarrow> bool \<Rightarrow> beacon_state \<Rightarrow> beacon_state" where
  "beacon_iv_update bo be iv_index iv_update s =
     (let st = snd (bt_mesh_net_iv_update (bo_mesh bo) (be_iv be) iv_index iv_update (bc_mesh s))
      in run_net_calls (drop (length (bm_calls (bc_mesh s))) (bm_calls st)) (bc_set_mesh st s))"

definition beacon_ivu_initiator :: "bool \<Rightarrow> beacon_state \<Rightarrow> beacon_state" where
  "beacon_ivu_initiator enable s = bc_schedule 0 (bc_set_mesh (bt_mesh_beacon_ivu_initiator enable (bc_mesh s)) s)"

definition subnet_beacon_enable :: "nat \<Rightarrow> beacon_state \<Rightarrow> beacon_state" where
  "subnet_beacon_enable i s =
     bt_mesh_beacon_update i (bc_upd_sub i (\<lambda>sub. sub\<lparr>sn_beacons_last := 0, sn_beacons_cur := 0\<rparr>) s)"

definition bt_mesh_beacon_enable :: "beacon_state \<Rightarrow> beacon_state" where
  "bt_mesh_beacon_enable s =
     (let s = (if bm_valid (bc_mesh s) then bc_foreach subnet_beacon_enable s else s) in s\<lparr>bc_timer := Some 0\<rparr>)"

definition bt_mesh_beacon_disable :: "beacon_state \<Rightarrow> beacon_state" where
  "bt_mesh_beacon_disable s = (if \<not> bm_ivu_initiator (bc_mesh s) then s\<lparr>bc_timer := None\<rparr> else s)"

section \<open>Receiving\<close>

definition unprovisioned_beacon_recv :: "beacon_cfg \<Rightarrow> beacon_env \<Rightarrow> net_buf_simple \<Rightarrow> beacon_state \<Rightarrow> beacon_state option" where
  "unprovisioned_beacon_recv bo be buf s =
     (if nb_len buf \<noteq> 18 \<and> nb_len buf \<noteq> 22 then Some s
      else do {
        (p, buf) \<leftarrow> net_buf_simple_pull_mem 16 buf;
        let uuid = nb_read p 16 buf;
        (oob_info, buf) \<leftarrow> net_buf_simple_pull_be16 (bo_big_endian bo) buf;
        uri_hash \<leftarrow> (if nb_len buf = 4 then map_option (\<lambda>(h, _). Some h) (net_buf_simple_pull_be32 (bo_big_endian bo) buf) else Some None);
        Some (if pi_unprovisioned_beacon (be_prov be) then bc_output (Unprovisioned_beacon uuid oob_info uri_hash) s else s)
      })"

record beacon_params =
  bp_net_id :: bytes
  bp_auth :: bytes
  bp_iv_index :: u32
  bp_flags :: u8

text \<open>The code does not look at the result of \<open>bt_mesh_beacon_auth\<close>, which never fails for a key of sixteen bytes.\<close>

definition auth_match :: "bt_mesh_subnet_keys \<Rightarrow> beacon_params \<Rightarrow> bool" where
  "auth_match keys params \<longleftrightarrow>
     take 8 (bp_net_id params) = take 8 (sk_net_id keys) \<and>
     bt_mesh_beacon_auth (sk_beacon keys) (bp_flags params) (sk_net_id keys) (bp_iv_index params) = Inr (take 8 (bp_auth params))"

text \<open>The result is \<open>params->new_key\<close>, if a key matches.\<close>

definition subnet_by_id :: "beacon_params \<Rightarrow> bt_mesh_subnet \<Rightarrow> bool option" where
  "subnet_by_id params sub =
     map_option (\<lambda>i. 0 < i) (find_index (\<lambda>k. sk_valid k \<and> auth_match k params) (sn_keys sub))"

definition beacon_update_stats :: "nat \<Rightarrow> beacon_state \<Rightarrow> beacon_state" where
  "beacon_update_stats i s =
     (if bc_beacon s \<and> sn_beacons_cur (bc_subs s ! i) < 0xff
      then bc_upd_sub i (\<lambda>sub. sub\<lparr>sn_beacons_cur := sn_beacons_cur sub + 1\<rparr>) s else s)"

text \<open>What follows once the subnet of a beacon is found.\<close>

definition secure_beacon_found :: "beacon_cfg \<Rightarrow> beacon_env \<Rightarrow> bytes \<Rightarrow> beacon_params \<Rightarrow> nat \<Rightarrow> bool \<Rightarrow> beacon_state \<Rightarrow> beacon_state" where
  "secure_beacon_found bo be dat params i new_key s =
     (if sn_kr_phase (bc_subs s ! i) = BT_MESH_KR_PHASE_2 \<and> \<not> new_key then s
      else
        (let s = beacon_kr_update bo i (BT_MESH_KEY_REFRESH (bp_flags params)) new_key (cache_add dat i s) in
         if bt_mesh_subnet_get BT_MESH_KEY_PRIMARY (bc_keys s) \<noteq> None \<and> sn_net_idx (bc_subs s ! i) \<noteq> BT_MESH_KEY_PRIMARY
         then beacon_update_stats i s
         else
           (let s = (if bm_ivu_initiator (bc_mesh s) \<and> bm_ivu_in_progress (bc_mesh s) = BT_MESH_IV_UPDATE (bp_flags params)
                     then beacon_ivu_initiator False s else s);
                s = beacon_iv_update bo be (bp_iv_index params) (BT_MESH_IV_UPDATE (bp_flags params)) s
            in beacon_update_stats i s)))"

definition secure_beacon_recv :: "beacon_cfg \<Rightarrow> beacon_env \<Rightarrow> net_buf_simple \<Rightarrow> beacon_state \<Rightarrow> beacon_state option" where
  "secure_beacon_recv bo be buf s =
     (if nb_len buf < 21 then Some s
      else
        (let dat = nb_bytes buf in
         case bt_mesh_subnet_find (Some (cache_check dat)) (bc_keys s) of
           Some i \<Rightarrow> Some (beacon_update_stats i s)
         | None \<Rightarrow>
             do {
               (flags, buf) \<leftarrow> net_buf_simple_pull_u8 buf;
               (p, buf) \<leftarrow> net_buf_simple_pull_mem 8 buf;
               let net_id = nb_read p 8 buf;
               (iv_index, buf) \<leftarrow> net_buf_simple_pull_be32 (bo_big_endian bo) buf;
               let params = \<lparr>bp_net_id = net_id, bp_auth = nb_bytes buf, bp_iv_index = iv_index, bp_flags = flags\<rparr>;
               Some (case bt_mesh_subnet_find (Some (\<lambda>sub. subnet_by_id params sub \<noteq> None)) (bc_keys s) of
                       None \<Rightarrow> s
                     | Some i \<Rightarrow> secure_beacon_found bo be dat params i (the (subnet_by_id params (bc_subs s ! i))) s)
             }))"

definition bt_mesh_beacon_recv :: "beacon_cfg \<Rightarrow> beacon_env \<Rightarrow> net_buf_simple \<Rightarrow> beacon_state \<Rightarrow> beacon_state option" where
  "bt_mesh_beacon_recv bo be buf s =
     (if nb_len buf < 1 then Some s
      else do {
        (type, buf) \<leftarrow> net_buf_simple_pull_u8 buf;
        (if type = BEACON_TYPE_UNPROVISIONED
         then (if bo_pb_adv bo then unprovisioned_beacon_recv bo be buf s else Some s)
         else if type = BEACON_TYPE_SECURE then secure_beacon_recv bo be buf s
         else Some s)
      })"

end
