(* ===== verification/Mesh_Px.thy ===== *)
theory Mesh_Px
  imports Mesh_Bc
begin

text \<open>
  The proxy protocol, \<open>core/src/mesh/proxy_msg.c\<close>: segmentation and reassembly of proxy PDUs over a
  GATT connection; and the GATT services of a mesh node, \<open>core/src/mesh/gatt_services.c\<close>: its
  clients, their address filters, what is relayed to them, and the advertising of the services.

  A client is an index into \<open>clients\<close>; a connection is a number.  The callback \<open>send\<close> of a role is
  \<open>proxy_send\<close>, and \<open>recv\<close> is \<open>proxy_filter_recv\<close>, the only ones in the program.
\<close>

section \<open>Data\<close>

record bt_mesh_proxy_role =
  pr_conn :: "nat option"
  pr_msg_type :: u8
  pr_sar_timer :: bool
  pr_buf :: net_buf_simple

datatype filter_type = NONE | ACCEPT | REJECT | PROV

record bt_mesh_proxy_client =
  pc_cli :: bt_mesh_proxy_role
  pc_filter :: "u16 list"
  pc_filter_type :: filter_type
  pc_send_beacons :: bool

datatype mesh_gatt = MESH_GATT_NONE | MESH_GATT_PROV | MESH_GATT_PROXY

datatype proxy_out =
    Gatt_notify nat bytes bool
  | Conn_disconnect nat
  | Pb_gatt_recv nat bytes
  | Pb_gatt_open nat
  | Pb_gatt_close nat
  | Identity_enabled u16
  | Identity_disabled u16
  | Proxy_adv_update
  | Proxy_adv_start bool int bytes
  | Prov_adv_start bool int bytes "string option"
  | Service_register mesh_gatt
  | Service_unregister mesh_gatt
  | Buf_ref
  | Buf_unref
  | Adv_send_start "errno option"

record proxy_state =
  px_bc :: beacon_state
  px_clients :: "bt_mesh_proxy_client list"
  px_gatt_svc :: mesh_gatt
  px_conn_count :: int
  px_beacon_sub :: "nat option"
  px_prov_fast_adv :: bool
  px_svc_data :: bytes
  px_out :: "proxy_out list"

record proxy_cfg =
  po_beacon :: beacon_cfg
  po_pb_gatt :: bool
  po_node_id_timeout :: nat

text \<open>
  \<open>pe_rx\<close> is what the uninitialised \<open>rx\<close> of \<open>proxy_cfg\<close> holds.  What a call answers that is made
  more than once depends on its place in the log.
\<close>

record proxy_env =
  pe_net :: net_env
  pe_beacon :: beacon_env
  pe_mtu :: "nat \<Rightarrow> u16"
  pe_notify :: "nat \<Rightarrow> errno option"
  pe_adv_start :: "nat \<Rightarrow> errno option"
  pe_rand :: "errno + bytes"
  pe_primary :: u16
  pe_rx :: bt_mesh_net_rx

abbreviation px_subs :: "proxy_state \<Rightarrow> bt_mesh_subnet list" where
  "px_subs s \<equiv> bc_subs (px_bc s)"

abbreviation px_mesh_cfg :: "proxy_cfg \<Rightarrow> mesh_cfg" where
  "px_mesh_cfg po \<equiv> bo_mesh (po_beacon po)"

definition px_output :: "proxy_out \<Rightarrow> proxy_state \<Rightarrow> proxy_state" where
  "px_output x s = s\<lparr>px_out := px_out s @ [x]\<rparr>"

definition px_upd_client :: "nat \<Rightarrow> (bt_mesh_proxy_client \<Rightarrow> bt_mesh_proxy_client) \<Rightarrow> proxy_state \<Rightarrow> proxy_state" where
  "px_upd_client c f s = s\<lparr>px_clients := (px_clients s)[c := f (px_clients s ! c)]\<rparr>"

definition px_set_role :: "nat \<Rightarrow> bt_mesh_proxy_role \<Rightarrow> proxy_state \<Rightarrow> proxy_state" where
  "px_set_role c role = px_upd_client c (\<lambda>cl. cl\<lparr>pc_cli := role\<rparr>)"

text \<open>The subnets in the environment of the network layer are those of the state.\<close>

definition px_net_env :: "proxy_env \<Rightarrow> proxy_state \<Rightarrow> net_env" where
  "px_net_env pe s = (pe_net pe)\<lparr>ne_subnets := px_subs s\<rparr>"

definition px_upd_sub :: "nat \<Rightarrow> (bt_mesh_subnet \<Rightarrow> bt_mesh_subnet) \<Rightarrow> proxy_state \<Rightarrow> proxy_state" where
  "px_upd_sub i f s = s\<lparr>px_bc := bc_upd_sub i f (px_bc s)\<rparr>"

section \<open>Segmentation and reassembly\<close>

definition SAR_COMPLETE :: u8 where [simp]: "SAR_COMPLETE = 0x00"
definition SAR_FIRST :: u8 where [simp]: "SAR_FIRST = 0x01"
definition SAR_CONT :: u8 where [simp]: "SAR_CONT = 0x02"
definition SAR_LAST :: u8 where [simp]: "SAR_LAST = 0x03"

definition BT_MESH_PROXY_NET_PDU :: u8 where [simp]: "BT_MESH_PROXY_NET_PDU = 0x00"
definition BT_MESH_PROXY_BEACON :: u8 where [simp]: "BT_MESH_PROXY_BEACON = 0x01"
definition BT_MESH_PROXY_CONFIG :: u8 where [simp]: "BT_MESH_PROXY_CONFIG = 0x02"
definition BT_MESH_PROXY_PROV :: u8 where [simp]: "BT_MESH_PROXY_PROV = 0x03"

definition PDU_SAR :: "bytes \<Rightarrow> u8" where "PDU_SAR dat = drop_bit 6 (dat ! 0)"
definition PDU_TYPE :: "bytes \<Rightarrow> u8" where "PDU_TYPE dat = dat ! 0 AND mask 6"

definition PDU_HDR :: "u8 \<Rightarrow> u8 \<Rightarrow> u8" where
  "PDU_HDR sar type = push_bit 6 sar OR (type AND mask 6)"

definition proxy_sar_timeout :: "nat \<Rightarrow> proxy_state \<Rightarrow> proxy_state" where
  "proxy_sar_timeout c s =
     (let role = pc_cli (px_clients s ! c); s = px_set_role c (role\<lparr>pr_sar_timer := False\<rparr>) s in
      case pr_conn role of None \<Rightarrow> s | Some conn \<Rightarrow> px_output (Conn_disconnect conn) s)"

text \<open>The callback \<open>send\<close>.\<close>

definition proxy_send :: "proxy_env \<Rightarrow> nat \<Rightarrow> bytes \<Rightarrow> bool \<Rightarrow> proxy_state \<Rightarrow> errno option \<times> proxy_state" where
  "proxy_send pe conn dat end_cb s =
     (if px_gatt_svc s = MESH_GATT_NONE then (Some ENOENT, s)
      else (pe_notify pe (length (px_out s)), px_output (Gatt_notify conn dat end_cb) s))"

text \<open>
  The loop of \<open>bt_mesh_proxy_msg_send\<close>, which need not end for a connection with no room for
  data; \<open>None\<close> is then its value, as for a failed assertion.
\<close>

partial_function (option) proxy_send_loop ::
  "proxy_env \<Rightarrow> nat \<Rightarrow> nat \<Rightarrow> u8 \<Rightarrow> bool \<Rightarrow> net_buf_simple \<Rightarrow> proxy_state \<Rightarrow> (errno option \<times> net_buf_simple \<times> proxy_state) option" where
  "proxy_send_loop pe conn mtu type end_cb msg s =
     (if nb_len msg = 0 then Some (None, msg, s)
      else if nb_len msg + 1 \<le> mtu
      then do {
        msg \<leftarrow> net_buf_simple_push_u8 (PDU_HDR SAR_LAST type) msg;
        let (err, s) = proxy_send pe conn (nb_bytes msg) end_cb s;
        Some (err, msg, s)
      }
      else do {
        msg \<leftarrow> net_buf_simple_push_u8 (PDU_HDR SAR_CONT type) msg;
        let (err, s) = proxy_send pe conn (take mtu (nb_bytes msg)) False s;
        (if err \<noteq> None then Some (err, msg, s)
         else do {
           (_, msg) \<leftarrow> net_buf_simple_pull mtu msg;
           proxy_send_loop pe conn mtu type end_cb msg s
         })
      })"

definition bt_mesh_proxy_msg_send ::
  "proxy_env \<Rightarrow> nat \<Rightarrow> u8 \<Rightarrow> net_buf_simple \<Rightarrow> bool \<Rightarrow> proxy_state \<Rightarrow> (errno option \<times> net_buf_simple \<times> proxy_state) option" where
  "bt_mesh_proxy_msg_send pe c type msg end_cb s =
     do {
       conn \<leftarrow> pr_conn (pc_cli (px_clients s ! c));
       let mtu = unat (pe_mtu pe conn - 3);
       (if nb_len msg < mtu
        then do {
          msg \<leftarrow> net_buf_simple_push_u8 (PDU_HDR SAR_COMPLETE type) msg;
          let (err, s) = proxy_send pe conn (nb_bytes msg) end_cb s;
          Some (err, msg, s)
        }
        else do {
          msg \<leftarrow> net_buf_simple_push_u8 (PDU_HDR SAR_FIRST type) msg;
          let (err, s) = proxy_send pe conn (take mtu (nb_bytes msg)) False s;
          (if err \<noteq> None then Some (err, msg, s)
           else do {
             (_, msg) \<leftarrow> net_buf_simple_pull mtu msg;
             proxy_send_loop pe conn mtu type end_cb msg s
           })
        })
     }"

text \<open>
  What \<open>bt_mesh_proxy_msg_recv\<close> does with a PDU before \<open>proxy_complete_pdu\<close>; the second result says
  whether that is called.
\<close>

definition proxy_sar_recv :: "bytes \<Rightarrow> bt_mesh_proxy_role \<Rightarrow> (errno option \<times> bool \<times> bt_mesh_proxy_role) option" where
  "proxy_sar_recv dat role =
     (if dat = [] then None
      else if PDU_SAR dat = SAR_COMPLETE
      then (if nb_len (pr_buf role) \<noteq> 0 then Some (Some EINVAL, False, role)
            else do { buf \<leftarrow> net_buf_simple_add_mem (tl dat) (pr_buf role);
                      Some (None, True, role\<lparr>pr_msg_type := PDU_TYPE dat, pr_buf := buf\<rparr>) })
      else if PDU_SAR dat = SAR_FIRST
      then (if nb_len (pr_buf role) \<noteq> 0 then Some (Some EINVAL, False, role)
            else do { buf \<leftarrow> net_buf_simple_add_mem (tl dat) (pr_buf role);
                      Some (None, False, role\<lparr>pr_sar_timer := True, pr_msg_type := PDU_TYPE dat, pr_buf := buf\<rparr>) })
      else if nb_len (pr_buf role) = 0 then Some (Some EINVAL, False, role)
      else if pr_msg_type role \<noteq> PDU_TYPE dat then Some (Some EINVAL, False, role)
      else if PDU_SAR dat = SAR_CONT
      then do { buf \<leftarrow> net_buf_simple_add_mem (tl dat) (pr_buf role);
                Some (None, False, role\<lparr>pr_sar_timer := True, pr_buf := buf\<rparr>) }
      else do { buf \<leftarrow> net_buf_simple_add_mem (tl dat) (pr_buf role);
                Some (None, True, role\<lparr>pr_sar_timer := False, pr_buf := buf\<rparr>) })"

section \<open>Address filters\<close>

definition find_client :: "nat option \<Rightarrow> proxy_state \<Rightarrow> nat option" where
  "find_client conn s = find_index (\<lambda>cl. pr_conn (pc_cli cl) = conn) (px_clients s)"

definition filter_set :: "bt_mesh_proxy_client \<Rightarrow> net_buf_simple \<Rightarrow> (errno option \<times> bt_mesh_proxy_client) option" where
  "filter_set cl buf =
     (if nb_len buf < 1 then Some (Some EINVAL, cl)
      else do {
        (type, buf) \<leftarrow> net_buf_simple_pull_u8 buf;
        Some (if type = 0x00 then (None, cl\<lparr>pc_filter := replicate (length (pc_filter cl)) 0, pc_filter_type := ACCEPT\<rparr>)
              else if type = 0x01 then (None, cl\<lparr>pc_filter := replicate (length (pc_filter cl)) 0, pc_filter_type := REJECT\<rparr>)
              else (Some EINVAL, cl))
      })"

definition filter_add :: "u16 \<Rightarrow> bt_mesh_proxy_client \<Rightarrow> bt_mesh_proxy_client" where
  "filter_add addr cl =
     (if addr = BT_MESH_ADDR_UNASSIGNED then cl
      else if addr \<in> set (pc_filter cl) then cl
      else case find_index (\<lambda>a. a = BT_MESH_ADDR_UNASSIGNED) (pc_filter cl) of
          None \<Rightarrow> cl
        | Some i \<Rightarrow> cl\<lparr>pc_filter := (pc_filter cl)[i := addr]\<rparr>)"

definition filter_remove :: "u16 \<Rightarrow> bt_mesh_proxy_client \<Rightarrow> bt_mesh_proxy_client" where
  "filter_remove addr cl =
     (if addr = BT_MESH_ADDR_UNASSIGNED then cl
      else case find_index (\<lambda>a. a = addr) (pc_filter cl) of
          None \<Rightarrow> cl
        | Some i \<Rightarrow> cl\<lparr>pc_filter := (pc_filter cl)[i := BT_MESH_ADDR_UNASSIGNED]\<rparr>)"

definition filter_size :: "bt_mesh_proxy_client \<Rightarrow> u16" where
  "filter_size cl = word_of_nat (length (filter (\<lambda>a. a \<noteq> BT_MESH_ADDR_UNASSIGNED) (pc_filter cl)))"

text \<open>The message of \<open>send_filter_status\<close> before it is encoded.\<close>

definition filter_status :: "bt_mesh_proxy_client \<Rightarrow> net_buf_simple \<Rightarrow> net_buf_simple option" where
  "filter_status cl buf =
     do {
       buf \<leftarrow> net_buf_simple_reserve 10 (net_buf_simple_reset buf);
       buf \<leftarrow> net_buf_simple_add_u8 0x03 buf;
       buf \<leftarrow> net_buf_simple_add_u8 (if pc_filter_type cl = ACCEPT then 0x00 else 0x01) buf;
       net_buf_simple_add_be16 (filter_size cl) buf
     }"

definition send_filter_status ::
  "proxy_cfg \<Rightarrow> proxy_env \<Rightarrow> nat \<Rightarrow> bt_mesh_net_rx \<Rightarrow> net_buf_simple \<Rightarrow> proxy_state \<Rightarrow> proxy_state option" where
  "send_filter_status po pe c rx buf s =
     (let tx = \<lparr>tx_sub = rx_sub rx, tx_ctx = (rx_ctx rx)\<lparr>ctx_addr := BT_MESH_ADDR_UNASSIGNED\<rparr>, tx_src = pe_primary pe, tx_xmit = 0,
            tx_friend_cred = False, tx_aszmic = False, tx_aid = 0\<rparr>
      in do {
        buf \<leftarrow> filter_status (px_clients s ! c) buf;
        (err, buf, st) \<leftarrow> bt_mesh_net_encode (px_mesh_cfg po) (px_net_env pe s) tx buf True (bc_mesh (px_bc s));
        let s = s\<lparr>px_bc := bc_set_mesh st (px_bc s)\<rparr>;
        (if err \<noteq> None then Some s
         else map_option (\<lambda>(_, _, s). s) (bt_mesh_proxy_msg_send pe c BT_MESH_PROXY_CONFIG buf False s))
      })"

lemma pull_be16_len: "net_buf_simple_pull_be16 big buf = Some (a, buf') \<Longrightarrow> nb_len buf' = nb_len buf - 2"
  by (auto simp: net_buf_simple_pull_be16_def net_buf_simple_pull_def split: if_splits)

function filter_loop ::
  "bool \<Rightarrow> (u16 \<Rightarrow> bt_mesh_proxy_client \<Rightarrow> bt_mesh_proxy_client) \<Rightarrow> net_buf_simple \<Rightarrow> bt_mesh_proxy_client \<Rightarrow>
   (net_buf_simple \<times> bt_mesh_proxy_client) option" where
  "filter_loop big f buf cl =
     (if nb_len buf < 2 then Some (buf, cl)
      else case net_buf_simple_pull_be16 big buf of None \<Rightarrow> None
        | Some (addr, buf) \<Rightarrow> filter_loop big f buf (f addr cl))"
  by pat_completeness auto
termination
  by (relation "measure (\<lambda>(_, _, buf, _). nb_len buf)") (auto dest: pull_be16_len)

declare filter_loop.simps [simp del]

text \<open>The callback \<open>recv\<close>.\<close>

definition proxy_filter_recv ::
  "proxy_cfg \<Rightarrow> proxy_env \<Rightarrow> nat option \<Rightarrow> bt_mesh_net_rx \<Rightarrow> net_buf_simple \<Rightarrow> proxy_state \<Rightarrow> proxy_state option" where
  "proxy_filter_recv po pe conn rx buf s =
     (case find_client conn s of None \<Rightarrow> Some s
      | Some c \<Rightarrow>
         do {
           (opcode, buf) \<leftarrow> net_buf_simple_pull_u8 buf;
           (if opcode = 0x00
            then do {
              (_, cl) \<leftarrow> filter_set (px_clients s ! c) buf;
              send_filter_status po pe c rx buf (px_upd_client c (\<lambda>_. cl) s)
            }
            else if opcode = 0x01
            then do {
              (buf, cl) \<leftarrow> filter_loop (bo_big_endian (po_beacon po)) filter_add buf (px_clients s ! c);
              send_filter_status po pe c rx buf (px_upd_client c (\<lambda>_. cl) s)
            }
            else if opcode = 0x02
            then do {
              (buf, cl) \<leftarrow> filter_loop (bo_big_endian (po_beacon po)) filter_remove buf (px_clients s ! c);
              send_filter_status po pe c rx buf (px_upd_client c (\<lambda>_. cl) s)
            }
            else Some s)
         })"

definition bt_mesh_proxy_addr_add :: "nat \<Rightarrow> u16 \<Rightarrow> proxy_state \<Rightarrow> proxy_state" where
  "bt_mesh_proxy_addr_add c addr =
     px_upd_client c (\<lambda>cl. if pc_filter_type cl = ACCEPT then filter_add addr cl
                           else if pc_filter_type cl = REJECT then filter_remove addr cl else cl)"

definition client_filter_match :: "bt_mesh_proxy_client \<Rightarrow> u16 \<Rightarrow> bool" where
  "client_filter_match cl addr =
     (if pc_filter_type cl = REJECT then addr \<notin> set (pc_filter cl)
      else if addr = BT_MESH_ADDR_ALL_NODES then True
      else if pc_filter_type cl = ACCEPT then addr \<in> set (pc_filter cl)
      else False)"

section \<open>Receiving\<close>

definition proxy_cfg_recv :: "proxy_cfg \<Rightarrow> proxy_env \<Rightarrow> nat \<Rightarrow> proxy_state \<Rightarrow> proxy_state option" where
  "proxy_cfg_recv po pe c s =
     (let role = pc_cli (px_clients s ! c) in
      do {
        (err, rx, buf, nl) \<leftarrow> bt_mesh_net_decode (px_net_env pe s) (pr_buf role) BT_MESH_NET_IF_PROXY_CFG (pe_rx pe) net_rx_buf (bc_net (px_bc s));
        let s = s\<lparr>px_bc := (px_bc s)\<lparr>bc_net := nl\<rparr>\<rparr>;
        (if err \<noteq> None then Some s
         else
           (let rx = rx\<lparr>rx_local_match := True\<rparr>;
                (replay, _, rpl) = bt_mesh_rpl_check (cfg_settings (px_mesh_cfg po)) (cfg_rpl_timeout (px_mesh_cfg po)) rx False (bm_rpl (bc_mesh (px_bc s)));
                s = s\<lparr>px_bc := bc_set_mesh ((bc_mesh (px_bc s))\<lparr>bm_rpl := rpl\<rparr>) (px_bc s)\<rparr>
            in if replay then Some s
               else do {
                 (_, buf) \<leftarrow> net_buf_simple_pull BT_MESH_NET_HDR_LEN buf;
                 (if nb_len buf < 1 then Some s else proxy_filter_recv po pe (pr_conn role) rx buf s)
               }))
      })"

text \<open>The addresses that \<open>bt_mesh_net_recv\<close> reports with the buffer of the role.\<close>

fun run_addr_adds :: "nat \<Rightarrow> net_out list \<Rightarrow> proxy_state \<Rightarrow> proxy_state" where
  "run_addr_adds c [] s = s"
| "run_addr_adds c (Proxy_addr_add addr # xs) s = run_addr_adds c xs (bt_mesh_proxy_addr_add c addr s)"
| "run_addr_adds c (_ # xs) s = run_addr_adds c xs s"

definition proxy_complete_pdu :: "proxy_cfg \<Rightarrow> proxy_env \<Rightarrow> nat \<Rightarrow> proxy_state \<Rightarrow> proxy_state option" where
  "proxy_complete_pdu po pe c s =
     (let role = pc_cli (px_clients s ! c); type = pr_msg_type role; proxy = cfg_gatt_proxy (px_mesh_cfg po) in
      do {
        s \<leftarrow>
          (if proxy \<and> type = BT_MESH_PROXY_NET_PDU
           then do { nl \<leftarrow> bt_mesh_net_recv (px_mesh_cfg po) (px_net_env pe s) (pr_buf role) 0 BT_MESH_NET_IF_PROXY (bc_net (px_bc s));
                     Some (run_addr_adds c (drop (length (nl_out (bc_net (px_bc s)))) (nl_out nl)) (s\<lparr>px_bc := (px_bc s)\<lparr>bc_net := nl\<rparr>\<rparr>)) }
           else if proxy \<and> type = BT_MESH_PROXY_BEACON
           then do { bc \<leftarrow> bt_mesh_beacon_recv (po_beacon po) (pe_beacon pe) (pr_buf role) (px_bc s); Some (s\<lparr>px_bc := bc\<rparr>) }
           else if proxy \<and> type = BT_MESH_PROXY_CONFIG then proxy_cfg_recv po pe c s
           else if po_pb_gatt po \<and> type = BT_MESH_PROXY_PROV
           then (case pr_conn role of None \<Rightarrow> None | Some conn \<Rightarrow> Some (px_output (Pb_gatt_recv conn (nb_bytes (pr_buf role))) s))
           else Some s);
        Some (px_upd_client c (\<lambda>cl. cl\<lparr>pc_cli := (pc_cli cl)\<lparr>pr_buf := net_buf_simple_reset (pr_buf (pc_cli cl))\<rparr>\<rparr>) s)
      })"

definition bt_mesh_proxy_msg_recv ::
  "proxy_cfg \<Rightarrow> proxy_env \<Rightarrow> nat \<Rightarrow> bytes \<Rightarrow> proxy_state \<Rightarrow> ((errno + nat) \<times> proxy_state) option" where
  "bt_mesh_proxy_msg_recv po pe c dat s =
     do {
       (err, complete, role) \<leftarrow> proxy_sar_recv dat (pc_cli (px_clients s ! c));
       (case err of Some e \<Rightarrow> Some (Inl e, s)
        | None \<Rightarrow>
           do {
             s \<leftarrow> (if complete then proxy_complete_pdu po pe c (px_set_role c role s) else Some (px_set_role c role s));
             Some (Inr (length dat), s)
           })
     }"

text \<open>The handler of writes to the data characteristic; \<open>is_prov\<close> says of which service.\<close>

definition gatt_recv :: "proxy_cfg \<Rightarrow> proxy_env \<Rightarrow> nat \<Rightarrow> bool \<Rightarrow> bytes \<Rightarrow> proxy_state \<Rightarrow> ((errno + nat) \<times> proxy_state) option" where
  "gatt_recv po pe conn is_prov dat s =
     (case find_client (Some conn) s of None \<Rightarrow> Some (Inl ENOTCONN, s)
      | Some c \<Rightarrow>
         if length dat < 1 then Some (Inl EINVAL, s)
         else if is_prov \<noteq> (PDU_TYPE dat = BT_MESH_PROXY_PROV) then Some (Inl EINVAL, s)
         else bt_mesh_proxy_msg_recv po pe c dat s)"

end
