(* ===== verification/Mesh_Px_Gatt.thy ===== *)
theory Mesh_Px_Gatt
  imports Mesh_Px
begin

text \<open>
  The rest of \<open>core/src/mesh/gatt_services.c\<close>: beacons and relayed PDUs for the connected clients,
  the node identity, the advertising of the proxy and provisioning services, connections and the
  registration of the services.
\<close>

section \<open>Sending to clients\<close>

definition gatt_beacon_send :: "proxy_env \<Rightarrow> nat \<Rightarrow> nat \<Rightarrow> proxy_state \<Rightarrow> (errno option \<times> proxy_state) option" where
  "gatt_beacon_send pe c i s =
     do {
       buf \<leftarrow> net_buf_simple_reserve 1 \<lparr>nb_data = 0, nb_len = 0, nb_size = 23, nb_buf = replicate 23 0\<rparr>;
       buf \<leftarrow> bt_mesh_beacon_create (px_subs s ! i) (bc_mesh (px_bc s)) buf;
       (err, _, s) \<leftarrow> bt_mesh_proxy_msg_send pe c BT_MESH_PROXY_BEACON buf False s;
       Some (err, s)
     }"

text \<open>\<open>bt_mesh_subnet_find\<close> with \<open>send_beacon_cb\<close>, which stops at an error; and the work item that runs it.\<close>

fun send_beacons :: "proxy_env \<Rightarrow> nat \<Rightarrow> nat list \<Rightarrow> proxy_state \<Rightarrow> proxy_state option" where
  "send_beacons pe c [] s = Some s"
| "send_beacons pe c (i # is) s =
     (if sn_net_idx (px_subs s ! i) = BT_MESH_KEY_UNUSED then send_beacons pe c is s
      else do {
        (err, s) \<leftarrow> gatt_beacon_send pe c i s;
        (if err \<noteq> None then Some s else send_beacons pe c is s)
      })"

definition proxy_send_beacons :: "proxy_env \<Rightarrow> nat \<Rightarrow> proxy_state \<Rightarrow> proxy_state option" where
  "proxy_send_beacons pe c s =
     send_beacons pe c [0..<length (px_subs s)] (px_upd_client c (\<lambda>cl. cl\<lparr>pc_send_beacons := False\<rparr>) s)"

fun beacon_to_clients :: "proxy_env \<Rightarrow> nat \<Rightarrow> nat list \<Rightarrow> proxy_state \<Rightarrow> proxy_state option" where
  "beacon_to_clients pe i [] s = Some s"
| "beacon_to_clients pe i (c # cs) s =
     (if pr_conn (pc_cli (px_clients s ! c)) = None then beacon_to_clients pe i cs s
      else do { (_, s) \<leftarrow> gatt_beacon_send pe c i s; beacon_to_clients pe i cs s })"

fun beacons_to_clients :: "proxy_env \<Rightarrow> nat list \<Rightarrow> proxy_state \<Rightarrow> proxy_state option" where
  "beacons_to_clients pe [] s = Some s"
| "beacons_to_clients pe (i # is) s =
     (if sn_net_idx (px_subs s ! i) = BT_MESH_KEY_UNUSED then beacons_to_clients pe is s
      else do { s \<leftarrow> beacon_to_clients pe i [0..<length (px_clients s)] s; beacons_to_clients pe is s })"

definition bt_mesh_proxy_beacon_send :: "proxy_env \<Rightarrow> nat option \<Rightarrow> proxy_state \<Rightarrow> proxy_state option" where
  "bt_mesh_proxy_beacon_send pe sub s =
     (case sub of None \<Rightarrow> beacons_to_clients pe [0..<length (px_subs s)] s
      | Some i \<Rightarrow> beacon_to_clients pe i [0..<length (px_clients s)] s)"

definition gatt_subnet_evt :: "proxy_env \<Rightarrow> nat \<Rightarrow> bt_mesh_key_evt \<Rightarrow> proxy_state \<Rightarrow> proxy_state option" where
  "gatt_subnet_evt pe i evt s =
     (if evt = BT_MESH_KEY_DELETED
      then Some (if px_beacon_sub s = Some i then s\<lparr>px_beacon_sub := None\<rparr> else s)
      else bt_mesh_proxy_beacon_send pe (Some i) s)"

text \<open>One client's turn in \<open>bt_mesh_proxy_relay\<close>; the result says whether the PDU went out.\<close>

definition relay_to_client :: "proxy_env \<Rightarrow> bytes \<Rightarrow> u16 \<Rightarrow> nat \<Rightarrow> proxy_state \<Rightarrow> (bool \<times> proxy_state) option" where
  "relay_to_client pe pdu dst c s =
     (let cl = px_clients s ! c in
      if pr_conn (pc_cli cl) = None then Some (False, s)
      else if \<not> client_filter_match cl dst then Some (False, s)
      else if pc_filter_type cl = PROV then Some (False, s)
      else do {
        msg \<leftarrow> net_buf_simple_reserve 1 \<lparr>nb_data = 0, nb_len = 0, nb_size = 32, nb_buf = replicate 32 0\<rparr>;
        msg \<leftarrow> net_buf_simple_add_mem pdu msg;
        (err, _, s) \<leftarrow> bt_mesh_proxy_msg_send pe c BT_MESH_PROXY_NET_PDU msg True (px_output Buf_ref s);
        let s = px_output (Adv_send_start err) s;
        Some (if err \<noteq> None then (False, px_output Buf_unref s) else (True, s))
      })"

fun proxy_relay_loop :: "proxy_env \<Rightarrow> bytes \<Rightarrow> u16 \<Rightarrow> nat list \<Rightarrow> bool \<Rightarrow> proxy_state \<Rightarrow> (bool \<times> proxy_state) option" where
  "proxy_relay_loop pe pdu dst [] relayed s = Some (relayed, s)"
| "proxy_relay_loop pe pdu dst (c # cs) relayed s =
     do { (sent, s) \<leftarrow> relay_to_client pe pdu dst c s; proxy_relay_loop pe pdu dst cs (relayed \<or> sent) s }"

definition bt_mesh_proxy_relay :: "proxy_env \<Rightarrow> bytes \<Rightarrow> u16 \<Rightarrow> proxy_state \<Rightarrow> (bool \<times> proxy_state) option" where
  "bt_mesh_proxy_relay pe pdu dst s = proxy_relay_loop pe pdu dst [0..<length (px_clients s)] False s"

definition buf_send_end :: "proxy_state \<Rightarrow> proxy_state" where
  "buf_send_end = px_output Buf_unref"

section \<open>Node identity\<close>

definition node_id_start :: "proxy_env \<Rightarrow> nat \<Rightarrow> proxy_state \<Rightarrow> proxy_state" where
  "node_id_start pe i s =
     px_output (Identity_enabled (sn_net_idx (px_subs s ! i)))
       (px_upd_sub i (\<lambda>sub. sub\<lparr>sn_node_id := BT_MESH_FEATURE_ENABLED, sn_node_id_start := be_now (pe_beacon pe)\<rparr>) s)"

definition bt_mesh_proxy_identity_start :: "proxy_env \<Rightarrow> nat \<Rightarrow> proxy_state \<Rightarrow> proxy_state" where
  "bt_mesh_proxy_identity_start pe i s = (node_id_start pe i s)\<lparr>px_beacon_sub := Some i\<rparr>"

definition bt_mesh_proxy_identity_stop :: "nat \<Rightarrow> proxy_state \<Rightarrow> proxy_state" where
  "bt_mesh_proxy_identity_stop i s =
     px_output (Identity_disabled (sn_net_idx (px_subs s ! i)))
       (px_upd_sub i (\<lambda>sub. sub\<lparr>sn_node_id := BT_MESH_FEATURE_DISABLED, sn_node_id_start := 0\<rparr>) s)"

definition bt_mesh_proxy_identity_enable :: "proxy_env \<Rightarrow> proxy_state \<Rightarrow> errno option \<times> proxy_state" where
  "bt_mesh_proxy_identity_enable pe s =
     (if \<not> bm_valid (bc_mesh (px_bc s)) then (Some EAGAIN, s)
      else
        (let (count, s) = fold (\<lambda>i (count, s). if sn_net_idx (px_subs s ! i) = BT_MESH_KEY_UNUSED then (count, s)
                                  else (count + 1, node_id_start pe i s)) [0..<length (px_subs s)] (0 :: nat, s)
         in (None, if 0 < count then px_output Proxy_adv_update s else s)))"

section \<open>Advertising\<close>

definition ID_TYPE_NET :: u8 where "ID_TYPE_NET = 0x00"
definition ID_TYPE_NODE :: u8 where "ID_TYPE_NODE = 0x01"
definition NODE_ID_LEN :: nat where "NODE_ID_LEN = 19"
definition NET_ID_LEN :: nat where "NET_ID_LEN = 11"

definition NODE_ID_TIMEOUT :: "proxy_cfg \<Rightarrow> nat" where
  "NODE_ID_TIMEOUT po = po_node_id_timeout po * 1000"

definition SYS_FOREVER_MS :: int where "SYS_FOREVER_MS = -1"

definition proxy_adv :: "proxy_env \<Rightarrow> bool \<Rightarrow> int \<Rightarrow> nat \<Rightarrow> proxy_state \<Rightarrow> errno option \<times> proxy_state" where
  "proxy_adv pe fast duration len s =
     (pe_adv_start pe (length (px_out s)), px_output (Proxy_adv_start fast duration (take len (px_svc_data s))) s)"

definition node_id_adv :: "proxy_env \<Rightarrow> nat \<Rightarrow> int \<Rightarrow> proxy_state \<Rightarrow> errno option \<times> proxy_state" where
  "node_id_adv pe i duration s =
     (let s = s\<lparr>px_svc_data := (px_svc_data s)[2 := ID_TYPE_NODE]\<rparr>; sub = px_subs s ! i in
      case pe_rand pe of Inl e \<Rightarrow> (Some e, s)
      | Inr rnd \<Rightarrow>
         (let s = s\<lparr>px_svc_data := mem_write 11 (take 8 rnd) (px_svc_data s)\<rparr>;
              tmp = replicate 6 0 @ take 8 (drop 11 (px_svc_data s)) @ sys_put_be16 (pe_primary pe)
          in case bt_encrypt_be (sk_identity (sn_keys sub ! SUBNET_KEY_TX_IDX sub)) tmp of Inl e \<Rightarrow> (Some e, s)
             | Inr tmp \<Rightarrow> proxy_adv pe True duration NODE_ID_LEN (s\<lparr>px_svc_data := mem_write 3 (take 8 (drop 8 tmp)) (px_svc_data s)\<rparr>)))"

definition net_id_adv :: "proxy_env \<Rightarrow> nat \<Rightarrow> int \<Rightarrow> proxy_state \<Rightarrow> errno option \<times> proxy_state" where
  "net_id_adv pe i duration s =
     (let s = s\<lparr>px_svc_data := (px_svc_data s)[2 := ID_TYPE_NET]\<rparr>; sub = px_subs s ! i
      in proxy_adv pe False duration NET_ID_LEN
           (s\<lparr>px_svc_data := mem_write 3 (take 8 (sk_net_id (sn_keys sub ! SUBNET_KEY_TX_IDX sub))) (px_svc_data s)\<rparr>))"

definition advertise_subnet :: "proxy_env \<Rightarrow> bt_mesh_subnet \<Rightarrow> bool" where
  "advertise_subnet pe sub \<longleftrightarrow>
     sn_net_idx sub \<noteq> BT_MESH_KEY_UNUSED \<and>
     (sn_node_id sub = BT_MESH_FEATURE_ENABLED \<or> ne_gatt_proxy (pe_net pe) = BT_MESH_FEATURE_ENABLED)"

text \<open>The loop of \<open>next_sub\<close>, from \<open>sub\<close> until it is back at \<open>start\<close>; the result is the subnet it returns.\<close>

partial_function (option) next_sub_loop :: "proxy_env \<Rightarrow> keys_state \<Rightarrow> nat \<Rightarrow> nat \<Rightarrow> nat option option" where
  "next_sub_loop pe ks start sub =
     (if advertise_subnet pe (ks_subnets ks ! sub) then Some (Some sub)
      else case bt_mesh_subnet_next (Some sub) ks of None \<Rightarrow> None
        | Some sub \<Rightarrow> if sub = start then Some None else next_sub_loop pe ks start sub)"

definition next_sub :: "proxy_env \<Rightarrow> proxy_state \<Rightarrow> (nat option \<times> proxy_state) option" where
  "next_sub pe s =
     (let ks = bc_keys (px_bc s); s = (if px_beacon_sub s = None then s\<lparr>px_beacon_sub := bt_mesh_subnet_next None ks\<rparr> else s) in
      case px_beacon_sub s of None \<Rightarrow> Some (None, s)
      | Some start \<Rightarrow>
         do {
           r \<leftarrow> next_sub_loop pe ks start start;
           Some (case r of None \<Rightarrow> (None, s) | Some sub \<Rightarrow> (Some sub, s\<lparr>px_beacon_sub := Some sub\<rparr>))
         })"

definition sub_count :: "proxy_env \<Rightarrow> proxy_state \<Rightarrow> nat" where
  "sub_count pe s = length (filter (advertise_subnet pe) (px_subs s))"

definition gatt_proxy_advertise :: "proxy_cfg \<Rightarrow> proxy_env \<Rightarrow> nat option \<Rightarrow> proxy_state \<Rightarrow> errno option \<times> proxy_state" where
  "gatt_proxy_advertise po pe sub s =
     (if px_conn_count s = int (length (px_clients s)) then (Some ENOMEM, s)
      else
        case (case px_beacon_sub s of Some b \<Rightarrow> Some b | None \<Rightarrow> bt_mesh_subnet_next (px_beacon_sub s) (bc_keys (px_bc s))) of
          None \<Rightarrow> (Some ENOENT, s)
        | Some i \<Rightarrow>
            (let count = sub_count pe s;
                 max_timeout = max (NODE_ID_TIMEOUT po div max count 6) 1000;
                 remaining = (if 1 < count then int max_timeout else SYS_FOREVER_MS);
                 sub = px_subs s ! i;
                 active = unat (be_now (pe_beacon pe) - sn_node_id_start sub);
                 running = (sn_node_id sub = BT_MESH_FEATURE_ENABLED);
                 remaining = (if running \<and> active < NODE_ID_TIMEOUT po then int (NODE_ID_TIMEOUT po - active) else remaining);
                 (err, s) = (if running
                   then (if active < NODE_ID_TIMEOUT po then node_id_adv pe i remaining s else (Some EBUSY, bt_mesh_proxy_identity_stop i s))
                   else (Some EBUSY, s));
                 (err, s) = (if sn_node_id (px_subs s ! i) = BT_MESH_FEATURE_DISABLED then net_id_adv pe i remaining s else (err, s))
             in (err, s\<lparr>px_beacon_sub := bt_mesh_subnet_next (px_beacon_sub s) (bc_keys (px_bc s))\<rparr>)))"

text \<open>The provisioning service data and the scan response.\<close>

definition gatt_prov_adv_create :: "prov_info \<Rightarrow> bytes \<times> string option" where
  "gatt_prov_adv_create prov =
     ([0x27, 0x18] @ take 16 (pi_uuid prov) @ sys_put_be16 (pi_oob_info prov),
      case pi_uri prov of None \<Rightarrow> None | Some uri \<Rightarrow> if 29 < length uri then None else Some uri)"

definition bt_mesh_proxy_adv_start :: "proxy_cfg \<Rightarrow> proxy_env \<Rightarrow> proxy_state \<Rightarrow> (errno option \<times> proxy_state) option" where
  "bt_mesh_proxy_adv_start po pe s =
     (if px_gatt_svc s = MESH_GATT_NONE then Some (Some ENOENT, s)
      else if po_pb_gatt po \<and> \<not> bm_valid (bc_mesh (px_bc s))
      then
        (let (svc, sd) = gatt_prov_adv_create (be_prov (pe_beacon pe)); err = pe_adv_start pe (length (px_out s)) in
         if \<not> px_prov_fast_adv s then Some (err, px_output (Prov_adv_start False SYS_FOREVER_MS svc sd) s)
         else
           (let s = px_output (Prov_adv_start True (60 * 1000) svc sd) s
            in Some (err, if err = None then s\<lparr>px_prov_fast_adv := False\<rparr> else s)))
      else if cfg_gatt_proxy (px_mesh_cfg po) \<and> bm_valid (bc_mesh (px_bc s))
      then do { (sub, s) \<leftarrow> next_sub pe s; Some (gatt_proxy_advertise po pe sub s) }
      else Some (Some ENOTSUP, s))"

section \<open>Connections\<close>

definition BT_GATT_ERR_VALUE_NOT_ALLOWED :: int where "BT_GATT_ERR_VALUE_NOT_ALLOWED = -0x13"
definition BT_GATT_CCC_NOTIFY :: u16 where "BT_GATT_CCC_NOTIFY = 0x0001"

definition proxy_ccc_write :: "nat \<Rightarrow> u16 \<Rightarrow> proxy_state \<Rightarrow> (int \<times> proxy_state) option" where
  "proxy_ccc_write conn value s =
     (if value \<noteq> BT_GATT_CCC_NOTIFY then Some (BT_GATT_ERR_VALUE_NOT_ALLOWED, s)
      else do {
        c \<leftarrow> find_client (Some conn) s;
        Some (2, if pc_filter_type (px_clients s ! c) = NONE
                 then px_upd_client c (\<lambda>cl. cl\<lparr>pc_filter_type := ACCEPT, pc_send_beacons := True\<rparr>) s else s)
      })"

definition prov_ccc_write :: "nat \<Rightarrow> u16 \<Rightarrow> proxy_state \<Rightarrow> (int \<times> proxy_state) option" where
  "prov_ccc_write conn value s =
     (if value \<noteq> BT_GATT_CCC_NOTIFY then Some (BT_GATT_ERR_VALUE_NOT_ALLOWED, s)
      else do {
        c \<leftarrow> find_client (Some conn) s;
        Some (2, if pc_filter_type (px_clients s ! c) = NONE
                 then px_output (Pb_gatt_open conn) (px_upd_client c (\<lambda>cl. cl\<lparr>pc_filter_type := PROV\<rparr>) s) else s)
      })"

text \<open>The two connection callbacks, for a connection in which the node is the peripheral or not.\<close>

definition gatt_connected :: "nat \<Rightarrow> bool \<Rightarrow> proxy_state \<Rightarrow> proxy_state" where
  "gatt_connected conn peripheral s =
     (if \<not> peripheral then s
      else
        (let s = s\<lparr>px_conn_count := px_conn_count s + 1\<rparr>;
             s = (if px_conn_count s < int (length (px_clients s)) then px_output Proxy_adv_update s else s)
         in case find_client None s of None \<Rightarrow> s
            | Some c \<Rightarrow> px_upd_client c (\<lambda>cl. cl\<lparr>pc_cli := (pc_cli cl)\<lparr>pr_conn := Some conn, pr_buf := net_buf_simple_reset (pr_buf (pc_cli cl))\<rparr>,
                pc_filter_type := NONE, pc_filter := replicate (length (pc_filter cl)) 0\<rparr>) s))"

definition gatt_disconnected :: "proxy_cfg \<Rightarrow> nat \<Rightarrow> bool \<Rightarrow> proxy_state \<Rightarrow> proxy_state" where
  "gatt_disconnected po conn peripheral s =
     (if \<not> peripheral then s
      else
        (let s = s\<lparr>px_conn_count := px_conn_count s - 1\<rparr>;
             s = (case find_client (Some conn) s of None \<Rightarrow> s
                  | Some c \<Rightarrow>
                     (let s = (if po_pb_gatt po \<and> pc_filter_type (px_clients s ! c) = PROV then px_output (Pb_gatt_close conn) s else s)
                      in px_upd_client c (\<lambda>cl. cl\<lparr>pc_cli := (pc_cli cl)\<lparr>pr_sar_timer := False, pr_conn := None\<rparr>\<rparr>) s))
         in px_output Proxy_adv_update s))"

definition bt_mesh_proxy_get_buf :: "proxy_state \<Rightarrow> proxy_state" where
  "bt_mesh_proxy_get_buf =
     px_upd_client 0 (\<lambda>cl. cl\<lparr>pc_cli := (pc_cli cl)\<lparr>pr_buf := net_buf_simple_reset (pr_buf (pc_cli cl))\<rparr>\<rparr>)"

section \<open>Services\<close>

definition set_connected_type :: "filter_type \<Rightarrow> proxy_state \<Rightarrow> proxy_state" where
  "set_connected_type t s =
     s\<lparr>px_clients := map (\<lambda>cl. if pr_conn (pc_cli cl) \<noteq> None then cl\<lparr>pc_filter_type := t\<rparr> else cl) (px_clients s)\<rparr>"

definition bt_mesh_proxy_gatt_enable :: "proxy_state \<Rightarrow> errno option \<times> proxy_state" where
  "bt_mesh_proxy_gatt_enable s =
     (if px_gatt_svc s = MESH_GATT_PROXY then (Some EALREADY, s)
      else if px_gatt_svc s \<noteq> MESH_GATT_NONE then (Some EBUSY, s)
      else (None, set_connected_type ACCEPT ((px_output (Service_register MESH_GATT_PROXY) s)\<lparr>px_gatt_svc := MESH_GATT_PROXY\<rparr>)))"

definition bt_mesh_proxy_gatt_disconnect :: "proxy_state \<Rightarrow> proxy_state" where
  "bt_mesh_proxy_gatt_disconnect s =
     fold (\<lambda>c s. let cl = px_clients s ! c in
             case pr_conn (pc_cli cl) of None \<Rightarrow> s
             | Some conn \<Rightarrow> if pc_filter_type cl = ACCEPT \<or> pc_filter_type cl = REJECT
                 then px_output (Conn_disconnect conn) (px_upd_client c (\<lambda>cl. cl\<lparr>pc_filter_type := NONE\<rparr>) s) else s)
       [0..<length (px_clients s)] s"

definition bt_mesh_proxy_gatt_disable :: "proxy_state \<Rightarrow> errno option \<times> proxy_state" where
  "bt_mesh_proxy_gatt_disable s =
     (if px_gatt_svc s = MESH_GATT_NONE then (Some EALREADY, s)
      else if px_gatt_svc s \<noteq> MESH_GATT_PROXY then (Some EBUSY, s)
      else (None, (px_output (Service_unregister MESH_GATT_PROXY) (bt_mesh_proxy_gatt_disconnect s))\<lparr>px_gatt_svc := MESH_GATT_NONE\<rparr>))"

definition bt_mesh_proxy_prov_enable :: "proxy_state \<Rightarrow> errno option \<times> proxy_state" where
  "bt_mesh_proxy_prov_enable s =
     (if px_gatt_svc s = MESH_GATT_PROV then (Some EALREADY, s)
      else if px_gatt_svc s \<noteq> MESH_GATT_NONE then (Some EBUSY, s)
      else (None, set_connected_type PROV
              ((px_output (Service_register MESH_GATT_PROV) s)\<lparr>px_gatt_svc := MESH_GATT_PROV, px_prov_fast_adv := True\<rparr>)))"

definition bt_mesh_proxy_prov_disable :: "bool \<Rightarrow> proxy_state \<Rightarrow> errno option \<times> proxy_state" where
  "bt_mesh_proxy_prov_disable disconnect s =
     (if px_gatt_svc s = MESH_GATT_NONE then (Some EALREADY, s)
      else if px_gatt_svc s \<noteq> MESH_GATT_PROV then (Some EBUSY, s)
      else
        (let s = (px_output (Service_unregister MESH_GATT_PROV) s)\<lparr>px_gatt_svc := MESH_GATT_NONE\<rparr>;
             s = fold (\<lambda>c s. let cl = px_clients s ! c in
                   case pr_conn (pc_cli cl) of None \<Rightarrow> s
                   | Some conn \<Rightarrow> if pc_filter_type cl \<noteq> PROV then s
                       else if disconnect then px_output (Conn_disconnect conn) s
                       else px_upd_client c (\<lambda>cl. cl\<lparr>pc_filter_type := NONE\<rparr>) (px_output (Pb_gatt_close conn) s))
                   [0..<length (px_clients s)] s
         in (None, px_output Proxy_adv_update s)))"

definition bt_mesh_pb_gatt_send :: "proxy_env \<Rightarrow> nat \<Rightarrow> net_buf_simple \<Rightarrow> bool \<Rightarrow> proxy_state \<Rightarrow> (errno option \<times> net_buf_simple \<times> proxy_state) option" where
  "bt_mesh_pb_gatt_send pe conn buf end_cb s =
     (case find_client (Some conn) s of None \<Rightarrow> Some (Some ENOTCONN, buf, s)
      | Some c \<Rightarrow>
         if pc_filter_type (px_clients s ! c) \<noteq> PROV then Some (Some EINVAL, buf, s)
         else bt_mesh_proxy_msg_send pe c BT_MESH_PROXY_PROV buf end_cb s)"

definition CLIENT_BUF_SIZE :: nat where "CLIENT_BUF_SIZE = 65"

definition bt_mesh_proxy_init :: "proxy_state \<Rightarrow> proxy_state" where
  "bt_mesh_proxy_init s =
     s\<lparr>px_clients := map (\<lambda>cl. cl\<lparr>pc_cli := (pc_cli cl)\<lparr>pr_sar_timer := False,
          pr_buf := net_buf_simple_init_with_data (take CLIENT_BUF_SIZE (nb_buf (pr_buf (pc_cli cl)))) CLIENT_BUF_SIZE\<rparr>\<rparr>) (px_clients s)\<rparr>"

end
