(* ===== verification/Mesh_Bc_Auth.thy ===== *)
theory Mesh_Bc_Auth
  imports Mesh_Bc Mesh_Net_Path Mesh_Keys
begin

text \<open>
  Correctness of the secure network beacons of \<open>core/src/mesh/beacon.c\<close>: what is sent is accepted
  by the nodes of the subnet, nothing else has an effect, and what happens to a beacon that
  announces an IV update too early.
\<close>

section \<open>What the callbacks change\<close>

text \<open>The key tables without the authentication values, which alone change when beacons are updated.\<close>

definition no_auth :: "keys_state \<Rightarrow> keys_state" where
  "no_auth ks = ks\<lparr>ks_subnets := map (\<lambda>sub. sub\<lparr>sn_auth := []\<rparr>) (ks_subnets ks)\<rparr>"

definition bc_frame :: "beacon_state \<Rightarrow> beacon_state \<Rightarrow> bool" where
  "bc_frame s s' \<longleftrightarrow> bc_net s' = bc_net s \<and> no_auth (bc_keys s') = no_auth (bc_keys s) \<and> bc_beacon s' = bc_beacon s"

lemma bc_frame_refl: "bc_frame s s"
  by (simp add: bc_frame_def)

lemma bc_frame_trans: "bc_frame s s' \<Longrightarrow> bc_frame s' s'' \<Longrightarrow> bc_frame s s''"
  by (simp add: bc_frame_def)

lemma map_update_same: "(\<And>x. h (f x) = h x) \<Longrightarrow> map h (xs[i := f (xs ! i)]) = map h xs"
  by (cases "i < length xs") (auto simp: map_update list_update_same_conv list_update_beyond)

lemma beacon_update_frame: "bc_frame s (bt_mesh_beacon_update i s)"
proof -
  have "no_auth (bc_keys (bc_upd_sub i (\<lambda>sub. sub\<lparr>sn_auth := a\<rparr>) s)) = no_auth (bc_keys s)" for a
    by (simp add: no_auth_def bc_upd_sub_def map_update_same)
  then show ?thesis by (simp add: bt_mesh_beacon_update_def Let_def bc_frame_def split: sum.split) (simp add: bc_upd_sub_def)
qed

lemma foreach_frame: "(\<And>i s. bc_frame s (f i s)) \<Longrightarrow> bc_frame s (bc_foreach f s)"
proof -
  assume f: "\<And>i s. bc_frame s (f i s)"
  have "bc_frame s (fold (\<lambda>i s. if sn_net_idx (bc_subs s ! i) = BT_MESH_KEY_UNUSED then s else f i s) is s)" for "is" s
    by (induction "is" arbitrary: s) (auto intro: bc_frame_refl bc_frame_trans [OF f])
  then show ?thesis by (simp add: bc_foreach_def)
qed

lemma schedule_frame: "bc_frame s (bc_schedule n s)"
  by (simp add: bc_frame_def bc_schedule_def)

lemma run_keys_calls_frame: "bc_frame s (run_keys_calls cs s)"
proof (induction cs s rule: run_keys_calls.induct)
  case (2 i evt cs s)
  have "bc_frame s (beacon_subnet_evt i evt s)" by (simp add: beacon_subnet_evt_def beacon_update_frame bc_frame_refl)
  then show ?case using 2 bc_frame_trans by auto
next
  case (3 i cs s)
  then show ?case using bc_frame_trans [OF beacon_update_frame] by simp
qed (simp_all add: bc_frame_refl)

lemma run_net_calls_frame: "bc_frame s (run_net_calls cs s)"
proof (induction cs s rule: run_net_calls.induct)
  case (2 cs s)
  then show ?case using bc_frame_trans [OF foreach_frame [OF beacon_update_frame]] by simp
next
  case (3 enable cs s)
  then show ?case using bc_frame_trans [OF schedule_frame] by simp
qed (simp_all add: bc_frame_refl)

text \<open>The Key Refresh phases and keys of the subnets.\<close>

definition key_phases :: "keys_state \<Rightarrow> (u16 \<times> u8 \<times> bt_mesh_subnet_keys list) list" where
  "key_phases ks = map (\<lambda>sub. (sn_net_idx sub, sn_kr_phase sub, sn_keys sub)) (ks_subnets ks)"

lemma key_phases_no_auth: "key_phases (no_auth ks) = key_phases ks"
  by (simp add: key_phases_def no_auth_def)

lemma frame_phases: "bc_frame s s' \<Longrightarrow> key_phases (bc_keys s') = key_phases (bc_keys s)"
  using key_phases_no_auth unfolding bc_frame_def by metis

lemma phases_length: "key_phases ks = key_phases ks' \<Longrightarrow> length (ks_subnets ks) = length (ks_subnets ks')"
  unfolding key_phases_def by (drule arg_cong [where f = length]) simp

lemma upd_sub_phases:
  "(\<And>sub. sn_net_idx (f sub) = sn_net_idx sub \<and> sn_kr_phase (f sub) = sn_kr_phase sub \<and> sn_keys (f sub) = sn_keys sub) \<Longrightarrow>
    key_phases (bc_keys (bc_upd_sub i f s)) = key_phases (bc_keys s)"
  by (simp add: key_phases_def bc_upd_sub_def map_update_same)

lemma stats_frame: "bc_net (beacon_update_stats i s) = bc_net s" "key_phases (bc_keys (beacon_update_stats i s)) = key_phases (bc_keys s)"
  by (simp_all add: beacon_update_stats_def upd_sub_phases) (simp add: bc_upd_sub_def)

text \<open>The network state before the IV Update procedure sees the beacon, and after.\<close>

definition iv_after :: "beacon_cfg \<Rightarrow> beacon_env \<Rightarrow> u8 \<Rightarrow> u32 \<Rightarrow> bt_mesh_net \<Rightarrow> bt_mesh_net" where
  "iv_after bo be flags iv_index st =
     snd (bt_mesh_net_iv_update (bo_mesh bo) (be_iv be) iv_index (BT_MESH_IV_UPDATE flags)
       (if bm_ivu_initiator st \<and> bm_ivu_in_progress st = BT_MESH_IV_UPDATE flags then bt_mesh_beacon_ivu_initiator False st else st))"

definition spreads_iv :: "nat \<Rightarrow> keys_state \<Rightarrow> bool" where
  "spreads_iv i ks \<longleftrightarrow> bt_mesh_subnet_get BT_MESH_KEY_PRIMARY ks = None \<or> sn_net_idx (ks_subnets ks ! i) = BT_MESH_KEY_PRIMARY"

lemma subnet_get_phases: "key_phases ks = key_phases ks' \<Longrightarrow> bt_mesh_subnet_get idx ks = bt_mesh_subnet_get idx ks'"
proof -
  assume "key_phases ks = key_phases ks'"
  then have "map fst (key_phases ks) = map fst (key_phases ks')" by simp
  then have "map sn_net_idx (ks_subnets ks) = map sn_net_idx (ks_subnets ks')" by (simp add: key_phases_def comp_def)
  moreover have "find_index (\<lambda>sub. sn_net_idx sub = idx) subs = find_index (\<lambda>x. x = idx) (map sn_net_idx subs)" for subs
    by (induction subs) auto
  ultimately show ?thesis unfolding bt_mesh_subnet_get_def by metis
qed

lemma phases_nth:
  assumes "key_phases ks = key_phases ks'" "i < length (ks_subnets ks)"
  shows "sn_net_idx (ks_subnets ks ! i) = sn_net_idx (ks_subnets ks' ! i)" "sn_kr_phase (ks_subnets ks ! i) = sn_kr_phase (ks_subnets ks' ! i)"
    "sn_keys (ks_subnets ks ! i) = sn_keys (ks_subnets ks' ! i)"
proof -
  have "key_phases ks ! i = key_phases ks' ! i" using assms(1) by simp
  then show "sn_net_idx (ks_subnets ks ! i) = sn_net_idx (ks_subnets ks' ! i)" "sn_kr_phase (ks_subnets ks ! i) = sn_kr_phase (ks_subnets ks' ! i)"
    "sn_keys (ks_subnets ks ! i) = sn_keys (ks_subnets ks' ! i)"
    using assms(2) phases_length [OF assms(1)] by (simp_all add: key_phases_def)
qed

lemma spreads_phases: "key_phases ks = key_phases ks' \<Longrightarrow> i < length (ks_subnets ks) \<Longrightarrow> spreads_iv i ks \<longleftrightarrow> spreads_iv i ks'"
proof -
  assume "key_phases ks = key_phases ks'" "i < length (ks_subnets ks)"
  from subnet_get_phases [OF this(1), of BT_MESH_KEY_PRIMARY] phases_nth(1) [OF this] show ?thesis by (simp add: spreads_iv_def)
qed

lemma kr_update_length: "i < length (ks_subnets ks) \<Longrightarrow> length (ks_subnets (bt_mesh_kr_update cfg i f n ks)) = length (ks_subnets ks)"
  by (auto simp: bt_mesh_kr_update_def Let_def key_refresh_tables)

lemma secure_beacon_found_effect:
  assumes "i < length (bc_subs s)" "\<not> (sn_kr_phase (bc_subs s ! i) = BT_MESH_KR_PHASE_2 \<and> \<not> new_key)"
  shows "let ks = bt_mesh_kr_update (bo_mesh bo) i (BT_MESH_KEY_REFRESH (bp_flags params)) new_key (bc_keys (cache_add dat i s));
             s' = secure_beacon_found bo be dat params i new_key s
         in key_phases (bc_keys s') = key_phases ks \<and>
            bc_mesh s' = (if spreads_iv i ks then iv_after bo be (bp_flags params) (bp_iv_index params) (bc_mesh s) else bc_mesh s)"
proof -
  let ?s0 = "cache_add dat i s"
  let ?ks = "bt_mesh_kr_update (bo_mesh bo) i (BT_MESH_KEY_REFRESH (bp_flags params)) new_key (bc_keys ?s0)"
  define s1 where "s1 = beacon_kr_update bo i (BT_MESH_KEY_REFRESH (bp_flags params)) new_key ?s0"
  have f1: "bc_frame (?s0\<lparr>bc_keys := ?ks\<rparr>) s1" unfolding s1_def beacon_kr_update_def Let_def by (rule run_keys_calls_frame)
  have ph1: "key_phases (bc_keys s1) = key_phases ?ks" using frame_phases [OF f1] by simp
  have n1: "bc_net s1 = bc_net s" using f1 by (simp add: bc_frame_def cache_add_def bc_upd_sub_def)
  have len: "length (bc_subs s1) = length (bc_subs s)"
    using phases_length [OF ph1] assms(1) by (simp add: kr_update_length cache_add_def bc_upd_sub_def)
  define s2 where "s2 = (if bm_ivu_initiator (bc_mesh s1) \<and> bm_ivu_in_progress (bc_mesh s1) = BT_MESH_IV_UPDATE (bp_flags params)
      then beacon_ivu_initiator False s1 else s1)"
  define s3 where "s3 = beacon_iv_update bo be (bp_iv_index params) (BT_MESH_IV_UPDATE (bp_flags params)) s2"
  have k2: "bc_keys s2 = bc_keys s1" by (simp add: s2_def beacon_ivu_initiator_def bc_schedule_def bc_set_mesh_def)
  have f3: "bc_frame (bc_set_mesh (snd (bt_mesh_net_iv_update (bo_mesh bo) (be_iv be) (bp_iv_index params) (BT_MESH_IV_UPDATE (bp_flags params)) (bc_mesh s2))) s2) s3"
    unfolding s3_def beacon_iv_update_def Let_def by (rule run_net_calls_frame)
  have ph3: "key_phases (bc_keys s3) = key_phases ?ks" using frame_phases [OF f3] k2 ph1 by (simp add: bc_set_mesh_def)
  have m2: "bc_mesh s2 = (if bm_ivu_initiator (bc_mesh s) \<and> bm_ivu_in_progress (bc_mesh s) = BT_MESH_IV_UPDATE (bp_flags params)
      then bt_mesh_beacon_ivu_initiator False (bc_mesh s) else bc_mesh s)"
    by (simp add: s2_def n1 beacon_ivu_initiator_def bc_schedule_def bc_set_mesh_def)
  have m3: "bc_mesh s3 = iv_after bo be (bp_flags params) (bp_iv_index params) (bc_mesh s)"
    using f3 m2 by (simp add: bc_frame_def bc_set_mesh_def iv_after_def)
  have sp: "spreads_iv i (bc_keys s1) \<longleftrightarrow> spreads_iv i ?ks" using spreads_phases [OF ph1] len assms(1) by simp
  have "secure_beacon_found bo be dat params i new_key s = beacon_update_stats i (if spreads_iv i (bc_keys s1) then s3 else s1)"
    using assms(2) unfolding secure_beacon_found_def Let_def s1_def [symmetric] s2_def [symmetric] s3_def [symmetric] by (auto simp: spreads_iv_def)
  then show ?thesis using sp ph1 ph3 m3 n1 by (simp add: Let_def stats_frame)
qed

section \<open>Reception on byte strings\<close>

definition beacon_parse :: "bytes \<Rightarrow> beacon_params" where
  "beacon_parse dat = \<lparr>bp_net_id = take 8 (drop 1 dat), bp_auth = drop 13 dat, bp_iv_index = sys_get_be32 (take 4 (drop 9 dat)), bp_flags = hd dat\<rparr>"

definition secure_beacon_step :: "beacon_cfg \<Rightarrow> beacon_env \<Rightarrow> bytes \<Rightarrow> beacon_state \<Rightarrow> beacon_state" where
  "secure_beacon_step bo be dat s =
     (if length dat < 21 then s
      else case bt_mesh_subnet_find (Some (cache_check dat)) (bc_keys s) of
        Some i \<Rightarrow> beacon_update_stats i s
      | None \<Rightarrow>
          (case bt_mesh_subnet_find (Some (\<lambda>sub. subnet_by_id (beacon_parse dat) sub \<noteq> None)) (bc_keys s) of
             None \<Rightarrow> s
           | Some i \<Rightarrow> secure_beacon_found bo be dat (beacon_parse dat) i (the (subnet_by_id (beacon_parse dat) (bc_subs s ! i))) s))"

lemma secure_beacon_recv_step:
  assumes "wf_buf buf"
  shows "secure_beacon_recv bo be buf s = Some (secure_beacon_step bo be (nb_bytes buf) s)"
proof (cases "nb_len buf < 21")
  case False
  have len: "length (nb_bytes buf) = nb_len buf" using assms by simp
  obtain b1 where b1: "nb_pull 1 buf = Some (take 1 (nb_bytes buf), b1)" "wf_buf b1" "nb_bytes b1 = drop 1 (nb_bytes buf)" "nb_len b1 = nb_len buf - 1"
    using pull_bytes [OF assms, of 1] False by auto
  have l1: "8 \<le> nb_len b1" "12 \<le> nb_len b1" using False b1(4) by auto
  obtain b2 where b2: "nb_pull 8 b1 = Some (take 8 (nb_bytes b1), b2)" "wf_buf b2" "nb_bytes b2 = drop 8 (nb_bytes b1)" "nb_len b2 = nb_len b1 - 8"
    using pull_bytes [OF b1(2), of 8] l1 by auto
  obtain p where p: "net_buf_simple_pull_mem 8 b1 = Some (p, b2)" "nb_read p 8 b2 = take 8 (nb_bytes b1)" using pull_mem_bytes [OF b2(1)] by auto
  have l2: "4 \<le> nb_len b2" using l1(2) b2(4) by simp
  obtain b3 where b3: "nb_pull 4 b2 = Some (take 4 (nb_bytes b2), b3)" "nb_bytes b3 = drop 4 (nb_bytes b2)"
    using pull_bytes [OF b2(2) l2] by auto
  have hd: "hd (take 1 (nb_bytes buf)) = hd (nb_bytes buf)" using len False by (cases "nb_bytes buf") auto
  show ?thesis using False len b1 b2 b3 p hd
    by (simp add: secure_beacon_recv_def secure_beacon_step_def pull_u8_value [OF assms] pull_value [OF b2(2)] beacon_parse_def Let_def
        split: option.split)
qed (use assms in \<open>simp add: secure_beacon_recv_def secure_beacon_step_def\<close>)

lemma beacon_recv_step:
  assumes "wf_buf buf" "nb_bytes buf = BEACON_TYPE_SECURE # dat"
  shows "bt_mesh_beacon_recv bo be buf s = Some (secure_beacon_step bo be dat s)"
proof -
  have len: "nb_len buf = Suc (length dat)" using assms length_nb_bytes [OF assms(1)] by simp
  obtain b1 where b1: "nb_pull 1 buf = Some (take 1 (nb_bytes buf), b1)" "wf_buf b1" "nb_bytes b1 = drop 1 (nb_bytes buf)"
    using pull_bytes [OF assms(1), of 1] len by auto
  show ?thesis using len b1 assms(2) by (simp add: bt_mesh_beacon_recv_def pull_u8_value [OF assms(1)] secure_beacon_recv_step)
qed

lemma beacon_recv_other:
  assumes "wf_buf buf" "nb_bytes buf = [] \<or> hd (nb_bytes buf) \<noteq> BEACON_TYPE_SECURE" "bt_mesh_beacon_recv bo be buf s = Some s'"
  shows "bc_net s' = bc_net s \<and> bc_keys s' = bc_keys s"
proof (cases "nb_bytes buf")
  case Nil
  then show ?thesis using assms length_nb_bytes [OF assms(1)] by (simp add: bt_mesh_beacon_recv_def)
next
  case (Cons c dat)
  have len: "nb_len buf = Suc (length dat)" using assms Cons length_nb_bytes [OF assms(1)] by simp
  obtain b1 where b1: "nb_pull 1 buf = Some (take 1 (nb_bytes buf), b1)" using pull_bytes [OF assms(1), of 1] len by auto
  have u: "bc_net s' = bc_net s \<and> bc_keys s' = bc_keys s" if "unprovisioned_beacon_recv bo be b s = Some s'" for b
    using that by (auto simp: unprovisioned_beacon_recv_def bc_output_def split: if_splits Option.bind_splits)
  show ?thesis using assms(2,3) b1 Cons len u by (auto simp: bt_mesh_beacon_recv_def pull_u8_value [OF assms(1)] split: if_splits)
qed

lemma subnet_find_Some:
  assumes "bt_mesh_subnet_find (Some P) ks = Some i"
  shows "i < length (ks_subnets ks)" "sn_net_idx (ks_subnets ks ! i) \<noteq> BT_MESH_KEY_UNUSED" "P (ks_subnets ks ! i)"
  using find_index_Some [OF assms [unfolded bt_mesh_subnet_find_def]] by auto

lemma secure_beacon_found_ignored:
  "sn_kr_phase (bc_subs s ! i) = BT_MESH_KR_PHASE_2 \<Longrightarrow> secure_beacon_found bo be dat params i False s = s"
  by (simp add: secure_beacon_found_def)

section \<open>Who can change the IV index and the keys\<close>

text \<open>
  C32: only an authenticated beacon has an effect.  If the reception of a beacon changes the network
  state (IV index, IV Update state) or a Key Refresh phase or key, then the bytes are a secure
  network beacon whose authentication value is the one that a valid key of a subnet in use gives
  for its flags, network ID and IV index; and the network state changes only through the primary
  subnet, if the node has it.
\<close>

theorem beacon_effect_authenticated:
  assumes "wf_buf buf" "bt_mesh_beacon_recv bo be buf s = Some s'"
    and "bc_mesh s' \<noteq> bc_mesh s \<or> key_phases (bc_keys s') \<noteq> key_phases (bc_keys s)"
  shows "\<exists>dat i k. nb_bytes buf = BEACON_TYPE_SECURE # dat \<and> 21 \<le> length dat \<and>
    i < length (bc_subs s) \<and> sn_net_idx (bc_subs s ! i) \<noteq> BT_MESH_KEY_UNUSED \<and> k \<in> set (sn_keys (bc_subs s ! i)) \<and> sk_valid k \<and>
    take 8 (drop 1 dat) = take 8 (sk_net_id k) \<and>
    bt_mesh_beacon_auth (sk_beacon k) (hd dat) (sk_net_id k) (sys_get_be32 (take 4 (drop 9 dat))) = Inr (take 8 (drop 13 dat)) \<and>
    (bc_mesh s' \<noteq> bc_mesh s \<longrightarrow> spreads_iv i (bc_keys s'))"
proof -
  have "nb_bytes buf \<noteq> [] \<and> hd (nb_bytes buf) = BEACON_TYPE_SECURE"
  proof (rule ccontr)
    assume "\<not> ?thesis"
    then show False using beacon_recv_other [OF assms(1) _ assms(2)] assms(3) by simp
  qed
  then obtain dat where dat: "nb_bytes buf = BEACON_TYPE_SECURE # dat" by (cases "nb_bytes buf") auto
  let ?p = "beacon_parse dat"
  have s': "s' = secure_beacon_step bo be dat s" using beacon_recv_step [OF assms(1) dat, of bo be s] assms(2) by simp
  have eff: "s' \<noteq> s" "\<And>i. s' \<noteq> beacon_update_stats i s" using assms(3) stats_frame by auto
  then have len: "21 \<le> length dat" using s' by (auto simp: secure_beacon_step_def split: if_splits)
  have "bt_mesh_subnet_find (Some (cache_check dat)) (bc_keys s) = None"
    using s' eff(2) len by (auto simp: secure_beacon_step_def split: option.splits)
  then obtain i where i: "bt_mesh_subnet_find (Some (\<lambda>sub. subnet_by_id ?p sub \<noteq> None)) (bc_keys s) = Some i"
    and found: "s' = secure_beacon_found bo be dat ?p i (the (subnet_by_id ?p (bc_subs s ! i))) s"
    using s' eff(1) len by (auto simp: secure_beacon_step_def split: option.splits)
  let ?nk = "the (subnet_by_id ?p (bc_subs s ! i))"
  obtain n where n: "find_index (\<lambda>k. sk_valid k \<and> auth_match k ?p) (sn_keys (bc_subs s ! i)) = Some n"
    using subnet_find_Some(3) [OF i] by (auto simp: subnet_by_id_def)
  let ?k = "sn_keys (bc_subs s ! i) ! n"
  have k: "?k \<in> set (sn_keys (bc_subs s ! i))" "sk_valid ?k" "auth_match ?k ?p" using find_index_Some [OF n] by auto
  have "\<not> (sn_kr_phase (bc_subs s ! i) = BT_MESH_KR_PHASE_2 \<and> \<not> ?nk)" using secure_beacon_found_ignored [of s i] found eff(1) by metis
  from secure_beacon_found_effect [OF subnet_find_Some(1) [OF i] this, of bo ?p dat be]
  have "bc_mesh s' \<noteq> bc_mesh s \<longrightarrow> spreads_iv i (bt_mesh_kr_update (bo_mesh bo) i (BT_MESH_KEY_REFRESH (bp_flags ?p)) ?nk (bc_keys (cache_add dat i s)))"
    and ph: "key_phases (bc_keys s') = key_phases (bt_mesh_kr_update (bo_mesh bo) i (BT_MESH_KEY_REFRESH (bp_flags ?p)) ?nk (bc_keys (cache_add dat i s)))"
    unfolding Let_def found [symmetric] by auto
  moreover have "i < length (bc_subs s')" using phases_length [OF ph] subnet_find_Some(1) [OF i] by (simp add: kr_update_length cache_add_def bc_upd_sub_def)
  ultimately have "bc_mesh s' \<noteq> bc_mesh s \<longrightarrow> spreads_iv i (bc_keys s')" using spreads_phases [OF ph] by simp
  then show ?thesis using dat len subnet_find_Some(1,2) [OF i] k
    by (intro exI [of _ dat] exI [of _ i] exI [of _ ?k]) (simp add: auth_match_def beacon_parse_def)
qed

section \<open>A beacon reaches the nodes of its subnet\<close>

definition beacon_pdu :: "bt_mesh_subnet \<Rightarrow> bt_mesh_net \<Rightarrow> bytes" where
  "beacon_pdu sub st = BEACON_TYPE_SECURE # bt_mesh_net_flags (Some sub) (bm_ivu_in_progress st) #
     take 8 (sk_net_id (sn_keys sub ! SUBNET_KEY_TX_IDX sub)) @ sys_put_be32 (bm_iv_index st) @ take 8 (sn_auth sub)"

lemma beacon_create_pdu:
  assumes "wf_buf out" "nb_len out = 0" "22 \<le> net_buf_simple_tailroom out"
  shows "\<exists>b. bt_mesh_beacon_create sub st out = Some b \<and> wf_buf b \<and> nb_bytes b = beacon_pdu sub st"
proof -
  let ?k = "sn_keys sub ! SUBNET_KEY_TX_IDX sub"
  have e: "nb_bytes out = []" using assms(2) by (simp add: nb_bytes_def nb_read_def)
  have "length (take 8 (sk_net_id ?k)) \<le> 8" "length (take 8 (sn_auth sub)) \<le> 8" by simp_all
  then have l: "length (beacon_pdu sub st) \<le> net_buf_simple_tailroom out" using assms(3) unfolding beacon_pdu_def by (simp add: be32.length_put)
  have "bt_mesh_beacon_create sub st out = net_buf_simple_add_mem (beacon_pdu sub st) out"
    by (simp add: bt_mesh_beacon_create_def Let_def add_value beacon_pdu_def add_mem_append [OF assms(1)] Option.bind_assoc [symmetric] del: Option.bind_assoc)
  then show ?thesis using add_bytes [OF assms(1) l] e by auto
qed

lemma beacon_auth_length: "bt_mesh_beacon_auth key fl net_id iv = Inr a \<Longrightarrow> length a = 8"
  by (auto simp: bt_mesh_beacon_auth_def)

lemma find_index_only: "i < length xs \<Longrightarrow> P (xs ! i) \<Longrightarrow> \<forall>j < length xs. P (xs ! j) \<longrightarrow> j = i \<Longrightarrow> find_index P xs = Some i"
  by (metis find_index_None find_index_Some nth_mem option.exhaust)

text \<open>The only valid key of the node with the network ID of key \<open>k\<close> is key \<open>n\<close> of subnet \<open>i\<close>, which has its beacon key.\<close>

definition knows_key :: "bt_mesh_subnet_keys \<Rightarrow> nat \<Rightarrow> nat \<Rightarrow> keys_state \<Rightarrow> bool" where
  "knows_key k i n ks \<longleftrightarrow> i < length (ks_subnets ks) \<and> sn_net_idx (ks_subnets ks ! i) \<noteq> BT_MESH_KEY_UNUSED \<and>
     n < length (sn_keys (ks_subnets ks ! i)) \<and> sk_valid (sn_keys (ks_subnets ks ! i) ! n) \<and>
     sk_net_id (sn_keys (ks_subnets ks ! i) ! n) = sk_net_id k \<and> sk_beacon (sn_keys (ks_subnets ks ! i) ! n) = sk_beacon k \<and>
     (\<forall>j < length (ks_subnets ks). sn_net_idx (ks_subnets ks ! j) \<noteq> BT_MESH_KEY_UNUSED \<longrightarrow>
        (\<forall>m < length (sn_keys (ks_subnets ks ! j)). sk_valid (sn_keys (ks_subnets ks ! j) ! m) \<longrightarrow>
           take 8 (sk_net_id (sn_keys (ks_subnets ks ! j) ! m)) = take 8 (sk_net_id k) \<longrightarrow> j = i \<and> m = n))"

lemma knows_key_found:
  assumes "knows_key k i n ks" "take 8 (bp_net_id p) = take 8 (sk_net_id k)"
    and "bt_mesh_beacon_auth (sk_beacon k) (bp_flags p) (sk_net_id k) (bp_iv_index p) = Inr (take 8 (bp_auth p))"
  shows "subnet_by_id p (ks_subnets ks ! i) = Some (0 < n)" "bt_mesh_subnet_find (Some (\<lambda>sub. subnet_by_id p sub \<noteq> None)) ks = Some i"
proof -
  let ?sub = "ks_subnets ks ! i"
  have uniq: "j = i \<and> m = n" if "j < length (ks_subnets ks)" "sn_net_idx (ks_subnets ks ! j) \<noteq> BT_MESH_KEY_UNUSED" "m < length (sn_keys (ks_subnets ks ! j))"
      "sk_valid (sn_keys (ks_subnets ks ! j) ! m) \<and> auth_match (sn_keys (ks_subnets ks ! j) ! m) p" for j m
    using assms(1) that unfolding knows_key_def auth_match_def assms(2) by metis
  have here: "i < length (ks_subnets ks)" "sn_net_idx ?sub \<noteq> BT_MESH_KEY_UNUSED" "n < length (sn_keys ?sub)"
    using assms(1) unfolding knows_key_def by blast+
  have match: "sk_valid (sn_keys ?sub ! n) \<and> auth_match (sn_keys ?sub ! n) p" using assms unfolding knows_key_def auth_match_def by simp
  have "find_index (\<lambda>k. sk_valid k \<and> auth_match k p) (sn_keys ?sub) = Some n"
    using find_index_only [of n "sn_keys ?sub" "\<lambda>k. sk_valid k \<and> auth_match k p"] here(3) match uniq [OF here(1,2)] by blast
  then show a: "subnet_by_id p ?sub = Some (0 < n)" by (simp add: subnet_by_id_def)
  have other: "j = i" if j: "j < length (ks_subnets ks)" "sn_net_idx (ks_subnets ks ! j) \<noteq> BT_MESH_KEY_UNUSED \<and> subnet_by_id p (ks_subnets ks ! j) \<noteq> None" for j
  proof -
    obtain m where "find_index (\<lambda>k. sk_valid k \<and> auth_match k p) (sn_keys (ks_subnets ks ! j)) = Some m" using j(2) by (auto simp: subnet_by_id_def)
    from find_index_Some [OF this] show ?thesis using uniq [OF j(1)] j(2) by blast
  qed
  show "bt_mesh_subnet_find (Some (\<lambda>sub. subnet_by_id p sub \<noteq> None)) ks = Some i"
    unfolding bt_mesh_subnet_find_def option.case using find_index_only [of i "ks_subnets ks" "\<lambda>sub. sn_net_idx sub \<noteq> BT_MESH_KEY_UNUSED \<and> subnet_by_id p sub \<noteq> None"] here other a
    by blast
qed

lemma beacon_reaches:
  assumes "wf_buf out" "nb_len out = 0" "22 \<le> net_buf_simple_tailroom out"
    and "k = sn_keys sub ! SUBNET_KEY_TX_IDX sub" "length (sk_net_id k) = 8"
    and "bt_mesh_beacon_auth (sk_beacon k) (bt_mesh_net_flags (Some sub) (bm_ivu_in_progress st)) (sk_net_id k) (bm_iv_index st) = Inr (sn_auth sub)"
    and "knows_key k i n (bc_keys r)" "0 < n \<or> sn_kr_phase (bc_subs r ! i) \<noteq> BT_MESH_KR_PHASE_2"
    and "bt_mesh_subnet_find (Some (cache_check (tl (beacon_pdu sub st)))) (bc_keys r) = None"
  shows "\<exists>b r'. bt_mesh_beacon_create sub st out = Some b \<and> bt_mesh_beacon_recv bo be b r = Some r' \<and>
    (let ks = bt_mesh_kr_update (bo_mesh bo) i (sn_kr_phase sub = BT_MESH_KR_PHASE_2) (0 < n) (bc_keys (cache_add (tl (beacon_pdu sub st)) i r))
     in key_phases (bc_keys r') = key_phases ks \<and>
        bc_mesh r' = (if spreads_iv i ks
          then iv_after bo be (bt_mesh_net_flags (Some sub) (bm_ivu_in_progress st)) (bm_iv_index st) (bc_mesh r) else bc_mesh r))"
proof -
  let ?fl = "bt_mesh_net_flags (Some sub) (bm_ivu_in_progress st)" and ?dat = "tl (beacon_pdu sub st)"
  let ?p = "beacon_parse ?dat"
  obtain b where b: "bt_mesh_beacon_create sub st out = Some b" "wf_buf b" "nb_bytes b = beacon_pdu sub st"
    using beacon_create_pdu [OF assms(1-3)] by auto
  have auth: "length (sn_auth sub) = 8" by (rule beacon_auth_length [OF assms(6)])
  have be: "length (sys_put_be32 (bm_iv_index st)) = 4" "sys_get_be32 (sys_put_be32 (bm_iv_index st)) = bm_iv_index st"
    by (simp_all add: be32.length_put be32.get_put_id)
  have dat: "?dat = ?fl # sk_net_id k @ sys_put_be32 (bm_iv_index st) @ sn_auth sub" "length ?dat = 21"
    using assms(4,5) auth be(1) by (simp_all add: beacon_pdu_def)
  have p: "bp_flags ?p = ?fl" "take 8 (bp_net_id ?p) = take 8 (sk_net_id k)" "bp_iv_index ?p = bm_iv_index st" "take 8 (bp_auth ?p) = sn_auth sub"
    unfolding dat(1) using assms(5) auth be by (simp_all add: beacon_parse_def)
  note found = knows_key_found [OF assms(7) p(2)]
  have step: "bt_mesh_beacon_recv bo be b r = Some (secure_beacon_found bo be ?dat ?p i (0 < n) r)"
    using beacon_recv_step [OF b(2), of ?dat bo be r] b(3) found assms(6,9) p dat(2)
    by (simp add: secure_beacon_step_def beacon_pdu_def)
  have kr: "BT_MESH_KEY_REFRESH ?fl \<longleftrightarrow> sn_kr_phase sub = BT_MESH_KR_PHASE_2"
    by (auto simp: BT_MESH_KEY_REFRESH_def bt_mesh_net_flags_def Let_def)
  have i: "i < length (bc_subs r)" "\<not> (sn_kr_phase (bc_subs r ! i) = BT_MESH_KR_PHASE_2 \<and> \<not> 0 < n)" using assms(7,8) by (auto simp: knows_key_def)
  show ?thesis using b(1) step secure_beacon_found_effect [OF i, of bo ?p ?dat be] by (simp add: Let_def p kr)
qed

text \<open>
  C31: a secure network beacon reaches the nodes of its subnet.  The beacon of a subnet whose
  authentication value is up to date is written completely.  A node that holds the key it is
  authenticated with as its key \<open>n\<close> of subnet \<open>i\<close>, and no other valid key with that network ID,
  takes the Key Refresh step for the sender's flag and, unless the beacon is of another subnet
  than its primary one, the IV Update step for the sender's IV index and state.  Two kinds of nodes
  ignore the beacon and are excluded: those that have it in the cache of one of their subnets, and
  those in Phase 2 for which it is authenticated with the old key.
\<close>

theorem beacon_received:
  assumes "wf_buf out" "nb_len out = 0" "22 \<le> net_buf_simple_tailroom out"
    and "k = sn_keys sub ! SUBNET_KEY_TX_IDX sub" "length (sk_net_id k) = 8"
    and "bt_mesh_beacon_auth (sk_beacon k) (bt_mesh_net_flags (Some sub) (bm_ivu_in_progress st)) (sk_net_id k) (bm_iv_index st) = Inr (sn_auth sub)"
    and "knows_key k i n (bc_keys r)" "0 < n \<or> sn_kr_phase (bc_subs r ! i) \<noteq> BT_MESH_KR_PHASE_2"
    and "bt_mesh_subnet_find (Some (cache_check (tl (beacon_pdu sub st)))) (bc_keys r) = None"
  shows "\<exists>b r'. bt_mesh_beacon_create sub st out = Some b \<and> bt_mesh_beacon_recv bo be b r = Some r' \<and>
    (let ks = bt_mesh_kr_update (bo_mesh bo) i (sn_kr_phase sub = BT_MESH_KR_PHASE_2) (0 < n) (bc_keys (cache_add (tl (beacon_pdu sub st)) i r))
     in key_phases (bc_keys r') = key_phases ks \<and>
        bc_mesh r' = (if spreads_iv i ks
          then iv_after bo be (bt_mesh_net_flags (Some sub) (bm_ivu_in_progress st)) (bm_iv_index st) (bc_mesh r) else bc_mesh r))"
  using assms by (rule beacon_reaches)

section \<open>A beacon that comes too early\<close>

lemma iv_update_too_early:
  assumes "\<not> bm_ivu_in_progress st" "unat (bm_ivu_duration st) < BT_MESH_IVU_MIN_HOURS" "\<not> (cfg_ivu_test cfg \<and> bm_ivu_test st)"
    and "iv_index = bm_iv_index st + 1" "bm_iv_index st < iv_index"
  shows "bt_mesh_net_iv_update cfg env iv_index True st = (False, st)"
  using assms by (auto simp: bt_mesh_net_iv_update_def iv_checked_update_def)

lemma iv_update_due:
  assumes "\<not> bm_ivu_in_progress st" "BT_MESH_IVU_MIN_HOURS \<le> unat (bm_ivu_duration st)"
    and "iv_index = bm_iv_index st + 1" "bm_iv_index st < iv_index" "iv_index \<le> bm_iv_index st + 42"
  shows "bm_iv_index (snd (bt_mesh_net_iv_update cfg env iv_index True st)) = iv_index"
proof -
  have "bt_mesh_net_iv_update cfg env iv_index True st = (True, iv_do_update cfg env iv_index True st)"
    using assms by (auto simp: bt_mesh_net_iv_update_def iv_checked_update_def)
  then show ?thesis by (simp add: iv_do_update_def Let_def store_iv_def net_call_def)
qed

lemma iv_index_room: "n < n + 1 \<and> n + 1 \<le> n + 42" if "n < 0xffffffd5" for n :: u32
proof -
  have "unat n < 4294967253" using that by (simp add: word_less_nat_alt)
  then show ?thesis by (simp add: word_less_nat_alt word_le_nat_alt unat_word_ariths)
qed

text \<open>
  C37: a node that hears of an IV update before its waiting time of 96 hours is over does not take
  part in it when the time is over.  The beacon that announces the update is refused but
  remembered; when the very same beacon is received again, at whatever time, it is taken for
  known and the IV index stays, though the procedure would then accept it.
\<close>

theorem early_iv_update_lost:
  assumes "wf_buf buf" "nb_bytes buf = BEACON_TYPE_SECURE # dat" "length dat = 21"
    and "bt_mesh_subnet_find (Some (cache_check dat)) (bc_keys s) = None"
    and "bt_mesh_subnet_find (Some (\<lambda>sub. subnet_by_id (beacon_parse dat) sub \<noteq> None)) (bc_keys s) = Some i"
    and "subnet_by_id (beacon_parse dat) (bc_subs s ! i) = Some False" "sn_kr_phase (bc_subs s ! i) = BT_MESH_KR_NORMAL"
    and "sn_net_idx (bc_subs s ! i) = BT_MESH_KEY_PRIMARY" "BT_MESH_IV_UPDATE (hd dat)"
    and "bp_iv_index (beacon_parse dat) = bm_iv_index (bc_mesh s) + 1" "bm_iv_index (bc_mesh s) < 0xffffffd5"
    and "\<not> bm_ivu_in_progress (bc_mesh s)" "unat (bm_ivu_duration (bc_mesh s)) < BT_MESH_IVU_MIN_HOURS" "\<not> bm_ivu_test (bc_mesh s)"
  shows "\<exists>s1. bt_mesh_beacon_recv bo be buf s = Some s1 \<and> bm_iv_index (bc_mesh s1) = bm_iv_index (bc_mesh s) \<and>
    (\<forall>h be'. BT_MESH_IVU_MIN_HOURS \<le> unat h \<longrightarrow>
      (let s2 = bc_set_mesh ((bc_mesh s1)\<lparr>bm_ivu_duration := h\<rparr>) s1
       in (\<exists>s3. bt_mesh_beacon_recv bo be' buf s2 = Some s3 \<and> bm_iv_index (bc_mesh s3) = bm_iv_index (bc_mesh s)) \<and>
          bm_iv_index (iv_after bo be' (hd dat) (bp_iv_index (beacon_parse dat)) (bc_mesh s2)) = bm_iv_index (bc_mesh s) + 1))"
proof -
  let ?p = "beacon_parse dat" and ?n = "bm_iv_index (bc_mesh s)"
  have idx: "bm_iv_index (bc_mesh s) < ?n + 1" "?n + 1 \<le> ?n + 42" using iv_index_room [OF assms(11)] by blast+
  have fl: "bp_flags ?p = hd dat" by (simp add: beacon_parse_def)
  have upd: "beacon_iv_update bo be (bp_iv_index ?p) True (cache_add dat i s) = cache_add dat i s"
    using iv_update_too_early [OF assms(12,13) _ assms(10)] assms(10,14) idx
    by (simp add: beacon_iv_update_def bc_set_mesh_def cache_add_def bc_upd_sub_def)
  have kr: "beacon_kr_update bo i f False (cache_add dat i s) = cache_add dat i s" for f
    by (simp add: beacon_kr_update_def bt_mesh_kr_update_def)
  have i: "i < length (bc_subs s)" by (rule subnet_find_Some(1) [OF assms(5)])
  have idx_i: "sn_net_idx (bc_subs (cache_add dat i s) ! i) = BT_MESH_KEY_PRIMARY" using assms(8) i by (simp add: cache_add_def bc_upd_sub_def)
  have mesh: "bc_mesh (cache_add dat i s) = bc_mesh s" by (simp add: cache_add_def bc_upd_sub_def)
  let ?s1 = "beacon_update_stats i (cache_add dat i s)"
  have s1: "bt_mesh_beacon_recv bo be buf s = Some ?s1"
    using beacon_recv_step [OF assms(1,2), of bo be s] assms(3-7,9,12) idx_i
    by (simp add: secure_beacon_step_def secure_beacon_found_def fl kr mesh upd)
  have m1: "bc_mesh ?s1 = bc_mesh s" by (simp add: stats_frame mesh)
  have cached: "bt_mesh_subnet_find (Some (cache_check dat)) (bc_keys ?s1) \<noteq> None"
  proof -
    have "sn_beacon_cache (bc_subs ?s1 ! i) = dat" "sn_net_idx (bc_subs ?s1 ! i) \<noteq> BT_MESH_KEY_UNUSED" "i < length (bc_subs ?s1)"
      using i assms(3,8) by (simp_all add: beacon_update_stats_def cache_add_def bc_upd_sub_def)
    then show ?thesis unfolding bt_mesh_subnet_find_def find_index_None by (auto simp: cache_check_def intro!: bexI [of _ "bc_subs ?s1 ! i"])
  qed
  show ?thesis
  proof (intro exI [of _ ?s1] conjI allI impI)
    fix h :: u8 and be'
    assume h: "BT_MESH_IVU_MIN_HOURS \<le> unat h"
    let ?s2 = "bc_set_mesh ((bc_mesh ?s1)\<lparr>bm_ivu_duration := h\<rparr>) ?s1"
    have k2: "bc_keys ?s2 = bc_keys ?s1" "bc_mesh ?s2 = (bc_mesh s)\<lparr>bm_ivu_duration := h\<rparr>" by (simp_all add: bc_set_mesh_def m1)
    obtain j where "bt_mesh_subnet_find (Some (cache_check dat)) (bc_keys ?s2) = Some j" using cached k2(1) by auto
    then have "bt_mesh_beacon_recv bo be' buf ?s2 = Some (beacon_update_stats j ?s2)"
      using beacon_recv_step [OF assms(1,2), of bo be' ?s2] assms(3) by (simp add: secure_beacon_step_def)
    moreover have "bm_iv_index (iv_after bo be' (hd dat) (bp_iv_index ?p) (bc_mesh ?s2)) = ?n + 1"
      using iv_update_due [of "(bc_mesh s)\<lparr>bm_ivu_duration := h\<rparr>"] assms(9,10,12) h idx by (simp add: iv_after_def k2)
    ultimately show "let s2 = ?s2 in (\<exists>s3. bt_mesh_beacon_recv bo be' buf s2 = Some s3 \<and> bm_iv_index (bc_mesh s3) = ?n) \<and>
        bm_iv_index (iv_after bo be' (hd dat) (bp_iv_index ?p) (bc_mesh s2)) = ?n + 1"
      using k2(2) by (simp add: Let_def stats_frame)
  qed (use s1 m1 in auto)
qed

section \<open>Examples\<close>

text \<open>A node that started an IV update to index 6 sends a beacon; another one with the same key has index 5.\<close>

definition bc_iv6 :: bt_mesh_net where
  "bc_iv6 = node_example\<lparr>bm_iv_index := 6, bm_ivu_in_progress := True\<rparr>"

definition bc_sender :: bt_mesh_subnet where
  "bc_sender = link_subnet\<lparr>sn_auth := take 8 (aes_cmac_spec (replicate 16 0) ([2] @ replicate 8 0 @ sys_put_be32 6))\<rparr>"

definition bc_buf :: net_buf_simple where
  "bc_buf = \<lparr>nb_data = 0, nb_len = 0, nb_size = 29, nb_buf = replicate 29 0\<rparr>"

definition bc_node :: "u8 \<Rightarrow> beacon_state" where
  "bc_node hours = \<lparr>bc_net = link_layer\<lparr>nl_net := node_example\<lparr>bm_ivu_duration := hours\<rparr>\<rparr>,
     bc_keys = boot_example\<lparr>ks_subnets := [link_subnet, unused_subnet]\<rparr>, bc_beacon = True, bc_first_half = False, bc_timer = None, bc_out = []\<rparr>"

definition bc_cfg :: beacon_cfg where
  "bc_cfg = \<lparr>bo_mesh = cfg_example, bo_pb_adv = True, bo_unprov_int = 5, bo_big_endian = False\<rparr>"

definition bc_env :: beacon_env where
  "bc_env = \<lparr>be_iv = env_example, be_now = 0, be_adv_buf = (\<lambda>_. Some bc_buf), be_unprov_buf = Some bc_buf, be_uri_buf = None, be_prov_active = False,
     be_prov = \<lparr>pi_uuid = replicate 16 1, pi_uri = None, pi_oob_info = 0, pi_unprovisioned_beacon = False\<rparr>\<rparr>"

lemma bc_example_keys:
  "sn_keys bc_sender ! SUBNET_KEY_TX_IDX bc_sender = zero_subnet_keys\<lparr>sk_valid := True, sk_msg := link_cred\<rparr>"
  "bt_mesh_net_flags (Some bc_sender) (bm_ivu_in_progress bc_iv6) = 2" "bm_iv_index bc_iv6 = 6"
  "bc_subs (bc_node h) = [link_subnet, unused_subnet]" "bc_mesh (bc_node h) = node_example\<lparr>bm_ivu_duration := h\<rparr>"
  by (simp_all add: bc_sender_def bc_iv6_def bc_node_def link_subnet_def unused_subnet_def SUBNET_KEY_TX_IDX_def bt_mesh_net_flags_def)

lemma bc_example_sender:
  "wf_buf bc_buf" "nb_len bc_buf = 0" "22 \<le> net_buf_simple_tailroom bc_buf"
  "length (sk_net_id (zero_subnet_keys\<lparr>sk_valid := True, sk_msg := link_cred\<rparr>)) = 8"
  "bt_mesh_beacon_auth (sk_beacon zero_subnet_keys) 2 (sk_net_id zero_subnet_keys) 6 = Inr (sn_auth bc_sender)"
  by (simp_all add: bc_buf_def wf_buf_def nb_defs zero_subnet_keys_def bt_mesh_beacon_auth_def bc_sender_def)

lemma replicate_21: "replicate 21 x = x # replicate 20 x"
  by (simp add: numeral_eq_Suc)

lemma bc_example_receiver:
  "knows_key (zero_subnet_keys\<lparr>sk_valid := True, sk_msg := link_cred\<rparr>) 0 0 (bc_keys (bc_node h))"
  "bt_mesh_subnet_find (Some (cache_check (tl (beacon_pdu bc_sender bc_iv6)))) (bc_keys (bc_node h)) = None"
  unfolding knows_key_def bc_example_keys bt_mesh_subnet_find_def
  by (auto simp: link_subnet_def unused_subnet_def zero_subnet_keys_def less_Suc_eq beacon_pdu_def bc_example_keys cache_check_def replicate_21)

lemma bc_example_after:
  "spreads_iv 0 (bt_mesh_kr_update cfg 0 f False (bc_keys (cache_add dat 0 (bc_node h))))"
  "bm_iv_index (iv_after bc_cfg bc_env 2 6 (bc_mesh (bc_node 96))) = 6"
proof -
  show "spreads_iv 0 (bt_mesh_kr_update cfg 0 f False (bc_keys (cache_add dat 0 (bc_node h))))"
    by (simp add: bt_mesh_kr_update_def spreads_iv_def cache_add_def bc_upd_sub_def bc_example_keys link_subnet_def)
  have u: "BT_MESH_IV_UPDATE 2" by code_simp
  show "bm_iv_index (iv_after bc_cfg bc_env 2 6 (bc_mesh (bc_node 96))) = 6"
    unfolding iv_after_def bc_example_keys using iv_update_due [of "node_example\<lparr>bm_ivu_duration := 96\<rparr>" 6] u
    by (simp add: node_example_def BT_MESH_IVU_MIN_HOURS_def)
qed

lemma bc_example_reaches:
  "\<exists>b r'. bt_mesh_beacon_create bc_sender bc_iv6 bc_buf = Some b \<and> bt_mesh_beacon_recv bc_cfg bc_env b (bc_node 96) = Some r' \<and> bm_iv_index (bc_mesh r') = 6"
  using beacon_reaches [OF bc_example_sender(1-3) bc_example_keys(1) [symmetric] bc_example_sender(4), of bc_iv6 0 0 "bc_node 96" bc_cfg bc_env] bc_example_after
  by (simp add: bc_example_keys bc_example_sender bc_example_receiver link_subnet_def Let_def) auto

theorem beacon_received_witness:
  "\<exists>b r'. bt_mesh_beacon_create bc_sender bc_iv6 bc_buf = Some b \<and> bt_mesh_beacon_recv bc_cfg bc_env b (bc_node 96) = Some r' \<and> bm_iv_index (bc_mesh r') = 6"
  using beacon_received [OF bc_example_sender(1-3) bc_example_keys(1) [symmetric] bc_example_sender(4), of bc_iv6 0 0 "bc_node 96" bc_cfg bc_env] bc_example_after
  by (simp add: bc_example_keys bc_example_sender bc_example_receiver link_subnet_def Let_def) auto

theorem beacon_effect_authenticated_witness:
  "\<exists>b r' dat i k. bt_mesh_beacon_create bc_sender bc_iv6 bc_buf = Some b \<and> bt_mesh_beacon_recv bc_cfg bc_env b (bc_node 96) = Some r' \<and>
    nb_bytes b = BEACON_TYPE_SECURE # dat \<and> k \<in> set (sn_keys (bc_subs (bc_node 96) ! i)) \<and>
    bt_mesh_beacon_auth (sk_beacon k) (hd dat) (sk_net_id k) (sys_get_be32 (take 4 (drop 9 dat))) = Inr (take 8 (drop 13 dat))"
proof -
  obtain b r' where b: "bt_mesh_beacon_create bc_sender bc_iv6 bc_buf = Some b" and r: "bt_mesh_beacon_recv bc_cfg bc_env b (bc_node 96) = Some r'"
    and iv: "bm_iv_index (bc_mesh r') = 6" using bc_example_reaches by (elim exE conjE)
  have wf: "wf_buf b" using beacon_create_pdu [OF bc_example_sender(1-3), of bc_sender bc_iv6] b by auto
  have "bc_mesh r' \<noteq> bc_mesh (bc_node 96)" using iv by (auto simp: bc_example_keys node_example_def)
  then show ?thesis using beacon_effect_authenticated [OF wf r] b r by blast
qed

lemma bc_example_parse:
  "beacon_pdu bc_sender bc_iv6 = BEACON_TYPE_SECURE # 2 # replicate 8 0 @ sys_put_be32 6 @ sn_auth bc_sender" "length (sn_auth bc_sender) = 8"
  by (simp_all add: beacon_pdu_def bc_example_keys zero_subnet_keys_def) (simp_all add: bc_sender_def)

theorem early_iv_update_lost_witness:
  "\<exists>b s1 s3. bt_mesh_beacon_create bc_sender bc_iv6 bc_buf = Some b \<and> bt_mesh_beacon_recv bc_cfg bc_env b (bc_node 0) = Some s1 \<and>
    bt_mesh_beacon_recv bc_cfg bc_env b (bc_set_mesh ((bc_mesh s1)\<lparr>bm_ivu_duration := 96\<rparr>) s1) = Some s3 \<and> bm_iv_index (bc_mesh s3) = 5"
proof -
  obtain b where b: "bt_mesh_beacon_create bc_sender bc_iv6 bc_buf = Some b" "wf_buf b" "nb_bytes b = beacon_pdu bc_sender bc_iv6"
    using beacon_create_pdu [OF bc_example_sender(1-3), of bc_sender bc_iv6] by auto
  let ?dat = "2 # replicate 8 0 @ sys_put_be32 6 @ sn_auth bc_sender"
  have be: "length (sys_put_be32 6) = 4" "sys_get_be32 (sys_put_be32 6) = 6" by (simp_all add: be32.length_put be32.get_put_id)
  have u: "BT_MESH_IV_UPDATE 2" by code_simp
  have pdu: "nb_bytes b = BEACON_TYPE_SECURE # ?dat" "length ?dat = 21" "BT_MESH_IV_UPDATE (hd ?dat)"
    using b(3) bc_example_parse be u by simp_all
  have p: "bp_iv_index (beacon_parse ?dat) = 6" "bp_flags (beacon_parse ?dat) = 2" "take 8 (bp_net_id (beacon_parse ?dat)) = replicate 8 0"
      "take 8 (bp_auth (beacon_parse ?dat)) = sn_auth bc_sender" using be bc_example_parse(2) by (simp_all add: beacon_parse_def)
  have cache: "bt_mesh_subnet_find (Some (cache_check ?dat)) (bc_keys (bc_node 0)) = None" using bc_example_receiver(2) [of 0] bc_example_parse(1) by simp
  have key: "subnet_by_id (beacon_parse ?dat) (bc_subs (bc_node 0) ! 0) = Some False"
    "bt_mesh_subnet_find (Some (\<lambda>sub. subnet_by_id (beacon_parse ?dat) sub \<noteq> None)) (bc_keys (bc_node 0)) = Some 0"
    using knows_key_found [OF bc_example_receiver(1) [of 0], of "beacon_parse ?dat"] p bc_example_sender(5) by (simp_all add: zero_subnet_keys_def)
  obtain s1 where s1: "bt_mesh_beacon_recv bc_cfg bc_env b (bc_node 0) = Some s1"
    and later: "\<forall>h be'. 96 \<le> unat h \<longrightarrow> (\<exists>s3. bt_mesh_beacon_recv bc_cfg be' b (bc_set_mesh ((bc_mesh s1)\<lparr>bm_ivu_duration := h\<rparr>) s1) = Some s3 \<and>
      bm_iv_index (bc_mesh s3) = 5)"
    using early_iv_update_lost [OF b(2) pdu(1,2) cache key(2,1) _ _ pdu(3), of bc_cfg bc_env] p(1)
    by (auto simp: bc_example_keys link_subnet_def node_example_def BT_MESH_IVU_MIN_HOURS_def Let_def)
  have "96 \<le> unat (96 :: u8)" by simp
  with later have "\<exists>s3. bt_mesh_beacon_recv bc_cfg bc_env b (bc_set_mesh ((bc_mesh s1)\<lparr>bm_ivu_duration := 96\<rparr>) s1) = Some s3 \<and> bm_iv_index (bc_mesh s3) = 5" by blast
  then show ?thesis using b(1) s1 by auto
qed

end
