(* ===== verification/Mesh_Px_Sar.thy ===== *)
theory Mesh_Px_Sar
  imports Mesh_Px_Gatt Mesh_Bc_Auth
begin

text \<open>
  Segmentation and reassembly over a GATT connection (\<open>core/src/mesh/proxy_msg.c\<close>): the PDUs that
  \<open>bt_mesh_proxy_msg_send\<close> makes of a message, that the peer completes the same message from them,
  and how much a client has to send to write past its buffer.
\<close>

section \<open>The PDUs of a message\<close>

function proxy_rest_pdus :: "nat \<Rightarrow> u8 \<Rightarrow> bytes \<Rightarrow> bytes list" where
  "proxy_rest_pdus mtu type bs =
     (if bs = [] \<or> mtu < 2 then []
      else if length bs + 1 \<le> mtu then [PDU_HDR SAR_LAST type # bs]
      else (PDU_HDR SAR_CONT type # take (mtu - 1) bs) # proxy_rest_pdus mtu type (drop (mtu - 1) bs))"
  by pat_completeness auto
termination
  by (relation "measure (\<lambda>(_, _, bs). length bs)") auto

declare proxy_rest_pdus.simps [simp del]

definition proxy_pdus :: "nat \<Rightarrow> u8 \<Rightarrow> bytes \<Rightarrow> bytes list" where
  "proxy_pdus mtu type bs =
     (if length bs < mtu then [PDU_HDR SAR_COMPLETE type # bs]
      else (PDU_HDR SAR_FIRST type # take (mtu - 1) bs) # proxy_rest_pdus mtu type (drop (mtu - 1) bs))"

definition pdus_out :: "nat \<Rightarrow> bool \<Rightarrow> bytes list \<Rightarrow> proxy_out list" where
  "pdus_out conn end_cb ps = map (\<lambda>i. Gatt_notify conn (ps ! i) (end_cb \<and> Suc i = length ps)) [0..<length ps]"

lemma pdus_out_simps: "pdus_out conn end_cb [] = []" "pdus_out conn end_cb [p] = [Gatt_notify conn p end_cb]"
  "ps \<noteq> [] \<Longrightarrow> pdus_out conn end_cb (p # ps) = Gatt_notify conn p False # pdus_out conn end_cb ps"
  by (auto simp: pdus_out_def upt_conv_Cons map_Suc_upt [symmetric] comp_def simp del: upt_Suc)

text \<open>A connection on which nothing fails.\<close>

definition delivers :: "proxy_env \<Rightarrow> proxy_state \<Rightarrow> bool" where
  "delivers pe s \<longleftrightarrow> (\<forall>n. pe_notify pe n = None) \<and> px_gatt_svc s \<noteq> MESH_GATT_NONE"

text \<open>
  Handing over notifications one after the other from position \<open>n\<close> of the log on, until one
  fails; the failing one is the last.  Without a registered service there is no attempt.
\<close>

fun notify_run :: "proxy_env \<Rightarrow> mesh_gatt \<Rightarrow> nat \<Rightarrow> proxy_out list \<Rightarrow> errno option \<times> proxy_out list" where
  "notify_run pe svc n [] = (None, [])"
| "notify_run pe svc n (x # xs) =
     (if svc = MESH_GATT_NONE then (Some ENOENT, [])
      else case pe_notify pe n of Some e \<Rightarrow> (Some e, [x])
           | None \<Rightarrow> (let (err, ys) = notify_run pe svc (Suc n) xs in (err, x # ys)))"

lemma notify_run_all: "\<forall>n. pe_notify pe n = None \<Longrightarrow> svc \<noteq> MESH_GATT_NONE \<Longrightarrow> notify_run pe svc n xs = (None, xs)"
  by (induction xs arbitrary: n) simp_all

lemma push_u8_bytes:
  assumes "wf_buf b" "0 < nb_data b"
  shows "\<exists>b'. net_buf_simple_push_u8 v b = Some b' \<and> wf_buf b' \<and> nb_bytes b' = v # nb_bytes b \<and> nb_data b' + 1 = nb_data b \<and> nb_len b' = nb_len b + 1"
proof -
  have "net_buf_simple_push_u8 v b = net_buf_simple_push_mem [v] b" by (simp add: net_buf_simple_push_u8_def net_buf_simple_push_mem_def)
  moreover obtain b' where b': "net_buf_simple_push_mem [v] b = Some b'" "wf_buf b'" "nb_bytes b' = [v] @ nb_bytes b" "nb_data b' + length [v] = nb_data b"
    using push_bytes [OF assms(1), of "[v]"] assms(2) by auto
  ultimately show ?thesis using length_nb_bytes [OF b'(2)] length_nb_bytes [OF assms(1)] by auto
qed

lemma pull_rest:
  assumes "wf_buf b" "n \<le> nb_len b"
  shows "\<exists>p b'. net_buf_simple_pull n b = Some (p, b') \<and> wf_buf b' \<and> nb_bytes b' = drop n (nb_bytes b) \<and> nb_data b' = nb_data b + n"
  using assms by (auto simp: net_buf_simple_pull_def wf_buf_def nb_bytes_def nb_read_def drop_take min_def add.commute)

definition notified :: "proxy_env \<Rightarrow> proxy_out list \<Rightarrow> net_buf_simple \<Rightarrow> proxy_state \<Rightarrow> (errno option \<times> net_buf_simple \<times> proxy_state) option" where
  "notified pe xs msg s = (case notify_run pe (px_gatt_svc s) (length (px_out s)) xs of (err, ys) \<Rightarrow> Some (err, msg, s\<lparr>px_out := px_out s @ ys\<rparr>))"

text \<open>The first of several notifications, followed by the rest if it succeeds.\<close>

lemma notify_first:
  assumes "loop (px_output (Gatt_notify conn dat False) s) = notified pe xs m' (px_output (Gatt_notify conn dat False) s)"
  shows "\<exists>msg'. (case proxy_send pe conn dat False s of (err, s) \<Rightarrow> if err \<noteq> None then Some (err, m1, s) else loop s) =
    notified pe (Gatt_notify conn dat False # xs) msg' s"
proof (cases "px_gatt_svc s = MESH_GATT_NONE")
  case True
  then show ?thesis by (simp add: proxy_send_def notified_def)
next
  case False
  then show ?thesis using assms
    by (cases "pe_notify pe (length (px_out s))") (auto simp: proxy_send_def notified_def px_output_def split: prod.split)
qed

lemma proxy_send_loop_notified:
  assumes "wf_buf msg" "0 < nb_data msg" "2 \<le> mtu"
  shows "\<exists>msg'. proxy_send_loop pe conn mtu type e msg s = notified pe (pdus_out conn e (proxy_rest_pdus mtu type (nb_bytes msg))) msg' s"
  using assms
proof (induction "nb_len msg" arbitrary: msg s rule: less_induct)
  case less
  have len: "length (nb_bytes msg) = nb_len msg" using less.prems(1) by simp
  consider (none) "nb_len msg = 0" | (last) "nb_len msg \<noteq> 0" "nb_len msg + 1 \<le> mtu" | (more) "nb_len msg \<noteq> 0" "\<not> nb_len msg + 1 \<le> mtu" by blast
  then show ?case
  proof cases
    case none
    then show ?thesis using len by (subst proxy_send_loop.simps, subst proxy_rest_pdus.simps) (auto simp: pdus_out_simps notified_def)
  next
    case last
    obtain m1 where m1: "net_buf_simple_push_u8 (PDU_HDR SAR_LAST type) msg = Some m1" "nb_bytes m1 = PDU_HDR SAR_LAST type # nb_bytes msg"
      using push_u8_bytes [OF less.prems(1,2)] by blast
    have "nb_bytes msg \<noteq> []" using last(1) len by auto
    then have "proxy_send_loop pe conn mtu type e msg s = notified pe (pdus_out conn e (proxy_rest_pdus mtu type (nb_bytes msg))) m1 s"
      using last m1 len less.prems(3)
      by (subst proxy_send_loop.simps, subst proxy_rest_pdus.simps) (simp add: proxy_send_def pdus_out_simps px_output_def notified_def split: option.split)
    then show ?thesis ..
  next
    case more
    obtain m1 where m1: "net_buf_simple_push_u8 (PDU_HDR SAR_CONT type) msg = Some m1" "wf_buf m1" "nb_bytes m1 = PDU_HDR SAR_CONT type # nb_bytes msg"
        "nb_data m1 + 1 = nb_data msg" "nb_len m1 = nb_len msg + 1"
      using push_u8_bytes [OF less.prems(1,2)] by blast
    have "mtu \<le> nb_len m1" using more(2) m1(5) by simp
    from pull_rest [OF m1(2) this] obtain p m2 where m2: "net_buf_simple_pull mtu m1 = Some (p, m2)" "wf_buf m2" "nb_bytes m2 = drop mtu (nb_bytes m1)"
        "nb_data m2 = nb_data m1 + mtu" by blast
    obtain k where k: "mtu = Suc k" "1 \<le> k" using less.prems(3) by (cases mtu) auto
    have rest: "nb_bytes m2 = drop k (nb_bytes msg)" "take mtu (nb_bytes m1) = PDU_HDR SAR_CONT type # take k (nb_bytes msg)"
      using m2(3) m1(3) k(1) by simp_all
    have l2: "nb_len m2 = nb_len msg - k" using rest(1) length_nb_bytes [OF m2(2)] len by simp
    have smaller: "nb_len m2 < nb_len msg" using l2 k(2) more(1) by simp
    have r2: "proxy_rest_pdus mtu type (nb_bytes m2) \<noteq> []"
      using l2 more(2) k length_nb_bytes [OF m2(2)] less.prems(3) by (subst proxy_rest_pdus.simps) auto
    let ?s1 = "px_output (Gatt_notify conn (take mtu (nb_bytes m1)) False) s"
    have "0 < nb_data m2" using m2(4) less.prems(3) by simp
    from less.hyps [OF smaller m2(2) this less.prems(3), of ?s1] obtain m' where
      m': "proxy_send_loop pe conn mtu type e m2 ?s1 = notified pe (pdus_out conn e (proxy_rest_pdus mtu type (nb_bytes m2))) m' ?s1" by blast
    have "proxy_rest_pdus mtu type (nb_bytes msg) = take mtu (nb_bytes m1) # proxy_rest_pdus mtu type (nb_bytes m2)"
      using more len less.prems(3) rest k(1) by (subst proxy_rest_pdus.simps) auto
    then have out: "pdus_out conn e (proxy_rest_pdus mtu type (nb_bytes msg)) =
        Gatt_notify conn (take mtu (nb_bytes m1)) False # pdus_out conn e (proxy_rest_pdus mtu type (nb_bytes m2))" using r2 by (simp add: pdus_out_simps)
    have "proxy_send_loop pe conn mtu type e msg s =
        (case proxy_send pe conn (take mtu (nb_bytes m1)) False s of (err, s) \<Rightarrow>
          if err \<noteq> None then Some (err, m1, s) else proxy_send_loop pe conn mtu type e m2 s)"
      using more m1(1) m2(1) by (subst proxy_send_loop.simps) (simp split: prod.split)
    then show ?thesis unfolding out using notify_first [where loop = "proxy_send_loop pe conn mtu type e m2", OF m'] by metis
  qed
qed

lemma proxy_msg_send_notified:
  assumes "wf_buf msg" "0 < nb_data msg" "pr_conn (pc_cli (px_clients s ! c)) = Some conn" "2 \<le> unat (pe_mtu pe conn - 3)"
  shows "\<exists>msg'. bt_mesh_proxy_msg_send pe c type msg e s =
    notified pe (pdus_out conn e (proxy_pdus (unat (pe_mtu pe conn - 3)) type (nb_bytes msg))) msg' s"
proof -
  let ?mtu = "unat (pe_mtu pe conn - 3)"
  have len: "length (nb_bytes msg) = nb_len msg" using assms(1) by simp
  show ?thesis
  proof (cases "nb_len msg < ?mtu")
    case True
    obtain m1 where "net_buf_simple_push_u8 (PDU_HDR SAR_COMPLETE type) msg = Some m1" "nb_bytes m1 = PDU_HDR SAR_COMPLETE type # nb_bytes msg"
      using push_u8_bytes [OF assms(1,2)] by blast
    then have "bt_mesh_proxy_msg_send pe c type msg e s = notified pe (pdus_out conn e (proxy_pdus ?mtu type (nb_bytes msg))) m1 s"
      using True assms(3) len
      by (simp add: bt_mesh_proxy_msg_send_def Let_def proxy_send_def proxy_pdus_def pdus_out_simps px_output_def notified_def split: option.split)
    then show ?thesis ..
  next
    case False
    obtain m1 where m1: "net_buf_simple_push_u8 (PDU_HDR SAR_FIRST type) msg = Some m1" "wf_buf m1" "nb_bytes m1 = PDU_HDR SAR_FIRST type # nb_bytes msg"
        "nb_len m1 = nb_len msg + 1"
      using push_u8_bytes [OF assms(1,2)] by blast
    have "?mtu \<le> nb_len m1" using False m1(4) by simp
    from pull_rest [OF m1(2) this] obtain p m2 where m2: "net_buf_simple_pull ?mtu m1 = Some (p, m2)" "wf_buf m2" "nb_bytes m2 = drop ?mtu (nb_bytes m1)"
        "nb_data m2 = nb_data m1 + ?mtu" by blast
    obtain k where k: "?mtu = Suc k" "1 \<le> k" using assms(4) by (cases ?mtu) auto
    have rest: "nb_bytes m2 = drop k (nb_bytes msg)" "take ?mtu (nb_bytes m1) = PDU_HDR SAR_FIRST type # take k (nb_bytes msg)"
      using m2(3) m1(3) k(1) by simp_all
    have r2: "proxy_rest_pdus ?mtu type (nb_bytes m2) \<noteq> []"
      using rest(1) False k len assms(4) by (subst proxy_rest_pdus.simps) auto
    have d2: "0 < nb_data m2" using m2(4) assms(4) by simp
    let ?s1 = "px_output (Gatt_notify conn (take ?mtu (nb_bytes m1)) False) s"
    obtain m' where m': "proxy_send_loop pe conn ?mtu type e m2 ?s1 = notified pe (pdus_out conn e (proxy_rest_pdus ?mtu type (nb_bytes m2))) m' ?s1"
      using proxy_send_loop_notified [OF m2(2) d2 assms(4)] by blast
    have "proxy_pdus ?mtu type (nb_bytes msg) = take ?mtu (nb_bytes m1) # proxy_rest_pdus ?mtu type (nb_bytes m2)"
      using False len rest k(1) by (simp add: proxy_pdus_def)
    then have out: "pdus_out conn e (proxy_pdus ?mtu type (nb_bytes msg)) =
        Gatt_notify conn (take ?mtu (nb_bytes m1)) False # pdus_out conn e (proxy_rest_pdus ?mtu type (nb_bytes m2))" using r2 by (simp add: pdus_out_simps)
    have "bt_mesh_proxy_msg_send pe c type msg e s =
        (case proxy_send pe conn (take ?mtu (nb_bytes m1)) False s of (err, s) \<Rightarrow>
          if err \<noteq> None then Some (err, m1, s) else proxy_send_loop pe conn ?mtu type e m2 s)"
      using False assms(3) m1(1) m2(1) by (simp add: bt_mesh_proxy_msg_send_def Let_def split: prod.split)
    then show ?thesis unfolding out using notify_first [where loop = "proxy_send_loop pe conn ?mtu type e m2", OF m'] by metis
  qed
qed

lemma proxy_msg_send_pdus:
  assumes "wf_buf msg" "0 < nb_data msg" "pr_conn (pc_cli (px_clients s ! c)) = Some conn" "2 \<le> unat (pe_mtu pe conn - 3)" "delivers pe s"
  shows "\<exists>msg'. bt_mesh_proxy_msg_send pe c type msg e s =
    Some (None, msg', s\<lparr>px_out := px_out s @ pdus_out conn e (proxy_pdus (unat (pe_mtu pe conn - 3)) type (nb_bytes msg))\<rparr>)"
  using proxy_msg_send_notified [OF assms(1-4), of type e] assms(5) by (auto simp: notified_def delivers_def notify_run_all)

section \<open>Reassembly\<close>

fun recv_pdus :: "proxy_cfg \<Rightarrow> proxy_env \<Rightarrow> nat \<Rightarrow> bytes list \<Rightarrow> proxy_state \<Rightarrow> proxy_state option" where
  "recv_pdus po pe c [] s = Some s"
| "recv_pdus po pe c (p # ps) s = do { (_, s) \<leftarrow> bt_mesh_proxy_msg_recv po pe c p s; recv_pdus po pe c ps s }"

lemma pdu_hdr:
  "PDU_SAR (PDU_HDR SAR_COMPLETE type # bs) = SAR_COMPLETE" "PDU_SAR (PDU_HDR SAR_FIRST type # bs) = SAR_FIRST"
  "PDU_SAR (PDU_HDR SAR_CONT type # bs) = SAR_CONT" "PDU_SAR (PDU_HDR SAR_LAST type # bs) = SAR_LAST"
  "PDU_TYPE (PDU_HDR SAR_COMPLETE type # bs) = type AND mask 6" "PDU_TYPE (PDU_HDR SAR_FIRST type # bs) = type AND mask 6"
  "PDU_TYPE (PDU_HDR SAR_CONT type # bs) = type AND mask 6" "PDU_TYPE (PDU_HDR SAR_LAST type # bs) = type AND mask 6"
proof -
  have sar: "drop_bit 6 (PDU_HDR sar type) = take_bit 2 sar" for sar
    by (rule bit_word_eqI) (auto simp: PDU_HDR_def bit_simps dest: bit_imp_le_length)
  have tp: "PDU_HDR sar type AND mask 6 = type AND mask 6" for sar
    by (rule bit_word_eqI) (auto simp: PDU_HDR_def bit_simps)
  have t: "SAR_COMPLETE = take_bit 2 SAR_COMPLETE" "SAR_FIRST = take_bit 2 SAR_FIRST" "SAR_CONT = take_bit 2 SAR_CONT" "SAR_LAST = take_bit 2 SAR_LAST"
    by code_simp+
  show "PDU_SAR (PDU_HDR SAR_COMPLETE type # bs) = SAR_COMPLETE" "PDU_SAR (PDU_HDR SAR_FIRST type # bs) = SAR_FIRST"
    "PDU_SAR (PDU_HDR SAR_CONT type # bs) = SAR_CONT" "PDU_SAR (PDU_HDR SAR_LAST type # bs) = SAR_LAST"
    unfolding PDU_SAR_def nth_Cons_0 sar t [symmetric] by (rule refl)+
  show "PDU_TYPE (PDU_HDR SAR_COMPLETE type # bs) = type AND mask 6" "PDU_TYPE (PDU_HDR SAR_FIRST type # bs) = type AND mask 6"
    "PDU_TYPE (PDU_HDR SAR_CONT type # bs) = type AND mask 6" "PDU_TYPE (PDU_HDR SAR_LAST type # bs) = type AND mask 6"
    using tp by (simp_all add: PDU_TYPE_def)
qed

lemma set_role_role: "c < length (px_clients s) \<Longrightarrow> pc_cli (px_clients (px_set_role c r s) ! c) = r"
  "length (px_clients (px_set_role c r s)) = length (px_clients s)" "px_set_role c r' (px_set_role c r s) = px_set_role c r' s"
  by (cases "c < length (px_clients s)"; simp add: px_set_role_def px_upd_client_def list_update_beyond)+

lemma recv_last: "recv_pdus po pe c [p] s = map_option snd (bt_mesh_proxy_msg_recv po pe c p s)"
  by (simp split: Option.bind_splits option.split)

lemma recv_complete:
  assumes "proxy_sar_recv p (pc_cli (px_clients s ! c)) = Some (None, True, role)"
  shows "recv_pdus po pe c [p] s = proxy_complete_pdu po pe c (px_set_role c role s)"
  unfolding recv_last by (simp add: bt_mesh_proxy_msg_recv_def assms split: Option.bind_splits)

lemma recv_part:
  assumes "proxy_sar_recv p (pc_cli (px_clients s ! c)) = Some (None, False, role)"
  shows "recv_pdus po pe c (p # ps) s = recv_pdus po pe c ps (px_set_role c role s)"
  by (simp add: bt_mesh_proxy_msg_recv_def assms)

lemma rest_recv:
  assumes "c < length (px_clients s)" "role = pc_cli (px_clients s ! c)" "wf_buf (pr_buf role)" "nb_len (pr_buf role) \<noteq> 0"
    and "pr_msg_type role = type AND mask 6" "bs \<noteq> []" "length bs \<le> net_buf_simple_tailroom (pr_buf role)" "2 \<le> mtu"
  shows "\<exists>b. wf_buf b \<and> nb_bytes b = nb_bytes (pr_buf role) @ bs \<and>
    recv_pdus po pe c (proxy_rest_pdus mtu type bs) s = proxy_complete_pdu po pe c (px_set_role c (role\<lparr>pr_sar_timer := False, pr_buf := b\<rparr>) s)"
  using assms
proof (induction "length bs" arbitrary: bs s role rule: less_induct)
  case less
  note role = less.prems(2)
  show ?case
  proof (cases "length bs + 1 \<le> mtu")
    case True
    have pd: "proxy_rest_pdus mtu type bs = [PDU_HDR SAR_LAST type # bs]" using True less.prems(6,8) by (subst proxy_rest_pdus.simps) simp
    obtain b where b: "net_buf_simple_add_mem bs (pr_buf role) = Some b" "wf_buf b" "nb_bytes b = nb_bytes (pr_buf role) @ bs"
      using add_bytes [OF less.prems(3,7)] by auto
    have "proxy_sar_recv (PDU_HDR SAR_LAST type # bs) (pc_cli (px_clients s ! c)) = Some (None, True, role\<lparr>pr_sar_timer := False, pr_buf := b\<rparr>)"
      using less.prems(4,5) b(1) role pdu_hdr(4,8) [of type bs] by (simp add: proxy_sar_recv_def)
    from recv_complete [OF this] show ?thesis unfolding pd using b by blast
  next
    case False
    obtain k where k: "mtu = Suc k" "1 \<le> k" using less.prems(8) by (cases mtu) auto
    let ?p = "PDU_HDR SAR_CONT type # take k bs"
    have pd: "proxy_rest_pdus mtu type bs = ?p # proxy_rest_pdus mtu type (drop k bs)" using False less.prems(6) k by (subst proxy_rest_pdus.simps) simp
    have "length (take k bs) \<le> net_buf_simple_tailroom (pr_buf role)" using less.prems(7) by simp
    from add_bytes [OF less.prems(3) this] obtain b where b: "net_buf_simple_add_mem (take k bs) (pr_buf role) = Some b" "wf_buf b"
      "nb_bytes b = nb_bytes (pr_buf role) @ take k bs" "net_buf_simple_tailroom b = net_buf_simple_tailroom (pr_buf role) - length (take k bs)"
      "nb_len b = nb_len (pr_buf role) + length (take k bs)" by (elim exE conjE)
    let ?role = "role\<lparr>pr_sar_timer := True, pr_buf := b\<rparr>" and ?s = "px_set_role c (role\<lparr>pr_sar_timer := True, pr_buf := b\<rparr>) s"
    have step: "proxy_sar_recv ?p (pc_cli (px_clients s ! c)) = Some (None, False, ?role)"
      using less.prems(4,5) b(1) role pdu_hdr(3,7) [of type "take k bs"] by (simp add: proxy_sar_recv_def)
    have "length (drop k bs) < length bs" using False k by simp
    moreover have "?role = pc_cli (px_clients ?s ! c)" using less.prems(1) by (simp add: set_role_role)
    moreover have "nb_len (pr_buf ?role) \<noteq> 0" "pr_msg_type ?role = type AND mask 6" "drop k bs \<noteq> []" "wf_buf (pr_buf ?role)"
        "length (drop k bs) \<le> net_buf_simple_tailroom (pr_buf ?role)"
      using less.prems(4,5,7) b False k by auto
    ultimately obtain b' where "wf_buf b'" "nb_bytes b' = nb_bytes b @ drop k bs"
        "recv_pdus po pe c (proxy_rest_pdus mtu type (drop k bs)) ?s = proxy_complete_pdu po pe c (px_set_role c (?role\<lparr>pr_sar_timer := False, pr_buf := b'\<rparr>) ?s)"
      using less.hyps [of "drop k bs" ?s ?role] less.prems(1,8) by (auto simp: set_role_role)
    then show ?thesis unfolding pd recv_part [OF step] using b(3) by (auto simp: set_role_role)
  qed
qed

text \<open>
  C33: proxy PDUs are reassembled.  Over a connection whose MTU leaves room for a byte of payload
  \<open>bt_mesh_proxy_msg_send\<close> ends and hands over PDUs of at most that size; a client that gets
  them in order, with nothing pending and enough room, completes exactly the message with its
  type, at the last of them.
\<close>

theorem proxy_message_reassembled:
  assumes "wf_buf msg" "0 < nb_data msg" "pr_conn (pc_cli (px_clients s ! c)) = Some conn" "2 \<le> unat (pe_mtu pe conn - 3)" "delivers pe s"
    and "c' < length (px_clients r)" "role = pc_cli (px_clients r ! c')" "wf_buf (pr_buf role)" "nb_len (pr_buf role) = 0"
    and "nb_len msg \<le> net_buf_simple_tailroom (pr_buf role)"
  shows "\<exists>msg' ps b t. bt_mesh_proxy_msg_send pe c type msg end_cb s = Some (None, msg', s\<lparr>px_out := px_out s @ pdus_out conn end_cb ps\<rparr>) \<and>
    (\<forall>p \<in> set ps. length p \<le> unat (pe_mtu pe conn - 3)) \<and> wf_buf b \<and> nb_bytes b = nb_bytes msg \<and>
    recv_pdus po pe' c' ps r =
      proxy_complete_pdu po pe' c' (px_set_role c' (role\<lparr>pr_msg_type := type AND mask 6, pr_sar_timer := t, pr_buf := b\<rparr>) r)"
proof -
  let ?mtu = "unat (pe_mtu pe conn - 3)" and ?bs = "nb_bytes msg"
  have len: "length ?bs = nb_len msg" using assms(1) by simp
  have empty: "nb_bytes (pr_buf role) = []" using assms(9) by (simp add: nb_bytes_def nb_read_def)
  obtain msg' where send: "bt_mesh_proxy_msg_send pe c type msg end_cb s = Some (None, msg', s\<lparr>px_out := px_out s @ pdus_out conn end_cb (proxy_pdus ?mtu type ?bs)\<rparr>)"
    using proxy_msg_send_pdus [OF assms(1-5)] by blast
  have rest: "\<forall>p \<in> set (proxy_rest_pdus ?mtu type bs). length p \<le> ?mtu" for bs
    using assms(4) by (induction ?mtu type bs rule: proxy_rest_pdus.induct) (subst proxy_rest_pdus.simps, auto)
  then have small: "\<forall>p \<in> set (proxy_pdus ?mtu type ?bs). length p \<le> ?mtu" using assms(4) by (auto simp: proxy_pdus_def)
  have "\<exists>b t. wf_buf b \<and> nb_bytes b = ?bs \<and> recv_pdus po pe' c' (proxy_pdus ?mtu type ?bs) r =
      proxy_complete_pdu po pe' c' (px_set_role c' (role\<lparr>pr_msg_type := type AND mask 6, pr_sar_timer := t, pr_buf := b\<rparr>) r)"
  proof (cases "length ?bs < ?mtu")
    case True
    have "length ?bs \<le> net_buf_simple_tailroom (pr_buf role)" using assms(10) len by simp
    from add_bytes [OF assms(8) this] obtain b where b: "net_buf_simple_add_mem ?bs (pr_buf role) = Some b" "wf_buf b" "nb_bytes b = ?bs" using empty by auto
    have "proxy_sar_recv (PDU_HDR SAR_COMPLETE type # ?bs) (pc_cli (px_clients r ! c')) =
        Some (None, True, role\<lparr>pr_msg_type := type AND mask 6, pr_sar_timer := pr_sar_timer role, pr_buf := b\<rparr>)"
      using b(1) assms(7,9) pdu_hdr(1,5) [of type ?bs] by (simp add: proxy_sar_recv_def)
    from recv_complete [OF this] have "recv_pdus po pe' c' (proxy_pdus ?mtu type ?bs) r =
        proxy_complete_pdu po pe' c' (px_set_role c' (role\<lparr>pr_msg_type := type AND mask 6, pr_sar_timer := pr_sar_timer role, pr_buf := b\<rparr>) r)"
      unfolding proxy_pdus_def using True by (simp only: if_True)
    then show ?thesis using b by blast
  next
    case False
    obtain k where k: "?mtu = Suc k" "1 \<le> k" using assms(4) by (cases ?mtu) auto
    let ?p = "PDU_HDR SAR_FIRST type # take k ?bs"
    have "length (take k ?bs) \<le> net_buf_simple_tailroom (pr_buf role)" using assms(10) len by simp
    from add_bytes [OF assms(8) this] obtain b where b: "net_buf_simple_add_mem (take k ?bs) (pr_buf role) = Some b" "wf_buf b"
      "nb_bytes b = take k ?bs" "net_buf_simple_tailroom b = net_buf_simple_tailroom (pr_buf role) - length (take k ?bs)" "nb_len b = nb_len (pr_buf role) + length (take k ?bs)"
      using empty by auto
    let ?role = "role\<lparr>pr_sar_timer := True, pr_msg_type := type AND mask 6, pr_buf := b\<rparr>"
    have step: "proxy_sar_recv ?p (pc_cli (px_clients r ! c')) = Some (None, False, ?role)"
      using b(1) assms(7,9) pdu_hdr(2,6) [of type "take k ?bs"] by (simp add: proxy_sar_recv_def)
    have pd: "proxy_pdus ?mtu type ?bs = ?p # proxy_rest_pdus ?mtu type (drop k ?bs)" using False k by (simp add: proxy_pdus_def)
    have pre: "nb_len (pr_buf ?role) \<noteq> 0" "drop k ?bs \<noteq> []" "length (drop k ?bs) \<le> net_buf_simple_tailroom (pr_buf ?role)"
      using b(4,5) False k len assms(10) by auto
    obtain b' where "wf_buf b'" "nb_bytes b' = nb_bytes b @ drop k ?bs" "recv_pdus po pe' c' (proxy_rest_pdus ?mtu type (drop k ?bs)) (px_set_role c' ?role r) =
        proxy_complete_pdu po pe' c' (px_set_role c' (?role\<lparr>pr_sar_timer := False, pr_buf := b'\<rparr>) (px_set_role c' ?role r))"
      using rest_recv [of c' "px_set_role c' ?role r" ?role type "drop k ?bs" ?mtu po pe'] pre b(2) assms(4,6) by (auto simp: set_role_role)
    then show ?thesis unfolding pd recv_part [OF step] using b(3) by (auto simp: set_role_role)
  qed
  then show ?thesis using send small by blast
qed

section \<open>Too much data\<close>

fun gatt_writes :: "proxy_cfg \<Rightarrow> proxy_env \<Rightarrow> nat \<Rightarrow> bool \<Rightarrow> bytes list \<Rightarrow> proxy_state \<Rightarrow> proxy_state option" where
  "gatt_writes po pe conn is_prov [] s = Some s"
| "gatt_writes po pe conn is_prov (d # ds) s = do { (_, s) \<leftarrow> gatt_recv po pe conn is_prov d s; gatt_writes po pe conn is_prov ds s }"

lemma find_client_cong:
  assumes "map (\<lambda>cl. pr_conn (pc_cli cl)) (px_clients s) = map (\<lambda>cl. pr_conn (pc_cli cl)) (px_clients s')"
  shows "find_client conn s = find_client conn s'"
proof -
  have "find_index (\<lambda>cl. pr_conn (pc_cli cl) = conn) cls = find_index (\<lambda>x. x = conn) (map (\<lambda>cl. pr_conn (pc_cli cl)) cls)" for cls
    by (induction cls) auto
  then show ?thesis using assms unfolding find_client_def by metis
qed

lemma find_client_role: "pr_conn role = pr_conn (pc_cli (px_clients s ! c)) \<Longrightarrow> find_client conn (px_set_role c role s) = find_client conn s"
  by (rule find_client_cong, cases "c < length (px_clients s)")
    (auto simp: px_set_role_def px_upd_client_def map_update list_update_same_conv list_update_beyond)

lemma gatt_recv_part:
  assumes "find_client (Some conn) s = Some c" "d \<noteq> []" "is_prov \<longleftrightarrow> PDU_TYPE d = BT_MESH_PROXY_PROV"
    and "proxy_sar_recv d (pc_cli (px_clients s ! c)) = Some (None, False, role)"
  shows "gatt_recv po pe conn is_prov d s = Some (Inr (length d), px_set_role c role s)"
  using assms by (auto simp: gatt_recv_def bt_mesh_proxy_msg_recv_def)

lemma gatt_recv_overflow:
  assumes "find_client (Some conn) s = Some c" "d \<noteq> []" "is_prov \<longleftrightarrow> PDU_TYPE d = BT_MESH_PROXY_PROV"
    and "proxy_sar_recv d (pc_cli (px_clients s ! c)) = None"
  shows "gatt_recv po pe conn is_prov d s = None"
  using assms by (auto simp: gatt_recv_def bt_mesh_proxy_msg_recv_def)

lemma add_mem_None: "net_buf_simple_add_mem bs b = None \<longleftrightarrow> net_buf_simple_tailroom b < length bs"
  by (auto simp: net_buf_simple_add_mem_def net_buf_simple_add_def Let_def)

lemma gatt_writes_conts:
  assumes "find_client (Some conn) s = Some c" "role = pc_cli (px_clients s ! c)" "wf_buf (pr_buf role)" "nb_len (pr_buf role) \<noteq> 0"
    and "pr_msg_type role = type AND mask 6" "is_prov \<longleftrightarrow> type AND mask 6 = BT_MESH_PROXY_PROV"
  shows "gatt_writes po pe conn is_prov (map (\<lambda>p. PDU_HDR SAR_CONT type # p) ps) s = None \<longleftrightarrow>
    net_buf_simple_tailroom (pr_buf role) < sum_list (map length ps)"
  using assms
proof (induction ps arbitrary: s role)
  case (Cons p ps)
  let ?d = "PDU_HDR SAR_CONT type # p"
  have c: "c < length (px_clients s)" using find_index_Some Cons.prems(1) unfolding find_client_def by blast
  have d: "?d \<noteq> []" "is_prov \<longleftrightarrow> PDU_TYPE ?d = BT_MESH_PROXY_PROV" using Cons.prems(6) pdu_hdr(7) by simp_all
  show ?case
  proof (cases "length p \<le> net_buf_simple_tailroom (pr_buf role)")
    case False
    then have "proxy_sar_recv ?d (pc_cli (px_clients s ! c)) = None"
      using Cons.prems(2,4,5) pdu_hdr(3,7) [of type p] add_mem_None [of p "pr_buf role"] by (simp add: proxy_sar_recv_def)
    from gatt_recv_overflow [OF Cons.prems(1) d this] show ?thesis using False by simp
  next
    case True
    obtain b where b: "net_buf_simple_add_mem p (pr_buf role) = Some b" "wf_buf b" "net_buf_simple_tailroom b = net_buf_simple_tailroom (pr_buf role) - length p"
        "nb_len b = nb_len (pr_buf role) + length p"
      using add_bytes [OF Cons.prems(3) True] by auto
    let ?role = "role\<lparr>pr_sar_timer := True, pr_buf := b\<rparr>"
    have "proxy_sar_recv ?d (pc_cli (px_clients s ! c)) = Some (None, False, ?role)"
      using Cons.prems(2,4,5) pdu_hdr(3,7) [of type p] b(1) by (simp add: proxy_sar_recv_def)
    note step = gatt_recv_part [OF Cons.prems(1) d this, of po pe]
    have "find_client (Some conn) (px_set_role c ?role s) = Some c" using find_client_role [of ?role s c] Cons.prems(1,2) by simp
    from Cons.IH [OF this, of ?role] show ?thesis using step b True c Cons.prems(4-6) by (simp add: set_role_role less_diff_conv2 add.commute)
  qed
qed simp

text \<open>
  C36: a client can make reassembly write past its buffer.  If nothing is pending, a first segment
  followed by continuations is accepted as long as it fits; when the segments together exceed
  the room of the buffer of the connection, the assertion of \<open>net_buf_simple_add\<close> fails, or,
  without assertions, memory behind the buffer is written.  Nothing limits what a client sends.
\<close>

theorem proxy_reassembly_overflow:
  assumes "find_client (Some conn) s = Some c" "role = pc_cli (px_clients s ! c)" "wf_buf (pr_buf role)" "nb_len (pr_buf role) = 0"
    and "p0 \<noteq> []" "is_prov \<longleftrightarrow> type AND mask 6 = BT_MESH_PROXY_PROV"
  shows "gatt_writes po pe conn is_prov ((PDU_HDR SAR_FIRST type # p0) # map (\<lambda>p. PDU_HDR SAR_CONT type # p) ps) s = None \<longleftrightarrow>
    net_buf_simple_tailroom (pr_buf role) < length p0 + sum_list (map length ps)"
proof -
  let ?d = "PDU_HDR SAR_FIRST type # p0"
  have c: "c < length (px_clients s)" using find_index_Some assms(1) unfolding find_client_def by blast
  have d: "?d \<noteq> []" "is_prov \<longleftrightarrow> PDU_TYPE ?d = BT_MESH_PROXY_PROV" using assms(6) pdu_hdr(6) by simp_all
  show ?thesis
  proof (cases "length p0 \<le> net_buf_simple_tailroom (pr_buf role)")
    case False
    then have "proxy_sar_recv ?d (pc_cli (px_clients s ! c)) = None"
      using assms(2,4) pdu_hdr(2,6) [of type p0] add_mem_None [of p0 "pr_buf role"] by (simp add: proxy_sar_recv_def)
    from gatt_recv_overflow [OF assms(1) d this] show ?thesis using False by simp
  next
    case True
    obtain b where b: "net_buf_simple_add_mem p0 (pr_buf role) = Some b" "wf_buf b" "net_buf_simple_tailroom b = net_buf_simple_tailroom (pr_buf role) - length p0"
        "nb_len b = nb_len (pr_buf role) + length p0"
      using add_bytes [OF assms(3) True] by auto
    let ?role = "role\<lparr>pr_sar_timer := True, pr_msg_type := type AND mask 6, pr_buf := b\<rparr>"
    have "proxy_sar_recv ?d (pc_cli (px_clients s ! c)) = Some (None, False, ?role)"
      using assms(2,4) pdu_hdr(2,6) [of type p0] b(1) by (simp add: proxy_sar_recv_def)
    note step = gatt_recv_part [OF assms(1) d this, of po pe]
    have f: "find_client (Some conn) (px_set_role c ?role s) = Some c" using find_client_role [of ?role s c] assms(1,2) by simp
    have "0 < length p0" using assms(5) by simp
    then show ?thesis using gatt_writes_conts [OF f, of ?role type is_prov po pe ps] step b True c assms(6) by (simp add: set_role_role less_diff_conv2 add.commute)
  qed
qed

section \<open>An example\<close>

text \<open>A node with one connected provisioner, over the MTU of 23 bytes that every connection starts with.\<close>

definition px_role :: bt_mesh_proxy_role where
  "px_role = \<lparr>pr_conn = Some 7, pr_msg_type = 0, pr_sar_timer = False,
     pr_buf = \<lparr>nb_data = 0, nb_len = 0, nb_size = 65, nb_buf = replicate 65 0\<rparr>\<rparr>"

definition px_node :: "filter_type \<Rightarrow> u16 list \<Rightarrow> proxy_state" where
  "px_node t addrs = \<lparr>px_bc = bc_node 96, px_clients = [\<lparr>pc_cli = px_role, pc_filter = addrs, pc_filter_type = t, pc_send_beacons = False\<rparr>],
     px_gatt_svc = (if t = PROV then MESH_GATT_PROV else MESH_GATT_PROXY), px_conn_count = 1, px_beacon_sub = None, px_prov_fast_adv = False, px_svc_data = [], px_out = []\<rparr>"

definition px_cfg :: proxy_cfg where
  "px_cfg = \<lparr>po_beacon = bc_cfg, po_pb_gatt = True, po_node_id_timeout = 60\<rparr>"

definition px_env :: proxy_env where
  "px_env = \<lparr>pe_net = link_env, pe_beacon = bc_env, pe_mtu = (\<lambda>_. 23), pe_notify = (\<lambda>_. None), pe_adv_start = (\<lambda>_. None),
     pe_rand = Inr (replicate 8 9), pe_primary = 1, pe_rx = Mesh_Keys.rx_example\<rparr>"

definition px_msg :: net_buf_simple where
  "px_msg = \<lparr>nb_data = 1, nb_len = 30, nb_size = 40, nb_buf = replicate 40 5\<rparr>"

lemma px_example:
  "wf_buf px_msg" "nb_bytes px_msg = replicate 30 5" "nb_len px_msg = 30" "nb_data px_msg = 1" "wf_buf (pr_buf px_role)" "nb_len (pr_buf px_role) = 0"
  "net_buf_simple_tailroom (pr_buf px_role) = 65" "unat (pe_mtu px_env 7 - 3) = 20" "pr_conn px_role = Some 7" "pc_cli (px_clients (px_node t as) ! 0) = px_role"
  by (simp_all add: px_msg_def px_role_def px_env_def px_node_def wf_buf_def nb_bytes_def nb_read_def net_buf_simple_tailroom_def net_buf_simple_headroom_def)

lemma px_delivers: "delivers px_env (px_node t as)"
  by (simp add: delivers_def px_env_def px_node_def)

lemma px_client: "length (px_clients (px_node t as)) = 1" "find_client (Some 7) (px_node t as) = Some 0"
  by (simp_all add: px_node_def find_client_def px_role_def)

lemma complete_prov:
  assumes "c < length (px_clients s)" "po_pb_gatt po" "pr_msg_type role = BT_MESH_PROXY_PROV" "pr_conn role = Some conn"
  shows "\<exists>s'. proxy_complete_pdu po pe c (px_set_role c role s) = Some s' \<and> px_out s' = px_out s @ [Pb_gatt_recv conn (nb_bytes (pr_buf role))]"
  using assms by (simp add: proxy_complete_pdu_def set_role_role Let_def) (simp add: px_output_def px_upd_client_def px_set_role_def)

theorem proxy_message_reassembled_witness:
  "\<exists>msg' ps s'. bt_mesh_proxy_msg_send px_env 0 BT_MESH_PROXY_PROV px_msg False (px_node PROV []) = Some (None, msg', (px_node PROV [])\<lparr>px_out := pdus_out 7 False ps\<rparr>) \<and>
    recv_pdus px_cfg px_env 0 ps (px_node PROV []) = Some s' \<and> px_out s' = [Pb_gatt_recv 7 (replicate 30 5)]"
proof -
  have conn: "pr_conn (pc_cli (px_clients (px_node PROV []) ! 0)) = Some 7" by (simp add: px_example)
  have "\<exists>msg' ps b t. bt_mesh_proxy_msg_send px_env 0 BT_MESH_PROXY_PROV px_msg False (px_node PROV []) =
      Some (None, msg', (px_node PROV [])\<lparr>px_out := px_out (px_node PROV []) @ pdus_out 7 False ps\<rparr>) \<and>
    (\<forall>p \<in> set ps. length p \<le> unat (pe_mtu px_env 7 - 3)) \<and> wf_buf b \<and> nb_bytes b = nb_bytes px_msg \<and>
    recv_pdus px_cfg px_env 0 ps (px_node PROV []) =
      proxy_complete_pdu px_cfg px_env 0 (px_set_role 0 (px_role\<lparr>pr_msg_type := BT_MESH_PROXY_PROV AND mask 6, pr_sar_timer := t, pr_buf := b\<rparr>) (px_node PROV []))"
    by (rule proxy_message_reassembled [OF px_example(1) _ conn _ px_delivers]) (simp_all add: px_example px_client)
  then obtain msg' ps b t where 1: "bt_mesh_proxy_msg_send px_env 0 BT_MESH_PROXY_PROV px_msg False (px_node PROV []) =
      Some (None, msg', (px_node PROV [])\<lparr>px_out := px_out (px_node PROV []) @ pdus_out 7 False ps\<rparr>)"
    and 2: "nb_bytes b = nb_bytes px_msg" and 3: "recv_pdus px_cfg px_env 0 ps (px_node PROV []) =
      proxy_complete_pdu px_cfg px_env 0 (px_set_role 0 (px_role\<lparr>pr_msg_type := BT_MESH_PROXY_PROV AND mask 6, pr_sar_timer := t, pr_buf := b\<rparr>) (px_node PROV []))"
    by (elim exE conjE)
  have m: "BT_MESH_PROXY_PROV AND mask 6 = BT_MESH_PROXY_PROV" by code_simp
  have out: "px_out (px_node PROV []) = []" by (simp add: px_node_def)
  let ?role = "px_role\<lparr>pr_msg_type := BT_MESH_PROXY_PROV AND mask 6, pr_sar_timer := t, pr_buf := b\<rparr>"
  obtain s' where "proxy_complete_pdu px_cfg px_env 0 (px_set_role 0 ?role (px_node PROV [])) = Some s'" "px_out s' = [Pb_gatt_recv 7 (replicate 30 5)]"
    using complete_prov [of 0 "px_node PROV []" px_cfg ?role 7 px_env] m out 2 px_client(1) px_example(2,9) by (auto simp: px_cfg_def)
  with 1 3 out show ?thesis by (metis append_Nil)
qed

text \<open>Four writes of twenty bytes are more than a client's buffer holds.\<close>

theorem proxy_reassembly_overflow_witness:
  "gatt_writes px_cfg px_env 7 True ((PDU_HDR SAR_FIRST BT_MESH_PROXY_PROV # replicate 19 1) # map (\<lambda>p. PDU_HDR SAR_CONT BT_MESH_PROXY_PROV # p) (replicate 3 (replicate 19 1)))
     (px_node PROV []) = None"
proof -
  have m: "BT_MESH_PROXY_PROV AND mask 6 = BT_MESH_PROXY_PROV" by code_simp
  show ?thesis
    by (subst proxy_reassembly_overflow [OF px_client(2) refl]) (simp_all add: px_example m sum_list_replicate del: BT_MESH_PROXY_PROV_def)
qed

end
