(* ===== verification/Mesh_Px_Filter.thy ===== *)
theory Mesh_Px_Filter
  imports Mesh_Px_Sar
begin

text \<open>
  The address filters of proxy clients (\<open>core/src/mesh/gatt_services.c\<close>): they implement the
  filters of the profile, and what is relayed goes to exactly the clients whose filter it passes.
\<close>

section \<open>Address filters\<close>

text \<open>What a table of at most \<open>cap\<close> elements promises: adding, unless it is full, and removing.\<close>

definition bounded_insert :: "nat \<Rightarrow> 'a \<Rightarrow> 'a set \<Rightarrow> 'a set" where
  "bounded_insert n a S = (if a \<notin> S \<and> n \<le> card S then S else insert a S)"

locale bounded_table =
  fixes ok :: "'c \<Rightarrow> bool" and elems :: "'c \<Rightarrow> 'a set" and cap :: "'c \<Rightarrow> nat" and valid :: "'a \<Rightarrow> bool"
    and add :: "'a \<Rightarrow> 'c \<Rightarrow> 'c" and remove :: "'a \<Rightarrow> 'c \<Rightarrow> 'c"
  assumes ok_add: "ok c \<Longrightarrow> ok (add a c)" and ok_remove: "ok c \<Longrightarrow> ok (remove a c)"
    and cap_add: "cap (add a c) = cap c" and cap_remove: "cap (remove a c) = cap c"
    and elems_add: "ok c \<Longrightarrow> elems (add a c) = (if valid a then bounded_insert (cap c) a (elems c) else elems c)"
    and elems_remove: "ok c \<Longrightarrow> elems (remove a c) = elems c - (if valid a then {a} else {})"
begin

text \<open>Adding a list of elements in turn.\<close>

lemma elems_add_list:
  "ok c \<Longrightarrow> ok (fold add as c) \<and> cap (fold add as c) = cap c \<and> elems (fold add as c) = fold (bounded_insert (cap c)) (filter valid as) (elems c)"
  by (induction as arbitrary: c) (simp_all add: ok_add cap_add elems_add)

lemma elems_remove_list:
  "ok c \<Longrightarrow> ok (fold remove as c) \<and> cap (fold remove as c) = cap c \<and> elems (fold remove as c) = elems c - {a \<in> set as. valid a}"
proof (induction as arbitrary: c)
  case (Cons a as)
  then show ?case using Cons.IH [OF ok_remove [OF Cons.prems]] by (auto simp: cap_remove elems_remove)
qed simp

end

definition filter_ok :: "bt_mesh_proxy_client \<Rightarrow> bool" where
  "filter_ok cl \<longleftrightarrow> distinct (filter (\<lambda>a. a \<noteq> BT_MESH_ADDR_UNASSIGNED) (pc_filter cl))"

definition filter_elems :: "bt_mesh_proxy_client \<Rightarrow> u16 set" where
  "filter_elems cl = {a \<in> set (pc_filter cl). a \<noteq> BT_MESH_ADDR_UNASSIGNED}"

lemma filter_update_at:
  "i < length xs \<Longrightarrow> filter P (xs[i := y]) = filter P (take i xs) @ (if P y then [y] else []) @ filter P (drop (Suc i) xs)"
  by (simp add: upd_conv_take_nth_drop)

lemma filter_at:
  "i < length xs \<Longrightarrow> filter P xs = filter P (take i xs) @ (if P (xs ! i) then [xs ! i] else []) @ filter P (drop (Suc i) xs)"
  using filter_update_at [of i xs P "xs ! i"] by simp

lemma filter_elems_set: "filter_elems cl = set (filter (\<lambda>a. a \<noteq> BT_MESH_ADDR_UNASSIGNED) (pc_filter cl))"
  by (auto simp: filter_elems_def)

lemma filter_card: "filter_ok cl \<Longrightarrow> card (filter_elems cl) = length (filter (\<lambda>a. a \<noteq> BT_MESH_ADDR_UNASSIGNED) (pc_filter cl))"
  unfolding filter_elems_set filter_ok_def by (rule distinct_card)

interpretation pf: bounded_table filter_ok filter_elems "\<lambda>cl. length (pc_filter cl)" "\<lambda>a. a \<noteq> BT_MESH_ADDR_UNASSIGNED" filter_add filter_remove
proof (unfold_locales, goal_cases)
  case (1 cl a)
  then show ?case
  proof (cases "find_index (\<lambda>a. a = BT_MESH_ADDR_UNASSIGNED) (pc_filter cl)")
    case (Some i)
    note i = find_index_Some [OF Some]
    show ?thesis using 1 i filter_update_at [of i "pc_filter cl" "\<lambda>a. a \<noteq> BT_MESH_ADDR_UNASSIGNED" a] filter_at [of i "pc_filter cl" "\<lambda>a. a \<noteq> BT_MESH_ADDR_UNASSIGNED"] Some
      by (auto simp: filter_ok_def filter_add_def dest: in_set_takeD in_set_dropD)
  qed (simp add: filter_add_def filter_ok_def)
next
  case (2 cl a)
  then show ?case
  proof (cases "find_index (\<lambda>x. x = a) (pc_filter cl)")
    case (Some i)
    note i = find_index_Some [OF Some]
    show ?thesis using 2 i filter_update_at [of i "pc_filter cl" "\<lambda>a. a \<noteq> BT_MESH_ADDR_UNASSIGNED" BT_MESH_ADDR_UNASSIGNED] filter_at [of i "pc_filter cl" "\<lambda>a. a \<noteq> BT_MESH_ADDR_UNASSIGNED"] Some
      by (auto simp: filter_ok_def filter_remove_def split: if_splits)
  qed (simp add: filter_remove_def filter_ok_def)
next
  case (3 a cl)
  show ?case by (simp add: filter_add_def split: option.split)
next
  case (4 a cl)
  show ?case by (simp add: filter_remove_def split: option.split)
next
  case (5 cl a)
  let ?P = "\<lambda>a. a \<noteq> BT_MESH_ADDR_UNASSIGNED"
  show ?case
  proof (cases "find_index (\<lambda>a. a = BT_MESH_ADDR_UNASSIGNED) (pc_filter cl)")
    case None
    then have "filter ?P (pc_filter cl) = pc_filter cl" by (simp add: find_index_None filter_id_conv)
    then have "card (filter_elems cl) = length (pc_filter cl)" using filter_card [OF 5] by simp
    then show ?thesis using None by (auto simp: filter_add_def bounded_insert_def filter_elems_def)
  next
    case (Some i)
    note i = find_index_Some [OF Some]
    have "length (filter ?P (pc_filter cl)) < length (pc_filter cl)" using i nth_mem [of i "pc_filter cl"] by (intro length_filter_less [of "pc_filter cl ! i"]) auto
    then have room: "\<not> length (pc_filter cl) \<le> card (filter_elems cl)" using filter_card [OF 5] by simp
    have "set (filter ?P ((pc_filter cl)[i := a])) = insert a (set (filter ?P (pc_filter cl)))" if "?P a"
      using i that filter_update_at [of i "pc_filter cl" ?P] filter_at [of i "pc_filter cl" ?P] by auto
    then show ?thesis using room Some by (auto simp: filter_add_def bounded_insert_def filter_elems_set)
  qed
next
  case (6 cl a)
  let ?P = "\<lambda>a. a \<noteq> BT_MESH_ADDR_UNASSIGNED"
  show ?case
  proof (cases "find_index (\<lambda>x. x = a) (pc_filter cl)")
    case None
    then show ?thesis using find_index_None [THEN iffD1, OF None] by (auto simp: filter_remove_def filter_elems_def)
  next
    case (Some i)
    note i = find_index_Some [OF Some]
    show ?thesis
    proof (cases "a = BT_MESH_ADDR_UNASSIGNED")
      case False
      let ?A = "filter ?P (take i (pc_filter cl))" and ?B = "filter ?P (drop (Suc i) (pc_filter cl))"
      have A: "filter ?P (pc_filter cl) = ?A @ [a] @ ?B" using filter_at [of i "pc_filter cl" ?P] i False by simp
      have "filter ?P ((pc_filter cl)[i := BT_MESH_ADDR_UNASSIGNED]) = ?A @ ?B" using filter_update_at [of i "pc_filter cl" ?P BT_MESH_ADDR_UNASSIGNED] i by simp
      moreover have "filter_remove a cl = cl\<lparr>pc_filter := (pc_filter cl)[i := BT_MESH_ADDR_UNASSIGNED]\<rparr>" using Some False by (simp add: filter_remove_def)
      moreover have "distinct (?A @ [a] @ ?B)" using 6 A unfolding filter_ok_def by metis
      ultimately show ?thesis using False A unfolding filter_elems_set by simp
    qed (simp add: filter_remove_def)
  qed
qed

text \<open>The addresses in the parameters of a message.\<close>

fun be16s :: "bytes \<Rightarrow> u16 list" where
  "be16s (a # b # bs) = sys_get_be16 [a, b] # be16s bs"
| "be16s _ = []"

lemma filter_loop_fold:
  "wf_buf buf \<Longrightarrow> \<exists>buf'. filter_loop big f buf cl = Some (buf', fold f (be16s (nb_bytes buf)) cl) \<and> wf_buf buf' \<and> nb_size buf' = nb_size buf"
proof (induction "nb_len buf" arbitrary: buf cl rule: less_induct)
  case less
  have len: "length (nb_bytes buf) = nb_len buf" using less.prems by simp
  show ?case
  proof (cases "nb_len buf < 2")
    case True
    then have "be16s (nb_bytes buf) = []" using len by (cases "nb_bytes buf" rule: be16s.cases) auto
    then show ?thesis using True less.prems by (subst filter_loop.simps) simp
  next
    case False
    then obtain a b bs where abs: "nb_bytes buf = a # b # bs" using len by (cases "nb_bytes buf" rule: be16s.cases) auto
    let ?buf = "buf\<lparr>nb_data := nb_data buf + 2, nb_len := nb_len buf - 2\<rparr>"
    have two: "2 \<le> nb_len buf" using False by simp
    note pull = nb_pull_bytes [OF less.prems two]
    have p: "net_buf_simple_pull_be16 big buf = Some (sys_get_be16 [a, b], ?buf)" using pull_value(2) [OF less.prems] pull(1) abs by simp
    have "nb_len ?buf < nb_len buf" using two by simp
    from less.hyps [OF this pull(2), of "f (sys_get_be16 [a, b]) cl"] obtain buf' where
      "filter_loop big f ?buf (f (sys_get_be16 [a, b]) cl) = Some (buf', fold f (be16s bs) (f (sys_get_be16 [a, b]) cl))" "wf_buf buf'" "nb_size buf' = nb_size buf"
      using pull(3) abs by auto
    then show ?thesis using False p abs by (subst filter_loop.simps) simp
  qed
qed

lemma proxy_send_clients: "px_clients (snd (proxy_send pe conn d e s)) = px_clients s"
  by (simp add: proxy_send_def px_output_def)

lemma proxy_send_loop_clients:
  assumes ret: "proxy_send_loop pe conn mtu type e msg s = Some r"
  shows "px_clients (snd (snd r)) = px_clients s"
proof (rule proxy_send_loop.raw_induct [where P = "\<lambda>pe conn mtu type e msg s r. px_clients (snd (snd r)) = px_clients s", OF _ ret])
  fix loop :: "proxy_env \<Rightarrow> nat \<Rightarrow> nat \<Rightarrow> u8 \<Rightarrow> bool \<Rightarrow> net_buf_simple \<Rightarrow> proxy_state \<Rightarrow> (errno option \<times> net_buf_simple \<times> proxy_state) option"
  fix pe conn mtu type e msg s r
  assume IH: "\<And>pe conn mtu type e msg s r. loop pe conn mtu type e msg s = Some r \<Longrightarrow> px_clients (snd (snd r)) = px_clients s"
    and eq: "(if nb_len msg = 0 then Some (None, msg, s)
      else if nb_len msg + 1 \<le> mtu
      then do {
        msg \<leftarrow> net_buf_simple_push_u8 (PDU_HDR SAR_LAST type) msg;
        let (err, s) = proxy_send pe conn (nb_bytes msg) e s;
        Some (err, msg, s)
      }
      else do {
        msg \<leftarrow> net_buf_simple_push_u8 (PDU_HDR SAR_CONT type) msg;
        let (err, s) = proxy_send pe conn (take mtu (nb_bytes msg)) False s;
        (if err \<noteq> None then Some (err, msg, s)
         else do {
           (_, msg) \<leftarrow> net_buf_simple_pull mtu msg;
           loop pe conn mtu type e msg s
         })
      }) = Some r"
  then show "px_clients (snd (snd r)) = px_clients s"
    by (auto simp: Let_def split_def proxy_send_clients split: if_splits Option.bind_splits dest!: IH)
qed

lemma proxy_msg_send_clients: "bt_mesh_proxy_msg_send pe c type msg e s = Some r \<Longrightarrow> px_clients (snd (snd r)) = px_clients s"
  by (auto simp: bt_mesh_proxy_msg_send_def Let_def split_def proxy_send_clients split: if_splits Option.bind_splits dest!: proxy_send_loop_clients)

lemma send_filter_status_clients: "send_filter_status po pe c rx buf s = Some s' \<Longrightarrow> px_clients s' = px_clients s"
  by (auto simp: send_filter_status_def Let_def split_def split: if_splits Option.bind_splits dest!: proxy_msg_send_clients)

text \<open>What the profile says a configuration message does to the type and the addresses of a filter with room for \<open>n\<close>.\<close>

definition filter_message :: "nat \<Rightarrow> bytes \<Rightarrow> filter_type \<times> u16 set \<Rightarrow> filter_type \<times> u16 set" where
  "filter_message n msg f =
     (case msg of
        [] \<Rightarrow> f
      | opcode # ps \<Rightarrow>
          if opcode = 0 then (if ps \<noteq> [] \<and> hd ps = 0 then (ACCEPT, {}) else if ps \<noteq> [] \<and> hd ps = 1 then (REJECT, {}) else f)
          else if opcode = 1 then (fst f, fold (bounded_insert n) (filter (\<lambda>a. a \<noteq> 0) (be16s ps)) (snd f))
          else if opcode = 2 then (fst f, snd f - set (be16s ps))
          else f)"

definition filter_view :: "bt_mesh_proxy_client \<Rightarrow> filter_type \<times> u16 set" where
  "filter_view cl = (pc_filter_type cl, filter_elems cl)"

lemma filter_set_view:
  assumes "filter_ok cl" "wf_buf buf" "filter_set cl buf = Some (err, cl')"
  shows "filter_ok cl' \<and> length (pc_filter cl') = length (pc_filter cl) \<and> filter_view cl' = filter_message n (0 # nb_bytes buf) (filter_view cl)"
proof (cases "nb_bytes buf")
  case Nil
  then show ?thesis using assms length_nb_bytes [OF assms(2)] by (auto simp: filter_set_def filter_message_def)
next
  case (Cons ty ps)
  then have len: "1 \<le> nb_len buf" using length_nb_bytes [OF assms(2)] by (metis length_Cons le_add1 plus_1_eq_Suc)
  have "net_buf_simple_pull_u8 buf = Some (ty, buf\<lparr>nb_data := nb_data buf + 1, nb_len := nb_len buf - 1\<rparr>)"
    using pull_u8_value [OF assms(2)] nb_pull_bytes(1) [OF assms(2) len] Cons by simp
  moreover have "filter (\<lambda>a. a \<noteq> 0) (replicate m (0 :: u16)) = []" for m by simp
  ultimately show ?thesis using assms(1,3) len Cons
    by (auto simp: filter_set_def filter_message_def filter_view_def filter_elems_set filter_ok_def split: if_splits)
qed

lemma filter_elems_nonzero: "filter_elems cl - {a \<in> A. a \<noteq> BT_MESH_ADDR_UNASSIGNED} = filter_elems cl - A"
  by (auto simp: filter_elems_def)

lemma fold_filter_type: "pc_filter_type (fold filter_add as cl) = pc_filter_type cl" "pc_filter_type (fold filter_remove as cl) = pc_filter_type cl"
  by (induction as arbitrary: cl) (simp_all add: filter_add_def filter_remove_def split: option.split)

text \<open>
  C34: the filter of a proxy client implements the filter of the profile.  A configuration message
  from a client has on the type and the set of addresses of its filter the effect that
  \<open>filter_message\<close> states, where a full filter ignores new addresses; no address occurs twice,
  the number of addresses that is reported is the size of the set, and a PDU passes the filter
  if it is addressed to all nodes or to one of the addresses of an accepting filter, or to none
  of the addresses of a rejecting one.
\<close>

theorem proxy_filter_refines:
  assumes "find_client conn s = Some c" "filter_ok (px_clients s ! c)" "wf_buf buf" "0 < nb_len buf" "length (pc_filter (px_clients s ! c)) < 65536"
    and "proxy_filter_recv po pe conn rx buf s = Some s'"
  shows "let cl = px_clients s' ! c in
    filter_ok cl \<and> filter_view cl = filter_message (length (pc_filter (px_clients s ! c))) (nb_bytes buf) (filter_view (px_clients s ! c)) \<and>
    unat (filter_size cl) = card (snd (filter_view cl)) \<and>
    (\<forall>dst. dst \<noteq> BT_MESH_ADDR_UNASSIGNED \<longrightarrow>
      (client_filter_match cl dst \<longleftrightarrow>
        (case filter_view cl of (REJECT, S) \<Rightarrow> dst \<notin> S | (ACCEPT, S) \<Rightarrow> dst = BT_MESH_ADDR_ALL_NODES \<or> dst \<in> S | _ \<Rightarrow> dst = BT_MESH_ADDR_ALL_NODES)))"
proof -
  let ?cl = "px_clients s ! c" and ?n = "length (pc_filter (px_clients s ! c))"
  have c: "c < length (px_clients s)" using find_index_Some assms(1) unfolding find_client_def by blast
  obtain opcode ps where ops: "nb_bytes buf = opcode # ps" using length_nb_bytes [OF assms(3)] assms(4) by (cases "nb_bytes buf") auto
  have one: "1 \<le> nb_len buf" using assms(4) by simp
  define b where "b = buf\<lparr>nb_data := nb_data buf + 1, nb_len := nb_len buf - 1\<rparr>"
  have b: "net_buf_simple_pull_u8 buf = Some (opcode, b)" "wf_buf b" "nb_bytes b = ps"
    using pull_u8_value [OF assms(3)] nb_pull_bytes [OF assms(3) one] ops by (simp_all add: b_def)
  have upd: "px_clients (px_upd_client c (\<lambda>_. cl) s) ! c = cl" for cl using c by (simp add: px_upd_client_def)
  obtain f1 where f1: "filter_loop (bo_big_endian (po_beacon po)) filter_add b ?cl = Some (f1, fold filter_add (be16s ps) ?cl)"
    using filter_loop_fold [OF b(2)] b(3) by metis
  obtain f2 where f2: "filter_loop (bo_big_endian (po_beacon po)) filter_remove b ?cl = Some (f2, fold filter_remove (be16s ps) ?cl)"
    using filter_loop_fold [OF b(2)] b(3) by metis
  have res: "filter_ok (px_clients s' ! c) \<and> length (pc_filter (px_clients s' ! c)) = ?n \<and> filter_view (px_clients s' ! c) = filter_message ?n (nb_bytes buf) (filter_view ?cl)"
  proof -
    consider (set) "opcode = 0" | (add) "opcode = 1" | (remove) "opcode = 2" | (other) "opcode \<notin> {0, 1, 2}" by blast
    then show ?thesis
    proof cases
      case set
      obtain err cl where cl: "filter_set ?cl b = Some (err, cl)" "px_clients s' ! c = cl"
        using assms(1,6) b(1) set upd send_filter_status_clients by (auto simp: proxy_filter_recv_def split: Option.bind_splits)
      show ?thesis using filter_set_view [OF assms(2) b(2) cl(1), of ?n] b(3) cl(2) ops set by simp
    next
      case add
      have "px_clients s' ! c = fold filter_add (be16s ps) ?cl"
        using assms(1,6) b(1) add f1 upd send_filter_status_clients by (auto simp: proxy_filter_recv_def)
      then show ?thesis using pf.elems_add_list [OF assms(2), of "be16s ps"] ops add fold_filter_type by (simp add: filter_view_def filter_message_def)
    next
      case remove
      have "px_clients s' ! c = fold filter_remove (be16s ps) ?cl"
        using assms(1,6) b(1) remove f2 upd send_filter_status_clients by (auto simp: proxy_filter_recv_def)
      then show ?thesis using pf.elems_remove_list [OF assms(2), of "be16s ps"] ops remove fold_filter_type filter_elems_nonzero
        by (simp add: filter_view_def filter_message_def)
    next
      case other
      then have "s' = s" using assms(1,6) b(1) by (simp add: proxy_filter_recv_def)
      then show ?thesis using assms(2) other ops by (simp add: filter_message_def)
    qed
  qed
  let ?cl' = "px_clients s' ! c"
  have "length (filter (\<lambda>a. a \<noteq> BT_MESH_ADDR_UNASSIGNED) (pc_filter ?cl')) < 65536"
    using le_less_trans [OF length_filter_le assms(5)] res le_less_trans [OF length_filter_le] assms(5) by metis
  then have "unat (filter_size ?cl') = card (filter_elems ?cl')" using filter_card res by (simp add: filter_size_def unat_of_nat)
  moreover have "client_filter_match ?cl' dst \<longleftrightarrow>
        (case filter_view ?cl' of (REJECT, S) \<Rightarrow> dst \<notin> S | (ACCEPT, S) \<Rightarrow> dst = BT_MESH_ADDR_ALL_NODES \<or> dst \<in> S | _ \<Rightarrow> dst = BT_MESH_ADDR_ALL_NODES)"
    if "dst \<noteq> BT_MESH_ADDR_UNASSIGNED" for dst
    using that by (cases "pc_filter_type ?cl'") (auto simp: client_filter_match_def filter_view_def filter_elems_def)
  ultimately show ?thesis using res by (simp add: Let_def filter_view_def)
qed

section \<open>Relaying\<close>

text \<open>
  The clients a PDU to \<open>dst\<close> is for: connected ones whose filter it passes.  The all-nodes address
  passes every filter that is not a list of rejected addresses.
\<close>

definition relay_target :: "u16 \<Rightarrow> bt_mesh_proxy_client \<Rightarrow> bool" where
  "relay_target dst cl \<longleftrightarrow> pr_conn (pc_cli cl) \<noteq> None \<and>
     (case pc_filter_type cl of NONE \<Rightarrow> dst = 0xffff | ACCEPT \<Rightarrow> dst = 0xffff \<or> dst \<in> set (pc_filter cl)
      | REJECT \<Rightarrow> dst \<notin> set (pc_filter cl) | PROV \<Rightarrow> False)"

text \<open>
  What such a client gets from position \<open>n\<close> of the log on, and the error: a reference to the
  buffer is taken, the notifications are handed over until one fails, the advertiser is told, and
  after an error the reference is given back at once.
\<close>

definition relay_out :: "proxy_env \<Rightarrow> mesh_gatt \<Rightarrow> bytes \<Rightarrow> nat \<Rightarrow> bt_mesh_proxy_client \<Rightarrow> errno option \<times> proxy_out list" where
  "relay_out pe svc pdu n cl =
     (let conn = the (pr_conn (pc_cli cl));
          (err, outs) = notify_run pe svc (Suc n) (pdus_out conn True (proxy_pdus (unat (pe_mtu pe conn - 3)) BT_MESH_PROXY_NET_PDU pdu))
      in (err, [Buf_ref] @ outs @ [Adv_send_start err] @ (if err = None then [] else [Buf_unref])))"

text \<open>All of them in turn, and whether one got the whole PDU.\<close>

fun relay_all :: "proxy_env \<Rightarrow> mesh_gatt \<Rightarrow> bytes \<Rightarrow> nat \<Rightarrow> bt_mesh_proxy_client list \<Rightarrow> bool \<times> proxy_out list" where
  "relay_all pe svc pdu n [] = (False, [])"
| "relay_all pe svc pdu n (cl # cls) =
     (let (err, xs) = relay_out pe svc pdu n cl; (sent, ys) = relay_all pe svc pdu (n + length xs) cls
      in (err = None \<or> sent, xs @ ys))"

lemma relay_to_client_out:
  assumes "length pdu \<le> 31" "\<And>conn. pr_conn (pc_cli (px_clients s ! c)) = Some conn \<Longrightarrow> 2 \<le> unat (pe_mtu pe conn - 3)"
  shows "relay_to_client pe pdu dst c s =
    (if relay_target dst (px_clients s ! c)
     then let (err, xs) = relay_out pe (px_gatt_svc s) pdu (length (px_out s)) (px_clients s ! c) in Some (err = None, s\<lparr>px_out := px_out s @ xs\<rparr>)
     else Some (False, s))"
proof -
  let ?cl = "px_clients s ! c"
  have target: "relay_target dst ?cl \<longleftrightarrow> pr_conn (pc_cli ?cl) \<noteq> None \<and> client_filter_match ?cl dst \<and> pc_filter_type ?cl \<noteq> PROV"
    by (cases "pc_filter_type ?cl") (auto simp: relay_target_def client_filter_match_def BT_MESH_ADDR_ALL_NODES_def)
  show ?thesis
  proof (cases "relay_target dst ?cl")
    case False
    then show ?thesis unfolding target by (auto simp: relay_to_client_def Let_def)
  next
    case True
    let ?m = "\<lparr>nb_data = 1, nb_len = 0, nb_size = 32, nb_buf = replicate 32 0\<rparr> :: net_buf_simple"
    have m: "net_buf_simple_reserve 1 \<lparr>nb_data = 0, nb_len = 0, nb_size = 32, nb_buf = replicate 32 0\<rparr> = Some ?m" by code_simp
    have wf: "wf_buf ?m" "net_buf_simple_tailroom ?m = 31" "nb_bytes ?m = []" by (simp_all add: wf_buf_def nb_defs nb_bytes_def nb_read_def)
    obtain b where b: "net_buf_simple_add_mem pdu ?m = Some b" "wf_buf b" "nb_bytes b = pdu" "nb_data b = 1"
      using add_bytes [OF wf(1), of pdu] wf(2,3) assms(1) by (auto simp: net_buf_simple_add_mem_def net_buf_simple_add_def Let_def nb_write_def split: if_splits)
    obtain conn where conn: "pr_conn (pc_cli ?cl) = Some conn" using True target by auto
    let ?s = "px_output Buf_ref s"
    obtain msg' where "bt_mesh_proxy_msg_send pe c BT_MESH_PROXY_NET_PDU b True ?s =
        notified pe (pdus_out conn True (proxy_pdus (unat (pe_mtu pe conn - 3)) BT_MESH_PROXY_NET_PDU (nb_bytes b))) msg' ?s"
      using proxy_msg_send_notified [OF b(2), of ?s c conn pe BT_MESH_PROXY_NET_PDU True] b(4) conn assms(2) by (auto simp: px_output_def)
    then show ?thesis using True target conn m b(1,3)
      by (simp add: relay_to_client_def Let_def relay_out_def px_output_def notified_def split: prod.split)
  qed
qed

lemma relay_loop_out:
  assumes "length pdu \<le> 31" "\<And>cl conn. cl \<in> set (px_clients s) \<Longrightarrow> pr_conn (pc_cli cl) = Some conn \<Longrightarrow> 2 \<le> unat (pe_mtu pe conn - 3)"
    and "\<And>c. c \<in> set cs \<Longrightarrow> c < length (px_clients s)"
  shows "proxy_relay_loop pe pdu dst cs relayed s =
    (let (sent, xs) = relay_all pe (px_gatt_svc s) pdu (length (px_out s)) (filter (relay_target dst) (map (\<lambda>c. px_clients s ! c) cs))
     in Some (relayed \<or> sent, s\<lparr>px_out := px_out s @ xs\<rparr>))"
  using assms(2,3)
proof (induction cs arbitrary: relayed s)
  case (Cons c cs)
  have c: "px_clients s ! c \<in> set (px_clients s)" using Cons.prems(2) by simp
  note turn = relay_to_client_out [where s = s and c = c and dst = dst and pe = pe, OF assms(1) Cons.prems(1) [OF c]]
  show ?case
  proof (cases "relay_target dst (px_clients s ! c)")
    case True
    obtain err xs where xs: "relay_out pe (px_gatt_svc s) pdu (length (px_out s)) (px_clients s ! c) = (err, xs)" by fastforce
    let ?s = "s\<lparr>px_out := px_out s @ xs\<rparr>"
    have "proxy_relay_loop pe pdu dst cs (relayed \<or> err = None) ?s =
      (let (sent, xs) = relay_all pe (px_gatt_svc ?s) pdu (length (px_out ?s)) (filter (relay_target dst) (map (\<lambda>c. px_clients ?s ! c) cs))
       in Some ((relayed \<or> err = None) \<or> sent, ?s\<lparr>px_out := px_out ?s @ xs\<rparr>))"
      by (rule Cons.IH) (use Cons.prems in auto)
    then show ?thesis using True turn xs by (simp add: Let_def split: prod.split)
  next
    case False
    have "proxy_relay_loop pe pdu dst cs relayed s =
      (let (sent, xs) = relay_all pe (px_gatt_svc s) pdu (length (px_out s)) (filter (relay_target dst) (map (\<lambda>c. px_clients s ! c) cs))
       in Some (relayed \<or> sent, s\<lparr>px_out := px_out s @ xs\<rparr>))"
      by (rule Cons.IH) (use Cons.prems in auto)
    then show ?thesis using False turn by simp
  qed
qed simp

text \<open>
  The references taken less those given back by the entries of a log from position \<open>n\<close> on; the
  callback of a notification gives one back if the notification was delivered.
\<close>

fun ref_balance :: "proxy_env \<Rightarrow> nat \<Rightarrow> proxy_out list \<Rightarrow> int" where
  "ref_balance pe n [] = 0"
| "ref_balance pe n (Buf_ref # xs) = ref_balance pe (Suc n) xs + 1"
| "ref_balance pe n (Buf_unref # xs) = ref_balance pe (Suc n) xs - 1"
| "ref_balance pe n (Gatt_notify _ _ end_cb # xs) = ref_balance pe (Suc n) xs - (if end_cb \<and> pe_notify pe n = None then 1 else 0)"
| "ref_balance pe n (_ # xs) = ref_balance pe (Suc n) xs"

lemma ref_balance_append [simp]: "ref_balance pe n (xs @ ys) = ref_balance pe n xs + ref_balance pe (n + length xs) ys"
  by (induction pe n xs rule: ref_balance.induct) auto

lemma ref_balance_notify:
  "ps \<noteq> [] \<Longrightarrow> ref_balance pe n (snd (notify_run pe svc n (pdus_out conn True ps))) =
    (if fst (notify_run pe svc n (pdus_out conn True ps)) = None then - 1 else 0)"
proof (induction ps arbitrary: n rule: induct_list012)
  case (3 p q ps)
  have "pdus_out conn True (p # q # ps) = Gatt_notify conn p False # pdus_out conn True (q # ps)" by (simp add: pdus_out_simps)
  with "3.IH"(2) [of "Suc n"] show ?case by (auto split: prod.split option.split)
qed (auto simp: pdus_out_simps split: option.split)

lemma ref_balance_relay: "ref_balance pe n (snd (relay_out pe svc pdu n cl)) = 0"
proof -
  let ?conn = "the (pr_conn (pc_cli cl))"
  let ?ps = "proxy_pdus (unat (pe_mtu pe ?conn - 3)) BT_MESH_PROXY_NET_PDU pdu"
  obtain err ys where ys: "notify_run pe svc (Suc n) (pdus_out ?conn True ?ps) = (err, ys)" by fastforce
  have "?ps \<noteq> []" by (simp add: proxy_pdus_def)
  from ref_balance_notify [OF this, of pe "Suc n" svc ?conn] have "ref_balance pe (Suc n) ys = (if err = None then - 1 else 0)"
    unfolding ys by (simp only: fst_conv snd_conv)
  then show ?thesis unfolding relay_out_def Let_def ys by simp
qed

lemma ref_balance_all: "ref_balance pe n (snd (relay_all pe svc pdu n cls)) = 0"
proof (induction cls arbitrary: n)
  case (Cons cl cls)
  obtain err xs where xs: "relay_out pe svc pdu n cl = (err, xs)" by fastforce
  obtain sent ys where ys: "relay_all pe svc pdu (n + length xs) cls = (sent, ys)" by fastforce
  show ?case using ref_balance_relay [of pe n svc pdu cl] Cons.IH [of "n + length xs"] by (simp add: xs ys)
qed simp

text \<open>
  C35: the relay to proxy clients is exact, whichever notifications fail.  A network PDU of at most
  31 bytes to \<open>dst\<close> goes to the connected clients whose filter it passes, in their order, and to no
  other; each gets the PDUs of one proxy message up to the first notification that fails.  The
  result says whether some client got the whole message, nothing but the log changes, and every
  reference to the buffer that is taken is given back, by the callback of the last notification if
  that is delivered and at once after an error.  Every connection has room for a byte of data.
\<close>

theorem proxy_relay_exact:
  assumes "length pdu \<le> 31" "\<And>cl conn. cl \<in> set (px_clients s) \<Longrightarrow> pr_conn (pc_cli cl) = Some conn \<Longrightarrow> 5 \<le> unat (pe_mtu pe conn)"
  shows "\<exists>sent outs. relay_all pe (px_gatt_svc s) pdu (length (px_out s)) (filter (relay_target dst) (px_clients s)) = (sent, outs) \<and>
    bt_mesh_proxy_relay pe pdu dst s = Some (sent, s\<lparr>px_out := px_out s @ outs\<rparr>) \<and> ref_balance pe (length (px_out s)) outs = 0"
proof -
  have mtu: "2 \<le> unat (pe_mtu pe conn - 3)" if "cl \<in> set (px_clients s)" "pr_conn (pc_cli cl) = Some conn" for cl conn
    using assms(2) [OF that] by (simp add: unat_sub word_le_nat_alt)
  have "bt_mesh_proxy_relay pe pdu dst s =
    (let (sent, xs) = relay_all pe (px_gatt_svc s) pdu (length (px_out s)) (filter (relay_target dst) (map (\<lambda>c. px_clients s ! c) [0..<length (px_clients s)]))
     in Some (False \<or> sent, s\<lparr>px_out := px_out s @ xs\<rparr>))"
    unfolding bt_mesh_proxy_relay_def by (rule relay_loop_out) (use assms(1) mtu in auto)
  then show ?thesis
    using ref_balance_all [of pe "length (px_out s)" "px_gatt_svc s" pdu "filter (relay_target dst) (px_clients s)"] by (auto simp: map_nth split: prod.splits)
qed

section \<open>An example\<close>

text \<open>A client that accepts the address 9 adds 5 and 9 to its filter; there is no room for the status that answers.\<close>

definition px_add_msg :: net_buf_simple where
  "px_add_msg = \<lparr>nb_data = 9, nb_len = 5, nb_size = 17, nb_buf = replicate 9 0 @ [1, 0, 5, 0, 9] @ replicate 3 0\<rparr>"

lemma filter_status_no_room:
  assumes "nb_size buf = 17"
  shows "\<exists>s'. send_filter_status po pe c rx buf s = Some s'"
proof -
  obtain b where "filter_status (px_clients s ! c) buf = Some b" "net_buf_simple_tailroom b = 3"
    using assms by (simp add: filter_status_def net_buf_simple_reserve_def net_buf_simple_reset_def net_buf_simple_add_u8_def net_buf_simple_add_be16_def
        net_buf_simple_add_mem_def net_buf_simple_add_def nb_defs be16.length_put)
  then show ?thesis by (auto simp: send_filter_status_def Let_def bt_mesh_net_encode_def net_header_encode_def split: prod.split)
qed

lemma px_add_msg: "wf_buf px_add_msg" "nb_len px_add_msg = 5" "nb_bytes px_add_msg = [1, 0, 5, 0, 9]"
  by (simp_all add: px_add_msg_def wf_buf_def nb_bytes_def nb_read_def)

lemma px_add_recv: "\<exists>s'. proxy_filter_recv px_cfg px_env (Some 7) Mesh_Keys.rx_example px_add_msg (px_node ACCEPT [9, 0, 0]) = Some s'"
proof -
  let ?b = "px_add_msg\<lparr>nb_data := nb_data px_add_msg + 1, nb_len := nb_len px_add_msg - 1\<rparr>"
  have "1 \<le> nb_len px_add_msg" using px_add_msg(2) by simp
  note pull = nb_pull_bytes [OF px_add_msg(1) this]
  have b: "net_buf_simple_pull_u8 px_add_msg = Some (1, ?b)" "wf_buf ?b" "nb_size ?b = 17"
    using pull_u8_value [OF px_add_msg(1)] pull(1,2) px_add_msg(3) by (simp_all add: px_add_msg_def)
  obtain buf' cl where l: "filter_loop (bo_big_endian (po_beacon px_cfg)) filter_add ?b (px_clients (px_node ACCEPT [9, 0, 0]) ! 0) = Some (buf', cl)"
      "nb_size buf' = 17"
    using filter_loop_fold [OF b(2)] b(3) by metis
  from filter_status_no_room [OF l(2)] show ?thesis using b(1) l(1) by (simp add: proxy_filter_recv_def px_client)
qed

theorem proxy_filter_refines_witness:
  "\<exists>s'. proxy_filter_recv px_cfg px_env (Some 7) Mesh_Keys.rx_example px_add_msg (px_node ACCEPT [9, 0, 0]) = Some s' \<and>
    filter_view (px_clients s' ! 0) = (ACCEPT, {5, 9}) \<and> filter_size (px_clients s' ! 0) = 2"
proof -
  obtain s' where s': "proxy_filter_recv px_cfg px_env (Some 7) Mesh_Keys.rx_example px_add_msg (px_node ACCEPT [9, 0, 0]) = Some s'"
    using px_add_recv by blast
  let ?cl = "px_clients (px_node ACCEPT [9, 0, 0]) ! 0"
  have cl: "filter_ok ?cl" "length (pc_filter ?cl) = 3" "filter_view ?cl = (ACCEPT, {9})"
    by (auto simp: px_node_def filter_ok_def filter_view_def filter_elems_def)
  have "be16s [0, 5, 0, 9] = [5, 9]" by code_simp
  then have view: "filter_message 3 (nb_bytes px_add_msg) (ACCEPT, {9}) = (ACCEPT, {5, 9})"
    by (auto simp: px_add_msg filter_message_def bounded_insert_def)
  have "0 < nb_len px_add_msg" "length (pc_filter ?cl) < 65536" using px_add_msg(2) cl(2) by simp_all
  note r = proxy_filter_refines [OF px_client(2) cl(1) px_add_msg(1) this s', unfolded Let_def cl(2,3) view]
  then have v: "filter_view (px_clients s' ! 0) = (ACCEPT, {5, 9})" and n: "unat (filter_size (px_clients s' ! 0)) = card (snd (filter_view (px_clients s' ! 0)))" by blast+
  have "unat (filter_size (px_clients s' ! 0)) = unat (2 :: u16)" using n unfolding v by simp
  then show ?thesis using s' v unfolding word_unat_eq_iff by blast
qed

text \<open>The client that accepts 9 gets the PDU; with a first notification that fails it gets only that one.\<close>

theorem proxy_relay_exact_witness:
  "\<exists>outs outs'. relay_all px_env MESH_GATT_PROXY (replicate 20 3) 0 (px_clients (px_node ACCEPT [9, 0, 0])) = (True, outs) \<and>
    bt_mesh_proxy_relay px_env (replicate 20 3) 9 (px_node ACCEPT [9, 0, 0]) = Some (True, (px_node ACCEPT [9, 0, 0])\<lparr>px_out := outs\<rparr>) \<and>
    bt_mesh_proxy_relay (px_env\<lparr>pe_notify := (\<lambda>_. Some EINVAL)\<rparr>) (replicate 20 3) 9 (px_node ACCEPT [9, 0, 0]) =
      Some (False, (px_node ACCEPT [9, 0, 0])\<lparr>px_out := outs'\<rparr>) \<and> length outs' = 4"
proof -
  let ?s = "px_node ACCEPT [9, 0, 0]" and ?pe = "px_env\<lparr>pe_notify := (\<lambda>_. Some EINVAL)\<rparr>"
  have f: "filter (relay_target 9) (px_clients ?s) = px_clients ?s" "px_out ?s = []" "px_gatt_svc ?s = MESH_GATT_PROXY"
    by (simp_all add: px_node_def px_role_def relay_target_def)
  have mtu: "5 \<le> unat (pe_mtu px_env conn)" "5 \<le> unat (pe_mtu ?pe conn)" for conn by (simp_all add: px_env_def)
  have r: "fst (relay_all px_env MESH_GATT_PROXY (replicate 20 3) 0 (px_clients ?s))"
    "\<not> fst (relay_all ?pe MESH_GATT_PROXY (replicate 20 3) 0 (px_clients ?s))"
    "length (snd (relay_all ?pe MESH_GATT_PROXY (replicate 20 3) 0 (px_clients ?s))) = 4"
    by code_simp+
  obtain sent outs where 1: "relay_all px_env MESH_GATT_PROXY (replicate 20 3) 0 (px_clients ?s) = (sent, outs)"
      "bt_mesh_proxy_relay px_env (replicate 20 3) 9 ?s = Some (sent, ?s\<lparr>px_out := outs\<rparr>)"
    using proxy_relay_exact [of "replicate 20 3" ?s px_env 9, unfolded f] mtu by auto
  obtain sent' outs' where 2: "relay_all ?pe MESH_GATT_PROXY (replicate 20 3) 0 (px_clients ?s) = (sent', outs')"
      "bt_mesh_proxy_relay ?pe (replicate 20 3) 9 ?s = Some (sent', ?s\<lparr>px_out := outs'\<rparr>)"
    using proxy_relay_exact [of "replicate 20 3" ?s ?pe 9, unfolded f] mtu by auto
  show ?thesis using 1 2 r by (intro exI [of _ outs] exI [of _ outs']) simp
qed

end
