(* ===== verification/Mesh_Px_Adv.thy ===== *)
theory Mesh_Px_Adv
  imports Mesh_Px_Sar
begin

text \<open>
  The advertising of the proxy service (\<open>core/src/mesh/gatt_services.c\<close>): the loop that chooses the
  next subnet to advertise ends and misses none, and what the node advertises when there is none.
\<close>

section \<open>The choice of a subnet\<close>

abbreviation used_at :: "bt_mesh_subnet list \<Rightarrow> nat \<Rightarrow> bool" where
  "used_at subs j \<equiv> sn_net_idx (subs ! j) \<noteq> BT_MESH_KEY_UNUSED"

lemma mod_shift: "(i mod N + 1 + m) mod N = (i + (1 + m)) mod (N :: nat)"
  by (metis add.assoc mod_add_left_eq)

lemma mod_moved:
  assumes "start < N" "0 < m" "m < (N :: nat)"
  shows "(start + m) mod N \<noteq> start"
proof (cases "start + m < N")
  case False
  then have "(start + m) mod N = start + m - N" using assms by (simp add: le_mod_geq)
  then show ?thesis using assms False by linarith
qed (use assms in simp)

lemma subnet_next_loop_used:
  "subnet_next_loop subs n j = Some i \<Longrightarrow> j \<le> length subs \<Longrightarrow> subs \<noteq> [] \<Longrightarrow> i < length subs \<and> used_at subs i"
proof (induction n arbitrary: j)
  case (Suc n)
  let ?j = "if j = length subs then 0 else j"
  have j: "?j < length subs" using Suc.prems(2,3) by simp
  show ?case
  proof (cases "used_at subs ?j")
    case False
    then have "subnet_next_loop subs n (?j + 1) = Some i" using Suc.prems(1) by (simp add: Let_def)
    then show ?thesis using Suc.IH [of "?j + 1"] j Suc.prems(3) by simp
  next
    case True
    then have "i = ?j" using Suc.prems(1) by (simp add: Let_def)
    with True j show ?thesis by blast
  qed
qed simp

lemma subnet_next_loop_finds:
  assumes "i \<le> length subs" "k < n" "0 < length subs" "used_at subs ((i + k) mod length subs)"
  shows "\<exists>k' \<le> k. subnet_next_loop subs n i = Some ((i + k') mod length subs) \<and> used_at subs ((i + k') mod length subs) \<and>
    (\<forall>k'' < k'. \<not> used_at subs ((i + k'') mod length subs))"
  using assms
proof (induction n arbitrary: i k)
  case (Suc n)
  let ?N = "length subs" and ?j = "i mod length subs"
  have j: "(if i = ?N then 0 else i) = ?j" using Suc.prems(1) by auto
  show ?case
  proof (cases "used_at subs ?j")
    case True
    then show ?thesis using j by (intro exI [of _ 0]) (simp add: Let_def)
  next
    case False
    obtain l where l: "k = Suc l" using False Suc.prems(4) by (cases k) auto
    have shift: "(?j + 1 + m) mod ?N = (i + Suc m) mod ?N" for m using mod_shift [of i ?N m] by simp
    have "?j + 1 \<le> ?N" using mod_less_divisor [OF Suc.prems(3), of i] by simp
    moreover have "used_at subs ((?j + 1 + l) mod ?N)" using Suc.prems(4) unfolding shift l .
    ultimately obtain k' where k': "k' \<le> l" "subnet_next_loop subs n (?j + 1) = Some ((i + Suc k') mod ?N)" "used_at subs ((i + Suc k') mod ?N)"
        "\<forall>k'' < k'. \<not> used_at subs ((i + Suc k'') mod ?N)"
      using Suc.IH [of "?j + 1" l] Suc.prems(2,3) l unfolding shift by auto
    have "\<forall>k'' < Suc k'. \<not> used_at subs ((i + k'') mod ?N)" using k'(4) False by (auto simp: less_Suc_eq_0_disj)
    then show ?thesis using k'(1-3) l j False by (intro exI [of _ "Suc k'"]) (simp add: Let_def)
  qed
qed simp

lemma next_sub_loop_total:
  assumes "start < length (ks_subnets ks)" "used_at (ks_subnets ks) start" "m < length (ks_subnets ks)"
  shows "\<exists>r. next_sub_loop pe ks start ((start + m) mod length (ks_subnets ks)) = Some r \<and>
    (case r of None \<Rightarrow> \<forall>l. m \<le> l \<and> l < length (ks_subnets ks) \<longrightarrow> \<not> advertise_subnet pe (ks_subnets ks ! ((start + l) mod length (ks_subnets ks)))
     | Some i \<Rightarrow> i < length (ks_subnets ks) \<and> advertise_subnet pe (ks_subnets ks ! i))"
  using assms(3)
proof (induction "length (ks_subnets ks) - m" arbitrary: m rule: less_induct)
  case less
  let ?subs = "ks_subnets ks" and ?N = "length (ks_subnets ks)"
  let ?x = "(start + m) mod ?N"
  have x: "?x < ?N" by (rule mod_less_divisor) (use assms(1) in linarith)
  show ?case
  proof (cases "advertise_subnet pe (?subs ! ?x)")
    case True
    then show ?thesis using x by (subst next_sub_loop.simps) simp
  next
    case False
    have shift: "(?x + 1 + k) mod ?N = (start + (m + 1 + k)) mod ?N" for k
      using mod_shift [of "start + m" ?N k] by (simp only: add.assoc)
    have all: "m + 1 + (?N - m - 1) = ?N" using less.prems by linarith
    have "used_at ?subs ((?x + 1 + (?N - m - 1)) mod ?N)" unfolding shift all using assms(1,2) by simp
    moreover have "?x + 1 \<le> ?N" "?N - m - 1 < ?N" "0 < ?N" using x less.prems by linarith+
    ultimately obtain k where k: "k \<le> ?N - m - 1" "subnet_next_loop ?subs ?N (?x + 1) = Some ((start + (m + 1 + k)) mod ?N)"
        "\<forall>k'' < k. \<not> used_at ?subs ((start + (m + 1 + k'')) mod ?N)"
      using subnet_next_loop_finds [of "?x + 1" ?subs "?N - m - 1" ?N] unfolding shift by blast
    have nxt: "bt_mesh_subnet_next (Some ?x) ks = Some ((start + (m + 1 + k)) mod ?N)" using k(2) by (simp add: bt_mesh_subnet_next_def)
    have skip: "\<not> advertise_subnet pe (?subs ! ((start + l) mod ?N))" if "m \<le> l" "l < m + 1 + k" for l
    proof (cases "l = m")
      case False
      then have "l = m + 1 + (l - m - 1)" "l - m - 1 < k" using that by linarith+
      then obtain k'' where "l = m + 1 + k''" "k'' < k" by blast
      then show ?thesis using k(3) by (simp add: advertise_subnet_def)
    qed (use False in simp)
    show ?thesis
    proof (cases "m + 1 + k = ?N")
      case True
      then have "next_sub_loop pe ks start ?x = Some None" using False nxt assms(1) by (subst next_sub_loop.simps) simp
      then show ?thesis using skip True by auto
    next
      case ne: False
      let ?m = "m + 1 + k"
      have m: "?m < ?N" "?N - ?m < ?N - m" using ne k(1) less.prems by linarith+
      have "(start + ?m) mod ?N \<noteq> start" by (rule mod_moved [OF assms(1) _ m(1)]) simp
      then have step: "next_sub_loop pe ks start ?x = next_sub_loop pe ks start ((start + ?m) mod ?N)"
        using False nxt by (subst next_sub_loop.simps) simp
      obtain r where r: "next_sub_loop pe ks start ((start + ?m) mod ?N) = Some r"
          "case r of None \<Rightarrow> \<forall>l. ?m \<le> l \<and> l < ?N \<longrightarrow> \<not> advertise_subnet pe (?subs ! ((start + l) mod ?N)) | Some i \<Rightarrow> i < ?N \<and> advertise_subnet pe (?subs ! i)"
        using less.hyps [OF m(2,1)] by blast
      show ?thesis
      proof (cases r)
        case None
        then have "\<not> advertise_subnet pe (?subs ! ((start + l) mod ?N))" if "m \<le> l" "l < ?N" for l
          using r(2) skip [OF that(1)] that(2) by (cases "l < ?m") simp_all
        then show ?thesis using step r(1) None by auto
      qed (use step r in simp)
    qed
  qed
qed

definition advertisable :: "proxy_env \<Rightarrow> proxy_state \<Rightarrow> bool" where
  "advertisable pe s \<longleftrightarrow> (\<exists>sub \<in> set (px_subs s). advertise_subnet pe sub)"

lemma rotate_all:
  assumes "start < (N :: nat)" "\<And>l. l < N \<Longrightarrow> \<not> P ((start + l) mod N)" "i < N"
  shows "\<not> P i"
proof -
  have "(start + (N + i - start) mod N) mod N = (start + (N + i - start)) mod N" by (rule mod_add_right_eq)
  also have "\<dots> = i" using assms(1,3) by simp
  finally show ?thesis using assms(2) [of "(N + i - start) mod N"] assms(1) by simp
qed

lemma next_sub_result:
  assumes "\<And>b. px_beacon_sub s = Some b \<Longrightarrow> b < length (px_subs s) \<and> used_at (px_subs s) b"
  shows "\<exists>r s'. next_sub pe s = Some (r, s') \<and> (r = None \<longleftrightarrow> \<not> advertisable pe s) \<and> s'\<lparr>px_beacon_sub := px_beacon_sub s\<rparr> = s \<and>
    (\<forall>i. r = Some i \<longrightarrow> px_beacon_sub s' = Some i \<and> i < length (px_subs s) \<and> advertise_subnet pe (px_subs s ! i)) \<and>
    (r = None \<longrightarrow> px_beacon_sub s' = (case px_beacon_sub s of Some b \<Rightarrow> Some b | None \<Rightarrow> bt_mesh_subnet_next None (bc_keys (px_bc s))))"
proof -
  let ?ks = "bc_keys (px_bc s)" and ?N = "length (px_subs s)"
  define b where "b = (case px_beacon_sub s of Some b \<Rightarrow> Some b | None \<Rightarrow> bt_mesh_subnet_next None ?ks)"
  have used: "i < ?N \<and> used_at (px_subs s) i" if "b = Some i" for i
  proof (cases "px_beacon_sub s")
    case None
    then have "subnet_next_loop (px_subs s) ?N 0 = Some i" using that by (simp add: b_def bt_mesh_subnet_next_def)
    moreover have "px_subs s \<noteq> []" using calculation(1) by (cases "px_subs s") auto
    ultimately show ?thesis using subnet_next_loop_used by blast
  qed (use that assms in \<open>simp add: b_def\<close>)
  show ?thesis
  proof (cases b)
    case None
    then have nob: "px_beacon_sub s = None" "bt_mesh_subnet_next None ?ks = None" by (auto simp: b_def split: option.splits)
    have "\<not> used_at (px_subs s) i" if "i < ?N" for i
    proof
      assume "used_at (px_subs s) i"
      then have "used_at (px_subs s) ((0 + i) mod ?N)" using that by simp
      moreover have "0 < ?N" using that by linarith
      ultimately show False using subnet_next_loop_finds [of 0 "px_subs s" i ?N] that nob(2) unfolding bt_mesh_subnet_next_def by auto
    qed
    then have "\<not> advertisable pe s" unfolding advertisable_def advertise_subnet_def by (metis in_set_conv_nth)
    then show ?thesis using nob by (simp add: next_sub_def)
  next
    case (Some start)
    note start = used [OF Some]
    have zero: "0 < ?N" "(start + 0) mod ?N = start" using start by linarith (use start in simp)
    obtain r where r: "next_sub_loop pe ?ks start start = Some r"
      "case r of None \<Rightarrow> \<forall>l. 0 \<le> l \<and> l < ?N \<longrightarrow> \<not> advertise_subnet pe (px_subs s ! ((start + l) mod ?N)) | Some i \<Rightarrow> i < ?N \<and> advertise_subnet pe (px_subs s ! i)"
      using next_sub_loop_total [OF conjunct1 [OF start] conjunct2 [OF start] zero(1), of pe] unfolding zero(2) by (elim exE conjE)
    let ?s = "s\<lparr>px_beacon_sub := Some start\<rparr>"
    have same: "(if px_beacon_sub s = None then s\<lparr>px_beacon_sub := bt_mesh_subnet_next None ?ks\<rparr> else s) = ?s"
      using Some by (cases s) (auto simp: b_def split: option.splits)
    have res: "next_sub pe s = Some (case r of None \<Rightarrow> (None, ?s) | Some sub \<Rightarrow> (Some sub, ?s\<lparr>px_beacon_sub := Some sub\<rparr>))"
      unfolding next_sub_def Let_def same using r(1) by simp
    have bs: "(case px_beacon_sub s of Some b \<Rightarrow> Some b | None \<Rightarrow> bt_mesh_subnet_next None ?ks) = Some start" using Some by (simp add: b_def)
    show ?thesis
    proof (cases r)
      case None
      have "\<not> advertisable pe s" unfolding advertisable_def
        using rotate_all [of start ?N "\<lambda>i. advertise_subnet pe (px_subs s ! i)"] start r(2) None by (auto simp: in_set_conv_nth)
      then show ?thesis using res None bs by simp
    next
      case (Some i)
      then have "advertisable pe s" using r(2) by (auto simp: advertisable_def)
      then show ?thesis using res r(2) Some by simp
    qed
  qed
qed

text \<open>
  The choice of the subnet to advertise ends, if the subnet of the last round is still in use.
  It returns a subnet that is to be advertised and remembers it, and none exactly if there is no
  such subnet.
\<close>

theorem next_sub_complete:
  assumes "\<And>b. px_beacon_sub s = Some b \<Longrightarrow> b < length (px_subs s) \<and> sn_net_idx (px_subs s ! b) \<noteq> BT_MESH_KEY_UNUSED"
  shows "\<exists>r s'. next_sub pe s = Some (r, s') \<and> (r = None \<longleftrightarrow> (\<forall>sub. sub \<in> set (px_subs s) \<longrightarrow> \<not> advertise_subnet pe sub)) \<and>
    (\<forall>i. r = Some i \<longrightarrow> px_beacon_sub s' = Some i \<and> i < length (px_subs s) \<and> advertise_subnet pe (px_subs s ! i))"
  using next_sub_result [OF assms, of pe] unfolding advertisable_def by blast

text \<open>
  A node whose GATT proxy is disabled goes on advertising it.  If no subnet is to be
  advertised, \<open>next_sub\<close> says so, but \<open>gatt_proxy_advertise\<close> replaces its argument: the node
  advertises the network ID of a subnet, with no limit of time.
\<close>

theorem proxy_disabled_still_advertises:
  assumes "px_gatt_svc s \<noteq> MESH_GATT_NONE" "bm_valid (bc_mesh (px_bc s))" "cfg_gatt_proxy (px_mesh_cfg po)"
    and "ne_gatt_proxy (pe_net pe) \<noteq> BT_MESH_FEATURE_ENABLED" "\<And>sub. sub \<in> set (px_subs s) \<Longrightarrow> sn_node_id sub = BT_MESH_FEATURE_DISABLED"
    and "px_beacon_sub s = Some b" "b < length (px_subs s)" "sn_net_idx (px_subs s ! b) \<noteq> BT_MESH_KEY_UNUSED" "px_conn_count s < int (length (px_clients s))"
  shows "next_sub pe s = Some (None, s) \<and>
    (\<exists>s'. bt_mesh_proxy_adv_start po pe s = Some (pe_adv_start pe (length (px_out s)), s') \<and>
      px_out s' = px_out s @ [Proxy_adv_start False SYS_FOREVER_MS (take NET_ID_LEN
        (mem_write 3 (take 8 (sk_net_id (sn_keys (px_subs s ! b) ! SUBNET_KEY_TX_IDX (px_subs s ! b)))) ((px_svc_data s)[2 := ID_TYPE_NET])))])"
proof -
  have none: "\<not> advertise_subnet pe sub" if "sub \<in> set (px_subs s)" for sub
    using that assms(4,5) by (simp add: advertise_subnet_def)
  then have no: "\<not> advertisable pe s" "sub_count pe s = 0" by (auto simp: advertisable_def sub_count_def)
  have "\<exists>r s'. next_sub pe s = Some (r, s') \<and> (r = None \<longleftrightarrow> \<not> advertisable pe s) \<and> s'\<lparr>px_beacon_sub := px_beacon_sub s\<rparr> = s \<and>
    (\<forall>i. r = Some i \<longrightarrow> px_beacon_sub s' = Some i \<and> i < length (px_subs s) \<and> advertise_subnet pe (px_subs s ! i)) \<and>
    (r = None \<longrightarrow> px_beacon_sub s' = (case px_beacon_sub s of Some b \<Rightarrow> Some b | None \<Rightarrow> bt_mesh_subnet_next None (bc_keys (px_bc s))))"
    by (rule next_sub_result) (use assms(6-8) in simp)
  then obtain s1 where s1: "next_sub pe s = Some (None, s1)" "s1\<lparr>px_beacon_sub := px_beacon_sub s\<rparr> = s" "px_beacon_sub s1 = px_beacon_sub s"
    using no(1) assms(6) by auto
  have "s1 = s" using s1(2,3) by (cases s1) auto
  then have nx: "next_sub pe s = Some (None, s)" using s1(1) by simp
  have id: "sn_node_id (px_subs s ! b) = BT_MESH_FEATURE_DISABLED" using assms(5,7) by simp
  have adv: "bt_mesh_proxy_adv_start po pe s = Some (gatt_proxy_advertise po pe None s)"
    using assms(1-3) nx by (simp add: bt_mesh_proxy_adv_start_def)
  have "gatt_proxy_advertise po pe None s = (let (err, s') = net_id_adv pe b SYS_FOREVER_MS s in (err, s'\<lparr>px_beacon_sub := bt_mesh_subnet_next (px_beacon_sub s') (bc_keys (px_bc s'))\<rparr>))"
    using assms(6,9) id no(2) by (simp add: gatt_proxy_advertise_def)
  then show ?thesis using nx adv by (simp add: net_id_adv_def proxy_adv_def px_output_def Let_def)
qed

section \<open>An example\<close>

definition px_idle :: proxy_state where
  "px_idle = (px_node ACCEPT [])\<lparr>px_conn_count := 0, px_beacon_sub := Some 0, px_svc_data := replicate 19 0\<rparr>"

lemma px_idle:
  "px_gatt_svc px_idle \<noteq> MESH_GATT_NONE" "bm_valid (bc_mesh (px_bc px_idle))" "cfg_gatt_proxy (px_mesh_cfg px_cfg)" "ne_gatt_proxy (pe_net px_env) \<noteq> BT_MESH_FEATURE_ENABLED"
  "sub \<in> set (px_subs px_idle) \<Longrightarrow> sn_node_id sub = BT_MESH_FEATURE_DISABLED" "px_beacon_sub px_idle = Some 0" "0 < length (px_subs px_idle)"
  "sn_net_idx (px_subs px_idle ! 0) \<noteq> BT_MESH_KEY_UNUSED" "px_conn_count px_idle < int (length (px_clients px_idle))"
  "px_out px_idle = []" "pe_adv_start px_env n = None"
  by (auto simp: px_idle_def px_node_def px_cfg_def px_env_def bc_example_keys bc_cfg_def cfg_example_def link_env_def link_subnet_def unused_subnet_def node_example_def)

theorem next_sub_complete_witness: "\<exists>s'. next_sub px_env px_idle = Some (None, s')"
proof -
  have "\<exists>r s'. next_sub px_env px_idle = Some (r, s') \<and> (r = None \<longleftrightarrow> (\<forall>sub. sub \<in> set (px_subs px_idle) \<longrightarrow> \<not> advertise_subnet px_env sub)) \<and>
    (\<forall>i. r = Some i \<longrightarrow> px_beacon_sub s' = Some i \<and> i < length (px_subs px_idle) \<and> advertise_subnet px_env (px_subs px_idle ! i))"
    by (rule next_sub_complete) (use px_idle(6-8) in simp)
  moreover have "\<not> advertise_subnet px_env sub" if "sub \<in> set (px_subs px_idle)" for sub
    using px_idle(4) px_idle(5) [OF that] by (simp add: advertise_subnet_def)
  ultimately show ?thesis by blast
qed

theorem proxy_disabled_still_advertises_witness:
  "next_sub px_env px_idle = Some (None, px_idle) \<and>
    (\<exists>s' dat. bt_mesh_proxy_adv_start px_cfg px_env px_idle = Some (None, s') \<and> px_out s' = [Proxy_adv_start False SYS_FOREVER_MS dat])"
  using proxy_disabled_still_advertises [OF px_idle(1-9)] px_idle(10,11) by auto

end
