(* ===== verification/Mesh_Cfg.thy ===== *)
theory Mesh_Cfg
  imports Mesh_Seg_Rx Mesh_Bc
begin

text \<open>
  The configuration state of a node: \<open>core/src/mesh/cfg.c\<close>, the heartbeats of
  \<open>core/src/mesh/heartbeat.c\<close> and \<open>heartbeat.h\<close>, and the scheduling of stores and the commit after
  loading of \<open>core/src/mesh/settings.c\<close>.

  The state has the transport layer, with the network layer and the keys in it, and the static
  variables of the files.  Beacons run on the part of it that \<open>node_bc\<close> shows.  What the layers
  below take from their environment and this code holds (the features, the default time to live
  and the transmission parameters) \<open>node_env\<close> fills in.
\<close>

section \<open>Data\<close>

definition BT_MESH_FEAT_RELAY :: u16 where [simp]: "BT_MESH_FEAT_RELAY = 1"
definition BT_MESH_FEAT_PROXY :: u16 where [simp]: "BT_MESH_FEAT_PROXY = 2"
definition BT_MESH_FEAT_FRIEND :: u16 where [simp]: "BT_MESH_FEAT_FRIEND = 4"
definition BT_MESH_FEAT_LOW_POWER :: u16 where [simp]: "BT_MESH_FEAT_LOW_POWER = 8"

definition BT_MESH_FEAT_SUPPORTED :: u16 where
  "BT_MESH_FEAT_SUPPORTED = BT_MESH_FEAT_RELAY OR BT_MESH_FEAT_PROXY OR BT_MESH_FEAT_FRIEND OR BT_MESH_FEAT_LOW_POWER"

definition BT_MESH_TRANSMIT :: "nat \<Rightarrow> nat \<Rightarrow> u8" where
  "BT_MESH_TRANSMIT count int_ms = word_of_nat count OR push_bit 3 (word_of_nat (int_ms div 10) - 1)"

record cfg_val =
  cv_net_transmit :: u8
  cv_relay :: u8
  cv_relay_retransmit :: u8
  cv_beacon :: u8
  cv_gatt_proxy :: u8
  cv_frnd :: u8
  cv_default_ttl :: u8

record bt_mesh_hb_pub =
  hp_dst :: u16
  hp_count :: u16
  hp_ttl :: u8
  hp_feat :: u16
  hp_net_idx :: u16
  hp_period :: u32

record bt_mesh_hb_sub =
  hb_period :: u32
  hb_remaining :: u32
  hb_src :: u16
  hb_dst :: u16
  hb_count :: u16
  hb_min_hops :: u8
  hb_max_hops :: u8

record hb_pub_val =
  hv_dst :: u16
  hv_period :: u8
  hv_ttl :: u8
  hv_feat :: u16
  hv_net_idx :: u16
  hv_indefinite :: bool

datatype node_out =
    Hb_recv bt_mesh_hb_sub u8 u16
  | Hb_sub_end bt_mesh_hb_sub
  | Friends_clear
  | Save_cfg cfg_val
  | Save_hb_pub hb_pub_val
  | Node_delete string
  | Rpl_pending_store u16
  | Subnet_pending_store
  | App_key_pending_store
  | Net_pending_net_store
  | Net_pending_iv_store
  | Net_pending_seq_store
  | Model_pending_store
  | Va_pending_store
  | Cdb_pending_store
  | Prov_disable
  | Model_settings_commit
  | Mesh_start

text \<open>\<open>nd_pending\<close> and \<open>nd_store_timer\<close> are the flags and the timer of \<open>settings.c\<close>; a timer has the milliseconds left.\<close>

record node_state =
  nd_trans :: trans_state
  nd_relay :: bool
  nd_beacon :: bool
  nd_gatt_proxy :: bool
  nd_friend :: bool
  nd_default_ttl :: u8
  nd_net_xmit :: u8
  nd_relay_xmit :: u8
  nd_first_half :: bool
  nd_beacon_timer :: "nat option"
  nd_beacon_out :: "beacon_out list"
  nd_pub :: bt_mesh_hb_pub
  nd_sub :: bt_mesh_hb_sub
  nd_pub_timer :: "nat option"
  nd_sub_timer :: "nat option"
  nd_pending :: "bt_mesh_settings_flag set"
  nd_store_timer :: "nat option"
  nd_out :: "node_out list"

record node_cfg =
  nc_trans :: trans_cfg
  nc_relay :: bool
  nc_pb_gatt :: bool
  nc_default_ttl :: u8
  nc_net_transmit :: "nat \<times> nat"
  nc_relay_retransmit :: "nat \<times> nat"
  nc_relay_enabled :: bool
  nc_beacon_enabled :: bool
  nc_gatt_proxy_enabled :: bool
  nc_friend_enabled :: bool
  nc_store_timeout :: nat
  nc_rpl_store_timeout :: int

abbreviation nc_mesh :: "node_cfg \<Rightarrow> mesh_cfg" where
  "nc_mesh nc \<equiv> tc_mesh (nc_trans nc)"

abbreviation nd_mesh :: "node_state \<Rightarrow> bt_mesh_net" where
  "nd_mesh s \<equiv> ts_net (nd_trans s)"

abbreviation nd_keys :: "node_state \<Rightarrow> keys_state" where
  "nd_keys s \<equiv> ts_keys (nd_trans s)"

definition node_output :: "node_out \<Rightarrow> node_state \<Rightarrow> node_state" where
  "node_output x s = s\<lparr>nd_out := nd_out s @ [x]\<rparr>"

text \<open>The state of the beacons in that of the node, and back.\<close>

definition node_bc :: "node_state \<Rightarrow> beacon_state" where
  "node_bc s =
     \<lparr>bc_net = ts_layer (nd_trans s), bc_keys = nd_keys s, bc_beacon = nd_beacon s, bc_first_half = nd_first_half s,
      bc_timer = nd_beacon_timer s, bc_out = nd_beacon_out s\<rparr>"

definition set_node_bc :: "beacon_state \<Rightarrow> node_state \<Rightarrow> node_state" where
  "set_node_bc bc s =
     s\<lparr>nd_trans := (nd_trans s)\<lparr>ts_layer := bc_net bc, ts_keys := bc_keys bc\<rparr>, nd_beacon := bc_beacon bc,
       nd_first_half := bc_first_half bc, nd_beacon_timer := bc_timer bc, nd_beacon_out := bc_out bc\<rparr>"

section \<open>Scheduling of stores\<close>

definition NO_WAIT_PENDING_BITS :: "bt_mesh_settings_flag set" where
  "NO_WAIT_PENDING_BITS = {BT_MESH_SETTINGS_NET_PENDING, BT_MESH_SETTINGS_IV_PENDING, BT_MESH_SETTINGS_SEQ_PENDING, BT_MESH_SETTINGS_CDB_PENDING}"

definition GENERIC_PENDING_BITS :: "bt_mesh_settings_flag set" where
  "GENERIC_PENDING_BITS = {BT_MESH_SETTINGS_NET_KEYS_PENDING, BT_MESH_SETTINGS_APP_KEYS_PENDING, BT_MESH_SETTINGS_HB_PUB_PENDING,
     BT_MESH_SETTINGS_CFG_PENDING, BT_MESH_SETTINGS_MOD_PENDING, BT_MESH_SETTINGS_VA_PENDING}"

definition store_timeout :: "node_cfg \<Rightarrow> bt_mesh_settings_flag set \<Rightarrow> nat" where
  "store_timeout nc flags =
     (if flags \<inter> NO_WAIT_PENDING_BITS \<noteq> {} then 0
      else if 0 \<le> nc_rpl_store_timeout nc \<and> BT_MESH_SETTINGS_RPL_PENDING \<in> flags \<and> flags \<inter> GENERIC_PENDING_BITS = {}
      then nat (nc_rpl_store_timeout nc) * 1000
      else nc_store_timeout nc * 1000)"

text \<open>\<open>k_work_schedule\<close> leaves a running timer alone, \<open>k_work_reschedule\<close> does not.\<close>

definition bt_mesh_settings_store_schedule :: "node_cfg \<Rightarrow> bt_mesh_settings_flag \<Rightarrow> node_state \<Rightarrow> node_state" where
  "bt_mesh_settings_store_schedule nc flag s =
     (let s = s\<lparr>nd_pending := insert flag (nd_pending s)\<rparr>;
          timeout_ms = store_timeout nc (nd_pending s);
          remaining_ms = (case nd_store_timer s of None \<Rightarrow> 0 | Some t \<Rightarrow> t)
      in if timeout_ms < remaining_ms then s\<lparr>nd_store_timer := Some timeout_ms\<rparr>
         else s\<lparr>nd_store_timer := (case nd_store_timer s of None \<Rightarrow> Some timeout_ms | Some t \<Rightarrow> Some t)\<rparr>)"

definition bt_mesh_settings_store_cancel :: "bt_mesh_settings_flag \<Rightarrow> node_state \<Rightarrow> node_state" where
  "bt_mesh_settings_store_cancel flag s = s\<lparr>nd_pending := nd_pending s - {flag}\<rparr>"

definition store_order :: "node_cfg \<Rightarrow> bt_mesh_settings_flag list" where
  "store_order nc =
     [BT_MESH_SETTINGS_RPL_PENDING, BT_MESH_SETTINGS_NET_KEYS_PENDING, BT_MESH_SETTINGS_APP_KEYS_PENDING, BT_MESH_SETTINGS_NET_PENDING,
      BT_MESH_SETTINGS_IV_PENDING, BT_MESH_SETTINGS_SEQ_PENDING, BT_MESH_SETTINGS_HB_PUB_PENDING, BT_MESH_SETTINGS_CFG_PENDING,
      BT_MESH_SETTINGS_MOD_PENDING, BT_MESH_SETTINGS_VA_PENDING] @ (if cfg_cdb (nc_mesh nc) then [BT_MESH_SETTINGS_CDB_PENDING] else [])"

section \<open>Features\<close>

definition feature_set :: "bool \<Rightarrow> bt_mesh_feat_state \<Rightarrow> errno option \<times> bool" where
  "feature_set flag state =
     (if state \<noteq> BT_MESH_FEATURE_DISABLED \<and> state \<noteq> BT_MESH_FEATURE_ENABLED then (Some EINVAL, flag)
      else if flag = (state = BT_MESH_FEATURE_ENABLED) then (Some EALREADY, flag)
      else (None, state = BT_MESH_FEATURE_ENABLED))"

definition feature_get :: "bool \<Rightarrow> bt_mesh_feat_state" where
  "feature_get flag = (if flag then BT_MESH_FEATURE_ENABLED else BT_MESH_FEATURE_DISABLED)"

definition bt_mesh_gatt_proxy_get :: "node_cfg \<Rightarrow> node_state \<Rightarrow> bt_mesh_feat_state" where
  "bt_mesh_gatt_proxy_get nc s =
     (if \<not> cfg_gatt_proxy (nc_mesh nc) then BT_MESH_FEATURE_NOT_SUPPORTED else feature_get (nd_gatt_proxy s))"

definition bt_mesh_friend_get :: "node_cfg \<Rightarrow> node_state \<Rightarrow> bt_mesh_feat_state" where
  "bt_mesh_friend_get nc s =
     (if \<not> cfg_friend (nc_mesh nc) then BT_MESH_FEATURE_NOT_SUPPORTED else feature_get (nd_friend s))"

definition bt_mesh_relay_get :: "node_state \<Rightarrow> bt_mesh_feat_state" where
  "bt_mesh_relay_get s = feature_get (nd_relay s)"

definition bt_mesh_relay_retransmit_get :: "node_cfg \<Rightarrow> node_state \<Rightarrow> u8" where
  "bt_mesh_relay_retransmit_get nc s = (if \<not> nc_relay nc then 0 else nd_relay_xmit s)"

definition bt_mesh_fixed_group_match :: "node_cfg \<Rightarrow> node_state \<Rightarrow> u16 \<Rightarrow> bool" where
  "bt_mesh_fixed_group_match nc s addr =
     (if addr = BT_MESH_ADDR_ALL_NODES then True
      else if addr = BT_MESH_ADDR_PROXIES then bt_mesh_gatt_proxy_get nc s = BT_MESH_FEATURE_ENABLED
      else if addr = BT_MESH_ADDR_FRIENDS then bt_mesh_friend_get nc s = BT_MESH_FEATURE_ENABLED
      else if addr = BT_MESH_ADDR_RELAYS then bt_mesh_relay_get s = BT_MESH_FEATURE_ENABLED
      else False)"

text \<open>The environment of the layers below, with what this code answers.\<close>

definition node_env :: "node_cfg \<Rightarrow> trans_env \<Rightarrow> node_state \<Rightarrow> trans_env" where
  "node_env nc te s =
     te\<lparr>te_net := (te_net te)\<lparr>ne_fixed_group := bt_mesh_fixed_group_match nc s, ne_relay_enabled := (bt_mesh_relay_get s = BT_MESH_FEATURE_ENABLED),
          ne_gatt_proxy := bt_mesh_gatt_proxy_get nc s, ne_subnets := ks_subnets (nd_keys s)\<rparr>,
        te_default_ttl := nd_default_ttl s, te_transmit := nd_net_xmit s\<rparr>"

section \<open>Heartbeats\<close>

text \<open>A shift by more than the width of an \<open>int\<close>, for \<open>val\<close> above \<open>0x20\<close>, has no meaning in C; here it is 0.\<close>

definition bt_mesh_hb_pwr2 :: "u8 \<Rightarrow> u16" where
  "bt_mesh_hb_pwr2 val =
     (if val = 0 then 0 else if val = 0xff \<or> val = 0x11 then 0xffff else ucast (push_bit (unat (val - 1)) (1 :: u32)))"

text \<open>\<open>__builtin_clz\<close>, the number of leading zero bits.\<close>

definition builtin_clz :: "u32 \<Rightarrow> nat" where
  "builtin_clz val = length (takeWhile (\<lambda>i. \<not> bit val (31 - i)) [0..<32])"

definition bt_mesh_hb_log :: "u32 \<Rightarrow> u8" where
  "bt_mesh_hb_log val = (if val = 0 then 0 else if val = 0xffff then 0xff else word_of_nat (32 - builtin_clz val))"

definition sub_remaining :: "node_state \<Rightarrow> u32" where
  "sub_remaining s =
     (if hb_dst (nd_sub s) = BT_MESH_ADDR_UNASSIGNED then 0
      else (case nd_sub_timer s of None \<Rightarrow> 0 | Some ms \<Rightarrow> word_of_nat (ms div 1000)))"

definition hb_publish_end_cb :: "node_state \<Rightarrow> node_state" where
  "hb_publish_end_cb s =
     (let pub = nd_pub s;
          s = (if hp_period pub \<noteq> 0 \<and> 1 < hp_count pub then s\<lparr>nd_pub_timer := Some (unat (hp_period pub) * 1000)\<rparr> else s)
      in if hp_count pub \<noteq> 0xffff then s\<lparr>nd_pub := pub\<lparr>hp_count := hp_count pub - 1\<rparr>\<rparr> else s)"

definition hb_publish_start_cb :: "errno option \<Rightarrow> node_state \<Rightarrow> node_state" where
  "hb_publish_start_cb err s = (if err \<noteq> None then hb_publish_end_cb s else s)"

definition notify_recv :: "u8 \<Rightarrow> u16 \<Rightarrow> node_state \<Rightarrow> node_state" where
  "notify_recv hops feat s =
     (let s = s\<lparr>nd_sub := (nd_sub s)\<lparr>hb_remaining := sub_remaining s\<rparr>\<rparr> in node_output (Hb_recv (nd_sub s) hops feat) s)"

definition notify_sub_end :: "node_state \<Rightarrow> node_state" where
  "notify_sub_end s =
     (let s = s\<lparr>nd_sub := (nd_sub s)\<lparr>hb_remaining := 0\<rparr>\<rparr> in node_output (Hb_sub_end (nd_sub s)) s)"

text \<open>The handler of the subscription timer.\<close>

definition sub_end :: "node_state \<Rightarrow> node_state" where
  "sub_end s = notify_sub_end (s\<lparr>nd_sub_timer := None\<rparr>)"

text \<open>The two callback structures: \<open>publish_cb\<close> of \<open>hb_publish\<close>, under the number 0, and none.\<close>

definition publish_cb :: send_cb where
  "publish_cb = \<lparr>cb_id = 0, cb_start = True, cb_end = True\<rparr>"

definition hb_feat :: "node_cfg \<Rightarrow> trans_env \<Rightarrow> node_state \<Rightarrow> u16" where
  "hb_feat nc te s =
     (if bt_mesh_relay_get s = BT_MESH_FEATURE_ENABLED then BT_MESH_FEAT_RELAY else 0) OR
     (if bt_mesh_gatt_proxy_get nc s = BT_MESH_FEATURE_ENABLED then BT_MESH_FEAT_PROXY else 0) OR
     (if bt_mesh_friend_get nc s = BT_MESH_FEATURE_ENABLED then BT_MESH_FEAT_FRIEND else 0) OR
     (if te_lpn_established te then BT_MESH_FEAT_LOW_POWER else 0)"

definition hb_tx :: "trans_env \<Rightarrow> nat \<Rightarrow> node_state \<Rightarrow> bt_mesh_net_tx" where
  "hb_tx te i s =
     \<lparr>tx_sub = i,
      tx_ctx = \<lparr>ctx_net_idx = hp_net_idx (nd_pub s), ctx_app_idx = BT_MESH_KEY_UNUSED, ctx_addr = hp_dst (nd_pub s), ctx_recv_dst = 0,
        ctx_recv_rssi = 0, ctx_recv_ttl = 0, ctx_send_rel = False, ctx_send_ttl = hp_ttl (nd_pub s)\<rparr>,
      tx_src = te_primary_addr te, tx_xmit = nd_net_xmit s, tx_friend_cred = False, tx_aszmic = False, tx_aid = 0\<rparr>"

text \<open>The callbacks that the transport layer makes during the call, in their order.\<close>

fun run_hb_cbs :: "trans_out list \<Rightarrow> node_state \<Rightarrow> node_state" where
  "run_hb_cbs [] s = s"
| "run_hb_cbs (Cb_start i d err # xs) s = run_hb_cbs xs (hb_publish_start_cb err s)"
| "run_hb_cbs (Cb_end i err # xs) s = run_hb_cbs xs (hb_publish_end_cb s)"
| "run_hb_cbs (_ # xs) s = run_hb_cbs xs s"

definition heartbeat_send :: "node_cfg \<Rightarrow> trans_env \<Rightarrow> send_cb option \<Rightarrow> node_state \<Rightarrow> (errno option \<times> node_state) option" where
  "heartbeat_send nc te cb s =
     (case bt_mesh_subnet_get (hp_net_idx (nd_pub s)) (nd_keys s) of None \<Rightarrow> Some (None, s)
      | Some i \<Rightarrow>
         if hp_dst (nd_pub s) = BT_MESH_ADDR_UNASSIGNED then Some (None, s)
         else do {
           (err, t) \<leftarrow> bt_mesh_ctl_send (nc_trans nc) (node_env nc te s) (hb_tx te i s) TRANS_CTL_OP_HEARTBEAT
              (hp_ttl (nd_pub s) # sys_put_be16 (hb_feat nc te s)) cb (nd_trans s);
           let new = drop (length (ts_out (nd_trans s))) (ts_out t);
           let s = s\<lparr>nd_trans := t\<rparr>;
           Some (err, if cb = None then s else run_hb_cbs new s)
         })"

text \<open>The handler of the publication timer.\<close>

definition hb_publish :: "node_cfg \<Rightarrow> trans_env \<Rightarrow> node_state \<Rightarrow> node_state option" where
  "hb_publish nc te s =
     (let s = s\<lparr>nd_pub_timer := None\<rparr>; pub = nd_pub s in
      if hp_period pub = 0 \<or> hp_count pub = 0 then Some s
      else if bt_mesh_subnet_get (hp_net_idx pub) (nd_keys s) = None
      then Some (s\<lparr>nd_pub := pub\<lparr>hp_dst := BT_MESH_ADDR_UNASSIGNED\<rparr>\<rparr>)
      else do {
        (err, s) \<leftarrow> heartbeat_send nc te (Some publish_cb) s;
        Some (if err \<noteq> None then hb_publish_end_cb s else s)
      })"

definition bt_mesh_hb_recv :: "bool \<Rightarrow> bt_mesh_net_rx \<Rightarrow> net_buf_simple \<Rightarrow> node_state \<Rightarrow> (errno option \<times> node_state) option" where
  "bt_mesh_hb_recv big rx buf s =
     (if nb_len buf < 3 then Some (Some EINVAL, s)
      else do {
        (init_ttl, buf) \<leftarrow> net_buf_simple_pull_u8 buf;
        (feat, buf) \<leftarrow> net_buf_simple_pull_be16 big buf;
        let hops = (init_ttl AND 0x7f) - ctx_recv_ttl (rx_ctx rx) + 1;
        let sub = nd_sub s;
        Some (None,
          if rx_addr rx \<noteq> hb_src sub \<or> ctx_recv_dst (rx_ctx rx) \<noteq> hb_dst sub then s
          else if nd_sub_timer s = None then s
          else notify_recv hops feat
                 (s\<lparr>nd_sub := sub\<lparr>hb_min_hops := min (hb_min_hops sub) hops, hb_max_hops := max (hb_max_hops sub) hops,
                     hb_count := (if hb_count sub < 0xffff then hb_count sub + 1 else hb_count sub)\<rparr>\<rparr>))
      })"

definition pub_disable :: "node_state \<Rightarrow> node_state" where
  "pub_disable s =
     s\<lparr>nd_pub := (nd_pub s)\<lparr>hp_dst := BT_MESH_ADDR_UNASSIGNED, hp_count := 0, hp_ttl := 0, hp_period := 0\<rparr>, nd_pub_timer := None\<rparr>"

definition bt_mesh_hb_pub_set :: "node_cfg \<Rightarrow> bt_mesh_hb_pub option \<Rightarrow> node_state \<Rightarrow> mesh_status \<times> node_state" where
  "bt_mesh_hb_pub_set nc new_pub s =
     (let store = (\<lambda>s. if cfg_settings (nc_mesh nc) then bt_mesh_settings_store_schedule nc BT_MESH_SETTINGS_HB_PUB_PENDING s else s) in
      case (case new_pub of None \<Rightarrow> None | Some p \<Rightarrow> if hp_dst p = BT_MESH_ADDR_UNASSIGNED then None else Some p) of
        None \<Rightarrow> (let s = pub_disable s in (STATUS_SUCCESS, if bm_valid (nd_mesh s) then store s else s))
      | Some p \<Rightarrow>
          if bt_mesh_subnet_get (hp_net_idx p) (nd_keys s) = None then (STATUS_INVALID_NETKEY, s)
          else
            (let s = s\<lparr>nd_pub := p\<lparr>hp_feat := hp_feat p AND BT_MESH_FEAT_SUPPORTED\<rparr>\<rparr>
             in (STATUS_SUCCESS, if \<not> bm_valid (nd_mesh s) then s else store (s\<lparr>nd_pub_timer := Some 0\<rparr>))))"

definition bt_mesh_hb_sub_set :: "u16 \<Rightarrow> u16 \<Rightarrow> u16 \<Rightarrow> u32 \<Rightarrow> node_state \<Rightarrow> mesh_status \<times> node_state" where
  "bt_mesh_hb_sub_set primary src dst period s =
     (if src \<noteq> BT_MESH_ADDR_UNASSIGNED \<and> \<not> BT_MESH_ADDR_IS_UNICAST src then (STATUS_INVALID_ADDRESS, s)
      else if BT_MESH_ADDR_IS_VIRTUAL dst \<or> BT_MESH_ADDR_IS_RFU dst \<or> BT_MESH_ADDR_IS_UNICAST dst \<and> dst \<noteq> primary then (STATUS_INVALID_ADDRESS, s)
      else if 0x10000 < period then (STATUS_CANNOT_SET, s)
      else
        (let sub = nd_sub s;
             sub = (if src = BT_MESH_ADDR_UNASSIGNED \<or> dst = BT_MESH_ADDR_UNASSIGNED
               then sub\<lparr>hb_src := BT_MESH_ADDR_UNASSIGNED, hb_dst := BT_MESH_ADDR_UNASSIGNED, hb_min_hops := 0, hb_max_hops := 0, hb_count := 0, hb_period := 0\<rparr>
               else if period \<noteq> 0
               then sub\<lparr>hb_src := src, hb_dst := dst, hb_min_hops := BT_MESH_TTL_MAX, hb_max_hops := 0, hb_count := 0, hb_period := period\<rparr>
               else sub\<lparr>hb_period := 0\<rparr>)
         in (STATUS_SUCCESS, s\<lparr>nd_sub := sub, nd_sub_timer := Some (unat (hb_period sub) * 1000)\<rparr>)))"

definition bt_mesh_hb_sub_reset_count :: "node_state \<Rightarrow> node_state" where
  "bt_mesh_hb_sub_reset_count s = s\<lparr>nd_sub := (nd_sub s)\<lparr>hb_count := 0\<rparr>\<rparr>"

definition bt_mesh_hb_sub_get :: "node_state \<Rightarrow> bt_mesh_hb_sub" where
  "bt_mesh_hb_sub_get s = (nd_sub s)\<lparr>hb_remaining := sub_remaining s\<rparr>"

definition bt_mesh_hb_feature_changed :: "node_cfg \<Rightarrow> trans_env \<Rightarrow> u16 \<Rightarrow> node_state \<Rightarrow> node_state option" where
  "bt_mesh_hb_feature_changed nc te features s =
     (if hp_dst (nd_pub s) = BT_MESH_ADDR_UNASSIGNED then Some s
      else if hp_feat (nd_pub s) AND features = 0 then Some s
      else map_option snd (heartbeat_send nc te None s))"

definition bt_mesh_hb_init :: "node_state \<Rightarrow> node_state" where
  "bt_mesh_hb_init s = s\<lparr>nd_pub := (nd_pub s)\<lparr>hp_net_idx := BT_MESH_KEY_UNUSED\<rparr>, nd_pub_timer := None, nd_sub_timer := None\<rparr>"

definition bt_mesh_hb_start :: "node_state \<Rightarrow> node_state" where
  "bt_mesh_hb_start s = (if hp_count (nd_pub s) \<noteq> 0 \<and> hp_period (nd_pub s) \<noteq> 0 then s\<lparr>nd_pub_timer := Some 0\<rparr> else s)"

definition bt_mesh_hb_suspend :: "node_state \<Rightarrow> node_state" where
  "bt_mesh_hb_suspend s = s\<lparr>nd_pub_timer := None\<rparr>"

definition bt_mesh_hb_resume :: "node_state \<Rightarrow> node_state" where
  "bt_mesh_hb_resume s = (if hp_period (nd_pub s) \<noteq> 0 \<and> hp_count (nd_pub s) \<noteq> 0 then s\<lparr>nd_pub_timer := Some 0\<rparr> else s)"

text \<open>Loading; the answer of the settings is an error or the value.\<close>

definition hb_pub_set :: "node_cfg \<Rightarrow> errno + hb_pub_val \<Rightarrow> node_state \<Rightarrow> errno option \<times> node_state" where
  "hb_pub_set nc answer s =
     (case answer of Inl e \<Rightarrow> (Some e, s)
      | Inr v \<Rightarrow>
         (let pub = \<lparr>hp_dst = hv_dst v, hp_count = (if hv_indefinite v then 0xffff else 0), hp_ttl = hv_ttl v, hp_feat = hv_feat v,
                hp_net_idx = hv_net_idx v, hp_period = ucast (bt_mesh_hb_pwr2 (hv_period v))\<rparr>
          in (None, snd (bt_mesh_hb_pub_set nc (Some pub) s))))"

text \<open>The bit field \<open>net_idx\<close> of what is stored has twelve bits.\<close>

definition bt_mesh_hb_pub_pending_store :: "node_state \<Rightarrow> node_state" where
  "bt_mesh_hb_pub_pending_store s =
     (let pub = nd_pub s in
      node_output
        (if hp_dst pub = BT_MESH_ADDR_UNASSIGNED then Node_delete ''bt/mesh/HBPub''
         else Save_hb_pub \<lparr>hv_dst = hp_dst pub, hv_period = bt_mesh_hb_log (hp_period pub), hv_ttl = hp_ttl pub, hv_feat = hp_feat pub,
                hv_net_idx = take_bit 12 (hp_net_idx pub), hv_indefinite = (hp_count pub = 0xffff)\<rparr>) s)"

section \<open>The configuration\<close>

definition cfg_store :: "node_cfg \<Rightarrow> node_state \<Rightarrow> node_state" where
  "cfg_store nc s =
     (if cfg_settings (nc_mesh nc) \<and> bm_valid (nd_mesh s) then bt_mesh_settings_store_schedule nc BT_MESH_SETTINGS_CFG_PENDING s else s)"

definition bt_mesh_beacon_set :: "node_cfg \<Rightarrow> bool \<Rightarrow> node_state \<Rightarrow> node_state" where
  "bt_mesh_beacon_set nc beacon s =
     (if nd_beacon s = beacon then s
      else
        (let s = s\<lparr>nd_beacon := beacon\<rparr>;
             s = set_node_bc (if beacon then bt_mesh_beacon_enable (node_bc s) else bt_mesh_beacon_disable (node_bc s)) s
         in cfg_store nc s))"

definition bt_mesh_gatt_proxy_set :: "node_cfg \<Rightarrow> trans_env \<Rightarrow> bt_mesh_feat_state \<Rightarrow> node_state \<Rightarrow> (errno option \<times> node_state) option" where
  "bt_mesh_gatt_proxy_set nc te gatt_proxy s =
     (if \<not> cfg_gatt_proxy (nc_mesh nc) then Some (Some ENOTSUP, s)
      else
        (let (err, flag) = feature_set (nd_gatt_proxy s) gatt_proxy in
         if err \<noteq> None then Some (err, s)
         else do {
           s \<leftarrow> bt_mesh_hb_feature_changed nc te BT_MESH_FEAT_PROXY (s\<lparr>nd_gatt_proxy := flag\<rparr>);
           Some (None, cfg_store nc s)
         }))"

definition bt_mesh_default_ttl_set :: "node_cfg \<Rightarrow> u8 \<Rightarrow> node_state \<Rightarrow> errno option \<times> node_state" where
  "bt_mesh_default_ttl_set nc default_ttl s =
     (if default_ttl = 1 \<or> BT_MESH_TTL_MAX < default_ttl then (Some EINVAL, s)
      else if default_ttl = nd_default_ttl s then (None, s)
      else (None, cfg_store nc (s\<lparr>nd_default_ttl := default_ttl\<rparr>)))"

definition bt_mesh_friend_set :: "node_cfg \<Rightarrow> trans_env \<Rightarrow> bt_mesh_feat_state \<Rightarrow> node_state \<Rightarrow> (errno option \<times> node_state) option" where
  "bt_mesh_friend_set nc te friendship s =
     (if \<not> cfg_friend (nc_mesh nc) then Some (Some ENOTSUP, s)
      else
        (let (err, flag) = feature_set (nd_friend s) friendship in
         if err \<noteq> None then Some (err, s)
         else do {
           s \<leftarrow> bt_mesh_hb_feature_changed nc te BT_MESH_FEAT_FRIEND (s\<lparr>nd_friend := flag\<rparr>);
           let s = cfg_store nc s;
           Some (None, if friendship = BT_MESH_FEATURE_DISABLED then node_output Friends_clear s else s)
         }))"

definition bt_mesh_net_transmit_set :: "node_cfg \<Rightarrow> u8 \<Rightarrow> node_state \<Rightarrow> node_state" where
  "bt_mesh_net_transmit_set nc xmit s = (if nd_net_xmit s = xmit then s else cfg_store nc (s\<lparr>nd_net_xmit := xmit\<rparr>))"

definition bt_mesh_relay_set :: "node_cfg \<Rightarrow> trans_env \<Rightarrow> bt_mesh_feat_state \<Rightarrow> u8 \<Rightarrow> node_state \<Rightarrow> (errno option \<times> node_state) option" where
  "bt_mesh_relay_set nc te relay xmit s =
     (if \<not> nc_relay nc then Some (Some ENOTSUP, s)
      else
        (let (err, flag) = feature_set (nd_relay s) relay; s = s\<lparr>nd_relay := flag\<rparr> in
         if err = Some EINVAL then Some (err, s)
         else if err = Some EALREADY \<and> nd_relay_xmit s = xmit then Some (Some EALREADY, s)
         else do {
           s \<leftarrow> bt_mesh_hb_feature_changed nc te BT_MESH_FEAT_RELAY (s\<lparr>nd_relay_xmit := xmit\<rparr>);
           Some (None, cfg_store nc s)
         }))"

definition bt_mesh_cfg_default_set :: "node_cfg \<Rightarrow> node_state \<Rightarrow> node_state" where
  "bt_mesh_cfg_default_set nc s =
     s\<lparr>nd_default_ttl := nc_default_ttl nc, nd_net_xmit := case_prod BT_MESH_TRANSMIT (nc_net_transmit nc),
       nd_relay_xmit := (if nc_relay nc then case_prod BT_MESH_TRANSMIT (nc_relay_retransmit nc) else nd_relay_xmit s),
       nd_relay := (nd_relay s \<or> nc_relay_enabled nc), nd_beacon := (nd_beacon s \<or> nc_beacon_enabled nc),
       nd_gatt_proxy := (nd_gatt_proxy s \<or> nc_gatt_proxy_enabled nc), nd_friend := (nd_friend s \<or> nc_friend_enabled nc)\<rparr>"

text \<open>The members of the enumeration and their numbers.\<close>

definition feat_num :: "bt_mesh_feat_state \<Rightarrow> u8" where
  "feat_num f = (case f of BT_MESH_FEATURE_DISABLED \<Rightarrow> 0 | BT_MESH_FEATURE_ENABLED \<Rightarrow> 1 | BT_MESH_FEATURE_NOT_SUPPORTED \<Rightarrow> 2)"

definition num_feat :: "u8 \<Rightarrow> bt_mesh_feat_state" where
  "num_feat n = (if n = 0 then BT_MESH_FEATURE_DISABLED else if n = 1 then BT_MESH_FEATURE_ENABLED else BT_MESH_FEATURE_NOT_SUPPORTED)"

definition cfg_set :: "node_cfg \<Rightarrow> trans_env \<Rightarrow> nat \<Rightarrow> errno + cfg_val \<Rightarrow> node_state \<Rightarrow> (errno option \<times> node_state) option" where
  "cfg_set nc te len_rd answer s =
     (if len_rd = 0 then Some (None, s)
      else case answer of Inl e \<Rightarrow> Some (Some e, s)
        | Inr v \<Rightarrow>
            do {
              let s = bt_mesh_net_transmit_set nc (cv_net_transmit v) s;
              (_, s) \<leftarrow> bt_mesh_relay_set nc te (num_feat (cv_relay v)) (cv_relay_retransmit v) s;
              let s = bt_mesh_beacon_set nc (cv_beacon v \<noteq> 0) s;
              (_, s) \<leftarrow> bt_mesh_gatt_proxy_set nc te (num_feat (cv_gatt_proxy v)) s;
              (_, s) \<leftarrow> bt_mesh_friend_set nc te (num_feat (cv_frnd v)) s;
              Some (None, snd (bt_mesh_default_ttl_set nc (cv_default_ttl v) s))
            })"

definition cfg_stored :: "node_cfg \<Rightarrow> node_state \<Rightarrow> cfg_val" where
  "cfg_stored nc s =
     \<lparr>cv_net_transmit = nd_net_xmit s, cv_relay = feat_num (bt_mesh_relay_get s), cv_relay_retransmit = bt_mesh_relay_retransmit_get nc s,
      cv_beacon = (if nd_beacon s then 1 else 0), cv_gatt_proxy = feat_num (bt_mesh_gatt_proxy_get nc s),
      cv_frnd = feat_num (bt_mesh_friend_get nc s), cv_default_ttl = nd_default_ttl s\<rparr>"

definition bt_mesh_cfg_pending_store :: "node_cfg \<Rightarrow> node_state \<Rightarrow> node_state" where
  "bt_mesh_cfg_pending_store nc s =
     node_output (if bm_valid (nd_mesh s) then Save_cfg (cfg_stored nc s) else Node_delete ''bt/mesh/Cfg'') s"

section \<open>Storing and the commit\<close>

text \<open>The stores of the other components are calls, each of which is an entry of its own in the log.\<close>

definition store_one :: "node_cfg \<Rightarrow> bt_mesh_settings_flag \<Rightarrow> node_state \<Rightarrow> node_state" where
  "store_one nc flag s =
     (case flag of
        BT_MESH_SETTINGS_RPL_PENDING \<Rightarrow> node_output (Rpl_pending_store BT_MESH_ADDR_ALL_NODES) s
      | BT_MESH_SETTINGS_NET_KEYS_PENDING \<Rightarrow> node_output Subnet_pending_store s
      | BT_MESH_SETTINGS_APP_KEYS_PENDING \<Rightarrow> node_output App_key_pending_store s
      | BT_MESH_SETTINGS_NET_PENDING \<Rightarrow> node_output Net_pending_net_store s
      | BT_MESH_SETTINGS_IV_PENDING \<Rightarrow> node_output Net_pending_iv_store s
      | BT_MESH_SETTINGS_SEQ_PENDING \<Rightarrow> node_output Net_pending_seq_store s
      | BT_MESH_SETTINGS_HB_PUB_PENDING \<Rightarrow> bt_mesh_hb_pub_pending_store s
      | BT_MESH_SETTINGS_CFG_PENDING \<Rightarrow> bt_mesh_cfg_pending_store nc s
      | BT_MESH_SETTINGS_MOD_PENDING \<Rightarrow> node_output Model_pending_store s
      | BT_MESH_SETTINGS_VA_PENDING \<Rightarrow> node_output Va_pending_store s
      | BT_MESH_SETTINGS_CDB_PENDING \<Rightarrow> node_output Cdb_pending_store s)"

definition store_pending :: "node_cfg \<Rightarrow> node_state \<Rightarrow> node_state" where
  "store_pending nc s =
     fold (\<lambda>flag s. if flag \<in> nd_pending s then store_one nc flag (s\<lparr>nd_pending := nd_pending s - {flag}\<rparr>) else s)
       (store_order nc) (s\<lparr>nd_store_timer := None\<rparr>)"

definition mesh_commit :: "node_cfg \<Rightarrow> node_state \<Rightarrow> node_state" where
  "mesh_commit nc s =
     (if bt_mesh_subnet_next None (nd_keys s) = None then s
      else
        (let s = (if nc_pb_gatt nc then node_output Prov_disable s else s);
             st = bt_mesh_net_settings_commit (nd_mesh s);
             t = (nd_trans s)\<lparr>ts_layer := (ts_layer (nd_trans s))\<lparr>nl_net := st\<lparr>bm_valid := True\<rparr>\<rparr>\<rparr>
         in node_output Mesh_start (node_output Model_settings_commit (s\<lparr>nd_trans := t\<rparr>))))"

end
