(* ===== verification/Mesh_Cfg_Store.thy ===== *)
theory Mesh_Cfg_Store
  imports Mesh_Cfg Mesh_Seg_Inv
begin

text \<open>
  The configuration state in storage (\<open>core/src/mesh/cfg.c\<close>, \<open>heartbeat.c\<close> and \<open>settings.c\<close>): it comes
  back after a restart, what is scheduled is stored in time, and the count of a heartbeat
  publication that wraps around.
\<close>

section \<open>Configuration values\<close>

text \<open>A node that is not provisioned yet and has no heartbeat publication: nothing is stored and nothing is sent.\<close>

definition loading :: "node_state \<Rightarrow> bool" where
  "loading s \<longleftrightarrow> \<not> bm_valid (nd_mesh s) \<and> hp_dst (nd_pub s) = BT_MESH_ADDR_UNASSIGNED"

lemma loading_quiet: "loading s \<Longrightarrow> cfg_store nc s = s" "loading s \<Longrightarrow> bt_mesh_hb_feature_changed nc te f s = Some s"
  by (simp_all add: loading_def cfg_store_def bt_mesh_hb_feature_changed_def)

lemma num_feat_num: "num_feat (feat_num f) = f"
  by (cases f) (simp_all add: num_feat_def feat_num_def)

lemma feature_set_get: "feature_set g (feature_get f) = (if g = f then Some EALREADY else None, f)"
  by (simp add: feature_set_def feature_get_def)

lemma loading_update [simp]:
  "loading (s\<lparr>nd_relay := a\<rparr>) = loading s" "loading (s\<lparr>nd_relay_xmit := b\<rparr>) = loading s" "loading (s\<lparr>nd_gatt_proxy := a\<rparr>) = loading s"
  "loading (s\<lparr>nd_friend := a\<rparr>) = loading s" "loading (s\<lparr>nd_net_xmit := b\<rparr>) = loading s" "loading (s\<lparr>nd_default_ttl := b\<rparr>) = loading s"
  "loading (s\<lparr>nd_beacon := a\<rparr>) = loading s" "loading (s\<lparr>nd_beacon_timer := t\<rparr>) = loading s" "loading (node_output x s) = loading s"
  by (simp_all add: loading_def node_output_def)

lemma node_same:
  "nd_net_xmit s = x \<Longrightarrow> s\<lparr>nd_net_xmit := x\<rparr> = s" "nd_default_ttl s = x \<Longrightarrow> s\<lparr>nd_default_ttl := x\<rparr> = s"
  by (cases s; simp)+

lemma net_transmit_loaded: "loading s \<Longrightarrow> bt_mesh_net_transmit_set nc x s = s\<lparr>nd_net_xmit := x\<rparr>"
  by (simp add: bt_mesh_net_transmit_set_def loading_quiet node_same)

lemma default_ttl_loaded:
  "loading s \<Longrightarrow> x \<noteq> 1 \<Longrightarrow> x \<le> BT_MESH_TTL_MAX \<Longrightarrow> bt_mesh_default_ttl_set nc x s = (None, s\<lparr>nd_default_ttl := x\<rparr>)"
  by (auto simp: bt_mesh_default_ttl_set_def loading_quiet node_same)

lemma relay_loaded:
  assumes "loading s"
  shows "\<exists>err. bt_mesh_relay_set nc te (feature_get f) x s =
    Some (err, s\<lparr>nd_relay := (if nc_relay nc then f else nd_relay s), nd_relay_xmit := (if nc_relay nc then x else nd_relay_xmit s)\<rparr>)"
proof -
  have "s = s\<lparr>nd_relay := f, nd_relay_xmit := x\<rparr>" if "nd_relay s = f" "nd_relay_xmit s = x" using that by (cases s) simp
  moreover have "s\<lparr>nd_relay := f\<rparr> = s" if "nd_relay s = f" using that by (cases s) simp
  ultimately show ?thesis using assms by (cases "nc_relay nc") (auto simp: bt_mesh_relay_set_def feature_set_get loading_quiet Let_def)
qed

lemma gatt_proxy_loaded:
  assumes "loading s"
  shows "\<exists>err. bt_mesh_gatt_proxy_set nc te (if cfg_gatt_proxy (nc_mesh nc) then feature_get f else g) s =
    Some (err, s\<lparr>nd_gatt_proxy := (if cfg_gatt_proxy (nc_mesh nc) then f else nd_gatt_proxy s)\<rparr>)"
proof -
  have "s\<lparr>nd_gatt_proxy := f\<rparr> = s" if "nd_gatt_proxy s = f" for f using that by (cases s) simp
  then show ?thesis using assms by (auto simp: bt_mesh_gatt_proxy_set_def feature_set_get loading_quiet Let_def)
qed

lemma friend_loaded:
  assumes "loading s"
  shows "\<exists>err. bt_mesh_friend_set nc te (if cfg_friend (nc_mesh nc) then feature_get f else g) s =
    Some (err, s\<lparr>nd_friend := (if cfg_friend (nc_mesh nc) then f else nd_friend s),
      nd_out := nd_out s @ (if cfg_friend (nc_mesh nc) \<and> nd_friend s \<and> \<not> f then [Friends_clear] else [])\<rparr>)"
proof -
  have same: "s\<lparr>nd_friend := f, nd_out := nd_out s\<rparr> = s\<lparr>nd_friend := f\<rparr>" "nd_friend s = f \<Longrightarrow> s\<lparr>nd_friend := f\<rparr> = s" for f by (cases s, simp)+
  show ?thesis
  proof (cases "cfg_friend (nc_mesh nc) \<and> nd_friend s \<noteq> f")
    case True
    then show ?thesis using assms same
      by (cases f) (simp_all add: bt_mesh_friend_set_def feature_set_def feature_get_def loading_quiet Let_def node_output_def)
  next
    case False
    then show ?thesis using same by (auto simp: bt_mesh_friend_set_def feature_set_get)
  qed
qed

text \<open>The timer of the beacons: it starts when they are enabled and stops when they are disabled, except for a node that initiated an IV update.\<close>

definition beacon_timer_loaded :: "bool \<Rightarrow> node_state \<Rightarrow> nat option" where
  "beacon_timer_loaded f s =
     (if f = nd_beacon s \<or> \<not> f \<and> bm_ivu_initiator (nd_mesh s) then nd_beacon_timer s else if f then Some 0 else None)"

lemma beacon_loaded:
  assumes "loading s"
  shows "bt_mesh_beacon_set nc f s = s\<lparr>nd_beacon := f, nd_beacon_timer := beacon_timer_loaded f s\<rparr>"
proof (cases "nd_beacon s = f")
  case True
  then show ?thesis by (cases s) (simp add: bt_mesh_beacon_set_def beacon_timer_loaded_def)
next
  case False
  let ?s = "s\<lparr>nd_beacon := f\<rparr>"
  have same: "set_node_bc ((node_bc ?s)\<lparr>bc_timer := t\<rparr>) ?s = ?s\<lparr>nd_beacon_timer := t\<rparr>" for t
    by (cases s) (simp add: set_node_bc_def node_bc_def)
  have bc: "(node_bc ?s)\<lparr>bc_timer := nd_beacon_timer s\<rparr> = node_bc ?s" by (simp add: node_bc_def)
  have mesh: "bc_mesh (node_bc ?s) = nd_mesh s" by (simp add: node_bc_def)
  have "(if f then bt_mesh_beacon_enable (node_bc ?s) else bt_mesh_beacon_disable (node_bc ?s)) = (node_bc ?s)\<lparr>bc_timer := beacon_timer_loaded f s\<rparr>"
    using assms False bc mesh by (auto simp: bt_mesh_beacon_enable_def bt_mesh_beacon_disable_def loading_def beacon_timer_loaded_def Let_def)
  then show ?thesis using False same loading_quiet(1) assms by (simp add: bt_mesh_beacon_set_def Let_def)
qed

text \<open>
  C39: the configuration of a node comes back after a restart.  What the pending store writes for a
  provisioned node in state \<open>s\<close> with a valid default time to live, loaded into a node that is not
  provisioned yet and has no heartbeat publication loaded, with any defaults, sets the network
  transmit state, the beacon state and the default time to live to those of \<open>s\<close>, and the relay,
  proxy and friend states if the features are supported.  Nothing else changes but the timer of
  the beacons, which starts or stops with them, and that friendships are cleared if the friend
  feature gets disabled.
\<close>

theorem cfg_restored:
  assumes "bm_valid (nd_mesh s)" "nd_default_ttl s \<noteq> 1" "nd_default_ttl s \<le> BT_MESH_TTL_MAX" "loading s0"
  shows "\<exists>v. nd_out (bt_mesh_cfg_pending_store nc s) = nd_out s @ [Save_cfg v] \<and>
    cfg_set nc te 7 (Inr v) s0 = Some (None, s0\<lparr>nd_net_xmit := nd_net_xmit s,
      nd_relay := (if nc_relay nc then nd_relay s else nd_relay s0), nd_relay_xmit := (if nc_relay nc then nd_relay_xmit s else nd_relay_xmit s0),
      nd_beacon := nd_beacon s, nd_beacon_timer := beacon_timer_loaded (nd_beacon s) s0,
      nd_gatt_proxy := (if cfg_gatt_proxy (nc_mesh nc) then nd_gatt_proxy s else nd_gatt_proxy s0),
      nd_friend := (if cfg_friend (nc_mesh nc) then nd_friend s else nd_friend s0),
      nd_out := nd_out s0 @ (if cfg_friend (nc_mesh nc) \<and> nd_friend s0 \<and> \<not> nd_friend s then [Friends_clear] else []),
      nd_default_ttl := nd_default_ttl s\<rparr>)"
proof -
  let ?v = "cfg_stored nc s"
  have out: "nd_out (bt_mesh_cfg_pending_store nc s) = nd_out s @ [Save_cfg ?v]"
    using assms(1) by (simp add: bt_mesh_cfg_pending_store_def node_output_def)
  define a where "a = s0\<lparr>nd_net_xmit := nd_net_xmit s\<rparr>"
  define b where "b = a\<lparr>nd_relay := (if nc_relay nc then nd_relay s else nd_relay a), nd_relay_xmit := (if nc_relay nc then nd_relay_xmit s else nd_relay_xmit a)\<rparr>"
  define c where "c = b\<lparr>nd_beacon := nd_beacon s, nd_beacon_timer := beacon_timer_loaded (nd_beacon s) b\<rparr>"
  define d where "d = c\<lparr>nd_gatt_proxy := (if cfg_gatt_proxy (nc_mesh nc) then nd_gatt_proxy s else nd_gatt_proxy c)\<rparr>"
  define e where "e = d\<lparr>nd_friend := (if cfg_friend (nc_mesh nc) then nd_friend s else nd_friend d),
    nd_out := nd_out d @ (if cfg_friend (nc_mesh nc) \<and> nd_friend d \<and> \<not> nd_friend s then [Friends_clear] else [])\<rparr>"
  note defs = e_def d_def c_def b_def a_def
  have l: "loading a" "loading b" "loading c" "loading d" "loading e" using assms(4) by (simp_all add: loading_def defs)
  have 1: "bt_mesh_net_transmit_set nc (nd_net_xmit s) s0 = a" using net_transmit_loaded [OF assms(4)] by (simp add: a_def)
  obtain e1 where 2: "bt_mesh_relay_set nc te (bt_mesh_relay_get s) (bt_mesh_relay_retransmit_get nc s) a = Some (e1, b)"
    using relay_loaded [OF l(1), of nc te "nd_relay s" "bt_mesh_relay_retransmit_get nc s"]
    by (auto simp: bt_mesh_relay_get_def bt_mesh_relay_retransmit_get_def b_def split: if_splits)
  have 3: "bt_mesh_beacon_set nc (nd_beacon s) b = c" using beacon_loaded [OF l(2)] by (simp add: c_def)
  obtain e2 where 4: "bt_mesh_gatt_proxy_set nc te (bt_mesh_gatt_proxy_get nc s) c = Some (e2, d)"
    using gatt_proxy_loaded [OF l(3), of nc te "nd_gatt_proxy s" BT_MESH_FEATURE_NOT_SUPPORTED] by (auto simp: bt_mesh_gatt_proxy_get_def d_def split: if_splits)
  obtain e3 where 5: "bt_mesh_friend_set nc te (bt_mesh_friend_get nc s) d = Some (e3, e)"
    using friend_loaded [OF l(4), of nc te "nd_friend s" BT_MESH_FEATURE_NOT_SUPPORTED] by (auto simp: bt_mesh_friend_get_def e_def split: if_splits)
  have "cfg_set nc te 7 (Inr ?v) s0 = Some (None, e\<lparr>nd_default_ttl := nd_default_ttl s\<rparr>)"
    using 2 3 4 5 default_ttl_loaded [OF l(5) assms(2,3)]
    by (cases "nd_beacon s") (simp_all add: cfg_set_def cfg_stored_def num_feat_num 1)
  moreover have "beacon_timer_loaded (nd_beacon s) b = beacon_timer_loaded (nd_beacon s) s0" by (simp add: beacon_timer_loaded_def defs)
  ultimately show ?thesis using out by (simp add: defs)
qed

section \<open>Heartbeat publication\<close>

lemma hb_periods:
  assumes "unat v \<le> 16"
  shows "ucast (bt_mesh_hb_pwr2 (bt_mesh_hb_log (ucast (bt_mesh_hb_pwr2 v)))) = (ucast (bt_mesh_hb_pwr2 v) :: u32)"
proof -
  have "\<forall>n \<in> set [0..<17]. ucast (bt_mesh_hb_pwr2 (bt_mesh_hb_log (ucast (bt_mesh_hb_pwr2 (word_of_nat n))))) = (ucast (bt_mesh_hb_pwr2 (word_of_nat n)) :: u32)"
    by code_simp
  moreover have "v = word_of_nat (unat v)" by simp
  ultimately show ?thesis using assms by (metis atLeastLessThan_iff le0 less_Suc_eq_le eval_nat_numeral(3) set_upt semiring_norm(26))
qed

lemma hb_period_restored:
  assumes "period = ucast (bt_mesh_hb_pwr2 v)" "unat v \<le> 16 \<or> v = 0x11 \<or> v = 0xff"
  shows "ucast (bt_mesh_hb_pwr2 (bt_mesh_hb_log period)) = (period :: u32)"
proof (cases "v = 0x11 \<or> v = 0xff")
  case True
  then have p: "period = 0xffff" using assms(1) by (auto simp: bt_mesh_hb_pwr2_def)
  show ?thesis unfolding p by code_simp
next
  case False
  then show ?thesis using assms hb_periods by auto
qed

text \<open>
  The heartbeat publication comes back after a restart.  A publication with a period of the
  profile is restored from storage with all its parameters, if the keys were loaded before it,
  and is not restored otherwise; an indefinite one goes on when the node starts and a finite one does not.
\<close>

theorem hb_publication_restored:
  assumes "hp_dst (nd_pub s) \<noteq> BT_MESH_ADDR_UNASSIGNED" "hp_period (nd_pub s) = ucast (bt_mesh_hb_pwr2 v)" "unat v \<le> 16 \<or> v = 0x11 \<or> v = 0xff"
    and "hp_net_idx (nd_pub s) < 0x1000" "hp_feat (nd_pub s) AND BT_MESH_FEAT_SUPPORTED = hp_feat (nd_pub s)" "\<not> bm_valid (nd_mesh s0)" "nd_pub_timer s0 = None"
  shows "\<exists>val s1. nd_out (bt_mesh_hb_pub_pending_store s) = nd_out s @ [Save_hb_pub val] \<and> hb_pub_set nc (Inr val) s0 = (None, s1) \<and>
    nd_pub s1 = (if bt_mesh_subnet_get (hp_net_idx (nd_pub s)) (nd_keys s0) = None then nd_pub s0
                 else (nd_pub s)\<lparr>hp_count := (if hp_count (nd_pub s) = 0xffff then 0xffff else 0)\<rparr>) \<and>
    (bt_mesh_subnet_get (hp_net_idx (nd_pub s)) (nd_keys s0) \<noteq> None \<longrightarrow>
      (nd_pub_timer (bt_mesh_hb_start s1) \<noteq> None \<longleftrightarrow> hp_count (nd_pub s) = 0xffff \<and> hp_period (nd_pub s) \<noteq> 0))"
proof -
  let ?p = "nd_pub s"
  let ?val = "\<lparr>hv_dst = hp_dst ?p, hv_period = bt_mesh_hb_log (hp_period ?p), hv_ttl = hp_ttl ?p, hv_feat = hp_feat ?p,
      hv_net_idx = take_bit 12 (hp_net_idx ?p), hv_indefinite = (hp_count ?p = 0xffff)\<rparr>"
  have out: "nd_out (bt_mesh_hb_pub_pending_store s) = nd_out s @ [Save_hb_pub ?val]"
    using assms(1) by (simp add: bt_mesh_hb_pub_pending_store_def node_output_def Let_def)
  have net: "take_bit 12 (hp_net_idx ?p) = hp_net_idx ?p"
    using assms(4) by (simp add: take_bit_eq_mod word_unat_eq_iff unat_mod word_less_nat_alt)
  let ?q = "?p\<lparr>hp_count := (if hp_count ?p = 0xffff then 0xffff else 0)\<rparr>"
  have per: "ucast (bt_mesh_hb_pwr2 (bt_mesh_hb_log (hp_period ?p))) = hp_period ?p" by (rule hb_period_restored [OF assms(2,3)])
  have q: "\<lparr>hp_dst = hp_dst ?p, hp_count = c, hp_ttl = hp_ttl ?p, hp_feat = hp_feat ?p, hp_net_idx = hp_net_idx ?p, hp_period = hp_period ?p\<rparr> =
      ?p\<lparr>hp_count := c\<rparr>" for c by simp
  have load: "hb_pub_set nc (Inr ?val) s0 = (None, snd (bt_mesh_hb_pub_set nc (Some ?q) s0))"
    by (simp add: hb_pub_set_def Let_def net per q)
  have feat: "?q\<lparr>hp_feat := hp_feat ?q AND BT_MESH_FEAT_SUPPORTED\<rparr> = ?q" using assms(5) by simp
  have set: "bt_mesh_hb_pub_set nc (Some ?q) s0 =
      (if bt_mesh_subnet_get (hp_net_idx ?p) (nd_keys s0) = None then (STATUS_INVALID_NETKEY, s0) else (STATUS_SUCCESS, s0\<lparr>nd_pub := ?q\<rparr>))"
    using assms(1,6) feat by (simp add: bt_mesh_hb_pub_set_def Let_def)
  define s1 where "s1 = snd (bt_mesh_hb_pub_set nc (Some ?q) s0)"
  have pub: "nd_pub s1 = (if bt_mesh_subnet_get (hp_net_idx ?p) (nd_keys s0) = None then nd_pub s0 else ?q)" "nd_pub_timer s1 = None"
    using set assms(7) by (simp_all add: s1_def)
  have "nd_pub_timer (bt_mesh_hb_start s1) \<noteq> None \<longleftrightarrow> hp_count ?p = 0xffff \<and> hp_period ?p \<noteq> 0"
    if "bt_mesh_subnet_get (hp_net_idx ?p) (nd_keys s0) \<noteq> None" using pub that by (simp add: bt_mesh_hb_start_def)
  then show ?thesis using out load pub(1) unfolding s1_def by blast
qed

text \<open>
  The publication count wraps around.  If the publication is disabled while a heartbeat is
  being sent, the callback at the end of the transmission decrements the count that was set
  to zero: the node then reports a disabled publication with the count that means forever.
\<close>

theorem hb_count_wraps:
  "nd_pub (hb_publish_end_cb (snd (bt_mesh_hb_pub_set nc None s))) =
    (nd_pub s)\<lparr>hp_dst := BT_MESH_ADDR_UNASSIGNED, hp_count := 0xffff, hp_ttl := 0, hp_period := 0\<rparr>"
proof -
  have "nd_pub (bt_mesh_settings_store_schedule nc f t) = nd_pub t" for f t by (simp add: bt_mesh_settings_store_schedule_def Let_def)
  then have "nd_pub (snd (bt_mesh_hb_pub_set nc None s)) = (nd_pub s)\<lparr>hp_dst := BT_MESH_ADDR_UNASSIGNED, hp_count := 0, hp_ttl := 0, hp_period := 0\<rparr>"
    by (simp add: bt_mesh_hb_pub_set_def Let_def pub_disable_def)
  then show ?thesis by (simp add: hb_publish_end_cb_def Let_def)
qed

section \<open>Pending stores\<close>

inductive settings_step :: "node_cfg \<Rightarrow> node_state \<Rightarrow> node_state \<Rightarrow> bool" for nc where
  Schedule: "flag \<in> set (store_order nc) \<Longrightarrow> settings_step nc s (bt_mesh_settings_store_schedule nc flag s)"
| Cancel: "settings_step nc s (bt_mesh_settings_store_cancel flag s)"
| Tick: "nd_store_timer s = Some t \<Longrightarrow> ms \<le> t \<Longrightarrow> settings_step nc s (s\<lparr>nd_store_timer := Some (t - ms)\<rparr>)"
| Fire: "nd_store_timer s = Some 0 \<Longrightarrow> settings_step nc s (store_pending nc s)"

text \<open>
  How long a store may wait.  One of the replay list has a delay of its own, which counts only
  while no store of the generic kind is pending.
\<close>

definition store_delay :: "node_cfg \<Rightarrow> bt_mesh_settings_flag \<Rightarrow> nat" where
  "store_delay nc flag =
     (if flag \<in> NO_WAIT_PENDING_BITS then 0
      else if flag = BT_MESH_SETTINGS_RPL_PENDING then max (nat (nc_rpl_store_timeout nc)) (nc_store_timeout nc) * 1000
      else nc_store_timeout nc * 1000)"

definition stores_due :: "node_cfg \<Rightarrow> node_state \<Rightarrow> bool" where
  "stores_due nc s \<longleftrightarrow> nd_pending s \<subseteq> set (store_order nc) \<and>
     (\<forall>flag \<in> nd_pending s. \<exists>t. nd_store_timer s = Some t \<and> t \<le> store_delay nc flag)"

lemma store_timeout_delay: "flag \<in> flags \<Longrightarrow> store_timeout nc flags \<le> store_delay nc flag"
  by (cases flag) (auto simp: store_timeout_def store_delay_def NO_WAIT_PENDING_BITS_def GENERIC_PENDING_BITS_def)

text \<open>What runs for each flag: the store of that component, and nothing else.\<close>

fun store_entry :: "node_cfg \<Rightarrow> node_state \<Rightarrow> bt_mesh_settings_flag \<Rightarrow> node_out" where
  "store_entry nc s BT_MESH_SETTINGS_RPL_PENDING = Rpl_pending_store 0xffff"
| "store_entry nc s BT_MESH_SETTINGS_NET_KEYS_PENDING = Subnet_pending_store"
| "store_entry nc s BT_MESH_SETTINGS_APP_KEYS_PENDING = App_key_pending_store"
| "store_entry nc s BT_MESH_SETTINGS_NET_PENDING = Net_pending_net_store"
| "store_entry nc s BT_MESH_SETTINGS_IV_PENDING = Net_pending_iv_store"
| "store_entry nc s BT_MESH_SETTINGS_SEQ_PENDING = Net_pending_seq_store"
| "store_entry nc s BT_MESH_SETTINGS_HB_PUB_PENDING =
     (if hp_dst (nd_pub s) = 0 then Node_delete ''bt/mesh/HBPub''
      else Save_hb_pub \<lparr>hv_dst = hp_dst (nd_pub s), hv_period = bt_mesh_hb_log (hp_period (nd_pub s)), hv_ttl = hp_ttl (nd_pub s), hv_feat = hp_feat (nd_pub s),
             hv_net_idx = take_bit 12 (hp_net_idx (nd_pub s)), hv_indefinite = (hp_count (nd_pub s) = 0xffff)\<rparr>)"
| "store_entry nc s BT_MESH_SETTINGS_CFG_PENDING =
     (if bm_valid (nd_mesh s)
      then Save_cfg \<lparr>cv_net_transmit = nd_net_xmit s, cv_relay = of_bool (nd_relay s), cv_relay_retransmit = (if nc_relay nc then nd_relay_xmit s else 0),
             cv_beacon = of_bool (nd_beacon s), cv_gatt_proxy = (if cfg_gatt_proxy (nc_mesh nc) then of_bool (nd_gatt_proxy s) else 2),
             cv_frnd = (if cfg_friend (nc_mesh nc) then of_bool (nd_friend s) else 2), cv_default_ttl = nd_default_ttl s\<rparr>
      else Node_delete ''bt/mesh/Cfg'')"
| "store_entry nc s BT_MESH_SETTINGS_MOD_PENDING = Model_pending_store"
| "store_entry nc s BT_MESH_SETTINGS_VA_PENDING = Va_pending_store"
| "store_entry nc s BT_MESH_SETTINGS_CDB_PENDING = Cdb_pending_store"

lemma store_one_simps:
  "store_one nc flag s = s\<lparr>nd_out := nd_out s @ [store_entry nc s flag]\<rparr>"
  "store_entry nc (s\<lparr>nd_pending := fs, nd_store_timer := t, nd_out := xs\<rparr>) flag = store_entry nc s flag"
  by (cases flag; simp add: store_one_def bt_mesh_hb_pub_pending_store_def bt_mesh_cfg_pending_store_def node_output_def Let_def cfg_stored_def
      bt_mesh_relay_get_def bt_mesh_relay_retransmit_get_def bt_mesh_gatt_proxy_get_def bt_mesh_friend_get_def feature_get_def feat_num_def)+

lemma store_fold:
  "distinct flags \<Longrightarrow>
   fold (\<lambda>flag s. if flag \<in> nd_pending s then store_one nc flag (s\<lparr>nd_pending := nd_pending s - {flag}\<rparr>) else s) flags s =
   s\<lparr>nd_pending := nd_pending s - set flags, nd_out := nd_out s @ map (store_entry nc s) (filter (\<lambda>flag. flag \<in> nd_pending s) flags)\<rparr>"
proof (induction flags arbitrary: s)
  case (Cons flag flags)
  let ?s = "s\<lparr>nd_pending := nd_pending s - {flag}, nd_out := nd_out s @ [store_entry nc s flag]\<rparr>"
  have e: "store_entry nc (s\<lparr>nd_pending := p, nd_out := xs\<rparr>) f = store_entry nc s f" for p xs f
    using store_one_simps(2) [where s = s and fs = p and t = "nd_store_timer s" and xs = xs] by (cases s) simp
  have one: "store_one nc flag (s\<lparr>nd_pending := nd_pending s - {flag}\<rparr>) = ?s"
    using e [of "nd_out s" "nd_pending s - {flag}" flag] unfolding store_one_simps(1) [of nc flag "s\<lparr>nd_pending := nd_pending s - {flag}\<rparr>"] by (cases s) simp
  have f: "filter (\<lambda>f. f \<in> nd_pending s - {flag}) flags = filter (\<lambda>f. f \<in> nd_pending s) flags" using Cons.prems by (auto intro: filter_cong)
  have d: "nd_pending s - {flag} - set flags = nd_pending s - set (flag # flags)" by auto
  show ?case
  proof (cases "flag \<in> nd_pending s")
    case True
    then show ?thesis using Cons.IH [of ?s] Cons.prems one f d by (simp add: e)
  next
    case False
    then have "nd_pending s - set flags = nd_pending s - set (flag # flags)" by auto
    then show ?thesis using Cons.IH [of s] Cons.prems False by simp
  qed
qed simp

lemma store_order_distinct: "distinct (store_order nc)"
  by (simp add: store_order_def)

lemma store_pending_result:
  "store_pending nc s = s\<lparr>nd_store_timer := None, nd_pending := nd_pending s - set (store_order nc),
     nd_out := nd_out s @ map (store_entry nc s) (filter (\<lambda>flag. flag \<in> nd_pending s) (store_order nc))\<rparr>"
proof -
  have "store_entry nc (s\<lparr>nd_store_timer := None\<rparr>) f = store_entry nc s f" for f
    using store_one_simps(2) [where s = s and fs = "nd_pending s" and t = None and xs = "nd_out s"] by (cases s) simp
  then show ?thesis unfolding store_pending_def store_fold [OF store_order_distinct] by simp
qed

lemma stores_due_step: "settings_step nc s s' \<Longrightarrow> stores_due nc s \<Longrightarrow> stores_due nc s'"
proof (induction rule: settings_step.induct)
  case (Schedule flag s)
  let ?fs = "insert flag (nd_pending s)"
  have "\<exists>t. nd_store_timer (bt_mesh_settings_store_schedule nc flag s) = Some t \<and> t \<le> store_timeout nc ?fs \<and> (\<forall>u. nd_store_timer s = Some u \<longrightarrow> t \<le> u)"
    by (auto simp: bt_mesh_settings_store_schedule_def Let_def split: option.split)
  moreover have "nd_pending (bt_mesh_settings_store_schedule nc flag s) = ?fs" by (simp add: bt_mesh_settings_store_schedule_def Let_def)
  ultimately show ?case using Schedule store_timeout_delay [of _ ?fs nc] le_trans unfolding stores_due_def by (metis insert_subset)
next
  case (Cancel s flag)
  then show ?case by (auto simp: stores_due_def bt_mesh_settings_store_cancel_def)
next
  case (Tick s t ms)
  then show ?case by (fastforce simp: stores_due_def)
next
  case (Fire s)
  then show ?case by (auto simp: stores_due_def store_pending_result)
qed

lemma schedule_rpl_due:
  assumes "0 \<le> nc_rpl_store_timeout nc" "nd_pending s \<inter> GENERIC_PENDING_BITS = {}"
  shows "\<exists>t. nd_store_timer (bt_mesh_settings_store_schedule nc BT_MESH_SETTINGS_RPL_PENDING s) = Some t \<and> t \<le> nat (nc_rpl_store_timeout nc) * 1000"
proof -
  have "BT_MESH_SETTINGS_RPL_PENDING \<notin> GENERIC_PENDING_BITS" by (simp add: GENERIC_PENDING_BITS_def)
  then have "store_timeout nc (insert BT_MESH_SETTINGS_RPL_PENDING (nd_pending s)) \<le> nat (nc_rpl_store_timeout nc) * 1000"
    using assms by (simp add: store_timeout_def)
  then show ?thesis by (auto simp: bt_mesh_settings_store_schedule_def Let_def split: option.split)
qed

text \<open>
  C38: what is scheduled is stored in time.  Along every sequence of scheduling, cancelling and
  passing of time each pending store is due within the delay of its kind: at once for the network,
  IV index, sequence number and configuration database stores, within the store timeout for the
  generic ones, and within the longer of its own and the store timeout for the replay list; that
  one is due within its own timeout if no generic store is pending when it is scheduled.  When the
  timer fires, for every pending flag exactly once the store of that component runs, with the
  heartbeat publication and the configuration as they are then, and nothing is left pending.
\<close>

theorem pending_stores_run:
  assumes "(settings_step nc)\<^sup>*\<^sup>* s0 s" "nd_pending s0 = {}"
  shows "(\<forall>flag. flag \<in> nd_pending s \<longrightarrow> (\<exists>t. nd_store_timer s = Some t \<and> t \<le> store_delay nc flag)) \<and>
    (0 \<le> nc_rpl_store_timeout nc \<and> nd_pending s \<inter> GENERIC_PENDING_BITS = {} \<longrightarrow>
      (\<exists>t. nd_store_timer (bt_mesh_settings_store_schedule nc BT_MESH_SETTINGS_RPL_PENDING s) = Some t \<and> t \<le> nat (nc_rpl_store_timeout nc) * 1000)) \<and>
    nd_pending (store_pending nc s) = {} \<and>
    (\<exists>flags. nd_out (store_pending nc s) = nd_out s @ map (store_entry nc s) flags \<and> distinct flags \<and> set flags = nd_pending s)"
proof -
  have "stores_due nc s" using assms(1)
  proof (induction rule: rtranclp_induct)
    case base
    then show ?case using assms(2) by (simp add: stores_due_def)
  qed (rule stores_due_step)
  then have due: "nd_pending s \<subseteq> set (store_order nc)" "\<forall>flag \<in> nd_pending s. \<exists>t. nd_store_timer s = Some t \<and> t \<le> store_delay nc flag"
    unfolding stores_due_def by blast+
  let ?fl = "filter (\<lambda>flag. flag \<in> nd_pending s) (store_order nc)"
  have "distinct ?fl" "set ?fl = nd_pending s" using due(1) store_order_distinct by auto
  then show ?thesis using due schedule_rpl_due [of nc s] by (auto simp: store_pending_result)
qed

text \<open>
  With a timeout of zero the entries of the replay list should be written at once.  If a generic
  store is pending they wait for it.
\<close>

lemma rpl_store_waits:
  assumes "nc_rpl_store_timeout nc = 0" "nd_pending s = {}" "nd_store_timer s = None"
  shows "nd_store_timer (bt_mesh_settings_store_schedule nc BT_MESH_SETTINGS_RPL_PENDING (bt_mesh_settings_store_schedule nc BT_MESH_SETTINGS_CFG_PENDING s)) =
    Some (nc_store_timeout nc * 1000)"
  using assms by (simp add: bt_mesh_settings_store_schedule_def Let_def store_timeout_def NO_WAIT_PENDING_BITS_def GENERIC_PENDING_BITS_def)

section \<open>An example\<close>

definition hb_example :: bt_mesh_hb_pub where
  "hb_example = \<lparr>hp_dst = 0xc000, hp_count = 0xffff, hp_ttl = 5, hp_feat = 1, hp_net_idx = 0, hp_period = 16\<rparr>"

definition node_cfg_example :: node_cfg where
  "node_cfg_example = \<lparr>nc_trans = seg_cfg, nc_relay = True, nc_pb_gatt = True, nc_default_ttl = 7, nc_net_transmit = (2, 20), nc_relay_retransmit = (2, 20),
     nc_relay_enabled = True, nc_beacon_enabled = True, nc_gatt_proxy_enabled = True, nc_friend_enabled = False, nc_store_timeout = 2, nc_rpl_store_timeout = 5\<rparr>"

definition node_booted :: node_state where
  "node_booted = \<lparr>nd_trans = seg_state\<lparr>ts_layer := (ts_layer seg_state)\<lparr>nl_net := (ts_net seg_state)\<lparr>bm_valid := False\<rparr>\<rparr>,
       ts_keys := (ts_keys seg_state)\<lparr>ks_subnets := [link_subnet]\<rparr>\<rparr>,
     nd_relay = True, nd_beacon = True, nd_gatt_proxy = True, nd_friend = False, nd_default_ttl = 7, nd_net_xmit = 10, nd_relay_xmit = 10,
     nd_first_half = False, nd_beacon_timer = None, nd_beacon_out = [],
     nd_pub = \<lparr>hp_dst = 0, hp_count = 0, hp_ttl = 0, hp_feat = 0, hp_net_idx = 0xffff, hp_period = 0\<rparr>,
     nd_sub = \<lparr>hb_period = 0, hb_remaining = 0, hb_src = 0, hb_dst = 0, hb_count = 0, hb_min_hops = 0, hb_max_hops = 0\<rparr>,
     nd_pub_timer = None, nd_sub_timer = None, nd_pending = {}, nd_store_timer = None, nd_out = []\<rparr>"

definition node_configured :: node_state where
  "node_configured = node_booted\<lparr>nd_trans := (nd_trans node_booted)\<lparr>ts_layer := (ts_layer seg_state)\<lparr>nl_net := (ts_net seg_state)\<lparr>bm_valid := True\<rparr>\<rparr>\<rparr>,
     nd_relay := False, nd_relay_xmit := 3, nd_net_xmit := 4, nd_default_ttl := 9, nd_pub := hb_example\<rparr>"

lemma node_example_fields:
  "bm_valid (nd_mesh node_configured)" "loading node_booted" "nc_relay node_cfg_example" "nd_default_ttl node_configured = 9" "nd_out node_configured = []"
  "nd_relay_xmit node_configured = 3" "nd_pub node_configured = hb_example" "\<not> bm_valid (nd_mesh node_booted)" "nd_pub_timer node_booted = None"
  "nd_pending node_booted = {}" "nd_store_timer node_booted = None" "nd_out node_booted = []"
  by (simp_all add: node_configured_def node_booted_def loading_def node_cfg_example_def)

theorem cfg_restored_witness:
  "\<exists>v s1. nd_out (bt_mesh_cfg_pending_store node_cfg_example node_configured) = [Save_cfg v] \<and>
    cfg_set node_cfg_example seg_env 7 (Inr v) node_booted = Some (None, s1) \<and> nd_relay_xmit s1 = 3 \<and> nd_default_ttl s1 = 9 \<and> \<not> nd_relay s1"
proof -
  have ttl: "nd_default_ttl node_configured \<noteq> 1" "nd_default_ttl node_configured \<le> BT_MESH_TTL_MAX" by (simp_all add: node_example_fields BT_MESH_TTL_MAX_def)
  have "\<not> nd_relay node_configured" by (simp add: node_configured_def)
  then show ?thesis using cfg_restored [OF node_example_fields(1) ttl node_example_fields(2), of node_cfg_example seg_env] node_example_fields(3-6) by auto
qed

theorem hb_publication_restored_witness:
  "\<exists>val s1. nd_out (bt_mesh_hb_pub_pending_store node_configured) = [Save_hb_pub val] \<and> hb_pub_set node_cfg_example (Inr val) node_booted = (None, s1) \<and>
    nd_pub s1 = hb_example \<and> nd_pub_timer (bt_mesh_hb_start s1) \<noteq> None"
proof -
  have sub: "bt_mesh_subnet_get 0 (nd_keys node_booted) \<noteq> None"
    by (simp add: node_booted_def bt_mesh_subnet_get_def link_subnet_def)
  have p: "hp_period hb_example = ucast (bt_mesh_hb_pwr2 5)" "hp_feat hb_example AND BT_MESH_FEAT_SUPPORTED = hp_feat hb_example" "hp_dst hb_example \<noteq> BT_MESH_ADDR_UNASSIGNED"
      "hp_net_idx hb_example < 0x1000" "hp_net_idx hb_example = 0" "unat (5 :: u8) \<le> 16" by code_simp+
  have c: "hp_count hb_example = 0xffff" "hp_period hb_example \<noteq> 0" "hb_example\<lparr>hp_count := 0xffff\<rparr> = hb_example" by (simp_all add: hb_example_def)
  obtain val s1 where v: "nd_out (bt_mesh_hb_pub_pending_store node_configured) = nd_out node_configured @ [Save_hb_pub val]"
      "hb_pub_set node_cfg_example (Inr val) node_booted = (None, s1)"
      "nd_pub s1 = (if bt_mesh_subnet_get (hp_net_idx (nd_pub node_configured)) (nd_keys node_booted) = None then nd_pub node_booted
        else (nd_pub node_configured)\<lparr>hp_count := (if hp_count (nd_pub node_configured) = 0xffff then 0xffff else 0)\<rparr>)"
      "bt_mesh_subnet_get (hp_net_idx (nd_pub node_configured)) (nd_keys node_booted) \<noteq> None \<longrightarrow>
        (nd_pub_timer (bt_mesh_hb_start s1) \<noteq> None \<longleftrightarrow> hp_count (nd_pub node_configured) = 0xffff \<and> hp_period (nd_pub node_configured) \<noteq> 0)"
    using hb_publication_restored [of node_configured 5 node_booted node_cfg_example] p node_example_fields(7-9) by auto
  then show ?thesis using sub p(5) c node_example_fields(5,7) by auto
qed

text \<open>A store of the configuration that becomes urgent with one of the sequence number.\<close>

theorem pending_stores_run_witness:
  "\<exists>s. (settings_step node_cfg_example)\<^sup>*\<^sup>* node_booted s \<and> nd_pending s = {BT_MESH_SETTINGS_CFG_PENDING, BT_MESH_SETTINGS_SEQ_PENDING} \<and>
    nd_store_timer s = Some 0 \<and> nd_pending (store_pending node_cfg_example s) = {}"
proof -
  let ?nc = node_cfg_example
  let ?a = "bt_mesh_settings_store_schedule ?nc BT_MESH_SETTINGS_CFG_PENDING node_booted"
  let ?s = "bt_mesh_settings_store_schedule ?nc BT_MESH_SETTINGS_SEQ_PENDING ?a"
  have "settings_step ?nc node_booted ?a" "settings_step ?nc ?a ?s" by (rule settings_step.Schedule; simp add: store_order_def)+
  then have run: "(settings_step ?nc)\<^sup>*\<^sup>* node_booted ?s" by (meson rtranclp.rtrancl_into_rtrancl rtranclp.rtrancl_refl)
  have a: "nd_pending ?a = {BT_MESH_SETTINGS_CFG_PENDING}" by (simp add: bt_mesh_settings_store_schedule_def Let_def node_example_fields)
  then have p: "nd_pending ?s = {BT_MESH_SETTINGS_CFG_PENDING, BT_MESH_SETTINGS_SEQ_PENDING}"
    by (auto simp: bt_mesh_settings_store_schedule_def [of _ _ ?a] Let_def)
  note r = pending_stores_run [OF run node_example_fields(10)]
  have "store_delay ?nc BT_MESH_SETTINGS_SEQ_PENDING = 0" by (simp add: store_delay_def NO_WAIT_PENDING_BITS_def)
  moreover have "\<exists>t. nd_store_timer ?s = Some t \<and> t \<le> store_delay ?nc BT_MESH_SETTINGS_SEQ_PENDING" using r p by blast
  ultimately have "nd_store_timer ?s = Some 0" by auto
  then show ?thesis using run p r by blast
qed

end
