(* ===== verification/Spec2Isabelle.thy ===== *)
theory Spec2Isabelle
  imports Mesh_Net_Path Mesh_Keys_Storage Mesh_Seg_Deliver Mesh_Seg_Ack Mesh_Acc_Recv Mesh_Acc_Store Mesh_Px_Filter Mesh_Px_Adv Mesh_Cfg_Store
begin

text \<open>
  A verification library for the Bluetooth Mesh core of the Zephyr Bluetooth stack (all paths
  are below \<open>src/\<close>).

  \<^bold>\<open>The program.\<close>  The repository is a port of Zephyr's Bluetooth host.  Its own core logic that
  this library covers is the mesh stack in \<open>core/src/mesh\<close> and what it stands on.  A message
  goes down from the access layer to the transport layer, which seals it with an application
  key and cuts it into segments; the network layer gives each PDU a sequence number, seals it
  with the network key of a subnet, obfuscates its header and hands it to a bearer.  On the
  way up the network layer tries the keys it has, drops duplicates and relays; the transport
  layer drops replays, acknowledges and reassembles segments, and opens the message.  The
  sequence number and the IV index of \<open>net.c\<close> are the nonce of both seals, which is why their
  growth, their storage and the replay list decide the security of the whole.  Beacons spread
  the IV index and the progress of a Key Refresh to the neighbours of a node; a phone without a
  mesh bearer takes part through a proxy, over the GATT services of a node, which relay to it
  what passes its address filter.

  \<^bold>\<open>Theories and sources.\<close>
  \<^item> \<open>Bt_Prelude\<close>: words of the widths of the C types, byte strings, error codes, memory writes.
  \<^item> \<open>Byte_Order\<close>: \<open>core/include/sys/byteorder.h\<close>, on hosts of both byte orders.
  \<^item> \<open>Net_Buf\<close>: the \<open>net_buf_simple\<close> functions of \<open>core/src/utils/buf.c\<close>.  A buffer is a record of
    its memory, data offset, length and size; a failed assertion is \<open>None\<close>.
  \<^item> \<open>Tc_Aes\<close>, \<open>Tc_Cmac\<close>: \<open>aes_encrypt.c\<close>, \<open>aes_decrypt.c\<close> and \<open>cmac_mode.c\<close> of
    \<open>core/src/tinycrypt/source\<close>; \<open>Bt_Crypto\<close>: \<open>crypto.c\<close> and \<open>aes_ccm.c\<close> of \<open>core/src/host\<close>.
  \<^item> \<open>Mesh_Crypto\<close>: \<open>crypto.c\<close> and \<open>crypto.h\<close> of \<open>core/src/mesh\<close>; \<open>Mesh_Types\<close>: addresses, message
    contexts and configuration that the mesh components share.
  \<^item> \<open>Mesh_Rpl\<close>: \<open>rpl.c\<close>; \<open>Mesh_Iv\<close>: the IV Update procedure, sequence numbers and their storage,
    from \<open>net.c\<close>.
  \<^item> \<open>Mesh_Subnet\<close>, \<open>Mesh_App_Keys\<close>, \<open>Mesh_Key_Store\<close>: \<open>subnet.c\<close> and \<open>app_keys.c\<close>; their proofs are in
    \<open>Mesh_Keys\<close> and \<open>Mesh_Keys_Storage\<close>.
  \<^item> \<open>Mesh_Net\<close>: the rest of \<open>net.c\<close>; its proofs are in \<open>Mesh_Net_Cache\<close>, \<open>Mesh_Net_Rx\<close> and
    \<open>Mesh_Net_Path\<close>.
  \<^item> \<open>Mesh_Seg_Tx\<close>, \<open>Mesh_Seg_Rx\<close>: \<open>transport.c\<close>; the proofs are in \<open>Mesh_Seg_Slab\<close>, \<open>Mesh_Seg_Inv\<close>,
    \<open>Mesh_Seg_Wire\<close>, \<open>Mesh_Seg_Deliver\<close> and \<open>Mesh_Seg_Ack\<close>.
  \<^item> \<open>Mesh_Acc\<close>, \<open>Mesh_Acc_Pub\<close>: \<open>access.c\<close> and \<open>msg.c\<close>, where a model is an index into the array of
    models; the proofs are in \<open>Mesh_Acc_Ext\<close> (extensions), \<open>Mesh_Acc_Recv\<close> (opcodes and dispatch)
    and \<open>Mesh_Acc_Store\<close> (configuration in storage).
  \<^item> \<open>Mesh_Bc\<close>: \<open>beacon.c\<close>, over the network layer and the key tables, which it calls and whose
    calls back it runs; the proofs are in \<open>Mesh_Bc_Auth\<close>.
  \<^item> \<open>Mesh_Px\<close>, \<open>Mesh_Px_Gatt\<close>: \<open>proxy_msg.c\<close> and \<open>gatt_services.c\<close>, where a client is an index into the
    array of clients; the proofs are in \<open>Mesh_Px_Sar\<close> (segmentation), \<open>Mesh_Px_Filter\<close> (filters and
    relaying) and \<open>Mesh_Px_Adv\<close> (advertising).

  \<^item> \<open>Mesh_Cfg\<close>: the configuration state of \<open>cfg.c\<close>, the heartbeats of \<open>heartbeat.c\<close> and the scheduling of
    stores of \<open>settings.c\<close>, over the transport layer and the beacons; the proofs are in
    \<open>Mesh_Cfg_Store\<close>.

  \<^bold>\<open>State and effects.\<close>  A C structure is a record with the members of the source; file-scope
  variables are gathered into one record per component, and the record of a layer contains the
  record of the layer below (\<open>trans_state\<close> has the \<open>net_layer\<close>, which has \<open>bt_mesh_net\<close>, which has
  the replay list).  A pointer into a table is an index.  Operations return the new state; an
  \<open>errno\<close> is an optional value, and \<open>None\<close> of the outer option is an assertion failure or an
  access outside an array.  Calls that leave the modelled part (settings, advertising,
  callbacks, the friend queue, the handlers of models) are appended to a log in the order in which
  the code makes them; what such a call answers is a field of an environment record
  (\<open>net_env\<close>, \<open>trans_env\<close>, \<open>access_env\<close>, \<open>beacon_env\<close>, \<open>proxy_env\<close>), which a theorem either leaves arbitrary or restricts by a named
  hypothesis.  Options of \<open>Kconfig\<close> are fields of a configuration record.  Delayed work is a
  field that says when it is due, and a handler that may be run at any time.

  \<^bold>\<open>What is shown.\<close>
  \<^item> Cryptography: AES decryption inverts encryption; incremental CMAC equals CMAC; CCM is the
    standard's CCM for messages of up to 255 bytes, its decryption accepts exactly sealed
    strings; the network and application seals of the mesh profile round-trip.
  \<^item> Buffers: every program of buffer operations refines operations on lists of bytes.
  \<^item> Nonces: pairs of IV index and sequence number strictly increase along every run; a node
    that restarts with no store of its sequence number outstanding continues above every number
    it has used, and one that restarts while that store is delayed uses numbers again
    (\<open>seq_reused_before_store\<close>); the replay list accepts only newer messages; the IV Update
    requests succeed in exactly the cases of the profile.
  \<^item> Keys: an invariant of every sequence of key operations, the Key Refresh transitions, the
    exact effect of deleting a subnet, the agreement of the keys a sender and a receiver choose,
    and that storage equals the tables after the pending stores.
  \<^item> Network layer: what is encoded is decoded by every node that is ready for it, nothing that
    comes over the advertising bearer is accepted twice within the window of the cache unless
    the transport layer asks for it again, relaying is exact, and reception completes whatever
    bytes arrive.
  \<^item> Transport layer: every segment buffer is free or owned by exactly one context in every
    reachable state; the segments the sender builds, received in any order and with repetitions,
    give the message back; the sealed message is delivered unchanged; an acknowledgement
    releases what it names; a transmission without acknowledgements ends, where its work runs
    only when the code has scheduled it.
  \<^item> Access layer: the opcode codec, the exact set of handlers a message reaches, against a
    specification by models, keys, addresses and lengths, the storage of the configuration of
    models, and that walks over extended models end.
  \<^item> Beacons: what one node creates a node accepts that holds the key as a valid one and has
    not cached the beacon, with the effect that the flags and the index demand; without a key
    that authenticates it a beacon changes nothing of keys and IV index.
  \<^item> Proxy: a message of any length is cut and completed again over every connection; the
    filters are the bounded sets of the profile; relaying reaches exactly the clients whose
    filter passes and balances its references, also where a notification fails; the choice of a
    subnet to advertise ends and misses none.
  \<^item> Configuration: the values of a node and its heartbeat publication come back after a
    restart, with nothing else changed but what the code's reaction to them demands, and every
    store that is scheduled runs once, as the function of its kind, within the delay of its
    kind.
  \<^item> Where the code does not do what it means to, a theorem states what it does: the additional
    block of CMAC, the length fields of CCM, the holes in the replay list, the reused key after
    a restart, the long check value, the acknowledgement of group messages, the lost
    subscriptions of extended models, the beacon that is forgotten when it comes too early, the
    segments that overrun the buffer of a proxy client, the proxy that is advertised while it is
    disabled, the sequence numbers used again when a restart comes before their store, the
    replay list that waits for the general store delay when its own is shorter, and the count of
    heartbeats that wraps around.

  \<^bold>\<open>Interfaces.\<close>  The locales state what one part needs of another: the block cipher under CMAC
  and CCM, the abstract buffer, the tables of keys, the ring caches, the tables of segment
  contexts, and the bounded table behind an address filter; each is interpreted on the definitions of the model.

  \<^bold>\<open>Bounds and termination.\<close>  Recursions are structural or have a measure.  The two loops along
  the pointers between extended models have fuel, the number of models, with \<open>None\<close> for too
  little; \<open>extension_walks_end\<close> shows that it is always enough.
  Two loops of the proxy need not end for every state, the cutting of a message for a connection
  without room and the search for a subnet; they are partial functions into options, and
  \<open>proxy_message_reassembled\<close> and \<open>next_sub_complete\<close> show that they return.
  Table sizes are parameters (lengths of the lists in the state).  Lengths that C keeps in
  sixteen bits are bounded by the well-formedness of buffers; where a length is cut to eight
  bits the cut is written out.

  \<^bold>\<open>Not modelled.\<close>  Concurrency between work items: handlers run to completion, as they do on the
  one system work queue.  The radio and advertising drivers, timers themselves, logging, the
  shell and the samples do no computation of their own.  Friendship, provisioning, the
  configuration and health models and the host protocols (L2CAP, ATT, GATT, SMP, classic profiles) are large
  state machines of their own above or beside the layers modelled here; the points where the
  modelled code calls them are log entries or environment fields.  Elliptic curves, random
  numbers and the flash behind the settings are parameters or outside.
\<close>

end
